(* ===== verification/Base.thy ===== *)
theory Base
  imports Main "HOL-Library.Word" "HOL-Library.List_Lexorder"
begin

text \<open>
  The prelude of the development: the machine types of the Rust sources, fallible results, the
  fragments of the Rust standard library that the sources use (slices split at a separator,
  joins, \<open>find_map\<close>, hexadecimal and decimal formatting, big- and little-endian bytes,
  checked and saturating additions of \<open>u64\<close> values) and the generic lemmas
  the component theories share. Three interfaces are stated here as locales, because
  several components provide them: an encoder whose outputs can be told apart at the front of a
  longer byte string, a fallible step that keeps an invariant, and a fold over a monitor that
  only ever adds to its findings.
\<close>

section \<open>Machine types\<close>

type_synonym u8 = "8 word"
type_synonym u16 = "16 word"
type_synonym u32 = "32 word"
type_synonym u64 = "64 word"
type_synonym bytes = "u8 list"

text \<open>
  A Rust \<open>String\<close> is its UTF-8 bytes; in HOL a \<open>string\<close> is a list of 8-bit characters, so
  \<open>length\<close> is the byte length, as \<open>str::len\<close> is.
\<close>

definition as_bytes :: "string \<Rightarrow> bytes" where
  "as_bytes s = map of_char s"

definition text_of_bytes :: "bytes \<Rightarrow> string" where
  "text_of_bytes bs = map (\<lambda>b. char_of (unat b)) bs"

named_theorems result_simps "rules for fallible results"
named_theorems byte_simps "rules for bytes, text and encodings"

lemma length_as_bytes [simp]: "length (as_bytes s) = length s"
  by (simp add: as_bytes_def)

lemma as_bytes_Nil [simp]: "as_bytes [] = []"
  by (simp add: as_bytes_def)

lemma as_bytes_append [simp]: "as_bytes (s @ t) = as_bytes s @ as_bytes t"
  by (simp add: as_bytes_def)

lemma as_bytes_eq_Nil [simp]: "as_bytes s = [] \<longleftrightarrow> s = []"
  by (simp add: as_bytes_def)

lemma unat_of_char [simp]: "unat (of_char c :: u8) = of_char c"
proof -
  have small: "(of_char c :: nat) < 256"
    by (metis char_of_mod_256 of_char_mod_256 mod_less_divisor of_char_of zero_less_numeral)
  have "(of_char c :: u8) = of_nat (of_char c)" by (rule of_nat_of_char [symmetric])
  then have "unat (of_char c :: u8) = of_char c mod 2 ^ 8"
    by (simp add: unat_of_nat del: of_nat_of_char)
  with small show ?thesis by simp
qed

lemma text_of_as_bytes [simp]: "text_of_bytes (as_bytes s) = s"
  by (induction s) (simp_all add: text_of_bytes_def as_bytes_def)

lemma as_bytes_of_text [simp]: "as_bytes (text_of_bytes bs) = bs"
proof -
  have "of_char (char_of (unat (b :: u8))) = b" for b
  proof -
    have "unat b < 256" using unsigned_less [of b] by simp
    then have "unat (of_char (char_of (unat b)) :: u8) = unat b" by simp
    then show ?thesis by (simp add: word_unat_eq_iff)
  qed
  then show ?thesis by (induction bs) (simp_all add: as_bytes_def text_of_bytes_def)
qed

lemma as_bytes_eq_iff [simp]: "as_bytes s = as_bytes t \<longleftrightarrow> s = t"
  by (metis text_of_as_bytes)

text \<open>
  \<open>std::str::from_utf8\<close>: the well-formed UTF-8 byte sequences (no overlong form, no surrogate,
  nothing above \<open>10FFFF\<close>).
\<close>

definition utf8_cont :: "u8 \<Rightarrow> bool" where
  "utf8_cont b \<longleftrightarrow> 0x80 \<le> b \<and> b \<le> 0xbf"

fun is_utf8 :: "bytes \<Rightarrow> bool" where
  "is_utf8 [] = True"
| "is_utf8 (a # rest) =
     (if a < 0x80 then is_utf8 rest
      else (case rest of
        [] \<Rightarrow> False
      | b # rest1 \<Rightarrow>
          if 0xc2 \<le> a \<and> a \<le> 0xdf then utf8_cont b \<and> is_utf8 rest1
          else (case rest1 of
            [] \<Rightarrow> False
          | c # rest2 \<Rightarrow>
              if 0xe0 \<le> a \<and> a \<le> 0xef then
                utf8_cont b \<and> (a = 0xe0 \<longrightarrow> 0xa0 \<le> b) \<and> (a = 0xed \<longrightarrow> b \<le> 0x9f)
                \<and> utf8_cont c \<and> is_utf8 rest2
              else (case rest2 of
                [] \<Rightarrow> False
              | d # rest3 \<Rightarrow>
                  0xf0 \<le> a \<and> a \<le> 0xf4 \<and> utf8_cont b \<and> (a = 0xf0 \<longrightarrow> 0x90 \<le> b)
                  \<and> (a = 0xf4 \<longrightarrow> b \<le> 0x8f) \<and> utf8_cont c \<and> utf8_cont d \<and> is_utf8 rest3))))"

definition from_utf8 :: "bytes \<Rightarrow> string option" where
  "from_utf8 bs = (if is_utf8 bs then Some (text_of_bytes bs) else None)"

section \<open>Fallible results\<close>

text \<open>
  \<open>Result<T, E>\<close> is the sum \<open>'e + 'a\<close> with \<open>Inl\<close> for \<open>Err\<close>. \<open>and_then\<close> is the \<open>?\<close> operator;
  \<open>map_err\<close> is the method of that name; \<open>for_each\<close> is a \<open>for\<close> loop whose body may return early
  with an error; \<open>collect\<close> collects an iterator of results.
\<close>

definition and_then :: "'e + 'a \<Rightarrow> ('a \<Rightarrow> 'e + 'b) \<Rightarrow> 'e + 'b" where
  "and_then r f = (case r of Inl e \<Rightarrow> Inl e | Inr x \<Rightarrow> f x)"

definition map_err :: "('e \<Rightarrow> 'f) \<Rightarrow> 'e + 'a \<Rightarrow> 'f + 'a" where
  "map_err g r = (case r of Inl e \<Rightarrow> Inl (g e) | Inr x \<Rightarrow> Inr x)"

definition ok_or :: "'e \<Rightarrow> 'a option \<Rightarrow> 'e + 'a" where
  "ok_or e opt = (case opt of None \<Rightarrow> Inl e | Some x \<Rightarrow> Inr x)"

fun for_each :: "('s \<Rightarrow> 'x \<Rightarrow> 'e + 's) \<Rightarrow> 's \<Rightarrow> 'x list \<Rightarrow> 'e + 's" where
  "for_each step s [] = Inr s"
| "for_each step s (x # xs) = and_then (step s x) (\<lambda>s'. for_each step s' xs)"

fun collect :: "('x \<Rightarrow> 'e + 'a) \<Rightarrow> 'x list \<Rightarrow> 'e + 'a list" where
  "collect f [] = Inr []"
| "collect f (x # xs) = and_then (f x) (\<lambda>y. and_then (collect f xs) (\<lambda>ys. Inr (y # ys)))"

definition is_ok :: "'e + 'a \<Rightarrow> bool" where
  "is_ok r = (case r of Inl _ \<Rightarrow> False | Inr _ \<Rightarrow> True)"

lemma and_then_simps [simp, result_simps]:
  "and_then (Inl e) f = Inl e"
  "and_then (Inr x) f = f x"
  by (simp_all add: and_then_def)

lemma and_then_eq_Inr [simp, result_simps]:
  "and_then r f = Inr y \<longleftrightarrow> (\<exists>x. r = Inr x \<and> f x = Inr y)"
  by (cases r) auto

lemma and_then_eq_Inl [result_simps]:
  "and_then r f = Inl e \<longleftrightarrow> r = Inl e \<or> (\<exists>x. r = Inr x \<and> f x = Inl e)"
  by (cases r) auto

lemma map_err_simps [simp, result_simps]:
  "map_err g (Inl e) = Inl (g e)"
  "map_err g (Inr x) = Inr x"
  by (simp_all add: map_err_def)

lemma map_err_eq_Inr [simp, result_simps]: "map_err g r = Inr x \<longleftrightarrow> r = Inr x"
  by (cases r) auto

lemma ok_or_simps [simp, result_simps]:
  "ok_or e None = Inl e"
  "ok_or e (Some x) = Inr x"
  by (simp_all add: ok_or_def)

lemma ok_or_eq_Inr [simp, result_simps]: "ok_or e opt = Inr x \<longleftrightarrow> opt = Some x"
  by (cases opt) auto

lemma is_ok_simps [simp, result_simps]: "is_ok (Inl e) = False" "is_ok (Inr x) = True"
  by (simp_all add: is_ok_def)

lemma ex_unit: "(\<exists>x :: unit. P x) \<longleftrightarrow> P ()"
  by (metis old.unit.exhaust)

lemma guard_eq_Inr [simp, result_simps]:
  "(if c then Inl e else r) = Inr x \<longleftrightarrow> \<not> c \<and> r = Inr x"
  by simp

lemma is_ok_iff: "is_ok r \<longleftrightarrow> (\<exists>x. r = Inr x)"
  by (cases r) auto

lemma for_each_append:
  "for_each step s (xs @ ys) = and_then (for_each step s xs) (\<lambda>s'. for_each step s' ys)"
proof (induction xs arbitrary: s)
  case Nil
  show ?case by simp
next
  case (Cons x xs)
  then show ?case by (cases "step s x") simp_all
qed

lemma collect_length: "collect f xs = Inr ys \<Longrightarrow> length ys = length xs"
  by (induction xs arbitrary: ys) auto

lemma collect_list_all2: "collect f xs = Inr ys \<Longrightarrow> list_all2 (\<lambda>x y. f x = Inr y) xs ys"
  by (induction xs arbitrary: ys) auto

lemma collect_set: "collect f xs = Inr ys \<Longrightarrow> y \<in> set ys \<Longrightarrow> \<exists>x\<in>set xs. f x = Inr y"
  by (induction xs arbitrary: ys) auto

lemma collect_total: "(\<And>x. x \<in> set xs \<Longrightarrow> f x = Inr (g x)) \<Longrightarrow> collect f xs = Inr (map g xs)"
  by (induction xs) auto

text \<open>
  The interface of a loop body: a fallible step that keeps an invariant on the states it
  accepts. The loops of the layer application, of the agent and of the runtime provide it.
\<close>

locale fallible_step =
  fixes step :: "'s \<Rightarrow> 'x \<Rightarrow> 'e + 's"
    and inv :: "'s \<Rightarrow> bool"
    and legal :: "'x \<Rightarrow> bool"
  assumes step_inv: "inv s \<Longrightarrow> legal x \<Longrightarrow> step s x = Inr s' \<Longrightarrow> inv s'"
begin

lemma for_each_inv:
  assumes "inv s" and "list_all legal xs" and "for_each step s xs = Inr s'"
  shows "inv s'"
  using assms
proof (induction xs arbitrary: s)
  case Nil
  then show ?case by simp
next
  case (Cons x xs)
  then obtain t where t: "step s x = Inr t" and rest: "for_each step t xs = Inr s'"
    by auto
  from Cons.prems t have "inv t" by (auto intro: step_inv)
  with Cons.prems rest show ?case by (auto intro: Cons.IH)
qed

end

section \<open>Lists and slices\<close>

text \<open>\<open>slice::split\<close>: the pieces between the separators, at least one, empty pieces kept.\<close>

fun split_on :: "'a \<Rightarrow> 'a list \<Rightarrow> 'a list list" where
  "split_on c [] = [[]]"
| "split_on c (x # xs) =
     (if x = c then [] # split_on c xs
      else (case split_on c xs of p # ps \<Rightarrow> (x # p) # ps | [] \<Rightarrow> [[x]]))"

text \<open>\<open>slice::join\<close> with a one-element separator.\<close>

fun join_with :: "'a \<Rightarrow> 'a list list \<Rightarrow> 'a list" where
  "join_with c [] = []"
| "join_with c [p] = p"
| "join_with c (p # q # ps) = p @ c # join_with c (q # ps)"

fun find_map :: "('a \<Rightarrow> 'b option) \<Rightarrow> 'a list \<Rightarrow> 'b option" where
  "find_map f [] = None"
| "find_map f (x # xs) = (case f x of Some y \<Rightarrow> Some y | None \<Rightarrow> find_map f xs)"

definition starts_with :: "'a list \<Rightarrow> 'a list \<Rightarrow> bool" where
  "starts_with xs p \<longleftrightarrow> take (length p) xs = p"

definition strip_prefix :: "'a list \<Rightarrow> 'a list \<Rightarrow> 'a list option" where
  "strip_prefix p xs = (if starts_with xs p then Some (drop (length p) xs) else None)"

text \<open>\<open>str::split_once\<close> at a one-byte separator: the parts around its first occurrence.\<close>

fun split_once :: "'a \<Rightarrow> 'a list \<Rightarrow> ('a list \<times> 'a list) option" where
  "split_once c [] = None"
| "split_once c (x # xs) =
     (if x = c then Some ([], xs)
      else map_option (\<lambda>(a, b). (x # a, b)) (split_once c xs))"

text \<open>\<open>slice::get(a..b)\<close>: the range when it lies inside the slice.\<close>

definition get_range :: "'a list \<Rightarrow> nat \<Rightarrow> nat \<Rightarrow> 'a list option" where
  "get_range xs a b = (if a \<le> b \<and> b \<le> length xs then Some (take (b - a) (drop a xs)) else None)"

definition trim_start :: "'a \<Rightarrow> 'a list \<Rightarrow> 'a list" where
  "trim_start c xs = dropWhile (\<lambda>x. x = c) xs"

definition trim_matches :: "'a \<Rightarrow> 'a list \<Rightarrow> 'a list" where
  "trim_matches c xs = rev (trim_start c (rev (trim_start c xs)))"

lemma split_on_not_Nil [simp]: "split_on c xs \<noteq> []"
  by (induction xs) (auto split: list.splits)

lemma join_with_Cons: "ps \<noteq> [] \<Longrightarrow> join_with c (p # ps) = p @ c # join_with c ps"
  by (cases ps) simp_all

lemma join_split [simp]: "join_with c (split_on c xs) = xs"
proof (induction xs)
  case Nil
  show ?case by simp
next
  case (Cons x xs)
  obtain p ps where p: "split_on c xs = p # ps" by (cases "split_on c xs") auto
  with Cons have "join_with c (p # ps) = xs" by simp
  then show ?case by (cases ps) (auto simp: p join_with_Cons)
qed

lemma split_on_pieces: "p \<in> set (split_on c xs) \<Longrightarrow> c \<notin> set p"
proof (induction xs arbitrary: p)
  case Nil
  then show ?case by simp
next
  case (Cons x xs)
  obtain q ps where q: "split_on c xs = q # ps" by (cases "split_on c xs") auto
  with Cons show ?case by (auto split: if_splits)
qed

lemma split_on_free: "c \<notin> set xs \<Longrightarrow> split_on c xs = [xs]"
  by (induction xs) auto

lemma split_on_append_sep: "c \<notin> set p \<Longrightarrow> split_on c (p @ c # xs) = p # split_on c xs"
  by (induction p) auto

lemma split_join:
  assumes "ps \<noteq> []" and "\<forall>p\<in>set ps. c \<notin> set p"
  shows "split_on c (join_with c ps) = ps"
  using assms
proof (induction ps)
  case Nil
  then show ?case by simp
next
  case (Cons p ps)
  then show ?case
    by (cases "ps = []") (auto simp: split_on_free join_with_Cons split_on_append_sep)
qed

text \<open>\<open>iter().position(..)\<close>: the index of the first occurrence.\<close>

fun position_of :: "'a \<Rightarrow> 'a list \<Rightarrow> nat option" where
  "position_of c [] = None"
| "position_of c (x # xs) = (if x = c then Some 0 else map_option Suc (position_of c xs))"

lemma position_of_less: "position_of c xs = Some i \<Longrightarrow> i < length xs"
  by (induction xs arbitrary: i) (auto split: if_splits)

lemma position_of_None: "position_of c xs = None \<longleftrightarrow> c \<notin> set xs"
  by (induction xs) auto

lemma position_of_Some: "position_of c xs = Some i \<Longrightarrow> xs = take i xs @ c # drop (Suc i) xs \<and> c \<notin> set (take i xs)"
  by (induction xs arbitrary: i) (auto split: if_splits)

lemma position_of_nth: "position_of c xs = Some i \<Longrightarrow> xs ! i = c"
  by (induction xs arbitrary: i) (auto split: if_splits)

lemma split_on_start: "c \<notin> set r \<Longrightarrow> \<exists>q qs. split_on c (r @ ys) = (r @ q) # qs"
proof (induction r)
  case Nil
  show ?case by (cases "split_on c ys") auto
next
  case (Cons x r)
  then show ?case by auto
qed

lemma split_on_resume:
  "split_on c (xs @ ys) = butlast (split_on c xs) @ split_on c (last (split_on c xs) @ ys)"
proof (induction xs)
  case Nil
  show ?case by simp
next
  case (Cons x xs)
  obtain p ps where p: "split_on c xs = p # ps" by (cases "split_on c xs") auto
  show ?case
  proof (cases "x = c")
    case True
    then show ?thesis using Cons p by simp
  next
    case False
    then show ?thesis using Cons p by (cases ps) auto
  qed
qed

lemma last_line_clean: "c \<notin> set (last (split_on c xs))"
  by (rule split_on_pieces [of _ c xs]) simp

lemma set_split_on: "p \<in> set (split_on c xs) \<Longrightarrow> set p \<subseteq> set xs"
proof (induction xs arbitrary: p)
  case Nil
  then show ?case by simp
next
  case (Cons x xs)
  obtain q ps where q: "split_on c xs = q # ps" by (cases "split_on c xs") auto
  with Cons show ?case by (fastforce split: if_splits)
qed

lemma find_map_None [simp]: "find_map f xs = None \<longleftrightarrow> (\<forall>x\<in>set xs. f x = None)"
  by (induction xs) (auto split: option.splits)

lemma find_map_SomeD: "find_map f xs = Some y \<Longrightarrow> \<exists>x\<in>set xs. f x = Some y"
  by (induction xs) (auto split: option.splits)

lemma find_map_Some_iff:
  "find_map f xs = Some y \<longleftrightarrow>
     (\<exists>us x vs. xs = us @ x # vs \<and> f x = Some y \<and> (\<forall>u\<in>set us. f u = None))"
proof (induction xs)
  case Nil
  show ?case by simp
next
  case (Cons a xs)
  show ?case
  proof (cases "f a")
    case None
    have "(\<exists>us x vs. a # xs = us @ x # vs \<and> f x = Some y \<and> (\<forall>u\<in>set us. f u = None)) \<longleftrightarrow>
          (\<exists>us x vs. xs = us @ x # vs \<and> f x = Some y \<and> (\<forall>u\<in>set us. f u = None))"
      (is "?l \<longleftrightarrow> ?r")
    proof
      assume ?l
      then obtain us x vs where e: "a # xs = us @ x # vs" "f x = Some y" "\<forall>u\<in>set us. f u = None"
        by blast
      with None show ?r by (cases us) auto
    next
      assume ?r
      then obtain us x vs where "xs = us @ x # vs" "f x = Some y" "\<forall>u\<in>set us. f u = None"
        by blast
      with None have "a # xs = (a # us) @ x # vs" "\<forall>u\<in>set (a # us). f u = None" by auto
      with \<open>f x = Some y\<close> show ?l by blast
    qed
    with None Cons show ?thesis by simp
  next
    case (Some b)
    have "(\<exists>us x vs. a # xs = us @ x # vs \<and> f x = Some y \<and> (\<forall>u\<in>set us. f u = None)) \<longleftrightarrow> b = y"
      (is "?l \<longleftrightarrow> _")
    proof
      assume ?l
      with Some show "b = y" by (auto simp: Cons_eq_append_conv)
    next
      assume "b = y"
      with Some have "a # xs = [] @ a # xs \<and> f a = Some y \<and> (\<forall>u\<in>set []. f u = None)" by simp
      then show ?l by blast
    qed
    with Some show ?thesis by simp
  qed
qed

lemma find_map_filter: "(\<And>x. x \<in> set xs \<Longrightarrow> \<not> P x \<Longrightarrow> f x = None) \<Longrightarrow> find_map f (filter P xs) = find_map f xs"
  by (induction xs) (auto split: option.splits)

lemma find_map_cong: "(\<And>x. x \<in> set xs \<Longrightarrow> f x = g x) \<Longrightarrow> find_map f xs = find_map g xs"
  by (induction xs) (auto split: option.splits)

lemma find_filter: "(\<And>x. x \<in> set xs \<Longrightarrow> Q x \<Longrightarrow> P x) \<Longrightarrow> find Q (filter P xs) = find Q xs"
  by (induction xs) auto

lemma starts_with_iff: "starts_with xs p \<longleftrightarrow> (\<exists>r. xs = p @ r)"
  by (auto simp: starts_with_def) (metis append_take_drop_id)

lemma starts_with_append [simp]: "starts_with (p @ r) p"
  by (simp add: starts_with_def)

lemma strip_prefix_Some: "strip_prefix p xs = Some r \<longleftrightarrow> xs = p @ r"
  by (auto simp: strip_prefix_def starts_with_def) (metis append_take_drop_id)

lemma split_once_Some: "split_once c xs = Some (a, b) \<longleftrightarrow> xs = a @ c # b \<and> c \<notin> set a"
proof (induction xs arbitrary: a)
  case Nil
  show ?case by simp
next
  case (Cons x xs)
  show ?case
  proof (cases "x = c")
    case True
    then show ?thesis by (cases a) auto
  next
    case False
    then show ?thesis by (cases a) (auto simp: Cons.IH)
  qed
qed

lemma split_once_None: "split_once c xs = None \<longleftrightarrow> c \<notin> set xs"
  by (induction xs) auto

lemma get_range_Some:
  "get_range xs a b = Some ys \<longleftrightarrow> a \<le> b \<and> b \<le> length xs \<and> ys = take (b - a) (drop a xs)"
  by (auto simp: get_range_def)

lemma get_range_length: "get_range xs a b = Some ys \<Longrightarrow> length ys = b - a"
  by (auto simp: get_range_def split: if_splits)

section \<open>Formatting and byte encodings\<close>

definition digit_char :: "nat \<Rightarrow> char" where
  "digit_char d = ''0123456789abcdef'' ! d"

function digits :: "nat \<Rightarrow> nat \<Rightarrow> nat list" where
  "digits b n = (if b < 2 \<or> n < b then [n] else digits b (n div b) @ [n mod b])"
  by pat_completeness auto
termination
  by (relation "measure snd") (auto simp: div_less_dividend)

declare digits.simps [simp del]

text \<open>\<open>{}\<close>, \<open>{:x}\<close> and the zero-padded \<open>{:0k}\<close> of an unsigned integer.\<close>

definition dec :: "nat \<Rightarrow> string" where
  "dec n = map digit_char (digits 10 n)"

definition lower_hex :: "nat \<Rightarrow> string" where
  "lower_hex n = map digit_char (digits 16 n)"

definition zero_pad :: "nat \<Rightarrow> string \<Rightarrow> string" where
  "zero_pad k s = replicate (k - length s) CHR ''0'' @ s"

text \<open>The two lowercase hexadecimal digits of every byte.\<close>

definition hex_of_byte :: "u8 \<Rightarrow> string" where
  "hex_of_byte b = [digit_char (unat b div 16), digit_char (unat b mod 16)]"

definition hex_text :: "bytes \<Rightarrow> string" where
  "hex_text bs = concat (map hex_of_byte bs)"

text \<open>The big- and little-endian bytes of an unsigned integer, at a width of \<open>k\<close> bytes.\<close>

fun be_bytes :: "nat \<Rightarrow> nat \<Rightarrow> bytes" where
  "be_bytes 0 n = []"
| "be_bytes (Suc k) n = be_bytes k (n div 256) @ [of_nat (n mod 256)]"

fun from_be_bytes :: "nat \<Rightarrow> bytes \<Rightarrow> nat" where
  "from_be_bytes acc [] = acc"
| "from_be_bytes acc (b # bs) = from_be_bytes (256 * acc + unat b) bs"

fun le_bytes :: "nat \<Rightarrow> nat \<Rightarrow> bytes" where
  "le_bytes 0 n = []"
| "le_bytes (Suc k) n = of_nat (n mod 256) # le_bytes k (n div 256)"

fun from_le_bytes :: "bytes \<Rightarrow> nat" where
  "from_le_bytes [] = 0"
| "from_le_bytes (b # bs) = unat b + 256 * from_le_bytes bs"

text \<open>Unsigned 64-bit values as naturals, with the overflow behaviour written out.\<close>

definition u64_max :: nat where
  "u64_max = 2 ^ 64 - 1"

definition u32_max :: nat where
  "u32_max = 2 ^ 32 - 1"

definition checked_add :: "nat \<Rightarrow> nat \<Rightarrow> nat option" where
  "checked_add a b = (if a + b \<le> u64_max then Some (a + b) else None)"

definition checked_mul :: "nat \<Rightarrow> nat \<Rightarrow> nat option" where
  "checked_mul a b = (if a * b \<le> u64_max then Some (a * b) else None)"

definition saturating_add :: "nat \<Rightarrow> nat \<Rightarrow> nat" where
  "saturating_add a b = min (a + b) u64_max"

definition checked_add64 :: "u64 \<Rightarrow> u64 \<Rightarrow> u64 option" where
  "checked_add64 a b = (if unat a + unat b \<le> u64_max then Some (a + b) else None)"

text \<open>\<open>str::parse\<close> of an unsigned integer from a text of decimal digits.\<close>

definition is_digit :: "char \<Rightarrow> bool" where
  "is_digit c \<longleftrightarrow> c \<in> set ''0123456789''"

definition digit_value :: "char \<Rightarrow> nat" where
  "digit_value c = of_char c - 48"

definition parse_u32 :: "string \<Rightarrow> u32 option" where
  "parse_u32 s =
     (let n = foldl (\<lambda>acc c. 10 * acc + digit_value c) 0 s
      in if n \<le> u32_max then Some (of_nat n) else None)"

lemma u64_max_eq: "u64_max = 18446744073709551615"
  by (simp add: u64_max_def)

lemma u32_le_max: "unat (w :: u32) \<le> u32_max"
proof -
  have "unat w < 2 ^ 32" using unsigned_less [of w] by simp
  then show ?thesis by (simp add: u32_max_def)
qed

lemma checked_add64_Some:
  "checked_add64 a b = Some c \<Longrightarrow> unat c = unat a + unat b"
proof -
  assume "checked_add64 a b = Some c"
  then have "unat a + unat b < 2 ^ 64" and c: "c = a + b"
    by (auto simp: checked_add64_def u64_max_eq split: if_splits)
  then have "unat (a + b) = unat a + unat b"
    by (simp add: unat_word_ariths)
  with c show ?thesis by simp
qed

lemma u32_max_eq: "u32_max = 4294967295"
  by (simp add: u32_max_def)

lemma digits_less: "2 \<le> b \<Longrightarrow> d \<in> set (digits b n) \<Longrightarrow> d < b"
proof (induction b n rule: digits.induct)
  case (1 b n)
  show ?case
  proof (cases "n < b")
    case True
    with 1 show ?thesis by (simp add: digits.simps [of b n])
  next
    case False
    with 1 show ?thesis by (auto simp: digits.simps [of b n])
  qed
qed

lemma digits_not_Nil [simp]: "digits b n \<noteq> []"
  by (subst digits.simps) simp

lemma digits_length_le: "2 \<le> b \<Longrightarrow> n < b ^ k \<Longrightarrow> 0 < k \<Longrightarrow> length (digits b n) \<le> k"
proof (induction k arbitrary: n)
  case 0
  then show ?case by simp
next
  case (Suc k)
  show ?case
  proof (cases "n < b")
    case True
    then show ?thesis by (simp add: digits.simps [of b n])
  next
    case False
    with Suc.prems have "0 < k" by (cases k) auto
    moreover from Suc.prems have "n div b < b ^ k"
      by (simp add: less_mult_imp_div_less mult.commute)
    ultimately have "length (digits b (n div b)) \<le> k" using Suc by simp
    with False Suc.prems show ?thesis by (simp add: digits.simps [of b n])
  qed
qed

fun undigits :: "nat \<Rightarrow> nat \<Rightarrow> nat list \<Rightarrow> nat" where
  "undigits b acc [] = acc"
| "undigits b acc (d # ds) = undigits b (b * acc + d) ds"

lemma undigits_append: "undigits b acc (xs @ ys) = undigits b (undigits b acc xs) ys"
  by (induction xs arbitrary: acc) auto

lemma undigits_digits: "2 \<le> b \<Longrightarrow> undigits b 0 (digits b n) = n"
proof (induction b n rule: digits.induct)
  case (1 b n)
  show ?case
  proof (cases "n < b")
    case True
    then show ?thesis by (simp add: digits.simps [of b n])
  next
    case False
    with 1 show ?thesis by (simp add: digits.simps [of b n] undigits_append)
  qed
qed

lemma digits_inject: "2 \<le> b \<Longrightarrow> digits b m = digits b n \<longleftrightarrow> m = n"
  by (metis undigits_digits)

lemma less_16_cases:
  "(d::nat) < 16 \<Longrightarrow> d = 0 \<or> d = 1 \<or> d = 2 \<or> d = 3 \<or> d = 4 \<or> d = 5 \<or> d = 6 \<or> d = 7 \<or>
     d = 8 \<or> d = 9 \<or> d = 10 \<or> d = 11 \<or> d = 12 \<or> d = 13 \<or> d = 14 \<or> d = 15"
  by arith

lemma digit_char_inject: "d < 16 \<Longrightarrow> e < 16 \<Longrightarrow> digit_char d = digit_char e \<longleftrightarrow> d = e"
proof -
  have "distinct ''0123456789abcdef''" by simp
  moreover assume "d < 16" "e < 16"
  ultimately show ?thesis
    by (simp add: digit_char_def nth_eq_iff_index_eq)
qed

lemma digit_char_mem: "d < 16 \<Longrightarrow> digit_char d \<in> set ''0123456789abcdef''"
  unfolding digit_char_def by (rule nth_mem) simp

lemma digit_char_dec_mem: "d < 10 \<Longrightarrow> digit_char d \<in> set ''0123456789''"
proof -
  assume d: "d < 10"
  have "''0123456789abcdef'' ! d = (''0123456789'' @ ''abcdef'') ! d" by simp
  also have "\<dots> = ''0123456789'' ! d" using d by (subst nth_append) simp
  also have "\<dots> \<in> set ''0123456789''" by (rule nth_mem) (use d in simp)
  finally show ?thesis by (simp add: digit_char_def)
qed

lemma dec_inject [simp]: "dec m = dec n \<longleftrightarrow> m = n"
proof -
  have "inj_on digit_char {0..<16}"
    by (auto simp: inj_on_def digit_char_inject)
  moreover have "set (digits 10 k) \<subseteq> {0..<16}" for k
    using digits_less [of 10 _ k] by fastforce
  ultimately have "inj_on digit_char (set (digits 10 m) \<union> set (digits 10 n))"
    by (meson Un_least inj_on_subset)
  then have "map digit_char (digits 10 m) = map digit_char (digits 10 n) \<longleftrightarrow> digits 10 m = digits 10 n"
    by (rule inj_on_map_eq_map)
  then show ?thesis by (simp add: dec_def digits_inject)
qed

lemma digit_value_char: "d < 10 \<Longrightarrow> digit_value (digit_char d) = d"
proof -
  assume "d < 10"
  then have "d < 16" "d < 10" by simp_all
  then show ?thesis
    by (drule_tac less_16_cases, elim disjE) (simp_all add: digit_value_def digit_char_def)
qed

lemma fold_digits: "\<forall>d\<in>set ds. d < 10 \<Longrightarrow>
    foldl (\<lambda>acc c. 10 * acc + digit_value c) n (map digit_char ds) = undigits 10 n ds"
  by (induction ds arbitrary: n) (simp_all add: digit_value_char)

lemma parse_u32_dec: "parse_u32 (dec (unat w)) = Some w"
proof -
  have "foldl (\<lambda>acc c. 10 * acc + digit_value c) 0 (dec (unat w)) = unat w"
    unfolding dec_def by (subst fold_digits) (auto simp: undigits_digits dest: digits_less [rotated])
  then show ?thesis by (simp add: u32_le_max parse_u32_def Let_def)
qed

lemma set_dec: "set (dec n) \<subseteq> set ''0123456789''"
  unfolding dec_def using digits_less [of 10 _ n] digit_char_dec_mem by auto

lemma set_lower_hex: "set (lower_hex n) \<subseteq> set ''0123456789abcdef''"
  unfolding lower_hex_def using digits_less [of 16 _ n] digit_char_mem by auto

lemma dec_not_Nil [simp]: "dec n \<noteq> []"
  by (simp add: dec_def)

lemma length_dec: "n < 10 ^ k \<Longrightarrow> 0 < k \<Longrightarrow> length (dec n) \<le> k"
  by (simp add: dec_def digits_length_le)

lemma length_lower_hex: "n < 16 ^ k \<Longrightarrow> 0 < k \<Longrightarrow> length (lower_hex n) \<le> k"
  by (simp add: lower_hex_def digits_length_le)

lemma length_zero_pad [simp]: "length (zero_pad k s) = max k (length s)"
  by (simp add: zero_pad_def)

lemma set_zero_pad: "set (zero_pad k s) \<subseteq> insert CHR ''0'' (set s)"
  by (auto simp: zero_pad_def)

lemma length_hex_of_byte [simp]: "length (hex_of_byte b) = 2"
  by (simp add: hex_of_byte_def)

lemma length_hex_text [simp]: "length (hex_text bs) = 2 * length bs"
  by (induction bs) (simp_all add: hex_text_def)

lemma hex_text_simps [simp]:
  "hex_text [] = []"
  "hex_text (b # bs) = hex_of_byte b @ hex_text bs"
  by (simp_all add: hex_text_def)

lemma byte_nibbles: "unat (b :: u8) div 16 < 16" "unat b mod 16 < 16"
proof -
  have "unat b < 256" using unsigned_less [of b] by simp
  then show "unat b div 16 < 16" by (simp add: less_mult_imp_div_less)
qed simp

lemma set_hex_text: "set (hex_text bs) \<subseteq> set ''0123456789abcdef''"
  unfolding hex_text_def hex_of_byte_def
  using digit_char_mem [OF byte_nibbles(1)] digit_char_mem [OF byte_nibbles(2)] by fastforce

lemma length_be_bytes [simp]: "length (be_bytes k n) = k"
  by (induction k arbitrary: n) auto

lemma length_le_bytes [simp]: "length (le_bytes k n) = k"
  by (induction k arbitrary: n) auto

lemma unat_of_nat_byte [simp]: "unat (of_nat (n mod 256) :: u8) = n mod 256"
  by (simp add: unat_of_nat)

lemma from_be_bytes_append: "from_be_bytes acc (xs @ ys) = from_be_bytes (from_be_bytes acc xs) ys"
  by (induction xs arbitrary: acc) auto

lemma from_be_be_bytes: "n < 256 ^ k \<Longrightarrow> from_be_bytes 0 (be_bytes k n) = n"
proof (induction k arbitrary: n)
  case 0
  then show ?case by simp
next
  case (Suc k)
  then have "n div 256 < 256 ^ k" by (simp add: less_mult_imp_div_less mult.commute)
  with Suc.IH show ?case by (simp add: from_be_bytes_append)
qed

lemma be_bytes_inject:
  "m < 256 ^ k \<Longrightarrow> n < 256 ^ k \<Longrightarrow> be_bytes k m = be_bytes k n \<longleftrightarrow> m = n"
  by (metis from_be_be_bytes)

lemma from_le_le_bytes: "n < 256 ^ k \<Longrightarrow> from_le_bytes (le_bytes k n) = n"
proof (induction k arbitrary: n)
  case 0
  then show ?case by simp
next
  case (Suc k)
  then have "n div 256 < 256 ^ k" by (simp add: less_mult_imp_div_less mult.commute)
  with Suc.IH show ?case by simp
qed

lemma le_bytes_inject:
  "m < 256 ^ k \<Longrightarrow> n < 256 ^ k \<Longrightarrow> le_bytes k m = le_bytes k n \<longleftrightarrow> m = n"
  by (metis from_le_le_bytes)

lemma from_le_bytes_less: "from_le_bytes bs < 256 ^ length bs"
proof (induction bs)
  case Nil
  show ?case by simp
next
  case (Cons b bs)
  have "unat b < 256" using unsigned_less [of b] by simp
  with Cons show ?case by (simp add: algebra_simps)
qed

section \<open>Encoders whose outputs can be told apart\<close>

text \<open>
  A digest over a concatenation of encodings identifies the encoded values only if the
  concatenation can be read back. The laws: a legal value's encoding is not empty, and two
  legal encodings that start the same byte string encode the same value.
\<close>

locale prefix_code =
  fixes enc :: "'a \<Rightarrow> 'b list"
    and legal :: "'a \<Rightarrow> bool"
  assumes enc_unique: "legal x \<Longrightarrow> legal y \<Longrightarrow> enc x @ r = enc y @ s \<Longrightarrow> x = y \<and> r = s"
    and enc_not_Nil: "legal x \<Longrightarrow> enc x \<noteq> []"
begin

lemma enc_inject: "legal x \<Longrightarrow> legal y \<Longrightarrow> enc x = enc y \<longleftrightarrow> x = y"
  using enc_unique [of x y "[]" "[]"] by auto

lemma concat_enc_inject:
  assumes "list_all legal xs" and "list_all legal ys"
  shows "concat (map enc xs) = concat (map enc ys) \<longleftrightarrow> xs = ys"
proof
  assume "concat (map enc xs) = concat (map enc ys)"
  with assms show "xs = ys"
  proof (induction xs arbitrary: ys)
    case Nil
    then show ?case by (cases ys) (auto simp: enc_not_Nil)
  next
    case (Cons x xs)
    from Cons.prems have "ys \<noteq> []" by (auto simp: enc_not_Nil)
    then obtain y zs where ys: "ys = y # zs" by (cases ys) auto
    from Cons.prems ys have l: "legal x" "legal y" "list_all legal xs" "list_all legal zs" by auto
    from Cons.prems(3) ys have "enc x @ concat (map enc xs) = enc y @ concat (map enc zs)" by simp
    with l(1,2) have same: "x = y \<and> concat (map enc xs) = concat (map enc zs)" by (rule enc_unique)
    with l(3,4) have "xs = zs" by (intro Cons.IH) simp_all
    with same ys show ?case by simp
  qed
qed simp

end

text \<open>Fixed-width integers and length-prefixed byte strings are such encoders.\<close>

definition put_bytes :: "nat \<Rightarrow> bytes \<Rightarrow> bytes" where
  "put_bytes k v = be_bytes k (length v) @ v"

lemma be_bytes_unique:
  assumes "m < 256 ^ k" and "n < 256 ^ k" and "be_bytes k m @ r = be_bytes k n @ s"
  shows "m = n \<and> r = s"
  using assms by (simp add: be_bytes_inject)

lemma put_bytes_unique:
  assumes "length v < 256 ^ k" and "length w < 256 ^ k" and "put_bytes k v @ r = put_bytes k w @ s"
  shows "v = w \<and> r = s"
proof -
  from assms(3) have "be_bytes k (length v) @ (v @ r) = be_bytes k (length w) @ (w @ s)"
    by (simp add: put_bytes_def)
  with assms(1,2) have "length v = length w \<and> v @ r = w @ s" by (rule be_bytes_unique)
  then show ?thesis by (metis append_eq_append_conv)
qed

section \<open>Monitors\<close>

text \<open>
  A monitor folds a stream of observations and records findings; it never forgets one, so a
  finding-free fold means a finding-free prefix.
\<close>

locale monitor =
  fixes observe :: "'t \<Rightarrow> 'e \<Rightarrow> 't"
    and findings :: "'t \<Rightarrow> 'f list"
  assumes findings_kept: "set (findings t) \<subseteq> set (findings (observe t e))"
begin

lemma fold_findings_kept: "set (findings t) \<subseteq> set (findings (foldl observe t es))"
proof (induction es arbitrary: t)
  case Nil
  show ?case by simp
next
  case (Cons e es)
  have "set (findings t) \<subseteq> set (findings (observe t e))" by (rule findings_kept)
  also have "\<dots> \<subseteq> set (findings (foldl observe (observe t e) es))" by (rule Cons.IH)
  finally show ?case by simp
qed

lemma clean_prefix: "findings (foldl observe t (xs @ ys)) = [] \<Longrightarrow> findings (foldl observe t xs) = []"
  using fold_findings_kept [of "foldl observe t xs" ys] by simp

end

end
