(* ===== verification/Action.thy ===== *)
theory Action
  imports Base
begin

text \<open>
  Stateful code that may fail: an action takes the state and returns either an error or a value,
  and the state as it is then. An error keeps the changes made before it, as a Rust method on
  \<open>&mut self\<close> that returns early does. The rules turn a successful run of a composed action into
  the successful runs of its parts; the interface of a transition that keeps an invariant is a
  locale, because the agent, its serial loop and the controllers provide it.
\<close>

type_synonym ('s, 'e, 'a) action = "'s \<Rightarrow> ('e + 'a) \<times> 's"

definition act_return :: "'a \<Rightarrow> ('s, 'e, 'a) action" where
  "act_return x = (\<lambda>s. (Inr x, s))"

definition act_fail :: "'e \<Rightarrow> ('s, 'e, 'a) action" where
  "act_fail e = (\<lambda>s. (Inl e, s))"

definition act_bind :: "('s, 'e, 'a) action \<Rightarrow> ('a \<Rightarrow> ('s, 'e, 'b) action) \<Rightarrow> ('s, 'e, 'b) action" where
  "act_bind a f = (\<lambda>s. case a s of (Inl e, s') \<Rightarrow> (Inl e, s') | (Inr x, s') \<Rightarrow> f x s')"

definition act_lift :: "'e + 'a \<Rightarrow> ('s, 'e, 'a) action" where
  "act_lift r = (\<lambda>s. (r, s))"

definition act_get :: "('s, 'e, 's) action" where
  "act_get = (\<lambda>s. (Inr s, s))"

definition act_modify :: "('s \<Rightarrow> 's) \<Rightarrow> ('s, 'e, unit) action" where
  "act_modify g = (\<lambda>s. (Inr (), g s))"

definition act_require :: "bool \<Rightarrow> 'e \<Rightarrow> ('s, 'e, unit) action" where
  "act_require c e = (if c then act_return () else act_fail e)"

fun act_each :: "('x \<Rightarrow> ('s, 'e, unit) action) \<Rightarrow> 'x list \<Rightarrow> ('s, 'e, unit) action" where
  "act_each f [] = act_return ()"
| "act_each f (x # xs) = act_bind (f x) (\<lambda>_. act_each f xs)"

named_theorems action_simps "successful runs of actions"

lemma act_return_run [simp, action_simps]: "act_return x s = (Inr x, s)"
  by (simp add: act_return_def)

lemma act_fail_run [simp, action_simps]: "act_fail e s = (Inl e, s)"
  by (simp add: act_fail_def)

lemma act_lift_run [simp, action_simps]: "act_lift r s = (r, s)"
  by (simp add: act_lift_def)

lemma act_get_run [simp, action_simps]: "act_get s = (Inr s, s)"
  by (simp add: act_get_def)

lemma act_modify_run [simp, action_simps]: "act_modify g s = (Inr (), g s)"
  by (simp add: act_modify_def)

lemma act_require_run [simp, action_simps]: "act_require c e s = (if c then Inr () else Inl e, s)"
  by (simp add: act_require_def)

lemma act_bind_run [simp]:
  "a s = (Inr x, s') \<Longrightarrow> act_bind a f s = f x s'"
  "a s = (Inl e, s') \<Longrightarrow> act_bind a f s = (Inl e, s')"
  by (simp_all add: act_bind_def)

lemma act_bind_get [simp]: "act_bind act_get f s = f s s"
  by (simp add: act_bind_def)

lemma act_bind_lift_Inr: "act_bind (act_lift (Inr x)) f = f x"
  by (rule ext) simp

lemma act_bind_Inr:
  "act_bind a f s = (Inr y, t) \<longleftrightarrow> (\<exists>x s'. a s = (Inr x, s') \<and> f x s' = (Inr y, t))"
  by (auto simp: act_bind_def split: prod.splits sum.splits)

lemma act_bind_Inl:
  "act_bind a f s = (Inl e, t) \<longleftrightarrow> a s = (Inl e, t) \<or> (\<exists>x s'. a s = (Inr x, s') \<and> f x s' = (Inl e, t))"
  by (auto simp: act_bind_def split: prod.splits sum.splits)

lemma act_require_Inr: "act_require c e s = (Inr u, t) \<longleftrightarrow> c \<and> t = s"
  by (auto simp: act_require_def)

lemma act_each_append: "act_each f (xs @ ys) = act_bind (act_each f xs) (\<lambda>_. act_each f ys)"
proof (induction xs)
  case Nil
  show ?case by (simp add: act_bind_def act_return_def)
next
  case (Cons x xs)
  show ?case
    by (rule ext) (auto simp: Cons act_bind_def split: prod.splits sum.splits)
qed

text \<open>
  A relation between the states before and after, kept by every successful run: reflexive and
  transitive relations carry over to sequences and loops.
\<close>

locale progress =
  fixes rel :: "'s \<Rightarrow> 's \<Rightarrow> bool"
  assumes rel_refl: "rel s s"
    and rel_trans: "rel s t \<Longrightarrow> rel t u \<Longrightarrow> rel s u"
begin

definition steps :: "('s, 'e, 'a) action \<Rightarrow> bool" where
  "steps a \<longleftrightarrow> (\<forall>s x t. a s = (Inr x, t) \<longrightarrow> rel s t)"

lemma steps_bind: "steps a \<Longrightarrow> (\<And>x. steps (f x)) \<Longrightarrow> steps (act_bind a f)"
  unfolding steps_def act_bind_Inr by (meson rel_trans)

lemma steps_pure:
  "steps (act_return x)" "steps (act_fail e)" "steps (act_lift r)" "steps act_get" "steps (act_require c e)"
  by (simp_all add: steps_def rel_refl)

lemma steps_each: "(\<And>x. steps (f x)) \<Longrightarrow> steps (act_each f xs)"
  by (induction xs) (simp_all add: steps_bind steps_pure)

text \<open>Kept on every outcome, errors included.\<close>

definition always :: "('s, 'e, 'a) action \<Rightarrow> bool" where
  "always a \<longleftrightarrow> (\<forall>s. rel s (snd (a s)))"

lemma always_bind: "always a \<Longrightarrow> (\<And>x. always (f x)) \<Longrightarrow> always (act_bind a f)"
  unfolding always_def act_bind_def by (auto split: prod.splits sum.splits) (metis rel_trans snd_conv)+

lemma always_bind_value:
  "always a \<Longrightarrow> (\<And>s x t. a s = (Inr x, t) \<Longrightarrow> always (f x)) \<Longrightarrow> always (act_bind a f)"
  unfolding always_def act_bind_def by (auto split: prod.splits sum.splits) (metis rel_trans snd_conv)+

lemma always_bind_lift: "(\<And>x. r = Inr x \<Longrightarrow> always (f x)) \<Longrightarrow> always (act_bind (act_lift r) f)"
  by (cases r) (simp_all add: always_def act_bind_def rel_refl)

lemma always_get: "(\<And>s. rel s (snd (f s s))) \<Longrightarrow> always (act_bind act_get f)"
  by (simp add: always_def)

lemma always_pure:
  "always (act_return x)" "always (act_fail e)" "always (act_lift r)" "always act_get" "always (act_require c e)"
  by (simp_all add: always_def rel_refl)

lemma always_each: "(\<And>x. always (f x)) \<Longrightarrow> always (act_each f xs)"
  by (induction xs) (simp_all only: act_each.simps always_bind always_pure)

lemma always_if: "always a \<Longrightarrow> always b \<Longrightarrow> always (if c then a else b)"
  by simp

lemma always_run: "always a \<Longrightarrow> a s = (r, t) \<Longrightarrow> rel s t"
  by (metis always_def snd_conv)

end

end
