(* ===== verification/Canonical_Tree.thy ===== *)
theory Canonical_Tree
  imports Base
begin

text \<open>
  The canonical workload filesystem of \<open>workload/tree.rs\<close>: entries, the ordered map from
  normalized path to entry, path helpers, symbolic-link resolution, the domain-separated
  serialization behind the canonical digest and the \<open>newc\<close> archive of the guest template; with
  the size limits of \<open>workload/mod.rs\<close>. SHA-256 is a parameter \<open>sha\<close> of the definitions that
  use it. The lemmas: the map operations implement partial functions and keep the map ordered,
  \<open>normalize_layer_path\<close> produces exactly the normal forms, symbolic-link resolution stops and
  stays inside the root, and the serialization can be read back.
\<close>

section \<open>Limits\<close>

definition MAX_PATH_BYTES :: nat where "MAX_PATH_BYTES = 1024"
definition MAX_SYMLINK_TARGET_BYTES :: nat where "MAX_SYMLINK_TARGET_BYTES = 4096"
definition MAX_SYMLINK_HOPS :: nat where "MAX_SYMLINK_HOPS = 40"
definition MAX_FILE_BYTES :: nat where "MAX_FILE_BYTES = 16 * 2 ^ 20"
definition MAX_ENTRIES :: nat where "MAX_ENTRIES = 4096"
definition MAX_LAYERS :: nat where "MAX_LAYERS = 16"
definition MAX_RAW_OBJECTS :: nat where "MAX_RAW_OBJECTS = 64"
definition MAX_VIEW_ENTRIES :: nat where "MAX_VIEW_ENTRIES = 2 ^ 15"
definition MAX_EXPANDED_LAYER_BYTES :: nat where "MAX_EXPANDED_LAYER_BYTES = 256 * 2 ^ 20"

section \<open>Data\<close>

datatype tree_error =
    LayerPathEmptyOrNul
  | LayerPathAbsolute
  | LayerPathDotDot
  | LayerPathTooLong
  | SymlinkTargetEmptyOrNul
  | SymlinkTargetTooLong
  | SymlinkTargetAbsolute
  | SymlinkEscapesRoot
  | SymlinkHopLimit
  | TreeEntriesExceeded nat
  | TreeBytesExceeded nat
  | NoRootEntry
  | RootNotDirectory
  | TemplateFileTooLarge
  | TemplateNameTooLarge

datatype EntryKind = Directory | File | Symlink

fun EntryKind_name :: "EntryKind \<Rightarrow> string" where
  "EntryKind_name Directory = ''directory''"
| "EntryKind_name File = ''file''"
| "EntryKind_name Symlink = ''symbolic link''"

record Entry =
  e_kind :: EntryKind
  e_mode :: u32
  e_uid :: u32
  e_gid :: u32
  e_mtime :: u32
  e_data :: "bytes option"
  e_target :: "bytes option"

definition DEFAULT_DIRECTORY_MODE :: u32 where "DEFAULT_DIRECTORY_MODE = 0x1ed"
definition SYMLINK_MODE :: u32 where "SYMLINK_MODE = 0x1ff"
definition ROOT_PATH :: bytes where "ROOT_PATH = [0x2e]"

abbreviation slash :: u8 where "slash \<equiv> 0x2f"

definition Entry_directory :: "u32 \<Rightarrow> u32 \<Rightarrow> u32 \<Rightarrow> u32 \<Rightarrow> Entry" where
  "Entry_directory mode uid gid mtime =
     \<lparr>e_kind = Directory, e_mode = mode, e_uid = uid, e_gid = gid, e_mtime = mtime,
      e_data = None, e_target = None\<rparr>"

definition Entry_default_directory :: Entry where
  "Entry_default_directory = Entry_directory DEFAULT_DIRECTORY_MODE 0 0 0"

definition Entry_file :: "bytes \<Rightarrow> u32 \<Rightarrow> u32 \<Rightarrow> u32 \<Rightarrow> u32 \<Rightarrow> Entry" where
  "Entry_file data mode uid gid mtime =
     \<lparr>e_kind = File, e_mode = mode, e_uid = uid, e_gid = gid, e_mtime = mtime,
      e_data = Some data, e_target = None\<rparr>"

definition Entry_symlink :: "bytes \<Rightarrow> u32 \<Rightarrow> u32 \<Rightarrow> u32 \<Rightarrow> Entry" where
  "Entry_symlink target uid gid mtime =
     \<lparr>e_kind = Symlink, e_mode = SYMLINK_MODE, e_uid = uid, e_gid = gid, e_mtime = mtime,
      e_data = None, e_target = Some target\<rparr>"

definition file_bytes :: "Entry \<Rightarrow> bytes" where
  "file_bytes e = (case e_data e of Some d \<Rightarrow> d | None \<Rightarrow> [])"

definition link_target :: "Entry \<Rightarrow> bytes" where
  "link_target e = (case e_target e of Some t \<Rightarrow> t | None \<Rightarrow> [])"

section \<open>The ordered map\<close>

text \<open>
  A \<open>BTreeMap\<close> is the list of its entries in strictly increasing key order, which is the
  order its iterators deliver; \<open>wf_tree\<close> is that order. Keys compare byte by byte.
\<close>

type_synonym tree = "(bytes \<times> Entry) list"

definition wf_tree :: "tree \<Rightarrow> bool" where
  "wf_tree t = sorted_wrt (<) (map fst t)"

definition Tree_new :: tree where
  "Tree_new = []"

definition Tree_get :: "tree \<Rightarrow> bytes \<Rightarrow> Entry option" where
  "Tree_get t p = map_of t p"

definition Tree_contains :: "tree \<Rightarrow> bytes \<Rightarrow> bool" where
  "Tree_contains t p = (Tree_get t p \<noteq> None)"

fun Tree_insert :: "bytes \<Rightarrow> Entry \<Rightarrow> tree \<Rightarrow> tree" where
  "Tree_insert p e [] = [(p, e)]"
| "Tree_insert p e ((q, f) # t) =
     (if p < q then (p, e) # (q, f) # t
      else if p = q then (p, e) # t
      else (q, f) # Tree_insert p e t)"

definition Tree_insert_default_directory :: "bytes \<Rightarrow> tree \<Rightarrow> tree" where
  "Tree_insert_default_directory p t =
     (case Tree_get t p of Some _ \<Rightarrow> t | None \<Rightarrow> Tree_insert p Entry_default_directory t)"

definition Tree_len :: "tree \<Rightarrow> nat" where
  "Tree_len t = length t"

definition Tree_retain :: "(bytes \<Rightarrow> bool) \<Rightarrow> tree \<Rightarrow> tree" where
  "Tree_retain keep t = filter (\<lambda>(p, e). keep p) t"

definition subtree_prefix :: "bytes \<Rightarrow> bytes" where
  "subtree_prefix path = (if path = ROOT_PATH then [] else path @ [slash])"

definition remove_subtree :: "bytes \<Rightarrow> tree \<Rightarrow> tree" where
  "remove_subtree path t =
     (let prefix = subtree_prefix path
      in Tree_retain (\<lambda>candidate.
           \<not> (candidate = path
              \<or> (prefix \<noteq> [] \<and> starts_with candidate prefix)
              \<or> path = ROOT_PATH)) t)"

definition remove_children :: "bytes \<Rightarrow> tree \<Rightarrow> tree" where
  "remove_children path t =
     (let prefix = subtree_prefix path
      in Tree_retain (\<lambda>candidate.
           candidate = ROOT_PATH \<or> (prefix \<noteq> [] \<and> \<not> starts_with candidate prefix)) t)"

definition expanded_bytes :: "tree \<Rightarrow> nat" where
  "expanded_bytes t =
     sum_list (map length (List.map_filter (\<lambda>(p, e). e_data e) t))"

definition validate_canonical_tree :: "tree \<Rightarrow> nat \<Rightarrow> nat \<Rightarrow> tree_error + unit" where
  "validate_canonical_tree t max_entries max_expanded_bytes =
     (if Tree_len t > max_entries then Inl (TreeEntriesExceeded max_entries)
      else if expanded_bytes t > max_expanded_bytes then Inl (TreeBytesExceeded max_expanded_bytes)
      else Inr ())"

section \<open>Paths\<close>

text \<open>\<open>iter().rposition(..)\<close>: the index of the last separator.\<close>

fun rposition :: "'a \<Rightarrow> 'a list \<Rightarrow> nat option" where
  "rposition c [] = None"
| "rposition c (x # xs) =
     (case rposition c xs of
        Some i \<Rightarrow> Some (Suc i)
      | None \<Rightarrow> if x = c then Some 0 else None)"

definition parent_of :: "bytes \<Rightarrow> bytes option" where
  "parent_of path =
     (if path = ROOT_PATH then None
      else (case rposition slash path of
              Some index \<Rightarrow> Some (take index path)
            | None \<Rightarrow> Some ROOT_PATH))"

lemma rposition_less: "rposition c xs = Some i \<Longrightarrow> i < length xs"
  by (induction xs arbitrary: i) (auto split: option.splits if_splits)

function ancestors :: "bytes \<Rightarrow> bytes list" where
  "ancestors path = (case parent_of path of None \<Rightarrow> [] | Some p \<Rightarrow> p # ancestors p)"
  by pat_completeness auto
termination
proof (relation "measure (\<lambda>p. if p = ROOT_PATH then 0 else Suc (length p))")
  fix path p
  assume "parent_of path = Some p"
  then show "(p, path) \<in> measure (\<lambda>p. if p = ROOT_PATH then 0 else Suc (length p))"
    by (auto simp: parent_of_def split: if_splits option.splits dest: rposition_less)
qed simp

declare ancestors.simps [simp del]

definition join_path :: "bytes \<Rightarrow> bytes \<Rightarrow> bytes" where
  "join_path parent name = (if parent = ROOT_PATH then name else parent @ [slash] @ name)"

definition dot :: bytes where "dot = [0x2e]"
definition dotdot :: bytes where "dotdot = [0x2e, 0x2e]"

fun collect_parts :: "bytes list \<Rightarrow> bytes list \<Rightarrow> tree_error + bytes list" where
  "collect_parts parts [] = Inr parts"
| "collect_parts parts (part # rest) =
     (if part = [] \<or> part = dot then collect_parts parts rest
      else if part = dotdot then Inl LayerPathDotDot
      else collect_parts (parts @ [part]) rest)"

definition normalize_layer_path :: "bytes \<Rightarrow> tree_error + bytes" where
  "normalize_layer_path raw =
     (if raw = [] \<or> 0 \<in> set raw then Inl LayerPathEmptyOrNul
      else if hd raw = slash then Inl LayerPathAbsolute
      else and_then (collect_parts [] (split_on slash raw)) (\<lambda>parts.
        let path = (if parts = [] then ROOT_PATH else join_with slash parts)
        in if length path > MAX_PATH_BYTES then Inl LayerPathTooLong else Inr path))"

section \<open>Symbolic links\<close>

definition validate_symlink_syntax :: "bytes \<Rightarrow> tree_error + unit" where
  "validate_symlink_syntax target =
     (if target = [] \<or> 0 \<in> set target then Inl SymlinkTargetEmptyOrNul
      else if length target > MAX_SYMLINK_TARGET_BYTES then Inl SymlinkTargetTooLong
      else if hd target = slash then Inl SymlinkTargetAbsolute
      else Inr ())"

definition path_components :: "bytes \<Rightarrow> bytes list" where
  "path_components path = filter (\<lambda>part. part \<noteq> [] \<and> part \<noteq> dot) (split_on slash path)"

text \<open>
  The loop of \<open>resolve_symlink\<close>. The source keeps one component vector and an index, and
  inserts the expansion of a link at the index; the model keeps the components from the index
  on, so the expansion is put in front. It stops because every expansion spends one of the
  hops and every other step consumes a component.
\<close>

function resolve_loop :: "tree \<Rightarrow> bytes list \<Rightarrow> nat \<Rightarrow> bytes list \<Rightarrow> tree_error + bytes list" where
  "resolve_loop t resolved hops [] = Inr resolved"
| "resolve_loop t resolved hops (part # rest) =
     (if part = dotdot then
        (if resolved = [] then Inl SymlinkEscapesRoot
         else resolve_loop t (butlast resolved) hops rest)
      else
        (let candidate = join_with slash resolved;
             candidate = (if candidate = [] then candidate else candidate @ [slash]) @ part
         in case Tree_get t candidate of
              Some entry \<Rightarrow>
                if e_kind entry = Symlink then
                  (if hops + 1 > MAX_SYMLINK_HOPS then Inl SymlinkHopLimit
                   else (case validate_symlink_syntax (link_target entry) of
                           Inl e \<Rightarrow> Inl e
                         | Inr _ \<Rightarrow>
                             resolve_loop t resolved (hops + 1)
                               (path_components (link_target entry) @ rest)))
                else resolve_loop t (resolved @ [part]) hops rest
            | None \<Rightarrow> resolve_loop t (resolved @ [part]) hops rest))"
  by pat_completeness auto
termination
  by (relation "measures [\<lambda>(t, r, h, c). MAX_SYMLINK_HOPS - h, \<lambda>(t, r, h, c). length c]") auto

definition resolve_symlink :: "tree \<Rightarrow> bytes \<Rightarrow> bytes \<Rightarrow> tree_error + unit" where
  "resolve_symlink t link_path target =
     and_then (validate_symlink_syntax target) (\<lambda>_.
       let parent = (case parent_of link_path of Some p \<Rightarrow> p | None \<Rightarrow> [])
       in and_then (resolve_loop t [] 0 (path_components parent @ path_components target))
            (\<lambda>_. Inr ()))"

definition validate_symlinks :: "tree \<Rightarrow> tree_error + unit" where
  "validate_symlinks t =
     for_each (\<lambda>_ (path, entry).
         if e_kind entry \<noteq> Symlink then Inr ()
         else resolve_symlink t path (link_target entry)) () t"

section \<open>Serialization, digest and guest template\<close>

definition CANONICAL_PREFIX :: bytes where
  "CANONICAL_PREFIX = as_bytes ''simferret-canonical-filesystem-v1'' @ [0]"

definition be32 :: "u32 \<Rightarrow> bytes" where
  "be32 w = be_bytes 4 (unat w)"

definition put_bytes32 :: "bytes \<Rightarrow> bytes" where
  "put_bytes32 value = be_bytes 4 (length value) @ value"

definition encode_entry :: "(bytes \<Rightarrow> bytes) \<Rightarrow> bytes \<times> Entry \<Rightarrow> bytes" where
  "encode_entry sha = (\<lambda>(path, entry).
     [case e_kind entry of Directory \<Rightarrow> 0x44 | File \<Rightarrow> 0x46 | Symlink \<Rightarrow> 0x4c]
     @ put_bytes32 path
     @ be32 (e_mode entry) @ be32 (e_uid entry) @ be32 (e_gid entry) @ be32 (e_mtime entry)
     @ (case e_kind entry of
          Directory \<Rightarrow> []
        | File \<Rightarrow> be_bytes 8 (length (file_bytes entry)) @ sha (file_bytes entry)
        | Symlink \<Rightarrow> put_bytes32 (link_target entry)))"

definition encode :: "(bytes \<Rightarrow> bytes) \<Rightarrow> tree \<Rightarrow> bytes" where
  "encode sha t = concat (map (encode_entry sha) t)"

definition sha256_bytes :: "(bytes \<Rightarrow> bytes) \<Rightarrow> bytes \<Rightarrow> string" where
  "sha256_bytes sha bs = hex_text (sha bs)"

definition canonical_digest :: "(bytes \<Rightarrow> bytes) \<Rightarrow> tree \<Rightarrow> string" where
  "canonical_digest sha t = hex_text (sha (CANONICAL_PREFIX @ encode sha t))"

function pad_four :: "bytes \<Rightarrow> bytes" where
  "pad_four output = (if length output mod 4 = 0 then output else pad_four (output @ [0]))"
  by pat_completeness auto
termination
proof (relation "measure (\<lambda>out. if length out mod 4 = 0 then 0 else 4 - length out mod 4)")
  fix out :: bytes
  assume "length out mod 4 \<noteq> 0"
  then show "(out @ [0], out) \<in>
      measure (\<lambda>out. if length out mod 4 = 0 then 0 else 4 - length out mod 4)"
    by (auto simp: mod_Suc)
qed simp

declare pad_four.simps [simp del]

definition cpio_header :: "bytes \<Rightarrow> u32 \<Rightarrow> u32 \<Rightarrow> u32 \<Rightarrow> u32 \<Rightarrow> bytes \<Rightarrow> nat list" where
  "cpio_header name mode uid gid mtime contents =
     [1, unat mode, unat uid, unat gid, 1, unat mtime, length contents, 0, 0, 0, 0,
      length name + 1, 0]"

definition append_cpio ::
    "bytes \<Rightarrow> bytes \<Rightarrow> u32 \<Rightarrow> u32 \<Rightarrow> u32 \<Rightarrow> u32 \<Rightarrow> bytes \<Rightarrow> tree_error + bytes" where
  "append_cpio output name mode uid gid mtime contents =
     (if length contents > u32_max then Inl TemplateFileTooLarge
      else if length name + 1 > u32_max then Inl TemplateNameTooLarge
      else Inr (pad_four
            (pad_four
              (output @ as_bytes ''070701''
               @ as_bytes (concat (map (\<lambda>field. zero_pad 8 (lower_hex field))
                    (cpio_header name mode uid gid mtime contents)))
               @ name @ [0])
             @ contents)))"

definition append_template_entry :: "bytes \<Rightarrow> bytes \<Rightarrow> Entry \<Rightarrow> tree_error + bytes" where
  "append_template_entry output name entry =
     (case e_kind entry of
        Directory \<Rightarrow> append_cpio output name (or 0x4000 (e_mode entry)) (e_uid entry) (e_gid entry)
                       (e_mtime entry) []
      | File \<Rightarrow> append_cpio output name (or 0x8000 (e_mode entry)) (e_uid entry) (e_gid entry)
                       (e_mtime entry) (file_bytes entry)
      | Symlink \<Rightarrow> append_cpio output name (or 0xa000 (e_mode entry)) (e_uid entry) (e_gid entry)
                       (e_mtime entry) (link_target entry))"

definition template_entries :: "tree \<Rightarrow> string \<Rightarrow> tree_error + bytes" where
  "template_entries t root_name =
     and_then (ok_or NoRootEntry (Tree_get t ROOT_PATH)) (\<lambda>root.
       if e_kind root \<noteq> Directory then Inl RootNotDirectory
       else and_then (append_template_entry [] (as_bytes root_name) root) (\<lambda>output.
         for_each (\<lambda>output (path, entry).
             if path = ROOT_PATH then Inr output
             else append_template_entry output (as_bytes root_name @ [slash] @ path) entry)
           output t))"

definition template :: "tree \<Rightarrow> string \<Rightarrow> tree_error + bytes" where
  "template t root_name =
     and_then (template_entries t root_name) (\<lambda>output.
       append_cpio output (as_bytes ''TRAILER!!!'') 0 0 0 0 [])"

section \<open>The map operations implement a partial function\<close>

lemma Tree_get_insert [simp]:
  "Tree_get (Tree_insert p e t) q = (if q = p then Some e else Tree_get t q)"
  by (induction p e t rule: Tree_insert.induct) (auto simp: Tree_get_def)

lemma Tree_get_retain [simp]:
  "Tree_get (Tree_retain keep t) q = (if keep q then Tree_get t q else None)"
  by (induction t) (auto simp: Tree_get_def Tree_retain_def)

lemma Tree_get_new [simp]: "Tree_get Tree_new q = None"
  by (simp add: Tree_get_def Tree_new_def)

lemma Tree_get_insert_default [simp]:
  "Tree_get (Tree_insert_default_directory p t) q =
     (if q = p \<and> Tree_get t p = None then Some Entry_default_directory else Tree_get t q)"
  by (auto simp: Tree_insert_default_directory_def split: option.splits)

lemma wf_tree_new [simp]: "wf_tree Tree_new"
  by (simp add: wf_tree_def Tree_new_def)

lemma set_fst_insert: "fst ` set (Tree_insert p e t) = insert p (fst ` set t)"
  by (induction p e t rule: Tree_insert.induct) auto

lemma wf_tree_insert: "wf_tree t \<Longrightarrow> wf_tree (Tree_insert p e t)"
proof (induction p e t rule: Tree_insert.induct)
  case (1 p e)
  show ?case by (simp add: wf_tree_def)
next
  case (2 p e q f t)
  then have tail: "wf_tree t" and below: "\<forall>k\<in>fst ` set t. q < k"
    by (auto simp: wf_tree_def)
  consider "p < q" | "p = q" | "q < p" by fastforce
  then show ?case
  proof cases
    case 1
    with 2 show ?thesis by (auto simp: wf_tree_def)
  next
    case 2
    with tail below show ?thesis by (auto simp: wf_tree_def)
  next
    case 3
    with 2 tail have "wf_tree (Tree_insert p e t)" by auto
    moreover from below 3 have "\<forall>k\<in>fst ` set (Tree_insert p e t). q < k"
      by (simp add: set_fst_insert)
    ultimately show ?thesis using 3 by (auto simp: wf_tree_def)
  qed
qed

lemma wf_tree_retain: "wf_tree t \<Longrightarrow> wf_tree (Tree_retain keep t)"
proof (induction t)
  case Nil
  then show ?case by (simp add: wf_tree_def Tree_retain_def)
next
  case (Cons x t)
  then show ?case by (auto simp: wf_tree_def Tree_retain_def)
qed

lemma wf_tree_insert_default: "wf_tree t \<Longrightarrow> wf_tree (Tree_insert_default_directory p t)"
  by (auto simp: Tree_insert_default_directory_def wf_tree_insert split: option.splits)

lemma wf_tree_remove [simp]:
  "wf_tree t \<Longrightarrow> wf_tree (remove_subtree p t)"
  "wf_tree t \<Longrightarrow> wf_tree (remove_children p t)"
  by (simp_all add: remove_subtree_def remove_children_def Let_def wf_tree_retain)

lemma wf_tree_distinct: "wf_tree t \<Longrightarrow> distinct (map fst t)"
  by (simp add: wf_tree_def strict_sorted_iff)

lemma Tree_get_iff_mem: "wf_tree t \<Longrightarrow> Tree_get t p = Some e \<longleftrightarrow> (p, e) \<in> set t"
  by (simp add: Tree_get_def wf_tree_distinct)

lemma wf_tree_eqI:
  assumes "wf_tree t" and "wf_tree u" and "\<And>p. Tree_get t p = Tree_get u p"
  shows "t = u"
proof -
  have same: "set t = set u"
    using assms by (auto simp: Tree_get_iff_mem [symmetric])
  have "map fst t = map fst u"
    using assms(1,2) same unfolding wf_tree_def
    by (intro strict_sorted_equal) auto
  moreover have "map_of t = map_of u" using assms(3) by (auto simp: Tree_get_def fun_eq_iff)
  moreover have "x = map (\<lambda>p. (p, the (map_of x p))) (map fst x)" if "wf_tree x" for x
    using wf_tree_distinct [OF that] by (auto intro!: map_idI [symmetric] simp: comp_def)
  ultimately show ?thesis using assms(1,2) by metis
qed

section \<open>Ancestors\<close>

lemma rposition_None: "rposition c xs = None \<longleftrightarrow> c \<notin> set xs"
  by (induction xs) (auto split: option.splits)

lemma rposition_Some: "rposition c xs = Some i \<Longrightarrow> xs = take i xs @ c # drop (Suc i) xs \<and> c \<notin> set (drop (Suc i) xs)"
  by (induction xs arbitrary: i) (auto split: option.splits if_splits simp: rposition_None)

lemma parent_of_Some:
  "parent_of p = Some q \<Longrightarrow> p \<noteq> ROOT_PATH \<and> (q = ROOT_PATH \<or> (\<exists>r. p = q @ slash # r))"
  by (auto simp: parent_of_def split: if_splits option.splits dest: rposition_Some)

lemma ancestors_ROOT [simp]: "ancestors ROOT_PATH = []"
  by (simp add: ancestors.simps parent_of_def)

lemma ancestors_nonroot: "p \<noteq> ROOT_PATH \<Longrightarrow> \<exists>q. parent_of p = Some q \<and> ancestors p = q # ancestors q"
  by (subst ancestors.simps) (auto simp: parent_of_def split: option.splits)

lemma ancestors_shape:
  "a \<in> set (ancestors p) \<Longrightarrow> a = ROOT_PATH \<or> (\<exists>r. p = a @ slash # r)"
proof (induction p rule: ancestors.induct)
  case (1 p)
  show ?case
  proof (cases "parent_of p")
    case None
    with 1 show ?thesis by (simp add: ancestors.simps [of p])
  next
    case (Some q)
    with 1 consider "a = q" | "a \<in> set (ancestors q)" by (auto simp: ancestors.simps [of p])
    then show ?thesis
    proof cases
      case 1
      with Some show ?thesis using parent_of_Some by blast
    next
      case 2
      with 1 Some have "a = ROOT_PATH \<or> (\<exists>r. q = a @ slash # r)" by blast
      moreover from 2 have "q \<noteq> ROOT_PATH" by auto
      ultimately show ?thesis using parent_of_Some [OF Some] by auto
    qed
  qed
qed

lemma ancestors_trans: "a \<in> set (ancestors p) \<Longrightarrow> b \<in> set (ancestors a) \<Longrightarrow> b \<in> set (ancestors p)"
proof (induction p rule: ancestors.induct)
  case (1 p)
  then show ?case
    by (cases "parent_of p") (auto simp: ancestors.simps [of p])
qed

lemma ancestors_shorter: "a \<in> set (ancestors p) \<Longrightarrow> a \<noteq> p"
proof -
  have "length a < length p \<or> (a = ROOT_PATH \<and> p \<noteq> ROOT_PATH)" if "a \<in> set (ancestors p)" for a p
    using ancestors_shape [OF that] that by auto
  then show "a \<in> set (ancestors p) \<Longrightarrow> a \<noteq> p" by blast
qed

lemma root_in_ancestors: "p \<noteq> ROOT_PATH \<Longrightarrow> ROOT_PATH \<in> set (ancestors p)"
proof (induction p rule: ancestors.induct)
  case (1 p)
  then obtain q where q: "parent_of p = Some q" "ancestors p = q # ancestors q"
    using ancestors_nonroot by blast
  with 1 show ?case by (cases "q = ROOT_PATH") auto
qed

section \<open>Directory closure\<close>

text \<open>
  A view is directory-closed when every ancestor of an entry is a directory of the view: the
  precondition of extracting the template, since extraction does not create missing parents.
\<close>

definition dirs_closed :: "(bytes \<Rightarrow> Entry option) \<Rightarrow> bool" where
  "dirs_closed v \<longleftrightarrow>
     (\<forall>p e. v p = Some e \<longrightarrow> (\<forall>a\<in>set (ancestors p). \<exists>d. v a = Some d \<and> e_kind d = Directory))"

text \<open>The interface of a path map, and what its clients need of it.\<close>

locale path_map =
  fixes get :: "'t \<Rightarrow> bytes \<Rightarrow> Entry option"
    and insert_entry :: "bytes \<Rightarrow> Entry \<Rightarrow> 't \<Rightarrow> 't"
    and retain :: "(bytes \<Rightarrow> bool) \<Rightarrow> 't \<Rightarrow> 't"
  assumes get_insert: "get (insert_entry p e t) q = (if q = p then Some e else get t q)"
    and get_retain: "get (retain keep t) q = (if keep q then get t q else None)"
begin

lemma closed_retain:
  assumes closed: "dirs_closed (get t)"
    and up: "\<And>p a. keep p \<Longrightarrow> a \<in> set (ancestors p) \<Longrightarrow> keep a"
  shows "dirs_closed (get (retain keep t))"
  using assms unfolding dirs_closed_def by (auto simp: get_retain split: if_splits)

lemma closed_insert:
  assumes closed: "dirs_closed (get t)"
    and parents: "\<And>a. a \<in> set (ancestors p) \<Longrightarrow> \<exists>d. get t a = Some d \<and> e_kind d = Directory"
    and below: "e_kind e = Directory \<or> (\<forall>q. get t q \<noteq> None \<longrightarrow> p \<notin> set (ancestors q))"
  shows "dirs_closed (get (insert_entry p e t))"
  unfolding dirs_closed_def
proof (intro allI impI ballI)
  fix q f a
  assume q: "get (insert_entry p e t) q = Some f" and a: "a \<in> set (ancestors q)"
  have "a \<noteq> q" using a by (rule ancestors_shorter)
  show "\<exists>d. get (insert_entry p e t) a = Some d \<and> e_kind d = Directory"
  proof (cases "q = p")
    case True
    with a parents \<open>a \<noteq> q\<close> show ?thesis by (auto simp: get_insert)
  next
    case False
    with q have old: "get t q = Some f" by (simp add: get_insert)
    with closed a obtain d where "get t a = Some d" "e_kind d = Directory"
      unfolding dirs_closed_def by blast
    moreover have "a = p \<Longrightarrow> e_kind e = Directory" using below old a by auto
    ultimately show ?thesis by (auto simp: get_insert)
  qed
qed

lemma closed_no_children:
  assumes "dirs_closed (get t)" and "\<forall>d. get t p = Some d \<longrightarrow> e_kind d \<noteq> Directory"
  shows "\<forall>q. get t q \<noteq> None \<longrightarrow> p \<notin> set (ancestors q)"
  using assms unfolding dirs_closed_def by fastforce

end

interpretation btree: path_map Tree_get Tree_insert Tree_retain
  by unfold_locales simp_all

lemma subtree_keep_up:
  assumes "\<not> (p = path \<or> (subtree_prefix path \<noteq> [] \<and> starts_with p (subtree_prefix path)) \<or> path = ROOT_PATH)"
    and "a \<in> set (ancestors p)"
  shows "\<not> (a = path \<or> (subtree_prefix path \<noteq> [] \<and> starts_with a (subtree_prefix path)) \<or> path = ROOT_PATH)"
proof -
  from assms(1) have path: "path \<noteq> ROOT_PATH" and np: "\<not> starts_with p (path @ [slash])"
    by (auto simp: subtree_prefix_def)
  from ancestors_shape [OF assms(2)] show ?thesis
  proof
    assume "a = ROOT_PATH"
    with path show ?thesis
      by (auto simp: subtree_prefix_def starts_with_iff ROOT_PATH_def Cons_eq_append_conv)
  next
    assume "\<exists>r. p = a @ slash # r"
    then obtain r where r: "p = a @ slash # r" ..
    with np have "a \<noteq> path" by (auto simp: starts_with_iff)
    moreover have "\<not> starts_with a (path @ [slash])" using np r by (auto simp: starts_with_iff)
    ultimately show ?thesis using path by (simp add: subtree_prefix_def)
  qed
qed

lemma dirs_closed_remove_subtree:
  "dirs_closed (Tree_get t) \<Longrightarrow> dirs_closed (Tree_get (remove_subtree path t))"
  unfolding remove_subtree_def Let_def
  by (rule btree.closed_retain) (assumption | erule (1) subtree_keep_up)+

lemma dirs_closed_remove_children:
  assumes "dirs_closed (Tree_get t)"
  shows "dirs_closed (Tree_get (remove_children path t))"
  unfolding remove_children_def Let_def
proof (rule btree.closed_retain [OF assms])
  fix p a
  assume keep: "p = ROOT_PATH \<or> (subtree_prefix path \<noteq> [] \<and> \<not> starts_with p (subtree_prefix path))"
    and a: "a \<in> set (ancestors p)"
  from a have "p \<noteq> ROOT_PATH" by auto
  with keep have np: "subtree_prefix path \<noteq> []" "\<not> starts_with p (subtree_prefix path)" by auto
  from ancestors_shape [OF a] show "a = ROOT_PATH \<or> (subtree_prefix path \<noteq> [] \<and> \<not> starts_with a (subtree_prefix path))"
    using np by (auto simp: starts_with_iff)
qed

lemma remove_subtree_below:
  assumes "a \<in> set (ancestors p)" and "dirs_closed (Tree_get t)"
  shows "Tree_get (remove_subtree a t) p = None"
proof -
  from ancestors_shape [OF assms(1)] have "a = ROOT_PATH \<or> (\<exists>r. p = a @ slash # r)" .
  then show ?thesis
    by (auto simp: remove_subtree_def Let_def subtree_prefix_def starts_with_iff)
qed

lemma dirs_closed_insert_default:
  assumes "dirs_closed (Tree_get t)"
    and "\<And>a. a \<in> set (ancestors p) \<Longrightarrow> \<exists>d. Tree_get t a = Some d \<and> e_kind d = Directory"
  shows "dirs_closed (Tree_get (Tree_insert_default_directory p t))"
proof (cases "Tree_get t p")
  case None
  then show ?thesis
    using btree.closed_insert [OF assms, of p] assms
    by (simp add: Tree_insert_default_directory_def Entry_default_directory_def Entry_directory_def)
next
  case (Some e)
  with assms show ?thesis by (simp add: Tree_insert_default_directory_def)
qed

section \<open>Normal paths\<close>

definition normal_part :: "bytes \<Rightarrow> bool" where
  "normal_part part \<longleftrightarrow> part \<noteq> [] \<and> part \<noteq> dot \<and> part \<noteq> dotdot \<and> 0 \<notin> set part"

definition normal_path :: "bytes \<Rightarrow> bool" where
  "normal_path path \<longleftrightarrow>
     path = ROOT_PATH \<or> (length path \<le> MAX_PATH_BYTES \<and> list_all normal_part (split_on slash path))"

lemma collect_parts_eq:
  "collect_parts acc ps =
     (if dotdot \<in> set ps then Inl LayerPathDotDot
      else Inr (acc @ filter (\<lambda>p. p \<noteq> [] \<and> p \<noteq> dot) ps))"
  by (induction acc ps rule: collect_parts.induct) (auto simp: dot_def dotdot_def)

lemma set_join_with: "set (join_with c ps) \<subseteq> insert c (\<Union> (set ` set ps))"
proof (induction ps)
  case Nil
  show ?case by simp
next
  case (Cons p ps)
  then show ?case by (cases "ps = []") (auto simp: join_with_Cons)
qed

lemma split_join_parts:
  assumes "ps \<noteq> []" and "\<forall>p\<in>set ps. slash \<notin> set p"
  shows "split_on slash (join_with slash ps) = ps"
  using assms by (rule split_join)

lemma normalize_normal:
  assumes "normalize_layer_path raw = Inr path"
  shows "normal_path path"
proof -
  define parts where "parts = filter (\<lambda>p. p \<noteq> [] \<and> p \<noteq> dot) (split_on slash raw)"
  from assms have nul: "0 \<notin> set raw" and nodd: "dotdot \<notin> set (split_on slash raw)"
    and path: "path = (if parts = [] then ROOT_PATH else join_with slash parts)"
    and len: "length path \<le> MAX_PATH_BYTES"
    by (auto simp: normalize_layer_path_def collect_parts_eq parts_def Let_def split: if_splits)
  have each: "list_all normal_part parts"
    using nul nodd by (auto simp: parts_def normal_part_def list_all_iff dest: set_split_on)
  have free: "\<forall>p\<in>set parts. slash \<notin> set p"
    by (auto simp: parts_def dest: split_on_pieces)
  show ?thesis
  proof (cases "parts = []")
    case True
    with path show ?thesis by (simp add: normal_path_def)
  next
    case False
    with free path have "split_on slash path = parts" by (simp add: split_join_parts)
    with each len show ?thesis by (simp add: normal_path_def)
  qed
qed

lemma normal_fixed:
  assumes "normal_path path"
  shows "normalize_layer_path path = Inr path"
proof (cases "path = ROOT_PATH")
  case True
  then show ?thesis
    by (simp add: normalize_layer_path_def collect_parts_eq ROOT_PATH_def dot_def dotdot_def
        MAX_PATH_BYTES_def)
next
  case False
  with assms have len: "length path \<le> MAX_PATH_BYTES" and parts: "list_all normal_part (split_on slash path)"
    by (auto simp: normal_path_def)
  have ne: "path \<noteq> []" using parts by (auto simp: normal_part_def)
  have nul: "0 \<notin> set path"
  proof
    assume "0 \<in> set path"
    then have "0 \<in> set (join_with slash (split_on slash path))" by simp
    then show False
      using set_join_with [of slash "split_on slash path"] parts by (auto simp: list_all_iff normal_part_def)
  qed
  have first: "hd path \<noteq> slash"
  proof
    assume "hd path = slash"
    with ne obtain r where "path = slash # r" by (cases path) auto
    with parts show False by (simp add: normal_part_def)
  qed
  have "dotdot \<notin> set (split_on slash path)" and "filter (\<lambda>p. p \<noteq> [] \<and> p \<noteq> dot) (split_on slash path) = split_on slash path"
    using parts by (auto simp: list_all_iff normal_part_def)
  with ne nul first len show ?thesis
    by (simp add: normalize_layer_path_def collect_parts_eq)
qed

text \<open>
  A normal path other than the root has the parents its components say: every ancestor is a
  proper prefix, itself normal.
\<close>

lemma rposition_join:
  "ps \<noteq> [] \<Longrightarrow> slash \<notin> set p \<Longrightarrow> rposition slash (join_with slash ps @ slash # p) = Some (length (join_with slash ps))"
proof -
  have gen: "slash \<notin> set p \<Longrightarrow> rposition slash (xs @ slash # p) = Some (length xs)" for xs p
  proof (induction xs)
    case Nil
    then show ?case by (simp add: rposition_None [THEN iffD2])
  next
    case (Cons x xs)
    then show ?case by simp
  qed
  then show "ps \<noteq> [] \<Longrightarrow> slash \<notin> set p \<Longrightarrow> rposition slash (join_with slash ps @ slash # p) = Some (length (join_with slash ps))"
    by blast
qed

section \<open>Symbolic-link resolution\<close>

text \<open>
  What resolution means, without the loop: \<open>walk t resolved comps n final\<close> says that from the
  directory \<open>resolved\<close> the components lead to \<open>final\<close> after following \<open>n\<close> links, never
  leaving the root.
\<close>

definition candidate_path :: "bytes list \<Rightarrow> bytes \<Rightarrow> bytes" where
  "candidate_path resolved part =
     (let base = join_with slash resolved in (if base = [] then base else base @ [slash]) @ part)"

definition link_at :: "tree \<Rightarrow> bytes list \<Rightarrow> bytes \<Rightarrow> bytes option" where
  "link_at t resolved part =
     (case Tree_get t (candidate_path resolved part) of
        Some entry \<Rightarrow> if e_kind entry = Symlink then Some (link_target entry) else None
      | None \<Rightarrow> None)"

inductive walk :: "tree \<Rightarrow> bytes list \<Rightarrow> bytes list \<Rightarrow> nat \<Rightarrow> bytes list \<Rightarrow> bool" for t where
  walk_done: "walk t resolved [] 0 resolved"
| walk_up: "resolved \<noteq> [] \<Longrightarrow> walk t (butlast resolved) rest n final \<Longrightarrow>
     walk t resolved (dotdot # rest) n final"
| walk_link: "part \<noteq> dotdot \<Longrightarrow> link_at t resolved part = Some target \<Longrightarrow>
     validate_symlink_syntax target = Inr () \<Longrightarrow>
     walk t resolved (path_components target @ rest) n final \<Longrightarrow>
     walk t resolved (part # rest) (Suc n) final"
| walk_step: "part \<noteq> dotdot \<Longrightarrow> link_at t resolved part = None \<Longrightarrow>
     walk t (resolved @ [part]) rest n final \<Longrightarrow> walk t resolved (part # rest) n final"

inductive_cases walk_NilE [elim!]: "walk t resolved [] n final"
inductive_cases walk_ConsE: "walk t resolved (part # rest) n final"

lemma resolve_loop_Cons:
  "resolve_loop t resolved hops (part # rest) =
     (if part = dotdot then
        (if resolved = [] then Inl SymlinkEscapesRoot
         else resolve_loop t (butlast resolved) hops rest)
      else (case link_at t resolved part of
         None \<Rightarrow> resolve_loop t (resolved @ [part]) hops rest
       | Some target \<Rightarrow>
           if hops + 1 > MAX_SYMLINK_HOPS then Inl SymlinkHopLimit
           else (case validate_symlink_syntax target of
                   Inl e \<Rightarrow> Inl e
                 | Inr _ \<Rightarrow> resolve_loop t resolved (hops + 1) (path_components target @ rest))))"
  by (simp add: link_at_def candidate_path_def Let_def split: option.splits)

lemma resolve_loop_sound:
  "resolve_loop t resolved hops comps = Inr final \<Longrightarrow> hops \<le> MAX_SYMLINK_HOPS \<Longrightarrow>
     \<exists>n. walk t resolved comps n final \<and> hops + n \<le> MAX_SYMLINK_HOPS"
proof (induction t resolved hops comps rule: resolve_loop.induct)
  case (1 t resolved hops)
  then show ?case by (auto intro: walk_done)
next
  case (2 t resolved hops part rest)
  show ?case
  proof (cases "part = dotdot")
    case True
    with 2 show ?thesis by (auto split: if_splits intro: walk_up)
  next
    case False
    show ?thesis
    proof (cases "link_at t resolved part")
      case None
      with False 2(5) have "resolve_loop t (resolved @ [part]) hops rest = Inr final"
        by (simp only: resolve_loop_Cons) simp
      moreover have "\<exists>n. walk t (resolved @ [part]) rest n final \<and> hops + n \<le> MAX_SYMLINK_HOPS"
        using 2 False None calculation
        by (auto simp: link_at_def candidate_path_def Let_def split: option.splits if_splits)
      ultimately show ?thesis using False None by (auto intro: walk_step)
    next
      case (Some target)
      with False 2(5) have h: "hops + 1 \<le> MAX_SYMLINK_HOPS"
        and v: "validate_symlink_syntax target = Inr ()"
        and r: "resolve_loop t resolved (hops + 1) (path_components target @ rest) = Inr final"
        by (simp_all only: resolve_loop_Cons) (auto split: if_splits sum.splits)
      have "\<exists>n. walk t resolved (path_components target @ rest) n final \<and> (hops + 1) + n \<le> MAX_SYMLINK_HOPS"
        using 2 False Some h v r
        by (auto simp: link_at_def candidate_path_def Let_def split: option.splits if_splits)
      then show ?thesis using False Some v by (auto intro: walk_link)
    qed
  qed
qed

lemma resolve_loop_complete:
  "walk t resolved comps n final \<Longrightarrow> hops + n \<le> MAX_SYMLINK_HOPS \<Longrightarrow>
     resolve_loop t resolved hops comps = Inr final"
  by (induction arbitrary: hops rule: walk.induct)
     (auto simp: resolve_loop_Cons simp del: resolve_loop.simps(2))

lemma resolve_loop_iff:
  "resolve_loop t resolved 0 comps = Inr final \<longleftrightarrow>
     (\<exists>n\<le>MAX_SYMLINK_HOPS. walk t resolved comps n final)"
  using resolve_loop_sound [of t resolved 0 comps final] resolve_loop_complete [of t resolved comps _ final 0]
  by auto

text \<open>The directories a walk passes are real directories of the view, never links.\<close>

definition link_free :: "tree \<Rightarrow> bytes list \<Rightarrow> bool" where
  "link_free t ps \<longleftrightarrow> (\<forall>i<length ps. link_at t (take i ps) (ps ! i) = None)"

lemma link_free_Nil [simp]: "link_free t []"
  by (simp add: link_free_def)

lemma link_free_snoc: "link_free t ps \<Longrightarrow> link_at t ps p = None \<Longrightarrow> link_free t (ps @ [p])"
  by (auto simp: link_free_def nth_append less_Suc_eq)

lemma link_free_butlast: "link_free t ps \<Longrightarrow> link_free t (butlast ps)"
  by (auto simp: link_free_def nth_butlast butlast_conv_take min_def)

lemma walk_link_free: "walk t resolved comps n final \<Longrightarrow> link_free t resolved \<Longrightarrow> link_free t final"
  by (induction rule: walk.induct) (auto intro: link_free_snoc link_free_butlast)

lemma for_each_unit_ok:
  "for_each (\<lambda>_ x. f x) () xs = Inr () \<longleftrightarrow> (\<forall>x\<in>set xs. f x = Inr ())"
  by (induction xs) auto

lemma validate_symlinks_iff:
  "validate_symlinks t = Inr () \<longleftrightarrow>
     (\<forall>(path, entry)\<in>set t. e_kind entry = Symlink \<longrightarrow> resolve_symlink t path (link_target entry) = Inr ())"
  unfolding validate_symlinks_def for_each_unit_ok by auto

section \<open>The serialization can be read back\<close>

text \<open>
  An entry is encoded through what the serialization keeps of it: the file contents enter only
  as their length and their digest. These views are a prefix code, whatever \<open>sha\<close> is, as long
  as its outputs have 32 bytes.
\<close>

datatype payload = DirPayload | FilePayload nat bytes | LinkPayload bytes

type_synonym view = "bytes \<times> u32 \<times> u32 \<times> u32 \<times> u32 \<times> payload"

fun payload_tag :: "payload \<Rightarrow> u8" where
  "payload_tag DirPayload = 0x44"
| "payload_tag (FilePayload n d) = 0x46"
| "payload_tag (LinkPayload t) = 0x4c"

fun payload_encoding :: "payload \<Rightarrow> bytes" where
  "payload_encoding DirPayload = []"
| "payload_encoding (FilePayload n d) = be_bytes 8 n @ d"
| "payload_encoding (LinkPayload t) = put_bytes32 t"

fun legal_payload :: "payload \<Rightarrow> bool" where
  "legal_payload DirPayload = True"
| "legal_payload (FilePayload n d) = (n < 2 ^ 64 \<and> length d = 32)"
| "legal_payload (LinkPayload t) = (length t < 2 ^ 32)"

definition encode_view :: "view \<Rightarrow> bytes" where
  "encode_view = (\<lambda>(path, mode, uid, gid, mtime, pay).
     payload_tag pay # put_bytes32 path @ be32 mode @ be32 uid @ be32 gid @ be32 mtime
       @ payload_encoding pay)"

definition legal_view :: "view \<Rightarrow> bool" where
  "legal_view = (\<lambda>(path, mode, uid, gid, mtime, pay). length path < 2 ^ 32 \<and> legal_payload pay)"

definition entry_view :: "(bytes \<Rightarrow> bytes) \<Rightarrow> bytes \<times> Entry \<Rightarrow> view" where
  "entry_view sha = (\<lambda>(path, e). (path, e_mode e, e_uid e, e_gid e, e_mtime e,
     (case e_kind e of
        Directory \<Rightarrow> DirPayload
      | File \<Rightarrow> FilePayload (length (file_bytes e)) (sha (file_bytes e))
      | Symlink \<Rightarrow> LinkPayload (link_target e))))"

lemma encode_entry_view: "encode_entry sha x = encode_view (entry_view sha x)"
  by (cases x) (simp add: encode_entry_def encode_view_def entry_view_def split: EntryKind.split)

lemma put_bytes32_unique:
  "length v < 2 ^ 32 \<Longrightarrow> length w < 2 ^ 32 \<Longrightarrow> put_bytes32 v @ r = put_bytes32 w @ s \<Longrightarrow> v = w \<and> r = s"
  using put_bytes_unique [of v 4 w r s] by (simp add: put_bytes32_def put_bytes_def)

lemma be32_unique: "be32 v @ r = be32 w @ s \<Longrightarrow> v = w \<and> r = s"
proof -
  have bound: "unat x < 256 ^ 4" for x :: u32 using unsigned_less [of x] by simp
  assume "be32 v @ r = be32 w @ s"
  then have "unat v = unat w \<and> r = s" unfolding be32_def
    by (rule be_bytes_unique [OF bound bound])
  then show ?thesis by (simp add: word_unat_eq_iff)
qed

lemma payload_unique:
  assumes "legal_payload p" and "legal_payload q" and "payload_tag p = payload_tag q"
    and "payload_encoding p @ r = payload_encoding q @ s"
  shows "p = q \<and> r = s"
proof (cases p)
  case DirPayload
  with assms show ?thesis by (cases q) auto
next
  case (FilePayload n d)
  with assms(3) obtain m c where q: "q = FilePayload m c" by (cases q) auto
  have "be_bytes 8 n @ (d @ r) = be_bytes 8 m @ (c @ s)" using assms(4) FilePayload q by simp
  moreover have "n < 256 ^ 8" "m < 256 ^ 8" using assms(1,2) FilePayload q by auto
  ultimately have "n = m \<and> d @ r = c @ s" by (intro be_bytes_unique) auto
  then show ?thesis using assms(1,2) FilePayload q by auto
next
  case (LinkPayload t)
  with assms(3) obtain u where q: "q = LinkPayload u" by (cases q) auto
  with LinkPayload assms put_bytes32_unique [of t u r s] show ?thesis by auto
qed

interpretation tree_code: prefix_code encode_view legal_view
proof
  fix x y :: view and r s
  assume lx: "legal_view x" and ly: "legal_view y" and eq: "encode_view x @ r = encode_view y @ s"
  obtain p a b c d pay where x: "x = (p, a, b, c, d, pay)" by (cases x) auto
  obtain p' a' b' c' d' pay' where y: "y = (p', a', b', c', d', pay')" by (cases y) auto
  from eq have tag: "payload_tag pay = payload_tag pay'"
    and body: "put_bytes32 p @ (be32 a @ (be32 b @ (be32 c @ (be32 d @ (payload_encoding pay @ r))))) =
      put_bytes32 p' @ (be32 a' @ (be32 b' @ (be32 c' @ (be32 d' @ (payload_encoding pay' @ s)))))"
    by (simp_all add: x y encode_view_def)
  have l: "length p < 2 ^ 32" "length p' < 2 ^ 32" "legal_payload pay" "legal_payload pay'"
    using lx ly by (auto simp: x y legal_view_def)
  from put_bytes32_unique [OF l(1,2) body] have 1: "p = p'"
    and body1: "be32 a @ (be32 b @ (be32 c @ (be32 d @ (payload_encoding pay @ r)))) =
      be32 a' @ (be32 b' @ (be32 c' @ (be32 d' @ (payload_encoding pay' @ s))))" by auto
  from be32_unique [OF body1] have 2: "a = a'"
    and body2: "be32 b @ (be32 c @ (be32 d @ (payload_encoding pay @ r))) =
      be32 b' @ (be32 c' @ (be32 d' @ (payload_encoding pay' @ s)))" by auto
  from be32_unique [OF body2] have 3: "b = b'"
    and body3: "be32 c @ (be32 d @ (payload_encoding pay @ r)) =
      be32 c' @ (be32 d' @ (payload_encoding pay' @ s))" by auto
  from be32_unique [OF body3] have 4: "c = c'"
    and body4: "be32 d @ (payload_encoding pay @ r) = be32 d' @ (payload_encoding pay' @ s)" by auto
  from be32_unique [OF body4] have 5: "d = d'"
    and body5: "payload_encoding pay @ r = payload_encoding pay' @ s" by auto
  from payload_unique [OF l(3,4) tag body5] 1 2 3 4 5 show "x = y \<and> r = s" by (simp add: x y)
next
  fix x :: view
  show "encode_view x \<noteq> []" by (simp add: encode_view_def split: prod.splits)
qed

text \<open>
  The entries the constructors build: only a file has contents, only a link a target, and a
  link's mode is fixed.
\<close>

fun wf_entry :: "Entry \<Rightarrow> bool" where
  "wf_entry e = (case e_kind e of
     Directory \<Rightarrow> e_data e = None \<and> e_target e = None
   | File \<Rightarrow> e_data e \<noteq> None \<and> e_target e = None
   | Symlink \<Rightarrow> e_mode e = SYMLINK_MODE \<and> e_data e = None \<and> e_target e \<noteq> None)"

lemma wf_entry_constructors [simp]:
  "wf_entry (Entry_directory m u g t)"
  "wf_entry Entry_default_directory"
  "wf_entry (Entry_file d m u g t)"
  "wf_entry (Entry_symlink l u g t)"
  by (simp_all add: Entry_default_directory_def Entry_directory_def Entry_file_def Entry_symlink_def)

definition legal_entry :: "bytes \<times> Entry \<Rightarrow> bool" where
  "legal_entry x \<longleftrightarrow> wf_entry (snd x) \<and> length (fst x) < 2 ^ 32
     \<and> length (file_bytes (snd x)) < 2 ^ 64 \<and> length (link_target (snd x)) < 2 ^ 32"

definition file_contents :: "tree \<Rightarrow> bytes set" where
  "file_contents t = file_bytes ` snd ` set t"

lemma legal_entry_view:
  assumes "legal_entry x" and "\<And>bs. length (sha bs) = 32"
  shows "legal_view (entry_view sha x)"
  using assms by (cases x) (auto simp: legal_entry_def legal_view_def entry_view_def split: EntryKind.split)

lemma entry_view_inject:
  assumes "legal_entry x" and "legal_entry y" and "inj_on sha D"
    and "file_bytes (snd x) \<in> D" and "file_bytes (snd y) \<in> D"
    and "entry_view sha x = entry_view sha y"
  shows "x = y"
proof -
  obtain p e where x: "x = (p, e)" by (cases x) auto
  obtain q f where y: "y = (q, f)" by (cases y) auto
  from assms(6) have head: "p = q" "e_mode e = e_mode f" "e_uid e = e_uid f" "e_gid e = e_gid f"
      "e_mtime e = e_mtime f" and kind: "e_kind e = e_kind f"
    by (auto simp: x y entry_view_def split: EntryKind.splits)
  have contents: "e_kind e = File \<Longrightarrow> file_bytes e = file_bytes f"
    using assms(3-6) kind by (auto simp: x y entry_view_def dest: inj_onD)
  have link: "e_kind e = Symlink \<Longrightarrow> link_target e = link_target f"
    using assms(6) kind by (auto simp: x y entry_view_def)
  have "e_data e = e_data f \<and> e_target e = e_target f"
    using assms(1,2) kind contents link
    by (auto simp: x y legal_entry_def file_bytes_def link_target_def split: EntryKind.splits option.splits)
  with head kind show ?thesis by (simp add: x y)
qed

lemma encode_inject:
  assumes "list_all legal_entry t" and "list_all legal_entry u"
    and "\<And>bs. length (sha bs) = 32" and "inj_on sha (file_contents t \<union> file_contents u)"
  shows "encode sha t = encode sha u \<longleftrightarrow> t = u"
proof
  assume "encode sha t = encode sha u"
  then have "concat (map encode_view (map (entry_view sha) t)) = concat (map encode_view (map (entry_view sha) u))"
    by (simp add: encode_def encode_entry_view [abs_def] comp_def)
  moreover have "list_all legal_view (map (entry_view sha) t)" "list_all legal_view (map (entry_view sha) u)"
    using assms by (auto simp: list_all_iff intro: legal_entry_view)
  ultimately have views: "map (entry_view sha) t = map (entry_view sha) u"
    using tree_code.concat_enc_inject by blast
  show "t = u"
  proof (rule map_inj_on [OF views], rule inj_onI)
    fix x y
    assume xy: "x \<in> set t \<union> set u" "y \<in> set t \<union> set u" and same: "entry_view sha x = entry_view sha y"
    have l: "legal_entry x" "legal_entry y" using xy assms(1,2) by (auto simp: list_all_iff)
    have "file_bytes (snd z) \<in> file_contents t \<union> file_contents u" if "z \<in> set t \<union> set u" for z
      using that by (auto simp: file_contents_def)
    with xy have d: "file_bytes (snd x) \<in> file_contents t \<union> file_contents u"
      "file_bytes (snd y) \<in> file_contents t \<union> file_contents u" by blast+
    show "x = y" by (rule entry_view_inject [OF l assms(4) d same])
  qed
qed simp

lemma hex_of_byte_inject: "hex_of_byte b = hex_of_byte c \<longleftrightarrow> b = c"
proof
  assume "hex_of_byte b = hex_of_byte c"
  then have "unat b div 16 = unat c div 16" "unat b mod 16 = unat c mod 16"
    using byte_nibbles [of b] byte_nibbles [of c] by (auto simp: hex_of_byte_def digit_char_inject)
  then have "unat b = unat c" by (metis div_mult_mod_eq)
  then show "b = c" by (simp add: word_unat_eq_iff)
qed simp

lemma hex_text_inject: "hex_text bs = hex_text cs \<longleftrightarrow> bs = cs"
proof
  assume "hex_text bs = hex_text cs"
  then show "bs = cs"
  proof (induction bs arbitrary: cs)
    case Nil
    then have "length (hex_text cs) = 0" by simp
    then show ?case by simp
  next
    case (Cons b bs)
    then have "length (hex_text cs) = length (hex_text (b # bs))" by simp
    then obtain c ds where cs: "cs = c # ds" by (cases cs) auto
    with Cons.prems have "hex_of_byte b = hex_of_byte c \<and> hex_text bs = hex_text ds"
      by (simp add: append_eq_append_conv)
    with Cons.IH cs show ?case by (simp add: hex_of_byte_inject)
  qed
qed simp

section \<open>The guest template can be read back\<close>

text \<open>
  A reader of the \<open>newc\<close> format, as the guest's kernel reads the archive: a magic number,
  thirteen fields of eight hexadecimal digits, the NUL-terminated name, the contents, each part
  padded to four bytes.
\<close>

definition hex_value :: "u8 \<Rightarrow> nat" where
  "hex_value b = (if unat b \<le> 0x39 then unat b - 0x30 else unat b - 0x61 + 10)"

definition hex_field :: "bytes \<Rightarrow> nat" where
  "hex_field bs = undigits 16 0 (map hex_value bs)"

definition round_four :: "nat \<Rightarrow> nat" where
  "round_four n = (n + 3) div 4 * 4"

type_synonym newc = "bytes \<times> nat list \<times> bytes"

function read_newc :: "bytes \<Rightarrow> newc list option" where
  "read_newc bs =
     (if bs = [] then Some []
      else if length bs < 110 \<or> take 6 bs \<noteq> as_bytes ''070701'' then None
      else
        let hdr = map (\<lambda>i. hex_field (take 8 (drop (6 + 8 * i) bs))) [0..<13];
            name_end = round_four (110 + hdr ! 11);
            data_end = round_four (name_end + hdr ! 6)
        in if hdr ! 11 = 0 \<or> length bs < data_end then None
           else map_option (\<lambda>rest. (take (hdr ! 11 - 1) (drop 110 bs), hdr,
                                  take (hdr ! 6) (drop name_end bs)) # rest)
                  (read_newc (drop data_end bs)))"
  by pat_completeness auto
termination
  by (relation "measure length") (auto simp: round_four_def)

declare read_newc.simps [simp del]

definition four_pad :: "nat \<Rightarrow> bytes" where
  "four_pad n = replicate (round_four n - n) 0"

lemma round_four_props: "n \<le> round_four n" "round_four n mod 4 = 0" "round_four n < n + 4"
  unfolding round_four_def by presburger+

lemma round_four_id: "n mod 4 = 0 \<Longrightarrow> round_four n = n"
  unfolding round_four_def by presburger

lemma round_four_add: "m mod 4 = 0 \<Longrightarrow> round_four (m + n) = m + round_four n"
  unfolding round_four_def by presburger

lemma round_four_Suc: "n mod 4 \<noteq> 0 \<Longrightarrow> round_four (Suc n) = round_four n"
  unfolding round_four_def by presburger

lemma pad_four_eq: "pad_four out = out @ four_pad (length out)"
proof (induction out rule: pad_four.induct)
  case (1 out)
  show ?case
  proof (cases "length out mod 4 = 0")
    case True
    then show ?thesis by (simp add: pad_four.simps four_pad_def round_four_id)
  next
    case False
    then have "round_four (length out) - length out = Suc (round_four (length out) - Suc (length out))"
      using round_four_props [of "length out"] by (metis Suc_diff_Suc le_neq_implies_less)
    with False 1 show ?thesis
      by (simp add: pad_four.simps [of out] four_pad_def round_four_Suc)
  qed
qed

lemma length_four_pad [simp]: "length (four_pad n) = round_four n - n"
  by (simp add: four_pad_def)

lemma four_pad_add: "m mod 4 = 0 \<Longrightarrow> four_pad (m + n) = four_pad n"
  by (simp add: four_pad_def round_four_add)

lemma hex_value_digit: "d < 16 \<Longrightarrow> hex_value (of_char (digit_char d)) = d"
  by (drule less_16_cases, elim disjE) (simp_all add: hex_value_def digit_char_def of_char_def)

lemma hex_value_zero: "hex_value 48 = 0"
  by (simp add: hex_value_def)

lemma undigits_zeros: "undigits b 0 (replicate k 0 @ ds) = undigits b 0 ds"
  by (induction k) simp_all

lemma hex_field_format: "hex_field (as_bytes (zero_pad 8 (lower_hex n))) = n"
proof -
  have "map hex_value (as_bytes (lower_hex n)) = digits 16 n"
    using digits_less [of 16 _ n]
    by (auto simp: as_bytes_def lower_hex_def hex_value_digit intro!: map_idI)
  then show ?thesis
    by (simp add: hex_field_def zero_pad_def as_bytes_def hex_value_zero undigits_zeros undigits_digits)
qed

lemma length_field: "n \<le> u32_max \<Longrightarrow> length (zero_pad 8 (lower_hex n)) = 8"
proof -
  assume "n \<le> u32_max"
  then have "n < 16 ^ 8" by (simp add: u32_max_eq)
  then have "length (lower_hex n) \<le> 8" by (rule length_lower_hex) simp
  then show ?thesis by simp
qed

lemma nth_fields:
  assumes "\<forall>n\<in>set ns. n \<le> u32_max" and "i < length ns"
  shows "take 8 (drop (8 * i) (as_bytes (concat (map (\<lambda>f. zero_pad 8 (lower_hex f)) ns)) @ r))
    = as_bytes (zero_pad 8 (lower_hex (ns ! i)))"
  using assms
proof (induction ns arbitrary: i)
  case Nil
  then show ?case by simp
next
  case (Cons n ns)
  from Cons.prems have len: "length (zero_pad 8 (lower_hex n)) = 8" by (intro length_field) simp
  show ?case
  proof (cases i)
    case 0
    with len show ?thesis by simp
  next
    case (Suc j)
    have "8 * Suc j = 8 * j + 8" by simp
    with Suc len Cons show ?thesis by (simp add: drop_append)
  qed
qed

lemma length_fields:
  "\<forall>n\<in>set ns. n \<le> u32_max \<Longrightarrow>
     length (concat (map (\<lambda>f. zero_pad 8 (lower_hex f)) ns)) = 8 * length ns"
  by (induction ns) (simp_all add: length_field del: length_zero_pad)

definition newc_record :: "bytes \<Rightarrow> nat list \<Rightarrow> bytes \<Rightarrow> bytes" where
  "newc_record name hdr contents =
     (let head = as_bytes ''070701'' @ as_bytes (concat (map (\<lambda>f. zero_pad 8 (lower_hex f)) hdr))
            @ name @ [0]
      in head @ four_pad (length head) @ contents @ four_pad (length contents))"

lemma read_newc_record:
  assumes hdr: "length hdr = 13" "\<forall>n\<in>set hdr. n \<le> u32_max"
    and size: "hdr ! 6 = length contents" and name: "hdr ! 11 = Suc (length name)"
  shows "read_newc (newc_record name hdr contents @ rest) =
    map_option (\<lambda>more. (name, hdr, contents) # more) (read_newc rest)"
proof -
  define body where "body = as_bytes (concat (map (\<lambda>f. zero_pad 8 (lower_hex f)) hdr))"
  have len_body: "length body = 104" using hdr by (simp add: body_def length_fields)
  define ne where "ne = round_four (111 + length name)"
  define de where "de = round_four (ne + length contents)"
  have ne_ge: "111 + length name \<le> ne" and ne_mod: "ne mod 4 = 0"
    unfolding ne_def by (rule round_four_props)+
  have de_ge: "ne + length contents \<le> de"
    unfolding de_def by (rule round_four_props)
  define bs where "bs = newc_record name hdr contents @ rest"
  have bs: "bs = as_bytes ''070701'' @ body @ name @ 0 # four_pad (111 + length name)
      @ contents @ four_pad (length contents) @ rest"
    by (simp add: bs_def newc_record_def Let_def body_def [symmetric] len_body)
  have len_pad: "length (four_pad (length contents)) = de - (ne + length contents)"
    using round_four_add [OF ne_mod, of "length contents"] by (simp add: de_def)
  have at_name: "drop 110 bs = name @ 0 # four_pad (111 + length name) @ contents @ four_pad (length contents) @ rest"
    by (simp add: bs len_body)
  have at_data: "drop ne bs = contents @ four_pad (length contents) @ rest"
  proof -
    have "drop ne bs = drop (ne - 110) (drop 110 bs)" using ne_ge by simp
    also have "\<dots> = contents @ four_pad (length contents) @ rest"
      unfolding at_name using ne_ge by (simp add: drop_append ne_def drop_Cons')
    finally show ?thesis .
  qed
  have at_rest: "drop de bs = rest"
  proof -
    have "drop de bs = drop (de - ne) (drop ne bs)" using de_ge by simp
    also have "\<dots> = rest" unfolding at_data using de_ge len_pad by (simp add: drop_append)
    finally show ?thesis .
  qed
  have each: "hex_field (take 8 (drop (6 + 8 * i) bs)) = hdr ! i" if "i < 13" for i
  proof -
    have "drop (6 + 8 * i) bs = drop (8 * i) (drop 6 bs)" by (simp add: add.commute)
    also have "\<dots> = drop (8 * i) (body @ drop 110 bs)" by (simp add: bs len_body)
    finally have "take 8 (drop (6 + 8 * i) bs) = as_bytes (zero_pad 8 (lower_hex (hdr ! i)))"
      using nth_fields [of hdr i "drop 110 bs"] hdr that by (simp add: body_def)
    then show ?thesis by (simp add: hex_field_format)
  qed
  have fs: "map (\<lambda>i. hex_field (take 8 (drop (6 + 8 * i) bs))) [0..<13] = hdr"
    using each hdr(1) by (intro nth_equalityI) auto
  have lens: "length bs \<ge> de"
  proof -
    have "length (drop ne bs) = length contents + (de - (ne + length contents)) + length rest"
      using len_pad by (simp add: at_data)
    moreover have "length bs > ne \<or> de = ne"
      using calculation de_ge by (cases "length bs > ne") auto
    ultimately show ?thesis
      using de_ge len_body ne_ge by (auto simp: bs ne_def)
  qed
  have "bs \<noteq> []" "\<not> length bs < 110" "take 6 bs = as_bytes ''070701''"
    by (simp_all add: bs len_body)
  then have "read_newc bs = map_option (\<lambda>more. (take (hdr ! 11 - 1) (drop 110 bs), hdr,
      take (hdr ! 6) (drop ne bs)) # more) (read_newc (drop de bs))"
    using lens name size by (subst read_newc.simps) (simp add: fs ne_def de_def Let_def)
  also have "\<dots> = map_option (\<lambda>more. (name, hdr, contents) # more) (read_newc rest)"
    by (simp add: at_rest at_data at_name name size)
  finally show ?thesis by (simp add: bs_def)
qed

definition newc_contents :: "Entry \<Rightarrow> bytes" where
  "newc_contents e = (case e_kind e of Directory \<Rightarrow> [] | File \<Rightarrow> file_bytes e | Symlink \<Rightarrow> link_target e)"

definition newc_type :: "EntryKind \<Rightarrow> u32" where
  "newc_type k = (case k of Directory \<Rightarrow> 0x4000 | File \<Rightarrow> 0x8000 | Symlink \<Rightarrow> 0xa000)"

definition newc_of :: "bytes \<times> Entry \<Rightarrow> newc" where
  "newc_of = (\<lambda>(name, e).
     (name, cpio_header name (or (newc_type (e_kind e)) (e_mode e)) (e_uid e) (e_gid e) (e_mtime e)
        (newc_contents e), newc_contents e))"

definition newc_trailer :: newc where
  "newc_trailer = (as_bytes ''TRAILER!!!'', cpio_header (as_bytes ''TRAILER!!!'') 0 0 0 0 [], [])"

definition newc_bytes :: "newc \<Rightarrow> bytes" where
  "newc_bytes = (\<lambda>(name, hdr, contents). newc_record name hdr contents)"

definition newc_ok :: "newc \<Rightarrow> bool" where
  "newc_ok = (\<lambda>(name, hdr, contents). length hdr = 13 \<and> (\<forall>n\<in>set hdr. n \<le> u32_max)
     \<and> hdr ! 6 = length contents \<and> hdr ! 11 = Suc (length name))"

text \<open>The members of the template, in order: the root under its name, then every other entry.\<close>

definition template_members :: "tree \<Rightarrow> string \<Rightarrow> Entry \<Rightarrow> (bytes \<times> Entry) list" where
  "template_members t root_name root =
     (as_bytes root_name, root) #
     map (\<lambda>(path, e). (as_bytes root_name @ [slash] @ path, e)) (filter (\<lambda>(path, e). path \<noteq> ROOT_PATH) t)"

lemma read_newc_all:
  "list_all newc_ok ms \<Longrightarrow> read_newc (concat (map newc_bytes ms)) = Some ms"
proof (induction ms)
  case Nil
  show ?case by (simp add: read_newc.simps)
next
  case (Cons m ms)
  obtain name hdr contents where m: "m = (name, hdr, contents)" by (cases m) auto
  with Cons show ?case
    using read_newc_record [of hdr contents name "concat (map newc_bytes ms)"]
    by (simp add: newc_bytes_def newc_ok_def)
qed

lemma length_newc_bytes: "newc_ok m \<Longrightarrow> length (newc_bytes m) mod 4 = 0"
proof -
  assume "newc_ok m"
  then obtain name hdr contents where m: "m = (name, hdr, contents)"
    and h: "length hdr = 13" "\<forall>n\<in>set hdr. n \<le> u32_max" by (cases m) (auto simp: newc_ok_def)
  have "length (newc_bytes m) = round_four (111 + length name) + round_four (length contents)"
    using h round_four_props(1) [of "111 + length name"] round_four_props(1) [of "length contents"]
    by (simp add: m newc_bytes_def newc_record_def Let_def length_fields)
  then show ?thesis
    using round_four_props(2) [of "111 + length name"] round_four_props(2) [of "length contents"] by presburger
qed

lemma append_cpio_eq:
  assumes "length out mod 4 = 0"
  shows "append_cpio out name mode uid gid mtime contents = Inr out' \<longleftrightarrow>
    newc_ok (name, cpio_header name mode uid gid mtime contents, contents) \<and>
    out' = out @ newc_bytes (name, cpio_header name mode uid gid mtime contents, contents)"
proof -
  define hdr where "hdr = cpio_header name mode uid gid mtime contents"
  define head where "head = as_bytes ''070701'' @ as_bytes (concat (map (\<lambda>f. zero_pad 8 (lower_hex f)) hdr)) @ name @ [0]"
  have small: "newc_ok (name, hdr, contents) \<longleftrightarrow> length contents \<le> u32_max \<and> length name + 1 \<le> u32_max"
    using u32_le_max by (auto simp: newc_ok_def hdr_def cpio_header_def u32_max_eq)
  have p1: "pad_four (out @ head) = out @ head @ four_pad (length head)"
    using assms by (simp add: pad_four_eq four_pad_add)
  have "length (out @ head @ four_pad (length head)) mod 4 = 0" (is "length ?pre mod 4 = 0")
    using assms round_four_props [of "length head"] by (simp add: mod_add_eq [symmetric])
  then have p2: "pad_four ((out @ head @ four_pad (length head)) @ contents) =
      out @ head @ four_pad (length head) @ contents @ four_pad (length contents)"
    using four_pad_add [of "length ?pre" "length contents"] by (subst pad_four_eq) (simp add: add.assoc)
  have "append_cpio out name mode uid gid mtime contents =
    (if length contents > u32_max then Inl TemplateFileTooLarge
     else if length name + 1 > u32_max then Inl TemplateNameTooLarge
     else Inr (pad_four (pad_four (out @ head) @ contents)))"
    by (simp only: append_cpio_def hdr_def [symmetric] head_def)
  also have "pad_four (pad_four (out @ head) @ contents) = out @ newc_bytes (name, hdr, contents)"
    unfolding p1 p2 by (simp add: newc_bytes_def newc_record_def Let_def head_def)
  finally show ?thesis using small by (auto simp: hdr_def [symmetric])
qed

lemma append_template_entry_eq:
  assumes "length out mod 4 = 0"
  shows "append_template_entry out name e = Inr out' \<longleftrightarrow>
    newc_ok (newc_of (name, e)) \<and> out' = out @ newc_bytes (newc_of (name, e))"
  by (cases "e_kind e")
    (simp_all add: append_template_entry_def append_cpio_eq [OF assms] newc_of_def newc_contents_def newc_type_def)

lemma newc_append_aligned:
  "length out mod 4 = 0 \<Longrightarrow> newc_ok m \<Longrightarrow> length (out @ newc_bytes m) mod 4 = 0"
  using length_newc_bytes [of m] by (simp add: mod_add_eq [symmetric])

lemma template_loop_eq:
  assumes "length out mod 4 = 0"
  shows "for_each (\<lambda>out (path, entry).
             if path = ROOT_PATH then Inr out
             else append_template_entry out (as_bytes root_name @ [slash] @ path) entry) out t = Inr out' \<longleftrightarrow>
    (let ms = map newc_of (map (\<lambda>(path, e). (as_bytes root_name @ [slash] @ path, e))
                (filter (\<lambda>(path, e). path \<noteq> ROOT_PATH) t))
     in list_all newc_ok ms \<and> out' = out @ concat (map newc_bytes ms))"
  using assms
proof (induction t arbitrary: out)
  case Nil
  show ?case by auto
next
  case (Cons x t)
  obtain path e where x: "x = (path, e)" by (cases x)
  show ?case
  proof (cases "path = ROOT_PATH")
    case True
    with Cons x show ?thesis by simp
  next
    case False
    define m where "m = newc_of (as_bytes root_name @ [slash] @ path, e)"
    have step: "append_template_entry out (as_bytes root_name @ [slash] @ path) e = Inr mid \<longleftrightarrow>
        newc_ok m \<and> mid = out @ newc_bytes m" for mid
      unfolding m_def by (rule append_template_entry_eq [OF Cons.prems])
    show ?thesis
    proof (cases "newc_ok m")
      case True
      with Cons.prems have al: "length (out @ newc_bytes m) mod 4 = 0" by (rule newc_append_aligned)
      show ?thesis using True False x step Cons.IH [OF al] by (simp add: Let_def m_def)
    next
      case bad: False
      with False x step show ?thesis by (simp add: Let_def m_def)
    qed
  qed
qed

lemma template_eq:
  "template t root_name = Inr out \<longleftrightarrow>
     (\<exists>root. Tree_get t ROOT_PATH = Some root \<and> e_kind root = Directory \<and>
        (let ms = map newc_of (template_members t root_name root)
         in list_all newc_ok ms \<and> out = concat (map newc_bytes (ms @ [newc_trailer]))))"
proof -
  have trailer: "append_cpio o2 (as_bytes ''TRAILER!!!'') 0 0 0 0 [] = Inr out \<longleftrightarrow> out = o2 @ newc_bytes newc_trailer"
    if "length o2 mod 4 = 0" for o2
    unfolding append_cpio_eq [OF that] newc_trailer_def [symmetric]
    by (simp add: newc_ok_def newc_trailer_def cpio_header_def u32_max_eq)
  have aligned: "list_all newc_ok ms \<Longrightarrow> length (concat (map newc_bytes ms)) mod 4 = 0" for ms
    by (induction ms) (auto simp: length_newc_bytes mod_add_eq [symmetric])
  have al0: "length ([] :: bytes) mod 4 = 0" by simp
  show ?thesis
  proof (cases "Tree_get t ROOT_PATH")
    case None
    then show ?thesis by (simp add: template_def template_entries_def)
  next
    case (Some root)
    define m where "m = newc_of (as_bytes root_name, root)"
    define ms where "ms = map newc_of (map (\<lambda>(path, e). (as_bytes root_name @ [slash] @ path, e))
                (filter (\<lambda>(path, e). path \<noteq> ROOT_PATH) t))"
    have ents: "template_entries t root_name = Inr o2 \<longleftrightarrow>
        e_kind root = Directory \<and> list_all newc_ok (m # ms) \<and> o2 = concat (map newc_bytes (m # ms))" for o2
    proof (cases "e_kind root = Directory \<and> newc_ok m")
      case True
      then have first: "append_template_entry [] (as_bytes root_name) root = Inr (newc_bytes m)"
        using append_template_entry_eq [OF al0, of "as_bytes root_name" root] by (simp add: m_def)
      from True have "length (newc_bytes m) mod 4 = 0" by (simp add: length_newc_bytes)
      note loop = template_loop_eq [OF this, of root_name t o2, folded ms_def, unfolded Let_def]
      have "template_entries t root_name = for_each (\<lambda>out (path, entry).
             if path = ROOT_PATH then Inr out
             else append_template_entry out (as_bytes root_name @ [slash] @ path) entry) (newc_bytes m) t"
        using True by (simp add: template_entries_def Some first)
      with loop True show ?thesis by simp
    next
      case False
      then show ?thesis
        using append_template_entry_eq [OF al0, of "as_bytes root_name" root]
        by (auto simp: template_entries_def Some m_def)
    qed
    have mm: "map newc_of (template_members t root_name root) = m # ms"
      by (simp add: template_members_def m_def ms_def)
    have "template t root_name = Inr out \<longleftrightarrow> e_kind root = Directory \<and> list_all newc_ok (m # ms) \<and>
        out = concat (map newc_bytes (m # ms)) @ newc_bytes newc_trailer"
    proof (cases "e_kind root = Directory \<and> list_all newc_ok (m # ms)")
      case True
      with ents have "template_entries t root_name = Inr (concat (map newc_bytes (m # ms)))" by blast
      with True trailer [OF aligned, of "m # ms"] show ?thesis by (simp add: template_def)
    next
      case False
      with ents show ?thesis by (auto simp: template_def)
    qed
    then show ?thesis using Some by (simp add: mm Let_def del: map_map)
  qed
qed


section \<open>Properties\<close>

text \<open>
  C2. The canonical digest identifies the filesystem. Two well-formed trees of legal entries
  have the same digest exactly when they are the same tree (paths, kinds, modes, owners, times,
  file contents and link targets), for every \<open>sha\<close> with 32-byte outputs that has no collision
  on the two serializations and on the file contents of the two trees.
\<close>

theorem canonical_digest_identifies:
  assumes "list_all legal_entry t" and "list_all legal_entry u"
    and "\<And>bs. length (sha bs) = 32"
    and "inj_on sha (file_contents t \<union> file_contents u \<union>
           {CANONICAL_PREFIX @ encode sha t, CANONICAL_PREFIX @ encode sha u})"
  shows "canonical_digest sha t = canonical_digest sha u \<longleftrightarrow> t = u"
proof -
  have "inj_on sha (file_contents t \<union> file_contents u)"
    using assms(4) by (rule inj_on_subset) blast
  with assms(1-3) have "encode sha t = encode sha u \<longleftrightarrow> t = u" by (rule encode_inject)
  then show ?thesis
    using inj_onD [OF assms(4), of "CANONICAL_PREFIX @ encode sha t" "CANONICAL_PREFIX @ encode sha u"]
    by (auto simp: canonical_digest_def hex_text_inject)
qed

text \<open>
  Path normalization accepts into exactly the normal forms: an accepted path has only
  proper components (no empty, \<open>.\<close> or \<open>..\<close> component, no NUL), is at most
  \<open>MAX_PATH_BYTES\<close> long and normalizes to itself.
\<close>

theorem normalize_layer_path_normal_forms:
  "(\<exists>raw. normalize_layer_path raw = Inr path) \<longleftrightarrow> normal_path path \<and> normalize_layer_path path = Inr path"
  using normalize_normal normal_fixed by blast

text \<open>
  C23. A symbolic link is accepted exactly when its target has the accepted syntax and following
  it component by component, from the directory that holds the link, ends inside the root after
  at most \<open>MAX_SYMLINK_HOPS\<close> links; the path it ends at passes through no symbolic link.
\<close>

theorem resolve_symlink_iff_walk:
  "resolve_symlink t link_path target = Inr () \<longleftrightarrow>
     validate_symlink_syntax target = Inr () \<and>
     (\<exists>n\<le>MAX_SYMLINK_HOPS. \<exists>final. link_free t final \<and>
        walk t [] (path_components (case parent_of link_path of Some p \<Rightarrow> p | None \<Rightarrow> [])
                   @ path_components target) n final)"
proof -
  have free: "link_free t f \<and> walk t [] c n f \<longleftrightarrow> walk t [] c n f" for c n f
    using walk_link_free [of t "[]" c n f] by auto
  show ?thesis
    unfolding resolve_symlink_def Let_def and_then_eq_Inr resolve_loop_iff free by auto
qed

text \<open>
  The guest template is the archive of the tree. It is produced only from a tree whose root
  is a directory, and a reader of the \<open>newc\<close> format gets back from it the root entry first
  and every other entry in the order of the tree under the root's name, with the file types,
  modes, owners, times and contents, then the trailer.
\<close>

theorem template_read_back:
  assumes "template t root_name = Inr archive"
  shows "\<exists>root. Tree_get t ROOT_PATH = Some root \<and> e_kind root = Directory \<and>
    read_newc archive = Some (map newc_of (template_members t root_name root) @ [newc_trailer])"
proof -
  obtain root where root: "Tree_get t ROOT_PATH = Some root" "e_kind root = Directory"
    and ok: "list_all newc_ok (map newc_of (template_members t root_name root))"
    and arc: "archive = concat (map newc_bytes (map newc_of (template_members t root_name root) @ [newc_trailer]))"
    using assms by (auto simp: template_eq Let_def)
  have "newc_ok newc_trailer" by (simp add: newc_ok_def newc_trailer_def cpio_header_def u32_max_eq)
  with ok have "list_all newc_ok (map newc_of (template_members t root_name root) @ [newc_trailer])" by simp
  then show ?thesis unfolding arc using root read_newc_all by blast
qed

section \<open>Witnesses\<close>

definition sample_tree :: tree where
  "sample_tree = Tree_insert (as_bytes ''bin'') (Entry_directory 0x1ed 0 0 1)
     (Tree_insert (as_bytes ''bin/sh'') (Entry_file [1, 2, 3] 0x1ed 0 0 2)
       (Tree_insert ROOT_PATH Entry_default_directory Tree_new))"

text \<open>A hash with 32-byte outputs: the digest of a short text is the text, padded.\<close>

definition toy_sha :: "bytes \<Rightarrow> bytes" where
  "toy_sha bs = (of_nat (length bs) # take 31 (bs @ replicate 31 0))"

lemma length_toy_sha: "length (toy_sha bs) = 32"
  by (simp add: toy_sha_def)

lemma sample_tree_eq:
  "sample_tree = [(ROOT_PATH, Entry_default_directory), (as_bytes ''bin'', Entry_directory 0x1ed 0 0 1),
     (as_bytes ''bin/sh'', Entry_file [1, 2, 3] 0x1ed 0 0 2)]"
  by (simp add: sample_tree_def Tree_new_def ROOT_PATH_def as_bytes_def)

lemma file_contents_sample: "file_contents sample_tree = {[], [1, 2, 3]}"
  by (auto simp: file_contents_def sample_tree_eq file_bytes_def Entry_default_directory_def
      Entry_directory_def Entry_file_def)

lemma toy_sha_lengths: "length bs < 256 \<Longrightarrow> length cs < 256 \<Longrightarrow> length bs \<noteq> length cs \<Longrightarrow> toy_sha bs \<noteq> toy_sha cs"
proof
  assume l: "length bs < 256" "length cs < 256" "length bs \<noteq> length cs" and "toy_sha bs = toy_sha cs"
  then have "unat (of_nat (length bs) :: u8) = unat (of_nat (length cs) :: u8)" by (simp add: toy_sha_def)
  with l show False by (simp add: unat_of_nat)
qed

lemma toy_sha_inj:
  "inj_on toy_sha (file_contents sample_tree \<union> file_contents Tree_new \<union>
     {CANONICAL_PREFIX @ encode toy_sha sample_tree, CANONICAL_PREFIX @ encode toy_sha Tree_new})"
proof -
  have len: "length (encode toy_sha sample_tree) = 113"
    by (simp add: encode_def encode_entry_def sample_tree_eq Entry_default_directory_def
        Entry_directory_def Entry_file_def put_bytes32_def be32_def ROOT_PATH_def length_toy_sha)
  have pre: "length CANONICAL_PREFIX = 34" by (simp add: CANONICAL_PREFIX_def)
  have new: "file_contents Tree_new = {}" "encode toy_sha Tree_new = []"
    by (simp_all add: file_contents_def encode_def Tree_new_def)
  have inj: "inj_on toy_sha X" if "inj_on length X" "\<forall>x\<in>X. length x < 256" for X
    using that toy_sha_lengths by (meson inj_on_def)
  show ?thesis unfolding file_contents_sample new
    by (rule inj) (auto simp: inj_on_def len pre)
qed

theorem canonical_digest_identifies_witness:
  "canonical_digest toy_sha sample_tree = canonical_digest toy_sha Tree_new \<longleftrightarrow> sample_tree = Tree_new"
proof (rule canonical_digest_identifies)
  show "list_all legal_entry sample_tree"
    by (simp add: sample_tree_eq legal_entry_def file_bytes_def link_target_def
        Entry_default_directory_def Entry_directory_def Entry_file_def ROOT_PATH_def)
  show "list_all legal_entry Tree_new" by (simp add: Tree_new_def)
  show "length (toy_sha bs) = 32" for bs by (rule length_toy_sha)
  show "inj_on toy_sha (file_contents sample_tree \<union> file_contents Tree_new \<union>
     {CANONICAL_PREFIX @ encode toy_sha sample_tree, CANONICAL_PREFIX @ encode toy_sha Tree_new})"
    by (rule toy_sha_inj)
qed

lemma template_of_sample: "\<exists>archive. template sample_tree ''root'' = Inr archive"
  unfolding template_eq
  by (simp add: Let_def sample_tree_eq Tree_get_def template_members_def newc_of_def newc_ok_def
      newc_contents_def cpio_header_def file_bytes_def Entry_default_directory_def
      Entry_directory_def Entry_file_def ROOT_PATH_def as_bytes_def u32_max_eq newc_type_def
      u32_le_max [unfolded u32_max_eq])

theorem template_read_back_witness:
  "\<exists>archive root. template sample_tree ''root'' = Inr archive \<and>
     read_newc archive = Some (map newc_of (template_members sample_tree ''root'' root) @ [newc_trailer])"
  using template_of_sample template_read_back [of sample_tree "''root''"] by blast

end
