(* ===== verification/Launch.thy ===== *)
theory Launch
  imports Canonical_Tree
begin

text \<open>
  The versioned workload specification of \<open>workload/spec.rs\<close> and its normalized launch
  identity: locators, digests, argument vectors, environments, numeric credentials, the working
  directory inside the canonical tree, and the launch contract the assembler and the guest
  runtime share. The TOML reader is a parameter: three functions that read the text as one of
  the three document shapes. The lemmas characterize every loop by a declarative contract, show
  that the two copies of the environment loop accept the same environments, and that parsed
  credentials are the printed ones.
\<close>

section \<open>Limits and errors\<close>

definition MAX_SPECIFICATION_BYTES :: nat where "MAX_SPECIFICATION_BYTES = 2 ^ 20"
definition MAX_ARGUMENTS :: nat where "MAX_ARGUMENTS = 256"
definition MAX_ARGUMENT_BYTES :: nat where "MAX_ARGUMENT_BYTES = 4096"
definition MAX_ENVIRONMENT_ENTRIES :: nat where "MAX_ENVIRONMENT_ENTRIES = 256"
definition MAX_ENVIRONMENT_ENTRY_BYTES :: nat where "MAX_ENVIRONMENT_ENTRY_BYTES = 4096"
definition MAX_ENVIRONMENT_BYTES :: nat where "MAX_ENVIRONMENT_BYTES = 64 * 1024"
definition WORKLOAD_SPEC_VERSION :: nat where "WORKLOAD_SPEC_VERSION = 1"
definition RESERVED_OWNER :: u32 where "RESERVED_OWNER = 0xffffffff"

definition DEFAULT_USER :: string where "DEFAULT_USER = ''65534:65534''"
definition BINARY_INSTALL_PATH :: string where "BINARY_INSTALL_PATH = ''bin/simferret-workload''"

datatype (plugins only: code size) spec_error =
    SpecificationTooLarge
  | SpecificationNotUtf8
  | MalformedSpecification
  | UnsupportedVersion nat
  | MalformedBinary
  | BinaryKindExpected
  | BinaryUserMissing
  | MalformedOci
  | OciKindExpected
  | LocatorEmpty string
  | LocatorNotRelative string
  | LocatorNul string
  | LocatorEscapes string
  | LocatorEmptyComponent string
  | DigestShape
  | ArgumentsTooMany string
  | ArgumentTooLong string
  | ArgumentNul string
  | EnvironmentTooMany
  | EnvironmentEntryTooLong
  | EnvironmentTooLarge
  | EnvironmentNul
  | EnvironmentNotNameValue nat
  | EnvironmentRepeatsName nat
  | UserRequired
  | UserShape
  | UserUidRange
  | UserGidRange
  | RootCredentials
  | ReservedCredential
  | LaunchArgumentsEmpty
  | LaunchArgumentsTooMany
  | LaunchArgumentTooLong
  | LaunchArgumentNul
  | LaunchEnvironmentTooMany
  | LaunchEnvironmentEntryTooLong
  | LaunchEnvironmentTooLarge
  | LaunchEnvironmentNul
  | LaunchEnvironmentNotNameValue
  | LaunchEnvironmentDuplicate
  | LaunchPathNotAbsolute string
  | LaunchPathNul string
  | LaunchPathEscapes string
  | WorkingDirectoryNotAbsolute
  | WorkingDirectoryInvalid
  | WorkingDirectorySymlink
  | WorkingDirectoryNotDirectory
  | WorkingDirectoryNotUtf8

section \<open>Data\<close>

datatype SourceKind = KindBinary | KindOci

fun SourceKind_name :: "SourceKind \<Rightarrow> string" where
  "SourceKind_name KindBinary = ''binary''"
| "SourceKind_name KindOci = ''oci''"

record BinarySource =
  bs_path :: string
  bs_arguments :: "string list"
  bs_environment :: "string list"
  bs_working_directory :: string
  bs_user :: string

record OciSource =
  os_layout :: string
  os_manifest_digest :: string

datatype WorkloadSource = SourceBinary BinarySource | SourceOci OciSource

record WorkloadSpec =
  ws_version :: nat
  ws_source :: WorkloadSource

record KindProbe =
  kp_version :: nat
  kp_kind :: SourceKind

record BinaryDocument =
  bd_version :: nat
  bd_kind :: SourceKind
  bd_path :: string
  bd_args :: "string list"
  bd_env :: "string list"
  bd_working_directory :: string
  bd_user :: string

record OciDocument =
  od_version :: nat
  od_kind :: SourceKind
  od_layout :: string
  od_manifest_digest :: string

record LaunchIdentity =
  li_executable :: string
  li_arguments :: "string list"
  li_environment :: "string list"
  li_working_directory :: string
  li_uid :: u32
  li_gid :: u32

record CanonicalBinarySpec =
  cb_version :: nat
  cb_kind :: SourceKind
  cb_install_path :: string
  cb_arguments :: "string list"
  cb_environment :: "string list"
  cb_working_directory :: string
  cb_uid :: u32
  cb_gid :: u32

text \<open>The three readings of a specification text that \<open>toml::from_str\<close> provides.\<close>

record toml_reader =
  toml_probe :: "string \<Rightarrow> KindProbe option"
  toml_binary :: "string \<Rightarrow> BinaryDocument option"
  toml_oci :: "string \<Rightarrow> OciDocument option"

section \<open>Operations\<close>

abbreviation NUL :: char where "NUL \<equiv> CHR 0x00"

definition validate_locator :: "string \<Rightarrow> string \<Rightarrow> spec_error + unit" where
  "validate_locator field value =
     (if value = [] then Inl (LocatorEmpty field)
      else if starts_with value ''/'' then Inl (LocatorNotRelative field)
      else if NUL \<in> set value then Inl (LocatorNul field)
      else for_each (\<lambda>_ component.
             if component = ''..'' then Inl (LocatorEscapes field)
             else if component = [] then Inl (LocatorEmptyComponent field)
             else Inr ()) () (split_on CHR ''/'' value))"

definition is_ascii_hexdigit :: "char \<Rightarrow> bool" where
  "is_ascii_hexdigit c \<longleftrightarrow> c \<in> set ''0123456789abcdefABCDEF''"

definition to_ascii_lowercase :: "char \<Rightarrow> char" where
  "to_ascii_lowercase c =
     (if 65 \<le> (of_char c :: nat) \<and> (of_char c :: nat) \<le> 90 then char_of ((of_char c :: nat) + 32) else c)"

definition parse_digest :: "string \<Rightarrow> spec_error + string" where
  "parse_digest value =
     (case strip_prefix ''sha256:'' value of
        None \<Rightarrow> Inl DigestShape
      | Some hex \<Rightarrow>
          if length hex \<noteq> 64 \<or> \<not> list_all is_ascii_hexdigit hex then Inl DigestShape
          else Inr (map to_ascii_lowercase hex))"

definition normalize_arguments :: "string list \<Rightarrow> string \<Rightarrow> spec_error + string list" where
  "normalize_arguments values field =
     (if length values > MAX_ARGUMENTS then Inl (ArgumentsTooMany field)
      else and_then
        (for_each (\<lambda>_ value.
           if length value > MAX_ARGUMENT_BYTES then Inl (ArgumentTooLong field)
           else if NUL \<in> set value then Inl (ArgumentNul field)
           else Inr ()) () values)
        (\<lambda>_. Inr values))"

fun environment_loop :: "nat \<Rightarrow> nat \<Rightarrow> string list \<Rightarrow> string list \<Rightarrow> spec_error + unit" where
  "environment_loop index tot seen [] = Inr ()"
| "environment_loop index tot seen (entry # rest) =
     (if length entry > MAX_ENVIRONMENT_ENTRY_BYTES then Inl EnvironmentEntryTooLong
      else if tot + length entry > MAX_ENVIRONMENT_BYTES then Inl EnvironmentTooLarge
      else if NUL \<in> set entry then Inl EnvironmentNul
      else (case split_once CHR ''='' entry of
              None \<Rightarrow> Inl (EnvironmentNotNameValue index)
            | Some (name, value) \<Rightarrow>
                if name = [] then Inl (EnvironmentNotNameValue index)
                else if name \<in> set seen then Inl (EnvironmentRepeatsName index)
                else environment_loop (index + 1) (tot + length entry) (seen @ [name]) rest))"

definition normalize_environment :: "string list \<Rightarrow> spec_error + string list" where
  "normalize_environment values =
     (if length values > MAX_ENVIRONMENT_ENTRIES then Inl EnvironmentTooMany
      else and_then (environment_loop 0 0 [] values) (\<lambda>_. Inr values))"

definition parse_user :: "string \<Rightarrow> spec_error + (u32 \<times> u32)" where
  "parse_user value =
     (case split_on CHR '':'' value of
        [uid, gid] \<Rightarrow>
          if uid = [] \<or> gid = [] \<or> \<not> list_all is_digit uid \<or> \<not> list_all is_digit gid
          then Inl UserShape
          else and_then (ok_or UserUidRange (parse_u32 uid)) (\<lambda>uid.
               and_then (ok_or UserGidRange (parse_u32 gid)) (\<lambda>gid.
                 if uid = 0 \<or> gid = 0 then Inl RootCredentials
                 else if uid = RESERVED_OWNER \<or> gid = RESERVED_OWNER then Inl ReservedCredential
                 else Inr (uid, gid)))
      | _ \<Rightarrow> Inl UserShape)"

definition normalize_user :: "string option \<Rightarrow> spec_error + (u32 \<times> u32)" where
  "normalize_user value =
     (case value of
        None \<Rightarrow> parse_user DEFAULT_USER
      | Some v \<Rightarrow> if v = [] then parse_user DEFAULT_USER else parse_user v)"

definition normalize_required_user :: "string \<Rightarrow> spec_error + (u32 \<times> u32)" where
  "normalize_required_user value = (if value = [] then Inl UserRequired else parse_user value)"

definition validate_launch_path :: "string \<Rightarrow> string \<Rightarrow> spec_error + unit" where
  "validate_launch_path field value =
     (if value = [] \<or> \<not> starts_with value ''/'' then Inl (LaunchPathNotAbsolute field)
      else if NUL \<in> set value then Inl (LaunchPathNul field)
      else if ''..'' \<in> set (split_on CHR ''/'' value) then Inl (LaunchPathEscapes field)
      else Inr ())"

fun launch_environment_loop :: "nat \<Rightarrow> string list \<Rightarrow> string list \<Rightarrow> spec_error + unit" where
  "launch_environment_loop tot names [] = Inr ()"
| "launch_environment_loop tot names (entry # rest) =
     (if length entry > MAX_ENVIRONMENT_ENTRY_BYTES then Inl LaunchEnvironmentEntryTooLong
      else if tot + length entry > MAX_ENVIRONMENT_BYTES then Inl LaunchEnvironmentTooLarge
      else if NUL \<in> set entry then Inl LaunchEnvironmentNul
      else (case split_once CHR ''='' entry of
              None \<Rightarrow> Inl LaunchEnvironmentNotNameValue
            | Some (name, value) \<Rightarrow>
                if name = [] then Inl LaunchEnvironmentNotNameValue
                else if name \<in> set names then Inl LaunchEnvironmentDuplicate
                else launch_environment_loop (tot + length entry) (names @ [name]) rest))"

definition launch_arguments_loop :: "string list \<Rightarrow> spec_error + unit" where
  "launch_arguments_loop arguments =
     for_each (\<lambda>_ argument.
       if length argument > MAX_ARGUMENT_BYTES then Inl LaunchArgumentTooLong
       else if NUL \<in> set argument then Inl LaunchArgumentNul
       else Inr ()) () arguments"

definition validate_launch_identity :: "LaunchIdentity \<Rightarrow> spec_error + unit" where
  "validate_launch_identity launch =
     and_then (validate_launch_path ''executable'' (li_executable launch)) (\<lambda>_.
     if li_arguments launch = [] then Inl LaunchArgumentsEmpty
     else if length (li_arguments launch) > MAX_ARGUMENTS then Inl LaunchArgumentsTooMany
     else and_then (launch_arguments_loop (li_arguments launch)) (\<lambda>_.
     and_then (validate_launch_path ''the first workload argument'' (li_arguments launch ! 0)) (\<lambda>_.
     if length (li_environment launch) > MAX_ENVIRONMENT_ENTRIES then Inl LaunchEnvironmentTooMany
     else and_then (launch_environment_loop 0 [] (li_environment launch)) (\<lambda>_.
     and_then (validate_launch_path ''the workload working directory'' (li_working_directory launch)) (\<lambda>_.
     if li_uid launch = 0 \<or> li_gid launch = 0 then Inl RootCredentials
     else if li_uid launch = RESERVED_OWNER \<or> li_gid launch = RESERVED_OWNER
     then Inl ReservedCredential
     else Inr ())))))"

definition working_directory_text :: "string option \<Rightarrow> string" where
  "working_directory_text value =
     (case value of None \<Rightarrow> ''/'' | Some v \<Rightarrow> if v = [] then ''/'' else v)"

definition working_directory_relative :: "string \<Rightarrow> spec_error + bytes" where
  "working_directory_relative value =
     (let stripped = trim_matches CHR ''/'' value
      in if stripped = [] then Inr ROOT_PATH
         else map_err (\<lambda>_. WorkingDirectoryInvalid) (normalize_layer_path (as_bytes stripped)))"

definition is_symlink_at :: "tree \<Rightarrow> bytes \<Rightarrow> bool" where
  "is_symlink_at t p = (case Tree_get t p of Some e \<Rightarrow> e_kind e = Symlink | None \<Rightarrow> False)"

definition normalize_working_directory :: "string option \<Rightarrow> tree \<Rightarrow> spec_error + string" where
  "normalize_working_directory value t =
     (let value = working_directory_text value
      in if \<not> starts_with value ''/'' then Inl WorkingDirectoryNotAbsolute
         else and_then (working_directory_relative value) (\<lambda>relative.
           if list_ex (is_symlink_at t) (ancestors relative @ [relative])
           then Inl WorkingDirectorySymlink
           else if relative \<noteq> ROOT_PATH \<and> map_option e_kind (Tree_get t relative) \<noteq> Some Directory
           then Inl WorkingDirectoryNotDirectory
           else if relative = ROOT_PATH then Inr ''/''
           else and_then (ok_or WorkingDirectoryNotUtf8 (from_utf8 relative))
                  (\<lambda>text. Inr (''/'' @ text))))"

definition WorkloadSpec_parse :: "toml_reader \<Rightarrow> bytes \<Rightarrow> spec_error + WorkloadSpec" where
  "WorkloadSpec_parse toml source =
     (if length source > MAX_SPECIFICATION_BYTES then Inl SpecificationTooLarge
      else and_then (ok_or SpecificationNotUtf8 (from_utf8 source)) (\<lambda>text.
        and_then (ok_or MalformedSpecification (toml_probe toml text)) (\<lambda>probe.
        if kp_version probe \<noteq> WORKLOAD_SPEC_VERSION then Inl (UnsupportedVersion (kp_version probe))
        else (case kp_kind probe of
          KindBinary \<Rightarrow>
            and_then (ok_or MalformedBinary (toml_binary toml text)) (\<lambda>document.
            if bd_kind document \<noteq> KindBinary then Inl BinaryKindExpected
            else and_then (validate_locator ''path'' (bd_path document)) (\<lambda>_.
            if bd_user document = [] then Inl BinaryUserMissing
            else and_then (normalize_arguments (bd_args document) ''args'') (\<lambda>_.
            and_then (normalize_environment (bd_env document)) (\<lambda>_.
            Inr \<lparr>ws_version = bd_version document,
                 ws_source = SourceBinary \<lparr>bs_path = bd_path document,
                   bs_arguments = bd_args document, bs_environment = bd_env document,
                   bs_working_directory = bd_working_directory document,
                   bs_user = bd_user document\<rparr>\<rparr>))))
        | KindOci \<Rightarrow>
            and_then (ok_or MalformedOci (toml_oci toml text)) (\<lambda>document.
            if od_kind document \<noteq> KindOci then Inl OciKindExpected
            else and_then (validate_locator ''layout'' (od_layout document)) (\<lambda>_.
            and_then (parse_digest (od_manifest_digest document)) (\<lambda>_.
            Inr \<lparr>ws_version = od_version document,
                 ws_source = SourceOci \<lparr>os_layout = od_layout document,
                   os_manifest_digest = od_manifest_digest document\<rparr>\<rparr>)))))))"

section \<open>Environments\<close>

text \<open>What the environment of a workload may be, without the loops.\<close>

definition env_entry_ok :: "string \<Rightarrow> bool" where
  "env_entry_ok e \<longleftrightarrow> length e \<le> MAX_ENVIRONMENT_ENTRY_BYTES \<and> NUL \<notin> set e
     \<and> (\<exists>name value. name \<noteq> [] \<and> CHR ''='' \<notin> set name \<and> e = name @ CHR ''='' # value)"

definition env_name :: "string \<Rightarrow> string" where
  "env_name e = takeWhile (\<lambda>c. c \<noteq> CHR ''='') e"

definition env_ok :: "string list \<Rightarrow> bool" where
  "env_ok es \<longleftrightarrow> length es \<le> MAX_ENVIRONMENT_ENTRIES \<and> list_all env_entry_ok es
     \<and> sum_list (map length es) \<le> MAX_ENVIRONMENT_BYTES \<and> distinct (map env_name es)"

lemma split_once_name: "split_once CHR ''='' e = Some (name, value) \<Longrightarrow> env_name e = name"
  by (auto simp: split_once_Some env_name_def takeWhile_append)

lemma env_entry_ok_split:
  "env_entry_ok e \<longleftrightarrow> length e \<le> MAX_ENVIRONMENT_ENTRY_BYTES \<and> NUL \<notin> set e
     \<and> (\<exists>name value. split_once CHR ''='' e = Some (name, value) \<and> name \<noteq> [])"
  unfolding env_entry_ok_def split_once_Some by blast

lemma loops_agree:
  "environment_loop i tot seen es = Inr () \<longleftrightarrow> launch_environment_loop tot seen es = Inr ()"
  by (induction i tot seen es rule: environment_loop.induct) (auto split: option.splits prod.splits)

lemma launch_environment_loop_iff:
  "tot \<le> MAX_ENVIRONMENT_BYTES \<Longrightarrow>
   launch_environment_loop tot seen es = Inr () \<longleftrightarrow>
     list_all env_entry_ok es \<and> tot + sum_list (map length es) \<le> MAX_ENVIRONMENT_BYTES
     \<and> distinct (map env_name es) \<and> set (map env_name es) \<inter> set seen = {}"
proof (induction tot seen es rule: launch_environment_loop.induct)
  case (1 tot seen)
  then show ?case by simp
next
  case (2 tot seen e es)
  show ?case
  proof (cases "env_entry_ok e \<and> tot + length e \<le> MAX_ENVIRONMENT_BYTES \<and> env_name e \<notin> set seen")
    case True
    then obtain name val where s: "split_once CHR ''='' e = Some (name, val)" "name \<noteq> []"
      and e: "length e \<le> MAX_ENVIRONMENT_ENTRY_BYTES" "NUL \<notin> set e"
      by (auto simp: env_entry_ok_split)
    from s have n: "env_name e = name" by (simp add: split_once_name)
    have "launch_environment_loop tot seen (e # es) = launch_environment_loop (tot + length e) (seen @ [name]) es"
      using True s e n by simp
    also have "\<dots> = Inr () \<longleftrightarrow> list_all env_entry_ok es
        \<and> tot + length e + sum_list (map length es) \<le> MAX_ENVIRONMENT_BYTES
        \<and> distinct (map env_name es) \<and> set (map env_name es) \<inter> set (seen @ [name]) = {}"
      using 2 True s e n by auto
    finally show ?thesis using True n by auto
  next
    case False
    have "launch_environment_loop tot seen (e # es) \<noteq> Inr ()"
    proof
      assume ok: "launch_environment_loop tot seen (e # es) = Inr ()"
      then obtain name val where s: "split_once CHR ''='' e = Some (name, val)"
        by (cases "split_once CHR ''='' e") (auto split: if_splits)
      with ok False show False
        by (auto simp: env_entry_ok_split split_once_name split: if_splits)
    qed
    with False show ?thesis by auto
  qed
qed

lemma environment_ok_iff:
  "length es \<le> MAX_ENVIRONMENT_ENTRIES \<and> launch_environment_loop 0 [] es = Inr () \<longleftrightarrow> env_ok es"
  by (simp add: launch_environment_loop_iff env_ok_def)

lemma normalize_environment_iff: "normalize_environment es = Inr fs \<longleftrightarrow> fs = es \<and> env_ok es"
  using environment_ok_iff [of es] loops_agree [of 0 0 "[]" es]
  by (auto simp: normalize_environment_def)

section \<open>Arguments and paths\<close>

definition argument_ok :: "string \<Rightarrow> bool" where
  "argument_ok a \<longleftrightarrow> length a \<le> MAX_ARGUMENT_BYTES \<and> NUL \<notin> set a"

lemma normalize_arguments_iff:
  "normalize_arguments args field = Inr out \<longleftrightarrow>
     out = args \<and> length args \<le> MAX_ARGUMENTS \<and> list_all argument_ok args"
  by (auto simp: normalize_arguments_def for_each_unit_ok argument_ok_def list_all_iff split: if_splits)

lemma launch_arguments_loop_iff: "launch_arguments_loop args = Inr () \<longleftrightarrow> list_all argument_ok args"
  by (auto simp: launch_arguments_loop_def for_each_unit_ok argument_ok_def list_all_iff split: if_splits)

definition launch_path_ok :: "string \<Rightarrow> bool" where
  "launch_path_ok p \<longleftrightarrow> (\<exists>r. p = CHR ''/'' # r) \<and> NUL \<notin> set p \<and> ''..'' \<notin> set (split_on CHR ''/'' p)"

lemma validate_launch_path_iff: "validate_launch_path field p = Inr () \<longleftrightarrow> launch_path_ok p"
  by (auto simp: validate_launch_path_def launch_path_ok_def starts_with_iff)

definition credential_ok :: "u32 \<Rightarrow> bool" where
  "credential_ok w \<longleftrightarrow> w \<noteq> 0 \<and> w \<noteq> RESERVED_OWNER"

definition launch_ok :: "LaunchIdentity \<Rightarrow> bool" where
  "launch_ok l \<longleftrightarrow> launch_path_ok (li_executable l)
     \<and> (\<exists>first more. li_arguments l = first # more \<and> launch_path_ok first)
     \<and> length (li_arguments l) \<le> MAX_ARGUMENTS \<and> list_all argument_ok (li_arguments l)
     \<and> env_ok (li_environment l) \<and> launch_path_ok (li_working_directory l)
     \<and> credential_ok (li_uid l) \<and> credential_ok (li_gid l)"

lemma validate_launch_iff: "validate_launch_identity l = Inr () \<longleftrightarrow> launch_ok l"
proof -
  have first: "args \<noteq> [] \<and> launch_path_ok (args ! 0) \<longleftrightarrow> (\<exists>first more. args = first # more \<and> launch_path_ok first)"
    for args by (cases args) auto
  show ?thesis
    unfolding validate_launch_identity_def and_then_eq_Inr guard_eq_Inr launch_arguments_loop_iff
      validate_launch_path_iff launch_ok_def first [symmetric] environment_ok_iff [symmetric]
      credential_ok_def not_less de_Morgan_disj ex_unit
    by blast
qed

section \<open>Credentials\<close>

lemma is_digit_dec: "list_all is_digit (dec n)"
  unfolding list_all_iff is_digit_def using set_dec [of n] by blast

lemma dec_no_colon: "CHR '':'' \<notin> set (dec n)"
proof -
  have "CHR '':'' \<notin> set ''0123456789''" by simp
  then show ?thesis using set_dec [of n] by blast
qed

lemma parse_user_printed:
  assumes "credential_ok u" and "credential_ok g"
  shows "parse_user (dec (unat u) @ '':'' @ dec (unat g)) = Inr (u, g)"
proof -
  have "split_on CHR '':'' (dec (unat u) @ '':'' @ dec (unat g)) = [dec (unat u), dec (unat g)]"
    by (simp add: split_on_append_sep split_on_free dec_no_colon)
  with assms show ?thesis
    by (simp add: parse_user_def is_digit_dec parse_u32_dec credential_ok_def)
qed

lemma parse_user_credentials: "parse_user s = Inr (u, g) \<Longrightarrow> credential_ok u \<and> credential_ok g"
  by (auto simp: parse_user_def credential_ok_def split: list.splits if_splits)

section \<open>The working directory\<close>

lemma trim_start_suffix: "\<exists>p. xs = p @ trim_start c xs"
  unfolding trim_start_def by (metis takeWhile_dropWhile_id)

lemma set_trim_start: "set (trim_start c xs) \<subseteq> set xs"
  unfolding trim_start_def by (rule set_dropWhileD [THEN subsetI])

lemma text_of_bytes_append [simp]: "text_of_bytes (xs @ ys) = text_of_bytes xs @ text_of_bytes ys"
  by (simp add: text_of_bytes_def)

lemma char_of_inject: "char_of (unat (b :: u8)) = char_of (unat c) \<longleftrightarrow> b = c"
proof
  assume "char_of (unat b) = char_of (unat c)"
  then have "text_of_bytes [b] = text_of_bytes [c]" by (simp add: text_of_bytes_def)
  then have "as_bytes (text_of_bytes [b]) = as_bytes (text_of_bytes [c])" by simp
  then show "b = c" by (simp only: as_bytes_of_text) simp
qed simp

lemma unat_byte_mod [simp]: "unat (b :: u8) mod 256 = unat b"
  by (rule mod_less) (use unsigned_less [of b] in simp)

lemma split_on_text:
  "split_on (char_of (unat c)) (text_of_bytes bs) = map text_of_bytes (split_on c bs)"
proof (induction bs)
  case Nil
  then show ?case by (simp add: text_of_bytes_def)
next
  case (Cons b bs)
  obtain p ps where "split_on c bs = p # ps" by (cases "split_on c bs") auto
  with Cons show ?case
    by (cases "b = c") (simp_all add: text_of_bytes_def word_unat_eq_iff)
qed

lemma text_of_bytes_inject: "text_of_bytes bs = text_of_bytes cs \<longleftrightarrow> bs = cs"
  by (metis as_bytes_of_text)

lemma NUL_text: "NUL \<in> set (text_of_bytes p) \<longleftrightarrow> 0 \<in> set p"
proof -
  have z: "NUL = char_of (unat b) \<longleftrightarrow> b = 0" for b :: u8
  proof -
    have "(0 :: u8) = of_char NUL" by simp
    then have "NUL = char_of (unat (0 :: u8))" by (metis unat_of_char char_of_char)
    then show ?thesis using char_of_inject [of 0 b] by metis
  qed
  show ?thesis unfolding text_of_bytes_def set_map image_iff z by blast
qed

lemma slash_char: "char_of (unat slash) = CHR ''/''"
proof -
  have "slash = of_char CHR ''/''" by simp
  then show ?thesis by (simp only: unat_of_char char_of_char)
qed

lemma normal_text_path:
  assumes "normal_path p" and "p \<noteq> ROOT_PATH"
  shows "launch_path_ok (CHR ''/'' # text_of_bytes p)"
proof -
  from assms have parts: "list_all normal_part (split_on slash p)" by (simp add: normal_path_def)
  have pieces: "split_on CHR ''/'' (text_of_bytes p) = map text_of_bytes (split_on slash p)"
    using split_on_text [of slash p] by (simp only: slash_char)
  have "dotdot = as_bytes ''..''" by (simp add: dotdot_def as_bytes_def)
  then have dd: "text_of_bytes dotdot = ''..''" using text_of_as_bytes by metis
  have "''..'' \<notin> set (split_on CHR ''/'' (text_of_bytes p))"
    unfolding pieces dd [symmetric] using parts
    by (auto simp: text_of_bytes_inject list_all_iff normal_part_def)
  moreover have "0 \<notin> set p"
  proof
    assume "0 \<in> set p"
    then have "0 \<in> set (join_with slash (split_on slash p))" by simp
    then show False
      using set_join_with [of slash "split_on slash p"] parts by (auto simp: list_all_iff normal_part_def)
  qed
  then have "NUL \<notin> set (text_of_bytes p)" by (simp add: NUL_text)
  ultimately show ?thesis by (simp add: launch_path_ok_def)
qed

lemma launch_path_root: "launch_path_ok ''/''"
  by (simp add: launch_path_ok_def)

lemma working_directory_resolved:
  assumes "normalize_working_directory value t = Inr w"
  shows "launch_path_ok w \<and>
    (w = ''/'' \<or> (\<exists>p. w = CHR ''/'' # text_of_bytes p \<and> normal_path p \<and> p \<noteq> ROOT_PATH
        \<and> map_option e_kind (Tree_get t p) = Some Directory
        \<and> (\<forall>a\<in>set (ancestors p). \<not> is_symlink_at t a)))"
proof -
  from assms obtain p where rel: "working_directory_relative (working_directory_text value) = Inr p"
    and nolink: "\<not> list_ex (is_symlink_at t) (ancestors p @ [p])"
    and kind: "p \<noteq> ROOT_PATH \<longrightarrow> map_option e_kind (Tree_get t p) = Some Directory"
    and w: "(p = ROOT_PATH \<and> w = ''/'') \<or> (p \<noteq> ROOT_PATH \<and> w = CHR ''/'' # text_of_bytes p)"
    by (auto simp: normalize_working_directory_def Let_def from_utf8_def split: if_splits)
  have "normal_path p"
    using rel by (auto simp: working_directory_relative_def Let_def normal_path_def
        split: if_splits dest: normalize_normal)
  with w nolink kind normal_text_path launch_path_root show ?thesis by (auto simp: list_ex_iff)
qed

section \<open>Properties\<close>

text \<open>
  The launch contract the assembler and the guest runtime share: a launch identity is
  accepted exactly when its executable, first argument and working directory are absolute
  in-root paths, its arguments and environment respect the bounds, the environment consists of
  NAME=VALUE entries with distinct nonempty names, and neither credential is root or reserved.
\<close>

theorem validate_launch_identity_iff:
  "validate_launch_identity launch = Inr () \<longleftrightarrow> launch_ok launch"
  by (rule validate_launch_iff)

text \<open>
  Environment normalization and launch validation are two copies of one loop: the first
  accepts exactly the environments the second accepts, and returns them unchanged.
\<close>

theorem environment_checks_agree:
  "normalize_environment es = Inr fs \<longleftrightarrow>
     fs = es \<and> length es \<le> MAX_ENVIRONMENT_ENTRIES \<and> launch_environment_loop 0 [] es = Inr ()"
  using normalize_environment_iff [of es fs] environment_ok_iff [of es] by blast

text \<open>
  Credentials: a pair of identifiers is the result of parsing some user text exactly when
  neither is root or reserved, and then its decimal \<open>uid:gid\<close> text parses to it.
\<close>

theorem parse_user_roundtrip:
  "(\<exists>s. parse_user s = Inr (uid, gid)) \<longleftrightarrow>
     credential_ok uid \<and> credential_ok gid \<and>
     parse_user (dec (unat uid) @ '':'' @ dec (unat gid)) = Inr (uid, gid)"
  using parse_user_printed parse_user_credentials by blast

text \<open>
  A normalized working directory is an absolute in-root path, either the root itself or the
  text of a normal path at which the tree has a directory, and no ancestor of it is a symbolic
  link.
\<close>

theorem normalize_working_directory_sound:
  assumes "normalize_working_directory requested t = Inr w"
  shows "validate_launch_path field w = Inr () \<and>
    (w = ''/'' \<or> (\<exists>p. w = CHR ''/'' # text_of_bytes p \<and> normal_path p \<and> p \<noteq> ROOT_PATH
        \<and> map_option e_kind (Tree_get t p) = Some Directory
        \<and> list_all (\<lambda>a. \<not> is_symlink_at t a) (ancestors p)))"
  using working_directory_resolved [OF assms]
  unfolding validate_launch_path_iff list_all_iff by blast

theorem normalize_working_directory_sound_witness:
  "validate_launch_path ''dir'' ''/bin'' = Inr () \<and>
    (''/bin'' = ''/'' \<or> (\<exists>p. ''/bin'' = CHR ''/'' # text_of_bytes p \<and> normal_path p \<and> p \<noteq> ROOT_PATH
        \<and> map_option e_kind (Tree_get sample_tree p) = Some Directory
        \<and> list_all (\<lambda>a. \<not> is_symlink_at sample_tree a) (ancestors p)))"
proof (rule normalize_working_directory_sound)
  have trimmed: "trim_matches CHR ''/'' ''/bin/'' = ''bin''"
    by (simp add: trim_matches_def trim_start_def)
  have bin: "as_bytes ''bin'' = [0x62, 0x69, 0x6e]" by (simp add: as_bytes_def)
  have norm: "normalize_layer_path (as_bytes ''bin'') = Inr (as_bytes ''bin'')"
    by (simp add: bin normalize_layer_path_def dot_def dotdot_def MAX_PATH_BYTES_def Let_def)
  have anc: "ancestors (as_bytes ''bin'') = [ROOT_PATH]"
    by (simp add: bin ancestors.simps [of "[0x62, 0x69, 0x6e]"] parent_of_def ROOT_PATH_def
        ancestors.simps [of "[0x2e]"])
  have get: "Tree_get sample_tree (as_bytes ''bin'') = Some (Entry_directory 0x1ed 0 0 1)"
    "Tree_get sample_tree ROOT_PATH = Some Entry_default_directory"
    by (simp_all add: sample_tree_eq Tree_get_def ROOT_PATH_def as_bytes_def)
  have utf: "from_utf8 (as_bytes ''bin'') = Some ''bin''"
    unfolding from_utf8_def text_of_as_bytes by (simp add: bin)
  have root: "as_bytes ''bin'' \<noteq> ROOT_PATH" by (simp add: bin ROOT_PATH_def)
  show "normalize_working_directory (Some ''/bin/'') sample_tree = Inr ''/bin''"
    by (simp add: normalize_working_directory_def working_directory_text_def starts_with_def
        working_directory_relative_def trimmed norm anc is_symlink_at_def get root utf
        Entry_default_directory_def Entry_directory_def Let_def)
qed

end
