(* ===== verification/Host_Root.thy ===== *)
theory Host_Root
  imports Action Launch "HOL-Library.Sublist"
begin

text \<open>
  The opened directory of \<open>workload/root.rs\<close>: bounded access to regular files beneath one
  directory, every component opened without following a link, private staging and atomic renames.
  The host is an explicit file system, nodes by the components of their path, on which every
  system call is counted and can be made to fail; nothing else changes it in between.
\<close>

section \<open>The host\<close>

datatype errno = NOENT | EXIST | LOOP | NOTDIR | INVAL | NOTEMPTY | OtherErrno nat

datatype host_content = HostDir | HostFile bytes | HostLink | HostSpecial

record host_inode =
  hi_content :: host_content
  hi_mode :: u32
  hi_uid :: u32

type_synonym host_path = "string list"

type_synonym host_nodes = "(host_path \<times> host_inode) list"

record host =
  ho_nodes :: host_nodes
  ho_calls :: nat
  ho_fault :: "nat \<Rightarrow> errno option"
  ho_partial :: "nat \<Rightarrow> nat"
  ho_counter :: nat
  ho_uid :: u32
  ho_pid :: nat

type_synonym 'a host_action = "(host, errno, 'a) action"

definition host_call :: "(host \<Rightarrow> errno + 'a \<times> host_nodes) \<Rightarrow> 'a host_action" where
  "host_call f = (\<lambda>s. let s' = s\<lparr>ho_calls := ho_calls s + 1\<rparr> in
     case ho_fault s (ho_calls s) of
       Some e \<Rightarrow> (Inl e, s')
     | None \<Rightarrow> (case f s of Inl e \<Rightarrow> (Inl e, s') | Inr (x, nodes) \<Rightarrow> (Inr x, s'\<lparr>ho_nodes := nodes\<rparr>)))"

definition host_query :: "(host \<Rightarrow> errno + 'a) \<Rightarrow> 'a host_action" where
  "host_query f = host_call (\<lambda>s. case f s of Inl e \<Rightarrow> Inl e | Inr x \<Rightarrow> Inr (x, ho_nodes s))"

definition inode_at :: "host \<Rightarrow> host_path \<Rightarrow> host_inode option" where
  "inode_at s p = map_of (ho_nodes s) p"

definition put_node :: "host_path \<Rightarrow> host_inode \<Rightarrow> host_nodes \<Rightarrow> host_nodes" where
  "put_node p n nodes = (p, n) # nodes"

definition delete_node :: "host_path \<Rightarrow> host_nodes \<Rightarrow> host_nodes" where
  "delete_node p nodes = filter (\<lambda>(q, n). q \<noteq> p) nodes"

text \<open>\<open>openat\<close> of a directory, of a file for reading, and \<open>fstat\<close> of what was opened.\<close>

definition sys_open_directory :: "host_path \<Rightarrow> unit host_action" where
  "sys_open_directory p = host_query (\<lambda>s.
     case inode_at s p of
       None \<Rightarrow> Inl NOENT
     | Some n \<Rightarrow> (case hi_content n of HostDir \<Rightarrow> Inr () | HostLink \<Rightarrow> Inl LOOP | _ \<Rightarrow> Inl NOTDIR))"

definition sys_open_file :: "host_path \<Rightarrow> unit host_action" where
  "sys_open_file p = host_query (\<lambda>s.
     case inode_at s p of
       None \<Rightarrow> Inl NOENT
     | Some n \<Rightarrow> (case hi_content n of HostLink \<Rightarrow> Inl LOOP | _ \<Rightarrow> Inr ()))"

definition sys_fstat :: "host_path \<Rightarrow> host_inode host_action" where
  "sys_fstat p = host_query (\<lambda>s. case inode_at s p of None \<Rightarrow> Inl NOENT | Some n \<Rightarrow> Inr n)"

definition sys_read :: "host_path \<Rightarrow> bytes host_action" where
  "sys_read p = host_query (\<lambda>s.
     case inode_at s p of
       None \<Rightarrow> Inl NOENT
     | Some n \<Rightarrow> (case hi_content n of HostFile data \<Rightarrow> Inr data | _ \<Rightarrow> Inl INVAL))"

definition sys_stat_exists :: "host_path \<Rightarrow> unit host_action" where
  "sys_stat_exists p = host_query (\<lambda>s. if inode_at s p = None then Inl NOENT else Inr ())"

definition sys_duplicate :: "unit host_action" where
  "sys_duplicate = host_query (\<lambda>s. Inr ())"

text \<open>A new entry belongs to the process; its directory is the one that was opened.\<close>

definition sys_create :: "host_content \<Rightarrow> u32 \<Rightarrow> host_path \<Rightarrow> unit host_action" where
  "sys_create c mode p = host_call (\<lambda>s.
     if inode_at s p \<noteq> None \<or> p = [] then Inl EXIST
     else (case inode_at s (butlast p) of
       None \<Rightarrow> Inl NOENT
     | Some d \<Rightarrow>
         if hi_content d \<noteq> HostDir then Inl NOTDIR
         else Inr ((), put_node p \<lparr>hi_content = c, hi_mode = mode, hi_uid = ho_uid s\<rparr> (ho_nodes s))))"

text \<open>\<open>write_all\<close> then \<open>sync_all\<close>; a failed write may have written a part.\<close>

definition sys_write :: "host_path \<Rightarrow> bytes \<Rightarrow> unit host_action" where
  "sys_write p data = (\<lambda>s.
     case inode_at s p of
       None \<Rightarrow> (Inl NOENT, s\<lparr>ho_calls := ho_calls s + 1\<rparr>)
     | Some n \<Rightarrow>
         let written = (\<lambda>bs. s\<lparr>ho_calls := ho_calls s + 1, ho_nodes := put_node p (n\<lparr>hi_content := HostFile bs\<rparr>) (ho_nodes s)\<rparr>)
         in (case ho_fault s (ho_calls s) of
               Some e \<Rightarrow> (Inl e, written (take (ho_partial s (ho_calls s)) data))
             | None \<Rightarrow> (Inr (), written data)))"

definition sys_sync :: "unit host_action" where
  "sys_sync = host_query (\<lambda>s. Inr ())"

definition sys_unlink :: "host_path \<Rightarrow> unit host_action" where
  "sys_unlink p = host_call (\<lambda>s.
     case inode_at s p of
       None \<Rightarrow> Inl NOENT
     | Some n \<Rightarrow> if hi_content n = HostDir then Inl INVAL else Inr ((), delete_node p (ho_nodes s)))"

definition empty_below :: "host_nodes \<Rightarrow> host_path \<Rightarrow> bool" where
  "empty_below nodes p = list_all (\<lambda>(q, n). \<not> strict_prefix p q) nodes"

definition sys_rmdir :: "host_path \<Rightarrow> unit host_action" where
  "sys_rmdir p = host_call (\<lambda>s.
     case inode_at s p of
       None \<Rightarrow> Inl NOENT
     | Some n \<Rightarrow>
         if hi_content n \<noteq> HostDir then Inl NOTDIR
         else if \<not> empty_below (ho_nodes s) p then Inl NOTEMPTY
         else Inr ((), delete_node p (ho_nodes s)))"

definition moved :: "host_path \<Rightarrow> host_path \<Rightarrow> host_nodes \<Rightarrow> host_nodes" where
  "moved src dst nodes =
     List.map_filter (\<lambda>(q, n). if prefix src q then Some (dst @ drop (length src) q, n)
                             else if prefix dst q then None else Some (q, n)) nodes"

definition sys_rename :: "bool \<Rightarrow> host_path \<Rightarrow> host_path \<Rightarrow> unit host_action" where
  "sys_rename replace src dst = host_call (\<lambda>s.
     case inode_at s src of
       None \<Rightarrow> Inl NOENT
     | Some n \<Rightarrow>
         (case inode_at s dst of
            None \<Rightarrow> Inr ((), moved src dst (ho_nodes s))
          | Some m \<Rightarrow>
              if \<not> replace then Inl EXIST
              else if hi_content n = HostDir \<and> hi_content m \<noteq> HostDir then Inl NOTDIR
              else if hi_content n \<noteq> HostDir \<and> hi_content m = HostDir then Inl INVAL
              else if hi_content m = HostDir \<and> \<not> empty_below (ho_nodes s) dst then Inl NOTEMPTY
              else Inr ((), moved src dst (ho_nodes s))))"

section \<open>Errors\<close>

datatype root_error =
    Access errno string
  | Raw errno
  | NotOwned string
  | NotOwnerOnly string
  | CannotOpen string
  | Exceeds string nat
  | NotRegular string
  | EmptyPath
  | EmptyPathOf string
  | EscapesRoot string
  | PathNul string

datatype io_kind = KindNotFound | KindInvalidInput | KindOther

fun errno_kind :: "errno \<Rightarrow> io_kind" where
  "errno_kind NOENT = KindNotFound"
| "errno_kind LOOP = KindInvalidInput"
| "errno_kind NOTDIR = KindInvalidInput"
| "errno_kind INVAL = KindInvalidInput"
| "errno_kind _ = KindOther"

fun root_error_kind :: "root_error \<Rightarrow> io_kind" where
  "root_error_kind (Access e p) = errno_kind e"
| "root_error_kind (Raw e) = (if e = NOENT then KindNotFound else if e = INVAL then KindInvalidInput else KindOther)"
| "root_error_kind (CannotOpen p) = KindNotFound"
| "root_error_kind _ = KindInvalidInput"

type_synonym 'a root_action = "(host, root_error, 'a) action"

definition described :: "string \<Rightarrow> 'a host_action \<Rightarrow> 'a root_action" where
  "described p a = (\<lambda>s. let (r, t) = a s in (map_err (\<lambda>e. Access e p) r, t))"

definition unnamed :: "'a host_action \<Rightarrow> 'a root_action" where
  "unnamed a = (\<lambda>s. let (r, t) = a s in (map_err Raw r, t))"

text \<open>A call whose outcome the code inspects, or drops.\<close>

definition outcome :: "(host, 'e, 'a) action \<Rightarrow> (host, 'f, 'e + 'a) action" where
  "outcome a = (\<lambda>s. let (r, t) = a s in (Inr r, t))"

definition dropped :: "(host, 'e, 'a) action \<Rightarrow> (host, 'f, unit) action" where
  "dropped a = (\<lambda>s. (Inr (), snd (a s)))"

section \<open>Relative paths\<close>

definition components :: "string \<Rightarrow> root_error + string list" where
  "components relative =
     (if relative = [] then Inl EmptyPath
      else for_each (\<lambda>result component.
             if component = [] \<or> component = ''.'' then Inr result
             else if component = ''..'' then Inl (EscapesRoot relative)
             else if CHR 0x00 \<in> set component then Inl (PathNul relative)
             else Inr (result @ [component])) [] (split_on CHR ''/'' relative))"

definition split_relative :: "string \<Rightarrow> root_error + string list \<times> string" where
  "split_relative relative =
     and_then (components relative) (\<lambda>parts.
     if parts = [] then Inl (EmptyPathOf relative) else Inr (butlast parts, last parts))"

section \<open>The opened root\<close>

type_synonym Root = host_path

definition Root_open :: "host_path \<Rightarrow> Root root_action" where
  "Root_open path = act_bind (unnamed (sys_open_directory path)) (\<lambda>_. act_return path)"

definition require_private :: "host_inode \<Rightarrow> string \<Rightarrow> unit root_action" where
  "require_private stat relative = act_bind act_get (\<lambda>s.
     if hi_uid stat \<noteq> ho_uid s then act_fail (NotOwned relative)
     else if and (hi_mode stat) 0x3f \<noteq> 0 then act_fail (NotOwnerOnly relative)
     else act_return ())"

definition open_private :: "host_path \<Rightarrow> Root root_action" where
  "open_private path =
     act_bind (Root_open path) (\<lambda>root.
     act_bind (unnamed (sys_fstat root)) (\<lambda>stat.
     act_bind (require_private stat ''the workload store'') (\<lambda>_. act_return root)))"

fun descend :: "host_path \<Rightarrow> string list \<Rightarrow> host_path root_action" where
  "descend current [] = act_return current"
| "descend current (component # rest) =
     act_bind (described component (sys_open_directory (current @ [component]))) (\<lambda>_. descend (current @ [component]) rest)"

definition open_beneath :: "Root \<Rightarrow> string list \<Rightarrow> host_path root_action" where
  "open_beneath root parts = act_bind (unnamed sys_duplicate) (\<lambda>_. descend root parts)"

definition open_directory :: "Root \<Rightarrow> string \<Rightarrow> Root root_action" where
  "open_directory root relative = act_bind (act_lift (components relative)) (open_beneath root)"

definition root_exists :: "Root \<Rightarrow> string \<Rightarrow> bool root_action" where
  "root_exists root relative =
     act_bind (act_lift (split_relative relative)) (\<lambda>(parent, name).
     act_bind (open_beneath root parent) (\<lambda>directory.
     act_bind (outcome (sys_stat_exists (directory @ [name]))) (\<lambda>stat.
     case stat of
       Inr _ \<Rightarrow> act_return True
     | Inl NOENT \<Rightarrow> act_return False
     | Inl e \<Rightarrow> act_fail (Access e relative))))"

definition open_regular :: "Root \<Rightarrow> string \<Rightarrow> (host_path \<times> nat) option root_action" where
  "open_regular root relative =
     act_bind (act_lift (split_relative relative)) (\<lambda>(parent, name).
     act_bind (outcome (open_beneath root parent)) (\<lambda>opened.
     case opened of
       Inl e \<Rightarrow> if root_error_kind e = KindNotFound then act_return None else act_fail e
     | Inr directory \<Rightarrow>
         act_bind (outcome (sys_open_file (directory @ [name]))) (\<lambda>fd.
         case fd of
           Inl NOENT \<Rightarrow> act_return None
         | Inl e \<Rightarrow> act_fail (Access e relative)
         | Inr _ \<Rightarrow>
             act_bind (unnamed (sys_fstat (directory @ [name]))) (\<lambda>stat.
             case hi_content stat of
               HostFile data \<Rightarrow> act_return (Some (directory @ [name], length data))
             | _ \<Rightarrow> act_fail (NotRegular relative)))))"

definition read_bounded :: "host_path \<Rightarrow> nat \<Rightarrow> string \<Rightarrow> nat \<Rightarrow> bytes root_action" where
  "read_bounded fd bytes relative limit =
     (if bytes > limit then act_fail (Exceeds relative limit)
      else act_bind (unnamed (sys_read fd)) (\<lambda>content.
        let data = take (limit + 1) content in
        if length data > limit then act_fail (Exceeds relative limit) else act_return data))"

definition read_file_if_exists :: "Root \<Rightarrow> string \<Rightarrow> nat \<Rightarrow> bytes option root_action" where
  "read_file_if_exists root relative limit =
     act_bind (open_regular root relative) (\<lambda>opened.
     case opened of
       None \<Rightarrow> act_return None
     | Some (fd, bytes) \<Rightarrow> act_bind (read_bounded fd bytes relative limit) (\<lambda>data. act_return (Some data)))"

definition read_file :: "Root \<Rightarrow> string \<Rightarrow> nat \<Rightarrow> bytes root_action" where
  "read_file root relative limit =
     act_bind (read_file_if_exists root relative limit) (\<lambda>data.
     case data of Some data \<Rightarrow> act_return data | None \<Rightarrow> act_fail (CannotOpen relative))"

text \<open>The digest of a bounded file; the hasher absorbs the buffers in order.\<close>

definition sha256_file :: "(bytes \<Rightarrow> bytes) \<Rightarrow> Root \<Rightarrow> string \<Rightarrow> nat \<Rightarrow> string root_action" where
  "sha256_file sha root relative limit =
     act_bind (open_regular root relative) (\<lambda>opened.
     case opened of
       None \<Rightarrow> act_fail (CannotOpen relative)
     | Some (fd, bytes) \<Rightarrow>
         if bytes > limit then act_fail (Exceeds relative limit)
         else act_bind (unnamed (sys_read fd)) (\<lambda>data.
           if length data > limit then act_fail (Exceeds relative limit) else act_return (sha256_bytes sha data)))"

definition require_private_directory :: "Root \<Rightarrow> string \<Rightarrow> unit root_action" where
  "require_private_directory root relative =
     act_bind (open_directory root relative) (\<lambda>directory.
     act_bind (unnamed (sys_fstat directory)) (\<lambda>stat. require_private stat relative))"

definition require_private_file :: "Root \<Rightarrow> string \<Rightarrow> unit root_action" where
  "require_private_file root relative =
     act_bind (open_regular root relative) (\<lambda>opened.
     case opened of
       None \<Rightarrow> act_fail (CannotOpen relative)
     | Some (fd, _) \<Rightarrow> act_bind (unnamed (sys_fstat fd)) (\<lambda>stat. require_private stat relative))"

section \<open>Publication\<close>

fun create_path :: "string \<Rightarrow> host_path \<Rightarrow> string list \<Rightarrow> host_path root_action" where
  "create_path relative current [] = act_return current"
| "create_path relative current (component # rest) =
     act_bind (outcome (sys_create HostDir 0x1c0 (current @ [component]))) (\<lambda>made.
     if made \<noteq> Inr () \<and> made \<noteq> Inl EXIST then act_fail (Access (projl made) relative)
     else
       act_bind (described relative (sys_open_directory (current @ [component]))) (\<lambda>_.
       act_bind (unnamed (sys_fstat (current @ [component]))) (\<lambda>stat.
       act_bind (require_private stat relative) (\<lambda>_. create_path relative (current @ [component]) rest))))"

definition open_or_create_beneath :: "Root \<Rightarrow> string \<Rightarrow> string list \<Rightarrow> host_path root_action" where
  "open_or_create_beneath root relative parts = act_bind (unnamed sys_duplicate) (\<lambda>_. create_path relative root parts)"

definition open_or_create_directory :: "Root \<Rightarrow> string \<Rightarrow> host_path root_action" where
  "open_or_create_directory root relative = act_bind (act_lift (components relative)) (open_or_create_beneath root relative)"

definition create_directory :: "Root \<Rightarrow> string \<Rightarrow> unit root_action" where
  "create_directory root relative =
     act_bind (act_lift (split_relative relative)) (\<lambda>(parent, name).
     act_bind (open_beneath root parent) (\<lambda>directory.
     described relative (sys_create HostDir 0x1c0 (directory @ [name]))))"

definition staging_name :: "string \<Rightarrow> (host, 'e, string) action" where
  "staging_name name = (\<lambda>s.
     (Inr (''.'' @ name @ ''.staging.'' @ dec (ho_pid s) @ ''.'' @ dec (ho_counter s)), s\<lparr>ho_counter := (ho_counter s + 1) mod 2 ^ 64\<rparr>))"

definition write_staging_file :: "host_path \<Rightarrow> string \<Rightarrow> bytes \<Rightarrow> string root_action" where
  "write_staging_file directory name data =
     act_bind (staging_name name) (\<lambda>temporary.
     act_bind (described temporary (sys_create (HostFile []) 0x180 (directory @ [temporary]))) (\<lambda>_.
     act_bind (outcome (act_bind (unnamed (sys_write (directory @ [temporary]) data)) (\<lambda>_. unnamed sys_sync))) (\<lambda>written.
     case written of
       Inl e \<Rightarrow> act_bind (dropped (sys_unlink (directory @ [temporary]))) (\<lambda>_. act_fail e)
     | Inr _ \<Rightarrow> act_return temporary)))"

definition publish_exclusive :: "Root \<Rightarrow> string \<Rightarrow> bytes \<Rightarrow> bool root_action" where
  "publish_exclusive root relative data =
     act_bind (act_lift (split_relative relative)) (\<lambda>(parent, name).
     act_bind (open_or_create_beneath root relative parent) (\<lambda>directory.
     act_bind (write_staging_file directory name data) (\<lambda>temporary.
     act_bind (outcome (sys_rename False (directory @ [temporary]) (directory @ [name]))) (\<lambda>renamed.
     case renamed of
       Inr _ \<Rightarrow> act_return True
     | Inl e \<Rightarrow>
         act_bind (dropped (sys_unlink (directory @ [temporary]))) (\<lambda>_.
         if e = EXIST then act_return False else act_fail (Access e relative))))))"

definition write_file_atomic :: "Root \<Rightarrow> string \<Rightarrow> bytes \<Rightarrow> unit root_action" where
  "write_file_atomic root relative data =
     act_bind (act_lift (split_relative relative)) (\<lambda>(parent, name).
     act_bind (open_or_create_beneath root relative parent) (\<lambda>directory.
     act_bind (write_staging_file directory name data) (\<lambda>temporary.
     act_bind (outcome (sys_rename True (directory @ [temporary]) (directory @ [name]))) (\<lambda>renamed.
     case renamed of
       Inr _ \<Rightarrow> act_return ()
     | Inl e \<Rightarrow> act_bind (dropped (sys_unlink (directory @ [temporary]))) (\<lambda>_. act_fail (Access e relative))))))"

definition root_rename :: "Root \<Rightarrow> string \<Rightarrow> string \<Rightarrow> unit root_action" where
  "root_rename root src dst =
     act_bind (act_lift (split_relative src)) (\<lambda>(src_parent, src_name).
     act_bind (act_lift (split_relative dst)) (\<lambda>(dst_parent, dst_name).
     act_bind (open_beneath root src_parent) (\<lambda>src_directory.
     act_bind (open_beneath root dst_parent) (\<lambda>dst_directory.
     described dst (sys_rename True (src_directory @ [src_name]) (dst_directory @ [dst_name]))))))"

definition remove_with :: "(host_path \<Rightarrow> unit host_action) \<Rightarrow> Root \<Rightarrow> string \<Rightarrow> unit root_action" where
  "remove_with unlink root relative =
     act_bind (act_lift (split_relative relative)) (\<lambda>(parent, name).
     act_bind (open_beneath root parent) (\<lambda>directory.
     act_bind (outcome (unlink (directory @ [name]))) (\<lambda>removed.
     if removed = Inr () \<or> removed = Inl NOENT then act_return () else act_fail (Access (projl removed) relative))))"

definition remove_file_if_exists :: "Root \<Rightarrow> string \<Rightarrow> unit root_action" where
  "remove_file_if_exists = remove_with sys_unlink"

definition remove_directory_if_exists :: "Root \<Rightarrow> string \<Rightarrow> unit root_action" where
  "remove_directory_if_exists = remove_with sys_rmdir"

section \<open>What a call may change\<close>

lemma host_call_Inr:
  "host_call f s = (Inr x, t) \<longleftrightarrow>
     ho_fault s (ho_calls s) = None \<and> (\<exists>nodes. f s = Inr (x, nodes) \<and> t = s\<lparr>ho_calls := ho_calls s + 1, ho_nodes := nodes\<rparr>)"
  by (auto simp: host_call_def Let_def split: option.splits sum.splits)

lemma host_call_state:
  "ho_nodes (snd (host_call f s)) = (case f s of Inr (x, nodes) \<Rightarrow> if ho_fault s (ho_calls s) = None then nodes else ho_nodes s | Inl e \<Rightarrow> ho_nodes s)"
  by (auto simp: host_call_def Let_def split: option.splits sum.splits)

lemma host_query_nodes [simp]: "ho_nodes (snd (host_query f s)) = ho_nodes s"
  by (auto simp: host_query_def host_call_state split: sum.splits)

lemma host_query_Inr:
  "host_query f s = (Inr x, t) \<longleftrightarrow> ho_fault s (ho_calls s) = None \<and> f s = Inr x \<and> t = s\<lparr>ho_calls := ho_calls s + 1\<rparr>"
  by (auto simp: host_query_def host_call_Inr split: sum.splits)

lemma inode_at_put: "inode_at s' q = (if q = p then Some n else map_of nodes q)"
  if "ho_nodes s' = put_node p n nodes"
  using that by (simp add: inode_at_def put_node_def)

lemma map_of_delete: "map_of (delete_node p nodes) q = (if q = p then None else map_of nodes q)"
  by (induction nodes) (auto simp: delete_node_def)

lemma map_of_moved_other: "\<not> prefix src q \<Longrightarrow> \<not> prefix dst q \<Longrightarrow> map_of (moved src dst nodes) q = map_of nodes q"
  by (induction nodes) (auto simp: moved_def List.map_filter_simps)

lemma map_of_moved_dst: "map_of (moved src dst nodes) (dst @ r) = map_of nodes (src @ r)"
  if "\<not> prefix src dst" "\<not> prefix dst src"
proof (induction nodes)
  case (Cons a nodes)
  obtain q n where a: "a = (q, n)" by (cases a)
  have "q = src @ r \<longleftrightarrow> prefix src q \<and> dst @ drop (length src) q = dst @ r"
    by (auto simp: prefix_def)
  moreover have "\<not> prefix src q \<Longrightarrow> \<not> prefix dst q \<Longrightarrow> q \<noteq> dst @ r" by auto
  ultimately show ?case
    using Cons a by (auto simp: moved_def List.map_filter_simps)
qed (simp add: moved_def List.map_filter_simps)

lemma staging_name_value: "staging_name name s = (Inr temporary, t) \<Longrightarrow> \<exists>x. temporary = CHR ''.'' # x"
  by (auto simp: staging_name_def)

lemma write_staging_value: "write_staging_file directory name data s = (Inr temporary, t) \<Longrightarrow> \<exists>x. temporary = CHR ''.'' # x"
  unfolding write_staging_file_def act_bind_Inr
  by (elim exE conjE) (auto simp: act_bind_Inr split: sum.split_asm dest!: staging_name_value)

lemma descend_value: "descend current parts s = (Inr directory, t) \<Longrightarrow> directory = current @ parts"
  by (induction parts arbitrary: current s) (fastforce simp: act_bind_Inr)+

lemma open_beneath_value: "open_beneath root parts s = (Inr directory, t) \<Longrightarrow> directory = root @ parts"
  by (auto simp: open_beneath_def act_bind_Inr dest: descend_value)

lemma create_path_value: "create_path relative current parts s = (Inr directory, t) \<Longrightarrow> directory = current @ parts"
  by (induction parts arbitrary: current s) (fastforce simp: act_bind_Inr split: if_splits)+

lemma open_or_create_value: "open_or_create_beneath root relative parts s = (Inr directory, t) \<Longrightarrow> directory = root @ parts"
  by (auto simp: open_or_create_beneath_def act_bind_Inr dest: create_path_value)

text \<open>
  A relation between hosts that is kept when nothing at the paths outside \<open>touch\<close> changes, and when an
  entry allowed by \<open>make\<close> appears where there was none.
\<close>

locale host_steps = progress rel
  for rel :: "host \<Rightarrow> host \<Rightarrow> bool" +
  fixes touch make :: "host_path \<Rightarrow> bool"
  assumes quiet: "ho_nodes t = ho_nodes s \<Longrightarrow> rel s t"
    and made: "make p \<Longrightarrow> inode_at s p = None \<Longrightarrow> ho_nodes t = put_node p n (ho_nodes s) \<Longrightarrow> rel s t"
    and changed: "touch p \<Longrightarrow> touch p' \<Longrightarrow>
      (\<And>q. \<not> prefix p q \<Longrightarrow> \<not> prefix p' q \<Longrightarrow> inode_at t q = inode_at s q) \<Longrightarrow> rel s t"
begin

lemma always_query: "always (host_query f)"
  by (simp add: always_def quiet)

lemma always_queries:
  "always (sys_open_directory p)" "always (sys_open_file p)" "always (sys_fstat p)" "always (sys_read p)"
  "always (sys_stat_exists p)" "always sys_duplicate" "always sys_sync"
  by (simp_all only: sys_open_directory_def sys_open_file_def sys_fstat_def sys_read_def sys_stat_exists_def
      sys_duplicate_def sys_sync_def always_query)

lemma always_call: "(\<And>s x nodes t. f s = Inr (x, nodes) \<Longrightarrow> ho_nodes t = nodes \<Longrightarrow> rel s t) \<Longrightarrow> always (host_call f)"
proof -
  assume step: "\<And>s x nodes t. f s = Inr (x, nodes) \<Longrightarrow> ho_nodes t = nodes \<Longrightarrow> rel s t"
  have "rel s (snd (host_call f s))" for s
  proof (cases "\<exists>x nodes. f s = Inr (x, nodes) \<and> ho_fault s (ho_calls s) = None")
    case True
    then show ?thesis using step [of s _ _ "snd (host_call f s)"] by (auto simp: host_call_state)
  next
    case False
    then show ?thesis by (auto intro!: quiet simp: host_call_state split: sum.splits)
  qed
  then show ?thesis by (simp add: always_def)
qed

lemma always_create: "make p \<Longrightarrow> always (sys_create c mode p)"
  unfolding sys_create_def by (rule always_call) (auto split: if_splits option.splits intro: made)

lemma replaced: "touch p \<Longrightarrow> ho_nodes t = put_node p n (ho_nodes s) \<Longrightarrow> rel s t"
  by (rule changed [of p p]) (auto simp: inode_at_def put_node_def)

lemma always_write: "touch p \<Longrightarrow> always (sys_write p data)"
  unfolding sys_write_def always_def Let_def by (auto split: option.splits intro: quiet replaced)

lemma always_delete: "touch p \<Longrightarrow> ho_nodes t = delete_node p (ho_nodes s) \<Longrightarrow> rel s t"
  by (rule changed [of p p]) (auto simp: inode_at_def map_of_delete)

lemma always_unlink: "touch p \<Longrightarrow> always (sys_unlink p)"
  unfolding sys_unlink_def by (rule always_call) (auto split: if_splits option.splits intro: always_delete)

lemma always_rmdir: "touch p \<Longrightarrow> always (sys_rmdir p)"
  unfolding sys_rmdir_def by (rule always_call) (auto split: if_splits option.splits intro: always_delete)

lemma relocated: "touch src \<Longrightarrow> touch dst \<Longrightarrow> ho_nodes t = moved src dst (ho_nodes s) \<Longrightarrow> rel s t"
  by (rule changed [of src dst]) (simp_all add: inode_at_def map_of_moved_other)

lemma always_rename: "touch src \<Longrightarrow> touch dst \<Longrightarrow> always (sys_rename replace src dst)"
  unfolding sys_rename_def
  by (rule always_call) (auto split: if_splits option.splits intro: relocated)

lemma always_wrapped:
  "always a \<Longrightarrow> always (described p a)" "always a \<Longrightarrow> always (unnamed a)" "always b \<Longrightarrow> always (outcome b)"
  "always b \<Longrightarrow> always (dropped b)"
  by (simp_all add: always_def described_def unnamed_def outcome_def dropped_def prod.case_eq_if)

lemma always_descend: "always (descend current parts)"
  by (induction parts arbitrary: current) (simp_all add: always_pure always_bind always_wrapped always_queries)

lemma always_open_beneath: "always (open_beneath root parts)"
  unfolding open_beneath_def by (intro always_bind always_wrapped always_queries always_descend)

lemma always_require_private: "always (require_private stat relative)"
  unfolding require_private_def by (intro always_bind always_if always_pure)

lemma always_open_directory: "always (open_directory root relative)"
  unfolding open_directory_def by (intro always_bind always_pure always_open_beneath)

lemma always_root_exists: "always (root_exists root relative)"
  unfolding root_exists_def
  by (auto split: prod.splits sum.splits errno.splits intro!: always_bind always_pure always_open_beneath always_wrapped always_queries)

lemma always_open_regular: "always (open_regular root relative)"
  unfolding open_regular_def
  by (auto split: prod.splits sum.splits errno.splits host_content.splits
      intro!: always_bind always_pure always_open_beneath always_wrapped always_queries)

lemma always_read_bounded: "always (read_bounded fd bytes relative limit)"
  unfolding read_bounded_def Let_def by (intro always_bind always_if always_pure always_wrapped always_queries)

lemma always_read_file_if_exists: "always (read_file_if_exists root relative limit)"
  unfolding read_file_if_exists_def
  by (auto split: option.splits intro!: always_bind always_pure always_open_regular always_read_bounded)

lemma always_read_file: "always (read_file root relative limit)"
  unfolding read_file_def
  by (auto split: option.splits intro!: always_bind always_pure always_read_file_if_exists)

lemma always_sha256_file: "always (sha256_file sha root relative limit)"
  unfolding sha256_file_def
  by (auto split: option.splits intro!: always_bind always_pure always_open_regular always_wrapped always_queries)

lemma always_require_private_directory: "always (require_private_directory root relative)"
  unfolding require_private_directory_def
  by (intro always_bind always_open_directory always_wrapped always_queries always_require_private)

lemma always_require_private_file: "always (require_private_file root relative)"
  unfolding require_private_file_def
  by (auto split: option.splits intro!: always_bind always_pure always_open_regular always_wrapped always_queries always_require_private)

lemma always_open: "always (Root_open path)" "always (open_private path)"
  unfolding open_private_def Root_open_def
  by (intro always_bind always_pure always_wrapped always_queries always_require_private)+

lemmas always_reading = always_open_beneath always_open_directory always_root_exists always_read_file_if_exists always_read_file
  always_sha256_file always_require_private_directory always_require_private_file always_open

lemma always_create_path: "(\<And>p. prefix p (current @ parts) \<Longrightarrow> make p) \<Longrightarrow> always (create_path relative current parts)"
proof (induction parts arbitrary: current)
  case (Cons component rest)
  have here: "make (current @ [component])" using Cons.prems by simp
  have "always (create_path relative (current @ [component]) rest)" by (rule Cons.IH) (simp add: Cons.prems)
  with here show ?case
    by (auto intro!: always_bind always_if always_pure always_wrapped always_create always_queries always_require_private)
qed (simp add: always_pure)

lemma always_open_or_create: "(\<And>p. prefix p (root @ parts) \<Longrightarrow> make p) \<Longrightarrow> always (open_or_create_beneath root relative parts)"
  unfolding open_or_create_beneath_def by (intro always_bind always_wrapped always_queries always_create_path)

lemma always_staging_name: "always (staging_name name)"
  by (simp add: always_def staging_name_def quiet)

lemma always_created_directory:
  "(\<And>p. prefix p (root @ parts) \<Longrightarrow> make p) \<Longrightarrow> components relative = Inr parts \<Longrightarrow> always (open_or_create_directory root relative)"
  unfolding open_or_create_directory_def by (auto intro!: always_bind_lift always_open_or_create)

lemma always_write_staging_file:
  assumes make: "\<And>x. make (directory @ [CHR ''.'' # x])" and touch: "\<And>x. touch (directory @ [CHR ''.'' # x])"
  shows "always (write_staging_file directory name data)"
  unfolding write_staging_file_def
proof (rule always_bind_value [OF always_staging_name])
  fix s t :: host and temporary
  assume "staging_name name s = (Inr temporary, t)"
  then obtain x where "temporary = CHR ''.'' # x" using staging_name_value by blast
  with make touch have "make (directory @ [temporary])" "touch (directory @ [temporary])" by simp_all
  then show "always (act_bind (described temporary (sys_create (HostFile []) 0x180 (directory @ [temporary]))) (\<lambda>_.
     act_bind (outcome (act_bind (unnamed (sys_write (directory @ [temporary]) data)) (\<lambda>_. unnamed sys_sync))) (\<lambda>written.
     case written of
       Inl e \<Rightarrow> act_bind (dropped (sys_unlink (directory @ [temporary]))) (\<lambda>_. act_fail e)
     | Inr _ \<Rightarrow> act_return temporary)))"
    by (auto split: sum.splits intro!: always_bind always_wrapped always_create always_write always_queries always_pure always_unlink)
qed

lemma always_bind_opened: "always (f (root @ parts)) \<Longrightarrow> always (act_bind (open_beneath root parts) f)"
  by (rule always_bind_value [OF always_open_beneath]) (auto dest: open_beneath_value)

lemma always_bind_created:
  "(\<And>p. prefix p (root @ parts) \<Longrightarrow> make p) \<Longrightarrow> always (f (root @ parts)) \<Longrightarrow>
     always (act_bind (open_or_create_beneath root relative parts) f)"
  by (rule always_bind_value [OF always_open_or_create]) (auto dest: open_or_create_value)

lemma always_bind_staged:
  "(\<And>x. make (directory @ [CHR ''.'' # x])) \<Longrightarrow> (\<And>x. touch (directory @ [CHR ''.'' # x])) \<Longrightarrow>
     (\<And>x. always (f (CHR ''.'' # x))) \<Longrightarrow> always (act_bind (write_staging_file directory name data) f)"
  by (rule always_bind_value [OF always_write_staging_file]) (auto dest!: write_staging_value)

lemma always_write_file_atomic:
  assumes path: "split_relative relative = Inr (parent, name)"
    and make: "\<And>p. prefix p (root @ parent) \<Longrightarrow> make p" "\<And>x. make ((root @ parent) @ [CHR ''.'' # x])"
    and touch: "\<And>x. touch ((root @ parent) @ [CHR ''.'' # x])" "touch ((root @ parent) @ [name])"
  shows "always (write_file_atomic root relative data)"
  unfolding write_file_atomic_def path act_bind_lift_Inr split
  by (rule always_bind_created [OF make(1)], assumption, rule always_bind_staged [OF make(2) touch(1)])
    (auto split: sum.splits intro!: always_bind always_wrapped always_rename always_unlink always_pure touch [simplified])

lemma always_create_directory:
  "split_relative relative = Inr (parent, name) \<Longrightarrow> make ((root @ parent) @ [name]) \<Longrightarrow> always (create_directory root relative)"
  unfolding create_directory_def
  by (auto simp: act_bind_lift_Inr intro!: always_bind_opened always_wrapped always_create)

lemma always_root_rename:
  "split_relative src = Inr (src_parent, src_name) \<Longrightarrow> split_relative dst = Inr (dst_parent, dst_name) \<Longrightarrow>
     touch ((root @ src_parent) @ [src_name]) \<Longrightarrow> touch ((root @ dst_parent) @ [dst_name]) \<Longrightarrow> always (root_rename root src dst)"
  unfolding root_rename_def
  by (auto simp: act_bind_lift_Inr intro!: always_bind_opened always_wrapped always_rename)

lemma always_remove:
  assumes "split_relative relative = Inr (parent, name)" "touch ((root @ parent) @ [name])"
  shows "always (remove_file_if_exists root relative)" "always (remove_directory_if_exists root relative)"
  using assms unfolding remove_file_if_exists_def remove_directory_if_exists_def remove_with_def
  by (simp_all only: act_bind_lift_Inr split)
    (intro always_bind_opened always_bind always_wrapped always_unlink always_rmdir always_if always_pure, assumption)+

text \<open>Kept by every run that has not returned a value with \<open>Q\<close>, errors included.\<close>

definition pending :: "('a \<Rightarrow> bool) \<Rightarrow> (host, 'e, 'a) action \<Rightarrow> bool" where
  "pending Q a \<longleftrightarrow> (\<forall>s r t. a s = (r, t) \<longrightarrow> (\<forall>x. r = Inr x \<longrightarrow> \<not> Q x) \<longrightarrow> rel s t)"

lemma pending_always: "always a \<Longrightarrow> pending Q a"
  by (auto simp: pending_def dest: always_run)

lemma pending_return: "Q x \<Longrightarrow> pending Q (act_return x)"
  by (simp add: pending_def)

lemma pending_bind:
  "always a \<Longrightarrow> (\<And>s x t. a s = (Inr x, t) \<Longrightarrow> pending Q (f x)) \<Longrightarrow> pending Q (act_bind a f)"
  unfolding pending_def act_bind_def
  by (auto split: prod.splits sum.splits dest: always_run) (metis always_run rel_trans)+

lemma pending_bind_until:
  assumes first: "pending Q a" and kept: "\<And>x. \<not> Q x \<Longrightarrow> pending R (f x)" and reached: "\<And>x. Q x \<Longrightarrow> \<exists>y. f x = act_return y \<and> R y"
  shows "pending R (act_bind a f)"
  unfolding pending_def
proof (intro allI impI)
  fix s r t
  assume run: "act_bind a f s = (r, t)" and r: "\<forall>x. r = Inr x \<longrightarrow> \<not> R x"
  show "rel s t"
  proof (cases "a s")
    case (Pair q s')
    show ?thesis
    proof (cases q)
      case (Inl e)
      with Pair run first show ?thesis by (auto simp: pending_def)
    next
      case (Inr x)
      have "f x s' = (r, t)" using Pair Inr run by simp
      moreover from this have "\<not> Q x" using reached r by fastforce
      ultimately show ?thesis
        using first kept [of x] Pair Inr r rel_trans unfolding pending_def by blast
    qed
  qed
qed

text \<open>Until it has published, the exclusive publication touches only its staging file.\<close>

lemma pending_rename: "pending (\<lambda>r. r = Inr ()) (outcome (sys_rename replace src dst))"
  by (auto simp: pending_def outcome_def sys_rename_def host_call_def Let_def
      split: prod.splits option.splits sum.splits if_splits intro!: quiet)

lemma pending_publish_exclusive:
  assumes path: "split_relative relative = Inr (parent, name)"
    and make: "\<And>p. prefix p (root @ parent) \<Longrightarrow> make p" "\<And>x. make ((root @ parent) @ [CHR ''.'' # x])"
    and touch: "\<And>x. touch ((root @ parent) @ [CHR ''.'' # x])"
  shows "pending (\<lambda>published. published) (publish_exclusive root relative data)"
  unfolding publish_exclusive_def path act_bind_lift_Inr split
proof (rule pending_bind [OF always_open_or_create [OF make(1)]], assumption)
  fix s t :: host and directory
  assume "open_or_create_beneath root relative parent s = (Inr directory, t)"
  then have d: "directory = root @ parent" by (rule open_or_create_value)
  show "pending (\<lambda>published. published) (act_bind (write_staging_file directory name data) (\<lambda>temporary.
     act_bind (outcome (sys_rename False (directory @ [temporary]) (directory @ [name]))) (\<lambda>renamed.
     case renamed of
       Inr _ \<Rightarrow> act_return True
     | Inl e \<Rightarrow>
         act_bind (dropped (sys_unlink (directory @ [temporary]))) (\<lambda>_.
         if e = EXIST then act_return False else act_fail (Access e relative)))))"
    unfolding d
    by (intro pending_bind [OF always_write_staging_file [OF make(2) touch]] pending_bind_until [OF pending_rename])
      (auto split: sum.splits dest!: write_staging_value
        intro!: pending_always pending_return always_bind always_wrapped always_unlink always_if always_pure touch [simplified])
qed

end

section \<open>What is there\<close>

text \<open>Contents at paths, the directories on the way to a path, and a file behind them.\<close>

definition holds :: "(host_path \<times> host_content) set \<Rightarrow> host \<Rightarrow> bool" where
  "holds F s \<longleftrightarrow> (\<forall>(p, c)\<in>F. map_option hi_content (inode_at s p) = Some c)"

definition dirs_at :: "host_path \<Rightarrow> string list \<Rightarrow> (host_path \<times> host_content) set" where
  "dirs_at root parts = {(root @ ps, HostDir) | ps. ps \<noteq> [] \<and> prefix ps parts}"

definition file_at :: "host_path \<Rightarrow> string list \<Rightarrow> string \<Rightarrow> bytes \<Rightarrow> (host_path \<times> host_content) set" where
  "file_at root parent name data = insert ((root @ parent) @ [name], HostFile data) (dirs_at root parent)"

lemma holds_nodes: "ho_nodes t = ho_nodes s \<Longrightarrow> holds F t = holds F s"
  by (simp add: holds_def inode_at_def)

lemma holds_update [simp]: "holds F (s\<lparr>ho_calls := n\<rparr>) = holds F s" "holds F (s\<lparr>ho_fault := f\<rparr>) = holds F s"
  "holds F (s\<lparr>ho_counter := k\<rparr>) = holds F s"
  by (rule holds_nodes, simp)+

lemma holds_insert: "holds (insert (p, c) F) s \<longleftrightarrow> map_option hi_content (inode_at s p) = Some c \<and> holds F s"
  by (auto simp: holds_def)

lemma dirs_at_Nil [simp]: "dirs_at root [] = {}"
  by (auto simp: dirs_at_def)

lemma dirs_at_Cons: "dirs_at root (x # parts) = insert (root @ [x], HostDir) (dirs_at (root @ [x]) parts)"
  by (auto simp: dirs_at_def prefix_Cons)

definition keeps :: "(host_path \<times> host_content) set \<Rightarrow> host \<Rightarrow> host \<Rightarrow> bool" where
  "keeps F s t \<longleftrightarrow> (holds F s \<longrightarrow> holds F t)"

interpretation kept: progress "keeps F" for F
  by unfold_locales (simp_all add: keeps_def)

interpretation kept: host_steps "keeps F" "\<lambda>q. \<forall>(p, c)\<in>F. \<not> prefix q p" "\<lambda>_. True" for F
proof unfold_locales
  show "keeps F s t" if "ho_nodes t = ho_nodes s" for s t
    using holds_nodes [OF that] by (simp add: keeps_def)
  show "keeps F s t" if "inode_at s p = None" "ho_nodes t = put_node p n (ho_nodes s)" for s t p n
    using that unfolding keeps_def holds_def inode_at_def put_node_def by fastforce
  show "keeps F s t" if "\<forall>(p, c)\<in>F. \<not> prefix q p" "\<forall>(p, c)\<in>F. \<not> prefix q' p"
      "\<And>p. \<not> prefix q p \<Longrightarrow> \<not> prefix q' p \<Longrightarrow> inode_at t p = inode_at s p" for s t q q'
    using that unfolding keeps_def holds_def by (auto simp: split_beta)
qed

lemma untouched_file: "\<not> prefix q (root @ parent @ [name]) \<Longrightarrow> (p, c) \<in> file_at root parent name data \<Longrightarrow> \<not> prefix q p"
  by (auto simp: file_at_def dirs_at_def) (metis append_assoc prefix_order.trans prefixI same_prefix_prefix)

text \<open>What a successful call has seen, and what a call that meets no fault returns.\<close>

lemma described_Inr [simp]: "described p a s = (Inr x, t) \<longleftrightarrow> a s = (Inr x, t)"
  by (auto simp: described_def split: prod.splits)

lemma unnamed_Inr [simp]: "unnamed a s = (Inr x, t) \<longleftrightarrow> a s = (Inr x, t)"
  by (auto simp: unnamed_def split: prod.splits)

lemma outcome_Inr [simp]: "outcome a s = (Inr r, t) \<longleftrightarrow> a s = (r, t)"
  by (auto simp: outcome_def split: prod.splits)

lemmas query_runs = sys_open_directory_def sys_open_file_def sys_fstat_def sys_read_def sys_stat_exists_def sys_duplicate_def
  sys_sync_def host_query_Inr

lemma descend_seen: "descend root parts s = (Inr d, t) \<Longrightarrow> holds (dirs_at root parts) s \<and> (\<exists>n. t = s\<lparr>ho_calls := n\<rparr>)"
proof (induction parts arbitrary: root s)
  case Nil
  then show ?case by (auto simp: holds_def intro: exI [of _ "ho_calls s"])
next
  case (Cons x parts)
  then obtain s' where here: "sys_open_directory (root @ [x]) s = (Inr (), s')" and rest: "descend (root @ [x]) parts s' = (Inr d, t)"
    by (auto simp: act_bind_Inr)
  from here have "map_option hi_content (inode_at s (root @ [x])) = Some HostDir" "\<exists>n. s' = s\<lparr>ho_calls := n\<rparr>"
    by (auto simp: query_runs split: option.splits host_content.splits)
  with Cons.IH [OF rest] show ?case by (auto simp: dirs_at_Cons holds_insert)
qed

lemma descend_calm: "ho_fault s = (\<lambda>_. None) \<Longrightarrow> holds (dirs_at root parts) s \<Longrightarrow> \<exists>n. descend root parts s = (Inr (root @ parts), s\<lparr>ho_calls := n\<rparr>)"
proof (induction parts arbitrary: root s)
  case Nil
  then show ?case by (auto intro: exI [of _ "ho_calls s"])
next
  case (Cons x parts)
  have "described x (sys_open_directory (root @ [x])) s = (Inr (), s\<lparr>ho_calls := ho_calls s + 1\<rparr>)"
    using Cons.prems by (auto simp: query_runs dirs_at_Cons holds_insert)
  then show ?case
    using Cons.IH [of "s\<lparr>ho_calls := ho_calls s + 1\<rparr>" "root @ [x]"] Cons.prems by (auto simp: dirs_at_Cons holds_insert)
qed

lemma open_beneath_seen: "open_beneath root parts s = (Inr d, t) \<Longrightarrow> holds (dirs_at root parts) s \<and> (\<exists>n. t = s\<lparr>ho_calls := n\<rparr>)"
  by (auto simp: open_beneath_def act_bind_Inr query_runs dest!: descend_seen)

lemma open_beneath_calm:
  assumes "ho_fault s = (\<lambda>_. None)" "holds (dirs_at root parts) s"
  shows "\<exists>n. open_beneath root parts s = (Inr (root @ parts), s\<lparr>ho_calls := n\<rparr>)"
proof -
  have "unnamed sys_duplicate s = (Inr (), s\<lparr>ho_calls := ho_calls s + 1\<rparr>)" using assms by (simp add: query_runs)
  then show ?thesis
    using descend_calm [of "s\<lparr>ho_calls := ho_calls s + 1\<rparr>" root parts] assms by (simp add: open_beneath_def)
qed

lemma open_regular_seen:
  assumes run: "open_regular root relative s = (Inr (Some (fd, n)), t)" and path: "split_relative relative = Inr (parent, name)"
  shows "fd = (root @ parent) @ [name] \<and> (\<exists>data. holds (file_at root parent name data) s \<and> n = length data) \<and>
    (\<exists>k. t = s\<lparr>ho_calls := k\<rparr>)"
proof -
  obtain r s1 where first: "open_beneath root parent s = (r, s1)" by fastforce
  with run obtain d where r: "r = Inr d"
    by (cases r) (auto simp: open_regular_def path act_bind_lift_Inr act_bind_Inr split: if_splits)
  have opened: "open_beneath root parent s = (Inr d, s1)" using first r by simp
  obtain q s2 where second: "sys_open_file (d @ [name]) s1 = (q, s2)" by fastforce
  with run opened have q: "q = Inr ()"
    by (cases q) (auto simp: open_regular_def path act_bind_lift_Inr act_bind_Inr split: errno.split_asm)
  have found: "sys_open_file (d @ [name]) s1 = (Inr (), s2)" using second q by simp
  from run opened found obtain stat s3 where stat: "sys_fstat (d @ [name]) s2 = (Inr stat, s3)"
    and what: "(case hi_content stat of HostFile data \<Rightarrow> act_return (Some (d @ [name], length data)) | _ \<Rightarrow> act_fail (NotRegular relative)) s3
      = (Inr (Some (fd, n)), t)"
    by (auto simp: open_regular_def path act_bind_lift_Inr act_bind_Inr)
  have d: "d = root @ parent" using opened by (rule open_beneath_value)
  from what obtain data where data: "hi_content stat = HostFile data" "fd = d @ [name]" "n = length data" "t = s3"
    by (auto split: host_content.split_asm)
  have s1: "holds (dirs_at root parent) s" "\<exists>k. s1 = s\<lparr>ho_calls := k\<rparr>" using open_beneath_seen [OF opened] by auto
  have s2: "\<exists>k. s2 = s1\<lparr>ho_calls := k\<rparr>" using found by (auto simp: query_runs split: option.splits)
  have "inode_at s2 (d @ [name]) = Some stat" "\<exists>k. s3 = s2\<lparr>ho_calls := k\<rparr>"
    using stat by (auto simp: query_runs split: option.splits)
  then show ?thesis
    using s1 s2 d data by (auto simp: file_at_def holds_insert inode_at_def)
qed

lemma open_regular_calm:
  assumes "ho_fault s = (\<lambda>_. None)" "holds (file_at root parent name data) s" "split_relative relative = Inr (parent, name)"
  shows "\<exists>k. open_regular root relative s = (Inr (Some ((root @ parent) @ [name], length data)), s\<lparr>ho_calls := k\<rparr>)"
proof -
  let ?p = "(root @ parent) @ [name]"
  obtain n where n: "open_beneath root parent s = (Inr (root @ parent), s\<lparr>ho_calls := n\<rparr>)"
    using open_beneath_calm assms(1,2) by (metis file_at_def holds_insert)
  obtain stat where stat: "inode_at s ?p = Some stat" "hi_content stat = HostFile data"
    using assms(2) by (auto simp: file_at_def holds_insert)
  have "sys_open_file ?p (s\<lparr>ho_calls := n\<rparr>) = (Inr (), s\<lparr>ho_calls := n + 1\<rparr>)"
    "sys_fstat ?p (s\<lparr>ho_calls := n + 1\<rparr>) = (Inr stat, s\<lparr>ho_calls := n + 2\<rparr>)"
    using stat assms(1) by (auto simp: query_runs inode_at_def)
  with n stat(2) show ?thesis
    by (auto simp: open_regular_def assms(3) act_bind_lift_Inr)
qed

lemma read_file_seen:
  assumes run: "read_file root relative limit s = (Inr data, t)" and path: "split_relative relative = Inr (parent, name)"
  shows "holds (file_at root parent name data) s \<and> length data \<le> limit"
proof -
  from run obtain fd n s1 where opened: "open_regular root relative s = (Inr (Some (fd, n)), s1)"
    and read: "read_bounded fd n relative limit s1 = (Inr data, t)"
    by (auto simp: read_file_def read_file_if_exists_def act_bind_Inr split: option.split_asm)
  from open_regular_seen [OF opened path] obtain content k where
    fd: "fd = (root @ parent) @ [name]" "holds (file_at root parent name content) s" "s1 = s\<lparr>ho_calls := k\<rparr>" by auto
  from read fd have "data = take (limit + 1) content" "length data \<le> limit"
    by (auto simp: read_bounded_def act_bind_Inr query_runs file_at_def holds_insert inode_at_def Let_def
        split: if_splits option.splits host_content.splits)
  then show ?thesis using fd(2) by (cases "length content \<le> limit") auto
qed

lemma read_file_calm:
  assumes "ho_fault s = (\<lambda>_. None)" "holds (file_at root parent name data) s" "split_relative relative = Inr (parent, name)"
    "length data \<le> limit"
  shows "\<exists>k. read_file root relative limit s = (Inr data, s\<lparr>ho_calls := k\<rparr>)"
proof -
  obtain n where n: "open_regular root relative s = (Inr (Some ((root @ parent) @ [name], length data)), s\<lparr>ho_calls := n\<rparr>)"
    using open_regular_calm [OF assms(1-3)] by blast
  have "unnamed (sys_read ((root @ parent) @ [name])) (s\<lparr>ho_calls := n\<rparr>) = (Inr data, s\<lparr>ho_calls := n + 1\<rparr>)"
    using assms(1,2) by (auto simp: query_runs file_at_def holds_insert inode_at_def)
  with n show ?thesis
    using assms(4) by (auto simp: read_file_def read_file_if_exists_def read_bounded_def Let_def)
qed

lemma sha256_file_seen:
  assumes run: "sha256_file sha root relative limit s = (Inr digest, t)" and path: "split_relative relative = Inr (parent, name)"
  shows "\<exists>data. holds (file_at root parent name data) s \<and> length data \<le> limit \<and> digest = sha256_bytes sha data"
proof -
  from run obtain fd n s1 where opened: "open_regular root relative s = (Inr (Some (fd, n)), s1)"
    and read: "(if n > limit then act_fail (Exceeds relative limit)
         else act_bind (unnamed (sys_read fd)) (\<lambda>data.
           if length data > limit then act_fail (Exceeds relative limit) else act_return (sha256_bytes sha data))) s1 = (Inr digest, t)"
    by (auto simp: sha256_file_def act_bind_Inr split: option.split_asm)
  from open_regular_seen [OF opened path] obtain content k where
    "fd = (root @ parent) @ [name]" "holds (file_at root parent name content) s" "s1 = s\<lparr>ho_calls := k\<rparr>" by auto
  with read show ?thesis
    by (auto simp: act_bind_Inr query_runs file_at_def holds_insert inode_at_def split: if_splits option.splits host_content.splits)
qed

lemma sha256_file_calm:
  assumes "ho_fault s = (\<lambda>_. None)" "holds (file_at root parent name data) s" "split_relative relative = Inr (parent, name)"
    "length data \<le> limit"
  shows "\<exists>k. sha256_file sha root relative limit s = (Inr (sha256_bytes sha data), s\<lparr>ho_calls := k\<rparr>)"
proof -
  obtain n where n: "open_regular root relative s = (Inr (Some ((root @ parent) @ [name], length data)), s\<lparr>ho_calls := n\<rparr>)"
    using open_regular_calm [OF assms(1-3)] by blast
  have "unnamed (sys_read ((root @ parent) @ [name])) (s\<lparr>ho_calls := n\<rparr>) = (Inr data, s\<lparr>ho_calls := n + 1\<rparr>)"
    using assms(1,2) by (auto simp: query_runs file_at_def holds_insert inode_at_def)
  with n show ?thesis using assms(4) by (auto simp: sha256_file_def)
qed

text \<open>What a successful publication has left behind.\<close>

lemma unit_outcome:
  "(case r of Inl e \<Rightarrow> f e | Inr u \<Rightarrow> g u) s = x \<longleftrightarrow> (\<exists>e. r = Inl e \<and> f e s = x) \<or> (r = Inr () \<and> g () s = x)"
  by (cases r) auto

lemma create_path_made: "create_path relative root parts s = (Inr d, t) \<Longrightarrow> holds (dirs_at root parts) t"
proof (induction parts arbitrary: root s)
  case Nil
  then show ?case by (simp add: holds_def)
next
  case (Cons x parts)
  then obtain s1 s2 s3 s4 stat where opened: "sys_open_directory (root @ [x]) s1 = (Inr (), s2)"
    and later: "unnamed (sys_fstat (root @ [x])) s2 = (Inr stat, s3)" "require_private stat relative s3 = (Inr (), s4)"
    and rest: "create_path relative (root @ [x]) parts s4 = (Inr d, t)"
    by (auto simp: act_bind_Inr split: if_splits)
  have "holds {(root @ [x], HostDir)} s2"
    using opened by (auto simp: query_runs holds_def inode_at_def split: option.splits host_content.splits)
  moreover have "keeps {(root @ [x], HostDir)} s2 s3" "keeps {(root @ [x], HostDir)} s3 s4" "keeps {(root @ [x], HostDir)} s4 t"
    using kept.always_run [OF kept.always_wrapped(2) [OF kept.always_queries(3)] later(1)]
      kept.always_run [OF kept.always_require_private later(2)] kept.always_run [OF kept.always_create_path rest]
    by blast+
  ultimately have "holds {(root @ [x], HostDir)} t" by (auto simp: keeps_def)
  with Cons.IH [OF rest] show ?case by (simp add: dirs_at_Cons holds_insert)
qed

lemma open_or_create_made: "open_or_create_beneath root relative parts s = (Inr d, t) \<Longrightarrow> holds (dirs_at root parts) t"
  by (auto simp: open_or_create_beneath_def act_bind_Inr dest: create_path_made)

lemma dirs_at_untouched: "(p, c) \<in> dirs_at root parent \<Longrightarrow> \<not> prefix ((root @ parent) @ [x]) p"
  by (auto simp: dirs_at_def dest!: prefix_length_le)

lemma write_staging_made:
  assumes "write_staging_file (root @ parent) name data s = (Inr temporary, t)" "holds (dirs_at root parent) s"
  shows "holds (file_at root parent temporary data) t \<and> temporary \<noteq> name"
proof -
  have dirs: "holds (dirs_at root parent) t"
    using assms(2) kept.always_run [OF kept.always_write_staging_file assms(1), of "dirs_at root parent"] dirs_at_untouched
    unfolding keeps_def by blast
  let ?p = "(root @ parent) @ [temporary]"
  from assms(1) obtain s0 s1 s2 where name: "(staging_name name :: string root_action) s = (Inr temporary, s0)"
    and "write": "sys_write ?p data s1 = (Inr (), s2)" and sync: "sys_sync s2 = (Inr (), t)"
    by (auto simp: write_staging_file_def act_bind_Inr unit_outcome)
  have "map_option hi_content (inode_at t ?p) = Some (HostFile data)"
    using "write" sync by (auto simp: sys_write_def query_runs inode_at_def put_node_def Let_def split: option.splits)
  moreover have "temporary \<noteq> name"
    using name by (auto simp: staging_name_def dest: arg_cong [of _ _ length])
  ultimately show ?thesis using dirs by (simp add: file_at_def holds_insert)
qed

lemma renamed_file:
  assumes "sys_rename replace ((root @ parent) @ [temporary]) ((root @ parent) @ [name]) s = (Inr (), t)"
    and "holds (file_at root parent temporary data) s" "temporary \<noteq> name"
  shows "holds (file_at root parent name data) t"
proof -
  have nodes: "ho_nodes t = moved ((root @ parent) @ [temporary]) ((root @ parent) @ [name]) (ho_nodes s)"
    using assms(1) by (auto simp: sys_rename_def host_call_Inr split: option.splits if_splits)
  have "inode_at t ((root @ parent) @ [name]) = inode_at s ((root @ parent) @ [temporary])"
    using map_of_moved_dst [of "(root @ parent) @ [temporary]" "(root @ parent) @ [name]" "ho_nodes s" "[]"] assms(3)
    by (simp add: inode_at_def nodes)
  moreover have "inode_at t p = inode_at s p" if "(p, c) \<in> dirs_at root parent" for p c
    using that by (simp add: inode_at_def nodes map_of_moved_other dirs_at_untouched [simplified])
  ultimately show ?thesis using assms(2) by (auto simp: file_at_def holds_insert holds_def split: prod.splits)
qed

lemma write_file_atomic_made:
  assumes run: "write_file_atomic root relative data s = (Inr (), t)" and path: "split_relative relative = Inr (parent, name)"
  shows "holds (file_at root parent name data) t"
proof -
  from run [unfolded write_file_atomic_def path act_bind_lift_Inr split] obtain d s1 temporary s2 where
    opened: "open_or_create_beneath root relative parent s = (Inr d, s1)"
    and staged: "write_staging_file d name data s1 = (Inr temporary, s2)"
    and renamed: "sys_rename True (d @ [temporary]) (d @ [name]) s2 = (Inr (), t)"
    by (auto simp: act_bind_Inr unit_outcome)
  have d: "d = root @ parent" using opened by (rule open_or_create_value)
  show ?thesis
    using write_staging_made [OF staged [unfolded d] open_or_create_made [OF opened]] renamed_file [OF renamed [unfolded d]] by blast
qed

lemma publish_exclusive_made:
  assumes run: "publish_exclusive root relative data s = (Inr True, t)" and path: "split_relative relative = Inr (parent, name)"
  shows "holds (file_at root parent name data) t"
proof -
  from run [unfolded publish_exclusive_def path act_bind_lift_Inr split] obtain d s1 temporary s2 where
    opened: "open_or_create_beneath root relative parent s = (Inr d, s1)"
    and staged: "write_staging_file d name data s1 = (Inr temporary, s2)"
    and renamed: "sys_rename False (d @ [temporary]) (d @ [name]) s2 = (Inr (), t)"
    by (auto simp: act_bind_Inr unit_outcome split: if_splits)
  have d: "d = root @ parent" using opened by (rule open_or_create_value)
  show ?thesis
    using write_staging_made [OF staged [unfolded d] open_or_create_made [OF opened]] renamed_file [OF renamed [unfolded d]] by blast
qed

lemma read_if_exists_seen:
  "read_file_if_exists root relative limit s = (Inr (Some data), t) \<Longrightarrow> split_relative relative = Inr (parent, name) \<Longrightarrow>
     holds (file_at root parent name data) s"
  using read_file_seen [of root relative limit s data t parent name] by (simp add: read_file_def)

context host_steps
begin

lemma always_publish_exclusive:
  assumes path: "split_relative relative = Inr (parent, name)"
    and make: "\<And>p. prefix p (root @ parent) \<Longrightarrow> make p" "\<And>x. make ((root @ parent) @ [CHR ''.'' # x])"
    and touch: "\<And>x. touch ((root @ parent) @ [CHR ''.'' # x])" "touch ((root @ parent) @ [name])"
  shows "always (publish_exclusive root relative data)"
  unfolding publish_exclusive_def path act_bind_lift_Inr split
  by (rule always_bind_created [OF make(1)], assumption, rule always_bind_staged [OF make(2) touch(1)])
    (auto split: sum.splits intro!: always_bind always_wrapped always_rename always_unlink always_if always_pure touch [simplified])

end

end
