(* ===== verification/Oci_Layer.thy ===== *)
theory Oci_Layer
  imports Launch
begin

text \<open>
  The layers of \<open>workload/oci.rs\<close>: the members of a layer archive, the whiteout and opaque
  markers among them, and the application of a layer to the tree of the layers below. The tar
  reader is a parameter that lists the raw members of an archive. The lemmas: parsed members are
  normal, bounded and carry no special mode; applying a layer keeps the tree well formed (every
  ancestor of an entry is a directory, every path normal) and computes the overlay the image
  specification describes: the lower view without what the markers hide, under the additions.
\<close>

section \<open>Data\<close>

datatype (plugins only: code size) oci_layer_error =
    LayerArchiveHeader nat
  | MemberHeader nat nat
  | MemberSizeOverflow
  | MemberPath tree_error
  | MemberModeField nat nat
  | MemberModeUnsupported nat nat
  | MemberSetuid nat nat
  | MemberUidField nat nat
  | MemberGidField nat nat
  | MemberMtimeField nat nat
  | MemberOwnership nat nat
  | MemberTimestamp nat nat
  | MemberSizeField nat nat
  | MemberNonzeroSize nat nat
  | MemberNoTarget nat nat
  | MemberTarget tree_error
  | MemberFileTooLarge nat nat
  | MemberUnreadable nat nat
  | MemberTruncated nat nat
  | MemberHardLink nat nat
  | MemberSparse nat nat
  | MemberExtended nat nat
  | MemberType nat nat
  | LayerTooManyEntries
  | LayerNoTerminator
  | MarkerNotBasename
  | OpaqueNotEmptyFile
  | WhiteoutNotEmptyFile
  | WhiteoutTarget
  | DuplicatePaths
  | MarkerTraversesLink
  | PathTraversesNonDirectory
  | OpaqueNonDirectory

datatype tar_type =
  TarDirectory | TarSymlink | TarRegular | TarLink | TarChar | TarBlock | TarFifo | TarGnuSparse
  | TarGnuLongName | TarGnuLongLink | TarXHeader | TarXGlobalHeader | TarOther

text \<open>
  One raw member as the tar reader delivers it: a numeric header field that does not parse is
  \<open>None\<close>, as is a link name that is absent and a read of the contents that fails.
\<close>

record tar_member =
  tm_size :: nat
  tm_raw_file_position :: nat
  tm_entry_type :: tar_type
  tm_path_bytes :: bytes
  tm_header_mode :: "nat option"
  tm_header_uid :: "nat option"
  tm_header_gid :: "nat option"
  tm_header_mtime :: "nat option"
  tm_header_size :: "nat option"
  tm_link_name :: "bytes option"
  tm_contents :: "bytes option"

type_synonym tar_reader = "bytes \<Rightarrow> tar_member option list option"

record Member =
  m_name :: bytes
  m_entry :: Entry

datatype Marker = Whiteout bytes | Opaque bytes

fun Marker_target :: "Marker \<Rightarrow> bytes" where
  "Marker_target (Whiteout target) = target"
| "Marker_target (Opaque target) = target"

section \<open>Parsing\<close>

definition reject_declared_size :: "tar_member \<Rightarrow> nat \<Rightarrow> nat \<Rightarrow> oci_layer_error + unit" where
  "reject_declared_size entry layer member =
     and_then (ok_or (MemberSizeField layer member) (tm_header_size entry)) (\<lambda>size.
       if size \<noteq> 0 then Inl (MemberNonzeroSize layer member) else Inr ())"

definition round_up_512 :: "nat \<Rightarrow> nat option" where
  "round_up_512 declared =
     map_option (\<lambda>padded. unat (and (of_nat padded :: u64) (not 511))) (checked_add declared 511)"

definition member_entry :: "tar_member \<Rightarrow> nat \<Rightarrow> nat \<Rightarrow> u32 \<Rightarrow> u32 \<Rightarrow> u32 \<Rightarrow> u32 \<Rightarrow> oci_layer_error + Entry" where
  "member_entry entry layer member mode uid gid mtime =
     (case tm_entry_type entry of
        TarDirectory \<Rightarrow>
          and_then (reject_declared_size entry layer member) (\<lambda>_. Inr (Entry_directory mode uid gid mtime))
      | TarSymlink \<Rightarrow>
          and_then (reject_declared_size entry layer member) (\<lambda>_.
          and_then (ok_or (MemberNoTarget layer member) (tm_link_name entry)) (\<lambda>target.
          and_then (map_err MemberTarget (validate_symlink_syntax target)) (\<lambda>_.
          Inr (Entry_symlink target uid gid mtime))))
      | TarRegular \<Rightarrow>
          and_then (ok_or (MemberSizeField layer member) (tm_header_size entry)) (\<lambda>size.
          if size > MAX_FILE_BYTES then Inl (MemberFileTooLarge layer member)
          else and_then (ok_or (MemberUnreadable layer member) (tm_contents entry)) (\<lambda>data.
          if length data \<noteq> size then Inl (MemberTruncated layer member)
          else Inr (Entry_file data mode uid gid mtime)))
      | TarLink \<Rightarrow> Inl (MemberHardLink layer member)
      | TarGnuSparse \<Rightarrow> Inl (MemberSparse layer member)
      | TarGnuLongName \<Rightarrow> Inl (MemberExtended layer member)
      | TarGnuLongLink \<Rightarrow> Inl (MemberExtended layer member)
      | TarXHeader \<Rightarrow> Inl (MemberExtended layer member)
      | TarXGlobalHeader \<Rightarrow> Inl (MemberExtended layer member)
      | _ \<Rightarrow> Inl (MemberType layer member))"

definition parse_member ::
    "nat \<Rightarrow> Member list \<times> nat \<Rightarrow> nat \<times> tar_member option \<Rightarrow> oci_layer_error + Member list \<times> nat" where
  "parse_member layer = (\<lambda>(members, end_of_last_member) (member, raw).
     and_then (ok_or (MemberHeader layer member) raw) (\<lambda>entry.
     and_then (ok_or MemberSizeOverflow (round_up_512 (tm_size entry))) (\<lambda>padded_size.
     and_then (ok_or MemberSizeOverflow (checked_add (tm_raw_file_position entry) padded_size))
       (\<lambda>end_of_last_member.
     and_then (map_err MemberPath (normalize_layer_path (tm_path_bytes entry))) (\<lambda>name.
     and_then (ok_or (MemberModeField layer member) (tm_header_mode entry)) (\<lambda>mode.
     if mode > 0xfff then Inl (MemberModeUnsupported layer member)
     else if and mode 0xc00 \<noteq> 0 then Inl (MemberSetuid layer member)
     else and_then (ok_or (MemberUidField layer member) (tm_header_uid entry)) (\<lambda>uid.
     and_then (ok_or (MemberGidField layer member) (tm_header_gid entry)) (\<lambda>gid.
     and_then (ok_or (MemberMtimeField layer member) (tm_header_mtime entry)) (\<lambda>mtime.
     if uid \<ge> u32_max \<or> gid \<ge> u32_max then Inl (MemberOwnership layer member)
     else if mtime > u32_max then Inl (MemberTimestamp layer member)
     else and_then (member_entry entry layer member (of_nat mode) (of_nat uid) (of_nat gid) (of_nat mtime))
       (\<lambda>e.
     let members = members @ [\<lparr>m_name = name, m_entry = e\<rparr>]
     in if length members > MAX_ENTRIES then Inl LayerTooManyEntries
        else Inr (members, end_of_last_member)))))))))))"

definition parse_layer :: "tar_reader \<Rightarrow> bytes \<Rightarrow> nat \<Rightarrow> oci_layer_error + Member list" where
  "parse_layer tar expanded layer =
     and_then (ok_or (LayerArchiveHeader layer) (tar expanded)) (\<lambda>entries.
     and_then (for_each (parse_member layer) ([], 0) (enumerate 0 entries)) (\<lambda>(members, end_of_last_member).
     and_then (ok_or LayerNoTerminator (checked_add end_of_last_member 1024)) (\<lambda>terminator_end.
     and_then (ok_or LayerNoTerminator (get_range expanded end_of_last_member terminator_end)) (\<lambda>terminator.
     if list_ex (\<lambda>byte. byte \<noteq> 0) terminator then Inl LayerNoTerminator
     else Inr members))))"

section \<open>Markers\<close>

definition WHITEOUT_PREFIX :: bytes where "WHITEOUT_PREFIX = as_bytes ''.wh.''"
definition OPAQUE_NAME :: bytes where "OPAQUE_NAME = as_bytes ''.wh..wh..opq''"

definition is_empty_file :: "Entry \<Rightarrow> bool" where
  "is_empty_file entry = (case e_data entry of None \<Rightarrow> True | Some d \<Rightarrow> d = [])"

definition split_marker :: "Member \<Rightarrow> oci_layer_error + Marker option" where
  "split_marker member =
     (let components = path_components (m_name member)
      in if components = [] then Inr None
         else
           let base = last components; parents = butlast components;
               parent = (case parent_of (m_name member) of Some p \<Rightarrow> p | None \<Rightarrow> ROOT_PATH)
           in if list_ex (\<lambda>component. starts_with component WHITEOUT_PREFIX) parents
              then Inl MarkerNotBasename
              else if base = OPAQUE_NAME then
                (if e_kind (m_entry member) \<noteq> File \<or> \<not> is_empty_file (m_entry member)
                 then Inl OpaqueNotEmptyFile else Inr (Some (Opaque parent)))
              else if starts_with base WHITEOUT_PREFIX then
                (if e_kind (m_entry member) \<noteq> File \<or> \<not> is_empty_file (m_entry member)
                 then Inl WhiteoutNotEmptyFile
                 else
                   let target = drop 4 base
                   in if target = [] \<or> target = dot \<or> target = dotdot \<or> slash \<in> set target \<or> 0 \<in> set target
                      then Inl WhiteoutTarget
                      else Inr (Some (Whiteout (join_path parent target))))
              else Inr None)"

section \<open>Applying a layer\<close>

text \<open>The first loop: reject duplicate paths, separate markers and additions.\<close>

definition classify_member ::
    "bytes set \<times> Marker list \<times> Member list \<Rightarrow> Member \<Rightarrow>
       oci_layer_error + bytes set \<times> Marker list \<times> Member list" where
  "classify_member = (\<lambda>(seen, markers, additions) member.
     if m_name member \<in> seen then Inl DuplicatePaths
     else and_then (split_marker member) (\<lambda>marker.
       case marker of
         None \<Rightarrow> Inr (insert (m_name member) seen, markers, additions @ [member])
       | Some m \<Rightarrow> Inr (insert (m_name member) seen, markers @ [m], additions)))"

definition provided_directories :: "Member list \<Rightarrow> bytes set" where
  "provided_directories additions =
     (\<Union>member\<in>set additions.
        (if e_kind (m_entry member) = Directory then {m_name member} else {})
        \<union> set (ancestors (m_name member)))"

definition marker_chain :: "Marker \<Rightarrow> bytes list" where
  "marker_chain marker =
     (case marker of Opaque target \<Rightarrow> [target] | Whiteout _ \<Rightarrow> []) @ ancestors (Marker_target marker)"

definition check_marker :: "tree \<Rightarrow> bytes set \<Rightarrow> Marker \<Rightarrow> oci_layer_error + unit" where
  "check_marker t provided marker =
     for_each (\<lambda>_ ancestor.
         if is_symlink_at t ancestor \<and> ancestor \<notin> provided then Inl MarkerTraversesLink else Inr ())
       () (marker_chain marker)"

definition apply_marker :: "tree \<Rightarrow> Marker \<Rightarrow> tree" where
  "apply_marker t marker =
     (case marker of Whiteout target \<Rightarrow> remove_subtree target t | Opaque target \<Rightarrow> remove_children target t)"

definition apply_addition :: "tree \<Rightarrow> Member \<Rightarrow> oci_layer_error + tree" where
  "apply_addition t member =
     and_then (for_each (\<lambda>_ ancestor.
         case Tree_get t ancestor of
           Some entry \<Rightarrow> if e_kind entry \<noteq> Directory then Inl PathTraversesNonDirectory else Inr ()
         | None \<Rightarrow> Inr ()) () (ancestors (m_name member))) (\<lambda>_.
     let t = foldl (\<lambda>t ancestor. Tree_insert_default_directory ancestor t) t (ancestors (m_name member));
         existing = map_option e_kind (Tree_get t (m_name member));
         t = (case e_kind (m_entry member) of
                Directory \<Rightarrow>
                  if existing \<noteq> None \<and> existing \<noteq> Some Directory then remove_subtree (m_name member) t else t
              | _ \<Rightarrow> if existing = Some Directory then remove_subtree (m_name member) t else t)
     in Inr (Tree_insert (m_name member) (m_entry member) t))"

definition check_opaque :: "tree \<Rightarrow> Marker \<Rightarrow> oci_layer_error + unit" where
  "check_opaque t marker =
     (case marker of
        Opaque target \<Rightarrow>
          (case Tree_get t target of
             Some entry \<Rightarrow> if e_kind entry \<noteq> Directory then Inl OpaqueNonDirectory else Inr ()
           | None \<Rightarrow> Inr ())
      | Whiteout _ \<Rightarrow> Inr ())"

definition apply_layer :: "tree \<Rightarrow> Member list \<Rightarrow> oci_layer_error + tree" where
  "apply_layer t members =
     and_then (for_each classify_member ({}, [], []) members) (\<lambda>(seen, markers, additions).
     and_then (for_each (\<lambda>_ marker. check_marker t (provided_directories additions) marker) () markers) (\<lambda>_.
     let t = foldl apply_marker t markers
     in and_then (for_each apply_addition t additions) (\<lambda>t.
        and_then (for_each (\<lambda>_ marker. check_opaque t marker) () markers) (\<lambda>_.
        Inr t))))"

section \<open>Ancestors and removals\<close>

lemma root_no_slash: "ROOT_PATH \<noteq> w @ slash # r" "w @ slash # r \<noteq> ROOT_PATH"
  by (cases w; simp add: ROOT_PATH_def)+

lemma split_at_last_slash:
  assumes "a @ slash # r = q @ slash # rest" and "slash \<notin> set rest"
  shows "a = q \<or> (\<exists>r'. q = a @ slash # r')"
proof -
  consider u where "a = q @ u" "u @ slash # r = slash # rest"
    | u where "a @ u = q" "slash # r = u @ slash # rest"
    using assms(1) by (auto simp: append_eq_append_conv2)
  then show ?thesis
  proof cases
    case 1
    with assms(2) show ?thesis by (cases u) auto
  next
    case 2
    then show ?thesis by (cases u) auto
  qed
qed

lemma prefix_in_ancestors: "p = a @ slash # r \<Longrightarrow> a \<in> set (ancestors p)"
proof (induction p arbitrary: r rule: ancestors.induct)
  case (1 p)
  have nr: "p \<noteq> ROOT_PATH" using 1(2) root_no_slash by metis
  have "slash \<in> set p" using 1 by simp
  then obtain i where i: "rposition slash p = Some i" by (metis rposition_None option.exhaust)
  define q where "q = take i p"
  have par: "parent_of p = Some q" using nr i by (simp add: parent_of_def q_def)
  from rposition_Some [OF i] have "p = q @ slash # drop (Suc i) p" "slash \<notin> set (drop (Suc i) p)"
    by (auto simp: q_def)
  with split_at_last_slash [of a r q "drop (Suc i) p"] 1(2) have "a = q \<or> (\<exists>r'. q = a @ slash # r')" by metis
  then show ?case
  proof
    assume "a = q"
    with par show ?thesis by (simp add: ancestors.simps [of p])
  next
    assume "\<exists>r'. q = a @ slash # r'"
    then obtain r' where "q = a @ slash # r'" ..
    with 1(1) [OF par] have "a \<in> set (ancestors q)" by blast
    with par show ?thesis by (simp add: ancestors.simps [of p])
  qed
qed

lemma mem_ancestors_iff:
  "a \<in> set (ancestors p) \<longleftrightarrow> p \<noteq> ROOT_PATH \<and> (a = ROOT_PATH \<or> (\<exists>r. p = a @ slash # r))"
  using ancestors_shape [of a p] prefix_in_ancestors [of p a] root_in_ancestors [of p] by auto

lemma ancestors_asym: "a \<in> set (ancestors p) \<Longrightarrow> p \<notin> set (ancestors a)"
  using ancestors_trans ancestors_shorter by blast

lemma ancestors_chain:
  assumes "a \<in> set (ancestors p)" "b \<in> set (ancestors p)"
  shows "a = b \<or> a \<in> set (ancestors b) \<or> b \<in> set (ancestors a)"
proof (cases "a = ROOT_PATH \<or> b = ROOT_PATH")
  case True
  with assms show ?thesis by (metis mem_ancestors_iff)
next
  case False
  with assms obtain r s where "p = a @ slash # r" "p = b @ slash # s" by (auto simp: mem_ancestors_iff)
  then consider u where "a = b @ u" "u @ slash # r = slash # s" | u where "a @ u = b" "slash # r = u @ slash # s"
    by (auto simp: append_eq_append_conv2)
  then show ?thesis
  proof cases
    case 1
    then show ?thesis by (cases u) (use False in \<open>auto simp: mem_ancestors_iff\<close>)
  next
    case 2
    then show ?thesis by (cases u) (use False in \<open>auto simp: mem_ancestors_iff\<close>)
  qed
qed

lemma starts_with_slash: "starts_with q (w @ [slash]) \<longleftrightarrow> (\<exists>r. q = w @ slash # r)"
  by (simp add: starts_with_iff)

lemma Tree_get_remove_subtree [simp]:
  "Tree_get (remove_subtree w t) q = (if q = w \<or> w \<in> set (ancestors q) then None else Tree_get t q)"
  by (auto simp: remove_subtree_def Let_def subtree_prefix_def starts_with_slash mem_ancestors_iff root_no_slash)

lemma Tree_get_remove_children [simp]:
  "Tree_get (remove_children d t) q = (if d \<in> set (ancestors q) then None else Tree_get t q)"
  by (auto simp: remove_children_def Let_def subtree_prefix_def starts_with_slash mem_ancestors_iff root_no_slash)

section \<open>The overlay a layer describes\<close>

text \<open>
  The specification, on partial functions from paths to entries. A whiteout hides its target and
  everything below, an opaque marker everything below its directory. An addition puts its entry
  at its name, hides everything below it unless it is a directory, and provides its missing
  parents as default directories.
\<close>

type_synonym view_map = "bytes \<Rightarrow> Entry option"

fun covers :: "Marker \<Rightarrow> bytes \<Rightarrow> bool" where
  "covers (Whiteout w) q \<longleftrightarrow> q = w \<or> w \<in> set (ancestors q)"
| "covers (Opaque d) q \<longleftrightarrow> d \<in> set (ancestors q)"

definition masked :: "view_map \<Rightarrow> Marker list \<Rightarrow> view_map" where
  "masked v markers q = (if \<exists>m\<in>set markers. covers m q then None else v q)"

definition is_dir :: "Member \<Rightarrow> bool" where
  "is_dir m \<longleftrightarrow> e_kind (m_entry m) = Directory"

definition overlay :: "view_map \<Rightarrow> Member list \<Rightarrow> view_map" where
  "overlay v additions q =
     (case find (\<lambda>m. m_name m = q) additions of
        Some m \<Rightarrow> Some (m_entry m)
      | None \<Rightarrow>
          if \<exists>m\<in>set additions. q \<in> set (ancestors (m_name m))
          then Some (case v q of Some e \<Rightarrow> e | None \<Rightarrow> Entry_default_directory)
          else if \<exists>m\<in>set additions. \<not> is_dir m \<and> m_name m \<in> set (ancestors q) then None
          else v q)"

text \<open>No addition that is not a directory lies above another addition of the same layer.\<close>

definition consistent :: "Member list \<Rightarrow> bool" where
  "consistent additions \<longleftrightarrow>
     (\<forall>m\<in>set additions. \<forall>n\<in>set additions. \<not> is_dir m \<longrightarrow> m_name m \<notin> set (ancestors (m_name n)))"

text \<open>
  The additions that remain: one below a non-directory addition of the same layer was hidden when that
  addition took its place.
\<close>

definition shadowed :: "Member list \<Rightarrow> Member \<Rightarrow> bool" where
  "shadowed additions m \<longleftrightarrow> (\<exists>n\<in>set additions. \<not> is_dir n \<and> m_name n \<in> set (ancestors (m_name m)))"

definition remaining :: "Member list \<Rightarrow> Member list" where
  "remaining additions = filter (\<lambda>m. \<not> shadowed additions m) additions"

definition add_view :: "view_map \<Rightarrow> Member \<Rightarrow> view_map" where
  "add_view v m q =
     (if q = m_name m then Some (m_entry m)
      else if \<not> is_dir m \<and> m_name m \<in> set (ancestors q) then None
      else if q \<in> set (ancestors (m_name m)) \<and> v q = None then Some Entry_default_directory
      else v q)"

lemma apply_marker_view: "Tree_get (foldl apply_marker t markers) = masked (Tree_get t) markers"
proof (induction markers arbitrary: t)
  case Nil
  show ?case by (simp add: masked_def fun_eq_iff)
next
  case (Cons m ms)
  have "Tree_get (apply_marker t m) q = (if covers m q then None else Tree_get t q)" for q
    by (cases m) (simp_all add: apply_marker_def)
  with Cons show ?case by (auto simp: masked_def fun_eq_iff)
qed

lemma foldl_default_view:
  "Tree_get (foldl (\<lambda>t a. Tree_insert_default_directory a t) t as) q =
     (if q \<in> set as \<and> Tree_get t q = None then Some Entry_default_directory else Tree_get t q)"
  by (induction as arbitrary: t) auto

definition addition_fits :: "view_map \<Rightarrow> Member \<Rightarrow> bool" where
  "addition_fits v m \<longleftrightarrow> (\<forall>a\<in>set (ancestors (m_name m)). \<forall>e. v a = Some e \<longrightarrow> e_kind e = Directory)"

lemma closed_no_below:
  "dirs_closed v \<Longrightarrow> v p = None \<or> (\<exists>e. v p = Some e \<and> e_kind e \<noteq> Directory) \<Longrightarrow> p \<in> set (ancestors q) \<Longrightarrow> v q = None"
  unfolding dirs_closed_def by (metis not_Some_eq option.inject)

lemma apply_addition_view:
  assumes closed: "dirs_closed (Tree_get t)" and ok: "apply_addition t m = Inr t'"
  shows "addition_fits (Tree_get t) m \<and> Tree_get t' = add_view (Tree_get t) m"
proof
  define n where "n = m_name m"
  define t1 where "t1 = foldl (\<lambda>t a. Tree_insert_default_directory a t) t (ancestors n)"
  have n_self: "n \<notin> set (ancestors n)" using ancestors_shorter by blast
  have v1: "Tree_get t1 q = (if q \<in> set (ancestors n) \<and> Tree_get t q = None then Some Entry_default_directory
      else Tree_get t q)" for q
    by (simp add: t1_def n_def foldl_default_view)
  show fits: "addition_fits (Tree_get t) m"
    using ok by (auto simp: apply_addition_def for_each_unit_ok addition_fits_def split: option.splits if_splits)
  have t': "t' = Tree_insert n (m_entry m)
      (case e_kind (m_entry m) of
         Directory \<Rightarrow> if map_option e_kind (Tree_get t1 n) \<noteq> None \<and> map_option e_kind (Tree_get t1 n) \<noteq> Some Directory
           then remove_subtree n t1 else t1
       | _ \<Rightarrow> if map_option e_kind (Tree_get t1 n) = Some Directory then remove_subtree n t1 else t1)"
    using ok unfolding apply_addition_def Let_def and_then_eq_Inr n_def [symmetric] t1_def [symmetric] sum.inject
    by (elim exE conjE) (rule sym)
  have at_n: "Tree_get t1 n = Tree_get t n" using n_self by (simp add: v1)
  have below: "Tree_get t1 q = Tree_get t q" if "n \<in> set (ancestors q)" for q
    using ancestors_asym [OF that] by (simp add: v1)
  have gone: "Tree_get t q = None" if "n \<in> set (ancestors q)" "map_option e_kind (Tree_get t n) \<noteq> Some Directory" for q
    using closed_no_below [OF closed _ that(1)] that(2) by (cases "Tree_get t n") auto
  show "Tree_get t' = add_view (Tree_get t) m"
  proof
    fix q
    show "Tree_get t' q = add_view (Tree_get t) m q"
    proof (cases "q = n")
      case True
      then show ?thesis by (simp add: t' add_view_def n_def)
    next
      case False
      show ?thesis
      proof (cases "n \<in> set (ancestors q)")
        case True
        then show ?thesis
          using False below [OF True] gone [OF True] ancestors_asym [OF True] at_n
          by (cases "e_kind (m_entry m)") (auto simp: t' add_view_def n_def is_dir_def)
      next
        case above: False
        then show ?thesis
          using False v1 [of q] by (cases "e_kind (m_entry m)") (auto simp: t' add_view_def n_def is_dir_def)
      qed
    qed
  qed
qed

lemma add_view_closed:
  assumes closed: "dirs_closed v" and fits: "addition_fits v m"
  shows "dirs_closed (add_view v m)"
  unfolding dirs_closed_def
proof (intro allI impI ballI)
  fix p e a
  assume p: "add_view v m p = Some e" and a: "a \<in> set (ancestors p)"
  have up: "\<exists>d. add_view v m a = Some d \<and> e_kind d = Directory" if "a \<in> set (ancestors (m_name m))"
  proof -
    have "a \<noteq> m_name m" using that by (rule ancestors_shorter)
    moreover have "m_name m \<notin> set (ancestors a)" using that by (rule ancestors_asym)
    moreover have "\<forall>x. v a = Some x \<longrightarrow> e_kind x = Directory"
      using fits that by (simp add: addition_fits_def)
    ultimately show ?thesis using that
      by (cases "v a") (auto simp: add_view_def Entry_default_directory_def Entry_directory_def)
  qed
  show "\<exists>d. add_view v m a = Some d \<and> e_kind d = Directory"
  proof (cases "p = m_name m \<or> p \<in> set (ancestors (m_name m))")
    case True
    with a have "a \<in> set (ancestors (m_name m))" by (auto intro: ancestors_trans)
    then show ?thesis by (rule up)
  next
    case False
    with p have vp: "v p = Some e" and free: "\<not> (\<not> is_dir m \<and> m_name m \<in> set (ancestors p))"
      by (auto simp: add_view_def split: if_splits)
    from closed vp a obtain d where d: "v a = Some d" "e_kind d = Directory" unfolding dirs_closed_def by blast
    show ?thesis
    proof (cases "a = m_name m")
      case True
      with free a show ?thesis by (simp add: add_view_def is_dir_def)
    next
      case False
      moreover have "\<not> (\<not> is_dir m \<and> m_name m \<in> set (ancestors a))"
        using free a ancestors_trans by blast
      ultimately show ?thesis using d by (simp add: add_view_def)
    qed
  qed
qed

lemma overlay_snoc:
  assumes cons: "consistent (as @ [m])" and dist: "m_name m \<notin> m_name ` set as"
  shows "overlay v (as @ [m]) = add_view (overlay v as) m"
proof
  fix q
  have fnd: "find (\<lambda>x. m_name x = q) (as @ [m]) =
      (case find (\<lambda>x. m_name x = q) as of Some x \<Rightarrow> Some x | None \<Rightarrow> if m_name m = q then Some m else None)"
    by (induction as) auto
  have at_m: "find (\<lambda>x. m_name x = m_name m) as = None" using dist unfolding find_None_iff by (metis imageI)
  have not_under: "\<not> (\<not> is_dir m \<and> m_name m \<in> set (ancestors (m_name x)))" if "x \<in> set as" for x
    using cons that by (auto simp: consistent_def)
  have no_nondir_above: "\<not> (\<not> is_dir x \<and> m_name x \<in> set (ancestors (m_name m)))" if "x \<in> set as" for x
    using cons that by (auto simp: consistent_def)
  show "overlay v (as @ [m]) q = add_view (overlay v as) m q"
  proof (cases "q = m_name m")
    case True
    with at_m fnd show ?thesis by (simp add: overlay_def add_view_def)
  next
    case ne: False
    show ?thesis
    proof (cases "find (\<lambda>x. m_name x = q) as")
      case (Some x)
      then have x: "x \<in> set as" "m_name x = q" by (auto simp: find_Some_iff)
      with not_under have "\<not> (\<not> is_dir m \<and> m_name m \<in> set (ancestors q))" by blast
      with Some fnd ne show ?thesis by (simp add: overlay_def add_view_def)
    next
      case None
      with fnd ne have none: "find (\<lambda>x. m_name x = q) (as @ [m]) = None" by simp
      consider (old) "\<exists>x\<in>set as. q \<in> set (ancestors (m_name x))"
        | (fresh) "q \<in> set (ancestors (m_name m))" "\<not> (\<exists>x\<in>set as. q \<in> set (ancestors (m_name x)))"
        | (plain) "q \<notin> set (ancestors (m_name m))" "\<not> (\<exists>x\<in>set as. q \<in> set (ancestors (m_name x)))" by blast
      then show ?thesis
      proof cases
        case old
        then obtain x where x: "x \<in> set as" "q \<in> set (ancestors (m_name x))" by blast
        have "\<not> (\<not> is_dir m \<and> m_name m \<in> set (ancestors q))"
          using not_under [OF x(1)] ancestors_trans [OF x(2)] by blast
        with old None none ne show ?thesis by (auto simp: overlay_def add_view_def)
      next
        case fresh
        have "\<not> (\<exists>x\<in>set as. \<not> is_dir x \<and> m_name x \<in> set (ancestors q))"
          using no_nondir_above ancestors_trans [OF fresh(1)] by blast
        moreover have "m_name m \<notin> set (ancestors q)" using fresh(1) by (rule ancestors_asym)
        ultimately show ?thesis using fresh None none ne
          by (cases "v q") (auto simp: overlay_def add_view_def)
      next
        case plain
        with None none ne show ?thesis by (auto simp: overlay_def add_view_def)
      qed
    qed
  qed
qed

lemma for_each_snoc:
  "for_each step s (xs @ [x]) = Inr s' \<longleftrightarrow> (\<exists>t. for_each step s xs = Inr t \<and> step t x = Inr s')"
  by (auto simp: for_each_append)

lemma remaining_consistent: "consistent (remaining additions)"
  by (auto simp: consistent_def remaining_def shadowed_def)

lemma remaining_top:
  assumes "x \<in> set additions" "\<not> is_dir x"
  shows "\<exists>y\<in>set (remaining additions). \<not> is_dir y \<and> (m_name y = m_name x \<or> m_name y \<in> set (ancestors (m_name x)))"
  using assms
proof (induction "card (set (ancestors (m_name x)))" arbitrary: x rule: less_induct)
  case less
  show ?case
  proof (cases "shadowed additions x")
    case False
    with less.prems show ?thesis by (auto simp: remaining_def)
  next
    case True
    then obtain n where n: "n \<in> set additions" "\<not> is_dir n" "m_name n \<in> set (ancestors (m_name x))"
      by (auto simp: shadowed_def)
    have "set (ancestors (m_name n)) \<subset> set (ancestors (m_name x))"
      using n(3) ancestors_trans [OF n(3)] ancestors_shorter [of "m_name n" "m_name n"] by blast
    then have "card (set (ancestors (m_name n))) < card (set (ancestors (m_name x)))" by (simp add: psubset_card_mono)
    from less.hyps [OF this n(1,2)] show ?thesis using ancestors_trans [OF n(3)] n(3) by auto
  qed
qed

lemma remaining_snoc:
  assumes "\<not> shadowed as m"
  shows "remaining (as @ [m]) = filter (\<lambda>x. \<not> shadowed [m] x) (remaining as) @ [m]"
proof -
  have "\<not> shadowed (as @ [m]) m" using assms ancestors_asym by (auto simp: shadowed_def)
  moreover have "shadowed (as @ [m]) x \<longleftrightarrow> shadowed as x \<or> shadowed [m] x" for x by (auto simp: shadowed_def)
  ultimately show ?thesis by (auto simp: remaining_def intro: filter_cong)
qed

lemma overlay_replaced:
  assumes "\<not> shadowed as m"
  shows "add_view (overlay v (filter (\<lambda>x. \<not> shadowed [m] x) as)) m = add_view (overlay v as) m" (is "add_view (overlay v ?as) m = _")
proof
  fix q
  show "add_view (overlay v ?as) m q = add_view (overlay v as) m q"
  proof (cases "q = m_name m \<or> \<not> is_dir m \<and> m_name m \<in> set (ancestors q)")
    case True
    then show ?thesis by (auto simp: add_view_def)
  next
    case False
    have fnd: "find (\<lambda>x. m_name x = q) ?as = find (\<lambda>x. m_name x = q) as"
      using False by (induction as) (auto simp: shadowed_def)
    have above: "q \<in> set (ancestors (m_name m))" if "x \<in> set as" "x \<notin> set ?as" "q \<in> set (ancestors (m_name x))" for x
      using that False ancestors_chain [OF that(3), of "m_name m"] by (auto simp: shadowed_def)
    have hid: "(\<exists>x\<in>set ?as. \<not> is_dir x \<and> m_name x \<in> set (ancestors q)) \<longleftrightarrow> (\<exists>x\<in>set as. \<not> is_dir x \<and> m_name x \<in> set (ancestors q))"
      using False ancestors_trans by (auto simp: shadowed_def)
    note clear = False
    show ?thesis
    proof (cases "q \<in> set (ancestors (m_name m))")
      case True
      have at_q: "add_view (overlay v xs) m q = (case find (\<lambda>x. m_name x = q) xs of
            Some x \<Rightarrow> Some (m_entry x) | None \<Rightarrow> Some (case v q of Some e \<Rightarrow> e | None \<Rightarrow> Entry_default_directory))"
        if "\<not> (\<exists>x\<in>set xs. \<not> is_dir x \<and> m_name x \<in> set (ancestors q))" for xs
        using that True clear by (cases "find (\<lambda>x. m_name x = q) xs"; cases "v q") (auto simp: overlay_def add_view_def)
      have "\<not> (\<exists>x\<in>set as. \<not> is_dir x \<and> m_name x \<in> set (ancestors q))"
        using assms True ancestors_trans by (auto simp: shadowed_def)
      with hid at_q [of as] at_q [of ?as] fnd show ?thesis by simp
    next
      case False
      with above have par: "(\<exists>x\<in>set ?as. q \<in> set (ancestors (m_name x))) \<longleftrightarrow> (\<exists>x\<in>set as. q \<in> set (ancestors (m_name x)))" by auto
      show ?thesis by (simp only: overlay_def add_view_def fnd hid par)
    qed
  qed
qed

lemma find_named: "m \<in> set ms \<Longrightarrow> distinct (map m_name ms) \<Longrightarrow> find (\<lambda>x. m_name x = m_name m) ms = Some m"
  by (induction ms) (auto simp: image_iff)

lemma apply_additions_remaining:
  assumes "dirs_closed (Tree_get t)" and "for_each apply_addition t additions = Inr t'" and "distinct (map m_name additions)"
  shows "dirs_closed (Tree_get t') \<and> Tree_get t' = overlay (Tree_get t) (remaining additions)"
  using assms(2,3)
proof (induction additions arbitrary: t' rule: rev_induct)
  case Nil
  with assms(1) show ?case by (simp add: overlay_def remaining_def fun_eq_iff)
next
  case (snoc m as)
  from snoc.prems(1) obtain u where u: "for_each apply_addition t as = Inr u" and m: "apply_addition u m = Inr t'"
    by (auto simp: for_each_snoc)
  from snoc u have c: "dirs_closed (Tree_get u)" and v: "Tree_get u = overlay (Tree_get t) (remaining as)" by auto
  from apply_addition_view [OF c m] have fits: "addition_fits (Tree_get u) m"
    and t': "Tree_get t' = add_view (Tree_get u) m" by auto
  have free: "\<not> shadowed as m"
  proof
    assume "shadowed as m"
    then obtain x where "x \<in> set as" "\<not> is_dir x" "m_name x \<in> set (ancestors (m_name m))" by (auto simp: shadowed_def)
    with remaining_top [of x as] obtain y where y: "y \<in> set (remaining as)" "\<not> is_dir y" "m_name y \<in> set (ancestors (m_name m))"
      using ancestors_trans by metis
    have "distinct (map m_name (remaining as))" using snoc.prems(2) by (simp add: remaining_def distinct_map_filter)
    with y(1) have "find (\<lambda>x. m_name x = m_name y) (remaining as) = Some y" by (rule find_named)
    with v have "Tree_get u (m_name y) = Some (m_entry y)" by (simp add: overlay_def)
    with fits y show False by (simp add: addition_fits_def is_dir_def)
  qed
  let ?as = "filter (\<lambda>x. \<not> shadowed [m] x) (remaining as)"
  have "\<not> shadowed (remaining as) m" using free by (auto simp: shadowed_def remaining_def)
  then have "add_view (Tree_get u) m = add_view (overlay (Tree_get t) ?as) m" by (simp add: v overlay_replaced)
  also have "\<dots> = overlay (Tree_get t) (?as @ [m])"
  proof (rule overlay_snoc [symmetric])
    show "consistent (?as @ [m])" using remaining_consistent [of "as @ [m]"] by (simp only: remaining_snoc [OF free])
    show "m_name m \<notin> m_name ` set ?as" using snoc.prems(2) by (auto simp: remaining_def)
  qed
  also have "\<dots> = overlay (Tree_get t) (remaining (as @ [m]))" by (simp add: remaining_snoc [OF free])
  finally show ?case using add_view_closed [OF c fits] by (simp add: t')
qed

section \<open>Markers and additions of a layer\<close>

definition layer_parts :: "Member list \<Rightarrow> oci_layer_error + Marker list \<times> Member list" where
  "layer_parts members =
     and_then (for_each classify_member ({}, [], []) members)
       (\<lambda>(seen, markers, additions). Inr (markers, additions))"

lemma classify_names:
  "for_each classify_member (seen, mk, ad) members = Inr (seen', mk', ad') \<Longrightarrow>
     distinct (map m_name ad) \<Longrightarrow> m_name ` set ad \<subseteq> seen \<Longrightarrow>
     distinct (map m_name ad') \<and> m_name ` set ad' \<subseteq> seen' \<and> set ad' \<subseteq> set ad \<union> set members"
proof (induction members arbitrary: seen mk ad)
  case Nil
  then show ?case by simp
next
  case (Cons m ms)
  from Cons.prems(1) obtain s2 mk2 ad2 where step: "classify_member (seen, mk, ad) m = Inr (s2, mk2, ad2)"
    and rest: "for_each classify_member (s2, mk2, ad2) ms = Inr (seen', mk', ad')" by auto
  from step have fresh: "m_name m \<notin> seen" and s2: "s2 = insert (m_name m) seen"
    and ad2: "ad2 = ad \<or> ad2 = ad @ [m]"
    by (auto simp: classify_member_def split: option.splits if_splits)
  have "distinct (map m_name ad2)" "m_name ` set ad2 \<subseteq> s2"
    using Cons.prems fresh s2 ad2 by (auto simp: image_subset_iff)
  from Cons.IH [OF rest this] show ?case using ad2 by auto
qed

lemma layer_parts_names:
  "layer_parts members = Inr (markers, additions) \<Longrightarrow>
     distinct (map m_name additions) \<and> set additions \<subseteq> set members"
  unfolding layer_parts_def using classify_names [of "{}" "[]" "[]" members] by fastforce

lemma masked_closed: "dirs_closed v \<Longrightarrow> dirs_closed (masked v markers)"
  unfolding dirs_closed_def
proof (intro allI impI ballI)
  fix p e a
  assume closed: "\<forall>p e. v p = Some e \<longrightarrow> (\<forall>a\<in>set (ancestors p). \<exists>d. v a = Some d \<and> e_kind d = Directory)"
    and p: "masked v markers p = Some e" and a: "a \<in> set (ancestors p)"
  have covers_down: "covers m a \<Longrightarrow> covers m p" for m
    using a by (cases m) (auto intro: ancestors_trans)
  from p have "v p = Some e" "\<not> (\<exists>m\<in>set markers. covers m p)" by (auto simp: masked_def split: if_splits)
  with closed a covers_down show "\<exists>d. masked v markers a = Some d \<and> e_kind d = Directory"
    unfolding masked_def by auto
qed

lemma apply_layer_parts:
  "apply_layer t members = Inr t' \<longleftrightarrow>
     (\<exists>markers additions. layer_parts members = Inr (markers, additions)
        \<and> (\<forall>marker\<in>set markers. check_marker t (provided_directories additions) marker = Inr ())
        \<and> for_each apply_addition (foldl apply_marker t markers) additions = Inr t'
        \<and> (\<forall>marker\<in>set markers. check_opaque t' marker = Inr ()))"
  unfolding apply_layer_def layer_parts_def Let_def by (auto simp: for_each_unit_ok)

section \<open>The invariant of assembled trees\<close>

definition entry_ok :: "bytes \<Rightarrow> Entry \<Rightarrow> bool" where
  "entry_ok p e \<longleftrightarrow> normal_path p \<and> wf_entry e \<and> e_mode e \<le> 0xfff \<and> and (e_mode e) 0xc00 = 0
     \<and> length (file_bytes e) \<le> MAX_FILE_BYTES \<and> length (link_target e) \<le> MAX_SYMLINK_TARGET_BYTES"

definition member_ok :: "Member \<Rightarrow> bool" where
  "member_ok m \<longleftrightarrow> entry_ok (m_name m) (m_entry m)"

definition tree_inv :: "tree \<Rightarrow> bool" where
  "tree_inv t \<longleftrightarrow> wf_tree t \<and> dirs_closed (Tree_get t) \<and> (\<forall>p e. Tree_get t p = Some e \<longrightarrow> entry_ok p e)"

lemma split_on_append: "split_on c (xs @ c # ys) = split_on c xs @ split_on c ys"
proof (induction xs)
  case Nil
  show ?case by simp
next
  case (Cons x xs)
  obtain p ps where "split_on c xs = p # ps" by (cases "split_on c xs") auto
  with Cons show ?case by simp
qed

lemma ancestors_normal: "normal_path p \<Longrightarrow> a \<in> set (ancestors p) \<Longrightarrow> normal_path a"
proof -
  assume p: "normal_path p" and a: "a \<in> set (ancestors p)"
  from a have "p \<noteq> ROOT_PATH" by auto
  with p have parts: "list_all normal_part (split_on slash p)" and len: "length p \<le> MAX_PATH_BYTES"
    by (auto simp: normal_path_def)
  from ancestors_shape [OF a] show ?thesis
  proof
    assume "a = ROOT_PATH"
    then show ?thesis by (simp add: normal_path_def)
  next
    assume "\<exists>r. p = a @ slash # r"
    then obtain r where "p = a @ slash # r" ..
    with parts len show ?thesis by (simp add: normal_path_def split_on_append)
  qed
qed

lemma entry_ok_default: "normal_path p \<Longrightarrow> entry_ok p Entry_default_directory"
  by (simp add: entry_ok_def Entry_default_directory_def Entry_directory_def DEFAULT_DIRECTORY_MODE_def
      file_bytes_def link_target_def)

lemma wf_tree_foldl_default: "wf_tree t \<Longrightarrow> wf_tree (foldl (\<lambda>t a. Tree_insert_default_directory a t) t as)"
  by (induction as arbitrary: t) (simp_all add: wf_tree_insert_default)

lemma wf_apply_addition: "wf_tree t \<Longrightarrow> apply_addition t m = Inr t' \<Longrightarrow> wf_tree t'"
  using wf_tree_foldl_default [of t "ancestors (m_name m)"]
  by (auto simp: apply_addition_def Let_def wf_tree_insert split: EntryKind.splits)

interpretation addition: fallible_step apply_addition tree_inv member_ok
proof
  fix t m t'
  assume inv: "tree_inv t" and m: "member_ok m" and ok: "apply_addition t m = Inr t'"
  from inv have wf: "wf_tree t" and closed: "dirs_closed (Tree_get t)"
    and entries: "\<And>p e. Tree_get t p = Some e \<Longrightarrow> entry_ok p e" by (auto simp: tree_inv_def)
  from apply_addition_view [OF closed ok] have fits: "addition_fits (Tree_get t) m"
    and view: "Tree_get t' = add_view (Tree_get t) m" by auto
  have "entry_ok p e" if "add_view (Tree_get t) m p = Some e" for p e
    using that m entries entry_ok_default ancestors_normal
    by (auto simp: add_view_def member_ok_def entry_ok_def split: if_splits)
  then show "tree_inv t'"
    using wf_apply_addition [OF wf ok] add_view_closed [OF closed fits] by (simp add: tree_inv_def view)
qed

lemma tree_inv_markers: "tree_inv t \<Longrightarrow> tree_inv (foldl apply_marker t markers)"
proof (induction markers arbitrary: t)
  case Nil
  then show ?case by simp
next
  case (Cons m ms)
  have "tree_inv (apply_marker t m)"
    using Cons.prems
    by (cases m) (auto simp: tree_inv_def apply_marker_def dirs_closed_remove_subtree dirs_closed_remove_children
        split: if_splits)
  with Cons.IH show ?case by simp
qed

lemma tree_inv_new: "tree_inv Tree_new"
  by (simp add: tree_inv_def dirs_closed_def)

lemma tree_inv_apply_layer:
  assumes "tree_inv t" and "list_all member_ok members" and "apply_layer t members = Inr t'"
  shows "tree_inv t'"
proof -
  from assms(3) obtain markers additions where parts: "layer_parts members = Inr (markers, additions)"
    and adds: "for_each apply_addition (foldl apply_marker t markers) additions = Inr t'"
    by (auto simp: apply_layer_parts)
  from layer_parts_names [OF parts] assms(2) have "list_all member_ok additions" by (auto simp: list_all_iff)
  with tree_inv_markers [OF assms(1)] show ?thesis using adds by (rule addition.for_each_inv)
qed

lemma tree_inv_legal: "tree_inv t \<Longrightarrow> list_all legal_entry t"
proof (simp add: list_all_iff, clarify)
  fix p e
  assume inv: "tree_inv t" and "(p, e) \<in> set t"
  then have "entry_ok p e" by (simp add: tree_inv_def Tree_get_iff_mem)
  moreover then have "length p \<le> 1024"
    by (auto simp: entry_ok_def normal_path_def ROOT_PATH_def MAX_PATH_BYTES_def)
  ultimately show "legal_entry (p, e)"
    by (simp add: legal_entry_def entry_ok_def MAX_FILE_BYTES_def MAX_SYMLINK_TARGET_BYTES_def)
qed

section \<open>Parsed members\<close>

lemma validate_symlink_length: "validate_symlink_syntax l = Inr () \<Longrightarrow> length l \<le> MAX_SYMLINK_TARGET_BYTES"
  by (simp add: validate_symlink_syntax_def)

lemma mode_bits:
  assumes "\<not> mode > 0xfff" and "\<not> and mode 0xc00 \<noteq> 0"
  shows "(of_nat mode :: u32) \<le> 0xfff" and "and (of_nat mode :: u32) 0xc00 = 0"
proof -
  show "(of_nat mode :: u32) \<le> 0xfff"
    using assms(1) by (simp add: word_le_nat_alt unat_of_nat)
  have "and (of_nat mode :: u32) (of_nat 0xc00) = of_nat (and mode 0xc00)" by (simp only: of_nat_and_eq)
  with assms(2) show "and (of_nat mode :: u32) 0xc00 = 0" by simp
qed

lemma member_entry_ok:
  assumes "member_entry raw layer i mode uid gid mtime = Inr e" and "normal_path p"
    and "mode \<le> 0xfff" and "and mode 0xc00 = 0"
  shows "entry_ok p e"
proof (cases "tm_entry_type raw")
  case TarDirectory
  with assms show ?thesis
    by (auto simp: member_entry_def entry_ok_def Entry_directory_def file_bytes_def link_target_def)
next
  case TarSymlink
  with assms validate_symlink_length show ?thesis
    by (auto simp: member_entry_def entry_ok_def Entry_symlink_def SYMLINK_MODE_def file_bytes_def link_target_def)
next
  case TarRegular
  with assms show ?thesis
    by (auto simp: member_entry_def entry_ok_def Entry_file_def file_bytes_def link_target_def)
qed (use assms in \<open>simp_all add: member_entry_def\<close>)

definition members_inv :: "Member list \<times> nat \<Rightarrow> bool" where
  "members_inv = (\<lambda>(members, position). list_all member_ok members \<and> length members \<le> MAX_ENTRIES)"

interpretation parsing: fallible_step "parse_member layer" members_inv "\<lambda>_. True"
proof
  fix s s' :: "Member list \<times> nat" and x
  assume inv: "members_inv s" and ok: "parse_member layer s x = Inr s'"
  obtain members position where s: "s = (members, position)" by (cases s)
  obtain i raw where x: "x = (i, raw)" by (cases x)
  obtain ms' e' where s': "s' = (ms', e')" by (cases s')
  from ok obtain r name mode e uid gid mtime where
    name: "normalize_layer_path (tm_path_bytes r) = Inr name" and
    mode: "\<not> mode > 0xfff" "\<not> and mode 0xc00 \<noteq> 0" and
    e: "member_entry r layer i (of_nat mode) (of_nat uid) (of_nat gid) (of_nat mtime) = Inr e" and
    len: "\<not> length (members @ [\<lparr>m_name = name, m_entry = e\<rparr>]) > MAX_ENTRIES" and
    ms': "ms' = members @ [\<lparr>m_name = name, m_entry = e\<rparr>]"
    unfolding parse_member_def s x s' prod.case Let_def and_then_eq_Inr guard_eq_Inr map_err_eq_Inr sum.inject prod.inject
    by metis
  have "entry_ok name e"
    by (rule member_entry_ok [OF e normalize_normal [OF name] mode_bits [OF mode]])
  with inv len show "members_inv s'" by (simp add: members_inv_def s s' ms' member_ok_def)
qed

lemma parse_layer_members:
  assumes "parse_layer tar expanded layer = Inr members"
  shows "list_all member_ok members \<and> length members \<le> MAX_ENTRIES"
proof -
  from assms obtain entries e where
    "for_each (parse_member layer) ([], 0) (enumerate 0 entries) = Inr (members, e)"
    by (auto simp: parse_layer_def)
  then have "members_inv (members, e)"
    by (rule parsing.for_each_inv [rotated 2]) (simp_all add: members_inv_def list_all_iff)
  then show ?thesis by (simp add: members_inv_def)
qed

section \<open>Properties\<close>

text \<open>
  C1. Applying a layer to a tree in which every ancestor of an entry is a directory computes the overlay
  of the image specification: the resulting view is the lower view without what the whiteout and opaque
  markers hide, with the remaining additions on top, their entries exactly as given, everything below a
  non-directory addition hidden, and missing parents provided as default directories. The remaining
  additions are all but those below a non-directory addition of the same layer, which are dropped.
\<close>

theorem apply_layer_overlay:
  assumes "dirs_closed (Tree_get t)" and "apply_layer t members = Inr t'"
    and "layer_parts members = Inr (markers, additions)"
  shows "Tree_get t' = overlay (masked (Tree_get t) markers) (remaining additions)"
proof -
  from assms(2,3) have adds: "for_each apply_addition (foldl apply_marker t markers) additions = Inr t'"
    by (auto simp: apply_layer_parts)
  have view: "Tree_get (foldl apply_marker t markers) = masked (Tree_get t) markers" by (rule apply_marker_view)
  have "dirs_closed (Tree_get (foldl apply_marker t markers))"
    unfolding view using assms(1) by (rule masked_closed)
  from apply_additions_remaining [OF this adds] layer_parts_names [OF assms(3)]
  show ?thesis by (simp add: view)
qed

text \<open>
  C8. Layers keep the tree well formed: from a well-formed tree, applying the members of any
  parsed layer gives a tree with ordered distinct normal paths, in which every ancestor of an
  entry is a directory and every entry is a bounded file, link or directory without setuid or
  setgid bits.
\<close>

theorem apply_layer_invariant:
  assumes "tree_inv t" and "parse_layer tar expanded layer = Inr members" and "apply_layer t members = Inr t'"
  shows "tree_inv t'"
  using assms(1) parse_layer_members [OF assms(2), THEN conjunct1] assms(3) by (rule tree_inv_apply_layer)

section \<open>Witnesses\<close>

definition sample_members :: "Member list" where
  "sample_members =
     [\<lparr>m_name = as_bytes ''bin/.wh.sh'', m_entry = Entry_file [] 0x1a4 0 0 3\<rparr>,
      \<lparr>m_name = as_bytes ''bin/ash'', m_entry = Entry_file [7] 0x1ed 0 0 3\<rparr>]"

definition sample_additions :: "Member list" where
  "sample_additions = [\<lparr>m_name = as_bytes ''bin/ash'', m_entry = Entry_file [7] 0x1ed 0 0 3\<rparr>]"

lemma ascii_codes:
  "as_bytes ''bin/.wh.sh'' = [0x62, 0x69, 0x6e, 0x2f, 0x2e, 0x77, 0x68, 0x2e, 0x73, 0x68]"
  "as_bytes ''bin/ash'' = [0x62, 0x69, 0x6e, 0x2f, 0x61, 0x73, 0x68]"
  "as_bytes ''bin/sh'' = [0x62, 0x69, 0x6e, 0x2f, 0x73, 0x68]"
  "as_bytes ''bin'' = [0x62, 0x69, 0x6e]" "as_bytes ''.wh.'' = [0x2e, 0x77, 0x68, 0x2e]"
  "as_bytes ''.wh..wh..opq'' = [0x2e, 0x77, 0x68, 0x2e, 0x2e, 0x77, 0x68, 0x2e, 0x2e, 0x6f, 0x70, 0x71]"
  by (simp_all add: as_bytes_def)

lemma sample_parts: "layer_parts sample_members = Inr ([Whiteout (as_bytes ''bin/sh'')], sample_additions)"
  by (simp add: layer_parts_def sample_members_def sample_additions_def classify_member_def split_marker_def
      ascii_codes path_components_def dot_def dotdot_def parent_of_def ROOT_PATH_def OPAQUE_NAME_def
      WHITEOUT_PREFIX_def starts_with_def Entry_file_def is_empty_file_def join_path_def Let_def)

lemma bin_ancestors:
  "ancestors [0x62, 0x69, 0x6e, 0x2f, 0x61, 0x73, 0x68] = [[0x62, 0x69, 0x6e], [0x2e]]"
  "ancestors [0x62, 0x69, 0x6e, 0x2f, 0x73, 0x68] = [[0x62, 0x69, 0x6e], [0x2e]]"
  "ancestors [0x62, 0x69, 0x6e] = [[0x2e]]" "ancestors [0x2e] = []"
proof -
  show r: "ancestors [0x2e] = []" by (simp add: ancestors.simps parent_of_def ROOT_PATH_def)
  show b: "ancestors [0x62, 0x69, 0x6e] = [[0x2e]]"
    by (subst ancestors.simps) (simp add: parent_of_def ROOT_PATH_def r)
  show "ancestors [0x62, 0x69, 0x6e, 0x2f, 0x61, 0x73, 0x68] = [[0x62, 0x69, 0x6e], [0x2e]]"
    "ancestors [0x62, 0x69, 0x6e, 0x2f, 0x73, 0x68] = [[0x62, 0x69, 0x6e], [0x2e]]"
    by (subst ancestors.simps, simp add: parent_of_def ROOT_PATH_def b)+
qed

lemma sample_tree_closed: "dirs_closed (Tree_get sample_tree)"
  by (auto simp: dirs_closed_def sample_tree_eq Tree_get_def ascii_codes ROOT_PATH_def bin_ancestors
      Entry_default_directory_def Entry_directory_def split: if_splits)

lemma sample_layer_applies: "\<exists>t'. apply_layer sample_tree sample_members = Inr t'"
  unfolding apply_layer_parts sample_parts
  by (auto simp: sample_additions_def check_marker_def marker_chain_def bin_ancestors ascii_codes
      is_symlink_at_def sample_tree_eq Tree_get_def ROOT_PATH_def Entry_default_directory_def
      Entry_directory_def apply_marker_def apply_addition_def Let_def check_opaque_def remove_subtree_def
      Tree_retain_def subtree_prefix_def starts_with_def Tree_insert_default_directory_def Entry_file_def)

theorem apply_layer_overlay_witness:
  "\<exists>t'. apply_layer sample_tree sample_members = Inr t' \<and>
     Tree_get t' = overlay (masked (Tree_get sample_tree) [Whiteout (as_bytes ''bin/sh'')]) sample_additions"
proof -
  obtain t' where t': "apply_layer sample_tree sample_members = Inr t'" using sample_layer_applies by blast
  have "remaining sample_additions = sample_additions"
    by (simp add: remaining_def shadowed_def sample_additions_def ascii_codes bin_ancestors)
  with apply_layer_overlay [OF sample_tree_closed t' sample_parts] t' show ?thesis by auto
qed

definition sample_tar :: tar_reader where
  "sample_tar bs = Some [Some \<lparr>tm_size = 0, tm_raw_file_position = 512, tm_entry_type = TarDirectory,
     tm_path_bytes = as_bytes ''bin/'', tm_header_mode = Some 0x1ed, tm_header_uid = Some 0,
     tm_header_gid = Some 0, tm_header_mtime = Some 9, tm_header_size = Some 0, tm_link_name = None,
     tm_contents = None\<rparr>]"

lemma sample_layer_parses:
  "parse_layer sample_tar (replicate 1536 0) 0 =
     Inr [\<lparr>m_name = as_bytes ''bin'', m_entry = Entry_directory 0x1ed 0 0 9\<rparr>]"
proof -
  have pad: "round_up_512 0 = Some 0" by (simp add: round_up_512_def checked_add_def u64_max_eq)
  have path: "as_bytes ''bin/'' = [0x62, 0x69, 0x6e, 0x2f]" by (simp add: as_bytes_def)
  have name: "normalize_layer_path (as_bytes ''bin/'') = Inr (as_bytes ''bin'')"
    by (simp add: path ascii_codes normalize_layer_path_def dot_def dotdot_def MAX_PATH_BYTES_def Let_def)
  have fin: "get_range (replicate 1536 (0 :: u8)) 512 1536 = Some (replicate 1024 0)"
    by (simp add: get_range_def)
  show ?thesis
    by (simp add: parse_layer_def sample_tar_def parse_member_def pad name checked_add_def u64_max_eq u32_max_eq
        member_entry_def reject_declared_size_def MAX_ENTRIES_def Let_def fin list_ex_iff)
qed

lemma sample_layer_on_new:
  "\<exists>t'. apply_layer Tree_new [\<lparr>m_name = as_bytes ''bin'', m_entry = Entry_directory 0x1ed 0 0 9\<rparr>] = Inr t'"
  by (simp add: apply_layer_def classify_member_def split_marker_def ascii_codes path_components_def dot_def
      parent_of_def ROOT_PATH_def OPAQUE_NAME_def WHITEOUT_PREFIX_def starts_with_def Let_def
      apply_addition_def bin_ancestors Entry_directory_def)

theorem apply_layer_invariant_witness:
  "\<exists>members t'. parse_layer sample_tar (replicate 1536 0) 0 = Inr members \<and>
     apply_layer Tree_new members = Inr t' \<and> tree_inv t'"
  using apply_layer_invariant [OF tree_inv_new sample_layer_parses] sample_layer_parses sample_layer_on_new by blast

end
