(* ===== verification/Json.thy ===== *)
theory Json
  imports Base
begin

text \<open>
  JSON values as \<open>serde_json::Value\<close> has them: an object is its members in key order, a number is
  an integer or opaque.
\<close>

datatype json =
    JNull
  | JBool bool
  | JInt int
  | JFloat
  | JString string
  | JArray "json list"
  | JObject "(string \<times> json) list"

type_synonym json_object = "(string \<times> json) list"

fun json_as_str :: "json \<Rightarrow> string option" where
  "json_as_str (JString s) = Some s"
| "json_as_str _ = None"

fun json_as_array :: "json \<Rightarrow> json list option" where
  "json_as_array (JArray xs) = Some xs"
| "json_as_array _ = None"

fun json_as_object :: "json \<Rightarrow> json_object option" where
  "json_as_object (JObject m) = Some m"
| "json_as_object _ = None"

fun json_as_bool :: "json \<Rightarrow> bool option" where
  "json_as_bool (JBool b) = Some b"
| "json_as_bool _ = None"

fun json_as_i64 :: "json \<Rightarrow> int option" where
  "json_as_i64 (JInt i) = (if - (2 ^ 63) \<le> i \<and> i < 2 ^ 63 then Some i else None)"
| "json_as_i64 _ = None"

definition json_get :: "json \<Rightarrow> string \<Rightarrow> json option" where
  "json_get v key = Option.bind (json_as_object v) (\<lambda>m. map_of m key)"

definition non_null :: "json option \<Rightarrow> json option" where
  "non_null v = (case v of Some JNull \<Rightarrow> None | _ \<Rightarrow> v)"

end
