(* ===== verification/Oci_Image.thy ===== *)
theory Oci_Image
  imports Oci_Layer Json
begin

text \<open>
  The image graph of \<open>workload/oci.rs\<close>: descriptors, selection of the manifest, the bounded
  reads of the raw objects beneath an opened layout directory, the launch identity of the image
  configuration and the derivation of the canonical tree from the raw objects. The JSON parser,
  the gzip decoder, the tar reader and SHA-256 are parameters. The lemmas: every object of an
  accepted graph has the size and digest its descriptor names, the derived tree is well formed,
  rooted and free of escaping links, its launch satisfies the launch contract, and what the
  objects were read from does not matter afterwards.
\<close>

section \<open>Data and errors\<close>

definition LAYOUT_VERSION :: string where "LAYOUT_VERSION = ''1.0.0''"
definition MANIFEST_MEDIA_TYPE :: string where
  "MANIFEST_MEDIA_TYPE = ''application/vnd.oci.image.manifest.v1+json''"
definition CONFIG_MEDIA_TYPE :: string where
  "CONFIG_MEDIA_TYPE = ''application/vnd.oci.image.config.v1+json''"
definition PLAIN_LAYER_MEDIA_TYPE :: string where
  "PLAIN_LAYER_MEDIA_TYPE = ''application/vnd.oci.image.layer.v1.tar''"
definition GZIP_LAYER_MEDIA_TYPE :: string where
  "GZIP_LAYER_MEDIA_TYPE = ''application/vnd.oci.image.layer.v1.tar+gzip''"
definition MAX_LAYOUT_BYTES :: nat where "MAX_LAYOUT_BYTES = 2 ^ 20"
definition MAX_INDEX_BYTES :: nat where "MAX_INDEX_BYTES = 4 * 2 ^ 20"
definition MAX_MANIFEST_BYTES :: nat where "MAX_MANIFEST_BYTES = 2 ^ 20"
definition MAX_CONFIG_BYTES :: nat where "MAX_CONFIG_BYTES = 2 ^ 20"
definition MAX_LAYER_BYTES :: nat where "MAX_LAYER_BYTES = 64 * 2 ^ 20"

datatype (plugins only: code size) oci_error =
    OciTree tree_error
  | OciSpec spec_error
  | OciLayer oci_layer_error
  | MissingObject string
  | ObjectNotRegular string
  | ObjectTooLarge string
  | MalformedJson string
  | NotAnObject string
  | NoString string string
  | NotAString string
  | NoInteger string string
  | LayoutVersionUnsupported
  | SchemaVersionUnsupported string
  | MediaTypeUnsupported string
  | NoConfigDescriptor
  | NoLayerList
  | NoLayers
  | TooManyLayers
  | TooManyObjects
  | LayerCountMismatch
  | NoRootfs
  | RootfsNotLayers
  | NoDiffIds
  | DiffIdCount
  | DiffIdNotString
  | DiffIdMismatch nat
  | LayerNoMediaType nat
  | LayerMediaType nat
  | ExpansionLimit
  | MalformedGzip
  | DescriptorNegativeSize string
  | DescriptorUrls string
  | DescriptorData string
  | DescriptorSizeMismatch string
  | DescriptorDigestMismatch string
  | NoManifestList
  | NoManifestDescriptor
  | ManifestDescriptors nat
  | NoPlatform
  | NotLinuxAmd64 string
  | PlatformExtension string
  | UnsupportedLaunchField string
  | LaunchFieldType string
  | NoExecutable
  | ExecutableNotAbsolute
  | ExecutablePathInvalid
  | ExecutableNotFile
  | ExecutableNotExecutable
  | EnvironmentNotList
  | EnvironmentNotStrings

record LayerEvidence =
  le_media_type :: string
  le_digest :: string
  le_diff_id :: string
  le_bytes :: nat
  le_expanded_bytes :: nat

record OciObjects =
  oo_layout :: bytes
  oo_index :: bytes
  oo_manifest :: bytes
  oo_config :: bytes
  oo_layers :: "bytes list"
  oo_manifest_digest :: string

record OciGraph =
  og_tree :: tree
  og_launch :: LaunchIdentity
  og_layers :: "LayerEvidence list"

record Descriptor =
  d_media_type :: "string option"
  d_digest :: string
  d_size :: int

text \<open>
  The third-party code an image is read with. The gzip decoder is a stream: the bytes it yields
  before it ends, and whether it ends without an error.
\<close>

record oci_env =
  env_sha :: "bytes \<Rightarrow> bytes"
  env_json :: "bytes \<Rightarrow> json option"
  env_gunzip :: "bytes \<Rightarrow> bytes \<times> bool"
  env_tar :: tar_reader

section \<open>Objects beneath an opened directory\<close>

text \<open>
  What is found at a relative path beneath the opened root when no component is a symbolic
  link: a regular file with its contents, or something else. Reads are bounded.
\<close>

datatype host_node = RegularFile bytes | OtherNode

type_synonym host_root = "string \<Rightarrow> host_node option"

definition Root_read_file :: "host_root \<Rightarrow> string \<Rightarrow> nat \<Rightarrow> oci_error + bytes option" where
  "Root_read_file root path limit =
     (case root path of
        None \<Rightarrow> Inr None
      | Some OtherNode \<Rightarrow> Inl (ObjectNotRegular path)
      | Some (RegularFile data) \<Rightarrow>
          if length data > limit then Inl (ObjectTooLarge path) else Inr (Some data))"

definition read_source_file :: "host_root \<Rightarrow> string \<Rightarrow> nat \<Rightarrow> oci_error + bytes" where
  "read_source_file root path limit =
     and_then (Root_read_file root path limit) (\<lambda>data. ok_or (MissingObject path) data)"

section \<open>JSON helpers\<close>

definition parse_json :: "oci_env \<Rightarrow> bytes \<Rightarrow> string \<Rightarrow> oci_error + json" where
  "parse_json env bs what = ok_or (MalformedJson what) (env_json env bs)"

definition as_object :: "json \<Rightarrow> string \<Rightarrow> oci_error + json_object" where
  "as_object v what = ok_or (NotAnObject what) (json_as_object v)"

definition required_string :: "json_object \<Rightarrow> string \<Rightarrow> string \<Rightarrow> oci_error + string" where
  "required_string m key what = ok_or (NoString what key) (Option.bind (map_of m key) json_as_str)"

definition optional_string_value :: "json option \<Rightarrow> string \<Rightarrow> oci_error + string option" where
  "optional_string_value v what =
     (case non_null v of
        None \<Rightarrow> Inr None
      | Some x \<Rightarrow> and_then (ok_or (NotAString what) (json_as_str x)) (\<lambda>s. Inr (Some s)))"

definition optional_string :: "json_object \<Rightarrow> string \<Rightarrow> oci_error + string option" where
  "optional_string m key = optional_string_value (map_of m key) key"

definition required_integer :: "json_object \<Rightarrow> string \<Rightarrow> string \<Rightarrow> oci_error + int" where
  "required_integer m key what = ok_or (NoInteger what key) (Option.bind (map_of m key) json_as_i64)"

definition string_list :: "json option \<Rightarrow> string \<Rightarrow> oci_error + string list" where
  "string_list v what =
     (case non_null v of
        None \<Rightarrow> Inr []
      | Some x \<Rightarrow>
          and_then (ok_or (LaunchFieldType what) (json_as_array x)) (\<lambda>items.
            collect (\<lambda>item. ok_or (LaunchFieldType what) (json_as_str item)) items))"

section \<open>Descriptors\<close>

definition parse_descriptor :: "json \<Rightarrow> string \<Rightarrow> oci_error + Descriptor" where
  "parse_descriptor v what =
     and_then (as_object v (what @ '' descriptor'')) (\<lambda>m.
     and_then (required_string m ''digest'' (what @ '' descriptor'')) (\<lambda>digest.
     and_then (map_err OciSpec (parse_digest digest)) (\<lambda>hex.
     and_then (required_integer m ''size'' (what @ '' descriptor'')) (\<lambda>declared.
     if declared < 0 then Inl (DescriptorNegativeSize what)
     else and_then (optional_string m ''mediaType'') (\<lambda>media_type.
     if non_null (map_of m ''urls'') \<noteq> None then Inl (DescriptorUrls what)
     else if non_null (map_of m ''data'') \<noteq> None then Inl (DescriptorData what)
     else Inr \<lparr>d_media_type = media_type, d_digest = ''sha256:'' @ hex, d_size = declared\<rparr>)))))"

definition verify_descriptor :: "oci_env \<Rightarrow> Descriptor \<Rightarrow> bytes \<Rightarrow> string \<Rightarrow> oci_error + unit" where
  "verify_descriptor env descriptor data what =
     (if d_size descriptor \<noteq> int (length data) then Inl (DescriptorSizeMismatch what)
      else if d_digest descriptor \<noteq> ''sha256:'' @ sha256_bytes (env_sha env) data
      then Inl (DescriptorDigestMismatch what)
      else Inr ())"

definition blob_path :: "string \<Rightarrow> oci_error + string" where
  "blob_path digest =
     and_then (map_err OciSpec (parse_digest digest)) (\<lambda>hex. Inr (''blobs/sha256/'' @ hex))"

definition platform_extensions :: "string list" where
  "platform_extensions = [''variant'', ''os.version'', ''os.features'']"

definition names_digest :: "string \<Rightarrow> json \<Rightarrow> bool" where
  "names_digest manifest_digest v =
     (Option.bind (json_get v ''digest'') json_as_str = Some manifest_digest)"

definition select_manifest_descriptor :: "json \<Rightarrow> string \<Rightarrow> oci_error + Descriptor" where
  "select_manifest_descriptor index manifest_digest =
     and_then (as_object index ''index'') (\<lambda>m.
     and_then (required_integer m ''schemaVersion'' ''index'') (\<lambda>version.
     if version \<noteq> 2 then Inl (SchemaVersionUnsupported ''index'')
     else and_then (ok_or NoManifestList (Option.bind (map_of m ''manifests'') json_as_array)) (\<lambda>manifests.
     let selected = filter (names_digest manifest_digest) manifests
     in if selected = [] then Inl NoManifestDescriptor
        else if length selected > 1 then Inl (ManifestDescriptors (length selected))
        else and_then (parse_descriptor (selected ! 0) ''selected'') (\<lambda>descriptor.
        if d_media_type descriptor \<noteq> Some MANIFEST_MEDIA_TYPE then Inl (MediaTypeUnsupported ''selected'')
        else and_then (ok_or NoPlatform (Option.bind (json_get (selected ! 0) ''platform'') json_as_object)) (\<lambda>platform.
        if Option.bind (map_of platform ''architecture'') json_as_str \<noteq> Some ''amd64''
           \<or> Option.bind (map_of platform ''os'') json_as_str \<noteq> Some ''linux''
        then Inl (NotLinuxAmd64 ''descriptor'')
        else (case find (\<lambda>extension. map_of platform extension \<noteq> None) platform_extensions of
                Some extension \<Rightarrow> Inl (PlatformExtension extension)
              | None \<Rightarrow> Inr descriptor))))))"

section \<open>Reading the raw objects\<close>

definition read_layers :: "host_root \<Rightarrow> json list \<Rightarrow> oci_error + bytes list" where
  "read_layers root layers_value =
     collect (\<lambda>(position, v).
         and_then (parse_descriptor v (''layer '' @ dec position)) (\<lambda>descriptor.
         and_then (blob_path (d_digest descriptor)) (\<lambda>path.
         read_source_file root path MAX_LAYER_BYTES)))
       (enumerate 0 layers_value)"

definition read_objects :: "oci_env \<Rightarrow> host_root \<Rightarrow> string \<Rightarrow> oci_error + OciObjects" where
  "read_objects env root manifest_digest =
     and_then (read_source_file root ''oci-layout'' MAX_LAYOUT_BYTES) (\<lambda>layout.
     and_then (read_source_file root ''index.json'' MAX_INDEX_BYTES) (\<lambda>index.
     and_then (parse_json env index ''index'') (\<lambda>index_value.
     and_then (select_manifest_descriptor index_value manifest_digest) (\<lambda>descriptor.
     and_then (blob_path (d_digest descriptor)) (\<lambda>manifest_path.
     and_then (read_source_file root manifest_path MAX_MANIFEST_BYTES) (\<lambda>manifest.
     and_then (verify_descriptor env descriptor manifest ''manifest'') (\<lambda>_.
     and_then (parse_json env manifest ''manifest'') (\<lambda>manifest_value.
     and_then (as_object manifest_value ''manifest'') (\<lambda>manifest_object.
     and_then (ok_or NoConfigDescriptor (map_of manifest_object ''config'')) (\<lambda>config_value.
     and_then (parse_descriptor config_value ''config'') (\<lambda>config_descriptor.
     and_then (blob_path (d_digest config_descriptor)) (\<lambda>config_path.
     and_then (read_source_file root config_path MAX_CONFIG_BYTES) (\<lambda>config.
     and_then (verify_descriptor env config_descriptor config ''config'') (\<lambda>_.
     and_then (ok_or NoLayerList (Option.bind (map_of manifest_object ''layers'') json_as_array)) (\<lambda>layers_value.
     if length layers_value > MAX_LAYERS then Inl TooManyLayers
     else if 4 + length layers_value > MAX_RAW_OBJECTS then Inl TooManyObjects
     else and_then (read_layers root layers_value) (\<lambda>layers.
     Inr \<lparr>oo_layout = layout, oo_index = index, oo_manifest = manifest, oo_config = config,
          oo_layers = layers, oo_manifest_digest = manifest_digest\<rparr>))))))))))))))))"

section \<open>The launch of an image\<close>

definition check_unsupported :: "json_object \<Rightarrow> oci_error + unit" where
  "check_unsupported oci =
     and_then (case non_null (map_of oci ''Volumes'') of
                 None \<Rightarrow> Inr ()
               | Some volumes \<Rightarrow>
                   and_then (as_object volumes ''Volumes'') (\<lambda>m.
                     if m \<noteq> [] then Inl (UnsupportedLaunchField ''Volumes'') else Inr ())) (\<lambda>_.
     and_then (case non_null (map_of oci ''StopSignal'') of
                 None \<Rightarrow> Inr ()
               | Some signal \<Rightarrow>
                   and_then (ok_or (LaunchFieldType ''StopSignal'') (json_as_str signal)) (\<lambda>s.
                     if s \<noteq> [] then Inl (UnsupportedLaunchField ''StopSignal'') else Inr ())) (\<lambda>_.
     (case non_null (map_of oci ''ArgsEscaped'') of
        None \<Rightarrow> Inr ()
      | Some escaped \<Rightarrow>
          and_then (ok_or (LaunchFieldType ''ArgsEscaped'') (json_as_bool escaped)) (\<lambda>b.
            if b then Inl (UnsupportedLaunchField ''ArgsEscaped'') else Inr ()))))"

definition image_environment :: "json option \<Rightarrow> oci_error + string list" where
  "image_environment v =
     (case non_null v of
        None \<Rightarrow> Inr []
      | Some x \<Rightarrow>
          and_then (ok_or EnvironmentNotList (json_as_array x)) (\<lambda>items.
          and_then (collect (\<lambda>item. ok_or EnvironmentNotStrings (json_as_str item)) items) (\<lambda>entries.
          map_err OciSpec (normalize_environment entries))))"

definition image_executable :: "string list \<Rightarrow> tree \<Rightarrow> oci_error + bytes" where
  "image_executable arguments t =
     (let executable = arguments ! 0
      in if \<not> starts_with executable ''/'' then Inl ExecutableNotAbsolute
         else and_then (map_err (\<lambda>_. ExecutablePathInvalid)
                  (normalize_layer_path (as_bytes (trim_start CHR ''/'' executable)))) (\<lambda>relative.
         and_then (ok_or ExecutableNotFile (Tree_get t relative)) (\<lambda>entry.
         if e_kind entry \<noteq> File then Inl ExecutableNotFile
         else if and (e_mode entry) 0x49 = 0 then Inl ExecutableNotExecutable
         else Inr relative)))"

text \<open>\<open>String::from_utf8_lossy\<close> of a path that came from valid text is that text.\<close>

definition normalize_launch :: "json_object \<Rightarrow> tree \<Rightarrow> oci_error + LaunchIdentity" where
  "normalize_launch config t =
     and_then (required_string config ''architecture'' ''config'') (\<lambda>architecture.
     if architecture \<noteq> ''amd64'' then Inl (NotLinuxAmd64 ''config'')
     else and_then (required_string config ''os'' ''config'') (\<lambda>os.
     if os \<noteq> ''linux'' then Inl (NotLinuxAmd64 ''config'')
     else (case find (\<lambda>extension. map_of config extension \<noteq> None) platform_extensions of
       Some extension \<Rightarrow> Inl (PlatformExtension extension)
     | None \<Rightarrow>
     and_then (case non_null (map_of config ''config'') of
                 None \<Rightarrow> Inr []
               | Some v \<Rightarrow> as_object v ''config launch section'') (\<lambda>oci.
     and_then (check_unsupported oci) (\<lambda>_.
     and_then (string_list (map_of oci ''Entrypoint'') ''Entrypoint'') (\<lambda>entrypoint.
     and_then (string_list (map_of oci ''Cmd'') ''Cmd'') (\<lambda>cmd.
     if entrypoint @ cmd = [] then Inl NoExecutable
     else and_then (map_err OciSpec (normalize_arguments (entrypoint @ cmd) ''arguments'')) (\<lambda>arguments.
     and_then (image_executable arguments t) (\<lambda>relative.
     and_then (optional_string_value (map_of oci ''User'') ''User'') (\<lambda>user.
     and_then (map_err OciSpec (normalize_user user)) (\<lambda>(uid, gid).
     and_then (image_environment (map_of oci ''Env'')) (\<lambda>environment.
     and_then (optional_string_value (map_of oci ''WorkingDir'') ''WorkingDir'') (\<lambda>requested.
     and_then (map_err OciSpec (normalize_working_directory requested t)) (\<lambda>working_directory.
     let launch = \<lparr>li_executable = ''/'' @ text_of_bytes relative, li_arguments = arguments,
                    li_environment = environment, li_working_directory = working_directory,
                    li_uid = uid, li_gid = gid\<rparr>
     in and_then (map_err OciSpec (validate_launch_identity launch)) (\<lambda>_. Inr launch)))))))))))))))"

section \<open>Deriving the tree\<close>

definition expand_layer :: "oci_env \<Rightarrow> bytes \<Rightarrow> string \<Rightarrow> oci_error + bytes" where
  "expand_layer env data media_type =
     (if media_type = PLAIN_LAYER_MEDIA_TYPE then
        (if length data > MAX_EXPANDED_LAYER_BYTES then Inl ExpansionLimit else Inr data)
      else if media_type \<noteq> GZIP_LAYER_MEDIA_TYPE then Inl (LayerMediaType 0)
      else
        let (stream, ended) = env_gunzip env data;
            expanded = take (MAX_EXPANDED_LAYER_BYTES + 1) stream
        in if length stream < MAX_EXPANDED_LAYER_BYTES + 1 \<and> \<not> ended then Inl MalformedGzip
           else if length expanded > MAX_EXPANDED_LAYER_BYTES then Inl ExpansionLimit
           else Inr expanded)"

definition graph_layer ::
    "oci_env \<Rightarrow> json list \<Rightarrow> tree \<times> LayerEvidence list \<Rightarrow> nat \<times> json \<times> bytes \<Rightarrow>
       oci_error + tree \<times> LayerEvidence list" where
  "graph_layer env diff_ids = (\<lambda>(t, evidence) (position, v, data).
     and_then (parse_descriptor v (''layer '' @ dec position)) (\<lambda>descriptor.
     and_then (ok_or (LayerNoMediaType position) (d_media_type descriptor)) (\<lambda>media_type.
     if media_type \<noteq> PLAIN_LAYER_MEDIA_TYPE \<and> media_type \<noteq> GZIP_LAYER_MEDIA_TYPE
     then Inl (LayerMediaType position)
     else and_then (verify_descriptor env descriptor data (''layer '' @ dec position)) (\<lambda>_.
     and_then (expand_layer env data media_type) (\<lambda>expanded.
     and_then (ok_or DiffIdNotString (json_as_str (diff_ids ! position))) (\<lambda>diff_text.
     and_then (map_err OciSpec (parse_digest diff_text)) (\<lambda>diff_id.
     if sha256_bytes (env_sha env) expanded \<noteq> diff_id then Inl (DiffIdMismatch position)
     else and_then (map_err OciLayer (parse_layer (env_tar env) expanded position)) (\<lambda>members.
     and_then (map_err OciLayer (apply_layer t members)) (\<lambda>t.
     and_then (map_err OciTree (validate_canonical_tree t MAX_VIEW_ENTRIES MAX_EXPANDED_LAYER_BYTES)) (\<lambda>_.
     Inr (t, evidence @ [\<lparr>le_media_type = media_type, le_digest = d_digest descriptor,
            le_diff_id = ''sha256:'' @ diff_id, le_bytes = length data,
            le_expanded_bytes = length expanded\<rparr>])))))))))))"

definition parse_graph :: "oci_env \<Rightarrow> OciObjects \<Rightarrow> oci_error + OciGraph" where
  "parse_graph env objects =
     and_then (parse_json env (oo_layout objects) ''oci-layout'') (\<lambda>layout_value.
     and_then (as_object layout_value ''oci-layout'') (\<lambda>layout.
     and_then (required_string layout ''imageLayoutVersion'' ''oci-layout'') (\<lambda>layout_version.
     if layout_version \<noteq> LAYOUT_VERSION then Inl LayoutVersionUnsupported
     else and_then (parse_json env (oo_index objects) ''index'') (\<lambda>index_value.
     and_then (select_manifest_descriptor index_value (oo_manifest_digest objects)) (\<lambda>descriptor.
     and_then (verify_descriptor env descriptor (oo_manifest objects) ''manifest'') (\<lambda>_.
     and_then (parse_json env (oo_manifest objects) ''manifest'') (\<lambda>manifest_value.
     and_then (as_object manifest_value ''manifest'') (\<lambda>manifest.
     and_then (required_integer manifest ''schemaVersion'' ''manifest'') (\<lambda>schema.
     if schema \<noteq> 2 then Inl (SchemaVersionUnsupported ''manifest'')
     else and_then (required_string manifest ''mediaType'' ''manifest'') (\<lambda>manifest_media.
     if manifest_media \<noteq> MANIFEST_MEDIA_TYPE then Inl (MediaTypeUnsupported ''manifest'')
     else and_then (ok_or NoConfigDescriptor (map_of manifest ''config'')) (\<lambda>config_entry.
     and_then (parse_descriptor config_entry ''config'') (\<lambda>config_descriptor.
     and_then (verify_descriptor env config_descriptor (oo_config objects) ''config'') (\<lambda>_.
     if d_media_type config_descriptor \<noteq> Some CONFIG_MEDIA_TYPE then Inl (MediaTypeUnsupported ''config'')
     else and_then (parse_json env (oo_config objects) ''config'') (\<lambda>config_value.
     and_then (as_object config_value ''config'') (\<lambda>config.
     and_then (ok_or NoLayerList (Option.bind (map_of manifest ''layers'') json_as_array)) (\<lambda>layer_values.
     if layer_values = [] then Inl NoLayers
     else if length layer_values > MAX_LAYERS then Inl TooManyLayers
     else if length layer_values \<noteq> length (oo_layers objects) then Inl LayerCountMismatch
     else and_then (ok_or NoRootfs (non_null (map_of config ''rootfs''))) (\<lambda>rootfs_value.
     and_then (as_object rootfs_value ''config rootfs'') (\<lambda>rootfs.
     and_then (required_string rootfs ''type'' ''config rootfs'') (\<lambda>rootfs_type.
     if rootfs_type \<noteq> ''layers'' then Inl RootfsNotLayers
     else and_then (ok_or NoDiffIds (Option.bind (map_of rootfs ''diff_ids'') json_as_array)) (\<lambda>diff_ids.
     if length diff_ids \<noteq> length layer_values then Inl DiffIdCount
     else and_then (for_each (graph_layer env diff_ids) (Tree_new, [])
                      (enumerate 0 (zip layer_values (oo_layers objects)))) (\<lambda>(t, evidence).
     let t = Tree_insert_default_directory ROOT_PATH t
     in if map_option e_kind (Tree_get t ROOT_PATH) \<noteq> Some Directory then Inl (OciTree RootNotDirectory)
        else and_then (map_err OciTree (validate_symlinks t)) (\<lambda>_.
        and_then (normalize_launch config t) (\<lambda>launch.
        Inr \<lparr>og_tree = t, og_launch = launch, og_layers = evidence\<rparr>)))))))))))))))))))))))"

section \<open>Content addressing\<close>

lemma expand_layer_bounded: "expand_layer env data media_type = Inr expanded \<Longrightarrow> length expanded \<le> MAX_EXPANDED_LAYER_BYTES"
  by (auto simp: expand_layer_def Let_def split: if_splits prod.splits)

lemma parse_descriptor_digest:
  assumes "parse_descriptor v what = Inr d"
  shows "\<exists>raw hex. Option.bind (json_get v ''digest'') json_as_str = Some raw \<and> parse_digest raw = Inr hex
    \<and> d_digest d = ''sha256:'' @ hex"
  using assms
  unfolding parse_descriptor_def and_then_eq_Inr guard_eq_Inr map_err_eq_Inr required_string_def ok_or_eq_Inr
    as_object_def json_get_def
  by (metis Descriptor.select_convs(2) bind.bind_lunit sum.inject(2))

text \<open>The label a descriptor is parsed with only shows in errors.\<close>

lemma parse_descriptor_label:
  "parse_descriptor v what = Inr d \<Longrightarrow> parse_descriptor v what' = Inr e \<Longrightarrow> d = e"
  unfolding parse_descriptor_def and_then_eq_Inr guard_eq_Inr map_err_eq_Inr required_string_def
    required_integer_def ok_or_eq_Inr as_object_def
  by (metis option.inject sum.inject(2))

lemma verify_descriptor_iff:
  "verify_descriptor env d data what = Inr () \<longleftrightarrow>
     d_size d = int (length data) \<and> d_digest d = ''sha256:'' @ sha256_bytes (env_sha env) data"
  by (simp add: verify_descriptor_def)

text \<open>No two of the given objects collide under the digest of the environment.\<close>

definition collision_free :: "oci_env \<Rightarrow> bytes set \<Rightarrow> bool" where
  "collision_free env X \<longleftrightarrow> inj_on (env_sha env) X"

lemma same_content:
  assumes "collision_free env X" and "x \<in> X" and "y \<in> X"
    and "verify_descriptor env d x w = Inr ()" and "verify_descriptor env e y v = Inr ()" and "d_digest d = d_digest e"
  shows "x = y"
proof -
  from assms(4-6) have "hex_text (env_sha env x) = hex_text (env_sha env y)"
    by (simp add: verify_descriptor_iff sha256_bytes_def)
  then show ?thesis using assms(1-3) by (auto simp: hex_text_inject collision_free_def inj_on_def)
qed

lemma select_manifest_digest:
  assumes "select_manifest_descriptor index digest = Inr d"
  shows "\<exists>hex. parse_digest digest = Inr hex \<and> d_digest d = ''sha256:'' @ hex"
proof -
  from assms obtain manifests where ne: "filter (names_digest digest) manifests \<noteq> []"
    and d: "parse_descriptor (filter (names_digest digest) manifests ! 0) ''selected'' = Inr d"
    unfolding select_manifest_descriptor_def Let_def and_then_eq_Inr guard_eq_Inr
    by (auto split: option.splits)
  from ne have "filter (names_digest digest) manifests ! 0 \<in> set (filter (names_digest digest) manifests)"
    by (intro nth_mem) simp
  then have "names_digest digest (filter (names_digest digest) manifests ! 0)" by simp
  with parse_descriptor_digest [OF d] show ?thesis by (auto simp: names_digest_def)
qed

text \<open>The part of \<open>parse_graph\<close> after the manifest is known to be the selected one.\<close>

definition derive_graph :: "oci_env \<Rightarrow> bytes \<Rightarrow> bytes \<Rightarrow> bytes list \<Rightarrow> OciGraph \<Rightarrow> bool" where
  "derive_graph env manifest_bytes config_bytes layers graph \<longleftrightarrow>
     (\<exists>manifest config_entry cd config vs rootfs diff_ids t evidence.
        Option.bind (env_json env manifest_bytes) json_as_object = Some manifest
      \<and> map_of manifest ''config'' = Some config_entry
      \<and> parse_descriptor config_entry ''config'' = Inr cd
      \<and> verify_descriptor env cd config_bytes ''config'' = Inr ()
      \<and> Option.bind (env_json env config_bytes) json_as_object = Some config
      \<and> Option.bind (map_of manifest ''layers'') json_as_array = Some vs
      \<and> vs \<noteq> [] \<and> length vs \<le> MAX_LAYERS \<and> length vs = length layers
      \<and> Option.bind (map_of config ''rootfs'') json_as_object = Some rootfs
      \<and> Option.bind (map_of rootfs ''diff_ids'') json_as_array = Some diff_ids
      \<and> for_each (graph_layer env diff_ids) (Tree_new, []) (enumerate 0 (zip vs layers)) = Inr (t, evidence)
      \<and> og_tree graph = Tree_insert_default_directory ROOT_PATH t
      \<and> map_option e_kind (Tree_get (og_tree graph) ROOT_PATH) = Some Directory
      \<and> validate_symlinks (og_tree graph) = Inr ()
      \<and> normalize_launch config (og_tree graph) = Inr (og_launch graph)
      \<and> og_layers graph = evidence)"

lemma non_null_Some: "non_null v = Some x \<Longrightarrow> v = Some x"
  by (auto simp: non_null_def split: option.splits json.splits)

lemma parse_graph_derive:
  assumes "parse_graph env objects = Inr graph"
  shows "\<exists>index d. select_manifest_descriptor index (oo_manifest_digest objects) = Inr d
      \<and> verify_descriptor env d (oo_manifest objects) ''manifest'' = Inr ()
      \<and> derive_graph env (oo_manifest objects) (oo_config objects) (oo_layers objects) graph"
proof -
  note chain = assms [unfolded parse_graph_def and_then_eq_Inr guard_eq_Inr Let_def map_err_eq_Inr parse_json_def
      ok_or_eq_Inr as_object_def split_paired_Ex prod.case not_less not_not ex_unit sum.inject]
  show ?thesis using chain unfolding derive_graph_def
    apply (elim exE conjE)
    apply hypsubst
    subgoal by (intro exI conjI) (assumption | simp | (drule non_null_Some, simp))+
    done
qed

section \<open>The layers of a graph\<close>

definition layer_evidence_ok :: "oci_env \<Rightarrow> bytes \<Rightarrow> LayerEvidence \<Rightarrow> bool" where
  "layer_evidence_ok env data ev \<longleftrightarrow>
     (\<exists>expanded. expand_layer env data (le_media_type ev) = Inr expanded
       \<and> le_digest ev = ''sha256:'' @ sha256_bytes (env_sha env) data
       \<and> le_diff_id ev = ''sha256:'' @ sha256_bytes (env_sha env) expanded
       \<and> le_bytes ev = length data \<and> le_expanded_bytes ev = length expanded)"

definition layer_named :: "oci_env \<Rightarrow> json \<Rightarrow> bytes \<Rightarrow> bool" where
  "layer_named env v data \<longleftrightarrow>
     (\<exists>d what. parse_descriptor v what = Inr d \<and> verify_descriptor env d data what = Inr ())"

lemma graph_layer_step:
  assumes "graph_layer env diff_ids (t, evidence) (position, v, data) = Inr (t', evidence')"
  shows "\<exists>ev members expanded. evidence' = evidence @ [ev] \<and> layer_evidence_ok env data ev \<and> layer_named env v data
    \<and> parse_layer (env_tar env) expanded position = Inr members \<and> apply_layer t members = Inr t'
    \<and> validate_canonical_tree t' MAX_VIEW_ENTRIES MAX_EXPANDED_LAYER_BYTES = Inr ()"
  using assms
  unfolding graph_layer_def prod.case and_then_eq_Inr guard_eq_Inr map_err_eq_Inr ex_unit not_not
    sum.inject prod.inject layer_evidence_ok_def layer_named_def
  apply (elim exE conjE)
  apply hypsubst
  subgoal by (intro exI conjI) (assumption | simp add: verify_descriptor_iff)+
  done

lemma for_each_graph_layer:
  assumes "for_each (graph_layer env diff_ids) (t, evidence) (enumerate k (zip vs layers)) = Inr (t', evidence')"
    and "length vs = length layers"
  shows "\<exists>evs. evidence' = evidence @ evs \<and> list_all2 (layer_evidence_ok env) layers evs
    \<and> list_all2 (layer_named env) vs layers"
  using assms(2,1)
proof (induction vs layers arbitrary: k t evidence rule: list_induct2)
  case Nil
  then show ?case by simp
next
  case (Cons v vs data layers)
  then obtain s where s: "graph_layer env diff_ids (t, evidence) (k, v, data) = Inr s"
    and rest: "for_each (graph_layer env diff_ids) s (enumerate (Suc k) (zip vs layers)) = Inr (t', evidence')"
    by auto
  obtain u ev' where u: "s = (u, ev')" by (cases s)
  from graph_layer_step [OF s [unfolded u]] obtain ev where "ev' = evidence @ [ev]"
    "layer_evidence_ok env data ev" "layer_named env v data" by blast
  moreover from Cons.IH [OF rest [unfolded u]] obtain evs where "evidence' = ev' @ evs"
    "list_all2 (layer_evidence_ok env) layers evs" "list_all2 (layer_named env) vs layers" by blast
  ultimately show ?case by (intro exI [of _ "ev # evs"]) simp
qed

interpretation layering: fallible_step "graph_layer env diff_ids" "\<lambda>s. tree_inv (fst s)" "\<lambda>_. True"
proof
  fix s s' :: "tree \<times> LayerEvidence list" and x :: "nat \<times> json \<times> bytes"
  assume inv: "tree_inv (fst s)" and ok: "graph_layer env diff_ids s x = Inr s'"
  obtain t ev position v data t' ev' where "s = (t, ev)" "x = (position, v, data)" "s' = (t', ev')"
    by (metis surj_pair)
  with graph_layer_step ok inv parse_layer_members tree_inv_apply_layer show "tree_inv (fst s')"
    by (metis fst_conv)
qed

lemma tree_inv_insert_root:
  assumes "tree_inv t" and "map_option e_kind (Tree_get (Tree_insert_default_directory ROOT_PATH t) ROOT_PATH) = Some Directory"
  shows "tree_inv (Tree_insert_default_directory ROOT_PATH t)"
  using assms dirs_closed_insert_default [of t ROOT_PATH] entry_ok_default [of ROOT_PATH]
  by (auto simp: tree_inv_def wf_tree_insert_default normal_path_def split: if_splits)


lemma normalize_launch_sound:
  assumes "normalize_launch config t = Inr launch"
  shows "validate_launch_identity launch = Inr () \<and>
    (\<exists>path e. li_executable launch = ''/'' @ text_of_bytes path \<and> Tree_get t path = Some e \<and> e_kind e = File
       \<and> and (e_mode e) 0x49 \<noteq> 0)"
proof -
  from assms obtain arguments path where
    path: "image_executable arguments t = Inr path" and exe: "li_executable launch = ''/'' @ text_of_bytes path" and
    valid: "validate_launch_identity launch = Inr ()"
    unfolding normalize_launch_def Let_def and_then_eq_Inr guard_eq_Inr map_err_eq_Inr
    by (auto split: option.splits)
  from path obtain e where "Tree_get t path = Some e" "e_kind e = File" "and (e_mode e) 0x49 \<noteq> 0"
    unfolding image_executable_def Let_def and_then_eq_Inr guard_eq_Inr map_err_eq_Inr ok_or_eq_Inr by auto
  with exe valid show ?thesis by blast
qed

lemma layers_same:
  assumes "list_all2 (layer_named env) vs xs" and "list_all2 (layer_named env) vs ys"
    and "collision_free env (set xs \<union> set ys)"
  shows "xs = ys"
proof (rule nth_equalityI)
  from assms(1,2) show len: "length xs = length ys" by (simp add: list_all2_conv_all_nth)
  fix i
  assume i: "i < length xs"
  with assms(1,2) len have "layer_named env (vs ! i) (xs ! i)" "layer_named env (vs ! i) (ys ! i)"
    by (simp_all add: list_all2_conv_all_nth)
  then obtain d w e v where "verify_descriptor env d (xs ! i) w = Inr ()" "verify_descriptor env e (ys ! i) v = Inr ()"
    "d_digest d = d_digest e"
    unfolding layer_named_def by (metis parse_descriptor_label)
  with same_content [OF assms(3)] i len show "xs ! i = ys ! i" by (metis UnCI nth_mem)
qed

lemma derive_graph_same:
  assumes "derive_graph env m c xs g" and "derive_graph env m c' ys h"
    and free: "collision_free env ({c, c'} \<union> set xs \<union> set ys)"
  shows "g = h"
proof -
  from assms(1) obtain manifest ce cd vs where
    m: "Option.bind (env_json env m) json_as_object = Some manifest" "map_of manifest ''config'' = Some ce" and
    cd: "parse_descriptor ce ''config'' = Inr cd" "verify_descriptor env cd c ''config'' = Inr ()" and
    vs: "Option.bind (map_of manifest ''layers'') json_as_array = Some vs" and
    named: "list_all2 (layer_named env) vs xs"
    unfolding derive_graph_def by (meson for_each_graph_layer)
  from assms(2) m cd(1) vs have cd': "verify_descriptor env cd c' ''config'' = Inr ()" and
    named': "list_all2 (layer_named env) vs ys"
    unfolding derive_graph_def by (auto dest: for_each_graph_layer)
  have c: "c = c'" by (rule same_content [OF free _ _ cd(2) cd']) auto
  have xs: "xs = ys"
    by (rule layers_same [OF named named']) (rule inj_on_subset [OF free [unfolded collision_free_def], folded collision_free_def], auto)
  show ?thesis
    using assms(1,2) unfolding derive_graph_def c xs by (auto intro: OciGraph.equality)
qed

lemma parse_graph_same:
  assumes "parse_graph env a = Inr g" and "parse_graph env b = Inr h"
    and "oo_manifest_digest a = oo_manifest_digest b"
    and free: "collision_free env ({oo_manifest a, oo_manifest b, oo_config a, oo_config b}
           \<union> set (oo_layers a) \<union> set (oo_layers b))"
  shows "g = h"
proof -
  from parse_graph_derive [OF assms(1)] obtain i d where
    d: "select_manifest_descriptor i (oo_manifest_digest a) = Inr d"
      "verify_descriptor env d (oo_manifest a) ''manifest'' = Inr ()" and
    g: "derive_graph env (oo_manifest a) (oo_config a) (oo_layers a) g" by blast
  from parse_graph_derive [OF assms(2)] obtain j e where
    e: "select_manifest_descriptor j (oo_manifest_digest b) = Inr e"
      "verify_descriptor env e (oo_manifest b) ''manifest'' = Inr ()" and
    h: "derive_graph env (oo_manifest b) (oo_config b) (oo_layers b) h" by blast
  have "d_digest d = d_digest e"
    using select_manifest_digest [OF d(1)] select_manifest_digest [OF e(1)] assms(3) by auto
  with same_content [OF free _ _ d(2) e(2)] have "oo_manifest a = oo_manifest b" by simp
  with g have "derive_graph env (oo_manifest b) (oo_config a) (oo_layers a) g" by simp
  then show ?thesis using h
    by (rule derive_graph_same)
      (rule inj_on_subset [OF free [unfolded collision_free_def], folded collision_free_def], auto)
qed

section \<open>Properties\<close>

text \<open>
  C25. What an accepted image graph is: the derived tree is well formed (ordered distinct normal
  paths, directories above every entry, bounded entries without setuid or setgid bits) and rooted
  at a directory, none of its links escapes it, the launch satisfies the launch contract, and its
  executable names a regular file of the tree with an execute bit.
\<close>

theorem parse_graph_sound:
  assumes "parse_graph env objects = Inr graph"
  shows "tree_inv (og_tree graph)
    \<and> map_option e_kind (Tree_get (og_tree graph) ROOT_PATH) = Some Directory
    \<and> validate_symlinks (og_tree graph) = Inr ()
    \<and> validate_launch_identity (og_launch graph) = Inr ()
    \<and> (\<exists>path e. li_executable (og_launch graph) = ''/'' @ text_of_bytes path
         \<and> Tree_get (og_tree graph) path = Some e \<and> e_kind e = File \<and> and (e_mode e) 0x49 \<noteq> 0)"
proof -
  from parse_graph_derive [OF assms] obtain config layers diff_ids t evidence vs where
    loop: "for_each (graph_layer env diff_ids) (Tree_new, []) (enumerate 0 (zip vs layers)) = Inr (t, evidence)" and
    tree: "og_tree graph = Tree_insert_default_directory ROOT_PATH t" and
    root: "map_option e_kind (Tree_get (og_tree graph) ROOT_PATH) = Some Directory" and
    links: "validate_symlinks (og_tree graph) = Inr ()" and
    launch: "normalize_launch config (og_tree graph) = Inr (og_launch graph)"
    unfolding derive_graph_def by blast
  have "tree_inv t"
    using layering.for_each_inv [OF _ _ loop] by (simp add: tree_inv_new list_all_iff)
  then have "tree_inv (og_tree graph)" using root unfolding tree by (rule tree_inv_insert_root)
  then show ?thesis using root links normalize_launch_sound [OF launch] by blast
qed

text \<open>
  The evidence of an accepted graph describes the layers it was derived from: one record per
  raw layer, in order, with the digest and size of the raw bytes, and the digest and size of the
  expanded bytes, which are within the expansion limit.
\<close>

theorem parse_graph_evidence:
  assumes "parse_graph env objects = Inr graph"
  shows "list_all2 (\<lambda>data ev. \<exists>expanded. expand_layer env data (le_media_type ev) = Inr expanded
         \<and> le_digest ev = ''sha256:'' @ sha256_bytes (env_sha env) data
         \<and> le_diff_id ev = ''sha256:'' @ sha256_bytes (env_sha env) expanded
         \<and> le_bytes ev = length data \<and> le_expanded_bytes ev = length expanded
         \<and> length expanded \<le> MAX_EXPANDED_LAYER_BYTES)
       (oo_layers objects) (og_layers graph)
     \<and> oo_layers objects \<noteq> [] \<and> length (oo_layers objects) \<le> MAX_LAYERS"
proof -
  from parse_graph_derive [OF assms] obtain diff_ids t vs where
    loop: "for_each (graph_layer env diff_ids) (Tree_new, []) (enumerate 0 (zip vs (oo_layers objects)))
      = Inr (t, og_layers graph)" and
    len: "length vs = length (oo_layers objects)" "vs \<noteq> []" "length vs \<le> MAX_LAYERS"
    unfolding derive_graph_def by blast
  from for_each_graph_layer [OF loop len(1)]
  have "list_all2 (layer_evidence_ok env) (oo_layers objects) (og_layers graph)" by simp
  then have "list_all2 (\<lambda>data ev. \<exists>expanded. expand_layer env data (le_media_type ev) = Inr expanded
         \<and> le_digest ev = ''sha256:'' @ sha256_bytes (env_sha env) data
         \<and> le_diff_id ev = ''sha256:'' @ sha256_bytes (env_sha env) expanded
         \<and> le_bytes ev = length data \<and> le_expanded_bytes ev = length expanded
         \<and> length expanded \<le> MAX_EXPANDED_LAYER_BYTES)
       (oo_layers objects) (og_layers graph)"
    by (rule list_all2_mono) (auto simp: layer_evidence_ok_def dest: expand_layer_bounded)
  with len show ?thesis by auto
qed

text \<open>
  C24. An image is content addressed: two object closures read for the same manifest digest that
  are both accepted give the same tree, launch and layer evidence, whatever the layout and index
  files they came with, as long as the digest has no collision among their manifests,
  configurations and layers.
\<close>

theorem parse_graph_content_addressed:
  assumes "parse_graph env a = Inr g" and "parse_graph env b = Inr h"
    and "oo_manifest_digest a = oo_manifest_digest b"
    and "inj_on (env_sha env) ({oo_manifest a, oo_manifest b, oo_config a, oo_config b}
           \<union> set (oo_layers a) \<union> set (oo_layers b))"
  shows "g = h"
  using parse_graph_same [OF assms(1,2,3)] assms(4) unfolding collision_free_def by blast

section \<open>Witnesses\<close>

lemma parse_digest_printed: "length bs = 32 \<Longrightarrow> parse_digest (''sha256:'' @ hex_text bs) = Inr (hex_text bs)"
proof -
  assume len: "length bs = 32"
  have sub: "c \<in> set ''0123456789abcdef''" if "c \<in> set (hex_text bs)" for c using set_hex_text that by blast
  have low: "to_ascii_lowercase c = c" if "c \<in> set (hex_text bs)" for c
    using sub [OF that] by (auto simp: to_ascii_lowercase_def)
  have "list_all is_ascii_hexdigit (hex_text bs)"
    using sub by (fastforce simp: list_all_iff is_ascii_hexdigit_def)
  moreover have "map to_ascii_lowercase (hex_text bs) = hex_text bs" by (rule map_idI) (rule low)
  ultimately show ?thesis
    using len by (simp add: parse_digest_def strip_prefix_def starts_with_def)
qed

definition image_tar :: tar_reader where
  "image_tar bs = Some [Some \<lparr>tm_size = 0, tm_raw_file_position = 512, tm_entry_type = TarRegular,
     tm_path_bytes = as_bytes ''bin/ash'', tm_header_mode = Some 0x1ed, tm_header_uid = Some 0,
     tm_header_gid = Some 0, tm_header_mtime = Some 9, tm_header_size = Some 0, tm_link_name = None,
     tm_contents = Some []\<rparr>]"

definition image_layer :: bytes where
  "image_layer = replicate 1536 0"

definition digest_text :: "bytes \<Rightarrow> json" where
  "digest_text bs = JString (''sha256:'' @ sha256_bytes toy_sha bs)"

definition image_descriptor :: "string \<Rightarrow> bytes \<Rightarrow> json_object" where
  "image_descriptor media data = [(''mediaType'', JString media), (''digest'', digest_text data),
     (''size'', JInt (int (length data)))]"

definition image_platform :: json where
  "image_platform = JObject [(''architecture'', JString ''amd64''), (''os'', JString ''linux'')]"

definition image_config :: json where
  "image_config = JObject [(''architecture'', JString ''amd64''), (''os'', JString ''linux''),
     (''rootfs'', JObject [(''type'', JString ''layers''), (''diff_ids'', JArray [digest_text image_layer])]),
     (''config'', JObject [(''Entrypoint'', JArray [JString ''/bin/ash'']), (''User'', JString ''7:8'')])]"

definition image_manifest :: json where
  "image_manifest = JObject [(''schemaVersion'', JInt 2), (''mediaType'', JString MANIFEST_MEDIA_TYPE),
     (''config'', JObject (image_descriptor CONFIG_MEDIA_TYPE [4])),
     (''layers'', JArray [JObject (image_descriptor PLAIN_LAYER_MEDIA_TYPE image_layer)])]"

definition image_index :: json where
  "image_index = JObject [(''schemaVersion'', JInt 2),
     (''manifests'', JArray [JObject (image_descriptor MANIFEST_MEDIA_TYPE [3] @ [(''platform'', image_platform)])])]"

definition image_json :: "bytes \<Rightarrow> json option" where
  "image_json bs =
     (if bs = [1] \<or> bs = [1, 1] then Some (JObject [(''imageLayoutVersion'', JString LAYOUT_VERSION)])
      else if bs = [2] then Some image_index
      else if bs = [3] then Some image_manifest
      else if bs = [4] then Some image_config
      else None)"

definition image_env :: oci_env where
  "image_env = \<lparr>env_sha = toy_sha, env_json = image_json, env_gunzip = (\<lambda>bs. (bs, True)), env_tar = image_tar\<rparr>"

definition image_objects :: "bytes \<Rightarrow> OciObjects" where
  "image_objects layout = \<lparr>oo_layout = layout, oo_index = [2], oo_manifest = [3], oo_config = [4],
     oo_layers = [image_layer], oo_manifest_digest = ''sha256:'' @ sha256_bytes toy_sha [3]\<rparr>"

definition image_members :: "Member list" where
  "image_members = [\<lparr>m_name = as_bytes ''bin/ash'', m_entry = Entry_file [] 0x1ed 0 0 9\<rparr>]"

definition image_tree :: tree where
  "image_tree = [(ROOT_PATH, Entry_default_directory), (as_bytes ''bin'', Entry_default_directory),
     (as_bytes ''bin/ash'', Entry_file [] 0x1ed 0 0 9)]"

lemma ash_normal: "normalize_layer_path (as_bytes ''bin/ash'') = Inr (as_bytes ''bin/ash'')"
  by (simp add: ascii_codes normalize_layer_path_def dot_def dotdot_def MAX_PATH_BYTES_def Let_def)

lemma image_layer_parses: "parse_layer image_tar image_layer 0 = Inr image_members"
proof -
  have pad: "round_up_512 0 = Some 0" by (simp add: round_up_512_def checked_add_def u64_max_eq)
  have fin: "get_range image_layer 512 1536 = Some (replicate 1024 0)"
    by (simp add: get_range_def image_layer_def)
  show ?thesis
    by (simp add: parse_layer_def image_tar_def parse_member_def pad ash_normal checked_add_def u64_max_eq u32_max_eq
        member_entry_def MAX_FILE_BYTES_def MAX_ENTRIES_def Let_def fin list_ex_iff image_members_def)
qed

lemma image_layer_applies: "apply_layer Tree_new image_members = Inr image_tree"
  by (simp add: apply_layer_def image_members_def image_tree_def classify_member_def split_marker_def ascii_codes
      path_components_def dot_def parent_of_def ROOT_PATH_def OPAQUE_NAME_def WHITEOUT_PREFIX_def starts_with_def
      Let_def apply_addition_def bin_ancestors Entry_file_def Tree_new_def Tree_get_def Tree_insert_default_directory_def
      remove_subtree_def Tree_retain_def subtree_prefix_def is_empty_file_def Entry_default_directory_def
      Entry_directory_def)

lemma parse_image_descriptor:
  assumes "map_of m ''digest'' = Some (digest_text data)" and "map_of m ''size'' = Some (JInt (int (length data)))"
    and "map_of m ''mediaType'' = Some (JString media)" and "map_of m ''urls'' = None" and "map_of m ''data'' = None"
    and "int (length data) < 2 ^ 63"
  shows "parse_descriptor (JObject m) what =
    Inr \<lparr>d_media_type = Some media, d_digest = ''sha256:'' @ sha256_bytes toy_sha data, d_size = int (length data)\<rparr>"
  using assms parse_digest_printed [OF length_toy_sha, of data]
  by (simp add: parse_descriptor_def as_object_def required_string_def digest_text_def sha256_bytes_def
      required_integer_def optional_string_def optional_string_value_def non_null_def)

lemma image_selected:
  "select_manifest_descriptor image_index (''sha256:'' @ sha256_bytes toy_sha [3]) =
     Inr \<lparr>d_media_type = Some MANIFEST_MEDIA_TYPE, d_digest = ''sha256:'' @ sha256_bytes toy_sha [3], d_size = 1\<rparr>"
proof -
  let ?m = "JObject (image_descriptor MANIFEST_MEDIA_TYPE [3] @ [(''platform'', image_platform)])"
  have names: "names_digest (''sha256:'' @ sha256_bytes toy_sha [3]) ?m"
    by (simp add: names_digest_def json_get_def image_descriptor_def digest_text_def)
  have parse: "parse_descriptor ?m ''selected'' =
    Inr \<lparr>d_media_type = Some MANIFEST_MEDIA_TYPE, d_digest = ''sha256:'' @ sha256_bytes toy_sha [3], d_size = 1\<rparr>"
    using parse_image_descriptor [of "image_descriptor MANIFEST_MEDIA_TYPE [3] @ [(''platform'', image_platform)]" "[3]"
        MANIFEST_MEDIA_TYPE "''selected''"] by (simp add: image_descriptor_def)
  have plat: "Option.bind (json_get ?m ''platform'') json_as_object =
      Some [(''architecture'', JString ''amd64''), (''os'', JString ''linux'')]"
    by (simp add: json_get_def image_descriptor_def image_platform_def)
  have index: "json_as_object image_index = Some [(''schemaVersion'', JInt 2), (''manifests'', JArray [?m])]"
    by (simp add: image_index_def)
  show ?thesis
    by (simp add: select_manifest_descriptor_def as_object_def index required_integer_def names parse plat Let_def
        platform_extensions_def del: append.simps)
qed


lemma image_symlinks: "validate_symlinks image_tree = Inr ()"
  by (simp add: validate_symlinks_def image_tree_def Entry_default_directory_def Entry_directory_def Entry_file_def)

definition image_launch :: LaunchIdentity where
  "image_launch = \<lparr>li_executable = ''/bin/ash'', li_arguments = [''/bin/ash''], li_environment = [],
     li_working_directory = ''/'', li_uid = 7, li_gid = 8\<rparr>"

lemma image_launch_valid: "validate_launch_identity image_launch = Inr ()"
  by (simp add: validate_launch_iff launch_ok_def image_launch_def launch_path_ok_def argument_ok_def env_ok_def
      credential_ok_def RESERVED_OWNER_def MAX_ARGUMENTS_def MAX_ARGUMENT_BYTES_def MAX_PATH_BYTES_def
      MAX_ENVIRONMENT_ENTRIES_def)


lemma image_get:
  "Tree_get image_tree (as_bytes ''bin/ash'') = Some (Entry_file [] 0x1ed 0 0 9)"
  "Tree_get image_tree ROOT_PATH = Some Entry_default_directory"
  by (simp_all add: image_tree_def Tree_get_def ascii_codes ROOT_PATH_def)

lemma image_working_directory: "normalize_working_directory None image_tree = Inr ''/''"
  by (simp add: normalize_working_directory_def working_directory_text_def working_directory_relative_def
      starts_with_def trim_matches_def trim_start_def is_symlink_at_def image_get Let_def
      Entry_default_directory_def Entry_directory_def)

lemma image_user: "normalize_user (Some ''7:8'') = Inr (7, 8)"
proof -
  have "parse_user (dec (unat (7 :: u32)) @ '':'' @ dec (unat (8 :: u32))) = Inr (7, 8)"
    by (rule parse_user_printed) (simp_all add: credential_ok_def RESERVED_OWNER_def)
  moreover have "dec (unat (7 :: u32)) @ '':'' @ dec (unat (8 :: u32)) = ''7:8''"
    by (simp add: dec_def digits.simps digit_char_def)
  ultimately show ?thesis by (simp add: normalize_user_def)
qed

lemma image_launch_normal:
  "\<exists>config. json_as_object image_config = Some config \<and> normalize_launch config image_tree = Inr image_launch"
proof -
  have exe: "image_executable [''/bin/ash''] image_tree = Inr (as_bytes ''bin/ash'')"
    by (simp add: image_executable_def starts_with_def trim_start_def ash_normal image_get Entry_file_def Let_def)
  have args: "normalize_arguments [''/bin/ash''] ''arguments'' = Inr [''/bin/ash'']"
    by (simp add: normalize_arguments_iff argument_ok_def MAX_ARGUMENTS_def MAX_ARGUMENT_BYTES_def)
  show ?thesis
    unfolding image_config_def
    by (simp add: normalize_launch_def required_string_def platform_extensions_def non_null_def as_object_def
        check_unsupported_def string_list_def args exe optional_string_value_def image_user image_environment_def
        image_working_directory image_launch_valid [unfolded image_launch_def] image_launch_def Let_def)
qed


lemma toy_digest: "verify_descriptor image_env \<lparr>d_media_type = m, d_digest = ''sha256:'' @ sha256_bytes toy_sha data,
    d_size = int (length data)\<rparr> data what = Inr ()"
  by (simp add: verify_descriptor_iff image_env_def)

lemma image_layer_step:
  "graph_layer image_env [digest_text image_layer] (Tree_new, [])
     (0, JObject (image_descriptor PLAIN_LAYER_MEDIA_TYPE image_layer), image_layer) =
   Inr (image_tree, [\<lparr>le_media_type = PLAIN_LAYER_MEDIA_TYPE, le_digest = ''sha256:'' @ sha256_bytes toy_sha image_layer,
     le_diff_id = ''sha256:'' @ sha256_bytes toy_sha image_layer, le_bytes = 1536, le_expanded_bytes = 1536\<rparr>])"
proof -
  have len: "length image_layer = 1536" by (simp add: image_layer_def)
  have parse: "parse_descriptor (JObject (image_descriptor PLAIN_LAYER_MEDIA_TYPE image_layer)) what =
    Inr \<lparr>d_media_type = Some PLAIN_LAYER_MEDIA_TYPE, d_digest = ''sha256:'' @ sha256_bytes toy_sha image_layer,
      d_size = int (length image_layer)\<rparr>" for what
    by (rule parse_image_descriptor) (simp_all add: image_descriptor_def len)
  have exp: "expand_layer image_env image_layer PLAIN_LAYER_MEDIA_TYPE = Inr image_layer"
    by (simp add: expand_layer_def len MAX_EXPANDED_LAYER_BYTES_def)
  have diff: "parse_digest (''sha256:'' @ sha256_bytes toy_sha image_layer) = Inr (sha256_bytes toy_sha image_layer)"
    unfolding sha256_bytes_def by (rule parse_digest_printed) (rule length_toy_sha)
  have bounds: "validate_canonical_tree image_tree MAX_VIEW_ENTRIES MAX_EXPANDED_LAYER_BYTES = Inr ()"
    by (simp add: validate_canonical_tree_def image_tree_def Tree_len_def expanded_bytes_def List.map_filter_def
        MAX_VIEW_ENTRIES_def Entry_default_directory_def Entry_directory_def Entry_file_def)
  have env: "env_tar image_env = image_tar" "env_sha image_env = toy_sha" by (simp_all add: image_env_def)
  show ?thesis
    unfolding graph_layer_def
    using toy_digest [of "Some PLAIN_LAYER_MEDIA_TYPE" image_layer, unfolded len]
    by (simp add: parse exp digest_text_def diff env image_layer_parses image_layer_applies bounds len
       del: append.simps)
qed

lemma image_graph:
  assumes "layout = [1] \<or> layout = [1, 1]"
  shows "\<exists>graph. parse_graph image_env (image_objects layout) = Inr graph"
proof -
  obtain config where config: "json_as_object image_config = Some config"
    and launch: "normalize_launch config image_tree = Inr image_launch" using image_launch_normal by blast
  from config have rootfs: "map_of config ''rootfs'' =
      Some (JObject [(''type'', JString ''layers''), (''diff_ids'', JArray [digest_text image_layer])])"
    by (auto simp: image_config_def)
  have json: "env_json image_env layout = Some (JObject [(''imageLayoutVersion'', JString LAYOUT_VERSION)])"
    "env_json image_env [2] = Some image_index" "env_json image_env [3] = Some image_manifest"
    "env_json image_env [4] = Some image_config"
    using assms by (auto simp: image_env_def image_json_def)
  have parse: "parse_descriptor (JObject (image_descriptor CONFIG_MEDIA_TYPE [4])) what =
    Inr \<lparr>d_media_type = Some CONFIG_MEDIA_TYPE, d_digest = ''sha256:'' @ sha256_bytes toy_sha [4],
      d_size = int (length [4 :: u8])\<rparr>" for what
    by (rule parse_image_descriptor) (simp_all add: image_descriptor_def)
  have manifest: "json_as_object image_manifest = Some [(''schemaVersion'', JInt 2), (''mediaType'', JString MANIFEST_MEDIA_TYPE),
     (''config'', JObject (image_descriptor CONFIG_MEDIA_TYPE [4])),
     (''layers'', JArray [JObject (image_descriptor PLAIN_LAYER_MEDIA_TYPE image_layer)])]"
    by (simp add: image_manifest_def)
  have root: "Tree_insert_default_directory ROOT_PATH image_tree = image_tree"
    by (simp add: Tree_insert_default_directory_def image_get)
  have kind: "e_kind Entry_default_directory = Directory" by (simp add: Entry_default_directory_def Entry_directory_def)
  show ?thesis
    using image_layer_step toy_digest [of "Some MANIFEST_MEDIA_TYPE" "[3]"] toy_digest [of "Some CONFIG_MEDIA_TYPE" "[4]"]
    by (simp add: parse_graph_def image_objects_def parse_json_def json as_object_def required_string_def image_selected
        manifest required_integer_def parse config rootfs non_null_def MAX_LAYERS_def root image_get kind image_symlinks
        launch Let_def del: append.simps)
qed


theorem parse_graph_sound_witness:
  "\<exists>graph. parse_graph image_env (image_objects [1]) = Inr graph \<and> tree_inv (og_tree graph)
    \<and> validate_launch_identity (og_launch graph) = Inr ()"
  using image_graph [of "[1]"] parse_graph_sound [of image_env "image_objects [1]"] by blast

theorem parse_graph_evidence_witness:
  "\<exists>graph. parse_graph image_env (image_objects [1]) = Inr graph
    \<and> list_all2 (\<lambda>data ev. le_bytes ev = length data) [image_layer] (og_layers graph)"
proof -
  obtain graph where graph: "parse_graph image_env (image_objects [1]) = Inr graph" using image_graph by blast
  have "oo_layers (image_objects [1]) = [image_layer]" by (simp add: image_objects_def)
  with parse_graph_evidence [OF graph] show ?thesis using graph by (auto elim: list_all2_mono)
qed

lemma image_no_collision:
  "inj_on (env_sha image_env) ({oo_manifest (image_objects a), oo_manifest (image_objects b),
     oo_config (image_objects a), oo_config (image_objects b)}
     \<union> set (oo_layers (image_objects a)) \<union> set (oo_layers (image_objects b)))"
proof -
  have zero: "(1536 :: u8) = 0" by simp
  have layer: "toy_sha image_layer = 0 # replicate 31 0"
    by (simp add: toy_sha_def image_layer_def zero)
  show ?thesis
    by (auto simp: image_env_def image_objects_def inj_on_def layer) (auto simp: toy_sha_def)
qed

theorem parse_graph_content_addressed_witness:
  "\<exists>g. parse_graph image_env (image_objects [1]) = Inr g \<and> parse_graph image_env (image_objects [1, 1]) = Inr g"
proof -
  obtain g h where g: "parse_graph image_env (image_objects [1]) = Inr g"
    and h: "parse_graph image_env (image_objects [1, 1]) = Inr h" using image_graph by blast
  have "oo_manifest_digest (image_objects [1]) = oo_manifest_digest (image_objects [1, 1])"
    by (simp add: image_objects_def)
  from parse_graph_content_addressed [OF g h this image_no_collision] g h show ?thesis by blast
qed

end
