(* ===== verification/Static_Elf.thy ===== *)
theory Static_Elf
  imports Launch
begin

unbundle bit_operations_syntax

text \<open>
  The checks of \<open>workload/mod.rs\<close> on an assembled workload: the compatibility of the tree with
  the runtime overlay and the validation of a static ELF executable. File fields are 64-bit
  words; offsets into the file are naturals, as a 64-bit \<open>usize\<close>. The lemmas show that an
  accepted file is one the guest loader can map and that no field read leaves the file.
\<close>

section \<open>Runtime overlay\<close>

datatype workload_error =
    OverlayCollision string
  | OverlayExecutable
  | OverlayWorkingDirectory
  | ElfNotExecutable
  | ElfNotFixedAddress
  | ElfProgramTable
  | ElfHeaderSize
  | ElfTableLimit
  | ElfTablePastFile
  | ElfEntryPoint
  | ElfSegmentLarger
  | ElfSegmentInvalid
  | ElfSegmentPastFile
  | ElfSegmentCongruence
  | ElfSegmentAddress
  | ElfSegmentBelowMinimum
  | ElfDynamic
  | ElfNoSegment
  | ElfTruncated

definition OVERLAY_TMP :: bytes where "OVERLAY_TMP = as_bytes ''tmp''"
definition OVERLAY_DEV :: bytes where "OVERLAY_DEV = as_bytes ''dev''"

definition below_or_at :: "bytes \<Rightarrow> bool" where
  "below_or_at path \<longleftrightarrow> path = OVERLAY_TMP \<or> path = OVERLAY_DEV
     \<or> starts_with path (as_bytes ''tmp/'') \<or> starts_with path (as_bytes ''dev/'')"

definition validate_overlay_compatibility :: "tree \<Rightarrow> LaunchIdentity \<Rightarrow> workload_error + unit" where
  "validate_overlay_compatibility t launch =
     and_then (for_each (\<lambda>_ (path, entry).
         if below_or_at path \<and> e_kind entry \<noteq> Directory
         then Inl (OverlayCollision (if starts_with path OVERLAY_TMP then ''/tmp'' else ''/dev''))
         else Inr ()) () t) (\<lambda>_.
       let executable = trim_start CHR ''/'' (li_executable launch);
           working_directory = trim_start CHR ''/'' (li_working_directory launch)
       in if below_or_at (as_bytes executable) then Inl OverlayExecutable
          else if starts_with working_directory ''tmp/'' \<or> starts_with working_directory ''dev/''
          then Inl OverlayWorkingDirectory
          else Inr ())"

section \<open>Static ELF executables\<close>

definition NATIVE_PROGRAM_HEADER_BYTES :: nat where "NATIVE_PROGRAM_HEADER_BYTES = 56"
definition MAX_PROGRAM_TABLE_BYTES :: nat where "MAX_PROGRAM_TABLE_BYTES = 65536"
definition GUEST_PAGE_BYTES :: u64 where "GUEST_PAGE_BYTES = 4096"
definition MAX_GUEST_USER_ADDRESS :: u64 where "MAX_GUEST_USER_ADDRESS = 0x7ffffffff000"
definition MIN_GUEST_MAPPING_ADDRESS :: u64 where "MIN_GUEST_MAPPING_ADDRESS = 65536"

definition read_exact :: "bytes \<Rightarrow> nat \<Rightarrow> nat \<Rightarrow> workload_error + bytes" where
  "read_exact bs offset len =
     and_then (ok_or ElfTruncated (checked_add offset len)) (\<lambda>fin.
       ok_or ElfTruncated (get_range bs offset fin))"

definition read_u16 :: "bytes \<Rightarrow> nat \<Rightarrow> workload_error + u16" where
  "read_u16 bs offset = and_then (read_exact bs offset 2) (\<lambda>v. Inr (of_nat (from_le_bytes v)))"

definition read_u32 :: "bytes \<Rightarrow> nat \<Rightarrow> workload_error + u32" where
  "read_u32 bs offset = and_then (read_exact bs offset 4) (\<lambda>v. Inr (of_nat (from_le_bytes v)))"

definition read_u64 :: "bytes \<Rightarrow> nat \<Rightarrow> workload_error + u64" where
  "read_u64 bs offset = and_then (read_exact bs offset 8) (\<lambda>v. Inr (of_nat (from_le_bytes v)))"

definition check_segment :: "nat \<Rightarrow> u64 \<Rightarrow> u64 \<Rightarrow> u64 \<Rightarrow> u64 \<Rightarrow> workload_error + unit" where
  "check_segment file_len file_offset address file_size memory_size =
     (if file_size > memory_size then Inl ElfSegmentLarger
      else and_then (ok_or ElfSegmentInvalid (checked_add64 file_offset file_size)) (\<lambda>segment_end.
      if unat segment_end > file_len then Inl ElfSegmentPastFile
      else if file_size \<noteq> 0 \<and> file_offset mod GUEST_PAGE_BYTES \<noteq> address mod GUEST_PAGE_BYTES
      then Inl ElfSegmentCongruence
      else and_then (ok_or ElfSegmentInvalid (checked_add64 address memory_size)) (\<lambda>address_end.
      if address \<ge> MAX_GUEST_USER_ADDRESS \<or> address_end > MAX_GUEST_USER_ADDRESS
      then Inl ElfSegmentAddress
      else if memory_size \<noteq> 0 \<and> (address AND NOT (GUEST_PAGE_BYTES - 1)) < MIN_GUEST_MAPPING_ADDRESS
      then Inl ElfSegmentBelowMinimum
      else Inr ())))"

definition check_program_header ::
    "bytes \<Rightarrow> nat \<Rightarrow> nat \<Rightarrow> nat \<Rightarrow> nat \<Rightarrow> workload_error + nat" where
  "check_program_header bs table_offset entry_size loadable index =
     and_then (ok_or ElfProgramTable (checked_mul index entry_size)) (\<lambda>skip.
     and_then (ok_or ElfProgramTable (checked_add table_offset skip)) (\<lambda>offset.
     and_then (read_u32 bs offset) (\<lambda>kind.
     if kind = 1 then
       and_then (read_u64 bs (offset + 8)) (\<lambda>file_offset.
       and_then (read_u64 bs (offset + 16)) (\<lambda>address.
       and_then (read_u64 bs (offset + 32)) (\<lambda>file_size.
       and_then (read_u64 bs (offset + 40)) (\<lambda>memory_size.
       and_then (check_segment (length bs) file_offset address file_size memory_size) (\<lambda>_.
       Inr (loadable + 1))))))
     else if kind = 3 then Inl ElfDynamic
     else Inr loadable)))"

definition validate_static_elf :: "bytes \<Rightarrow> workload_error + unit" where
  "validate_static_elf bs =
     (if length bs < 64 \<or> take 4 bs \<noteq> [0x7f, 0x45, 0x4c, 0x46] \<or> bs ! 4 \<noteq> 2 \<or> bs ! 5 \<noteq> 1
      then Inl ElfNotExecutable
      else and_then (read_u16 bs 18) (\<lambda>machine.
      if machine \<noteq> 62 then Inl ElfNotExecutable
      else and_then (read_u16 bs 16) (\<lambda>elf_type.
      if elf_type \<noteq> 2 then Inl ElfNotFixedAddress
      else and_then (read_u64 bs 32) (\<lambda>table_field.
      and_then (read_u16 bs 54) (\<lambda>size_field.
      and_then (read_u16 bs 56) (\<lambda>count_field.
      let table_offset = unat table_field; entry_size = unat size_field; entry_count = unat count_field
      in if entry_size \<noteq> NATIVE_PROGRAM_HEADER_BYTES then Inl ElfHeaderSize
         else if entry_count > MAX_PROGRAM_TABLE_BYTES div NATIVE_PROGRAM_HEADER_BYTES
         then Inl ElfTableLimit
         else and_then (ok_or ElfProgramTable (checked_mul entry_size entry_count)) (\<lambda>table_bytes.
         and_then (ok_or ElfProgramTable (checked_add table_offset table_bytes)) (\<lambda>table_end.
         if table_end > length bs then Inl ElfTablePastFile
         else and_then (read_u64 bs 24) (\<lambda>entry.
         if entry \<ge> MAX_GUEST_USER_ADDRESS then Inl ElfEntryPoint
         else and_then
           (for_each (check_program_header bs table_offset entry_size) 0 [0..<entry_count]) (\<lambda>loadable.
         if loadable = 0 then Inl ElfNoSegment else Inr ()))))))))))"

section \<open>Reads stay inside the file\<close>

text \<open>A slice is at most \<open>isize::MAX\<close> bytes long, so offsets inside it never overflow.\<close>

definition slice_ok :: "bytes \<Rightarrow> bool" where
  "slice_ok bs \<longleftrightarrow> length bs < 2 ^ 63"

lemma read_exact_in:
  assumes "slice_ok bs" and "offset + len \<le> length bs"
  shows "read_exact bs offset len = Inr (take len (drop offset bs))"
  using assms by (simp add: read_exact_def checked_add_def slice_ok_def u64_max_eq get_range_def)

lemma read_in:
  assumes "slice_ok bs"
  shows "offset + 2 \<le> length bs \<Longrightarrow> read_u16 bs offset = Inr (of_nat (from_le_bytes (take 2 (drop offset bs))))"
    and "offset + 4 \<le> length bs \<Longrightarrow> read_u32 bs offset = Inr (of_nat (from_le_bytes (take 4 (drop offset bs))))"
    and "offset + 8 \<le> length bs \<Longrightarrow> read_u64 bs offset = Inr (of_nat (from_le_bytes (take 8 (drop offset bs))))"
  using assms by (simp_all add: read_u16_def read_u32_def read_u64_def read_exact_in)

definition elf16 :: "bytes \<Rightarrow> nat \<Rightarrow> u16" where
  "elf16 bs offset = of_nat (from_le_bytes (take 2 (drop offset bs)))"

definition elf32 :: "bytes \<Rightarrow> nat \<Rightarrow> u32" where
  "elf32 bs offset = of_nat (from_le_bytes (take 4 (drop offset bs)))"

definition elf64 :: "bytes \<Rightarrow> nat \<Rightarrow> u64" where
  "elf64 bs offset = of_nat (from_le_bytes (take 8 (drop offset bs)))"

lemma read_fields:
  assumes "slice_ok bs"
  shows "offset + 2 \<le> length bs \<Longrightarrow> read_u16 bs offset = Inr (elf16 bs offset)"
    and "offset + 4 \<le> length bs \<Longrightarrow> read_u32 bs offset = Inr (elf32 bs offset)"
    and "offset + 8 \<le> length bs \<Longrightarrow> read_u64 bs offset = Inr (elf64 bs offset)"
  using read_in [OF assms] by (simp_all add: elf16_def elf32_def elf64_def)

text \<open>A program header inside the file, and what an accepted loadable one describes.\<close>

definition header_at :: "bytes \<Rightarrow> nat \<Rightarrow> nat" where
  "header_at bs i = unat (elf64 bs 32) + i * NATIVE_PROGRAM_HEADER_BYTES"

definition segment_maps :: "bytes \<Rightarrow> nat \<Rightarrow> bool" where
  "segment_maps bs offset \<longleftrightarrow>
     (let file_offset = unat (elf64 bs (offset + 8)); address = unat (elf64 bs (offset + 16));
          file_size = unat (elf64 bs (offset + 32)); memory_size = unat (elf64 bs (offset + 40))
      in file_size \<le> memory_size \<and> file_offset + file_size \<le> length bs
         \<and> (file_size \<noteq> 0 \<longrightarrow> file_offset mod 4096 = address mod 4096)
         \<and> address + memory_size \<le> unat MAX_GUEST_USER_ADDRESS
         \<and> (memory_size \<noteq> 0 \<longrightarrow> unat MIN_GUEST_MAPPING_ADDRESS \<le> address))"

lemma check_segment_maps:
  assumes "check_segment (length bs) (elf64 bs (offset + 8)) (elf64 bs (offset + 16))
      (elf64 bs (offset + 32)) (elf64 bs (offset + 40)) = Inr ()"
  shows "segment_maps bs offset"
proof -
  define fo ad fs ms where defs: "fo = elf64 bs (offset + 8)" "ad = elf64 bs (offset + 16)"
    "fs = elf64 bs (offset + 32)" "ms = elf64 bs (offset + 40)"
  from assms obtain se ae where size: "\<not> fs > ms"
    and se: "checked_add64 fo fs = Some se" "\<not> unat se > length bs"
    and cong: "\<not> (fs \<noteq> 0 \<and> fo mod GUEST_PAGE_BYTES \<noteq> ad mod GUEST_PAGE_BYTES)"
    and ae: "checked_add64 ad ms = Some ae" "\<not> (ad \<ge> MAX_GUEST_USER_ADDRESS \<or> ae > MAX_GUEST_USER_ADDRESS)"
    and low: "\<not> (ms \<noteq> 0 \<and> (ad AND NOT (GUEST_PAGE_BYTES - 1)) < MIN_GUEST_MAPPING_ADDRESS)"
    unfolding check_segment_def defs [symmetric] guard_eq_Inr and_then_eq_Inr ok_or_eq_Inr by blast
  have "unat fs \<le> unat ms" using size by (simp add: not_less word_le_nat_alt)
  moreover have "unat fo + unat fs \<le> length bs" using se checked_add64_Some by fastforce
  moreover have "unat fs \<noteq> 0 \<Longrightarrow> unat fo mod 4096 = unat ad mod 4096"
  proof -
    assume "unat fs \<noteq> 0"
    with cong have "fo mod 4096 = ad mod 4096" by (auto simp: GUEST_PAGE_BYTES_def)
    then have "unat (fo mod 4096) = unat (ad mod 4096)" by simp
    then show ?thesis by (simp add: unat_mod_distrib)
  qed
  moreover have "unat ad + unat ms \<le> unat MAX_GUEST_USER_ADDRESS"
    using ae checked_add64_Some by (fastforce simp: not_less word_le_nat_alt)
  moreover have "unat ms \<noteq> 0 \<Longrightarrow> unat MIN_GUEST_MAPPING_ADDRESS \<le> unat ad"
  proof -
    assume "unat ms \<noteq> 0"
    with low have "MIN_GUEST_MAPPING_ADDRESS \<le> (ad AND NOT (GUEST_PAGE_BYTES - 1))"
      by (auto simp: not_less)
    also have "\<dots> \<le> ad" by (rule word_and_le2)
    finally show ?thesis by (simp add: word_le_nat_alt)
  qed
  ultimately show ?thesis unfolding segment_maps_def defs [symmetric] Let_def by blast
qed

lemma check_program_header_in:
  assumes "slice_ok bs" and "offset = table + i * 56" and "offset + 56 \<le> length bs"
  shows "check_program_header bs table 56 l i =
    (if elf32 bs offset = 1 then
       and_then (check_segment (length bs) (elf64 bs (offset + 8)) (elf64 bs (offset + 16))
          (elf64 bs (offset + 32)) (elf64 bs (offset + 40))) (\<lambda>_. Inr (l + 1))
     else if elf32 bs offset = 3 then Inl ElfDynamic else Inr l)"
proof -
  have "checked_mul i 56 = Some (i * 56)" "checked_add table (i * 56) = Some offset"
    using assms by (simp_all add: checked_mul_def checked_add_def slice_ok_def u64_max_eq)
  with assms show ?thesis
    by (simp add: check_program_header_def read_fields)
qed

lemma check_segment_not_truncated: "check_segment n fo ad fs ms \<noteq> Inl ElfTruncated"
  by (simp add: check_segment_def and_then_def ok_or_def split: option.splits)

text \<open>The loop over the program table: it reads no field outside the file, and acceptance
  means every header passed.\<close>

lemma header_loop:
  assumes "slice_ok bs" and "\<forall>i\<in>set is. table + i * 56 + 56 \<le> length bs"
  shows "for_each (check_program_header bs table 56) l is \<noteq> Inl ElfTruncated"
    and "for_each (check_program_header bs table 56) l is = Inr m \<Longrightarrow>
      (\<forall>i\<in>set is. elf32 bs (table + i * 56) \<noteq> 3 \<and>
         (elf32 bs (table + i * 56) = 1 \<longrightarrow> segment_maps bs (table + i * 56))) \<and>
      m = l + length (filter (\<lambda>i. elf32 bs (table + i * 56) = 1) is)"
proof -
  have both: "for_each (check_program_header bs table 56) l is \<noteq> Inl ElfTruncated \<and>
     (\<forall>m. for_each (check_program_header bs table 56) l is = Inr m \<longrightarrow>
      (\<forall>i\<in>set is. elf32 bs (table + i * 56) \<noteq> 3 \<and>
         (elf32 bs (table + i * 56) = 1 \<longrightarrow> segment_maps bs (table + i * 56))) \<and>
      m = l + length (filter (\<lambda>i. elf32 bs (table + i * 56) = 1) is))"
    using assms(2)
  proof (induction "is" arbitrary: l)
    case Nil
    then show ?case by simp
  next
    case (Cons i js)
    let ?o = "table + i * 56"
    have head: "check_program_header bs table 56 l i =
      (if elf32 bs ?o = 1 then
         and_then (check_segment (length bs) (elf64 bs (?o + 8)) (elf64 bs (?o + 16))
            (elf64 bs (?o + 32)) (elf64 bs (?o + 40))) (\<lambda>_. Inr (l + 1))
       else if elf32 bs ?o = 3 then Inl ElfDynamic else Inr l)"
      using assms(1) Cons.prems by (intro check_program_header_in) simp_all
    consider (load) "elf32 bs ?o = 1" | (dyn) "elf32 bs ?o = 3" | (other) "elf32 bs ?o \<noteq> 1" "elf32 bs ?o \<noteq> 3"
      by blast
    then show ?case
    proof cases
      case load
      show ?thesis
      proof (cases "check_segment (length bs) (elf64 bs (?o + 8)) (elf64 bs (?o + 16))
            (elf64 bs (?o + 32)) (elf64 bs (?o + 40))")
        case (Inl e)
        with head load check_segment_not_truncated show ?thesis by auto
      next
        case (Inr u)
        then have "segment_maps bs ?o" by (intro check_segment_maps) simp
        with Inr head load Cons.IH [of "Suc l"] Cons.prems show ?thesis by auto
      qed
    next
      case dyn
      with head show ?thesis by simp
    next
      case other
      with head Cons show ?thesis by simp
    qed
  qed
  then show "for_each (check_program_header bs table 56) l is \<noteq> Inl ElfTruncated"
    "for_each (check_program_header bs table 56) l is = Inr m \<Longrightarrow>
      (\<forall>i\<in>set is. elf32 bs (table + i * 56) \<noteq> 3 \<and>
         (elf32 bs (table + i * 56) = 1 \<longrightarrow> segment_maps bs (table + i * 56))) \<and>
      m = l + length (filter (\<lambda>i. elf32 bs (table + i * 56) = 1) is)"
    by blast+
qed

lemma table_in_file:
  assumes "checked_mul 56 n = Some k" and "checked_add table k = Some e" and "\<not> e > length bs"
  shows "\<forall>i\<in>set [0..<n]. table + i * 56 + 56 \<le> length bs"
proof
  fix i assume "i \<in> set [0..<n]"
  then have "i * 56 + 56 \<le> 56 * n" by auto
  moreover have "table + 56 * n \<le> length bs"
    using assms by (auto simp: checked_mul_def checked_add_def split: if_splits)
  ultimately show "table + i * 56 + 56 \<le> length bs" by simp
qed

lemma elf_loop_not_truncated:
  assumes "slice_ok bs"
  shows "and_then (ok_or ElfProgramTable (checked_mul 56 n)) (\<lambda>table_bytes.
         and_then (ok_or ElfProgramTable (checked_add table table_bytes)) (\<lambda>table_end.
         if table_end > length bs then Inl ElfTablePastFile
         else if entry \<ge> MAX_GUEST_USER_ADDRESS then Inl ElfEntryPoint
         else and_then (for_each (check_program_header bs table 56) 0 [0..<n]) (\<lambda>loadable.
         if loadable = 0 then Inl ElfNoSegment else Inr ()))) \<noteq> Inl ElfTruncated"
proof (cases "checked_mul 56 n")
  case (Some k)
  show ?thesis
  proof (cases "checked_add table k")
    case (Some e)
    show ?thesis
    proof (cases "e > length bs \<or> entry \<ge> MAX_GUEST_USER_ADDRESS")
      case False
      then have "for_each (check_program_header bs table 56) 0 [0..<n] \<noteq> Inl ElfTruncated"
        using header_loop(1) [OF assms table_in_file] Some \<open>checked_mul 56 n = Some k\<close> by blast
      with False Some \<open>checked_mul 56 n = Some k\<close> show ?thesis
        by (cases "for_each (check_program_header bs table 56) 0 [0..<n]") auto
    qed (use Some \<open>checked_mul 56 n = Some k\<close> in auto)
  qed (use Some in simp)
qed simp

lemma validate_static_elf_fields:
  assumes "slice_ok bs" and "64 \<le> length bs"
  shows "validate_static_elf bs =
     (if take 4 bs \<noteq> [0x7f, 0x45, 0x4c, 0x46] \<or> bs ! 4 \<noteq> 2 \<or> bs ! 5 \<noteq> 1 then Inl ElfNotExecutable
      else if elf16 bs 18 \<noteq> 62 then Inl ElfNotExecutable
      else if elf16 bs 16 \<noteq> 2 then Inl ElfNotFixedAddress
      else if unat (elf16 bs 54) \<noteq> 56 then Inl ElfHeaderSize
      else if unat (elf16 bs 56) > MAX_PROGRAM_TABLE_BYTES div 56 then Inl ElfTableLimit
      else and_then (ok_or ElfProgramTable (checked_mul 56 (unat (elf16 bs 56)))) (\<lambda>table_bytes.
         and_then (ok_or ElfProgramTable (checked_add (unat (elf64 bs 32)) table_bytes)) (\<lambda>table_end.
         if table_end > length bs then Inl ElfTablePastFile
         else if elf64 bs 24 \<ge> MAX_GUEST_USER_ADDRESS then Inl ElfEntryPoint
         else and_then (for_each (check_program_header bs (unat (elf64 bs 32)) 56) 0 [0..<unat (elf16 bs 56)])
           (\<lambda>loadable. if loadable = 0 then Inl ElfNoSegment else Inr ()))))"
proof -
  have r: "read_u16 bs 18 = Inr (elf16 bs 18)" "read_u16 bs 16 = Inr (elf16 bs 16)"
    "read_u64 bs 32 = Inr (elf64 bs 32)" "read_u16 bs 54 = Inr (elf16 bs 54)"
    "read_u16 bs 56 = Inr (elf16 bs 56)" "read_u64 bs 24 = Inr (elf64 bs 24)"
    using assms by (simp_all add: read_fields)
  have short: "(length bs < 64 \<or> P) = P" for P using assms(2) by simp
  show ?thesis
    unfolding validate_static_elf_def r and_then_simps Let_def NATIVE_PROGRAM_HEADER_BYTES_def short
    by (rule if_cong refl)+ (simp only: not_not)
qed

section \<open>Properties\<close>

text \<open>
  C29. An ELF file that passes is one the guest loader can map: its program table lies inside the
  file, its entry point in the user address space, no header names an interpreter, there is a
  loadable segment, and every loadable segment lies inside the file and the address space, is
  congruent with its address modulo the page size and stays above the minimum mapping address.
\<close>

theorem static_elf_accepted_maps:
  assumes "slice_ok bs" and "validate_static_elf bs = Inr ()"
  shows "header_at bs (unat (elf16 bs 56)) \<le> length bs
    \<and> unat (elf64 bs 24) < unat MAX_GUEST_USER_ADDRESS
    \<and> list_all (\<lambda>i. elf32 bs (header_at bs i) \<noteq> 3
         \<and> (elf32 bs (header_at bs i) = 1 \<longrightarrow> segment_maps bs (header_at bs i))) [0..<unat (elf16 bs 56)]
    \<and> list_ex (\<lambda>i. elf32 bs (header_at bs i) = 1) [0..<unat (elf16 bs 56)]"
proof -
  define n table where n: "n = unat (elf16 bs 56)" and table: "table = unat (elf64 bs 32)"
  have len: "64 \<le> length bs" using assms(2) by (auto simp: validate_static_elf_def)
  have ok: "\<exists>k e m. checked_mul 56 n = Some k \<and> checked_add table k = Some e \<and> \<not> e > length bs
      \<and> \<not> elf64 bs 24 \<ge> MAX_GUEST_USER_ADDRESS
      \<and> for_each (check_program_header bs table 56) 0 [0..<n] = Inr m \<and> m \<noteq> 0"
    using assms(2) unfolding validate_static_elf_fields [OF assms(1) len] n table
      guard_eq_Inr and_then_eq_Inr ok_or_eq_Inr by blast
  then obtain k e m where k: "checked_mul 56 n = Some k" and e: "checked_add table k = Some e" "\<not> e > length bs"
    and entry: "\<not> elf64 bs 24 \<ge> MAX_GUEST_USER_ADDRESS"
    and loop: "for_each (check_program_header bs table 56) 0 [0..<n] = Inr m" and m: "m \<noteq> 0" by blast
  note hl = header_loop(2) [OF assms(1) table_in_file [OF k e] loop]
  have at: "header_at bs i = table + i * 56" for i
    by (simp add: header_at_def table NATIVE_PROGRAM_HEADER_BYTES_def)
  have "\<exists>i\<in>set [0..<n]. elf32 bs (table + i * 56) = 1"
  proof -
    have "filter (\<lambda>i. elf32 bs (table + i * 56) = 1) [0..<n] \<noteq> []" using hl m by auto
    then show ?thesis by (simp add: filter_empty_conv)
  qed
  moreover have "table + n * 56 \<le> length bs"
    using k e by (auto simp: checked_mul_def checked_add_def split: if_splits)
  ultimately show ?thesis
    using hl entry by (simp add: at n [symmetric] list_all_iff list_ex_iff word_less_nat_alt not_le)
qed

text \<open>
  No field read of the validation leaves the file: whatever the bytes are, the truncation
  error of the bounded reads is never the answer.
\<close>

theorem static_elf_never_truncated:
  assumes "slice_ok bs"
  shows "validate_static_elf bs \<noteq> Inl ElfTruncated"
proof (cases "64 \<le> length bs")
  case True
  show ?thesis
    unfolding validate_static_elf_fields [OF assms True]
    using elf_loop_not_truncated [OF assms] by simp
next
  case False
  then show ?thesis by (simp add: validate_static_elf_def)
qed

section \<open>Witnesses\<close>

text \<open>A minimal static executable: the file header and one loadable program header.\<close>

definition sample_elf :: bytes where
  "sample_elf =
     [0x7f, 0x45, 0x4c, 0x46, 2, 1, 1, 0, 0, 0, 0, 0, 0, 0, 0, 0,
      2, 0, 62, 0, 1, 0, 0, 0, 0x78, 0, 1, 0, 0, 0, 0, 0,
      64, 0, 0, 0, 0, 0, 0, 0, 0, 0, 0, 0, 0, 0, 0, 0,
      0, 0, 0, 0, 64, 0, 56, 0, 1, 0, 0, 0, 0, 0, 0, 0,
      1, 0, 0, 0, 5, 0, 0, 0, 0, 0, 0, 0, 0, 0, 0, 0,
      0, 0, 1, 0, 0, 0, 0, 0, 0, 0, 1, 0, 0, 0, 0, 0,
      120, 0, 0, 0, 0, 0, 0, 0, 120, 0, 0, 0, 0, 0, 0, 0,
      0, 16, 0, 0, 0, 0, 0, 0]"

lemma slice_ok_sample_elf: "slice_ok sample_elf"
  by (simp add: slice_ok_def sample_elf_def)

lemma sample_elf_fields:
  "elf16 sample_elf 18 = 62" "elf16 sample_elf 16 = 2" "elf64 sample_elf 32 = 64"
  "elf16 sample_elf 54 = 56" "elf16 sample_elf 56 = 1" "elf64 sample_elf 24 = 0x10078"
  "elf32 sample_elf 64 = 1" "elf64 sample_elf 72 = 0" "elf64 sample_elf 80 = 0x10000"
  "elf64 sample_elf 96 = 120" "elf64 sample_elf 104 = 120" "length sample_elf = 120"
  by (simp_all add: elf16_def elf32_def elf64_def sample_elf_def)

lemma sample_elf_valid: "validate_static_elf sample_elf = Inr ()"
proof -
  have "check_segment 120 0 0x10000 120 120 = Inr ()"
    by (simp add: check_segment_def checked_add64_def u64_max_eq GUEST_PAGE_BYTES_def
        MAX_GUEST_USER_ADDRESS_def MIN_GUEST_MAPPING_ADDRESS_def)
  then have header: "check_program_header sample_elf 64 56 0 0 = Inr 1"
    using check_program_header_in [of sample_elf 64 64 0 0] slice_ok_sample_elf
    by (simp add: sample_elf_fields)
  have magic: "take 4 sample_elf = [0x7f, 0x45, 0x4c, 0x46]" "sample_elf ! 4 = 2" "sample_elf ! 5 = 1"
    by (simp_all add: sample_elf_def)
  have "\<not> MAX_GUEST_USER_ADDRESS \<le> 0x10078" by (simp add: MAX_GUEST_USER_ADDRESS_def)
  then show ?thesis
    using validate_static_elf_fields [OF slice_ok_sample_elf]
    by (simp add: sample_elf_fields magic header MAX_PROGRAM_TABLE_BYTES_def checked_mul_def checked_add_def u64_max_eq)
qed

theorem static_elf_accepted_maps_witness:
  "slice_ok sample_elf \<and> validate_static_elf sample_elf = Inr () \<and>
   list_ex (\<lambda>i. elf32 sample_elf (header_at sample_elf i) = 1) [0..<unat (elf16 sample_elf 56)]"
  using static_elf_accepted_maps [OF slice_ok_sample_elf sample_elf_valid] slice_ok_sample_elf
    sample_elf_valid by blast

theorem static_elf_never_truncated_witness:
  "slice_ok sample_elf \<and> validate_static_elf sample_elf \<noteq> Inl ElfTruncated"
  using static_elf_never_truncated [OF slice_ok_sample_elf] slice_ok_sample_elf by blast

end
