(* ===== verification/Store.thy ===== *)
theory Store
  imports Host_Root Oci_Image Static_Elf "HOL-Library.Multiset"
begin

text \<open>
  The workload store of \<open>workload/store.rs\<close>: assembly of a binary or an image into a graph,
  publication of its raw closure and derived entry, and the load that derives everything again
  from the verified raw objects.
\<close>

section \<open>Records\<close>

definition CANONICAL_FORMAT_VERSION :: nat where "CANONICAL_FORMAT_VERSION = 1"
definition EXTRACTION_POLICY_VERSION :: nat where "EXTRACTION_POLICY_VERSION = 1"
definition LAYER_APPLICATION_POLICY_VERSION :: nat where "LAYER_APPLICATION_POLICY_VERSION = 1"
definition TEMPLATE_FORMAT_VERSION :: nat where "TEMPLATE_FORMAT_VERSION = 1"
definition CLOSURE_VERSION :: nat where "CLOSURE_VERSION = 1"
definition DERIVED_LOCK_VERSION :: nat where "DERIVED_LOCK_VERSION = 1"
definition GUEST_TEMPLATE_ROOT :: string where "GUEST_TEMPLATE_ROOT = ''workload''"
definition MAX_CACHE_METADATA_BYTES :: nat where "MAX_CACHE_METADATA_BYTES = 4 * 2 ^ 20"
definition MAX_TEMPLATE_BYTES :: nat where
  "MAX_TEMPLATE_BYTES = MAX_EXPANDED_LAYER_BYTES + MAX_VIEW_ENTRIES * (MAX_PATH_BYTES + 128)"
definition RAW_CLOSURE_PATH :: string where "RAW_CLOSURE_PATH = ''raw/closure.json''"

record Policy =
  po_canonical_format :: nat
  po_extraction :: nat
  po_layer_application :: nat
  po_template_format :: nat

definition Policy_current :: Policy where
  "Policy_current = \<lparr>po_canonical_format = CANONICAL_FORMAT_VERSION, po_extraction = EXTRACTION_POLICY_VERSION,
     po_layer_application = LAYER_APPLICATION_POLICY_VERSION, po_template_format = TEMPLATE_FORMAT_VERSION\<rparr>"

record Limits =
  lm_specification_bytes :: nat
  lm_layout_bytes :: nat
  lm_index_bytes :: nat
  lm_manifest_bytes :: nat
  lm_config_bytes :: nat
  lm_layer_bytes :: nat
  lm_expanded_layer_bytes :: nat
  lm_file_bytes :: nat
  lm_entries :: nat
  lm_layers :: nat
  lm_path_bytes :: nat
  lm_symlink_target_bytes :: nat
  lm_symlink_hops :: nat
  lm_raw_objects :: nat
  lm_view_entries :: nat
  lm_cache_metadata_bytes :: nat
  lm_template_bytes :: nat
  lm_arguments :: nat
  lm_argument_bytes :: nat
  lm_environment_entries :: nat
  lm_environment_entry_bytes :: nat
  lm_environment_bytes :: nat

definition Limits_current :: Limits where
  "Limits_current =
     \<lparr>lm_specification_bytes = MAX_SPECIFICATION_BYTES, lm_layout_bytes = MAX_LAYOUT_BYTES, lm_index_bytes = MAX_INDEX_BYTES,
      lm_manifest_bytes = MAX_MANIFEST_BYTES, lm_config_bytes = MAX_CONFIG_BYTES, lm_layer_bytes = MAX_LAYER_BYTES,
      lm_expanded_layer_bytes = MAX_EXPANDED_LAYER_BYTES, lm_file_bytes = MAX_FILE_BYTES, lm_entries = MAX_ENTRIES,
      lm_layers = MAX_LAYERS, lm_path_bytes = MAX_PATH_BYTES, lm_symlink_target_bytes = MAX_SYMLINK_TARGET_BYTES,
      lm_symlink_hops = MAX_SYMLINK_HOPS, lm_raw_objects = MAX_RAW_OBJECTS, lm_view_entries = MAX_VIEW_ENTRIES,
      lm_cache_metadata_bytes = MAX_CACHE_METADATA_BYTES, lm_template_bytes = MAX_TEMPLATE_BYTES, lm_arguments = MAX_ARGUMENTS,
      lm_argument_bytes = MAX_ARGUMENT_BYTES, lm_environment_entries = MAX_ENVIRONMENT_ENTRIES,
      lm_environment_entry_bytes = MAX_ENVIRONMENT_ENTRY_BYTES, lm_environment_bytes = MAX_ENVIRONMENT_BYTES\<rparr>"

record ObjectRecord =
  or_role :: string
  or_digest :: string
  or_bytes :: nat

record Closure =
  cl_version :: nat
  cl_kind :: SourceKind
  cl_manifest_digest :: "string option"
  cl_policy :: Policy
  cl_limits :: Limits
  cl_objects :: "ObjectRecord list"
  cl_layers :: "LayerEvidence list"
  cl_launch :: LaunchIdentity
  cl_canonical_digest :: string
  cl_tree_sha256 :: string
  cl_template_sha256 :: string
  cl_entries :: nat
  cl_expanded_bytes :: nat

record DerivedLock =
  dl_version :: nat
  dl_canonical_digest :: string
  dl_tree_sha256 :: string
  dl_template_sha256 :: string
  dl_closure_sha256 :: string
  dl_raw_closure :: string

record WorkloadGraph =
  wg_kind :: SourceKind
  wg_manifest_digest :: "string option"
  wg_objects :: "(string \<times> bytes) list"
  wg_tree :: tree
  wg_launch :: LaunchIdentity
  wg_layers :: "LayerEvidence list"

record BinaryInput =
  bi_install_path :: string
  bi_arguments :: "string list"
  bi_environment :: "string list"
  bi_working_directory :: string
  bi_uid :: u32
  bi_gid :: u32

record AssembledWorkload =
  aw_source_kind :: SourceKind
  aw_closure_sha256 :: string
  aw_canonical_digest :: string
  aw_tree_sha256 :: string
  aw_template_sha256 :: string
  aw_entries :: nat
  aw_expanded_bytes :: nat
  aw_raw_objects :: nat
  aw_launch :: LaunchIdentity

record LoadedWorkload =
  lw_source_kind :: SourceKind
  lw_closure_sha256 :: string
  lw_canonical_digest :: string
  lw_tree :: tree
  lw_template :: bytes
  lw_launch :: LaunchIdentity

section \<open>Errors and the environment\<close>

datatype (plugins only: code size) store_error =
    StoreRoot root_error
  | StoreSpec spec_error
  | StoreTree tree_error
  | StoreWorkload workload_error
  | StoreOci oci_error
  | SourceUnavailable string io_kind
  | Malformed string
  | NotSerializable
  | StoreMissing string
  | StoreInvalid string

type_synonym 'a storing = "(host, store_error, 'a) action"

text \<open>The image environment with SHA-256, and \<open>serde_json\<close> on the three documents of the store.\<close>

record store_env =
  sx_oci :: oci_env
  sx_closure_to :: "Closure \<Rightarrow> bytes option"
  sx_closure_from :: "bytes \<Rightarrow> Closure option"
  sx_lock_to :: "DerivedLock \<Rightarrow> bytes option"
  sx_lock_from :: "bytes \<Rightarrow> DerivedLock option"
  sx_spec_to :: "CanonicalBinarySpec \<Rightarrow> bytes option"
  sx_spec_from :: "bytes \<Rightarrow> CanonicalBinarySpec option"

abbreviation sx_sha :: "store_env \<Rightarrow> bytes \<Rightarrow> bytes" where
  "sx_sha env \<equiv> env_sha (sx_oci env)"

definition on_root :: "'a root_action \<Rightarrow> 'a storing" where
  "on_root a = (\<lambda>s. let (r, t) = a s in (map_err StoreRoot r, t))"

definition canonical_json :: "('a \<Rightarrow> bytes option) \<Rightarrow> 'a \<Rightarrow> store_error + bytes" where
  "canonical_json to_vec v = and_then (ok_or NotSerializable (to_vec v)) (\<lambda>bytes. Inr (bytes @ [0x0a]))"

definition read_required :: "Root \<Rightarrow> string \<Rightarrow> nat \<Rightarrow> string \<Rightarrow> bytes storing" where
  "read_required root path limit what = (\<lambda>s. let (r, t) = read_file root path limit s in
     (map_err (\<lambda>e. if root_error_kind e = KindNotFound then StoreMissing what else StoreRoot e) r, t))"

definition source_locator_error :: "string \<Rightarrow> 'a root_action \<Rightarrow> 'a storing" where
  "source_locator_error field a = (\<lambda>s. let (r, t) = a s in (map_err (\<lambda>e. SourceUnavailable field (root_error_kind e)) r, t))"

section \<open>Graphs\<close>

definition binary_tree :: "bytes \<Rightarrow> BinaryInput \<Rightarrow> bytes \<Rightarrow> tree" where
  "binary_tree executable input install =
     Tree_insert install (Entry_file executable 0x1ed (bi_uid input) (bi_gid input) 0)
       (foldl (\<lambda>t ancestor. Tree_insert_default_directory ancestor t)
          (Tree_insert_default_directory ROOT_PATH Tree_new) (ancestors install))"

definition binary_tree_and_launch :: "bytes \<Rightarrow> BinaryInput \<Rightarrow> store_error + tree \<times> LaunchIdentity" where
  "binary_tree_and_launch executable input =
     (if bi_uid input = 0 \<or> bi_gid input = 0 then Inl (StoreInvalid ''root credentials are not supported'')
      else if bi_uid input = RESERVED_OWNER \<or> bi_gid input = RESERVED_OWNER
      then Inl (StoreInvalid ''the reserved owner identifier is not a launch credential'')
      else if bi_install_path input \<noteq> BINARY_INSTALL_PATH
      then Inl (StoreInvalid (''binary install path must be '' @ [CHR 0x22] @ BINARY_INSTALL_PATH @ [CHR 0x22]))
      else and_then (map_err StoreTree (normalize_layer_path (as_bytes (bi_install_path input)))) (\<lambda>install.
        if install = ROOT_PATH then Inl (StoreInvalid ''binary install path must name a file'')
        else and_then (ok_or (StoreInvalid ''binary install path is not UTF-8'') (from_utf8 install)) (\<lambda>text.
          and_then (map_err StoreSpec (normalize_arguments (bi_arguments input) ''arguments'')) (\<lambda>arguments.
          if arguments = [] \<or> hd arguments \<noteq> ''/'' @ text
          then Inl (StoreInvalid ''binary argument vector must begin with the installed executable'')
          else and_then (map_err StoreSpec (normalize_environment (bi_environment input))) (\<lambda>environment.
          let t = binary_tree executable input install in
          and_then (map_err StoreSpec (normalize_working_directory (Some (bi_working_directory input)) t)) (\<lambda>working.
          and_then (map_err StoreTree (validate_canonical_tree t MAX_VIEW_ENTRIES MAX_EXPANDED_LAYER_BYTES)) (\<lambda>_.
          let launch = \<lparr>li_executable = ''/'' @ text, li_arguments = arguments, li_environment = environment,
            li_working_directory = working, li_uid = bi_uid input, li_gid = bi_gid input\<rparr> in
          and_then (map_err StoreSpec (validate_launch_identity launch)) (\<lambda>_. Inr (t, launch)))))))))"

definition sorted_roles :: "(string \<times> bytes) list \<Rightarrow> (string \<times> bytes) list" where
  "sorted_roles = sort_key (\<lambda>(role, data). as_bytes role)"

definition canonical_spec :: "LaunchIdentity \<Rightarrow> CanonicalBinarySpec" where
  "canonical_spec launch = \<lparr>cb_version = WORKLOAD_SPEC_VERSION, cb_kind = KindBinary, cb_install_path = BINARY_INSTALL_PATH,
     cb_arguments = li_arguments launch, cb_environment = li_environment launch,
     cb_working_directory = li_working_directory launch, cb_uid = li_uid launch, cb_gid = li_gid launch\<rparr>"

text \<open>What \<open>binary_graph\<close> does with the executable it has read.\<close>

definition binary_graph_of :: "store_env \<Rightarrow> BinarySource \<Rightarrow> bytes \<Rightarrow> store_error + WorkloadGraph" where
  "binary_graph_of env source executable =
     and_then (map_err StoreWorkload (validate_static_elf executable)) (\<lambda>_.
     and_then (map_err StoreSpec (normalize_required_user (bs_user source))) (\<lambda>(uid, gid).
     and_then (map_err StoreTree (normalize_layer_path (as_bytes BINARY_INSTALL_PATH))) (\<lambda>install.
     and_then (map_err StoreSpec (normalize_arguments (bs_arguments source) ''args'')) (\<lambda>arguments.
     and_then (map_err StoreSpec (normalize_environment (bs_environment source))) (\<lambda>environment.
     and_then (binary_tree_and_launch executable
         \<lparr>bi_install_path = BINARY_INSTALL_PATH, bi_arguments = (''/'' @ text_of_bytes install) # arguments,
          bi_environment = environment, bi_working_directory = bs_working_directory source, bi_uid = uid, bi_gid = gid\<rparr>)
       (\<lambda>(t, launch).
     and_then (canonical_json (sx_spec_to env) (canonical_spec launch)) (\<lambda>specification.
     Inr \<lparr>wg_kind = KindBinary, wg_manifest_digest = None,
          wg_objects = sorted_roles [(''executable'', executable), (''workload-specification'', specification)],
          wg_tree = t, wg_launch = launch, wg_layers = []\<rparr>)))))))"

definition binary_graph :: "store_env \<Rightarrow> Root \<Rightarrow> BinarySource \<Rightarrow> WorkloadGraph storing" where
  "binary_graph env root source =
     act_bind (source_locator_error ''the workload executable'' (read_file root (bs_path source) MAX_FILE_BYTES)) (\<lambda>executable.
     act_lift (binary_graph_of env source executable))"

definition oci_roles :: "OciObjects \<Rightarrow> (string \<times> bytes) list" where
  "oci_roles objects =
     sorted_roles ([(''oci-layout'', oo_layout objects), (''index.json'', oo_index objects),
        (''manifest'', oo_manifest objects), (''config'', oo_config objects)]
      @ map (\<lambda>(position, layer). (''layer-'' @ dec position, layer)) (enumerate 0 (oo_layers objects)))"

definition oci_graph_of :: "store_env \<Rightarrow> OciObjects \<Rightarrow> store_error + WorkloadGraph" where
  "oci_graph_of env objects =
     and_then (map_err StoreOci (parse_graph (sx_oci env) objects)) (\<lambda>graph.
     Inr \<lparr>wg_kind = KindOci, wg_manifest_digest = Some (oo_manifest_digest objects), wg_objects = oci_roles objects,
          wg_tree = og_tree graph, wg_launch = og_launch graph, wg_layers = og_layers graph\<rparr>)"

text \<open>What the image reader finds beneath the opened layout directory.\<close>

definition layout_view :: "host \<Rightarrow> Root \<Rightarrow> host_root" where
  "layout_view s root relative =
     (case components relative of
        Inl _ \<Rightarrow> Some OtherNode
      | Inr parts \<Rightarrow>
          (case find (\<lambda>k. map_option hi_content (inode_at s (root @ take k parts)) \<noteq> Some HostDir) [1..<length parts] of
             Some k \<Rightarrow> if inode_at s (root @ take k parts) = None then None else Some OtherNode
           | None \<Rightarrow>
               (case inode_at s (root @ parts) of
                  None \<Rightarrow> None
                | Some n \<Rightarrow> (case hi_content n of HostFile data \<Rightarrow> Some (RegularFile data) | _ \<Rightarrow> Some OtherNode))))"

definition oci_graph :: "store_env \<Rightarrow> Root \<Rightarrow> OciSource \<Rightarrow> WorkloadGraph storing" where
  "oci_graph env root source =
     act_bind (source_locator_error ''the workload layout directory'' (open_directory root (os_layout source))) (\<lambda>layout.
     act_bind act_get (\<lambda>s.
     act_bind (act_lift (map_err StoreOci (Oci_Image.read_objects (sx_oci env) (layout_view s layout) (os_manifest_digest source))))
       (\<lambda>objects. act_lift (oci_graph_of env objects))))"

section \<open>Raw objects\<close>

definition is_layer_role :: "string \<Rightarrow> bool" where
  "is_layer_role role = (case strip_prefix ''layer-'' role of
     Some index \<Rightarrow> index \<noteq> [] \<and> list_all is_digit index | None \<Rightarrow> False)"

definition role_limit :: "string \<Rightarrow> nat option" where
  "role_limit role =
     (if role = ''oci-layout'' then Some MAX_LAYOUT_BYTES
      else if role = ''index.json'' then Some MAX_INDEX_BYTES
      else if role = ''manifest'' then Some MAX_MANIFEST_BYTES
      else if role = ''config'' then Some MAX_CONFIG_BYTES
      else if role = ''executable'' then Some MAX_FILE_BYTES
      else if role = ''workload-specification'' then Some MAX_SPECIFICATION_BYTES
      else if is_layer_role role then Some MAX_LAYER_BYTES else None)"

definition object_path :: "string \<Rightarrow> string" where
  "object_path hex = ''raw/sha256/'' @ hex"

definition write_object :: "store_env \<Rightarrow> Root \<Rightarrow> bytes \<Rightarrow> unit storing" where
  "write_object env root data =
     (let digest = sha256_bytes (sx_sha env) data; path = object_path digest in
      act_bind (on_root (read_file_if_exists root path (length data))) (\<lambda>existing.
      case existing of
        Some bytes \<Rightarrow>
          if bytes \<noteq> data then act_fail (StoreInvalid (''existing raw object '' @ digest @ '' is corrupt''))
          else on_root (require_private_file root path)
      | None \<Rightarrow> on_root (write_file_atomic root path data)))"

definition read_object :: "store_env \<Rightarrow> Root \<Rightarrow> (string \<times> bytes) list \<Rightarrow> nat \<times> ObjectRecord \<Rightarrow> (string \<times> bytes) list storing" where
  "read_object env root objects = (\<lambda>(index, record).
     case role_limit (or_role record) of
       None \<Rightarrow> act_fail (StoreInvalid (''raw closure object '' @ dec index @ '' names an unknown role''))
     | Some limit \<Rightarrow>
         if or_bytes record > limit
         then act_fail (StoreInvalid (''raw object '' @ dec index @ '' exceeds the '' @ dec limit @ ''-byte policy limit''))
         else act_bind (act_lift (map_err StoreSpec (parse_digest (or_digest record)))) (\<lambda>hex.
           if or_role record \<in> fst ` set objects
           then act_fail (StoreInvalid (''raw closure object '' @ dec index @ '' repeats the role of an earlier object''))
           else act_bind (read_required root (object_path hex) (or_bytes record) (''raw object '' @ or_digest record)) (\<lambda>data.
             if length data \<noteq> or_bytes record \<or> sha256_bytes (sx_sha env) data \<noteq> hex
             then act_fail (StoreInvalid (''raw object '' @ or_digest record @ '' does not match its recorded identity''))
             else act_return (objects @ [(or_role record, data)]))))"

fun read_each :: "store_env \<Rightarrow> Root \<Rightarrow> (string \<times> bytes) list \<Rightarrow> (nat \<times> ObjectRecord) list \<Rightarrow> (string \<times> bytes) list storing" where
  "read_each env root objects [] = act_return objects"
| "read_each env root objects (record # records) =
     act_bind (read_object env root objects record) (\<lambda>objects. read_each env root objects records)"

definition read_raw_objects :: "store_env \<Rightarrow> Root \<Rightarrow> Closure \<Rightarrow> (string \<times> bytes) list storing" where
  "read_raw_objects env root closure =
     (if length (cl_objects closure) > MAX_RAW_OBJECTS
      then act_fail (StoreInvalid (''raw closure has more than '' @ dec MAX_RAW_OBJECTS @ '' objects''))
      else read_each env root [] (enumerate 0 (cl_objects closure)))"

section \<open>The derivation from raw objects\<close>

definition expected_oci_roles :: "nat \<Rightarrow> string list" where
  "expected_oci_roles layer_count =
     [''config'', ''index.json'', ''manifest'', ''oci-layout''] @ map (\<lambda>position. ''layer-'' @ dec position) [0..<layer_count]"

definition replay_binary :: "store_env \<Rightarrow> (string \<times> bytes) list \<Rightarrow> store_error + WorkloadGraph" where
  "replay_binary env objects =
     and_then (ok_or (StoreInvalid ''binary closure has no workload-specification object'') (map_of objects ''workload-specification''))
       (\<lambda>specification.
     and_then (ok_or (StoreInvalid ''binary closure has no executable object'') (map_of objects ''executable'')) (\<lambda>executable.
     if length objects \<noteq> 2 then Inl (StoreInvalid ''binary closure names unexpected objects'')
     else and_then (ok_or (Malformed ''malformed canonical specification'') (sx_spec_from env specification)) (\<lambda>canonical.
       if cb_version canonical \<noteq> WORKLOAD_SPEC_VERSION \<or> cb_kind canonical \<noteq> KindBinary
       then Inl (StoreInvalid ''canonical specification is not a version-1 binary'')
       else and_then (map_err StoreWorkload (validate_static_elf executable)) (\<lambda>_.
         and_then (binary_tree_and_launch executable
             \<lparr>bi_install_path = cb_install_path canonical, bi_arguments = cb_arguments canonical,
              bi_environment = cb_environment canonical, bi_working_directory = cb_working_directory canonical,
              bi_uid = cb_uid canonical, bi_gid = cb_gid canonical\<rparr>)
           (\<lambda>(t, launch). Inr \<lparr>wg_kind = KindBinary, wg_manifest_digest = None, wg_objects = sorted_roles objects,
              wg_tree = t, wg_launch = launch, wg_layers = []\<rparr>)))))"

text \<open>An indexed object is there, because every expected role is.\<close>

definition object_of :: "(string \<times> bytes) list \<Rightarrow> string \<Rightarrow> bytes" where
  "object_of objects role = (case map_of objects role of Some data \<Rightarrow> data | None \<Rightarrow> [])"

definition replay_oci :: "store_env \<Rightarrow> Closure \<Rightarrow> (string \<times> bytes) list \<Rightarrow> store_error + WorkloadGraph" where
  "replay_oci env closure objects =
     and_then (ok_or (StoreInvalid ''OCI closure has no manifest digest'') (cl_manifest_digest closure)) (\<lambda>raw_digest.
     and_then (map_err (\<lambda>_. StoreInvalid ''the OCI closure manifest digest is not a sha256 digest'') (parse_digest raw_digest)) (\<lambda>hex.
     let manifest_digest = ''sha256:'' @ hex; layer_count = length (cl_layers closure); expected = expected_oci_roles layer_count in
     if length objects \<noteq> length expected \<or> \<not> list_all (\<lambda>role. role \<in> fst ` set objects) expected
     then Inl (StoreInvalid ''OCI closure names unexpected objects'')
     else and_then (collect (\<lambda>position. ok_or (StoreInvalid ''OCI closure is missing a layer object'')
         (map_of objects (''layer-'' @ dec position))) [0..<layer_count]) (\<lambda>layers.
       and_then (map_err StoreOci (parse_graph (sx_oci env)
           \<lparr>oo_layout = object_of objects ''oci-layout'', oo_index = object_of objects ''index.json'',
            oo_manifest = object_of objects ''manifest'', oo_config = object_of objects ''config'',
            oo_layers = layers, oo_manifest_digest = manifest_digest\<rparr>)) (\<lambda>graph.
       Inr \<lparr>wg_kind = KindOci, wg_manifest_digest = Some manifest_digest, wg_objects = sorted_roles objects,
            wg_tree = og_tree graph, wg_launch = og_launch graph, wg_layers = og_layers graph\<rparr>))))"

definition replay_graph :: "store_env \<Rightarrow> Closure \<Rightarrow> (string \<times> bytes) list \<Rightarrow> store_error + WorkloadGraph" where
  "replay_graph env closure objects =
     (case cl_kind closure of KindBinary \<Rightarrow> replay_binary env objects | KindOci \<Rightarrow> replay_oci env closure objects)"

section \<open>The derived entry\<close>

definition derived_path :: "string \<Rightarrow> string \<Rightarrow> string" where
  "derived_path digest name = ''derived/'' @ digest @ name"

definition lock_of :: "string \<Rightarrow> string \<Rightarrow> string \<Rightarrow> string \<Rightarrow> DerivedLock" where
  "lock_of digest tree_sha256 template_sha256 closure_sha256 =
     \<lparr>dl_version = DERIVED_LOCK_VERSION, dl_canonical_digest = digest, dl_tree_sha256 = tree_sha256,
      dl_template_sha256 = template_sha256, dl_closure_sha256 = closure_sha256, dl_raw_closure = RAW_CLOSURE_PATH\<rparr>"

definition cleanup_staging :: "Root \<Rightarrow> string \<Rightarrow> (host, 'e, unit) action" where
  "cleanup_staging root staging =
     act_bind (dropped (remove_file_if_exists root (staging @ ''/tree.bin''))) (\<lambda>_.
     act_bind (dropped (remove_file_if_exists root (staging @ ''/template.cpio''))) (\<lambda>_.
     act_bind (dropped (remove_file_if_exists root (staging @ ''/lock.json''))) (\<lambda>_.
     dropped (remove_directory_if_exists root staging))))"

definition write_staged :: "Root \<Rightarrow> string \<Rightarrow> bytes \<Rightarrow> bytes \<Rightarrow> bytes \<Rightarrow> unit root_action" where
  "write_staged root staging tree_bytes template_bytes lock_bytes =
     act_bind (write_file_atomic root (staging @ ''/tree.bin'') tree_bytes) (\<lambda>_.
     act_bind (write_file_atomic root (staging @ ''/template.cpio'') template_bytes) (\<lambda>_.
     write_file_atomic root (staging @ ''/lock.json'') lock_bytes))"

definition install_staged :: "Root \<Rightarrow> string \<Rightarrow> string \<Rightarrow> unit storing" where
  "install_staged root staging destination =
     act_bind (outcome (root_rename root staging destination)) (\<lambda>renamed.
     case renamed of
       Inr _ \<Rightarrow> act_return ()
     | Inl e \<Rightarrow>
         act_bind (cleanup_staging root staging) (\<lambda>_.
         act_bind (on_root (root_exists root destination)) (\<lambda>there.
         if there then act_return () else act_fail (StoreRoot e))))"

definition publish_derived ::
    "store_env \<Rightarrow> Root \<Rightarrow> string \<Rightarrow> bytes \<Rightarrow> bytes \<Rightarrow> string \<Rightarrow> string \<Rightarrow> string \<Rightarrow> unit storing" where
  "publish_derived env root digest tree_bytes template_bytes closure_sha256 tree_sha256 template_sha256 =
     act_bind (act_lift (canonical_json (sx_lock_to env) (lock_of digest tree_sha256 template_sha256 closure_sha256))) (\<lambda>lock_bytes.
     if length lock_bytes > MAX_CACHE_METADATA_BYTES
     then act_fail (StoreInvalid (''derived lock exceeds '' @ dec MAX_CACHE_METADATA_BYTES @ '' bytes''))
     else
       act_bind (on_root (open_or_create_directory root ''derived'')) (\<lambda>_.
       act_bind (staging_name digest) (\<lambda>name.
       let staging = ''derived/'' @ name in
       act_bind (on_root (create_directory root staging)) (\<lambda>_.
       act_bind (outcome (write_staged root staging tree_bytes template_bytes lock_bytes)) (\<lambda>written.
       case written of
         Inl e \<Rightarrow> act_bind (cleanup_staging root staging) (\<lambda>_. act_fail (StoreRoot e))
       | Inr _ \<Rightarrow> install_staged root staging (derived_path digest []))))))"

definition require_private_derived :: "Root \<Rightarrow> string \<Rightarrow> unit storing" where
  "require_private_derived root digest =
     act_bind (on_root (require_private_directory root (derived_path digest []))) (\<lambda>_.
     act_each (\<lambda>name. on_root (require_private_file root (derived_path digest (''/'' @ name))))
       [''tree.bin'', ''template.cpio'', ''lock.json''])"

text \<open>The digest of the stored template; one that is not there is reported as missing.\<close>

definition stored_template :: "store_env \<Rightarrow> Root \<Rightarrow> string \<Rightarrow> string storing" where
  "stored_template env root digest = (\<lambda>s.
     let (r, t) = sha256_file (sx_sha env) root (derived_path digest ''/template.cpio'') MAX_TEMPLATE_BYTES s in
     (map_err (\<lambda>e. if root_error_kind e = KindNotFound then StoreInvalid ''derived guest template is missing'' else StoreRoot e) r, t))"

definition verify_derived ::
    "store_env \<Rightarrow> Root \<Rightarrow> string \<Rightarrow> bytes \<Rightarrow> string \<Rightarrow> string \<Rightarrow> string \<Rightarrow> unit storing" where
  "verify_derived env root digest tree_bytes template_sha256 closure_sha256 tree_sha256 =
     act_bind (read_required root (derived_path digest ''/tree.bin'') MAX_CACHE_METADATA_BYTES ''derived tree manifest'') (\<lambda>stored_tree.
     if stored_tree \<noteq> tree_bytes then act_fail (StoreInvalid ''derived cache entry does not match the raw closure'')
     else act_bind (stored_template env root digest) (\<lambda>stored.
       if stored \<noteq> template_sha256 then act_fail (StoreInvalid ''derived guest template does not match the raw closure'')
       else act_bind (read_required root (derived_path digest ''/lock.json'') MAX_CACHE_METADATA_BYTES ''derived lock'') (\<lambda>lock_bytes.
         act_bind (act_lift (ok_or (Malformed ''malformed derived lock'') (sx_lock_from env lock_bytes))) (\<lambda>lock.
         if lock \<noteq> lock_of digest tree_sha256 template_sha256 closure_sha256
         then act_fail (StoreInvalid ''derived cache entry does not name this raw closure'')
         else act_return ()))))"

section \<open>Publication\<close>

definition publish_closure :: "Root \<Rightarrow> bytes \<Rightarrow> unit storing" where
  "publish_closure root bytes =
     act_bind (on_root (publish_exclusive root RAW_CLOSURE_PATH bytes)) (\<lambda>published.
     if published then act_return ()
     else act_bind (on_root (read_file root RAW_CLOSURE_PATH MAX_CACHE_METADATA_BYTES)) (\<lambda>existing.
       if existing = bytes then on_root (require_private_file root RAW_CLOSURE_PATH)
       else act_fail (StoreInvalid ''store already contains a different raw closure; use a separate store per workload'')))"

definition object_record :: "store_env \<Rightarrow> nat \<times> string \<times> bytes \<Rightarrow> store_error + ObjectRecord" where
  "object_record env = (\<lambda>(index, role, data).
     case role_limit role of
       None \<Rightarrow> Inl (StoreInvalid (''assembled raw closure object '' @ dec index @ '' names an unknown role''))
     | Some limit \<Rightarrow>
         if length data > limit
         then Inl (StoreInvalid (''raw object '' @ dec index @ '' exceeds its '' @ dec limit @ ''-byte policy limit''))
         else Inr \<lparr>or_role = role, or_digest = ''sha256:'' @ sha256_bytes (sx_sha env) data, or_bytes = length data\<rparr>)"

text \<open>What publication computes before it touches the store: closure, its bytes, tree bytes and template.\<close>

record publication =
  pb_closure :: Closure
  pb_closure_bytes :: bytes
  pb_tree_bytes :: bytes
  pb_template :: bytes

definition closure_of :: "store_env \<Rightarrow> WorkloadGraph \<Rightarrow> bytes \<Rightarrow> ObjectRecord list \<Rightarrow> Closure" where
  "closure_of env graph template_bytes records =
     \<lparr>cl_version = CLOSURE_VERSION, cl_kind = wg_kind graph, cl_manifest_digest = wg_manifest_digest graph,
      cl_policy = Policy_current, cl_limits = Limits_current, cl_objects = records, cl_layers = wg_layers graph,
      cl_launch = wg_launch graph, cl_canonical_digest = canonical_digest (sx_sha env) (wg_tree graph),
      cl_tree_sha256 = sha256_bytes (sx_sha env) (encode (sx_sha env) (wg_tree graph)),
      cl_template_sha256 = sha256_bytes (sx_sha env) template_bytes,
      cl_entries = Tree_len (wg_tree graph), cl_expanded_bytes = expanded_bytes (wg_tree graph)\<rparr>"

definition prepare_publication :: "store_env \<Rightarrow> WorkloadGraph \<Rightarrow> store_error + publication" where
  "prepare_publication env graph =
     and_then (map_err StoreTree (validate_canonical_tree (wg_tree graph) MAX_VIEW_ENTRIES MAX_EXPANDED_LAYER_BYTES)) (\<lambda>_.
     and_then (map_err StoreWorkload (validate_overlay_compatibility (wg_tree graph) (wg_launch graph))) (\<lambda>_.
     let tree_bytes = encode (sx_sha env) (wg_tree graph) in
     if length tree_bytes > MAX_CACHE_METADATA_BYTES
     then Inl (StoreInvalid (''canonical tree manifest exceeds '' @ dec MAX_CACHE_METADATA_BYTES @ '' bytes''))
     else and_then (map_err StoreTree (template (wg_tree graph) GUEST_TEMPLATE_ROOT)) (\<lambda>template_bytes.
       if length template_bytes > MAX_TEMPLATE_BYTES
       then Inl (StoreInvalid (''guest template exceeds '' @ dec MAX_TEMPLATE_BYTES @ '' bytes''))
       else if length (wg_objects graph) > MAX_RAW_OBJECTS
       then Inl (StoreInvalid (''raw closure has more than '' @ dec MAX_RAW_OBJECTS @ '' objects''))
       else and_then (collect (object_record env) (enumerate 0 (wg_objects graph))) (\<lambda>records.
         let closure = closure_of env graph template_bytes records in
         and_then (canonical_json (sx_closure_to env) closure) (\<lambda>closure_bytes.
         if length closure_bytes > MAX_CACHE_METADATA_BYTES
         then Inl (StoreInvalid (''raw closure record exceeds '' @ dec MAX_CACHE_METADATA_BYTES @ '' bytes''))
         else Inr \<lparr>pb_closure = closure, pb_closure_bytes = closure_bytes, pb_tree_bytes = tree_bytes,
                  pb_template = template_bytes\<rparr>)))))"

text \<open>\<open>DirBuilder::recursive\<close> with mode 0700: every missing directory on the way is created.\<close>

definition create_store :: "host_path \<Rightarrow> unit storing" where
  "create_store path =
     act_each (\<lambda>k. act_bind act_get (\<lambda>s.
       if map_option hi_content (inode_at s (take k path)) = Some HostDir then act_return ()
       else on_root (unnamed (sys_create HostDir 0x1c0 (take k path))))) [1..<length path + 1]"

definition check_existing_closure :: "Root \<Rightarrow> bytes \<Rightarrow> unit storing" where
  "check_existing_closure root closure_bytes =
     act_bind (on_root (read_file_if_exists root RAW_CLOSURE_PATH MAX_CACHE_METADATA_BYTES)) (\<lambda>existing.
     if existing \<noteq> None \<and> existing \<noteq> Some closure_bytes
     then act_fail (StoreInvalid ''store already contains a different raw closure; use a separate store per workload'')
     else act_return ())"

definition commit :: "store_env \<Rightarrow> Root \<Rightarrow> WorkloadGraph \<Rightarrow> publication \<Rightarrow> unit storing" where
  "commit env root graph pub =
     (let closure_sha256 = sha256_bytes (sx_sha env) (pb_closure_bytes pub); closure = pb_closure pub in
      act_bind (check_existing_closure root (pb_closure_bytes pub)) (\<lambda>_.
      act_bind (on_root (open_or_create_directory root ''raw/sha256'')) (\<lambda>_.
      act_bind (act_each (\<lambda>(role, data). write_object env root data) (wg_objects graph)) (\<lambda>_.
      act_bind (publish_derived env root (cl_canonical_digest closure) (pb_tree_bytes pub) (pb_template pub) closure_sha256
        (cl_tree_sha256 closure) (cl_template_sha256 closure)) (\<lambda>_.
      act_bind (require_private_derived root (cl_canonical_digest closure)) (\<lambda>_.
      act_bind (verify_derived env root (cl_canonical_digest closure) (pb_tree_bytes pub) (cl_template_sha256 closure) closure_sha256
        (cl_tree_sha256 closure)) (\<lambda>_.
      publish_closure root (pb_closure_bytes pub))))))))"

definition publish :: "store_env \<Rightarrow> host_path \<Rightarrow> WorkloadGraph \<Rightarrow> AssembledWorkload storing" where
  "publish env store graph =
     act_bind (act_lift (prepare_publication env graph)) (\<lambda>pub.
     act_bind (create_store store) (\<lambda>_.
     act_bind (on_root (open_private store)) (\<lambda>root.
     act_bind (commit env root graph pub) (\<lambda>_.
     act_return \<lparr>aw_source_kind = wg_kind graph, aw_closure_sha256 = sha256_bytes (sx_sha env) (pb_closure_bytes pub),
       aw_canonical_digest = cl_canonical_digest (pb_closure pub), aw_tree_sha256 = cl_tree_sha256 (pb_closure pub),
       aw_template_sha256 = cl_template_sha256 (pb_closure pub), aw_entries = Tree_len (wg_tree graph),
       aw_expanded_bytes = expanded_bytes (wg_tree graph), aw_raw_objects = length (wg_objects graph),
       aw_launch = wg_launch graph\<rparr>))))"

text \<open>
  \<open>assemble\<close> of a specification that was read and parsed, beside the directory it was found in: the graph
  of its source, then the publication.
\<close>

definition source_graph :: "store_env \<Rightarrow> WorkloadSpec \<Rightarrow> host_path \<Rightarrow> WorkloadGraph storing" where
  "source_graph env spec directory =
     act_bind (on_root (Root_open directory)) (\<lambda>root.
     case ws_source spec of
       SourceBinary source \<Rightarrow> binary_graph env root source
     | SourceOci source \<Rightarrow> oci_graph env root source)"

definition assemble :: "store_env \<Rightarrow> WorkloadSpec \<Rightarrow> host_path \<Rightarrow> host_path \<Rightarrow> AssembledWorkload storing" where
  "assemble env spec directory store = act_bind (source_graph env spec directory) (publish env store)"

section \<open>Load\<close>

definition check_closure :: "Closure \<Rightarrow> store_error + unit" where
  "check_closure closure =
     (if cl_version closure \<noteq> CLOSURE_VERSION
      then Inl (StoreInvalid (''unsupported raw closure version '' @ dec (cl_version closure)))
      else if cl_policy closure \<noteq> Policy_current
      then Inl (StoreInvalid ''raw closure was recorded under a different policy version'')
      else if cl_limits closure \<noteq> Limits_current
      then Inl (StoreInvalid ''raw closure was recorded under different limits'')
      else Inr ())"

text \<open>What is derived again from the raw objects must be what the closure recorded; the guest template.\<close>

definition check_graph :: "store_env \<Rightarrow> Closure \<Rightarrow> WorkloadGraph \<Rightarrow> store_error + bytes" where
  "check_graph env closure graph =
     and_then (map_err StoreWorkload (validate_overlay_compatibility (wg_tree graph) (wg_launch graph))) (\<lambda>_.
     if wg_launch graph \<noteq> cl_launch closure
     then Inl (StoreInvalid ''re-derived launch identity does not match the raw closure'')
     else if wg_layers graph \<noteq> cl_layers closure
     then Inl (StoreInvalid ''re-derived layer evidence does not match the raw closure'')
     else if canonical_digest (sx_sha env) (wg_tree graph) \<noteq> cl_canonical_digest closure
     then Inl (StoreInvalid ''re-derived canonical digest does not match the raw closure'')
     else if sha256_bytes (sx_sha env) (encode (sx_sha env) (wg_tree graph)) \<noteq> cl_tree_sha256 closure
     then Inl (StoreInvalid ''re-derived tree manifest does not match the raw closure'')
     else and_then (map_err StoreTree (template (wg_tree graph) GUEST_TEMPLATE_ROOT)) (\<lambda>template_bytes.
       if sha256_bytes (sx_sha env) template_bytes \<noteq> cl_template_sha256 closure
       then Inl (StoreInvalid ''re-derived guest template does not match the raw closure'')
       else if Tree_len (wg_tree graph) \<noteq> cl_entries closure \<or> expanded_bytes (wg_tree graph) \<noteq> cl_expanded_bytes closure
       then Inl (StoreInvalid ''re-derived canonical tree does not match the raw closure'')
       else Inr template_bytes))"

definition load :: "store_env \<Rightarrow> host_path \<Rightarrow> LoadedWorkload storing" where
  "load env store =
     act_bind (on_root (Root_open store)) (\<lambda>root.
     act_bind (read_required root RAW_CLOSURE_PATH MAX_CACHE_METADATA_BYTES (''raw closure '' @ RAW_CLOSURE_PATH)) (\<lambda>closure_bytes.
     let closure_sha256 = sha256_bytes (sx_sha env) closure_bytes in
     act_bind (act_lift (ok_or (Malformed ''malformed raw closure'') (sx_closure_from env closure_bytes))) (\<lambda>closure.
     act_bind (act_lift (check_closure closure)) (\<lambda>_.
     act_bind (read_raw_objects env root closure) (\<lambda>objects.
     act_bind (act_lift (replay_graph env closure objects)) (\<lambda>graph.
     act_bind (act_lift (check_graph env closure graph)) (\<lambda>template_bytes.
     act_bind (verify_derived env root (cl_canonical_digest closure) (encode (sx_sha env) (wg_tree graph))
       (cl_template_sha256 closure) closure_sha256 (cl_tree_sha256 closure)) (\<lambda>_.
     act_return \<lparr>lw_source_kind = cl_kind closure, lw_closure_sha256 = closure_sha256,
       lw_canonical_digest = cl_canonical_digest closure, lw_tree = wg_tree graph, lw_template = template_bytes,
       lw_launch = cl_launch closure\<rparr>))))))))"

section \<open>Paths of the store\<close>

definition clean_name :: "string \<Rightarrow> bool" where
  "clean_name name \<longleftrightarrow> name \<noteq> [] \<and> name \<noteq> ''.'' \<and> name \<noteq> ''..'' \<and> CHR ''/'' \<notin> set name \<and> CHR 0x00 \<notin> set name"

lemma components_join: "list_all clean_name parts \<Longrightarrow> parts \<noteq> [] \<Longrightarrow> components (join_with CHR ''/'' parts) = Inr parts"
proof -
  assume parts: "list_all clean_name parts" "parts \<noteq> []"
  have collected: "for_each (\<lambda>result component.
      if component = [] \<or> component = ''.'' then Inr result
      else if component = ''..'' then Inl (EscapesRoot relative)
      else if CHR 0x00 \<in> set component then Inl (PathNul relative)
      else Inr (result @ [component])) acc ps = Inr (acc @ ps)" if "list_all clean_name ps" for relative acc ps
    using that by (induction ps arbitrary: acc) (auto simp: clean_name_def)
  have "split_on CHR ''/'' (join_with CHR ''/'' parts) = parts"
    using parts by (intro split_join) (auto simp: list_all_iff clean_name_def)
  moreover have "join_with CHR ''/'' parts \<noteq> []"
    using parts by (cases parts rule: remdups_adj.cases) (auto simp: clean_name_def)
  ultimately show ?thesis by (simp add: components_def collected [OF parts(1)])
qed

lemma split_relative_join:
  "list_all clean_name (parents @ [name]) \<Longrightarrow> split_relative (join_with CHR ''/'' (parents @ [name])) = Inr (parents, name)"
  using components_join [of "parents @ [name]"] by (simp add: split_relative_def)

lemma clean_hex: "bs \<noteq> [] \<Longrightarrow> clean_name (hex_text bs)"
proof -
  assume "bs \<noteq> []"
  then have "hex_text bs \<noteq> []" by (cases bs) (simp_all add: hex_of_byte_def)
  moreover have "c \<notin> set (hex_text bs)" if "c \<in> {CHR ''.'', CHR ''/'', CHR 0x00}" for c
    using set_hex_text [of bs] that by auto
  ultimately show ?thesis unfolding clean_name_def by force
qed

lemma staging_clean:
  assumes run: "staging_name name s = (Inr temporary, t)" and name: "clean_name name"
  shows "clean_name temporary"
proof -
  have "temporary = ''.'' @ name @ ''.staging.'' @ dec (ho_pid s) @ ''.'' @ dec (ho_counter s)"
    using run by (simp add: staging_name_def)
  moreover have "c \<notin> set (dec n)" if "c \<in> {CHR ''/'', CHR 0x00}" for c n
    using set_dec [of n] that by auto
  ultimately show ?thesis using name by (auto simp: clean_name_def)
qed

lemma fixed_names [simp]:
  "clean_name ''raw''" "clean_name ''sha256''" "clean_name ''derived''" "clean_name ''closure.json''"
  "clean_name ''tree.bin''" "clean_name ''template.cpio''" "clean_name ''lock.json''"
  by (simp_all add: clean_name_def)

lemma store_paths:
  "split_relative RAW_CLOSURE_PATH = Inr ([''raw''], ''closure.json'')"
  "components ''raw/sha256'' = Inr [''raw'', ''sha256'']"
  "components ''derived'' = Inr [''derived'']"
  "clean_name x \<Longrightarrow> split_relative (object_path x) = Inr ([''raw'', ''sha256''], x)"
  "clean_name x \<Longrightarrow> components (derived_path x []) = Inr [''derived'', x]"
  "clean_name x \<Longrightarrow> split_relative (derived_path x []) = Inr ([''derived''], x)"
  "clean_name x \<Longrightarrow> clean_name name \<Longrightarrow> split_relative (derived_path x (CHR ''/'' # name)) = Inr ([''derived'', x], name)"
  using split_relative_join [of "[''raw'']" "''closure.json''"] components_join [of "[''raw'', ''sha256'']"]
    components_join [of "[''derived'']"] split_relative_join [of "[''raw'', ''sha256'']" x]
    components_join [of "[''derived'', x]"] split_relative_join [of "[''derived'']" x] split_relative_join [of "[''derived'', x]" name]
  by (simp_all add: RAW_CLOSURE_PATH_def object_path_def derived_path_def)

lemma staged_paths: "''derived/'' @ x = derived_path x []" "derived_path x [] @ y = derived_path x y"
  by (simp_all add: derived_path_def)

section \<open>What the store touches\<close>

context host_steps
begin

lemma always_storing:
  "always (a :: 'x root_action) \<Longrightarrow> always (on_root a)" "always (read_required root path limit what)"
  "always (stored_template env root digest)"
  using always_read_file always_sha256_file
  by (simp_all add: always_def on_root_def read_required_def stored_template_def prod.case_eq_if)

lemma always_write_object:
  assumes "clean_name (sha256_bytes (sx_sha env) data)"
    and "\<And>p. prefix p (root @ [''raw'', ''sha256'']) \<Longrightarrow> make p" "\<And>x. make (root @ [''raw'', ''sha256'', x])"
    and "\<And>x. touch (root @ [''raw'', ''sha256'', CHR ''.'' # x])" "touch (root @ [''raw'', ''sha256'', sha256_bytes (sx_sha env) data])"
  shows "always (write_object env root data)"
  unfolding write_object_def Let_def
  using assms
  by (auto split: option.splits intro!: always_bind always_pure always_storing always_reading
      always_write_file_atomic [OF store_paths(4)])

lemma always_cleanup_staging:
  assumes "clean_name x" "\<And>x ys. touch (root @ ''derived'' # x # ys)"
  shows "always (cleanup_staging root (derived_path x []))"
  unfolding cleanup_staging_def staged_paths
  using assms
  by (intro always_bind always_wrapped)
    (auto intro: always_remove(1) [OF store_paths(7)] always_remove(2) [OF store_paths(6)])

lemma always_write_staged:
  assumes "clean_name x" "\<And>p. prefix p (root @ [''derived'']) \<Longrightarrow> make p" "\<And>x ys. make (root @ ''derived'' # x # ys)"
    "\<And>x ys. touch (root @ ''derived'' # x # ys)"
  shows "always (write_staged root (derived_path x []) tree_bytes template_bytes lock_bytes)"
proof -
  have below: "make p" if "prefix p (root @ [''derived'', x])" for p
  proof -
    have "p = root @ [''derived'', x] \<or> prefix p (root @ [''derived''])"
      using that prefix_snoc [of p "root @ [''derived'']" x] by simp
    then show ?thesis using assms(2) assms(3) [of x "[]"] by auto
  qed
  have "always (write_file_atomic root (derived_path x (CHR ''/'' # name)) data)" if "clean_name name" for name data
    by (rule always_write_file_atomic [OF store_paths(7)]) (simp_all add: assms that below)
  then show ?thesis
    unfolding write_staged_def staged_paths by (auto intro!: always_bind)
qed

lemma always_install_staged:
  assumes "clean_name x" "clean_name y" "\<And>x ys. touch (root @ ''derived'' # x # ys)"
  shows "always (install_staged root (derived_path x []) (derived_path y []))"
  unfolding install_staged_def
  using assms
  by (auto split: sum.splits intro!: always_bind always_wrapped always_storing always_reading always_cleanup_staging always_pure
      always_root_rename [OF store_paths(6) store_paths(6)])

lemma always_publish_derived:
  assumes clean: "clean_name digest" and make: "\<And>p. prefix p (root @ [''derived'']) \<Longrightarrow> make p"
    "\<And>x ys. make (root @ ''derived'' # x # ys)" and touch: "\<And>x ys. touch (root @ ''derived'' # x # ys)"
  shows "always (publish_derived env root digest tree_bytes template_bytes closure_sha256 tree_sha256 template_sha256)"
proof -
  have staged: "always (act_bind (on_root (create_directory root (derived_path x []))) (\<lambda>_.
      act_bind (outcome (write_staged root (derived_path x []) tree_bytes template_bytes lock_bytes)) (\<lambda>written.
      case written of
        Inl e \<Rightarrow> act_bind (cleanup_staging root (derived_path x [])) (\<lambda>_. act_fail (StoreRoot e))
      | Inr _ \<Rightarrow> install_staged root (derived_path x []) (derived_path digest []))))"
    if "clean_name x" for x lock_bytes
    using that assms
    by (auto split: sum.splits intro!: always_bind always_wrapped always_storing always_pure always_write_staged
        always_cleanup_staging always_install_staged always_create_directory [OF store_paths(6)])
  show ?thesis
    unfolding publish_derived_def staged_paths(1) Let_def
    by (rule always_bind [OF always_pure(3)], rule always_if [OF always_pure(2)],
        rule always_bind [OF always_storing(1) [OF always_created_directory [OF make(1) store_paths(3)]]], assumption,
        rule always_bind_value [OF always_staging_name], rule staged, erule staging_clean [OF _ clean])
qed

lemma always_require_private_derived: "always (require_private_derived root digest)"
proof -
  have "always (act_each (\<lambda>name. on_root (require_private_file root (derived_path digest (''/'' @ name)))) names)" for names
    by (induction names) (simp_all only: act_each.simps always_pure always_bind always_storing always_reading)
  then show ?thesis
    unfolding require_private_derived_def by (intro always_bind always_storing always_reading)
qed

lemma always_verify_derived:
  "always (verify_derived env root digest tree_bytes template_sha256 closure_sha256 tree_sha256)"
  unfolding verify_derived_def by (intro always_bind always_if always_pure always_storing)

lemma always_check_existing_closure: "always (check_existing_closure root closure_bytes)"
  unfolding check_existing_closure_def by (intro always_bind always_if always_pure always_storing always_reading)

lemma pending_publish_closure:
  assumes "\<And>p. prefix p (root @ [''raw'']) \<Longrightarrow> make p" "\<And>x. make (root @ [''raw'', CHR ''.'' # x])"
    and "\<And>x. touch (root @ [''raw'', CHR ''.'' # x])"
  shows "pending (\<lambda>_. True) (publish_closure root bytes)"
proof -
  have "pending (\<lambda>published. published) (on_root (publish_exclusive root RAW_CLOSURE_PATH bytes))"
    using pending_publish_exclusive [OF store_paths(1), of root bytes] assms
    by (simp add: pending_def on_root_def) (fastforce split: prod.splits)
  then show ?thesis
    unfolding publish_closure_def
    by (rule pending_bind_until) (auto intro!: pending_always always_bind always_if always_pure always_storing always_reading)
qed

end

context host_steps
begin

lemma always_objects:
  assumes "\<And>data. clean_name (sha256_bytes (sx_sha env) data)"
    and "\<And>p. prefix p (root @ [''raw'', ''sha256'']) \<Longrightarrow> make p" "\<And>x. make (root @ [''raw'', ''sha256'', x])"
    and "\<And>x. touch (root @ [''raw'', ''sha256'', x])"
  shows "always (act_each (\<lambda>(role, data). write_object env root data) objects)"
  by (rule always_each) (auto intro: always_write_object assms)

lemma always_create_store: "(\<And>p. prefix p path \<Longrightarrow> make p) \<Longrightarrow> always (create_store path)"
  unfolding create_store_def
  by (intro always_each always_bind always_if always_pure always_storing always_wrapped always_create) (simp add: take_is_prefix)

lemma pending_commit:
  assumes clean: "\<And>data. clean_name (sha256_bytes (sx_sha env) data)" "clean_name (cl_canonical_digest (pb_closure pub))"
    and make: "\<And>p. p \<noteq> root @ [''raw'', ''closure.json''] \<Longrightarrow> make p"
    and touch: "\<And>x. touch (root @ [''raw'', ''sha256'', x])" "\<And>x. touch (root @ [''raw'', CHR ''.'' # x])"
      "\<And>x ys. touch (root @ ''derived'' # x # ys)"
  shows "pending (\<lambda>_. True) (commit env root graph pub)"
proof -
  have parts: "make p" if "prefix p (root @ [''raw''])" "prefix p (root @ [''raw'', ''sha256''])" "prefix p (root @ [''derived''])" for p
    using that by (auto intro: make)
  show ?thesis
    unfolding commit_def Let_def
    by (intro pending_bind pending_publish_closure always_check_existing_closure always_storing
        always_created_directory [OF _ store_paths(2)] always_objects always_publish_derived always_require_private_derived
        always_verify_derived)
      (auto intro: clean touch make)
qed

end

definition same_at :: "host_path \<Rightarrow> host \<Rightarrow> host \<Rightarrow> bool" where
  "same_at c s t \<longleftrightarrow> inode_at t c = inode_at s c"

interpretation unchanged: progress "same_at c" for c
  by unfold_locales (simp_all add: same_at_def)

interpretation unchanged: host_steps "same_at c" "\<lambda>p. \<not> prefix p c" "\<lambda>p. p \<noteq> c" for c
  by unfold_locales (auto simp: same_at_def inode_at_def put_node_def)

lemma digest_clean:
  assumes "\<And>data. length (sx_sha env data) = 32"
  shows "clean_name (sha256_bytes (sx_sha env) data)" "clean_name (canonical_digest (sx_sha env) t)"
proof -
  have "sx_sha env bs \<noteq> []" for bs using assms [of bs] by auto
  then show "clean_name (sha256_bytes (sx_sha env) data)" "clean_name (canonical_digest (sx_sha env) t)"
    unfolding sha256_bytes_def canonical_digest_def by (auto intro: clean_hex)
qed

lemma open_private_value: "open_private path s = (Inr root, t) \<Longrightarrow> root = path"
  by (auto simp: open_private_def Root_open_def act_bind_Inr)

lemma on_root_Inr [simp]: "on_root a s = (Inr x, t) \<longleftrightarrow> a s = (Inr x, t)"
  by (auto simp: on_root_def split: prod.splits)

lemma prepared_digest:
  "prepare_publication env graph = Inr pub \<Longrightarrow> cl_canonical_digest (pb_closure pub) = canonical_digest (sx_sha env) (wg_tree graph)"
  by (auto simp: prepare_publication_def Let_def closure_of_def split: if_splits)

section \<open>What a publication leaves in the store\<close>

abbreviation object_file :: "store_env \<Rightarrow> Root \<Rightarrow> bytes \<Rightarrow> (host_path \<times> host_content) set" where
  "object_file env root data \<equiv> file_at root [''raw'', ''sha256''] (sha256_bytes (sx_sha env) data) data"

abbreviation derived_file :: "Root \<Rightarrow> string \<Rightarrow> string \<Rightarrow> bytes \<Rightarrow> (host_path \<times> host_content) set" where
  "derived_file root digest name data \<equiv> file_at root [''derived'', digest] name data"

abbreviation closure_file :: "Root \<Rightarrow> bytes \<Rightarrow> (host_path \<times> host_content) set" where
  "closure_file root data \<equiv> file_at root [''raw''] ''closure.json'' data"

lemma file_at_free:
  "\<not> prefix q (root @ parent @ [name]) \<Longrightarrow> \<forall>(p, c)\<in>file_at root parent name data. \<not> prefix q p"
  using untouched_file by fast

lemma sha256_no_dot: "sha256_bytes sha data \<noteq> CHR ''.'' # x"
  using set_hex_text [of "sha data"] by (auto simp: sha256_bytes_def)

lemma write_object_made:
  assumes run: "write_object env root data s = (Inr (), t)" and clean: "clean_name (sha256_bytes (sx_sha env) data)"
  shows "holds (object_file env root data) t"
proof -
  let ?path = "object_path (sha256_bytes (sx_sha env) data)"
  from run obtain existing s1 where reading: "read_file_if_exists root ?path (length data) s = (Inr existing, s1)"
    and rest: "(case existing of
        Some bytes \<Rightarrow>
          if bytes \<noteq> data then act_fail (StoreInvalid (''existing raw object '' @ sha256_bytes (sx_sha env) data @ '' is corrupt''))
          else on_root (require_private_file root ?path)
      | None \<Rightarrow> on_root (write_file_atomic root ?path data)) s1 = (Inr (), t)"
    by (auto simp: write_object_def Let_def act_bind_Inr)
  show ?thesis
  proof (cases existing)
    case None
    with rest show ?thesis by (auto intro: write_file_atomic_made [OF _ store_paths(4) [OF clean]])
  next
    case (Some bytes)
    with rest have same: "bytes = data" and secured: "require_private_file root ?path s1 = (Inr (), t)"
      by (auto split: if_splits)
    have "holds (object_file env root data) s"
      using reading Some same read_if_exists_seen [OF _ store_paths(4) [OF clean]] by blast
    then show ?thesis
      using kept.always_run [OF kept.always_read_file_if_exists reading, of "object_file env root data"]
        kept.always_run [OF kept.always_require_private_file secured, of "object_file env root data"]
      by (simp add: keeps_def)
  qed
qed

lemma write_object_keeps:
  assumes run: "write_object env root data s = (Inr (), t)" and clean: "clean_name (sha256_bytes (sx_sha env) data)"
    and there: "holds (object_file env root other) s"
    and collision_free: "sx_sha env data = sx_sha env other \<Longrightarrow> data = other"
  shows "holds (object_file env root other) t"
proof (cases "sha256_bytes (sx_sha env) data = sha256_bytes (sx_sha env) other")
  case True
  then have "data = other" using collision_free by (simp add: sha256_bytes_def hex_text_inject)
  with write_object_made [OF run clean] show ?thesis by simp
next
  case False
  have "kept.always (object_file env root other) (write_object env root data)"
    using False sha256_no_dot
    by (intro kept.always_write_object clean file_at_free) (auto dest: sym)
  from kept.always_run [OF this run] there show ?thesis by (simp add: keeps_def)
qed

lemma objects_made:
  assumes "act_each (\<lambda>(role, data). write_object env root data) objects s = (Inr (), t)"
    and clean: "\<And>data. clean_name (sha256_bytes (sx_sha env) data)"
    and inj: "inj_on (sx_sha env) (snd ` set objects)" and "data \<in> snd ` set objects"
  shows "holds (object_file env root data) t"
proof -
  have keep: "holds (object_file env root d) t"
    if "act_each (\<lambda>(role, data). write_object env root data) xs s = (Inr (), t)" "holds (object_file env root d) s"
      "inj_on (sx_sha env) (insert d (snd ` set xs))" for xs d s t
    using that
  proof (induction xs arbitrary: s)
    case (Cons x xs)
    obtain role y where x: "x = (role, y)" by (cases x)
    from Cons.prems x obtain s1 where first: "write_object env root y s = (Inr (), s1)"
      and rest: "act_each (\<lambda>(role, data). write_object env root data) xs s1 = (Inr (), t)"
      by (auto simp: act_bind_Inr)
    have "sx_sha env y = sx_sha env d \<Longrightarrow> y = d"
      using inj_onD [OF Cons.prems(3), of y d] x by simp
    then have "holds (object_file env root d) s1"
      using write_object_keeps [OF first clean Cons.prems(2)] by blast
    moreover have "inj_on (sx_sha env) (insert d (snd ` set xs))"
      using Cons.prems(3) by (rule inj_on_subset) auto
    ultimately show ?case using Cons.IH rest by blast
  qed simp
  show ?thesis
    using assms(1,3,4)
  proof (induction objects arbitrary: s)
    case (Cons x xs)
    obtain role y where x: "x = (role, y)" by (cases x)
    from Cons.prems x obtain s1 where first: "write_object env root y s = (Inr (), s1)"
      and rest: "act_each (\<lambda>(role, data). write_object env root data) xs s1 = (Inr (), t)"
      by (auto simp: act_bind_Inr)
    show ?case
    proof (cases "data \<in> snd ` set xs")
      case True
      then show ?thesis using Cons.IH [OF rest] Cons.prems(2) by (auto intro: inj_on_subset)
    next
      case False
      then have "data = y" using Cons.prems(3) x by auto
      then show ?thesis
        using keep [OF rest] write_object_made [OF first clean] Cons.prems(2) x by auto
    qed
  qed simp
qed

definition derived_there :: "store_env \<Rightarrow> Root \<Rightarrow> string \<Rightarrow> bytes \<Rightarrow> string \<Rightarrow> string \<Rightarrow> string \<Rightarrow> host \<Rightarrow> bool" where
  "derived_there env root digest tree_bytes template_sha256 closure_sha256 tree_sha256 s \<longleftrightarrow>
     (\<exists>template_bytes lock_bytes.
        holds (derived_file root digest ''tree.bin'' tree_bytes) s \<and> length tree_bytes \<le> MAX_CACHE_METADATA_BYTES \<and>
        holds (derived_file root digest ''template.cpio'' template_bytes) s \<and> length template_bytes \<le> MAX_TEMPLATE_BYTES \<and>
        sha256_bytes (sx_sha env) template_bytes = template_sha256 \<and>
        holds (derived_file root digest ''lock.json'' lock_bytes) s \<and> length lock_bytes \<le> MAX_CACHE_METADATA_BYTES \<and>
        sx_lock_from env lock_bytes = Some (lock_of digest tree_sha256 template_sha256 closure_sha256))"

lemma read_required_Inr [simp]: "read_required root path limit what s = (Inr data, t) \<longleftrightarrow> read_file root path limit s = (Inr data, t)"
  by (auto simp: read_required_def split: prod.splits)

lemma stored_template_Inr [simp]: "stored_template env root digest s = (Inr x, t) \<longleftrightarrow>
    sha256_file (sx_sha env) root (derived_path digest ''/template.cpio'') MAX_TEMPLATE_BYTES s = (Inr x, t)"
  by (auto simp: stored_template_def split: prod.splits)

lemma verify_derived_calm:
  assumes calm: "ho_fault s = (\<lambda>_. None)" and clean: "clean_name digest"
    and there: "derived_there env root digest tree_bytes template_sha256 closure_sha256 tree_sha256 s"
  shows "\<exists>k. verify_derived env root digest tree_bytes template_sha256 closure_sha256 tree_sha256 s = (Inr (), s\<lparr>ho_calls := k\<rparr>)"
proof -
  from there obtain template_bytes lock_bytes where
    tree: "holds (derived_file root digest ''tree.bin'' tree_bytes) s" "length tree_bytes \<le> MAX_CACHE_METADATA_BYTES"
    and stored: "holds (derived_file root digest ''template.cpio'' template_bytes) s" "length template_bytes \<le> MAX_TEMPLATE_BYTES"
      "sha256_bytes (sx_sha env) template_bytes = template_sha256"
    and lock: "holds (derived_file root digest ''lock.json'' lock_bytes) s" "length lock_bytes \<le> MAX_CACHE_METADATA_BYTES"
      "sx_lock_from env lock_bytes = Some (lock_of digest tree_sha256 template_sha256 closure_sha256)"
    unfolding derived_there_def by blast
  note path = store_paths(7) [OF clean]
  obtain k1 where k1: "read_required root (derived_path digest ''/tree.bin'') MAX_CACHE_METADATA_BYTES ''derived tree manifest'' s
      = (Inr tree_bytes, s\<lparr>ho_calls := k1\<rparr>)"
    using read_file_calm [OF calm tree(1) path [of "''tree.bin''"] tree(2)] by auto
  obtain k2 where k2: "stored_template env root digest (s\<lparr>ho_calls := k1\<rparr>) = (Inr template_sha256, s\<lparr>ho_calls := k2\<rparr>)"
    using sha256_file_calm [of "s\<lparr>ho_calls := k1\<rparr>", OF _ _ path [of "''template.cpio''"] stored(2)] calm stored(1,3) by fastforce
  obtain k3 where k3: "read_required root (derived_path digest ''/lock.json'') MAX_CACHE_METADATA_BYTES ''derived lock'' (s\<lparr>ho_calls := k2\<rparr>)
      = (Inr lock_bytes, s\<lparr>ho_calls := k3\<rparr>)"
    using read_file_calm [of "s\<lparr>ho_calls := k2\<rparr>", OF _ _ path [of "''lock.json''"] lock(2)] calm lock(1) by fastforce
  show ?thesis
    by (simp add: verify_derived_def k1 k2 k3 lock(3) del: read_required_Inr stored_template_Inr) (rule exI, rule refl)
qed

text \<open>Reading changes nothing.\<close>

definition same_nodes :: "host \<Rightarrow> host \<Rightarrow> bool" where
  "same_nodes s t \<longleftrightarrow> ho_nodes t = ho_nodes s"

interpretation reading: progress same_nodes
  by unfold_locales (simp_all add: same_nodes_def)

interpretation reading: host_steps same_nodes "\<lambda>_. False" "\<lambda>_. False"
  by unfold_locales (simp_all add: same_nodes_def)

lemma reads_nothing: "reading.always a \<Longrightarrow> a s = (r, t) \<Longrightarrow> holds F t = holds F s"
  using reading.always_run [of a s r t] holds_nodes [of t s F] by (simp add: same_nodes_def)

lemma verify_derived_seen:
  assumes run: "verify_derived env root digest tree_bytes template_sha256 closure_sha256 tree_sha256 s = (Inr (), t)"
    and clean: "clean_name digest"
  shows "derived_there env root digest tree_bytes template_sha256 closure_sha256 tree_sha256 s"
proof -
  note path = store_paths(7) [OF clean]
  from run obtain s1 s2 lock_bytes s3 where
    tree: "read_file root (derived_path digest ''/tree.bin'') MAX_CACHE_METADATA_BYTES s = (Inr tree_bytes, s1)"
    and stored: "sha256_file (sx_sha env) root (derived_path digest ''/template.cpio'') MAX_TEMPLATE_BYTES s1 = (Inr template_sha256, s2)"
    and locked: "read_file root (derived_path digest ''/lock.json'') MAX_CACHE_METADATA_BYTES s2 = (Inr lock_bytes, s3)"
      "sx_lock_from env lock_bytes = Some (lock_of digest tree_sha256 template_sha256 closure_sha256)"
    by (auto simp: verify_derived_def act_bind_Inr split: if_splits)
  have s1: "holds F s1 = holds F s" for F by (rule reads_nothing [OF reading.always_read_file tree])
  have s2: "holds F s2 = holds F s" for F using reads_nothing [OF reading.always_sha256_file stored] s1 by blast
  show ?thesis
    using read_file_seen [OF tree path [of "''tree.bin''"]] sha256_file_seen [OF stored path [of "''template.cpio''"]]
      read_file_seen [OF locked(1) path [of "''lock.json''"]] locked(2)
    unfolding derived_there_def s1 s2 by auto
qed

lemma always_publish_closure:
  assumes "\<And>x. x = ''closure.json'' \<or> hd x = CHR ''.'' \<Longrightarrow> \<not> prefix (root @ [''raw'', x]) p'" and F: "\<And>p c. (p, c) \<in> F \<Longrightarrow> prefix p p'"
  shows "kept.always F (publish_closure root bytes)"
proof -
  have touch: "\<forall>(p, c)\<in>F. \<not> prefix (root @ [''raw'', x]) p" if x: "x = ''closure.json'' \<or> hd x = CHR ''.''" for x
  proof clarify
    fix p c
    assume "(p, c) \<in> F" "prefix (root @ [''raw'', x]) p"
    with F assms(1) [OF x] show False by (blast intro: prefix_order.trans)
  qed
  show ?thesis
    unfolding publish_closure_def
    by (intro kept.always_bind kept.always_if kept.always_pure kept.always_storing kept.always_reading
        kept.always_publish_exclusive [OF store_paths(1)]) (use touch in simp_all)
qed

lemma file_at_prefix: "(p, c) \<in> file_at root parent name data \<Longrightarrow> prefix p (root @ parent @ [name])"
  using prefix_order.trans by (auto simp: file_at_def dirs_at_def)

lemma publish_closure_keeps:
  assumes "publish_closure root bytes s = (Inr (), t)" "holds (file_at root parent name data) s"
    and "\<And>x. x = ''closure.json'' \<or> hd x = CHR ''.'' \<Longrightarrow> \<not> prefix [''raw'', x] (parent @ [name])"
  shows "holds (file_at root parent name data) t"
proof -
  have "kept.always (file_at root parent name data) (publish_closure root bytes)"
    by (rule always_publish_closure [where p' = "root @ parent @ [name]"]) (use assms(3) file_at_prefix in auto)
  from kept.always_run [OF this assms(1)] assms(2) show ?thesis by (simp add: keeps_def)
qed

lemma publish_closure_made:
  assumes "publish_closure root bytes s = (Inr (), t)"
  shows "holds (closure_file root bytes) t"
proof -
  from assms obtain published s1 where first: "publish_exclusive root RAW_CLOSURE_PATH bytes s = (Inr published, s1)"
    and rest: "(if published then act_return ()
     else act_bind (on_root (read_file root RAW_CLOSURE_PATH MAX_CACHE_METADATA_BYTES)) (\<lambda>existing.
       if existing = bytes then on_root (require_private_file root RAW_CLOSURE_PATH)
       else act_fail (StoreInvalid ''store already contains a different raw closure; use a separate store per workload''))) s1 = (Inr (), t)"
    by (auto simp: publish_closure_def act_bind_Inr)
  show ?thesis
  proof (cases published)
    case True
    then show ?thesis using publish_exclusive_made [OF _ store_paths(1)] first rest by simp
  next
    case False
    with rest obtain s2 where read: "read_file root RAW_CLOSURE_PATH MAX_CACHE_METADATA_BYTES s1 = (Inr bytes, s2)"
      and secured: "require_private_file root RAW_CLOSURE_PATH s2 = (Inr (), t)"
      by (auto simp: act_bind_Inr split: if_splits)
    have "holds (closure_file root bytes) s1" using read_file_seen [OF read store_paths(1)] by simp
    then show ?thesis
      using reads_nothing [OF reading.always_read_file read] reads_nothing [OF reading.always_require_private_file secured] by blast
  qed
qed

lemma publish_derived_keeps:
  assumes "publish_derived env root digest tree_bytes template_bytes closure_sha256 tree_sha256 template_sha256 s = (Inr (), t)"
    and "holds (file_at root (x # parent) name data) s" "x \<noteq> ''derived''" "clean_name digest"
  shows "holds (file_at root (x # parent) name data) t"
proof -
  have "kept.always (file_at root (x # parent) name data)
      (publish_derived env root digest tree_bytes template_bytes closure_sha256 tree_sha256 template_sha256)"
    by (intro kept.always_publish_derived assms(4) file_at_free) (use assms(3) in auto)
  from kept.always_run [OF this assms(1)] assms(2) show ?thesis by (simp add: keeps_def)
qed

text \<open>The state of the store after a publication that returned.\<close>

lemma commit_made:
  assumes run: "commit env root graph pub s = (Inr (), t)"
    and clean: "\<And>data. clean_name (sha256_bytes (sx_sha env) data)" "clean_name (cl_canonical_digest (pb_closure pub))"
    and inj: "inj_on (sx_sha env) (snd ` set (wg_objects graph))"
  shows "\<forall>data\<in>snd ` set (wg_objects graph). holds (object_file env root data) t"
    and "holds (closure_file root (pb_closure_bytes pub)) t"
    and "derived_there env root (cl_canonical_digest (pb_closure pub)) (pb_tree_bytes pub) (cl_template_sha256 (pb_closure pub))
      (sha256_bytes (sx_sha env) (pb_closure_bytes pub)) (cl_tree_sha256 (pb_closure pub)) t"
proof -
  let ?digest = "cl_canonical_digest (pb_closure pub)" and ?sha = "sha256_bytes (sx_sha env) (pb_closure_bytes pub)"
  from run obtain s2 s3 s4 s5 s6 where
    objects: "act_each (\<lambda>(role, data). write_object env root data) (wg_objects graph) s2 = (Inr (), s3)"
    and derived: "publish_derived env root ?digest (pb_tree_bytes pub) (pb_template pub) ?sha
      (cl_tree_sha256 (pb_closure pub)) (cl_template_sha256 (pb_closure pub)) s3 = (Inr (), s4)"
    and secured: "require_private_derived root ?digest s4 = (Inr (), s5)"
    and verified: "verify_derived env root ?digest (pb_tree_bytes pub) (cl_template_sha256 (pb_closure pub)) ?sha
      (cl_tree_sha256 (pb_closure pub)) s5 = (Inr (), s6)"
    and committed: "publish_closure root (pb_closure_bytes pub) s6 = (Inr (), t)"
    by (auto simp: commit_def Let_def act_bind_Inr)
  have s6: "holds F s6 = holds F s5" for F by (rule reads_nothing [OF reading.always_verify_derived verified])
  have s5: "holds F s5 = holds F s4" for F by (rule reads_nothing [OF reading.always_require_private_derived secured])
  show "holds (closure_file root (pb_closure_bytes pub)) t" using committed by (rule publish_closure_made)
  show "\<forall>data\<in>snd ` set (wg_objects graph). holds (object_file env root data) t"
  proof
    fix data
    assume data: "data \<in> snd ` set (wg_objects graph)"
    have "holds (object_file env root data) s3" by (rule objects_made [OF objects clean(1) inj data])
    then have "holds (object_file env root data) s4" by (rule publish_derived_keeps [OF derived]) (simp_all add: clean)
    then have "holds (object_file env root data) s6" by (simp add: s5 s6)
    then show "holds (object_file env root data) t" by (rule publish_closure_keeps [OF committed]) auto
  qed
  have "derived_there env root ?digest (pb_tree_bytes pub) (cl_template_sha256 (pb_closure pub)) ?sha (cl_tree_sha256 (pb_closure pub)) s5"
    by (rule verify_derived_seen [OF verified clean(2)])
  moreover have "holds (derived_file root ?digest name data) t" if "holds (derived_file root ?digest name data) s5" for name data
    using that unfolding s6 [symmetric] by (rule publish_closure_keeps [OF committed]) auto
  ultimately show "derived_there env root ?digest (pb_tree_bytes pub) (cl_template_sha256 (pb_closure pub)) ?sha
      (cl_tree_sha256 (pb_closure pub)) t"
    unfolding derived_there_def by blast
qed

lemma commit_keeps_root:
  assumes run: "commit env root graph pub s = (Inr (), t)" and there: "holds {(root, HostDir)} s"
    and clean: "\<And>data. clean_name (sha256_bytes (sx_sha env) data)" "clean_name (cl_canonical_digest (pb_closure pub))"
  shows "holds {(root, HostDir)} t"
proof -
  have "kept.always {(root, HostDir)} (commit env root graph pub)"
    unfolding commit_def Let_def
    by (intro kept.always_bind kept.always_check_existing_closure kept.always_storing kept.always_created_directory [OF _ store_paths(2)]
        kept.always_objects kept.always_publish_derived kept.always_require_private_derived kept.always_verify_derived
        always_publish_closure [of root root])
      (auto simp: clean)
  from kept.always_run [OF this run] there show ?thesis by (simp add: keeps_def)
qed

section \<open>Reading the objects back\<close>

lemma object_record_parts:
  "object_record env (index, role, data) = Inr record \<longleftrightarrow>
     (\<exists>limit. role_limit role = Some limit \<and> length data \<le> limit) \<and>
     record = \<lparr>or_role = role, or_digest = ''sha256:'' @ sha256_bytes (sx_sha env) data, or_bytes = length data\<rparr>"
  by (auto simp: object_record_def split: option.splits)

lemma read_object_calm:
  assumes calm: "ho_fault s = (\<lambda>_. None)" and sha: "\<And>data. length (sx_sha env data) = 32"
    and recorded: "object_record env (i, role, data) = Inr record" and there: "holds (object_file env root data) s"
    and fresh: "role \<notin> fst ` set objects"
  shows "\<exists>n. read_object env root objects (j, record) s = (Inr (objects @ [(role, data)]), s\<lparr>ho_calls := n\<rparr>)"
proof -
  let ?hex = "sha256_bytes (sx_sha env) data"
  from recorded obtain limit where role: "role_limit role = Some limit" "length data \<le> limit"
    and rec: "record = \<lparr>or_role = role, or_digest = ''sha256:'' @ ?hex, or_bytes = length data\<rparr>"
    unfolding object_record_parts by blast
  have hex: "parse_digest (or_digest record) = Inr ?hex" "or_role record = role" "or_bytes record = length data"
    using parse_digest_printed [OF sha] by (simp_all add: rec sha256_bytes_def)
  obtain n where n: "read_required root (object_path ?hex) (length data) what s = (Inr data, s\<lparr>ho_calls := n\<rparr>)" for what
    using read_file_calm [OF calm there store_paths(4) [OF digest_clean(1) [OF sha]] order_refl] by auto
  show ?thesis
    using role fresh by (simp add: read_object_def hex act_bind_lift_Inr n del: read_required_Inr) (rule exI, rule refl)
qed

lemma read_each_calm:
  assumes "ho_fault s = (\<lambda>_. None)" and sha: "\<And>data. length (sx_sha env data) = 32"
    and "collect (object_record env) (enumerate i objects) = Inr records"
    and "\<And>data. data \<in> snd ` set objects \<Longrightarrow> holds (object_file env root data) s"
    and "distinct (map fst (before @ objects))"
  shows "\<exists>n. read_each env root before (enumerate j records) s = (Inr (before @ objects), s\<lparr>ho_calls := n\<rparr>)"
  using assms(1,3-)
proof (induction objects arbitrary: s i j before records)
  case Nil
  then show ?case by (auto intro: exI [of _ "ho_calls s"])
next
  case (Cons x objects)
  obtain role data where x: "x = (role, data)" by (cases x)
  from Cons.prems(2) x obtain rc rest where recorded: "object_record env (i, role, data) = Inr rc"
    "collect (object_record env) (enumerate (Suc i) objects) = Inr rest" "records = rc # rest"
    by auto
  obtain n where n: "read_object env root before (j, rc) s = (Inr (before @ [(role, data)]), s\<lparr>ho_calls := n\<rparr>)"
    using read_object_calm [OF Cons.prems(1) sha recorded(1)] Cons.prems(3,4) x by force
  have "\<exists>n. read_each env root (before @ [(role, data)]) (enumerate (Suc j) rest) (s\<lparr>ho_calls := n'\<rparr>)
      = (Inr ((before @ [(role, data)]) @ objects), s\<lparr>ho_calls := n'\<rparr>\<lparr>ho_calls := n\<rparr>)" for n'
    using Cons.IH [OF _ recorded(2), of "s\<lparr>ho_calls := n'\<rparr>" "before @ [(role, data)]" "Suc j"] Cons.prems x by auto
  then show ?case using n x recorded(3) by simp
qed

section \<open>A published workload loads\<close>

lemma prepared_parts:
  assumes "prepare_publication env graph = Inr pub"
  obtains template_bytes records where
    "validate_canonical_tree (wg_tree graph) MAX_VIEW_ENTRIES MAX_EXPANDED_LAYER_BYTES = Inr ()"
    "validate_overlay_compatibility (wg_tree graph) (wg_launch graph) = Inr ()"
    "template (wg_tree graph) GUEST_TEMPLATE_ROOT = Inr template_bytes"
    "length (wg_objects graph) \<le> MAX_RAW_OBJECTS"
    "collect (object_record env) (enumerate 0 (wg_objects graph)) = Inr records"
    "sx_closure_to env (closure_of env graph template_bytes records) = Some (butlast (pb_closure_bytes pub))"
    "pb_closure_bytes pub = butlast (pb_closure_bytes pub) @ [0x0a]"
    "length (pb_closure_bytes pub) \<le> MAX_CACHE_METADATA_BYTES"
    "pb_closure pub = closure_of env graph template_bytes records"
    "pb_tree_bytes pub = encode (sx_sha env) (wg_tree graph)"
    "pb_template pub = template_bytes"
  using assms by (auto simp: prepare_publication_def canonical_json_def Let_def split: if_splits)

lemma open_private_made: "open_private path s = (Inr root, t) \<Longrightarrow> holds {(path, HostDir)} t"
  by (auto simp: open_private_def Root_open_def require_private_def act_bind_Inr query_runs holds_def inode_at_def
      split: option.splits host_content.splits if_splits)

lemma Root_open_calm:
  "ho_fault s = (\<lambda>_. None) \<Longrightarrow> holds {(path, HostDir)} s \<Longrightarrow> Root_open path s = (Inr path, s\<lparr>ho_calls := ho_calls s + 1\<rparr>)"
proof -
  assume "ho_fault s = (\<lambda>_. None)" "holds {(path, HostDir)} s"
  then have "unnamed (sys_open_directory path) s = (Inr (), s\<lparr>ho_calls := ho_calls s + 1\<rparr>)"
    by (auto simp: query_runs holds_def)
  then show ?thesis by (simp add: Root_open_def)
qed

lemma check_closure_current: "check_closure (closure_of env graph template_bytes records) = Inr ()"
  by (simp add: check_closure_def closure_of_def)

lemma check_graph_current:
  assumes "validate_overlay_compatibility (wg_tree graph) (wg_launch graph) = Inr ()"
    and "template (wg_tree graph) GUEST_TEMPLATE_ROOT = Inr template_bytes"
  shows "check_graph env (closure_of env graph template_bytes records) graph = Inr template_bytes"
  using assms by (simp add: check_graph_def closure_of_def)

definition loaded_of :: "store_env \<Rightarrow> WorkloadGraph \<Rightarrow> publication \<Rightarrow> LoadedWorkload" where
  "loaded_of env graph pub =
     \<lparr>lw_source_kind = wg_kind graph, lw_closure_sha256 = sha256_bytes (sx_sha env) (pb_closure_bytes pub),
      lw_canonical_digest = cl_canonical_digest (pb_closure pub), lw_tree = wg_tree graph, lw_template = pb_template pub,
      lw_launch = wg_launch graph\<rparr>"

lemma load_calm:
  assumes sha: "\<And>data. length (sx_sha env data) = 32"
    and closure_law: "\<And>c b. sx_closure_to env c = Some b \<Longrightarrow> sx_closure_from env (b @ [0x0a]) = Some c"
    and pub: "prepare_publication env graph = Inr pub" and roles: "distinct (map fst (wg_objects graph))"
    and replay: "\<And>template_bytes records. replay_graph env (closure_of env graph template_bytes records) (wg_objects graph) = Inr graph"
    and calm: "ho_fault u = (\<lambda>_. None)" and opened: "holds {(store, HostDir)} u"
    and objects: "\<And>data. data \<in> snd ` set (wg_objects graph) \<Longrightarrow> holds (object_file env store data) u"
    and committed: "holds (closure_file store (pb_closure_bytes pub)) u"
    and derived: "derived_there env store (cl_canonical_digest (pb_closure pub)) (pb_tree_bytes pub) (cl_template_sha256 (pb_closure pub))
      (sha256_bytes (sx_sha env) (pb_closure_bytes pub)) (cl_tree_sha256 (pb_closure pub)) u"
  shows "\<exists>n. load env store u = (Inr (loaded_of env graph pub), u\<lparr>ho_calls := n\<rparr>)"
proof -
  from pub obtain template_bytes records where
    overlay: "validate_overlay_compatibility (wg_tree graph) (wg_launch graph) = Inr ()"
    and tpl: "template (wg_tree graph) GUEST_TEMPLATE_ROOT = Inr template_bytes"
    and few: "length (wg_objects graph) \<le> MAX_RAW_OBJECTS"
    and records: "collect (object_record env) (enumerate 0 (wg_objects graph)) = Inr records"
    and json: "sx_closure_to env (closure_of env graph template_bytes records) = Some (butlast (pb_closure_bytes pub))"
      "pb_closure_bytes pub = butlast (pb_closure_bytes pub) @ [0x0a]" "length (pb_closure_bytes pub) \<le> MAX_CACHE_METADATA_BYTES"
    and closure: "pb_closure pub = closure_of env graph template_bytes records" and tree: "pb_tree_bytes pub = encode (sx_sha env) (wg_tree graph)"
    and template: "pb_template pub = template_bytes"
    by (rule prepared_parts)
  note clean = digest_clean(2) [OF sha, of "wg_tree graph", folded prepared_digest [OF pub]]
  let ?closure = "closure_of env graph template_bytes records"
  have root: "Root_open store u = (Inr store, u\<lparr>ho_calls := ho_calls u + 1\<rparr>)" by (rule Root_open_calm [OF calm opened])
  obtain n1 where n1: "read_required store RAW_CLOSURE_PATH MAX_CACHE_METADATA_BYTES what (u\<lparr>ho_calls := ho_calls u + 1\<rparr>)
      = (Inr (pb_closure_bytes pub), u\<lparr>ho_calls := n1\<rparr>)" for what
    using read_file_calm [of "u\<lparr>ho_calls := ho_calls u + 1\<rparr>" store, OF _ _ store_paths(1) json(3)] committed calm by auto
  have parsed: "sx_closure_from env (pb_closure_bytes pub) = Some ?closure"
    using closure_law [OF json(1)] json(2) by simp
  have count: "length records \<le> MAX_RAW_OBJECTS" using collect_length [OF records] few by simp
  obtain n2 where n2: "read_raw_objects env store ?closure (u\<lparr>ho_calls := n1\<rparr>) = (Inr (wg_objects graph), u\<lparr>ho_calls := n2\<rparr>)"
    using read_each_calm [of "u\<lparr>ho_calls := n1\<rparr>", OF _ sha records, of store "[]" 0] objects roles count calm
    by (auto simp: read_raw_objects_def closure_of_def)
  have "derived_there env store (cl_canonical_digest ?closure) (encode (sx_sha env) (wg_tree graph)) (cl_template_sha256 ?closure)
      (sha256_bytes (sx_sha env) (pb_closure_bytes pub)) (cl_tree_sha256 ?closure) (u\<lparr>ho_calls := n2\<rparr>)"
    using derived by (simp add: derived_there_def closure tree)
  then obtain n3 where n3: "verify_derived env store (cl_canonical_digest ?closure) (encode (sx_sha env) (wg_tree graph)) (cl_template_sha256 ?closure)
      (sha256_bytes (sx_sha env) (pb_closure_bytes pub)) (cl_tree_sha256 ?closure) (u\<lparr>ho_calls := n2\<rparr>) = (Inr (), u\<lparr>ho_calls := n3\<rparr>)"
    using verify_derived_calm [of "u\<lparr>ho_calls := n2\<rparr>", OF _ clean [unfolded closure]] calm by fastforce
  have "load env store u = (Inr (loaded_of env graph pub), u\<lparr>ho_calls := n3\<rparr>)"
    using replay [of template_bytes records] check_closure_current [of env graph template_bytes records]
      check_graph_current [OF overlay tpl, of env records] root n1 parsed n2 n3
    by (simp add: load_def Let_def on_root_def act_bind_lift_Inr closure template loaded_of_def del: read_required_Inr)
      (simp add: closure_of_def)
  then show ?thesis by blast
qed

lemma publish_then_load:
  assumes sha: "\<And>data. length (sx_sha env data) = 32"
    and closure_law: "\<And>c b. sx_closure_to env c = Some b \<Longrightarrow> sx_closure_from env (b @ [0x0a]) = Some c"
    and run: "publish env store graph s = (Inr w, t)"
    and inj: "inj_on (sx_sha env) (snd ` set (wg_objects graph))" and roles: "distinct (map fst (wg_objects graph))"
    and replay: "\<And>template_bytes records. replay_graph env (closure_of env graph template_bytes records) (wg_objects graph) = Inr graph"
  shows "\<exists>loaded n. load env store (t\<lparr>ho_fault := \<lambda>_. None\<rparr>) = (Inr loaded, t\<lparr>ho_fault := \<lambda>_. None, ho_calls := n\<rparr>) \<and>
    lw_source_kind loaded = aw_source_kind w \<and> lw_closure_sha256 loaded = aw_closure_sha256 w \<and>
    lw_canonical_digest loaded = aw_canonical_digest w \<and> lw_launch loaded = aw_launch w \<and>
    lw_tree loaded = wg_tree graph \<and> template (wg_tree graph) GUEST_TEMPLATE_ROOT = Inr (lw_template loaded)"
proof -
  from run obtain pub root s1 s2 where pub: "prepare_publication env graph = Inr pub" and entered: "open_private store s1 = (Inr root, s2)"
    and committing: "commit env root graph pub s2 = (Inr (), t)"
    and w: "aw_source_kind w = wg_kind graph" "aw_closure_sha256 w = sha256_bytes (sx_sha env) (pb_closure_bytes pub)"
      "aw_canonical_digest w = cl_canonical_digest (pb_closure pub)" "aw_launch w = wg_launch graph"
    by (auto simp: publish_def act_bind_Inr)
  note opened = entered [unfolded open_private_value [OF entered]] and committed = committing [unfolded open_private_value [OF entered]]
  note clean = digest_clean(1) [OF sha] digest_clean(2) [OF sha, of "wg_tree graph", folded prepared_digest [OF pub]]
  note made = commit_made [OF committed clean inj]
  define u where "u = t\<lparr>ho_fault := \<lambda>_. None\<rparr>"
  have calm: "ho_fault u = (\<lambda>_. None)" "holds F u = holds F t" for F by (simp_all add: u_def)
  have "\<exists>n. load env store u = (Inr (loaded_of env graph pub), u\<lparr>ho_calls := n\<rparr>)"
    by (rule load_calm [OF sha closure_law pub roles replay])
      (use made commit_keeps_root [OF committed open_private_made [OF opened] clean] in \<open>auto simp: calm derived_there_def\<close>)
  moreover have "template (wg_tree graph) GUEST_TEMPLATE_ROOT = Inr (pb_template pub)"
    using prepared_parts [OF pub] by metis
  ultimately show ?thesis using w unfolding u_def by (auto simp: loaded_of_def)
qed

section \<open>The derivation from the retained objects\<close>

text \<open>A working directory that was normalized once is normal.\<close>

lemma last_join_with: "ps \<noteq> [] \<Longrightarrow> last ps \<noteq> [] \<Longrightarrow> join_with c ps \<noteq> [] \<and> last (join_with c ps) = last (last ps)"
proof (induction ps)
  case (Cons p ps)
  then show ?case by (cases "ps = []") (auto simp: join_with_Cons)
qed simp

lemma text_slash: "char_of (unat (b :: u8)) = CHR ''/'' \<longleftrightarrow> b = slash"
  unfolding slash_char [symmetric] by (rule char_of_inject)

lemma normal_ends:
  assumes "normal_path p" "p \<noteq> ROOT_PATH"
  shows "p \<noteq> []" "hd p \<noteq> slash" "last p \<noteq> slash" "0 \<notin> set p"
proof -
  from assms have parts: "list_all normal_part (split_on slash p)" by (simp add: normal_path_def)
  then show "p \<noteq> []" by (auto simp: normal_part_def)
  then show "hd p \<noteq> slash" using parts by (cases p) (auto simp: normal_part_def)
  have "last (split_on slash p) \<in> set (split_on slash p)" by simp
  then have final: "last (split_on slash p) \<noteq> []" "slash \<notin> set (last (split_on slash p))"
    using parts split_on_pieces [of "last (split_on slash p)" slash p] by (auto simp: list_all_iff normal_part_def)
  then show "last p \<noteq> slash"
    using last_join_with [of "split_on slash p" slash] by (metis join_split last_in_set split_on_not_Nil)
  show "0 \<notin> set p"
  proof
    assume "0 \<in> set p"
    then have "0 \<in> set (join_with slash (split_on slash p))" by simp
    then show False
      using set_join_with [of slash "split_on slash p"] parts by (auto simp: list_all_iff normal_part_def)
  qed
qed

lemma normalize_layer_path_normal:
  assumes "normal_path p" "p \<noteq> ROOT_PATH"
  shows "normalize_layer_path p = Inr p"
proof -
  from assms have parts: "list_all normal_part (split_on slash p)" "length p \<le> MAX_PATH_BYTES" by (simp_all add: normal_path_def)
  then have "filter (\<lambda>part. part \<noteq> [] \<and> part \<noteq> dot) (split_on slash p) = split_on slash p" "dotdot \<notin> set (split_on slash p)"
    by (auto simp: list_all_iff normal_part_def intro: filter_True)
  then show ?thesis
    using normal_ends [OF assms] parts(2) by (simp add: normalize_layer_path_def collect_parts_eq Let_def)
qed

lemma trim_matches_text:
  assumes "normal_path p" "p \<noteq> ROOT_PATH"
  shows "trim_matches CHR ''/'' (CHR ''/'' # text_of_bytes p) = text_of_bytes p"
proof -
  let ?text = "text_of_bytes p"
  have ends: "?text \<noteq> []" "hd ?text \<noteq> CHR ''/''" "last ?text \<noteq> CHR ''/''"
    using normal_ends [OF assms] by (simp_all add: text_of_bytes_def hd_map last_map text_slash)
  then have "trim_start CHR ''/'' ?text = ?text" by (cases ?text) (simp_all add: trim_start_def)
  moreover have "trim_start CHR ''/'' (rev ?text) = rev ?text"
    using ends(1,3) by (cases ?text rule: rev_cases) (simp_all add: trim_start_def)
  ultimately show ?thesis by (simp add: trim_matches_def trim_start_def)
qed

lemma normalize_working_directory_again:
  assumes "normalize_working_directory value t = Inr w"
  shows "normalize_working_directory (Some w) t = Inr w"
proof -
  from assms obtain p where rel: "working_directory_relative (working_directory_text value) = Inr p"
    and nolink: "\<not> list_ex (is_symlink_at t) (ancestors p @ [p])"
    and kind: "p \<noteq> ROOT_PATH \<longrightarrow> map_option e_kind (Tree_get t p) = Some Directory"
    and w: "w = (if p = ROOT_PATH then ''/'' else CHR ''/'' # text_of_bytes p)"
    and utf: "p \<noteq> ROOT_PATH \<Longrightarrow> from_utf8 p = Some (text_of_bytes p)"
    by (auto simp: normalize_working_directory_def Let_def from_utf8_def split: if_splits)
  have normal: "normal_path p"
    using rel by (auto simp: working_directory_relative_def Let_def normal_path_def split: if_splits dest: normalize_normal)
  have "working_directory_relative w = Inr p"
  proof (cases "p = ROOT_PATH")
    case True
    then show ?thesis by (simp add: w working_directory_relative_def trim_matches_def trim_start_def)
  next
    case False
    have "text_of_bytes p \<noteq> []" using normal_ends(1) [OF normal False] by (simp add: text_of_bytes_def)
    with False show ?thesis
      by (simp add: w working_directory_relative_def trim_matches_text [OF normal False] normalize_layer_path_normal [OF normal False]
          as_bytes_of_text Let_def)
  qed
  moreover have "working_directory_text (Some w) = w" "starts_with w ''/''"
    by (auto simp: w working_directory_text_def starts_with_def)
  ultimately show ?thesis
    using nolink kind utf by (auto simp: normalize_working_directory_def Let_def w)
qed

lemma binary_again:
  assumes "binary_tree_and_launch executable input = Inr (t, launch)"
  shows "binary_tree_and_launch executable
    \<lparr>bi_install_path = BINARY_INSTALL_PATH, bi_arguments = li_arguments launch, bi_environment = li_environment launch,
     bi_working_directory = li_working_directory launch, bi_uid = li_uid launch, bi_gid = li_gid launch\<rparr> = Inr (t, launch)"
proof -
  have same: "binary_tree executable (bi\<lparr>bi_working_directory := w\<rparr>) install = binary_tree executable bi install" for bi w install
    by (simp add: binary_tree_def)
  from assms have "input\<lparr>bi_working_directory := li_working_directory launch\<rparr> =
    \<lparr>bi_install_path = BINARY_INSTALL_PATH, bi_arguments = li_arguments launch, bi_environment = li_environment launch,
     bi_working_directory = li_working_directory launch, bi_uid = li_uid launch, bi_gid = li_gid launch\<rparr>"
    by (auto simp: binary_tree_and_launch_def normalize_arguments_iff normalize_environment_iff Let_def split: if_splits)
  moreover have "binary_tree_and_launch executable (input\<lparr>bi_working_directory := li_working_directory launch\<rparr>) = Inr (t, launch)"
    using assms by (auto simp: binary_tree_and_launch_def same normalize_arguments_iff normalize_environment_iff Let_def
        split: if_splits dest: normalize_working_directory_again)
  ultimately show ?thesis by simp
qed

lemma sorted_roles_again: "sorted_roles (sorted_roles xs) = sorted_roles xs"
  by (simp add: sorted_roles_def sort_key_id_if_sorted)

lemma sorted_roles_set [simp]: "set (sorted_roles xs) = set xs" "length (sorted_roles xs) = length xs"
  "distinct (map fst (sorted_roles xs)) \<longleftrightarrow> distinct (map fst xs)"
proof -
  show "set (sorted_roles xs) = set xs" "length (sorted_roles xs) = length xs"
    by (simp_all add: sorted_roles_def)
  have "mset (map fst (sorted_roles xs)) = mset (map fst xs)"
    by (simp add: sorted_roles_def)
  then show "distinct (map fst (sorted_roles xs)) \<longleftrightarrow> distinct (map fst xs)"
    by (metis mset_eq_imp_distinct_iff)
qed

lemma map_of_sorted_roles: "distinct (map fst xs) \<Longrightarrow> map_of (sorted_roles xs) = map_of xs"
  by (rule ext) (metis map_of_SomeD map_of_eq_Some_iff not_Some_eq sorted_roles_set(1,3))

lemma binary_replays:
  assumes law: "\<And>c b. sx_spec_to env c = Some b \<Longrightarrow> sx_spec_from env (b @ [0x0a]) = Some c"
    and graph: "binary_graph_of env source executable = Inr graph"
  shows "replay_graph env (closure_of env graph template_bytes records) (wg_objects graph) = Inr graph"
    and "distinct (map fst (wg_objects graph))"
proof -
  from graph obtain input t launch spec_bytes where elf: "validate_static_elf executable = Inr ()"
    and derived: "binary_tree_and_launch executable input = Inr (t, launch)"
    and json: "canonical_json (sx_spec_to env) (canonical_spec launch) = Inr spec_bytes"
    and parts: "graph = \<lparr>wg_kind = KindBinary, wg_manifest_digest = None,
          wg_objects = sorted_roles [(''executable'', executable), (''workload-specification'', spec_bytes)],
          wg_tree = t, wg_launch = launch, wg_layers = []\<rparr>"
    by (auto simp: binary_graph_of_def)
  have spec: "sx_spec_from env spec_bytes = Some (canonical_spec launch)"
    using json law by (auto simp: canonical_json_def)
  show "distinct (map fst (wg_objects graph))" by (simp add: parts)
  have objects: "map_of (wg_objects graph) = map_of [(''executable'', executable), (''workload-specification'', spec_bytes)]"
    unfolding parts by (simp add: map_of_sorted_roles)
  show "replay_graph env (closure_of env graph template_bytes records) (wg_objects graph) = Inr graph"
    using binary_again [OF derived] elf spec
    by (simp add: replay_graph_def closure_of_def parts replay_binary_def objects [unfolded parts, simplified] canonical_spec_def sorted_roles_again)
qed

lemma layer_roles_distinct: "distinct (map fst (map (\<lambda>(position, layer). (''layer-'' @ dec position, layer)) (enumerate k layers)))"
  by (induction layers arbitrary: k) (auto simp: in_set_enumerate_eq)

lemma oci_roles_distinct: "distinct (map fst (oci_roles objects))"
  using layer_roles_distinct [of 0 "oo_layers objects"] unfolding oci_roles_def by (auto simp: in_set_enumerate_eq)

lemma oci_role_lookup:
  "map_of (oci_roles objects) ''oci-layout'' = Some (oo_layout objects)"
  "map_of (oci_roles objects) ''index.json'' = Some (oo_index objects)"
  "map_of (oci_roles objects) ''manifest'' = Some (oo_manifest objects)"
  "map_of (oci_roles objects) ''config'' = Some (oo_config objects)"
  "i < length (oo_layers objects) \<Longrightarrow> map_of (oci_roles objects) (''layer-'' @ dec i) = Some (oo_layers objects ! i)"
proof -
  have "map_of (oci_roles objects) role = Some data" if "(role, data) \<in> set (oci_roles objects)" for role data
    by (rule map_of_is_SomeI [OF oci_roles_distinct that])
  then show "map_of (oci_roles objects) ''oci-layout'' = Some (oo_layout objects)"
    "map_of (oci_roles objects) ''index.json'' = Some (oo_index objects)"
    "map_of (oci_roles objects) ''manifest'' = Some (oo_manifest objects)"
    "map_of (oci_roles objects) ''config'' = Some (oo_config objects)"
    "i < length (oo_layers objects) \<Longrightarrow> map_of (oci_roles objects) (''layer-'' @ dec i) = Some (oo_layers objects ! i)"
    using image_eqI [of "(''layer-'' @ dec i, oo_layers objects ! i)" "\<lambda>(position, layer). (''layer-'' @ dec position, layer)"
        "(i, oo_layers objects ! i)" "set (enumerate 0 (oo_layers objects))"]
    by (simp_all add: oci_roles_def in_set_enumerate_eq)
qed

lemma parse_graph_layers: "parse_graph env objects = Inr graph \<Longrightarrow> length (og_layers graph) = length (oo_layers objects)"
proof -
  assume "parse_graph env objects = Inr graph"
  from parse_graph_derive [OF this] obtain diff_ids t vs where
    loop: "for_each (graph_layer env diff_ids) (Tree_new, []) (enumerate 0 (zip vs (oo_layers objects))) = Inr (t, og_layers graph)"
    and len: "length vs = length (oo_layers objects)"
    unfolding derive_graph_def by blast
  from for_each_graph_layer [OF loop len] show ?thesis by (auto dest: list_all2_lengthD)
qed

lemma sorted_oci_roles: "sorted_roles (oci_roles objects) = oci_roles objects"
  by (simp add: oci_roles_def sorted_roles_again)

text \<open>The derivation from the retained objects of an image is the parse of the same objects, under the printed digest.\<close>

lemma replay_oci_parses:
  assumes closure: "cl_manifest_digest closure = Some d" "parse_digest d = Inr hex" "length (cl_layers closure) = length (oo_layers objects)"
  shows "replay_oci env closure (oci_roles objects) =
    and_then (map_err StoreOci (parse_graph (sx_oci env) (objects\<lparr>oo_manifest_digest := ''sha256:'' @ hex\<rparr>))) (\<lambda>graph.
      Inr \<lparr>wg_kind = KindOci, wg_manifest_digest = Some (''sha256:'' @ hex), wg_objects = oci_roles objects,
           wg_tree = og_tree graph, wg_launch = og_launch graph, wg_layers = og_layers graph\<rparr>)"
proof -
  let ?n = "length (oo_layers objects)"
  have count: "length (oci_roles objects) = length (expected_oci_roles ?n)"
    by (simp add: oci_roles_def expected_oci_roles_def)
  have all: "list_all (\<lambda>role. role \<in> fst ` set (oci_roles objects)) (expected_oci_roles ?n)"
  proof -
    have "role \<in> fst ` set (oci_roles objects) \<longleftrightarrow> map_of (oci_roles objects) role \<noteq> None" for role
      by (simp add: map_of_eq_None_iff)
    then show ?thesis
      using oci_role_lookup [where objects = objects] by (auto simp: expected_oci_roles_def list_all_iff)
  qed
  have layers: "collect (\<lambda>position. ok_or (StoreInvalid ''OCI closure is missing a layer object'')
      (map_of (oci_roles objects) (''layer-'' @ dec position))) [0..<?n] = Inr (oo_layers objects)"
    using collect_total [of "[0..<?n]" "\<lambda>position. ok_or (StoreInvalid ''OCI closure is missing a layer object'')
        (map_of (oci_roles objects) (''layer-'' @ dec position))" "\<lambda>i. oo_layers objects ! i"] oci_role_lookup(5) [where objects = objects]
    by (simp add: map_nth del: append_Cons append_Nil)
  have again: "\<lparr>oo_layout = oo_layout objects, oo_index = oo_index objects, oo_manifest = oo_manifest objects,
      oo_config = oo_config objects, oo_layers = oo_layers objects, oo_manifest_digest = x\<rparr> = objects\<lparr>oo_manifest_digest := x\<rparr>" for x
    by simp
  show ?thesis
    unfolding replay_oci_def Let_def closure ok_or_simps and_then_simps map_err_simps
    using count all layers
    by (simp add: object_of_def oci_role_lookup sorted_oci_roles again del: append_Cons append_Nil)
qed

lemma oci_replays:
  assumes graph: "oci_graph_of env objects = Inr graph"
    and printed: "parse_digest (oo_manifest_digest objects) = Inr hex" "oo_manifest_digest objects = ''sha256:'' @ hex"
  shows "replay_graph env (closure_of env graph template_bytes records) (wg_objects graph) = Inr graph"
    and "distinct (map fst (wg_objects graph))"
proof -
  from graph obtain g where g: "parse_graph (sx_oci env) objects = Inr g" and parts:
    "graph = \<lparr>wg_kind = KindOci, wg_manifest_digest = Some (oo_manifest_digest objects), wg_objects = oci_roles objects,
          wg_tree = og_tree g, wg_launch = og_launch g, wg_layers = og_layers g\<rparr>"
    by (auto simp: oci_graph_of_def)
  show "distinct (map fst (wg_objects graph))" by (simp add: parts oci_roles_distinct)
  have same: "objects\<lparr>oo_manifest_digest := ''sha256:'' @ hex\<rparr> = objects" using printed(2) by simp
  show "replay_graph env (closure_of env graph template_bytes records) (wg_objects graph) = Inr graph"
    using replay_oci_parses [of "closure_of env graph template_bytes records" _ hex objects env, OF _ printed(1)] parse_graph_layers [OF g]
    by (simp add: replay_graph_def closure_of_def parts same [unfolded printed(2)] same g printed(2) del: append_Cons append_Nil)
qed

section \<open>Sources replay\<close>

definition digest_printed :: "string \<Rightarrow> bool" where
  "digest_printed d \<longleftrightarrow> (case parse_digest d of Inr hex \<Rightarrow> d = ''sha256:'' @ hex | Inl _ \<Rightarrow> False)"

lemma read_objects_digest: "Oci_Image.read_objects env root d = Inr objects \<Longrightarrow> oo_manifest_digest objects = d"
  by (auto simp: Oci_Image.read_objects_def split: if_splits)

lemma source_replays:
  assumes law: "\<And>c b. sx_spec_to env c = Some b \<Longrightarrow> sx_spec_from env (b @ [0x0a]) = Some c"
    and printed: "\<And>source. ws_source spec = SourceOci source \<Longrightarrow> digest_printed (os_manifest_digest source)"
    and run: "source_graph env spec directory s = (Inr graph, t)"
  shows "replay_graph env (closure_of env graph template_bytes records) (wg_objects graph) = Inr graph"
    and "distinct (map fst (wg_objects graph))"
proof -
  have "(\<exists>source executable. binary_graph_of env source executable = Inr graph) \<or>
    (\<exists>objects hex. oci_graph_of env objects = Inr graph \<and> parse_digest (oo_manifest_digest objects) = Inr hex \<and>
      oo_manifest_digest objects = ''sha256:'' @ hex)"
  proof (cases "ws_source spec")
    case (SourceBinary source)
    with run show ?thesis by (auto simp: source_graph_def binary_graph_def act_bind_Inr)
  next
    case (SourceOci source)
    with run obtain u layout objects where "Oci_Image.read_objects (sx_oci env) (layout_view u layout) (os_manifest_digest source) = Inr objects"
      "oci_graph_of env objects = Inr graph"
      by (auto simp: source_graph_def oci_graph_def act_bind_Inr)
    with printed [OF SourceOci] show ?thesis
      by (auto simp: digest_printed_def dest!: read_objects_digest split: sum.splits)
  qed
  then show "replay_graph env (closure_of env graph template_bytes records) (wg_objects graph) = Inr graph"
    "distinct (map fst (wg_objects graph))"
    using binary_replays [OF law] oci_replays by blast+
qed

section \<open>Loads agree\<close>

definition host_files :: "host \<Rightarrow> bytes set" where
  "host_files s = {data. \<exists>p n. (p, n) \<in> set (ho_nodes s) \<and> hi_content n = HostFile data}"

lemma file_at_host_files: "holds (file_at root parent name data) s \<Longrightarrow> data \<in> host_files s"
  by (auto simp: file_at_def holds_insert host_files_def inode_at_def dest: map_of_SomeD)

lemma components_last: "components relative = Inr parts \<Longrightarrow> parts \<noteq> [] \<Longrightarrow> split_relative relative = Inr (butlast parts, last parts)"
  by (simp add: split_relative_def)

lemma read_file_host_files:
  assumes "read_file root relative limit s = (Inr data, t)"
  shows "data \<in> host_files s" "host_files t = host_files s"
proof -
  from assms obtain parent name where "split_relative relative = Inr (parent, name)"
    by (auto simp: read_file_def read_file_if_exists_def open_regular_def act_bind_Inr)
  with read_file_seen [OF assms this] show "data \<in> host_files s" by (blast intro: file_at_host_files)
  show "host_files t = host_files s"
    using reading.always_run [OF reading.always_read_file assms] by (simp add: host_files_def same_nodes_def)
qed

lemma read_object_seen:
  assumes "read_object env root before (i, rc) s = (Inr objects, t)"
  shows "\<exists>data. objects = before @ [(or_role rc, data)] \<and> data \<in> host_files s \<and> host_files t = host_files s \<and>
    parse_digest (or_digest rc) = Inr (sha256_bytes (sx_sha env) data)"
  using assms
  by (auto simp: read_object_def act_bind_Inr split: option.split_asm if_split_asm dest: read_file_host_files)

lemma read_each_agree:
  assumes "read_each env root before recs s = (Inr xs, t)" "read_each env root' before recs s' = (Inr ys, t')"
    and "inj_on (sx_sha env) (host_files s \<union> host_files s')"
  shows "xs = ys"
  using assms
proof (induction recs arbitrary: before s s')
  case (Cons rec recs)
  obtain i rc where rec: "rec = (i, rc)" by (cases rec)
  from Cons.prems rec obtain mid s1 mid' s1' where runs: "read_object env root before (i, rc) s = (Inr mid, s1)"
    "read_each env root mid recs s1 = (Inr xs, t)" "read_object env root' before (i, rc) s' = (Inr mid', s1')"
    "read_each env root' mid' recs s1' = (Inr ys, t')"
    by (auto simp: act_bind_Inr)
  from read_object_seen [OF runs(1)] read_object_seen [OF runs(3)] Cons.prems(3) have "mid = mid'"
    "host_files s1 = host_files s" "host_files s1' = host_files s'"
    by (auto simp: sha256_bytes_def hex_text_inject dest: inj_onD)
  with Cons.IH [OF runs(2)] runs(4) Cons.prems(3) show ?case by simp
qed simp

lemma load_parts:
  assumes "load env store s = (Inr x, t)"
  obtains closure_bytes closure s1 s2 objects graph where "closure_bytes \<in> host_files s" "sx_closure_from env closure_bytes = Some closure"
    "host_files s1 = host_files s" "read_raw_objects env store closure s1 = (Inr objects, s2)" "replay_graph env closure objects = Inr graph"
    "template (wg_tree graph) GUEST_TEMPLATE_ROOT = Inr (lw_template x)" "lw_source_kind x = cl_kind closure"
    "lw_closure_sha256 x = sha256_bytes (sx_sha env) closure_bytes" "lw_canonical_digest x = cl_canonical_digest closure"
    "lw_tree x = wg_tree graph" "lw_launch x = cl_launch closure"
proof -
  from assms obtain s0 closure_bytes s1 closure objects s2 graph template_bytes where opened: "Root_open store s = (Inr store, s0)"
    and read: "read_file store RAW_CLOSURE_PATH MAX_CACHE_METADATA_BYTES s0 = (Inr closure_bytes, s1)"
    and rest: "sx_closure_from env closure_bytes = Some closure" "read_raw_objects env store closure s1 = (Inr objects, s2)"
      "replay_graph env closure objects = Inr graph" "check_graph env closure graph = Inr template_bytes"
    and x: "x = \<lparr>lw_source_kind = cl_kind closure, lw_closure_sha256 = sha256_bytes (sx_sha env) closure_bytes,
       lw_canonical_digest = cl_canonical_digest closure, lw_tree = wg_tree graph, lw_template = template_bytes, lw_launch = cl_launch closure\<rparr>"
    by (auto simp: load_def Let_def act_bind_Inr Root_open_def)
  have "host_files s0 = host_files s"
    using reading.always_run [OF reading.always_open(1) opened] by (simp add: host_files_def same_nodes_def)
  moreover have "template (wg_tree graph) GUEST_TEMPLATE_ROOT = Inr template_bytes"
    using rest(4) by (auto simp: check_graph_def split: if_splits)
  ultimately show thesis using that [of closure_bytes closure s1 objects s2 graph] read_file_host_files [OF read] rest x by simp
qed

end
