(* ===== verification/Publication.thy ===== *)
theory Publication
  imports Store "HOL-Library.Code_Target_Nat"
begin

text \<open>
  Publication as an update of a map: on a host without faults the calls of \<open>workload/root.rs\<close> and the
  publication of \<open>workload/store.rs\<close> change what lies below the store path by path. From this follows that a new
  store takes every accepted workload; the properties of the store are stated at the end, with a workload in a store
  as their witness.
\<close>

section \<open>A private directory as a map\<close>

text \<open>
  What lies at and below a directory, as contents by relative path, everything owned by the process and closed to
  others. On a host without faults the calls are updates of this map.
\<close>

type_synonym view = "string list \<Rightarrow> host_content option"

definition shows_view :: "host_path \<Rightarrow> view \<Rightarrow> host \<Rightarrow> bool" where
  "shows_view root R s \<longleftrightarrow> ho_fault s = (\<lambda>_. None) \<and>
     (\<forall>q. map_option hi_content (inode_at s (root @ q)) = R q) \<and>
     (\<forall>q n. inode_at s (root @ q) = Some n \<longrightarrow> hi_uid n = ho_uid s \<and> and (hi_mode n) 0x3f = 0)"

lemma shows_view_at: "shows_view root R s \<Longrightarrow> map_option hi_content (inode_at s (root @ q)) = R q"
  by (simp add: shows_view_def)

lemma shows_view_calm: "shows_view root R s \<Longrightarrow> ho_fault s = (\<lambda>_. None)"
  by (simp add: shows_view_def)

lemma shows_view_calls [simp]: "shows_view root R (s\<lparr>ho_calls := n\<rparr>) = shows_view root R s" "shows_view root R (s\<lparr>ho_counter := n\<rparr>) = shows_view root R s"
  by (simp_all add: shows_view_def inode_at_def)

lemma sys_create_view:
  assumes view: "shows_view root R s" and R: "R p = None" "p \<noteq> []" "R (butlast p) = Some HostDir" and mode: "and mode 0x3f = 0"
  shows "\<exists>t. sys_create c mode (root @ p) s = (Inr (), t) \<and> shows_view root (R(p \<mapsto> c)) t \<and> ho_pid t = ho_pid s"
proof -
  have "inode_at s (root @ p) = None" using view R(1) by (simp add: shows_view_def) (metis option.map_disc_iff)
  moreover obtain d where "inode_at s (root @ butlast p) = Some d" "hi_content d = HostDir"
    using shows_view_at [OF view, of "butlast p"] R(3) by auto
  ultimately have run: "sys_create c mode (root @ p) s = (Inr (), s\<lparr>ho_calls := ho_calls s + 1,
      ho_nodes := put_node (root @ p) \<lparr>hi_content = c, hi_mode = mode, hi_uid = ho_uid s\<rparr> (ho_nodes s)\<rparr>)"
    using R(2) shows_view_calm [OF view] by (auto simp: sys_create_def host_call_Inr butlast_append)
  show ?thesis
    using view mode unfolding run shows_view_def by (auto simp: inode_at_def put_node_def)
qed

lemma sys_write_view:
  assumes view: "shows_view root R s" and R: "R p = Some c"
  shows "\<exists>t. sys_write (root @ p) data s = (Inr (), t) \<and> shows_view root (R(p \<mapsto> HostFile data)) t \<and> ho_pid t = ho_pid s"
proof -
  obtain n where n: "inode_at s (root @ p) = Some n" using shows_view_at [OF view, of p] R by auto
  then have run: "sys_write (root @ p) data s = (Inr (), s\<lparr>ho_calls := ho_calls s + 1,
      ho_nodes := put_node (root @ p) (n\<lparr>hi_content := HostFile data\<rparr>) (ho_nodes s)\<rparr>)"
    using shows_view_calm [OF view] by (simp add: sys_write_def)
  show ?thesis
    using view n unfolding run shows_view_def by (auto simp: inode_at_def put_node_def)
qed

definition renamed_view :: "string list \<Rightarrow> string list \<Rightarrow> view \<Rightarrow> view" where
  "renamed_view src dst R = (\<lambda>q. if prefix dst q then R (src @ drop (length dst) q) else if prefix src q then None else R q)"

lemma map_of_moved:
  assumes "\<not> prefix src dst" "\<not> prefix dst src"
  shows "map_of (moved src dst nodes) q =
    (if prefix dst q then map_of nodes (src @ drop (length dst) q) else if prefix src q then None else map_of nodes q)"
proof (cases "prefix dst q")
  case True
  then obtain r where "q = dst @ r" by (auto simp: prefix_def)
  with map_of_moved_dst [OF assms] True show ?thesis by simp
next
  case False
  then show ?thesis
    by (induction nodes) (auto simp: moved_def List.map_filter_simps prefix_def)
qed

lemma sys_rename_view:
  assumes view: "shows_view root R s" and R: "R src \<noteq> None" "R dst = None" and apart: "\<not> prefix src dst" "\<not> prefix dst src"
  shows "\<exists>t. sys_rename replace (root @ src) (root @ dst) s = (Inr (), t) \<and> shows_view root (renamed_view src dst R) t \<and> ho_pid t = ho_pid s"
proof -
  obtain n where n: "inode_at s (root @ src) = Some n" using shows_view_at [OF view, of src] R by auto
  moreover have "inode_at s (root @ dst) = None" using shows_view_at [OF view, of dst] R(2) by auto
  ultimately have run: "sys_rename replace (root @ src) (root @ dst) s = (Inr (), s\<lparr>ho_calls := ho_calls s + 1,
      ho_nodes := moved (root @ src) (root @ dst) (ho_nodes s)\<rparr>)"
    using shows_view_calm [OF view] by (simp add: sys_rename_def host_call_Inr)
  have lookup: "map_of (moved (root @ src) (root @ dst) (ho_nodes s)) (root @ q) =
    (if prefix dst q then inode_at s (root @ src @ drop (length dst) q) else if prefix src q then None else inode_at s (root @ q))" for q
    using apart by (simp add: map_of_moved inode_at_def)
  show ?thesis
    using view unfolding run shows_view_def by (auto simp: inode_at_def [of "_\<lparr>ho_nodes := _\<rparr>"] lookup renamed_view_def)
qed

lemma holds_dirs_view:
  assumes "shows_view root R s" "\<And>ps. ps \<noteq> [] \<Longrightarrow> prefix ps parts \<Longrightarrow> R ps = Some HostDir"
  shows "holds (dirs_at root parts) s"
proof -
  have "map_option hi_content (inode_at s (root @ ps)) = Some HostDir" if "ps \<noteq> []" "prefix ps parts" for ps
    using shows_view_at [OF assms(1), of ps] assms(2) [OF that] by simp
  then show ?thesis unfolding holds_def dirs_at_def by blast
qed

lemma holds_file_view:
  assumes "shows_view root R s" "\<And>ps. ps \<noteq> [] \<Longrightarrow> prefix ps parent \<Longrightarrow> R ps = Some HostDir" "R (parent @ [name]) = Some (HostFile data)"
  shows "holds (file_at root parent name data) s"
  using holds_dirs_view [OF assms(1,2)] shows_view_at [OF assms(1), of "parent @ [name]"] assms(3) unfolding file_at_def holds_insert by auto

lemma open_beneath_view:
  assumes view: "shows_view root R s" and R: "\<And>ps. ps \<noteq> [] \<Longrightarrow> prefix ps parts \<Longrightarrow> R ps = Some HostDir"
  shows "\<exists>n. open_beneath root parts s = (Inr (root @ parts), s\<lparr>ho_calls := n\<rparr>)"
  by (rule open_beneath_calm [OF shows_view_calm [OF view] holds_dirs_view [OF view R]])

lemma require_private_view:
  assumes "shows_view root R s" "inode_at s (root @ p) = Some n"
  shows "require_private n relative s = (Inr (), s)"
  using assms by (simp add: require_private_def shows_view_def)

text \<open>The directories on the way to a path, created where they are missing.\<close>

fun with_dirs :: "string list \<Rightarrow> string list \<Rightarrow> view \<Rightarrow> view" where
  "with_dirs here [] R = R"
| "with_dirs here (x # parts) R = with_dirs (here @ [x]) parts (R(here @ [x] \<mapsto> HostDir))"

fun can_create :: "string list \<Rightarrow> string list \<Rightarrow> view \<Rightarrow> bool" where
  "can_create here [] R \<longleftrightarrow> True"
| "can_create here (x # parts) R \<longleftrightarrow> R (here @ [x]) \<in> {None, Some HostDir} \<and> can_create (here @ [x]) parts (R(here @ [x] \<mapsto> HostDir))"

lemma create_path_view:
  assumes "shows_view root R s" "R here = Some HostDir" "can_create here parts R"
  shows "\<exists>t. create_path relative (root @ here) parts s = (Inr (root @ here @ parts), t) \<and> shows_view root (with_dirs here parts R) t \<and> ho_pid t = ho_pid s"
  using assms
proof (induction parts arbitrary: here R s)
  case (Cons x parts)
  let ?p = "here @ [x]"
  have "\<exists>made t. sys_create HostDir 0x1c0 (root @ ?p) s = (made, t) \<and> (made = Inr () \<or> made = Inl EXIST) \<and>
      shows_view root (R(?p \<mapsto> HostDir)) t \<and> ho_pid t = ho_pid s"
  proof (cases "R ?p")
    case None
    then show ?thesis
      using sys_create_view [OF Cons.prems(1) None, of "0x1c0" HostDir] Cons.prems(2) by force
  next
    case (Some c)
    then have c: "R ?p = Some HostDir" using Cons.prems(3) by auto
    then obtain n where "inode_at s (root @ ?p) = Some n" using shows_view_at [OF Cons.prems(1), of ?p] by auto
    then have "sys_create HostDir 0x1c0 (root @ ?p) s = (Inl EXIST, s\<lparr>ho_calls := ho_calls s + 1\<rparr>)"
      using shows_view_calm [OF Cons.prems(1)] by (simp add: sys_create_def host_call_def)
    then show ?thesis using Cons.prems(1) c by (simp add: fun_upd_idem)
  qed
  then obtain made t where made: "sys_create HostDir 0x1c0 (root @ ?p) s = (made, t)" "made = Inr () \<or> made = Inl EXIST"
    "shows_view root (R(?p \<mapsto> HostDir)) t" "ho_pid t = ho_pid s" by blast
  obtain n where n: "inode_at t (root @ ?p) = Some n" "hi_content n = HostDir" using shows_view_at [OF made(3), of ?p] by auto
  have opened: "described relative (sys_open_directory (root @ ?p)) t = (Inr (), t\<lparr>ho_calls := ho_calls t + 1\<rparr>)"
    "unnamed (sys_fstat (root @ ?p)) (t\<lparr>ho_calls := ho_calls t + 1\<rparr>) = (Inr n, t\<lparr>ho_calls := ho_calls t + 2\<rparr>)"
    using n shows_view_calm [OF made(3)] by (simp_all add: query_runs inode_at_def)
  have secured: "require_private n relative (t\<lparr>ho_calls := ho_calls t + 2\<rparr>) = (Inr (), t\<lparr>ho_calls := ho_calls t + 2\<rparr>)"
    by (rule require_private_view [of root "R(?p \<mapsto> HostDir)" _ ?p]) (use made(3) n in \<open>simp_all add: inode_at_def\<close>)
  define R' where "R' = R(?p \<mapsto> HostDir)"
  have here: "R' ?p = Some HostDir" by (simp add: R'_def)
  have "\<exists>t'. create_path relative (root @ ?p) parts (t\<lparr>ho_calls := ho_calls t + 2\<rparr>) = (Inr (root @ ?p @ parts), t') \<and>
      shows_view root (with_dirs ?p parts R') t' \<and> ho_pid t' = ho_pid (t\<lparr>ho_calls := ho_calls t + 2\<rparr>)"
    by (rule Cons.IH) (use here made(3) [folded R'_def] Cons.prems(3) [unfolded can_create.simps, folded R'_def] in simp_all)
  then obtain t' where rest: "create_path relative (root @ ?p) parts (t\<lparr>ho_calls := ho_calls t + 2\<rparr>) = (Inr (root @ ?p @ parts), t')"
    "shows_view root (with_dirs ?p parts R') t'" "ho_pid t' = ho_pid s"
    using made(4) by auto
  have "outcome (sys_create HostDir 0x1c0 (root @ ?p)) s = (Inr made, t)" using made(1) by simp
  then have "create_path relative (root @ here) (x # parts) s = (Inr (root @ here @ x # parts), t')"
    using made(2) opened secured rest(1) by auto
  then show ?case using rest unfolding with_dirs.simps R'_def by blast
qed simp

lemma open_or_create_view:
  assumes "shows_view root R s" "R [] = Some HostDir" "can_create [] parts R"
  shows "\<exists>t. open_or_create_beneath root relative parts s = (Inr (root @ parts), t) \<and> shows_view root (with_dirs [] parts R) t \<and> ho_pid t = ho_pid s"
proof -
  have "unnamed sys_duplicate s = (Inr (), s\<lparr>ho_calls := ho_calls s + 1\<rparr>)"
    using shows_view_calm [OF assms(1)] by (simp add: query_runs)
  with create_path_view [of root R "s\<lparr>ho_calls := ho_calls s + 1\<rparr>" "[]" parts relative] assms show ?thesis
    by (auto simp: open_or_create_beneath_def)
qed

text \<open>A name that begins with a dot is a staging name; where there are none, a new one is free.\<close>

definition unstaged :: "string list \<Rightarrow> view \<Rightarrow> bool" where
  "unstaged d R \<longleftrightarrow> (\<forall>x r. R (d @ (CHR ''.'' # x) # r) = None)"

lemma renamed_fresh:
  assumes "\<And>r. R (d @ temporary # r) = None" "\<And>r. R (d @ name # r) = None" "temporary \<noteq> name"
  shows "renamed_view (d @ [temporary]) (d @ [name]) (R(d @ [temporary] \<mapsto> f)) = R(d @ [name] \<mapsto> f)"
proof
  fix q
  consider (dst) r where "q = d @ name # r" | (src) r where "q = d @ temporary # r"
    | (other) "\<not> prefix (d @ [name]) q" "\<not> prefix (d @ [temporary]) q"
    by (auto simp: prefix_def)
  then show "renamed_view (d @ [temporary]) (d @ [name]) (R(d @ [temporary] \<mapsto> f)) q = (R(d @ [name] \<mapsto> f)) q"
    by cases (use assms in \<open>auto simp: renamed_view_def\<close>)
qed

lemma write_staging_view:
  assumes view: "shows_view root R s" and R: "R d = Some HostDir" "unstaged d R"
  shows "\<exists>x t. write_staging_file (root @ d) name data s = (Inr (CHR ''.'' # x), t) \<and> CHR ''.'' # x \<noteq> name \<and>
    shows_view root (R(d @ [CHR ''.'' # x] \<mapsto> HostFile data)) t \<and> ho_pid t = ho_pid s"
proof -
  obtain x where named: "(staging_name name :: string root_action) s = (Inr (CHR ''.'' # x), s\<lparr>ho_counter := (ho_counter s + 1) mod 2 ^ 64\<rparr>)" "CHR ''.'' # x \<noteq> name"
    by (auto simp: staging_name_def dest: arg_cong [of _ _ length])
  let ?p = "d @ [CHR ''.'' # x]" and ?s = "s\<lparr>ho_counter := (ho_counter s + 1) mod 2 ^ 64\<rparr>"
  obtain t1 where t1: "sys_create (HostFile []) 0x180 (root @ ?p) ?s = (Inr (), t1)" "shows_view root (R(?p \<mapsto> HostFile [])) t1" "ho_pid t1 = ho_pid s"
    using sys_create_view [of root R ?s ?p "0x180" "HostFile []"] view R by (auto simp: unstaged_def)
  obtain t2 where t2: "sys_write (root @ ?p) data t1 = (Inr (), t2)" "shows_view root (R(?p \<mapsto> HostFile data)) t2" "ho_pid t2 = ho_pid s"
    using sys_write_view [OF t1(2), of ?p "HostFile []" data] t1(3) by auto
  have sync: "sys_sync t2 = (Inr (), t2\<lparr>ho_calls := ho_calls t2 + 1\<rparr>)" using shows_view_calm [OF t2(2)] by (simp add: query_runs)
  have body: "(outcome (act_bind (unnamed (sys_write (root @ ?p) data)) (\<lambda>_. unnamed sys_sync)) :: (root_error + unit) root_action) t1
      = (Inr (Inr ()), t2\<lparr>ho_calls := ho_calls t2 + 1\<rparr>)"
    using t2(1) sync by (simp add: outcome_def unnamed_def act_bind_def)
  have created: "described (CHR ''.'' # x) (sys_create (HostFile []) 0x180 (root @ ?p)) ?s = (Inr (), t1)" using t1(1) by simp
  have "write_staging_file (root @ d) name data s = (Inr (CHR ''.'' # x), t2\<lparr>ho_calls := ho_calls t2 + 1\<rparr>)"
    unfolding write_staging_file_def using named(1) created body by (simp del: outcome_Inr described_Inr)
  then show ?thesis using t2 named(2) by auto
qed

lemma with_dirs_there: "can_create here parts R \<Longrightarrow> (\<And>ps. ps \<noteq> [] \<Longrightarrow> prefix ps parts \<Longrightarrow> R (here @ ps) = Some HostDir) \<Longrightarrow> with_dirs here parts R = R"
proof (induction parts arbitrary: here)
  case (Cons x parts)
  have same: "R(here @ [x] \<mapsto> HostDir) = R" using Cons.prems(2) [of "[x]"] by (simp add: fun_upd_idem)
  have "with_dirs (here @ [x]) parts R = R"
    by (rule Cons.IH) (use Cons.prems same in \<open>auto simp: Cons.prems(2)\<close>)
  then show ?case by (simp add: same)
qed simp

lemma can_create_there: "(\<And>ps. ps \<noteq> [] \<Longrightarrow> prefix ps parts \<Longrightarrow> R (here @ ps) = Some HostDir) \<Longrightarrow> can_create here parts R"
proof (induction parts arbitrary: here)
  case (Cons x parts)
  have same: "R(here @ [x] \<mapsto> HostDir) = R" using Cons.prems [of "[x]"] by (simp add: fun_upd_idem)
  have "can_create (here @ [x]) parts R" by (rule Cons.IH) (simp add: Cons.prems)
  then show ?case using Cons.prems [of "[x]"] by (simp add: same)
qed simp

text \<open>A file written into a directory that is there, under a name that is free.\<close>

lemma write_file_atomic_view:
  assumes view: "shows_view root R s" and path: "split_relative relative = Inr (parent, name)"
    and R: "\<And>ps. prefix ps parent \<Longrightarrow> R ps = Some HostDir" "unstaged parent R" "\<And>r. R (parent @ name # r) = None"
  shows "\<exists>t. write_file_atomic root relative data s = (Inr (), t) \<and> shows_view root (R(parent @ [name] \<mapsto> HostFile data)) t \<and> ho_pid t = ho_pid s"
proof -
  have "with_dirs [] parent R = R" "can_create [] parent R" by (simp_all add: with_dirs_there can_create_there R(1))
  then obtain t1 where t1: "open_or_create_beneath root relative parent s = (Inr (root @ parent), t1)" "shows_view root R t1" "ho_pid t1 = ho_pid s"
    using open_or_create_view [OF view, of parent relative] R(1) by auto
  obtain x t2 where t2: "write_staging_file (root @ parent) name data t1 = (Inr (CHR ''.'' # x), t2)" "CHR ''.'' # x \<noteq> name"
    "shows_view root (R(parent @ [CHR ''.'' # x] \<mapsto> HostFile data)) t2" "ho_pid t2 = ho_pid s"
    using write_staging_view [OF t1(2) R(1) R(2), of name data] t1(3) by auto
  have fresh: "renamed_view (parent @ [CHR ''.'' # x]) (parent @ [name]) (R(parent @ [CHR ''.'' # x] \<mapsto> HostFile data)) = R(parent @ [name] \<mapsto> HostFile data)"
    by (rule renamed_fresh) (use R(2,3) t2(2) in \<open>simp_all add: unstaged_def\<close>)
  obtain t3 where t3: "sys_rename True (root @ parent @ [CHR ''.'' # x]) (root @ parent @ [name]) t2 = (Inr (), t3)"
    "shows_view root (R(parent @ [name] \<mapsto> HostFile data)) t3" "ho_pid t3 = ho_pid s"
    using sys_rename_view [OF t2(3), of "parent @ [CHR ''.'' # x]" "parent @ [name]" True] t2(2,4) R(3) [of "[]"] unfolding fresh by auto
  have renamed: "(outcome (sys_rename True (root @ parent @ [CHR ''.'' # x]) (root @ parent @ [name])) :: (errno + unit) root_action) t2 = (Inr (Inr ()), t3)"
    using t3(1) by simp
  have "write_file_atomic root relative data s = (Inr (), t3)"
    unfolding write_file_atomic_def path act_bind_lift_Inr using t1(1) t2(1) renamed by (simp del: outcome_Inr)
  then show ?thesis using t3 by blast
qed

lemma publish_exclusive_view:
  assumes view: "shows_view root R s" and path: "split_relative relative = Inr (parent, name)"
    and R: "\<And>ps. prefix ps parent \<Longrightarrow> R ps = Some HostDir" "unstaged parent R" "\<And>r. R (parent @ name # r) = None"
  shows "\<exists>t. publish_exclusive root relative data s = (Inr True, t)"
proof -
  have "with_dirs [] parent R = R" "can_create [] parent R" by (simp_all add: with_dirs_there can_create_there R(1))
  then obtain t1 where t1: "open_or_create_beneath root relative parent s = (Inr (root @ parent), t1)" "shows_view root R t1"
    using open_or_create_view [OF view, of parent relative] R(1) by auto
  obtain x t2 where t2: "write_staging_file (root @ parent) name data t1 = (Inr (CHR ''.'' # x), t2)" "CHR ''.'' # x \<noteq> name"
    "shows_view root (R(parent @ [CHR ''.'' # x] \<mapsto> HostFile data)) t2"
    using write_staging_view [OF t1(2) R(1) R(2), of name data] by auto
  obtain t3 where "(outcome (sys_rename False (root @ parent @ [CHR ''.'' # x]) (root @ parent @ [name])) :: (errno + unit) root_action) t2 = (Inr (Inr ()), t3)"
    using sys_rename_view [OF t2(3), of "parent @ [CHR ''.'' # x]" "parent @ [name]" False] t2(2) R(3) [of "[]"] by auto
  with t1(1) t2(1) show ?thesis
    unfolding publish_exclusive_def path act_bind_lift_Inr by (simp del: outcome_Inr)
qed

section \<open>Publication into a fresh store\<close>

lemma read_absent_view:
  assumes view: "shows_view root R s" and path: "split_relative relative = Inr (parent, name)"
    and R: "\<And>ps. ps \<noteq> [] \<Longrightarrow> prefix ps parent \<Longrightarrow> R ps = Some HostDir" "R (parent @ [name]) = None"
  shows "\<exists>n. read_file_if_exists root relative limit s = (Inr None, s\<lparr>ho_calls := n\<rparr>)"
proof -
  obtain n where n: "(outcome (open_beneath root parent) :: (root_error + host_path) root_action) s = (Inr (Inr (root @ parent)), s\<lparr>ho_calls := n\<rparr>)"
    using open_beneath_view [OF view R(1)] by auto
  have "inode_at s (root @ parent @ [name]) = None" using shows_view_at [OF view, of "parent @ [name]"] R(2) by auto
  then have "(outcome (sys_open_file (root @ parent @ [name])) :: (errno + unit) root_action) (s\<lparr>ho_calls := n\<rparr>) = (Inr (Inl NOENT), s\<lparr>ho_calls := n + 1\<rparr>)"
    using shows_view_calm [OF view] by (simp add: outcome_def sys_open_file_def host_query_def host_call_def inode_at_def Let_def)
  with n show ?thesis
    by (auto simp: read_file_if_exists_def open_regular_def path act_bind_lift_Inr simp del: outcome_Inr)
qed

lemma read_unrooted_view:
  assumes view: "shows_view root R s" and path: "split_relative relative = Inr (x # parent, name)" and R: "R [x] = None"
  shows "\<exists>n. read_file_if_exists root relative limit s = (Inr None, s\<lparr>ho_calls := n\<rparr>)"
proof -
  have "inode_at s (root @ [x]) = None" using shows_view_at [OF view, of "[x]"] R by auto
  then have "(outcome (open_beneath root (x # parent)) :: (root_error + host_path) root_action) s = (Inr (Inl (Access NOENT x)), s\<lparr>ho_calls := ho_calls s + 2\<rparr>)"
    using shows_view_calm [OF view]
    by (simp add: outcome_def open_beneath_def act_bind_def unnamed_def described_def sys_duplicate_def sys_open_directory_def host_query_def
        host_call_def inode_at_def Let_def)
  then show ?thesis
    by (auto simp: read_file_if_exists_def open_regular_def path act_bind_lift_Inr simp del: outcome_Inr)
qed

lemma read_if_exists_calm:
  assumes "ho_fault s = (\<lambda>_. None)" "holds (file_at root parent name data) s" "split_relative relative = Inr (parent, name)"
    "length data \<le> limit"
  shows "\<exists>k. read_file_if_exists root relative limit s = (Inr (Some data), s\<lparr>ho_calls := k\<rparr>)"
proof -
  obtain n where n: "open_regular root relative s = (Inr (Some ((root @ parent) @ [name], length data)), s\<lparr>ho_calls := n\<rparr>)"
    using open_regular_calm [OF assms(1-3)] by blast
  have "unnamed (sys_read ((root @ parent) @ [name])) (s\<lparr>ho_calls := n\<rparr>) = (Inr data, s\<lparr>ho_calls := n + 1\<rparr>)"
    using assms(1,2) by (auto simp: query_runs file_at_def holds_insert inode_at_def)
  with n show ?thesis using assms(4) by (auto simp: read_file_if_exists_def read_bounded_def Let_def)
qed

lemma require_private_file_view:
  assumes view: "shows_view root R s" and path: "split_relative relative = Inr (parent, name)"
    and R: "\<And>ps. ps \<noteq> [] \<Longrightarrow> prefix ps parent \<Longrightarrow> R ps = Some HostDir" "R (parent @ [name]) = Some (HostFile data)"
  shows "\<exists>n. require_private_file root relative s = (Inr (), s\<lparr>ho_calls := n\<rparr>)"
proof -
  obtain k where k: "open_regular root relative s = (Inr (Some ((root @ parent) @ [name], length data)), s\<lparr>ho_calls := k\<rparr>)"
    using open_regular_calm [OF shows_view_calm [OF view] holds_file_view [OF view R] path] by blast
  obtain n where n: "inode_at s (root @ parent @ [name]) = Some n" using shows_view_at [OF view, of "parent @ [name]"] R(2) by auto
  have "unnamed (sys_fstat (root @ parent @ [name])) (s\<lparr>ho_calls := k\<rparr>) = (Inr n, s\<lparr>ho_calls := k + 1\<rparr>)"
    "require_private n relative (s\<lparr>ho_calls := k + 1\<rparr>) = (Inr (), s\<lparr>ho_calls := k + 1\<rparr>)"
    using n shows_view_calm [OF view] require_private_view [of root R "s\<lparr>ho_calls := k + 1\<rparr>" "parent @ [name]"] view
    by (simp_all add: query_runs inode_at_def)
  with k show ?thesis by (auto simp: require_private_file_def)
qed

text \<open>The raw part of a store under construction: its two directories, objects under their digests, and nothing else.\<close>

definition raw_view :: "store_env \<Rightarrow> bytes set \<Rightarrow> view \<Rightarrow> bool" where
  "raw_view env D R \<longleftrightarrow> R [] = Some HostDir \<and> R [''raw''] = Some HostDir \<and> R [''raw'', ''sha256''] = Some HostDir \<and>
     (\<forall>x r. x \<noteq> ''raw'' \<longrightarrow> R (x # r) = None) \<and> (\<forall>x r. x \<noteq> ''sha256'' \<longrightarrow> R (''raw'' # x # r) = None) \<and>
     (\<forall>h r. R (''raw'' # ''sha256'' # h # r) = None \<or>
        r = [] \<and> (\<exists>data\<in>D. h = sha256_bytes (sx_sha env) data \<and> R [''raw'', ''sha256'', h] = Some (HostFile data)))"

lemma raw_view_dirs: "raw_view env D R \<Longrightarrow> prefix ps [''raw'', ''sha256''] \<Longrightarrow> R ps = Some HostDir"
  by (auto simp: raw_view_def prefix_Cons)

lemma raw_view_unstaged: "raw_view env D R \<Longrightarrow> unstaged [''raw'', ''sha256''] R" "raw_view env D R \<Longrightarrow> unstaged [''raw''] R"
proof -
  assume raw: "raw_view env D R"
  show "unstaged [''raw''] R" using raw by (auto simp: unstaged_def raw_view_def)
  show "unstaged [''raw'', ''sha256''] R"
    unfolding unstaged_def using raw sha256_no_dot by (simp add: raw_view_def) metis
qed

lemma write_object_view:
  assumes view: "shows_view root R s" and raw: "raw_view env D R" and sha: "\<And>data. length (sx_sha env data) = 32"
    and inj: "inj_on (sx_sha env) D" and D: "data \<in> D"
  shows "\<exists>R' t. write_object env root data s = (Inr (), t) \<and> shows_view root R' t \<and> raw_view env D R' \<and> ho_pid t = ho_pid s"
proof -
  let ?hex = "sha256_bytes (sx_sha env) data"
  note path = store_paths(4) [OF digest_clean(1) [OF sha, of data]]
  note dirs = raw_view_dirs [OF raw]
  show ?thesis
  proof (cases "R [''raw'', ''sha256'', ?hex]")
    case None
    have below: "R (''raw'' # ''sha256'' # ?hex # r) = None" for r
      using raw None by (cases "r = []") (auto simp: raw_view_def)
    obtain n where n: "read_file_if_exists root (object_path ?hex) (length data) s = (Inr None, s\<lparr>ho_calls := n\<rparr>)"
      using read_absent_view [OF view path dirs] None by auto
    obtain t where t: "write_file_atomic root (object_path ?hex) data (s\<lparr>ho_calls := n\<rparr>) = (Inr (), t)"
      "shows_view root (R([''raw'', ''sha256'', ?hex] \<mapsto> HostFile data)) t" "ho_pid t = ho_pid s"
      using write_file_atomic_view [of root R "s\<lparr>ho_calls := n\<rparr>", OF _ path dirs raw_view_unstaged(1) [OF raw], of data] view below by auto
    have "raw_view env D (R([''raw'', ''sha256'', ?hex] \<mapsto> HostFile data))"
      using raw D unfolding raw_view_def by auto
    moreover have "write_object env root data s = (Inr (), t)"
      using n t(1) by (simp add: write_object_def Let_def on_root_def)
    ultimately show ?thesis using t by blast
  next
    case (Some c)
    have "R (''raw'' # ''sha256'' # ?hex # []) = None \<or>
        [] = [] \<and> (\<exists>d\<in>D. ?hex = sha256_bytes (sx_sha env) d \<and> R [''raw'', ''sha256'', ?hex] = Some (HostFile d))"
      using raw unfolding raw_view_def by blast
    with Some obtain d where "d \<in> D" "?hex = sha256_bytes (sx_sha env) d" "R [''raw'', ''sha256'', ?hex] = Some (HostFile d)" by auto
    moreover from this have "d = data" using inj_onD [OF inj, of d data] D by (simp add: sha256_bytes_def hex_text_inject)
    ultimately have there: "R ([''raw'', ''sha256''] @ [?hex]) = Some (HostFile data)" by simp
    obtain n where n: "read_file_if_exists root (object_path ?hex) (length data) s = (Inr (Some data), s\<lparr>ho_calls := n\<rparr>)"
      using read_if_exists_calm [OF shows_view_calm [OF view] holds_file_view [OF view dirs there] path order_refl] by blast
    obtain k where k: "require_private_file root (object_path ?hex) (s\<lparr>ho_calls := n\<rparr>) = (Inr (), s\<lparr>ho_calls := k\<rparr>)"
      using require_private_file_view [of root R "s\<lparr>ho_calls := n\<rparr>", OF _ path dirs there] view by auto
    have "write_object env root data s = (Inr (), s\<lparr>ho_calls := k\<rparr>)"
      using n k by (simp add: write_object_def Let_def on_root_def)
    then show ?thesis using view raw by auto
  qed
qed

lemma objects_view:
  assumes "shows_view root R s" "raw_view env D R" and sha: "\<And>data. length (sx_sha env data) = 32"
    and inj: "inj_on (sx_sha env) D" and "snd ` set objects \<subseteq> D"
  shows "\<exists>R' t. act_each (\<lambda>(role, data). write_object env root data) objects s = (Inr (), t) \<and> shows_view root R' t \<and> raw_view env D R'"
  using assms(1,2,5)
proof (induction objects arbitrary: R s)
  case (Cons x objects)
  obtain role data where x: "x = (role, data)" by (cases x)
  obtain R' t where first: "write_object env root data s = (Inr (), t)" "shows_view root R' t" "raw_view env D R'"
    using write_object_view [OF Cons.prems(1,2) sha inj, of data] Cons.prems(3) x by auto
  with Cons.IH [OF first(2,3)] Cons.prems(3) x show ?case by auto
qed auto

text \<open>The staged entry is written file by file and moved in one step.\<close>

lemma create_directory_view:
  assumes view: "shows_view root R s" and path: "split_relative relative = Inr (parent, name)"
    and R: "\<And>ps. prefix ps parent \<Longrightarrow> R ps = Some HostDir" "R (parent @ [name]) = None"
  shows "\<exists>t. create_directory root relative s = (Inr (), t) \<and> shows_view root (R(parent @ [name] \<mapsto> HostDir)) t"
proof -
  obtain n where n: "open_beneath root parent s = (Inr (root @ parent), s\<lparr>ho_calls := n\<rparr>)"
    using open_beneath_view [OF view R(1)] by auto
  obtain t where "sys_create HostDir 0x1c0 (root @ parent @ [name]) (s\<lparr>ho_calls := n\<rparr>) = (Inr (), t)"
    "shows_view root (R(parent @ [name] \<mapsto> HostDir)) t"
    using sys_create_view [of root R "s\<lparr>ho_calls := n\<rparr>" "parent @ [name]" "0x1c0" HostDir] view R by auto
  with n show ?thesis by (auto simp: create_directory_def path act_bind_lift_Inr)
qed

definition staged_view :: "string \<Rightarrow> bytes \<Rightarrow> bytes \<Rightarrow> bytes \<Rightarrow> view \<Rightarrow> view" where
  "staged_view x tree_bytes template_bytes lock_bytes R =
     R([''derived'', x, ''tree.bin''] \<mapsto> HostFile tree_bytes, [''derived'', x, ''template.cpio''] \<mapsto> HostFile template_bytes,
       [''derived'', x, ''lock.json''] \<mapsto> HostFile lock_bytes)"

lemma write_staged_view:
  assumes view: "shows_view root R s" and clean: "clean_name x"
    and R: "R [] = Some HostDir" "R [''derived''] = Some HostDir" "R [''derived'', x] = Some HostDir" "\<And>y r. R (''derived'' # x # y # r) = None"
  shows "\<exists>t. write_staged root (derived_path x []) tree_bytes template_bytes lock_bytes s = (Inr (), t) \<and>
    shows_view root (staged_view x tree_bytes template_bytes lock_bytes R) t"
proof -
  have step: "\<exists>t. write_file_atomic root (derived_path x (CHR ''/'' # name)) data s = (Inr (), t) \<and>
      shows_view root (R'([''derived'', x, name] \<mapsto> HostFile data)) t"
    if "shows_view root R' s" "clean_name name" "\<And>ps. prefix ps [''derived'', x] \<Longrightarrow> R' ps = Some HostDir"
      "unstaged [''derived'', x] R'" "\<And>r. R' (''derived'' # x # name # r) = None" for R' s name data
    using write_file_atomic_view [OF that(1) store_paths(7) [OF clean that(2)] that(3,4), of data] that(5) by auto
  have dirs: "R ps = Some HostDir" if "prefix ps [''derived'', x]" for ps using that R(1-3) by (auto simp: prefix_Cons)
  have none: "unstaged [''derived'', x] R" using R(4) by (simp add: unstaged_def)
  let ?R1 = "R([''derived'', x, ''tree.bin''] \<mapsto> HostFile tree_bytes)"
  let ?R2 = "?R1([''derived'', x, ''template.cpio''] \<mapsto> HostFile template_bytes)"
  have later: "?R1 ps = Some HostDir" "?R2 ps = Some HostDir" if "prefix ps [''derived'', x]" for ps
    using dirs [OF that] prefix_length_le [OF that] by auto
  obtain t1 where t1: "write_file_atomic root (derived_path x ''/tree.bin'') tree_bytes s = (Inr (), t1)" "shows_view root ?R1 t1"
    using step [OF view _ dirs none, of "''tree.bin''" tree_bytes] R(4) by auto
  obtain t2 where t2: "write_file_atomic root (derived_path x ''/template.cpio'') template_bytes t1 = (Inr (), t2)" "shows_view root ?R2 t2"
    using step [OF t1(2), of "''template.cpio''" template_bytes] later(1) R(4) by (auto simp: unstaged_def)
  obtain t3 where t3: "write_file_atomic root (derived_path x ''/lock.json'') lock_bytes t2 = (Inr (), t3)"
    "shows_view root (staged_view x tree_bytes template_bytes lock_bytes R) t3"
    using step [OF t2(2), of "''lock.json''" lock_bytes] later(2) R(4) by (auto simp: unstaged_def staged_view_def)
  show ?thesis using t1(1) t2(1) t3 by (auto simp: write_staged_def staged_paths)
qed

definition derived_view :: "string \<Rightarrow> bytes \<Rightarrow> bytes \<Rightarrow> bytes \<Rightarrow> view \<Rightarrow> bool" where
  "derived_view digest tree_bytes template_bytes lock_bytes R \<longleftrightarrow>
     R [] = Some HostDir \<and> R [''derived''] = Some HostDir \<and> R [''derived'', digest] = Some HostDir \<and>
     R [''derived'', digest, ''tree.bin''] = Some (HostFile tree_bytes) \<and>
     R [''derived'', digest, ''template.cpio''] = Some (HostFile template_bytes) \<and>
     R [''derived'', digest, ''lock.json''] = Some (HostFile lock_bytes) \<and>
     R [''raw''] = Some HostDir \<and> unstaged [''raw''] R \<and> (\<forall>r. R (''raw'' # ''closure.json'' # r) = None)"

lemma publish_derived_view:
  assumes view: "shows_view root R s" and raw: "raw_view env D R" and clean: "clean_name digest" "hd digest \<noteq> CHR ''.''"
    and lock: "canonical_json (sx_lock_to env) (lock_of digest tree_sha256 template_sha256 closure_sha256) = Inr lock_bytes"
      "length lock_bytes \<le> MAX_CACHE_METADATA_BYTES"
  shows "\<exists>R' t. publish_derived env root digest tree_bytes template_bytes closure_sha256 tree_sha256 template_sha256 s = (Inr (), t) \<and>
    shows_view root R' t \<and> derived_view digest tree_bytes template_bytes lock_bytes R'"
proof -
  have R: "R [] = Some HostDir" "R [''raw''] = Some HostDir" "\<And>r. R (''derived'' # r) = None"
    "\<And>r. R (''raw'' # ''closure.json'' # r) = None" "unstaged [''raw''] R"
    using raw raw_view_unstaged(2) [OF raw] by (auto simp: raw_view_def)
  let ?R1 = "R([''derived''] \<mapsto> HostDir)"
  obtain t1 where t1: "open_or_create_directory root ''derived'' s = (Inr (root @ [''derived'']), t1)" "shows_view root ?R1 t1"
    using open_or_create_view [OF view R(1), of "[''derived'']" "''derived''"] R(3)
    by (auto simp: open_or_create_directory_def store_paths(3) act_bind_lift_Inr)
  let ?t = "t1\<lparr>ho_counter := (ho_counter t1 + 1) mod 2 ^ 64\<rparr>"
  obtain y where named: "(staging_name digest :: string storing) t1 = (Inr (CHR ''.'' # y), ?t)"
    by (auto simp: staging_name_def)
  let ?x = "CHR ''.'' # y"
  have x: "clean_name ?x" using named by (rule staging_clean [OF _ clean(1)])
  have apart: "?x \<noteq> digest" using clean(2) by auto
  have below: "?R1 ps = Some HostDir" if "prefix ps [''derived'']" for ps using that R(1) by (auto simp: prefix_Cons)
  let ?R2 = "?R1([''derived'', ?x] \<mapsto> HostDir)"
  obtain t2 where t2: "create_directory root (derived_path ?x []) ?t = (Inr (), t2)" "shows_view root ?R2 t2"
    using create_directory_view [of root ?R1 ?t, OF _ store_paths(6) [OF x] below] t1(2) R(3) by auto
  let ?R3 = "staged_view ?x tree_bytes template_bytes lock_bytes ?R2"
  obtain t3 where t3: "write_staged root (derived_path ?x []) tree_bytes template_bytes lock_bytes t2 = (Inr (), t3)" "shows_view root ?R3 t3"
    using write_staged_view [OF t2(2) x, of tree_bytes template_bytes lock_bytes] R(1,3) by auto
  let ?R4 = "renamed_view [''derived'', ?x] [''derived'', digest] ?R3"
  have dirs: "?R3 ps = Some HostDir" if "prefix ps [''derived'']" for ps
    using that R(1) by (auto simp: prefix_Cons staged_view_def)
  have "\<exists>t. root_rename root (derived_path ?x []) (derived_path digest []) t3 = (Inr (), t) \<and> shows_view root ?R4 t"
  proof -
    obtain n where n: "open_beneath root [''derived''] t3 = (Inr (root @ [''derived'']), t3\<lparr>ho_calls := n\<rparr>)"
      using open_beneath_view [OF t3(2), of "[''derived'']"] dirs by auto
    obtain k where k: "open_beneath root [''derived''] (t3\<lparr>ho_calls := n\<rparr>) = (Inr (root @ [''derived'']), t3\<lparr>ho_calls := k\<rparr>)"
      using open_beneath_view [of root ?R3 "t3\<lparr>ho_calls := n\<rparr>" "[''derived'']"] t3(2) dirs by auto
    obtain t where "sys_rename True (root @ [''derived'', ?x]) (root @ [''derived'', digest]) (t3\<lparr>ho_calls := k\<rparr>) = (Inr (), t)" "shows_view root ?R4 t"
      using sys_rename_view [of root ?R3 "t3\<lparr>ho_calls := k\<rparr>" "[''derived'', ?x]" "[''derived'', digest]" True] t3(2) R(3) apart
      by (auto simp: staged_view_def)
    with n k show ?thesis by (auto simp: root_rename_def store_paths(6) x clean(1) act_bind_lift_Inr)
  qed
  then obtain t4 where t4: "root_rename root (derived_path ?x []) (derived_path digest []) t3 = (Inr (), t4)" "shows_view root ?R4 t4" by blast
  have "derived_view digest tree_bytes template_bytes lock_bytes ?R4"
    using R apart by (auto simp: derived_view_def renamed_view_def staged_view_def unstaged_def)
  moreover have "publish_derived env root digest tree_bytes template_bytes closure_sha256 tree_sha256 template_sha256 s = (Inr (), t4)"
    unfolding publish_derived_def staged_paths(1) Let_def
    using t1(1) named t2(1) t3(1) t4(1) lock(2)
    by (simp add: lock(1) act_bind_lift_Inr on_root_def outcome_def act_bind_def install_staged_def)
  ultimately show ?thesis using t4(2) by blast
qed

definition store_view0 :: view where
  "store_view0 = [[] \<mapsto> HostDir]"

lemma create_store_fresh:
  assumes calm: "ho_fault s = (\<lambda>_. None)" and store: "store \<noteq> []" "\<And>q. inode_at s (store @ q) = None"
    and above: "\<And>k. k < length store \<Longrightarrow> map_option hi_content (inode_at s (take k store)) = Some HostDir"
  shows "\<exists>t. create_store store s = (Inr (), t) \<and> shows_view store store_view0 t"
proof -
  let ?step = "\<lambda>k. act_bind act_get (\<lambda>s.
       if map_option hi_content (inode_at s (take k store)) = Some HostDir then act_return ()
       else on_root (unnamed (sys_create HostDir 0x1c0 (take k store)))) :: unit storing"
  have there: "act_each ?step ks s = (Inr (), s)" if "\<And>k. k \<in> set ks \<Longrightarrow> k < length store" for ks
    using that above by (induction ks) auto
  let ?t = "s\<lparr>ho_calls := ho_calls s + 1, ho_nodes := put_node store \<lparr>hi_content = HostDir, hi_mode = 0x1c0, hi_uid = ho_uid s\<rparr> (ho_nodes s)\<rparr>"
  obtain d where "inode_at s (butlast store) = Some d" "hi_content d = HostDir"
    using above [of "length store - 1"] store(1) by (auto simp: butlast_conv_take)
  then have create: "sys_create HostDir 0x1c0 store s = (Inr (), ?t)"
    using store calm store(2) [of "[]"] by (auto simp: sys_create_def host_call_Inr)
  have "?step (length store) s = (Inr (), ?t)"
    using store(2) [of "[]"] create by simp
  moreover have "[1..<length store + 1] = [1..<length store] @ [length store]" using store(1) by (cases store) auto
  moreover have "act_each ?step [1..<length store] s = (Inr (), s)" by (rule there) simp
  ultimately have "create_store store s = (Inr (), ?t)"
    unfolding create_store_def by (simp only: act_each_append act_each.simps) (simp add: act_bind_def)
  moreover have "shows_view store store_view0 ?t"
    using calm store(2) by (auto simp: shows_view_def store_view0_def inode_at_def put_node_def)
  ultimately show ?thesis by blast
qed

lemma require_private_derived_view:
  assumes view: "shows_view root R s" and derived: "derived_view digest tree_bytes template_bytes lock_bytes R" and clean: "clean_name digest"
  shows "\<exists>n. require_private_derived root digest s = (Inr (), s\<lparr>ho_calls := n\<rparr>)"
proof -
  have dirs: "R ps = Some HostDir" if "prefix ps [''derived'', digest]" for ps
    using that derived by (auto simp: prefix_Cons derived_view_def)
  obtain n where n: "open_beneath root [''derived'', digest] s = (Inr (root @ [''derived'', digest]), s\<lparr>ho_calls := n\<rparr>)"
    using open_beneath_view [OF view dirs] by auto
  obtain d where d: "inode_at s (root @ [''derived'', digest]) = Some d"
    using shows_view_at [OF view, of "[''derived'', digest]"] dirs [of "[''derived'', digest]"] by auto
  have "require_private_directory root (derived_path digest []) s = (Inr (), s\<lparr>ho_calls := n + 1\<rparr>)"
  proof -
    have "unnamed (sys_fstat (root @ [''derived'', digest])) (s\<lparr>ho_calls := n\<rparr>) = (Inr d, s\<lparr>ho_calls := n + 1\<rparr>)"
      using d shows_view_calm [OF view] by (simp add: query_runs inode_at_def)
    moreover have "require_private d (derived_path digest []) (s\<lparr>ho_calls := n + 1\<rparr>) = (Inr (), s\<lparr>ho_calls := n + 1\<rparr>)"
      by (rule require_private_view [of root R _ "[''derived'', digest]"]) (use view d in \<open>simp_all add: inode_at_def\<close>)
    ultimately show ?thesis
      using n by (simp add: require_private_directory_def open_directory_def store_paths(5) [OF clean] act_bind_lift_Inr)
  qed
  moreover have each: "\<exists>n. act_each (\<lambda>name. on_root (require_private_file root (derived_path digest (CHR ''/'' # name)))) names (s\<lparr>ho_calls := k\<rparr>)
      = (Inr (), s\<lparr>ho_calls := n\<rparr>)" if "\<And>name. name \<in> set names \<Longrightarrow> clean_name name \<and> (\<exists>data. R [''derived'', digest, name] = Some (HostFile data))" for names k
    using that
  proof (induction names arbitrary: k)
    case (Cons name names)
    obtain data where data: "R ([''derived'', digest] @ [name]) = Some (HostFile data)" "clean_name name" using Cons.prems by auto
    obtain n where "require_private_file root (derived_path digest (CHR ''/'' # name)) (s\<lparr>ho_calls := k\<rparr>) = (Inr (), s\<lparr>ho_calls := n\<rparr>)"
      using require_private_file_view [of root R "s\<lparr>ho_calls := k\<rparr>", OF _ store_paths(7) [OF clean data(2)] dirs data(1)] view by auto
    with Cons.IH [of n] Cons.prems show ?case by simp
  qed auto
  moreover have "\<exists>m. act_each (\<lambda>name. on_root (require_private_file root (derived_path digest (CHR ''/'' # name))))
      [''tree.bin'', ''template.cpio'', ''lock.json''] (s\<lparr>ho_calls := n + 1\<rparr>) = (Inr (), s\<lparr>ho_calls := m\<rparr>)"
    by (rule each) (use derived in \<open>auto simp: derived_view_def\<close>)
  ultimately show ?thesis
    by (auto simp: require_private_derived_def simp del: act_each.simps)
qed

lemma derived_view_there:
  assumes "shows_view root R s" "derived_view digest tree_bytes template_bytes lock_bytes R"
    and "length tree_bytes \<le> MAX_CACHE_METADATA_BYTES" "length template_bytes \<le> MAX_TEMPLATE_BYTES"
      "length lock_bytes \<le> MAX_CACHE_METADATA_BYTES" "sha256_bytes (sx_sha env) template_bytes = template_sha256"
      "sx_lock_from env lock_bytes = Some (lock_of digest tree_sha256 template_sha256 closure_sha256)"
  shows "derived_there env root digest tree_bytes template_sha256 closure_sha256 tree_sha256 s"
proof -
  have "R ps = Some HostDir" if "prefix ps [''derived'', digest]" for ps
    using that assms(2) by (auto simp: prefix_Cons derived_view_def)
  then have files: "holds (derived_file root digest name data) s" if "R [''derived'', digest, name] = Some (HostFile data)" for name data
    by (rule holds_file_view [OF assms(1)]) (use that in simp_all)
  show ?thesis
    unfolding derived_there_def using assms files by (auto simp: derived_view_def)
qed

lemma prepared_sizes:
  assumes "prepare_publication env graph = Inr pub"
  shows "length (pb_tree_bytes pub) \<le> MAX_CACHE_METADATA_BYTES" "length (pb_template pub) \<le> MAX_TEMPLATE_BYTES"
    "sha256_bytes (sx_sha env) (pb_template pub) = cl_template_sha256 (pb_closure pub)"
  using assms by (auto simp: prepare_publication_def canonical_json_def closure_of_def Let_def split: if_splits)

lemma commit_fresh:
  assumes view: "shows_view root store_view0 s" and pub: "prepare_publication env graph = Inr pub"
    and sha: "\<And>data. length (sx_sha env data) = 32" and inj: "inj_on (sx_sha env) (snd ` set (wg_objects graph))"
    and lock: "canonical_json (sx_lock_to env) (lock_of (cl_canonical_digest (pb_closure pub)) (cl_tree_sha256 (pb_closure pub))
        (cl_template_sha256 (pb_closure pub)) (sha256_bytes (sx_sha env) (pb_closure_bytes pub))) = Inr lock_bytes"
      "length lock_bytes \<le> MAX_CACHE_METADATA_BYTES"
    and lock_law: "\<And>c b. sx_lock_to env c = Some b \<Longrightarrow> sx_lock_from env (b @ [0x0a]) = Some c"
  shows "\<exists>t. commit env root graph pub s = (Inr (), t)"
proof -
  let ?digest = "cl_canonical_digest (pb_closure pub)" and ?D = "snd ` set (wg_objects graph)"
  have clean: "clean_name ?digest" using digest_clean(2) [OF sha, of "wg_tree graph"] prepared_digest [OF pub] by simp
  have dotless: "hd ?digest \<noteq> CHR ''.''"
  proof -
    have "?digest = hex_text (sx_sha env (CANONICAL_PREFIX @ encode (sx_sha env) (wg_tree graph)))"
      using prepared_digest [OF pub] by (simp add: canonical_digest_def)
    moreover have "CHR ''.'' \<notin> set (hex_text bs)" for bs using set_hex_text [of bs] by auto
    ultimately show ?thesis using clean by (metis clean_name_def hd_in_set)
  qed
  obtain n1 where n1: "read_file_if_exists root RAW_CLOSURE_PATH MAX_CACHE_METADATA_BYTES s = (Inr None, s\<lparr>ho_calls := n1\<rparr>)"
    using read_unrooted_view [OF view store_paths(1)] by (auto simp: store_view0_def)
  have s1: "check_existing_closure root (pb_closure_bytes pub) s = (Inr (), s\<lparr>ho_calls := n1\<rparr>)"
    using n1 by (simp add: check_existing_closure_def on_root_def)
  let ?R1 = "with_dirs [] [''raw'', ''sha256''] store_view0"
  obtain t2 where t2: "open_or_create_directory root ''raw/sha256'' (s\<lparr>ho_calls := n1\<rparr>) = (Inr (root @ [''raw'', ''sha256'']), t2)" "shows_view root ?R1 t2"
    using open_or_create_view [of root store_view0 "s\<lparr>ho_calls := n1\<rparr>" "[''raw'', ''sha256'']" "''raw/sha256''"] view
    by (auto simp: open_or_create_directory_def store_paths(2) act_bind_lift_Inr store_view0_def simp del: with_dirs.simps)
  have raw: "raw_view env ?D ?R1" by (auto simp: raw_view_def store_view0_def)
  obtain R2 t3 where t3: "act_each (\<lambda>(role, data). write_object env root data) (wg_objects graph) t2 = (Inr (), t3)"
    "shows_view root R2 t3" "raw_view env ?D R2"
    using objects_view [OF t2(2) raw sha inj order_refl] by blast
  obtain R3 t4 where t4: "publish_derived env root ?digest (pb_tree_bytes pub) (pb_template pub) (sha256_bytes (sx_sha env) (pb_closure_bytes pub))
      (cl_tree_sha256 (pb_closure pub)) (cl_template_sha256 (pb_closure pub)) t3 = (Inr (), t4)" "shows_view root R3 t4"
    "derived_view ?digest (pb_tree_bytes pub) (pb_template pub) lock_bytes R3"
    using publish_derived_view [OF t3(2,3) clean dotless lock] by blast
  obtain n5 where n5: "require_private_derived root ?digest t4 = (Inr (), t4\<lparr>ho_calls := n5\<rparr>)"
    using require_private_derived_view [OF t4(2,3) clean] by blast
  have "sx_lock_from env lock_bytes = Some (lock_of ?digest (cl_tree_sha256 (pb_closure pub)) (cl_template_sha256 (pb_closure pub))
      (sha256_bytes (sx_sha env) (pb_closure_bytes pub)))"
    using lock(1) lock_law by (auto simp: canonical_json_def)
  then have "derived_there env root ?digest (pb_tree_bytes pub) (cl_template_sha256 (pb_closure pub))
      (sha256_bytes (sx_sha env) (pb_closure_bytes pub)) (cl_tree_sha256 (pb_closure pub)) (t4\<lparr>ho_calls := n5\<rparr>)"
    by (intro derived_view_there [OF _ t4(3)]) (use t4(2) prepared_sizes [OF pub] lock(2) in simp_all)
  then obtain n6 where n6: "verify_derived env root ?digest (pb_tree_bytes pub) (cl_template_sha256 (pb_closure pub))
      (sha256_bytes (sx_sha env) (pb_closure_bytes pub)) (cl_tree_sha256 (pb_closure pub)) (t4\<lparr>ho_calls := n5\<rparr>) = (Inr (), t4\<lparr>ho_calls := n6\<rparr>)"
    using verify_derived_calm [of "t4\<lparr>ho_calls := n5\<rparr>", OF _ clean] shows_view_calm [OF t4(2)] by fastforce
  have above: "R3 ps = Some HostDir" if "prefix ps [''raw'']" for ps using that t4(3) by (auto simp: prefix_Cons derived_view_def)
  obtain t7 where t7: "publish_exclusive root RAW_CLOSURE_PATH (pb_closure_bytes pub) (t4\<lparr>ho_calls := n6\<rparr>) = (Inr True, t7)"
    using publish_exclusive_view [of root R3 "t4\<lparr>ho_calls := n6\<rparr>", OF _ store_paths(1) above] t4(2,3) by (auto simp: derived_view_def)
  then have "publish_closure root (pb_closure_bytes pub) (t4\<lparr>ho_calls := n6\<rparr>) = (Inr (), t7)"
    by (simp add: publish_closure_def on_root_def)
  then have "commit env root graph pub s = (Inr (), t7)"
    unfolding commit_def Let_def using s1 t2(1) t3(1) t4(1) n5 n6 by (simp add: on_root_def)
  then show ?thesis by blast
qed

lemma publish_fresh:
  assumes calm: "ho_fault s = (\<lambda>_. None)" and store: "store \<noteq> []" "\<And>q. inode_at s (store @ q) = None"
    and above: "\<And>k. k < length store \<Longrightarrow> map_option hi_content (inode_at s (take k store)) = Some HostDir"
    and pub: "prepare_publication env graph = Inr pub"
    and sha: "\<And>data. length (sx_sha env data) = 32" and inj: "inj_on (sx_sha env) (snd ` set (wg_objects graph))"
    and lock: "canonical_json (sx_lock_to env) (lock_of (cl_canonical_digest (pb_closure pub)) (cl_tree_sha256 (pb_closure pub))
        (cl_template_sha256 (pb_closure pub)) (sha256_bytes (sx_sha env) (pb_closure_bytes pub))) = Inr lock_bytes"
      "length lock_bytes \<le> MAX_CACHE_METADATA_BYTES"
    and lock_law: "\<And>c b. sx_lock_to env c = Some b \<Longrightarrow> sx_lock_from env (b @ [0x0a]) = Some c"
  shows "\<exists>w t. publish env store graph s = (Inr w, t) \<and> aw_launch w = wg_launch graph"
proof -
  obtain t1 where t1: "create_store store s = (Inr (), t1)" "shows_view store store_view0 t1"
    using create_store_fresh [OF calm store above] by blast
  obtain n where n: "inode_at t1 store = Some n" "hi_content n = HostDir"
    using shows_view_at [OF t1(2), of "[]"] by (auto simp: store_view0_def)
  let ?t = "t1\<lparr>ho_calls := ho_calls t1 + 2\<rparr>"
  have root: "Root_open store t1 = (Inr store, t1\<lparr>ho_calls := ho_calls t1 + 1\<rparr>)"
    by (rule Root_open_calm [OF shows_view_calm [OF t1(2)]]) (simp add: holds_def n)
  have "unnamed (sys_fstat store) (t1\<lparr>ho_calls := ho_calls t1 + 1\<rparr>) = (Inr n, ?t)"
    using n shows_view_calm [OF t1(2)] by (simp add: query_runs inode_at_def)
  moreover have "require_private n ''the workload store'' ?t = (Inr (), ?t)"
    by (rule require_private_view [of store store_view0 _ "[]"]) (use t1(2) n in \<open>simp_all add: inode_at_def\<close>)
  ultimately have opened: "open_private store t1 = (Inr store, ?t)" using root by (simp add: open_private_def)
  obtain t where "commit env store graph pub ?t = (Inr (), t)"
    using commit_fresh [OF _ pub sha inj lock lock_law, of store ?t] t1(2) by auto
  with t1(1) opened show ?thesis by (simp add: publish_def pub act_bind_lift_Inr on_root_def)
qed

text \<open>
  C19. A new store takes every accepted workload: on a host that injects no fault, once the graph of the source is derived and
  passes the checks of publication, and the store path is free below directories that are there, \<open>assemble\<close> returns. The
  store it leaves loads the same tree and launch identity, provided that an image was selected by a manifest digest in the
  printed form, with hexadecimal digits in lower case. The lock must be within the metadata limit, the JSON of the three
  documents must read back, and SHA-256 gives 32 bytes without a collision among the objects of the graph.
\<close>

theorem fresh_assembly_loads:
  assumes graph: "source_graph env spec directory s = (Inr graph, s1)"
    and calm: "ho_fault s1 = (\<lambda>_. None)" and store: "store \<noteq> []" "\<And>q. inode_at s1 (store @ q) = None"
    and above: "\<And>k. k < length store \<Longrightarrow> map_option hi_content (inode_at s1 (take k store)) = Some HostDir"
    and pub: "prepare_publication env graph = Inr pub"
    and sha: "\<And>data. length (sx_sha env data) = 32" and inj: "inj_on (sx_sha env) (snd ` set (wg_objects graph))"
    and lock: "canonical_json (sx_lock_to env) (lock_of (cl_canonical_digest (pb_closure pub)) (cl_tree_sha256 (pb_closure pub))
        (cl_template_sha256 (pb_closure pub)) (sha256_bytes (sx_sha env) (pb_closure_bytes pub))) = Inr lock_bytes"
      "length lock_bytes \<le> MAX_CACHE_METADATA_BYTES"
    and lock_law: "\<And>c b. sx_lock_to env c = Some b \<Longrightarrow> sx_lock_from env (b @ [0x0a]) = Some c"
    and closure_law: "\<And>c b. sx_closure_to env c = Some b \<Longrightarrow> sx_closure_from env (b @ [0x0a]) = Some c"
    and spec_law: "\<And>c b. sx_spec_to env c = Some b \<Longrightarrow> sx_spec_from env (b @ [0x0a]) = Some c"
  shows "\<exists>w t. assemble env spec directory store s = (Inr w, t) \<and>
    ((\<forall>source. ws_source spec = SourceOci source \<longrightarrow> digest_printed (os_manifest_digest source)) \<longrightarrow>
      (\<exists>loaded n. load env store (t\<lparr>ho_fault := \<lambda>_. None\<rparr>) = (Inr loaded, t\<lparr>ho_fault := \<lambda>_. None, ho_calls := n\<rparr>) \<and>
        lw_closure_sha256 loaded = aw_closure_sha256 w \<and> lw_tree loaded = wg_tree graph \<and> lw_launch loaded = wg_launch graph))"
proof -
  obtain w t where publish: "publish env store graph s1 = (Inr w, t)" "aw_launch w = wg_launch graph"
    using publish_fresh [OF calm store above pub sha inj lock lock_law] by blast
  have "assemble env spec directory store s = (Inr w, t)" using graph publish(1) by (simp add: assemble_def)
  moreover have "\<exists>loaded n. load env store (t\<lparr>ho_fault := \<lambda>_. None\<rparr>) = (Inr loaded, t\<lparr>ho_fault := \<lambda>_. None, ho_calls := n\<rparr>) \<and>
      lw_closure_sha256 loaded = aw_closure_sha256 w \<and> lw_tree loaded = wg_tree graph \<and> lw_launch loaded = wg_launch graph"
    if "\<forall>source. ws_source spec = SourceOci source \<longrightarrow> digest_printed (os_manifest_digest source)"
  proof -
    have "\<And>source. ws_source spec = SourceOci source \<Longrightarrow> digest_printed (os_manifest_digest source)" using that by blast
    note replays = source_replays [OF spec_law this graph]
    show ?thesis using publish_then_load [OF sha closure_law publish(1) inj replays(2) replays(1)] publish(2) by auto
  qed
  ultimately show ?thesis by blast
qed

section \<open>Properties of the store\<close>

text \<open>
  C6. The raw closure is committed last: a publication that fails, at whatever call and with whatever was written by then,
  leaves the closure file of the store exactly as it was.
\<close>

theorem failed_publication_commits_nothing:
  assumes "\<And>data. length (sx_sha env data) = 32" "publish env store graph s = (Inl e, t)"
  shows "inode_at t (store @ [''raw'', ''closure.json'']) = inode_at s (store @ [''raw'', ''closure.json''])"
proof -
  let ?c = "store @ [''raw'', ''closure.json'']"
  have create: "unchanged.always ?c (create_store store)"
    by (rule unchanged.always_create_store) (auto dest!: prefix_length_le)
  have "unchanged.pending ?c (\<lambda>_. True) (publish env store graph)"
    unfolding publish_def
  proof (rule unchanged.pending_bind [OF unchanged.always_pure(3)],
      rule unchanged.pending_bind [OF create], rule unchanged.pending_bind [OF unchanged.always_storing(1) [OF unchanged.always_open(2)]])
    fix pub root u v p q
    assume "act_lift (prepare_publication env graph) u = (Inr pub, v)" "on_root (open_private store) p = (Inr root, q)"
    then have pub: "prepare_publication env graph = Inr pub" and root: "root = store"
      by (auto dest: open_private_value)
    have "unchanged.pending ?c (\<lambda>_. True) (commit env root graph pub)"
      unfolding root
      by (rule unchanged.pending_commit) (auto simp: prepared_digest [OF pub] digest_clean assms(1))
    then show "unchanged.pending ?c (\<lambda>_. True) (act_bind (commit env root graph pub) (\<lambda>_. act_return (w pub)))" for w
      by (rule unchanged.pending_bind_until) auto
  qed
  then show ?thesis using assms(2) by (auto simp: unchanged.pending_def same_at_def)
qed

text \<open>
  C5. What was assembled loads. When \<open>assemble\<close> returned, through whatever interrupted publications and injected faults
  came before, a load of the store it left, on a host without further faults, returns the source kind, the closure and
  canonical digests and the launch identity that were reported, with the tree that was assembled and its guest template,
  and changes nothing. It relies on SHA-256 digests of 32 bytes without a collision among the objects of the graph, on the
  JSON of the closure and of the retained specification being read back as what was written, and, for an image, on having
  been selected by a manifest digest in the printed form, with hexadecimal digits in lower case.
\<close>

theorem assembled_workload_loads:
  assumes sha: "\<And>data. length (sx_sha env data) = 32"
    and closure_law: "\<And>c b. sx_closure_to env c = Some b \<Longrightarrow> sx_closure_from env (b @ [0x0a]) = Some c"
    and spec_law: "\<And>c b. sx_spec_to env c = Some b \<Longrightarrow> sx_spec_from env (b @ [0x0a]) = Some c"
    and printed: "\<And>source. ws_source spec = SourceOci source \<Longrightarrow> digest_printed (os_manifest_digest source)"
    and graph: "source_graph env spec directory s = (Inr graph, s1)"
    and collision_free: "inj_on (sx_sha env) (snd ` set (wg_objects graph))"
    and run: "assemble env spec directory store s = (Inr w, t)"
  shows "\<exists>loaded n. load env store (t\<lparr>ho_fault := \<lambda>_. None\<rparr>) = (Inr loaded, t\<lparr>ho_fault := \<lambda>_. None, ho_calls := n\<rparr>) \<and>
    lw_source_kind loaded = aw_source_kind w \<and> lw_closure_sha256 loaded = aw_closure_sha256 w \<and>
    lw_canonical_digest loaded = aw_canonical_digest w \<and> lw_launch loaded = aw_launch w \<and>
    lw_tree loaded = wg_tree graph \<and> template (wg_tree graph) GUEST_TEMPLATE_ROOT = Inr (lw_template loaded)"
proof -
  from run graph have publish: "publish env store graph s1 = (Inr w, t)"
    by (auto simp: assemble_def act_bind_Inr)
  note replays = source_replays [OF spec_law printed graph]
  from publish_then_load [OF sha closure_law publish collision_free replays(2) replays(1)]
  show ?thesis .
qed

text \<open>
  C7. Loads are content addressed: two stores, on two hosts, that load with the same closure digest load the same workload,
  as long as SHA-256 has no collision among the files of the two hosts. Whatever else a store holds, and whatever faults
  were met, does not reach the result.
\<close>

theorem loads_agree:
  assumes "load env store s = (Inr x, t)" "load env store' s' = (Inr y, t')"
    and "lw_closure_sha256 x = lw_closure_sha256 y" and "inj_on (sx_sha env) (host_files s \<union> host_files s')"
  shows "x = y"
proof -
  obtain bytes closure s1 s2 objects graph where x: "bytes \<in> host_files s" "sx_closure_from env bytes = Some closure"
    "host_files s1 = host_files s" "read_raw_objects env store closure s1 = (Inr objects, s2)" "replay_graph env closure objects = Inr graph"
    "template (wg_tree graph) GUEST_TEMPLATE_ROOT = Inr (lw_template x)" "lw_source_kind x = cl_kind closure"
    "lw_closure_sha256 x = sha256_bytes (sx_sha env) bytes" "lw_canonical_digest x = cl_canonical_digest closure"
    "lw_tree x = wg_tree graph" "lw_launch x = cl_launch closure"
    by (rule load_parts [OF assms(1)])
  obtain bytes' closure' s1' s2' objects' graph' where y: "bytes' \<in> host_files s'" "sx_closure_from env bytes' = Some closure'"
    "host_files s1' = host_files s'" "read_raw_objects env store' closure' s1' = (Inr objects', s2')"
    "replay_graph env closure' objects' = Inr graph'" "template (wg_tree graph') GUEST_TEMPLATE_ROOT = Inr (lw_template y)"
    "lw_source_kind y = cl_kind closure'" "lw_closure_sha256 y = sha256_bytes (sx_sha env) bytes'"
    "lw_canonical_digest y = cl_canonical_digest closure'" "lw_tree y = wg_tree graph'" "lw_launch y = cl_launch closure'"
    by (rule load_parts [OF assms(2)])
  have "sx_sha env bytes = sx_sha env bytes'" using assms(3) x(8) y(8) by (simp add: sha256_bytes_def hex_text_inject)
  then have "bytes = bytes'" using inj_onD [OF assms(4)] x(1) y(1) by blast
  then have closure: "closure' = closure" using x(2) y(2) by simp
  have "objects = objects'"
    using x(4) y(4) read_each_agree assms(4) x(3) y(3) unfolding closure read_raw_objects_def by (auto split: if_splits)
  then have "graph' = graph" using x(5) y(5) closure by simp
  then show ?thesis using x(6-) y(6-) closure assms(3) by (intro LoadedWorkload.equality) simp_all
qed

section \<open>A workload in a store\<close>

text \<open>A binary source, its graph, a digest that tells lengths apart, and JSON that knows the three documents of this store.\<close>

lemma as_bytes_code [code]: "as_bytes text = map (\<lambda>c. of_nat (of_char c)) text"
  by (simp add: as_bytes_def flip: unat_of_char)

definition length_sha :: "bytes \<Rightarrow> bytes" where
  "length_sha data = of_nat (length data) # of_nat (length data div 256) # replicate 30 0"

definition app_launch :: LaunchIdentity where
  "app_launch = \<lparr>li_executable = ''/bin/simferret-workload'', li_arguments = [''/bin/simferret-workload''], li_environment = [],
     li_working_directory = ''/'', li_uid = 7, li_gid = 8\<rparr>"

definition app_tree :: tree where
  "app_tree = [(ROOT_PATH, Entry_default_directory), (as_bytes ''bin'', Entry_default_directory),
     (as_bytes ''bin/simferret-workload'', Entry_file sample_elf 0x1ed 7 8 0)]"

definition app_graph :: WorkloadGraph where
  "app_graph = \<lparr>wg_kind = KindBinary, wg_manifest_digest = None,
     wg_objects = [(''executable'', sample_elf), (''workload-specification'', [0x7b, 0x0a])],
     wg_tree = app_tree, wg_launch = app_launch, wg_layers = []\<rparr>"

definition app_source :: BinarySource where
  "app_source = \<lparr>bs_path = ''app'', bs_arguments = [], bs_environment = [], bs_working_directory = ''/'', bs_user = ''7:8''\<rparr>"

definition app_template :: bytes where
  "app_template = projr (template app_tree GUEST_TEMPLATE_ROOT)"

definition app_records :: "ObjectRecord list" where
  "app_records = [\<lparr>or_role = ''executable'', or_digest = ''sha256:'' @ sha256_bytes length_sha sample_elf, or_bytes = 120\<rparr>,
     \<lparr>or_role = ''workload-specification'', or_digest = ''sha256:'' @ sha256_bytes length_sha [0x7b, 0x0a], or_bytes = 2\<rparr>]"

definition app_base :: store_env where
  "app_base = \<lparr>sx_oci = image_env\<lparr>env_sha := length_sha\<rparr>, sx_closure_to = (\<lambda>_. None), sx_closure_from = (\<lambda>_. None),
     sx_lock_to = (\<lambda>_. None), sx_lock_from = (\<lambda>_. None),
     sx_spec_to = (\<lambda>c. if c = canonical_spec app_launch then Some [0x7b] else None), sx_spec_from = (\<lambda>_. Some (canonical_spec app_launch))\<rparr>"

definition app_closure :: Closure where
  "app_closure = closure_of app_base app_graph app_template app_records"

definition app_lock :: DerivedLock where
  "app_lock = lock_of (cl_canonical_digest app_closure) (cl_tree_sha256 app_closure) (cl_template_sha256 app_closure)
     (sha256_bytes length_sha [0x0a])"

definition app_env :: store_env where
  "app_env = app_base\<lparr>sx_closure_to := (\<lambda>c. if c = app_closure then Some [] else None), sx_closure_from := (\<lambda>_. Some app_closure),
     sx_lock_to := (\<lambda>c. if c = app_lock then Some [0, 0] else None), sx_lock_from := (\<lambda>_. Some app_lock)\<rparr>"

definition app_pub :: publication where
  "app_pub = \<lparr>pb_closure = app_closure, pb_closure_bytes = [0x0a], pb_tree_bytes = encode length_sha app_tree, pb_template = app_template\<rparr>"

lemma app_sha [simp]: "sx_sha app_env = length_sha" "sx_sha app_base = length_sha"
  by (simp_all add: app_env_def app_base_def)

lemma app_laws:
  "length (sx_sha app_env data) = 32"
  "sx_closure_to app_env c = Some b \<Longrightarrow> sx_closure_from app_env (b @ [0x0a]) = Some c"
  "sx_spec_to app_env k = Some b \<Longrightarrow> sx_spec_from app_env (b @ [0x0a]) = Some k"
  "sx_lock_to app_env l = Some b \<Longrightarrow> sx_lock_from app_env (b @ [0x0a]) = Some l"
  by (auto simp: length_sha_def) (auto simp: app_env_def app_base_def split: if_splits)

lemma app_install: "normalize_layer_path (as_bytes BINARY_INSTALL_PATH) = Inr (as_bytes BINARY_INSTALL_PATH)" by code_simp

lemma app_install_text: "from_utf8 (as_bytes BINARY_INSTALL_PATH) = Some BINARY_INSTALL_PATH" by code_simp

lemma app_user: "normalize_required_user ''7:8'' = Inr (7, 8)" by code_simp

lemma app_tree_built:
  "binary_tree sample_elf \<lparr>bi_install_path = p, bi_arguments = a, bi_environment = e, bi_working_directory = d, bi_uid = 7, bi_gid = 8\<rparr>
     (as_bytes BINARY_INSTALL_PATH) = app_tree"
  by code_simp

lemma app_working: "normalize_working_directory (Some ''/'') app_tree = Inr ''/''" by code_simp

lemma app_tree_valid: "validate_canonical_tree app_tree MAX_VIEW_ENTRIES MAX_EXPANDED_LAYER_BYTES = Inr ()" by code_simp

lemma app_launch_valid: "validate_launch_identity app_launch = Inr ()" by code_simp

lemma app_overlay: "validate_overlay_compatibility app_tree app_launch = Inr ()" by code_simp

lemma app_encode_length: "length (encode length_sha app_tree) = 129" by code_simp

lemma app_template_length: "template app_tree GUEST_TEMPLATE_ROOT = Inr app_template \<and> length app_template = 632"
proof -
  have "case template app_tree GUEST_TEMPLATE_ROOT of Inr b \<Rightarrow> length b = 632 | _ \<Rightarrow> False" by code_simp
  then show ?thesis by (auto simp: app_template_def split: sum.splits)
qed

lemma app_roles: "sorted_roles [(''executable'', a), (''workload-specification'', b)] = [(''executable'', a), (''workload-specification'', b)]"
  by (simp add: sorted_roles_def as_bytes_def)

lemma app_binary: "binary_tree_and_launch sample_elf \<lparr>bi_install_path = BINARY_INSTALL_PATH, bi_arguments = [CHR ''/'' # BINARY_INSTALL_PATH],
    bi_environment = [], bi_working_directory = ''/'', bi_uid = 7, bi_gid = 8\<rparr> = Inr (app_tree, app_launch)"
proof -
  have args: "normalize_arguments [CHR ''/'' # BINARY_INSTALL_PATH] field = Inr [CHR ''/'' # BINARY_INSTALL_PATH]" for field
    by (simp add: normalize_arguments_iff argument_ok_def MAX_ARGUMENTS_def MAX_ARGUMENT_BYTES_def BINARY_INSTALL_PATH_def)
  have env: "normalize_environment [] = Inr []" by code_simp
  have launch: "\<lparr>li_executable = CHR ''/'' # BINARY_INSTALL_PATH, li_arguments = [CHR ''/'' # BINARY_INSTALL_PATH], li_environment = [],
      li_working_directory = ''/'', li_uid = 7, li_gid = 8\<rparr> = app_launch"
    by (simp add: app_launch_def BINARY_INSTALL_PATH_def)
  have "as_bytes BINARY_INSTALL_PATH \<noteq> ROOT_PATH" by code_simp
  then show ?thesis
    using app_launch_valid
    by (simp add: binary_tree_and_launch_def app_install app_install_text args env app_tree_built app_working app_tree_valid Let_def
        RESERVED_OWNER_def launch)
qed

lemma app_graph_of: "binary_graph_of app_env app_source sample_elf = Inr app_graph"
proof -
  have args: "normalize_arguments [] field = Inr []" for field by (simp add: normalize_arguments_iff)
  have env: "normalize_environment [] = Inr []" by code_simp
  have printed: "text_of_bytes (as_bytes BINARY_INSTALL_PATH) = BINARY_INSTALL_PATH" by (rule text_of_as_bytes)
  have json: "canonical_json (sx_spec_to app_env) (canonical_spec app_launch) = Inr [0x7b, 0x0a]"
    by (simp add: canonical_json_def app_env_def app_base_def)
  show ?thesis
    by (simp add: binary_graph_of_def app_source_def sample_elf_valid app_user app_install args env printed app_binary json app_graph_def app_roles)
qed

lemma app_prepared: "prepare_publication app_env app_graph = Inr app_pub"
proof -
  have limits: "role_limit ''executable'' = Some MAX_FILE_BYTES" "role_limit ''workload-specification'' = Some MAX_SPECIFICATION_BYTES"
    by (simp_all add: role_limit_def)
  have sizes: "length sample_elf = 120" by (simp add: sample_elf_def)
  have records: "collect (object_record app_env) (enumerate 0 (wg_objects app_graph)) = Inr app_records"
    by (simp add: app_graph_def object_record_def limits sizes app_records_def MAX_FILE_BYTES_def MAX_SPECIFICATION_BYTES_def)
  have closure: "closure_of app_env app_graph app_template app_records = app_closure"
    by (simp add: app_closure_def closure_of_def)
  have json: "canonical_json (sx_closure_to app_env) app_closure = Inr [0x0a]"
    by (simp add: canonical_json_def app_env_def)
  have graph: "wg_tree app_graph = app_tree" "wg_launch app_graph = app_launch" "length (wg_objects app_graph) = 2"
    by (simp_all add: app_graph_def)
  have template: "template app_tree GUEST_TEMPLATE_ROOT = Inr app_template" "length app_template = 632" using app_template_length by auto
  have bounds: "129 \<le> MAX_CACHE_METADATA_BYTES" "0 < MAX_CACHE_METADATA_BYTES" "632 \<le> MAX_TEMPLATE_BYTES" "2 \<le> MAX_RAW_OBJECTS"
    by (simp_all add: MAX_CACHE_METADATA_BYTES_def MAX_TEMPLATE_BYTES_def MAX_EXPANDED_LAYER_BYTES_def MAX_RAW_OBJECTS_def)
  show ?thesis
    unfolding prepare_publication_def graph
    by (simp add: app_tree_valid app_overlay app_encode_length template records closure json app_pub_def Let_def not_less bounds)
qed

lemma app_replays:
  "replay_graph app_env (closure_of app_env app_graph template_bytes records) (wg_objects app_graph) = Inr app_graph"
  "distinct (map fst (wg_objects app_graph))"
  using binary_replays [OF app_laws(3) app_graph_of] by auto

lemma app_collision_free: "inj_on (sx_sha app_env) (snd ` set (wg_objects app_graph))"
proof -
  have "length_sha sample_elf \<noteq> length_sha [0x7b, 0x0a]" by (simp add: length_sha_def sample_elf_def)
  then show ?thesis by (auto simp: app_graph_def inj_on_def)
qed

definition plain_dir :: host_inode where
  "plain_dir = \<lparr>hi_content = HostDir, hi_mode = 0x1ed, hi_uid = 5\<rparr>"

definition app_host :: "(nat \<Rightarrow> errno option) \<Rightarrow> host" where
  "app_host fault = \<lparr>ho_nodes = [([], plain_dir), ([''src''], plain_dir),
       ([''src'', ''app''], \<lparr>hi_content = HostFile sample_elf, hi_mode = 0x1ed, hi_uid = 5\<rparr>)],
     ho_calls = 0, ho_fault = fault, ho_partial = (\<lambda>_. 0), ho_counter = 0, ho_uid = 5, ho_pid = 9\<rparr>"

definition app_spec :: WorkloadSpec where
  "app_spec = \<lparr>ws_version = WORKLOAD_SPEC_VERSION, ws_source = SourceBinary app_source\<rparr>"

lemma app_source_graph: "\<exists>n. source_graph app_env app_spec [''src''] (app_host (\<lambda>_. None)) = (Inr app_graph, (app_host (\<lambda>_. None))\<lparr>ho_calls := n\<rparr>)"
proof -
  let ?s = "app_host (\<lambda>_. None)"
  have opened: "Root_open [''src''] ?s = (Inr [''src''], ?s\<lparr>ho_calls := ho_calls ?s + 1\<rparr>)"
    by (rule Root_open_calm) (simp_all add: holds_def app_host_def inode_at_def plain_dir_def)
  have path: "split_relative ''app'' = Inr ([], ''app'')"
    using split_relative_join [of "[]" "''app''"] by (simp add: clean_name_def)
  have "\<exists>k. read_file [''src''] ''app'' MAX_FILE_BYTES (?s\<lparr>ho_calls := ho_calls ?s + 1\<rparr>)
      = (Inr sample_elf, ?s\<lparr>ho_calls := ho_calls ?s + 1\<rparr>\<lparr>ho_calls := k\<rparr>)"
    by (rule read_file_calm [OF _ _ path])
      (simp_all add: file_at_def holds_def app_host_def inode_at_def sample_elf_def MAX_FILE_BYTES_def)
  then obtain k where "read_file [''src''] ''app'' MAX_FILE_BYTES (?s\<lparr>ho_calls := ho_calls ?s + 1\<rparr>) = (Inr sample_elf, ?s\<lparr>ho_calls := k\<rparr>)"
    by auto
  with opened show ?thesis
    using app_graph_of
    by (auto simp: source_graph_def app_spec_def binary_graph_def source_locator_error_def on_root_def app_source_def act_bind_def)
qed

lemma app_lock_json:
  "canonical_json (sx_lock_to app_env) (lock_of (cl_canonical_digest (pb_closure app_pub)) (cl_tree_sha256 (pb_closure app_pub))
     (cl_template_sha256 (pb_closure app_pub)) (sha256_bytes (sx_sha app_env) (pb_closure_bytes app_pub))) = Inr [0, 0, 0x0a]"
proof -
  have "lock_of (cl_canonical_digest (pb_closure app_pub)) (cl_tree_sha256 (pb_closure app_pub))
     (cl_template_sha256 (pb_closure app_pub)) (sha256_bytes (sx_sha app_env) (pb_closure_bytes app_pub)) = app_lock"
    by (simp add: app_lock_def app_pub_def)
  then show ?thesis by (simp add: canonical_json_def app_env_def)
qed

lemma app_lock_size: "length [0, 0, 0x0a :: u8] \<le> MAX_CACHE_METADATA_BYTES"
  by (simp add: MAX_CACHE_METADATA_BYTES_def)

lemma app_fresh: "inode_at ((app_host fault)\<lparr>ho_calls := n\<rparr>) ([''store''] @ q) = None"
  "k < length [''store''] \<Longrightarrow> map_option hi_content (inode_at ((app_host fault)\<lparr>ho_calls := n\<rparr>) (take k [''store''])) = Some HostDir"
  by (simp_all add: app_host_def inode_at_def plain_dir_def)

theorem fresh_assembly_loads_witness:
  "\<exists>w t loaded n. assemble app_env app_spec [''src''] [''store''] (app_host (\<lambda>_. None)) = (Inr w, t) \<and>
    load app_env [''store''] (t\<lparr>ho_fault := \<lambda>_. None\<rparr>) = (Inr loaded, t\<lparr>ho_fault := \<lambda>_. None, ho_calls := n\<rparr>) \<and>
    lw_closure_sha256 loaded = aw_closure_sha256 w \<and> lw_tree loaded = app_tree \<and> lw_launch loaded = app_launch"
proof -
  obtain n where graph: "source_graph app_env app_spec [''src''] (app_host (\<lambda>_. None)) = (Inr app_graph, (app_host (\<lambda>_. None))\<lparr>ho_calls := n\<rparr>)"
    using app_source_graph by blast
  have parts: "wg_tree app_graph = app_tree" "wg_launch app_graph = app_launch" by (simp_all add: app_graph_def)
  have "\<not> (\<exists>source. ws_source app_spec = SourceOci source)" by (simp add: app_spec_def)
  moreover have "\<exists>w t. assemble app_env app_spec [''src''] [''store''] (app_host (\<lambda>_. None)) = (Inr w, t) \<and>
    ((\<forall>source. ws_source app_spec = SourceOci source \<longrightarrow> digest_printed (os_manifest_digest source)) \<longrightarrow>
      (\<exists>loaded n. load app_env [''store''] (t\<lparr>ho_fault := \<lambda>_. None\<rparr>) = (Inr loaded, t\<lparr>ho_fault := \<lambda>_. None, ho_calls := n\<rparr>) \<and>
        lw_closure_sha256 loaded = aw_closure_sha256 w \<and> lw_tree loaded = wg_tree app_graph \<and> lw_launch loaded = wg_launch app_graph))"
    by (rule fresh_assembly_loads [OF graph _ _ app_fresh(1) app_fresh(2) app_prepared app_laws(1) app_collision_free
          app_lock_json app_lock_size app_laws(4) app_laws(2) app_laws(3)])
      (simp_all add: app_host_def)
  ultimately show ?thesis unfolding parts [symmetric] by blast
qed

theorem assembled_workload_loads_witness:
  "\<exists>w t loaded n. assemble app_env app_spec [''src''] [''store''] (app_host (\<lambda>_. None)) = (Inr w, t) \<and>
    load app_env [''store''] (t\<lparr>ho_fault := \<lambda>_. None\<rparr>) = (Inr loaded, t\<lparr>ho_fault := \<lambda>_. None, ho_calls := n\<rparr>) \<and>
    lw_canonical_digest loaded = aw_canonical_digest w \<and> lw_tree loaded = app_tree"
proof -
  obtain n where graph: "source_graph app_env app_spec [''src''] (app_host (\<lambda>_. None)) = (Inr app_graph, (app_host (\<lambda>_. None))\<lparr>ho_calls := n\<rparr>)"
    using app_source_graph by blast
  have calm: "ho_fault ((app_host (\<lambda>_. None))\<lparr>ho_calls := n\<rparr>) = (\<lambda>_. None)" by (simp add: app_host_def)
  obtain w t where publish: "publish app_env [''store''] app_graph ((app_host (\<lambda>_. None))\<lparr>ho_calls := n\<rparr>) = (Inr w, t)"
    using publish_fresh [OF calm _ app_fresh(1) app_fresh(2) app_prepared app_laws(1) app_collision_free app_lock_json app_lock_size app_laws(4)]
    by blast
  then have run: "assemble app_env app_spec [''src''] [''store''] (app_host (\<lambda>_. None)) = (Inr w, t)"
    using graph by (simp add: assemble_def)
  have "wg_tree app_graph = app_tree" by (simp add: app_graph_def)
  with assembled_workload_loads [OF app_laws(1,2,3) _ graph app_collision_free run] run show ?thesis
    by (auto simp: app_spec_def)
qed

theorem failed_publication_commits_nothing_witness:
  "\<exists>e t. publish app_env [''store''] app_graph (app_host (\<lambda>n. if n = 1 then Some (OtherErrno 28) else None)) = (Inl e, t) \<and>
    inode_at t [''store''] \<noteq> None \<and> inode_at t [''store'', ''raw'', ''closure.json''] = None"
proof -
  let ?s = "app_host (\<lambda>n. if n = 1 then Some (OtherErrno 28) else None)"
  let ?t = "?s\<lparr>ho_calls := 1, ho_nodes := put_node [''store''] \<lparr>hi_content = HostDir, hi_mode = 0x1c0, hi_uid = 5\<rparr> (ho_nodes ?s)\<rparr>"
  have created: "create_store [''store''] ?s = (Inr (), ?t)"
    by (simp add: create_store_def on_root_def unnamed_def sys_create_def host_call_def app_host_def inode_at_def plain_dir_def put_node_def
        act_bind_def Let_def)
  have opened: "open_private [''store''] ?t = (Inl (Raw (OtherErrno 28)), ?t\<lparr>ho_calls := 2\<rparr>)"
    by (simp add: open_private_def Root_open_def unnamed_def sys_open_directory_def host_query_def host_call_def app_host_def act_bind_def Let_def)
  have run: "publish app_env [''store''] app_graph ?s = (Inl (StoreRoot (Raw (OtherErrno 28))), ?t\<lparr>ho_calls := 2\<rparr>)"
    using created opened by (simp add: publish_def app_prepared act_bind_lift_Inr on_root_def act_bind_def)
  have "inode_at (?t\<lparr>ho_calls := 2\<rparr>) ([''store''] @ [''raw'', ''closure.json'']) = inode_at ?s ([''store''] @ [''raw'', ''closure.json''])"
    by (rule failed_publication_commits_nothing [OF app_laws(1) run])
  then have "inode_at (?t\<lparr>ho_calls := 2\<rparr>) [''store'', ''raw'', ''closure.json''] = None" by (simp add: app_host_def inode_at_def)
  moreover have "inode_at (?t\<lparr>ho_calls := 2\<rparr>) [''store''] \<noteq> None" by (simp add: inode_at_def put_node_def)
  ultimately show ?thesis using run by blast
qed

text \<open>Two hosts with the same store, one of them with a file of its own.\<close>

definition app_files :: "(host_path \<times> host_inode) list" where
  "app_files = map (\<lambda>(p, c). (''store'' # p, \<lparr>hi_content = c, hi_mode = 0x1c0, hi_uid = 5\<rparr>))
     [([], HostDir), ([''raw''], HostDir), ([''raw'', ''sha256''], HostDir), ([''derived''], HostDir),
      ([''derived'', cl_canonical_digest app_closure], HostDir), ([''raw'', ''closure.json''], HostFile [0x0a]),
      ([''raw'', ''sha256'', sha256_bytes length_sha sample_elf], HostFile sample_elf),
      ([''raw'', ''sha256'', sha256_bytes length_sha [0x7b, 0x0a]], HostFile [0x7b, 0x0a]),
      ([''derived'', cl_canonical_digest app_closure, ''tree.bin''], HostFile (encode length_sha app_tree)),
      ([''derived'', cl_canonical_digest app_closure, ''template.cpio''], HostFile app_template),
      ([''derived'', cl_canonical_digest app_closure, ''lock.json''], HostFile [0, 0, 0x0a])]"

definition stored_host :: "(host_path \<times> host_inode) list \<Rightarrow> host" where
  "stored_host others = (app_host (\<lambda>_. None))\<lparr>ho_nodes := app_files @ others\<rparr>"

lemma stored_loads: "\<exists>n. load app_env [''store''] (stored_host others) = (Inr (loaded_of app_env app_graph app_pub), (stored_host others)\<lparr>ho_calls := n\<rparr>)"
proof (rule load_calm [OF app_laws(1,2) app_prepared app_replays(2) app_replays(1)])
  have apart: "sha256_bytes length_sha sample_elf \<noteq> sha256_bytes length_sha [0x7b, 0x0a]"
    unfolding sha256_bytes_def hex_text_inject by (simp add: length_sha_def sample_elf_def)
  show "ho_fault (stored_host others) = (\<lambda>_. None)" by (simp add: stored_host_def app_host_def)
  show "holds {([''store''], HostDir)} (stored_host others)" by (simp add: holds_def stored_host_def inode_at_def app_files_def)
  show "holds (closure_file [''store''] (pb_closure_bytes app_pub)) (stored_host others)"
    by (simp add: file_at_def dirs_at_Cons holds_insert holds_def stored_host_def inode_at_def app_files_def app_pub_def)
  show "holds (object_file app_env [''store''] data) (stored_host others)" if "data \<in> snd ` set (wg_objects app_graph)" for data
    using that apart
    by (auto simp: app_graph_def file_at_def dirs_at_Cons holds_insert holds_def stored_host_def inode_at_def app_files_def)
  have template: "length app_template \<le> MAX_TEMPLATE_BYTES" "length (encode length_sha app_tree) \<le> MAX_CACHE_METADATA_BYTES"
    using app_template_length app_encode_length
    by (simp_all add: MAX_TEMPLATE_BYTES_def MAX_EXPANDED_LAYER_BYTES_def MAX_CACHE_METADATA_BYTES_def)
  have files: "holds (derived_file [''store''] (cl_canonical_digest app_closure) ''tree.bin'' (encode length_sha app_tree)) (stored_host others)"
    "holds (derived_file [''store''] (cl_canonical_digest app_closure) ''template.cpio'' app_template) (stored_host others)"
    "holds (derived_file [''store''] (cl_canonical_digest app_closure) ''lock.json'' [0, 0, 0x0a]) (stored_host others)"
    by (simp_all add: file_at_def dirs_at_Cons holds_insert holds_def stored_host_def inode_at_def app_files_def)
  show "derived_there app_env [''store''] (cl_canonical_digest (pb_closure app_pub)) (pb_tree_bytes app_pub) (cl_template_sha256 (pb_closure app_pub))
      (sha256_bytes (sx_sha app_env) (pb_closure_bytes app_pub)) (cl_tree_sha256 (pb_closure app_pub)) (stored_host others)"
    unfolding derived_there_def
    using files template app_lock_size
    by (intro exI [of _ app_template] exI [of _ "[0, 0, 0x0a]"]) (simp add: app_pub_def app_env_def app_lock_def app_closure_def closure_of_def app_graph_def app_base_def)
qed

definition note_file :: "host_path \<times> host_inode" where
  "note_file = ([''notes''], \<lparr>hi_content = HostFile [1, 2, 3, 4], hi_mode = 0x1a4, hi_uid = 6\<rparr>)"

lemma stored_collision_free: "inj_on (sx_sha app_env) (host_files (stored_host []) \<union> host_files (stored_host [note_file]))"
proof -
  have files: "host_files (stored_host []) \<union> host_files (stored_host [note_file]) \<subseteq>
    {sample_elf, [0x7b, 0x0a], [0x0a], encode length_sha app_tree, app_template, [0, 0, 0x0a], [1, 2, 3, 4]}"
    by (auto simp: host_files_def stored_host_def app_files_def note_file_def)
  have lengths: "length sample_elf = 120" "length (encode length_sha app_tree) = 129" "length app_template = 632"
    using app_encode_length app_template_length by (simp_all add: sample_elf_def)
  show ?thesis
    by (rule inj_on_subset [OF _ files]) (auto simp: inj_on_def length_sha_def lengths)
qed

theorem loads_agree_witness:
  "\<exists>x y s t. load app_env [''store''] (stored_host []) = (Inr x, s) \<and> load app_env [''store''] (stored_host [note_file]) = (Inr y, t) \<and> x = y"
proof -
  obtain n k where x: "load app_env [''store''] (stored_host []) = (Inr (loaded_of app_env app_graph app_pub), (stored_host [])\<lparr>ho_calls := n\<rparr>)"
    and y: "load app_env [''store''] (stored_host [note_file]) = (Inr (loaded_of app_env app_graph app_pub), (stored_host [note_file])\<lparr>ho_calls := k\<rparr>)"
    using stored_loads by blast
  have "loaded_of app_env app_graph app_pub = loaded_of app_env app_graph app_pub"
    by (rule loads_agree [OF x y refl stored_collision_free])
  then show ?thesis using x y by blast
qed

text \<open>An image whose index names the manifest by a digest in capitals.\<close>

definition capital_digest :: string where
  "capital_digest = ''sha256:01AB'' @ replicate 60 CHR ''0''"

definition capital_descriptor :: json where
  "capital_descriptor = JObject [(''mediaType'', JString MANIFEST_MEDIA_TYPE), (''digest'', JString capital_digest), (''size'', JInt 1),
     (''platform'', image_platform)]"

definition capital_index :: json where
  "capital_index = JObject [(''schemaVersion'', JInt 2), (''manifests'', JArray [capital_descriptor])]"

definition capital_json :: "bytes \<Rightarrow> json option" where
  "capital_json bs = (if bs = [2] then Some capital_index else if bs = [0xab] then Some image_manifest else image_json bs)"

definition capital_env :: store_env where
  "capital_env = app_env\<lparr>sx_oci := image_env\<lparr>env_json := capital_json\<rparr>\<rparr>"

definition capital_objects :: OciObjects where
  "capital_objects = \<lparr>oo_layout = [1], oo_index = [2], oo_manifest = [0xab], oo_config = [4], oo_layers = [image_layer],
     oo_manifest_digest = capital_digest\<rparr>"

lemma capital_parsed: "parse_digest capital_digest = Inr (sha256_bytes toy_sha [0xab])" by code_simp

lemma capital_differs: "capital_digest \<noteq> ''sha256:'' @ sha256_bytes toy_sha [0xab]" by code_simp

lemma capital_parse:
  "parse_descriptor capital_descriptor ''selected'' =
     Inr \<lparr>d_media_type = Some MANIFEST_MEDIA_TYPE, d_digest = ''sha256:'' @ sha256_bytes toy_sha [0xab], d_size = 1\<rparr>"
  using capital_parsed
  by (simp add: parse_descriptor_def capital_descriptor_def as_object_def required_string_def required_integer_def optional_string_def
      optional_string_value_def non_null_def)

lemma capital_selected:
  "select_manifest_descriptor capital_index capital_digest =
     Inr \<lparr>d_media_type = Some MANIFEST_MEDIA_TYPE, d_digest = ''sha256:'' @ sha256_bytes toy_sha [0xab], d_size = 1\<rparr>"
proof -
  have names: "names_digest capital_digest capital_descriptor"
    by (simp add: names_digest_def json_get_def capital_descriptor_def)
  have plat: "Option.bind (json_get capital_descriptor ''platform'') json_as_object =
      Some [(''architecture'', JString ''amd64''), (''os'', JString ''linux'')]"
    by (simp add: json_get_def capital_descriptor_def image_platform_def)
  show ?thesis
    by (simp add: select_manifest_descriptor_def as_object_def capital_index_def required_integer_def names capital_parse plat Let_def
        platform_extensions_def del: append.simps)
qed

lemma capital_image_env [simp]: "sx_oci capital_env = image_env\<lparr>env_json := capital_json\<rparr>"
  by (simp add: capital_env_def)

lemma capital_graph: "\<exists>graph. oci_graph_of capital_env capital_objects = Inr graph"
proof -
  let ?env = "image_env\<lparr>env_json := capital_json\<rparr>"
  obtain config where config: "json_as_object image_config = Some config"
    and launch: "normalize_launch config image_tree = Inr image_launch" using image_launch_normal by blast
  from config have rootfs: "map_of config ''rootfs'' =
      Some (JObject [(''type'', JString ''layers''), (''diff_ids'', JArray [digest_text image_layer])])"
    by (auto simp: image_config_def)
  have json: "capital_json [1] = Some (JObject [(''imageLayoutVersion'', JString LAYOUT_VERSION)])"
    "capital_json [2] = Some capital_index" "capital_json [0xab] = Some image_manifest" "capital_json [4] = Some image_config"
    by (simp_all add: capital_json_def image_json_def)
  have parse: "parse_descriptor (JObject (image_descriptor CONFIG_MEDIA_TYPE [4])) what =
    Inr \<lparr>d_media_type = Some CONFIG_MEDIA_TYPE, d_digest = ''sha256:'' @ sha256_bytes toy_sha [4],
      d_size = int (length [4 :: u8])\<rparr>" for what
    by (rule parse_image_descriptor) (simp_all add: image_descriptor_def)
  have manifest: "json_as_object image_manifest = Some [(''schemaVersion'', JInt 2), (''mediaType'', JString MANIFEST_MEDIA_TYPE),
     (''config'', JObject (image_descriptor CONFIG_MEDIA_TYPE [4])),
     (''layers'', JArray [JObject (image_descriptor PLAIN_LAYER_MEDIA_TYPE image_layer)])]"
    by (simp add: image_manifest_def)
  have verified: "verify_descriptor ?env \<lparr>d_media_type = m, d_digest = ''sha256:'' @ sha256_bytes toy_sha data, d_size = int (length data)\<rparr> data what = Inr ()" for m data what
    by (simp add: verify_descriptor_iff image_env_def)
  have verify: "verify_descriptor ?env = verify_descriptor image_env"
    by (intro ext) (simp add: verify_descriptor_def)
  have expand: "expand_layer ?env = expand_layer image_env"
    by (intro ext) (simp add: expand_layer_def)
  have parts: "env_sha ?env = env_sha image_env" "env_tar ?env = env_tar image_env" by simp_all
  have step: "graph_layer ?env = graph_layer image_env"
    by (intro ext) (simp only: graph_layer_def verify expand parts)
  have root: "Tree_insert_default_directory ROOT_PATH image_tree = image_tree"
    by (simp add: Tree_insert_default_directory_def image_get)
  have kind: "e_kind Entry_default_directory = Directory" by (simp add: Entry_default_directory_def Entry_directory_def)
  have "\<exists>graph. parse_graph ?env capital_objects = Inr graph"
    using image_layer_step verified [of "Some MANIFEST_MEDIA_TYPE" "[0xab]"] verified [of "Some CONFIG_MEDIA_TYPE" "[4]"]
    by (simp add: parse_graph_def capital_objects_def parse_json_def json as_object_def required_string_def capital_selected
        manifest required_integer_def parse config rootfs non_null_def MAX_LAYERS_def root image_get kind image_symlinks
        launch step Let_def del: append.simps)
  then show ?thesis by (auto simp: oci_graph_of_def)
qed

text \<open>
  C26. The raw manifest digest of a specification may be written in capitals: assembly selects the descriptor by that text and
  records it, but the derivation from the closure asks the index for the printed digest, in lower case. When no entry of
  the index names the printed digest, the derivation of the graph from the closure of an accepted image fails with the
  error that there is no such manifest.
\<close>

theorem capital_digest_never_replayed:
  assumes graph: "oci_graph_of env objects = Inr graph" and parsed: "parse_digest (oo_manifest_digest objects) = Inr hex"
    and index: "parse_json (sx_oci env) (oo_index objects) ''index'' = Inr index" "as_object index ''index'' = Inr m"
      "map_of m ''manifests'' = Some (JArray manifests)"
    and absent: "\<forall>v\<in>set manifests. \<not> names_digest (''sha256:'' @ hex) v"
  shows "replay_graph env (closure_of env graph template_bytes records) (wg_objects graph) = Inl (StoreOci NoManifestDescriptor)"
proof -
  from graph obtain g where g: "parse_graph (sx_oci env) objects = Inr g" and parts:
    "graph = \<lparr>wg_kind = KindOci, wg_manifest_digest = Some (oo_manifest_digest objects), wg_objects = oci_roles objects,
          wg_tree = og_tree g, wg_launch = og_launch g, wg_layers = og_layers g\<rparr>"
    by (auto simp: oci_graph_of_def)
  from g obtain layout_value layout where head: "parse_json (sx_oci env) (oo_layout objects) ''oci-layout'' = Inr layout_value"
    "as_object layout_value ''oci-layout'' = Inr layout" "required_string layout ''imageLayoutVersion'' ''oci-layout'' = Inr LAYOUT_VERSION"
    "required_integer m ''schemaVersion'' ''index'' = Inr 2"
    using index unfolding parse_graph_def select_manifest_descriptor_def and_then_eq_Inr guard_eq_Inr by (elim exE conjE) simp
  have "filter (names_digest (''sha256:'' @ hex)) manifests = []" using absent by (simp add: filter_empty_conv)
  then have "parse_graph (sx_oci env) (objects\<lparr>oo_manifest_digest := ''sha256:'' @ hex\<rparr>) = Inl NoManifestDescriptor"
    using head index by (simp add: parse_graph_def select_manifest_descriptor_def)
  then show ?thesis
    using replay_oci_parses [of "closure_of env graph template_bytes records" _ hex objects env, OF _ parsed] parse_graph_layers [OF g]
    by (simp add: replay_graph_def closure_of_def parts del: append_Cons append_Nil)
qed

theorem capital_digest_never_replayed_witness:
  "\<exists>graph. oci_graph_of capital_env capital_objects = Inr graph \<and>
     replay_graph capital_env (closure_of capital_env graph [] []) (wg_objects graph) = Inl (StoreOci NoManifestDescriptor)"
proof -
  obtain graph where graph: "oci_graph_of capital_env capital_objects = Inr graph" using capital_graph by blast
  have parsed: "parse_digest (oo_manifest_digest capital_objects) = Inr (sha256_bytes toy_sha [0xab])"
    by (simp add: capital_objects_def capital_parsed)
  have index: "parse_json (sx_oci capital_env) (oo_index capital_objects) ''index'' = Inr capital_index"
    "as_object capital_index ''index'' = Inr [(''schemaVersion'', JInt 2), (''manifests'', JArray [capital_descriptor])]"
    by (simp_all add: parse_json_def capital_objects_def capital_json_def capital_index_def as_object_def)
  have "\<forall>v\<in>set [capital_descriptor]. \<not> names_digest (''sha256:'' @ sha256_bytes toy_sha [0xab]) v"
    using capital_differs by (simp add: names_digest_def json_get_def capital_descriptor_def del: append.simps)
  from capital_digest_never_replayed [OF graph parsed index _ this, of "[]" "[]"] graph show ?thesis by auto
qed

end
