(* ===== verification/Protocol.thy ===== *)
theory Protocol
  imports Launch
begin

text \<open>
  The controller/agent protocol of \<open>protocol.rs\<close>: commands, events and their value-free
  descriptions, the length-prefixed and line-delimited framing, and the hexadecimal form of
  exact bytes; with the report types of \<open>assertions.rs\<close> that one event carries. The JSON
  serializer is a pair of parameters \<open>to_json\<close>, \<open>from_json\<close>. A reader is the sequence of
  results its reads deliver, one byte at a time, ending at end of file. The lemmas: the hexadecimal form is a bijection on bounded byte strings, and
  both framings read back exactly what was written and leave the rest of the stream.
\<close>

section \<open>Constants\<close>

definition PROTOCOL_VERSION :: nat where "PROTOCOL_VERSION = 1"
definition MAX_FRAME_LENGTH :: nat where "MAX_FRAME_LENGTH = 1024 * 1024"
definition MAX_REQUEST_DATA_LENGTH :: nat where "MAX_REQUEST_DATA_LENGTH = 64 * 1024"
definition SERIAL_ACK :: u8 where "SERIAL_ACK = 0"
definition MAX_STDIN_FRAME_BYTES :: nat where "MAX_STDIN_FRAME_BYTES = 4096"
definition MAX_OUTPUT_FRAME_BYTES :: nat where "MAX_OUTPUT_FRAME_BYTES = 4096"
definition MAX_INVOCATION_INPUT_BYTES :: nat where "MAX_INVOCATION_INPUT_BYTES = 16 * 2 ^ 20"
definition MAX_INVOCATION_OUTPUT_BYTES :: nat where "MAX_INVOCATION_OUTPUT_BYTES = 16 * 2 ^ 20"
definition TERMINATION_SIGNAL :: int where "TERMINATION_SIGNAL = 9"
definition EACCES :: int where "EACCES = 13"

section \<open>Assertion reports\<close>

datatype AssertionName =
  Safety | ControlledOutage | Restoration | BoundedRecovery | ProcessSafety | ResponseIntegrity

definition NETWORK_PROFILE :: "AssertionName list" where
  "NETWORK_PROFILE = [Safety, ControlledOutage, Restoration, BoundedRecovery]"

definition WORKLOAD_PROFILE :: "AssertionName list" where
  "WORKLOAD_PROFILE = [ProcessSafety, ResponseIntegrity, ControlledOutage, Restoration, BoundedRecovery]"

record AssertionResult =
  ar_name :: AssertionName
  ar_passed :: bool
  ar_detail :: string

record AssertionReport =
  rp_passed :: bool
  rp_assertions :: "AssertionResult list"

definition report_exit_code :: "AssertionReport \<Rightarrow> int" where
  "report_exit_code report = (if rp_passed report then 0 else 1)"

section \<open>Commands and events\<close>

datatype RequestPhase = PreOutage | Outage | Recovery

datatype Command =
    ConfigureNetwork string string string
  | ActivateOutage string
  | RestoreNetwork string
  | Request string string RequestPhase
  | Check nat nat
  | Start nat LaunchIdentity
  | StdinWrite nat nat string
  | StdinEof nat
  | Terminate nat
  | Shutdown

record CommandFrame =
  cf_protocol_version :: nat
  cf_command_id :: nat
  cf_command :: Command

datatype OutputStream = Stdout | Stderr

datatype ProcessExit = Exited int | Signaled int

datatype LaunchFailure =
  NoRuntime | InvocationActive | InvocationRepeated | Materialization | Executable
  | WorkingDirectory | Pipe | Fork | Setup

datatype RequestError = AdministrativeProhibited | Transport | InvalidResponse

datatype (plugins only: code size) Event =
    AgentReady
  | NetworkConfigured string string string
  | OutageActivated string string
  | NetworkRestored string
  | RequestAttempted string string RequestPhase
  | RequestSucceeded string string string string RequestPhase
  | RequestUnavailable string RequestPhase RequestError "int option"
  | AssertionsEvaluated AssertionReport
  | WorkloadStarted nat LaunchIdentity
  | InputAccepted nat nat nat bool
  | TerminationRequested nat int
  | WorkloadOutput nat OutputStream nat nat string
  | WorkloadExited nat ProcessExit nat string nat string nat
  | LaunchFailed nat LaunchFailure string
  | CleanupComplete nat nat
  | AgentStopped

record DiagnosticFields =
  df_guest_pid :: "nat option"
  df_host_received_at_unix_nanos :: "nat option"
  df_temporary_path :: "string option"

record EventFrame =
  ef_protocol_version :: nat
  ef_event_id :: nat
  ef_command_id :: nat
  ef_event :: Event
  ef_diagnostics :: DiagnosticFields

record NormalizedEvent =
  ne_protocol_version :: nat
  ne_event_id :: nat
  ne_command_id :: nat
  ne_event :: Event

definition no_diagnostics :: DiagnosticFields where
  "no_diagnostics = \<lparr>df_guest_pid = None, df_host_received_at_unix_nanos = None, df_temporary_path = None\<rparr>"

definition EventFrame_normalize :: "EventFrame \<Rightarrow> NormalizedEvent" where
  "EventFrame_normalize frame =
     \<lparr>ne_protocol_version = ef_protocol_version frame, ne_event_id = ef_event_id frame,
      ne_command_id = ef_command_id frame, ne_event = ef_event frame\<rparr>"

fun Command_kind :: "Command \<Rightarrow> string" where
  "Command_kind (ConfigureNetwork _ _ _) = ''configure_network''"
| "Command_kind (ActivateOutage _) = ''activate_outage''"
| "Command_kind (RestoreNetwork _) = ''restore_network''"
| "Command_kind (Request _ _ _) = ''request''"
| "Command_kind (Check _ _) = ''check''"
| "Command_kind (Start _ _) = ''start''"
| "Command_kind (StdinWrite _ _ _) = ''stdin_write''"
| "Command_kind (StdinEof _) = ''stdin_eof''"
| "Command_kind (Terminate _) = ''terminate''"
| "Command_kind Shutdown = ''shutdown''"

definition Command_describe :: "Command \<Rightarrow> string" where
  "Command_describe command =
     (case command of
        Start invocation _ \<Rightarrow> ''start(invocation '' @ dec invocation @ '')''
      | StdinWrite invocation offset bytes \<Rightarrow>
          ''stdin_write(invocation '' @ dec invocation @ '', offset '' @ dec offset
          @ '', hex_bytes '' @ dec (length bytes) @ '')''
      | StdinEof invocation \<Rightarrow> ''stdin_eof(invocation '' @ dec invocation @ '')''
      | Terminate invocation \<Rightarrow> ''terminate(invocation '' @ dec invocation @ '')''
      | Request request_id _ _ \<Rightarrow> ''request(request_id '' @ request_id @ '')''
      | _ \<Rightarrow> Command_kind command)"

fun Event_kind :: "Event \<Rightarrow> string" where
  "Event_kind AgentReady = ''agent_ready''"
| "Event_kind (NetworkConfigured _ _ _) = ''network_configured''"
| "Event_kind (OutageActivated _ _) = ''outage_activated''"
| "Event_kind (NetworkRestored _) = ''network_restored''"
| "Event_kind (RequestAttempted _ _ _) = ''request_attempted''"
| "Event_kind (RequestSucceeded _ _ _ _ _) = ''request_succeeded''"
| "Event_kind (RequestUnavailable _ _ _ _) = ''request_unavailable''"
| "Event_kind (AssertionsEvaluated _) = ''assertions_evaluated''"
| "Event_kind (WorkloadStarted _ _) = ''workload_started''"
| "Event_kind (InputAccepted _ _ _ _) = ''input_accepted''"
| "Event_kind (TerminationRequested _ _) = ''termination_requested''"
| "Event_kind (WorkloadOutput _ _ _ _ _) = ''workload_output''"
| "Event_kind (WorkloadExited _ _ _ _ _ _ _) = ''workload_exited''"
| "Event_kind (LaunchFailed _ _ _) = ''launch_failed''"
| "Event_kind (CleanupComplete _ _) = ''cleanup_complete''"
| "Event_kind AgentStopped = ''agent_stopped''"

fun OutputStream_name :: "OutputStream \<Rightarrow> string" where
  "OutputStream_name Stdout = ''stdout''"
| "OutputStream_name Stderr = ''stderr''"

text \<open>The \<open>Debug\<close> forms of the enumerations and numbers that descriptions print.\<close>

definition dec_int :: "int \<Rightarrow> string" where
  "dec_int i = (if i < 0 then CHR ''-'' # dec (nat (- i)) else dec (nat i))"

definition bool_text :: "bool \<Rightarrow> string" where
  "bool_text b = (if b then ''true'' else ''false'')"

fun phase_debug :: "RequestPhase \<Rightarrow> string" where
  "phase_debug PreOutage = ''PreOutage''"
| "phase_debug Outage = ''Outage''"
| "phase_debug Recovery = ''Recovery''"

fun request_error_debug :: "RequestError \<Rightarrow> string" where
  "request_error_debug AdministrativeProhibited = ''AdministrativeProhibited''"
| "request_error_debug Transport = ''Transport''"
| "request_error_debug InvalidResponse = ''InvalidResponse''"

fun launch_failure_debug :: "LaunchFailure \<Rightarrow> string" where
  "launch_failure_debug NoRuntime = ''NoRuntime''"
| "launch_failure_debug InvocationActive = ''InvocationActive''"
| "launch_failure_debug InvocationRepeated = ''InvocationRepeated''"
| "launch_failure_debug Materialization = ''Materialization''"
| "launch_failure_debug Executable = ''Executable''"
| "launch_failure_debug WorkingDirectory = ''WorkingDirectory''"
| "launch_failure_debug Pipe = ''Pipe''"
| "launch_failure_debug Fork = ''Fork''"
| "launch_failure_debug Setup = ''Setup''"

definition errno_debug :: "int option \<Rightarrow> string" where
  "errno_debug e = (case e of None \<Rightarrow> ''None'' | Some i \<Rightarrow> ''Some('' @ dec_int i @ '')'')"

definition Event_describe :: "Event \<Rightarrow> string" where
  "Event_describe event =
     (case event of
        WorkloadStarted invocation _ \<Rightarrow> ''workload_started(invocation '' @ dec invocation @ '')''
      | InputAccepted invocation offset bytes eof \<Rightarrow>
          ''input_accepted(invocation '' @ dec invocation @ '', offset '' @ dec offset @ '', bytes ''
          @ dec bytes @ '', eof '' @ bool_text eof @ '')''
      | TerminationRequested invocation signal \<Rightarrow>
          ''termination_requested(invocation '' @ dec invocation @ '', signal '' @ dec_int signal @ '')''
      | WorkloadOutput invocation stream offset sequence bytes \<Rightarrow>
          ''workload_output(invocation '' @ dec invocation @ '', stream '' @ OutputStream_name stream
          @ '', offset '' @ dec offset @ '', sequence '' @ dec sequence
          @ '', hex_bytes '' @ dec (length bytes) @ '')''
      | WorkloadExited invocation _ stdout_bytes _ stderr_bytes _ frames \<Rightarrow>
          ''workload_exited(invocation '' @ dec invocation @ '', stdout_bytes '' @ dec stdout_bytes
          @ '', stderr_bytes '' @ dec stderr_bytes @ '', frames '' @ dec frames @ '')''
      | LaunchFailed invocation failure _ \<Rightarrow>
          ''launch_failed(invocation '' @ dec invocation @ '', failure '' @ launch_failure_debug failure @ '')''
      | CleanupComplete invocation reaped \<Rightarrow>
          ''cleanup_complete(invocation '' @ dec invocation @ '', reaped '' @ dec reaped @ '')''
      | RequestAttempted _ _ phase \<Rightarrow> ''request_attempted(phase '' @ phase_debug phase @ '')''
      | RequestSucceeded _ _ _ _ phase \<Rightarrow> ''request_succeeded(phase '' @ phase_debug phase @ '')''
      | RequestUnavailable _ phase error errno \<Rightarrow>
          ''request_unavailable(phase '' @ phase_debug phase @ '', error '' @ request_error_debug error
          @ '', errno '' @ errno_debug errno @ '')''
      | AssertionsEvaluated report \<Rightarrow>
          ''assertions_evaluated(passed '' @ bool_text (rp_passed report) @ '')''
      | _ \<Rightarrow> Event_kind event)"

section \<open>Process exits\<close>

text \<open>The ranges that the wire boundary enforces on a reported process exit.\<close>

definition i32_max :: int where "i32_max = 2 ^ 31 - 1"

definition deserialize_exit_code :: "int \<Rightarrow> int option" where
  "deserialize_exit_code code = (if 0 \<le> code \<and> code \<le> 255 then Some code else None)"

definition deserialize_signal :: "int \<Rightarrow> int option" where
  "deserialize_signal signal = (if 1 \<le> signal \<and> signal \<le> 64 then Some signal else None)"

definition status_code :: "ProcessExit \<Rightarrow> int" where
  "status_code exit = (case exit of Exited code \<Rightarrow> code | Signaled signal \<Rightarrow> min (128 + signal) i32_max)"

section \<open>Framing\<close>

datatype frame_error =
    SerializeFailed
  | FrameTooLong
  | UnexpectedEof
  | TruncatedLine
  | MalformedFrame
  | ReadFailed
  | UnsupportedProtocolVersion nat
  | ByteFrameLimit nat
  | ByteFrameDigit

text \<open>One result of a read: a byte, an interruption to be retried, or a failure.\<close>

datatype read_result = Byte u8 | Interrupted | Failed

type_synonym reader = "read_result list"

definition write_frame :: "('a \<Rightarrow> bytes option) \<Rightarrow> 'a \<Rightarrow> frame_error + bytes" where
  "write_frame to_json v =
     and_then (ok_or SerializeFailed (to_json v)) (\<lambda>body.
       if length body > MAX_FRAME_LENGTH then Inl FrameTooLong
       else Inr (be_bytes 4 (length body) @ body))"

definition write_line_frame :: "('a \<Rightarrow> bytes option) \<Rightarrow> 'a \<Rightarrow> frame_error + bytes" where
  "write_line_frame to_json v =
     and_then (ok_or SerializeFailed (to_json v)) (\<lambda>body.
       if length body > MAX_FRAME_LENGTH then Inl FrameTooLong
       else Inr (body @ [0x0a]))"

fun read_exact_bytes :: "nat \<Rightarrow> bytes \<Rightarrow> reader \<Rightarrow> frame_error + bytes \<times> reader" where
  "read_exact_bytes 0 acc r = Inr (acc, r)"
| "read_exact_bytes (Suc n) acc [] = Inl UnexpectedEof"
| "read_exact_bytes (Suc n) acc (Byte b # r) = read_exact_bytes n (acc @ [b]) r"
| "read_exact_bytes (Suc n) acc (Interrupted # r) = read_exact_bytes (Suc n) acc r"
| "read_exact_bytes (Suc n) acc (Failed # r) = Inl ReadFailed"

fun read_first :: "reader \<Rightarrow> frame_error + (u8 \<times> reader) option" where
  "read_first [] = Inr None"
| "read_first (Byte b # r) = Inr (Some (b, r))"
| "read_first (Interrupted # r) = read_first r"
| "read_first (Failed # r) = Inl ReadFailed"

definition read_frame ::
    "(bytes \<Rightarrow> 'a option) \<Rightarrow> reader \<Rightarrow> frame_error + ('a \<times> reader) option" where
  "read_frame from_json r =
     and_then (read_first r) (\<lambda>first.
       case first of
         None \<Rightarrow> Inr None
       | Some (b, r1) \<Rightarrow>
           and_then (read_exact_bytes 3 [] r1) (\<lambda>(rest, r2).
             let len = from_be_bytes 0 (b # rest)
             in if len > MAX_FRAME_LENGTH then Inl FrameTooLong
                else and_then (read_exact_bytes len [] r2) (\<lambda>(body, r3).
                  and_then (ok_or MalformedFrame (from_json body)) (\<lambda>v. Inr (Some (v, r3))))))"

fun read_line :: "bytes \<Rightarrow> reader \<Rightarrow> frame_error + (bytes \<times> reader) option" where
  "read_line body [] = (if body = [] then Inr None else Inl TruncatedLine)"
| "read_line body (Byte b # r) =
     (if b = 0x0a then Inr (Some (body, r))
      else if length body \<ge> MAX_FRAME_LENGTH then Inl FrameTooLong
      else read_line (body @ [b]) r)"
| "read_line body (Interrupted # r) = read_line body r"
| "read_line body (Failed # r) = Inl ReadFailed"

definition read_line_frame ::
    "(bytes \<Rightarrow> 'a option) \<Rightarrow> reader \<Rightarrow> frame_error + ('a \<times> reader) option" where
  "read_line_frame from_json r =
     and_then (read_line [] r) (\<lambda>line.
       case line of
         None \<Rightarrow> Inr None
       | Some (body, r') \<Rightarrow>
           and_then (ok_or MalformedFrame (from_json body)) (\<lambda>v. Inr (Some (v, r'))))"

text \<open>
  The acknowledged form writes one \<open>SERIAL_ACK\<close> for every byte it read, the newline included,
  before it looks at the byte; the acknowledgements are returned with the result.
\<close>

fun read_acknowledged_line ::
    "bytes \<Rightarrow> bytes \<Rightarrow> reader \<Rightarrow> (frame_error + (bytes \<times> reader) option) \<times> bytes" where
  "read_acknowledged_line acks body [] = ((if body = [] then Inr None else Inl TruncatedLine), acks)"
| "read_acknowledged_line acks body (Byte b # r) =
     (let acks = acks @ [SERIAL_ACK]
      in if b = 0x0a then (Inr (Some (body, r)), acks)
         else if length body \<ge> MAX_FRAME_LENGTH then (Inl FrameTooLong, acks)
         else read_acknowledged_line acks (body @ [b]) r)"
| "read_acknowledged_line acks body (Interrupted # r) = read_acknowledged_line acks body r"
| "read_acknowledged_line acks body (Failed # r) = (Inl ReadFailed, acks)"

definition read_acknowledged_line_frame ::
    "(bytes \<Rightarrow> 'a option) \<Rightarrow> reader \<Rightarrow> (frame_error + ('a \<times> reader) option) \<times> bytes" where
  "read_acknowledged_line_frame from_json r =
     (case read_acknowledged_line [] [] r of
        (Inl e, acks) \<Rightarrow> (Inl e, acks)
      | (Inr None, acks) \<Rightarrow> (Inr None, acks)
      | (Inr (Some (body, r')), acks) \<Rightarrow>
          (and_then (ok_or MalformedFrame (from_json body)) (\<lambda>v. Inr (Some (v, r'))), acks))"

definition require_version :: "nat \<Rightarrow> frame_error + unit" where
  "require_version version =
     (if version = PROTOCOL_VERSION then Inr () else Inl (UnsupportedProtocolVersion version))"

section \<open>Exact bytes as hexadecimal text\<close>

definition encode_bytes :: "bytes \<Rightarrow> string" where
  "encode_bytes bs =
     concat (map (\<lambda>b. [''0123456789abcdef'' ! unat (drop_bit 4 b), ''0123456789abcdef'' ! unat (and b 0xf)]) bs)"

definition hex_digit :: "u8 \<Rightarrow> frame_error + u8" where
  "hex_digit b =
     (if 0x30 \<le> b \<and> b \<le> 0x39 then Inr (b - 0x30)
      else if 0x61 \<le> b \<and> b \<le> 0x66 then Inr (b - 0x61 + 10)
      else Inl ByteFrameDigit)"

fun decode_pairs :: "bytes \<Rightarrow> bytes \<Rightarrow> frame_error + bytes" where
  "decode_pairs acc (h # l # rest) =
     and_then (hex_digit h) (\<lambda>high.
     and_then (hex_digit l) (\<lambda>low.
     decode_pairs (acc @ [or (push_bit 4 high) low]) rest))"
| "decode_pairs acc _ = Inr acc"

definition decode_bytes :: "string \<Rightarrow> nat \<Rightarrow> frame_error + bytes" where
  "decode_bytes text limit =
     (if length text mod 2 \<noteq> 0 \<or> length text > min (limit * 2) u64_max
      then Inl (ByteFrameLimit limit)
      else decode_pairs [] (as_bytes text))"

section \<open>Hexadecimal text\<close>

lemma nibble_bits:
  "unat (drop_bit 4 (b :: u8)) = unat b div 16" "unat (and b 0xf) = unat b mod 16"
proof -
  show "unat (drop_bit 4 b) = unat b div 16"
    by (simp add: drop_bit_eq_div unat_div_distrib)
  have "and b 0xf = take_bit 4 b" by (simp add: take_bit_eq_mask mask_eq_exp_minus_1)
  then show "unat (and b 0xf) = unat b mod 16"
    by (simp add: take_bit_eq_mod unat_mod_distrib)
qed

lemma encode_bytes_hex: "encode_bytes bs = hex_text bs"
  by (simp add: encode_bytes_def hex_text_def hex_of_byte_def [abs_def] digit_char_def nibble_bits)

lemma digit_char_code:
  "d < 16 \<Longrightarrow> (of_char (digit_char d) :: u8) = of_nat (if d < 10 then 48 + d else 87 + d)"
  by (drule less_16_cases, elim disjE) (simp_all add: digit_char_def)

lemma hex_digit_char: "d < 16 \<Longrightarrow> hex_digit (of_char (digit_char d)) = Inr (of_nat d)"
  by (drule less_16_cases, elim disjE) (simp_all add: digit_char_def hex_digit_def)

lemma unat_sub_const: "c \<le> b \<Longrightarrow> unat ((b :: u8) - c) = unat b - unat c"
  by (rule unat_sub)

lemma hex_digit_Inr:
  assumes "hex_digit c = Inr w"
  shows "unat w < 16 \<and> c = of_char (digit_char (unat w))"
proof -
  consider (dec) "0x30 \<le> c" "c \<le> 0x39" "w = c - 0x30" | (alpha) "0x61 \<le> c" "c \<le> 0x66" "w = c - 0x61 + 10"
    using assms by (auto simp: hex_digit_def split: if_splits)
  then show ?thesis
  proof cases
    case dec
    then have b: "48 \<le> unat c" "unat c \<le> 57" by (simp_all add: word_le_nat_alt)
    have w: "unat w = unat c - 48" using dec by (simp add: unat_sub)
    with b have "unat w < 10" by simp
    moreover from w b have "unat c = 48 + unat w" by simp
    ultimately show ?thesis by (simp add: digit_char_code word_unat_eq_iff unat_word_ariths)
  next
    case alpha
    then have b: "97 \<le> unat c" "unat c \<le> 102" by (simp_all add: word_le_nat_alt)
    have "0x57 \<le> c" using b by (simp add: word_le_nat_alt)
    moreover have "w = c - 0x57" using alpha by simp
    ultimately have w: "unat w = unat c - 87" by (simp add: unat_sub)
    with b have "10 \<le> unat w" "unat w < 16" by simp_all
    moreover from w b have "unat c = 87 + unat w" by simp
    ultimately show ?thesis by (simp add: digit_char_code word_unat_eq_iff unat_word_ariths)
  qed
qed

lemma unat_nibbles:
  "unat (h :: u8) < 16 \<Longrightarrow> unat (l :: u8) < 16 \<Longrightarrow> unat (or (push_bit 4 h) l) = 16 * unat h + unat l"
proof -
  assume h: "unat h < 16" and l: "unat l < 16"
  have "or (push_bit 4 h) l = push_bit 4 h + l"
  proof (rule disjunctive_add_eq_or [symmetric])
    have low: "take_bit 4 l = l"
      using l by (simp add: take_bit_eq_mod word_unat_eq_iff unat_mod_distrib)
    have "and (push_bit 4 h) (take_bit 4 l) = 0"
      by (rule bit_eqI) (auto simp: bit_simps)
    then show "and (push_bit 4 h) l = 0" by (simp only: low)
  qed
  moreover have "unat (push_bit 4 h) = 16 * unat h"
    using h by (simp add: push_bit_eq_mult unat_word_ariths)
  ultimately show ?thesis using h l by (simp add: unat_word_ariths)
qed

lemma decode_encode_pairs: "decode_pairs acc (as_bytes (hex_text bs)) = Inr (acc @ bs)"
proof (induction bs arbitrary: acc)
  case Nil
  show ?case by simp
next
  case (Cons b bs)
  define h l where "h = unat b div 16" and "l = unat b mod 16"
  have hl: "h < 16" "l < 16" using byte_nibbles [of b] by (simp_all add: h_def l_def)
  have "unat (or (push_bit 4 (of_nat h)) (of_nat l) :: u8) = unat b"
    using hl unat_nibbles [of "of_nat h" "of_nat l"] by (simp add: unat_of_nat h_def l_def)
  then have "or (push_bit 4 (of_nat h)) (of_nat l) = b" by (simp add: word_unat_eq_iff)
  then show ?case
    using hl Cons by (simp add: hex_of_byte_def h_def [symmetric] l_def [symmetric] as_bytes_def hex_digit_char)
qed

lemma decode_pairs_canonical:
  "decode_pairs acc t = Inr out \<Longrightarrow> even (length t) \<Longrightarrow> \<exists>bs. out = acc @ bs \<and> t = as_bytes (hex_text bs)"
proof (induction acc t rule: decode_pairs.induct)
  case (1 acc h l rest)
  then obtain high low where hi: "hex_digit h = Inr high" and lo: "hex_digit l = Inr low"
    and more: "decode_pairs (acc @ [or (push_bit 4 high) low]) rest = Inr out" by auto
  from 1(1) [OF more] 1(3) obtain bs where out: "out = acc @ or (push_bit 4 high) low # bs"
    and rest: "rest = as_bytes (hex_text bs)" by auto
  note dh = hex_digit_Inr [OF hi] and dl = hex_digit_Inr [OF lo]
  have "unat (or (push_bit 4 high) low) = 16 * unat high + unat low"
    using dh dl by (simp add: unat_nibbles)
  then have "as_bytes (hex_of_byte (or (push_bit 4 high) low)) = [h, l]"
    using dh dl by (simp add: hex_of_byte_def as_bytes_def)
  then have "h # l # rest = as_bytes (hex_text (or (push_bit 4 high) low # bs))"
    using rest by simp
  then show ?case using out by blast
qed auto

lemma decode_bytes_iff:
  assumes "2 * limit \<le> u64_max"
  shows "decode_bytes text limit = Inr bs \<longleftrightarrow> text = encode_bytes bs \<and> length bs \<le> limit"
proof
  assume d: "decode_bytes text limit = Inr bs"
  then have even: "even (length (as_bytes text))" and len: "length text \<le> limit * 2"
    and p: "decode_pairs [] (as_bytes text) = Inr bs"
    by (auto simp: decode_bytes_def)
  from decode_pairs_canonical [OF p even] have "text = encode_bytes bs"
    by (simp add: encode_bytes_hex)
  with len show "text = encode_bytes bs \<and> length bs \<le> limit" by (simp add: encode_bytes_hex)
next
  assume "text = encode_bytes bs \<and> length bs \<le> limit"
  then show "decode_bytes text limit = Inr bs"
    using assms decode_encode_pairs [of "[]" bs] by (simp add: decode_bytes_def encode_bytes_hex)
qed

section \<open>Framing\<close>

definition uninterrupted :: "reader \<Rightarrow> reader" where
  "uninterrupted r = filter (\<lambda>x. x \<noteq> Interrupted) r"

text \<open>Interruptions never change what a read delivers.\<close>

lemma read_exact_uninterrupted:
  "read_exact_bytes n acc (uninterrupted r) =
     map_sum id (map_prod id uninterrupted) (read_exact_bytes n acc r)"
  by (induction n acc r rule: read_exact_bytes.induct) (simp_all add: uninterrupted_def)

lemma read_first_uninterrupted:
  "read_first (uninterrupted r) = map_sum id (map_option (map_prod id uninterrupted)) (read_first r)"
  by (induction r rule: read_first.induct) (simp_all add: uninterrupted_def)

lemma read_line_uninterrupted:
  "read_line body (uninterrupted r) = map_sum id (map_option (map_prod id uninterrupted)) (read_line body r)"
  by (induction body r rule: read_line.induct) (simp_all add: uninterrupted_def)

lemma read_exact_bytes_app: "read_exact_bytes (length bs) acc (map Byte bs @ r) = Inr (acc @ bs, r)"
  by (induction bs arbitrary: acc) simp_all

lemma read_line_app:
  "0x0a \<notin> set bs \<Longrightarrow> length body + length bs \<le> MAX_FRAME_LENGTH \<Longrightarrow>
     read_line body (map Byte bs @ Byte 0x0a # r) = Inr (Some (body @ bs, r))"
  by (induction bs arbitrary: body) auto

lemma read_frame_clean:
  assumes "length body \<le> MAX_FRAME_LENGTH"
  shows "read_frame from_json (map Byte (be_bytes 4 (length body) @ body) @ r) =
    and_then (ok_or MalformedFrame (from_json body)) (\<lambda>v. Inr (Some (v, r)))"
proof -
  have "length (be_bytes 4 (length body)) = Suc (Suc (Suc (Suc 0)))" by simp
  then obtain b1 b2 b3 b4 where be: "be_bytes 4 (length body) = [b1, b2, b3, b4]"
    by (auto simp: length_Suc_conv simp del: length_be_bytes)
  have "length body < 256 ^ 4" using assms by (simp add: MAX_FRAME_LENGTH_def)
  then have len: "from_be_bytes 0 [b1, b2, b3, b4] = length body"
    unfolding be [symmetric] by (rule from_be_be_bytes)
  have three: "read_exact_bytes 3 [] (Byte b2 # Byte b3 # Byte b4 # map Byte body @ r) =
      Inr ([b2, b3, b4], map Byte body @ r)"
    using read_exact_bytes_app [of "[b2, b3, b4]" "[]" "map Byte body @ r"] by (simp add: numeral_eq_Suc)
  have head: "read_frame from_json (map Byte (be_bytes 4 (length body) @ body) @ r) =
      and_then (read_exact_bytes 3 [] (Byte b2 # Byte b3 # Byte b4 # map Byte body @ r)) (\<lambda>(rest, r2).
             let len = from_be_bytes 0 (b1 # rest)
             in if len > MAX_FRAME_LENGTH then Inl FrameTooLong
                else and_then (read_exact_bytes len [] r2) (\<lambda>(body, r3).
                  and_then (ok_or MalformedFrame (from_json body)) (\<lambda>v. Inr (Some (v, r3)))))"
    by (simp only: be read_frame_def) (simp del: read_exact_bytes.simps)
  show ?thesis
    unfolding head three and_then_simps prod.case Let_def len
    using assms read_exact_bytes_app [of body "[]" r] by simp
qed

lemma read_frame_uninterrupted:
  "read_frame from_json (uninterrupted r) =
     map_sum id (map_option (map_prod id uninterrupted)) (read_frame from_json r)"
proof (cases "read_first r")
  case (Inl e)
  then show ?thesis by (simp add: read_frame_def read_first_uninterrupted)
next
  case (Inr first)
  show ?thesis
  proof (cases first)
    case None
    with Inr show ?thesis by (simp add: read_frame_def read_first_uninterrupted)
  next
    case (Some p)
    obtain b r1 where p: "p = (b, r1)" by (cases p)
    show ?thesis
    proof (cases "read_exact_bytes 3 [] r1")
      case (Inl e)
      with Inr Some p show ?thesis
        by (simp add: read_frame_def read_first_uninterrupted read_exact_uninterrupted)
    next
      case ex: (Inr q)
      obtain rest r2 where q: "q = (rest, r2)" by (cases q)
      show ?thesis
      proof (cases "read_exact_bytes (from_be_bytes 0 (b # rest)) [] r2")
        case (Inl e)
        with Inr Some p q ex show ?thesis
          by (simp add: read_frame_def read_first_uninterrupted read_exact_uninterrupted Let_def)
      next
        case last: (Inr s)
        obtain body r3 where s: "s = (body, r3)" by (cases s)
        with last Inr Some p q ex show ?thesis
          by (cases "from_json body")
            (simp_all add: read_frame_def read_first_uninterrupted read_exact_uninterrupted Let_def)
      qed
    qed
  qed
qed

lemma read_line_frame_uninterrupted:
  "read_line_frame from_json (uninterrupted r) =
     map_sum id (map_option (map_prod id uninterrupted)) (read_line_frame from_json r)"
proof (cases "read_line [] r")
  case (Inl e)
  then show ?thesis by (simp add: read_line_frame_def read_line_uninterrupted)
next
  case (Inr line)
  show ?thesis
  proof (cases line)
    case None
    with Inr show ?thesis by (simp add: read_line_frame_def read_line_uninterrupted)
  next
    case (Some p)
    obtain body r' where "p = (body, r')" by (cases p)
    with Some Inr show ?thesis
      by (cases "from_json body") (simp_all add: read_line_frame_def read_line_uninterrupted)
  qed
qed

lemma acknowledged_same: "fst (read_acknowledged_line acks body r) = read_line body r"
  by (induction acks body r rule: read_acknowledged_line.induct) (simp_all add: Let_def)

lemma acknowledged_count:
  "read_acknowledged_line acks body r = (Inr (Some (out, r')), acks') \<Longrightarrow>
     length body \<le> length out \<and> acks' = acks @ replicate (length out + 1 - length body) SERIAL_ACK"
proof (induction acks body r rule: read_acknowledged_line.induct)
  case (2 acks body b r)
  show ?case
  proof (cases "b = 0x0a \<or> length body \<ge> MAX_FRAME_LENGTH")
    case True
    with 2 show ?thesis by (auto simp: Let_def split: if_splits)
  next
    case False
    with 2 have "length (body @ [b]) \<le> length out \<and>
      acks' = (acks @ [SERIAL_ACK]) @ replicate (length out + 1 - length (body @ [b])) SERIAL_ACK"
      by (simp add: Let_def)
    moreover then have "length out + 1 - length body = Suc (length out + 1 - length (body @ [b]))" by auto
    ultimately show ?thesis by simp
  qed
qed (auto split: if_splits)

section \<open>Both framings are prefix codes\<close>

definition frame_of_body :: "bytes \<Rightarrow> bytes" where
  "frame_of_body body = be_bytes 4 (length body) @ body"

definition line_of_body :: "bytes \<Rightarrow> bytes" where
  "line_of_body body = body @ [0x0a]"

interpretation wire: prefix_code frame_of_body "\<lambda>body. length body \<le> MAX_FRAME_LENGTH"
proof
  fix x y r s :: bytes
  assume "length x \<le> MAX_FRAME_LENGTH" "length y \<le> MAX_FRAME_LENGTH"
    and eq: "frame_of_body x @ r = frame_of_body y @ s"
  then have "length x < 256 ^ 4" "length y < 256 ^ 4" by (simp_all add: MAX_FRAME_LENGTH_def)
  then show "x = y \<and> r = s"
    using put_bytes_unique [of x 4 y r s] eq by (simp add: frame_of_body_def put_bytes_def)
next
  fix x :: bytes
  have "length (frame_of_body x) \<noteq> 0" by (simp add: frame_of_body_def)
  then show "frame_of_body x \<noteq> []" by fastforce
qed

interpretation lines: prefix_code line_of_body "\<lambda>body. 0x0a \<notin> set body"
proof
  fix x y r s :: bytes
  assume "0x0a \<notin> set x" "0x0a \<notin> set y" and "line_of_body x @ r = line_of_body y @ s"
  then have "split_once 0x0a (x @ 0x0a # r) = Some (x, r)" "split_once 0x0a (y @ 0x0a # s) = Some (y, s)"
    "x @ 0x0a # r = y @ 0x0a # s"
    by (simp_all only: split_once_Some) (simp_all add: line_of_body_def)
  then show "x = y \<and> r = s" by (metis option.inject prod.inject)
qed (simp add: line_of_body_def)

section \<open>Properties\<close>

text \<open>
  C32. The hexadecimal form of exact bytes is a bijection on the bounded byte strings: a text
  decodes to \<open>bs\<close> exactly when it is the encoding of \<open>bs\<close> and \<open>bs\<close> respects the limit, so
  no second text (uppercase, odd, overlong) names the same bytes.
\<close>

theorem decode_bytes_inverse:
  assumes "2 * limit \<le> u64_max"
  shows "decode_bytes text limit = Inr bs \<longleftrightarrow> text = encode_bytes bs \<and> length bs \<le> limit"
  using assms by (rule decode_bytes_iff)

text \<open>
  C40. Frames and line frames read back what was written: from a stream that delivers the
  written bytes, however often the reads are interrupted, each reader returns the value and
  leaves exactly the rest of the stream. The serializer must round-trip the value and, for the
  line form, write no newline, as compact JSON does.
\<close>

theorem frame_roundtrip:
  assumes "from_json body = Some v" and "to_json v = Some body" and "0x0a \<notin> set body"
  shows "(write_frame to_json v = Inr out \<and> uninterrupted r = map Byte out @ uninterrupted rest \<longrightarrow>
      (\<exists>r'. read_frame from_json r = Inr (Some (v, r')) \<and> uninterrupted r' = uninterrupted rest)) \<and>
    (write_line_frame to_json v = Inr out \<and> uninterrupted r = map Byte out @ uninterrupted rest \<longrightarrow>
      (\<exists>r'. read_line_frame from_json r = Inr (Some (v, r')) \<and> uninterrupted r' = uninterrupted rest))"
proof (intro conjI impI; elim conjE)
  assume w: "write_frame to_json v = Inr out" and r: "uninterrupted r = map Byte out @ uninterrupted rest"
  from w assms(2) have out: "out = be_bytes 4 (length body) @ body" and len: "length body \<le> MAX_FRAME_LENGTH"
    by (auto simp: write_frame_def)
  have "map_sum id (map_option (map_prod id uninterrupted)) (read_frame from_json r) = Inr (Some (v, uninterrupted rest))"
    unfolding read_frame_uninterrupted [symmetric] r out read_frame_clean [OF len] using assms(1) by simp
  then show "\<exists>r'. read_frame from_json r = Inr (Some (v, r')) \<and> uninterrupted r' = uninterrupted rest"
    by (cases "read_frame from_json r") auto
next
  assume w: "write_line_frame to_json v = Inr out" and r: "uninterrupted r = map Byte out @ uninterrupted rest"
  from w assms(2) have out: "out = body @ [0x0a]" and len: "length body \<le> MAX_FRAME_LENGTH"
    by (auto simp: write_line_frame_def)
  have "read_line [] (map Byte body @ Byte 0x0a # uninterrupted rest) = Inr (Some (body, uninterrupted rest))"
    using read_line_app [OF assms(3), of "[]"] len by simp
  then have "map_sum id (map_option (map_prod id uninterrupted)) (read_line_frame from_json r) = Inr (Some (v, uninterrupted rest))"
    unfolding read_line_frame_uninterrupted [symmetric] r out using assms(1) by (simp add: read_line_frame_def)
  then show "\<exists>r'. read_line_frame from_json r = Inr (Some (v, r')) \<and> uninterrupted r' = uninterrupted rest"
    by (cases "read_line_frame from_json r") auto
qed

text \<open>
  The acknowledged line reader is the plain line reader with one acknowledgement for every
  byte taken from the line: on success the acknowledgements are one per body byte and one for
  the newline.
\<close>

theorem acknowledged_line_refines:
  "fst (read_acknowledged_line [] [] r) = read_line [] r \<and>
   (\<forall>body rest. read_line [] r = Inr (Some (body, rest)) \<longrightarrow>
      snd (read_acknowledged_line [] [] r) = replicate (length body + 1) SERIAL_ACK)"
proof (intro conjI allI impI)
  show same: "fst (read_acknowledged_line [] [] r) = read_line [] r" by (rule acknowledged_same)
  fix body rest
  assume "read_line [] r = Inr (Some (body, rest))"
  with same have "read_acknowledged_line [] [] r = (Inr (Some (body, rest)), snd (read_acknowledged_line [] [] r))"
    by (metis prod.collapse)
  from acknowledged_count [OF this]
  show "snd (read_acknowledged_line [] [] r) = replicate (length body + 1) SERIAL_ACK" by simp
qed

text \<open>
  A byte stream determines its frames: two sequences of bounded bodies written as
  length-prefixed frames, or two sequences of newline-free bodies written as lines, give the
  same stream only when they are the same sequence.
\<close>

theorem framed_streams_unique:
  "(list_all (\<lambda>b. length b \<le> MAX_FRAME_LENGTH) (xs @ ys) \<longrightarrow>
      (concat (map frame_of_body xs) = concat (map frame_of_body ys) \<longleftrightarrow> xs = ys)) \<and>
   (list_all (\<lambda>b. 0x0a \<notin> set b) (xs @ ys) \<longrightarrow>
      (concat (map line_of_body xs) = concat (map line_of_body ys) \<longleftrightarrow> xs = ys))"
  using wire.concat_enc_inject [of xs ys] lines.concat_enc_inject [of xs ys] by simp

section \<open>Witnesses\<close>

theorem decode_bytes_inverse_witness:
  "decode_bytes ''00ff'' 4 = Inr [0x00, 0xff]"
proof -
  have "encode_bytes [0x00, 0xff] = ''00ff''" by (simp add: encode_bytes_def)
  then show ?thesis using decode_bytes_inverse [of 4 "''00ff''" "[0x00, 0xff]"] by (simp add: u64_max_eq)
qed

text \<open>A serializer for booleans, written and read back from an interrupted stream.\<close>

definition bool_json :: "bool \<Rightarrow> bytes option" where
  "bool_json b = Some (if b then [0x31] else [0x30])"

definition bool_of_json :: "bytes \<Rightarrow> bool option" where
  "bool_of_json bs = (if bs = [0x31] then Some True else if bs = [0x30] then Some False else None)"

theorem frame_roundtrip_witness:
  "(\<exists>r'. read_frame bool_of_json [Interrupted, Byte 0, Byte 0, Byte 0, Interrupted, Byte 1, Byte 0x31, Byte 7] =
       Inr (Some (True, r')) \<and> uninterrupted r' = uninterrupted [Byte 7]) \<and>
   (\<exists>r'. read_line_frame bool_of_json [Byte 0x31, Interrupted, Byte 0x0a, Byte 7] =
       Inr (Some (True, r')) \<and> uninterrupted r' = uninterrupted [Byte 7])"
proof
  have json: "bool_of_json [0x31] = Some True" "bool_json True = Some [0x31]" "0x0a \<notin> set [0x31 :: u8]"
    by (simp_all add: bool_of_json_def bool_json_def)
  have four: "(4 :: nat) = Suc (Suc (Suc (Suc 0)))" by simp
  have "be_bytes 4 1 = [0, 0, 0, 1 :: u8]" unfolding four by simp
  then have w: "write_frame bool_json True = Inr [0, 0, 0, 1, 0x31]"
    by (simp add: write_frame_def json MAX_FRAME_LENGTH_def)
  show "\<exists>r'. read_frame bool_of_json [Interrupted, Byte 0, Byte 0, Byte 0, Interrupted, Byte 1, Byte 0x31, Byte 7] =
       Inr (Some (True, r')) \<and> uninterrupted r' = uninterrupted [Byte 7]"
    by (rule frame_roundtrip [where from_json = bool_of_json and to_json = bool_json, OF json, THEN conjunct1, rule_format, OF conjI [OF w]]) (simp add: uninterrupted_def)
  have w: "write_line_frame bool_json True = Inr [0x31, 0x0a]"
    by (simp add: write_line_frame_def json MAX_FRAME_LENGTH_def)
  show "\<exists>r'. read_line_frame bool_of_json [Byte 0x31, Interrupted, Byte 0x0a, Byte 7] =
       Inr (Some (True, r')) \<and> uninterrupted r' = uninterrupted [Byte 7]"
    by (rule frame_roundtrip [where from_json = bool_of_json and to_json = bool_json, OF json, THEN conjunct2, rule_format, OF conjI [OF w]]) (simp add: uninterrupted_def)
qed

theorem acknowledged_line_refines_witness:
  "snd (read_acknowledged_line [] [] [Byte 5, Byte 0x0a]) = [SERIAL_ACK, SERIAL_ACK]"
proof -
  have "read_line [] [Byte 5, Byte 0x0a] = Inr (Some ([5], []))" by (simp add: MAX_FRAME_LENGTH_def)
  then show ?thesis using acknowledged_line_refines [of "[Byte 5, Byte 0x0a]"] by simp
qed

theorem framed_streams_unique_witness:
  "concat (map frame_of_body [[1], [2, 3]]) = concat (map frame_of_body [[1], [2, 3]]) \<longleftrightarrow>
     [[1], [2, 3]] = [[1], [2, 3 :: u8]]"
  using framed_streams_unique [of "[[1], [2, 3]]" "[[1], [2, 3]]"] by (simp add: MAX_FRAME_LENGTH_def)

end
