(* ===== verification/Vm.thy ===== *)
theory Vm
  imports Protocol Json Action
begin

text \<open>
  The host side of the virtual machine, \<open>vm.rs\<close>: the fixed network profile and its validation,
  the digest of the served files, the comparison of machine identities, the command line of QEMU,
  the serial framing of commands and events, and the event channel of a running machine. QEMU
  itself, the operating system and the JSON serializer are parameters: the serializer as the two
  functions it provides, the guest as what it sends after each command it is given.
\<close>

section \<open>Input and output errors\<close>

datatype ErrorKind =
  KInvalidData | KInvalidInput | KNotFound | KTimedOut | KUnexpectedEof | KBrokenPipe | KUnsupported | KOther

datatype io_error = IoError ErrorKind string

definition invalid_data :: "string \<Rightarrow> io_error" where
  "invalid_data message = IoError KInvalidData message"

definition invalid_network :: "string \<Rightarrow> io_error" where
  "invalid_network message = IoError KInvalidInput (''unsafe or unsupported network configuration: '' @ message)"

section \<open>Identities\<close>

definition MACHINE :: string where "MACHINE = ''pc-i440fx-9.2''"
definition CPU :: string where "CPU = ''qemu64''"
definition MEMORY_MIB :: nat where "MEMORY_MIB = 128"
definition TIME_MODEL :: string where "TIME_MODEL = ''shift=4,sleep=off''"
definition COMMAND_WRITE_CHUNK_BYTES :: nat where "COMMAND_WRITE_CHUNK_BYTES = 16"
definition MAX_FIXTURE_FILES :: nat where "MAX_FIXTURE_FILES = 256"
definition MAX_FIXTURE_FILE_BYTES :: nat where "MAX_FIXTURE_FILE_BYTES = 1024 * 1024"
definition MAX_FIXTURE_BYTES :: nat where "MAX_FIXTURE_BYTES = 8 * 1024 * 1024"

record FileIdentity =
  fi_path :: string
  fi_sha256 :: string

record NicIdentity =
  ni_model :: string
  ni_mac_address :: string
  ni_bus :: string
  ni_pci_address :: string
  ni_option_rom :: bool

record BackendIdentity =
  bi_kind :: string
  bi_id :: string
  bi_restricted :: bool

record ReplayFilterIdentity =
  rf_kind :: string
  rf_id :: string
  rf_backend_id :: string
  rf_queue :: string

record AddressingIdentity =
  ai_guest_cidr :: string
  ai_gateway :: string
  ai_peer :: string

record RouteIdentity =
  ri_destination :: string
  ri_gateway :: string
  ri_interface :: string

record FixtureIdentity =
  fx_transport :: string
  fx_behavior :: string
  fx_content_sha256 :: string

record FaultIdentity =
  fa_mechanism :: string
  fa_direction :: string
  fa_peer_cidr :: string
  fa_rule :: string
  fa_tool :: FileIdentity

record NetworkIdentity =
  nt_nic :: NicIdentity
  nt_backend :: BackendIdentity
  nt_replay_filter :: "ReplayFilterIdentity option"
  nt_addressing :: AddressingIdentity
  nt_route :: RouteIdentity
  nt_fixture :: FixtureIdentity
  nt_fault :: FaultIdentity

record VmIdentity =
  vi_qemu :: FileIdentity
  vi_qemu_version :: string
  vi_kernel :: FileIdentity
  vi_initramfs_sha256 :: string
  vi_machine :: string
  vi_cpu :: string
  vi_memory_mib :: nat
  vi_vcpus :: nat
  vi_accelerator :: string
  vi_firmware :: "FileIdentity list"
  vi_devices :: "string list"
  vi_network :: "NetworkIdentity option"

record NetworkConfig =
  nc_identity :: NetworkIdentity
  nc_fixture_directory :: "string option"

text \<open>Paths are UTF-8 texts; \<open>None\<close> is a path that \<open>to_str\<close> refuses.\<close>

record RecordConfig =
  rc_kernel :: "string option"
  rc_initramfs :: "string option"
  rc_replay_log :: "string option"
  rc_qmp_socket :: "string option"
  rc_serial_log :: "string option"
  rc_qemu_log :: "string option"
  rc_network :: "NetworkConfig option"

definition restricted_tftp :: "string option \<Rightarrow> string \<Rightarrow> string \<Rightarrow> NetworkConfig" where
  "restricted_tftp fixture_directory fixture_content_sha256 busybox_sha256 =
     \<lparr>nc_identity =
        \<lparr>nt_nic = \<lparr>ni_model = ''rtl8139'', ni_mac_address = ''52:54:00:12:34:56'', ni_bus = ''pci.0'',
           ni_pci_address = ''0x3'', ni_option_rom = False\<rparr>,
         nt_backend = \<lparr>bi_kind = ''user'', bi_id = ''simnet'', bi_restricted = True\<rparr>,
         nt_replay_filter = Some \<lparr>rf_kind = ''filter-replay'', rf_id = ''simnet-replay'', rf_backend_id = ''simnet'',
           rf_queue = ''all''\<rparr>,
         nt_addressing = \<lparr>ai_guest_cidr = ''10.0.2.15/24'', ai_gateway = ''10.0.2.2'', ai_peer = ''10.0.2.2''\<rparr>,
         nt_route = \<lparr>ri_destination = ''0.0.0.0/0'', ri_gateway = ''10.0.2.2'', ri_interface = ''eth0''\<rparr>,
         nt_fixture = \<lparr>fx_transport = ''tftp'', fx_behavior = ''immutable-files'',
           fx_content_sha256 = fixture_content_sha256\<rparr>,
         nt_fault = \<lparr>fa_mechanism = ''prohibit-route'', fa_direction = ''outbound'', fa_peer_cidr = ''10.0.2.2/32'',
           fa_rule = ''prohibit 10.0.2.2/32'',
           fa_tool = \<lparr>fi_path = ''/bin/busybox'', fi_sha256 = busybox_sha256\<rparr>\<rparr>\<rparr>,
      nc_fixture_directory = fixture_directory\<rparr>"

definition restricted_tftp_replay :: "string \<Rightarrow> string \<Rightarrow> NetworkConfig" where
  "restricted_tftp_replay fixture_content_sha256 busybox_sha256 =
     restricted_tftp None fixture_content_sha256 busybox_sha256"

definition char_between :: "char \<Rightarrow> char \<Rightarrow> char \<Rightarrow> bool" where
  "char_between low high c \<longleftrightarrow> of_char low \<le> (of_char c :: nat) \<and> (of_char c :: nat) \<le> of_char high"

definition valid_sha256 :: "string \<Rightarrow> bool" where
  "valid_sha256 v \<longleftrightarrow> length v = 64 \<and> list_all (\<lambda>c. is_digit c \<or> char_between CHR ''a'' CHR ''f'' c) v"

text \<open>The macro \<open>require!\<close>: the first condition that fails names the error.\<close>

fun require_all :: "(bool \<times> string) list \<Rightarrow> io_error + unit" where
  "require_all [] = Inr ()"
| "require_all ((ok, message) # rest) = (if ok then require_all rest else Inl (invalid_network message))"

definition NetworkIdentity_validate :: "NetworkIdentity \<Rightarrow> io_error + unit" where
  "NetworkIdentity_validate n =
     (let nic = nt_nic n; backend = nt_backend n; addressing = nt_addressing n; route = nt_route n;
          fixture = nt_fixture n; fault = nt_fault n
      in and_then (require_all
           [(ni_model nic = ''rtl8139'', ''only the rtl8139 NIC is supported''),
            (ni_mac_address nic = ''52:54:00:12:34:56'', ''the NIC MAC must match the proven fixed address''),
            (ni_bus nic = ''pci.0'' \<and> ni_pci_address nic = ''0x3'', ''the NIC must use the proven fixed PCI attachment''),
            (\<not> ni_option_rom nic, ''the NIC option ROM must be disabled''),
            (bi_kind backend = ''user'',
             ''TAP, bridge, socket, passthrough, and other network backends are not supported''),
            (bi_id backend = ''simnet'' \<and> bi_restricted backend,
             ''the user network backend must be restricted and use the fixed identifier'')]) (\<lambda>_.
         and_then (ok_or (invalid_network ''the replay filter is mandatory for every network backend'')
           (nt_replay_filter n)) (\<lambda>f.
         require_all
           [(rf_kind f = ''filter-replay'' \<and> rf_id f = ''simnet-replay'' \<and> rf_backend_id f = bi_id backend
             \<and> rf_queue f = ''all'', ''the replay filter must use the proven backend attachment and all queues''),
            (ai_guest_cidr addressing = ''10.0.2.15/24'' \<and> ai_gateway addressing = ''10.0.2.2''
             \<and> ai_peer addressing = ''10.0.2.2'',
             ''guest addressing must match the proven private user-network profile''),
            (ri_destination route = ''0.0.0.0/0'' \<and> ri_gateway route = ai_gateway addressing
             \<and> ri_interface route = ''eth0'', ''the guest route must match the proven private user-network profile''),
            (fx_transport fixture = ''tftp'' \<and> fx_behavior fixture = ''immutable-files'',
             ''only immutable content served by restricted TFTP is supported''),
            (valid_sha256 (fx_content_sha256 fixture), ''fixture content must have a lowercase SHA-256 identity''),
            (fa_mechanism fault = ''prohibit-route'' \<and> fa_direction fault = ''outbound''
             \<and> fa_peer_cidr fault = ''10.0.2.2/32'' \<and> fa_rule fault = ''prohibit 10.0.2.2/32'',
             ''the fault must be the proven outbound peer-specific prohibit route''),
            (fi_path (fa_tool fault) = ''/bin/busybox'' \<and> valid_sha256 (fi_sha256 (fa_tool fault)),
             ''the fault tool must be the digested /bin/busybox executable'')])))"

section \<open>Served files\<close>

definition fixture_preimage :: "(string \<times> bytes) list \<Rightarrow> bytes" where
  "fixture_preimage entries =
     as_bytes ''simferret-tftp-fixture-v1'' @ [0] @ le_bytes 8 (length entries)
     @ concat (map (\<lambda>(name, contents).
         le_bytes 8 (length name) @ as_bytes name @ le_bytes 8 (length contents) @ contents) entries)"

definition digest_fixture_entries :: "(bytes \<Rightarrow> bytes) \<Rightarrow> (string \<times> bytes) list \<Rightarrow> string" where
  "digest_fixture_entries sha entries =
     sha256_bytes sha (fixture_preimage (sort_key (\<lambda>(name, _). as_bytes name) entries))"

definition fixture_name_char :: "char \<Rightarrow> bool" where
  "fixture_name_char c \<longleftrightarrow> is_digit c \<or> char_between CHR ''a'' CHR ''z'' c \<or> char_between CHR ''A'' CHR ''Z'' c
     \<or> c \<in> set ''._-''"

text \<open>The names of a directory, as the system reports them; \<open>None\<close> is a name that is not UTF-8.\<close>

fun read_directory_names :: "string list \<Rightarrow> string option list \<Rightarrow> io_error + string list" where
  "read_directory_names names [] = Inr names"
| "read_directory_names names (None # rest) =
     Inl (invalid_network ''fixture filenames must be valid UTF-8 path components'')"
| "read_directory_names names (Some name # rest) =
     (if name = ''.'' \<or> name = ''..'' then read_directory_names names rest
      else if length names = MAX_FIXTURE_FILES
      then Inl (invalid_network (''record fixture must contain no more than '' @ dec MAX_FIXTURE_FILES @ '' regular files''))
      else if name = [] \<or> \<not> list_all fixture_name_char name
      then Inl (invalid_network
        ''fixture filenames may contain only ASCII letters, digits, dot, underscore, and hyphen'')
      else read_directory_names (names @ [name]) rest)"

text \<open>
  Opening and reading one entry: the error of the system, or the size its metadata declares, if it
  is a regular file, and the bytes that were read.
\<close>

type_synonym fixture_file = "io_error + nat option \<times> bytes"

definition read_fixture_entry ::
    "(string \<Rightarrow> fixture_file) \<Rightarrow> nat \<times> (string \<times> bytes) list \<Rightarrow> string \<Rightarrow> io_error + nat \<times> (string \<times> bytes) list" where
  "read_fixture_entry open_entry = (\<lambda>(total, entries) name.
     and_then (open_entry name) (\<lambda>(declared, contents).
     case declared of
       None \<Rightarrow> Inl (invalid_network (''fixture entry must be a regular file no larger than ''
                 @ dec MAX_FIXTURE_FILE_BYTES @ '' bytes: '' @ name))
     | Some bytes \<Rightarrow>
         if bytes > MAX_FIXTURE_FILE_BYTES
         then Inl (invalid_network (''fixture entry must be a regular file no larger than ''
                 @ dec MAX_FIXTURE_FILE_BYTES @ '' bytes: '' @ name))
         else if length contents \<noteq> bytes
         then Inl (invalid_network (''fixture entry changed while it was read: '' @ name))
         else and_then (ok_or (invalid_network ''fixture size overflowed'') (checked_add total (length contents))) (\<lambda>total.
           if total > MAX_FIXTURE_BYTES
           then Inl (invalid_network (''fixture contents must not exceed '' @ dec MAX_FIXTURE_BYTES @ '' bytes''))
           else Inr (total, entries @ [(name, contents)]))))"

definition read_fixture_entries_from_handle ::
    "(string \<Rightarrow> fixture_file) \<Rightarrow> string option list \<Rightarrow> io_error + (string \<times> bytes) list" where
  "read_fixture_entries_from_handle open_entry listing =
     and_then (read_directory_names [] listing) (\<lambda>names.
     if names = []
     then Inl (invalid_network (''record fixture must contain between 1 and '' @ dec MAX_FIXTURE_FILES @ '' regular files''))
     else and_then (for_each (read_fixture_entry open_entry) (0, []) (sort_key as_bytes names)) (\<lambda>(_, entries). Inr entries))"

datatype ExecutionMode = Record | Replay

fun qemu_value :: "ExecutionMode \<Rightarrow> string" where
  "qemu_value Record = ''record''"
| "qemu_value Replay = ''replay''"

text \<open>
  The preparation of the served directory: what is written into the fresh directory. The reading of
  the configured source is its result.
\<close>

definition prepare_fixture ::
    "(bytes \<Rightarrow> bytes) \<Rightarrow> (string \<Rightarrow> io_error + (string \<times> bytes) list) \<Rightarrow> NetworkConfig \<Rightarrow> ExecutionMode
     \<Rightarrow> io_error + (string \<times> bytes) list" where
  "prepare_fixture sha read_source network mode =
     (case (mode, nc_fixture_directory network) of
        (Record, Some source) \<Rightarrow>
          and_then (read_source source) (\<lambda>entries.
          let actual = digest_fixture_entries sha entries;
              wanted = fx_content_sha256 (nt_fixture (nc_identity network))
          in if actual \<noteq> wanted
             then Inl (invalid_network (''fixture content changed after configuration: expected '' @ wanted
                    @ '', actual '' @ actual))
             else Inr entries)
      | (Record, None) \<Rightarrow> Inl (invalid_network ''record mode requires content-controlled fixture input'')
      | (Replay, None) \<Rightarrow> Inr []
      | (Replay, Some _) \<Rightarrow> Inl (invalid_network ''replay mode does not accept live fixture input''))"

section \<open>Comparing identities\<close>

function (sequential) first_identity_difference :: "string \<Rightarrow> json \<Rightarrow> json \<Rightarrow> string option"
  and object_difference :: "string \<Rightarrow> (string \<times> json) list \<Rightarrow> (string \<times> json) list \<Rightarrow> string option"
  and array_difference :: "string \<Rightarrow> nat \<Rightarrow> json list \<Rightarrow> json list \<Rightarrow> string option" where
  "first_identity_difference path (JObject expected) (JObject actual) =
     (case object_difference path expected actual of
        Some difference \<Rightarrow> Some difference
      | None \<Rightarrow> map_option (\<lambda>(name, _). path @ ''.'' @ name)
                 (find (\<lambda>(name, _). map_of expected name = None) actual))"
| "first_identity_difference path (JArray expected) (JArray actual) = array_difference path 0 expected actual"
| "first_identity_difference path expected actual = (if expected = actual then None else Some path)"
| "object_difference path [] actual = None"
| "object_difference path ((name, expected_value) # expected) actual =
     (let child = path @ ''.'' @ name
      in case map_of actual name of
           None \<Rightarrow> Some child
         | Some actual_value \<Rightarrow>
             (case first_identity_difference child expected_value actual_value of
                Some difference \<Rightarrow> Some difference
              | None \<Rightarrow> object_difference path expected actual))"
| "array_difference path index [] actual =
     (case actual of [] \<Rightarrow> None | _ \<Rightarrow> Some (path @ ''['' @ dec index @ '']''))"
| "array_difference path index (expected_value # expected) actual =
     (let child = path @ ''['' @ dec index @ '']''
      in case actual of
           [] \<Rightarrow> Some child
         | actual_value # rest \<Rightarrow>
             (case first_identity_difference child expected_value actual_value of
                Some difference \<Rightarrow> Some difference
              | None \<Rightarrow> array_difference path (index + 1) expected rest))"
  by pat_completeness auto
termination
  by (relation "measure (\<lambda>x. case x of
        Inl (p, e, a) \<Rightarrow> size e
      | Inr (Inl (p, es, as)) \<Rightarrow> size_list (size_prod (\<lambda>_. 0) size) es
      | Inr (Inr (p, i, es, as)) \<Rightarrow> size_list size es)") auto

text \<open>
  The serializer may fail; \<open>None\<close> as the result of a check is the panic of the \<open>expect\<close> on the search.
\<close>

definition validate_identity_compatibility ::
    "(VmIdentity \<Rightarrow> json option) \<Rightarrow> VmIdentity \<Rightarrow> VmIdentity \<Rightarrow> (io_error + unit) option" where
  "validate_identity_compatibility to_value expected actual =
     (if expected = actual then Some (Inr ())
      else case to_value expected of
        None \<Rightarrow> Some (Inl (IoError KOther ''serialization failed''))
      | Some expected \<Rightarrow>
          (case to_value actual of
             None \<Rightarrow> Some (Inl (IoError KOther ''serialization failed''))
           | Some actual \<Rightarrow>
               map_option (\<lambda>field. Inl (invalid_data (''replay environment identity differs at '' @ field)))
                 (first_identity_difference ''vm'' expected actual)))"

definition validate_replay_network_identity ::
    "(NetworkIdentity option \<Rightarrow> json option) \<Rightarrow> VmIdentity \<Rightarrow> NetworkIdentity option \<Rightarrow> (io_error + unit) option" where
  "validate_replay_network_identity to_value expected actual =
     (if vi_network expected = actual then Some (Inr ())
      else case to_value (vi_network expected) of
        None \<Rightarrow> Some (Inl (IoError KOther ''serialization failed''))
      | Some expected \<Rightarrow>
          (case to_value actual of
             None \<Rightarrow> Some (Inl (IoError KOther ''serialization failed''))
           | Some actual \<Rightarrow>
               map_option (\<lambda>field. Inl (invalid_data (''replay environment identity differs at '' @ field)))
                 (first_identity_difference ''vm.network'' expected actual)))"

section \<open>The command line of QEMU\<close>

definition absolute_utf8 :: "string option \<Rightarrow> bool" where
  "absolute_utf8 path = (case path of None \<Rightarrow> False | Some p \<Rightarrow> starts_with p ''/'')"

definition validate_utf8_paths :: "RecordConfig \<Rightarrow> io_error + unit" where
  "validate_utf8_paths config =
     (if list_all absolute_utf8 [rc_kernel config, rc_initramfs config, rc_replay_log config, rc_qmp_socket config,
           rc_serial_log config, rc_qemu_log config]
      then Inr () else Inl (IoError KInvalidInput ''QEMU paths must be absolute valid UTF-8''))"

text \<open>\<open>replace(',', ",,")\<close>: QEMU reads a doubled comma in an option as one comma.\<close>

fun double_commas :: "string \<Rightarrow> string" where
  "double_commas [] = []"
| "double_commas (c # rest) = (if c = CHR '','' then '',,'' else [c]) @ double_commas rest"

definition option_path :: "string \<Rightarrow> string option \<Rightarrow> string \<Rightarrow> io_error + string" where
  "option_path front path back =
     and_then (ok_or (IoError KInvalidInput ''QEMU path is not UTF-8'') path) (\<lambda>p.
       Inr (front @ double_commas p @ back))"

record QemuAdapter =
  qa_executable :: string
  qa_data_directory :: string
  qa_bios :: string
  qa_linuxboot :: string

definition path_text :: "string option \<Rightarrow> string" where
  "path_text path = (case path of None \<Rightarrow> [] | Some p \<Rightarrow> p)"

definition network_arguments :: "NetworkConfig \<Rightarrow> string option \<Rightarrow> io_error + string list" where
  "network_arguments network fixture_directory =
     and_then (NetworkIdentity_validate (nc_identity network)) (\<lambda>_.
     and_then (ok_or (invalid_network ''adapter-controlled fixture directory was not prepared'') fixture_directory) (\<lambda>directory.
     let identity = nc_identity network; backend = nt_backend identity; nic = nt_nic identity
     in case nt_replay_filter identity of
          None \<Rightarrow> Inl (invalid_network ''the replay filter is mandatory for every network backend'')
        | Some f \<Rightarrow>
            and_then (option_path (bi_kind backend @ '',id='' @ bi_id backend @ '',restrict=on,tftp='') (Some directory) [])
              (\<lambda>netdev.
            Inr [''-netdev'', netdev, ''-device'',
                 ni_model nic @ '',netdev='' @ bi_id backend @ '',mac='' @ ni_mac_address nic @ '',bus='' @ ni_bus nic
                   @ '',addr='' @ ni_pci_address nic @ '',romfile='',
                 ''-object'',
                 rf_kind f @ '',id='' @ rf_id f @ '',netdev='' @ rf_backend_id f @ '',queue='' @ rf_queue f])))"

definition arguments :: "QemuAdapter \<Rightarrow> RecordConfig \<Rightarrow> ExecutionMode \<Rightarrow> string option \<Rightarrow> io_error + string list" where
  "arguments adapter config mode fixture_directory =
     and_then (validate_utf8_paths config) (\<lambda>_.
     and_then (option_path ''file,id=diagnostics,path='' (rc_serial_log config) []) (\<lambda>serial.
     and_then (option_path ''unix:path='' (rc_qmp_socket config) '',server=on,wait=off'') (\<lambda>qmp.
     and_then (case rc_network config of
                 Some network \<Rightarrow> network_arguments network fixture_directory
               | None \<Rightarrow> Inr [''-net'', ''none'']) (\<lambda>network.
     and_then (option_path (TIME_MODEL @ '',rr='' @ qemu_value mode @ '',rrfile='') (rc_replay_log config) []) (\<lambda>icount.
     Inr ([''-machine'', MACHINE @ '',accel=tcg'', ''-cpu'', CPU, ''-smp'', ''1'', ''-m'', dec MEMORY_MIB @ ''M'',
           ''-nodefaults'', ''-no-user-config'', ''-display'', ''none'', ''-monitor'', ''none'', ''-L'',
           qa_data_directory adapter, ''-bios'', qa_bios adapter, ''-chardev'', serial, ''-serial'',
           ''chardev:diagnostics'', ''-no-reboot'', ''-rtc'', ''base=2000-01-01T00:00:00,clock=vm'', ''-kernel'',
           path_text (rc_kernel config), ''-initrd'', path_text (rc_initramfs config), ''-append'',
           ''console=ttyS0 quiet loglevel=0 panic=-1 nokaslr random.trust_cpu=off init=/init'', ''-chardev'',
           ''stdio,id=agent,signal=off'', ''-serial'', ''chardev:agent'', ''-qmp'', qmp]
          @ network @ [''-icount'', icount]))))))"

section \<open>Serial framing\<close>

text \<open>
  The acknowledgements that reach the writer before its deadline, and whether it gives up because
  the deadline passed or because the reader is gone.
\<close>

record ack_channel =
  ac_pending :: nat
  ac_disconnected :: bool

fun chunks :: "nat \<Rightarrow> bytes \<Rightarrow> bytes list" where
  "chunks n bs = (if bs = [] \<or> n = 0 then [] else take n bs # chunks n (drop n bs))"

declare chunks.simps [simp del]

text \<open>
  The input of the machine: the bytes it took so far, the number of calls made on it, and the calls that
  fail, each with the number of bytes a failing write still passed on.
\<close>

record serial_output =
  so_written :: bytes
  so_calls :: nat
  so_faults :: "nat \<Rightarrow> (nat \<times> io_error) option"

definition output_write_all :: "bytes \<Rightarrow> serial_output \<Rightarrow> (io_error + unit) \<times> serial_output" where
  "output_write_all bs out =
     (case so_faults out (so_calls out) of
        None \<Rightarrow> (Inr (), out\<lparr>so_written := so_written out @ bs, so_calls := so_calls out + 1\<rparr>)
      | Some (n, e) \<Rightarrow> (Inl e, out\<lparr>so_written := so_written out @ take n bs, so_calls := so_calls out + 1\<rparr>))"

definition output_flush :: "serial_output \<Rightarrow> (io_error + unit) \<times> serial_output" where
  "output_flush out =
     (case so_faults out (so_calls out) of
        None \<Rightarrow> (Inr (), out\<lparr>so_calls := so_calls out + 1\<rparr>)
      | Some (n, e) \<Rightarrow> (Inl e, out\<lparr>so_calls := so_calls out + 1\<rparr>))"

text \<open>
  The loop over the chunks: a chunk is written and flushed whole before its acknowledgements are awaited.
\<close>

fun write_chunks :: "ack_channel \<Rightarrow> serial_output \<Rightarrow> bytes list \<Rightarrow> (io_error + unit) \<times> serial_output \<times> ack_channel" where
  "write_chunks acks out [] = (Inr (), out, acks)"
| "write_chunks acks out (chunk # rest) =
     (case output_write_all chunk out of
        (Inl e, out) \<Rightarrow> (Inl e, out, acks)
      | (Inr _, out) \<Rightarrow>
          (case output_flush out of
             (Inl e, out) \<Rightarrow> (Inl e, out, acks)
           | (Inr _, out) \<Rightarrow>
               if ac_pending acks < length chunk
               then (Inl (if ac_disconnected acks
                          then IoError KBrokenPipe ''guest serial acknowledgement channel disconnected''
                          else IoError KTimedOut ''timed out waiting for guest serial acknowledgement''),
                     out, acks\<lparr>ac_pending := 0\<rparr>)
               else write_chunks (acks\<lparr>ac_pending := ac_pending acks - length chunk\<rparr>) out rest))"

definition write_serial_command ::
    "(CommandFrame \<Rightarrow> bytes option) \<Rightarrow> ack_channel \<Rightarrow> serial_output \<Rightarrow> CommandFrame
     \<Rightarrow> (io_error + unit) \<times> serial_output \<times> ack_channel" where
  "write_serial_command to_json acks out frame =
     (case to_json frame of
        None \<Rightarrow> (Inl (IoError KOther ''serialization failed''), out, acks)
      | Some body \<Rightarrow>
          if length body > MAX_FRAME_LENGTH
          then (Inl (IoError KInvalidInput ''frame exceeds maximum length''), out, acks)
          else write_chunks acks out (chunks COMMAND_WRITE_CHUNK_BYTES (body @ [0x0a])))"

text \<open>
  Reading one event: the event, the end of the stream at a frame boundary or an error, the number
  of acknowledgements forwarded to the writer and the rest of the stream.
\<close>

fun read_serial_line :: "bytes \<Rightarrow> nat \<Rightarrow> reader \<Rightarrow> (io_error + bytes option) \<times> nat \<times> reader" where
  "read_serial_line body acks [] =
     (if body = [] then (Inr None, acks, [])
      else (Inl (IoError KUnexpectedEof ''truncated serial event frame''), acks, []))"
| "read_serial_line body acks (Interrupted # r) = read_serial_line body acks r"
| "read_serial_line body acks (Failed # r) = (Inl (IoError KOther ''read failed''), acks, r)"
| "read_serial_line body acks (Byte b # r) =
     (if b = SERIAL_ACK then read_serial_line body (acks + 1) r
      else if b = 0x0a then (Inr (Some body), acks, r)
      else if length body \<ge> MAX_FRAME_LENGTH
      then (Inl (IoError KInvalidData ''frame exceeds maximum length''), acks, r)
      else read_serial_line (body @ [b]) acks r)"

definition read_serial_event ::
    "(bytes \<Rightarrow> EventFrame option) \<Rightarrow> reader \<Rightarrow> (io_error + EventFrame option) \<times> nat \<times> reader" where
  "read_serial_event from_json r =
     (case read_serial_line [] 0 r of
        (Inl e, acks, rest) \<Rightarrow> (Inl e, acks, rest)
      | (Inr None, acks, rest) \<Rightarrow> (Inr None, acks, rest)
      | (Inr (Some body), acks, rest) \<Rightarrow>
          (case from_json body of
             None \<Rightarrow> (Inl (IoError KInvalidData ''malformed event frame''), acks, rest)
           | Some frame \<Rightarrow> (Inr (Some frame), acks, rest)))"

section \<open>The event channel\<close>

text \<open>
  What the channel of the event reader holds: an event, the report that the stream ended, the error
  that ended it, the end of the reader itself, or a pause, at which nothing is queued yet. The list
  is what arrives before the deadline of a wait; \<open>react\<close> is the guest, as what it sends until it
  is given the next command, or the error of the command writer.
\<close>

datatype arrival = Arrived EventFrame | Ended | Broken io_error | Gone | Pause

record 'g vm =
  vm_guest :: 'g
  vm_inbox :: "arrival list"
  vm_sent :: "CommandFrame list"

type_synonym 'g react = "CommandFrame \<Rightarrow> 'g \<Rightarrow> (io_error + arrival list) \<times> 'g"

definition vm_send :: "'g react \<Rightarrow> CommandFrame \<Rightarrow> ('g vm, io_error, unit) action" where
  "vm_send react command = (\<lambda>vm.
     case react command (vm_guest vm) of
       (Inl e, g) \<Rightarrow> (Inl e, vm\<lparr>vm_guest := g\<rparr>)
     | (Inr arrivals, g) \<Rightarrow>
         (Inr (), vm\<lparr>vm_guest := g, vm_inbox := vm_inbox vm @ arrivals, vm_sent := vm_sent vm @ [command]\<rparr>))"

fun recv_timeout :: "arrival list \<Rightarrow> arrival option \<times> arrival list" where
  "recv_timeout [] = (None, [])"
| "recv_timeout (Pause # rest) = recv_timeout rest"
| "recv_timeout (x # rest) = (Some x, rest)"

definition vm_receive :: "('g vm, io_error, EventFrame) action" where
  "vm_receive = (\<lambda>vm.
     let (next, rest) = recv_timeout (vm_inbox vm); vm = vm\<lparr>vm_inbox := rest\<rparr>
     in case next of
          Some (Arrived event) \<Rightarrow> (Inr event, vm)
        | Some Ended \<Rightarrow> (Inl (IoError KUnexpectedEof ''guest event channel closed''), vm)
        | Some (Broken e) \<Rightarrow> (Inl e, vm)
        | Some Gone \<Rightarrow> (Inl (IoError KBrokenPipe ''guest event reader disconnected''), vm)
        | _ \<Rightarrow> (Inl (IoError KTimedOut ''timed out waiting for guest event''), vm))"

definition vm_try_receive :: "('g vm, io_error, EventFrame option) action" where
  "vm_try_receive = (\<lambda>vm.
     case vm_inbox vm of
       [] \<Rightarrow> (Inr None, vm)
     | x # rest \<Rightarrow>
         let vm = vm\<lparr>vm_inbox := rest\<rparr>
         in case x of
              Arrived event \<Rightarrow> (Inr (Some event), vm)
            | Ended \<Rightarrow> (Inl (IoError KUnexpectedEof ''guest event channel closed''), vm)
            | Broken e \<Rightarrow> (Inl e, vm)
            | Gone \<Rightarrow> (Inl (IoError KBrokenPipe ''guest event reader disconnected''), vm)
            | Pause \<Rightarrow> (Inr None, vm))"

definition vm_finish_events :: "('g vm, io_error, unit) action" where
  "vm_finish_events = (\<lambda>vm.
     let (next, rest) = recv_timeout (vm_inbox vm); vm = vm\<lparr>vm_inbox := rest\<rparr>
     in case next of
          Some Ended \<Rightarrow> (Inr (), vm)
        | Some (Arrived event) \<Rightarrow>
            (Inl (IoError KInvalidData (''unexpected '' @ Event_describe (ef_event event) @ '' after shutdown'')), vm)
        | Some (Broken e) \<Rightarrow> (Inl e, vm)
        | Some Gone \<Rightarrow> (Inl (IoError KBrokenPipe ''guest event reader disconnected without reporting EOF''), vm)
        | _ \<Rightarrow> (Inl (IoError KTimedOut ''guest event channel did not close after shutdown''), vm))"

text \<open>The handshake at the end of \<open>launch\<close>: the first event is the agent's readiness.\<close>

definition await_ready :: "('g vm, io_error, unit) action" where
  "await_ready =
     act_bind vm_receive (\<lambda>ready.
     act_require (ef_protocol_version ready = PROTOCOL_VERSION \<and> ef_event_id ready = 0 \<and> ef_command_id ready = 0
         \<and> (case ef_event ready of AgentReady \<Rightarrow> True | _ \<Rightarrow> False))
       (invalid_data ''guest did not send the expected readiness event''))"

section \<open>The network profile\<close>

lemma require_all_iff: "require_all checks = Inr () \<longleftrightarrow> list_all fst checks"
  by (induction checks rule: require_all.induct) auto

text \<open>
  The validation of a network identity accepts exactly the proven profile: the identity that
  \<open>restricted_tftp\<close> builds, for some lower-case digests of the served content and of the fault tool.
\<close>

theorem network_identity_valid_iff:
  "NetworkIdentity_validate n = Inr () \<longleftrightarrow>
     (\<exists>content tool. valid_sha256 content \<and> valid_sha256 tool \<and> n = nc_identity (restricted_tftp None content tool))"
proof
  assume "NetworkIdentity_validate n = Inr ()"
  then obtain f where f: "nt_replay_filter n = Some f" and checks:
      "ni_model (nt_nic n) = ''rtl8139''" "ni_mac_address (nt_nic n) = ''52:54:00:12:34:56''" "ni_bus (nt_nic n) = ''pci.0''"
      "ni_pci_address (nt_nic n) = ''0x3''" "\<not> ni_option_rom (nt_nic n)" "bi_kind (nt_backend n) = ''user''"
      "bi_id (nt_backend n) = ''simnet''" "bi_restricted (nt_backend n)" "rf_kind f = ''filter-replay''"
      "rf_id f = ''simnet-replay''" "rf_backend_id f = ''simnet''" "rf_queue f = ''all''"
      "ai_guest_cidr (nt_addressing n) = ''10.0.2.15/24''" "ai_gateway (nt_addressing n) = ''10.0.2.2''"
      "ai_peer (nt_addressing n) = ''10.0.2.2''" "ri_destination (nt_route n) = ''0.0.0.0/0''"
      "ri_gateway (nt_route n) = ''10.0.2.2''" "ri_interface (nt_route n) = ''eth0''"
      "fx_transport (nt_fixture n) = ''tftp''" "fx_behavior (nt_fixture n) = ''immutable-files''"
      "fa_mechanism (nt_fault n) = ''prohibit-route''" "fa_direction (nt_fault n) = ''outbound''"
      "fa_peer_cidr (nt_fault n) = ''10.0.2.2/32''" "fa_rule (nt_fault n) = ''prohibit 10.0.2.2/32''"
      "fi_path (fa_tool (nt_fault n)) = ''/bin/busybox''"
    and ok: "valid_sha256 (fx_content_sha256 (nt_fixture n))" "valid_sha256 (fi_sha256 (fa_tool (nt_fault n)))"
    by (auto simp: NetworkIdentity_validate_def Let_def require_all_iff simp del: require_all.simps)
  have "n = nc_identity (restricted_tftp None (fx_content_sha256 (nt_fixture n)) (fi_sha256 (fa_tool (nt_fault n))))"
    unfolding restricted_tftp_def NetworkConfig.select_convs
    using f checks
    by (intro NetworkIdentity.equality)
      (simp_all add: NicIdentity.equality BackendIdentity.equality ReplayFilterIdentity.equality AddressingIdentity.equality
        RouteIdentity.equality FixtureIdentity.equality FaultIdentity.equality FileIdentity.equality)
  with ok show "\<exists>content tool. valid_sha256 content \<and> valid_sha256 tool \<and> n = nc_identity (restricted_tftp None content tool)"
    by blast
next
  assume "\<exists>content tool. valid_sha256 content \<and> valid_sha256 tool \<and> n = nc_identity (restricted_tftp None content tool)"
  then show "NetworkIdentity_validate n = Inr ()"
    by (auto simp: NetworkIdentity_validate_def restricted_tftp_def require_all_iff simp del: require_all.simps)
qed

section \<open>Comparing identities\<close>

text \<open>Values as the serializer builds them: the members of an object in key order, each key once.\<close>

fun canonical_json :: "json \<Rightarrow> bool" where
  "canonical_json (JObject m) = (sorted_wrt (\<lambda>a b. as_bytes a < as_bytes b) (map fst m) \<and> (\<forall>(k, v) \<in> set m. canonical_json v))"
| "canonical_json (JArray vs) = (\<forall>v \<in> set vs. canonical_json v)"
| "canonical_json _ = True"

lemma key_list: "distinct (map fst xs) \<Longrightarrow> map (\<lambda>k. (k, the (map_of xs k))) (map fst xs) = xs"
  by (auto intro!: map_idI simp: comp_def)

lemma distinct_keys: "sorted_wrt (\<lambda>a b. as_bytes a < as_bytes b) (map fst xs) \<Longrightarrow> distinct (map fst xs)"
  using strict_sorted_iff [of "map as_bytes (map fst xs)"] distinct_map [of as_bytes "map fst xs"]
  by (simp add: sorted_wrt_map)

lemma keys_determine:
  assumes "sorted_wrt (\<lambda>a b. as_bytes a < as_bytes b) (map fst xs)" "sorted_wrt (\<lambda>a b. as_bytes a < as_bytes b) (map fst ys)"
    and "map_of xs = map_of ys"
  shows "xs = ys"
proof -
  have sorted: "sorted_wrt (<) (map as_bytes (map fst xs))" "sorted_wrt (<) (map as_bytes (map fst ys))"
    using assms(1,2) by (simp_all add: sorted_wrt_map)
  have "fst ` set xs = fst ` set ys" using assms(3) by (metis dom_map_of_conv_image_fst)
  then have "set (map as_bytes (map fst ys)) = set (map as_bytes (map fst xs))" by (metis list.set_map)
  from strict_sorted_equal [OF sorted this] have "map as_bytes (map fst ys) = map as_bytes (map fst xs)" .
  moreover have "inj as_bytes" by (simp add: inj_def)
  ultimately have same: "map fst ys = map fst xs" by (simp only: inj_map_eq_map)
  have "xs = map (\<lambda>k. (k, the (map_of xs k))) (map fst xs)" by (rule key_list [OF distinct_keys [OF assms(1)], symmetric])
  also have "\<dots> = ys" unfolding same [symmetric] assms(3) by (rule key_list [OF distinct_keys [OF assms(2)]])
  finally show ?thesis .
qed

lemma object_difference_iff:
  assumes "\<And>k v w p. (k, v) \<in> set es \<Longrightarrow> map_of as k = Some w \<Longrightarrow> first_identity_difference p v w = None \<longleftrightarrow> v = w"
  shows "object_difference path es as = None \<longleftrightarrow> (\<forall>(k, v) \<in> set es. map_of as k = Some v)"
  using assms
proof (induction es)
  case (Cons e es)
  obtain k v where e: "e = (k, v)" by fastforce
  show ?case
  proof (cases "map_of as k")
    case (Some w)
    then have "first_identity_difference p v w = None \<longleftrightarrow> v = w" for p using Cons.prems [of k v w] by (simp add: e)
    moreover have "object_difference path es as = None \<longleftrightarrow> (\<forall>(k, v) \<in> set es. map_of as k = Some v)"
      by (rule Cons.IH) (use Cons.prems in auto)
    ultimately show ?thesis
      by (cases "first_identity_difference (path @ ''.'' @ k) v w") (auto simp: e Some)
  qed (simp add: e)
qed simp

lemma array_difference_iff:
  assumes "\<And>v w p. v \<in> set es \<Longrightarrow> w \<in> set as \<Longrightarrow> first_identity_difference p v w = None \<longleftrightarrow> v = w"
  shows "array_difference path i es as = None \<longleftrightarrow> es = as"
  using assms
proof (induction es arbitrary: i as)
  case Nil
  then show ?case by (cases as) auto
next
  case (Cons v es)
  show ?case
  proof (cases as)
    case (Cons w ws)
    have "first_identity_difference p v w = None \<longleftrightarrow> v = w" for p using Cons.prems [of v w] Cons by auto
    moreover have "array_difference path (i + 1) es ws = None \<longleftrightarrow> es = ws"
      by (rule Cons.IH) (use Cons.prems Cons in auto)
    ultimately show ?thesis
      by (cases "first_identity_difference (path @ ''['' @ dec i @ '']'') v w") (auto simp: Cons)
  qed simp
qed

lemma identity_difference_None:
  "canonical_json e \<Longrightarrow> canonical_json a \<Longrightarrow> first_identity_difference path e a = None \<longleftrightarrow> e = a"
proof (induction e arbitrary: a path)
  case (JObject es)
  show ?case
  proof (cases a)
    case (JObject as)
    have "first_identity_difference p v w = None \<longleftrightarrow> v = w" if "(k, v) \<in> set es" "map_of as k = Some w" for k v w p
      using JObject.IH [of "(k, v)" v w p] JObject.prems that map_of_SomeD [OF that(2)] by (fastforce simp: JObject)
    then have members: "object_difference path es as = None \<longleftrightarrow> (\<forall>(k, v) \<in> set es. map_of as k = Some v)"
      by (rule object_difference_iff)
    have keys: "sorted_wrt (\<lambda>a b. as_bytes a < as_bytes b) (map fst es)" "sorted_wrt (\<lambda>a b. as_bytes a < as_bytes b) (map fst as)"
      using JObject.prems by (simp_all add: JObject)
    have "es = as" if "\<forall>(k, v) \<in> set es. map_of as k = Some v" "\<forall>(k, v) \<in> set as. map_of es k \<noteq> None"
    proof (rule keys_determine [OF keys], rule ext)
      fix k
      show "map_of es k = map_of as k"
        using that by (cases "map_of es k"; cases "map_of as k") (fastforce dest: map_of_SomeD)+
    qed
    moreover have "\<forall>(k, v) \<in> set as. map_of as k = Some v"
      using distinct_keys [OF keys(2)] by (auto simp: map_of_is_SomeI)
    moreover have "find (\<lambda>(name, _). map_of es name = None) as = None \<longleftrightarrow> (\<forall>(k, v) \<in> set as. map_of es k \<noteq> None)"
      by (auto simp: find_None_iff)
    ultimately show ?thesis using members
      by (cases "object_difference path es as"; cases "es = as") (auto simp: JObject)
  qed simp_all
next
  case (JArray es)
  show ?case
  proof (cases a)
    case (JArray as)
    have "array_difference path 0 es as = None \<longleftrightarrow> es = as"
      using JArray.IH JArray.prems JArray by (intro array_difference_iff) auto
    then show ?thesis by (simp add: JArray)
  qed simp_all
qed (case_tac [!] a, simp_all)


text \<open>A place in a value, the name the comparison gives it and the value there.\<close>

datatype place_step = Named string | Item nat

fun place_name :: "string \<Rightarrow> place_step list \<Rightarrow> string" where
  "place_name path [] = path"
| "place_name path (Named name # steps) = place_name (path @ ''.'' @ name) steps"
| "place_name path (Item index # steps) = place_name (path @ ''['' @ dec index @ '']'') steps"

fun json_at :: "place_step list \<Rightarrow> json \<Rightarrow> json option" where
  "json_at [] v = Some v"
| "json_at (Named name # steps) (JObject m) = Option.bind (map_of m name) (json_at steps)"
| "json_at (Item index # steps) (JArray vs) = (if index < length vs then json_at steps (vs ! index) else None)"
| "json_at _ _ = None"

text \<open>The innermost place: neither two objects nor two arrays, which differ inside.\<close>

fun compound :: "json option \<Rightarrow> json option \<Rightarrow> bool" where
  "compound (Some (JObject _)) (Some (JObject _)) = True"
| "compound (Some (JArray _)) (Some (JArray _)) = True"
| "compound _ _ = False"

definition differs_at :: "place_step list \<Rightarrow> json \<Rightarrow> json \<Rightarrow> bool" where
  "differs_at steps e a \<longleftrightarrow> json_at steps e \<noteq> json_at steps a \<and> \<not> compound (json_at steps e) (json_at steps a)"

lemma differs_inside:
  "map_of es k = Some v \<Longrightarrow> map_of as k = Some w \<Longrightarrow> differs_at steps v w \<Longrightarrow> differs_at (Named k # steps) (JObject es) (JObject as)"
  "i < length vs \<Longrightarrow> i < length ws \<Longrightarrow> differs_at steps (vs ! i) (ws ! i) \<Longrightarrow> differs_at (Item i # steps) (JArray vs) (JArray ws)"
  by (simp_all add: differs_at_def)

lemma object_difference_place:
  assumes "object_difference path es as = Some d"
    and "\<And>k v w p d. (k, v) \<in> set es \<Longrightarrow> map_of as k = Some w \<Longrightarrow> first_identity_difference p v w = Some d
      \<Longrightarrow> \<exists>steps. d = place_name p steps \<and> differs_at steps v w"
  shows "\<exists>k v steps. (k, v) \<in> set es \<and> d = place_name path (Named k # steps)
    \<and> (map_of as k = None \<and> steps = [] \<or> (\<exists>w. map_of as k = Some w \<and> differs_at steps v w))"
  using assms
proof (induction es)
  case (Cons e es)
  obtain k v where e: "e = (k, v)" by fastforce
  show ?case
  proof (cases "map_of as k")
    case None
    with Cons.prems(1) show ?thesis by (intro exI [of _ k] exI [of _ v] exI [of _ "[]"]) (simp add: e)
  next
    case (Some w)
    show ?thesis
    proof (cases "first_identity_difference (path @ ''.'' @ k) v w")
      case None
      with Cons.prems(1) Some have "object_difference path es as = Some d" by (simp add: e)
      from Cons.IH [OF this] Cons.prems(2) have "\<exists>k v steps. (k, v) \<in> set es \<and> d = place_name path (Named k # steps)
          \<and> (map_of as k = None \<and> steps = [] \<or> (\<exists>w. map_of as k = Some w \<and> differs_at steps v w))"
        by (meson list.set_intros(2))
      then obtain k v steps where "(k, v) \<in> set es" "d = place_name path (Named k # steps)"
        "map_of as k = None \<and> steps = [] \<or> (\<exists>w. map_of as k = Some w \<and> differs_at steps v w)"
        by (elim exE conjE) (rule that)
      then show ?thesis by (intro exI [of _ k] exI [of _ v] exI [of _ steps]) simp
    next
      case found: (Some d')
      with Cons.prems(1) Some have "d' = d" by (simp add: e)
      with Cons.prems(2) [of k v w "path @ ''.'' @ k" d'] found Some obtain steps where
        "d = place_name (path @ ''.'' @ k) steps" "differs_at steps v w" by (auto simp: e)
      with Some show ?thesis by (intro exI [of _ k] exI [of _ v] exI [of _ steps]) (simp add: e)
    qed
  qed
qed simp

lemma array_difference_place:
  assumes "array_difference path i es as = Some d"
    and "\<And>v w p d. v \<in> set es \<Longrightarrow> w \<in> set as \<Longrightarrow> first_identity_difference p v w = Some d
      \<Longrightarrow> \<exists>steps. d = place_name p steps \<and> differs_at steps v w"
  shows "\<exists>j steps. d = place_name path (Item (i + j) # steps) \<and> differs_at (Item j # steps) (JArray es) (JArray as)"
  using assms
proof (induction es arbitrary: i as)
  case Nil
  then show ?case by (cases as) (auto simp: differs_at_def intro!: exI [of _ 0] exI [of _ "[]"])
next
  case (Cons v es)
  show ?case
  proof (cases as)
    case Nil
    with Cons.prems(1) show ?thesis by (auto simp: differs_at_def intro!: exI [of _ 0] exI [of _ "[]"])
  next
    case as: (Cons w ws)
    show ?thesis
    proof (cases "first_identity_difference (path @ ''['' @ dec i @ '']'') v w")
      case None
      with Cons.prems(1) have "array_difference path (i + 1) es ws = Some d" by (simp add: as)
      from Cons.IH [OF this] Cons.prems(2) obtain j steps where
        "d = place_name path (Item (i + 1 + j) # steps)" "differs_at (Item j # steps) (JArray es) (JArray ws)" by (auto simp: as)
      then show ?thesis by (intro exI [of _ "Suc j"] exI [of _ steps]) (auto simp: as differs_at_def split: if_splits)
    next
      case found: (Some d')
      with Cons.prems(1) have "d' = d" by (simp add: as)
      with Cons.prems(2) [of v w "path @ ''['' @ dec i @ '']''" d'] found obtain steps where
        "d = place_name (path @ ''['' @ dec i @ '']'') steps" "differs_at steps v w" by (auto simp: as)
      then show ?thesis by (intro exI [of _ 0] exI [of _ steps]) (simp add: as differs_at_def)
    qed
  qed
qed

lemma identity_difference_place:
  "canonical_json e \<Longrightarrow> canonical_json a \<Longrightarrow> first_identity_difference path e a = Some d
     \<Longrightarrow> \<exists>steps. d = place_name path steps \<and> differs_at steps e a"
proof (induction e arbitrary: a path d)
  case (JObject es)
  have flat: ?case if "\<And>as. a \<noteq> JObject as"
    using that JObject.prems(3) by (cases a) (auto simp: differs_at_def intro!: exI [of _ "[]"])
  show ?case
  proof (cases a)
    case obj: (JObject as)
    have "distinct (map fst es)" using JObject.prems(1) by (simp add: distinct_keys)
    then have lookup: "map_of es k = Some v" if "(k, v) \<in> set es" for k v using that by simp
    show ?thesis
    proof (cases "object_difference path es as")
      case None
      with JObject.prems(3) obtain k v where "(k, v) \<in> set as" "map_of es k = None" "d = path @ ''.'' @ k"
        by (auto simp: obj find_Some_iff) (metis nth_mem)
      moreover from this obtain w where "map_of as k = Some w" by (metis map_of_eq_None_iff image_eqI fst_conv not_Some_eq)
      ultimately show ?thesis by (intro exI [of _ "[Named k]"]) (simp add: obj differs_at_def)
    next
      case (Some d')
      have inner: "\<exists>steps. d'' = place_name p steps \<and> differs_at steps v w"
        if "(k, v) \<in> set es" "map_of as k = Some w" "first_identity_difference p v w = Some d''" for k v w p d''
        using JObject.IH [of "(k, v)" v w p d''] JObject.prems that map_of_SomeD [OF that(2)] by (fastforce simp: obj)
      obtain k v steps where found: "(k, v) \<in> set es" "d' = place_name path (Named k # steps)"
        "map_of as k = None \<and> steps = [] \<or> (\<exists>w. map_of as k = Some w \<and> differs_at steps v w)"
        using object_difference_place [OF Some] inner by meson
      from found(3) lookup [OF found(1)] have "differs_at (Named k # steps) (JObject es) (JObject as)"
        by (auto simp: differs_at_def)
      moreover have "d = d'" using Some JObject.prems(3) by (simp add: obj)
      ultimately show ?thesis using found(2) obj by (intro exI [of _ "Named k # steps"]) simp
    qed
  qed (use flat in simp_all)
next
  case (JArray es)
  have flat: ?case if "\<And>as. a \<noteq> JArray as"
    using that JArray.prems(3) by (cases a) (auto simp: differs_at_def intro!: exI [of _ "[]"])
  show ?case
  proof (cases a)
    case arr: (JArray as)
    have inner: "\<exists>steps. d' = place_name p steps \<and> differs_at steps v w"
      if "v \<in> set es" "w \<in> set as" "first_identity_difference p v w = Some d'" for v w p d'
      using JArray.IH [of v w p d'] JArray.prems that by (simp add: arr)
    have "array_difference path 0 es as = Some d" using JArray.prems(3) by (simp add: arr)
    then have "\<exists>j steps. d = place_name path (Item (0 + j) # steps) \<and> differs_at (Item j # steps) (JArray es) (JArray as)"
      by (rule array_difference_place) (rule inner)
    then obtain j steps where "d = place_name path (Item j # steps)" "differs_at (Item j # steps) (JArray es) (JArray as)"
      unfolding add_0 by (elim exE conjE) (rule that)
    then show ?thesis unfolding arr by blast
  qed (use flat in simp_all)
qed (case_tac [!] a, auto simp: differs_at_def split: if_splits intro: exI [of _ "[]"])

text \<open>
  C38. The comparison of a replay's machine with the recorded one: for a serializer that writes the two
  identities as canonical values and distinguishes them when they differ, the check never panics, it
  succeeds exactly for equal identities, and otherwise its error names a place where the two serialized
  identities differ, an innermost one: there is no value in one of them, or two values that are
  neither two objects nor two arrays.
\<close>

theorem identity_compatibility:
  assumes "to_value expected = Some e" "to_value actual = Some a" "canonical_json e" "canonical_json a"
    and "e = a \<Longrightarrow> expected = actual"
  shows "\<exists>result. validate_identity_compatibility to_value expected actual = Some result
    \<and> (result = Inr () \<longleftrightarrow> expected = actual)
    \<and> (\<forall>err. result = Inl err \<longrightarrow> (\<exists>steps. err = invalid_data (''replay environment identity differs at '' @ place_name ''vm'' steps)
          \<and> json_at steps e \<noteq> json_at steps a \<and> \<not> compound (json_at steps e) (json_at steps a)))"
proof (cases "expected = actual")
  case True
  then show ?thesis by (simp add: validate_identity_compatibility_def)
next
  case False
  with assms obtain field where field: "first_identity_difference ''vm'' e a = Some field"
    using identity_difference_None [OF assms(3,4), of "''vm''"] by auto
  obtain steps where "field = place_name ''vm'' steps" "differs_at steps e a"
    using identity_difference_place [OF assms(3,4) field] by blast
  with False field assms(1,2) show ?thesis
    by (auto simp: validate_identity_compatibility_def differs_at_def)
qed

section \<open>The digest of the served files\<close>

definition file_code :: "string \<times> bytes \<Rightarrow> bytes" where
  "file_code = (\<lambda>(name, contents).
     le_bytes 8 (length name) @ as_bytes name @ le_bytes 8 (length contents) @ contents)"

definition file_legal :: "string \<times> bytes \<Rightarrow> bool" where
  "file_legal = (\<lambda>(name, contents). length name < 256 ^ 8 \<and> length contents < 256 ^ 8)"

lemma le_prefixed_unique:
  assumes "length v < 256 ^ k" "length w < 256 ^ k" "le_bytes k (length v) @ v @ r = le_bytes k (length w) @ w @ s"
  shows "v = w \<and> r = s"
proof -
  have "le_bytes k (length v) = le_bytes k (length w)" "v @ r = w @ s" using assms(3) by simp_all
  with assms(1,2) show ?thesis by (simp add: le_bytes_inject append_eq_append_conv)
qed

interpretation served: prefix_code file_code file_legal
proof
  fix x y :: "string \<times> bytes" and r s
  assume legal: "file_legal x" "file_legal y" and same: "file_code x @ r = file_code y @ s"
  obtain n c m d where xy: "x = (n, c)" "y = (m, d)" by fastforce
  have "as_bytes n = as_bytes m \<and> le_bytes 8 (length c) @ c @ r = le_bytes 8 (length d) @ d @ s"
    using legal same by (intro le_prefixed_unique [where k = 8]) (simp_all add: xy file_code_def file_legal_def)
  moreover from this have "c = d \<and> r = s"
    using legal by (intro le_prefixed_unique [where k = 8]) (simp_all add: xy file_legal_def)
  ultimately show "x = y \<and> r = s" by (simp add: xy)
next
  fix x :: "string \<times> bytes"
  have "8 \<le> length (file_code x)" by (cases x) (simp add: file_code_def)
  then show "file_code x \<noteq> []" by auto
qed

lemma fixture_preimage_code: "fixture_preimage es =
    as_bytes ''simferret-tftp-fixture-v1'' @ [0] @ le_bytes 8 (length es) @ concat (map file_code es)"
  by (simp only: fixture_preimage_def file_code_def)

lemma sorted_entries:
  assumes "distinct (map fst es)"
  shows "sorted_wrt (\<lambda>a b. as_bytes a < as_bytes b) (map fst (sort_key (\<lambda>(name, _). as_bytes name) es))"
proof -
  let ?s = "sort_key (\<lambda>(name, _). as_bytes name) es"
  have "distinct (map fst ?s)" using assms by (simp add: distinct_map)
  then have "distinct (map as_bytes (map fst ?s))" by (simp add: distinct_map inj_on_def)
  moreover have "sorted (map as_bytes (map fst ?s))"
    using sorted_sort_key [of "\<lambda>(name, _). as_bytes name" es] by (simp add: comp_def case_prod_unfold)
  ultimately have "sorted_wrt (<) (map as_bytes (map fst ?s))" by (simp only: strict_sorted_iff)
  then show ?thesis by (simp add: sorted_wrt_map)
qed

lemma sort_key_set:
  fixes es fs :: "(string \<times> bytes) list"
  assumes "distinct (map fst es)" "distinct (map fst fs)"
  shows "sort_key (\<lambda>(name, _). as_bytes name) es = sort_key (\<lambda>(name, _). as_bytes name) fs \<longleftrightarrow> set es = set fs"
proof
  assume "set es = set fs"
  then have "map_of es = map_of fs" using map_of_inject_set assms by blast
  moreover have "map_of (sort_key (\<lambda>(name, _). as_bytes name) xs) = map_of xs" if "distinct (map fst xs)" for xs :: "(string \<times> bytes) list"
    using that distinct_keys [OF sorted_entries [OF that]]
    by (metis map_of_inject_set set_sort)
  ultimately show "sort_key (\<lambda>(name, _). as_bytes name) es = sort_key (\<lambda>(name, _). as_bytes name) fs"
    using assms by (intro keys_determine sorted_entries) auto
qed (metis set_sort)

text \<open>
  The content digest of the network fixture identifies the served files: two collections of
  distinctly named files, each name and content shorter than \<open>2 ^ 64\<close> bytes, have the same digest
  exactly when they are the same files, whatever order they are listed in, for a hash that does not
  collide on the two byte strings it is applied to.
\<close>

theorem fixture_digest_identifies:
  assumes "distinct (map fst es)" "distinct (map fst fs)" "list_all file_legal es" "list_all file_legal fs"
    and "length es < 256 ^ 8" "length fs < 256 ^ 8"
    and "inj_on sha {fixture_preimage (sort_key (\<lambda>(name, _). as_bytes name) es),
                     fixture_preimage (sort_key (\<lambda>(name, _). as_bytes name) fs)}"
  shows "digest_fixture_entries sha es = digest_fixture_entries sha fs \<longleftrightarrow> set es = set fs"
proof -
  let ?es = "sort_key (\<lambda>(name, _). as_bytes name) es" and ?fs = "sort_key (\<lambda>(name, _). as_bytes name) fs"
  have "digest_fixture_entries sha es = digest_fixture_entries sha fs \<longleftrightarrow> fixture_preimage ?es = fixture_preimage ?fs"
    using assms(7) by (auto simp: digest_fixture_entries_def sha256_bytes_def hex_text_inject dest: inj_onD)
  also have "\<dots> \<longleftrightarrow> length ?es = length ?fs \<and> concat (map file_code ?es) = concat (map file_code ?fs)"
    using assms(5,6) by (auto simp: fixture_preimage_code le_bytes_inject)
  also have "\<dots> \<longleftrightarrow> ?es = ?fs"
    using served.concat_enc_inject [of ?es ?fs] assms(3,4) by (auto simp: list_all_iff simp del: length_sort)
  also have "\<dots> \<longleftrightarrow> set es = set fs" by (rule sort_key_set [OF assms(1,2)])
  finally show ?thesis .
qed


section \<open>Options\<close>

text \<open>How QEMU reads the value of an option: a doubled comma is a comma, a single one ends it.\<close>

fun read_option :: "string \<Rightarrow> string \<times> string" where
  "read_option [] = ([], [])"
| "read_option (c # rest) =
     (if c \<noteq> CHR '','' then apfst (Cons c) (read_option rest)
      else (case rest of
              d # rest' \<Rightarrow> if d = CHR '','' then apfst (Cons CHR '','') (read_option rest') else ([], c # rest)
            | [] \<Rightarrow> ([], [c])))"

text \<open>
  A path in an option of the QEMU command line reaches QEMU unchanged, whatever commas it
  holds: the option begins with the given text, and its value read back by the rule for doubled
  commas is the path, with what follows it left over, if that begins with a single comma or is empty.
\<close>

theorem option_path_roundtrip:
  assumes "back = [] \<or> (\<exists>c rest. back = CHR '','' # c # rest \<and> c \<noteq> CHR '','')"
  shows "\<exists>option. option_path front (Some path) back = Inr option \<and> take (length front) option = front
    \<and> read_option (drop (length front) option) = (path, back)"
proof -
  have "read_option (double_commas path @ back) = (path, back)"
    using assms by (induction path rule: double_commas.induct) auto
  then show ?thesis by (simp add: option_path_def)
qed

section \<open>Serial frames\<close>

text \<open>A stream that carries the given bytes, with acknowledgements and interruptions anywhere.\<close>

inductive carries :: "reader \<Rightarrow> bytes \<Rightarrow> nat \<Rightarrow> bool" where
  carries_Nil: "carries [] [] 0"
| carries_byte: "b \<noteq> SERIAL_ACK \<Longrightarrow> carries r bs n \<Longrightarrow> carries (Byte b # r) (b # bs) n"
| carries_ack: "carries r bs n \<Longrightarrow> carries (Byte SERIAL_ACK # r) bs (Suc n)"
| carries_interrupt: "carries r bs n \<Longrightarrow> carries (Interrupted # r) bs n"

lemma read_serial_line_carries:
  assumes "carries r bs n" "bs = rest @ 0x0a # tail" "0x0a \<notin> set rest" "length body + length rest \<le> MAX_FRAME_LENGTH"
  shows "\<exists>k r'. read_serial_line body acks r = (Inr (Some (body @ rest)), acks + k, r') \<and> k \<le> n \<and> carries r' tail (n - k)"
  using assms
proof (induction arbitrary: body acks rest rule: carries.induct)
  case carries_Nil
  then show ?case by simp
next
  case (carries_byte b r bs n)
  show ?case
  proof (cases rest)
    case Nil
    with carries_byte have "b = 0x0a" "tail = bs" by auto
    with carries_byte.hyps Nil show ?thesis by auto
  next
    case (Cons c rest')
    with carries_byte.prems have b: "c = b" "bs = rest' @ 0x0a # tail" "0x0a \<notin> set rest'" "b \<noteq> 0x0a"
      "\<not> MAX_FRAME_LENGTH \<le> length body" "length (body @ [b]) + length rest' \<le> MAX_FRAME_LENGTH" by auto
    from carries_byte.IH [OF b(2,3,6), of acks] b carries_byte.hyps(1) show ?thesis by (simp add: Cons)
  qed
next
  case (carries_ack r bs n)
  from carries_ack.IH [OF carries_ack.prems, of "acks + 1"] obtain k r' where
    "read_serial_line body (acks + 1) r = (Inr (Some (body @ rest)), acks + 1 + k, r')" "k \<le> n" "carries r' tail (n - k)" by blast
  then show ?case by (intro exI [of _ "Suc k"] exI [of _ r']) simp
next
  case (carries_interrupt r bs n)
  then show ?case by simp
qed

text \<open>
  The event reader is indifferent to what arrives between the bytes of a frame: from a stream
  that carries a serialized event followed by a newline and further bytes, with any number of
  acknowledgement bytes and interruptions interspersed, it delivers that event, forwards each
  acknowledgement it passed, and leaves a stream that carries the further bytes and the others.
\<close>

theorem read_serial_event_interleaved:
  assumes "carries r (body @ 0x0a # tail) n" "0x0a \<notin> set body" "length body \<le> MAX_FRAME_LENGTH"
    and "from_json body = Some frame"
  shows "\<exists>k r'. read_serial_event from_json r = (Inr (Some frame), k, r') \<and> k \<le> n \<and> carries r' tail (n - k)"
proof -
  from read_serial_line_carries [OF assms(1) refl assms(2), of "[]" 0] assms(3) obtain k r' where
    "read_serial_line [] 0 r = (Inr (Some body), k, r')" "k \<le> n" "carries r' tail (n - k)" by auto
  with assms(4) show ?thesis by (simp add: read_serial_event_def)
qed

lemma concat_chunks: "n \<noteq> 0 \<Longrightarrow> concat (chunks n bs) = bs"
  by (induction n bs rule: chunks.induct) (subst chunks.simps, simp)

text \<open>The calls the writer makes for a number of chunks, two for each, and none of them failing.\<close>

definition output_accepts :: "serial_output \<Rightarrow> nat \<Rightarrow> bool" where
  "output_accepts out n \<longleftrightarrow> list_all (\<lambda>k. so_faults out (so_calls out + k) = None) [0..<2 * n]"

lemma output_accepts_Suc:
  "output_accepts out (Suc n) \<longleftrightarrow> so_faults out (so_calls out) = None \<and> so_faults out (so_calls out + 1) = None
     \<and> output_accepts (out\<lparr>so_written := w, so_calls := so_calls out + 2\<rparr>) n"
proof -
  have calls: "output_accepts u m \<longleftrightarrow> (\<forall>k < 2 * m. so_faults u (so_calls u + k) = None)" for u m
    by (auto simp: output_accepts_def list_all_iff)
  have "(\<forall>k < 2 * Suc n. P k) \<longleftrightarrow> P 0 \<and> P 1 \<and> (\<forall>k < 2 * n. P (Suc (Suc k)))" for P
    by (simp add: All_less_Suc2)
  from this [of "\<lambda>k. so_faults out (so_calls out + k) = None"] show ?thesis unfolding calls by simp
qed

lemma write_chunks_outcome:
  "\<exists>r out' acks' more. write_chunks acks out cs = (r, out', acks') \<and> so_written out' = so_written out @ more
     \<and> take (length more) (concat cs) = more
     \<and> (r = Inr () \<longleftrightarrow> length (concat cs) \<le> ac_pending acks \<and> output_accepts out (length cs))
     \<and> (r = Inr () \<longrightarrow> more = concat cs \<and> acks' = acks\<lparr>ac_pending := ac_pending acks - length (concat cs)\<rparr>)"
proof (induction cs arbitrary: acks out)
  case Nil
  show ?case by (simp add: output_accepts_def)
next
  case (Cons c cs)
  let ?out = "out\<lparr>so_written := so_written out @ c, so_calls := so_calls out + 2\<rparr>"
  let ?acks = "acks\<lparr>ac_pending := ac_pending acks - length c\<rparr>"
  show ?case
  proof (cases "so_faults out (so_calls out) = None \<and> so_faults out (so_calls out + 1) = None \<and> length c \<le> ac_pending acks")
    case False
    then show ?thesis
      by (auto simp: output_write_all_def output_flush_def output_accepts_Suc [of out "length cs" "[]"] min_def split: option.splits)
  next
    case True
    obtain r out' acks' more where ih: "write_chunks ?acks ?out cs = (r, out', acks')" "so_written out' = so_written ?out @ more"
      "take (length more) (concat cs) = more"
      "r = Inr () \<longleftrightarrow> length (concat cs) \<le> ac_pending ?acks \<and> output_accepts ?out (length cs)"
      "r = Inr () \<longrightarrow> more = concat cs \<and> acks' = ?acks\<lparr>ac_pending := ac_pending ?acks - length (concat cs)\<rparr>"
      using Cons.IH by blast
    have run: "write_chunks acks out (c # cs) = (r, out', acks')"
      using True ih(1) by (simp add: output_write_all_def output_flush_def)
    show ?thesis
      unfolding run using ih(2-) True
      by (intro exI [of _ r] exI [of _ out'] exI [of _ acks'] exI [of _ "c @ more"])
        (auto simp: output_accepts_Suc [of out "length cs" "so_written out @ c"])
  qed
qed

text \<open>
  C39. A command is written whole or the writer returns an error: for a frame within the bound the command succeeds
  exactly when no write and no flush of its chunks fails and the guest acknowledges every byte of the line in
  time; then the line is written whole and exactly its acknowledgements are consumed. In every case what was
  written is a prefix of the line.
\<close>

theorem write_serial_command_acknowledged:
  assumes "to_json frame = Some body" "length body \<le> MAX_FRAME_LENGTH"
  shows "\<exists>r out' acks' more. write_serial_command to_json acks out frame = (r, out', acks')
    \<and> so_written out' = so_written out @ more \<and> take (length more) (body @ [0x0a]) = more
    \<and> (r = Inr () \<longleftrightarrow> length body < ac_pending acks
         \<and> (\<forall>k < 2 * length (chunks COMMAND_WRITE_CHUNK_BYTES (body @ [0x0a])). so_faults out (so_calls out + k) = None))
    \<and> (r = Inr () \<longrightarrow> more = body @ [0x0a] \<and> acks' = acks\<lparr>ac_pending := ac_pending acks - (length body + 1)\<rparr>)"
proof -
  let ?cs = "chunks COMMAND_WRITE_CHUNK_BYTES (body @ [0x0a])"
  have line: "concat ?cs = body @ [0x0a]" by (simp add: concat_chunks COMMAND_WRITE_CHUNK_BYTES_def)
  have calls: "output_accepts out (length ?cs) \<longleftrightarrow> (\<forall>k < 2 * length ?cs. so_faults out (so_calls out + k) = None)"
    by (auto simp: output_accepts_def list_all_iff)
  have run: "write_serial_command to_json acks out frame = write_chunks acks out ?cs"
    using assms by (simp add: write_serial_command_def)
  show ?thesis
    using write_chunks_outcome [of acks out ?cs] unfolding run line calls by (simp add: Suc_le_eq)
qed

section \<open>Witnesses\<close>

definition sample_identity :: "nat \<Rightarrow> VmIdentity" where
  "sample_identity memory = \<lparr>vi_qemu = \<lparr>fi_path = ''/q'', fi_sha256 = []\<rparr>, vi_qemu_version = ''9'',
     vi_kernel = \<lparr>fi_path = ''/k'', fi_sha256 = []\<rparr>, vi_initramfs_sha256 = [], vi_machine = MACHINE, vi_cpu = CPU,
     vi_memory_mib = memory, vi_vcpus = 1, vi_accelerator = ''tcg'', vi_firmware = [], vi_devices = [], vi_network = None\<rparr>"

definition memory_value :: "VmIdentity \<Rightarrow> json option" where
  "memory_value v = Some (JObject [(''memory_mib'', JInt (int (vi_memory_mib v)))])"

theorem identity_compatibility_witness:
  "\<exists>steps. validate_identity_compatibility memory_value (sample_identity 128) (sample_identity 64)
     = Some (Inl (invalid_data (''replay environment identity differs at '' @ place_name ''vm'' steps))) \<and> steps \<noteq> []"
proof -
  let ?mem = "\<lambda>n. JObject [(''memory_mib'', JInt n)]"
  have "memory_value (sample_identity n) = Some (?mem (int n))" for n by (simp add: memory_value_def sample_identity_def)
  moreover have "sample_identity 128 \<noteq> sample_identity 64" by (simp add: sample_identity_def)
  ultimately obtain result where result: "validate_identity_compatibility memory_value (sample_identity 128) (sample_identity 64) = Some result"
    "result \<noteq> Inr ()" "\<forall>err. result = Inl err \<longrightarrow> (\<exists>steps. err = invalid_data (''replay environment identity differs at '' @ place_name ''vm'' steps)
       \<and> json_at steps (?mem 128) \<noteq> json_at steps (?mem 64) \<and> \<not> compound (json_at steps (?mem 128)) (json_at steps (?mem 64)))"
    using identity_compatibility [of memory_value "sample_identity 128" "?mem 128" "sample_identity 64" "?mem 64"] by auto
  then obtain err where "result = Inl err" by (cases result) auto
  with result(1,3) show ?thesis by (metis compound.simps(1) json_at.simps(1))
qed

theorem fixture_digest_identifies_witness:
  "digest_fixture_entries (\<lambda>bs. bs) [(''a'', [1]), (''b'', [])] = digest_fixture_entries (\<lambda>bs. bs) [(''b'', []), (''a'', [1])]
    \<longleftrightarrow> set [(''a'', [1 :: u8]), (''b'', [])] = set [(''b'', []), (''a'', [1])]"
  by (rule fixture_digest_identifies) (simp_all add: file_legal_def)

theorem option_path_roundtrip_witness:
  "\<exists>option. option_path ''unix:path='' (Some ''/run/a,b/qmp'') '',server=on,wait=off'' = Inr option
    \<and> take (length ''unix:path='') option = ''unix:path=''
    \<and> read_option (drop (length ''unix:path='') option) = (''/run/a,b/qmp'', '',server=on,wait=off'')"
  by (rule option_path_roundtrip) simp

definition sample_ready :: EventFrame where
  "sample_ready = \<lparr>ef_protocol_version = 1, ef_event_id = 0, ef_command_id = 0, ef_event = AgentReady,
     ef_diagnostics = no_diagnostics\<rparr>"

theorem read_serial_event_interleaved_witness:
  "\<exists>k r'. read_serial_event (\<lambda>_. Some sample_ready) [Byte SERIAL_ACK, Byte 7, Interrupted, Byte SERIAL_ACK, Byte 0x0a, Byte SERIAL_ACK]
     = (Inr (Some sample_ready), k, r') \<and> k \<le> 3 \<and> carries r' [] (3 - k)"
proof (rule read_serial_event_interleaved [where body = "[7]"])
  have "carries [Byte SERIAL_ACK] [] (Suc 0)" by (intro carries.intros)
  then have "carries [Byte SERIAL_ACK, Byte 7, Interrupted, Byte SERIAL_ACK, Byte 0x0a, Byte SERIAL_ACK] [7, 0x0a] (Suc (Suc (Suc 0)))"
    by (intro carries.intros) (simp_all add: SERIAL_ACK_def)
  then show "carries [Byte SERIAL_ACK, Byte 7, Interrupted, Byte SERIAL_ACK, Byte 0x0a, Byte SERIAL_ACK] ([7] @ 0x0a # []) 3"
    by (simp add: numeral_eq_Suc)
qed (simp_all add: MAX_FRAME_LENGTH_def)

definition sample_output :: "(nat \<Rightarrow> (nat \<times> io_error) option) \<Rightarrow> serial_output" where
  "sample_output faults = \<lparr>so_written = [9], so_calls = 0, so_faults = faults\<rparr>"

theorem write_serial_command_acknowledged_witness:
  "(\<exists>out'. write_serial_command (\<lambda>_. Some [1, 2]) \<lparr>ac_pending = 3, ac_disconnected = False\<rparr> (sample_output (\<lambda>_. None))
      \<lparr>cf_protocol_version = 1, cf_command_id = 1, cf_command = Shutdown\<rparr> = (Inr (), out', \<lparr>ac_pending = 0, ac_disconnected = False\<rparr>)
      \<and> so_written out' = [9, 1, 2, 0x0a])
   \<and> fst (write_serial_command (\<lambda>_. Some [1, 2]) \<lparr>ac_pending = 3, ac_disconnected = False\<rparr>
      (sample_output (\<lambda>k. if k = 1 then Some (0, IoError KBrokenPipe []) else None))
      \<lparr>cf_protocol_version = 1, cf_command_id = 1, cf_command = Shutdown\<rparr>) \<noteq> Inr ()"
proof -
  have one: "chunks COMMAND_WRITE_CHUNK_BYTES ([1, 2] @ [0x0a]) = [[1, 2, 0x0a :: u8]]"
    by (subst chunks.simps, subst chunks.simps) (simp add: COMMAND_WRITE_CHUNK_BYTES_def)
  note written = write_serial_command_acknowledged [of "\<lambda>_. Some [1, 2]"
      "\<lparr>cf_protocol_version = 1, cf_command_id = 1, cf_command = Shutdown\<rparr>" "[1, 2]" "\<lparr>ac_pending = 3, ac_disconnected = False\<rparr>",
      unfolded one]
  show ?thesis
    using written [of "sample_output (\<lambda>_. None)"] written [of "sample_output (\<lambda>k. if k = 1 then Some (0, IoError KBrokenPipe []) else None)"]
    by (auto simp: MAX_FRAME_LENGTH_def sample_output_def numeral_2_eq_2 All_less_Suc)
qed

end
