(* ===== verification/Scenario_Plan.thy ===== *)
theory Scenario_Plan
  imports Protocol
begin

unbundle bit_operations_syntax

text \<open>
  The scenarios of \<open>scenario.rs\<close> and their seeded choice plans. The generator works on 64-bit
  words with wrapping arithmetic; indices are \<open>usize\<close> values as naturals. The TOML reader is a
  parameter of \<open>parse\<close>. The lemmas: a validated scenario never makes the plan divide by zero or
  index outside the candidates, the fault indices are ordered, distinct and strictly inside the
  request sequence, and the planned requests have the shape their consumers check.
\<close>

section \<open>Data\<close>

definition SCENARIO_VERSION :: nat where "SCENARIO_VERSION = 1"
definition CHOICE_PLAN_VERSION :: nat where "CHOICE_PLAN_VERSION = 1"
definition MAX_SCENARIO_SOURCE_BYTES :: nat where "MAX_SCENARIO_SOURCE_BYTES = 1024 * 1024"
definition MAX_SCENARIO_NAME_BYTES :: nat where "MAX_SCENARIO_NAME_BYTES = 256"
definition MAX_REQUEST_COUNT :: nat where "MAX_REQUEST_COUNT = 256"
definition MAX_TOTAL_PAYLOAD_BYTES :: nat where "MAX_TOTAL_PAYLOAD_BYTES = 1024 * 1024"
definition WORKLOAD_SCENARIO_VERSION :: nat where "WORKLOAD_SCENARIO_VERSION = 1"
definition WORKLOAD_CHOICE_PLAN_VERSION :: nat where "WORKLOAD_CHOICE_PLAN_VERSION = 1"
definition MIN_WORKLOAD_REQUEST_COUNT :: nat where "MIN_WORKLOAD_REQUEST_COUNT = 4"
definition MAX_WORKLOAD_PAYLOAD_BYTES :: nat where "MAX_WORKLOAD_PAYLOAD_BYTES = 63"

datatype scenario_error =
    ScenarioTooLarge
  | ScenarioNotUtf8
  | MalformedScenario
  | ScenarioVersion nat
  | ScenarioName
  | ScenarioRequestCount
  | ScenarioPayloadBytes
  | ScenarioBudgetOverflow
  | ScenarioBudget
  | ScenarioBounds
  | ScenarioPeer

record Scenario =
  sc_version :: nat
  sc_name :: string
  sc_request_count :: nat
  sc_payload_bytes :: nat
  sc_fixture_peer :: string
  sc_outage_event_bound :: nat
  sc_liveness_event_bound :: nat
  sc_corrupt_responses :: bool

record PlannedRequest =
  pr_request_id :: string
  pr_payload :: string

record ChoicePlan =
  cp_version :: nat
  cp_seed :: u64
  cp_outage_activation_request_index :: nat
  cp_restoration_request_index :: nat
  cp_requests :: "PlannedRequest list"

record WorkloadChoicePlan =
  wp_version :: nat
  wp_seed :: u64
  wp_process_fault_request_index :: nat
  wp_outage_activation_request_index :: nat
  wp_restoration_request_index :: nat
  wp_requests :: "PlannedRequest list"

text \<open>
  \<open>Ipv4Addr\<close> parsing: four decimal octets of at most three digits without a leading zero,
  separated by dots. An IPv6 text parses to an address that is never the fixed IPv4 peer, so it
  is rejected like an unparsable one; the two messages are one error here.
\<close>

definition parse_octet :: "string \<Rightarrow> nat option" where
  "parse_octet s =
     (let n = foldl (\<lambda>acc c. 10 * acc + digit_value c) 0 s
      in if s = [] \<or> length s > 3 \<or> \<not> list_all is_digit s \<or> (length s > 1 \<and> hd s = CHR ''0'') \<or> n > 255
         then None else Some n)"

definition parse_ipv4 :: "string \<Rightarrow> nat list option" where
  "parse_ipv4 s =
     (let parts = map parse_octet (split_on CHR ''.'' s)
      in if length parts = 4 \<and> None \<notin> set parts then Some (map the parts) else None)"

section \<open>Validation\<close>

text \<open>\<open>WorkloadScenario\<close> has the fields of \<open>Scenario\<close>; the two differ in their limits.\<close>

definition validate_tail :: "Scenario \<Rightarrow> scenario_error + unit" where
  "validate_tail s =
     and_then (ok_or ScenarioBudgetOverflow (checked_mul (sc_request_count s) (sc_payload_bytes s)))
       (\<lambda>total_payload_bytes.
     if total_payload_bytes > MAX_TOTAL_PAYLOAD_BYTES then Inl ScenarioBudget
     else if sc_outage_event_bound s = 0 \<or> sc_liveness_event_bound s < 2 then Inl ScenarioBounds
     else if parse_ipv4 (sc_fixture_peer s) \<noteq> Some [10, 0, 2, 2] then Inl ScenarioPeer
     else Inr ())"

definition Scenario_validate :: "Scenario \<Rightarrow> scenario_error + unit" where
  "Scenario_validate s =
     (if sc_version s \<noteq> SCENARIO_VERSION then Inl (ScenarioVersion (sc_version s))
      else if sc_name s = [] \<or> length (sc_name s) > MAX_SCENARIO_NAME_BYTES then Inl ScenarioName
      else if \<not> (3 \<le> sc_request_count s \<and> sc_request_count s \<le> MAX_REQUEST_COUNT)
      then Inl ScenarioRequestCount
      else if sc_payload_bytes s = 0 \<or> sc_payload_bytes s > MAX_REQUEST_DATA_LENGTH div 4
      then Inl ScenarioPayloadBytes
      else validate_tail s)"

definition WorkloadScenario_validate :: "Scenario \<Rightarrow> scenario_error + unit" where
  "WorkloadScenario_validate s =
     (if sc_version s \<noteq> WORKLOAD_SCENARIO_VERSION then Inl (ScenarioVersion (sc_version s))
      else if sc_name s = [] \<or> length (sc_name s) > MAX_SCENARIO_NAME_BYTES then Inl ScenarioName
      else if \<not> (MIN_WORKLOAD_REQUEST_COUNT \<le> sc_request_count s \<and> sc_request_count s \<le> MAX_REQUEST_COUNT)
      then Inl ScenarioRequestCount
      else if sc_payload_bytes s = 0 \<or> sc_payload_bytes s > MAX_WORKLOAD_PAYLOAD_BYTES
      then Inl ScenarioPayloadBytes
      else validate_tail s)"

definition Scenario_parse ::
    "(string \<Rightarrow> Scenario option) \<Rightarrow> bytes \<Rightarrow> scenario_error + Scenario \<times> bytes" where
  "Scenario_parse toml source =
     (if length source > MAX_SCENARIO_SOURCE_BYTES then Inl ScenarioTooLarge
      else and_then (ok_or ScenarioNotUtf8 (from_utf8 source)) (\<lambda>text.
      and_then (ok_or MalformedScenario (toml text)) (\<lambda>scenario.
      and_then (Scenario_validate scenario) (\<lambda>_. Inr (scenario, source)))))"

definition WorkloadScenario_parse ::
    "(string \<Rightarrow> Scenario option) \<Rightarrow> bytes \<Rightarrow> scenario_error + Scenario \<times> bytes" where
  "WorkloadScenario_parse toml source =
     (if length source > MAX_SCENARIO_SOURCE_BYTES then Inl ScenarioTooLarge
      else and_then (ok_or ScenarioNotUtf8 (from_utf8 source)) (\<lambda>text.
      and_then (ok_or MalformedScenario (toml text)) (\<lambda>scenario.
      and_then (WorkloadScenario_validate scenario) (\<lambda>_. Inr (scenario, source)))))"

section \<open>The generator\<close>

definition SplitMix64_next :: "u64 \<Rightarrow> u64 \<times> u64" where
  "SplitMix64_next state =
     (let state = state + 0x9e3779b97f4a7c15;
          v = state;
          v = (v XOR drop_bit 30 v) * 0xbf58476d1ce4e5b9;
          v = (v XOR drop_bit 27 v) * 0x94d049bb133111eb
      in (v XOR drop_bit 31 v, state))"

fun hex_bytes_loop :: "nat list \<Rightarrow> u64 \<Rightarrow> string \<Rightarrow> u64 \<Rightarrow> string \<times> u64" where
  "hex_bytes_loop [] v out state = (out, state)"
| "hex_bytes_loop (index # rest) v out state =
     (let (v, state) = (if index mod 8 = 0 then SplitMix64_next state else (v, state));
          byte = (ucast (drop_bit ((index mod 8) * 8) v) :: u8)
      in hex_bytes_loop rest v
           (out @ [''0123456789abcdef'' ! unat (drop_bit 4 byte), ''0123456789abcdef'' ! unat (byte AND 0xf)])
           state)"

definition hex_bytes :: "nat \<Rightarrow> u64 \<Rightarrow> string \<times> u64" where
  "hex_bytes len state = hex_bytes_loop [0..<len] 0 [] state"

definition planned_request :: "nat \<Rightarrow> nat \<Rightarrow> u64 \<Rightarrow> PlannedRequest \<times> u64" where
  "planned_request payload_bytes index state =
     (let (nonce, state) = SplitMix64_next state;
          request_id = ''request-'' @ zero_pad 4 (dec index) @ ''-'' @ zero_pad 16 (lower_hex (unat nonce));
          (payload, state) = hex_bytes payload_bytes state
      in (\<lparr>pr_request_id = request_id, pr_payload = payload\<rparr>, state))"

fun planned_requests :: "nat \<Rightarrow> nat list \<Rightarrow> u64 \<Rightarrow> PlannedRequest list" where
  "planned_requests payload_bytes [] state = []"
| "planned_requests payload_bytes (index # rest) state =
     (let (request, state) = planned_request payload_bytes index state
      in request # planned_requests payload_bytes rest state)"

section \<open>Choice plans\<close>

definition transition_indices :: "nat \<Rightarrow> u64 \<Rightarrow> nat \<times> nat \<times> u64" where
  "transition_indices request_count state =
     (let (a, state) = SplitMix64_next state;
          outage_activation_request_index = 1 + unat a mod (request_count - 2);
          (b, state) = SplitMix64_next state;
          restoration_request_index = outage_activation_request_index + 1
            + unat b mod (request_count - outage_activation_request_index - 1)
      in (outage_activation_request_index, restoration_request_index, state))"

definition Scenario_choices :: "Scenario \<Rightarrow> u64 \<Rightarrow> ChoicePlan" where
  "Scenario_choices s seed =
     (let (activation, restoration, state) = transition_indices (sc_request_count s) seed
      in \<lparr>cp_version = CHOICE_PLAN_VERSION, cp_seed = seed,
          cp_outage_activation_request_index = activation,
          cp_restoration_request_index = restoration,
          cp_requests = planned_requests (sc_payload_bytes s) [0..<sc_request_count s] state\<rparr>)"

definition fault_candidates :: "nat \<Rightarrow> nat \<Rightarrow> nat \<Rightarrow> nat list" where
  "fault_candidates request_count activation restoration =
     filter (\<lambda>index. index \<noteq> activation \<and> index \<noteq> restoration) [1..<request_count]"

definition WorkloadScenario_choices :: "Scenario \<Rightarrow> u64 \<Rightarrow> WorkloadChoicePlan" where
  "WorkloadScenario_choices s seed =
     (let (activation, restoration, state) = transition_indices (sc_request_count s) seed;
          candidates = fault_candidates (sc_request_count s) activation restoration;
          (c, state) = SplitMix64_next state
      in \<lparr>wp_version = WORKLOAD_CHOICE_PLAN_VERSION, wp_seed = seed,
          wp_process_fault_request_index = candidates ! (unat c mod length candidates),
          wp_outage_activation_request_index = activation,
          wp_restoration_request_index = restoration,
          wp_requests = planned_requests (sc_payload_bytes s) [0..<sc_request_count s] state\<rparr>)"

section \<open>Indices\<close>

lemma transition_indices_ordered:
  assumes "3 \<le> n" and "transition_indices n state = (a, r, state')"
  shows "1 \<le> a \<and> a < r \<and> r < n"
proof -
  obtain x s1 where x: "SplitMix64_next state = (x, s1)" by fastforce
  obtain y s2 where y: "SplitMix64_next s1 = (y, s2)" by fastforce
  have a: "a = 1 + unat x mod (n - 2)" and r: "r = a + 1 + unat y mod (n - a - 1)"
    using assms(2) by (auto simp: transition_indices_def x y Let_def)
  have "unat x mod (n - 2) < n - 2" using assms(1) by simp
  with a have a2: "a < n - 1" by simp
  then have "unat y mod (n - a - 1) < n - a - 1" by simp
  with r a2 have "r < n" by linarith
  with a r show ?thesis by simp
qed

lemma length_fault_candidates:
  assumes "1 \<le> a" and "a < r" and "r < n"
  shows "length (fault_candidates n a r) = n - 3"
proof -
  have "set (fault_candidates n a r) = {1..<n} - {a, r}" by (auto simp: fault_candidates_def)
  moreover have "distinct (fault_candidates n a r)" by (simp add: fault_candidates_def)
  ultimately have "length (fault_candidates n a r) = card ({1..<n} - {a, r})"
    by (metis distinct_card)
  also have "\<dots> = card {1..<n} - card {a, r}"
    using assms by (intro card_Diff_subset) auto
  finally show ?thesis using assms by simp
qed

lemma fault_candidate_in:
  assumes "1 \<le> a" and "a < r" and "r < n" and "4 \<le> n"
  shows "fault_candidates n a r ! (k mod length (fault_candidates n a r)) \<in> {1..<n} - {a, r}"
proof -
  have "length (fault_candidates n a r) > 0" using assms by (simp add: length_fault_candidates)
  then have "fault_candidates n a r ! (k mod length (fault_candidates n a r)) \<in> set (fault_candidates n a r)"
    by (intro nth_mem) simp
  then show ?thesis by (auto simp: fault_candidates_def)
qed

section \<open>Requests\<close>

definition hex_char :: "char \<Rightarrow> bool" where
  "hex_char c \<longleftrightarrow> c \<in> set ''0123456789abcdef''"

definition id_char :: "char \<Rightarrow> bool" where
  "id_char c \<longleftrightarrow> hex_char c \<or> c \<in> set ''request-''"

lemma hex_bytes_loop_shape:
  "\<exists>more. fst (hex_bytes_loop is v out state) = out @ more \<and> length more = 2 * length is \<and> list_all hex_char more"
proof (induction "is" arbitrary: v out state)
  case Nil
  show ?case by simp
next
  case (Cons i js)
  obtain v' s' where st: "(if i mod 8 = 0 then SplitMix64_next state else (v, state)) = (v', s')" by fastforce
  define byte where "byte = (ucast (drop_bit ((i mod 8) * 8) v') :: u8)"
  define pair where "pair = [''0123456789abcdef'' ! unat (drop_bit 4 byte), ''0123456789abcdef'' ! unat (byte AND 0xf)]"
  have hex: "list_all hex_char pair"
    using digit_char_mem [OF byte_nibbles(1) [of byte]] digit_char_mem [OF byte_nibbles(2) [of byte]]
    by (simp add: pair_def hex_char_def nibble_bits digit_char_def)
  from Cons.IH [of v' "out @ pair" s'] obtain more where
    "fst (hex_bytes_loop js v' (out @ pair) s') = out @ pair @ more" "length more = 2 * length js" "list_all hex_char more"
    by auto
  moreover have "fst (hex_bytes_loop (i # js) v out state) = fst (hex_bytes_loop js v' (out @ pair) s')"
    using st by (simp add: byte_def pair_def Let_def)
  ultimately have "fst (hex_bytes_loop (i # js) v out state) = out @ (pair @ more) \<and>
      length (pair @ more) = 2 * length (i # js) \<and> list_all hex_char (pair @ more)"
    using hex by (simp add: pair_def)
  then show ?case by blast
qed

lemma hex_bytes_shape:
  "length (fst (hex_bytes len state)) = 2 * len" "list_all hex_char (fst (hex_bytes len state))"
  using hex_bytes_loop_shape [of "[0..<len]" 0 "[]" state] by (auto simp: hex_bytes_def)

definition request_ok :: "nat \<Rightarrow> PlannedRequest \<Rightarrow> bool" where
  "request_ok payload_bytes r \<longleftrightarrow> length (pr_request_id r) = 29 \<and> list_all id_char (pr_request_id r)
     \<and> length (pr_payload r) = 2 * payload_bytes \<and> list_all hex_char (pr_payload r)"

definition id_index :: "string \<Rightarrow> nat" where
  "id_index s = foldl (\<lambda>acc c. 10 * acc + digit_value c) 0 (take 4 (drop 8 s))"

lemma fold_zero_pad:
  "foldl (\<lambda>acc c. 10 * acc + digit_value c) 0 (zero_pad k (dec n)) = n"
proof -
  have zeros: "foldl (\<lambda>acc c. 10 * acc + digit_value c) 0 (replicate j CHR ''0'') = 0" for j
    by (induction j) (simp_all add: digit_value_def)
  have "foldl (\<lambda>acc c. 10 * acc + digit_value c) 0 (dec n) = n"
    unfolding dec_def by (subst fold_digits) (auto simp: undigits_digits dest: digits_less [rotated])
  with zeros show ?thesis by (simp add: zero_pad_def)
qed

lemma planned_request_shape:
  assumes "i < 10 ^ 4" and "planned_request k i state = (r, state')"
  shows "request_ok k r \<and> id_index (pr_request_id r) = i"
proof -
  obtain nonce s1 where n: "SplitMix64_next state = (nonce, s1)" by fastforce
  obtain payload s2 where p: "hex_bytes k s1 = (payload, s2)" by fastforce
  have r: "r = \<lparr>pr_request_id = ''request-'' @ zero_pad 4 (dec i) @ ''-'' @ zero_pad 16 (lower_hex (unat nonce)),
      pr_payload = payload\<rparr>"
    using assms(2) by (simp add: planned_request_def n p)
  have li: "length (zero_pad 4 (dec i)) = 4" using length_dec [OF assms(1)] by simp
  have "unat nonce < 16 ^ 16" using unsigned_less [of nonce] by simp
  then have ln: "length (zero_pad 16 (lower_hex (unat nonce))) = 16"
    using length_lower_hex [of "unat nonce" 16] by simp
  have "set (dec i) \<subseteq> set ''0123456789abcdef''"
    using set_dec [of i] by (rule order_trans) auto
  then have "list_all hex_char (zero_pad 4 (dec i))"
    using set_zero_pad [of 4 "dec i"] unfolding list_all_iff hex_char_def by fastforce
  moreover have "list_all hex_char (zero_pad 16 (lower_hex (unat nonce)))"
    using set_zero_pad [of 16 "lower_hex (unat nonce)"] set_lower_hex [of "unat nonce"]
    unfolding list_all_iff hex_char_def by fastforce
  moreover have hexid: "list_all id_char s" if "list_all hex_char s" for s
    using that by (auto simp: list_all_iff id_char_def)
  moreover have "list_all id_char ''request-''" "list_all id_char ''-''"
    by (simp_all add: id_char_def)
  ultimately have ids: "list_all id_char (pr_request_id r)" unfolding r by simp
  have idx: "id_index (pr_request_id r) = i"
    using fold_zero_pad [of 4 i] li by (simp add: r id_index_def)
  show ?thesis
    using ids idx li ln hex_bytes_shape [of k s1] by (simp add: r request_ok_def p)
qed

lemma planned_requests_shape:
  assumes "\<forall>i\<in>set is. i < 10 ^ 4"
  shows "list_all (request_ok k) (planned_requests k is state) \<and>
    map (\<lambda>r. id_index (pr_request_id r)) (planned_requests k is state) = is"
  using assms
proof (induction k "is" state rule: planned_requests.induct)
  case (1 k state)
  show ?case by simp
next
  case (2 k i js state)
  obtain r s' where r: "planned_request k i state = (r, s')" by fastforce
  with 2 planned_request_shape [of i k state r s'] show ?case by simp
qed

lemma planned_requests_distinct:
  assumes "\<forall>i\<in>set is. i < 10 ^ 4" and "distinct is"
  shows "distinct (map pr_request_id (planned_requests k is state))"
proof -
  have "map id_index (map pr_request_id (planned_requests k is state)) = is"
    using planned_requests_shape [OF assms(1), of k state] by (simp add: comp_def)
  then show ?thesis using assms(2) by (metis distinct_map)
qed

definition plan_ok :: "Scenario \<Rightarrow> PlannedRequest list \<Rightarrow> bool" where
  "plan_ok s requests \<longleftrightarrow> length requests = sc_request_count s
     \<and> distinct (map pr_request_id requests) \<and> list_all (request_ok (sc_payload_bytes s)) requests"

lemma planned_requests_plan_ok:
  assumes "sc_request_count s \<le> MAX_REQUEST_COUNT"
  shows "plan_ok s (planned_requests (sc_payload_bytes s) [0..<sc_request_count s] state)"
proof -
  have small: "\<forall>i\<in>set [0..<sc_request_count s]. i < 10 ^ 4"
    using assms by (auto simp: MAX_REQUEST_COUNT_def)
  have "length (planned_requests (sc_payload_bytes s) [0..<sc_request_count s] state) = sc_request_count s"
    using planned_requests_shape [OF small, of "sc_payload_bytes s" state] by (metis length_map length_upt diff_zero)
  then show ?thesis
    using planned_requests_shape [OF small, of "sc_payload_bytes s" state]
      planned_requests_distinct [OF small, of "sc_payload_bytes s" state] by (simp add: plan_ok_def)
qed

lemma validate_bounds:
  "Scenario_validate s = Inr () \<Longrightarrow> 3 \<le> sc_request_count s \<and> sc_request_count s \<le> MAX_REQUEST_COUNT
     \<and> 0 < sc_payload_bytes s \<and> sc_payload_bytes s \<le> MAX_REQUEST_DATA_LENGTH div 4"
  "WorkloadScenario_validate s = Inr () \<Longrightarrow> 4 \<le> sc_request_count s \<and> sc_request_count s \<le> MAX_REQUEST_COUNT
     \<and> 0 < sc_payload_bytes s \<and> sc_payload_bytes s \<le> MAX_WORKLOAD_PAYLOAD_BYTES"
  by (simp_all add: Scenario_validate_def WorkloadScenario_validate_def MIN_WORKLOAD_REQUEST_COUNT_def not_less)

section \<open>Properties\<close>

text \<open>
  The plan of a validated network scenario: the outage is activated before some request
  that is not the first, the network is restored later and before some request, so there are
  requests before, inside and after the outage; there are as many requests as asked for, with
  distinct identifiers and payloads of the asked size in lowercase hexadecimal.
\<close>

theorem scenario_choices_well_formed:
  assumes "Scenario_validate s = Inr ()"
  shows "1 \<le> cp_outage_activation_request_index (Scenario_choices s seed)
    \<and> cp_outage_activation_request_index (Scenario_choices s seed) < cp_restoration_request_index (Scenario_choices s seed)
    \<and> cp_restoration_request_index (Scenario_choices s seed) < sc_request_count s
    \<and> plan_ok s (cp_requests (Scenario_choices s seed))"
proof -
  obtain a r st where t: "transition_indices (sc_request_count s) seed = (a, r, st)" by (metis prod.exhaust)
  note b = validate_bounds(1) [OF assms]
  from b t have "1 \<le> a \<and> a < r \<and> r < sc_request_count s" by (intro transition_indices_ordered) auto
  with b show ?thesis by (simp add: Scenario_choices_def t planned_requests_plan_ok)
qed

text \<open>
  C35. The plan of a validated workload scenario: beside the ordered outage transitions, the
  process fault falls on a request index that is neither the first request nor one of the two
  transitions; the choice is always defined because there is a candidate.
\<close>

theorem workload_choices_well_formed:
  assumes "WorkloadScenario_validate s = Inr ()"
  shows "1 \<le> wp_outage_activation_request_index (WorkloadScenario_choices s seed)
    \<and> wp_outage_activation_request_index (WorkloadScenario_choices s seed) < wp_restoration_request_index (WorkloadScenario_choices s seed)
    \<and> wp_restoration_request_index (WorkloadScenario_choices s seed) < sc_request_count s
    \<and> wp_process_fault_request_index (WorkloadScenario_choices s seed)
        \<in> {1..<sc_request_count s} - {wp_outage_activation_request_index (WorkloadScenario_choices s seed),
             wp_restoration_request_index (WorkloadScenario_choices s seed)}
    \<and> plan_ok s (wp_requests (WorkloadScenario_choices s seed))"
proof -
  obtain a r st where t: "transition_indices (sc_request_count s) seed = (a, r, st)" by (metis prod.exhaust)
  obtain c st' where c: "SplitMix64_next st = (c, st')" by fastforce
  note b = validate_bounds(2) [OF assms]
  from b t have o: "1 \<le> a" "a < r" "r < sc_request_count s"
    using transition_indices_ordered [OF _ t] by auto
  from fault_candidate_in [OF o] b have
    "fault_candidates (sc_request_count s) a r ! (unat c mod length (fault_candidates (sc_request_count s) a r))
      \<in> {1..<sc_request_count s} - {a, r}" by blast
  with b o show ?thesis by (simp add: WorkloadScenario_choices_def t c Let_def planned_requests_plan_ok)
qed

section \<open>Witnesses\<close>

definition sample_scenario :: Scenario where
  "sample_scenario = \<lparr>sc_version = 1, sc_name = ''network-outage'', sc_request_count = 6,
     sc_payload_bytes = 8, sc_fixture_peer = ''10.0.2.2'', sc_outage_event_bound = 2,
     sc_liveness_event_bound = 4, sc_corrupt_responses = False\<rparr>"

lemma sample_scenario_valid:
  "Scenario_validate sample_scenario = Inr ()" "WorkloadScenario_validate sample_scenario = Inr ()"
proof -
  have ip: "parse_ipv4 ''10.0.2.2'' = Some [10, 0, 2, 2]"
    by (simp add: parse_ipv4_def parse_octet_def is_digit_def digit_value_def Let_def)
  have tail: "validate_tail sample_scenario = Inr ()"
    by (simp add: validate_tail_def sample_scenario_def ip checked_mul_def u64_max_eq MAX_TOTAL_PAYLOAD_BYTES_def)
  show "Scenario_validate sample_scenario = Inr ()" "WorkloadScenario_validate sample_scenario = Inr ()"
    using tail by (simp_all add: Scenario_validate_def WorkloadScenario_validate_def sample_scenario_def
        SCENARIO_VERSION_def WORKLOAD_SCENARIO_VERSION_def MAX_SCENARIO_NAME_BYTES_def MAX_REQUEST_COUNT_def
        MAX_REQUEST_DATA_LENGTH_def MIN_WORKLOAD_REQUEST_COUNT_def MAX_WORKLOAD_PAYLOAD_BYTES_def)
qed

theorem scenario_choices_well_formed_witness:
  "Scenario_validate sample_scenario = Inr () \<and> plan_ok sample_scenario (cp_requests (Scenario_choices sample_scenario 7))"
  using scenario_choices_well_formed [OF sample_scenario_valid(1), of 7] sample_scenario_valid by blast

theorem workload_choices_well_formed_witness:
  "WorkloadScenario_validate sample_scenario = Inr () \<and>
   1 \<le> wp_outage_activation_request_index (WorkloadScenario_choices sample_scenario 7)"
  using workload_choices_well_formed [OF sample_scenario_valid(2), of 7] sample_scenario_valid by blast

end
