(* ===== verification/Assertions.thy ===== *)
theory Assertions
  imports Protocol
begin

text \<open>
  The network assertions of \<open>assertions.rs\<close>: the report computed from the recorded events. The
  lemmas turn the searches into statements about the history (a passing report means that a
  configured network was cut off, requests were refused inside the bound, the network was
  restored and requests succeeded again inside the bound) and show that events of other
  components never influence the report.
\<close>

section \<open>Operations\<close>

definition assertion_result :: "AssertionName \<Rightarrow> bool \<Rightarrow> string \<Rightarrow> AssertionResult" where
  "assertion_result name passed detail = \<lparr>ar_name = name, ar_passed = passed, ar_detail = detail\<rparr>"

definition is_attempt_for ::
    "EventFrame \<Rightarrow> string \<Rightarrow> string \<Rightarrow> RequestPhase \<Rightarrow> EventFrame \<Rightarrow> bool" where
  "is_attempt_for outcome request_id request_payload phase attempt =
     (case ef_event attempt of
        RequestAttempted attempted_id payload attempted_phase \<Rightarrow>
          attempted_id = request_id \<and> payload = request_payload \<and> attempted_phase = phase
          \<and> ef_command_id attempt = ef_command_id outcome \<and> ef_event_id attempt < ef_event_id outcome
      | _ \<Rightarrow> False)"

definition matching_success_attempt :: "EventFrame list \<Rightarrow> EventFrame \<Rightarrow> EventFrame option" where
  "matching_success_attempt events outcome =
     (case ef_event outcome of
        RequestSucceeded request_id request_payload response_id response_payload phase \<Rightarrow>
          if request_id \<noteq> response_id \<or> request_payload \<noteq> response_payload then None
          else find (is_attempt_for outcome request_id request_payload phase) events
      | _ \<Rightarrow> None)"

definition configured_at :: "EventFrame \<Rightarrow> (nat \<times> string) option" where
  "configured_at frame =
     (case ef_event frame of
        NetworkConfigured _ _ gateway \<Rightarrow> Some (ef_event_id frame, gateway @ ''/32'')
      | _ \<Rightarrow> None)"

definition activated_at :: "nat \<Rightarrow> string \<Rightarrow> EventFrame \<Rightarrow> (nat \<times> string) option" where
  "activated_at configured_id expected_peer frame =
     (case ef_event frame of
        OutageActivated peer_cidr rule \<Rightarrow>
          if ef_event_id frame > configured_id \<and> peer_cidr = expected_peer
             \<and> rule = ''prohibit '' @ expected_peer
          then Some (ef_event_id frame, peer_cidr) else None
      | _ \<Rightarrow> None)"

definition restored_at :: "nat \<Rightarrow> string \<Rightarrow> EventFrame \<Rightarrow> nat option" where
  "restored_at activation_id activated_peer frame =
     (case ef_event frame of
        NetworkRestored peer_cidr \<Rightarrow>
          if ef_event_id frame > activation_id \<and> peer_cidr = activated_peer
          then Some (ef_event_id frame) else None
      | _ \<Rightarrow> None)"

definition mismatch_at :: "EventFrame list \<Rightarrow> EventFrame \<Rightarrow> string option" where
  "mismatch_at events frame =
     (case ef_event frame of
        RequestSucceeded _ _ _ _ _ \<Rightarrow>
          if matching_success_attempt events frame = None
          then Some (''response event '' @ dec (ef_event_id frame) @ '' does not match its request attempt'')
          else None
      | RequestUnavailable _ _ InvalidResponse _ \<Rightarrow>
          Some (''request event '' @ dec (ef_event_id frame) @ '' received a non-canonical response'')
      | _ \<Rightarrow> None)"

definition is_pre_outage :: "EventFrame list \<Rightarrow> nat \<Rightarrow> EventFrame \<Rightarrow> bool" where
  "is_pre_outage events activation_id outcome =
     ((case ef_event outcome of RequestSucceeded _ _ _ _ PreOutage \<Rightarrow> True | _ \<Rightarrow> False)
      \<and> ef_event_id outcome < activation_id
      \<and> (case matching_success_attempt events outcome of
           Some attempt \<Rightarrow> ef_event_id attempt < activation_id | None \<Rightarrow> False))"

definition prohibited_at :: "nat \<Rightarrow> nat \<Rightarrow> string \<Rightarrow> EventFrame \<Rightarrow> EventFrame \<Rightarrow> (nat \<times> nat) option" where
  "prohibited_at restoration_id outage_event_bound request_id attempt outcome =
     (case ef_event outcome of
        RequestUnavailable outcome_id Outage AdministrativeProhibited (Some errno) \<Rightarrow>
          if errno = EACCES \<and> outcome_id = request_id
             \<and> ef_command_id outcome = ef_command_id attempt
             \<and> ef_event_id outcome > ef_event_id attempt
             \<and> ef_event_id outcome < restoration_id
             \<and> ef_event_id outcome - ef_event_id attempt \<le> outage_event_bound
          then Some (ef_event_id attempt, ef_event_id outcome - ef_event_id attempt) else None
      | _ \<Rightarrow> None)"

definition outage_at :: "EventFrame list \<Rightarrow> nat \<Rightarrow> nat \<Rightarrow> nat \<Rightarrow> EventFrame \<Rightarrow> (nat \<times> nat) option" where
  "outage_at events activation_id restoration_id outage_event_bound attempt =
     (case ef_event attempt of
        RequestAttempted request_id _ Outage \<Rightarrow>
          if ef_event_id attempt > activation_id \<and> ef_event_id attempt < restoration_id
          then find_map (prohibited_at restoration_id outage_event_bound request_id attempt) events
          else None
      | _ \<Rightarrow> None)"

definition recovered_at :: "EventFrame list \<Rightarrow> nat \<Rightarrow> nat \<Rightarrow> EventFrame \<Rightarrow> (nat \<times> nat) option" where
  "recovered_at events restoration_id recovery_event_bound outcome =
     (case ef_event outcome of
        RequestSucceeded _ _ _ _ Recovery \<Rightarrow>
          if ef_event_id outcome > restoration_id
             \<and> ef_event_id outcome - restoration_id \<le> recovery_event_bound
          then (case matching_success_attempt events outcome of
                  Some attempt \<Rightarrow>
                    if ef_event_id attempt > restoration_id
                    then Some (ef_event_id outcome, ef_event_id outcome - restoration_id) else None
                | None \<Rightarrow> None)
          else None
      | _ \<Rightarrow> None)"

definition find_configured :: "EventFrame list \<Rightarrow> (nat \<times> string) option" where
  "find_configured events = find_map configured_at events"

definition find_activation :: "EventFrame list \<Rightarrow> (nat \<times> string) option" where
  "find_activation events =
     Option.bind (find_configured events) (\<lambda>(configured_id, expected_peer).
       find_map (activated_at configured_id expected_peer) events)"

definition find_restoration :: "EventFrame list \<Rightarrow> nat option" where
  "find_restoration events =
     Option.bind (find_activation events) (\<lambda>(activation_id, activated_peer).
       find_map (restored_at activation_id activated_peer) events)"

definition safety_result :: "EventFrame list \<Rightarrow> AssertionResult" where
  "safety_result events =
     (case find_map (mismatch_at events) events of
        Some detail \<Rightarrow> assertion_result Safety False detail
      | None \<Rightarrow>
          (case Option.bind (map_option fst (find_activation events))
                  (\<lambda>activation_id. find (is_pre_outage events activation_id) events) of
             Some frame \<Rightarrow> assertion_result Safety True
               (''matching pre-outage response observed at event '' @ dec (ef_event_id frame))
           | None \<Rightarrow> assertion_result Safety False
               ''no matching pre-outage response traversed the network''))"

definition controlled_outage_result :: "EventFrame list \<Rightarrow> nat \<Rightarrow> AssertionResult" where
  "controlled_outage_result events outage_event_bound =
     (case Option.bind (map_option fst (find_activation events)) (\<lambda>activation_id.
             Option.bind (find_restoration events) (\<lambda>restoration_id.
               find_map (outage_at events activation_id restoration_id outage_event_bound) events)) of
        Some (attempt_id, distance) \<Rightarrow> assertion_result ControlledOutage True
          (''request event '' @ dec attempt_id @ '' was administratively prohibited after ''
           @ dec distance @ '' event(s)'')
      | None \<Rightarrow> assertion_result ControlledOutage False
          (''no post-activation request reported EACCES within '' @ dec outage_event_bound @ '' event(s)''))"

definition restoration_result :: "EventFrame list \<Rightarrow> AssertionResult" where
  "restoration_result events =
     (case find_restoration events of
        Some event_id \<Rightarrow> assertion_result Restoration True
          (''network restoration was confirmed at event '' @ dec event_id)
      | None \<Rightarrow> assertion_result Restoration False
          ''network restoration was not confirmed after outage activation'')"

definition bounded_recovery_result :: "EventFrame list \<Rightarrow> nat \<Rightarrow> AssertionResult" where
  "bounded_recovery_result events recovery_event_bound =
     (case Option.bind (find_restoration events) (\<lambda>restoration_id.
             find_map (recovered_at events restoration_id recovery_event_bound) events) of
        Some (event_id, distance) \<Rightarrow> assertion_result BoundedRecovery True
          (''matching recovery response event '' @ dec event_id @ '' arrived after ''
           @ dec distance @ '' event(s)'')
      | None \<Rightarrow> assertion_result BoundedRecovery False
          (''no matching post-restoration response arrived within '' @ dec recovery_event_bound @ '' event(s)''))"

definition evaluate :: "EventFrame list \<Rightarrow> nat \<Rightarrow> nat \<Rightarrow> AssertionReport" where
  "evaluate events outage_event_bound recovery_event_bound =
     (let assertions = [safety_result events, controlled_outage_result events outage_event_bound,
            restoration_result events, bounded_recovery_result events recovery_event_bound]
      in \<lparr>rp_passed = list_all ar_passed assertions, rp_assertions = assertions\<rparr>)"

definition is_assertion_event :: "Event \<Rightarrow> bool" where
  "is_assertion_event event =
     (case event of
        NetworkConfigured _ _ _ \<Rightarrow> True
      | OutageActivated _ _ \<Rightarrow> True
      | NetworkRestored _ \<Rightarrow> True
      | RequestAttempted _ _ _ \<Rightarrow> True
      | RequestSucceeded _ _ _ _ _ \<Rightarrow> True
      | RequestUnavailable _ _ _ _ \<Rightarrow> True
      | AssertionsEvaluated _ \<Rightarrow> True
      | _ \<Rightarrow> False)"

section \<open>Only network events matter\<close>

text \<open>The events that the evaluation reads.\<close>

definition is_network_event :: "Event \<Rightarrow> bool" where
  "is_network_event event \<longleftrightarrow> is_assertion_event event \<and> (case event of AssertionsEvaluated _ \<Rightarrow> False | _ \<Rightarrow> True)"

abbreviation network_history :: "EventFrame list \<Rightarrow> EventFrame list" where
  "network_history events \<equiv> filter (\<lambda>frame. is_network_event (ef_event frame)) events"

lemma matching_history: "matching_success_attempt (network_history events) outcome = matching_success_attempt events outcome"
proof -
  have "find (is_attempt_for outcome a b c) (network_history events) = find (is_attempt_for outcome a b c) events" for a b c
    by (rule find_filter) (auto simp: is_attempt_for_def is_network_event_def is_assertion_event_def split: Event.splits)
  then show ?thesis by (simp add: matching_success_attempt_def split: Event.splits)
qed

lemma history_configured: "find_configured (network_history events) = find_configured events"
  unfolding find_configured_def
  by (rule find_map_filter) (auto simp: configured_at_def is_network_event_def is_assertion_event_def split: Event.splits)

lemma history_activated: "find_map (activated_at i p) (network_history events) = find_map (activated_at i p) events"
  by (rule find_map_filter) (auto simp: activated_at_def is_network_event_def is_assertion_event_def split: Event.splits)

lemma history_restored: "find_map (restored_at i p) (network_history events) = find_map (restored_at i p) events"
  by (rule find_map_filter) (auto simp: restored_at_def is_network_event_def is_assertion_event_def split: Event.splits)

lemma history_mismatch: "find_map (mismatch_at es) (network_history events) = find_map (mismatch_at es) events"
  by (rule find_map_filter) (auto simp: mismatch_at_def is_network_event_def is_assertion_event_def split: Event.splits)

lemma history_pre_outage: "find (is_pre_outage es i) (network_history events) = find (is_pre_outage es i) events"
  by (rule find_filter) (auto simp: is_pre_outage_def is_network_event_def is_assertion_event_def split: Event.splits)

lemma history_prohibited: "find_map (prohibited_at r b q a) (network_history events) = find_map (prohibited_at r b q a) events"
  by (rule find_map_filter) (auto simp: prohibited_at_def is_network_event_def is_assertion_event_def split: Event.splits)

lemma history_outage: "find_map (outage_at es a r b) (network_history events) = find_map (outage_at es a r b) events"
  by (rule find_map_filter) (auto simp: outage_at_def is_network_event_def is_assertion_event_def split: Event.splits)

lemma history_recovered: "find_map (recovered_at es r b) (network_history events) = find_map (recovered_at es r b) events"
  by (rule find_map_filter) (auto simp: recovered_at_def is_network_event_def is_assertion_event_def split: Event.splits)

lemmas history_finds = history_configured history_activated history_restored history_mismatch
  history_pre_outage history_prohibited history_outage history_recovered

lemma history_activation: "find_activation (network_history events) = find_activation events"
  by (simp add: find_activation_def history_finds)

lemma history_restoration: "find_restoration (network_history events) = find_restoration events"
  by (simp add: find_restoration_def history_activation history_finds)

lemma history_bodies:
  "mismatch_at (network_history events) = mismatch_at events"
  "is_pre_outage (network_history events) = is_pre_outage events"
  "outage_at (network_history events) = outage_at events"
  "recovered_at (network_history events) = recovered_at events"
proof -
  show "mismatch_at (network_history events) = mismatch_at events"
    by (rule ext) (simp only: mismatch_at_def matching_history)
  show "is_pre_outage (network_history events) = is_pre_outage events"
    by (intro ext) (simp only: is_pre_outage_def matching_history)
  show "outage_at (network_history events) = outage_at events"
    by (intro ext) (simp only: outage_at_def history_finds)
  show "recovered_at (network_history events) = recovered_at events"
    by (intro ext) (simp only: recovered_at_def matching_history)
qed

lemma evaluate_network_history: "evaluate (network_history events) ob rb = evaluate events ob rb"
  by (simp only: evaluate_def safety_result_def controlled_outage_result_def restoration_result_def
      bounded_recovery_result_def history_bodies history_finds history_activation history_restoration)

lemma evaluate_relevant:
  assumes "\<And>f. f \<in> set es \<Longrightarrow> is_network_event (ef_event f) \<Longrightarrow> P f"
  shows "evaluate (filter P es) ob rb = evaluate es ob rb"
proof -
  have "network_history (filter P es) = network_history es"
    using assms by (auto simp: filter_filter intro: filter_cong)
  then show ?thesis by (metis evaluate_network_history)
qed

lemma evaluate_append_silent:
  assumes "\<And>f. f \<in> set fs \<Longrightarrow> \<not> is_network_event (ef_event f)"
  shows "evaluate (es @ fs) ob rb = evaluate es ob rb"
proof -
  have "network_history (es @ fs) = network_history es" using assms by simp
  then show ?thesis by (metis evaluate_network_history)
qed

section \<open>Diagnostics do not matter\<close>

abbreviation bare :: "EventFrame \<Rightarrow> EventFrame" where
  "bare frame \<equiv> frame\<lparr>ef_diagnostics := no_diagnostics\<rparr>"

lemma find_map_map: "find_map f (map g xs) = find_map (\<lambda>x. f (g x)) xs"
  by (induction xs) (simp_all split: option.splits)

lemma find_map_list: "find p (map g xs) = map_option g (find (\<lambda>x. p (g x)) xs)"
  by (induction xs) simp_all

lemma bare_fields: "ef_event (bare f) = ef_event f" "ef_event_id (bare f) = ef_event_id f" "ef_command_id (bare f) = ef_command_id f"
  by simp_all

lemma points_bare:
  "is_attempt_for (bare outcome) a b c (bare f) = is_attempt_for outcome a b c f"
  "configured_at (bare f) = configured_at f" "activated_at i p (bare f) = activated_at i p f"
  "restored_at i p (bare f) = restored_at i p f" "prohibited_at r l q (bare f) (bare g) = prohibited_at r l q f g"
  unfolding is_attempt_for_def configured_at_def activated_at_def restored_at_def prohibited_at_def bare_fields by (rule refl)+

lemma matching_bare:
  "matching_success_attempt (map bare events) (bare outcome) = map_option bare (matching_success_attempt events outcome)"
  by (simp add: matching_success_attempt_def points_bare find_map_list split: Event.splits)

lemma bodies_bare:
  "mismatch_at (map bare events) (bare f) = mismatch_at events f"
  "is_pre_outage (map bare events) a (bare f) = is_pre_outage events a f"
  "outage_at (map bare events) a r b (bare f) = outage_at events a r b f"
  "recovered_at (map bare events) r b (bare f) = recovered_at events r b f"
  unfolding mismatch_at_def is_pre_outage_def outage_at_def recovered_at_def matching_bare bare_fields find_map_map points_bare
  by (simp_all add: option.case_eq_if option.map_sel cong: Event.case_cong RequestPhase.case_cong if_cong)

lemma finds_bare:
  "find_configured (map bare events) = find_configured events"
  "find_activation (map bare events) = find_activation events"
  "find_restoration (map bare events) = find_restoration events"
  by (simp_all add: find_restoration_def find_activation_def find_configured_def find_map_map points_bare)

lemma evaluate_bare: "evaluate (map bare events) ob rb = evaluate events ob rb"
proof -
  have "Option.bind x (\<lambda>a. find (is_pre_outage (map bare events) a) (map bare events))
      = map_option bare (Option.bind x (\<lambda>a. find (is_pre_outage events a) events))" for x
    by (cases x) (simp_all add: find_map_list bodies_bare)
  then have "safety_result (map bare events) = safety_result events"
    unfolding safety_result_def find_map_map finds_bare bodies_bare
    by (auto simp only: bare_fields option.case option.map split: option.split)
  then show ?thesis
    by (simp add: evaluate_def controlled_outage_result_def restoration_result_def bounded_recovery_result_def
        find_map_map bodies_bare finds_bare)
qed

text \<open>The frames that a replay rebuilds from recorded events.\<close>

definition recorded_frame :: "NormalizedEvent \<Rightarrow> EventFrame" where
  "recorded_frame event =
     \<lparr>ef_protocol_version = ne_protocol_version event, ef_event_id = ne_event_id event,
      ef_command_id = ne_command_id event, ef_event = ne_event event, ef_diagnostics = no_diagnostics\<rparr>"

lemma recorded_frame_normalize: "recorded_frame (EventFrame_normalize frame) = bare frame"
  by (cases frame) (simp add: recorded_frame_def EventFrame_normalize_def)

lemma normalize_recorded_frame [simp]: "EventFrame_normalize (recorded_frame event) = event"
  by (simp add: recorded_frame_def EventFrame_normalize_def)

lemma evaluate_recorded:
  "evaluate (map recorded_frame (map EventFrame_normalize events)) ob rb = evaluate events ob rb"
  using evaluate_bare [of events ob rb] by (simp add: recorded_frame_normalize comp_def)

section \<open>What a passing report means\<close>

text \<open>\<open>answered es phase a r\<close>: the attempt \<open>a\<close> of the phase got the matching response \<open>r\<close>, later
  and for the same command.\<close>

definition answered :: "EventFrame list \<Rightarrow> RequestPhase \<Rightarrow> EventFrame \<Rightarrow> EventFrame \<Rightarrow> bool" where
  "answered es phase a r \<longleftrightarrow> a \<in> set es \<and> r \<in> set es
     \<and> (\<exists>i p. ef_event a = RequestAttempted i p phase \<and> ef_event r = RequestSucceeded i p i p phase)
     \<and> ef_command_id a = ef_command_id r \<and> ef_event_id a < ef_event_id r"

definition refused :: "EventFrame list \<Rightarrow> EventFrame \<Rightarrow> EventFrame \<Rightarrow> bool" where
  "refused es a r \<longleftrightarrow> a \<in> set es \<and> r \<in> set es
     \<and> (\<exists>i p. ef_event a = RequestAttempted i p Outage
          \<and> ef_event r = RequestUnavailable i Outage AdministrativeProhibited (Some EACCES))
     \<and> ef_command_id a = ef_command_id r \<and> ef_event_id a < ef_event_id r"

definition outage_window :: "EventFrame list \<Rightarrow> nat \<Rightarrow> nat \<Rightarrow> bool" where
  "outage_window es activation restoration \<longleftrightarrow>
     (\<exists>conf\<in>set es. \<exists>act\<in>set es. \<exists>rst\<in>set es. \<exists>i g gateway.
        ef_event conf = NetworkConfigured i g gateway
        \<and> ef_event act = OutageActivated (gateway @ ''/32'') (''prohibit '' @ gateway @ ''/32'')
        \<and> ef_event rst = NetworkRestored (gateway @ ''/32'')
        \<and> ef_event_id conf < ef_event_id act
        \<and> ef_event_id act = activation \<and> ef_event_id rst = restoration
        \<and> activation < restoration)"

definition every_response_answers :: "EventFrame list \<Rightarrow> bool" where
  "every_response_answers es \<longleftrightarrow>
     (\<forall>r\<in>set es.
        (\<forall>i p j q phase. ef_event r = RequestSucceeded i p j q phase \<longrightarrow> (\<exists>a. answered es phase a r))
        \<and> (\<forall>i phase errno. ef_event r \<noteq> RequestUnavailable i phase InvalidResponse errno))"

definition network_contract :: "EventFrame list \<Rightarrow> nat \<Rightarrow> nat \<Rightarrow> bool" where
  "network_contract es outage_bound recovery_bound \<longleftrightarrow>
     every_response_answers es \<and>
     (\<exists>activation restoration. outage_window es activation restoration
        \<and> (\<exists>a r. answered es PreOutage a r \<and> ef_event_id r < activation)
        \<and> (\<exists>a r. refused es a r \<and> activation < ef_event_id a \<and> ef_event_id r < restoration
             \<and> ef_event_id r - ef_event_id a \<le> outage_bound)
        \<and> (\<exists>a r. answered es Recovery a r \<and> restoration < ef_event_id a
             \<and> ef_event_id r - restoration \<le> recovery_bound))"

lemma find_SomeD: "find P xs = Some x \<Longrightarrow> x \<in> set xs \<and> P x"
  by (auto simp: find_Some_iff)

lemma is_attempt_for_iff:
  "is_attempt_for r i p phase a \<longleftrightarrow> ef_event a = RequestAttempted i p phase
     \<and> ef_command_id a = ef_command_id r \<and> ef_event_id a < ef_event_id r"
  by (cases "ef_event a") (auto simp: is_attempt_for_def)

lemma matching_answered:
  assumes "matching_success_attempt es r = Some a" and "r \<in> set es"
  shows "\<exists>i p phase. ef_event r = RequestSucceeded i p i p phase \<and> answered es phase a r"
  using assms
  by (cases "ef_event r")
    (auto simp: matching_success_attempt_def answered_def is_attempt_for_iff split: if_splits dest!: find_SomeD)

lemma no_mismatch_answers:
  assumes "find_map (mismatch_at es) es = None"
  shows "every_response_answers es"
  unfolding every_response_answers_def
proof (intro ballI conjI allI impI)
  fix r i p j q phase
  assume r: "r \<in> set es" and ev: "ef_event r = RequestSucceeded i p j q phase"
  from assms r have "mismatch_at es r = None" by simp
  with ev obtain a where "matching_success_attempt es r = Some a"
    by (auto simp: mismatch_at_def split: if_splits)
  from matching_answered [OF this r] ev show "\<exists>a. answered es phase a r" by auto
next
  fix r i phase errno
  assume "r \<in> set es"
  with assms have "mismatch_at es r = None" by simp
  then show "ef_event r \<noteq> RequestUnavailable i phase InvalidResponse errno"
    by (auto simp: mismatch_at_def)
qed

lemma configured_at_Some:
  "configured_at f = Some (c, e) \<longleftrightarrow>
     (\<exists>i g gateway. ef_event f = NetworkConfigured i g gateway \<and> c = ef_event_id f \<and> e = gateway @ ''/32'')"
  by (cases "ef_event f") (auto simp: configured_at_def)

lemma activated_at_Some:
  "activated_at c e f = Some (a, q) \<longleftrightarrow>
     ef_event f = OutageActivated e (''prohibit '' @ e) \<and> c < ef_event_id f \<and> a = ef_event_id f \<and> q = e"
  by (cases "ef_event f") (auto simp: activated_at_def)

lemma restored_at_Some:
  "restored_at a q f = Some r \<longleftrightarrow> ef_event f = NetworkRestored q \<and> a < ef_event_id f \<and> r = ef_event_id f"
  by (cases "ef_event f") (auto simp: restored_at_def)

lemma restoration_window:
  assumes "find_restoration es = Some restoration"
  shows "\<exists>activation peer. find_activation es = Some (activation, peer) \<and> outage_window es activation restoration"
proof -
  from assms obtain activation peer where act: "find_activation es = Some (activation, peer)"
    and rst: "find_map (restored_at activation peer) es = Some restoration"
    by (auto simp: find_restoration_def bind_eq_Some_conv)
  from act obtain cid exp where conf: "find_configured es = Some (cid, exp)"
    and ac: "find_map (activated_at cid exp) es = Some (activation, peer)"
    by (auto simp: find_activation_def bind_eq_Some_conv)
  from find_map_SomeD [OF conf [unfolded find_configured_def]] obtain c i g gateway where
    c: "c \<in> set es" "ef_event c = NetworkConfigured i g gateway" "cid = ef_event_id c" "exp = gateway @ ''/32''"
    by (auto simp: configured_at_Some)
  from find_map_SomeD [OF ac] obtain a where
    a: "a \<in> set es" "ef_event a = OutageActivated exp (''prohibit '' @ exp)" "cid < ef_event_id a"
      "activation = ef_event_id a" "peer = exp"
    by (auto simp: activated_at_Some)
  from find_map_SomeD [OF rst] obtain r where
    r: "r \<in> set es" "ef_event r = NetworkRestored peer" "activation < ef_event_id r" "restoration = ef_event_id r"
    by (auto simp: restored_at_Some)
  from a(2) a(5) c(4) have "ef_event a = OutageActivated (gateway @ ''/32'') (''prohibit '' @ gateway @ ''/32'')"
    "ef_event r = NetworkRestored (gateway @ ''/32'')" using r(2) by simp_all
  with c a r have "outage_window es activation restoration"
    unfolding outage_window_def by blast
  with act show ?thesis by blast
qed

lemma pre_outage_answered:
  assumes "find (is_pre_outage es activation) es = Some r"
  shows "\<exists>a. answered es PreOutage a r \<and> ef_event_id r < activation"
proof -
  from assms have r: "r \<in> set es" and p: "is_pre_outage es activation r"
    by (auto simp: find_Some_iff)
  then obtain a where m: "matching_success_attempt es r = Some a" and lt: "ef_event_id r < activation"
    by (auto simp: is_pre_outage_def split: option.splits)
  from matching_answered [OF m r] obtain i q phase where ev: "ef_event r = RequestSucceeded i q i q phase"
    and ans: "answered es phase a r" by blast
  from p ev have "phase = PreOutage" by (cases phase) (simp_all add: is_pre_outage_def)
  with ans lt show ?thesis by blast
qed

lemma outage_refused:
  assumes "find_map (outage_at es activation restoration bound) es = Some x"
  shows "\<exists>a r. refused es a r \<and> activation < ef_event_id a \<and> ef_event_id r < restoration
    \<and> ef_event_id r - ef_event_id a \<le> bound"
proof -
  from find_map_SomeD [OF assms] obtain a where a: "a \<in> set es"
    and "outage_at es activation restoration bound a = Some x" by blast
  then obtain q p where ev: "ef_event a = RequestAttempted q p Outage" and lt: "activation < ef_event_id a"
    and f: "find_map (prohibited_at restoration bound q a) es = Some x"
    by (auto simp: outage_at_def split: Event.splits RequestPhase.splits if_splits)
  from find_map_SomeD [OF f] obtain r where r: "r \<in> set es" and "prohibited_at restoration bound q a r = Some x" by blast
  then have "ef_event r = RequestUnavailable q Outage AdministrativeProhibited (Some EACCES)
      \<and> ef_command_id r = ef_command_id a \<and> ef_event_id a < ef_event_id r
      \<and> ef_event_id r < restoration \<and> ef_event_id r - ef_event_id a \<le> bound"
    by (auto simp: prohibited_at_def split: Event.splits RequestPhase.splits RequestError.splits option.splits if_splits)
  with a r ev lt show ?thesis unfolding refused_def by metis
qed

lemma recovered_answered:
  assumes "find_map (recovered_at es restoration bound) es = Some x"
  shows "\<exists>a r. answered es Recovery a r \<and> restoration < ef_event_id a \<and> ef_event_id r - restoration \<le> bound"
proof -
  from find_map_SomeD [OF assms] obtain r where r: "r \<in> set es"
    and "recovered_at es restoration bound r = Some x" by blast
  then obtain a i p j q where ev: "ef_event r = RequestSucceeded i p j q Recovery"
    and m: "matching_success_attempt es r = Some a" and lt: "restoration < ef_event_id a"
    and b: "ef_event_id r - restoration \<le> bound"
    by (auto simp: recovered_at_def split: Event.splits RequestPhase.splits option.splits if_splits)
  from matching_answered [OF m r] ev lt b show ?thesis by auto
qed

lemma result_passed [simp]:
  "ar_passed (assertion_result n b d) = b" "ar_name (assertion_result n b d) = n"
  by (simp_all add: assertion_result_def)

lemma passed_parts:
  assumes "rp_passed (evaluate es ob rb)"
  shows "find_map (mismatch_at es) es = None"
    and "\<exists>restoration activation peer r x y.
      find_restoration es = Some restoration \<and> find_activation es = Some (activation, peer)
      \<and> find (is_pre_outage es activation) es = Some r
      \<and> find_map (outage_at es activation restoration ob) es = Some x
      \<and> find_map (recovered_at es restoration rb) es = Some y"
proof -
  from assms have parts: "ar_passed (safety_result es)" "ar_passed (controlled_outage_result es ob)"
    "ar_passed (restoration_result es)" "ar_passed (bounded_recovery_result es rb)"
    by (simp_all add: evaluate_def Let_def)
  from parts(1) show m: "find_map (mismatch_at es) es = None"
    by (cases "find_map (mismatch_at es) es") (simp_all add: safety_result_def del: find_map_None)
  from parts(3) obtain restoration where rst: "find_restoration es = Some restoration"
    by (auto simp: restoration_result_def split: option.splits)
  from parts(1) m obtain activation peer r where act: "find_activation es = Some (activation, peer)"
    and r: "find (is_pre_outage es activation) es = Some r"
    by (auto simp: safety_result_def bind_eq_Some_conv split: option.splits simp del: find_map_None)
  from parts(2) rst act obtain x where "find_map (outage_at es activation restoration ob) es = Some x"
    by (cases "find_map (outage_at es activation restoration ob) es")
      (simp_all add: controlled_outage_result_def del: find_map_None)
  moreover from parts(4) rst obtain y where "find_map (recovered_at es restoration rb) es = Some y"
    by (cases "find_map (recovered_at es restoration rb) es")
      (simp_all add: bounded_recovery_result_def del: find_map_None)
  ultimately show "\<exists>restoration activation peer r x y.
      find_restoration es = Some restoration \<and> find_activation es = Some (activation, peer)
      \<and> find (is_pre_outage es activation) es = Some r
      \<and> find_map (outage_at es activation restoration ob) es = Some x
      \<and> find_map (recovered_at es restoration rb) es = Some y"
    using rst act r by blast
qed

section \<open>Properties\<close>

text \<open>
  C9. A passing network report is evidence: every response answers an earlier attempt of the
  same command with the same data and none is malformed; the configured gateway was cut off and
  restored, in this order; a request was answered before the cut, a request inside it was
  refused with EACCES within the outage bound, and a request made after the restoration was
  answered within the recovery bound.
\<close>

theorem evaluate_passed_contract:
  assumes "rp_passed (evaluate es outage_bound recovery_bound)"
  shows "network_contract es outage_bound recovery_bound"
proof -
  from passed_parts [OF assms] obtain restoration activation peer r x y where
    m: "find_map (mismatch_at es) es = None" and
    rst: "find_restoration es = Some restoration" and act: "find_activation es = Some (activation, peer)" and
    r: "find (is_pre_outage es activation) es = Some r" and
    x: "find_map (outage_at es activation restoration outage_bound) es = Some x" and
    y: "find_map (recovered_at es restoration recovery_bound) es = Some y" by blast
  from restoration_window [OF rst] act have "outage_window es activation restoration" by simp
  with no_mismatch_answers [OF m] pre_outage_answered [OF r] outage_refused [OF x] recovered_answered [OF y]
  show ?thesis unfolding network_contract_def by blast
qed

text \<open>
  The guest's report is the host's: evaluating only the events the agent keeps for its
  report gives the report of the whole event history, so process and output events that the
  agent streams and forgets cannot change a verdict.
\<close>

theorem evaluate_ignores_process_events:
  "evaluate (filter (\<lambda>frame. is_assertion_event (ef_event frame)) events) outage_bound recovery_bound
   = evaluate events outage_bound recovery_bound"
  by (rule evaluate_relevant) (simp add: is_network_event_def)

text \<open>
  Every report has the network profile: the four assertions in their fixed order, and it
  passes exactly when each of them does; the exit code is zero exactly for a passing report.
\<close>

theorem evaluate_profile:
  "map ar_name (rp_assertions (evaluate es ob rb)) = NETWORK_PROFILE \<and>
   (rp_passed (evaluate es ob rb) \<longleftrightarrow> list_all ar_passed (rp_assertions (evaluate es ob rb))) \<and>
   (report_exit_code (evaluate es ob rb) = 0 \<longleftrightarrow> rp_passed (evaluate es ob rb))"
  by (simp add: evaluate_def Let_def NETWORK_PROFILE_def report_exit_code_def safety_result_def
      controlled_outage_result_def restoration_result_def bounded_recovery_result_def split: option.split)

section \<open>Witnesses\<close>

definition sample_frame :: "nat \<Rightarrow> nat \<Rightarrow> Event \<Rightarrow> EventFrame" where
  "sample_frame i c e = \<lparr>ef_protocol_version = 1, ef_event_id = i, ef_command_id = c, ef_event = e,
     ef_diagnostics = no_diagnostics\<rparr>"

definition sample_history :: "EventFrame list" where
  "sample_history =
     [sample_frame 1 1 (NetworkConfigured ''eth0'' ''10.0.2.15/24'' ''10.0.2.2''),
      sample_frame 2 2 (RequestAttempted ''a'' ''x'' PreOutage),
      sample_frame 3 2 (RequestSucceeded ''a'' ''x'' ''a'' ''x'' PreOutage),
      sample_frame 4 3 (OutageActivated ''10.0.2.2/32'' ''prohibit 10.0.2.2/32''),
      sample_frame 5 4 (RequestAttempted ''b'' ''y'' Outage),
      sample_frame 6 4 (RequestUnavailable ''b'' Outage AdministrativeProhibited (Some EACCES)),
      sample_frame 7 5 (NetworkRestored ''10.0.2.2/32''),
      sample_frame 8 6 (RequestAttempted ''c'' ''z'' Recovery),
      sample_frame 9 6 (RequestSucceeded ''c'' ''z'' ''c'' ''z'' Recovery)]"

lemma sample_history_passes: "rp_passed (evaluate sample_history 1 2)"
  by (simp add: evaluate_def Let_def safety_result_def controlled_outage_result_def
      restoration_result_def bounded_recovery_result_def find_restoration_def find_activation_def
      find_configured_def sample_history_def sample_frame_def configured_at_def activated_at_def
      restored_at_def mismatch_at_def is_pre_outage_def outage_at_def prohibited_at_def recovered_at_def
      matching_success_attempt_def is_attempt_for_def EACCES_def del: find_map_None)

theorem evaluate_passed_contract_witness:
  "rp_passed (evaluate sample_history 1 2) \<and> network_contract sample_history 1 2"
  using evaluate_passed_contract [OF sample_history_passes] sample_history_passes by blast

end
