(* ===== verification/Controller.thy ===== *)
theory Controller
  imports Vm Scenario_Plan Assertions
begin

text \<open>
  The network controller of \<open>run.rs\<close>: it issues the commands of a scenario one by one, checks the
  envelope and the content of every response, compares it with the recorded event on a replay, and
  keeps raw and normalized events. The lemmas: what a successful run sent, which responses it
  accepted, that its event identifiers are contiguous, and that a replay that succeeds reproduces
  the recorded events and the recorded report.
\<close>

section \<open>Diagnostics\<close>

record FaultTransitionDiagnostic =
  ft_event_id :: nat
  ft_transition :: string
  ft_peer_cidr :: "string option"
  ft_rule :: "string option"

record TrafficDiagnostics =
  td_requests_attempted :: nat
  td_requests_succeeded :: nat
  td_requests_unavailable :: nat

record PacketCounterDiagnostics =
  pc_available :: bool
  pc_incoming :: "nat option"
  pc_outgoing :: "nat option"
  pc_reason :: string

record FailureDiagnostics =
  fd_operation :: string
  fd_stage :: string
  fd_backend_mode :: string
  fd_fixture_mode :: string
  fd_network_status :: string
  fd_network :: "NetworkIdentity option"
  fd_fault_transitions :: "FaultTransitionDiagnostic list"
  fd_traffic :: TrafficDiagnostics
  fd_packet_counters :: PacketCounterDiagnostics

definition FailureDiagnostics_new :: "string \<Rightarrow> FailureDiagnostics" where
  "FailureDiagnostics_new operation =
     \<lparr>fd_operation = operation, fd_stage = ''launch'', fd_backend_mode = operation,
      fd_fixture_mode = (if operation = ''record'' then ''controlled-content'' else ''empty-passive''),
      fd_network_status = ''not-yet-validated'', fd_network = None, fd_fault_transitions = [],
      fd_traffic = \<lparr>td_requests_attempted = 0, td_requests_succeeded = 0, td_requests_unavailable = 0\<rparr>,
      fd_packet_counters = \<lparr>pc_available = False, pc_incoming = None, pc_outgoing = None,
        pc_reason = ''the selected QEMU user backend and replay filter expose no packet-counter API''\<rparr>\<rparr>"

definition set_network :: "NetworkIdentity \<Rightarrow> FailureDiagnostics \<Rightarrow> FailureDiagnostics" where
  "set_network network d = d\<lparr>fd_network_status := ''validated-local-profile'', fd_network := Some network\<rparr>"

definition observe :: "NormalizedEvent \<Rightarrow> FailureDiagnostics \<Rightarrow> FailureDiagnostics" where
  "observe event d =
     (let fault = map_option nt_fault (fd_network d)
      in case ne_event event of
           OutageActivated _ _ \<Rightarrow>
             d\<lparr>fd_fault_transitions := fd_fault_transitions d @
                 [\<lparr>ft_event_id = ne_event_id event, ft_transition = ''activated'',
                   ft_peer_cidr = map_option fa_peer_cidr fault, ft_rule = map_option fa_rule fault\<rparr>]\<rparr>
         | NetworkRestored _ \<Rightarrow>
             d\<lparr>fd_fault_transitions := fd_fault_transitions d @
                 [\<lparr>ft_event_id = ne_event_id event, ft_transition = ''restored'',
                   ft_peer_cidr = map_option fa_peer_cidr fault, ft_rule = None\<rparr>]\<rparr>
         | RequestAttempted _ _ _ \<Rightarrow>
             d\<lparr>fd_traffic := (fd_traffic d)\<lparr>td_requests_attempted := td_requests_attempted (fd_traffic d) + 1\<rparr>\<rparr>
         | RequestSucceeded _ _ _ _ _ \<Rightarrow>
             d\<lparr>fd_traffic := (fd_traffic d)\<lparr>td_requests_succeeded := td_requests_succeeded (fd_traffic d) + 1\<rparr>\<rparr>
         | RequestUnavailable _ _ _ _ \<Rightarrow>
             d\<lparr>fd_traffic := (fd_traffic d)\<lparr>td_requests_unavailable := td_requests_unavailable (fd_traffic d) + 1\<rparr>\<rparr>
         | _ \<Rightarrow> d)"

section \<open>Responses\<close>

text \<open>\<open>valid_profile\<close>: every name of the profile exactly once, and a summary that agrees.\<close>

fun mark_seen :: "AssertionName list \<Rightarrow> bool list \<Rightarrow> AssertionResult list \<Rightarrow> bool list option" where
  "mark_seen profile seen [] = Some seen"
| "mark_seen profile seen (assertion # rest) =
     (case position_of (ar_name assertion) profile of
        None \<Rightarrow> None
      | Some index \<Rightarrow> if seen ! index then None else mark_seen profile (seen[index := True]) rest)"

definition valid_profile :: "AssertionReport \<Rightarrow> AssertionName list \<Rightarrow> bool" where
  "valid_profile report profile =
     (case mark_seen profile (replicate (length profile) False) (rp_assertions report) of
        None \<Rightarrow> False
      | Some seen \<Rightarrow> list_all id seen \<and> rp_passed report = list_all ar_passed (rp_assertions report))"

definition valid_report :: "AssertionReport \<Rightarrow> bool" where
  "valid_report report = valid_profile report NETWORK_PROFILE"

fun response_matches :: "Command \<Rightarrow> nat \<Rightarrow> Event \<Rightarrow> bool" where
  "response_matches (ConfigureNetwork interface guest_cidr gateway) index event =
     (index = 0 \<and> (case event of
        NetworkConfigured actual_interface actual_cidr actual_gateway \<Rightarrow>
          actual_interface = interface \<and> actual_cidr = guest_cidr \<and> actual_gateway = gateway
      | _ \<Rightarrow> False))"
| "response_matches (ActivateOutage peer_cidr) index event =
     (index = 0 \<and> (case event of
        OutageActivated actual rule \<Rightarrow> actual = peer_cidr \<and> rule = ''prohibit '' @ peer_cidr
      | _ \<Rightarrow> False))"
| "response_matches (RestoreNetwork peer_cidr) index event =
     (index = 0 \<and> (case event of NetworkRestored actual \<Rightarrow> actual = peer_cidr | _ \<Rightarrow> False))"
| "response_matches (Request request_id payload phase) index event =
     (if index = 0 then
        (case event of
           RequestAttempted actual_id actual_payload actual_phase \<Rightarrow>
             actual_id = request_id \<and> actual_payload = payload \<and> actual_phase = phase
         | _ \<Rightarrow> False)
      else if index = 1 then
        (case event of
           RequestSucceeded actual_id request_payload _ _ actual_phase \<Rightarrow>
             actual_id = request_id \<and> request_payload = payload \<and> actual_phase = phase
         | RequestUnavailable actual_id actual_phase _ _ \<Rightarrow> actual_id = request_id \<and> actual_phase = phase
         | _ \<Rightarrow> False)
      else False)"
| "response_matches (Check _ _) index event =
     (index = 0 \<and> (case event of AssertionsEvaluated report \<Rightarrow> valid_report report | _ \<Rightarrow> False))"
| "response_matches Shutdown index event = (index = 0 \<and> (case event of AgentStopped \<Rightarrow> True | _ \<Rightarrow> False))"
| "response_matches _ index event = False"

definition validate_response :: "Command \<Rightarrow> nat \<Rightarrow> EventFrame \<Rightarrow> io_error + unit" where
  "validate_response command event_index frame =
     (if response_matches command event_index (ef_event frame) then Inr ()
      else Inl (IoError KInvalidData (''event '' @ dec (event_index + 1) @ '' ('' @ Event_describe (ef_event frame)
             @ '') does not match the '' @ Command_kind command @ '' command'')))"

section \<open>The controller\<close>

text \<open>
  The two divergences print the events in full; their values stand for the text. All other errors
  are those of the input and output layer.
\<close>

datatype controller_error =
    Io io_error
  | EventDivergence nat NormalizedEvent NormalizedEvent
  | SurplusEvent nat NormalizedEvent

record 'g Controller =
  ct_vm :: "'g vm"
  ct_diagnostics :: FailureDiagnostics
  ct_next_command_id :: nat
  ct_next_event_id :: nat
  ct_send_commands :: bool
  ct_expected_events :: "NormalizedEvent list option"
  ct_raw_events :: "EventFrame list"
  ct_events :: "NormalizedEvent list"

definition Controller_new ::
    "'g vm \<Rightarrow> bool \<Rightarrow> NormalizedEvent list option \<Rightarrow> FailureDiagnostics \<Rightarrow> 'g Controller" where
  "Controller_new vm send_commands expected_events diagnostics =
     \<lparr>ct_vm = vm, ct_diagnostics = diagnostics, ct_next_command_id = 1, ct_next_event_id = 1,
      ct_send_commands = send_commands, ct_expected_events = expected_events, ct_raw_events = [], ct_events = []\<rparr>"

type_synonym ('g, 'a) controls = "('g Controller, controller_error, 'a) action"

definition on_vm :: "('g vm, io_error, 'a) action \<Rightarrow> ('g, 'a) controls" where
  "on_vm a = (\<lambda>c. case a (ct_vm c) of
     (Inl e, vm) \<Rightarrow> (Inl (Io e), c\<lparr>ct_vm := vm\<rparr>)
   | (Inr x, vm) \<Rightarrow> (Inr x, c\<lparr>ct_vm := vm\<rparr>))"

definition receive_for :: "Command \<Rightarrow> nat \<Rightarrow> nat \<Rightarrow> ('g, EventFrame) controls" where
  "receive_for command expected_events event_index = (\<lambda>c.
     case on_vm vm_receive c of
       (Inl (Io (IoError kind text)), c) \<Rightarrow>
         (Inl (Io (IoError kind (''failed receiving event '' @ dec (event_index + 1) @ ''/'' @ dec expected_events
            @ '' for the '' @ Command_kind command @ '' command: '' @ text))), c)
     | result \<Rightarrow> result)"

text \<open>The comparison with the recording, at the position of the next event.\<close>

definition compare_next :: "NormalizedEvent \<Rightarrow> ('g, unit) controls" where
  "compare_next normalized = (\<lambda>c.
     case ct_expected_events c of
       None \<Rightarrow> (Inr (), c)
     | Some expected \<Rightarrow>
         let index = length (ct_events c)
         in if index < length expected
            then if expected ! index = normalized then (Inr (), c)
                 else (Inl (EventDivergence index (expected ! index) normalized), c)
            else (Inl (SurplusEvent index normalized), c))"

definition accept_event :: "Command \<Rightarrow> nat \<Rightarrow> nat \<Rightarrow> EventFrame \<Rightarrow> ('g, EventFrame) controls" where
  "accept_event command command_id event_index event =
     act_bind act_get (\<lambda>c.
     act_bind (act_require
       (ef_protocol_version event = PROTOCOL_VERSION \<and> ef_command_id event = command_id
        \<and> ef_event_id event = ct_next_event_id c)
       (Io (IoError KInvalidData (''unexpected event envelope: version='' @ dec (ef_protocol_version event)
          @ '', event_id='' @ dec (ef_event_id event) @ '', command_id='' @ dec (ef_command_id event))))) (\<lambda>_.
     act_bind (act_modify (\<lambda>c. c\<lparr>ct_next_event_id := ct_next_event_id c + 1\<rparr>)) (\<lambda>_.
     act_bind (act_lift (map_err Io (validate_response command event_index event))) (\<lambda>_.
     let normalized = EventFrame_normalize event
     in act_bind (act_modify (\<lambda>c. c\<lparr>ct_diagnostics := observe normalized (ct_diagnostics c)\<rparr>)) (\<lambda>_.
        act_bind (compare_next normalized) (\<lambda>_.
        act_bind (act_modify (\<lambda>c. c\<lparr>ct_raw_events := ct_raw_events c @ [event],
                                    ct_events := ct_events c @ [normalized]\<rparr>)) (\<lambda>_.
        act_return event)))))))"

fun receive_responses :: "Command \<Rightarrow> nat \<Rightarrow> nat \<Rightarrow> nat list \<Rightarrow> ('g, EventFrame list) controls" where
  "receive_responses command command_id expected_events [] = act_return []"
| "receive_responses command command_id expected_events (event_index # rest) =
     act_bind (receive_for command expected_events event_index) (\<lambda>event.
     act_bind (accept_event command command_id event_index event) (\<lambda>event.
     act_bind (receive_responses command command_id expected_events rest) (\<lambda>received.
     act_return (event # received))))"

definition response_count :: "Command \<Rightarrow> nat" where
  "response_count command = (case command of Request _ _ _ \<Rightarrow> 2 | _ \<Rightarrow> 1)"

definition Controller_issue :: "'g react \<Rightarrow> Command \<Rightarrow> ('g, EventFrame list) controls" where
  "Controller_issue react command =
     act_bind act_get (\<lambda>c.
     let command_id = ct_next_command_id c
     in act_bind (act_modify (\<lambda>c. c\<lparr>ct_next_command_id := ct_next_command_id c + 1\<rparr>)) (\<lambda>_.
        act_bind (if ct_send_commands c
                  then on_vm (vm_send react \<lparr>cf_protocol_version = PROTOCOL_VERSION, cf_command_id = command_id,
                                             cf_command = command\<rparr>)
                  else act_return ()) (\<lambda>_.
        receive_responses command command_id (response_count command) [0..<response_count command])))"

section \<open>The scenario\<close>

definition phase_at :: "nat \<Rightarrow> ChoicePlan \<Rightarrow> RequestPhase" where
  "phase_at index choices =
     (if index < cp_outage_activation_request_index choices then PreOutage
      else if index < cp_restoration_request_index choices then Outage
      else Recovery)"

definition peer_route :: "Scenario \<Rightarrow> string" where
  "peer_route scenario = sc_fixture_peer scenario @ ''/32''"

definition drive_request :: "'g react \<Rightarrow> Scenario \<Rightarrow> ChoicePlan \<Rightarrow> nat \<times> PlannedRequest \<Rightarrow> ('g, unit) controls" where
  "drive_request react scenario choices = (\<lambda>(index, request).
     act_bind (if index = cp_outage_activation_request_index choices
               then act_bind (Controller_issue react (ActivateOutage (peer_route scenario))) (\<lambda>_. act_return ())
               else act_return ()) (\<lambda>_.
     act_bind (if index = cp_restoration_request_index choices
               then act_bind (Controller_issue react (RestoreNetwork (peer_route scenario))) (\<lambda>_. act_return ())
               else act_return ()) (\<lambda>_.
     act_bind (Controller_issue react (Request (pr_request_id request) (pr_payload request) (phase_at index choices))) (\<lambda>_.
     act_return ()))))"

text \<open>The first of the responses to the check; \<open>issue\<close> returns as many as were expected, so there is one.\<close>

definition guest_report :: "EventFrame list \<Rightarrow> controller_error + AssertionReport" where
  "guest_report check_events =
     (case check_events of
        [] \<Rightarrow> Inl (Io (IoError KInvalidData ''no response to the check command''))
      | frame # _ \<Rightarrow>
          (case ef_event frame of
             AssertionsEvaluated report \<Rightarrow> Inr report
           | event \<Rightarrow> Inl (Io (IoError KInvalidData
               (''expected an assertions-evaluated report, received '' @ Event_describe event)))))"

definition finish_replay :: "('g, unit) controls" where
  "finish_replay =
     act_bind act_get (\<lambda>c.
     case ct_expected_events c of
       Some expected \<Rightarrow>
         act_require (length (ct_events c) = length expected)
           (Io (invalid_data (''replay ended after '' @ dec (length (ct_events c)) @ '' normalized events; expected ''
              @ dec (length expected))))
     | None \<Rightarrow> act_return ())"

definition drive_commands :: "'g react \<Rightarrow> Scenario \<Rightarrow> ChoicePlan \<Rightarrow> ('g, AssertionReport) controls" where
  "drive_commands react scenario choices =
     act_bind (Controller_issue react (ConfigureNetwork ''eth0'' ''10.0.2.15/24'' (sc_fixture_peer scenario))) (\<lambda>_.
     act_bind (act_each (drive_request react scenario choices) (enumerate 0 (cp_requests choices))) (\<lambda>_.
     act_bind act_get (\<lambda>c.
     let host_assertions = evaluate (ct_raw_events c) (sc_outage_event_bound scenario) (sc_liveness_event_bound scenario)
     in act_bind (Controller_issue react (Check (sc_outage_event_bound scenario) (sc_liveness_event_bound scenario)))
          (\<lambda>check_events.
        act_bind (act_lift (guest_report check_events)) (\<lambda>guest_assertions.
        act_bind (act_require (guest_assertions = host_assertions)
          (Io (IoError KInvalidData ''guest assertion report does not match host evaluation''))) (\<lambda>_.
        act_bind (Controller_issue react Shutdown) (\<lambda>_.
        act_bind (on_vm vm_finish_events) (\<lambda>_.
        act_bind finish_replay (\<lambda>_.
        act_return host_assertions)))))))))"

definition drive_scenario_inner ::
    "'g react \<Rightarrow> Scenario \<Rightarrow> ChoicePlan \<Rightarrow> 'g vm \<Rightarrow> bool \<Rightarrow> NormalizedEvent list option \<Rightarrow> FailureDiagnostics
     \<Rightarrow> (controller_error + NormalizedEvent list \<times> AssertionReport) \<times> 'g Controller" where
  "drive_scenario_inner react scenario choices vm send_commands expected_events diagnostics =
     act_bind (drive_commands react scenario choices) (\<lambda>host_assertions.
     act_bind act_get (\<lambda>c. act_return (ct_events c, host_assertions)))
       (Controller_new vm send_commands expected_events diagnostics)"

definition drive_scenario where
  "drive_scenario react scenario choices vm diagnostics =
     drive_scenario_inner react scenario choices vm True None diagnostics"

definition drive_replay_scenario where
  "drive_replay_scenario react scenario choices expected_events vm diagnostics =
     drive_scenario_inner react scenario choices vm False (Some expected_events) diagnostics"

section \<open>Comparing event logs\<close>

definition compare_at :: "NormalizedEvent list \<Rightarrow> NormalizedEvent list \<Rightarrow> nat \<Rightarrow> io_error + unit" where
  "compare_at expected actual index =
     (if index < length expected then
        if index < length actual then
          if expected ! index = actual ! index then Inr ()
          else Inl (invalid_data (''normalized event divergence at index '' @ dec index @ '': expected ''
                 @ Event_describe (ne_event (expected ! index)) @ '' at event '' @ dec (ne_event_id (expected ! index))
                 @ '', found '' @ Event_describe (ne_event (actual ! index)) @ '' at event ''
                 @ dec (ne_event_id (actual ! index))))
        else Inl (invalid_data (''replay ended before normalized event index '' @ dec index @ '': expected ''
               @ Event_describe (ne_event (expected ! index)) @ '' at event '' @ dec (ne_event_id (expected ! index))))
      else Inl (invalid_data (''replay produced surplus normalized event at index '' @ dec index @ '': ''
             @ Event_describe (ne_event (actual ! index)) @ '' at event '' @ dec (ne_event_id (actual ! index)))))"

definition compare_events :: "NormalizedEvent list \<Rightarrow> NormalizedEvent list \<Rightarrow> io_error + unit" where
  "compare_events expected actual =
     for_each (\<lambda>_. compare_at expected actual) () [0..<max (length expected) (length actual)]"

section \<open>Dialogues\<close>

text \<open>
  The reference: the events of a run answer its commands in order, each command by its own number
  of events, with the command's identifier and contiguous event identifiers.
\<close>

definition answers :: "nat \<Rightarrow> nat \<Rightarrow> Command \<Rightarrow> EventFrame list \<Rightarrow> bool" where
  "answers command_id event_id command frames \<longleftrightarrow> length frames = response_count command
     \<and> (\<forall>k < length frames. ef_protocol_version (frames ! k) = PROTOCOL_VERSION \<and> ef_command_id (frames ! k) = command_id
          \<and> ef_event_id (frames ! k) = event_id + k \<and> response_matches command k (ef_event (frames ! k)))"

fun dialogue :: "nat \<Rightarrow> nat \<Rightarrow> Command list \<Rightarrow> EventFrame list \<Rightarrow> bool" where
  "dialogue command_id event_id [] frames = (frames = [])"
| "dialogue command_id event_id (command # commands) frames =
     (answers command_id event_id command (take (response_count command) frames)
      \<and> dialogue (command_id + 1) (event_id + response_count command) commands (drop (response_count command) frames))"

lemma answers_length: "answers i e command frames \<Longrightarrow> length frames = response_count command"
  by (simp add: answers_def)

lemma dialogue_append:
  "dialogue i e cs fs \<Longrightarrow> dialogue (i + length cs) (e + length fs) ds gs \<Longrightarrow> dialogue i e (cs @ ds) (fs @ gs)"
proof (induction cs arbitrary: i e fs)
  case (Cons c cs)
  from Cons.prems(1) have one: "answers i e c (take (response_count c) fs)"
    and rest: "dialogue (i + 1) (e + response_count c) cs (drop (response_count c) fs)" by simp_all
  from answers_length [OF one] have len: "response_count c \<le> length fs" by simp
  have "dialogue (i + 1) (e + response_count c) (cs @ ds) (drop (response_count c) fs @ gs)"
    using Cons.prems(2) len by (intro Cons.IH [OF rest]) simp
  with one len show ?case by simp
qed simp

lemma dialogue_single: "answers i e c fs \<Longrightarrow> dialogue i e [c] fs"
  using answers_length [of i e c fs] by simp

section \<open>What a successful run did\<close>

definition command_frames :: "nat \<Rightarrow> Command list \<Rightarrow> CommandFrame list" where
  "command_frames i cs = map (\<lambda>(k, c). \<lparr>cf_protocol_version = PROTOCOL_VERSION, cf_command_id = k, cf_command = c\<rparr>) (enumerate i cs)"

text \<open>A run from one controller to another that issued the commands.\<close>

definition issued :: "Command list \<Rightarrow> 'g Controller \<Rightarrow> 'g Controller \<Rightarrow> bool" where
  "issued commands c c' \<longleftrightarrow> (\<exists>frames.
     ct_raw_events c' = ct_raw_events c @ frames \<and> ct_events c' = ct_events c @ map EventFrame_normalize frames
   \<and> dialogue (ct_next_command_id c) (ct_next_event_id c) commands frames
   \<and> ct_next_command_id c' = ct_next_command_id c + length commands
   \<and> ct_next_event_id c' = ct_next_event_id c + length frames
   \<and> ct_send_commands c' = ct_send_commands c \<and> ct_expected_events c' = ct_expected_events c
   \<and> vm_sent (ct_vm c') = vm_sent (ct_vm c)
       @ (if ct_send_commands c then command_frames (ct_next_command_id c) commands else [])
   \<and> (\<forall>expected. ct_expected_events c = Some expected \<longrightarrow> (\<exists>r. expected = ct_events c @ r)
        \<longrightarrow> (\<exists>r. expected = ct_events c' @ r)))"

lemma issued_refl: "issued [] c c"
  by (simp add: issued_def command_frames_def)

lemma command_frames_append: "command_frames i (cs @ ds) = command_frames i cs @ command_frames (i + length cs) ds"
  by (simp add: command_frames_def enumerate_append_eq)

lemma issued_trans:
  assumes "issued cs c d" "issued ds d e"
  shows "issued (cs @ ds) c e"
proof -
  from assms(1) obtain fs where f: "ct_raw_events d = ct_raw_events c @ fs" "ct_events d = ct_events c @ map EventFrame_normalize fs"
    "dialogue (ct_next_command_id c) (ct_next_event_id c) cs fs" "ct_next_command_id d = ct_next_command_id c + length cs"
    "ct_next_event_id d = ct_next_event_id c + length fs" "ct_send_commands d = ct_send_commands c"
    "ct_expected_events d = ct_expected_events c"
    "vm_sent (ct_vm d) = vm_sent (ct_vm c) @ (if ct_send_commands c then command_frames (ct_next_command_id c) cs else [])"
    "\<And>expected. ct_expected_events c = Some expected \<Longrightarrow> (\<exists>r. expected = ct_events c @ r)
        \<Longrightarrow> (\<exists>r. expected = ct_events d @ r)" unfolding issued_def by blast
  from assms(2) obtain gs where g: "ct_raw_events e = ct_raw_events d @ gs" "ct_events e = ct_events d @ map EventFrame_normalize gs"
    "dialogue (ct_next_command_id d) (ct_next_event_id d) ds gs" "ct_next_command_id e = ct_next_command_id d + length ds"
    "ct_next_event_id e = ct_next_event_id d + length gs" "ct_send_commands e = ct_send_commands d"
    "ct_expected_events e = ct_expected_events d"
    "vm_sent (ct_vm e) = vm_sent (ct_vm d) @ (if ct_send_commands d then command_frames (ct_next_command_id d) ds else [])"
    "\<And>expected. ct_expected_events d = Some expected \<Longrightarrow> (\<exists>r. expected = ct_events d @ r)
        \<Longrightarrow> (\<exists>r. expected = ct_events e @ r)" unfolding issued_def by blast
  have "dialogue (ct_next_command_id c) (ct_next_event_id c) (cs @ ds) (fs @ gs)"
    using dialogue_append [OF f(3)] g(3) f(4,5) by simp
  then show ?thesis unfolding issued_def
    using f(1,2,4-8) g(1,2,4-8) f(9) g(9)
    by (intro exI [of _ "fs @ gs"]) (simp add: command_frames_append)
qed


lemma on_vm_Inr: "on_vm a c = (Inr x, c') \<longleftrightarrow> (\<exists>vm. a (ct_vm c) = (Inr x, vm) \<and> c' = c\<lparr>ct_vm := vm\<rparr>)"
  by (auto simp: on_vm_def split: prod.splits sum.splits)

lemma vm_receive_sent: "vm_receive vm = (r, vm') \<Longrightarrow> vm_sent vm' = vm_sent vm"
  by (auto simp: vm_receive_def Let_def split: prod.splits option.splits arrival.splits)

lemma vm_finish_sent: "vm_finish_events vm = (r, vm') \<Longrightarrow> vm_sent vm' = vm_sent vm"
  by (auto simp: vm_finish_events_def Let_def split: prod.splits option.splits arrival.splits)

lemma receive_for_Inr:
  "receive_for command n k c = (Inr event, c') \<Longrightarrow> \<exists>vm. vm_receive (ct_vm c) = (Inr event, vm) \<and> c' = c\<lparr>ct_vm := vm\<rparr>"
  by (auto simp: receive_for_def on_vm_Inr split: prod.splits sum.splits controller_error.splits io_error.splits)

lemma compare_next_Inr:
  "compare_next e c = (Inr u, c') \<Longrightarrow> c' = c \<and> (\<forall>expected. ct_expected_events c = Some expected \<longrightarrow>
     (\<exists>r. expected = ct_events c @ r) \<longrightarrow> (\<exists>r. expected = (ct_events c @ [e]) @ r))"
  by (auto simp: compare_next_def Let_def nth_append split: option.splits if_splits)
    (metis list.size(3) neq_Nil_conv not_add_less1 nth_Cons_0 add.right_neutral linorder_not_less nth_append_length order_refl)

lemma validate_response_Inr: "validate_response command k frame = Inr u \<longleftrightarrow> response_matches command k (ef_event frame)"
  by (simp add: validate_response_def)

lemma accept_event_Inr:
  assumes "accept_event command i k event c = (Inr x, c')"
  shows "x = event \<and> ef_protocol_version event = PROTOCOL_VERSION \<and> ef_command_id event = i \<and> ef_event_id event = ct_next_event_id c
    \<and> response_matches command k (ef_event event)
    \<and> c' = c\<lparr>ct_next_event_id := ct_next_event_id c + 1, ct_diagnostics := observe (EventFrame_normalize event) (ct_diagnostics c),
         ct_raw_events := ct_raw_events c @ [event], ct_events := ct_events c @ [EventFrame_normalize event]\<rparr>
    \<and> (\<forall>expected. ct_expected_events c = Some expected \<longrightarrow> (\<exists>r. expected = ct_events c @ r)
         \<longrightarrow> (\<exists>r. expected = (ct_events c @ [EventFrame_normalize event]) @ r))"
  using assms unfolding accept_event_def Let_def
  by (auto simp: act_bind_Inr validate_response_Inr dest!: compare_next_Inr split: if_splits)


text \<open>Events that were received and accepted, nothing sent.\<close>

definition received_by :: "EventFrame list \<Rightarrow> 'g Controller \<Rightarrow> 'g Controller \<Rightarrow> bool" where
  "received_by frames c c' \<longleftrightarrow> ct_raw_events c' = ct_raw_events c @ frames
   \<and> ct_events c' = ct_events c @ map EventFrame_normalize frames \<and> ct_next_command_id c' = ct_next_command_id c
   \<and> ct_next_event_id c' = ct_next_event_id c + length frames \<and> ct_send_commands c' = ct_send_commands c
   \<and> ct_expected_events c' = ct_expected_events c \<and> vm_sent (ct_vm c') = vm_sent (ct_vm c)
   \<and> (\<forall>expected. ct_expected_events c = Some expected \<longrightarrow> (\<exists>r. expected = ct_events c @ r)
        \<longrightarrow> (\<exists>r. expected = ct_events c' @ r))"

lemma received_by_trans: "received_by fs c d \<Longrightarrow> received_by gs d e \<Longrightarrow> received_by (fs @ gs) c e"
  unfolding received_by_def by (elim conjE) simp

lemma receive_one_event:
  assumes "receive_for command n k c = (Inr event, c1)" "accept_event command i k event c1 = (Inr x, c2)"
  shows "x = event \<and> received_by [event] c c2 \<and> ef_protocol_version event = PROTOCOL_VERSION \<and> ef_command_id event = i
    \<and> ef_event_id event = ct_next_event_id c \<and> response_matches command k (ef_event event)"
proof -
  from receive_for_Inr [OF assms(1)] obtain vm where vm: "vm_receive (ct_vm c) = (Inr event, vm)" "c1 = c\<lparr>ct_vm := vm\<rparr>" by blast
  from accept_event_Inr [OF assms(2)] vm(2) vm_receive_sent [OF vm(1)] show ?thesis
    unfolding received_by_def by (elim conjE) simp
qed

lemma receive_responses_Inr:
  "receive_responses command i n [k..<k + m] c = (Inr fs, c') \<Longrightarrow> received_by fs c c' \<and> length fs = m
    \<and> (\<forall>j < m. ef_protocol_version (fs ! j) = PROTOCOL_VERSION \<and> ef_command_id (fs ! j) = i
         \<and> ef_event_id (fs ! j) = ct_next_event_id c + j \<and> response_matches command (k + j) (ef_event (fs ! j)))"
proof (induction m arbitrary: k c fs)
  case 0
  then show ?case by (simp add: received_by_def)
next
  case (Suc m)
  have "[k..<k + Suc m] = k # [Suc k..<Suc k + m]" by (simp add: upt_rec)
  with Suc.prems obtain event x c1 c2 gs where
    one: "receive_for command n k c = (Inr event, c1)" "accept_event command i k event c1 = (Inr x, c2)"
    and rest: "receive_responses command i n [Suc k..<Suc k + m] c2 = (Inr gs, c')" and x: "fs = x # gs"
    by (auto simp: act_bind_Inr simp del: upt_Suc)
  from receive_one_event [OF one] x have fs: "fs = event # gs" and ev: "received_by [event] c c2" "ef_protocol_version event = PROTOCOL_VERSION"
    "ef_command_id event = i" "ef_event_id event = ct_next_event_id c" "response_matches command k (ef_event event)" by simp_all
  from Suc.IH [OF rest] have r: "received_by gs c2 c'" "length gs = m" and each: "\<And>j. j < m \<Longrightarrow>
      ef_protocol_version (gs ! j) = PROTOCOL_VERSION \<and> ef_command_id (gs ! j) = i
      \<and> ef_event_id (gs ! j) = ct_next_event_id c2 + j \<and> response_matches command (Suc k + j) (ef_event (gs ! j))" by simp_all
  have follow: "ct_next_event_id c2 = ct_next_event_id c + 1" using ev(1) by (simp add: received_by_def)
  have "ef_protocol_version (fs ! j) = PROTOCOL_VERSION \<and> ef_command_id (fs ! j) = i
      \<and> ef_event_id (fs ! j) = ct_next_event_id c + j \<and> response_matches command (k + j) (ef_event (fs ! j))" if "j < Suc m" for j
    using that ev each [of "j - 1"] follow by (cases j) (simp_all add: fs)
  with received_by_trans [OF ev(1) r(1)] r(2) show ?case by (simp add: fs)
qed

lemma issue_ran:
  assumes "Controller_issue react command c = (Inr frames, c')"
  shows "issued [command] c c' \<and> answers (ct_next_command_id c) (ct_next_event_id c) command frames
    \<and> ct_raw_events c' = ct_raw_events c @ frames"
proof -
  let ?c1 = "c\<lparr>ct_next_command_id := ct_next_command_id c + 1\<rparr>"
  let ?frame = "\<lparr>cf_protocol_version = PROTOCOL_VERSION, cf_command_id = ct_next_command_id c, cf_command = command\<rparr>"
  from assms obtain c2 where
    send: "(if ct_send_commands c then on_vm (vm_send react ?frame) else act_return ()) ?c1 = (Inr (), c2)"
    and recv: "receive_responses command (ct_next_command_id c) (response_count command) [0..<response_count command] c2
      = (Inr frames, c')"
    unfolding Controller_issue_def Let_def by (auto simp: act_bind_Inr)
  from send obtain vm where c2: "c2 = ?c1\<lparr>ct_vm := vm\<rparr>"
    and sent: "vm_sent vm = vm_sent (ct_vm c) @ (if ct_send_commands c then [?frame] else [])"
  proof (cases "ct_send_commands c")
    case True
    with send that show ?thesis by (auto simp: on_vm_Inr vm_send_def split: prod.splits sum.splits)
  next
    case False
    with send have "c2 = ?c1\<lparr>ct_vm := ct_vm c\<rparr>" by (auto intro!: Controller.equality)
    with False show ?thesis by (intro that) simp_all
  qed
  from receive_responses_Inr [of command _ _ 0 "response_count command", simplified, OF recv]
  have r: "received_by frames c2 c'" "length frames = response_count command" and each: "\<And>j. j < response_count command \<Longrightarrow>
      ef_protocol_version (frames ! j) = PROTOCOL_VERSION \<and> ef_command_id (frames ! j) = ct_next_command_id c
      \<and> ef_event_id (frames ! j) = ct_next_event_id c2 + j \<and> response_matches command j (ef_event (frames ! j))" by simp_all
  have ans: "answers (ct_next_command_id c) (ct_next_event_id c) command frames"
    using r(2) each by (simp add: answers_def c2)
  have "issued [command] c c'" unfolding issued_def
  proof (intro exI [of _ frames] conjI)
    show "\<forall>expected. ct_expected_events c = Some expected \<longrightarrow> (\<exists>r. expected = ct_events c @ r) \<longrightarrow> (\<exists>r. expected = ct_events c' @ r)"
      using r(1) unfolding received_by_def by (elim conjE) (simp add: c2)
  qed (use r(1) dialogue_single [OF ans] in \<open>simp_all only: received_by_def c2 command_frames_def\<close>, simp_all add: sent)
  with ans r(1) show ?thesis by (simp add: received_by_def c2)
qed


section \<open>The commands of a scenario\<close>

definition request_commands :: "Scenario \<Rightarrow> ChoicePlan \<Rightarrow> nat \<times> PlannedRequest \<Rightarrow> Command list" where
  "request_commands scenario choices = (\<lambda>(index, request).
     (if index = cp_outage_activation_request_index choices then [ActivateOutage (peer_route scenario)] else [])
     @ (if index = cp_restoration_request_index choices then [RestoreNetwork (peer_route scenario)] else [])
     @ [Request (pr_request_id request) (pr_payload request) (phase_at index choices)])"

definition opening_commands :: "Scenario \<Rightarrow> ChoicePlan \<Rightarrow> Command list" where
  "opening_commands scenario choices =
     ConfigureNetwork ''eth0'' ''10.0.2.15/24'' (sc_fixture_peer scenario)
     # concat (map (request_commands scenario choices) (enumerate 0 (cp_requests choices)))"

definition scenario_commands :: "Scenario \<Rightarrow> ChoicePlan \<Rightarrow> Command list" where
  "scenario_commands scenario choices = opening_commands scenario choices
     @ [Check (sc_outage_event_bound scenario) (sc_liveness_event_bound scenario), Shutdown]"

lemma drive_request_ran:
  assumes "drive_request react scenario choices x c = (Inr u, c')"
  shows "issued (request_commands scenario choices x) c c'"
proof -
  obtain index request where x: "x = (index, request)" by fastforce
  let ?a = "index = cp_outage_activation_request_index choices" and ?r = "index = cp_restoration_request_index choices"
  from assms obtain c1 c2 frames where
    a: "(if ?a then act_bind (Controller_issue react (ActivateOutage (peer_route scenario))) (\<lambda>_. act_return ()) else act_return ()) c = (Inr (), c1)"
    and r: "(if ?r then act_bind (Controller_issue react (RestoreNetwork (peer_route scenario))) (\<lambda>_. act_return ()) else act_return ()) c1 = (Inr (), c2)"
    and q: "Controller_issue react (Request (pr_request_id request) (pr_payload request) (phase_at index choices)) c2 = (Inr frames, c')"
    unfolding drive_request_def x by (auto simp: act_bind_Inr)
  have "issued (if ?a then [ActivateOutage (peer_route scenario)] else []) c c1"
    using a issued_refl [of c] by (auto simp: act_bind_Inr dest: issue_ran split: if_splits)
  moreover have "issued (if ?r then [RestoreNetwork (peer_route scenario)] else []) c1 c2"
    using r issued_refl [of c1] by (auto simp: act_bind_Inr dest: issue_ran split: if_splits)
  moreover have "issued [Request (pr_request_id request) (pr_payload request) (phase_at index choices)] c2 c'"
    using issue_ran [OF q] by simp
  ultimately show ?thesis unfolding request_commands_def x by (simp only: prod.case) (blast intro: issued_trans)
qed

lemma drive_requests_ran:
  "act_each (drive_request react scenario choices) xs c = (Inr u, c')
     \<Longrightarrow> issued (concat (map (request_commands scenario choices) xs)) c c'"
proof (induction xs arbitrary: c)
  case Nil
  then show ?case by (simp add: issued_refl)
next
  case (Cons x xs)
  then obtain c1 where one: "drive_request react scenario choices x c = (Inr (), c1)"
    and rest: "act_each (drive_request react scenario choices) xs c1 = (Inr u, c')" by (auto simp: act_bind_Inr)
  from issued_trans [OF drive_request_ran [OF one] Cons.IH [OF rest]] show ?case by simp
qed

lemma silent_response:
  "response_matches (Check a b) k ev \<Longrightarrow> \<not> is_network_event ev" "response_matches Shutdown k ev \<Longrightarrow> \<not> is_network_event ev"
  by (cases ev; simp add: is_network_event_def is_assertion_event_def)+

lemma guest_report_Inr: "guest_report frames = Inr report \<Longrightarrow> \<exists>f rest. frames = f # rest \<and> ef_event f = AssertionsEvaluated report"
  by (auto simp: guest_report_def split: list.splits Event.splits)

lemma drive_commands_ran:
  assumes "drive_commands react scenario choices c = (Inr report, c')"
  shows "issued (scenario_commands scenario choices) c c'
    \<and> report = evaluate (ct_raw_events c') (sc_outage_event_bound scenario) (sc_liveness_event_bound scenario)
    \<and> (\<exists>f \<in> set (ct_raw_events c'). ef_event f = AssertionsEvaluated report)
    \<and> (\<forall>expected. ct_expected_events c' = Some expected \<longrightarrow> length (ct_events c') = length expected)"
proof -
  let ?ob = "sc_outage_event_bound scenario" and ?lb = "sc_liveness_event_bound scenario"
  from assms obtain fs1 c1 c2 checked c3 stopped c4 c5 where
    one: "Controller_issue react (ConfigureNetwork ''eth0'' ''10.0.2.15/24'' (sc_fixture_peer scenario)) c = (Inr fs1, c1)"
    and two: "act_each (drive_request react scenario choices) (enumerate 0 (cp_requests choices)) c1 = (Inr (), c2)"
    and three: "Controller_issue react (Check ?ob ?lb) c2 = (Inr checked, c3)"
    and same: "guest_report checked = Inr (evaluate (ct_raw_events c2) ?ob ?lb)"
    and four: "Controller_issue react Shutdown c3 = (Inr stopped, c4)"
    and five: "on_vm vm_finish_events c4 = (Inr (), c5)" and six: "finish_replay c5 = (Inr (), c')"
    and report: "report = evaluate (ct_raw_events c2) ?ob ?lb"
    unfolding drive_commands_def Let_def by (auto simp: act_bind_Inr split: if_splits)
  from five obtain vm where c5: "c5 = c4\<lparr>ct_vm := vm\<rparr>" "vm_sent vm = vm_sent (ct_vm c4)"
    by (auto simp: on_vm_Inr dest: vm_finish_sent)
  from six have c': "c' = c5" and len: "\<forall>expected. ct_expected_events c' = Some expected \<longrightarrow> length (ct_events c') = length expected"
    by (auto simp: finish_replay_def split: option.splits if_splits)
  have "issued (scenario_commands scenario choices) c c4"
    unfolding scenario_commands_def opening_commands_def
    using issue_ran [OF one] drive_requests_ran [OF two] issue_ran [OF three] issue_ran [OF four]
    by (auto intro: issued_trans [of "[_]", simplified] issued_trans)
  then have issued: "issued (scenario_commands scenario choices) c c'"
    unfolding issued_def c' c5(1) using c5(2) by simp
  have raw: "ct_raw_events c' = ct_raw_events c2 @ (checked @ stopped)"
    using issue_ran [OF three] issue_ran [OF four] by (simp add: c' c5(1))
  have "\<not> is_network_event (ef_event f)" if "f \<in> set (checked @ stopped)" for f
    using that issue_ran [OF three] issue_ran [OF four] silent_response
    by (auto simp: answers_def in_set_conv_nth)
  then have "evaluate (ct_raw_events c') ?ob ?lb = report" unfolding raw report by (rule evaluate_append_silent)
  moreover from guest_report_Inr [OF same] have "\<exists>f \<in> set (ct_raw_events c'). ef_event f = AssertionsEvaluated report"
    unfolding raw report by auto
  ultimately show ?thesis using issued len by simp
qed


section \<open>Runs that succeed\<close>

text \<open>
  The frames still to come wait in the inbox in order, before \<open>tail\<close>; where a recording is
  expected it is what has been seen followed by them.
\<close>

definition stocked :: "EventFrame list \<Rightarrow> EventFrame list \<Rightarrow> arrival list \<Rightarrow> 'g Controller \<Rightarrow> bool" where
  "stocked seen left tail c \<longleftrightarrow> ct_raw_events c = seen \<and> ct_events c = map EventFrame_normalize seen
     \<and> ct_next_event_id c = length seen + 1 \<and> vm_inbox (ct_vm c) = map Arrived left @ tail
     \<and> (\<forall>expected. ct_expected_events c = Some expected \<longrightarrow> expected = map EventFrame_normalize (seen @ left))"

text \<open>What receiving leaves alone.\<close>

definition same_issuer :: "'g Controller \<Rightarrow> 'g Controller \<Rightarrow> bool" where
  "same_issuer c c' \<longleftrightarrow> ct_next_command_id c' = ct_next_command_id c \<and> ct_send_commands c' = ct_send_commands c
     \<and> ct_expected_events c' = ct_expected_events c \<and> vm_guest (ct_vm c') = vm_guest (ct_vm c)"

lemma vm_receive_stocked: "vm_inbox vm = Arrived f # rest \<Longrightarrow> vm_receive vm = (Inr f, vm\<lparr>vm_inbox := rest\<rparr>)"
  by (simp add: vm_receive_def)

lemma accept_stocked:
  assumes "stocked seen (f # left) tail c" "ef_protocol_version f = PROTOCOL_VERSION" "ef_command_id f = i"
    "ef_event_id f = length seen + 1" "response_matches command k (ef_event f)"
  shows "\<exists>c1 c2. receive_for command n k c = (Inr f, c1) \<and> accept_event command i k f c1 = (Inr f, c2)
    \<and> stocked (seen @ [f]) left tail c2 \<and> same_issuer c c2"
proof -
  let ?c1 = "c\<lparr>ct_vm := (ct_vm c)\<lparr>vm_inbox := map Arrived left @ tail\<rparr>\<rparr>"
  have "on_vm vm_receive c = (Inr f, ?c1)"
    using assms(1) vm_receive_stocked [of "ct_vm c" f "map Arrived left @ tail"] by (simp add: on_vm_def stocked_def)
  then have one: "receive_for command n k c = (Inr f, ?c1)" by (simp add: receive_for_def)
  let ?c' = "?c1\<lparr>ct_next_event_id := ct_next_event_id c + 1, ct_diagnostics := observe (EventFrame_normalize f) (ct_diagnostics c)\<rparr>"
  have cmp: "compare_next (EventFrame_normalize f) ?c' = (Inr (), ?c')"
    using assms(1) by (auto simp: compare_next_def Let_def stocked_def nth_append split: option.splits)
  have "accept_event command i k f ?c1 = (Inr f, ?c'\<lparr>ct_raw_events := seen @ [f], ct_events := map EventFrame_normalize (seen @ [f])\<rparr>)"
    using assms cmp by (simp add: accept_event_def Let_def act_bind_def validate_response_def stocked_def)
  with one assms(1) show ?thesis
    by (intro exI conjI) (assumption+, auto simp: stocked_def same_issuer_def)
qed


lemma same_issuer_trans: "same_issuer c d \<Longrightarrow> same_issuer d e \<Longrightarrow> same_issuer c e"
  by (simp add: same_issuer_def)

lemma receive_stocked:
  assumes "stocked seen (fs @ left) tail c"
    "\<And>j. j < length fs \<Longrightarrow> ef_protocol_version (fs ! j) = PROTOCOL_VERSION \<and> ef_command_id (fs ! j) = i
         \<and> ef_event_id (fs ! j) = length seen + 1 + j \<and> response_matches command (k + j) (ef_event (fs ! j))"
  shows "\<exists>c'. receive_responses command i n [k..<k + length fs] c = (Inr fs, c')
    \<and> stocked (seen @ fs) left tail c' \<and> same_issuer c c'"
  using assms
proof (induction fs arbitrary: k seen c)
  case Nil
  then show ?case by (simp add: same_issuer_def)
next
  case (Cons f fs)
  from Cons.prems(2) [of 0] accept_stocked [of seen f "fs @ left" tail c i command k n] Cons.prems(1)
  obtain c1 c2 where one: "receive_for command n k c = (Inr f, c1)" "accept_event command i k f c1 = (Inr f, c2)"
    and st: "stocked (seen @ [f]) (fs @ left) tail c2" "same_issuer c c2" by auto
  have "\<exists>c'. receive_responses command i n [Suc k..<Suc k + length fs] c2 = (Inr fs, c')
      \<and> stocked ((seen @ [f]) @ fs) left tail c' \<and> same_issuer c2 c'"
    using Cons.prems(2) [of "Suc _"] by (intro Cons.IH [OF st(1)]) simp
  then obtain c' where rest: "receive_responses command i n [Suc k..<Suc k + length fs] c2 = (Inr fs, c')"
    "stocked (seen @ f # fs) left tail c'" "same_issuer c2 c'" by auto
  have "[k..<k + length (f # fs)] = k # [Suc k..<Suc k + length fs]" by (simp add: upt_rec)
  with one rest(1) have "receive_responses command i n [k..<k + length (f # fs)] c = (Inr (f # fs), c')" by simp
  with rest(2) same_issuer_trans [OF st(2) rest(3)] show ?case by blast
qed

text \<open>The state of a controller that consumes a recorded run.\<close>

definition replaying :: "nat \<Rightarrow> EventFrame list \<Rightarrow> EventFrame list \<Rightarrow> 'g Controller \<Rightarrow> bool" where
  "replaying i seen left c \<longleftrightarrow> stocked seen left [Ended] c \<and> \<not> ct_send_commands c \<and> ct_next_command_id c = i"

lemma issue_replaying:
  assumes "replaying i seen (fs @ left) c" "answers i (length seen + 1) command fs"
  shows "\<exists>c'. Controller_issue react command c = (Inr fs, c') \<and> replaying (i + 1) (seen @ fs) left c'"
proof -
  let ?c1 = "c\<lparr>ct_next_command_id := i + 1\<rparr>"
  have "stocked seen (fs @ left) [Ended] ?c1" using assms(1) by (simp add: replaying_def stocked_def)
  then obtain c' where "receive_responses command i (response_count command) [0..<response_count command] ?c1 = (Inr fs, c')"
    "stocked (seen @ fs) left [Ended] c'" "same_issuer ?c1 c'"
    using receive_stocked [of seen fs left "[Ended]" ?c1 i command 0 "response_count command"] assms(2)
    by (auto simp: answers_def)
  then show ?thesis using assms(1)
    by (intro exI [of _ c']) (simp add: Controller_issue_def Let_def replaying_def same_issuer_def act_bind_def)
qed


section \<open>Sources of answers\<close>

text \<open>
  The contract of what answers the commands, be it a live guest or a recording: at a point of the
  run it answers the next command, it reports on a check what the events seen so far evaluate to,
  and after the last command the channel closes. Every run over such a source completes.
\<close>

locale command_source =
  fixes react :: "'g react" and at_point :: "EventFrame list \<Rightarrow> Command list \<Rightarrow> 'g Controller \<Rightarrow> bool"
  assumes seen_events: "at_point seen rest c \<Longrightarrow> ct_raw_events c = seen"
    and issue_answered: "at_point seen (command # rest) c \<Longrightarrow>
      \<exists>fs c'. Controller_issue react command c = (Inr fs, c') \<and> at_point (seen @ fs) rest c'
        \<and> (\<forall>a b. command = Check a b \<longrightarrow> guest_report fs = Inr (evaluate seen a b))"
    and run_closed: "at_point seen [] c \<Longrightarrow> \<exists>c'. act_bind (on_vm vm_finish_events) (\<lambda>_. finish_replay) c = (Inr (), c')"
begin

definition served :: "('g, 'a) controls \<Rightarrow> Command list \<Rightarrow> bool" where
  "served a commands \<longleftrightarrow> (\<forall>seen rest c. at_point seen (commands @ rest) c
     \<longrightarrow> (\<exists>x c' fs. a c = (Inr x, c') \<and> at_point (seen @ fs) rest c'))"

lemma served_bind: "served a cs \<Longrightarrow> (\<And>x. served (f x) ds) \<Longrightarrow> served (act_bind a f) (cs @ ds)"
  unfolding served_def append_assoc act_bind_Inr by (metis append_assoc)

lemma served_return: "served (act_return x) []"
  unfolding served_def by (auto intro: exI [of _ "[]"])

lemma served_issue: "served (Controller_issue react command) [command]"
  unfolding served_def using issue_answered by fastforce

lemma served_drop: "served a cs \<Longrightarrow> served (act_bind a (\<lambda>_. act_return ())) cs"
  using served_bind [OF _ served_return] by fastforce

lemma served_when: "served a cs \<Longrightarrow> served (if b then act_bind a (\<lambda>_. act_return ()) else act_return ()) (if b then cs else [])"
  by (cases b) (simp_all only: if_True if_False served_drop served_return)

lemma served_request: "served (drive_request react scenario choices x) (request_commands scenario choices x)"
  unfolding drive_request_def request_commands_def
  by (cases x) (simp only: prod.case, intro served_bind served_when served_drop served_issue)

lemma served_requests:
  "served (act_each (drive_request react scenario choices) xs) (concat (map (request_commands scenario choices) xs))"
proof (induction xs)
  case Nil
  show ?case unfolding act_each.simps list.map concat.simps by (rule served_return)
next
  case (Cons x xs)
  from served_bind [OF served_request Cons.IH] show ?case by simp
qed

lemma run_completes:
  assumes "at_point [] (scenario_commands scenario choices) c"
  shows "\<exists>report c'. drive_commands react scenario choices c = (Inr report, c')"
proof -
  let ?ob = "sc_outage_event_bound scenario" and ?lb = "sc_liveness_event_bound scenario"
  let ?configure = "ConfigureNetwork ''eth0'' ''10.0.2.15/24'' (sc_fixture_peer scenario)"
  from assms obtain fs1 c1 where one: "Controller_issue react ?configure c = (Inr fs1, c1)"
    and p1: "at_point fs1 (concat (map (request_commands scenario choices) (enumerate 0 (cp_requests choices)))
      @ [Check ?ob ?lb, Shutdown]) c1"
    unfolding scenario_commands_def opening_commands_def using issue_answered by fastforce
  from served_requests [unfolded served_def, rule_format, OF p1] obtain u c2 seen where
    two: "act_each (drive_request react scenario choices) (enumerate 0 (cp_requests choices)) c1 = (Inr u, c2)"
    and p2: "at_point seen [Check ?ob ?lb, Shutdown] c2" by blast
  from issue_answered [OF p2] obtain checked c3 where three: "Controller_issue react (Check ?ob ?lb) c2 = (Inr checked, c3)"
    and p3: "at_point (seen @ checked) [Shutdown] c3" and report: "guest_report checked = Inr (evaluate seen ?ob ?lb)" by blast
  from issue_answered [OF p3] obtain stopped c4 where four: "Controller_issue react Shutdown c3 = (Inr stopped, c4)"
    and p4: "at_point ((seen @ checked) @ stopped) [] c4" by blast
  from run_closed [OF p4] obtain c5 c6 where five: "on_vm vm_finish_events c4 = (Inr (), c5)" and six: "finish_replay c5 = (Inr (), c6)"
    by (auto simp: act_bind_Inr)
  from one two three four five six report seen_events [OF p2] show ?thesis
    by (simp add: drive_commands_def Let_def)
qed

end

lemma dialogue_split:
  assumes "dialogue i e (cs @ ds) fs"
  obtains gs hs where "fs = gs @ hs" "dialogue i e cs gs" "dialogue (i + length cs) (e + length gs) ds hs"
proof -
  have "\<exists>gs hs. fs = gs @ hs \<and> dialogue i e cs gs \<and> dialogue (i + length cs) (e + length gs) ds hs" using assms
  proof (induction cs arbitrary: i e fs)
    case (Cons c cs)
    from Cons.prems have one: "answers i e c (take (response_count c) fs)"
      and rest: "dialogue (i + 1) (e + response_count c) (cs @ ds) (drop (response_count c) fs)" by simp_all
    from answers_length [OF one] have len: "response_count c \<le> length fs" by simp
    from Cons.IH [OF rest] obtain gs hs where "drop (response_count c) fs = gs @ hs"
      "dialogue (i + 1) (e + response_count c) cs gs"
      "dialogue (i + 1 + length cs) (e + response_count c + length gs) ds hs" by blast
    with one len show ?case
      by (intro exI [of _ "take (response_count c) fs @ gs"] exI [of _ hs]) (simp add: add.assoc [symmetric], metis append_take_drop_id)
  qed simp
  with that show thesis by blast
qed


section \<open>A recording as the source\<close>

lemma dialogue_single_iff: "dialogue i e [c] fs \<longleftrightarrow> answers i e c fs"
  using answers_length [of i e c fs] answers_length [of i e c "take (response_count c) fs"] by auto

lemma check_answer:
  assumes "answers i e (Check a b) fs"
  obtains f report where "fs = [f]" "ef_event f = AssertionsEvaluated report" "valid_report report"
proof -
  from assms have "length fs = 1" and m: "response_matches (Check a b) 0 (ef_event (fs ! 0))"
    by (auto simp: answers_def response_count_def)
  then obtain f where f: "fs = [f]" by (auto simp: length_Suc_conv)
  with m that show thesis by (cases "ef_event f") auto
qed

lemma scenario_check_last:
  assumes "scenario_commands scenario choices = cmds @ Check a b # rest"
  shows "a = sc_outage_event_bound scenario \<and> b = sc_liveness_event_bound scenario \<and> rest = [Shutdown]"
proof -
  let ?check = "Check (sc_outage_event_bound scenario) (sc_liveness_event_bound scenario)"
  have no: "Check x y \<notin> set (opening_commands scenario choices)" for x y
    by (auto simp: opening_commands_def request_commands_def split: if_splits)
  have "Check a b \<in> set (scenario_commands scenario choices)" unfolding assms by simp
  then have same: "Check a b = ?check" using no by (auto simp: scenario_commands_def)
  have "opening_commands scenario choices @ ?check # [Shutdown] = cmds @ ?check # rest"
    using assms by (simp add: scenario_commands_def same)
  then show ?thesis using same append_Cons_eq_iff [of ?check "opening_commands scenario choices" "[Shutdown]"] no by simp
qed

definition replay_point :: "Scenario \<Rightarrow> ChoicePlan \<Rightarrow> EventFrame list \<Rightarrow> Command list \<Rightarrow> 'g Controller \<Rightarrow> bool" where
  "replay_point scenario choices seen rest c \<longleftrightarrow> (\<exists>i left before. scenario_commands scenario choices = before @ rest
     \<and> replaying i seen left c \<and> dialogue i (length seen + 1) rest left
     \<and> (\<forall>f report. f \<in> set left \<longrightarrow> ef_event f = AssertionsEvaluated report
          \<longrightarrow> report = evaluate (seen @ left) (sc_outage_event_bound scenario) (sc_liveness_event_bound scenario)))"

lemma replay_check:
  assumes "answers i e (Check a b) fs" "answers i' e' Shutdown gs"
    "\<And>f report. f \<in> set fs \<Longrightarrow> ef_event f = AssertionsEvaluated report \<Longrightarrow> report = evaluate (seen @ fs @ gs) a b"
  shows "guest_report fs = Inr (evaluate seen a b)"
proof -
  have "\<not> is_network_event (ef_event f)" if "f \<in> set (fs @ gs)" for f
    using that assms(1,2) silent_response by (auto simp: answers_def in_set_conv_nth)
  then have "evaluate (seen @ fs @ gs) a b = evaluate seen a b" by (rule evaluate_append_silent)
  moreover from check_answer [OF assms(1)] obtain f report where f: "fs = [f]" "ef_event f = AssertionsEvaluated report" by blast
  ultimately have "report = evaluate seen a b" using assms(3) [of f report] by (metis list.set_intros(1))
  with f show ?thesis by (simp add: guest_report_def)
qed

interpretation replay: command_source react "replay_point scenario choices" for react :: "'g react" and scenario choices
proof
  fix seen rest and c :: "'g Controller"
  assume "replay_point scenario choices seen rest c"
  then show "ct_raw_events c = seen" by (auto simp: replay_point_def replaying_def stocked_def)
next
  fix seen command rest and c :: "'g Controller"
  let ?ob = "sc_outage_event_bound scenario" and ?lb = "sc_liveness_event_bound scenario"
  assume "replay_point scenario choices seen (command # rest) c"
  then obtain i left before where cmds: "scenario_commands scenario choices = before @ command # rest"
    and rep: "replaying i seen left c" and d: "dialogue i (length seen + 1) ([command] @ rest) left"
    and reported: "\<And>f report. f \<in> set left \<Longrightarrow> ef_event f = AssertionsEvaluated report \<Longrightarrow> report = evaluate (seen @ left) ?ob ?lb"
    unfolding replay_point_def append_Cons append_Nil by blast
  from d obtain fs gs where left: "left = fs @ gs" and a: "answers i (length seen + 1) command fs"
    and rest: "dialogue (i + 1) (length seen + 1 + length fs) rest gs"
    by (rule dialogue_split) (simp add: dialogue_single_iff del: dialogue.simps)
  from issue_replaying [OF rep [unfolded left] a] obtain c' where c': "Controller_issue react command c = (Inr fs, c')"
    "replaying (i + 1) (seen @ fs) gs c'" by blast
  have "replay_point scenario choices (seen @ fs) rest c'" unfolding replay_point_def
    using cmds c'(2) rest reported left
    by (intro exI [of _ "i + 1"] exI [of _ gs] exI [of _ "before @ [command]"]) (auto simp: add.assoc)
  moreover have "guest_report fs = Inr (evaluate seen x y)" if "command = Check x y" for x y
  proof -
    from scenario_check_last [OF cmds [unfolded that]] have ends: "x = ?ob" "y = ?lb" "rest = [Shutdown]" by simp_all
    show ?thesis unfolding ends(1,2)
      by (rule replay_check [OF a [unfolded that ends(1,2)] rest [unfolded ends(3) dialogue_single_iff]])
        (use reported left in auto)
  qed
  ultimately show "\<exists>fs c'. Controller_issue react command c = (Inr fs, c') \<and> replay_point scenario choices (seen @ fs) rest c'
      \<and> (\<forall>a b. command = Check a b \<longrightarrow> guest_report fs = Inr (evaluate seen a b))" using c'(1) by blast
next
  fix seen and c :: "'g Controller"
  assume "replay_point scenario choices seen [] c"
  then have rep: "stocked seen [] [Ended] c" by (auto simp: replay_point_def replaying_def)
  then show "\<exists>c'. act_bind (on_vm vm_finish_events) (\<lambda>_. finish_replay) c = (Inr (), c')"
    by (auto simp: stocked_def act_bind_Inr on_vm_def vm_finish_events_def finish_replay_def split: option.splits)
qed


section \<open>Recordings and replays\<close>

text \<open>The frames that the replay's preflight rebuilds from recorded events.\<close>


lemma drive_inner_Inr:
  assumes "drive_scenario_inner react scenario choices vm send expected d = (Inr (events, report), c)"
  shows "\<exists>frames. ct_raw_events c = frames \<and> events = map EventFrame_normalize frames
    \<and> dialogue 1 1 (scenario_commands scenario choices) frames
    \<and> report = evaluate frames (sc_outage_event_bound scenario) (sc_liveness_event_bound scenario)
    \<and> (\<exists>f \<in> set frames. ef_event f = AssertionsEvaluated report)
    \<and> vm_sent (ct_vm c) = vm_sent vm @ (if send then command_frames 1 (scenario_commands scenario choices) else [])
    \<and> (\<forall>xs. expected = Some xs \<longrightarrow> events = xs)"
proof -
  let ?c0 = "Controller_new vm send expected d"
  from assms have run: "drive_commands react scenario choices ?c0 = (Inr report, c)" and events: "events = ct_events c"
    by (auto simp: drive_scenario_inner_def act_bind_Inr)
  have start: "ct_raw_events ?c0 = []" "ct_events ?c0 = []" "ct_next_command_id ?c0 = 1" "ct_next_event_id ?c0 = 1"
    "ct_send_commands ?c0 = send" "ct_expected_events ?c0 = expected" "ct_vm ?c0 = vm" by (simp_all add: Controller_new_def)
  note did = drive_commands_ran [OF run]
  from did [THEN conjunct1] obtain frames where f: "ct_raw_events c = frames" "ct_events c = map EventFrame_normalize frames"
    "dialogue 1 1 (scenario_commands scenario choices) frames" "ct_expected_events c = expected"
    "vm_sent (ct_vm c) = vm_sent vm @ (if send then command_frames 1 (scenario_commands scenario choices) else [])"
    "\<And>xs. expected = Some xs \<Longrightarrow> \<exists>r. xs = map EventFrame_normalize frames @ r"
    unfolding issued_def start append_Nil by auto
  have "events = xs" if "expected = Some xs" for xs
    using f(6) [OF that] did f(2,4) that by (auto simp: events)
  with did f events show ?thesis by auto
qed

section \<open>Properties\<close>

text \<open>
  C12. A recording that completes is a faithful transcript: the guest was sent exactly the commands
  of the plan, numbered from one; the events kept are the normalized form of frames that answer
  those commands in order, each with its own number of answers and contiguous identifiers; and the
  report returned is the evaluation of those frames, which the guest's own report equals.
\<close>

theorem recording_faithful:
  assumes "drive_scenario react scenario choices vm diagnostics = (Inr (events, report), c)"
  shows "\<exists>frames. events = map EventFrame_normalize frames \<and> dialogue 1 1 (scenario_commands scenario choices) frames
    \<and> report = evaluate frames (sc_outage_event_bound scenario) (sc_liveness_event_bound scenario)
    \<and> (\<exists>f \<in> set frames. ef_event f = AssertionsEvaluated report)
    \<and> vm_sent (ct_vm c) = vm_sent vm @ command_frames 1 (scenario_commands scenario choices)"
  using drive_inner_Inr [OF assms [unfolded drive_scenario_def]] by auto

text \<open>
  C13. A replay that completes reproduced the recording: it sent the guest nothing, the events it
  saw are the recorded ones, and its report is the one that evaluating the recorded events gives.
\<close>

theorem replay_faithful:
  assumes "drive_replay_scenario react scenario choices expected vm diagnostics = (Inr (events, report), c)"
  shows "events = expected \<and> vm_sent (ct_vm c) = vm_sent vm
    \<and> report = evaluate (map recorded_frame expected) (sc_outage_event_bound scenario) (sc_liveness_event_bound scenario)"
proof -
  from drive_inner_Inr [OF assms [unfolded drive_replay_scenario_def]] have "events = expected"
    "events = map EventFrame_normalize (ct_raw_events c)" "vm_sent (ct_vm c) = vm_sent vm"
    "report = evaluate (ct_raw_events c) (sc_outage_event_bound scenario) (sc_liveness_event_bound scenario)" by auto
  then show ?thesis using evaluate_recorded [of "ct_raw_events c"] by simp
qed

lemma reports_of_dialogue:
  assumes "dialogue i e cs fs" "f \<in> set fs" "ef_event f = AssertionsEvaluated r"
  shows "\<exists>before a b after gs hs. cs = before @ Check a b # after \<and> fs = gs @ f # hs
    \<and> dialogue i e before gs \<and> dialogue (i + length before + 1) (e + length gs + 1) after hs"
  using assms
proof (induction cs arbitrary: i e fs)
  case (Cons c cs)
  from Cons.prems(1) have one: "answers i e c (take (response_count c) fs)"
    and rest: "dialogue (i + 1) (e + response_count c) cs (drop (response_count c) fs)" by simp_all
  note len = answers_length [OF one]
  consider "f \<in> set (take (response_count c) fs)" | "f \<in> set (drop (response_count c) fs)"
    using Cons.prems(2) by (metis Un_iff append_take_drop_id set_append)
  then show ?case
  proof cases
    case 1
    then obtain k where "k < response_count c" "response_matches c k (AssertionsEvaluated r)"
      using one Cons.prems(3) len by (metis answers_def in_set_conv_nth)
    then obtain a b where c: "c = Check a b" by (cases c) (auto split: if_splits)
    then have one: "response_count c = 1" by (simp add: response_count_def)
    with 1 have "fs = [] @ f # drop 1 fs" by (cases fs) auto
    with rest one c show ?thesis
      by (intro exI [of _ "[]"] exI [of _ a] exI [of _ b] exI [of _ cs] exI [of _ "drop 1 fs"]) simp
  next
    case 2
    from Cons.IH [OF rest 2 Cons.prems(3)] obtain before a b after gs hs where ih: "cs = before @ Check a b # after"
      "drop (response_count c) fs = gs @ f # hs" "dialogue (i + 1) (e + response_count c) before gs"
      "dialogue (i + 1 + length before + 1) (e + response_count c + length gs + 1) after hs" by blast
    have fs: "fs = (take (response_count c) fs @ gs) @ f # hs" using ih(2) by (metis append.assoc append_take_drop_id)
    have "dialogue i e (c # before) (take (response_count c) fs @ gs)" using one ih(3) len by simp
    moreover have "dialogue (i + length (c # before) + 1) (e + length (take (response_count c) fs @ gs) + 1) after hs"
      using ih(4) len by (simp add: add.assoc)
    ultimately show ?thesis using ih(1) fs by (metis append_Cons)
  qed
qed simp

lemma dialogue_length: "dialogue i e cs fs \<Longrightarrow> length fs = sum_list (map response_count cs)"
proof (induction cs arbitrary: i e fs)
  case (Cons c cs)
  then have "answers i e c (take (response_count c) fs)" "length fs - response_count c = sum_list (map response_count cs)"
    by fastforce+
  with answers_length [of i e c "take (response_count c) fs"] show ?case by simp
qed simp

lemma report_position:
  assumes "dialogue 1 1 (scenario_commands scenario choices) fs" "f \<in> set fs" "ef_event f = AssertionsEvaluated r"
  shows "f = fs ! sum_list (map response_count (opening_commands scenario choices))"
proof -
  from reports_of_dialogue [OF assms] obtain before a b after gs hs where
    cs: "scenario_commands scenario choices = before @ Check a b # after" and fs: "fs = gs @ f # hs" and g: "dialogue 1 1 before gs" by blast
  from scenario_check_last [OF cs] cs have "before = opening_commands scenario choices"
    by (simp add: scenario_commands_def)
  with dialogue_length [OF g] fs show ?thesis by (metis nth_append_length)
qed

lemma answers_recorded: "answers i e c (map (recorded_frame \<circ> EventFrame_normalize) fs) = answers i e c fs"
  by (auto simp: answers_def recorded_frame_normalize)

lemma dialogue_recorded: "dialogue i e cs (map (recorded_frame \<circ> EventFrame_normalize) fs) = dialogue i e cs fs"
  by (induction cs arbitrary: i e fs) (simp_all only: dialogue.simps map_is_Nil_conv take_map drop_map answers_recorded)

lemma dialogue_same_events:
  "map EventFrame_normalize fs = map EventFrame_normalize gs \<Longrightarrow> dialogue i e cs fs = dialogue i e cs gs"
  by (metis dialogue_recorded map_map)

text \<open>The state in which the replay of recorded frames starts.\<close>

lemma replay_starts:
  assumes d: "dialogue 1 1 (scenario_commands scenario choices) frames" and inbox: "vm_inbox vm = map Arrived frames @ [Ended]"
    and f: "f \<in> set frames"
      "ef_event f = AssertionsEvaluated (evaluate frames (sc_outage_event_bound scenario) (sc_liveness_event_bound scenario))"
  shows "replay_point scenario choices [] (scenario_commands scenario choices)
    (Controller_new vm False (Some (map EventFrame_normalize frames)) d')"
  unfolding replay_point_def
proof (intro exI conjI allI impI)
  show "scenario_commands scenario choices = [] @ scenario_commands scenario choices" by simp
  show "replaying 1 [] frames (Controller_new vm False (Some (map EventFrame_normalize frames)) d')"
    by (simp add: replaying_def stocked_def Controller_new_def inbox)
  show "dialogue 1 (length ([] :: EventFrame list) + 1) (scenario_commands scenario choices) frames" using d by simp
next
  fix g r
  assume "g \<in> set frames" "ef_event g = AssertionsEvaluated r"
  with report_position [OF d] f have "g = f" by metis
  with f(2) \<open>ef_event g = AssertionsEvaluated r\<close>
  show "r = evaluate ([] @ frames) (sc_outage_event_bound scenario) (sc_liveness_event_bound scenario)" by simp
qed

text \<open>
  C11. Every recording can be replayed: whatever the guest of the replay does otherwise, when the
  events that arrive are the recorded ones, whatever their diagnostics, and the channel then
  closes, the replay completes with the recorded events and the recorded report.
\<close>

theorem recording_replays:
  assumes recorded: "drive_scenario react scenario choices vm d = (Inr (events, report), c)"
    and same: "map EventFrame_normalize frames = events" and inbox: "vm_inbox vm' = map Arrived frames @ [Ended]"
  shows "\<exists>c'. drive_replay_scenario react' scenario choices events vm' d' = (Inr (events, report), c')"
proof -
  let ?ob = "sc_outage_event_bound scenario" and ?lb = "sc_liveness_event_bound scenario"
  from drive_inner_Inr [OF recorded [unfolded drive_scenario_def]] obtain fs where fs: "events = map EventFrame_normalize fs"
    and d: "dialogue 1 1 (scenario_commands scenario choices) fs" and report: "report = evaluate fs ?ob ?lb"
    and guest: "\<exists>f \<in> set fs. ef_event f = AssertionsEvaluated report" by blast
  let ?c0 = "Controller_new vm' False (Some events) d'"
  have "replay_point scenario choices [] (scenario_commands scenario choices) ?c0"
  proof -
    from same fs have eq: "map EventFrame_normalize frames = map EventFrame_normalize fs" by simp
    from guest obtain k where "k < length fs" "ef_event (fs ! k) = AssertionsEvaluated report" by (metis in_set_conv_nth)
    moreover have len: "length frames = length fs" using arg_cong [OF eq, of length] by simp
    moreover have "ef_event (frames ! k) = ef_event (fs ! k)" if "k < length fs" for k
      using arg_cong [OF eq, of "\<lambda>xs. ne_event (xs ! k)"] that len by (simp add: EventFrame_normalize_def)
    ultimately have "frames ! k \<in> set frames" "ef_event (frames ! k) = AssertionsEvaluated report" by simp_all
    moreover have "report = evaluate frames ?ob ?lb" using evaluate_recorded [of frames] evaluate_recorded [of fs] eq report by metis
    ultimately show ?thesis using replay_starts [OF _ inbox] d dialogue_same_events [OF eq] same by metis
  qed
  from replay.run_completes [OF this] obtain r c' where "drive_commands react' scenario choices ?c0 = (Inr r, c')" by blast
  then have run: "drive_replay_scenario react' scenario choices events vm' d' = (Inr (ct_events c', r), c')"
    by (simp add: drive_replay_scenario_def drive_scenario_inner_def)
  from drive_inner_Inr [OF run [unfolded drive_replay_scenario_def]] have "ct_events c' = events"
    "ct_events c' = map EventFrame_normalize (ct_raw_events c')" "r = evaluate (ct_raw_events c') ?ob ?lb" by auto
  then have "r = report" using evaluate_recorded [of "ct_raw_events c'"] evaluate_recorded [of fs] fs report by metis
  with run \<open>ct_events c' = events\<close> show ?thesis by blast
qed

lemma for_each_unit: "for_each (\<lambda>_. check) () xs = Inr () \<longleftrightarrow> (\<forall>x \<in> set xs. check x = Inr ())"
  by (induction xs) (auto simp: and_then_def split: sum.splits)

text \<open>
  The comparison of two event logs succeeds exactly when they are equal.
\<close>

theorem compare_events_iff: "compare_events expected actual = Inr () \<longleftrightarrow> expected = actual"
proof -
  have at: "compare_at expected actual i = Inr () \<longleftrightarrow> i < length expected \<and> i < length actual \<and> expected ! i = actual ! i" for i
    by (simp add: compare_at_def)
  have "compare_events expected actual = Inr () \<longleftrightarrow> (\<forall>i < max (length expected) (length actual). compare_at expected actual i = Inr ())"
    unfolding compare_events_def by (subst for_each_unit) auto
  also have "\<dots> \<longleftrightarrow> expected = actual"
    unfolding at by (auto simp: less_max_iff_disj intro!: nth_equalityI) (meson less_irrefl linorder_less_linear)
  finally show ?thesis .
qed

section \<open>A run on a scripted guest\<close>

text \<open>A guest that answers each command with the next part of a script.\<close>

definition scripted :: "arrival list list react" where
  "scripted frame script = (case script of [] \<Rightarrow> (Inr [], []) | part # rest \<Rightarrow> (Inr part, rest))"

definition sample_scenario :: Scenario where
  "sample_scenario = \<lparr>sc_version = 1, sc_name = ''sample'', sc_request_count = 3, sc_payload_bytes = 1,
     sc_fixture_peer = ''10.0.2.2'', sc_outage_event_bound = 1, sc_liveness_event_bound = 2, sc_corrupt_responses = False\<rparr>"

definition sample_plan :: ChoicePlan where
  "sample_plan = \<lparr>cp_version = 1, cp_seed = 0, cp_outage_activation_request_index = 1, cp_restoration_request_index = 2,
     cp_requests = [\<lparr>pr_request_id = ''a'', pr_payload = ''x''\<rparr>, \<lparr>pr_request_id = ''b'', pr_payload = ''y''\<rparr>,
       \<lparr>pr_request_id = ''c'', pr_payload = ''z''\<rparr>]\<rparr>"

definition sample_frames :: "EventFrame list" where
  "sample_frames = sample_history
     @ [sample_frame 10 7 (AssertionsEvaluated (evaluate sample_history 1 2)), sample_frame 11 8 AgentStopped]"

definition sample_vm :: "arrival list list vm" where
  "sample_vm = \<lparr>vm_guest = map (\<lambda>i. map Arrived (filter (\<lambda>f. ef_command_id f = i) sample_frames) @ (if i = 8 then [Ended] else [])) [1..<9],
     vm_inbox = [], vm_sent = []\<rparr>"


lemma sample_records:
  "fst (drive_scenario scripted sample_scenario sample_plan sample_vm (FailureDiagnostics_new ''record''))
     = Inr (map EventFrame_normalize sample_frames, evaluate sample_history 1 2)"
  by code_simp

definition sample_replay_vm :: "arrival list list vm" where
  "sample_replay_vm = \<lparr>vm_guest = [], vm_inbox = map Arrived sample_frames @ [Ended], vm_sent = []\<rparr>"

lemma sample_replays:
  "fst (drive_replay_scenario scripted sample_scenario sample_plan (map EventFrame_normalize sample_frames) sample_replay_vm
      (FailureDiagnostics_new ''replay''))
     = Inr (map EventFrame_normalize sample_frames, evaluate sample_history 1 2)"
  by code_simp

theorem recording_faithful_witness:
  "\<exists>events report c frames. drive_scenario scripted sample_scenario sample_plan sample_vm (FailureDiagnostics_new ''record'')
       = (Inr (events, report), c)
     \<and> events = map EventFrame_normalize frames \<and> dialogue 1 1 (scenario_commands sample_scenario sample_plan) frames
     \<and> vm_sent (ct_vm c) = command_frames 1 (scenario_commands sample_scenario sample_plan)"
proof -
  from sample_records obtain c where run: "drive_scenario scripted sample_scenario sample_plan sample_vm (FailureDiagnostics_new ''record'')
    = (Inr (map EventFrame_normalize sample_frames, evaluate sample_history 1 2), c)" by (metis prod.collapse)
  with recording_faithful [OF run] show ?thesis by (auto simp: sample_vm_def)
qed

theorem replay_faithful_witness:
  "\<exists>events report c. drive_replay_scenario scripted sample_scenario sample_plan (map EventFrame_normalize sample_frames)
       sample_replay_vm (FailureDiagnostics_new ''replay'') = (Inr (events, report), c)
     \<and> events = map EventFrame_normalize sample_frames \<and> vm_sent (ct_vm c) = []"
proof -
  from sample_replays obtain c where run: "drive_replay_scenario scripted sample_scenario sample_plan (map EventFrame_normalize sample_frames)
      sample_replay_vm (FailureDiagnostics_new ''replay'')
    = (Inr (map EventFrame_normalize sample_frames, evaluate sample_history 1 2), c)" by (metis prod.collapse)
  with replay_faithful [OF run] show ?thesis by (auto simp: sample_replay_vm_def)
qed

theorem recording_replays_witness:
  "\<exists>events report c c'. drive_scenario scripted sample_scenario sample_plan sample_vm (FailureDiagnostics_new ''record'')
       = (Inr (events, report), c)
     \<and> drive_replay_scenario scripted sample_scenario sample_plan events sample_replay_vm (FailureDiagnostics_new ''replay'')
       = (Inr (events, report), c')"
proof -
  from sample_records obtain c where run: "drive_scenario scripted sample_scenario sample_plan sample_vm (FailureDiagnostics_new ''record'')
    = (Inr (map EventFrame_normalize sample_frames, evaluate sample_history 1 2), c)" by (metis prod.collapse)
  with recording_replays [OF run refl, of sample_replay_vm scripted "FailureDiagnostics_new ''replay''"] show ?thesis
    by (auto simp: sample_replay_vm_def)
qed

end
