(* ===== verification/Checker_Trace.thy ===== *)
theory Checker_Trace
  imports Scenario_Plan Assertions
begin

text \<open>
  The trace of \<open>checker.rs\<close>: the process and byte facts of a workload run, reconstructed from the
  event stream alone. Every operation keeps the list of violations it found. A \<open>BTreeMap\<close> is an
  association list in key order. The lemmas: violations are never forgotten, and of a trace without
  violations every field is a plain function of the event history, each output stream the
  concatenation of its frames, cut into lines at the newlines.
\<close>

section \<open>Texts\<close>

definition MAX_RESPONSE_LINE_BYTES :: nat where "MAX_RESPONSE_LINE_BYTES = 1024"
definition READY_LINE :: string where "READY_LINE = ''ready version=1''"
definition FRESH_STATE_LINE :: string where "FRESH_STATE_LINE = ''state value=fresh root=fresh''"
definition STATE_LINE_PREFIX :: string where "STATE_LINE_PREFIX = ''state value=''"
definition ESCAPED_DESCENDANT_LINE :: string where "ESCAPED_DESCENDANT_LINE = ''descendant state=escaped''"
definition NETWORK_INTERFACE :: string where "NETWORK_INTERFACE = ''eth0''"
definition NETWORK_GUEST_CIDR :: string where "NETWORK_GUEST_CIDR = ''10.0.2.15/24''"
definition FIXTURE_PEER :: string where "FIXTURE_PEER = ''10.0.2.2''"

definition echo_token :: "u64 \<Rightarrow> nat \<Rightarrow> string" where
  "echo_token seed invocation = ''echo-'' @ dec invocation @ ''-'' @ zero_pad 16 (lower_hex (unat seed))"

definition request_phase :: "nat \<Rightarrow> nat \<Rightarrow> nat \<Rightarrow> RequestPhase" where
  "request_phase index activation restoration =
     (if index < activation then PreOutage else if index < restoration then Outage else Recovery)"

definition expected_network_line :: "PlannedRequest \<Rightarrow> RequestPhase \<Rightarrow> string" where
  "expected_network_line request phase =
     (case phase of
        Outage \<Rightarrow> ''network state=unavailable request='' @ pr_request_id request @ '' errno='' @ dec_int EACCES
      | _ \<Rightarrow> ''network state=ok request='' @ pr_request_id request)"

text \<open>
  \<open>String::from_utf8_lossy\<close>: every maximal prefix of an ill-formed sequence becomes one
  replacement character.
\<close>

definition replacement :: bytes where "replacement = [0xef, 0xbf, 0xbd]"

definition second_ok :: "u8 \<Rightarrow> u8 \<Rightarrow> bool" where
  "second_ok a b \<longleftrightarrow> utf8_cont b \<and> (a = 0xe0 \<longrightarrow> 0xa0 \<le> b) \<and> (a = 0xed \<longrightarrow> b \<le> 0x9f)
     \<and> (a = 0xf0 \<longrightarrow> 0x90 \<le> b) \<and> (a = 0xf4 \<longrightarrow> b \<le> 0x8f)"

definition utf8_width :: "u8 \<Rightarrow> nat" where
  "utf8_width a =
     (if a < 0x80 then 1
      else if 0xc2 \<le> a \<and> a \<le> 0xdf then 2
      else if 0xe0 \<le> a \<and> a \<le> 0xef then 3
      else if 0xf0 \<le> a \<and> a \<le> 0xf4 then 4
      else 0)"

text \<open>How many bytes at the front belong together, and whether they are a character.\<close>

definition utf8_chunk :: "u8 \<Rightarrow> bytes \<Rightarrow> nat \<times> bool" where
  "utf8_chunk a rest =
     (let second = (rest \<noteq> [] \<and> second_ok a (rest ! 0));
          third = (length rest > 1 \<and> utf8_cont (rest ! 1));
          fourth = (length rest > 2 \<and> utf8_cont (rest ! 2))
      in if utf8_width a = 1 then (1, True)
         else if utf8_width a = 2 then (if second then (2, True) else (1, False))
         else if utf8_width a = 3 then
           (if \<not> second then (1, False) else if third then (3, True) else (2, False))
         else if utf8_width a = 4 then
           (if \<not> second then (1, False) else if \<not> third then (2, False)
            else if fourth then (4, True) else (3, False))
         else (1, False))"

function lossy_bytes :: "bytes \<Rightarrow> bytes" where
  "lossy_bytes [] = []"
| "lossy_bytes (a # rest) =
     (let (n, valid) = utf8_chunk a rest
      in (if valid then take n (a # rest) else replacement) @ lossy_bytes (drop (n - 1) rest))"
  by pat_completeness auto
termination
  by (relation "measure length") auto

definition from_utf8_lossy :: "bytes \<Rightarrow> string" where
  "from_utf8_lossy bs = text_of_bytes (lossy_bytes bs)"

section \<open>The streams of an invocation\<close>

record CompletedLine =
  cl_text :: string
  cl_event_id :: nat
  cl_first_event_id :: nat

record InvocationStreams =
  is_stdout :: bytes
  is_stderr :: bytes
  is_stdout_pending :: bytes
  is_stderr_pending :: bytes
  is_stdout_lines :: "CompletedLine list"
  is_stderr_lines :: "CompletedLine list"
  is_stdout_line_event :: "nat option"
  is_stderr_line_event :: "nat option"
  is_stdout_offset :: nat
  is_stderr_offset :: nat
  is_stdout_over_bound :: bool
  is_stdout_over_bound_seen :: bool
  is_input_offset :: nat
  is_input_commands :: "nat list"
  is_data_input_events :: "nat list"
  is_eof_inputs :: nat
  is_input_eof :: bool
  is_sequence :: nat
  is_frames :: nat
  is_violations :: "string list"

definition InvocationStreams_default :: InvocationStreams where
  "InvocationStreams_default =
     \<lparr>is_stdout = [], is_stderr = [], is_stdout_pending = [], is_stderr_pending = [],
      is_stdout_lines = [], is_stderr_lines = [], is_stdout_line_event = None,
      is_stderr_line_event = None, is_stdout_offset = 0, is_stderr_offset = 0,
      is_stdout_over_bound = False, is_stdout_over_bound_seen = False, is_input_offset = 0,
      is_input_commands = [], is_data_input_events = [], is_eof_inputs = 0, is_input_eof = False,
      is_sequence = 0, is_frames = 0, is_violations = []\<rparr>"

text \<open>The five places of one of the two streams, as the borrowed tuple of \<open>push\<close> has them.\<close>

record stream_view =
  sv_bytes :: bytes
  sv_pending :: bytes
  sv_lines :: "CompletedLine list"
  sv_offset :: nat
  sv_line_event :: "nat option"

fun get_view :: "OutputStream \<Rightarrow> InvocationStreams \<Rightarrow> stream_view" where
  "get_view Stdout s = \<lparr>sv_bytes = is_stdout s, sv_pending = is_stdout_pending s, sv_lines = is_stdout_lines s,
     sv_offset = is_stdout_offset s, sv_line_event = is_stdout_line_event s\<rparr>"
| "get_view Stderr s = \<lparr>sv_bytes = is_stderr s, sv_pending = is_stderr_pending s, sv_lines = is_stderr_lines s,
     sv_offset = is_stderr_offset s, sv_line_event = is_stderr_line_event s\<rparr>"

fun put_view :: "OutputStream \<Rightarrow> stream_view \<Rightarrow> InvocationStreams \<Rightarrow> InvocationStreams" where
  "put_view Stdout v s = s\<lparr>is_stdout := sv_bytes v, is_stdout_pending := sv_pending v, is_stdout_lines := sv_lines v,
     is_stdout_offset := sv_offset v, is_stdout_line_event := sv_line_event v\<rparr>"
| "put_view Stderr v s = s\<lparr>is_stderr := sv_bytes v, is_stderr_pending := sv_pending v, is_stderr_lines := sv_lines v,
     is_stderr_offset := sv_offset v, is_stderr_line_event := sv_line_event v\<rparr>"

definition violate :: "string \<Rightarrow> InvocationStreams \<Rightarrow> InvocationStreams" where
  "violate message s = s\<lparr>is_violations := is_violations s @ [message]\<rparr>"

text \<open>One complete line taken from the pending bytes, and the loop over them.\<close>

definition note_long_line :: "nat \<Rightarrow> OutputStream \<Rightarrow> string \<Rightarrow> InvocationStreams \<Rightarrow> InvocationStreams" where
  "note_long_line invocation stream text s =
     (if length text > MAX_RESPONSE_LINE_BYTES then
        let s = violate (''invocation '' @ dec invocation @ '' '' @ OutputStream_name stream
                  @ '' line exceeds the response bound'') s
        in if stream = Stdout then s\<lparr>is_stdout_over_bound_seen := True\<rparr> else s
      else s)"

definition complete_line ::
    "nat \<Rightarrow> nat \<Rightarrow> OutputStream \<Rightarrow> nat \<Rightarrow> stream_view \<times> InvocationStreams \<Rightarrow> stream_view \<times> InvocationStreams" where
  "complete_line event_id invocation stream index = (\<lambda>(v, s).
     let text = from_utf8_lossy (take index (sv_pending v));
         pending = drop (index + 1) (sv_pending v);
         s = note_long_line invocation stream text s;
         first = (case sv_line_event v of Some e \<Rightarrow> e | None \<Rightarrow> event_id)
     in (v\<lparr>sv_pending := pending,
           sv_lines := sv_lines v @ [\<lparr>cl_text = text, cl_event_id = event_id, cl_first_event_id = first\<rparr>],
           sv_line_event := if pending \<noteq> [] then Some event_id else None\<rparr>,
         if stream = Stdout then s\<lparr>is_stdout_over_bound := False\<rparr> else s))"

lemma complete_line_pending [simp]:
  "sv_pending (fst (complete_line event_id invocation stream index (v, s))) = drop (Suc index) (sv_pending v)"
  by (simp add: complete_line_def Let_def)

function complete_lines ::
    "nat \<Rightarrow> nat \<Rightarrow> OutputStream \<Rightarrow> stream_view \<times> InvocationStreams \<Rightarrow> stream_view \<times> InvocationStreams" where
  "complete_lines event_id invocation stream (v, s) =
     (case position_of 0x0a (sv_pending v) of
        None \<Rightarrow> (v, s)
      | Some index \<Rightarrow> complete_lines event_id invocation stream (complete_line event_id invocation stream index (v, s)))"
  by pat_completeness auto
termination
  by (relation "measure (\<lambda>(event_id, invocation, stream, x). length (sv_pending (fst x)))")
    (auto dest: position_of_less)

declare complete_lines.simps [simp del]

definition InvocationStreams_push ::
    "nat \<Rightarrow> nat \<Rightarrow> OutputStream \<Rightarrow> nat \<Rightarrow> nat \<Rightarrow> bytes \<Rightarrow> InvocationStreams \<Rightarrow> InvocationStreams" where
  "InvocationStreams_push event_id invocation stream offset sequence data s =
     (let s = (if checked_add (is_sequence s) 1 \<noteq> Some sequence
               then violate (''invocation '' @ dec invocation @ '' sequence jumped from '' @ dec (is_sequence s)
                      @ '' to '' @ dec sequence @ '' at event '' @ dec event_id) s
               else s);
          s = s\<lparr>is_sequence := sequence, is_frames := is_frames s + 1\<rparr>;
          v = get_view stream s;
          s = (if offset \<noteq> sv_offset v
               then violate (''invocation '' @ dec invocation @ '' '' @ OutputStream_name stream @ '' offset ''
                      @ dec offset @ '' is not contiguous with '' @ dec (sv_offset v)) s
               else s);
          v = v\<lparr>sv_offset := saturating_add offset (length data), sv_bytes := sv_bytes v @ data,
                sv_line_event := if sv_pending v = [] \<and> data \<noteq> [] then Some event_id else sv_line_event v,
                sv_pending := sv_pending v @ data\<rparr>;
          (v, s) = complete_lines event_id invocation stream (v, s);
          s = (if stream = Stdout \<and> \<not> is_stdout_over_bound s \<and> length (sv_pending v) > MAX_RESPONSE_LINE_BYTES
               then violate (''invocation '' @ dec invocation
                      @ '' stdout line exceeds the response bound before its newline'')
                      (s\<lparr>is_stdout_over_bound := True, is_stdout_over_bound_seen := True\<rparr>)
               else s)
      in put_view stream v s)"

text \<open>The checks of an accepted input, in order, each with the message it records when it holds.\<close>

fun violate_each :: "(bool \<times> string) list \<Rightarrow> InvocationStreams \<Rightarrow> InvocationStreams" where
  "violate_each [] s = s"
| "violate_each ((broken, message) # checks) s = violate_each checks (if broken then violate message s else s)"

definition input_checks ::
    "nat \<Rightarrow> nat \<Rightarrow> nat \<Rightarrow> nat \<Rightarrow> nat \<Rightarrow> bool \<Rightarrow> InvocationStreams \<Rightarrow> (bool \<times> string) list" where
  "input_checks invocation event_id command_id offset bytes eof s =
     (let subject = ''invocation '' @ dec invocation; at = '' at event '' @ dec event_id
      in [(checked_add (is_input_offset s) bytes \<noteq> Some offset,
           subject @ '' input offset '' @ dec offset @ '' does not follow ''
             @ dec (is_input_offset s) @ '' plus '' @ dec bytes @ '' byte(s)'' @ at),
          (eof \<and> bytes \<noteq> 0, subject @ '' accepted an end-of-input with '' @ dec bytes @ '' bytes'' @ at),
          (\<not> eof \<and> bytes = 0, subject @ '' accepted an empty input command'' @ at),
          (eof \<and> is_input_eof s, subject @ '' accepted a second end-of-input'' @ at),
          (\<not> eof \<and> is_input_eof s, subject @ '' accepted an input command after the end of input'' @ at),
          (is_input_commands s \<noteq> [] \<and> command_id \<le> last (is_input_commands s),
           subject @ '' input command '' @ dec command_id
             @ '' does not advance past '' @ dec (last (is_input_commands s)) @ at)])"

definition push_input ::
    "nat \<Rightarrow> nat \<Rightarrow> nat \<Rightarrow> nat \<Rightarrow> nat \<Rightarrow> bool \<Rightarrow> InvocationStreams \<Rightarrow> InvocationStreams" where
  "push_input invocation event_id command_id offset bytes eof s =
     (let s = violate_each (input_checks invocation event_id command_id offset bytes eof s) s;
          s = s\<lparr>is_input_commands := is_input_commands s @ [command_id], is_input_offset := offset\<rparr>
      in if eof then s\<lparr>is_eof_inputs := is_eof_inputs s + 1, is_input_eof := True\<rparr>
         else s\<lparr>is_data_input_events := is_data_input_events s @ [event_id]\<rparr>)"

section \<open>The trace\<close>

record StartRecord =
  sr_invocation :: nat
  sr_launch :: LaunchIdentity
  sr_event_id :: nat

record ExitRecord =
  er_invocation :: nat
  er_exit :: ProcessExit
  er_stdout_bytes :: nat
  er_stdout_sha256 :: string
  er_stderr_bytes :: nat
  er_stderr_sha256 :: string
  er_frames :: nat
  er_event_id :: nat

record TerminationRecord =
  tr_invocation :: nat
  tr_signal :: int
  tr_event_id :: nat

record CleanupRecord =
  cr_invocation :: nat
  cr_reaped :: nat
  cr_event_id :: nat

record LaunchFailureRecord =
  lf_invocation :: nat
  lf_failure :: LaunchFailure

record ConfiguredRecord =
  cg_gateway :: string
  cg_event_id :: nat

record WorkloadTrace =
  wt_starts :: "StartRecord list"
  wt_exits :: "ExitRecord list"
  wt_terminations :: "TerminationRecord list"
  wt_cleanups :: "CleanupRecord list"
  wt_launch_failures :: "LaunchFailureRecord list"
  wt_activations :: "(string \<times> nat) list"
  wt_restorations :: "(string \<times> nat) list"
  wt_configured :: "ConfiguredRecord option"
  wt_invocations :: "(nat \<times> InvocationStreams) list"
  wt_violations :: "string list"

definition WorkloadTrace_default :: WorkloadTrace where
  "WorkloadTrace_default =
     \<lparr>wt_starts = [], wt_exits = [], wt_terminations = [], wt_cleanups = [], wt_launch_failures = [],
      wt_activations = [], wt_restorations = [], wt_configured = None, wt_invocations = [], wt_violations = []\<rparr>"

text \<open>\<open>entry(key).or_default()\<close> of a \<open>BTreeMap\<close>, with the update of the entry.\<close>

fun entry_update :: "nat \<Rightarrow> 'v \<Rightarrow> ('v \<Rightarrow> 'v) \<Rightarrow> (nat \<times> 'v) list \<Rightarrow> (nat \<times> 'v) list" where
  "entry_update k d f [] = [(k, f d)]"
| "entry_update k d f ((k', v) # xs) =
     (if k = k' then (k, f v) # xs
      else if k < k' then (k, f d) # (k', v) # xs
      else (k', v) # entry_update k d f xs)"

definition started :: "WorkloadTrace \<Rightarrow> nat \<Rightarrow> bool" where
  "started t invocation = list_ex (\<lambda>r. sr_invocation r = invocation) (wt_starts t)"

definition exited :: "WorkloadTrace \<Rightarrow> nat \<Rightarrow> bool" where
  "exited t invocation = list_ex (\<lambda>r. er_invocation r = invocation) (wt_exits t)"

definition launch_failed :: "WorkloadTrace \<Rightarrow> nat \<Rightarrow> bool" where
  "launch_failed t invocation = list_ex (\<lambda>r. lf_invocation r = invocation) (wt_launch_failures t)"

definition terminated :: "WorkloadTrace \<Rightarrow> nat \<Rightarrow> bool" where
  "terminated t invocation = list_ex (\<lambda>r. tr_invocation r = invocation) (wt_terminations t)"

definition with_violation :: "WorkloadTrace \<Rightarrow> string \<Rightarrow> WorkloadTrace" where
  "with_violation t message = t\<lparr>wt_violations := wt_violations t @ [message]\<rparr>"

definition update_streams ::
    "WorkloadTrace \<Rightarrow> nat \<Rightarrow> (InvocationStreams \<Rightarrow> InvocationStreams) \<Rightarrow> WorkloadTrace" where
  "update_streams t invocation f =
     t\<lparr>wt_invocations := entry_update invocation InvocationStreams_default f (wt_invocations t)\<rparr>"

definition names_at :: "string \<Rightarrow> nat \<Rightarrow> nat \<Rightarrow> string \<Rightarrow> string" where
  "names_at what event_id invocation when =
     what @ '' at event '' @ dec event_id @ '' names invocation '' @ dec invocation @ '' '' @ when"

definition twice_at :: "nat \<Rightarrow> string \<Rightarrow> nat \<Rightarrow> string" where
  "twice_at invocation what event_id =
     ''invocation '' @ dec invocation @ '' '' @ what @ '' twice, the second time at event '' @ dec event_id"

text \<open>The arms of \<open>push\<close>, and \<open>push\<close> itself.\<close>

definition trace_exit ::
    "WorkloadTrace \<Rightarrow> nat \<Rightarrow> nat \<Rightarrow> ProcessExit \<Rightarrow> nat \<Rightarrow> string \<Rightarrow> nat \<Rightarrow> string \<Rightarrow> nat \<Rightarrow> WorkloadTrace" where
  [simp]: "trace_exit t event_id invocation exit stdout_bytes stdout_sha256 stderr_bytes stderr_sha256 frames =
     (if \<not> started t invocation then with_violation t (names_at ''workload-exited'' event_id invocation ''before it started'')
      else if exited t invocation then with_violation t (twice_at invocation ''exited'' event_id)
      else t\<lparr>wt_exits := wt_exits t
             @ [\<lparr>er_invocation = invocation, er_exit = exit, er_stdout_bytes = stdout_bytes,
                 er_stdout_sha256 = stdout_sha256, er_stderr_bytes = stderr_bytes,
                 er_stderr_sha256 = stderr_sha256, er_frames = frames, er_event_id = event_id\<rparr>]\<rparr>)"

definition trace_termination ::
    "WorkloadTrace \<Rightarrow> nat \<Rightarrow> nat \<Rightarrow> int \<Rightarrow> WorkloadTrace" where
  [simp]: "trace_termination t event_id invocation signal =
     (if \<not> started t invocation
      then with_violation t (names_at ''termination-requested'' event_id invocation ''before it started'')
      else if exited t invocation
      then with_violation t (names_at ''termination-requested'' event_id invocation ''after it exited'')
      else if terminated t invocation then with_violation t (twice_at invocation ''was terminated'' event_id)
      else t\<lparr>wt_terminations := wt_terminations t
             @ [\<lparr>tr_invocation = invocation, tr_signal = signal, tr_event_id = event_id\<rparr>]\<rparr>)"

definition trace_cleanup ::
    "WorkloadTrace \<Rightarrow> nat \<Rightarrow> nat \<Rightarrow> nat \<Rightarrow> WorkloadTrace" where
  [simp]: "trace_cleanup t event_id invocation reaped =
     (if \<not> started t invocation
      then with_violation t (names_at ''cleanup-complete'' event_id invocation ''before it started'')
      else if list_ex (\<lambda>r. cr_invocation r = invocation) (wt_cleanups t)
      then with_violation t (twice_at invocation ''completed cleanup'' event_id)
      else (case find (\<lambda>r. er_invocation r = invocation) (wt_exits t) of
              None \<Rightarrow> with_violation t (''invocation '' @ dec invocation @ '' completed cleanup at event '' @ dec event_id
                        @ '' before it exited'')
            | Some r \<Rightarrow>
                if er_event_id r > event_id
                then with_violation t (''invocation '' @ dec invocation @ '' completed cleanup at event '' @ dec event_id
                        @ '' before its exit record'')
                else if reaped = 0
                then with_violation t (''invocation '' @ dec invocation @ '' completed cleanup at event '' @ dec event_id
                        @ '' without reaping a process'')
                else t\<lparr>wt_cleanups := wt_cleanups t
                       @ [\<lparr>cr_invocation = invocation, cr_reaped = reaped, cr_event_id = event_id\<rparr>]\<rparr>))"

definition trace_launch_failure ::
    "WorkloadTrace \<Rightarrow> nat \<Rightarrow> nat \<Rightarrow> LaunchFailure \<Rightarrow> WorkloadTrace" where
  [simp]: "trace_launch_failure t event_id invocation failure =
     (if launch_failed t invocation then with_violation t (twice_at invocation ''reported a launch failure'' event_id)
      else if exited t invocation
      then with_violation t (''invocation '' @ dec invocation @ '' reported a launch failure at event '' @ dec event_id
             @ '' after it exited'')
      else t\<lparr>wt_launch_failures := wt_launch_failures t
             @ [\<lparr>lf_invocation = invocation, lf_failure = failure\<rparr>]\<rparr>)"

definition trace_output ::
    "WorkloadTrace \<Rightarrow> nat \<Rightarrow> nat \<Rightarrow> OutputStream \<Rightarrow> nat \<Rightarrow> nat \<Rightarrow> string \<Rightarrow> WorkloadTrace" where
  [simp]: "trace_output t event_id invocation stream offset sequence bytes =
     (if \<not> started t invocation then with_violation t (names_at ''output frame'' event_id invocation ''before it started'')
      else if exited t invocation then with_violation t (names_at ''output frame'' event_id invocation ''after it exited'')
      else (case decode_bytes bytes MAX_OUTPUT_FRAME_BYTES of
              Inl _ \<Rightarrow> with_violation t (''invocation '' @ dec invocation
                         @ '' emitted an unreadable output frame at event '' @ dec event_id)
            | Inr data \<Rightarrow>
                update_streams t invocation
                  (InvocationStreams_push event_id invocation stream offset sequence data)))"

definition trace_input ::
    "WorkloadTrace \<Rightarrow> nat \<Rightarrow> nat \<Rightarrow> nat \<Rightarrow> nat \<Rightarrow> nat \<Rightarrow> bool \<Rightarrow> WorkloadTrace" where
  [simp]: "trace_input t event_id command_id invocation offset bytes eof =
     (if \<not> started t invocation then with_violation t (names_at ''input-accepted'' event_id invocation ''before it started'')
      else if exited t invocation then with_violation t (names_at ''input-accepted'' event_id invocation ''after it exited'')
      else if terminated t invocation
      then with_violation t (names_at ''input-accepted'' event_id invocation ''after it was terminated'')
      else update_streams t invocation (push_input invocation event_id command_id offset bytes eof))"

fun trace_event :: "WorkloadTrace \<Rightarrow> nat \<Rightarrow> nat \<Rightarrow> Event \<Rightarrow> WorkloadTrace" where
  "trace_event t event_id command_id (WorkloadStarted invocation launch) =
     (let t = (if started t invocation then with_violation t (twice_at invocation ''started'' event_id) else t)
      in t\<lparr>wt_starts := wt_starts t
             @ [\<lparr>sr_invocation = invocation, sr_launch = launch, sr_event_id = event_id\<rparr>]\<rparr>)"
| "trace_event t event_id command_id (WorkloadExited invocation exit stdout_bytes stdout_sha256 stderr_bytes stderr_sha256 frames) =
     trace_exit t event_id invocation exit stdout_bytes stdout_sha256 stderr_bytes stderr_sha256 frames"
| "trace_event t event_id command_id (TerminationRequested invocation signal) =
     trace_termination t event_id invocation signal"
| "trace_event t event_id command_id (CleanupComplete invocation reaped) =
     trace_cleanup t event_id invocation reaped"
| "trace_event t event_id command_id (LaunchFailed invocation failure detail) =
     trace_launch_failure t event_id invocation failure"
| "trace_event t event_id command_id (NetworkConfigured interface guest_cidr gateway) =
     (case wt_configured t of
        Some configured \<Rightarrow>
          with_violation t (''a second network configuration arrived at event '' @ dec event_id @ '' after event ''
            @ dec (cg_event_id configured))
      | None \<Rightarrow>
          if interface \<noteq> NETWORK_INTERFACE \<or> guest_cidr \<noteq> NETWORK_GUEST_CIDR \<or> gateway \<noteq> FIXTURE_PEER
          then with_violation t (''the network configuration at event '' @ dec event_id
                 @ '' is not the fixed private profile'')
          else t\<lparr>wt_configured := Some \<lparr>cg_gateway = gateway, cg_event_id = event_id\<rparr>\<rparr>)"
| "trace_event t event_id command_id (OutageActivated peer_cidr rule) =
     (case wt_activations t of
        (_, activation_id) # _ \<Rightarrow>
          with_violation t (''a second outage activation arrived at event '' @ dec event_id @ '' after event ''
            @ dec activation_id)
      | [] \<Rightarrow>
          if rule \<noteq> ''prohibit '' @ peer_cidr
          then with_violation t (''the outage activation at event '' @ dec event_id
                 @ '' does not name its prohibition rule'')
          else t\<lparr>wt_activations := wt_activations t @ [(peer_cidr, event_id)]\<rparr>)"
| "trace_event t event_id command_id (NetworkRestored peer_cidr) =
     (case wt_restorations t of
        (_, restoration_id) # _ \<Rightarrow>
          with_violation t (''a second network restoration arrived at event '' @ dec event_id @ '' after event ''
            @ dec restoration_id)
      | [] \<Rightarrow> t\<lparr>wt_restorations := wt_restorations t @ [(peer_cidr, event_id)]\<rparr>)"
| "trace_event t event_id command_id (WorkloadOutput invocation stream offset sequence bytes) =
     trace_output t event_id invocation stream offset sequence bytes"
| "trace_event t event_id command_id (InputAccepted invocation offset bytes eof) =
     trace_input t event_id command_id invocation offset bytes eof"
| "trace_event t event_id command_id _ = t"

definition WorkloadTrace_push :: "WorkloadTrace \<Rightarrow> EventFrame \<Rightarrow> WorkloadTrace" where
  "WorkloadTrace_push t frame = trace_event t (ef_event_id frame) (ef_command_id frame) (ef_event frame)"

definition all_violations :: "WorkloadTrace \<Rightarrow> string list" where
  "all_violations t = wt_violations t @ concat (map (\<lambda>(k, s). is_violations s) (wt_invocations t))"

section \<open>Queries\<close>

definition streams_of :: "WorkloadTrace \<Rightarrow> nat \<Rightarrow> InvocationStreams option" where
  "streams_of t invocation = map_of (wt_invocations t) invocation"

definition stdout_lines :: "WorkloadTrace \<Rightarrow> nat \<Rightarrow> CompletedLine list" where
  "stdout_lines t invocation = (case streams_of t invocation of None \<Rightarrow> [] | Some s \<Rightarrow> is_stdout_lines s)"

definition stderr_lines :: "WorkloadTrace \<Rightarrow> nat \<Rightarrow> CompletedLine list" where
  "stderr_lines t invocation = (case streams_of t invocation of None \<Rightarrow> [] | Some s \<Rightarrow> is_stderr_lines s)"

definition stdout_line_count :: "WorkloadTrace \<Rightarrow> nat \<Rightarrow> nat" where
  "stdout_line_count t invocation = length (stdout_lines t invocation)"

definition stdout_line :: "WorkloadTrace \<Rightarrow> nat \<Rightarrow> nat \<Rightarrow> string option" where
  "stdout_line t invocation index =
     (if index < length (stdout_lines t invocation) then Some (cl_text (stdout_lines t invocation ! index)) else None)"

definition stderr_bytes :: "WorkloadTrace \<Rightarrow> nat \<Rightarrow> nat" where
  "stderr_bytes t invocation =
     (case streams_of t invocation of None \<Rightarrow> 0 | Some s \<Rightarrow> length (is_stderr s) + length (is_stderr_pending s))"

definition over_bound_line :: "WorkloadTrace \<Rightarrow> nat \<Rightarrow> bool" where
  "over_bound_line t invocation =
     (case streams_of t invocation of None \<Rightarrow> False | Some s \<Rightarrow> is_stdout_over_bound s \<or> is_stdout_over_bound_seen s)"

definition stdout_pending :: "WorkloadTrace \<Rightarrow> nat \<Rightarrow> bool" where
  "stdout_pending t invocation =
     (case streams_of t invocation of None \<Rightarrow> False | Some s \<Rightarrow> is_stdout_pending s \<noteq> [])"

definition any_stdout_line :: "WorkloadTrace \<Rightarrow> string \<Rightarrow> CompletedLine option" where
  "any_stdout_line t wanted =
     find (\<lambda>l. cl_text l = wanted) (concat (map (\<lambda>(k, s). is_stdout_lines s) (wt_invocations t)))"

text \<open>The acknowledgement that the line of an invocation answers: the first line answers none.\<close>

definition line_ack :: "string \<Rightarrow> InvocationStreams \<Rightarrow> nat \<times> CompletedLine \<Rightarrow> (CompletedLine \<times> nat) option" where
  "line_ack wanted s = (\<lambda>(index, line).
     if cl_text line \<noteq> wanted \<or> index = 0 then None
     else if index - 1 < length (is_data_input_events s) then Some (line, is_data_input_events s ! (index - 1))
     else None)"

definition stdout_line_with_ack :: "WorkloadTrace \<Rightarrow> string \<Rightarrow> (CompletedLine \<times> nat) option" where
  "stdout_line_with_ack t wanted =
     find_map (\<lambda>(k, s). find_map (line_ack wanted s) (enumerate 0 (is_stdout_lines s))) (wt_invocations t)"

section \<open>Lines\<close>

lemma position_of_first: "c \<notin> set xs \<Longrightarrow> position_of c (xs @ c # ys) = Some (length xs)"
  by (induction xs) auto



text \<open>
  The reference for the incremental cutting: every byte carries the id of the event whose frame
  brought it, and a line is a maximal run of such bytes up to a newline. Its first event is the
  one of its first byte, its event the one of its newline.
\<close>

fun segments :: "(nat \<times> u8) list \<Rightarrow> (nat \<times> u8) list \<Rightarrow> (nat \<times> u8) list list \<times> (nat \<times> u8) list" where
  "segments cur [] = ([], cur)"
| "segments cur (x # xs) =
     (if snd x = 0x0a then apfst (Cons (cur @ [x])) (segments [] xs) else segments (cur @ [x]) xs)"

definition line_of :: "(nat \<times> u8) list \<Rightarrow> CompletedLine" where
  "line_of seg = \<lparr>cl_text = from_utf8_lossy (map snd (butlast seg)), cl_event_id = fst (last seg),
     cl_first_event_id = fst (hd seg)\<rparr>"

definition head_event :: "(nat \<times> u8) list \<Rightarrow> nat option" where
  "head_event p = (case p of [] \<Rightarrow> None | x # _ \<Rightarrow> Some (fst x))"

lemma segments_append:
  "segments cur (xs @ ys) =
     (fst (segments cur xs) @ fst (segments (snd (segments cur xs)) ys), snd (segments (snd (segments cur xs)) ys))"
  by (induction cur xs rule: segments.induct) auto

lemma segments_free: "0x0a \<notin> snd ` set xs \<Longrightarrow> segments cur xs = ([], cur @ xs)"
  by (induction xs arbitrary: cur) auto

lemma segments_rest: "0x0a \<notin> snd ` set cur \<Longrightarrow> 0x0a \<notin> snd ` set (snd (segments cur xs))"
  by (induction cur xs rule: segments.induct) auto

lemma segments_start: "0x0a \<notin> snd ` set cur \<Longrightarrow> segments [] (cur @ xs) = segments cur xs"
  by (simp add: segments_append segments_free)

lemma segments_line:
  assumes "0x0a \<notin> snd ` set p"
  shows "segments [] (p @ (e, 0x0a) # xs) = apfst (Cons (p @ [(e, 0x0a)])) (segments [] xs)"
  by (simp add: segments_start assms)

lemma split_on_segments:
  "0x0a \<notin> snd ` set cur \<Longrightarrow> split_on 0x0a (map snd (cur @ xs)) =
     map (\<lambda>seg. map snd (butlast seg)) (fst (segments cur xs)) @ [map snd (snd (segments cur xs))]"
proof (induction cur xs rule: segments.induct)
  case (1 cur)
  then show ?case by (auto simp: split_on_free)
next
  case (2 cur x xs)
  show ?case
  proof (cases "snd x = 0x0a")
    case True
    have "split_on 0x0a (map snd (cur @ x # xs)) = map snd cur # split_on 0x0a (map snd xs)"
      using 2 True split_on_append_sep [of "0x0a" "map snd cur" "map snd xs"] by auto
    with 2 True show ?thesis by auto
  next
    case False
    with 2 show ?thesis by (simp add: image_iff)
  qed
qed

definition over_long :: "bytes \<Rightarrow> bool" where
  "over_long l \<longleftrightarrow> length (from_utf8_lossy l) > MAX_RESPONSE_LINE_BYTES"

text \<open>A change of the findings and of the over-bound flags only.\<close>

definition noted :: "InvocationStreams \<Rightarrow> string list \<Rightarrow> InvocationStreams \<Rightarrow> bool" where
  "noted s vs s' \<longleftrightarrow> (\<exists>ob seen. s' = s\<lparr>is_violations := is_violations s @ vs, is_stdout_over_bound := ob,
     is_stdout_over_bound_seen := seen\<rparr>)"

lemma noted_refl: "noted s [] s"
  unfolding noted_def by (rule exI [of _ "is_stdout_over_bound s"], rule exI [of _ "is_stdout_over_bound_seen s"]) simp

lemma noted_trans: "noted s vs t \<Longrightarrow> noted t ws u \<Longrightarrow> noted s (vs @ ws) u"
  unfolding noted_def by (elim exE) (simp, blast)

lemma noted_flag: "noted s [] (s\<lparr>is_stdout_over_bound := b\<rparr>)" "noted s [] (s\<lparr>is_stdout_over_bound_seen := b\<rparr>)"
proof -
  show "noted s [] (s\<lparr>is_stdout_over_bound := b\<rparr>)"
    unfolding noted_def by (rule exI [of _ b], rule exI [of _ "is_stdout_over_bound_seen s"]) simp
  show "noted s [] (s\<lparr>is_stdout_over_bound_seen := b\<rparr>)"
    unfolding noted_def by (rule exI [of _ "is_stdout_over_bound s"], rule exI [of _ b]) simp
qed

lemma noted_violate: "noted s [message] (violate message s)"
  unfolding noted_def violate_def
  by (rule exI [of _ "is_stdout_over_bound s"], rule exI [of _ "is_stdout_over_bound_seen s"]) simp

lemma note_long_line_effect: "\<exists>vs. noted s vs (note_long_line i st (from_utf8_lossy l) s) \<and> (vs = [] \<longleftrightarrow> \<not> over_long l)"
proof (cases "over_long l")
  case True
  then have eq: "note_long_line i st (from_utf8_lossy l) s =
      (let s = violate (''invocation '' @ dec i @ '' '' @ OutputStream_name st @ '' line exceeds the response bound'') s
       in if st = Stdout then s\<lparr>is_stdout_over_bound_seen := True\<rparr> else s)"
    unfolding note_long_line_def over_long_def by (simp only: if_True)
  show ?thesis unfolding eq Let_def using True noted_trans [OF noted_violate noted_flag(2)] noted_violate by (cases st) fastforce+
next
  case False
  then show ?thesis unfolding note_long_line_def over_long_def using noted_refl by auto
qed


definition assembled :: "stream_view \<Rightarrow> CompletedLine list \<Rightarrow> (nat \<times> u8) list \<Rightarrow> bool" where
  "assembled v lines tagged \<longleftrightarrow> sv_lines v = lines @ map line_of (fst (segments [] tagged))
     \<and> sv_pending v = map snd (snd (segments [] tagged)) \<and> sv_line_event v = head_event (snd (segments [] tagged))"

lemma complete_line_effect:
  assumes "complete_line e i st (length p) (v, s) = (v1, s1)"
    and "sv_pending v = map snd (p @ (e, 0x0a) # map (Pair e) rest)" "sv_line_event v = head_event (p @ [(e, 0x0a)])"
  shows "\<exists>vs. sv_lines v1 = sv_lines v @ [line_of (p @ [(e, 0x0a)])] \<and> sv_pending v1 = map snd (map (Pair e) rest)
    \<and> sv_line_event v1 = head_event (map (Pair e) rest) \<and> sv_bytes v1 = sv_bytes v
    \<and> sv_offset v1 = sv_offset v \<and> noted s vs s1 \<and> (vs = [] \<longleftrightarrow> \<not> over_long (map snd p))"
proof -
  obtain vs where vs: "noted s vs (note_long_line i st (from_utf8_lossy (map snd p)) s)"
    "vs = [] \<longleftrightarrow> \<not> over_long (map snd p)" using note_long_line_effect by blast
  have pend: "sv_pending v = map snd p @ 0x0a # rest" unfolding assms(2) by (simp add: comp_def)
  have "noted s vs s1"
    using assms(1) vs(1) noted_trans [OF vs(1) noted_flag(1), of False]
    by (auto simp: complete_line_def Let_def pend split: if_splits)
  with vs(2) assms(1) show ?thesis
    by (intro exI [of _ vs])
      (auto simp: complete_line_def Let_def pend line_of_def assms(3) head_event_def comp_def split: list.splits)
qed

lemma complete_lines_spec:
  assumes "complete_lines e i st (v, s) = (v', s')" "0x0a \<notin> snd ` set p"
    and "sv_pending v = map snd (p @ map (Pair e) new)" "sv_line_event v = head_event (p @ map (Pair e) new)"
  shows "\<exists>vs. assembled v' (sv_lines v) (p @ map (Pair e) new) \<and> sv_bytes v' = sv_bytes v \<and> sv_offset v' = sv_offset v
    \<and> noted s vs s'
    \<and> (vs = [] \<longleftrightarrow> \<not> list_ex (\<lambda>seg. over_long (map snd (butlast seg))) (fst (segments [] (p @ map (Pair e) new))))"
  using assms
proof (induction "length (sv_pending v)" arbitrary: v s p new rule: less_induct)
  case less
  show ?case
  proof (cases "position_of 0x0a new")
    case None
    then have free: "0x0a \<notin> snd ` set (p @ map (Pair e) new)" using less.prems(2) by (auto simp: position_of_None)
    then have "position_of 0x0a (sv_pending v) = None" unfolding less.prems(3) position_of_None by force
    with less.prems(1) have "v' = v" "s' = s" by (simp_all add: complete_lines.simps)
    with free less.prems(3,4) show ?thesis
      by (intro exI [of _ "[]"]) (auto simp: assembled_def segments_free noted_refl)
  next
    case (Some index)
    define q rest where "q = p @ map (Pair e) (take index new)" and "rest = drop (Suc index) new"
    have new: "p @ map (Pair e) new = q @ (e, 0x0a) # map (Pair e) rest" and qfree: "0x0a \<notin> snd ` set q"
      using position_of_Some [OF Some] less.prems(2) unfolding q_def rest_def
      by (metis append.assoc list.simps(9) map_append, auto)
    have at: "position_of 0x0a (sv_pending v) = Some (length q)"
      unfolding less.prems(3) new using qfree by (simp add: position_of_first)
    obtain v1 s1 where cl: "complete_line e i st (length q) (v, s) = (v1, s1)" by fastforce
    have step: "complete_lines e i st (v1, s1) = (v', s')"
      using less.prems(1) by (subst (asm) complete_lines.simps) (simp add: at cl)
    have head: "sv_line_event v = head_event (q @ [(e, 0x0a)])"
      using less.prems(4) unfolding new by (cases q) (auto simp: head_event_def)
    from complete_line_effect [OF cl less.prems(3) [unfolded new] head] obtain vs0 where
      v1: "sv_lines v1 = sv_lines v @ [line_of (q @ [(e, 0x0a)])]" "sv_bytes v1 = sv_bytes v" "sv_offset v1 = sv_offset v"
        "noted s vs0 s1" "vs0 = [] \<longleftrightarrow> \<not> over_long (map snd q)"
      and rest: "sv_pending v1 = map snd ([] @ map (Pair e) rest)" "sv_line_event v1 = head_event ([] @ map (Pair e) rest)"
      by auto
    have short: "length (sv_pending v1) < length (sv_pending v)"
      unfolding rest less.prems(3) new by simp
    from less.hyps [OF short step _ rest] obtain vs where
      ih: "assembled v' (sv_lines v1) (map (Pair e) rest)" "sv_bytes v' = sv_bytes v1" "sv_offset v' = sv_offset v1"
        "noted s1 vs s'" "vs = [] \<longleftrightarrow> \<not> list_ex (\<lambda>seg. over_long (map snd (butlast seg))) (fst (segments [] (map (Pair e) rest)))"
      by auto
    show ?thesis unfolding new segments_line [OF qfree] assembled_def
      by (intro exI [of _ "vs0 @ vs"]) (use ih v1 noted_trans [OF v1(4) ih(4)] in \<open>auto simp: assembled_def\<close>)
  qed
qed

section \<open>One frame, one input\<close>

lemma put_view_simps [simp]:
  "get_view st (put_view st v s) = v"
  "st' \<noteq> st \<Longrightarrow> get_view st' (put_view st v s) = get_view st' s"
  "is_frames (put_view st v s) = is_frames s"
  "is_sequence (put_view st v s) = is_sequence s"
  "is_data_input_events (put_view st v s) = is_data_input_events s"
  "is_eof_inputs (put_view st v s) = is_eof_inputs s"
  "is_violations (put_view st v s) = is_violations s"
  by (cases st; cases st'; simp)+

lemma noted_fields:
  assumes "noted s vs s'"
  shows "get_view st s' = get_view st s" "is_frames s' = is_frames s" "is_sequence s' = is_sequence s"
    "is_data_input_events s' = is_data_input_events s" "is_eof_inputs s' = is_eof_inputs s"
    "is_violations s' = is_violations s @ vs"
  using assms unfolding noted_def by (cases st; force)+

definition stream_ok :: "OutputStream \<Rightarrow> InvocationStreams \<Rightarrow> (nat \<times> u8) list \<Rightarrow> bool" where
  "stream_ok st s tagged \<longleftrightarrow> assembled (get_view st s) [] tagged \<and> sv_bytes (get_view st s) = map snd tagged"

lemma noted_if_violate: "\<exists>vs. noted s vs (if b then violate m s else s) \<and> (vs = [] \<longleftrightarrow> \<not> b)"
  using noted_violate noted_refl by (cases b) fastforce+

lemma noted_over_bound:
  "\<exists>vs. noted s vs (if b then violate m (s\<lparr>is_stdout_over_bound := True, is_stdout_over_bound_seen := True\<rparr>) else s)"
proof (cases b)
  case True
  have "noted s ([] @ [] @ [m]) (violate m (s\<lparr>is_stdout_over_bound := True, is_stdout_over_bound_seen := True\<rparr>))"
    by (rule noted_trans [OF noted_flag(1) noted_trans [OF noted_flag(2) noted_violate]])
  with True show ?thesis by auto
next
  case False
  then show ?thesis using noted_refl by auto
qed

text \<open>The stages of a pushed frame: the two checks, the bytes, the lines, the bound on the rest.\<close>

definition received :: "nat \<Rightarrow> nat \<Rightarrow> bytes \<Rightarrow> stream_view \<Rightarrow> stream_view" where
  "received e offset data v = v\<lparr>sv_offset := saturating_add offset (length data), sv_bytes := sv_bytes v @ data,
     sv_line_event := if sv_pending v = [] \<and> data \<noteq> [] then Some e else sv_line_event v,
     sv_pending := sv_pending v @ data\<rparr>"

definition counted :: "nat \<Rightarrow> InvocationStreams \<Rightarrow> InvocationStreams" where
  "counted seq s = s\<lparr>is_sequence := seq, is_frames := is_frames s + 1\<rparr>"

lemma counted_simps [simp]:
  "get_view st (counted seq s) = get_view st s" "is_frames (counted seq s) = is_frames s + 1"
  "is_sequence (counted seq s) = seq" "is_data_input_events (counted seq s) = is_data_input_events s"
  "is_eof_inputs (counted seq s) = is_eof_inputs s" "is_violations (counted seq s) = is_violations s"
  by (cases st) (simp_all add: counted_def)

lemma push_stages:
  "\<exists>s1 vs1 s3 vs3 v s4 vs5 s5.
     noted s vs1 s1 \<and> (vs1 = [] \<longleftrightarrow> checked_add (is_sequence s) 1 = Some seq)
   \<and> noted (counted seq s1) vs3 s3 \<and> (vs3 = [] \<longleftrightarrow> offset = sv_offset (get_view st s))
   \<and> complete_lines e i st (received e offset data (get_view st s), s3) = (v, s4) \<and> noted s4 vs5 s5
   \<and> InvocationStreams_push e i st offset seq data s = put_view st v s5"
proof -
  let ?v = "get_view st s" and ?bad = "checked_add (is_sequence s) 1 \<noteq> Some seq"
  let ?m1 = "''invocation '' @ dec i @ '' sequence jumped from '' @ dec (is_sequence s) @ '' to '' @ dec seq @ '' at event '' @ dec e"
  let ?m2 = "''invocation '' @ dec i @ '' '' @ OutputStream_name st @ '' offset '' @ dec offset @ '' is not contiguous with ''
     @ dec (sv_offset ?v)"
  let ?m3 = "''invocation '' @ dec i @ '' stdout line exceeds the response bound before its newline''"
  define s1 where "s1 = (if ?bad then violate ?m1 s else s)"
  define s3 where "s3 = (if offset \<noteq> sv_offset ?v then violate ?m2 (counted seq s1) else counted seq s1)"
  obtain v s4 where cl: "complete_lines e i st (received e offset data ?v, s3) = (v, s4)" by fastforce
  let ?long = "st = Stdout \<and> \<not> is_stdout_over_bound s4 \<and> length (sv_pending v) > MAX_RESPONSE_LINE_BYTES"
  define s5 where "s5 = (if ?long
    then violate ?m3 (s4\<lparr>is_stdout_over_bound := True, is_stdout_over_bound_seen := True\<rparr>) else s4)"
  from noted_if_violate [of s ?bad ?m1] obtain vs1 where
    n1: "noted s vs1 s1" "vs1 = [] \<longleftrightarrow> \<not> ?bad" unfolding s1_def by blast
  from noted_if_violate [of "counted seq s1" "offset \<noteq> sv_offset ?v" ?m2] obtain vs3 where
    n3: "noted (counted seq s1) vs3 s3" "vs3 = [] \<longleftrightarrow> offset = sv_offset ?v" unfolding s3_def by blast
  from noted_over_bound [of s4 ?long ?m3] obtain vs5 where n5: "noted s4 vs5 s5" unfolding s5_def by blast
  have "get_view st (counted seq s1) = ?v" using noted_fields(1) [OF n1(1)] by simp
  then have "InvocationStreams_push e i st offset seq data s = put_view st v s5"
    unfolding InvocationStreams_push_def Let_def s1_def [symmetric] counted_def [symmetric]
    by (simp only: s3_def [symmetric] received_def [symmetric] cl prod.case s5_def [symmetric])
  with n1 n3 cl n5 show ?thesis by blast
qed

lemma push_effect:
  assumes "stream_ok st s tagged" and s'_def: "s' = InvocationStreams_push e i st offset seq data s"
  shows "stream_ok st s' (tagged @ map (Pair e) data)
    \<and> (\<forall>st'. st' \<noteq> st \<longrightarrow> get_view st' s' = get_view st' s)
    \<and> is_frames s' = is_frames s + 1 \<and> is_sequence s' = seq
    \<and> is_data_input_events s' = is_data_input_events s \<and> is_eof_inputs s' = is_eof_inputs s
    \<and> (\<exists>vs. is_violations s' = is_violations s @ vs \<and> (vs = [] \<longrightarrow> checked_add (is_sequence s) 1 = Some seq
          \<and> offset = sv_offset (get_view st s)))"
proof -
  let ?v = "get_view st s" and ?p = "snd (segments [] tagged)"
  obtain s1 vs1 s3 vs3 v s4 vs5 s5 where
    n1: "noted s vs1 s1" "vs1 = [] \<longleftrightarrow> checked_add (is_sequence s) 1 = Some seq"
    and n3: "noted (counted seq s1) vs3 s3" "vs3 = [] \<longleftrightarrow> offset = sv_offset ?v"
    and cl: "complete_lines e i st (received e offset data ?v, s3) = (v, s4)" and n5: "noted s4 vs5 s5"
    and s': "s' = put_view st v s5" unfolding s'_def using push_stages [of s seq offset st e i data] by blast
  from assms(1) have v: "sv_lines ?v = map line_of (fst (segments [] tagged))" "sv_pending ?v = map snd ?p"
    "sv_line_event ?v = head_event ?p" "sv_bytes ?v = map snd tagged" by (simp_all add: stream_ok_def assembled_def)
  have pend: "sv_pending (received e offset data ?v) = map snd (?p @ map (Pair e) data)"
    using v by (simp add: received_def comp_def)
  have head: "sv_line_event (received e offset data ?v) = head_event (?p @ map (Pair e) data)"
    using v by (cases ?p; cases data) (simp_all add: received_def head_event_def)
  have free: "0x0a \<notin> snd ` set ?p" by (rule segments_rest) simp
  from complete_lines_spec [OF cl free pend head] obtain vs4 where
    cs: "assembled v (sv_lines ?v) (?p @ map (Pair e) data)" "sv_bytes v = sv_bytes ?v @ data" "noted s3 vs4 s4"
    by (auto simp: received_def)
  have ok: "assembled v [] (tagged @ map (Pair e) data)"
    using cs(1) v(1) unfolding assembled_def segments_append [of "[]" tagged] segments_start [OF free] by simp
  have n: "noted (counted seq s1) ((vs3 @ vs4) @ vs5) s5" by (rule noted_trans [OF noted_trans [OF n3(1) cs(3)] n5])
  show ?thesis
    using ok cs(2) v(4) n1(2) n3(2) noted_fields [OF n] noted_fields [OF n1(1)]
    by (simp add: s' stream_ok_def comp_def)
qed

lemma complete_lines_grow: "\<exists>vs. is_violations (snd (complete_lines e i st x)) = is_violations (snd x) @ vs"
proof (induction e i st x rule: complete_lines.induct)
  case (1 e i st v s)
  show ?case
  proof (cases "position_of 0x0a (sv_pending v)")
    case None
    then show ?thesis by (simp add: complete_lines.simps)
  next
    case (Some index)
    have "\<exists>vs. is_violations (snd (complete_line e i st index (v, s))) = is_violations s @ vs"
      by (simp add: complete_line_def Let_def note_long_line_def violate_def)
    with 1 [OF Some] show ?thesis by (subst complete_lines.simps) (auto simp: Some)
  qed
qed

lemma push_grow: "\<exists>vs. is_violations (InvocationStreams_push e i st offset seq data s) = is_violations s @ vs"
proof -
  obtain s1 vs1 s3 vs3 v s4 vs5 s5 where n: "noted s vs1 s1" "noted (counted seq s1) vs3 s3" "noted s4 vs5 s5"
    and cl: "complete_lines e i st (received e offset data (get_view st s), s3) = (v, s4)"
    and s': "InvocationStreams_push e i st offset seq data s = put_view st v s5"
    using push_stages [of s seq offset st e i data] by blast
  obtain vs4 where "is_violations s4 = is_violations s3 @ vs4"
    using complete_lines_grow [of e i st "(received e offset data (get_view st s), s3)"] cl by auto
  with n [THEN noted_fields(6)] show ?thesis by (simp add: s')
qed

lemma violate_each_effect: "\<exists>vs. noted s vs (violate_each checks s)"
proof (induction checks arbitrary: s)
  case Nil
  show ?case using noted_refl by auto
next
  case (Cons check checks)
  obtain broken m where "check = (broken, m)" by fastforce
  then show ?case using Cons.IH noted_if_violate [of s broken m] noted_trans by fastforce
qed

lemma push_input_effect:
  assumes "s' = push_input i e c offset n eof s"
  shows "(\<forall>st. get_view st s' = get_view st s) \<and> is_frames s' = is_frames s \<and> is_sequence s' = is_sequence s
    \<and> is_data_input_events s' = is_data_input_events s @ (if eof then [] else [e])
    \<and> is_eof_inputs s' = is_eof_inputs s + (if eof then 1 else 0) \<and> (\<exists>vs. is_violations s' = is_violations s @ vs)"
proof -
  define u where "u = violate_each (input_checks i e c offset n eof s) s"
  from violate_each_effect obtain vs where n: "noted s vs u" unfolding u_def by blast
  have s': "s' = (let u = u\<lparr>is_input_commands := is_input_commands u @ [c], is_input_offset := offset\<rparr>
      in if eof then u\<lparr>is_eof_inputs := is_eof_inputs u + 1, is_input_eof := True\<rparr>
         else u\<lparr>is_data_input_events := is_data_input_events u @ [e]\<rparr>)"
    unfolding assms push_input_def u_def [symmetric] Let_def ..
  have "get_view st s' = get_view st s" for st
    using noted_fields(1) [OF n, of st] by (cases st) (simp_all add: s' Let_def)
  with noted_fields [OF n] show ?thesis by (simp add: s' Let_def)
qed

section \<open>A trace never forgets a violation\<close>

lemma entry_update_grow:
  assumes "\<And>s. \<exists>vs. is_violations (f s) = is_violations s @ vs"
  shows "set (concat (map (\<lambda>(k, s). is_violations s) xs))
    \<subseteq> set (concat (map (\<lambda>(k, s). is_violations s) (entry_update k d f xs)))"
proof (induction xs)
  case (Cons x xs)
  obtain k' s where x: "x = (k', s)" by fastforce
  obtain vs where "is_violations (f s) = is_violations s @ vs" using assms by blast
  with Cons show ?case by (auto simp: x)
qed simp

lemma update_streams_grow:
  assumes "\<And>s. \<exists>vs. is_violations (f s) = is_violations s @ vs"
  shows "set (all_violations t) \<subseteq> set (all_violations (update_streams t i f))"
  using entry_update_grow [OF assms, of "wt_invocations t" i InvocationStreams_default]
  by (auto simp: all_violations_def update_streams_def)

lemma with_violation_grow: "set (all_violations t) \<subseteq> set (all_violations (with_violation t m))"
  by (auto simp: all_violations_def with_violation_def)

lemma with_violation_dirty [simp]: "all_violations (with_violation t m) \<noteq> []" "with_violation t m \<noteq> t"
  by (simp_all add: all_violations_def with_violation_def) (metis append_self_conv not_Cons_self2 WorkloadTrace.select_convs(10) WorkloadTrace.surjective WorkloadTrace.update_convs(10))

lemma all_violations_fields [simp]:
  "all_violations (t\<lparr>wt_starts := a\<rparr>) = all_violations t"
  "all_violations (t\<lparr>wt_exits := b\<rparr>) = all_violations t"
  "all_violations (t\<lparr>wt_terminations := c\<rparr>) = all_violations t"
  "all_violations (t\<lparr>wt_cleanups := d\<rparr>) = all_violations t"
  "all_violations (t\<lparr>wt_launch_failures := e\<rparr>) = all_violations t"
  "all_violations (t\<lparr>wt_activations := f\<rparr>) = all_violations t"
  "all_violations (t\<lparr>wt_restorations := g\<rparr>) = all_violations t"
  "all_violations (t\<lparr>wt_configured := h\<rparr>) = all_violations t"
  by (simp_all add: all_violations_def)

lemma push_input_grow: "\<exists>vs. is_violations (push_input i e c offset n eof s) = is_violations s @ vs"
  using push_input_effect by blast

lemma trace_event_grow: "set (all_violations t) \<subseteq> set (all_violations (trace_event t e c ev))"
proof (cases ev)
  case (WorkloadOutput i st offset seq data)
  then show ?thesis
    using with_violation_grow update_streams_grow [OF push_grow] by (simp split: sum.splits)
next
  case (InputAccepted i offset n eof)
  then show ?thesis
    using with_violation_grow update_streams_grow [OF push_input_grow] by simp
qed (use with_violation_grow in \<open>auto simp: Let_def split: option.splits list.splits\<close>)

interpretation workload: monitor WorkloadTrace_push all_violations
  by unfold_locales (simp only: WorkloadTrace_push_def trace_event_grow)

section \<open>What a trace without violations recorded\<close>

text \<open>The branch of each event that records no violation.\<close>

fun record_event :: "WorkloadTrace \<Rightarrow> nat \<Rightarrow> nat \<Rightarrow> Event \<Rightarrow> WorkloadTrace" where
  "record_event t e c (WorkloadStarted i launch) =
     t\<lparr>wt_starts := wt_starts t @ [\<lparr>sr_invocation = i, sr_launch = launch, sr_event_id = e\<rparr>]\<rparr>"
| "record_event t e c (WorkloadExited i x n1 d1 n2 d2 k) =
     t\<lparr>wt_exits := wt_exits t @ [\<lparr>er_invocation = i, er_exit = x, er_stdout_bytes = n1, er_stdout_sha256 = d1,
        er_stderr_bytes = n2, er_stderr_sha256 = d2, er_frames = k, er_event_id = e\<rparr>]\<rparr>"
| "record_event t e c (TerminationRequested i signal) =
     t\<lparr>wt_terminations := wt_terminations t @ [\<lparr>tr_invocation = i, tr_signal = signal, tr_event_id = e\<rparr>]\<rparr>"
| "record_event t e c (CleanupComplete i n) =
     t\<lparr>wt_cleanups := wt_cleanups t @ [\<lparr>cr_invocation = i, cr_reaped = n, cr_event_id = e\<rparr>]\<rparr>"
| "record_event t e c (LaunchFailed i failure detail) =
     t\<lparr>wt_launch_failures := wt_launch_failures t @ [\<lparr>lf_invocation = i, lf_failure = failure\<rparr>]\<rparr>"
| "record_event t e c (NetworkConfigured interface cidr gateway) =
     t\<lparr>wt_configured := Some \<lparr>cg_gateway = gateway, cg_event_id = e\<rparr>\<rparr>"
| "record_event t e c (OutageActivated peer rule) = t\<lparr>wt_activations := wt_activations t @ [(peer, e)]\<rparr>"
| "record_event t e c (NetworkRestored peer) = t\<lparr>wt_restorations := wt_restorations t @ [(peer, e)]\<rparr>"
| "record_event t e c (WorkloadOutput i st offset seq hex) =
     update_streams t i (InvocationStreams_push e i st offset seq (projr (decode_bytes hex MAX_OUTPUT_FRAME_BYTES)))"
| "record_event t e c (InputAccepted i offset n eof) = update_streams t i (push_input i e c offset n eof)"
| "record_event t e c _ = t"

text \<open>When it is taken.\<close>

fun admissible :: "WorkloadTrace \<Rightarrow> Event \<Rightarrow> bool" where
  "admissible t (WorkloadStarted i launch) = (\<not> started t i)"
| "admissible t (WorkloadExited i x n1 d1 n2 d2 k) = (started t i \<and> \<not> exited t i)"
| "admissible t (TerminationRequested i signal) = (started t i \<and> \<not> exited t i \<and> \<not> terminated t i)"
| "admissible t (CleanupComplete i n) =
     (started t i \<and> exited t i \<and> \<not> list_ex (\<lambda>r. cr_invocation r = i) (wt_cleanups t) \<and> n > 0)"
| "admissible t (LaunchFailed i failure detail) = (\<not> launch_failed t i \<and> \<not> exited t i)"
| "admissible t (NetworkConfigured interface cidr gateway) =
     (wt_configured t = None \<and> interface = NETWORK_INTERFACE \<and> cidr = NETWORK_GUEST_CIDR \<and> gateway = FIXTURE_PEER)"
| "admissible t (OutageActivated peer rule) = (wt_activations t = [] \<and> rule = ''prohibit '' @ peer)"
| "admissible t (NetworkRestored peer) = (wt_restorations t = [])"
| "admissible t (WorkloadOutput i st offset seq hex) =
     (started t i \<and> \<not> exited t i \<and> is_ok (decode_bytes hex MAX_OUTPUT_FRAME_BYTES))"
| "admissible t (InputAccepted i offset n eof) = (started t i \<and> \<not> exited t i \<and> \<not> terminated t i)"
| "admissible t _ = True"

lemma trace_event_clean:
  assumes "all_violations (trace_event t e c ev) = []"
  shows "trace_event t e c ev = record_event t e c ev \<and> admissible t ev"
proof (cases ev)
  case (CleanupComplete i n)
  show ?thesis
  proof (cases "find (\<lambda>r. er_invocation r = i) (wt_exits t)")
    case None
    with CleanupComplete assms show ?thesis by (simp split: if_splits)
  next
    case (Some r)
    then have "exited t i" by (auto simp: exited_def list_ex_iff find_Some_iff)
    with Some CleanupComplete assms show ?thesis by (simp split: if_splits)
  qed
next
  case (WorkloadOutput i st offset seq hex)
  with assms show ?thesis by (auto simp: is_ok_def split: if_splits sum.splits)
qed (use assms in \<open>auto simp: Let_def split: if_splits option.splits list.splits\<close>)


section \<open>The history behind a trace\<close>

definition trace_of :: "EventFrame list \<Rightarrow> WorkloadTrace" where
  "trace_of hs = foldl WorkloadTrace_push WorkloadTrace_default hs"

definition clean :: "EventFrame list \<Rightarrow> bool" where
  "clean hs \<longleftrightarrow> all_violations (trace_of hs) = []"

fun start_of :: "nat \<Rightarrow> Event \<Rightarrow> StartRecord list" where
  "start_of e (WorkloadStarted i launch) = [\<lparr>sr_invocation = i, sr_launch = launch, sr_event_id = e\<rparr>]"
| "start_of e _ = []"

fun exit_of :: "nat \<Rightarrow> Event \<Rightarrow> ExitRecord list" where
  "exit_of e (WorkloadExited i x n1 d1 n2 d2 k) = [\<lparr>er_invocation = i, er_exit = x, er_stdout_bytes = n1,
     er_stdout_sha256 = d1, er_stderr_bytes = n2, er_stderr_sha256 = d2, er_frames = k, er_event_id = e\<rparr>]"
| "exit_of e _ = []"

fun termination_of :: "nat \<Rightarrow> Event \<Rightarrow> TerminationRecord list" where
  "termination_of e (TerminationRequested i signal) = [\<lparr>tr_invocation = i, tr_signal = signal, tr_event_id = e\<rparr>]"
| "termination_of e _ = []"

fun cleanup_of :: "nat \<Rightarrow> Event \<Rightarrow> CleanupRecord list" where
  "cleanup_of e (CleanupComplete i n) = [\<lparr>cr_invocation = i, cr_reaped = n, cr_event_id = e\<rparr>]"
| "cleanup_of e _ = []"

fun launch_failure_of :: "nat \<Rightarrow> Event \<Rightarrow> LaunchFailureRecord list" where
  "launch_failure_of e (LaunchFailed i failure detail) = [\<lparr>lf_invocation = i, lf_failure = failure\<rparr>]"
| "launch_failure_of e _ = []"

fun activation_of :: "nat \<Rightarrow> Event \<Rightarrow> (string \<times> nat) list" where
  "activation_of e (OutageActivated peer rule) = [(peer, e)]"
| "activation_of e _ = []"

fun restoration_of :: "nat \<Rightarrow> Event \<Rightarrow> (string \<times> nat) list" where
  "restoration_of e (NetworkRestored peer) = [(peer, e)]"
| "restoration_of e _ = []"

fun configured_of :: "nat \<Rightarrow> Event \<Rightarrow> ConfiguredRecord list" where
  "configured_of e (NetworkConfigured interface cidr gateway) = [\<lparr>cg_gateway = gateway, cg_event_id = e\<rparr>]"
| "configured_of e _ = []"

text \<open>The bytes an event brings to a stream of an invocation, each with the event's id.\<close>

fun output_of :: "nat \<Rightarrow> OutputStream \<Rightarrow> nat \<Rightarrow> Event \<Rightarrow> (nat \<times> u8) list" where
  "output_of i st e (WorkloadOutput j st' offset seq hex) =
     (if i = j \<and> st = st' then map (Pair e) (projr (decode_bytes hex MAX_OUTPUT_FRAME_BYTES)) else [])"
| "output_of i st e _ = []"

fun input_of :: "nat \<Rightarrow> bool \<Rightarrow> nat \<Rightarrow> Event \<Rightarrow> nat list" where
  "input_of i eof e (InputAccepted j offset n eof') = (if i = j \<and> eof = eof' then [e] else [])"
| "input_of i eof e _ = []"

definition gather :: "(nat \<Rightarrow> Event \<Rightarrow> 'a list) \<Rightarrow> EventFrame list \<Rightarrow> 'a list" where
  "gather g hs = concat (map (\<lambda>f. g (ef_event_id f) (ef_event f)) hs)"

lemma gather_simps [simp]: "gather g [] = []" "gather g (hs @ [f]) = gather g hs @ g (ef_event_id f) (ef_event f)"
  by (simp_all add: gather_def)

lemma record_event_fields:
  "wt_starts (record_event t e c ev) = wt_starts t @ start_of e ev"
  "wt_exits (record_event t e c ev) = wt_exits t @ exit_of e ev"
  "wt_terminations (record_event t e c ev) = wt_terminations t @ termination_of e ev"
  "wt_cleanups (record_event t e c ev) = wt_cleanups t @ cleanup_of e ev"
  "wt_launch_failures (record_event t e c ev) = wt_launch_failures t @ launch_failure_of e ev"
  "wt_activations (record_event t e c ev) = wt_activations t @ activation_of e ev"
  "wt_restorations (record_event t e c ev) = wt_restorations t @ restoration_of e ev"
  by (cases ev; simp add: update_streams_def)+

lemma clean_snoc:
  assumes "clean (hs @ [f])"
  shows "clean hs" "trace_of (hs @ [f]) = record_event (trace_of hs) (ef_event_id f) (ef_command_id f) (ef_event f)"
    "admissible (trace_of hs) (ef_event f)"
  using assms workload.clean_prefix [of WorkloadTrace_default hs "[f]"]
    trace_event_clean [of "trace_of hs" "ef_event_id f" "ef_command_id f" "ef_event f"]
  by (simp_all add: clean_def trace_of_def WorkloadTrace_push_def)

definition keyed :: "WorkloadTrace \<Rightarrow> bool" where
  "keyed t \<longleftrightarrow> sorted_wrt (<) (map fst (wt_invocations t))"

definition streams_at :: "WorkloadTrace \<Rightarrow> nat \<Rightarrow> InvocationStreams" where
  "streams_at t i = (case streams_of t i of None \<Rightarrow> InvocationStreams_default | Some s \<Rightarrow> s)"

lemma entry_update_fst: "fst ` set (entry_update k d f xs) = insert k (fst ` set xs)"
  by (induction k d f xs rule: entry_update.induct) auto

lemma entry_update_sorted: "sorted_wrt (<) (map fst xs) \<Longrightarrow> sorted_wrt (<) (map fst (entry_update k d f xs))"
proof (induction xs)
  case (Cons x xs)
  obtain k' v where x: "x = (k', v)" by fastforce
  have "k \<noteq> k' \<Longrightarrow> \<not> k < k' \<Longrightarrow> \<forall>j \<in> fst ` set (entry_update k d f xs). k' < j"
    using Cons.prems unfolding entry_update_fst by (auto simp: x)
  with Cons show ?case by (auto simp: x)
qed simp

lemma entry_update_lookup:
  "sorted_wrt (<) (map fst xs) \<Longrightarrow> map_of (entry_update k d f xs) k' =
     (if k' = k then Some (f (case map_of xs k of None \<Rightarrow> d | Some v \<Rightarrow> v)) else map_of xs k')"
proof (induction xs)
  case (Cons x xs)
  obtain j v where x: "x = (j, v)" by fastforce
  have "k < j \<Longrightarrow> map_of xs k = None"
    using Cons.prems by (fastforce simp: x map_of_eq_None_iff)
  with Cons show ?case by (auto simp: x)
qed simp

lemma streams_at_update:
  "keyed t \<Longrightarrow> streams_at (update_streams t i f) j = (if j = i then f (streams_at t i) else streams_at t j)"
  by (auto simp: keyed_def streams_at_def streams_of_def update_streams_def entry_update_lookup split: option.splits)

lemma streams_at_other [simp]:
  "streams_at (t\<lparr>wt_starts := a\<rparr>) i = streams_at t i"
  "streams_at (t\<lparr>wt_exits := b\<rparr>) i = streams_at t i"
  "streams_at (t\<lparr>wt_terminations := c\<rparr>) i = streams_at t i"
  "streams_at (t\<lparr>wt_cleanups := d\<rparr>) i = streams_at t i"
  "streams_at (t\<lparr>wt_launch_failures := e\<rparr>) i = streams_at t i"
  "streams_at (t\<lparr>wt_activations := f\<rparr>) i = streams_at t i"
  "streams_at (t\<lparr>wt_restorations := g\<rparr>) i = streams_at t i"
  "streams_at (t\<lparr>wt_configured := h\<rparr>) i = streams_at t i"
  by (simp_all add: streams_at_def streams_of_def)

lemma record_event_keyed: "keyed t \<Longrightarrow> keyed (record_event t e c ev)"
  by (cases ev) (simp_all add: keyed_def update_streams_def entry_update_sorted)

lemma trace_keyed: "clean hs \<Longrightarrow> keyed (trace_of hs)"
proof (induction hs rule: rev_induct)
  case Nil
  show ?case by (simp add: trace_of_def WorkloadTrace_default_def keyed_def)
qed (simp add: clean_snoc record_event_keyed)

text \<open>A field that every admissible event extends is gathered from the history.\<close>

lemma recorded:
  assumes "\<And>t e c ev. keyed t \<Longrightarrow> admissible t ev \<Longrightarrow> field (record_event t e c ev) = field t @ g e ev"
    and "field WorkloadTrace_default = []" and "clean hs"
  shows "field (trace_of hs) = gather g hs"
  using assms(3)
proof (induction hs rule: rev_induct)
  case Nil
  show ?case using assms(2) by (simp add: trace_of_def)
next
  case (snoc f hs)
  with assms(1) [OF trace_keyed [OF clean_snoc(1)]] show ?case by (simp add: clean_snoc)
qed

lemma trace_records:
  assumes "clean hs"
  shows "wt_starts (trace_of hs) = gather start_of hs" "wt_exits (trace_of hs) = gather exit_of hs"
    "wt_terminations (trace_of hs) = gather termination_of hs" "wt_cleanups (trace_of hs) = gather cleanup_of hs"
    "wt_launch_failures (trace_of hs) = gather launch_failure_of hs"
    "wt_activations (trace_of hs) = gather activation_of hs" "wt_restorations (trace_of hs) = gather restoration_of hs"
  by (rule recorded [OF _ _ assms]; simp add: record_event_fields WorkloadTrace_default_def)+

lemma configured_list:
  assumes "clean hs"
  shows "(case wt_configured (trace_of hs) of None \<Rightarrow> [] | Some r \<Rightarrow> [r]) = gather configured_of hs"
proof (rule recorded [OF _ _ assms])
  fix t e c ev
  assume "admissible t ev"
  then show "(case wt_configured (record_event t e c ev) of None \<Rightarrow> [] | Some r \<Rightarrow> [r])
      = (case wt_configured t of None \<Rightarrow> [] | Some r \<Rightarrow> [r]) @ configured_of e ev"
    by (cases ev) (simp_all add: update_streams_def)
qed (simp add: WorkloadTrace_default_def)

lemma default_stream_ok: "stream_ok st InvocationStreams_default []"
  by (cases st) (simp_all add: stream_ok_def assembled_def head_event_def InvocationStreams_default_def)

lemma stream_ok_cong: "get_view st s' = get_view st s \<Longrightarrow> stream_ok st s' tagged = stream_ok st s tagged"
  by (simp add: stream_ok_def)

fun numbered_of :: "nat \<Rightarrow> nat \<Rightarrow> Event \<Rightarrow> nat list" where
  "numbered_of i e (WorkloadOutput j st offset seq hex) = (if i = j then [seq] else [])"
| "numbered_of i e _ = []"

lemma streams_clean: "clean hs \<Longrightarrow> is_violations (streams_at (trace_of hs) i) = []"
  by (auto simp: clean_def all_violations_def streams_at_def streams_of_def InvocationStreams_default_def
      split: option.splits dest: map_of_SomeD)

definition streams_gathered :: "nat \<Rightarrow> EventFrame list \<Rightarrow> InvocationStreams \<Rightarrow> bool" where
  "streams_gathered i hs s \<longleftrightarrow>
     (\<forall>st. stream_ok st s (gather (output_of i st) hs))
   \<and> is_sequence s = is_frames s
   \<and> gather (numbered_of i) hs = [1..<Suc (is_frames s)]
   \<and> is_data_input_events s = gather (input_of i False) hs \<and> is_eof_inputs s = length (gather (input_of i True) hs)"

lemma checked_add_one: "checked_add n (Suc 0) = Some m \<Longrightarrow> m = Suc n"
  by (auto simp: checked_add_def split: if_splits)

lemma gathered_push:
  assumes "streams_gathered i hs s" "ef_event f = WorkloadOutput i st offset seq hex"
    and s': "s' = InvocationStreams_push (ef_event_id f) i st offset seq (projr (decode_bytes hex MAX_OUTPUT_FRAME_BYTES)) s"
    and "is_violations s' = []"
  shows "streams_gathered i (hs @ [f]) s'"
proof -
  note ok = assms(1) [unfolded streams_gathered_def]
  from push_effect [OF _ s', of "gather (output_of i st) hs"] ok assms(4)
  have eff: "stream_ok st s' (gather (output_of i st) hs @ map (Pair (ef_event_id f)) (projr (decode_bytes hex MAX_OUTPUT_FRAME_BYTES)))"
    "\<And>st'. st' \<noteq> st \<Longrightarrow> get_view st' s' = get_view st' s"
    "is_frames s' = is_frames s + 1" "is_sequence s' = seq" "seq = Suc (is_sequence s)"
    "is_data_input_events s' = is_data_input_events s" "is_eof_inputs s' = is_eof_inputs s"
    by (auto dest: checked_add_one)
  have "stream_ok st' s' (gather (output_of i st') (hs @ [f]))" for st'
    using ok eff(1) stream_ok_cong [OF eff(2), of st'] by (cases "st' = st") (auto simp: assms(2))
  with ok eff show ?thesis by (simp add: streams_gathered_def assms(2))
qed

lemma gathered_input:
  assumes "streams_gathered i hs s" "ef_event f = InputAccepted i offset n eof"
    and s': "s' = push_input i (ef_event_id f) c offset n eof s"
  shows "streams_gathered i (hs @ [f]) s'"
  using assms(1) push_input_effect [OF s'] stream_ok_cong [of _ s' s]
  by (cases eof) (simp_all add: streams_gathered_def assms(2))

text \<open>An event that is no output and no input of the invocation.\<close>

fun touches :: "nat \<Rightarrow> Event \<Rightarrow> bool" where
  "touches i (WorkloadOutput j st offset seq hex) = (j = i)"
| "touches i (InputAccepted j offset n eof) = (j = i)"
| "touches i _ = False"

lemma gathered_other: "streams_gathered i hs s \<Longrightarrow> \<not> touches i (ef_event f) \<Longrightarrow> streams_gathered i (hs @ [f]) s"
  by (cases "ef_event f") (simp_all add: streams_gathered_def)

lemma record_event_other: "keyed t \<Longrightarrow> \<not> touches i ev \<Longrightarrow> streams_at (record_event t e c ev) i = streams_at t i"
  by (cases ev) (simp_all add: streams_at_update)

lemma trace_streams: "clean hs \<Longrightarrow> streams_gathered i hs (streams_at (trace_of hs) i)"
proof (induction hs rule: rev_induct)
  case Nil
  have "streams_at (trace_of []) i = InvocationStreams_default"
    by (simp add: trace_of_def WorkloadTrace_default_def streams_at_def streams_of_def)
  then show ?case using default_stream_ok by (simp add: streams_gathered_def InvocationStreams_default_def)
next
  case (snoc f hs)
  note hs = snoc.IH [OF clean_snoc(1) [OF snoc.prems]] and keyed = trace_keyed [OF clean_snoc(1) [OF snoc.prems]]
    and t = clean_snoc(2) [OF snoc.prems]
  show ?case
  proof (cases "touches i (ef_event f)")
    case False
    with hs keyed show ?thesis by (simp add: t record_event_other gathered_other)
  next
    case True
    then consider st offset seq hex where "ef_event f = WorkloadOutput i st offset seq hex"
      | offset n eof where "ef_event f = InputAccepted i offset n eof" by (cases "ef_event f") auto
    then show ?thesis
    proof cases
      case 1
      with keyed have "streams_at (trace_of (hs @ [f])) i = InvocationStreams_push (ef_event_id f) i st offset seq
          (projr (decode_bytes hex MAX_OUTPUT_FRAME_BYTES)) (streams_at (trace_of hs) i)"
        by (simp add: t streams_at_update)
      from gathered_push [OF hs 1 this streams_clean [OF snoc.prems]] show ?thesis .
    next
      case 2
      with keyed have "streams_at (trace_of (hs @ [f])) i =
          push_input i (ef_event_id f) (ef_command_id f) offset n eof (streams_at (trace_of hs) i)"
        by (simp add: t streams_at_update)
      from gathered_input [OF hs 2 this] show ?thesis .
    qed
  qed
qed

section \<open>Lines are never taken back\<close>

lemma complete_lines_lines:
  "\<exists>more. sv_lines (fst (complete_lines e i st x)) = sv_lines (fst x) @ more
     \<and> is_stdout_lines (snd (complete_lines e i st x)) = is_stdout_lines (snd x)"
proof (induction e i st x rule: complete_lines.induct)
  case (1 e i st v s)
  show ?case
  proof (cases "position_of 0x0a (sv_pending v)")
    case None
    then show ?thesis by (simp add: complete_lines.simps)
  next
    case (Some index)
    have "\<exists>l. sv_lines (fst (complete_line e i st index (v, s))) = sv_lines v @ [l]"
      "is_stdout_lines (snd (complete_line e i st index (v, s))) = is_stdout_lines s"
      by (simp_all add: complete_line_def Let_def note_long_line_def violate_def)
    with 1 [OF Some] show ?thesis by (subst (1 2) complete_lines.simps) (auto simp: Some)
  qed
qed

lemma view_lines: "is_stdout_lines s = sv_lines (get_view Stdout s)"
  by simp

lemma push_lines: "\<exists>more. is_stdout_lines (InvocationStreams_push e i st offset seq data s) = is_stdout_lines s @ more"
proof -
  obtain s1 vs1 s3 vs3 v s4 vs5 s5 where n: "noted s vs1 s1" "noted (counted seq s1) vs3 s3" "noted s4 vs5 s5"
    and cl: "complete_lines e i st (received e offset data (get_view st s), s3) = (v, s4)"
    and s': "InvocationStreams_push e i st offset seq data s = put_view st v s5"
    using push_stages [of s seq offset st e i data] by blast
  obtain more where "sv_lines v = sv_lines (get_view st s) @ more" "is_stdout_lines s4 = is_stdout_lines s3"
    using complete_lines_lines [of e i st "(received e offset data (get_view st s), s3)"] cl by (auto simp: received_def)
  then show ?thesis unfolding s' using n [THEN noted_fields(1), of Stdout] by (cases st) simp_all
qed

lemma push_input_lines: "is_stdout_lines (push_input i e k offset bytes eof s) = is_stdout_lines s"
  using push_input_effect [OF refl, of i e k offset bytes eof s] view_lines by metis

lemma trace_event_keyed: "keyed t \<Longrightarrow> keyed (trace_event t e k ev)"
  by (cases ev) (auto simp: keyed_def update_streams_def entry_update_sorted with_violation_def Let_def
      split: option.splits list.splits sum.splits)

definition lines_at :: "WorkloadTrace \<Rightarrow> nat \<Rightarrow> CompletedLine list" where
  "lines_at t i = is_stdout_lines (streams_at t i)"

lemma kept_lines_at: "stdout_lines t i = lines_at t i"
  by (simp add: stdout_lines_def lines_at_def streams_at_def InvocationStreams_default_def split: option.splits)

lemma violation_lines [simp]: "streams_at (with_violation t m) i = streams_at t i"
  by (simp add: streams_at_def streams_of_def with_violation_def)

lemma trace_event_lines:
  assumes "keyed t"
  shows "\<exists>more. lines_at (trace_event t e k ev) i = lines_at t i @ more"
proof (cases ev)
  case (WorkloadOutput j st offset seq bytes)
  then show ?thesis using push_lines
    by (auto simp: lines_at_def streams_at_update [OF assms] split: sum.splits)
next
  case (InputAccepted j offset bytes eof)
  then show ?thesis by (simp add: lines_at_def streams_at_update [OF assms] push_input_lines)
qed (auto simp: lines_at_def Let_def split: option.splits list.splits)

lemma pushes_lines:
  "keyed t \<Longrightarrow> keyed (foldl WorkloadTrace_push t fs) \<and> (\<exists>more. stdout_lines (foldl WorkloadTrace_push t fs) i = stdout_lines t i @ more)"
proof (induction fs arbitrary: t)
  case (Cons f fs)
  let ?t = "WorkloadTrace_push t f"
  have "keyed ?t" "\<exists>more. stdout_lines ?t i = stdout_lines t i @ more"
    using Cons.prems trace_event_keyed trace_event_lines by (simp_all add: WorkloadTrace_push_def kept_lines_at)
  with Cons.IH [of ?t] show ?case by fastforce
qed simp

section \<open>Bytes and lines\<close>

lemma segments_bytes: "concat (fst (segments cur xs)) @ snd (segments cur xs) = cur @ xs"
  by (induction cur xs rule: segments.induct) auto

lemma segments_end: "seg \<in> set (fst (segments cur xs)) \<Longrightarrow> map snd seg = map snd (butlast seg) @ [0x0a]"
  by (induction cur xs rule: segments.induct) (auto split: if_splits)

lemma utf8_chunk_ascii: "utf8_chunk a rest = (n, True) \<Longrightarrow> a < 0x80 \<Longrightarrow> n = Suc 0"
  by (simp add: utf8_chunk_def utf8_width_def Let_def)

lemma lossy_ascii: "list_all (\<lambda>b. b < 0x80) (lossy_bytes bs) \<Longrightarrow> lossy_bytes bs = bs"
proof (induction bs rule: lossy_bytes.induct)
  case (2 a rest)
  obtain n valid where chunk: "utf8_chunk a rest = (n, valid)" by fastforce
  show ?case
  proof (cases valid)
    case False
    with 2 chunk show ?thesis by (simp add: replacement_def)
  next
    case True
    have "n \<noteq> 0" using chunk by (auto simp: utf8_chunk_def Let_def split: if_splits)
    with True 2(2) chunk have "a < 0x80" by (cases n) simp_all
    with True chunk have "n = 1" by (simp add: utf8_chunk_ascii)
    with True 2 chunk show ?thesis by simp
  qed
qed simp

definition ascii :: "string \<Rightarrow> bool" where
  "ascii s \<longleftrightarrow> list_all (\<lambda>b. b < 0x80) (as_bytes s)"

lemma lossy_exact: "from_utf8_lossy bs = s \<Longrightarrow> ascii s \<Longrightarrow> bs = as_bytes s"
  using lossy_ascii [of bs] by (auto simp: from_utf8_lossy_def ascii_def)

definition newline_terminated :: "string list \<Rightarrow> bytes" where
  "newline_terminated ls = concat (map (\<lambda>l. as_bytes l @ [0x0a]) ls)"

lemma lines_exact:
  assumes "map cl_text (map line_of segs) = texts" "list_all ascii texts"
    and "\<And>seg. seg \<in> set segs \<Longrightarrow> map snd seg = map snd (butlast seg) @ [0x0a]"
  shows "map snd (concat segs) = newline_terminated texts"
  using assms
proof (induction segs arbitrary: texts)
  case (Cons seg segs)
  then obtain l ls where texts: "texts = l # ls" "from_utf8_lossy (map snd (butlast seg)) = l" by (auto simp: line_of_def)
  have "map snd seg = as_bytes l @ [0x0a]"
    using lossy_exact [OF texts(2)] Cons.prems(2) Cons.prems(3) [of seg] by (simp add: texts(1))
  moreover have "map snd (concat segs) = newline_terminated ls" using Cons texts by (intro Cons.IH) auto
  ultimately show ?case by (simp add: texts(1) newline_terminated_def)
qed (simp add: newline_terminated_def)

lemma stream_exact:
  assumes "stream_ok st s tagged" "map cl_text (sv_lines (get_view st s)) = texts" "list_all ascii texts"
    and "sv_pending (get_view st s) = []"
  shows "map snd tagged = newline_terminated texts"
proof -
  let ?segs = "fst (segments [] tagged)"
  have "tagged = concat ?segs" using segments_bytes [of "[]" tagged] assms(1,4) by (simp add: stream_ok_def assembled_def)
  moreover have "map snd (concat ?segs) = newline_terminated texts"
    using assms(1-3) segments_end by (intro lines_exact) (auto simp: stream_ok_def assembled_def)
  ultimately show ?thesis by simp
qed

section \<open>Lines of any history\<close>

text \<open>
  The life of one invocation as its events tell it, whatever else the history holds: it runs from its
  first start to the first exit after it.
\<close>

datatype life = Unstarted | Live | Over

fun life_after :: "nat \<Rightarrow> life \<Rightarrow> Event \<Rightarrow> life" where
  "life_after i Unstarted (WorkloadStarted j launch) = (if j = i then Live else Unstarted)"
| "life_after i Live (WorkloadExited j x n1 d1 n2 d2 k) = (if j = i then Over else Live)"
| "life_after i l _ = l"

definition life_of :: "nat \<Rightarrow> EventFrame list \<Rightarrow> life" where
  "life_of i hs = foldl (\<lambda>l f. life_after i l (ef_event f)) Unstarted hs"

text \<open>The frames that arrive while the invocation runs, and the readable output among them.\<close>

definition while_live :: "nat \<Rightarrow> EventFrame list \<Rightarrow> EventFrame list" where
  "while_live i hs = map snd (filter (\<lambda>(k, f). life_of i (take k hs) = Live) (enumerate 0 hs))"

fun readable_of :: "nat \<Rightarrow> OutputStream \<Rightarrow> nat \<Rightarrow> Event \<Rightarrow> (nat \<times> u8) list" where
  "readable_of i st e (WorkloadOutput j st' offset seq hex) =
     (case decode_bytes hex MAX_OUTPUT_FRAME_BYTES of
        Inl _ \<Rightarrow> []
      | Inr data \<Rightarrow> if i = j \<and> st = st' then map (Pair e) data else [])"
| "readable_of i st e _ = []"

fun readable_number :: "nat \<Rightarrow> nat \<Rightarrow> Event \<Rightarrow> nat list" where
  "readable_number i e (WorkloadOutput j st offset seq hex) =
     (if i = j \<and> is_ok (decode_bytes hex MAX_OUTPUT_FRAME_BYTES) then [seq] else [])"
| "readable_number i e _ = []"

lemma while_live_snoc: "while_live i (hs @ [f]) = while_live i hs @ (if life_of i hs = Live then [f] else [])"
  and while_live_Nil [simp]: "while_live i [] = []"
proof -
  have "filter (\<lambda>(k, f). life_of i (take k (hs @ [f'])) = Live) (enumerate 0 hs)
      = filter (\<lambda>(k, f). life_of i (take k hs) = Live) (enumerate 0 hs)" for f'
    by (intro filter_cong refl) (auto simp: in_set_enumerate_eq)
  then show "while_live i (hs @ [f]) = while_live i hs @ (if life_of i hs = Live then [f] else [])"
    by (simp add: while_live_def enumerate_append_eq)
qed (simp add: while_live_def)

lemma life_of_snoc: "life_of i (hs @ [f]) = life_after i (life_of i hs) (ef_event f)"
  by (simp add: life_of_def)

lemma trace_of_snoc: "trace_of (hs @ [f]) = trace_event (trace_of hs) (ef_event_id f) (ef_command_id f) (ef_event f)"
  by (simp add: trace_of_def WorkloadTrace_push_def)

lemma marks_simps [simp]:
  "started (with_violation t m) i = started t i" "exited (with_violation t m) i = exited t i"
  "started (update_streams t j g) i = started t i" "exited (update_streams t j g) i = exited t i"
  "streams_at (with_violation t m) i = streams_at t i"
  by (simp_all add: started_def exited_def with_violation_def update_streams_def streams_at_def streams_of_def)

lemma trace_life: "started (trace_of hs) i = (life_of i hs \<noteq> Unstarted) \<and> exited (trace_of hs) i = (life_of i hs = Over)"
proof (induction hs rule: rev_induct)
  case Nil
  show ?case by (simp add: trace_of_def life_of_def WorkloadTrace_default_def started_def exited_def)
next
  case (snoc f hs)
  then show ?case
    by (cases "ef_event f"; cases "life_of i hs")
      (auto simp: trace_of_snoc life_of_snoc Let_def started_def exited_def with_violation_def update_streams_def split: option.splits list.splits sum.splits)
qed

lemma trace_keyed_any: "keyed (trace_of hs)"
  by (induction hs rule: rev_induct)
    (simp_all add: trace_of_snoc trace_event_keyed, simp add: trace_of_def WorkloadTrace_default_def keyed_def)

definition taken_output :: "nat \<Rightarrow> OutputStream \<Rightarrow> EventFrame list \<Rightarrow> (nat \<times> u8) list" where
  "taken_output i st hs = gather (readable_of i st) (while_live i hs)"

definition stream_heard :: "nat \<Rightarrow> EventFrame list \<Rightarrow> InvocationStreams \<Rightarrow> bool" where
  "stream_heard i hs s \<longleftrightarrow> (\<forall>st. stream_ok st s (taken_output i st hs))
     \<and> is_frames s = length (gather (readable_number i) (while_live i hs))"

lemma heard_push:
  assumes "stream_heard i hs s" "ef_event f = WorkloadOutput i st offset seq hex" "life_of i hs = Live"
    and "decode_bytes hex MAX_OUTPUT_FRAME_BYTES = Inr data"
  shows "stream_heard i (hs @ [f]) (InvocationStreams_push (ef_event_id f) i st offset seq data s)" (is "stream_heard _ _ ?s")
proof -
  from push_effect [OF _ refl, of st s "taken_output i st hs" "ef_event_id f" i offset seq data] assms(1)
  have eff: "stream_ok st ?s (taken_output i st hs @ map (Pair (ef_event_id f)) data)" "is_frames ?s = is_frames s + 1"
    "\<And>st'. st' \<noteq> st \<Longrightarrow> get_view st' ?s = get_view st' s" by (auto simp: stream_heard_def)
  have "stream_ok st' ?s (taken_output i st' (hs @ [f]))" for st'
    using assms eff(1) stream_ok_cong [OF eff(3), of st'] by (cases "st' = st") (auto simp: stream_heard_def taken_output_def while_live_snoc)
  then show ?thesis using assms eff(2) by (simp add: stream_heard_def while_live_snoc)
qed

lemma heard_quiet:
  assumes "stream_heard i hs s" "\<And>st. get_view st s' = get_view st s" "is_frames s' = is_frames s"
    and "life_of i hs = Live \<Longrightarrow> (\<forall>st. readable_of i st (ef_event_id f) (ef_event f) = []) \<and> readable_number i (ef_event_id f) (ef_event f) = []"
  shows "stream_heard i (hs @ [f]) s'"
  using assms stream_ok_cong [OF assms(2)] by (auto simp: stream_heard_def taken_output_def while_live_snoc)

lemma trace_event_other: "keyed t \<Longrightarrow> \<not> touches i ev \<Longrightarrow> streams_at (trace_event t e c ev) i = streams_at t i"
  by (cases ev) (auto simp: streams_at_update Let_def split: option.splits list.splits sum.splits)

lemma untouched_readable: "\<not> touches i ev \<Longrightarrow> readable_of i st e ev = [] \<and> readable_number i e ev = []"
  by (cases ev) (auto split: sum.splits)

lemma trace_heard: "stream_heard i hs (streams_at (trace_of hs) i)"
proof (induction hs rule: rev_induct)
  case Nil
  have "streams_at (trace_of []) i = InvocationStreams_default"
    by (simp add: trace_of_def WorkloadTrace_default_def streams_at_def streams_of_def)
  then show ?case using default_stream_ok by (simp add: stream_heard_def taken_output_def InvocationStreams_default_def)
next
  case (snoc f hs)
  let ?s = "streams_at (trace_of hs) i"
  note marks = trace_life [of hs i] and keyed = trace_keyed_any [of hs]
  show ?case
  proof (cases "touches i (ef_event f)")
    case False
    with heard_quiet [OF snoc refl refl] show ?thesis
      by (simp add: trace_of_snoc trace_event_other [OF keyed] untouched_readable)
  next
    case True
    then consider (out) st offset seq hex where "ef_event f = WorkloadOutput i st offset seq hex"
      | (inp) offset n eof where "ef_event f = InputAccepted i offset n eof" by (cases "ef_event f") auto
    then show ?thesis
    proof cases
      case out
      show ?thesis
      proof (cases "life_of i hs = Live \<and> is_ok (decode_bytes hex MAX_OUTPUT_FRAME_BYTES)")
        case True
        then obtain data where data: "decode_bytes hex MAX_OUTPUT_FRAME_BYTES = Inr data" by (cases "decode_bytes hex MAX_OUTPUT_FRAME_BYTES") auto
        with out True marks have "streams_at (trace_of (hs @ [f])) i = InvocationStreams_push (ef_event_id f) i st offset seq data ?s"
          by (simp add: trace_of_snoc streams_at_update [OF keyed])
        with heard_push [OF snoc out _ data] True show ?thesis by simp
      next
        case False
        then have "streams_at (trace_of (hs @ [f])) i = ?s"
          using out marks by (cases "life_of i hs") (auto simp: trace_of_snoc split: sum.splits)
        moreover have "life_of i hs = Live \<Longrightarrow>
            (\<forall>st. readable_of i st (ef_event_id f) (ef_event f) = []) \<and> readable_number i (ef_event_id f) (ef_event f) = []"
          using out False by (cases "decode_bytes hex MAX_OUTPUT_FRAME_BYTES") auto
        ultimately show ?thesis using heard_quiet [OF snoc refl refl] by simp
      qed
    next
      case inp
      let ?p = "push_input i (ef_event_id f) (ef_command_id f) offset n eof ?s"
      have "streams_at (trace_of (hs @ [f])) i = ?s \<or> streams_at (trace_of (hs @ [f])) i = ?p"
        using inp by (simp add: trace_of_snoc streams_at_update [OF keyed])
      then show ?thesis
        using heard_quiet [OF snoc, of _ f] push_input_effect [OF refl, of i "ef_event_id f" "ef_command_id f" offset n eof ?s] inp by auto
    qed
  qed
qed

lemma clean_heard:
  "clean hs \<Longrightarrow> taken_output i st hs = gather (output_of i st) hs
     \<and> gather (readable_number i) (while_live i hs) = gather (numbered_of i) hs"
proof (induction hs rule: rev_induct)
  case (snoc f hs)
  from clean_snoc(3) [OF snoc.prems] have "admissible (trace_of hs) (ef_event f)" .
  then have "(if life_of i hs = Live then readable_of i st (ef_event_id f) (ef_event f) else []) = output_of i st (ef_event_id f) (ef_event f)
      \<and> (if life_of i hs = Live then readable_number i (ef_event_id f) (ef_event f) else []) = numbered_of i (ef_event_id f) (ef_event f)"
    using trace_life [of hs i] by (cases "ef_event f"; cases "life_of i hs") (auto split: sum.splits)
  with snoc.IH [OF clean_snoc(1) [OF snoc.prems]] show ?case
    by (auto simp: taken_output_def while_live_snoc split: if_splits)
qed (simp add: taken_output_def)

section \<open>Properties of the trace\<close>

definition bytes_of :: "nat \<Rightarrow> OutputStream \<Rightarrow> EventFrame list \<Rightarrow> bytes" where
  "bytes_of i st hs = map snd (gather (output_of i st) hs)"

definition lines_of :: "nat \<Rightarrow> OutputStream \<Rightarrow> EventFrame list \<Rightarrow> CompletedLine list" where
  "lines_of i st hs = map line_of (fst (segments [] (gather (output_of i st) hs)))"

lemma stdout_lines_at: "stdout_lines t i = sv_lines (get_view Stdout (streams_at t i))"
  by (simp add: stdout_lines_def streams_at_def InvocationStreams_default_def split: option.splits)

lemma stderr_lines_at: "stderr_lines t i = sv_lines (get_view Stderr (streams_at t i))"
  by (simp add: stderr_lines_def streams_at_def InvocationStreams_default_def split: option.splits)

lemma trace_view:
  assumes "clean hs"
  shows "sv_lines (get_view st (streams_at (trace_of hs) i)) = lines_of i st hs"
    "sv_bytes (get_view st (streams_at (trace_of hs) i)) = bytes_of i st hs"
  using trace_streams [OF assms, of i]
  by (auto simp: streams_gathered_def stream_ok_def assembled_def lines_of_def bytes_of_def)

definition started_in :: "EventFrame list \<Rightarrow> nat \<Rightarrow> bool" where
  "started_in hs i \<longleftrightarrow> list_ex (\<lambda>r. sr_invocation r = i) (gather start_of hs)"

definition exited_in :: "EventFrame list \<Rightarrow> nat \<Rightarrow> bool" where
  "exited_in hs i \<longleftrightarrow> list_ex (\<lambda>r. er_invocation r = i) (gather exit_of hs)"

definition terminated_in :: "EventFrame list \<Rightarrow> nat \<Rightarrow> bool" where
  "terminated_in hs i \<longleftrightarrow> list_ex (\<lambda>r. tr_invocation r = i) (gather termination_of hs)"

definition cleaned_in :: "EventFrame list \<Rightarrow> nat \<Rightarrow> bool" where
  "cleaned_in hs i \<longleftrightarrow> list_ex (\<lambda>r. cr_invocation r = i) (gather cleanup_of hs)"

text \<open>What the life of an invocation allows after a history.\<close>

fun lifecycle :: "EventFrame list \<Rightarrow> Event \<Rightarrow> bool" where
  "lifecycle hs (WorkloadStarted i launch) = (\<not> started_in hs i)"
| "lifecycle hs (WorkloadOutput i st offset seq hex) = (started_in hs i \<and> \<not> exited_in hs i)"
| "lifecycle hs (InputAccepted i offset n eof) = (started_in hs i \<and> \<not> exited_in hs i \<and> \<not> terminated_in hs i)"
| "lifecycle hs (TerminationRequested i signal) = (started_in hs i \<and> \<not> exited_in hs i \<and> \<not> terminated_in hs i)"
| "lifecycle hs (WorkloadExited i x n1 d1 n2 d2 k) = (started_in hs i \<and> \<not> exited_in hs i)"
| "lifecycle hs (CleanupComplete i n) = (exited_in hs i \<and> \<not> cleaned_in hs i \<and> n > 0)"
| "lifecycle hs (LaunchFailed i failure detail) = (\<not> exited_in hs i)"
| "lifecycle hs (OutageActivated peer rule) = (gather activation_of hs = [])"
| "lifecycle hs (NetworkRestored peer) = (gather restoration_of hs = [])"
| "lifecycle hs (NetworkConfigured interface cidr gateway) =
     (gather configured_of hs = [] \<and> interface = NETWORK_INTERFACE \<and> cidr = NETWORK_GUEST_CIDR \<and> gateway = FIXTURE_PEER)"
| "lifecycle hs _ = True"

lemma admissible_lifecycle:
  assumes "clean hs" "admissible (trace_of hs) ev"
  shows "lifecycle hs ev"
  using assms(2) trace_records [OF assms(1)] configured_list [OF assms(1)]
  by (cases ev) (auto simp: started_def exited_def terminated_def started_in_def exited_in_def terminated_in_def cleaned_in_def)

lemma clean_append: "clean (xs @ ys) \<Longrightarrow> clean xs"
  unfolding clean_def trace_of_def by (rule workload.clean_prefix)

text \<open>
  C33. Cutting the output of an invocation into lines frame by frame, as the trace does, is
  cutting a whole byte stream at its newlines, for every history, with or without violations: the
  recorded bytes of each stream are those of the readable frames that arrived between the start and
  the exit of the invocation, whatever their offsets and sequence numbers claim, the recorded lines
  are the maximal newline-terminated runs of these bytes, each with the event that brought its first
  byte and the event that brought its newline, the pending bytes are what follows the last newline,
  and the frames are counted. In a history without violations these are the bytes of all frames that
  name the invocation, and the frames are numbered from one without a gap.
\<close>

theorem trace_lines_reference:
  "sv_bytes (get_view stream (streams_at (trace_of hs) i)) = map snd (taken_output i stream hs)
    \<and> sv_lines (get_view stream (streams_at (trace_of hs) i)) = map line_of (fst (segments [] (taken_output i stream hs)))
    \<and> sv_pending (get_view stream (streams_at (trace_of hs) i)) = map snd (snd (segments [] (taken_output i stream hs)))
    \<and> is_frames (streams_at (trace_of hs) i) = length (gather (readable_number i) (while_live i hs))
    \<and> (all_violations (trace_of hs) = [] \<longrightarrow> taken_output i stream hs = gather (output_of i stream) hs
        \<and> gather (numbered_of i) hs = [1..<Suc (is_frames (streams_at (trace_of hs) i))])"
  using trace_heard [of i hs] trace_streams [of hs i] clean_heard [of hs i stream]
  by (simp add: stream_heard_def stream_ok_def assembled_def clean_def streams_gathered_def)

text \<open>
  C34. Of a history without violations, every event is one that the life of its invocation
  allows after the events before it: output, input and termination fall between the start and
  the exit, nothing is accepted after a termination request, a cleanup follows the exit, reaps a
  process and is the only one, and the network is configured, cut and restored at most once.
\<close>

theorem trace_lifecycle:
  assumes "all_violations (trace_of (xs @ f # ys)) = []"
  shows "lifecycle xs (ef_event f)"
proof -
  have "clean (xs @ [f])" using clean_append [of "xs @ [f]" ys] assms by (simp add: clean_def)
  then show ?thesis by (intro admissible_lifecycle) (simp_all add: clean_snoc)
qed

end
