(* ===== verification/Checker.thy ===== *)
theory Checker
  imports Checker_Trace
begin

text \<open>
  The workload report of \<open>checker.rs\<close>: process safety, response integrity, the controlled outage,
  the restoration and the bounded recovery, evaluated over the trace of a run. An early
  \<open>return failed(..)\<close> is \<open>require_that\<close> or \<open>let_some\<close>, whose last argument is the rest of the body.
  The one index out of range that the code can meet, a process fault beyond the planned requests,
  is the result \<open>None\<close>. The main theorem: a report that passes means the whole contract of the
  run, stated over the events themselves.
\<close>

section \<open>Results\<close>

definition passed :: "AssertionName \<Rightarrow> string \<Rightarrow> AssertionResult" where
  "passed name detail = \<lparr>ar_name = name, ar_passed = True, ar_detail = detail\<rparr>"

definition failed :: "AssertionName \<Rightarrow> string \<Rightarrow> AssertionResult" where
  "failed name detail = \<lparr>ar_name = name, ar_passed = False, ar_detail = detail\<rparr>"

definition require_that :: "AssertionName \<Rightarrow> bool \<Rightarrow> string \<Rightarrow> AssertionResult \<Rightarrow> AssertionResult" where
  "require_that name ok detail rest = (if ok then rest else failed name detail)"

definition let_some :: "AssertionName \<Rightarrow> 'a option \<Rightarrow> string \<Rightarrow> ('a \<Rightarrow> AssertionResult) \<Rightarrow> AssertionResult" where
  "let_some name opt detail rest = (case opt of None \<Rightarrow> failed name detail | Some x \<Rightarrow> rest x)"

fun process_exit_debug :: "ProcessExit \<Rightarrow> string" where
  "process_exit_debug (Exited code) = ''Exited { code: '' @ dec_int code @ '' }''"
| "process_exit_debug (Signaled signal) = ''Signaled { signal: '' @ dec_int signal @ '' }''"

section \<open>Process safety\<close>

text \<open>The first invocation, killed and cleaned up, and the second, started afterwards.\<close>

definition fresh_state_count :: "WorkloadTrace \<Rightarrow> nat \<Rightarrow> nat" where
  "fresh_state_count trace invocation =
     length (filter (\<lambda>l. cl_text l = FRESH_STATE_LINE) (stdout_lines trace invocation))"

definition process_state :: "WorkloadTrace \<Rightarrow> WorkloadChoicePlan \<Rightarrow> AssertionResult" where
  "process_state trace choices =
     (let fresh_one = fresh_state_count trace 1; fresh_two = fresh_state_count trace 2;
          stale = find (\<lambda>l. starts_with (cl_text l) STATE_LINE_PREFIX \<and> cl_text l \<noteq> FRESH_STATE_LINE)
                    (stdout_lines trace 1 @ stdout_lines trace 2)
      in case stale of
           Some stale \<Rightarrow>
             failed ProcessSafety (''an invocation observed the first invocation's root mutation at event ''
               @ dec (cl_event_id stale))
         | None \<Rightarrow>
             require_that ProcessSafety (fresh_one = 1 \<and> fresh_two = 1)
               (''each invocation must report a fresh root once, observed '' @ dec fresh_one @ '' and '' @ dec fresh_two)
             (require_that ProcessSafety (wp_process_fault_request_index choices \<noteq> 0)
               ''the process fault must follow at least one recorded request''
             (passed ProcessSafety (''invocation 1 was killed and cleaned up before invocation 2 started fresh at request ''
               @ dec (wp_process_fault_request_index choices)))))"

definition second_invocation :: "WorkloadTrace \<Rightarrow> WorkloadChoicePlan \<Rightarrow> TerminationRecord \<Rightarrow> AssertionResult" where
  "second_invocation trace choices stopped =
     let_some ProcessSafety (any_stdout_line trace ESCAPED_DESCENDANT_LINE)
       ''the first invocation never reported an escaped descendant'' (\<lambda>escaped.
     require_that ProcessSafety (\<not> cl_event_id escaped > tr_event_id stopped)
       ''the escaped descendant was reported after the termination was requested''
     (let_some ProcessSafety (find (\<lambda>r. er_invocation r = 2) (wt_exits trace))
       ''the second invocation has no exit record'' (\<lambda>second_exit.
     require_that ProcessSafety (er_exit second_exit = Exited 0)
       (''the second invocation did not exit cleanly: '' @ process_exit_debug (er_exit second_exit))
     (require_that ProcessSafety (list_ex (\<lambda>r. cr_invocation r = 2) (wt_cleanups trace))
       ''the second invocation has no cleanup-complete barrier''
     (process_state trace choices)))))"

definition first_invocation :: "WorkloadTrace \<Rightarrow> WorkloadChoicePlan \<Rightarrow> AssertionResult" where
  "first_invocation trace choices =
     let_some ProcessSafety (find (\<lambda>r. tr_invocation r = 1) (wt_terminations trace))
       ''the first invocation was never terminated'' (\<lambda>stopped.
     require_that ProcessSafety (tr_signal stopped = TERMINATION_SIGNAL)
       (''termination signal '' @ dec_int (tr_signal stopped) @ '' is not the fixed SIGKILL'')
     (let_some ProcessSafety (find (\<lambda>r. er_invocation r = 1) (wt_exits trace))
       ''the first invocation has no exit record'' (\<lambda>first_exit.
     require_that ProcessSafety (er_exit first_exit = Signaled TERMINATION_SIGNAL)
       (''the first invocation did not report SIGKILL: '' @ process_exit_debug (er_exit first_exit))
     (let_some ProcessSafety (find (\<lambda>r. cr_invocation r = 1) (wt_cleanups trace))
       ''the first invocation has no cleanup-complete barrier'' (\<lambda>first_cleanup.
     require_that ProcessSafety
       (tr_event_id stopped < er_event_id first_exit \<and> er_event_id first_exit < cr_event_id first_cleanup)
       ''the termination, exit, and cleanup barrier for the first invocation are out of order''
     (require_that ProcessSafety (\<not> cr_reaped first_cleanup < 2)
       (''the cleanup barrier reaped '' @ dec (cr_reaped first_cleanup)
         @ '' process(es), so the escaped descendant was not confirmed killed'')
     (require_that ProcessSafety (\<not> sr_event_id (wt_starts trace ! 1) \<le> cr_event_id first_cleanup)
       ''the second invocation started before the first cleanup barrier completed''
     (second_invocation trace choices stopped))))))))"

definition process_safety :: "WorkloadTrace \<Rightarrow> WorkloadChoicePlan \<Rightarrow> LaunchIdentity \<Rightarrow> AssertionResult" where
  "process_safety trace choices launch =
     (case all_violations trace of
        violation # _ \<Rightarrow> failed ProcessSafety (''stream structure violation: '' @ violation)
      | [] \<Rightarrow>
     (case wt_launch_failures trace of
        failure # _ \<Rightarrow>
          failed ProcessSafety (''invocation '' @ dec (lf_invocation failure) @ '' reported launch failure ''
            @ launch_failure_debug (lf_failure failure))
      | [] \<Rightarrow>
     require_that ProcessSafety (length (wt_starts trace) = 2)
       (''expected exactly two workload starts, observed '' @ dec (length (wt_starts trace)))
     (require_that ProcessSafety
       (sr_invocation (wt_starts trace ! 0) = 1 \<and> sr_launch (wt_starts trace ! 0) = launch
        \<and> sr_invocation (wt_starts trace ! 1) = 2 \<and> sr_launch (wt_starts trace ! 1) = launch)
       ''the started invocation identities do not match the materialized workload''
     (require_that ProcessSafety (length (wt_terminations trace) = 1)
       (''expected exactly one termination record, observed '' @ dec (length (wt_terminations trace)))
     (first_invocation trace choices)))))"

section \<open>Response integrity\<close>

definition network_lines :: "WorkloadChoicePlan \<Rightarrow> string list" where
  "network_lines choices =
     map (\<lambda>index. expected_network_line (wp_requests choices ! index)
            (request_phase index (wp_outage_activation_request_index choices)
              (wp_restoration_request_index choices)))
       [0..<length (wp_requests choices)]"

definition expected_lines :: "WorkloadChoicePlan \<Rightarrow> nat \<Rightarrow> string list" where
  "expected_lines choices invocation =
     [READY_LINE, ''echo value='' @ echo_token (wp_seed choices) invocation, FRESH_STATE_LINE]
     @ (if invocation = 1
        then take (wp_process_fault_request_index choices) (network_lines choices) @ [ESCAPED_DESCENDANT_LINE]
        else drop (wp_process_fault_request_index choices) (network_lines choices))"

definition response_lines ::
    "WorkloadTrace \<Rightarrow> WorkloadChoicePlan \<Rightarrow> nat \<Rightarrow> AssertionResult \<Rightarrow> AssertionResult" where
  "response_lines trace choices invocation rest =
     (let expected = expected_lines choices invocation;
          actual = stdout_lines trace invocation;
          subject = ''invocation '' @ dec invocation;
          data_input_events = (case streams_of trace invocation of None \<Rightarrow> [] | Some s \<Rightarrow> is_data_input_events s);
          eof_inputs = (case streams_of trace invocation of None \<Rightarrow> 0 | Some s \<Rightarrow> is_eof_inputs s);
          expected_inputs = length expected - 1;
          expected_eofs = (if invocation = 2 then 1 else 0)
      in require_that ResponseIntegrity (length actual = length expected)
           (subject @ '' produced '' @ dec (length actual) @ '' response lines; expected '' @ dec (length expected))
         (case find (\<lambda>index. cl_text (actual ! index) \<noteq> expected ! index) [0..<length actual] of
            Some index \<Rightarrow>
              failed ResponseIntegrity (subject @ '' response line '' @ dec index @ '' does not match its command'')
          | None \<Rightarrow>
         require_that ResponseIntegrity (length data_input_events = expected_inputs \<and> eof_inputs = expected_eofs)
           (subject @ '' acknowledged '' @ dec (length data_input_events) @ '' input command(s) and ''
             @ dec eof_inputs @ '' end(s) of input; expected '' @ dec expected_inputs @ '' and '' @ dec expected_eofs)
         (case find (\<lambda>index. cl_first_event_id (actual ! (index + 1)) \<le> data_input_events ! index)
                 [0..<length data_input_events] of
            Some index \<Rightarrow>
              failed ResponseIntegrity (subject @ '' response line '' @ dec index
                @ '' was recorded before the input command it answers'')
          | None \<Rightarrow> rest)))"

definition check_exit :: "(bytes \<Rightarrow> bytes) \<Rightarrow> WorkloadTrace \<Rightarrow> ExitRecord \<Rightarrow> AssertionResult \<Rightarrow> AssertionResult" where
  "check_exit sha trace r rest =
     (let streams = streams_of trace (er_invocation r);
          stdout = (case streams of None \<Rightarrow> [] | Some s \<Rightarrow> is_stdout s);
          stderr = (case streams of None \<Rightarrow> [] | Some s \<Rightarrow> is_stderr s);
          frames = (case streams of None \<Rightarrow> 0 | Some s \<Rightarrow> is_frames s);
          subject = ''invocation '' @ dec (er_invocation r);
          totals =
            require_that ResponseIntegrity
              (er_stdout_bytes r = length stdout \<and> er_stderr_bytes r = length stderr \<and> er_frames r = frames)
              (subject @ '' exit totals do not match the recorded output frames'')
            (require_that ResponseIntegrity
              (er_stdout_sha256 r = sha256_bytes sha stdout \<and> er_stderr_sha256 r = sha256_bytes sha stderr)
              (subject @ '' exit digests do not match the recorded output frames'') rest)
      in case streams of
           None \<Rightarrow> totals
         | Some s \<Rightarrow>
             require_that ResponseIntegrity (is_stdout_pending s = [])
               (subject @ '' ended with '' @ dec (length (is_stdout_pending s)) @ '' byte(s) after its last complete line'')
             (require_that ResponseIntegrity (is_stderr_pending s = [] \<and> is_stderr s = [])
               (subject @ '' wrote '' @ dec (length (is_stderr s) + length (is_stderr_pending s)) @ '' stderr byte(s)'')
             totals))"

fun check_exits :: "(bytes \<Rightarrow> bytes) \<Rightarrow> WorkloadTrace \<Rightarrow> ExitRecord list \<Rightarrow> AssertionResult \<Rightarrow> AssertionResult" where
  "check_exits sha trace [] rest = rest"
| "check_exits sha trace (r # rs) rest = check_exit sha trace r (check_exits sha trace rs rest)"

definition response_integrity ::
    "(bytes \<Rightarrow> bytes) \<Rightarrow> WorkloadTrace \<Rightarrow> WorkloadChoicePlan \<Rightarrow> AssertionResult option" where
  "response_integrity sha trace choices =
     (if wp_process_fault_request_index choices > length (wp_requests choices) then None
      else Some
        (response_lines trace choices 1
        (response_lines trace choices 2
        (case stderr_lines trace 1 @ stderr_lines trace 2 of
           error # _ \<Rightarrow>
             failed ResponseIntegrity (''the workload reported an application error at event ''
               @ dec (cl_event_id error))
         | [] \<Rightarrow>
        (check_exits sha trace (wt_exits trace)
        (case all_violations trace of
           violation # _ \<Rightarrow> failed ResponseIntegrity (''stream structure violation: '' @ violation)
         | [] \<Rightarrow>
           passed ResponseIntegrity (''all '' @ dec (length (wp_requests choices))
             @ '' responses matched the recorded input'')))))))"

section \<open>Faults and recovery\<close>

definition peer_cidr_of :: "Scenario \<Rightarrow> string" where
  "peer_cidr_of scenario = sc_fixture_peer scenario @ ''/32''"

definition found_activation :: "WorkloadTrace \<Rightarrow> Scenario \<Rightarrow> (string \<times> nat) option" where
  "found_activation trace scenario =
     (case wt_configured trace of
        None \<Rightarrow> None
      | Some configured \<Rightarrow>
          if cg_gateway configured \<noteq> sc_fixture_peer scenario then None
          else find (\<lambda>(peer_cidr, event_id). peer_cidr = peer_cidr_of scenario \<and> event_id > cg_event_id configured)
                 (wt_activations trace))"

definition found_restoration :: "WorkloadTrace \<Rightarrow> Scenario \<Rightarrow> (string \<times> nat) option" where
  "found_restoration trace scenario =
     (case found_activation trace scenario of
        None \<Rightarrow> None
      | Some (activated_peer, activation_id) \<Rightarrow>
          find (\<lambda>(peer_cidr, event_id). peer_cidr = activated_peer \<and> event_id > activation_id)
            (wt_restorations trace))"

definition first_index_in :: "WorkloadChoicePlan \<Rightarrow> RequestPhase \<Rightarrow> nat option" where
  "first_index_in choices phase =
     find (\<lambda>index. request_phase index (wp_outage_activation_request_index choices)
             (wp_restoration_request_index choices) = phase) [0..<length (wp_requests choices)]"

text \<open>The line that the first request of a phase must be answered with, and its acknowledgement.\<close>

definition answer_in :: "WorkloadTrace \<Rightarrow> WorkloadChoicePlan \<Rightarrow> RequestPhase \<Rightarrow> (CompletedLine \<times> nat) option" where
  "answer_in trace choices phase =
     (case first_index_in choices phase of
        None \<Rightarrow> None
      | Some index \<Rightarrow> stdout_line_with_ack trace (expected_network_line (wp_requests choices ! index) phase))"

definition found_outage :: "WorkloadTrace \<Rightarrow> Scenario \<Rightarrow> WorkloadChoicePlan \<Rightarrow> (nat \<times> nat) option" where
  "found_outage trace scenario choices =
     (case found_activation trace scenario of
        None \<Rightarrow> None
      | Some (_, activation_id) \<Rightarrow>
     (case answer_in trace choices Outage of
        None \<Rightarrow> None
      | Some (answer, acknowledged) \<Rightarrow>
          let before_restoration =
                (case found_restoration trace scenario of
                   None \<Rightarrow> True | Some (_, restoration_id) \<Rightarrow> cl_event_id answer < restoration_id)
          in if acknowledged > activation_id \<and> cl_event_id answer > activation_id \<and> before_restoration
               \<and> cl_event_id answer - activation_id \<le> sc_outage_event_bound scenario
             then Some (cl_event_id answer, cl_event_id answer - activation_id) else None))"

definition found_recovery :: "WorkloadTrace \<Rightarrow> Scenario \<Rightarrow> WorkloadChoicePlan \<Rightarrow> (nat \<times> nat) option" where
  "found_recovery trace scenario choices =
     (case found_restoration trace scenario of
        None \<Rightarrow> None
      | Some (_, restoration_id) \<Rightarrow>
     (case answer_in trace choices Recovery of
        None \<Rightarrow> None
      | Some (answer, acknowledged) \<Rightarrow>
          if acknowledged > restoration_id \<and> cl_event_id answer > restoration_id
             \<and> cl_event_id answer - restoration_id \<le> sc_liveness_event_bound scenario
          then Some (cl_event_id answer, cl_event_id answer - restoration_id) else None))"

definition found_restart :: "WorkloadTrace \<Rightarrow> Scenario \<Rightarrow> WorkloadChoicePlan \<Rightarrow> (nat \<times> nat) option" where
  "found_restart trace scenario choices =
     (case find (\<lambda>r. sr_invocation r = 2) (wt_starts trace) of
        None \<Rightarrow> None
      | Some start \<Rightarrow>
     (case find (\<lambda>l. cl_text l = ''echo value='' @ echo_token (wp_seed choices) 2) (stdout_lines trace 2) of
        None \<Rightarrow> None
      | Some answer \<Rightarrow>
          if cl_event_id answer > sr_event_id start
             \<and> cl_event_id answer - sr_event_id start \<le> sc_liveness_event_bound scenario
          then Some (cl_event_id answer, cl_event_id answer - sr_event_id start) else None))"

definition fault_properties ::
    "WorkloadTrace \<Rightarrow> Scenario \<Rightarrow> WorkloadChoicePlan \<Rightarrow> AssertionResult \<times> AssertionResult \<times> AssertionResult" where
  "fault_properties trace scenario choices =
     (let peer = peer_cidr_of scenario;
          controlled_outage =
            (case found_outage trace scenario choices of
               Some (event_id, distance) \<Rightarrow>
                 passed ControlledOutage (''the workload observed the administrative prohibition at event ''
                   @ dec event_id @ '' after '' @ dec distance @ '' event(s)'')
             | None \<Rightarrow>
                 failed ControlledOutage (''no workload request reported EACCES within ''
                   @ dec (sc_outage_event_bound scenario) @ '' event(s) of activation''));
          restoration_result =
            (case found_restoration trace scenario of
               Some (_, event_id) \<Rightarrow>
                 passed Restoration (''network restoration of '' @ peer @ '' was confirmed at event '' @ dec event_id)
             | None \<Rightarrow>
                 failed Restoration (''network restoration of '' @ peer @ '' was not confirmed after activation''));
          bounded_recovery =
            (case (found_recovery trace scenario choices, found_restart trace scenario choices) of
               (Some (event_id, distance), Some (restart_id, restart_distance)) \<Rightarrow>
                 passed BoundedRecovery (''the workload recovered at event '' @ dec event_id @ '' after '' @ dec distance
                   @ '' event(s) and the restarted invocation answered at event '' @ dec restart_id @ '' after ''
                   @ dec restart_distance @ '' event(s)'')
             | (None, _) \<Rightarrow>
                 failed BoundedRecovery (''no matching workload response arrived within ''
                   @ dec (sc_liveness_event_bound scenario) @ '' event(s) of restoration'')
             | (Some _, None) \<Rightarrow>
                 failed BoundedRecovery (''the restarted invocation did not answer within ''
                   @ dec (sc_liveness_event_bound scenario) @ '' event(s) of its start''))
      in (controlled_outage, restoration_result, bounded_recovery))"

section \<open>The report\<close>

definition evaluate_workload ::
    "(bytes \<Rightarrow> bytes) \<Rightarrow> EventFrame list \<Rightarrow> Scenario \<Rightarrow> WorkloadChoicePlan \<Rightarrow> LaunchIdentity \<Rightarrow> AssertionReport option" where
  "evaluate_workload sha events scenario choices launch =
     (let trace = foldl WorkloadTrace_push WorkloadTrace_default events;
          (controlled_outage, restoration, bounded_recovery) = fault_properties trace scenario choices
      in case response_integrity sha trace choices of
           None \<Rightarrow> None
         | Some integrity \<Rightarrow>
             let assertions = [process_safety trace choices launch, integrity, controlled_outage, restoration,
                   bounded_recovery]
             in Some \<lparr>rp_passed = list_all ar_passed assertions, rp_assertions = assertions\<rparr>)"

section \<open>What the parts of a passing report say\<close>

lemma require_that_passed [simp]: "ar_passed (require_that name ok detail rest) \<longleftrightarrow> ok \<and> ar_passed rest"
  by (simp add: require_that_def failed_def)

lemma let_some_passed [simp]: "ar_passed (let_some name opt detail rest) \<longleftrightarrow> (\<exists>x. opt = Some x \<and> ar_passed (rest x))"
  by (simp add: let_some_def failed_def split: option.splits)

lemma passed_failed [simp]: "ar_passed (passed name detail)" "\<not> ar_passed (failed name detail)"
  by (simp_all add: passed_def failed_def)

lemma find_in: "find P xs = Some x \<Longrightarrow> x \<in> set xs \<and> P x"
  by (auto simp: find_Some_iff)

lemma find_in_range: "find P [0..<n] = None \<longleftrightarrow> (\<forall>i < n. \<not> P i)"
  by (auto simp: find_None_iff)

lemma length_two: "length xs = 2 \<Longrightarrow> \<exists>x y. xs = [x, y]"
  by (metis One_nat_def Suc_1 length_0_conv length_Suc_conv)

lemma invocation_entry: "keyed t \<Longrightarrow> (k, s) \<in> set (wt_invocations t) \<Longrightarrow> streams_at t k = s"
  by (simp add: keyed_def streams_at_def streams_of_def strict_sorted_iff)

text \<open>
  The life of the processes: two starts of the launch, the first killed by the one termination
  request, exited, cleaned up with its descendant, and only then the second, which exits cleanly.
\<close>

definition process_contract :: "EventFrame list \<Rightarrow> LaunchIdentity \<Rightarrow> bool" where
  "process_contract events launch \<longleftrightarrow>
     gather launch_failure_of events = []
   \<and> (\<exists>start1 start2 killed exited1 cleaned1.
        gather start_of events = [\<lparr>sr_invocation = 1, sr_launch = launch, sr_event_id = start1\<rparr>,
          \<lparr>sr_invocation = 2, sr_launch = launch, sr_event_id = start2\<rparr>]
      \<and> gather termination_of events = [\<lparr>tr_invocation = 1, tr_signal = TERMINATION_SIGNAL, tr_event_id = killed\<rparr>]
      \<and> (\<exists>r \<in> set (gather exit_of events). er_invocation r = 1 \<and> er_exit r = Signaled TERMINATION_SIGNAL
            \<and> er_event_id r = exited1)
      \<and> (\<exists>r \<in> set (gather cleanup_of events). cr_invocation r = 1 \<and> 2 \<le> cr_reaped r \<and> cr_event_id r = cleaned1)
      \<and> killed < exited1 \<and> exited1 < cleaned1 \<and> cleaned1 < start2
      \<and> (\<exists>i. \<exists>l \<in> set (lines_of i Stdout events). cl_text l = ESCAPED_DESCENDANT_LINE \<and> cl_event_id l \<le> killed))
   \<and> (\<exists>r \<in> set (gather exit_of events). er_invocation r = 2 \<and> er_exit r = Exited 0)
   \<and> (\<exists>r \<in> set (gather cleanup_of events). cr_invocation r = 2)"

lemma any_stdout_line_in:
  assumes "any_stdout_line (trace_of events) wanted = Some l" "clean events"
  shows "\<exists>i. l \<in> set (lines_of i Stdout events) \<and> cl_text l = wanted"
proof -
  from find_in [OF assms(1) [unfolded any_stdout_line_def]] obtain k s where
    "(k, s) \<in> set (wt_invocations (trace_of events))" "l \<in> set (is_stdout_lines s)" "cl_text l = wanted" by auto
  moreover from this have "is_stdout_lines s = lines_of k Stdout events"
    using invocation_entry [OF trace_keyed [OF assms(2)]] trace_view(1) [OF assms(2), of Stdout k] by simp
  ultimately show ?thesis by auto
qed

lemma process_safety_clean: "ar_passed (process_safety (trace_of events) choices launch) \<Longrightarrow> clean events"
  by (simp add: process_safety_def clean_def split: list.splits)

lemma process_safety_contract:
  assumes "ar_passed (process_safety (trace_of events) choices launch)"
  shows "process_contract events launch"
proof -
  note clean = process_safety_clean [OF assms]
  let ?t = "trace_of events"
  from assms clean have t: "wt_launch_failures ?t = []" "length (wt_starts ?t) = 2" "length (wt_terminations ?t) = 1"
    "sr_invocation (wt_starts ?t ! 0) = 1" "sr_launch (wt_starts ?t ! 0) = launch"
    "sr_invocation (wt_starts ?t ! 1) = 2" "sr_launch (wt_starts ?t ! 1) = launch"
    "ar_passed (first_invocation ?t choices)"
    by (simp_all add: process_safety_def clean_def split: list.splits)
  from t(8) obtain killed x1 c1 where k: "killed \<in> set (wt_terminations ?t)" "tr_invocation killed = 1"
      "tr_signal killed = TERMINATION_SIGNAL"
    and x: "x1 \<in> set (wt_exits ?t)" "er_invocation x1 = 1" "er_exit x1 = Signaled TERMINATION_SIGNAL"
    and c: "c1 \<in> set (wt_cleanups ?t)" "cr_invocation c1 = 1" "2 \<le> cr_reaped c1"
    and order: "tr_event_id killed < er_event_id x1" "er_event_id x1 < cr_event_id c1"
      "cr_event_id c1 < sr_event_id (wt_starts ?t ! 1)"
    and second: "ar_passed (second_invocation ?t choices killed)"
    by (auto simp: first_invocation_def not_less not_le dest!: find_in)
  from second obtain l x2 where l: "any_stdout_line ?t ESCAPED_DESCENDANT_LINE = Some l" "cl_event_id l \<le> tr_event_id killed"
    and x2: "x2 \<in> set (wt_exits ?t)" "er_invocation x2 = 2" "er_exit x2 = Exited 0"
    and c2: "\<exists>r \<in> set (wt_cleanups ?t). cr_invocation r = 2"
    by (auto simp: second_invocation_def list_ex_iff not_less dest!: find_in)
  from length_two [OF t(2)] obtain a b where ab: "wt_starts ?t = [a, b]" by blast
  from t(3) k(1) have "wt_terminations ?t = [killed]" by (cases "wt_terminations ?t") auto
  then have stop: "gather termination_of events =
      [\<lparr>tr_invocation = 1, tr_signal = TERMINATION_SIGNAL, tr_event_id = tr_event_id killed\<rparr>]"
    using k trace_records(3) [OF clean] by simp
  have start: "gather start_of events = [\<lparr>sr_invocation = 1, sr_launch = launch, sr_event_id = sr_event_id a\<rparr>,
      \<lparr>sr_invocation = 2, sr_launch = launch, sr_event_id = sr_event_id b\<rparr>]"
    using t ab trace_records(1) [OF clean] by simp
  note records = trace_records(2,4,5) [OF clean]
  from any_stdout_line_in [OF l(1) clean] l(2) have "\<exists>i. \<exists>l \<in> set (lines_of i Stdout events).
      cl_text l = ESCAPED_DESCENDANT_LINE \<and> cl_event_id l \<le> tr_event_id killed" by blast
  with t(1) x c order x2 c2 stop start ab records show ?thesis unfolding process_contract_def by auto
qed


text \<open>The answers of an invocation: its lines in order, each begun after the input it answers.\<close>

definition answers_contract :: "EventFrame list \<Rightarrow> WorkloadChoicePlan \<Rightarrow> nat \<Rightarrow> bool" where
  "answers_contract events choices i \<longleftrightarrow>
     map cl_text (lines_of i Stdout events) = expected_lines choices i
   \<and> length (gather (input_of i False) events) = length (expected_lines choices i) - 1
   \<and> length (gather (input_of i True) events) = (if i = 2 then 1 else 0)
   \<and> (\<forall>k < length (gather (input_of i False) events).
        gather (input_of i False) events ! k < cl_first_event_id (lines_of i Stdout events ! Suc k))"

definition exit_contract :: "(bytes \<Rightarrow> bytes) \<Rightarrow> EventFrame list \<Rightarrow> ExitRecord \<Rightarrow> bool" where
  "exit_contract sha events r \<longleftrightarrow>
     (let stdout = bytes_of (er_invocation r) Stdout events
      in er_stdout_bytes r = length stdout \<and> er_stdout_sha256 r = sha256_bytes sha stdout
       \<and> er_stderr_bytes r = 0 \<and> er_stderr_sha256 r = sha256_bytes sha [] \<and> bytes_of (er_invocation r) Stderr events = []
       \<and> er_frames r = length (gather (numbered_of (er_invocation r)) events)
       \<and> (stdout = [] \<or> last stdout = 0x0a))"

definition integrity_contract :: "(bytes \<Rightarrow> bytes) \<Rightarrow> EventFrame list \<Rightarrow> WorkloadChoicePlan \<Rightarrow> bool" where
  "integrity_contract sha events choices \<longleftrightarrow>
     answers_contract events choices 1 \<and> answers_contract events choices 2
   \<and> (\<forall>r \<in> set (gather exit_of events). exit_contract sha events r)"

lemma streams_of_at:
  "(case streams_of t i of None \<Rightarrow> [] | Some s \<Rightarrow> is_data_input_events s) = is_data_input_events (streams_at t i)"
  "(case streams_of t i of None \<Rightarrow> 0 | Some s \<Rightarrow> is_eof_inputs s) = is_eof_inputs (streams_at t i)"
  "(case streams_of t i of None \<Rightarrow> [] | Some s \<Rightarrow> is_stdout s) = is_stdout (streams_at t i)"
  "(case streams_of t i of None \<Rightarrow> [] | Some s \<Rightarrow> is_stderr s) = is_stderr (streams_at t i)"
  "(case streams_of t i of None \<Rightarrow> 0 | Some s \<Rightarrow> is_frames s) = is_frames (streams_at t i)"
  "streams_of t i = None \<Longrightarrow> streams_at t i = InvocationStreams_default"
  "streams_of t i = Some s \<Longrightarrow> streams_at t i = s"
  by (auto simp: streams_at_def InvocationStreams_default_def split: option.splits)

lemma trace_inputs:
  assumes "clean events"
  shows "is_data_input_events (streams_at (trace_of events) i) = gather (input_of i False) events"
    "is_eof_inputs (streams_at (trace_of events) i) = length (gather (input_of i True) events)"
    "is_frames (streams_at (trace_of events) i) = length (gather (numbered_of i) events)"
  using trace_streams [OF assms, of i] by (simp_all add: streams_gathered_def)

lemma trace_bytes:
  assumes "clean events"
  shows "is_stdout (streams_at (trace_of events) i) = bytes_of i Stdout events"
    "is_stderr (streams_at (trace_of events) i) = bytes_of i Stderr events"
  using trace_view(2) [OF assms, of Stdout i] trace_view(2) [OF assms, of Stderr i] by simp_all

lemma trace_stdout_lines: "clean events \<Longrightarrow> stdout_lines (trace_of events) i = lines_of i Stdout events"
  using trace_view(1) [of events Stdout i] by (simp add: stdout_lines_at del: get_view.simps)

lemma response_lines_contract:
  assumes "ar_passed (response_lines (trace_of events) choices i rest)" "clean events"
  shows "answers_contract events choices i \<and> ar_passed rest"
proof -
  let ?actual = "lines_of i Stdout events" and ?expected = "expected_lines choices i"
    and ?inputs = "gather (input_of i False) events"
  from assms(1) have r: "length ?actual = length ?expected"
      "\<forall>k < length ?actual. cl_text (?actual ! k) = ?expected ! k"
      "length ?inputs = length ?expected - 1" "length (gather (input_of i True) events) = (if i = 2 then 1 else 0)"
      "\<forall>k < length ?inputs. ?inputs ! k < cl_first_event_id (?actual ! Suc k)" "ar_passed rest"
    unfolding response_lines_def Let_def streams_of_at trace_inputs [OF assms(2)] trace_stdout_lines [OF assms(2)]
    by (auto simp: find_in_range not_le split: option.splits)
  then have "map cl_text ?actual = ?expected" by (intro nth_equalityI) auto
  with r show ?thesis by (simp add: answers_contract_def)
qed

lemma check_exit_contract:
  assumes "ar_passed (check_exit sha (trace_of events) r rest)" "clean events"
  shows "exit_contract sha events r \<and> ar_passed rest
    \<and> sv_pending (get_view Stdout (streams_at (trace_of events) (er_invocation r))) = []"
proof -
  let ?i = "er_invocation r" and ?t = "trace_of events"
  let ?s = "streams_at ?t ?i"
  from assms(1) have r: "er_stdout_bytes r = length (is_stdout ?s)" "er_stderr_bytes r = length (is_stderr ?s)"
    "er_frames r = is_frames ?s" "er_stdout_sha256 r = sha256_bytes sha (is_stdout ?s)"
    "er_stderr_sha256 r = sha256_bytes sha (is_stderr ?s)" "is_stdout_pending ?s = []" "is_stderr ?s = []" "ar_passed rest"
    by (cases "streams_of ?t ?i";
        force simp: check_exit_def Let_def streams_of_at InvocationStreams_default_def)+
  have ok: "stream_ok Stdout ?s (gather (output_of ?i Stdout) events)"
    using trace_streams [OF assms(2), of ?i] by (simp add: streams_gathered_def)
  let ?tb = "gather (output_of ?i Stdout) events"
  have all: "?tb = concat (fst (segments [] ?tb))"
    using ok r(6) segments_bytes [of "[]" ?tb] by (simp add: stream_ok_def assembled_def)
  have "bytes_of ?i Stdout events = [] \<or> last (bytes_of ?i Stdout events) = 0x0a"
  proof (cases "fst (segments [] ?tb)" rule: rev_cases)
    case Nil
    with all have "?tb = []" by simp
    then show ?thesis by (simp add: bytes_of_def)
  next
    case (snoc segs seg)
    then have seg: "map snd seg = map snd (butlast seg) @ [0x0a]" by (intro segments_end [of _ "[]" ?tb]) simp
    have "bytes_of ?i Stdout events = map snd (concat segs) @ map snd seg"
      unfolding bytes_of_def by (subst all) (simp add: snoc)
    then show ?thesis by (simp add: seg)
  qed
  with r show ?thesis
    by (simp add: exit_contract_def Let_def trace_bytes [OF assms(2)] trace_inputs [OF assms(2)])
qed

lemma check_exits_contract:
  assumes "ar_passed (check_exits sha (trace_of events) rs rest)" "clean events"
  shows "(\<forall>r \<in> set rs. exit_contract sha events r
      \<and> sv_pending (get_view Stdout (streams_at (trace_of events) (er_invocation r))) = []) \<and> ar_passed rest"
  using assms(1)
proof (induction rs)
  case (Cons r rs)
  then show ?case using check_exit_contract [OF _ assms(2)] by fastforce
qed simp

lemma response_integrity_contract:
  assumes "response_integrity sha (trace_of events) choices = Some result" "ar_passed result" "clean events"
  shows "integrity_contract sha events choices
    \<and> (\<forall>r \<in> set (gather exit_of events). sv_pending (get_view Stdout (streams_at (trace_of events) (er_invocation r))) = [])"
proof -
  let ?t = "trace_of events"
  obtain tail error where result: "result = response_lines ?t choices 1 (response_lines ?t choices 2
      (case stderr_lines ?t 1 @ stderr_lines ?t 2 of x # _ \<Rightarrow> failed ResponseIntegrity (error x)
       | [] \<Rightarrow> check_exits sha ?t (wt_exits ?t) tail))"
    using assms(1) unfolding response_integrity_def by (auto split: if_splits elim!: that [OF sym] simp del: One_nat_def)
  note one = response_lines_contract [OF assms(2) [unfolded result] assms(3)]
  note two = response_lines_contract [OF conjunct2 [OF one] assms(3)]
  from conjunct2 [OF two] have "ar_passed (check_exits sha ?t (wt_exits ?t) tail)" by (simp split: list.splits)
  from check_exits_contract [OF this assms(3)] one two show ?thesis
    by (simp add: integrity_contract_def trace_records(2) [OF assms(3)])
qed


text \<open>
  A line that answers an input: the line that follows the first and the inputs answered before,
  complete at event \<open>at\<close>, for the input accepted at event \<open>ack\<close>.
\<close>

definition answered_line :: "EventFrame list \<Rightarrow> string \<Rightarrow> nat \<Rightarrow> nat \<Rightarrow> bool" where
  "answered_line events wanted at ack \<longleftrightarrow> (\<exists>i k.
     Suc k < length (lines_of i Stdout events) \<and> k < length (gather (input_of i False) events)
   \<and> cl_text (lines_of i Stdout events ! Suc k) = wanted \<and> cl_event_id (lines_of i Stdout events ! Suc k) = at
   \<and> gather (input_of i False) events ! k = ack)"

definition first_answered :: "EventFrame list \<Rightarrow> WorkloadChoicePlan \<Rightarrow> RequestPhase \<Rightarrow> nat \<Rightarrow> nat \<Rightarrow> bool" where
  "first_answered events choices phase at ack \<longleftrightarrow> (\<exists>q. first_index_in choices phase = Some q
     \<and> answered_line events (expected_network_line (wp_requests choices ! q) phase) at ack)"

definition fault_contract :: "EventFrame list \<Rightarrow> Scenario \<Rightarrow> WorkloadChoicePlan \<Rightarrow> bool" where
  "fault_contract events scenario choices \<longleftrightarrow>
     (\<exists>configured activated restored.
        gather configured_of events = [\<lparr>cg_gateway = sc_fixture_peer scenario, cg_event_id = configured\<rparr>]
      \<and> gather activation_of events = [(peer_cidr_of scenario, activated)]
      \<and> gather restoration_of events = [(peer_cidr_of scenario, restored)]
      \<and> configured < activated \<and> activated < restored
      \<and> (\<exists>at ack. first_answered events choices Outage at ack \<and> activated < ack \<and> activated < at \<and> at < restored
            \<and> at \<le> activated + sc_outage_event_bound scenario)
      \<and> (\<exists>at ack. first_answered events choices Recovery at ack \<and> restored < ack \<and> restored < at
            \<and> at \<le> restored + sc_liveness_event_bound scenario))
   \<and> (\<exists>start \<in> set (gather start_of events). \<exists>l \<in> set (lines_of 2 Stdout events).
        sr_invocation start = 2 \<and> cl_text l = ''echo value='' @ echo_token (wp_seed choices) 2
      \<and> sr_event_id start < cl_event_id l \<and> cl_event_id l \<le> sr_event_id start + sc_liveness_event_bound scenario)"

lemma stdout_line_with_ack_answered:
  assumes "stdout_line_with_ack (trace_of events) wanted = Some (l, ack)" "clean events"
  shows "answered_line events wanted (cl_event_id l) ack"
proof -
  from find_map_SomeD [OF assms(1) [unfolded stdout_line_with_ack_def]] obtain i s where
    s: "(i, s) \<in> set (wt_invocations (trace_of events))"
      "find_map (line_ack wanted s) (enumerate 0 (is_stdout_lines s)) = Some (l, ack)" by auto
  have at: "streams_at (trace_of events) i = s" by (rule invocation_entry [OF trace_keyed [OF assms(2)] s(1)])
  have ls: "is_stdout_lines s = lines_of i Stdout events" "is_data_input_events s = gather (input_of i False) events"
    using trace_view(1) [OF assms(2), of Stdout i] trace_inputs(1) [OF assms(2), of i] by (simp_all add: at)
  from find_map_SomeD [OF s(2)] obtain k l' where "(k, l') \<in> set (enumerate 0 (is_stdout_lines s))"
    "line_ack wanted s (k, l') = Some (l, ack)" by auto
  then show ?thesis unfolding answered_line_def ls line_ack_def
    by (intro exI [of _ i] exI [of _ "k - 1"]) (auto simp: in_set_enumerate_eq split: if_splits)
qed

lemma answer_in_answered:
  "answer_in (trace_of events) choices phase = Some (l, ack) \<Longrightarrow> clean events
     \<Longrightarrow> first_answered events choices phase (cl_event_id l) ack"
  using stdout_line_with_ack_answered
  by (auto simp: answer_in_def first_answered_def split: option.splits)

lemma gather_once:
  assumes "clean hs"
  shows "length (gather activation_of hs) \<le> 1" "length (gather restoration_of hs) \<le> 1"
  using assms
proof (induction hs rule: rev_induct)
  case (snoc f hs)
  have life: "lifecycle hs (ef_event f)" if "clean (hs @ [f])"
    by (rule admissible_lifecycle [OF clean_snoc(1,3) [OF that]])
  { case 1 with snoc(1) [OF clean_snoc(1)] life show ?case by (cases "ef_event f") auto
  next case 2 with snoc(2) [OF clean_snoc(1)] life show ?case by (cases "ef_event f") auto }
qed simp_all

lemma only_member: "length xs \<le> 1 \<Longrightarrow> x \<in> set xs \<Longrightarrow> xs = [x]"
  by (cases xs) auto

lemma found_restoration_contract:
  assumes "found_restoration (trace_of events) scenario = Some (peer, restored)" "clean events"
  shows "\<exists>configured activated. found_activation (trace_of events) scenario = Some (peer_cidr_of scenario, activated)
    \<and> gather configured_of events = [\<lparr>cg_gateway = sc_fixture_peer scenario, cg_event_id = configured\<rparr>]
    \<and> gather activation_of events = [(peer_cidr_of scenario, activated)]
    \<and> gather restoration_of events = [(peer_cidr_of scenario, restored)] \<and> configured < activated \<and> activated < restored"
proof -
  from assms(1) obtain p activated where a: "found_activation (trace_of events) scenario = Some (p, activated)"
    and r: "(p, restored) \<in> set (wt_restorations (trace_of events))" "activated < restored"
    by (auto simp: found_restoration_def split: option.splits dest!: find_in)
  from a obtain c where c: "wt_configured (trace_of events) = Some c" "cg_gateway c = sc_fixture_peer scenario"
    "(p, activated) \<in> set (wt_activations (trace_of events))" "p = peer_cidr_of scenario" "cg_event_id c < activated"
    by (auto simp: found_activation_def split: option.splits if_splits dest!: find_in)
  have "gather configured_of events = [c]" using configured_list [OF assms(2)] by (simp add: c(1))
  moreover have "gather activation_of events = [(p, activated)]" "gather restoration_of events = [(p, restored)]"
    using c(3) r(1) trace_records(6,7) [OF assms(2)] gather_once [OF assms(2)] by (auto intro: only_member)
  ultimately show ?thesis using a r(2) c by (intro exI [of _ "cg_event_id c"] exI [of _ activated]) simp
qed

lemma found_outage_contract:
  assumes "found_outage (trace_of events) scenario choices = Some x" "clean events"
    and "found_activation (trace_of events) scenario = Some (p, activated)"
    and "found_restoration (trace_of events) scenario = Some (peer, restored)"
  shows "\<exists>at ack. first_answered events choices Outage at ack \<and> activated < ack \<and> activated < at \<and> at < restored
            \<and> at \<le> activated + sc_outage_event_bound scenario"
  using assms answer_in_answered [OF _ assms(2)]
  by (fastforce simp: found_outage_def Let_def split: option.splits if_splits prod.splits)

lemma found_recovery_contract:
  assumes "found_recovery (trace_of events) scenario choices = Some x" "clean events"
    and "found_restoration (trace_of events) scenario = Some (peer, restored)"
  shows "\<exists>at ack. first_answered events choices Recovery at ack \<and> restored < ack \<and> restored < at
            \<and> at \<le> restored + sc_liveness_event_bound scenario"
  using assms answer_in_answered [OF _ assms(2)]
  by (fastforce simp: found_recovery_def split: option.splits if_splits prod.splits)

lemma found_restart_contract:
  assumes "found_restart (trace_of events) scenario choices = Some x" "clean events"
  shows "\<exists>start \<in> set (gather start_of events). \<exists>l \<in> set (lines_of 2 Stdout events).
        sr_invocation start = 2 \<and> cl_text l = ''echo value='' @ echo_token (wp_seed choices) 2
      \<and> sr_event_id start < cl_event_id l \<and> cl_event_id l \<le> sr_event_id start + sc_liveness_event_bound scenario"
  using assms(1) unfolding found_restart_def trace_stdout_lines [OF assms(2)] trace_records(1) [OF assms(2)]
  by (fastforce split: option.splits if_splits dest!: find_in)

lemma fault_properties_contract:
  assumes "fault_properties (trace_of events) scenario choices = (outage, restoration, recovery)"
    and "ar_passed outage" "ar_passed restoration" "ar_passed recovery" "clean events"
  shows "fault_contract events scenario choices"
proof -
  let ?t = "trace_of events"
  from assms(1-4) obtain o1 r1 c1 s1 where f: "found_outage ?t scenario choices = Some o1" "found_restoration ?t scenario = Some r1"
    "found_recovery ?t scenario choices = Some c1" "found_restart ?t scenario choices = Some s1"
    by (auto simp: fault_properties_def Let_def split: option.splits)
  obtain peer restored where r1: "r1 = (peer, restored)" by fastforce
  note r = f(2) [unfolded r1]
  from found_restoration_contract [OF r assms(5)] obtain configured activated where
    c: "found_activation ?t scenario = Some (peer_cidr_of scenario, activated)"
      "gather configured_of events = [\<lparr>cg_gateway = sc_fixture_peer scenario, cg_event_id = configured\<rparr>]"
      "gather activation_of events = [(peer_cidr_of scenario, activated)]"
      "gather restoration_of events = [(peer_cidr_of scenario, restored)]" "configured < activated" "activated < restored" by blast
  from found_outage_contract [OF f(1) assms(5) c(1) r] found_recovery_contract [OF f(3) assms(5) r]
    found_restart_contract [OF f(4) assms(5)] c(2-6)
  show ?thesis unfolding fault_contract_def by blast
qed

section \<open>Frames of one line\<close>

text \<open>A frame that carries one whole ASCII line to an invocation whose stream is at a line's start.\<close>

lemma lossy_of_ascii: "list_all (\<lambda>b. b < 0x80) bs \<Longrightarrow> lossy_bytes bs = bs"
  by (induction bs rule: lossy_bytes.induct) (simp_all add: utf8_chunk_def utf8_width_def)

lemma from_utf8_lossy_ascii: "ascii l \<Longrightarrow> from_utf8_lossy (as_bytes l) = l"
  by (simp add: ascii_def from_utf8_lossy_def lossy_of_ascii)

definition plain_line :: "string \<Rightarrow> bool" where
  "plain_line l \<longleftrightarrow> ascii l \<and> 0x0a \<notin> set (as_bytes l) \<and> length l \<le> MAX_RESPONSE_LINE_BYTES"

lemma push_line:
  assumes "plain_line l" "is_stdout_pending s = []" "checked_add (is_sequence s) 1 = Some seq" "offset = is_stdout_offset s"
  shows "InvocationStreams_push e i Stdout offset seq (as_bytes l @ [0x0a]) s =
    s\<lparr>is_sequence := seq, is_frames := is_frames s + 1, is_stdout := is_stdout s @ as_bytes l @ [0x0a],
      is_stdout_offset := saturating_add offset (length l + 1), is_stdout_line_event := None, is_stdout_over_bound := False,
      is_stdout_lines := is_stdout_lines s @ [\<lparr>cl_text = l, cl_event_id = e, cl_first_event_id = e\<rparr>]\<rparr>"
proof -
  have first: "position_of 0x0a (as_bytes l @ [0x0a]) = Some (length l)"
    using assms(1) position_of_first [of "0x0a" "as_bytes l" "[]"] by (simp add: plain_line_def)
  have cl: "complete_lines e i Stdout (v, u) = (v\<lparr>sv_pending := [], sv_line_event := None,
        sv_lines := sv_lines v @ [\<lparr>cl_text = l, cl_event_id = e, cl_first_event_id = e\<rparr>]\<rparr>, u\<lparr>is_stdout_over_bound := False\<rparr>)"
    if "sv_pending v = as_bytes l @ [0x0a]" "sv_line_event v = Some e" for v u
    using assms(1) that
    by (subst complete_lines.simps)
      (simp add: first complete_line_def note_long_line_def from_utf8_lossy_ascii plain_line_def complete_lines.simps not_less)
  show ?thesis
    unfolding InvocationStreams_push_def Let_def using assms(2-4) by (simp add: cl)
qed

section \<open>The report and the run\<close>

lemma report_parts:
  assumes "evaluate_workload sha events scenario choices launch = Some report" "rp_passed report"
  shows "ar_passed (process_safety (trace_of events) choices launch)
    \<and> (\<exists>result. response_integrity sha (trace_of events) choices = Some result \<and> ar_passed result)
    \<and> (\<exists>a b c. fault_properties (trace_of events) scenario choices = (a, b, c) \<and> ar_passed a \<and> ar_passed b \<and> ar_passed c)"
  using assms unfolding evaluate_workload_def trace_of_def
  by (auto simp: Let_def split: option.splits prod.splits)

text \<open>
  C10. A passing workload report is a statement about the recorded events. The process
  contract: two starts of the launch and no failed one, the first killed by the only termination
  request, exited by that signal and cleaned up together with its descendant before the second
  start, the second ended cleanly. The integrity contract: each invocation answered exactly the
  planned lines, each after the input it answers, and its exit record names the length, the
  digest and the number of frames of the bytes that were recorded. The fault contract: configured,
  cut and restored once and in this order, the first request of the outage refused and the first
  one after it answered, each within its bound, and so the restarted invocation.
\<close>

theorem evaluate_workload_passed_contract:
  assumes "evaluate_workload sha events scenario choices launch = Some report" and "rp_passed report"
  shows "process_contract events launch \<and> integrity_contract sha events choices \<and> fault_contract events scenario choices"
proof -
  from report_parts [OF assms] obtain result a b c where
    p: "ar_passed (process_safety (trace_of events) choices launch)"
    and i: "response_integrity sha (trace_of events) choices = Some result" "ar_passed result"
    and f: "fault_properties (trace_of events) scenario choices = (a, b, c)" "ar_passed a" "ar_passed b" "ar_passed c" by blast
  note clean = process_safety_clean [OF p]
  from process_safety_contract [OF p] response_integrity_contract [OF i clean] fault_properties_contract [OF f clean]
  show ?thesis by blast
qed

lemma ascii_append [simp]: "ascii (s @ t) \<longleftrightarrow> ascii s \<and> ascii t"
  by (simp add: ascii_def)

lemma ascii_subset: "set s \<subseteq> set t \<Longrightarrow> ascii t \<Longrightarrow> ascii s"
  by (auto simp: ascii_def as_bytes_def list_all_iff)

lemma ascii_digits: "ascii ''0123456789''" "ascii ''0123456789abcdef''"
  by (simp_all add: ascii_def as_bytes_def)

lemma ascii_dec [simp]: "ascii (dec n)"
  by (rule ascii_subset [OF set_dec ascii_digits(1)])

lemma ascii_padded_hex [simp]: "ascii (zero_pad k (lower_hex n))"
proof (rule ascii_subset [OF _ ascii_digits(2)])
  show "set (zero_pad k (lower_hex n)) \<subseteq> set ''0123456789abcdef''"
    by (rule subset_trans [OF set_zero_pad insert_subsetI [OF _ set_lower_hex]]) simp
qed

lemma expected_lines_ascii:
  assumes "list_all (\<lambda>r. ascii (pr_request_id r)) (wp_requests choices)"
  shows "list_all ascii (expected_lines choices i)"
proof -
  have "ascii (expected_network_line r phase)" if "r \<in> set (wp_requests choices)" for r phase
  proof -
    have "ascii (pr_request_id r)" using assms that by (simp add: list_all_iff)
    moreover have "ascii ''network state=unavailable request=''" "ascii '' errno=''" "ascii ''network state=ok request=''"
      by (simp_all add: ascii_def as_bytes_def)
    ultimately show ?thesis
      by (cases phase) (simp_all only: expected_network_line_def ascii_append RequestPhase.case dec_int_def EACCES_def, simp_all)
  qed
  then have "list_all ascii (network_lines choices)" by (simp add: network_lines_def list_all_iff)
  then have net: "list_all ascii (take n (network_lines choices))" "list_all ascii (drop n (network_lines choices))" for n
    by (auto simp: list_all_iff dest: in_set_takeD in_set_dropD)
  have "ascii READY_LINE" "ascii FRESH_STATE_LINE" "ascii ESCAPED_DESCENDANT_LINE" "ascii ''echo value=''" "ascii ''echo-''" "ascii ''-''"
    by (simp_all add: ascii_def as_bytes_def READY_LINE_def FRESH_STATE_LINE_def ESCAPED_DESCENDANT_LINE_def)
  then show ?thesis using net
    by (simp only: expected_lines_def echo_token_def list_all_append list.pred_inject ascii_append ascii_dec
        ascii_padded_hex if_splits) simp
qed

text \<open>
  C22. Byte exactness. When the request identifiers are ASCII, a passing report determines
  the standard output of both invocations to the byte: it is the expected lines, each closed by a
  newline, and its digest is the one of the exit record; the standard error is empty.
\<close>

theorem evaluate_workload_exact_output:
  assumes "evaluate_workload sha events scenario choices launch = Some report" and "rp_passed report"
    and "list_all (\<lambda>r. ascii (pr_request_id r)) (wp_requests choices)" and "i = 1 \<or> i = 2"
  shows "bytes_of i Stdout events = newline_terminated (expected_lines choices i) \<and> bytes_of i Stderr events = []
    \<and> (\<exists>r \<in> set (gather exit_of events). er_invocation r = i
         \<and> er_stdout_sha256 r = sha256_bytes sha (newline_terminated (expected_lines choices i)))"
proof -
  from report_parts [OF assms(1,2)] obtain result where
    p: "ar_passed (process_safety (trace_of events) choices launch)"
    and ri: "response_integrity sha (trace_of events) choices = Some result" "ar_passed result" by blast
  note clean = process_safety_clean [OF p] and integrity = response_integrity_contract [OF ri process_safety_clean [OF p]]
  from process_safety_contract [OF p] assms(4) obtain r where r: "r \<in> set (gather exit_of events)" "er_invocation r = i"
    unfolding process_contract_def by blast
  from r integrity have pend: "sv_pending (get_view Stdout (streams_at (trace_of events) i)) = []" by blast
  from integrity r have x: "exit_contract sha events r" by (simp add: integrity_contract_def)
  have texts: "map cl_text (sv_lines (get_view Stdout (streams_at (trace_of events) i))) = expected_lines choices i"
    using integrity assms(4) unfolding trace_view(1) [OF clean] by (auto simp: integrity_contract_def answers_contract_def)
  have ok: "stream_ok Stdout (streams_at (trace_of events) i) (gather (output_of i Stdout) events)"
    using trace_streams [OF clean, of i] by (simp add: streams_gathered_def)
  have "bytes_of i Stdout events = newline_terminated (expected_lines choices i)"
    unfolding bytes_of_def by (rule stream_exact [OF ok texts expected_lines_ascii [OF assms(3)] pend])
  with x r show ?thesis by (auto simp: exit_contract_def Let_def)
qed

section \<open>Witnesses\<close>

definition sample_launch :: LaunchIdentity where
  "sample_launch = \<lparr>li_executable = ''/app'', li_arguments = [], li_environment = [], li_working_directory = ''/'',
     li_uid = 1000, li_gid = 1000\<rparr>"

definition sample_choices :: WorkloadChoicePlan where
  "sample_choices = \<lparr>wp_version = 1, wp_seed = 7, wp_process_fault_request_index = 1,
     wp_outage_activation_request_index = 1, wp_restoration_request_index = 2,
     wp_requests = map (\<lambda>i. \<lparr>pr_request_id = i, pr_payload = ''00''\<rparr>) [''a'', ''b'', ''c'']\<rparr>"

definition sample_lines :: "nat \<Rightarrow> string list" where
  "sample_lines i = (if i = 1
     then [''ready version=1'', ''echo value=echo-1-0000000000000007'', ''state value=fresh root=fresh'',
           ''network state=ok request=a'', ''descendant state=escaped'']
     else [''ready version=1'', ''echo value=echo-2-0000000000000007'', ''state value=fresh root=fresh'',
           ''network state=unavailable request=b errno=13'', ''network state=ok request=c''])"

lemma sample_lines_expected: "expected_lines sample_choices 1 = sample_lines 1" "expected_lines sample_choices 2 = sample_lines 2"
  by code_simp+

definition sample_line :: "nat \<Rightarrow> nat \<Rightarrow> nat \<Rightarrow> Event" where
  "sample_line i k offset =
     WorkloadOutput i Stdout offset (Suc k) (encode_bytes (as_bytes (sample_lines i ! k) @ [0x0a]))"

definition sample_exit :: "nat \<Rightarrow> ProcessExit \<Rightarrow> nat \<Rightarrow> Event" where
  "sample_exit i x n = WorkloadExited i x n [] 0 [] 5"

definition sample_run :: "EventFrame list" where
  "sample_run =
     [sample_frame 1 1 AgentReady, sample_frame 2 2 (NetworkConfigured ''eth0'' ''10.0.2.15/24'' ''10.0.2.2''),
      sample_frame 3 3 (WorkloadStarted 1 sample_launch), sample_frame 4 4 (sample_line 1 0 0),
      sample_frame 5 5 (InputAccepted 1 1 1 False), sample_frame 6 6 (sample_line 1 1 16),
      sample_frame 7 7 (InputAccepted 1 2 1 False), sample_frame 8 8 (sample_line 1 2 51),
      sample_frame 9 9 (InputAccepted 1 3 1 False), sample_frame 10 10 (sample_line 1 3 80),
      sample_frame 11 11 (InputAccepted 1 4 1 False), sample_frame 12 12 (sample_line 1 4 107),
      sample_frame 13 13 (TerminationRequested 1 9), sample_frame 14 14 (sample_exit 1 (Signaled 9) 132),
      sample_frame 15 15 (CleanupComplete 1 2), sample_frame 16 16 (WorkloadStarted 2 sample_launch),
      sample_frame 17 17 (sample_line 2 0 0), sample_frame 18 18 (InputAccepted 2 1 1 False),
      sample_frame 19 19 (sample_line 2 1 16), sample_frame 20 20 (InputAccepted 2 2 1 False),
      sample_frame 21 21 (sample_line 2 2 51),
      sample_frame 22 22 (OutageActivated ''10.0.2.2/32'' ''prohibit 10.0.2.2/32''),
      sample_frame 23 23 (InputAccepted 2 3 1 False), sample_frame 24 24 (sample_line 2 3 80),
      sample_frame 25 25 (NetworkRestored ''10.0.2.2/32''), sample_frame 26 26 (InputAccepted 2 4 1 False),
      sample_frame 27 27 (sample_line 2 4 125), sample_frame 28 28 (InputAccepted 2 4 0 True),
      sample_frame 29 29 (sample_exit 2 (Exited 0) 152), sample_frame 30 30 (CleanupComplete 2 1),
      sample_frame 31 31 AgentStopped]"

lemma sample_lines_plain: "k < 5 \<Longrightarrow> plain_line (sample_lines i ! k)"
proof -
  have "\<forall>l \<in> set (sample_lines i). plain_line l"
    by (simp add: sample_lines_def plain_line_def ascii_def as_bytes_def MAX_RESPONSE_LINE_BYTES_def)
  moreover assume "k < 5"
  moreover have "length (sample_lines i) = 5" by (simp add: sample_lines_def)
  ultimately show ?thesis by simp
qed

lemma decode_line: "plain_line l \<Longrightarrow> decode_bytes (encode_bytes (as_bytes l @ [0x0a])) MAX_OUTPUT_FRAME_BYTES = Inr (as_bytes l @ [0x0a])"
  by (simp add: decode_bytes_iff plain_line_def MAX_OUTPUT_FRAME_BYTES_def MAX_RESPONSE_LINE_BYTES_def u64_max_eq)


text \<open>The streams of an invocation that wrote its first lines at the given events and accepted inputs of one byte.\<close>

definition sample_offset :: "nat \<Rightarrow> nat \<Rightarrow> nat" where
  "sample_offset i n = sum_list (map (\<lambda>k. Suc (length (sample_lines i ! k))) [0..<n])"

definition sample_streams :: "nat \<Rightarrow> nat list \<Rightarrow> nat list \<Rightarrow> nat list \<Rightarrow> InvocationStreams" where
  "sample_streams i written inputs eofs = InvocationStreams_default
     \<lparr>is_stdout := newline_terminated (map (\<lambda>k. sample_lines i ! k) [0..<length written]),
      is_stdout_lines := map (\<lambda>k. \<lparr>cl_text = sample_lines i ! k, cl_event_id = written ! k, cl_first_event_id = written ! k\<rparr>)
        [0..<length written],
      is_stdout_offset := sample_offset i (length written), is_input_offset := length inputs,
      is_input_commands := inputs @ eofs, is_data_input_events := inputs, is_eof_inputs := length eofs,
      is_input_eof := eofs \<noteq> [], is_sequence := length written, is_frames := length written\<rparr>"

lemma sample_streams_default: "InvocationStreams_default = sample_streams i [] [] []"
  by (simp add: sample_streams_def sample_offset_def newline_terminated_def InvocationStreams_default_def)

lemma sample_small: "a + b \<le> 1000 \<Longrightarrow> saturating_add a b = a + b" "a + b \<le> 1000 \<Longrightarrow> checked_add a b = Some (a + b)"
  by (simp_all add: saturating_add_def checked_add_def u64_max_eq)

lemma sample_streams_line:
  assumes "length written < 5" "offset = sample_offset i (length written)" "offset \<le> 200"
    and k: "k = length written" "seq = Suc k"
  shows "InvocationStreams_push e i Stdout offset seq (as_bytes (sample_lines i ! k) @ [0x0a]) (sample_streams i written inputs eofs)
    = sample_streams i (written @ [e]) inputs eofs"
proof -
  have "length (sample_lines i ! length written) \<le> 50"
    using assms(1) by (simp add: sample_lines_def less_Suc_eq numeral_eq_Suc) auto
  then have "saturating_add offset (length (sample_lines i ! length written) + 1) = offset + (length (sample_lines i ! length written) + 1)"
    using assms(3) by (intro sample_small) simp
  moreover have "map (\<lambda>k. \<lparr>cl_text = sample_lines i ! k, cl_event_id = (written @ [e]) ! k, cl_first_event_id = (written @ [e]) ! k\<rparr>) [0..<length written]
     = map (\<lambda>k. \<lparr>cl_text = sample_lines i ! k, cl_event_id = written ! k, cl_first_event_id = written ! k\<rparr>) [0..<length written]"
    by (simp add: nth_append)
  ultimately show ?thesis unfolding k using assms(1-3)
    by (subst push_line)
      (simp_all add: sample_lines_plain sample_small sample_streams_def InvocationStreams_default_def sample_offset_def
        newline_terminated_def)
qed

lemma sample_streams_first:
  "InvocationStreams_push e i Stdout 0 (Suc 0) (as_bytes (sample_lines i ! 0) @ [0x0a]) InvocationStreams_default
     = sample_streams i [e] [] []"
  using sample_streams_line [of "[]" 0 i 0 1 e "[]" "[]"] sample_streams_default [of i] by (simp add: sample_offset_def)

lemma sample_streams_input:
  assumes "length inputs < 5" "inputs = [] \<or> last inputs < e" "offset = Suc (length inputs)" "n = 1"
  shows "push_input i e e offset n False (sample_streams i written inputs []) =
    sample_streams i written (inputs @ [e]) []"
  using assms by (auto simp: push_input_def input_checks_def Let_def sample_small sample_streams_def InvocationStreams_default_def)

lemma sample_streams_eof:
  assumes "length inputs < 5" "last inputs < e" "offset = length inputs"
  shows "push_input i e e offset 0 True (sample_streams i written inputs []) =
    sample_streams i written inputs [e]"
  using assms by (auto simp: push_input_def input_checks_def Let_def sample_small sample_streams_def InvocationStreams_default_def)

lemma sample_push:
  "k < 5 \<Longrightarrow> trace_event t e c (sample_line i k offset) =
     (if \<not> started t i then with_violation t (names_at ''output frame'' e i ''before it started'')
      else if exited t i then with_violation t (names_at ''output frame'' e i ''after it exited'')
      else update_streams t i (InvocationStreams_push e i Stdout offset (Suc k) (as_bytes (sample_lines i ! k) @ [0x0a])))"
  by (simp add: sample_line_def decode_line sample_lines_plain)


lemma sample_offsets:
  "sample_offset (Suc 0) 0 = 0"
  "sample_offset (Suc 0) (Suc 0) = 16"
  "sample_offset (Suc 0) (Suc (Suc 0)) = 51"
  "sample_offset (Suc 0) (Suc (Suc (Suc 0))) = 80"
  "sample_offset (Suc 0) (Suc (Suc (Suc (Suc 0)))) = 107"
  "sample_offset 2 0 = 0"
  "sample_offset 2 (Suc 0) = 16"
  "sample_offset 2 (Suc (Suc 0)) = 51"
  "sample_offset 2 (Suc (Suc (Suc 0))) = 80"
  "sample_offset 2 (Suc (Suc (Suc (Suc 0)))) = 125"
  by (simp_all add: sample_offset_def sample_lines_def)

definition sample_trace :: WorkloadTrace where
  "sample_trace =
     \<lparr>wt_starts = [\<lparr>sr_invocation = 1, sr_launch = sample_launch, sr_event_id = 3\<rparr>,
        \<lparr>sr_invocation = 2, sr_launch = sample_launch, sr_event_id = 16\<rparr>],
      wt_exits = [\<lparr>er_invocation = 1, er_exit = Signaled 9, er_stdout_bytes = 132, er_stdout_sha256 = [],
          er_stderr_bytes = 0, er_stderr_sha256 = [], er_frames = 5, er_event_id = 14\<rparr>,
        \<lparr>er_invocation = 2, er_exit = Exited 0, er_stdout_bytes = 152, er_stdout_sha256 = [],
          er_stderr_bytes = 0, er_stderr_sha256 = [], er_frames = 5, er_event_id = 29\<rparr>],
      wt_terminations = [\<lparr>tr_invocation = 1, tr_signal = 9, tr_event_id = 13\<rparr>],
      wt_cleanups = [\<lparr>cr_invocation = 1, cr_reaped = 2, cr_event_id = 15\<rparr>,
        \<lparr>cr_invocation = 2, cr_reaped = 1, cr_event_id = 30\<rparr>],
      wt_launch_failures = [], wt_activations = [(''10.0.2.2/32'', 22)], wt_restorations = [(''10.0.2.2/32'', 25)],
      wt_configured = Some \<lparr>cg_gateway = ''10.0.2.2'', cg_event_id = 2\<rparr>,
      wt_invocations = [(1, sample_streams 1 [4, 6, 8, 10, 12] [5, 7, 9, 11] []),
        (2, sample_streams 2 [17, 19, 21, 24, 27] [18, 20, 23, 26] [28])],
      wt_violations = []\<rparr>"

lemma sample_trace_computed: "trace_of sample_run = sample_trace"
  unfolding sample_run_def trace_of_def
  by (simp add: sample_frame_def WorkloadTrace_push_def sample_push WorkloadTrace_default_def
    started_def exited_def terminated_def update_streams_def sample_exit_def sample_streams_first
    NETWORK_INTERFACE_def NETWORK_GUEST_CIDR_def FIXTURE_PEER_def sample_streams_line sample_offsets
    sample_streams_input sample_streams_eof sample_trace_def)


lemma sample_streams_fields:
  "is_violations (sample_streams i w a b) = []" "is_stdout_pending (sample_streams i w a b) = []"
  "is_stderr_pending (sample_streams i w a b) = []" "is_stderr (sample_streams i w a b) = []"
  "is_stderr_lines (sample_streams i w a b) = []" "is_frames (sample_streams i w a b) = length w"
  "is_data_input_events (sample_streams i w a b) = a" "is_eof_inputs (sample_streams i w a b) = length b"
  "is_stdout_lines (sample_streams i w a b) = map (\<lambda>k. \<lparr>cl_text = sample_lines i ! k, cl_event_id = w ! k,
     cl_first_event_id = w ! k\<rparr>) [0..<length w]"
  "is_stdout (sample_streams i w a b) = newline_terminated (map (\<lambda>k. sample_lines i ! k) [0..<length w])"
  by (simp_all add: sample_streams_def InvocationStreams_default_def)

lemmas sample_queries = sample_trace_def sample_streams_fields all_violations_def streams_of_def stdout_lines_def
  stderr_lines_def any_stdout_line_def sample_lines_def

lemma sample_process_safety: "ar_passed (process_safety sample_trace sample_choices sample_launch)"
  by (simp add: process_safety_def first_invocation_def second_invocation_def process_state_def fresh_state_count_def
      sample_queries TERMINATION_SIGNAL_def ESCAPED_DESCENDANT_LINE_def FRESH_STATE_LINE_def STATE_LINE_PREFIX_def
      starts_with_def sample_choices_def)

lemma sample_response_lines:
  "ar_passed rest \<Longrightarrow> ar_passed (response_lines sample_trace sample_choices 1 rest)"
  "ar_passed rest \<Longrightarrow> ar_passed (response_lines sample_trace sample_choices 2 rest)"
  unfolding response_lines_def sample_lines_expected by (simp_all add: sample_queries)

lemma sample_exits: "ar_passed rest \<Longrightarrow> ar_passed (check_exits (\<lambda>_. []) sample_trace (wt_exits sample_trace) rest)"
  by (simp add: check_exit_def sample_queries newline_terminated_def sha256_bytes_def hex_text_def)

lemma sample_integrity: "\<exists>r. response_integrity (\<lambda>_. []) sample_trace sample_choices = Some r \<and> ar_passed r"
proof -
  have "\<not> length (wp_requests sample_choices) < wp_process_fault_request_index sample_choices"
    by (simp add: sample_choices_def)
  moreover have "stderr_lines sample_trace 1 @ stderr_lines sample_trace 2 = []" "all_violations sample_trace = []"
    by (simp_all add: sample_queries)
  ultimately show ?thesis by (simp add: response_integrity_def sample_response_lines [simplified] sample_exits)
qed

lemma sample_faults:
  "fault_properties sample_trace sample_scenario sample_choices = (a, b, c) \<Longrightarrow> ar_passed a \<and> ar_passed b \<and> ar_passed c"
proof -
  have act: "found_activation sample_trace sample_scenario = Some (''10.0.2.2/32'', 22)"
    by (simp add: found_activation_def sample_trace_def sample_scenario_def peer_cidr_of_def)
  have rest: "found_restoration sample_trace sample_scenario = Some (''10.0.2.2/32'', 25)"
    by (simp add: found_restoration_def act) (simp add: sample_trace_def)
  have idx: "first_index_in sample_choices Outage = Some 1" "first_index_in sample_choices Recovery = Some 2"
    by (simp_all add: first_index_in_def sample_choices_def request_phase_def)
  have wanted: "expected_network_line (wp_requests sample_choices ! 1) Outage = ''network state=unavailable request=b errno=13''"
    "expected_network_line (wp_requests sample_choices ! 2) Recovery = ''network state=ok request=c''" by code_simp+
  have ans: "answer_in sample_trace sample_choices Outage = Some (\<lparr>cl_text = ''network state=unavailable request=b errno=13'',
      cl_event_id = 24, cl_first_event_id = 24\<rparr>, 23)"
    "answer_in sample_trace sample_choices Recovery = Some (\<lparr>cl_text = ''network state=ok request=c'',
      cl_event_id = 27, cl_first_event_id = 27\<rparr>, 26)"
    unfolding answer_in_def idx option.case wanted
    by (simp_all add: stdout_line_with_ack_def line_ack_def sample_queries)
  have echo: "''echo value='' @ echo_token (wp_seed sample_choices) 2 = ''echo value=echo-2-0000000000000007''" by code_simp
  have found: "found_outage sample_trace sample_scenario sample_choices = Some (24, 2)"
    "found_recovery sample_trace sample_scenario sample_choices = Some (27, 2)"
    unfolding found_outage_def found_recovery_def act rest ans by (simp_all add: sample_scenario_def)
  have restart: "found_restart sample_trace sample_scenario sample_choices = Some (19, 3)"
    unfolding found_restart_def echo by (simp add: sample_queries sample_scenario_def)
  show "fault_properties sample_trace sample_scenario sample_choices = (a, b, c) \<Longrightarrow> ?thesis"
    by (auto simp: fault_properties_def Let_def rest found restart)
qed

lemma sample_report:
  "\<exists>r. evaluate_workload (\<lambda>_. []) sample_run sample_scenario sample_choices sample_launch = Some r \<and> rp_passed r"
proof -
  obtain a b c where f: "fault_properties sample_trace sample_scenario sample_choices = (a, b, c)" by (metis prod.exhaust)
  obtain r where r: "response_integrity (\<lambda>_. []) sample_trace sample_choices = Some r" "ar_passed r"
    using sample_integrity by blast
  show ?thesis unfolding evaluate_workload_def trace_of_def [symmetric] sample_trace_computed
    using sample_process_safety sample_faults [OF f] r by (simp add: f)
qed


theorem evaluate_workload_passed_contract_witness:
  "process_contract sample_run sample_launch \<and> integrity_contract (\<lambda>_. []) sample_run sample_choices
   \<and> fault_contract sample_run sample_scenario sample_choices"
proof -
  obtain r where "evaluate_workload (\<lambda>_. []) sample_run sample_scenario sample_choices sample_launch = Some r" "rp_passed r"
    using sample_report by blast
  then show ?thesis by (rule evaluate_workload_passed_contract)
qed

theorem evaluate_workload_exact_output_witness:
  "bytes_of 2 Stdout sample_run = newline_terminated (sample_lines 2) \<and> bytes_of 2 Stderr sample_run = []"
proof -
  obtain r where r: "evaluate_workload (\<lambda>_. []) sample_run sample_scenario sample_choices sample_launch = Some r" "rp_passed r"
    using sample_report by blast
  have "list_all (\<lambda>r. ascii (pr_request_id r)) (wp_requests sample_choices)"
    by (simp add: sample_choices_def ascii_def as_bytes_def)
  from evaluate_workload_exact_output [OF r this, of 2] show ?thesis by (simp add: sample_lines_expected)
qed

lemma sample_run_clean: "all_violations (trace_of sample_run) = []"
  by (simp add: sample_trace_computed sample_queries)

theorem trace_lines_reference_witness:
  "all_violations (trace_of sample_run) = []
   \<and> sv_lines (get_view Stdout (streams_at (trace_of sample_run) 1)) = lines_of 1 Stdout sample_run
   \<and> gather (numbered_of 1) sample_run = [1..<Suc (is_frames (streams_at (trace_of sample_run) 1))]"
  using trace_lines_reference [of Stdout sample_run 1] sample_run_clean by (simp add: lines_of_def)

theorem trace_lifecycle_witness:
  "all_violations (trace_of sample_run) = [] \<and> lifecycle (take 12 sample_run) (TerminationRequested 1 9)"
proof -
  have split: "sample_run = take 12 sample_run @ sample_frame 13 13 (TerminationRequested 1 9) # drop 13 sample_run"
    by (simp add: sample_run_def)
  have "lifecycle (take 12 sample_run) (ef_event (sample_frame 13 13 (TerminationRequested 1 9)))"
    by (rule trace_lifecycle) (subst split [symmetric], rule sample_run_clean)
  then show ?thesis using sample_run_clean by (simp add: sample_frame_def)
qed

end
