(* ===== verification/Workload_Controller.thy ===== *)
theory Workload_Controller
  imports Controller Checker
begin

text \<open>
  The workload controller of \<open>run.rs\<close>: the step plan of a workload run, the preflight of its control
  frames, the control loop that interleaves commands with live output, and the passive replay of a
  recorded event stream. Every wait is a loop over the event channel, which ends because each turn
  takes an arrival out of it. The lemmas: whatever happens, the trace, the raw and the normalized
  events and the identifiers agree; a completed run is stopped by the agent and its report is the
  evaluation of the events kept; a replay that completes saw exactly the recorded events.
\<close>

section \<open>The step plan\<close>

datatype WorkloadStep =
    StepEcho nat
  | StepState nat
  | StepSpawnDescendant nat
  | StepStart nat
  | StepTerminate nat
  | StepActivate
  | StepRestore
  | StepRequest nat nat
  | StepStdinEof nat

text \<open>One turn of the loop over the requests: the steps so far and the live invocation.\<close>

definition plan_request :: "WorkloadChoicePlan \<Rightarrow> WorkloadStep list \<times> nat \<Rightarrow> nat \<Rightarrow> WorkloadStep list \<times> nat" where
  "plan_request choices = (\<lambda>(steps, invocation) index.
     let (steps, invocation) =
           (if index = wp_process_fault_request_index choices
            then (steps @ [StepSpawnDescendant invocation, StepTerminate invocation, StepStart (invocation + 1),
                    StepEcho (invocation + 1), StepState (invocation + 1)], invocation + 1)
            else (steps, invocation));
         steps = (if index = wp_outage_activation_request_index choices then steps @ [StepActivate] else steps);
         steps = (if index = wp_restoration_request_index choices then steps @ [StepRestore] else steps)
     in (steps @ [StepRequest invocation index], invocation))"

definition workload_steps :: "WorkloadChoicePlan \<Rightarrow> WorkloadStep list" where
  "workload_steps choices =
     (let (steps, invocation) =
            foldl (plan_request choices) ([StepStart 1, StepEcho 1, StepState 1], 1) [0..<length (wp_requests choices)]
      in steps @ [StepStdinEof invocation])"

section \<open>The preflight of the control frames\<close>

definition fetch_text :: "PlannedRequest \<Rightarrow> string" where
  "fetch_text request = ''fetch '' @ pr_request_id request @ '' '' @ pr_payload request @ [CHR 0x0A]"

definition serialized_length :: "('f \<Rightarrow> bytes option) \<Rightarrow> 'f \<Rightarrow> io_error + nat" where
  "serialized_length to_json frame =
     (case to_json frame of None \<Rightarrow> Inl (IoError KOther ''serialization failed'') | Some bs \<Rightarrow> Inr (length bs))"

definition command_frame_bytes :: "(CommandFrame \<Rightarrow> bytes option) \<Rightarrow> Command \<Rightarrow> io_error + nat" where
  "command_frame_bytes to_json command =
     serialized_length to_json \<lparr>cf_protocol_version = PROTOCOL_VERSION, cf_command_id = u64_max, cf_command = command\<rparr>"

definition widest_input :: "nat \<times> string \<Rightarrow> PlannedRequest \<Rightarrow> io_error + nat \<times> string" where
  "widest_input = (\<lambda>(widest, widest_request) request.
     let len = length (fetch_text request)
     in if len > MAX_STDIN_FRAME_BYTES
        then Inl (invalid_data (''the planned input for '' @ pr_request_id request @ '' is '' @ dec len
               @ '' bytes, which exceeds the '' @ dec MAX_STDIN_FRAME_BYTES @ ''-byte input limit''))
        else Inr (if len > widest then (len, pr_request_id request) else (widest, widest_request)))"

definition validate_workload_control_frames ::
    "(CommandFrame \<Rightarrow> bytes option) \<Rightarrow> (EventFrame \<Rightarrow> bytes option) \<Rightarrow> LaunchIdentity \<Rightarrow> WorkloadChoicePlan \<Rightarrow> io_error + unit" where
  "validate_workload_control_frames command_json event_json launch choices =
     and_then (command_frame_bytes command_json (Start 1 launch)) (\<lambda>start.
     if start > MAX_FRAME_LENGTH
     then Inl (invalid_data (''the materialized launch identity needs a '' @ dec start
            @ ''-byte start command, which exceeds the '' @ dec MAX_FRAME_LENGTH @ ''-byte control frame limit''))
     else and_then (serialized_length event_json
            \<lparr>ef_protocol_version = PROTOCOL_VERSION, ef_event_id = u64_max, ef_command_id = u64_max,
             ef_event = WorkloadStarted u64_max launch, ef_diagnostics = no_diagnostics\<rparr>) (\<lambda>started.
     if started > MAX_FRAME_LENGTH
     then Inl (invalid_data (''the materialized launch identity needs a '' @ dec started
            @ ''-byte workload-started event, which exceeds the '' @ dec MAX_FRAME_LENGTH @ ''-byte control frame limit''))
     else and_then (for_each widest_input (0, '''') (wp_requests choices)) (\<lambda>(widest, widest_request).
     and_then (command_frame_bytes command_json (StdinWrite u64_max u64_max (encode_bytes (replicate widest 0)))) (\<lambda>input.
     if input > MAX_FRAME_LENGTH
     then Inl (invalid_data (''the planned input for '' @ widest_request @ '' needs a '' @ dec input
            @ ''-byte command frame, which exceeds the '' @ dec MAX_FRAME_LENGTH @ ''-byte control frame limit''))
     else Inr ()))))"

definition is_terminal_workload_event :: "Event \<Rightarrow> bool" where
  "is_terminal_workload_event event =
     (case event of
        TerminationRequested _ _ \<Rightarrow> True
      | WorkloadExited _ _ _ _ _ _ _ \<Rightarrow> True
      | LaunchFailed _ _ _ \<Rightarrow> True
      | CleanupComplete _ _ \<Rightarrow> True
      | _ \<Rightarrow> False)"

definition is_workload_output :: "Event \<Rightarrow> bool" where
  "is_workload_output event = (case event of WorkloadOutput _ _ _ _ _ \<Rightarrow> True | _ \<Rightarrow> False)"

section \<open>Replaying a recorded stream\<close>

text \<open>The replay works on the channel and the diagnostics that its caller keeps.\<close>

record 'g ReplayState =
  rs_vm :: "'g vm"
  rs_diagnostics :: FailureDiagnostics

definition on_replay_vm :: "('g vm, io_error, 'a) action \<Rightarrow> ('g ReplayState, io_error, 'a) action" where
  "on_replay_vm a = (\<lambda>s. let (r, vm) = a (rs_vm s) in (r, s\<lparr>rs_vm := vm\<rparr>))"

definition replay_event :: "nat \<times> NormalizedEvent \<Rightarrow> ('g ReplayState, io_error, EventFrame) action" where
  "replay_event = (\<lambda>(index, expected).
     act_bind (on_replay_vm vm_receive) (\<lambda>frame.
     act_bind (act_require (ef_protocol_version frame = PROTOCOL_VERSION \<and> ef_event_id frame = ne_event_id expected)
       (invalid_data (''unexpected event envelope at index '' @ dec index @ '': version='' @ dec (ef_protocol_version frame)
          @ '', event_id='' @ dec (ef_event_id frame) @ '' (expected event '' @ dec (ne_event_id expected) @ '')''))) (\<lambda>_.
     let normalized = EventFrame_normalize frame
     in act_bind (act_require (normalized = expected)
          (invalid_data (''normalized event divergence at index '' @ dec index @ '': expected ''
             @ Event_describe (ne_event expected) @ '' at event '' @ dec (ne_event_id expected) @ '', found ''
             @ Event_describe (ne_event normalized) @ '' at event '' @ dec (ne_event_id normalized)))) (\<lambda>_.
        act_bind (act_modify (\<lambda>s. s\<lparr>rs_diagnostics := observe normalized (rs_diagnostics s)\<rparr>)) (\<lambda>_.
        act_return frame)))))"

fun replay_each :: "(nat \<times> NormalizedEvent) list \<Rightarrow> ('g ReplayState, io_error, EventFrame list) action" where
  "replay_each [] = act_return []"
| "replay_each (x # rest) =
     act_bind (replay_event x) (\<lambda>frame. act_bind (replay_each rest) (\<lambda>frames. act_return (frame # frames)))"

definition replay_workload_events :: "NormalizedEvent list \<Rightarrow> ('g ReplayState, io_error, EventFrame list) action" where
  "replay_workload_events expected =
     (if expected = [] then act_fail (invalid_data ''the recording has no normalized events'')
      else if ne_event (last expected) \<noteq> AgentStopped
      then act_fail (invalid_data ''the recorded event stream does not end with agent-stopped'')
      else act_bind (replay_each (enumerate 0 expected)) (\<lambda>frames.
           act_bind (on_replay_vm vm_finish_events) (\<lambda>_.
           act_return frames)))"

section \<open>The control loop\<close>

record 'g WorkloadController =
  wc_vm :: "'g vm"
  wc_diagnostics :: FailureDiagnostics
  wc_next_command_id :: nat
  wc_next_event_id :: nat
  wc_raw_events :: "EventFrame list"
  wc_events :: "NormalizedEvent list"
  wc_trace :: WorkloadTrace
  wc_consumed_lines :: "nat \<rightharpoonup> nat"

type_synonym ('g, 'a) drives = "('g WorkloadController, io_error, 'a) action"

definition WorkloadController_new :: "'g vm \<Rightarrow> FailureDiagnostics \<Rightarrow> 'g WorkloadController" where
  "WorkloadController_new vm diagnostics =
     \<lparr>wc_vm = vm, wc_diagnostics = diagnostics, wc_next_command_id = 1, wc_next_event_id = 1, wc_raw_events = [],
      wc_events = [], wc_trace = WorkloadTrace_default, wc_consumed_lines = Map.empty\<rparr>"

definition on_channel :: "('g vm, io_error, 'a) action \<Rightarrow> ('g, 'a) drives" where
  "on_channel a = (\<lambda>c. let (r, vm) = a (wc_vm c) in (r, c\<lparr>wc_vm := vm\<rparr>))"

definition WorkloadController_issue :: "'g react \<Rightarrow> Command \<Rightarrow> ('g, nat) drives" where
  "WorkloadController_issue react command =
     act_bind act_get (\<lambda>c.
     let command_id = wc_next_command_id c
     in act_bind (act_modify (\<lambda>c. c\<lparr>wc_next_command_id := wc_next_command_id c + 1\<rparr>)) (\<lambda>_.
        act_bind (on_channel (vm_send react \<lparr>cf_protocol_version = PROTOCOL_VERSION, cf_command_id = command_id,
                                             cf_command = command\<rparr>)) (\<lambda>_.
        act_return command_id)))"

definition fold_frame :: "EventFrame \<Rightarrow> 'g WorkloadController \<Rightarrow> 'g WorkloadController" where
  "fold_frame frame c =
     (let normalized = EventFrame_normalize frame
      in c\<lparr>wc_next_event_id := wc_next_event_id c + 1, wc_diagnostics := observe normalized (wc_diagnostics c),
           wc_trace := WorkloadTrace_push (wc_trace c) frame, wc_raw_events := wc_raw_events c @ [frame],
           wc_events := wc_events c @ [normalized]\<rparr>)"

definition absorb :: "EventFrame \<Rightarrow> ('g, EventFrame) drives" where
  "absorb frame =
     act_bind act_get (\<lambda>c.
     act_bind (act_require (\<not> (ef_protocol_version frame \<noteq> PROTOCOL_VERSION \<or> ef_event_id frame \<noteq> wc_next_event_id c
           \<or> ef_command_id frame = 0 \<or> ef_command_id frame \<ge> wc_next_command_id c))
       (invalid_data (''unexpected event envelope: version='' @ dec (ef_protocol_version frame) @ '', event_id=''
          @ dec (ef_event_id frame) @ '', command_id='' @ dec (ef_command_id frame) @ '' (last issued command ''
          @ dec (wc_next_command_id c - 1) @ '')''))) (\<lambda>_.
     act_bind (act_modify (fold_frame frame)) (\<lambda>_.
     act_return frame)))"

definition receive_one :: "('g, EventFrame) drives" where
  "receive_one = act_bind (on_channel vm_receive) absorb"

lemma vm_receive_shrinks: "vm_receive vm = (Inr frame, vm') \<Longrightarrow> length (vm_inbox vm') < length (vm_inbox vm)"
proof -
  have "recv_timeout xs = (Some x, rest) \<Longrightarrow> length rest < length xs" for xs x rest
    by (induction xs rule: recv_timeout.induct) auto
  then show "vm_receive vm = (Inr frame, vm') \<Longrightarrow> length (vm_inbox vm') < length (vm_inbox vm)"
    by (fastforce simp: vm_receive_def Let_def split: prod.splits option.splits arrival.splits)
qed

lemma vm_try_receive_shrinks: "vm_try_receive vm = (Inr (Some frame), vm') \<Longrightarrow> length (vm_inbox vm') < length (vm_inbox vm)"
  by (auto simp: vm_try_receive_def Let_def split: list.splits arrival.splits)

lemma absorb_Inr:
  "absorb frame c = (Inr x, c') \<longleftrightarrow> x = frame \<and> c' = fold_frame frame c \<and> ef_protocol_version frame = PROTOCOL_VERSION
     \<and> ef_event_id frame = wc_next_event_id c \<and> 0 < ef_command_id frame \<and> ef_command_id frame < wc_next_command_id c"
  by (auto simp: absorb_def act_bind_Inr not_le)

lemma fold_frame_vm [simp]: "wc_vm (fold_frame frame c) = wc_vm c"
  by (simp add: fold_frame_def Let_def)

lemma on_channel_Inr: "on_channel a c = (Inr x, c') \<longleftrightarrow> (\<exists>vm. a (wc_vm c) = (Inr x, vm) \<and> c' = c\<lparr>wc_vm := vm\<rparr>)"
  by (auto simp: on_channel_def Let_def split: prod.splits)

lemma receive_one_shrinks: "receive_one c = (Inr frame, c') \<Longrightarrow> length (vm_inbox (wc_vm c')) < length (vm_inbox (wc_vm c))"
  by (auto simp: receive_one_def act_bind_Inr on_channel_Inr absorb_Inr dest: vm_receive_shrinks)

lemma drain_shrinks:
  assumes "on_channel vm_try_receive c = (Inr (Some frame), c')" "absorb frame c' = (Inr x, c'')"
  shows "length (vm_inbox (wc_vm c'')) < length (vm_inbox (wc_vm c))"
proof -
  from assms obtain vm where "vm_try_receive (wc_vm c) = (Inr (Some frame), vm)" "wc_vm c'' = vm"
    by (auto simp: on_channel_Inr absorb_Inr)
  with vm_try_receive_shrinks show ?thesis by blast
qed

text \<open>The waits share their loop: receive an event, and stop when the body has a result for it.\<close>

function receive_until ::
    "(EventFrame \<Rightarrow> 'g WorkloadController \<Rightarrow> (io_error + 'a) option) \<Rightarrow> ('g, 'a) drives" where
  "receive_until body c =
     (case receive_one c of
        (Inl e, c') \<Rightarrow> (Inl e, c')
      | (Inr frame, c') \<Rightarrow>
          (case body frame c' of Some result \<Rightarrow> (result, c') | None \<Rightarrow> receive_until body c'))"
  by pat_completeness auto
termination
  by (relation "measure (\<lambda>(body, c). length (vm_inbox (wc_vm c)))") (auto intro: receive_one_shrinks [OF sym])

function drain :: "('g, unit) drives" where
  "drain c =
     (case on_channel vm_try_receive c of
        (Inl e, c') \<Rightarrow> (Inl e, c')
      | (Inr None, c') \<Rightarrow> (Inr (), c')
      | (Inr (Some frame), c') \<Rightarrow>
          (case absorb frame c' of (Inl e, c'') \<Rightarrow> (Inl e, c'') | (Inr _, c'') \<Rightarrow> drain c''))"
  by pat_completeness auto
termination
  by (relation "measure (\<lambda>c. length (vm_inbox (wc_vm c)))")
    (auto intro: drain_shrinks [OF sym sym])

declare receive_until.simps [simp del] drain.simps [simp del]

section \<open>The waits\<close>

definition expect_event ::
    "nat \<Rightarrow> string \<Rightarrow> bool \<Rightarrow> (Event \<Rightarrow> bool) \<Rightarrow> EventFrame \<Rightarrow> 'g WorkloadController \<Rightarrow> (io_error + EventFrame) option" where
  "expect_event command_id description allow_terminal predicate frame c =
     (if predicate (ef_event frame)
      then Some (if ef_command_id frame \<noteq> command_id
                 then Inl (invalid_data (''the '' @ Event_kind (ef_event frame) @ '' response carries command ''
                        @ dec (ef_command_id frame) @ '' instead of '' @ dec command_id))
                 else Inr frame)
      else if ef_command_id frame > command_id
      then Some (Inl (invalid_data (''an event for command '' @ dec (ef_command_id frame) @ '' arrived while waiting for ''
             @ description)))
      else if \<not> is_workload_output (ef_event frame) \<and> \<not> (allow_terminal \<and> is_terminal_workload_event (ef_event frame))
      then Some (Inl (invalid_data (''unexpected '' @ Event_describe (ef_event frame) @ '' while waiting for '' @ description)))
      else None)"

definition expect :: "nat \<Rightarrow> string \<Rightarrow> bool \<Rightarrow> (Event \<Rightarrow> bool) \<Rightarrow> ('g, EventFrame) drives" where
  "expect command_id description allow_terminal predicate =
     receive_until (expect_event command_id description allow_terminal predicate)"

definition input_accepted_event ::
    "nat \<Rightarrow> nat \<Rightarrow> nat \<Rightarrow> nat \<Rightarrow> EventFrame \<Rightarrow> 'g WorkloadController \<Rightarrow> (io_error + bool) option" where
  "input_accepted_event command_id invocation expected_start sent frame c =
     (let unexpected = Inl (invalid_data (''unexpected '' @ Event_describe (ef_event frame) @ '' while waiting for input-accepted''))
      in case ef_event frame of
           InputAccepted actual offset bytes eof \<Rightarrow>
             Some (if ef_command_id frame \<noteq> command_id
                   then Inl (invalid_data (''the input-accepted response carries command '' @ dec (ef_command_id frame)
                          @ '' instead of '' @ dec command_id))
                   else if actual \<noteq> invocation \<or> eof \<or> offset \<noteq> expected_start + sent \<or> bytes \<noteq> sent then unexpected
                   else Inr True)
         | WorkloadExited actual _ _ _ _ _ _ \<Rightarrow> Some (if actual = invocation then Inr False else unexpected)
         | LaunchFailed actual _ _ \<Rightarrow> Some (if actual = invocation then Inr False else unexpected)
         | WorkloadOutput _ _ _ _ _ \<Rightarrow> None
         | _ \<Rightarrow> Some unexpected)"

definition await_input_accepted :: "nat \<Rightarrow> nat \<Rightarrow> nat \<Rightarrow> nat \<Rightarrow> ('g, bool) drives" where
  "await_input_accepted command_id invocation expected_start sent =
     receive_until (input_accepted_event command_id invocation expected_start sent)"

definition healthy :: "nat \<Rightarrow> 'g WorkloadController \<Rightarrow> bool" where
  "healthy invocation c \<longleftrightarrow> \<not> exited (wc_trace c) invocation \<and> \<not> launch_failed (wc_trace c) invocation
     \<and> stderr_bytes (wc_trace c) invocation = 0 \<and> \<not> over_bound_line (wc_trace c) invocation"

definition consumed_of :: "nat \<Rightarrow> 'g WorkloadController \<Rightarrow> nat" where
  "consumed_of invocation c = (case wc_consumed_lines c invocation of None \<Rightarrow> 0 | Some n \<Rightarrow> n)"

definition unconsumed_line :: "nat \<Rightarrow> 'g WorkloadController \<Rightarrow> bool" where
  "unconsumed_line invocation c \<longleftrightarrow> stdout_line_count (wc_trace c) invocation > consumed_of invocation c"

definition exit_wait_failed :: "nat \<Rightarrow> 'g WorkloadController \<Rightarrow> bool" where
  "exit_wait_failed invocation c \<longleftrightarrow> \<not> healthy invocation c \<or> unconsumed_line invocation c
     \<or> stdout_pending (wc_trace c) invocation"

definition exit_event ::
    "nat \<Rightarrow> nat \<Rightarrow> EventFrame \<Rightarrow> 'g WorkloadController \<Rightarrow> (io_error + bool) option" where
  "exit_event command_id invocation frame c =
     (if (case ef_event frame of WorkloadExited actual _ _ _ _ _ _ \<Rightarrow> actual = invocation | _ \<Rightarrow> False)
      then Some (if ef_command_id frame \<noteq> command_id
                 then Inl (invalid_data (''the workload-exited response carries command '' @ dec (ef_command_id frame)
                        @ '' instead of '' @ dec command_id))
                 else Inr True)
      else if is_workload_output (ef_event frame)
      then if exit_wait_failed invocation c then Some (Inr False) else None
      else if is_terminal_workload_event (ef_event frame) then None
      else Some (Inl (invalid_data (''unexpected '' @ Event_describe (ef_event frame) @ '' while waiting for workload-exited''))))"

definition await_exit :: "nat \<Rightarrow> nat \<Rightarrow> ('g, bool) drives" where
  "await_exit command_id invocation =
     act_bind act_get (\<lambda>c.
     if exit_wait_failed invocation c then act_return False
     else receive_until (exit_event command_id invocation))"

definition live :: "nat \<Rightarrow> ('g, bool) drives" where
  "live invocation =
     act_bind drain (\<lambda>_.
     act_bind act_get (\<lambda>c.
     act_return (\<not> (exited (wc_trace c) invocation \<or> launch_failed (wc_trace c) invocation))))"

text \<open>The new offset is returned with the result, in place of the \<open>&mut\<close> argument.\<close>

definition write_stdin :: "'g react \<Rightarrow> nat \<Rightarrow> nat \<Rightarrow> string \<Rightarrow> ('g, bool \<times> nat) drives" where
  "write_stdin react invocation offset text =
     act_bind drain (\<lambda>_.
     act_bind act_get (\<lambda>c.
     if \<not> healthy invocation c then act_return (False, offset)
     else act_bind (WorkloadController_issue react (StdinWrite invocation offset (encode_bytes (as_bytes text)))) (\<lambda>command_id.
          act_bind (await_input_accepted command_id invocation offset (length text)) (\<lambda>accepted.
          act_return (if accepted then (True, offset + length text) else (False, offset))))))"

function wait_for_line :: "nat \<Rightarrow> string \<Rightarrow> ('g, bool) drives" where
  "wait_for_line invocation expected c =
     (if \<not> healthy invocation c then (Inr False, c)
      else let consumed = consumed_of invocation c
           in if consumed < stdout_line_count (wc_trace c) invocation
              then let matched = (stdout_line (wc_trace c) invocation consumed = Some expected);
                       c' = c\<lparr>wc_consumed_lines := (wc_consumed_lines c)(invocation \<mapsto> consumed + 1)\<rparr>
                   in (Inr (if \<not> healthy invocation c' then False else matched), c')
              else if exited (wc_trace c) invocation \<or> launch_failed (wc_trace c) invocation then (Inr False, c)
              else (case receive_one c of
                      (Inl e, c') \<Rightarrow> (Inl e, c')
                    | (Inr _, c') \<Rightarrow> wait_for_line invocation expected c'))"
  by pat_completeness auto
termination
  by (relation "measure (\<lambda>(i, e, c). length (vm_inbox (wc_vm c)))") (auto intro: receive_one_shrinks [OF sym])

declare wait_for_line.simps [simp del]

section \<open>The scenario\<close>

text \<open>What the driver keeps across steps: the input offsets, whether the outage is in force and whether it stopped.\<close>

record progress_state =
  ps_offsets :: "nat \<rightharpoonup> nat"
  ps_outage_active :: bool
  ps_stopped :: bool

definition offset_of :: "progress_state \<Rightarrow> nat \<Rightarrow> nat" where
  "offset_of s invocation = (case ps_offsets s invocation of None \<Rightarrow> 0 | Some n \<Rightarrow> n)"

definition stop_if :: "bool \<Rightarrow> progress_state \<Rightarrow> progress_state" where
  "stop_if failing s = (if failing then s\<lparr>ps_stopped := True\<rparr> else s)"

text \<open>A line of input and the line that answers it.\<close>

definition ask :: "'g react \<Rightarrow> nat \<Rightarrow> string \<Rightarrow> string \<Rightarrow> progress_state \<Rightarrow> ('g, progress_state) drives" where
  "ask react invocation text expected s =
     act_bind (write_stdin react invocation (offset_of s invocation) text) (\<lambda>(written, offset).
     let s = s\<lparr>ps_offsets := (ps_offsets s)(invocation \<mapsto> offset)\<rparr>
     in act_bind (if written then wait_for_line invocation expected else act_return False) (\<lambda>matched.
        act_return (stop_if (\<not> matched) s)))"

definition activate :: "'g react \<Rightarrow> string \<Rightarrow> ('g, unit) drives" where
  "activate react peer_cidr =
     act_bind (WorkloadController_issue react (ActivateOutage peer_cidr)) (\<lambda>command.
     act_bind (expect command ''outage-activated'' True (\<lambda>event. case event of
         OutageActivated actual rule \<Rightarrow> actual = peer_cidr \<and> rule = ''prohibit '' @ peer_cidr | _ \<Rightarrow> False)) (\<lambda>_.
     act_return ()))"

definition restore :: "'g react \<Rightarrow> string \<Rightarrow> ('g, unit) drives" where
  "restore react peer_cidr =
     act_bind (WorkloadController_issue react (RestoreNetwork peer_cidr)) (\<lambda>command.
     act_bind (expect command ''network-restored'' True (\<lambda>event. case event of
         NetworkRestored actual \<Rightarrow> actual = peer_cidr | _ \<Rightarrow> False)) (\<lambda>_.
     act_return ()))"

text \<open>The end of an invocation: the request, its acknowledgement, the exit and the cleanup.\<close>

definition end_invocation ::
    "'g react \<Rightarrow> nat \<Rightarrow> Command \<Rightarrow> string \<Rightarrow> (Event \<Rightarrow> bool) \<Rightarrow> progress_state \<Rightarrow> ('g, progress_state) drives" where
  "end_invocation react invocation command description predicate s =
     act_bind (live invocation) (\<lambda>alive.
     act_bind act_get (\<lambda>c.
     if \<not> alive \<or> \<not> healthy invocation c then act_return (stop_if True s)
     else act_bind (WorkloadController_issue react command) (\<lambda>command_id.
          act_bind (expect command_id description False predicate) (\<lambda>_.
          act_bind (await_exit command_id invocation) (\<lambda>ended.
          if \<not> ended then act_return (stop_if True s)
          else act_bind (expect command_id ''cleanup-complete'' False (\<lambda>event. case event of
                   CleanupComplete _ _ \<Rightarrow> True | _ \<Rightarrow> False)) (\<lambda>_.
               act_return s))))))"

fun drive_step ::
    "'g react \<Rightarrow> Scenario \<Rightarrow> WorkloadChoicePlan \<Rightarrow> LaunchIdentity \<Rightarrow> WorkloadStep \<Rightarrow> progress_state
     \<Rightarrow> ('g, progress_state) drives" where
  "drive_step react scenario choices launch (StepEcho invocation) s =
     (let token = echo_token (wp_seed choices) invocation
      in ask react invocation (''echo '' @ token @ [CHR 0x0A]) (''echo value='' @ token) s)"
| "drive_step react scenario choices launch (StepState invocation) s =
     ask react invocation (''state'' @ [CHR 0x0A]) FRESH_STATE_LINE s"
| "drive_step react scenario choices launch (StepSpawnDescendant invocation) s =
     ask react invocation (''spawn-descendant'' @ [CHR 0x0A]) ESCAPED_DESCENDANT_LINE s"
| "drive_step react scenario choices launch (StepRequest invocation index) s =
     (let request = wp_requests choices ! index;
          line = expected_network_line request (request_phase index (wp_outage_activation_request_index choices)
                   (wp_restoration_request_index choices))
      in ask react invocation (fetch_text request) line s)"
| "drive_step react scenario choices launch StepActivate s =
     act_bind (activate react (peer_route scenario)) (\<lambda>_. act_return (s\<lparr>ps_outage_active := True\<rparr>))"
| "drive_step react scenario choices launch StepRestore s =
     act_bind (restore react (peer_route scenario)) (\<lambda>_. act_return (s\<lparr>ps_outage_active := False\<rparr>))"
| "drive_step react scenario choices launch (StepStart invocation) s =
     act_bind (WorkloadController_issue react (Start invocation launch)) (\<lambda>command.
     act_bind (expect command ''workload-started'' False (\<lambda>event. case event of
         WorkloadStarted _ _ \<Rightarrow> True | LaunchFailed _ _ _ \<Rightarrow> True | _ \<Rightarrow> False)) (\<lambda>_.
     act_bind (wait_for_line invocation READY_LINE) (\<lambda>ready.
     act_return (stop_if (\<not> ready) s))))"
| "drive_step react scenario choices launch (StepTerminate invocation) s =
     end_invocation react invocation (Terminate invocation) ''termination-requested'' (\<lambda>event. case event of
       TerminationRequested _ _ \<Rightarrow> True | _ \<Rightarrow> False) s"
| "drive_step react scenario choices launch (StepStdinEof invocation) s =
     end_invocation react invocation (StdinEof invocation) ''input-accepted'' (\<lambda>event. case event of
       InputAccepted actual offset bytes eof \<Rightarrow> bytes = 0 \<and> eof \<and> actual = invocation \<and> offset = offset_of s invocation
     | _ \<Rightarrow> False) s"

fun drive_steps ::
    "'g react \<Rightarrow> Scenario \<Rightarrow> WorkloadChoicePlan \<Rightarrow> LaunchIdentity \<Rightarrow> WorkloadStep list \<Rightarrow> progress_state
     \<Rightarrow> ('g, progress_state) drives" where
  "drive_steps react scenario choices launch [] s = act_return s"
| "drive_steps react scenario choices launch (step # rest) s =
     (if ps_stopped s then act_return s
      else act_bind (drive_step react scenario choices launch step s) (drive_steps react scenario choices launch rest))"

definition stopped_event :: "nat \<Rightarrow> EventFrame \<Rightarrow> 'g WorkloadController \<Rightarrow> (io_error + unit) option" where
  "stopped_event shutdown frame c =
     (if ef_command_id frame > shutdown
      then Some (Inl (invalid_data ''an event for a later command arrived while waiting for agent-stopped''))
      else if ef_event frame = AgentStopped
      then Some (if ef_command_id frame \<noteq> shutdown
                 then Inl (invalid_data (''the agent-stopped response carries command '' @ dec (ef_command_id frame)
                        @ '' instead of '' @ dec shutdown))
                 else Inr ())
      else if \<not> (case ef_event frame of WorkloadOutput _ _ _ _ _ \<Rightarrow> True | InputAccepted _ _ _ _ \<Rightarrow> True | _ \<Rightarrow> False)
              \<and> \<not> is_terminal_workload_event (ef_event frame)
      then Some (Inl (invalid_data (''unexpected '' @ Event_describe (ef_event frame) @ '' while waiting for agent-stopped'')))
      else None)"

definition drive_workload ::
    "'g react \<Rightarrow> Scenario \<Rightarrow> WorkloadChoicePlan \<Rightarrow> LaunchIdentity \<Rightarrow> ('g, unit) drives" where
  "drive_workload react scenario choices launch =
     act_bind (WorkloadController_issue react (ConfigureNetwork ''eth0'' ''10.0.2.15/24'' (sc_fixture_peer scenario))) (\<lambda>configure.
     act_bind (expect configure ''network-configured'' True (\<lambda>event. case event of
         NetworkConfigured interface guest_cidr gateway \<Rightarrow>
           interface = ''eth0'' \<and> guest_cidr = ''10.0.2.15/24'' \<and> gateway = sc_fixture_peer scenario
       | _ \<Rightarrow> False)) (\<lambda>_.
     act_bind (drive_steps react scenario choices launch (workload_steps choices)
         \<lparr>ps_offsets = Map.empty, ps_outage_active = False, ps_stopped = False\<rparr>) (\<lambda>s.
     act_bind (if ps_stopped s \<and> ps_outage_active s
               then act_bind drain (\<lambda>_. restore react (peer_route scenario)) else act_return ()) (\<lambda>_.
     act_bind (WorkloadController_issue react Shutdown) (\<lambda>shutdown.
     act_bind (receive_until (stopped_event shutdown)) (\<lambda>_.
     on_channel vm_finish_events))))))"

text \<open>The report is \<open>None\<close> where the evaluation panics.\<close>

definition drive_workload_scenario ::
    "(bytes \<Rightarrow> bytes) \<Rightarrow> 'g react \<Rightarrow> Scenario \<Rightarrow> WorkloadChoicePlan \<Rightarrow> LaunchIdentity \<Rightarrow> 'g vm \<Rightarrow> FailureDiagnostics
     \<Rightarrow> (io_error + NormalizedEvent list \<times> AssertionReport option) \<times> 'g WorkloadController" where
  "drive_workload_scenario sha react scenario choices launch vm diagnostics =
     act_bind (drive_workload react scenario choices launch) (\<lambda>_.
     act_bind act_get (\<lambda>c.
     act_return (wc_events c, evaluate_workload sha (wc_raw_events c) scenario choices launch)))
       (WorkloadController_new vm diagnostics)"

section \<open>What every run keeps\<close>

text \<open>The frames folded in and the commands sent between two states.\<close>

definition folded :: "EventFrame list \<Rightarrow> CommandFrame list \<Rightarrow> 'g WorkloadController \<Rightarrow> 'g WorkloadController \<Rightarrow> bool" where
  "folded frames commands c c' \<longleftrightarrow> wc_raw_events c' = wc_raw_events c @ frames
     \<and> wc_events c' = wc_events c @ map EventFrame_normalize frames
     \<and> wc_trace c' = foldl WorkloadTrace_push (wc_trace c) frames
     \<and> map ef_event_id frames = [wc_next_event_id c..<wc_next_event_id c + length frames]
     \<and> wc_next_event_id c' = wc_next_event_id c + length frames
     \<and> wc_next_command_id c \<le> wc_next_command_id c'
     \<and> (\<forall>f \<in> set frames. ef_protocol_version f = PROTOCOL_VERSION \<and> 0 < ef_command_id f \<and> ef_command_id f < wc_next_command_id c')
     \<and> vm_sent (wc_vm c') = vm_sent (wc_vm c) @ commands
     \<and> sorted_wrt (<) (map cf_command_id commands)
     \<and> (\<forall>k \<in> set commands. wc_next_command_id c \<le> cf_command_id k \<and> cf_command_id k < wc_next_command_id c')"

text \<open>Some frames folded in and some commands sent, all of a kind; lines consumed only where that is allowed.\<close>

definition grows :: "(Command \<Rightarrow> bool) \<Rightarrow> bool \<Rightarrow> 'g WorkloadController \<Rightarrow> 'g WorkloadController \<Rightarrow> bool" where
  "grows P w c c' \<longleftrightarrow> (\<exists>frames commands. folded frames commands c c' \<and> (\<forall>k \<in> set commands. P (cf_command k)))
     \<and> (w \<or> wc_consumed_lines c' = wc_consumed_lines c)"

lemma folded_refl: "folded [] [] c c"
  by (simp add: folded_def)

lemma folded_trans:
  assumes "folded fs ks c d" "folded gs ls d e"
  shows "folded (fs @ gs) (ks @ ls) c e"
  unfolding folded_def
proof (intro conjI)
  note a = assms(1) [unfolded folded_def] and b = assms(2) [unfolded folded_def]
  show "map ef_event_id (fs @ gs) = [wc_next_event_id c..<wc_next_event_id c + length (fs @ gs)]"
    using a b upt_add_eq_append [of "wc_next_event_id c" "wc_next_event_id c + length fs" "length gs"] by (simp add: add.assoc)
  show "\<forall>f \<in> set (fs @ gs). ef_protocol_version f = PROTOCOL_VERSION \<and> 0 < ef_command_id f \<and> ef_command_id f < wc_next_command_id e"
    using a b by fastforce
  show "sorted_wrt (<) (map cf_command_id (ks @ ls))"
    using a b by (fastforce simp: sorted_wrt_append)
  show "\<forall>k \<in> set (ks @ ls). wc_next_command_id c \<le> cf_command_id k \<and> cf_command_id k < wc_next_command_id e"
    using a b by fastforce
qed (use assms in \<open>simp_all add: folded_def\<close>)

lemma growsI:
  "folded fs ks c c' \<Longrightarrow> \<forall>k \<in> set ks. P (cf_command k) \<Longrightarrow> w \<or> wc_consumed_lines c' = wc_consumed_lines c \<Longrightarrow> grows P w c c'"
  unfolding grows_def by blast

lemma grows_trans:
  assumes "grows P w c d" "grows P w d e"
  shows "grows P w c e"
proof -
  from assms obtain fs ks gs ls where f: "folded fs ks c d" "\<forall>k \<in> set ks. P (cf_command k)"
    "folded gs ls d e" "\<forall>k \<in> set ls. P (cf_command k)" unfolding grows_def by blast
  then have "folded (fs @ gs) (ks @ ls) c e" "\<forall>k \<in> set (ks @ ls). P (cf_command k)" by (auto intro: folded_trans)
  then show ?thesis by (rule growsI) (use assms in \<open>auto simp: grows_def\<close>)
qed

lemma grows_refl [simp]: "grows P w c c"
  unfolding grows_def using folded_refl by fastforce

interpretation driving: progress "grows P w" for P w
  by unfold_locales (simp, rule grows_trans)


lemma grows_vm: "vm_sent vm = vm_sent (wc_vm c) \<Longrightarrow> grows P w c (c\<lparr>wc_vm := vm\<rparr>)"
  unfolding grows_def by (rule conjI, intro exI [of _ "[]"] conjI) (simp_all add: folded_def)

lemma sent_unchanged:
  "vm_sent (snd (vm_receive vm)) = vm_sent vm" "vm_sent (snd (vm_try_receive vm)) = vm_sent vm"
  "vm_sent (snd (vm_finish_events vm)) = vm_sent vm"
  by (auto simp: vm_receive_def vm_try_receive_def vm_finish_events_def Let_def split: prod.splits list.splits option.splits arrival.splits)

lemma on_channel_run: "on_channel a c = (fst (a (wc_vm c)), c\<lparr>wc_vm := snd (a (wc_vm c))\<rparr>)"
  by (simp add: on_channel_def Let_def split: prod.splits)

lemma channel_grows:
  "driving.always P w (on_channel vm_receive)" "driving.always P w (on_channel vm_try_receive)" "driving.always P w (on_channel vm_finish_events)"
  by (simp_all add: driving.always_def on_channel_run grows_vm sent_unchanged)

lemma folded_frame:
  assumes "ef_protocol_version frame = PROTOCOL_VERSION" "ef_event_id frame = wc_next_event_id c"
    "0 < ef_command_id frame" "ef_command_id frame < wc_next_command_id c"
  shows "folded [frame] [] c (fold_frame frame c)"
  using assms by (simp add: folded_def fold_frame_def Let_def)

lemma grows_frame:
  assumes "ef_protocol_version frame = PROTOCOL_VERSION" "ef_event_id frame = wc_next_event_id c"
    "0 < ef_command_id frame" "ef_command_id frame < wc_next_command_id c"
  shows "grows P w c (fold_frame frame c)"
  unfolding grows_def using folded_frame [OF assms] by (fastforce simp: fold_frame_def Let_def)

lemma absorb_grows: "driving.always P w (absorb frame)"
  unfolding absorb_def
  by (rule driving.always_get) (auto simp: act_bind_def not_le intro: grows_frame)

lemma receive_one_grows: "driving.always P w receive_one"
  unfolding receive_one_def by (intro driving.always_bind channel_grows absorb_grows)

lemma receive_until_grows: "driving.always P w (receive_until body)"
proof -
  have "grows P w c (snd (receive_until body c))" for c
  proof (induction body c rule: receive_until.induct)
    case (1 body c)
    obtain r c1 where one: "receive_one c = (r, c1)" by fastforce
    then have first: "grows P w c c1" by (rule driving.always_run [OF receive_one_grows])
    with one 1 driving.rel_trans [OF first] show ?case
      by (subst receive_until.simps) (auto split: sum.splits option.splits)
  qed
  then show ?thesis by (simp add: driving.always_def)
qed

lemma drain_step_grows: "grows P w c (snd (drain c))"
proof (induction c rule: drain.induct)
  case (1 c)
  obtain r c1 where one: "on_channel vm_try_receive c = (r, c1)" by fastforce
  then have first: "grows P w c c1" by (rule driving.always_run [OF channel_grows(2)])
  show ?case
  proof (cases "\<exists>frame. r = Inr (Some frame)")
    case True
    then obtain frame where r: "r = Inr (Some frame)" by blast
    obtain q c2 where two: "absorb frame c1 = (q, c2)" by fastforce
    with driving.always_run [OF absorb_grows two] first have second: "grows P w c c2" by (blast intro: driving.rel_trans)
    from 1 [OF one [symmetric] r refl two [symmetric]] second show ?thesis unfolding drain.simps [of c] one r
      by (auto simp: two split: sum.splits intro: driving.rel_trans)
  next
    case False
    with one first show ?thesis unfolding drain.simps [of c] by (auto split: sum.splits option.splits)
  qed
qed

lemma wait_step_grows: "grows P True c (snd (wait_for_line invocation expected c))"
proof (induction invocation expected c rule: wait_for_line.induct)
  case (1 invocation expected c)
  obtain r c1 where one: "receive_one c = (r, c1)" by fastforce
  then have first: "grows P True c c1" by (rule driving.always_run [OF receive_one_grows])
  have consumed: "grows P True c (c\<lparr>wc_consumed_lines := m\<rparr>)" for m
    unfolding grows_def by (rule conjI, intro exI [of _ "[]"] conjI) (simp_all add: folded_def)
  from one 1 driving.rel_trans [OF first] first consumed show ?case
    by (subst wait_for_line.simps) (auto simp: Let_def split: sum.splits)
qed

lemma waits_grow: "driving.always P w drain" "driving.always P True (wait_for_line invocation expected)"
  by (simp_all add: driving.always_def drain_step_grows wait_step_grows)

lemma issue_run:
  "WorkloadController_issue react command c =
     (let frame = \<lparr>cf_protocol_version = PROTOCOL_VERSION, cf_command_id = wc_next_command_id c, cf_command = command\<rparr>;
          (r, vm) = vm_send react frame (wc_vm c);
          c' = c\<lparr>wc_next_command_id := wc_next_command_id c + 1, wc_vm := vm\<rparr>
      in (case r of Inl e \<Rightarrow> Inl e | Inr _ \<Rightarrow> Inr (wc_next_command_id c), c'))"
  by (auto simp: WorkloadController_issue_def Let_def act_bind_def on_channel_run split: prod.splits sum.splits)

lemma vm_send_sent:
  "vm_send react frame vm = (r, vm') \<Longrightarrow> vm_sent vm' = vm_sent vm @ (case r of Inl _ \<Rightarrow> [] | Inr _ \<Rightarrow> [frame])"
  by (auto simp: vm_send_def split: prod.splits sum.splits)

lemma issue_step_grows: "P command \<Longrightarrow> grows P w c (snd (WorkloadController_issue react command c))"
proof -
  let ?frame = "\<lparr>cf_protocol_version = PROTOCOL_VERSION, cf_command_id = wc_next_command_id c, cf_command = command\<rparr>"
  obtain r vm where send: "vm_send react ?frame (wc_vm c) = (r, vm)" by fastforce
  have "folded [] (case r of Inl _ \<Rightarrow> [] | Inr _ \<Rightarrow> [?frame]) c (c\<lparr>wc_next_command_id := wc_next_command_id c + 1, wc_vm := vm\<rparr>)"
    using vm_send_sent [OF send] by (simp add: folded_def split: sum.splits)
  moreover assume "P command"
  then have "\<forall>k \<in> set (case r of Inl _ \<Rightarrow> [] | Inr _ \<Rightarrow> [?frame]). P (cf_command k)" by (simp split: sum.splits)
  ultimately have "grows P w c (c\<lparr>wc_next_command_id := wc_next_command_id c + 1, wc_vm := vm\<rparr>)" by (rule growsI) simp
  then show "grows P w c (snd (WorkloadController_issue react command c))"
    unfolding issue_run using send by (simp add: Let_def)
qed

lemma issue_grows: "P command \<Longrightarrow> driving.always P w (WorkloadController_issue react command)"
  by (simp add: driving.always_def issue_step_grows)

lemmas driving_rules = driving.always_bind driving.always_pure driving.always_if channel_grows receive_until_grows
  waits_grow issue_grows

lemma ask_grows:
  "(\<And>offset bytes. P (StdinWrite invocation offset bytes)) \<Longrightarrow> driving.always P True (ask react invocation input expected s)"
  unfolding ask_def write_stdin_def await_input_accepted_def Let_def case_prod_unfold by (intro driving_rules)

lemma end_invocation_grows:
  "P command \<Longrightarrow> driving.always P w (end_invocation react invocation command description predicate s)"
  unfolding end_invocation_def live_def expect_def await_exit_def by (intro driving_rules)

text \<open>The commands a step may send.\<close>

fun step_sends :: "WorkloadStep \<Rightarrow> Command \<Rightarrow> bool" where
  "step_sends StepActivate k = (\<exists>peer. k = ActivateOutage peer)"
| "step_sends StepRestore k = (\<exists>peer. k = RestoreNetwork peer)"
| "step_sends (StepStart i) k = (\<exists>launch. k = Start i launch)"
| "step_sends (StepTerminate i) k = (k = Terminate i)"
| "step_sends (StepStdinEof i) k = (k = StdinEof i)"
| "step_sends (StepEcho i) k = (\<exists>offset bytes. k = StdinWrite i offset bytes)"
| "step_sends (StepState i) k = (\<exists>offset bytes. k = StdinWrite i offset bytes)"
| "step_sends (StepSpawnDescendant i) k = (\<exists>offset bytes. k = StdinWrite i offset bytes)"
| "step_sends (StepRequest i index) k = (\<exists>offset bytes. k = StdinWrite i offset bytes)"

lemma drive_step_grows:
  assumes "\<And>k. step_sends step k \<Longrightarrow> P k"
  shows "driving.always P True (drive_step react scenario choices launch step s)"
  using assms unfolding drive_step.simps
  by (cases step; simp only: drive_step.simps Let_def activate_def restore_def expect_def;
      intro driving_rules ask_grows end_invocation_grows; simp)

lemma drive_steps_grows:
  "driving.always (\<lambda>_. True) True (drive_steps react scenario choices launch steps s)"
  by (induction steps arbitrary: s) (simp_all only: drive_steps.simps driving_rules drive_step_grows)

lemma drive_workload_grows: "driving.always (\<lambda>_. True) True (drive_workload react scenario choices launch)"
  unfolding drive_workload_def expect_def restore_def
  by (intro driving_rules drive_steps_grows TrueI)


section \<open>Successful parts\<close>

lemma issue_Inr:
  assumes "WorkloadController_issue react command c = (Inr i, c')"
  shows "i = wc_next_command_id c \<and> folded [] [\<lparr>cf_protocol_version = PROTOCOL_VERSION, cf_command_id = i, cf_command = command\<rparr>] c c'
    \<and> wc_consumed_lines c' = wc_consumed_lines c"
proof -
  let ?frame = "\<lparr>cf_protocol_version = PROTOCOL_VERSION, cf_command_id = wc_next_command_id c, cf_command = command\<rparr>"
  obtain r vm where send: "vm_send react ?frame (wc_vm c) = (r, vm)" by fastforce
  with assms have "r = Inr ()" "i = wc_next_command_id c" "c' = c\<lparr>wc_next_command_id := wc_next_command_id c + 1, wc_vm := vm\<rparr>"
    unfolding issue_run by (auto simp: Let_def split: sum.splits)
  with vm_send_sent [OF send] show ?thesis by (simp add: folded_def)
qed

lemma grows_silent: "grows (\<lambda>_. False) w c c' \<Longrightarrow> \<exists>frames. folded frames [] c c'"
  unfolding grows_def by (metis list.set_intros(1) neq_Nil_conv)

lemma receive_until_Inr:
  "receive_until body c = (Inr x, c') \<Longrightarrow> \<exists>frames frame. folded (frames @ [frame]) [] c c' \<and> body frame c' = Some (Inr x)"
proof (induction body c rule: receive_until.induct)
  case (1 body c)
  obtain r c1 where one: "receive_one c = (r, c1)" by fastforce
  with 1(2) obtain frame where r: "r = Inr frame"
    by (subst (asm) receive_until.simps) (auto split: sum.splits)
  then obtain vm where "c1 = fold_frame frame (c\<lparr>wc_vm := vm\<rparr>)" "vm_sent vm = vm_sent (wc_vm c)"
    "ef_protocol_version frame = PROTOCOL_VERSION" "ef_event_id frame = wc_next_event_id c" "0 < ef_command_id frame"
    "ef_command_id frame < wc_next_command_id c"
    using one sent_unchanged(1) [of "wc_vm c"] by (auto simp: receive_one_def act_bind_Inr on_channel_Inr absorb_Inr)
  then have first: "folded [frame] [] c c1" by (simp add: folded_def fold_frame_def Let_def)
  show ?case
  proof (cases "body frame c1")
    case None
    with 1(2) one r have "receive_until body c1 = (Inr x, c')" by (subst (asm) receive_until.simps) simp
    from 1(1) [OF one [symmetric] r None this] obtain fs f where "folded (fs @ [f]) [] c1 c'" "body f c' = Some (Inr x)" by blast
    with folded_trans [OF first] show ?thesis by (intro exI [of _ "frame # fs"] exI [of _ f]) fastforce
  next
    case (Some q)
    with 1(2) one r have "q = Inr x" "c' = c1" by (subst (asm) receive_until.simps, simp)+
    with first Some show ?thesis by (intro exI [of _ "[]"]) auto
  qed
qed

text \<open>A command whose answer is awaited.\<close>

lemma issue_then:
  assumes "act_bind (WorkloadController_issue react command) f c = (Inr x, c')" "\<And>i. driving.always (\<lambda>_. False) w (f i)"
  shows "\<exists>frames. folded frames [\<lparr>cf_protocol_version = PROTOCOL_VERSION, cf_command_id = wc_next_command_id c, cf_command = command\<rparr>] c c'"
proof -
  from assms(1) obtain i c1 where one: "WorkloadController_issue react command c = (Inr i, c1)" and two: "f i c1 = (Inr x, c')"
    by (auto simp: act_bind_Inr)
  from grows_silent [OF driving.always_run [OF assms(2) two]] obtain frames where "folded frames [] c1 c'" by blast
  with issue_Inr [OF one] folded_trans [of "[]" _ c c1 frames "[]" c'] show ?thesis by auto
qed

section \<open>The outage is always withdrawn\<close>

fun fault_step :: "bool \<Rightarrow> Command \<Rightarrow> bool" where
  "fault_step b (ActivateOutage _) = True"
| "fault_step b (RestoreNetwork _) = False"
| "fault_step b _ = b"

definition outage_after :: "bool \<Rightarrow> CommandFrame list \<Rightarrow> bool" where
  "outage_after b ks = foldl fault_step b (map cf_command ks)"

lemma outage_after_append [simp]: "outage_after b (ks @ ls) = outage_after (outage_after b ks) ls"
  by (simp add: outage_after_def)

lemma outage_after_neutral: "\<forall>k \<in> set ks. \<forall>b. fault_step b (cf_command k) = b \<Longrightarrow> outage_after b ks = b"
  unfolding outage_after_def by (induction ks arbitrary: b) auto

fun step_fault :: "bool \<Rightarrow> WorkloadStep \<Rightarrow> bool" where
  "step_fault b StepActivate = True"
| "step_fault b StepRestore = False"
| "step_fault b _ = b"

lemma stop_if_simps [simp]: "ps_outage_active (stop_if b s) = ps_outage_active s" "ps_stopped (stop_if b s) \<longleftrightarrow> b \<or> ps_stopped s"
  by (simp_all add: stop_if_def)

lemma faults_sent:
  assumes "(if active then activate react p else restore react p) c = (Inr u, c')"
  shows "\<exists>frames k. folded frames [k] c c' \<and> cf_command k = (if active then ActivateOutage p else RestoreNetwork p)"
proof -
  have silent: "driving.always (\<lambda>_. False) False (act_bind (expect i d b q) (\<lambda>_. act_return ()))" for i d b q
    unfolding expect_def by (intro driving_rules)
  from assms issue_then [OF _ silent] show ?thesis
    unfolding activate_def restore_def by (cases active) fastforce+
qed

lemma ask_keeps: "ask react i t e s c = (Inr s', c') \<Longrightarrow> ps_outage_active s' = ps_outage_active s"
  by (auto simp: ask_def act_bind_Inr Let_def split: prod.splits)

lemma end_keeps: "end_invocation react i k t p s c = (Inr s', c') \<Longrightarrow> ps_outage_active s' = ps_outage_active s"
  by (auto simp: end_invocation_def act_bind_Inr split: if_splits)

lemma start_keeps: "drive_step react scenario choices launch (StepStart i) s c = (Inr s', c') \<Longrightarrow> ps_outage_active s' = ps_outage_active s"
  by (auto simp: act_bind_Inr split: if_splits)

lemma drive_step_fault:
  assumes "drive_step react scenario choices launch step s c = (Inr s', c')"
  shows "\<exists>frames ks. folded frames ks c c' \<and> ps_outage_active s' = outage_after (ps_outage_active s) ks
    \<and> ps_outage_active s' = step_fault (ps_outage_active s) step"
proof (cases "step = StepActivate \<or> step = StepRestore")
  case True
  with assms have "(if step = StepActivate then activate react (peer_route scenario) else restore react (peer_route scenario)) c = (Inr (), c')"
    and s': "s' = s\<lparr>ps_outage_active := (step = StepActivate)\<rparr>" by (auto simp: act_bind_Inr)
  from faults_sent [OF this(1)] obtain frames k where "folded frames [k] c c'"
    "cf_command k = (if step = StepActivate then ActivateOutage (peer_route scenario) else RestoreNetwork (peer_route scenario))" by blast
  with True s' show ?thesis by (intro exI [of _ frames] exI [of _ "[k]"]) (auto simp: outage_after_def)
next
  case False
  then have neutral: "fault_step b k = b" if "step_sends step k" for b k
    using that by (cases step) auto
  from driving.always_run [OF drive_step_grows [of step "step_sends step"] assms]
  obtain frames ks where f: "folded frames ks c c'" "\<forall>k \<in> set ks. step_sends step (cf_command k)" unfolding grows_def by blast
  then have "outage_after (ps_outage_active s) ks = ps_outage_active s" using neutral outage_after_neutral by blast
  moreover have "ps_outage_active s' = ps_outage_active s" "step_fault (ps_outage_active s) step = ps_outage_active s"
    using False assms by (cases step; auto simp: Let_def dest: ask_keeps end_keeps start_keeps [simplified])+
  ultimately show ?thesis using f(1) by auto
qed


lemma drive_steps_fault:
  "drive_steps react scenario choices launch steps s c = (Inr s', c') \<Longrightarrow>
     \<exists>frames ks. folded frames ks c c' \<and> ps_outage_active s' = outage_after (ps_outage_active s) ks
       \<and> (\<not> ps_stopped s' \<longrightarrow> ps_outage_active s' = foldl step_fault (ps_outage_active s) steps)"
proof (induction steps arbitrary: s c)
  case Nil
  then show ?case by (intro exI [of _ "[]"]) (auto simp: outage_after_def folded_refl)
next
  case (Cons step steps)
  show ?case
  proof (cases "ps_stopped s")
    case True
    with Cons.prems show ?thesis by (intro exI [of _ "[]"]) (auto simp: outage_after_def folded_refl)
  next
    case False
    with Cons.prems obtain t d where one: "drive_step react scenario choices launch step s c = (Inr t, d)"
      and rest: "drive_steps react scenario choices launch steps t d = (Inr s', c')" by (auto simp: act_bind_Inr)
    from drive_step_fault [OF one] Cons.IH [OF rest] obtain fs ks gs ls where
      "folded fs ks c d" "ps_outage_active t = outage_after (ps_outage_active s) ks"
      "ps_outage_active t = step_fault (ps_outage_active s) step"
      "folded gs ls d c'" "ps_outage_active s' = outage_after (ps_outage_active t) ls"
      "\<not> ps_stopped s' \<longrightarrow> ps_outage_active s' = foldl step_fault (ps_outage_active t) steps" by blast
    then show ?thesis by (intro exI [of _ "fs @ gs"] exI [of _ "ks @ ls"]) (auto intro: folded_trans)
  qed
qed

section \<open>The plan in closed form\<close>

definition planned_at :: "WorkloadChoicePlan \<Rightarrow> nat \<Rightarrow> WorkloadStep list" where
  "planned_at choices i =
     (if i = wp_process_fault_request_index choices
      then [StepSpawnDescendant 1, StepTerminate 1, StepStart 2, StepEcho 2, StepState 2] else [])
     @ (if i = wp_outage_activation_request_index choices then [StepActivate] else [])
     @ (if i = wp_restoration_request_index choices then [StepRestore] else [])
     @ [StepRequest (if i < wp_process_fault_request_index choices then 1 else 2) i]"

lemma plan_requests:
  "foldl (plan_request choices) (steps, 1) [0..<n] =
     (steps @ concat (map (planned_at choices) [0..<n]), if wp_process_fault_request_index choices < n then 2 else 1)"
  by (induction n) (auto simp: plan_request_def planned_at_def Let_def less_Suc_eq)

lemma workload_steps_planned:
  "workload_steps choices = [StepStart 1, StepEcho 1, StepState 1]
     @ concat (map (planned_at choices) [0..<length (wp_requests choices)])
     @ [StepStdinEof (if wp_process_fault_request_index choices < length (wp_requests choices) then 2 else 1)]"
  unfolding workload_steps_def plan_requests by simp

lemma planned_fault:
  assumes "wp_outage_activation_request_index choices \<le> wp_restoration_request_index choices"
  shows "foldl step_fault False (concat (map (planned_at choices) [0..<n]))
    \<longleftrightarrow> wp_outage_activation_request_index choices < n \<and> n \<le> wp_restoration_request_index choices"
  using assms by (induction n) (auto simp: planned_at_def less_Suc_eq)

lemma workload_steps_restore:
  assumes "wp_outage_activation_request_index choices \<le> wp_restoration_request_index choices"
    "wp_restoration_request_index choices < length (wp_requests choices)"
  shows "\<not> foldl step_fault False (workload_steps choices)"
  using planned_fault [OF assms(1), of "length (wp_requests choices)"] assms(2) by (simp add: workload_steps_planned)

section \<open>Completed runs\<close>

lemma finish_folded: "on_channel vm_finish_events c = (Inr u, c') \<Longrightarrow> folded [] [] c c'"
  using sent_unchanged(3) [of "wc_vm c"] by (auto simp: on_channel_Inr folded_def)

lemma issue_expect:
  assumes "WorkloadController_issue react command c = (Inr i, c1)" "expect i description terminal p c1 = (Inr f, c2)"
  shows "\<exists>fs k. folded fs [k] c c2 \<and> cf_command k = command"
proof -
  from receive_until_Inr [OF assms(2) [unfolded expect_def]] obtain fs where fs: "folded fs [] c1 c2" by blast
  let ?k = "\<lparr>cf_protocol_version = PROTOCOL_VERSION, cf_command_id = i, cf_command = command\<rparr>"
  from folded_trans [OF issue_Inr [OF assms(1), THEN conjunct2, THEN conjunct1] fs] have "folded fs [?k] c c2" by simp
  then show ?thesis by fastforce
qed

text \<open>After an early stop the network is restored, and a plan that ran to its end has restored it.\<close>

lemma restored_before_shutdown:
  assumes "(if ps_stopped s \<and> ps_outage_active s then act_bind drain (\<lambda>_. restore react p) else act_return ()) c = (Inr (), c')"
    and "\<not> ps_stopped s \<Longrightarrow> \<not> ps_outage_active s"
  shows "\<exists>fs ks. folded fs ks c c' \<and> \<not> outage_after (ps_outage_active s) ks"
proof (cases "ps_stopped s \<and> ps_outage_active s")
  case True
  with assms(1) obtain d where d: "drain c = (Inr (), d)" "restore react p d = (Inr (), c')" by (auto simp: act_bind_Inr)
  from grows_silent [OF driving.always_run [OF waits_grow(1) d(1)]] obtain gs where gs: "folded gs [] c d" by blast
  from faults_sent [of False react p d "()" c'] d(2) obtain hs k where
    "folded hs [k] d c'" "cf_command k = RestoreNetwork p" by auto
  with folded_trans [OF gs] show ?thesis by (intro exI [of _ "gs @ hs"] exI [of _ "[k]"]) (auto simp: outage_after_def)
next
  case False
  with assms show ?thesis by (intro exI [of _ "[]"]) (auto simp: outage_after_def folded_refl)
qed

lemma drive_workload_Inr:
  assumes "drive_workload react scenario choices launch c = (Inr u, c')"
    and plan: "wp_outage_activation_request_index choices \<le> wp_restoration_request_index choices"
      "wp_restoration_request_index choices < length (wp_requests choices)"
  shows "\<exists>frames stop ks k. folded (frames @ [stop]) (ks @ [k]) c c' \<and> ef_event stop = AgentStopped
    \<and> cf_command k = Shutdown \<and> ef_command_id stop = cf_command_id k \<and> \<not> outage_after False ks"
proof -
  let ?s0 = "\<lparr>ps_offsets = Map.empty, ps_outage_active = False, ps_stopped = False\<rparr>"
  let ?configure = "WorkloadController_issue react (ConfigureNetwork ''eth0'' ''10.0.2.15/24'' (sc_fixture_peer scenario))"
  obtain p where drive: "drive_workload react scenario choices launch =
     act_bind ?configure (\<lambda>configure. act_bind (expect configure ''network-configured'' True p) (\<lambda>_.
     act_bind (drive_steps react scenario choices launch (workload_steps choices) ?s0) (\<lambda>s.
     act_bind (if ps_stopped s \<and> ps_outage_active s
               then act_bind drain (\<lambda>_. restore react (peer_route scenario)) else act_return ()) (\<lambda>_.
     act_bind (WorkloadController_issue react Shutdown) (\<lambda>shutdown.
     act_bind (receive_until (stopped_event shutdown)) (\<lambda>_. on_channel vm_finish_events))))))"
    by (simp only: drive_workload_def)
  from assms(1) [unfolded drive act_bind_Inr] obtain i c1 f c2 s c3 c4 j c5 c6 where
    r1: "?configure c = (Inr i, c1)" and r2: "expect i ''network-configured'' True p c1 = (Inr f, c2)"
    and r3: "drive_steps react scenario choices launch (workload_steps choices) ?s0 c2 = (Inr s, c3)"
    and r4: "(if ps_stopped s \<and> ps_outage_active s then act_bind drain (\<lambda>_. restore react (peer_route scenario)) else act_return ()) c3
      = (Inr (), c4)"
    and r5: "WorkloadController_issue react Shutdown c4 = (Inr j, c5)"
    and r6: "receive_until (stopped_event j) c5 = (Inr (), c6)" and r7: "on_channel vm_finish_events c6 = (Inr u, c')" by auto
  from issue_expect [OF r1 r2] obtain fs1 k1 where
    s1: "folded fs1 [k1] c c2" "cf_command k1 = ConfigureNetwork ''eth0'' ''10.0.2.15/24'' (sc_fixture_peer scenario)" by blast
  from drive_steps_fault [OF r3] obtain fs2 ks2 where s2: "folded fs2 ks2 c2 c3" "ps_outage_active s = outage_after False ks2"
    "\<not> ps_stopped s \<longrightarrow> \<not> ps_outage_active s" using workload_steps_restore [OF plan] by auto
  from restored_before_shutdown [OF r4] s2(3) obtain fs3 ks3 where s3: "folded fs3 ks3 c3 c4" "\<not> outage_after (ps_outage_active s) ks3" by blast
  from receive_until_Inr [OF r6] obtain fs4 stop where s4: "folded (fs4 @ [stop]) [] c5 c6" "stopped_event j stop c6 = Some (Inr ())" by blast
  then have stop: "ef_event stop = AgentStopped" "ef_command_id stop = j" by (auto simp: stopped_event_def split: if_splits)
  let ?k = "\<lparr>cf_protocol_version = PROTOCOL_VERSION, cf_command_id = j, cf_command = Shutdown\<rparr>"
  have "folded ([] @ (fs4 @ [stop]) @ []) ([?k] @ [] @ []) c4 c'"
    using issue_Inr [OF r5] s4(1) finish_folded [OF r7] by (blast intro: folded_trans)
  then have "folded ((fs1 @ fs2 @ fs3 @ fs4) @ [stop]) (([k1] @ ks2 @ ks3) @ [?k]) c c'"
    using folded_trans [OF s1(1) folded_trans [OF s2(1) folded_trans [OF s3(1)]]] by fastforce
  moreover have "\<not> outage_after False ([k1] @ ks2 @ ks3)" using s1(2) s2(2) s3(2) by (simp add: outage_after_def)
  ultimately show ?thesis using stop by (metis CommandFrame.select_convs(2,3))
qed

section \<open>What the driver heard\<close>

text \<open>The lines of an invocation that the driver consumed, of those that it has seen.\<close>

definition heard :: "nat \<Rightarrow> 'g WorkloadController \<Rightarrow> string list" where
  "heard i c = map cl_text (take (consumed_of i c) (stdout_lines (wc_trace c) i))"

definition listening :: "'g WorkloadController \<Rightarrow> bool" where
  "listening c \<longleftrightarrow> keyed (wc_trace c) \<and> (\<forall>i. consumed_of i c \<le> stdout_line_count (wc_trace c) i)"

lemma grows_trace: "grows P w c c' \<Longrightarrow> \<exists>fs. wc_trace c' = foldl WorkloadTrace_push (wc_trace c) fs"
  by (auto simp: grows_def folded_def)

lemma grows_heard:
  assumes "listening c" "grows P False c c'"
  shows "listening c' \<and> heard i c' = heard i c"
proof -
  from grows_trace [OF assms(2)] obtain fs where fs: "wc_trace c' = foldl WorkloadTrace_push (wc_trace c) fs" by blast
  have same: "consumed_of j c' = consumed_of j c" for j using assms(2) by (simp add: grows_def consumed_of_def)
  have more: "\<exists>more. stdout_lines (wc_trace c') j = stdout_lines (wc_trace c) j @ more" for j
    using pushes_lines assms(1) unfolding fs listening_def by blast
  have bound: "consumed_of j c \<le> length (stdout_lines (wc_trace c) j)" for j
    using assms(1) by (simp add: listening_def stdout_line_count_def)
  have "keyed (wc_trace c')" using pushes_lines assms(1) unfolding fs listening_def by blast
  moreover have "consumed_of j c' \<le> stdout_line_count (wc_trace c') j" for j
    using more [of j] bound [of j] by (auto simp: stdout_line_count_def same)
  moreover have "heard i c' = heard i c" using more [of i] bound [of i] by (auto simp: heard_def same)
  ultimately show ?thesis by (simp add: listening_def)
qed

lemma wait_heard:
  "wait_for_line j line c = (Inr True, c') \<Longrightarrow> listening c \<Longrightarrow>
     listening c' \<and> heard i c' = heard i c @ (if i = j then [line] else [])"
proof (induction j line c rule: wait_for_line.induct)
  case (1 j line c)
  let ?n = "consumed_of j c" and ?lines = "stdout_lines (wc_trace c) j"
  have ok: "healthy j c" using 1(2) by (subst (asm) wait_for_line.simps) (auto split: if_splits)
  show ?case
  proof (cases "?n < stdout_line_count (wc_trace c) j")
    case True
    with 1(2) ok have c': "c' = c\<lparr>wc_consumed_lines := (wc_consumed_lines c)(j \<mapsto> ?n + 1)\<rparr>"
      and line: "stdout_line (wc_trace c) j ?n = Some line"
      by (subst (asm) wait_for_line.simps, auto simp: Let_def split: if_splits)+
    have consumed: "consumed_of k c' = (if k = j then ?n + 1 else consumed_of k c)" for k by (simp add: c' consumed_of_def)
    have "take (?n + 1) ?lines = take ?n ?lines @ [?lines ! ?n]" "cl_text (?lines ! ?n) = line"
      using True line by (auto simp: stdout_line_count_def stdout_line_def take_Suc_conv_app_nth split: if_splits)
    then have "heard i c' = heard i c @ (if i = j then [line] else [])"
      by (simp add: heard_def consumed) (simp add: c')
    moreover have "listening c'" using 1(3) True by (auto simp: listening_def consumed) (simp_all add: c')
    ultimately show ?thesis by simp
  next
    case False
    with 1(2) ok obtain f c1 where one: "receive_one c = (Inr f, c1)" and rest: "wait_for_line j line c1 = (Inr True, c')"
      and live: "\<not> (exited (wc_trace c) j \<or> launch_failed (wc_trace c) j)"
      by (subst (asm) wait_for_line.simps) (auto simp: Let_def split: if_splits prod.splits sum.splits)
    from driving.always_run [OF receive_one_grows one, of "\<lambda>_. True" False] have "grows (\<lambda>_. True) False c c1" .
    from grows_heard [OF 1(3) this] have "listening c1" "heard i c1 = heard i c" by auto
    with 1(1) [OF _ refl False live one [symmetric] refl rest] ok show ?thesis by simp
  qed
qed

text \<open>The lines that a step waits for.\<close>

fun awaited :: "WorkloadChoicePlan \<Rightarrow> WorkloadStep \<Rightarrow> (nat \<times> string) list" where
  "awaited choices (StepStart i) = [(i, READY_LINE)]"
| "awaited choices (StepEcho i) = [(i, ''echo value='' @ echo_token (wp_seed choices) i)]"
| "awaited choices (StepState i) = [(i, FRESH_STATE_LINE)]"
| "awaited choices (StepSpawnDescendant i) = [(i, ESCAPED_DESCENDANT_LINE)]"
| "awaited choices (StepRequest i index) = [(i, network_lines choices ! index)]"
| "awaited choices _ = []"

definition lines_for :: "nat \<Rightarrow> (nat \<times> string) list \<Rightarrow> string list" where
  "lines_for i xs = map snd (filter (\<lambda>(j, _). j = i) xs)"

lemma lines_for_append [simp]: "lines_for i (xs @ ys) = lines_for i xs @ lines_for i ys" "lines_for i [] = []"
  by (simp_all add: lines_for_def)

lemma ask_heard:
  assumes "ask react j input line s c = (Inr s', c')" "\<not> ps_stopped s'" "listening c"
  shows "listening c' \<and> heard i c' = heard i c @ lines_for i [(j, line)]"
proof -
  have silent: "driving.always (\<lambda>_. True) False (write_stdin react j offset input)" for offset
    unfolding write_stdin_def await_input_accepted_def by (intro driving_rules) simp
  from assms(1,2) obtain offset c1 where one: "write_stdin react j (offset_of s j) input c = (Inr (True, offset), c1)"
    and wait: "wait_for_line j line c1 = (Inr True, c')"
    by (auto simp: ask_def act_bind_Inr Let_def split: prod.splits if_splits)
  from grows_heard [OF assms(3) driving.always_run [OF silent one]] have "listening c1" "heard i c1 = heard i c" by auto
  with wait_heard [OF wait, of i] show ?thesis by (simp add: lines_for_def)
qed


lemma start_heard:
  assumes "drive_step react scenario choices launch (StepStart j) s c = (Inr s', c')" "\<not> ps_stopped s'" "listening c"
  shows "listening c' \<and> heard i c' = heard i c @ lines_for i (awaited choices (StepStart j))"
proof -
  let ?p = "\<lambda>event. case event of WorkloadStarted _ _ \<Rightarrow> True | LaunchFailed _ _ _ \<Rightarrow> True | _ \<Rightarrow> False"
  let ?launching = "act_bind (WorkloadController_issue react (Start j launch)) (\<lambda>command. expect command ''workload-started'' False ?p)"
  have silent: "driving.always (\<lambda>_. True) False ?launching"
    unfolding expect_def by (intro driving_rules) simp
  from assms(1,2) obtain f c1 where one: "?launching c = (Inr f, c1)" and wait: "wait_for_line j READY_LINE c1 = (Inr True, c')"
    by (auto simp: act_bind_Inr)
  from grows_heard [OF assms(3) driving.always_run [OF silent one]] have "listening c1" "heard i c1 = heard i c" by auto
  with wait_heard [OF wait, of i] show ?thesis by (simp add: lines_for_def)
qed

lemma quiet_heard:
  assumes "drive_step react scenario choices launch step s c = (Inr s', c')" "listening c"
    "step \<in> {StepActivate, StepRestore} \<union> range StepTerminate \<union> range StepStdinEof"
  shows "listening c' \<and> heard i c' = heard i c"
proof -
  have "driving.always (\<lambda>_. True) False (drive_step react scenario choices launch step s)"
    using assms(3) by (auto simp only: drive_step.simps activate_def restore_def expect_def Un_iff insert_iff empty_iff image_iff
        intro!: driving_rules end_invocation_grows)
  from grows_heard [OF assms(2) driving.always_run [OF this assms(1)]] show ?thesis by simp
qed

lemma drive_step_heard:
  assumes "drive_step react scenario choices launch step s c = (Inr s', c')" "\<not> ps_stopped s'" "listening c"
    "\<And>j index. step = StepRequest j index \<Longrightarrow> index < length (wp_requests choices)"
  shows "listening c' \<and> heard i c' = heard i c @ lines_for i (awaited choices step)"
proof (cases step)
  case (StepStart j)
  with start_heard assms(1-3) show ?thesis by blast
next
  case (StepRequest j index)
  with assms(4) have "network_lines choices ! index = expected_network_line (wp_requests choices ! index)
    (request_phase index (wp_outage_activation_request_index choices) (wp_restoration_request_index choices))"
    by (simp add: network_lines_def)
  with assms(1-3) StepRequest show ?thesis by (auto simp: Let_def dest: ask_heard)
next
  case (StepTerminate j)
  with quiet_heard [OF assms(1,3)] show ?thesis by simp
next
  case (StepStdinEof j)
  with quiet_heard [OF assms(1,3)] show ?thesis by simp
qed (use assms(1-3) quiet_heard [OF assms(1,3)] in \<open>auto simp: Let_def dest: ask_heard\<close>)

lemma drive_steps_heard:
  assumes "drive_steps react scenario choices launch steps s c = (Inr s', c')" "\<not> ps_stopped s'" "listening c"
    "\<And>j index. StepRequest j index \<in> set steps \<Longrightarrow> index < length (wp_requests choices)"
  shows "listening c' \<and> heard i c' = heard i c @ lines_for i (concat (map (awaited choices) steps))"
  using assms
proof (induction steps arbitrary: s c)
  case (Cons step steps)
  show ?case
  proof (cases "ps_stopped s")
    case True
    with Cons.prems show ?thesis by simp
  next
    case False
    with Cons.prems(1) obtain t d where one: "drive_step react scenario choices launch step s c = (Inr t, d)"
      and rest: "drive_steps react scenario choices launch steps t d = (Inr s', c')" by (auto simp: act_bind_Inr)
    have running: "\<not> ps_stopped t"
    proof
      assume "ps_stopped t"
      with rest have "s' = t" by (cases steps) auto
      with \<open>ps_stopped t\<close> Cons.prems(2) show False by simp
    qed
    from drive_step_heard [OF one running Cons.prems(3)] Cons.prems(4)
    have "listening d" "heard i d = heard i c @ lines_for i (awaited choices step)" by auto
    with Cons.IH [OF rest Cons.prems(2)] Cons.prems(4) show ?thesis by auto
  qed
qed simp

section \<open>The plan and the checker agree\<close>

lemma planned_lines:
  assumes "wp_process_fault_request_index choices = pf"
  shows "lines_for 1 (concat (map (awaited choices) (concat (map (planned_at choices) [0..<n]))))
      = map ((!) (network_lines choices)) [0..<min n pf] @ (if pf < n then [ESCAPED_DESCENDANT_LINE] else [])"
    and "lines_for 2 (concat (map (awaited choices) (concat (map (planned_at choices) [0..<n]))))
      = (if pf < n then [READY_LINE, ''echo value='' @ echo_token (wp_seed choices) 2, FRESH_STATE_LINE]
           @ map ((!) (network_lines choices)) [pf..<n] else [])"
  using assms by (induction n) (auto simp: planned_at_def lines_for_def less_Suc_eq min_def)

lemma workload_steps_expected:
  assumes "wp_process_fault_request_index choices < length (wp_requests choices)" "i \<in> {1, 2}"
  shows "lines_for i (concat (map (awaited choices) (workload_steps choices))) = expected_lines choices i"
proof -
  let ?n = "length (wp_requests choices)" and ?pf = "wp_process_fault_request_index choices"
  have len: "length (network_lines choices) = ?n" by (simp add: network_lines_def)
  have "map ((!) (network_lines choices)) [0..<?pf] = take ?pf (network_lines choices)"
    "map ((!) (network_lines choices)) [?pf..<?n] = drop ?pf (network_lines choices)"
    using assms(1) len by (auto intro!: nth_equalityI)
  with assms planned_lines [OF refl, of choices ?n] show ?thesis
    by (auto simp: workload_steps_planned expected_lines_def lines_for_def)
qed

section \<open>Replays of a recorded stream\<close>

definition arriving :: "'g vm \<Rightarrow> arrival list" where
  "arriving vm = filter (\<lambda>a. a \<noteq> Pause) (vm_inbox vm)"

lemma recv_timeout_arriving:
  "recv_timeout xs = (Some x, rest) \<Longrightarrow> filter (\<lambda>a. a \<noteq> Pause) xs = x # filter (\<lambda>a. a \<noteq> Pause) rest"
  "recv_timeout xs = (None, rest) \<Longrightarrow> filter (\<lambda>a. a \<noteq> Pause) xs = []"
  by (induction xs rule: recv_timeout.induct) auto

lemma vm_receive_arriving: "vm_receive vm = (Inr f, vm') \<Longrightarrow> arriving vm = Arrived f # arriving vm'"
  by (auto simp: vm_receive_def arriving_def Let_def dest: recv_timeout_arriving split: prod.splits option.splits arrival.splits)

lemma vm_receive_next:
  assumes "arriving vm = Arrived f # ys"
  obtains vm' where "vm_receive vm = (Inr f, vm')" "arriving vm' = ys"
proof -
  obtain x rest where r: "recv_timeout (vm_inbox vm) = (x, rest)" by fastforce
  with assms recv_timeout_arriving [of "vm_inbox vm"] have "x = Some (Arrived f)" "filter (\<lambda>a. a \<noteq> Pause) rest = ys"
    by (cases x; fastforce simp: arriving_def)+
  with r that show thesis by (simp add: vm_receive_def arriving_def)
qed

lemma vm_finish_arriving: "(\<exists>vm'. vm_finish_events vm = (Inr (), vm')) \<longleftrightarrow> (\<exists>ys. arriving vm = Ended # ys)"
proof -
  obtain x rest where r: "recv_timeout (vm_inbox vm) = (x, rest)" by fastforce
  with recv_timeout_arriving [of "vm_inbox vm"] show ?thesis
    by (cases x) (auto simp: vm_finish_events_def arriving_def Let_def split: arrival.splits)
qed

lemma replay_event_Inr:
  "replay_event x s = (Inr f, s') \<longleftrightarrow> (\<exists>vm. vm_receive (rs_vm s) = (Inr f, vm)
     \<and> s' = s\<lparr>rs_vm := vm, rs_diagnostics := observe (snd x) (rs_diagnostics s)\<rparr>
     \<and> ef_protocol_version f = PROTOCOL_VERSION \<and> EventFrame_normalize f = snd x)"
  by (cases x) (auto simp: replay_event_def act_bind_Inr on_replay_vm_def Let_def EventFrame_normalize_def split: prod.splits)

lemma replay_each_arriving:
  "replay_each xs s = (Inr fs, s') \<Longrightarrow> map EventFrame_normalize fs = map snd xs
     \<and> list_all (\<lambda>f. ef_protocol_version f = PROTOCOL_VERSION) fs \<and> arriving (rs_vm s) = map Arrived fs @ arriving (rs_vm s')"
  by (induction xs arbitrary: s fs) (fastforce simp: act_bind_Inr replay_event_Inr dest: vm_receive_arriving)+

lemma replay_each_runs:
  assumes "map EventFrame_normalize fs = map snd xs" "list_all (\<lambda>f. ef_protocol_version f = PROTOCOL_VERSION) fs"
    "arriving (rs_vm s) = map Arrived fs @ ys"
  shows "\<exists>s'. replay_each xs s = (Inr fs, s') \<and> arriving (rs_vm s') = ys"
  using assms
proof (induction xs arbitrary: s fs)
  case (Cons x xs)
  then obtain f gs where fs: "fs = f # gs" by (cases fs) auto
  with Cons.prems(3) obtain vm where vm: "vm_receive (rs_vm s) = (Inr f, vm)" "arriving vm = map Arrived gs @ ys"
    using vm_receive_next [of "rs_vm s" f "map Arrived gs @ ys"] by auto
  let ?s = "s\<lparr>rs_vm := vm, rs_diagnostics := observe (snd x) (rs_diagnostics s)\<rparr>"
  from Cons.IH [of gs ?s] Cons.prems vm(2) fs obtain s' where "replay_each xs ?s = (Inr gs, s')" "arriving (rs_vm s') = ys" by auto
  moreover have "replay_event x s = (Inr f, ?s)" using vm(1) Cons.prems(1,2) fs by (simp add: replay_event_Inr)
  ultimately show ?case by (auto simp: fs act_bind_Inr)
qed simp

lemma on_replay_vm_Inr: "on_replay_vm a s = (Inr x, s') \<longleftrightarrow> (\<exists>vm. a (rs_vm s) = (Inr x, vm) \<and> s' = s\<lparr>rs_vm := vm\<rparr>)"
  by (auto simp: on_replay_vm_def Let_def split: prod.splits)

lemma replay_exact:
  "(\<exists>s'. replay_workload_events expected s = (Inr frames, s')) \<longleftrightarrow>
     expected \<noteq> [] \<and> ne_event (last expected) = AgentStopped \<and> map EventFrame_normalize frames = expected
     \<and> list_all (\<lambda>e. ne_protocol_version e = PROTOCOL_VERSION) expected
     \<and> (\<exists>rest. filter (\<lambda>a. a \<noteq> Pause) (vm_inbox (rs_vm s)) = map Arrived frames @ Ended # rest)"
  (is "?run \<longleftrightarrow> ?ok")
proof
  have version: "list_all (\<lambda>e. ne_protocol_version e = PROTOCOL_VERSION) (map EventFrame_normalize fs)
      \<longleftrightarrow> list_all (\<lambda>f. ef_protocol_version f = PROTOCOL_VERSION) fs" for fs
    by (induction fs) (simp_all add: EventFrame_normalize_def)
  assume ?run
  then obtain s1 vm where "expected \<noteq> []" "ne_event (last expected) = AgentStopped"
    "replay_each (enumerate 0 expected) s = (Inr frames, s1)" "vm_finish_events (rs_vm s1) = (Inr (), vm)"
    by (auto simp: replay_workload_events_def act_bind_Inr on_replay_vm_Inr split: if_splits)
  with replay_each_arriving [OF this(3)] vm_finish_arriving [of "rs_vm s1"] version [of frames] show ?ok
    by (auto simp: arriving_def [symmetric])
next
  assume ok: ?ok
  then have "list_all (\<lambda>f. ef_protocol_version f = PROTOCOL_VERSION) frames"
    by (auto simp: list_all_iff EventFrame_normalize_def)
  moreover from ok obtain rest where "arriving (rs_vm s) = map Arrived frames @ Ended # rest" by (auto simp: arriving_def)
  ultimately obtain s1 where each: "replay_each (enumerate 0 expected) s = (Inr frames, s1)" "arriving (rs_vm s1) = Ended # rest"
    using replay_each_runs [of frames "enumerate 0 expected" s "Ended # rest"] ok by auto
  from vm_finish_arriving [of "rs_vm s1"] each(2) obtain vm where "vm_finish_events (rs_vm s1) = (Inr (), vm)" by blast
  with each(1) ok show ?run
    by (intro exI [of _ "s1\<lparr>rs_vm := vm\<rparr>"]) (auto simp: replay_workload_events_def act_bind_Inr on_replay_vm_Inr)
qed


section \<open>Properties\<close>

text \<open>
  C16. Whatever the outcome of a workload run, an error included: the normalized events are those of
  the raw ones, the trace is the fold of the raw events, their identifiers count from one without a
  gap, every event names the protocol version and a command that was issued before, and the
  identifiers of the commands sent increase strictly.
\<close>

theorem workload_run_consistent:
  "let c = snd (drive_workload_scenario sha react scenario choices launch vm diagnostics) in
    wc_events c = map EventFrame_normalize (wc_raw_events c) \<and> wc_trace c = trace_of (wc_raw_events c)
    \<and> map ef_event_id (wc_raw_events c) = [1..<length (wc_raw_events c) + 1]
    \<and> list_all (\<lambda>f. ef_protocol_version f = PROTOCOL_VERSION \<and> 0 < ef_command_id f \<and> ef_command_id f < wc_next_command_id c)
        (wc_raw_events c)
    \<and> (\<exists>commands. vm_sent (wc_vm c) = vm_sent vm @ commands \<and> sorted_wrt (<) (map cf_command_id commands)
        \<and> list_all (\<lambda>k. 1 \<le> cf_command_id k \<and> cf_command_id k < wc_next_command_id c) commands)"
proof -
  have "driving.always (\<lambda>_. True) True (act_bind (drive_workload react scenario choices launch) (\<lambda>_.
      act_bind act_get (\<lambda>c. act_return (wc_events c, evaluate_workload sha (wc_raw_events c) scenario choices launch))))"
    by (intro driving_rules drive_workload_grows)
  then have "grows (\<lambda>_. True) True (WorkloadController_new vm diagnostics)
      (snd (drive_workload_scenario sha react scenario choices launch vm diagnostics))"
    unfolding drive_workload_scenario_def by (simp add: driving.always_def)
  then show ?thesis
    by (auto simp: Let_def grows_def folded_def WorkloadController_new_def trace_of_def list_all_iff)
qed

text \<open>
  C15. A workload run that completes: its report is the evaluation of the events it kept; the last of
  them is the agent's stop, in answer to the last command, the shutdown; and whether or not the
  driver stopped early, the outage is not in force when the shutdown is sent.
\<close>

theorem workload_run_completed:
  assumes "drive_workload_scenario sha react scenario choices launch vm diagnostics = (Inr (events, report), c)"
    and "wp_outage_activation_request_index choices \<le> wp_restoration_request_index choices"
    and "wp_restoration_request_index choices < length (wp_requests choices)"
  shows "\<exists>frames stop ks k. events = map EventFrame_normalize (frames @ [stop])
    \<and> report = evaluate_workload sha (frames @ [stop]) scenario choices launch
    \<and> vm_sent (wc_vm c) = vm_sent vm @ ks @ [k] \<and> cf_command k = Shutdown
    \<and> ef_event stop = AgentStopped \<and> ef_command_id stop = cf_command_id k \<and> \<not> outage_after False ks"
proof -
  from assms(1) have run: "drive_workload react scenario choices launch (WorkloadController_new vm diagnostics) = (Inr (), c)"
    and out: "events = wc_events c" "report = evaluate_workload sha (wc_raw_events c) scenario choices launch"
    by (auto simp: drive_workload_scenario_def act_bind_Inr)
  from drive_workload_Inr [OF run assms(2,3)] obtain frames stop ks k where
    "folded (frames @ [stop]) (ks @ [k]) (WorkloadController_new vm diagnostics) c" "ef_event stop = AgentStopped"
    "cf_command k = Shutdown" "ef_command_id stop = cf_command_id k" "\<not> outage_after False ks" by blast
  with out show ?thesis
    by (intro exI [of _ frames] exI [of _ stop] exI [of _ ks] exI [of _ k]) (simp add: folded_def WorkloadController_new_def)
qed

text \<open>
  A driver that ran its whole plan without stopping has seen, in the order of the standard output
  of both invocations, exactly the lines that the checker expects.
\<close>

theorem driver_hears_expected_lines:
  assumes "drive_steps react scenario choices launch (workload_steps choices) s c = (Inr s', c')" "\<not> ps_stopped s'"
    and "wc_trace c = trace_of []" "wc_consumed_lines c = Map.empty"
    and "wp_process_fault_request_index choices < length (wp_requests choices)" "i \<in> {1, 2}" "n < length (expected_lines choices i)"
  shows "stdout_line (wc_trace c') i n = Some (expected_lines choices i ! n)"
proof -
  have start: "listening c" "heard i c = []"
    by (simp_all add: listening_def heard_def consumed_of_def assms(3,4) trace_of_def WorkloadTrace_default_def keyed_def)
  have "index < length (wp_requests choices)" if "StepRequest j index \<in> set (workload_steps choices)" for j index
    using that by (auto simp: workload_steps_planned planned_at_def split: if_splits)
  from drive_steps_heard [OF assms(1,2) start(1) this] start(2) workload_steps_expected [OF assms(5,6)]
  have "heard i c' = expected_lines choices i" by simp
  then have lines: "map cl_text (take (consumed_of i c') (stdout_lines (wc_trace c') i)) = expected_lines choices i"
    by (simp add: heard_def)
  with assms(7) have "n < length (take (consumed_of i c') (stdout_lines (wc_trace c') i))" by (metis length_map)
  with arg_cong [OF lines, of "\<lambda>xs. xs ! n"] show ?thesis by (simp add: stdout_line_def)
qed

text \<open>
  C37. The replay of a recorded workload stream completes exactly when the recording ends with the
  agent's stop and is in the protocol's version, the frames that arrive normalize to it, one by
  one, and the channel then reports its end.
\<close>

theorem replay_workload_events_exact:
  "(\<exists>s'. replay_workload_events expected s = (Inr frames, s')) \<longleftrightarrow>
     expected \<noteq> [] \<and> ne_event (last expected) = AgentStopped \<and> map EventFrame_normalize frames = expected
     \<and> list_all (\<lambda>e. ne_protocol_version e = PROTOCOL_VERSION) expected
     \<and> (\<exists>rest. filter (\<lambda>a. a \<noteq> Pause) (vm_inbox (rs_vm s)) = map Arrived frames @ Ended # rest)"
  by (rule replay_exact)

lemma evaluate_workload_recorded:
  "evaluate_workload sha (map recorded_frame (map EventFrame_normalize frames)) scenario choices launch
   = evaluate_workload sha frames scenario choices launch"
proof -
  have "foldl WorkloadTrace_push t (map recorded_frame (map EventFrame_normalize frames)) = foldl WorkloadTrace_push t frames" for t
    by (induction frames arbitrary: t) (simp_all add: WorkloadTrace_push_def recorded_frame_def EventFrame_normalize_def)
  then show ?thesis by (simp only: evaluate_workload_def)
qed

text \<open>
  C14. Every workload recording that completed can be replayed: when the recorded events arrive
  again, whatever their diagnostics and however the channel pauses, the replay completes, and the
  report over what arrived, and the one over the frames rebuilt from the recording, are the
  recorded report.
\<close>

theorem workload_recording_replays:
  assumes recorded: "drive_workload_scenario sha react scenario choices launch vm diagnostics = (Inr (events, report), c)"
    and plan: "wp_outage_activation_request_index choices \<le> wp_restoration_request_index choices"
      "wp_restoration_request_index choices < length (wp_requests choices)"
    and same: "map EventFrame_normalize frames = events"
    and inbox: "filter (\<lambda>a. a \<noteq> Pause) (vm_inbox (rs_vm s)) = map Arrived frames @ [Ended]"
  shows "(\<exists>s'. replay_workload_events events s = (Inr frames, s'))
    \<and> evaluate_workload sha frames scenario choices launch = report
    \<and> evaluate_workload sha (map recorded_frame events) scenario choices launch = report"
proof -
  from recorded have run: "drive_workload react scenario choices launch (WorkloadController_new vm diagnostics) = (Inr (), c)"
    and out: "events = wc_events c" "report = evaluate_workload sha (wc_raw_events c) scenario choices launch"
    by (auto simp: drive_workload_scenario_def act_bind_Inr)
  from drive_workload_Inr [OF run plan] obtain fs stop ks k where
    f: "folded (fs @ [stop]) (ks @ [k]) (WorkloadController_new vm diagnostics) c" "ef_event stop = AgentStopped" by blast
  then have raw: "wc_raw_events c = fs @ [stop]" "events = map EventFrame_normalize (fs @ [stop])"
    and version: "\<forall>g \<in> set (fs @ [stop]). ef_protocol_version g = PROTOCOL_VERSION"
    using out(1) by (auto simp: folded_def WorkloadController_new_def)
  have "events \<noteq> []" "ne_event (last events) = AgentStopped" "list_all (\<lambda>e. ne_protocol_version e = PROTOCOL_VERSION) events"
    using raw(2) f(2) version by (simp_all add: EventFrame_normalize_def list_all_iff)
  with replay_exact [of events s frames] same inbox have "\<exists>s'. replay_workload_events events s = (Inr frames, s')" by auto
  moreover have "evaluate_workload sha frames scenario choices launch = report"
    "evaluate_workload sha (map recorded_frame events) scenario choices launch = report"
    using evaluate_workload_recorded [of sha frames] evaluate_workload_recorded [of sha "fs @ [stop]"] same raw out(2) by simp_all
  ultimately show ?thesis by blast
qed

section \<open>A run that stops early\<close>

text \<open>The guest refuses to launch: the driver stops, and shuts the agent down.\<close>

definition refusing_vm :: "arrival list list vm" where
  "refusing_vm = \<lparr>vm_guest = [[Arrived (sample_frame 1 1 (NetworkConfigured ''eth0'' ''10.0.2.15/24'' ''10.0.2.2''))],
       [Arrived (sample_frame 2 2 (LaunchFailed 1 Executable ''missing''))],
       [Pause, Arrived (sample_frame 3 3 AgentStopped), Ended]], vm_inbox = [], vm_sent = []\<rparr>"

definition refused_events :: "NormalizedEvent list" where
  "refused_events = map EventFrame_normalize
     [sample_frame 1 1 (NetworkConfigured ''eth0'' ''10.0.2.15/24'' ''10.0.2.2''),
      sample_frame 2 2 (LaunchFailed 1 Executable ''missing''), sample_frame 3 3 AgentStopped]"

lemma refused_run:
  "map_prod id wc_events (drive_workload scripted sample_scenario sample_choices sample_launch
     (WorkloadController_new refusing_vm (FailureDiagnostics_new ''record''))) = (Inr (), refused_events)"
  by code_simp

lemma refused_scenario:
  obtains c where "drive_workload_scenario (\<lambda>bs. bs) scripted sample_scenario sample_choices sample_launch refusing_vm
     (FailureDiagnostics_new ''record'') = (Inr (refused_events, evaluate_workload (\<lambda>bs. bs) (wc_raw_events c)
       sample_scenario sample_choices sample_launch), c)"
proof -
  from refused_run obtain c where "drive_workload scripted sample_scenario sample_choices sample_launch
     (WorkloadController_new refusing_vm (FailureDiagnostics_new ''record'')) = (Inr (), c)" "wc_events c = refused_events"
    by (auto simp: map_prod_def split: prod.splits)
  then show thesis by (intro that) (simp add: drive_workload_scenario_def)
qed

lemma sample_choices_ordered:
  "wp_outage_activation_request_index sample_choices \<le> wp_restoration_request_index sample_choices"
  "wp_restoration_request_index sample_choices < length (wp_requests sample_choices)"
  by (simp_all add: sample_choices_def)

theorem workload_run_completed_witness:
  "\<exists>events report c (stop :: EventFrame) ks k. drive_workload_scenario (\<lambda>bs. bs) scripted sample_scenario sample_choices sample_launch refusing_vm
       (FailureDiagnostics_new ''record'') = (Inr (events, report), c)
     \<and> vm_sent (wc_vm c) = ks @ [k] \<and> cf_command k = Shutdown \<and> ef_event stop = AgentStopped
     \<and> ef_command_id stop = cf_command_id k \<and> \<not> outage_after False ks"
proof -
  obtain c report where run: "drive_workload_scenario (\<lambda>bs. bs) scripted sample_scenario sample_choices sample_launch refusing_vm
     (FailureDiagnostics_new ''record'') = (Inr (refused_events, report), c)" by (rule refused_scenario)
  from workload_run_completed [OF run sample_choices_ordered] obtain frames and stop :: EventFrame and ks k where
    "vm_sent (wc_vm c) = vm_sent refusing_vm @ ks @ [k]" and did: "cf_command k = Shutdown" "ef_event stop = AgentStopped"
    "ef_command_id stop = cf_command_id k" "\<not> outage_after False ks" by blast
  then have "vm_sent (wc_vm c) = ks @ [k]" by (simp add: refusing_vm_def)
  with did run show ?thesis by blast
qed

theorem workload_recording_replays_witness:
  "\<exists>events report c s'. drive_workload_scenario (\<lambda>bs. bs) scripted sample_scenario sample_choices sample_launch refusing_vm
       (FailureDiagnostics_new ''record'') = (Inr (events, report), c)
     \<and> replay_workload_events events \<lparr>rs_vm = \<lparr>vm_guest = (), vm_inbox = Pause # map Arrived (map recorded_frame events) @ [Ended], vm_sent = []\<rparr>,
         rs_diagnostics = FailureDiagnostics_new ''replay''\<rparr> = (Inr (map recorded_frame events), s')"
proof -
  obtain c report where run: "drive_workload_scenario (\<lambda>bs. bs) scripted sample_scenario sample_choices sample_launch refusing_vm
     (FailureDiagnostics_new ''record'') = (Inr (refused_events, report), c)" by (rule refused_scenario)
  let ?s = "\<lparr>rs_vm = \<lparr>vm_guest = (), vm_inbox = Pause # map Arrived (map recorded_frame refused_events) @ [Ended], vm_sent = []\<rparr>,
    rs_diagnostics = FailureDiagnostics_new ''replay''\<rparr>"
  have "map EventFrame_normalize (map recorded_frame refused_events) = refused_events" by (simp add: comp_def)
  from workload_recording_replays [OF run sample_choices_ordered this, of ?s] run show ?thesis by auto
qed

end
