(* ===== verification/Loop.thy ===== *)
theory Loop
  imports Action "HOL-Library.While_Combinator"
begin

text \<open>
  Loops that retry an operating system call until it settles: one turn of the body either asks for
  another turn or finishes. A loop that never finishes is the value \<open>hung\<close>, so that every theorem
  about a loop also speaks of the runs in which it does not return.
\<close>

datatype ('a, 'b) turn = Again 'a | Done 'b

fun turning :: "('e + ('a, 'b) turn) \<times> 's \<Rightarrow> bool" where
  "turning (Inr (Again a), s) = True"
| "turning _ = False"

fun turn_once :: "('a \<Rightarrow> ('s, 'e, ('a, 'b) turn) action) \<Rightarrow> ('e + ('a, 'b) turn) \<times> 's \<Rightarrow> ('e + ('a, 'b) turn) \<times> 's" where
  "turn_once body (Inr (Again a), s) = body a s"
| "turn_once body r = r"

fun loop_result :: "'e \<Rightarrow> 's \<Rightarrow> (('e + ('a, 'b) turn) \<times> 's) option \<Rightarrow> ('e + 'b) \<times> 's" where
  "loop_result hung s (Some (Inr (Done b), s')) = (Inr b, s')"
| "loop_result hung s (Some (Inl e, s')) = (Inl e, s')"
| "loop_result hung s _ = (Inl hung, s)"

definition act_loop :: "'e \<Rightarrow> ('a \<Rightarrow> ('s, 'e, ('a, 'b) turn) action) \<Rightarrow> 'a \<Rightarrow> ('s, 'e, 'b) action" where
  "act_loop hung body a s = loop_result hung s (while_option turning (turn_once body) (Inr (Again a), s))"

section \<open>Runs of a loop\<close>

inductive loop_runs :: "('a \<Rightarrow> ('s, 'e, ('a, 'b) turn) action) \<Rightarrow> 'a \<Rightarrow> 's \<Rightarrow> 'e + 'b \<Rightarrow> 's \<Rightarrow> bool" for body where
  loop_done: "body a s = (Inr (Done b), s') \<Longrightarrow> loop_runs body a s (Inr b) s'"
| loop_fail: "body a s = (Inl e, s') \<Longrightarrow> loop_runs body a s (Inl e) s'"
| loop_again: "body a s = (Inr (Again a'), s') \<Longrightarrow> loop_runs body a' s' r t \<Longrightarrow> loop_runs body a s r t"

lemma while_turn:
  "while_option turning (turn_once body) (Inr (Again a), s) = while_option turning (turn_once body) (body a s)"
  by (subst while_option_unfold) simp

lemma while_stop: "\<not> turning r \<Longrightarrow> while_option turning (turn_once body) r = Some r"
  by (subst while_option_unfold) simp

lemma loop_runs_while:
  assumes "loop_runs body a s r t"
  shows "\<exists>y. while_option turning (turn_once body) (Inr (Again a), s) = Some y \<and> loop_result hung s0 (Some y) = (r, t)"
  using assms
proof (induction rule: loop_runs.induct)
  case (loop_done a s b s')
  then show ?case by (simp add: while_turn while_stop)
next
  case (loop_fail a s e s')
  then show ?case by (simp add: while_turn while_stop)
next
  case (loop_again a s a' s' r t)
  then show ?case by (simp add: while_turn [of body a s])
qed

lemma act_loop_runs: "loop_runs body a s r t \<Longrightarrow> act_loop hung body a s = (r, t)"
  using loop_runs_while [of body a s r t hung s] by (auto simp: act_loop_def)

lemma while_loop_runs:
  assumes "while_option turning (turn_once body) x = Some y"
  shows "(case x of (Inr (Again a), s) \<Rightarrow> loop_runs body a s (fst (loop_result hung s0 (Some y))) (snd (loop_result hung s0 (Some y)))
    | _ \<Rightarrow> y = x) \<and> \<not> turning y"
proof -
  from while_option_stop2 [OF assms] obtain k where y: "y = (turn_once body ^^ k) x" by blast
  from while_option_stop [OF assms] have stop: "\<not> turning y" .
  have "case x of (Inr (Again a), s) \<Rightarrow> loop_runs body a s (fst (loop_result hung s0 (Some y))) (snd (loop_result hung s0 (Some y)))
    | _ \<Rightarrow> y = x" using y
  proof (induction k arbitrary: x)
    case 0
    with stop show ?case by (auto split: sum.splits turn.splits)
  next
    case (Suc k)
    obtain v s where x: "x = (v, s)" by fastforce
    have step: "y = (turn_once body ^^ k) (turn_once body x)" using Suc.prems by (simp add: funpow_swap1)
    show ?case
    proof (cases "turning x")
      case False
      then have fixed: "turn_once body x = x" by (cases "(body, x)" rule: turn_once.cases) auto
      with Suc.IH [OF step] False show ?thesis by (auto simp: x split: sum.splits turn.splits)
    next
      case True
      then obtain a where v: "v = Inr (Again a)" by (cases x rule: turning.cases) (auto simp: x)
      have t: "turn_once body x = body a s" by (simp add: x v)
      show ?thesis using Suc.IH [OF step, unfolded t] stop
        by (cases "body a s") (auto simp: x v split: sum.splits turn.splits intro: loop_runs.intros)
    qed
  qed
  with stop show ?thesis by simp
qed

lemma act_loop_cases:
  obtains (runs) "loop_runs body a s (fst (act_loop hung body a s)) (snd (act_loop hung body a s))"
    | (hangs) "\<nexists>r t. loop_runs body a s r t" "act_loop hung body a s = (Inl hung, s)"
proof (cases "while_option turning (turn_once body) (Inr (Again a), s)")
  case None
  then have "\<nexists>r t. loop_runs body a s r t"
    using loop_runs_while [of body a s _ _ hung s] by auto
  with None show ?thesis by (intro hangs) (simp_all add: act_loop_def)
next
  case (Some y)
  from while_loop_runs [OF Some, of hung s] Some show ?thesis
    by (intro runs) (simp add: act_loop_def)
qed


lemma loop_runs_fun: "loop_runs body a s r t \<Longrightarrow> loop_runs body a s r' t' \<Longrightarrow> r = r' \<and> t = t'"
  using act_loop_runs [of body a s r t] act_loop_runs [of body a s r' t'] by simp

text \<open>The result of a loop keeps what every turn keeps; a loop that hangs has no result.\<close>

lemma act_loop_Inr: "act_loop hung body a s = (Inr b, t) \<Longrightarrow> loop_runs body a s (Inr b) t"
  by (cases rule: act_loop_cases [of body a s hung]) auto

lemma loop_runs_invariant:
  assumes "loop_runs body a s r t" and "I a s"
    and "\<And>a s a' s'. I a s \<Longrightarrow> body a s = (Inr (Again a'), s') \<Longrightarrow> I a' s'"
  shows "(\<exists>a' s' b. r = Inr b \<and> I a' s' \<and> body a' s' = (Inr (Done b), t))
    \<or> (\<exists>a' s' e. r = Inl e \<and> I a' s' \<and> body a' s' = (Inl e, t))"
  using assms(1,2)
proof (induction rule: loop_runs.induct)
  case (loop_again a s a' s' r t)
  then show ?case using assms(3) by blast
qed blast+

lemma act_loop_done:
  assumes "act_loop hung body a s = (Inr b, t)" and "I a s"
    and "\<And>a s a' s'. I a s \<Longrightarrow> body a s = (Inr (Again a'), s') \<Longrightarrow> I a' s'"
  obtains a' s' where "I a' s'" "body a' s' = (Inr (Done b), t)"
  using loop_runs_invariant [OF act_loop_Inr [OF assms(1)], of I] assms(2,3) by blast

fun last_turn :: "'e + 'b \<Rightarrow> 'e + ('a, 'b) turn" where
  "last_turn (Inl e) = Inl e"
| "last_turn (Inr b) = Inr (Done b)"

lemma act_loop_post:
  assumes "act_loop hung body a s = (r, t)" and "I a s"
    and "\<And>a s a' s'. I a s \<Longrightarrow> body a s = (Inr (Again a'), s') \<Longrightarrow> I a' s'"
  obtains (settled) a' s' where "I a' s'" "body a' s' = (last_turn r, t)"
    | (stuck) "r = Inl hung" "t = s"
proof (cases rule: act_loop_cases [of body a s hung])
  case runs
  then have "loop_runs body a s r t" by (simp add: assms(1))
  from loop_runs_invariant [OF this, of I] assms(2,3) obtain a' s' where "I a' s'" "body a' s' = (last_turn r, t)"
    by fastforce
  then show ?thesis by (rule settled)
next
  case hangs
  with assms(1) show ?thesis by (intro stuck) simp_all
qed

text \<open>A loop whose turns descend in a well-founded relation always returns.\<close>

lemma loop_returns:
  assumes "wf R" and "I a s"
    and "\<And>a s a' s'. I a s \<Longrightarrow> body a s = (Inr (Again a'), s') \<Longrightarrow> I a' s' \<and> ((a', s'), (a, s)) \<in> R"
  shows "\<exists>r t. loop_runs body a s r t"
  using assms(2)
proof (induction "(a, s)" arbitrary: a s rule: wf_induct_rule [OF assms(1)])
  case 1
  obtain v s' where b: "body a s = (v, s')" by fastforce
  show ?case
  proof (cases "\<exists>a'. v = Inr (Again a')")
    case True
    then obtain a' where "v = Inr (Again a')" by blast
    with b 1(1) [of a' s'] assms(3) [OF 1(2), of a' s'] show ?thesis by (auto intro: loop_again)
  next
    case False
    with b show ?thesis by (cases v; (cases "projr v")?) (auto intro: loop_done loop_fail)
  qed
qed

definition returns :: "'e \<Rightarrow> ('s, 'e, 'a) action \<Rightarrow> bool" where
  "returns hung a \<longleftrightarrow> (\<forall>s. fst (a s) \<noteq> Inl hung)"

lemma returns_bind: "returns hung a \<Longrightarrow> (\<And>x. returns hung (f x)) \<Longrightarrow> returns hung (act_bind a f)"
  unfolding returns_def act_bind_def by (auto split: prod.splits sum.splits) (metis fst_conv)+

lemma returns_pure:
  "returns hung (act_return x)" "e \<noteq> hung \<Longrightarrow> returns hung (act_fail e)" "returns hung act_get" "returns hung (act_modify g)"
  by (simp_all add: returns_def)

lemma returns_if: "returns hung a \<Longrightarrow> returns hung b \<Longrightarrow> returns hung (if c then a else b)"
  by simp

lemma returns_each: "(\<And>x. returns hung (f x)) \<Longrightarrow> returns hung (act_each f xs)"
  by (induction xs) (simp_all only: act_each.simps returns_bind returns_pure)

lemma returns_loop:
  assumes "wf R" and "\<And>s. I a s"
    and "\<And>a s a' s'. I a s \<Longrightarrow> body a s = (Inr (Again a'), s') \<Longrightarrow> I a' s' \<and> ((a', s'), (a, s)) \<in> R"
    and "\<And>a. returns e (body a)"
  shows "returns e (act_loop hung body a)"
  unfolding returns_def
proof
  fix s
  have "loop_runs body a s r t \<Longrightarrow> r \<noteq> Inl e" for a s r t
    by (induction rule: loop_runs.induct) (use assms(4) in \<open>auto simp: returns_def\<close>, metis fst_conv)
  moreover obtain r t where "loop_runs body a s r t" using loop_returns [OF assms(1), of I] assms(2,3) by blast
  ultimately show "fst (act_loop hung body a s) \<noteq> Inl e" using act_loop_runs [of body a s r t hung] by auto
qed

context progress
begin

lemma loop_runs_rel:
  assumes "loop_runs body a s r t" and "\<And>a. always (body a)"
  shows "rel s t"
  using assms(1)
proof (induction rule: loop_runs.induct)
  case (loop_again a s a' s' r t)
  then show ?case using always_run [OF assms(2)] rel_trans by blast
qed (use always_run [OF assms(2)] in blast)+

lemma always_loop:
  assumes "\<And>a. always (body a)"
  shows "always (act_loop hung body a)"
  unfolding always_def
proof
  fix s
  show "rel s (snd (act_loop hung body a s))"
    by (cases rule: act_loop_cases [of body a s hung]) (simp_all add: loop_runs_rel [OF _ assms] rel_refl)
qed

end

end
