(* ===== verification/Fixture.thy ===== *)
theory Fixture
  imports Scenario_Plan
begin

text \<open>
  The TFTP fixture: the guest's client of \<open>fixture.rs\<close> and the files the controller serves
  (\<open>fixture_entries\<close> of \<open>run.rs\<close>). The socket is whether it could be set up and the request
  sent, and the sequence of results its receives deliver: a datagram with its source, already cut
  to the 516 bytes of the buffer, a datagram whose acknowledgement cannot be sent, or a failure
  with its error number; when the sequence ends the receive timed out. The lemmas: the client
  reassembles exactly the file a conforming server sends, block by block, whatever other hosts
  send in between, and the served file parses back to the planned request.
\<close>

section \<open>Operations\<close>

datatype fixture_error =
    SocketError "int option"
  | TruncatedPacket
  | ServerError
  | UnexpectedPacket
  | ResponseTooLong
  | BlockOverflow
  | ResponseNotUtf8
  | MissingRequestId
  | MissingPayload
  | ExtraFields
  | NotCanonical

text \<open>The kinds of error that the agent distinguishes.\<close>

fun raw_os_error :: "fixture_error \<Rightarrow> int option" where
  "raw_os_error (SocketError errno) = errno"
| "raw_os_error _ = None"

fun is_invalid_data :: "fixture_error \<Rightarrow> bool" where
  "is_invalid_data (SocketError _) = False"
| "is_invalid_data ServerError = False"
| "is_invalid_data _ = True"

datatype recv = Datagram nat bytes | Unacknowledged nat bytes "int option" | RecvFailed "int option"

text \<open>\<open>str::lines\<close>: the lines with their endings removed, a missing final ending accepted.\<close>

fun split_inclusive :: "char \<Rightarrow> string \<Rightarrow> string list" where
  "split_inclusive c [] = []"
| "split_inclusive c (x # xs) =
     (if x = c then [x] # split_inclusive c xs
      else (case split_inclusive c xs of p # ps \<Rightarrow> (x # p) # ps | [] \<Rightarrow> [[x]]))"

abbreviation newline :: char where "newline \<equiv> CHR 0x0a"
abbreviation carriage_return :: char where "carriage_return \<equiv> CHR 0x0d"

definition strip_suffix :: "char \<Rightarrow> string \<Rightarrow> string option" where
  "strip_suffix c s = (if s \<noteq> [] \<and> last s = c then Some (butlast s) else None)"

definition strip_ending :: "string \<Rightarrow> string" where
  "strip_ending line =
     (case strip_suffix newline line of
        None \<Rightarrow> line
      | Some l \<Rightarrow> (case strip_suffix carriage_return l of None \<Rightarrow> l | Some l' \<Rightarrow> l'))"

definition str_lines :: "string \<Rightarrow> string list" where
  "str_lines s = map strip_ending (split_inclusive newline s)"

definition response_text :: "string \<Rightarrow> string \<Rightarrow> string" where
  "response_text request_id payload =
     ''request_id='' @ request_id @ [newline] @ ''payload='' @ payload @ [newline]"

definition next_line :: "string list \<Rightarrow> string option" where
  "next_line ls = (case ls of [] \<Rightarrow> None | l # _ \<Rightarrow> Some l)"

definition parse_fixture_response :: "bytes \<Rightarrow> fixture_error + string \<times> string" where
  "parse_fixture_response contents =
     and_then (ok_or ResponseNotUtf8 (from_utf8 contents)) (\<lambda>text.
     let lines = str_lines text
     in and_then (ok_or MissingRequestId (Option.bind (next_line lines) (strip_prefix ''request_id=''))) (\<lambda>request_id.
        and_then (ok_or MissingPayload (Option.bind (next_line (tl lines)) (strip_prefix ''payload=''))) (\<lambda>payload.
        if next_line (tl (tl lines)) \<noteq> None then Inl ExtraFields
        else if as_bytes (response_text request_id payload) \<noteq> contents then Inl NotCanonical
        else Inr (request_id, payload))))"

definition be16 :: "u8 \<Rightarrow> u8 \<Rightarrow> nat" where
  "be16 a b = from_be_bytes 0 [a, b]"

definition packet_capacity :: nat where "packet_capacity = 516"

text \<open>The checks on a packet of the server, and the contents with its data.\<close>

definition accept_packet :: "bytes \<Rightarrow> nat \<Rightarrow> bytes \<Rightarrow> fixture_error + bytes" where
  "accept_packet contents expected_block packet =
     (if length packet < 4 then Inl TruncatedPacket
      else if be16 (packet ! 0) (packet ! 1) = 5 then Inl ServerError
      else if be16 (packet ! 0) (packet ! 1) \<noteq> 3 \<or> be16 (packet ! 2) (packet ! 3) \<noteq> expected_block
      then Inl UnexpectedPacket
      else
        let contents = contents @ drop 4 packet
        in if length contents > MAX_REQUEST_DATA_LENGTH then Inl ResponseTooLong else Inr contents)"

text \<open>The receive loop: the contents so far, the expected block, the server once known, and
  the packets sent.\<close>

fun tftp_loop ::
    "recv list \<Rightarrow> bytes \<Rightarrow> nat \<Rightarrow> nat option \<Rightarrow> (nat \<times> bytes) list \<Rightarrow>
       (fixture_error + bytes) \<times> (nat \<times> bytes) list" where
  "tftp_loop [] contents expected_block server sent = (Inl (SocketError None), sent)"
| "tftp_loop (RecvFailed errno # rest) contents expected_block server sent = (Inl (SocketError errno), sent)"
| "tftp_loop (Unacknowledged source packet errno # rest) contents expected_block server sent =
     (if server \<noteq> None \<and> server \<noteq> Some source
      then tftp_loop rest contents expected_block server sent
      else (case accept_packet contents expected_block packet of
              Inl e \<Rightarrow> (Inl e, sent)
            | Inr contents \<Rightarrow> (Inl (SocketError errno), sent)))"
| "tftp_loop (Datagram source packet # rest) contents expected_block server sent =
     (if server \<noteq> None \<and> server \<noteq> Some source
      then tftp_loop rest contents expected_block server sent
      else (case accept_packet contents expected_block packet of
              Inl e \<Rightarrow> (Inl e, sent)
            | Inr contents \<Rightarrow>
                let sent = sent @ [(source, [0, 4, packet ! 2, packet ! 3])]
                in if length packet < packet_capacity then (Inr contents, sent)
                   else if expected_block + 1 > 65535 then (Inl BlockOverflow, sent)
                   else tftp_loop rest contents (expected_block + 1) (Some source) sent))"

definition read_request :: "string \<Rightarrow> bytes" where
  "read_request filename = [0, 1] @ as_bytes filename @ [0] @ as_bytes ''octet'' @ [0]"

text \<open>
  The request to port 69 of \<open>peer\<close>. \<open>setup\<close> is the error of creating the socket, setting its
  timeouts or sending the request, if there was one: under a prohibiting route the kernel
  refuses the first send.
\<close>

definition tftp_request ::
    "nat \<Rightarrow> string \<Rightarrow> int option option \<Rightarrow> recv list \<Rightarrow>
       (fixture_error + string \<times> string) \<times> (nat \<times> bytes) list" where
  "tftp_request peer filename setup received =
     (case setup of
        Some errno \<Rightarrow> (Inl (SocketError errno), [])
      | None \<Rightarrow>
          let (result, sent) = tftp_loop received [] 1 None [(peer, read_request filename)]
          in (and_then result parse_fixture_response, sent))"

definition served_payload :: "bool \<Rightarrow> nat \<Rightarrow> string \<Rightarrow> string" where
  "served_payload corrupt_responses index payload =
     (if corrupt_responses \<and> index = 0 then payload @ ''-corrupted'' else payload)"

definition fixture_entries :: "PlannedRequest list \<Rightarrow> bool \<Rightarrow> (string \<times> bytes) list" where
  "fixture_entries requests corrupt_responses =
     map (\<lambda>(index, request).
        (pr_request_id request,
         as_bytes (response_text (pr_request_id request)
           (served_payload corrupt_responses index (pr_payload request)))))
       (enumerate 0 requests)"

section \<open>The response text\<close>

lemma as_bytes_Cons: "as_bytes (c # s) = of_char c # as_bytes s"
  by (simp add: as_bytes_def)

definition ascii :: "char \<Rightarrow> bool" where
  "ascii c \<longleftrightarrow> (of_char c :: nat) < 128"

lemma ascii_utf8: "list_all ascii s \<Longrightarrow> is_utf8 (as_bytes s)"
proof (induction s)
  case Nil
  show ?case by simp
next
  case (Cons c s)
  then have "(of_char c :: u8) < 0x80" by (simp add: ascii_def word_less_nat_alt)
  with Cons show ?case by (simp add: as_bytes_Cons)
qed

lemma split_inclusive_line:
  "c \<notin> set l \<Longrightarrow> split_inclusive c (l @ c # s) = (l @ [c]) # split_inclusive c s"
  by (induction l) auto

definition plain_line :: "string \<Rightarrow> bool" where
  "plain_line s \<longleftrightarrow> newline \<notin> set s \<and> carriage_return \<notin> set s"

lemma strip_ending_plain: "plain_line l \<Longrightarrow> strip_ending (l @ [newline]) = l"
proof -
  assume "plain_line l"
  then have "carriage_return \<notin> set l" by (simp add: plain_line_def)
  then have "strip_suffix carriage_return l = None"
    unfolding strip_suffix_def by (metis last_in_set)
  then show ?thesis by (simp add: strip_ending_def strip_suffix_def)
qed

lemma response_lines:
  assumes "plain_line i" and "plain_line p"
  shows "str_lines (response_text i p) = [''request_id='' @ i, ''payload='' @ p]"
proof -
  define a where "a = ''request_id='' @ i"
  define b where "b = ''payload='' @ p"
  have ab: "plain_line a" "plain_line b" using assms by (simp_all add: a_def b_def plain_line_def)
  have resp: "response_text i p = a @ newline # (b @ newline # [])"
    by (simp add: response_text_def a_def b_def)
  have na: "newline \<notin> set a" "newline \<notin> set b" using ab by (auto simp: plain_line_def)
  have "split_inclusive newline (response_text i p) = [a @ [newline], b @ [newline]]"
    unfolding resp using split_inclusive_line [OF na(1), of "b @ [newline]"] split_inclusive_line [OF na(2), of "[]"] by simp
  then have "str_lines (response_text i p) = [a, b]" using ab by (simp add: str_lines_def strip_ending_plain)
  then show ?thesis by (simp only: a_def b_def)
qed

lemma parse_fixture_roundtrip:
  assumes "plain_line i" and "plain_line p" and "is_utf8 (as_bytes (response_text i p))"
  shows "parse_fixture_response (as_bytes (response_text i p)) = Inr (i, p)"
proof -
  have pre: "strip_prefix ''request_id='' (''request_id='' @ i) = Some i"
    "strip_prefix ''payload='' (''payload='' @ p) = Some p"
    unfolding strip_prefix_Some by simp_all
  have u: "from_utf8 (as_bytes (response_text i p)) = Some (response_text i p)"
    using assms(3) by (simp add: from_utf8_def)
  show ?thesis
    unfolding parse_fixture_response_def u ok_or_simps and_then_simps Let_def response_lines [OF assms(1,2)]
      next_line_def list.case list.sel Option.bind.simps pre by simp
qed

lemma parse_fixture_sound:
  "parse_fixture_response contents = Inr (i, p) \<Longrightarrow> contents = as_bytes (response_text i p)"
  unfolding parse_fixture_response_def and_then_eq_Inr Let_def guard_eq_Inr by auto

section \<open>The transfer\<close>

definition block_packet :: "nat \<Rightarrow> bytes \<Rightarrow> bytes" where
  "block_packet k data = [0, 3] @ be_bytes 2 k @ data"

definition ack_packet :: "nat \<Rightarrow> bytes" where
  "ack_packet k = [0, 4] @ be_bytes 2 k"

text \<open>The blocks of a file from block number \<open>k\<close> on: full ones of 512 bytes, then a short one.\<close>

function file_blocks :: "nat \<Rightarrow> bytes \<Rightarrow> bytes list" where
  "file_blocks k data =
     (if length data < 512 then [block_packet k data]
      else block_packet k (take 512 data) # file_blocks (Suc k) (drop 512 data))"
  by pat_completeness auto
termination
  by (relation "measure (\<lambda>(k, data). length data)") auto

declare file_blocks.simps [simp del]

text \<open>What the client receives: the blocks from the server in order, with datagrams of other
  hosts anywhere after the first block.\<close>

inductive serves :: "nat \<Rightarrow> bytes list \<Rightarrow> recv list \<Rightarrow> bool" for server where
  serves_done: "serves server [] rest"
| serves_block: "serves server ps rest \<Longrightarrow> serves server (p # ps) (Datagram server p # rest)"
| serves_other: "source \<noteq> server \<Longrightarrow> serves server ps rest \<Longrightarrow>
     serves server ps (Datagram source q # rest)"

inductive_cases serves_ConsE: "serves server (p # ps) rs"

lemma be_bytes_2: "k < 65536 \<Longrightarrow> \<exists>a b. be_bytes 2 k = [a, b] \<and> be16 a b = k"
proof -
  assume k: "k < 65536"
  have "length (be_bytes 2 k) = Suc (Suc 0)" by simp
  then obtain a b where ab: "be_bytes 2 k = [a, b]" by (auto simp: length_Suc_conv simp del: length_be_bytes)
  have "from_be_bytes 0 (be_bytes 2 k) = k" using k by (intro from_be_be_bytes) simp
  with ab show ?thesis by (simp add: be16_def)
qed

lemma tftp_loop_block:
  assumes "k < 65536" and "server = None \<or> server = Some s"
    and "length (contents @ data) \<le> MAX_REQUEST_DATA_LENGTH"
  shows "tftp_loop (Datagram s (block_packet k data) # rest) contents k server sent =
    (if length data < 512 then (Inr (contents @ data), sent @ [(s, ack_packet k)])
     else if k + 1 > 65535 then (Inl BlockOverflow, sent @ [(s, ack_packet k)])
     else tftp_loop rest (contents @ data) (k + 1) (Some s) (sent @ [(s, ack_packet k)]))"
proof -
  obtain a b where ab: "be_bytes 2 k = [a, b]" "be16 a b = k" using be_bytes_2 [OF assms(1)] by blast
  have p: "block_packet k data = 0 # 3 # a # b # data" and q: "ack_packet k = [0, 4, a, b]"
    by (simp_all add: block_packet_def ack_packet_def ab)
  have op: "be16 0 3 = 3" by (simp add: be16_def)
  show ?thesis using assms ab by (auto simp: p q op packet_capacity_def accept_packet_def Let_def)
qed

lemma tftp_transfer:
  assumes "serves s (file_blocks k data) rs" and "server = Some s"
    and "length (contents @ data) \<le> MAX_REQUEST_DATA_LENGTH" and "k + length data div 512 < 65536"
  shows "fst (tftp_loop rs contents k server sent) = Inr (contents @ data)"
  using assms
proof (induction rs arbitrary: k data contents sent rule: list.induct)
  case Nil
  then show ?case by (subst (asm) file_blocks.simps) (auto elim: serves_ConsE split: if_splits)
next
  case (Cons d rs)
  have "file_blocks k data \<noteq> []" by (subst file_blocks.simps) simp
  then obtain first more where blocks: "file_blocks k data = first # more"
    by (cases "file_blocks k data") auto
  consider (block) "d = Datagram s first" "serves s more rs"
    | (other) source q where "d = Datagram source q" "source \<noteq> s" "serves s (file_blocks k data) rs"
    using Cons.prems(1) unfolding blocks by (auto elim: serves_ConsE)
  then show ?case
  proof cases
    case block
    show ?thesis
    proof (cases "length data < 512")
      case True
      then have "first = block_packet k data" using blocks by (subst (asm) file_blocks.simps) simp
      with True block Cons.prems show ?thesis by (simp add: tftp_loop_block del: tftp_loop.simps)
    next
      case False
      then have f: "first = block_packet k (take 512 data)" and m: "more = file_blocks (Suc k) (drop 512 data)"
        using blocks by (subst (asm) file_blocks.simps, simp)+
      have q: "length data div 512 = Suc (length (drop 512 data) div 512)"
        using False by (simp add: le_div_geq)
      have "fst (tftp_loop rs ((contents @ take 512 data)) (Suc k) server (sent @ [(s, ack_packet k)])) =
          Inr ((contents @ take 512 data) @ drop 512 data)"
        using block Cons.prems q f m by (intro Cons.IH) auto
      with False block f Cons.prems q show ?thesis by (simp add: tftp_loop_block del: tftp_loop.simps)
    qed
  next
    case (other source q)
    with Cons.prems have "fst (tftp_loop rs contents k server sent) = Inr (contents @ data)"
      by (intro Cons.IH)
    with other Cons.prems(2) show ?thesis by simp
  qed
qed

lemma tftp_transfer_first:
  assumes "file_blocks 1 data = q # qs" and "serves s qs rest"
    and "length data \<le> MAX_REQUEST_DATA_LENGTH"
  shows "fst (tftp_loop (Datagram s q # rest) [] 1 None sent) = Inr data"
proof -
  have "serves s (file_blocks 1 data) (Datagram s q # rest)"
    unfolding assms(1) using assms(2) by (rule serves_block)
  moreover have "1 + length data div 512 < 65536"
    using assms(3) by (simp add: MAX_REQUEST_DATA_LENGTH_def)
  ultimately have "fst (tftp_loop (Datagram s q # rest) [] 1 (Some s) sent) = Inr data"
    using assms(3) tftp_transfer [of s 1 data "Datagram s q # rest" "Some s" "[]" sent] by simp
  moreover have "tftp_loop (Datagram s q # rest) [] 1 (Some s) sent = tftp_loop (Datagram s q # rest) [] 1 None sent"
    by simp
  ultimately show ?thesis by simp
qed

section \<open>Planned requests on the wire\<close>

lemma id_char_plain: "id_char c \<Longrightarrow> ascii c \<and> c \<noteq> newline \<and> c \<noteq> carriage_return"
proof -
  assume "id_char c"
  then have "c \<in> set ''0123456789abcdefrequest-''" by (auto simp: id_char_def hex_char_def)
  moreover have "\<forall>c\<in>set ''0123456789abcdefrequest-''. ascii c \<and> c \<noteq> newline \<and> c \<noteq> carriage_return"
    by (simp add: ascii_def)
  ultimately show ?thesis by blast
qed

lemma id_text_plain: "list_all id_char s \<Longrightarrow> plain_line s \<and> list_all ascii s"
  using id_char_plain by (fastforce simp: list_all_iff plain_line_def)

lemma served_text_plain:
  assumes "request_ok k r"
  shows "plain_line (served_payload b i (pr_payload r)) \<and> list_all ascii (served_payload b i (pr_payload r))
    \<and> length (served_payload b i (pr_payload r)) \<le> 2 * k + 10"
proof -
  have "list_all id_char (pr_payload r)"
    using assms by (auto simp: request_ok_def list_all_iff id_char_def)
  then have "plain_line (pr_payload r) \<and> list_all ascii (pr_payload r)" by (rule id_text_plain)
  with assms show ?thesis by (simp add: served_payload_def plain_line_def request_ok_def ascii_def)
qed

lemma served_response:
  assumes "request_ok k r" and "k \<le> MAX_REQUEST_DATA_LENGTH div 4"
    and "payload = served_payload b i (pr_payload r)"
  shows "parse_fixture_response (as_bytes (response_text (pr_request_id r) payload)) = Inr (pr_request_id r, payload)"
    and "length (response_text (pr_request_id r) payload) \<le> MAX_REQUEST_DATA_LENGTH"
proof -
  have rid: "plain_line (pr_request_id r)" "list_all ascii (pr_request_id r)" "length (pr_request_id r) = 29"
    using assms(1) id_text_plain by (auto simp: request_ok_def)
  note pay = served_text_plain [OF assms(1), of b i, folded assms(3)]
  have "list_all ascii (response_text (pr_request_id r) payload)"
    using rid pay by (simp add: response_text_def ascii_def)
  then have "is_utf8 (as_bytes (response_text (pr_request_id r) payload))" by (rule ascii_utf8)
  with rid pay show "parse_fixture_response (as_bytes (response_text (pr_request_id r) payload)) = Inr (pr_request_id r, payload)"
    by (intro parse_fixture_roundtrip) auto
  show "length (response_text (pr_request_id r) payload) \<le> MAX_REQUEST_DATA_LENGTH"
    using rid pay assms(2) by (simp add: response_text_def MAX_REQUEST_DATA_LENGTH_def)
qed

section \<open>Properties\<close>

text \<open>
  C36. The fixture delivers the plan: for every request of a validated scenario's plan, when a
  server sends the file the controller serves for it block by block, with datagrams of other
  hosts anywhere after the first block, the client returns the request identifier and the served
  payload (the planned one, unless the scenario corrupts the first response).
\<close>

theorem tftp_delivers_plan:
  assumes "Scenario_validate s = Inr ()"
    and "index < sc_request_count s" and "r = cp_requests (Scenario_choices s seed) ! index"
    and "payload = served_payload (sc_corrupt_responses s) index (pr_payload r)"
    and "fixture_entries (cp_requests (Scenario_choices s seed)) (sc_corrupt_responses s) ! index = (name, contents)"
    and "file_blocks 1 contents = q # qs" and "serves server qs rest"
  shows "name = pr_request_id r \<and> fst (tftp_request peer name None (Datagram server q # rest)) = Inr (pr_request_id r, payload)"
proof -
  define reqs where "reqs = cp_requests (Scenario_choices s seed)"
  note b = validate_bounds(1) [OF assms(1)]
  have plan: "plan_ok s reqs"
    using b unfolding reqs_def Scenario_choices_def by (simp add: planned_requests_plan_ok split: prod.split)
  then have len: "index < length reqs" using assms(2) by (simp add: plan_ok_def)
  with plan have ok: "request_ok (sc_payload_bytes s) r"
    unfolding assms(3) reqs_def [symmetric] plan_ok_def list_all_length by blast
  have "fixture_entries reqs (sc_corrupt_responses s) ! index = (pr_request_id r, as_bytes (response_text (pr_request_id r) payload))"
    using len by (simp add: fixture_entries_def nth_enumerate_eq assms(3,4) reqs_def)
  with assms(5) have nm: "name = pr_request_id r" and c: "contents = as_bytes (response_text (pr_request_id r) payload)"
    by (simp_all add: reqs_def)
  have "sc_payload_bytes s \<le> MAX_REQUEST_DATA_LENGTH div 4" using b by blast
  note served = served_response [OF ok this assms(4)]
  have "fst (tftp_loop (Datagram server q # rest) [] 1 None sent) = Inr contents" for sent
    using assms(6,7) served(2) by (intro tftp_transfer_first) (simp_all add: c)
  from this [of "[(peer, read_request name)]"] have "fst (tftp_request peer name None (Datagram server q # rest)) = Inr (pr_request_id r, payload)"
    using served(1) by (auto simp: tftp_request_def c simp del: tftp_loop.simps split: prod.splits)
  with nm show ?thesis by blast
qed

text \<open>
  The client accepts only the canonical text: whatever was received, an accepted response
  is exactly the two canonical lines for the identifier and payload it returns.
\<close>

theorem fixture_response_canonical:
  "parse_fixture_response contents = Inr (i, p) \<Longrightarrow> contents = as_bytes (response_text i p)"
  by (rule parse_fixture_sound)

section \<open>Witnesses\<close>

theorem tftp_delivers_plan_witness:
  "\<exists>q rest r. r = cp_requests (Scenario_choices sample_scenario 7) ! 2 \<and>
     fst (tftp_request 3 (pr_request_id r) None (Datagram 5 q # rest)) = Inr (pr_request_id r, pr_payload r)"
proof -
  obtain name contents where e: "fixture_entries (cp_requests (Scenario_choices sample_scenario 7))
      (sc_corrupt_responses sample_scenario) ! 2 = (name, contents)" by fastforce
  have "file_blocks 1 contents \<noteq> []" by (subst file_blocks.simps) simp
  then obtain q qs where qs: "file_blocks 1 contents = q # qs" by (cases "file_blocks 1 contents") auto
  have "serves 5 qs (map (Datagram 5) qs)" by (induction qs) (auto intro: serves.intros)
  from tftp_delivers_plan [OF sample_scenario_valid(1) _ refl refl e qs this]
  show ?thesis by (auto simp: sample_scenario_def served_payload_def)
qed

theorem fixture_response_canonical_witness:
  "as_bytes (response_text ''a'' ''b'') = as_bytes (response_text ''a'' ''b'') \<and>
   parse_fixture_response (as_bytes (response_text ''a'' ''b'')) = Inr (''a'', ''b'')"
proof -
  have "list_all ascii (response_text ''a'' ''b'')" by (simp add: response_text_def ascii_def)
  then have "is_utf8 (as_bytes (response_text ''a'' ''b''))" by (rule ascii_utf8)
  then have "parse_fixture_response (as_bytes (response_text ''a'' ''b'')) = Inr (''a'', ''b'')"
    by (intro parse_fixture_roundtrip) (simp_all add: plain_line_def)
  with fixture_response_canonical [OF this] show ?thesis by simp
qed

end
