(* ===== verification/Agent.thy ===== *)
theory Agent
  imports Action Fixture Assertions
begin

text \<open>
  The guest agent of \<open>agent.rs\<close>: its state, the dispatch of every command, the emission of
  numbered event frames, the blocking command loop, the serial buffer and the polling loop. The
  workload runtime is a record of its operations, because the agent owns it behind that interface;
  busybox, the network driver link, the socket and the JSON serializer are the environment. The
  lemmas: the history the agent keeps is a legal run of the network state machine with increasing
  identifiers, a refused command changes nothing, a request always emits an attempt and one
  outcome, and the serial buffer reassembles the same frames however the bytes are cut.
\<close>

section \<open>Constants, state and environment\<close>

definition INTERFACE :: string where "INTERFACE = ''eth0''"
definition GUEST_CIDR :: string where "GUEST_CIDR = ''10.0.2.15/24''"
definition GATEWAY :: string where "GATEWAY = ''10.0.2.2''"
definition PEER_CIDR :: string where "PEER_CIDR = ''10.0.2.2/32''"
definition OUTAGE_RULE :: string where "OUTAGE_RULE = ''prohibit 10.0.2.2/32''"

datatype agent_error =
    NetworkProfile
  | NetworkAlreadyConfigured
  | NetworkNotConfigured
  | FaultPeer
  | OutageAlreadyActive
  | OutageNotActive
  | OutageAtShutdown
  | RequestContract
  | NoRuntimeConfigured
  | RuntimeFailed string
  | BusyboxNotRun
  | BusyboxFailed
  | DriverUnreadable
  | DriverNotBound
  | RouteNotInspected
  | RouteNotConfirmed
  | ControlFrame frame_error
  | ControlUnreadable
  | ControlClosedInFrame
  | ControlClosedActive
  | PollFailed

text \<open>
  The operations of the runtime the agent owns. \<open>Runtime::start\<close> has no error of its own: an error
  there stands for a start that does not return.
\<close>

record 'r runtime_ops =
  rt_start :: "nat \<Rightarrow> LaunchIdentity \<Rightarrow> ('r, string, Event list) action"
  rt_stdin_write :: "nat \<Rightarrow> nat \<Rightarrow> string \<Rightarrow> ('r, string, Event list) action"
  rt_stdin_eof :: "nat \<Rightarrow> ('r, string, Event list) action"
  rt_terminate :: "nat \<Rightarrow> ('r, string, Event list) action"
  rt_poll :: "('r, string, Event list) action"
  rt_shutdown :: "('r, string, Event list) action"
  rt_is_active :: "'r \<Rightarrow> bool"

text \<open>
  The environment: the serializer, the exit status and output of a busybox command (\<open>Inl\<close> when
  it cannot be run), the file name of the driver link (\<open>None\<close> when it cannot be read) and what a
  request over a fresh socket meets.
\<close>

record ('r, 'w) agent_env =
  ae_to_json :: "EventFrame \<Rightarrow> bytes option"
  ae_from_json :: "bytes \<Rightarrow> CommandFrame option"
  ae_runtime :: "'r runtime_ops"
  ae_status :: "string list \<Rightarrow> ('w, unit, bool) action"
  ae_output :: "string list \<Rightarrow> ('w, unit, bool \<times> bytes) action"
  ae_driver :: "'w \<Rightarrow> string option option"
  ae_socket :: "string \<Rightarrow> 'w \<Rightarrow> (int option option \<times> recv list) \<times> 'w"

record 'r Agent =
  ag_events :: "EventFrame list"
  ag_next_event_id :: nat
  ag_exit_code :: int
  ag_line_framing :: bool
  ag_network_configured :: bool
  ag_outage_active :: bool
  ag_runtime :: "'r option"
  ag_last_command_id :: nat

text \<open>The agent with the world around it and everything written to the control channel.\<close>

record ('r, 'w) machine =
  mc_agent :: "'r Agent"
  mc_world :: 'w
  mc_written :: bytes

type_synonym ('r, 'w, 'a) agent_action = "(('r, 'w) machine, agent_error, 'a) action"

definition Agent_new :: "bool \<Rightarrow> 'r option \<Rightarrow> 'r Agent" where
  "Agent_new line_framing runtime =
     \<lparr>ag_events = [], ag_next_event_id = 1, ag_exit_code = 0, ag_line_framing = line_framing,
      ag_network_configured = False, ag_outage_active = False, ag_runtime = runtime,
      ag_last_command_id = 0\<rparr>"

definition modify_agent :: "('r Agent \<Rightarrow> 'r Agent) \<Rightarrow> ('r, 'w, unit) agent_action" where
  "modify_agent g = act_modify (\<lambda>m. m\<lparr>mc_agent := g (mc_agent m)\<rparr>)"

definition write_control :: "bytes \<Rightarrow> ('r, 'w, unit) agent_action" where
  "write_control bs = act_modify (\<lambda>m. m\<lparr>mc_written := mc_written m @ bs\<rparr>)"

text \<open>An operation of the world, or of the runtime, as an operation of the machine.\<close>

definition on_world :: "agent_error \<Rightarrow> ('w, unit, 'a) action \<Rightarrow> ('r, 'w, 'a) agent_action" where
  "on_world e a = (\<lambda>m. let (r, w) = a (mc_world m) in (map_err (\<lambda>_. e) r, m\<lparr>mc_world := w\<rparr>))"

definition on_runtime :: "'r \<Rightarrow> ('r, string, 'a) action \<Rightarrow> ('r, 'w, 'a) agent_action" where
  "on_runtime runtime a = (\<lambda>m.
     let (r, runtime') = a runtime
     in (map_err RuntimeFailed r, m\<lparr>mc_agent := (mc_agent m)\<lparr>ag_runtime := Some runtime'\<rparr>\<rparr>))"

section \<open>Emitting events\<close>

definition event_frame :: "nat \<Rightarrow> nat \<Rightarrow> Event \<Rightarrow> EventFrame" where
  "event_frame event_id command_id event =
     \<lparr>ef_protocol_version = PROTOCOL_VERSION, ef_event_id = event_id, ef_command_id = command_id,
      ef_event = event, ef_diagnostics = no_diagnostics\<rparr>"

definition frame_bytes :: "('r, 'w) agent_env \<Rightarrow> bool \<Rightarrow> EventFrame \<Rightarrow> frame_error + bytes" where
  "frame_bytes env line_framing frame =
     (if line_framing then write_line_frame (ae_to_json env) frame
      else write_frame (ae_to_json env) frame)"

definition emit :: "('r, 'w) agent_env \<Rightarrow> nat \<Rightarrow> Event \<Rightarrow> ('r, 'w, unit) agent_action" where
  "emit env command_id event =
     act_bind act_get (\<lambda>m.
     let frame = event_frame (ag_next_event_id (mc_agent m)) command_id event
     in act_bind (modify_agent (\<lambda>a. a\<lparr>ag_next_event_id := ag_next_event_id a + 1\<rparr>)) (\<lambda>_.
        act_bind (act_lift (map_err ControlFrame
          (frame_bytes env (ag_line_framing (mc_agent m)) frame))) (\<lambda>bs.
        act_bind (write_control bs) (\<lambda>_.
        if is_assertion_event (ef_event frame)
        then modify_agent (\<lambda>a. a\<lparr>ag_events := ag_events a @ [frame]\<rparr>)
        else act_return ()))))"

definition emit_all :: "('r, 'w) agent_env \<Rightarrow> nat \<Rightarrow> Event list \<Rightarrow> ('r, 'w, unit) agent_action" where
  "emit_all env command_id events = act_each (emit env command_id) events"

section \<open>The network of the guest\<close>

definition run_busybox :: "('r, 'w) agent_env \<Rightarrow> string list \<Rightarrow> ('r, 'w, unit) agent_action" where
  "run_busybox env arguments =
     act_bind (on_world BusyboxNotRun (ae_status env arguments)) (\<lambda>success.
     act_require success BusyboxFailed)"

definition configure_network :: "('r, 'w) agent_env \<Rightarrow> ('r, 'w, unit) agent_action" where
  "configure_network env =
     act_bind (run_busybox env [''insmod'', ''/modules/mii.ko'']) (\<lambda>_.
     act_bind (run_busybox env [''insmod'', ''/modules/8139cp.ko'']) (\<lambda>_.
     act_bind (run_busybox env [''ip'', ''link'', ''set'', INTERFACE, ''up'']) (\<lambda>_.
     act_bind (run_busybox env [''ip'', ''address'', ''add'', GUEST_CIDR, ''dev'', INTERFACE]) (\<lambda>_.
     act_bind (run_busybox env [''ip'', ''route'', ''add'', ''default'', ''via'', GATEWAY]) (\<lambda>_.
     act_bind act_get (\<lambda>m.
     act_bind (act_lift (ok_or DriverUnreadable (ae_driver env (mc_world m)))) (\<lambda>driver.
     act_require (driver = Some ''8139cp'') DriverNotBound)))))))"

text \<open>
  \<open>str::trim_end\<close> on the bytes of a text, last byte first: the white-space characters of Unicode
  in their UTF-8 form.
\<close>

definition ascii_space :: "u8 \<Rightarrow> bool" where
  "ascii_space b \<longleftrightarrow> 0x09 \<le> b \<and> b \<le> 0x0d \<or> b = 0x20"

definition wide_space :: "u8 \<Rightarrow> u8 \<Rightarrow> u8 \<Rightarrow> bool" where
  "wide_space a b c \<longleftrightarrow>
     (a, b, c) = (0xe1, 0x9a, 0x80)
     \<or> a = 0xe2 \<and> b = 0x80 \<and> (0x80 \<le> c \<and> c \<le> 0x8a \<or> c = 0xa8 \<or> c = 0xa9 \<or> c = 0xaf)
     \<or> (a, b, c) = (0xe2, 0x81, 0x9f) \<or> (a, b, c) = (0xe3, 0x80, 0x80)"

fun drop_spaces :: "bytes \<Rightarrow> bytes" where
  "drop_spaces [] = []"
| "drop_spaces (c # rest) =
     (if ascii_space c then drop_spaces rest
      else (case rest of
        [] \<Rightarrow> [c]
      | b # rest1 \<Rightarrow>
          if b = 0xc2 \<and> (c = 0x85 \<or> c = 0xa0) then drop_spaces rest1
          else (case rest1 of
            [] \<Rightarrow> [c, b]
          | a # rest2 \<Rightarrow> if wide_space a b c then drop_spaces rest2 else c # b # a # rest2)))"

definition trim_end :: "bytes \<Rightarrow> bytes" where
  "trim_end bs = rev (drop_spaces (rev bs))"

text \<open>\<open>String::from_utf8_lossy\<close> replaces no ASCII byte, so the tests on the route text read the bytes.\<close>

definition route_present :: "bytes \<Rightarrow> bool" where
  "route_present route \<longleftrightarrow> starts_with route (as_bytes OUTAGE_RULE)
     \<or> trim_end route = as_bytes ''prohibit 10.0.2.2'' \<or> starts_with route (as_bytes ''prohibit 10.0.2.2 '')"

definition set_outage :: "('r, 'w) agent_env \<Rightarrow> bool \<Rightarrow> ('r, 'w, unit) agent_action" where
  "set_outage env active =
     (let action = (if active then ''add'' else ''del'')
      in act_bind (run_busybox env [''ip'', ''route'', action, ''prohibit'', PEER_CIDR]) (\<lambda>_.
         act_bind (on_world BusyboxNotRun (ae_output env [''ip'', ''route'', ''show'', ''exact'', PEER_CIDR]))
           (\<lambda>(success, route).
         act_bind (act_require success RouteNotInspected) (\<lambda>_.
         act_require (route_present route = active) RouteNotConfirmed))))"

definition require_network_values :: "string \<Rightarrow> string \<Rightarrow> string \<Rightarrow> ('r, 'w, unit) agent_action" where
  "require_network_values interface guest_cidr gateway =
     act_require ((interface, guest_cidr, gateway) = (INTERFACE, GUEST_CIDR, GATEWAY)) NetworkProfile"

definition require_peer :: "string \<Rightarrow> ('r, 'w, unit) agent_action" where
  "require_peer peer_cidr = act_require (peer_cidr = PEER_CIDR) FaultPeer"

definition require_network :: "('r, 'w, unit) agent_action" where
  "require_network = act_bind act_get (\<lambda>m. act_require (ag_network_configured (mc_agent m)) NetworkNotConfigured)"

definition is_ascii_alphanumeric :: "char \<Rightarrow> bool" where
  "is_ascii_alphanumeric c \<longleftrightarrow>
     (let n = of_char c :: nat
      in 0x30 \<le> n \<and> n \<le> 0x39 \<or> 0x41 \<le> n \<and> n \<le> 0x5a \<or> 0x61 \<le> n \<and> n \<le> 0x7a)"

definition validate_request :: "string \<Rightarrow> string \<Rightarrow> string \<Rightarrow> agent_error + unit" where
  "validate_request request_id payload peer =
     (if request_id = []
         \<or> \<not> list_all (\<lambda>c. is_ascii_alphanumeric c \<or> c = CHR ''-'') request_id
         \<or> saturating_add (length request_id) (length payload) > MAX_REQUEST_DATA_LENGTH
         \<or> peer \<noteq> GATEWAY
      then Inl RequestContract else Inr ())"

section \<open>The workload runtime behind the agent\<close>

definition service_runtime :: "('r, 'w) agent_env \<Rightarrow> ('r, 'w, unit) agent_action" where
  "service_runtime env = (\<lambda>m.
     case ag_runtime (mc_agent m) of
       None \<Rightarrow> (Inr (), m)
     | Some runtime \<Rightarrow>
         (case rt_poll (ae_runtime env) runtime of
            (Inl e, runtime') \<Rightarrow>
              (Inl (RuntimeFailed e), snd (on_runtime runtime' (rt_shutdown (ae_runtime env)) m))
          | (Inr events, runtime') \<Rightarrow>
              emit_all env (ag_last_command_id (mc_agent m)) events
                (m\<lparr>mc_agent := (mc_agent m)\<lparr>ag_runtime := Some runtime'\<rparr>\<rparr>)))"

definition shutdown_runtime :: "('r, 'w) agent_env \<Rightarrow> ('r, 'w, unit) agent_action" where
  "shutdown_runtime env =
     act_bind act_get (\<lambda>m.
     act_bind (case ag_runtime (mc_agent m) of
                 Some runtime \<Rightarrow> on_runtime runtime (rt_shutdown (ae_runtime env))
               | None \<Rightarrow> act_return []) (\<lambda>events.
     emit_all env (ag_last_command_id (mc_agent m)) events))"

definition require_runtime :: "('r, 'w, 'r) agent_action" where
  "require_runtime = act_bind act_get (\<lambda>m. act_lift (ok_or NoRuntimeConfigured (ag_runtime (mc_agent m))))"

definition runtime_events ::
    "('r, 'w) agent_env \<Rightarrow> nat \<Rightarrow> ('r, string, Event list) action \<Rightarrow> ('r, 'w, bool) agent_action" where
  "runtime_events env command_id operation =
     act_bind require_runtime (\<lambda>runtime.
     act_bind (on_runtime runtime operation) (\<lambda>events.
     act_bind (emit_all env command_id events) (\<lambda>_. act_return True)))"

definition start_events ::
    "('r, 'w) agent_env \<Rightarrow> nat \<Rightarrow> LaunchIdentity \<Rightarrow> ('r, 'w, Event list) agent_action" where
  "start_events env invocation launch = (\<lambda>m.
     case ag_runtime (mc_agent m) of
       Some runtime \<Rightarrow>
         on_runtime runtime (rt_start (ae_runtime env) invocation launch) m
     | None \<Rightarrow> (Inr [LaunchFailed invocation NoRuntime ''no workload runtime is configured''], m))"

section \<open>Dispatch\<close>

text \<open>The request over a fresh socket; the gateway's port 69 is the peer \<open>0\<close>.\<close>

definition fixture_request ::
    "('r, 'w) agent_env \<Rightarrow> string \<Rightarrow> ('r, 'w, fixture_error + string \<times> string) agent_action" where
  "fixture_request env request_id = (\<lambda>m.
     let ((setup, received), w) = ae_socket env request_id (mc_world m)
     in (Inr (fst (tftp_request 0 request_id setup received)), m\<lparr>mc_world := w\<rparr>))"

definition classify_error :: "fixture_error \<Rightarrow> RequestError" where
  "classify_error e =
     (if raw_os_error e = Some EACCES then AdministrativeProhibited
      else if is_invalid_data e then InvalidResponse
      else Transport)"

definition request_outcome ::
    "string \<Rightarrow> string \<Rightarrow> RequestPhase \<Rightarrow> fixture_error + string \<times> string \<Rightarrow> Event" where
  "request_outcome request_id payload phase result =
     (case result of
        Inr (response_id, response_payload) \<Rightarrow>
          RequestSucceeded request_id payload response_id response_payload phase
      | Inl e \<Rightarrow> RequestUnavailable request_id phase (classify_error e) (raw_os_error e))"

fun dispatch :: "('r, 'w) agent_env \<Rightarrow> nat \<Rightarrow> Command \<Rightarrow> ('r, 'w, bool) agent_action" where
  "dispatch env command_id (ConfigureNetwork interface guest_cidr gateway) =
     act_bind (require_network_values interface guest_cidr gateway) (\<lambda>_.
     act_bind act_get (\<lambda>m.
     act_bind (act_require (\<not> ag_network_configured (mc_agent m)) NetworkAlreadyConfigured) (\<lambda>_.
     act_bind (configure_network env) (\<lambda>_.
     act_bind (modify_agent (\<lambda>a. a\<lparr>ag_network_configured := True\<rparr>)) (\<lambda>_.
     act_bind (emit env command_id (NetworkConfigured interface guest_cidr gateway)) (\<lambda>_.
     act_return True))))))"
| "dispatch env command_id (ActivateOutage peer_cidr) =
     act_bind require_network (\<lambda>_.
     act_bind (require_peer peer_cidr) (\<lambda>_.
     act_bind act_get (\<lambda>m.
     act_bind (act_require (\<not> ag_outage_active (mc_agent m)) OutageAlreadyActive) (\<lambda>_.
     act_bind (set_outage env True) (\<lambda>_.
     act_bind (modify_agent (\<lambda>a. a\<lparr>ag_outage_active := True\<rparr>)) (\<lambda>_.
     act_bind (emit env command_id (OutageActivated peer_cidr OUTAGE_RULE)) (\<lambda>_.
     act_return True)))))))"
| "dispatch env command_id (RestoreNetwork peer_cidr) =
     act_bind require_network (\<lambda>_.
     act_bind (require_peer peer_cidr) (\<lambda>_.
     act_bind act_get (\<lambda>m.
     act_bind (act_require (ag_outage_active (mc_agent m)) OutageNotActive) (\<lambda>_.
     act_bind (set_outage env False) (\<lambda>_.
     act_bind (modify_agent (\<lambda>a. a\<lparr>ag_outage_active := False\<rparr>)) (\<lambda>_.
     act_bind (emit env command_id (NetworkRestored peer_cidr)) (\<lambda>_.
     act_return True)))))))"
| "dispatch env command_id (Request request_id payload phase) =
     act_bind require_network (\<lambda>_.
     act_bind (act_lift (validate_request request_id payload GATEWAY)) (\<lambda>_.
     act_bind (emit env command_id (RequestAttempted request_id payload phase)) (\<lambda>_.
     act_bind (fixture_request env request_id) (\<lambda>result.
     act_bind (emit env command_id (request_outcome request_id payload phase result)) (\<lambda>_.
     act_return True)))))"
| "dispatch env command_id (Check outage_event_bound liveness_event_bound) =
     act_bind act_get (\<lambda>m.
     let report = evaluate (ag_events (mc_agent m)) outage_event_bound liveness_event_bound
     in act_bind (modify_agent (\<lambda>a. a\<lparr>ag_exit_code := max (ag_exit_code a) (report_exit_code report)\<rparr>)) (\<lambda>_.
        act_bind (emit env command_id (AssertionsEvaluated report)) (\<lambda>_.
        act_return True)))"
| "dispatch env command_id (Start invocation launch) =
     act_bind (start_events env invocation launch) (\<lambda>events.
     act_bind (emit_all env command_id events) (\<lambda>_. act_return True))"
| "dispatch env command_id (StdinWrite invocation offset bytes) =
     runtime_events env command_id (rt_stdin_write (ae_runtime env) invocation offset bytes)"
| "dispatch env command_id (StdinEof invocation) =
     runtime_events env command_id (rt_stdin_eof (ae_runtime env) invocation)"
| "dispatch env command_id (Terminate invocation) =
     runtime_events env command_id (rt_terminate (ae_runtime env) invocation)"
| "dispatch env command_id Shutdown =
     act_bind act_get (\<lambda>m.
     act_bind (act_require (\<not> ag_outage_active (mc_agent m)) OutageAtShutdown) (\<lambda>_.
     act_bind (shutdown_runtime env) (\<lambda>_.
     act_bind (emit env command_id AgentStopped) (\<lambda>_. act_return False))))"

text \<open>One received frame: the version check, the command identifier and the dispatch.\<close>

definition handle_frame :: "('r, 'w) agent_env \<Rightarrow> CommandFrame \<Rightarrow> ('r, 'w, bool) agent_action" where
  "handle_frame env frame =
     act_bind (act_lift (map_err ControlFrame (require_version (cf_protocol_version frame)))) (\<lambda>_.
     act_bind (modify_agent (\<lambda>a. a\<lparr>ag_last_command_id := cf_command_id frame\<rparr>)) (\<lambda>_.
     dispatch env (cf_command_id frame) (cf_command frame)))"

section \<open>The blocking command loop\<close>

definition read_control ::
    "('r, 'w) agent_env \<Rightarrow> bool \<Rightarrow> reader \<Rightarrow> (frame_error + (CommandFrame \<times> reader) option) \<times> bytes" where
  "read_control env line_framing r =
     (if line_framing then read_acknowledged_line_frame (ae_from_json env) r
      else (read_frame (ae_from_json env) r, []))"

lemma read_first_shorter: "read_first r = Inr (Some (b, r')) \<Longrightarrow> length r' < length r"
  by (induction r rule: read_first.induct) auto

lemma read_exact_shorter: "read_exact_bytes n acc r = Inr (bs, r') \<Longrightarrow> length r' \<le> length r"
  by (induction n acc r rule: read_exact_bytes.induct) auto

lemma read_acknowledged_shorter:
  "fst (read_acknowledged_line acks body r) = Inr (Some (b, r')) \<Longrightarrow> length r' < length r"
  by (induction acks body r rule: read_acknowledged_line.induct) (auto simp: Let_def split: if_splits)

lemma read_frame_shorter: "read_frame from_json r = Inr (Some (v, r')) \<Longrightarrow> length r' < length r"
  unfolding read_frame_def
  by (auto simp: Let_def split: option.splits prod.splits if_splits)
    (meson le_less_trans read_exact_shorter read_first_shorter)

lemma read_control_shorter:
  assumes "read_control env line r = (Inr (Some (frame, r')), acks)"
  shows "length r' < length r"
proof (cases line)
  case True
  with assms show ?thesis
    using read_acknowledged_shorter [of "[]" "[]" r]
    by (auto simp: read_control_def read_acknowledged_line_frame_def split: prod.splits sum.splits option.splits)
next
  case False
  with assms show ?thesis by (auto simp: read_control_def intro: read_frame_shorter)
qed

function command_loop :: "('r, 'w) agent_env \<Rightarrow> reader \<Rightarrow> ('r, 'w, unit) agent_action" where
  "command_loop env r m =
     (case read_control env (ag_line_framing (mc_agent m)) r of
        (Inl e, acks) \<Rightarrow> (Inl (ControlFrame e), m\<lparr>mc_written := mc_written m @ acks\<rparr>)
      | (Inr None, acks) \<Rightarrow> (Inr (), m\<lparr>mc_written := mc_written m @ acks\<rparr>)
      | (Inr (Some (frame, r')), acks) \<Rightarrow>
          (case handle_frame env frame (m\<lparr>mc_written := mc_written m @ acks\<rparr>) of
             (Inl e, m') \<Rightarrow> (Inl e, m')
           | (Inr continue, m') \<Rightarrow> if continue then command_loop env r' m' else (Inr (), m')))"
  by pat_completeness auto
termination
  by (relation "measure (\<lambda>(env, r, m). length r)") (auto intro: read_control_shorter [OF sym])

declare command_loop.simps [simp del]

section \<open>The serial buffer and the polling loop\<close>

record SerialBuffer =
  sb_bytes :: bytes
  sb_scanned :: nat

definition SerialBuffer_default :: SerialBuffer where
  "SerialBuffer_default = \<lparr>sb_bytes = [], sb_scanned = 0\<rparr>"

text \<open>The loop that takes the complete lines out of the buffer.\<close>

function drain_frames ::
    "(bytes \<Rightarrow> 'f option) \<Rightarrow> SerialBuffer \<Rightarrow> frame_error + 'f list \<times> SerialBuffer" where
  "drain_frames from_json buffer =
     (case position_of 0x0a (drop (sb_scanned buffer) (sb_bytes buffer)) of
        None \<Rightarrow> Inr ([], buffer\<lparr>sb_scanned := length (sb_bytes buffer)\<rparr>)
      | Some offset \<Rightarrow>
          let index = sb_scanned buffer + offset;
              line = take (index + 1) (sb_bytes buffer);
              rest = \<lparr>sb_bytes = drop (index + 1) (sb_bytes buffer), sb_scanned = 0\<rparr>;
              body = take (length line - 1) line
          in if body = [] then drain_frames from_json rest
             else if length body > MAX_FRAME_LENGTH then Inl FrameTooLong
             else and_then (ok_or MalformedFrame (from_json body)) (\<lambda>frame.
                  and_then (drain_frames from_json rest) (\<lambda>(frames, buffer'). Inr (frame # frames, buffer'))))"
  by pat_completeness auto
termination
  by (relation "measure (\<lambda>(from_json, buffer). length (sb_bytes buffer))") (auto dest!: position_of_less)

declare drain_frames.simps [simp del]

text \<open>One read of the control descriptor: up to 4096 bytes, the end, nothing for now, or a failure.\<close>

datatype serial_read = SerialBytes bytes | SerialEnd | SerialRetry | SerialFailed

definition parse_chunk ::
    "(bytes \<Rightarrow> 'f option) \<Rightarrow> SerialBuffer \<Rightarrow> bytes \<Rightarrow> frame_error + 'f list \<times> SerialBuffer" where
  "parse_chunk from_json buffer chunk =
     and_then (drain_frames from_json (buffer\<lparr>sb_bytes := sb_bytes buffer @ chunk\<rparr>)) (\<lambda>(frames, buffer').
       if length (sb_bytes buffer') > MAX_FRAME_LENGTH then Inl FrameTooLong
       else Inr (frames, buffer'))"

definition read_serial_frames ::
    "('r, 'w) agent_env \<Rightarrow> serial_read \<Rightarrow> SerialBuffer \<Rightarrow>
       ('r, 'w, CommandFrame list option \<times> SerialBuffer) agent_action" where
  "read_serial_frames env result buffer =
     (case result of
        SerialRetry \<Rightarrow> act_return (Some [], buffer)
      | SerialFailed \<Rightarrow> act_fail ControlUnreadable
      | SerialEnd \<Rightarrow>
          if sb_bytes buffer \<noteq> [] then act_fail ControlClosedInFrame else act_return (None, buffer)
      | SerialBytes chunk \<Rightarrow>
          act_bind (write_control (replicate (length chunk) SERIAL_ACK)) (\<lambda>_.
          act_bind (act_lift (map_err ControlFrame (parse_chunk (ae_from_json env) buffer chunk)))
            (\<lambda>(frames, buffer'). act_return (Some frames, buffer'))))"

fun handle_frames :: "('r, 'w) agent_env \<Rightarrow> CommandFrame list \<Rightarrow> ('r, 'w, bool) agent_action" where
  "handle_frames env [] = act_return True"
| "handle_frames env (frame # frames) =
     act_bind (handle_frame env frame) (\<lambda>continue.
       if continue then handle_frames env frames else act_return False)"

definition close_control :: "('r, 'w) agent_env \<Rightarrow> ('r, 'w, unit) agent_action" where
  "close_control env =
     act_bind act_get (\<lambda>m.
     let active = (case ag_runtime (mc_agent m) of
                     Some runtime \<Rightarrow> rt_is_active (ae_runtime env) runtime | None \<Rightarrow> False)
     in act_bind (shutdown_runtime env) (\<lambda>_. act_require (\<not> active) ControlClosedActive))"

text \<open>
  The polling loop over the outcomes of \<open>poll\<close>; when they run out the agent is still waiting,
  and the result is \<open>None\<close>.
\<close>

datatype poll_outcome = PollInterrupted | PollError | PollNotReady | PollReady serial_read

fun poll_loop ::
    "('r, 'w) agent_env \<Rightarrow> poll_outcome list \<Rightarrow> SerialBuffer \<Rightarrow> ('r, 'w) machine \<Rightarrow>
       (agent_error + unit) option \<times> ('r, 'w) machine" where
  "poll_loop env [] buffer m = (None, m)"
| "poll_loop env (outcome # outcomes) buffer m =
     (case service_runtime env m of
        (Inl e, m') \<Rightarrow> (Some (Inl e), m')
      | (Inr _, m') \<Rightarrow>
          (case outcome of
             PollInterrupted \<Rightarrow> poll_loop env outcomes buffer m'
           | PollError \<Rightarrow> (Some (Inl PollFailed), m')
           | PollNotReady \<Rightarrow> poll_loop env outcomes buffer m'
           | PollReady result \<Rightarrow>
               (case read_serial_frames env result buffer m' of
                  (Inl e, m'') \<Rightarrow> (Some (Inl e), m'')
                | (Inr (Some frames, buffer'), m'') \<Rightarrow>
                    (case handle_frames env frames m'' of
                       (Inl e, m3) \<Rightarrow> (Some (Inl e), m3)
                     | (Inr continue, m3) \<Rightarrow>
                         if continue then poll_loop env outcomes buffer' m3 else (Some (Inr ()), m3))
                | (Inr (None, buffer'), m'') \<Rightarrow>
                    (let (r, m3) = close_control env m'' in (Some r, m3)))))"

section \<open>Reassembly of control frames\<close>

text \<open>
  What the bytes of the control channel mean, whatever their arrival: the complete lines that are
  not empty are frames, and the last piece waits for its end.
\<close>

abbreviation control_lines :: "bytes \<Rightarrow> bytes list" where
  "control_lines bs \<equiv> split_on 0x0a bs"

definition line_ok :: "(bytes \<Rightarrow> 'f option) \<Rightarrow> bytes \<Rightarrow> bool" where
  "line_ok from_json l \<longleftrightarrow> l = [] \<or> length l \<le> MAX_FRAME_LENGTH \<and> from_json l \<noteq> None"

definition line_frames :: "(bytes \<Rightarrow> 'f option) \<Rightarrow> bytes list \<Rightarrow> 'f list" where
  "line_frames from_json ls = map (\<lambda>l. the (from_json l)) (filter (\<lambda>l. l \<noteq> []) ls)"

definition waiting :: "bytes \<Rightarrow> SerialBuffer" where
  "waiting r = \<lparr>sb_bytes = r, sb_scanned = length r\<rparr>"

definition feed_chunk ::
    "(bytes \<Rightarrow> 'f option) \<Rightarrow> 'f list \<times> SerialBuffer \<Rightarrow> bytes \<Rightarrow> frame_error + 'f list \<times> SerialBuffer" where
  "feed_chunk from_json = (\<lambda>(frames, buffer) chunk.
     and_then (parse_chunk from_json buffer chunk) (\<lambda>(more, buffer'). Inr (frames @ more, buffer')))"

lemma drain_frames_iff:
  assumes "0x0a \<notin> set (take (sb_scanned b) (sb_bytes b))"
  shows "drain_frames from_json b = Inr (fs, b') \<longleftrightarrow>
    list_all (line_ok from_json) (butlast (control_lines (sb_bytes b)))
    \<and> fs = line_frames from_json (butlast (control_lines (sb_bytes b)))
    \<and> b' = waiting (last (control_lines (sb_bytes b)))"
  using assms
proof (induction "length (sb_bytes b)" arbitrary: b fs rule: less_induct)
  case (less b)
  show ?case
  proof (cases "position_of 0x0a (drop (sb_scanned b) (sb_bytes b))")
    case None
    then have "0x0a \<notin> set (take (sb_scanned b) (sb_bytes b) @ drop (sb_scanned b) (sb_bytes b))"
      using less.prems unfolding set_append position_of_None by blast
    then have "0x0a \<notin> set (sb_bytes b)" by simp
    then show ?thesis
      using None by (subst drain_frames.simps) (auto simp: split_on_free line_frames_def waiting_def)
  next
    case (Some offset)
    define index where "index = sb_scanned b + offset"
    define pre where "pre = take index (sb_bytes b)"
    define rest where "rest = \<lparr>sb_bytes = drop (index + 1) (sb_bytes b), sb_scanned = 0\<rparr>"
    from position_of_less [OF Some] have lt: "index < length (sb_bytes b)" by (simp add: index_def)
    note parts = position_of_Some [OF Some]
    have pre: "pre = take (sb_scanned b) (sb_bytes b) @ take offset (drop (sb_scanned b) (sb_bytes b))"
      by (simp add: pre_def index_def take_add)
    have nl: "sb_bytes b ! index = 0x0a"
      using position_of_nth [OF Some] lt by (simp add: index_def)
    have bytes: "sb_bytes b = pre @ 0x0a # sb_bytes rest"
      using id_take_nth_drop [OF lt] by (simp add: pre_def rest_def nl)
    have clean: "0x0a \<notin> set pre" using less.prems parts by (simp add: pre)
    have lines: "control_lines (sb_bytes b) = pre # control_lines (sb_bytes rest)"
      unfolding bytes using clean by (rule split_on_append_sep)
    have line: "take (index + 1) (sb_bytes b) = pre @ [0x0a]"
      using lt nl by (simp add: pre_def take_Suc_conv_app_nth)
    have step: "drain_frames from_json b =
       (if pre = [] then drain_frames from_json rest
        else if length pre > MAX_FRAME_LENGTH then Inl FrameTooLong
        else and_then (ok_or MalformedFrame (from_json pre)) (\<lambda>frame.
             and_then (drain_frames from_json rest) (\<lambda>(frames, buffer'). Inr (frame # frames, buffer'))))"
      by (subst drain_frames.simps) (simp only: Some option.case Let_def index_def [symmetric] line rest_def [symmetric], simp)
    have ok: "0x0a \<notin> set (take (sb_scanned rest) (sb_bytes rest))" by (simp add: rest_def)
    have shorter: "length (sb_bytes rest) < length (sb_bytes b)" using lt by (simp add: rest_def)
    note IH = less.hyps [OF shorter ok]
    have ne: "butlast (control_lines (sb_bytes b)) = pre # butlast (control_lines (sb_bytes rest))"
      "last (control_lines (sb_bytes b)) = last (control_lines (sb_bytes rest))"
      by (simp_all add: lines)
    show ?thesis
    proof (cases "pre = []")
      case True
      then show ?thesis by (simp add: step IH ne line_ok_def line_frames_def)
    next
      case False
      then show ?thesis by (auto simp: step IH ne line_ok_def line_frames_def)
    qed
  qed
qed

lemma parse_chunk_iff:
  assumes "0x0a \<notin> set r"
  shows "parse_chunk from_json (waiting r) chunk = Inr (fs, b') \<longleftrightarrow>
    list_all (line_ok from_json) (butlast (control_lines (r @ chunk)))
    \<and> length (last (control_lines (r @ chunk))) \<le> MAX_FRAME_LENGTH
    \<and> fs = line_frames from_json (butlast (control_lines (r @ chunk)))
    \<and> b' = waiting (last (control_lines (r @ chunk)))"
  using assms drain_frames_iff [of "(waiting r)\<lparr>sb_bytes := r @ chunk\<rparr>" from_json]
  by (auto simp: parse_chunk_def waiting_def)

lemma line_start_bounded:
  assumes "c \<notin> set r" and "list_all (line_ok from_json) (butlast (split_on c (r @ ys)))"
    and "length (last (split_on c (r @ ys))) \<le> MAX_FRAME_LENGTH"
  shows "length r \<le> MAX_FRAME_LENGTH"
proof -
  obtain q qs where q: "split_on c (r @ ys) = (r @ q) # qs" using split_on_start [OF assms(1)] by blast
  with assms(2,3) have "length (r @ q) \<le> MAX_FRAME_LENGTH"
    by (cases qs) (auto simp: line_ok_def)
  then show ?thesis by simp
qed

lemma feed_chunks_iff:
  assumes "0x0a \<notin> set r" and "length r \<le> MAX_FRAME_LENGTH"
  shows "for_each (feed_chunk from_json) (frames, waiting r) chunks = Inr (out, b) \<longleftrightarrow>
    list_all (line_ok from_json) (butlast (control_lines (r @ concat chunks)))
    \<and> length (last (control_lines (r @ concat chunks))) \<le> MAX_FRAME_LENGTH
    \<and> out = frames @ line_frames from_json (butlast (control_lines (r @ concat chunks)))
    \<and> b = waiting (last (control_lines (r @ concat chunks)))"
  using assms
proof (induction chunks arbitrary: frames r)
  case Nil
  then show ?case by (auto simp: split_on_free line_frames_def)
next
  case (Cons c cs)
  define r1 where "r1 = last (control_lines (r @ c))"
  define ls1 where "ls1 = butlast (control_lines (r @ c))"
  have clean: "0x0a \<notin> set r1" unfolding r1_def by (rule last_line_clean)
  have resume: "control_lines (r @ c @ concat cs) = ls1 @ control_lines (r1 @ concat cs)"
    using split_on_resume [of "0x0a" "r @ c" "concat cs"] by (simp add: r1_def ls1_def)
  have parts: "butlast (control_lines (r @ c @ concat cs)) = ls1 @ butlast (control_lines (r1 @ concat cs))"
    "last (control_lines (r @ c @ concat cs)) = last (control_lines (r1 @ concat cs))"
    by (simp_all add: resume butlast_append)
  note bounded = line_start_bounded [OF clean, of from_json "concat cs"]
  have split: "line_frames from_json (ls1 @ xs) = line_frames from_json ls1 @ line_frames from_json xs" for xs
    by (simp add: line_frames_def)
  show ?case
    using bounded parse_chunk_iff [OF Cons.prems(1), of from_json c, folded r1_def ls1_def]
      Cons.IH [OF clean]
    by (auto simp: feed_chunk_def parts split)
qed

section \<open>Effects of the operations\<close>

text \<open>Operations of the world leave the agent and the control channel alone.\<close>

definition same_agent :: "('r, 'w) machine \<Rightarrow> ('r, 'w) machine \<Rightarrow> bool" where
  "same_agent m m' \<longleftrightarrow> mc_agent m' = mc_agent m \<and> mc_written m' = mc_written m"

interpretation outside: progress same_agent
  by unfold_locales (simp_all add: same_agent_def)

lemma on_world_outside: "outside.steps (on_world e a)"
  by (auto simp: outside.steps_def on_world_def same_agent_def split: prod.splits)

lemma run_busybox_outside: "outside.steps (run_busybox env arguments)"
  unfolding run_busybox_def by (intro outside.steps_bind on_world_outside outside.steps_pure)

lemma configure_network_outside: "outside.steps (configure_network env)"
  unfolding configure_network_def by (intro outside.steps_bind run_busybox_outside outside.steps_pure)

lemma set_outage_outside: "outside.steps (set_outage env active)"
  unfolding set_outage_def Let_def case_prod_unfold
  by (intro outside.steps_bind run_busybox_outside on_world_outside outside.steps_pure)

lemmas outside_runs =
  configure_network_outside [unfolded outside.steps_def same_agent_def, rule_format]
  set_outage_outside [unfolded outside.steps_def same_agent_def, rule_format]

definition recorded :: "'r Agent \<Rightarrow> nat \<Rightarrow> Event \<Rightarrow> 'r Agent" where
  "recorded a command_id event =
     a\<lparr>ag_next_event_id := ag_next_event_id a + 1,
       ag_events := ag_events a
         @ (if is_assertion_event event then [event_frame (ag_next_event_id a) command_id event] else [])\<rparr>"

lemma emit_run:
  "emit env command_id event m =
     (case frame_bytes env (ag_line_framing (mc_agent m))
             (event_frame (ag_next_event_id (mc_agent m)) command_id event) of
        Inl e \<Rightarrow> (Inl (ControlFrame e),
          m\<lparr>mc_agent := (mc_agent m)\<lparr>ag_next_event_id := ag_next_event_id (mc_agent m) + 1\<rparr>\<rparr>)
      | Inr bs \<Rightarrow> (Inr (), m\<lparr>mc_agent := recorded (mc_agent m) command_id event, mc_written := mc_written m @ bs\<rparr>))"
  by (auto simp: emit_def act_bind_def modify_agent_def write_control_def recorded_def event_frame_def Let_def
      split: sum.splits)

lemma emit_Inr:
  "emit env command_id event m = (Inr u, m') \<longleftrightarrow>
     (\<exists>bs. frame_bytes env (ag_line_framing (mc_agent m))
             (event_frame (ag_next_event_id (mc_agent m)) command_id event) = Inr bs
        \<and> m' = m\<lparr>mc_agent := recorded (mc_agent m) command_id event, mc_written := mc_written m @ bs\<rparr>)"
  by (auto simp: emit_run split: sum.splits)

section \<open>The network state machine\<close>

datatype net = Down | Up | Cut

definition net_of :: "'r Agent \<Rightarrow> net" where
  "net_of a = (if \<not> ag_network_configured a then Down else if ag_outage_active a then Cut else Up)"

inductive net_step :: "net \<Rightarrow> Event \<Rightarrow> net \<Rightarrow> bool" where
  net_configure: "net_step Down (NetworkConfigured INTERFACE GUEST_CIDR GATEWAY) Up"
| net_cut: "net_step Up (OutageActivated PEER_CIDR OUTAGE_RULE) Cut"
| net_restore: "net_step Cut (NetworkRestored PEER_CIDR) Up"
| net_attempt: "n \<noteq> Down \<Longrightarrow> net_step n (RequestAttempted i p phase) n"
| net_success: "n \<noteq> Down \<Longrightarrow> net_step n (RequestSucceeded i p ri rp phase) n"
| net_unavailable: "n \<noteq> Down \<Longrightarrow> net_step n (RequestUnavailable i phase err errno) n"
| net_evaluated: "net_step n (AssertionsEvaluated report) n"

inductive net_path :: "net \<Rightarrow> Event list \<Rightarrow> net \<Rightarrow> bool" where
  net_stop: "net_path n [] n"
| net_go: "net_step n e n' \<Longrightarrow> net_path n' es n'' \<Longrightarrow> net_path n (e # es) n''"

inductive_simps net_path_Nil [simp]: "net_path n [] n'"
inductive_simps net_path_Cons: "net_path n (e # es) n'"

lemma net_path_append: "net_path n es n' \<Longrightarrow> net_path n' fs n'' \<Longrightarrow> net_path n (es @ fs) n''"
  by (induction rule: net_path.induct) (auto intro: net_go)

definition flags_ok :: "('r, 'w) machine \<Rightarrow> bool" where
  "flags_ok m \<longleftrightarrow> (ag_outage_active (mc_agent m) \<longrightarrow> ag_network_configured (mc_agent m))"

definition grown :: "'r Agent \<Rightarrow> EventFrame list \<Rightarrow> 'r Agent \<Rightarrow> bool" where
  "grown a fs b \<longleftrightarrow> ag_events b = ag_events a @ fs
     \<and> net_path (net_of a) (map ef_event fs) (net_of b)
     \<and> sorted_wrt (<) (map ef_event_id fs)
     \<and> list_all (\<lambda>f. ag_next_event_id a \<le> ef_event_id f \<and> ef_event_id f < ag_next_event_id b) fs
     \<and> ag_next_event_id a \<le> ag_next_event_id b"

definition evolves :: "('r, 'w) machine \<Rightarrow> ('r, 'w) machine \<Rightarrow> bool" where
  "evolves m m' \<longleftrightarrow> (flags_ok m \<longrightarrow> flags_ok m' \<and> (\<exists>fs. grown (mc_agent m) fs (mc_agent m')))"

lemma grown_refl: "ag_events b = ag_events a \<Longrightarrow> net_of b = net_of a \<Longrightarrow> ag_next_event_id a \<le> ag_next_event_id b \<Longrightarrow>
    grown a [] b"
  by (simp add: grown_def)

lemma grown_trans: "grown a fs b \<Longrightarrow> grown b gs c \<Longrightarrow> grown a (fs @ gs) c"
  by (auto simp: grown_def list_all_iff sorted_wrt_append intro: net_path_append) (meson less_le_trans order_trans)+

interpretation history: progress evolves
proof
  fix m :: "('r, 'w) machine"
  show "evolves m m" by (auto simp: evolves_def intro: grown_refl)
next
  fix m m' m'' :: "('r, 'w) machine"
  assume "evolves m m'" "evolves m' m''"
  then show "evolves m m''" unfolding evolves_def by (meson grown_trans)
qed

text \<open>
  What the agent relies on from the runtime it owns: none of its events is one of the network
  fixture's, which only the agent itself emits.
\<close>

locale workload_runtime =
  fixes ops :: "'r runtime_ops"
  assumes start_quiet: "rt_start ops invocation launch r = (Inr events, r') \<Longrightarrow> event \<in> set events \<Longrightarrow> \<not> is_assertion_event event"
    and stdin_write_quiet: "rt_stdin_write ops invocation offset bytes r = (Inr events, r') \<Longrightarrow> event \<in> set events \<Longrightarrow>
      \<not> is_assertion_event event"
    and stdin_eof_quiet: "rt_stdin_eof ops invocation r = (Inr events, r') \<Longrightarrow> event \<in> set events \<Longrightarrow> \<not> is_assertion_event event"
    and terminate_quiet: "rt_terminate ops invocation r = (Inr events, r') \<Longrightarrow> event \<in> set events \<Longrightarrow> \<not> is_assertion_event event"
    and poll_quiet: "rt_poll ops r = (Inr events, r') \<Longrightarrow> event \<in> set events \<Longrightarrow> \<not> is_assertion_event event"
    and shutdown_quiet: "rt_shutdown ops r = (Inr events, r') \<Longrightarrow> event \<in> set events \<Longrightarrow> \<not> is_assertion_event event"

lemma recorded_simps [simp]:
  "ag_network_configured (recorded a c e) = ag_network_configured a"
  "ag_outage_active (recorded a c e) = ag_outage_active a"
  "ag_next_event_id (recorded a c e) = ag_next_event_id a + 1"
  "ag_line_framing (recorded a c e) = ag_line_framing a"
  "ag_exit_code (recorded a c e) = ag_exit_code a"
  "ag_runtime (recorded a c e) = ag_runtime a"
  by (simp_all add: recorded_def)

lemma event_frame_simps [simp]:
  "ef_event (event_frame i c e) = e" "ef_event_id (event_frame i c e) = i" "ef_command_id (event_frame i c e) = c"
  by (simp_all add: event_frame_def)

lemma recorded_grown:
  assumes "ag_events a = ag_events a0" and "ag_next_event_id a = ag_next_event_id a0"
    and "if is_assertion_event e then net_step (net_of a0) e (net_of a) else net_of a = net_of a0"
  shows "\<exists>fs. grown a0 fs (recorded a c e)"
proof -
  have n: "net_of (recorded a c e) = net_of a" by (simp add: net_of_def)
  show ?thesis
  proof (cases "is_assertion_event e")
    case True
    with assms n show ?thesis
      by (intro exI [of _ "[event_frame (ag_next_event_id a) c e]"])
        (auto simp: grown_def recorded_def intro: net_go)
  next
    case False
    with assms n show ?thesis by (intro exI [of _ "[]"]) (auto simp: grown_def recorded_def)
  qed
qed

lemma emit_evolves:
  assumes "emit env c e m1 = (Inr u, m')" and "ag_events (mc_agent m1) = ag_events (mc_agent m)"
    and "ag_next_event_id (mc_agent m1) = ag_next_event_id (mc_agent m)"
    and "flags_ok m \<Longrightarrow> flags_ok m1"
    and "flags_ok m \<Longrightarrow>
      if is_assertion_event e then net_step (net_of (mc_agent m)) e (net_of (mc_agent m1)) else net_of (mc_agent m1) = net_of (mc_agent m)"
  shows "evolves m m'"
proof (unfold evolves_def, rule impI)
  assume ok: "flags_ok m"
  from assms(1) obtain bs where
    m': "m' = m1\<lparr>mc_agent := recorded (mc_agent m1) c e, mc_written := mc_written m1 @ bs\<rparr>" by (auto simp: emit_Inr)
  with assms(4) [OF ok] have "flags_ok m'" by (simp add: flags_ok_def)
  moreover have "\<exists>fs. grown (mc_agent m) fs (mc_agent m')"
    using recorded_grown [OF assms(2,3) assms(5) [OF ok]] by (simp add: m')
  ultimately show "flags_ok m' \<and> (\<exists>fs. grown (mc_agent m) fs (mc_agent m'))" by blast
qed

lemma emit_quiet: "\<not> is_assertion_event e \<Longrightarrow> history.steps (emit env c e)"
  unfolding history.steps_def by (auto intro: emit_evolves)

lemma emit_all_quiet:
  assumes "\<And>e. e \<in> set events \<Longrightarrow> \<not> is_assertion_event e"
  shows "history.steps (emit_all env c events)"
  using assms
proof (induction events)
  case Nil
  show ?case unfolding emit_all_def act_each.simps by (rule history.steps_pure)
next
  case (Cons e es)
  then have "history.steps (act_bind (emit env c e) (\<lambda>_. emit_all env c es))"
    by (intro history.steps_bind emit_quiet) auto
  then show ?case by (simp add: emit_all_def)
qed

lemma evolves_same:
  "ag_events (mc_agent m') = ag_events (mc_agent m) \<Longrightarrow> ag_next_event_id (mc_agent m') = ag_next_event_id (mc_agent m) \<Longrightarrow>
   ag_network_configured (mc_agent m') = ag_network_configured (mc_agent m) \<Longrightarrow>
   ag_outage_active (mc_agent m') = ag_outage_active (mc_agent m) \<Longrightarrow> evolves m m'"
  unfolding evolves_def flags_ok_def by (simp add: net_of_def grown_refl exI [of _ "[]"])

lemma evolves_runtime: "evolves m (m\<lparr>mc_agent := (mc_agent m)\<lparr>ag_runtime := r\<rparr>\<rparr>)"
  by (rule evolves_same) simp_all

context workload_runtime
begin

lemma service_runtime_evolves:
  assumes "ae_runtime env = ops" and "service_runtime env m = (Inr u, m')"
  shows "evolves m m'"
proof (cases "ag_runtime (mc_agent m)")
  case None
  with assms show ?thesis by (simp add: service_runtime_def history.rel_refl)
next
  case (Some r)
  with assms obtain events r' where p: "rt_poll ops r = (Inr events, r')"
    and e: "emit_all env (ag_last_command_id (mc_agent m)) events (m\<lparr>mc_agent := (mc_agent m)\<lparr>ag_runtime := Some r'\<rparr>\<rparr>) = (Inr u, m')"
    by (auto simp: service_runtime_def split: prod.splits sum.splits)
  have "evolves (m\<lparr>mc_agent := (mc_agent m)\<lparr>ag_runtime := Some r'\<rparr>\<rparr>) m'"
    using emit_all_quiet [of events env] poll_quiet [OF p] e by (auto simp: history.steps_def)
  with evolves_runtime show ?thesis by (rule history.rel_trans)
qed

lemma on_runtime_evolves:
  assumes "on_runtime r operation m = (Inr events, m1)"
    and "\<And>r r' events event. operation r = (Inr events, r') \<Longrightarrow> event \<in> set events \<Longrightarrow> \<not> is_assertion_event event"
    and "emit_all env c events m1 = (Inr u, m')"
  shows "evolves m m'"
proof -
  from assms(1) obtain r' where op: "operation r = (Inr events, r')"
    and m1: "m1 = m\<lparr>mc_agent := (mc_agent m)\<lparr>ag_runtime := Some r'\<rparr>\<rparr>"
    by (auto simp: on_runtime_def split: prod.splits)
  have "evolves m1 m'"
    using emit_all_quiet [of events env] assms(2) [OF op] assms(3) by (auto simp: history.steps_def)
  with evolves_runtime show ?thesis unfolding m1 by (rule history.rel_trans)
qed

lemma runtime_events_evolves:
  assumes "runtime_events env c operation m = (Inr b, m')"
    and "\<And>r r' events event. operation r = (Inr events, r') \<Longrightarrow> event \<in> set events \<Longrightarrow> \<not> is_assertion_event event"
  shows "evolves m m'"
  using assms(1) on_runtime_evolves [OF _ assms(2)]
  by (auto simp: runtime_events_def require_runtime_def act_bind_Inr)

lemma shutdown_runtime_evolves:
  assumes "ae_runtime env = ops" and "shutdown_runtime env m = (Inr u, m')"
  shows "evolves m m'"
proof (cases "ag_runtime (mc_agent m)")
  case None
  with assms show ?thesis by (simp add: shutdown_runtime_def act_bind_Inr emit_all_def history.rel_refl)
next
  case (Some r)
  with assms obtain events m1 where a: "on_runtime r (rt_shutdown ops) m = (Inr events, m1)"
    and b: "emit_all env (ag_last_command_id (mc_agent m)) events m1 = (Inr u, m')"
    by (auto simp: shutdown_runtime_def act_bind_Inr)
  show ?thesis using shutdown_quiet by (rule on_runtime_evolves [OF a _ b])
qed

lemma start_evolves:
  assumes "ae_runtime env = ops" and "start_events env i l m = (Inr events, m1)" and "emit_all env c events m1 = (Inr u, m')"
  shows "evolves m m'"
proof (cases "ag_runtime (mc_agent m)")
  case None
  with assms(2) have m1: "m1 = m" "events = [LaunchFailed i NoRuntime ''no workload runtime is configured'']"
    by (auto simp: start_events_def)
  have "history.steps (emit_all env c events)" by (rule emit_all_quiet) (simp add: m1 is_assertion_event_def)
  with assms(3) show ?thesis by (simp add: m1 history.steps_def)
next
  case (Some r)
  with assms(1,2) have st: "on_runtime r (rt_start ops i l) m = (Inr events, m1)" by (simp add: start_events_def)
  show ?thesis using start_quiet by (rule on_runtime_evolves [OF st _ assms(3)])
qed

lemma dispatch_evolves:
  assumes "ae_runtime env = ops" and "dispatch env c command m = (Inr b, m')"
  shows "evolves m m'"
proof (cases command)
  case (ConfigureNetwork i g w)
  with assms(2) obtain m1 where guard: "(i, g, w) = (INTERFACE, GUEST_CIDR, GATEWAY)" "\<not> ag_network_configured (mc_agent m)"
    and run: "configure_network env m = (Inr (), m1)"
    and e: "emit env c (NetworkConfigured i g w) (m1\<lparr>mc_agent := (mc_agent m1)\<lparr>ag_network_configured := True\<rparr>\<rparr>) = (Inr (), m')"
    by (auto simp: act_bind_Inr require_network_values_def act_require_Inr modify_agent_def split: if_splits)
  show ?thesis
    using outside_runs(1) [OF run] guard
    by (intro emit_evolves [OF e]) (auto simp: flags_ok_def net_of_def is_assertion_event_def intro: net_configure)
next
  case (ActivateOutage p)
  with assms(2) obtain m1 where guard: "ag_network_configured (mc_agent m)" "p = PEER_CIDR" "\<not> ag_outage_active (mc_agent m)"
    and run: "set_outage env True m = (Inr (), m1)"
    and e: "emit env c (OutageActivated p OUTAGE_RULE) (m1\<lparr>mc_agent := (mc_agent m1)\<lparr>ag_outage_active := True\<rparr>\<rparr>) = (Inr (), m')"
    by (auto simp: act_bind_Inr require_network_def require_peer_def act_require_Inr modify_agent_def split: if_splits)
  show ?thesis
    using outside_runs(2) [OF run] guard
    by (intro emit_evolves [OF e]) (auto simp: flags_ok_def net_of_def is_assertion_event_def intro: net_cut)
next
  case (RestoreNetwork p)
  with assms(2) obtain m1 where guard: "ag_network_configured (mc_agent m)" "p = PEER_CIDR" "ag_outage_active (mc_agent m)"
    and run: "set_outage env False m = (Inr (), m1)"
    and e: "emit env c (NetworkRestored p) (m1\<lparr>mc_agent := (mc_agent m1)\<lparr>ag_outage_active := False\<rparr>\<rparr>) = (Inr (), m')"
    by (auto simp: act_bind_Inr require_network_def require_peer_def act_require_Inr modify_agent_def split: if_splits)
  show ?thesis
    using outside_runs(2) [OF run] guard
    by (intro emit_evolves [OF e]) (auto simp: flags_ok_def net_of_def is_assertion_event_def intro: net_restore)
next
  case (Request i p phase)
  with assms(2) obtain m1 m2 result where guard: "ag_network_configured (mc_agent m)"
    and e1: "emit env c (RequestAttempted i p phase) m = (Inr (), m1)"
    and run: "fixture_request env i m1 = (Inr result, m2)"
    and e2: "emit env c (request_outcome i p phase result) m2 = (Inr (), m')"
    by (auto simp: act_bind_Inr require_network_def act_require_Inr split: if_splits)
  have n: "net_of (mc_agent m) \<noteq> Down" using guard by (simp add: net_of_def)
  have "evolves m m1"
    using n by (intro emit_evolves [OF e1]) (auto simp: is_assertion_event_def intro: net_attempt)
  moreover have "evolves m1 m2"
    using run by (intro evolves_same) (auto simp: fixture_request_def Let_def split: prod.splits)
  moreover have "net_of (mc_agent m2) \<noteq> Down"
    using guard e1 run by (auto simp: emit_Inr net_of_def fixture_request_def Let_def split: prod.splits)
  then have "evolves m2 m'"
    by (intro emit_evolves [OF e2])
      (auto simp: is_assertion_event_def request_outcome_def intro: net_success net_unavailable split: sum.splits)
  ultimately show ?thesis using history.rel_trans by blast
next
  case (Check o l)
  with assms(2) obtain m1 report where
    e: "emit env c (AssertionsEvaluated report) m1 = (Inr (), m')" and
    m1: "m1 = m\<lparr>mc_agent := (mc_agent m)\<lparr>ag_exit_code := max (ag_exit_code (mc_agent m)) (report_exit_code report)\<rparr>\<rparr>"
    by (auto simp: act_bind_Inr modify_agent_def Let_def)
  show ?thesis
    by (intro emit_evolves [OF e]) (auto simp: m1 flags_ok_def net_of_def is_assertion_event_def intro: net_evaluated)
next
  case (Start i l)
  with assms show ?thesis by (auto simp: act_bind_Inr intro: start_evolves)
next
  case (StdinWrite i o bs)
  show ?thesis
    by (rule runtime_events_evolves [OF assms(2) [unfolded StdinWrite dispatch.simps assms(1)] stdin_write_quiet])
next
  case (StdinEof i)
  show ?thesis
    by (rule runtime_events_evolves [OF assms(2) [unfolded StdinEof dispatch.simps assms(1)] stdin_eof_quiet])
next
  case (Terminate i)
  show ?thesis
    by (rule runtime_events_evolves [OF assms(2) [unfolded Terminate dispatch.simps assms(1)] terminate_quiet])
next
  case Shutdown
  with assms(2) obtain m1 where sd: "shutdown_runtime env m = (Inr (), m1)"
    and e: "emit env c AgentStopped m1 = (Inr (), m')"
    by (auto simp: act_bind_Inr act_require_Inr split: if_splits)
  have "evolves m1 m'" using emit_quiet [of AgentStopped env c] e by (auto simp: is_assertion_event_def history.steps_def)
  with shutdown_runtime_evolves [OF assms(1) sd] show ?thesis by (rule history.rel_trans)
qed

end

context workload_runtime
begin

lemma handle_frame_evolves:
  assumes "ae_runtime env = ops" and "handle_frame env frame m = (Inr b, m')"
  shows "evolves m m'"
proof -
  from assms(2) obtain m1 where m1: "m1 = m\<lparr>mc_agent := (mc_agent m)\<lparr>ag_last_command_id := cf_command_id frame\<rparr>\<rparr>"
    and d: "dispatch env (cf_command_id frame) (cf_command frame) m1 = (Inr b, m')"
    by (auto simp: handle_frame_def act_bind_Inr modify_agent_def)
  have "evolves m m1" unfolding m1 by (rule evolves_same) simp_all
  with dispatch_evolves [OF assms(1) d] show ?thesis using history.rel_trans by blast
qed

lemma handle_frames_evolves:
  assumes "ae_runtime env = ops" and "handle_frames env frames m = (Inr b, m')"
  shows "evolves m m'"
  using assms(2)
proof (induction frames arbitrary: m)
  case Nil
  then show ?case by (simp add: history.rel_refl)
next
  case (Cons f fs)
  then obtain b1 m1 where h: "handle_frame env f m = (Inr b1, m1)"
    and r: "(if b1 then handle_frames env fs else act_return False) m1 = (Inr b, m')"
    by (auto simp: act_bind_Inr)
  have "evolves m1 m'" using r Cons.IH [of m1] by (auto simp: history.rel_refl split: if_splits)
  with handle_frame_evolves [OF assms(1) h] show ?case by (rule history.rel_trans)
qed

lemma read_serial_evolves: "read_serial_frames env result buffer m = (Inr x, m') \<Longrightarrow> evolves m m'"
  by (rule evolves_same)
    (auto simp: read_serial_frames_def act_bind_Inr write_control_def split: serial_read.splits if_splits prod.splits)

lemma close_control_evolves:
  assumes "ae_runtime env = ops" and "close_control env m = (Inr u, m')"
  shows "evolves m m'"
  using assms shutdown_runtime_evolves
  by (auto simp: close_control_def act_bind_Inr Let_def split: if_splits)

lemma poll_loop_evolves:
  assumes "ae_runtime env = ops" and "poll_loop env outcomes buffer m = (r, m')" and "r = None \<or> r = Some (Inr ())"
  shows "evolves m m'"
  using assms(2)
proof (induction outcomes arbitrary: buffer m)
  case Nil
  then show ?case by (simp add: history.rel_refl)
next
  case (Cons outcome outcomes)
  from Cons.prems assms(3) obtain m1 where sr: "service_runtime env m = (Inr (), m1)"
    by (cases "service_runtime env m") (auto split: sum.splits)
  note e1 = service_runtime_evolves [OF assms(1) sr]
  show ?case
  proof (cases outcome)
    case (PollReady result)
    with Cons.prems sr assms(3) obtain frames buffer' m2 where
      rd: "read_serial_frames env result buffer m1 = (Inr (frames, buffer'), m2)"
      by (auto split: prod.splits sum.splits)
    note e2 = history.rel_trans [OF e1 read_serial_evolves [OF rd]]
    show ?thesis
    proof (cases frames)
      case None
      with Cons.prems sr PollReady rd assms(3) have "close_control env m2 = (Inr (), m')"
        by (auto split: prod.splits)
      with close_control_evolves [OF assms(1)] e2 show ?thesis by (blast intro: history.rel_trans)
    next
      case (Some fs)
      with Cons.prems sr PollReady rd assms(3) obtain b m3 where
        h: "handle_frames env fs m2 = (Inr b, m3)" and
        rest: "if b then poll_loop env outcomes buffer' m3 = (r, m') else m' = m3"
        by (auto split: prod.splits sum.splits if_splits)
      have "evolves m3 m'" using rest Cons.IH by (auto simp: history.rel_refl split: if_splits)
      with handle_frames_evolves [OF assms(1) h] e2 show ?thesis by (blast intro: history.rel_trans)
    qed
  qed (use Cons sr e1 assms(3) in \<open>auto intro: history.rel_trans\<close>)
qed

lemma command_loop_evolves:
  assumes "ae_runtime env = ops" and "command_loop env r m = (Inr u, m')"
  shows "evolves m m'"
  using assms(2)
proof (induction "length r" arbitrary: r m rule: less_induct)
  case less
  obtain result acks where rd: "read_control env (ag_line_framing (mc_agent m)) r = (result, acks)" by fastforce
  let ?m = "m\<lparr>mc_written := mc_written m @ acks\<rparr>"
  have e1: "evolves m ?m" by (rule evolves_same) simp_all
  from less.prems rd consider (stop) "m' = ?m"
    | (frame) frame r' b m1 where "result = Inr (Some (frame, r'))" "handle_frame env frame ?m = (Inr b, m1)"
      "if b then command_loop env r' m1 = (Inr u, m') else m' = m1"
    by (subst (asm) command_loop.simps) (auto split: sum.splits option.splits prod.splits if_splits)
  then show ?case
  proof cases
    case stop
    with e1 show ?thesis by simp
  next
    case frame
    have "length r' < length r" using rd frame(1) read_control_shorter by blast
    then have "evolves m1 m'" using frame(3) less.hyps by (auto simp: history.rel_refl split: if_splits)
    with handle_frame_evolves [OF assms(1) frame(2)] e1 show ?thesis by (blast intro: history.rel_trans)
  qed
qed

end

lemma evolves_from_new:
  assumes "evolves m m'" and "mc_agent m = Agent_new framing rt"
  shows "net_path Down (map ef_event (ag_events (mc_agent m'))) (net_of (mc_agent m'))
    \<and> sorted_wrt (<) (map ef_event_id (ag_events (mc_agent m')))
    \<and> list_all (\<lambda>f. ef_event_id f < ag_next_event_id (mc_agent m')) (ag_events (mc_agent m'))"
  using assms by (auto simp: evolves_def flags_ok_def Agent_new_def grown_def net_of_def list_all_iff)

section \<open>Requests\<close>

lemma request_run:
  assumes "dispatch env c (Request i p phase) m = (Inr b, m')"
  shows "\<exists>failed received w. ae_socket env i (mc_world m) = ((failed, received), w) \<and> b \<and>
    mc_agent m' = (mc_agent m)\<lparr>ag_next_event_id := ag_next_event_id (mc_agent m) + 2,
      ag_events := ag_events (mc_agent m)
        @ [event_frame (ag_next_event_id (mc_agent m)) c (RequestAttempted i p phase),
           event_frame (ag_next_event_id (mc_agent m) + 1) c
             (request_outcome i p phase (fst (tftp_request 0 i failed received)))]\<rparr>"
proof -
  obtain failed received w where s: "ae_socket env i (mc_world m) = ((failed, received), w)"
    by (metis surj_pair)
  have outcome: "is_assertion_event (request_outcome i p phase r)" for r
    by (simp add: request_outcome_def is_assertion_event_def split: sum.splits)
  from assms s show ?thesis
    by (auto simp: act_bind_Inr require_network_def fixture_request_def emit_Inr recorded_def outcome
        is_assertion_event_def [of "RequestAttempted _ _ _"] split: if_splits)
qed

section \<open>The runtime off Linux\<close>

text \<open>
  \<open>runtime_stub.rs\<close>: the runtime of the platforms without one. It cannot be constructed, every
  operation reports that it is unsupported, and a start is a typed launch failure.
\<close>

record RuntimeLimits =
  rl_input_bytes :: nat
  rl_output_bytes :: nat
  rl_input_frame_bytes :: nat
  rl_output_frame_bytes :: nat
  rl_template_entries :: nat
  rl_template_path_bytes :: nat
  rl_file_bytes :: nat

definition RuntimeLimits_default :: RuntimeLimits where
  "RuntimeLimits_default =
     \<lparr>rl_input_bytes = MAX_INVOCATION_INPUT_BYTES, rl_output_bytes = MAX_INVOCATION_OUTPUT_BYTES,
      rl_input_frame_bytes = MAX_STDIN_FRAME_BYTES, rl_output_frame_bytes = MAX_OUTPUT_FRAME_BYTES,
      rl_template_entries = MAX_VIEW_ENTRIES, rl_template_path_bytes = MAX_PATH_BYTES,
      rl_file_bytes = MAX_FILE_BYTES\<rparr>"

definition unsupported :: string where
  "unsupported = ''the guest process runtime supports Linux only''"

definition stub_ops :: "RuntimeLimits runtime_ops" where
  "stub_ops =
     \<lparr>rt_start = (\<lambda>invocation launch. act_return [LaunchFailed invocation NoRuntime unsupported]),
      rt_stdin_write = (\<lambda>invocation offset bytes. act_fail unsupported),
      rt_stdin_eof = (\<lambda>invocation. act_fail unsupported),
      rt_terminate = (\<lambda>invocation. act_fail unsupported),
      rt_poll = act_fail unsupported,
      rt_shutdown = act_fail unsupported,
      rt_is_active = (\<lambda>r. False)\<rparr>"

interpretation stub: workload_runtime stub_ops
  by unfold_locales (auto simp: stub_ops_def is_assertion_event_def)

section \<open>Refused commands\<close>

definition refusals :: "agent_error set" where
  "refusals = {NetworkProfile, NetworkAlreadyConfigured, NetworkNotConfigured, FaultPeer, OutageAlreadyActive,
     OutageNotActive, OutageAtShutdown, RequestContract, NoRuntimeConfigured}"

lemma world_errors:
  "run_busybox env args m = (Inl e, m') \<Longrightarrow> e \<notin> refusals"
  "configure_network env m = (Inl e, m') \<Longrightarrow> e \<notin> refusals"
  "set_outage env active m = (Inl e, m') \<Longrightarrow> e \<notin> refusals"
proof -
  show b: "run_busybox env args m = (Inl e, m') \<Longrightarrow> e \<notin> refusals" for args m m'
    by (auto simp: run_busybox_def act_bind_Inl on_world_def refusals_def split: if_splits prod.splits)
      (auto simp: map_err_def split: sum.splits)
  show "configure_network env m = (Inl e, m') \<Longrightarrow> e \<notin> refusals"
    by (auto simp: configure_network_def act_bind_Inl dest: b)
      (auto simp: refusals_def ok_or_def split: if_splits option.splits)
  show "set_outage env active m = (Inl e, m') \<Longrightarrow> e \<notin> refusals"
    by (auto simp: set_outage_def act_bind_Inl on_world_def Let_def dest: b split: if_splits prod.splits)
      (auto simp: refusals_def map_err_def split: sum.splits)
qed

lemma emit_errors: "emit env c e m = (Inl err, m') \<Longrightarrow> err \<notin> refusals"
  by (auto simp: emit_run refusals_def split: sum.splits)

lemma emit_all_errors: "emit_all env c es m = (Inl err, m') \<Longrightarrow> err \<notin> refusals"
  unfolding emit_all_def by (induction es arbitrary: m) (auto simp: act_bind_Inl dest: emit_errors)

lemma runtime_errors: "on_runtime r operation m = (Inl err, m') \<Longrightarrow> err \<notin> refusals"
  by (auto simp: on_runtime_def refusals_def map_err_def split: prod.splits sum.splits)

lemma runtime_events_refusal:
  "runtime_events env c operation m = (Inl err, m') \<Longrightarrow> err \<in> refusals \<Longrightarrow> m' = m"
  using runtime_errors emit_all_errors
  by (fastforce simp: runtime_events_def require_runtime_def act_bind_Inl)

lemma shutdown_runtime_errors: "shutdown_runtime env m = (Inl err, m') \<Longrightarrow> err \<notin> refusals"
  using runtime_errors emit_all_errors
  by (fastforce simp: shutdown_runtime_def act_bind_Inl split: option.splits)

lemma fixture_request_total: "fixture_request env i m \<noteq> (Inl err, m')"
  by (auto simp: fixture_request_def Let_def split: prod.splits)

lemma dispatch_refusal:
  assumes "dispatch env c command m = (Inl err, m')" and "err \<in> refusals"
  shows "m' = m"
proof (cases command)
  case (Start i l)
  with assms show ?thesis
    by (auto simp: act_bind_Inl start_events_def dest: emit_all_errors runtime_errors split: option.splits prod.splits)
next
  case (Check x y)
  with assms show ?thesis by (auto simp: act_bind_Inl modify_agent_def Let_def dest: emit_errors)
next
  case (Request i p phase)
  with assms show ?thesis
    by (auto simp: act_bind_Inl require_network_def fixture_request_total dest: emit_errors split: if_splits)
next
  case Shutdown
  with assms show ?thesis
    by (auto simp: act_bind_Inl dest: emit_errors shutdown_runtime_errors split: if_splits)
next
  case (ConfigureNetwork i g w)
  with assms show ?thesis
    by (auto simp: act_bind_Inl require_network_values_def modify_agent_def dest: emit_errors world_errors split: if_splits)
next
  case (ActivateOutage p)
  with assms show ?thesis
    by (auto simp: act_bind_Inl require_network_def require_peer_def modify_agent_def
        dest: emit_errors world_errors split: if_splits)
next
  case (RestoreNetwork p)
  with assms show ?thesis
    by (auto simp: act_bind_Inl require_network_def require_peer_def modify_agent_def
        dest: emit_errors world_errors split: if_splits)
qed (use assms in \<open>auto dest: runtime_events_refusal\<close>)

section \<open>Properties\<close>

text \<open>
  C27. The agent's polling loop keeps a legal history: as long as it has not failed, whatever the
  control bytes, the runtime's events and the environment, the retained events are a run of the
  network state machine (configure once, then cut and restore in turn, requests only on a
  configured network) that ends in the state of the agent's flags, and their identifiers increase
  strictly below the next one.
\<close>

theorem agent_history_legal:
  assumes "workload_runtime (ae_runtime env)"
    and "poll_loop env outcomes SerialBuffer_default \<lparr>mc_agent = Agent_new True rt, mc_world = w, mc_written = bs\<rparr> = (r, m)"
    and "r = None \<or> r = Some (Inr ())"
  shows "net_path Down (map ef_event (ag_events (mc_agent m))) (net_of (mc_agent m))
    \<and> sorted_wrt (<) (map ef_event_id (ag_events (mc_agent m)))
    \<and> list_all (\<lambda>f. ef_event_id f < ag_next_event_id (mc_agent m)) (ag_events (mc_agent m))"
  using workload_runtime.poll_loop_evolves [OF assms(1) refl assms(2,3)] by (rule evolves_from_new) simp

text \<open>
  The blocking command loop, on either framing, keeps a legal history as well.
\<close>

theorem command_loop_history_legal:
  assumes "workload_runtime (ae_runtime env)"
    and "command_loop env input \<lparr>mc_agent = Agent_new framing rt, mc_world = w, mc_written = bs\<rparr> = (Inr (), m)"
  shows "net_path Down (map ef_event (ag_events (mc_agent m))) (net_of (mc_agent m))
    \<and> sorted_wrt (<) (map ef_event_id (ag_events (mc_agent m)))
    \<and> list_all (\<lambda>f. ef_event_id f < ag_next_event_id (mc_agent m)) (ag_events (mc_agent m))"
  using workload_runtime.command_loop_evolves [OF assms(1) refl assms(2)] by (rule evolves_from_new) simp

text \<open>
  A refused command changes nothing: when the agent rejects a command because of its values,
  of the network state or of the missing runtime, the agent, the world and the control channel
  are as before.
\<close>

theorem agent_refusal_atomic:
  assumes "dispatch env command_id command m = (Inl err, m')" and "err \<in> refusals"
  shows "m' = m"
  using assms by (rule dispatch_refusal)

text \<open>
  A request that is carried out emits exactly two events of its command, the attempt and one
  outcome, with consecutive identifiers; the outcome is the fixture's response, or unavailable with
  the error classified: refused by the route (EACCES), an invalid response, or transport.
\<close>

theorem request_two_events:
  assumes "dispatch env command_id (Request request_id payload phase) m = (Inr continue, m')"
  shows "\<exists>failed received w. ae_socket env request_id (mc_world m) = ((failed, received), w) \<and> continue \<and>
    ag_events (mc_agent m') = ag_events (mc_agent m)
      @ [event_frame (ag_next_event_id (mc_agent m)) command_id (RequestAttempted request_id payload phase),
         event_frame (ag_next_event_id (mc_agent m) + 1) command_id
           (case fst (tftp_request 0 request_id failed received) of
              Inr (response_id, response_payload) \<Rightarrow>
                RequestSucceeded request_id payload response_id response_payload phase
            | Inl e \<Rightarrow> RequestUnavailable request_id phase
                (if raw_os_error e = Some EACCES then AdministrativeProhibited
                 else if is_invalid_data e then InvalidResponse else Transport)
                (raw_os_error e))]
    \<and> ag_next_event_id (mc_agent m') = ag_next_event_id (mc_agent m) + 2"
  using request_run [OF assms] unfolding request_outcome_def classify_error_def by fastforce

text \<open>
  C28. The serial buffer reassembles control frames independently of how the bytes arrive: feeding
  any chunks in order succeeds exactly when every complete non-empty line of their concatenation is
  a frame within the limit and the unfinished rest is within the limit too, and then it yields
  these frames in order and keeps the rest.
\<close>

theorem serial_reassembly:
  "for_each (feed_chunk from_json) ([], SerialBuffer_default) chunks = Inr (frames, buffer) \<longleftrightarrow>
     list_all (\<lambda>l. l = [] \<or> length l \<le> MAX_FRAME_LENGTH \<and> from_json l \<noteq> None)
       (butlast (split_on 0x0a (concat chunks)))
     \<and> length (last (split_on 0x0a (concat chunks))) \<le> MAX_FRAME_LENGTH
     \<and> frames = map (\<lambda>l. the (from_json l)) (filter (\<lambda>l. l \<noteq> []) (butlast (split_on 0x0a (concat chunks))))
     \<and> sb_bytes buffer = last (split_on 0x0a (concat chunks)) \<and> sb_scanned buffer = length (sb_bytes buffer)"
proof -
  have "waiting [] = SerialBuffer_default" by (simp add: waiting_def SerialBuffer_default_def)
  with feed_chunks_iff [of "[]" from_json "[]" chunks frames buffer] show ?thesis
    by (auto simp: line_ok_def [abs_def] line_frames_def waiting_def)
qed

section \<open>Witnesses\<close>

text \<open>A guest whose world is the peer-specific route: present or not.\<close>

definition route_world :: "string list \<Rightarrow> (bool, unit, bool) action" where
  "route_world args = (\<lambda>present. (Inr True,
     if take 4 args = [''ip'', ''route'', ''add'', ''prohibit''] then True
     else if take 4 args = [''ip'', ''route'', ''del'', ''prohibit''] then False else present))"

definition sample_command :: "bytes \<Rightarrow> CommandFrame option" where
  "sample_command bs =
     map_option (\<lambda>c. \<lparr>cf_protocol_version = 1, cf_command_id = length bs, cf_command = c\<rparr>)
       (if bs = [1] then Some (ConfigureNetwork INTERFACE GUEST_CIDR GATEWAY)
        else if bs = [1, 1] then Some (ActivateOutage PEER_CIDR)
        else if bs = [1, 1, 1] then Some (RestoreNetwork PEER_CIDR)
        else None)"

definition sample_env :: "(RuntimeLimits, bool) agent_env" where
  "sample_env = \<lparr>ae_to_json = (\<lambda>f. Some [7]), ae_from_json = sample_command, ae_runtime = stub_ops,
     ae_status = route_world, ae_output = (\<lambda>args present. (Inr (True, if present then as_bytes OUTAGE_RULE else []), present)),
     ae_driver = (\<lambda>w. Some (Some ''8139cp'')),
     ae_socket = (\<lambda>i present. ((if present then Some (Some EACCES) else None, []), present))\<rparr>"

definition sample_machine :: "bool \<Rightarrow> (RuntimeLimits, bool) machine" where
  "sample_machine framing = \<lparr>mc_agent = Agent_new framing None, mc_world = False, mc_written = []\<rparr>"

lemma sample_route:
  "route_present (as_bytes OUTAGE_RULE)" "\<not> route_present []"
  by (simp_all add: route_present_def starts_with_def OUTAGE_RULE_def trim_end_def as_bytes_def)

lemmas sample_run =
  sample_env_def sample_machine_def Agent_new_def handle_frame_def require_version_def PROTOCOL_VERSION_def
  require_network_values_def require_network_def require_peer_def configure_network_def set_outage_def run_busybox_def
  on_world_def modify_agent_def emit_run frame_bytes_def write_line_frame_def write_frame_def MAX_FRAME_LENGTH_def
  recorded_def is_assertion_event_def sample_route route_world_def

lemma sample_chunk:
  "parse_chunk sample_command SerialBuffer_default [1, 0x0a, 1, 1, 0x0a, 1] =
     Inr (map (\<lambda>bs. the (sample_command bs)) [[1], [1, 1]], waiting [1])"
proof -
  have "waiting [] = SerialBuffer_default" by (simp add: waiting_def SerialBuffer_default_def)
  with parse_chunk_iff [of "[]" sample_command "[1, 0x0a, 1, 1, 0x0a, 1]"] show ?thesis
    by (simp add: line_ok_def sample_command_def MAX_FRAME_LENGTH_def line_frames_def)
qed

lemma sample_poll:
  "\<exists>m. poll_loop sample_env [PollNotReady, PollReady (SerialBytes [1, 0x0a, 1, 1, 0x0a, 1])] SerialBuffer_default (sample_machine True)
     = (None, m) \<and> net_of (mc_agent m) = Cut"
proof -
  have json: "ae_from_json sample_env = sample_command" by (simp add: sample_env_def)
  have quiet: "service_runtime sample_env (sample_machine True) = (Inr (), sample_machine True)"
    by (simp add: service_runtime_def sample_machine_def Agent_new_def)
  have "\<exists>m. handle_frames sample_env (map (\<lambda>bs. the (sample_command bs)) [[1], [1, 1]])
      (sample_machine True\<lparr>mc_written := replicate (length [1, 0x0a, 1, 1, 0x0a, 1 :: u8]) SERIAL_ACK\<rparr>) = (Inr True, m) \<and> net_of (mc_agent m) = Cut"
    by (simp add: sample_run sample_command_def act_bind_def net_of_def)
  then show ?thesis
    using sample_chunk
    by (auto simp: quiet [unfolded sample_machine_def] read_serial_frames_def json act_bind_def write_control_def
        sample_machine_def simp del: handle_frames.simps)
qed

theorem agent_history_legal_witness:
  "\<exists>m. poll_loop sample_env [PollNotReady, PollReady (SerialBytes [1, 0x0a, 1, 1, 0x0a, 1])] SerialBuffer_default
       (sample_machine True) = (None, m)
    \<and> net_path Down (map ef_event (ag_events (mc_agent m))) Cut"
proof -
  obtain m where m: "poll_loop sample_env [PollNotReady, PollReady (SerialBytes [1, 0x0a, 1, 1, 0x0a, 1])] SerialBuffer_default
      \<lparr>mc_agent = Agent_new True None, mc_world = False, mc_written = []\<rparr> = (None, m)" and net: "net_of (mc_agent m) = Cut"
    using sample_poll unfolding sample_machine_def by blast
  have rt: "workload_runtime (ae_runtime sample_env)"
    using stub.workload_runtime_axioms by (simp add: sample_env_def)
  show ?thesis
    using agent_history_legal [OF rt m] m net unfolding sample_machine_def by auto
qed

lemma sample_loop:
  "\<exists>m. command_loop sample_env (map Byte [0, 0, 0, 1, 1]) (sample_machine False) = (Inr (), m) \<and> net_of (mc_agent m) = Up"
proof -
  have three: "(3 :: nat) = Suc (Suc (Suc 0))" by simp
  have first: "read_control sample_env False (map Byte [0, 0, 0, 1, 1]) = (Inr (Some (the (sample_command [1]), [])), [])"
    by (simp add: read_control_def read_frame_def three MAX_FRAME_LENGTH_def sample_env_def sample_command_def Let_def)
  have stop: "read_control sample_env False [] = (Inr None, [])"
    by (simp add: read_control_def read_frame_def)
  have "\<exists>m. handle_frame sample_env (the (sample_command [1])) (sample_machine False) = (Inr True, m)
     \<and> ag_line_framing (mc_agent m) = False \<and> net_of (mc_agent m) = Up"
    by (simp add: sample_run sample_command_def act_bind_def net_of_def)
  then obtain m where m: "handle_frame sample_env (the (sample_command [1])) (sample_machine False) = (Inr True, m)"
    "ag_line_framing (mc_agent m) = False" "net_of (mc_agent m) = Up" by blast
  have framing: "ag_line_framing (mc_agent (sample_machine False)) = False" "(sample_machine False)\<lparr>mc_written := mc_written (sample_machine False)\<rparr> = sample_machine False"
    by (simp_all add: sample_machine_def Agent_new_def)
  have "command_loop sample_env [] m = (Inr (), m\<lparr>mc_written := mc_written m\<rparr>)"
    by (subst command_loop.simps) (simp add: m stop)
  then have "command_loop sample_env (map Byte [0, 0, 0, 1, 1]) (sample_machine False) = (Inr (), m\<lparr>mc_written := mc_written m\<rparr>)"
    by (subst command_loop.simps) (simp only: framing first append_Nil2 prod.case sum.case option.case m if_True)
  with m show ?thesis by simp
qed

theorem command_loop_history_legal_witness:
  "\<exists>m. command_loop sample_env (map Byte [0, 0, 0, 1, 1]) (sample_machine False) = (Inr (), m)
    \<and> net_path Down (map ef_event (ag_events (mc_agent m))) Up"
proof -
  obtain m where m: "command_loop sample_env (map Byte [0, 0, 0, 1, 1])
      \<lparr>mc_agent = Agent_new False None, mc_world = False, mc_written = []\<rparr> = (Inr (), m)" and net: "net_of (mc_agent m) = Up"
    using sample_loop unfolding sample_machine_def by blast
  have rt: "workload_runtime (ae_runtime sample_env)"
    using stub.workload_runtime_axioms by (simp add: sample_env_def)
  show ?thesis
    using command_loop_history_legal [OF rt m] m net unfolding sample_machine_def by auto
qed

theorem agent_refusal_atomic_witness:
  "\<exists>err m. dispatch sample_env 3 (ActivateOutage PEER_CIDR) (sample_machine True) = (Inl err, m) \<and> m = sample_machine True"
proof -
  obtain m where m: "dispatch sample_env 3 (ActivateOutage PEER_CIDR) (sample_machine True) = (Inl NetworkNotConfigured, m)"
    by (simp add: sample_run act_bind_def)
  have "NetworkNotConfigured \<in> refusals" by (simp add: refusals_def)
  from agent_refusal_atomic [OF m this] m show ?thesis by blast
qed

definition sample_up :: "(RuntimeLimits, bool) machine" where
  "sample_up = \<lparr>mc_agent = (Agent_new True None)\<lparr>ag_network_configured := True, ag_outage_active := True\<rparr>,
     mc_world = True, mc_written = []\<rparr>"

theorem request_two_events_witness:
  "\<exists>m. dispatch sample_env 5 (Request ''a-1'' ''ff'' Outage) sample_up = (Inr True, m)
    \<and> ag_next_event_id (mc_agent m) = ag_next_event_id (mc_agent sample_up) + 2"
proof -
  have valid: "validate_request ''a-1'' ''ff'' GATEWAY = Inr ()"
    by (simp add: validate_request_def is_ascii_alphanumeric_def saturating_add_def u64_max_eq MAX_REQUEST_DATA_LENGTH_def)
  obtain m where m: "dispatch sample_env 5 (Request ''a-1'' ''ff'' Outage) sample_up = (Inr True, m)"
    by (simp add: sample_run act_bind_def sample_up_def valid fixture_request_def request_outcome_def tftp_request_def)
  from request_two_events [OF m] m show ?thesis by blast
qed

end
