(* ===== verification/Guest_Process.thy ===== *)
theory Guest_Process
  imports Loop Agent "HOL-Library.Sublist"
begin

text \<open>
  The supervision of the one workload process of \<open>runtime.rs\<close>: the queue in front of its standard
  input, the bounded and fair draining of its two output pipes, the reaping of children, the
  process table of the guest and the cleanup barrier. Every system call is a parameter of the
  guest's operating system acting on its state; a loop around a call returns \<open>Hung\<close> when the
  calls never let it finish.
\<close>

section \<open>System calls and their errors\<close>

datatype error_kind =
  Interrupted | WouldBlock | NotFound | AlreadyExists | InvalidInput | InvalidData | WriteZero | TimedOut | OtherKind

record os_error =
  oe_kind :: error_kind
  oe_raw :: "int option"
  oe_text :: string

datatype rt_error = Io os_error | Hung

text \<open>\<open>Result<_, (LaunchFailure, String)>\<close>: a failed launch with its detail.\<close>

type_synonym launch_error = "LaunchFailure \<times> string"

definition io_error_new :: "error_kind \<Rightarrow> string \<Rightarrow> os_error" where
  "io_error_new kind message = \<lparr>oe_kind = kind, oe_raw = None, oe_text = message\<rparr>"

definition invalid :: "string \<Rightarrow> os_error" where
  "invalid message = io_error_new InvalidInput message"

text \<open>\<open>io::Error::new(error.kind(), format!("<text>: {error}"))\<close>\<close>

definition prefixed :: "string \<Rightarrow> os_error \<Rightarrow> os_error" where
  "prefixed message e = io_error_new (oe_kind e) (message @ '': '' @ oe_text e)"

record 'w guest_os =
  os_write :: "int \<Rightarrow> bytes \<Rightarrow> ('w, os_error, nat) action"
  os_read :: "int \<Rightarrow> nat \<Rightarrow> ('w, os_error, bytes) action"
  os_close :: "int \<Rightarrow> 'w \<Rightarrow> 'w"
  os_poll :: "int list \<Rightarrow> nat \<Rightarrow> ('w, os_error, nat) action"
  os_sleep :: "nat \<Rightarrow> 'w \<Rightarrow> 'w"
  os_now :: "'w \<Rightarrow> nat \<times> 'w"
  os_kill :: "int \<Rightarrow> int \<Rightarrow> ('w, os_error, unit) action"
  os_waitpid :: "int \<Rightarrow> 'w \<Rightarrow> (int \<times> int) \<times> 'w"
  os_wifexited :: "int \<Rightarrow> bool"
  os_wexitstatus :: "int \<Rightarrow> int"
  os_wifsignaled :: "int \<Rightarrow> bool"
  os_wtermsig :: "int \<Rightarrow> int"
  os_proc :: "('w, os_error, (os_error + bytes) list) action"
  os_proc_stat :: "nat \<Rightarrow> ('w, os_error, bytes) action"
  os_pid :: nat
  os_esrch :: int
  os_sha256 :: "bytes \<Rightarrow> bytes"

text \<open>Milliseconds, and the bounds of one service batch.\<close>

definition CLEANUP_TIMEOUT :: nat where "CLEANUP_TIMEOUT = 30 * 1000"
definition KERNEL_THREAD_FLAG :: u64 where "KERNEL_THREAD_FLAG = 0x00200000"
definition MAX_SERVICE_FRAMES :: nat where "MAX_SERVICE_FRAMES = 64"
definition MAX_SERVICE_BYTES :: nat where "MAX_SERVICE_BYTES = 64 * 1024"

datatype MemberScope = Guest | ProcessGroup

section \<open>The invocation\<close>

text \<open>The hasher of a stream is what it has absorbed.\<close>

record StreamState =
  ss_offset :: nat
  ss_bytes :: nat
  ss_hasher :: bytes
  ss_eof :: bool

definition StreamState_new :: StreamState where
  "StreamState_new = \<lparr>ss_offset = 0, ss_bytes = 0, ss_hasher = [], ss_eof = False\<rparr>"

record RootGuard =
  rg_path :: "string list"
  rg_removed :: bool

record Invocation =
  iv_id :: nat
  iv_root :: RootGuard
  iv_pid :: int
  iv_stdin :: "int option"
  iv_stdout :: "int option"
  iv_stderr :: "int option"
  iv_stdout_state :: StreamState
  iv_stderr_state :: StreamState
  iv_input_offset :: nat
  iv_input_bytes :: nat
  iv_pending_input :: bytes
  iv_eof_requested :: bool
  iv_terminating :: bool
  iv_sequence :: nat
  iv_frames :: nat
  iv_exit :: "ProcessExit option"
  iv_reaped :: nat
  iv_cleanup_complete :: bool

text \<open>An invocation being serviced: it, the events pushed so far and the state of the guest.\<close>

record 'w service =
  se_active :: Invocation
  se_events :: "Event list"
  se_world :: 'w

type_synonym ('w, 'a) servicing = "('w service, rt_error, 'a) action"

definition attempt :: "('w, os_error, 'a) action \<Rightarrow> ('w, os_error + 'a) servicing" where
  "attempt call = (\<lambda>s. let (r, w) = call (se_world s) in (Inr r, s\<lparr>se_world := w\<rparr>))"

definition on_guest :: "('w \<Rightarrow> 'a \<times> 'w) \<Rightarrow> ('w, 'a) servicing" where
  "on_guest call = (\<lambda>s. let (x, w) = call (se_world s) in (Inr x, s\<lparr>se_world := w\<rparr>))"

definition guarded :: "('w, os_error, 'a) action \<Rightarrow> ('w, 'a) servicing" where
  "guarded call = (\<lambda>s. let (r, w) = call (se_world s) in (map_err Io r, s\<lparr>se_world := w\<rparr>))"

definition update_active :: "(Invocation \<Rightarrow> Invocation) \<Rightarrow> ('w, unit) servicing" where
  "update_active f = act_modify (\<lambda>s. s\<lparr>se_active := f (se_active s)\<rparr>)"

definition push_event :: "Event \<Rightarrow> ('w, unit) servicing" where
  "push_event e = act_modify (\<lambda>s. s\<lparr>se_events := se_events s @ [e]\<rparr>)"

text \<open>Code that only makes calls works on the guest alone and is lifted to a service.\<close>

type_synonym ('w, 'a) kernel = "('w, rt_error, 'a) action"

definition try_call :: "('w, os_error, 'a) action \<Rightarrow> ('w, os_error + 'a) kernel" where
  "try_call call = (\<lambda>w. let (r, w') = call w in (Inr r, w'))"

definition lifted :: "('w, 'a) kernel \<Rightarrow> ('w, 'a) servicing" where
  "lifted a = (\<lambda>s. let (r, w) = a (se_world s) in (r, s\<lparr>se_world := w\<rparr>))"

text \<open>Assigning \<open>None\<close> to an owned descriptor closes it.\<close>

definition drop_fd :: "'w guest_os \<Rightarrow> int option \<Rightarrow> 'w \<Rightarrow> 'w" where
  "drop_fd os fd = (case fd of None \<Rightarrow> id | Some raw \<Rightarrow> os_close os raw)"

definition close_stdin :: "'w guest_os \<Rightarrow> ('w, unit) servicing" where
  "close_stdin os = act_modify (\<lambda>s. s\<lparr>se_active := (se_active s)\<lparr>iv_stdin := None\<rparr>,
     se_world := drop_fd os (iv_stdin (se_active s)) (se_world s)\<rparr>)"

section \<open>Queued input\<close>

text \<open>One turn of the write loop; \<open>False\<close> is the early return of a full pipe.\<close>

definition flush_turn :: "'w guest_os \<Rightarrow> int \<Rightarrow> unit \<Rightarrow> ('w, (unit, bool) turn) servicing" where
  "flush_turn os raw _ =
     act_bind act_get (\<lambda>s.
     if iv_pending_input (se_active s) = [] then act_return (Done True)
     else act_bind (attempt (os_write os raw (iv_pending_input (se_active s)))) (\<lambda>written.
       case written of
         Inl e \<Rightarrow> if oe_kind e = Interrupted then act_return (Again ())
           else if oe_kind e = WouldBlock then act_return (Done False)
           else act_fail (Io e)
       | Inr n \<Rightarrow> if n = 0 then act_fail (Io (io_error_new WriteZero ''workload input pipe closed''))
           else act_bind (update_active (\<lambda>iv. iv\<lparr>iv_pending_input := drop n (iv_pending_input iv)\<rparr>)) (\<lambda>_.
             act_return (Again ()))))"

definition flush_input :: "'w guest_os \<Rightarrow> ('w, unit) servicing" where
  "flush_input os =
     act_bind act_get (\<lambda>s.
     case iv_stdin (se_active s) of
       None \<Rightarrow> act_return ()
     | Some raw \<Rightarrow>
         act_bind (act_loop Hung (flush_turn os raw) ()) (\<lambda>emptied.
         act_bind act_get (\<lambda>s.
         if emptied \<and> iv_eof_requested (se_active s) then close_stdin os else act_return ())))"

section \<open>Output\<close>

fun stream_state :: "OutputStream \<Rightarrow> Invocation \<Rightarrow> StreamState" where
  "stream_state Stdout iv = iv_stdout_state iv"
| "stream_state Stderr iv = iv_stderr_state iv"

fun stream_fd :: "OutputStream \<Rightarrow> Invocation \<Rightarrow> int option" where
  "stream_fd Stdout iv = iv_stdout iv"
| "stream_fd Stderr iv = iv_stderr iv"

fun update_stream :: "OutputStream \<Rightarrow> (StreamState \<Rightarrow> StreamState) \<Rightarrow> Invocation \<Rightarrow> Invocation" where
  "update_stream Stdout f iv = iv\<lparr>iv_stdout_state := f (iv_stdout_state iv)\<rparr>"
| "update_stream Stderr f iv = iv\<lparr>iv_stderr_state := f (iv_stderr_state iv)\<rparr>"

definition absorb_output :: "OutputStream \<Rightarrow> bytes \<Rightarrow> Invocation \<Rightarrow> Invocation" where
  "absorb_output stream buffer iv =
     (update_stream stream
        (\<lambda>s. s\<lparr>ss_hasher := ss_hasher s @ buffer, ss_offset := ss_offset s + length buffer, ss_bytes := ss_bytes s + length buffer\<rparr>)
        iv)\<lparr>iv_sequence := iv_sequence iv + 1, iv_frames := iv_frames iv + 1\<rparr>"

definition output_event :: "OutputStream \<Rightarrow> bytes \<Rightarrow> Invocation \<Rightarrow> Event" where
  "output_event stream buffer iv =
     WorkloadOutput (iv_id iv) stream (ss_offset (stream_state stream iv)) (iv_sequence iv + 1) (encode_bytes buffer)"

text \<open>One frame read from a stream: refused beyond the bound, otherwise counted and pushed.\<close>

definition push_chunk ::
    "RuntimeLimits \<Rightarrow> OutputStream \<Rightarrow> bytes \<Rightarrow> nat \<Rightarrow> nat \<Rightarrow> ('w, (nat \<times> nat, nat \<times> nat) turn) servicing" where
  "push_chunk limits stream buffer drained amount =
     act_bind act_get (\<lambda>s.
     if saturating_add (ss_bytes (stream_state stream (se_active s))) (length buffer) > rl_output_bytes limits
     then act_fail (Io (io_error_new InvalidData ''invocation output exceeds the configured bound''))
     else act_bind (push_event (output_event stream buffer (se_active s))) (\<lambda>_.
       act_bind (update_active (absorb_output stream buffer)) (\<lambda>_.
       act_return (Again (drained + 1, amount + length buffer)))))"

text \<open>
  What a read of a chunk leads to. The call fills a buffer of the chunk's length, so no more of
  what it returns is ever used; a read of nothing is the end of the stream.
\<close>

definition drain_outcome ::
    "RuntimeLimits \<Rightarrow> OutputStream \<Rightarrow> nat \<Rightarrow> nat \<Rightarrow> nat \<Rightarrow> os_error + bytes \<Rightarrow> ('w, (nat \<times> nat, nat \<times> nat) turn) servicing" where
  "drain_outcome limits stream chunk drained amount read =
     (case read of
        Inl e \<Rightarrow> if oe_kind e = Interrupted then act_return (Again (drained, amount))
          else if oe_kind e = WouldBlock then act_return (Done (drained, amount))
          else act_fail (Io e)
      | Inr content \<Rightarrow> let buffer = take chunk content in
          if buffer = [] then
            act_bind (update_active (update_stream stream (\<lambda>s. s\<lparr>ss_eof := True\<rparr>))) (\<lambda>_.
            act_return (Done (drained, amount)))
          else push_chunk limits stream buffer drained amount)"

text \<open>One turn of the read loop over the frames and bytes drained so far.\<close>

definition drain_turn ::
    "'w guest_os \<Rightarrow> RuntimeLimits \<Rightarrow> OutputStream \<Rightarrow> int \<Rightarrow> nat \<Rightarrow> nat \<Rightarrow> nat \<times> nat \<Rightarrow> ('w, (nat \<times> nat, nat \<times> nat) turn) servicing" where
  "drain_turn os limits stream raw max_frames max_bytes = (\<lambda>(drained, amount).
     if \<not> (drained < max_frames \<and> amount < max_bytes) then act_return (Done (drained, amount))
     else let chunk = min (rl_output_frame_bytes limits) (max_bytes - amount) in
       if chunk = 0 then act_return (Done (drained, amount))
       else act_bind (attempt (os_read os raw chunk)) (drain_outcome limits stream chunk drained amount))"

definition drain_stream ::
    "'w guest_os \<Rightarrow> RuntimeLimits \<Rightarrow> OutputStream \<Rightarrow> nat \<Rightarrow> nat \<Rightarrow> ('w, nat \<times> nat) servicing" where
  "drain_stream os limits stream max_frames max_bytes =
     act_bind act_get (\<lambda>s.
     if ss_eof (stream_state stream (se_active s)) then act_return (0, 0)
     else (case stream_fd stream (se_active s) of
         None \<Rightarrow> act_bind (update_active (update_stream stream (\<lambda>s. s\<lparr>ss_eof := True\<rparr>))) (\<lambda>_. act_return (0, 0))
       | Some raw \<Rightarrow> act_loop Hung (drain_turn os limits stream raw max_frames max_bytes) (0, 0)))"

text \<open>
  One stream's share of a batch: \<open>None\<close> when the budget is spent, otherwise the new totals and
  whether something was drained.
\<close>

definition drain_share ::
    "'w guest_os \<Rightarrow> RuntimeLimits \<Rightarrow> OutputStream \<Rightarrow> nat \<times> nat \<Rightarrow> ('w, (nat \<times> nat \<times> bool) option) servicing" where
  "drain_share os limits stream = (\<lambda>(frames, bytes).
     let remaining_frames = MAX_SERVICE_FRAMES - frames; remaining_bytes = MAX_SERVICE_BYTES - bytes in
     if remaining_frames = 0 \<or> remaining_bytes = 0 then act_return None
     else act_bind (drain_stream os limits stream ((remaining_frames + 1) div 2) ((remaining_bytes + 1) div 2)) (\<lambda>(drained, amount).
       act_return (Some (frames + drained, bytes + amount, drained > 0))))"

definition batch_turn :: "'w guest_os \<Rightarrow> RuntimeLimits \<Rightarrow> nat \<times> nat \<Rightarrow> ('w, (nat \<times> nat, unit) turn) servicing" where
  "batch_turn os limits totals =
     act_bind (drain_share os limits Stdout totals) (\<lambda>out.
     case out of
       None \<Rightarrow> act_return (Done ())
     | Some (frames, bytes, advanced) \<Rightarrow>
         act_bind (drain_share os limits Stderr (frames, bytes)) (\<lambda>err.
         case err of
           None \<Rightarrow> act_return (Done ())
         | Some (frames', bytes', advanced') \<Rightarrow>
             if \<not> (advanced \<or> advanced') then act_return (Done ()) else act_return (Again (frames', bytes'))))"

definition drain_batch :: "'w guest_os \<Rightarrow> RuntimeLimits \<Rightarrow> ('w, unit) servicing" where
  "drain_batch os limits = act_loop Hung (batch_turn os limits) (0, 0)"

definition poll_descriptors :: "Invocation \<Rightarrow> int list" where
  "poll_descriptors iv =
     (if \<not> ss_eof (iv_stdout_state iv) then (case iv_stdout iv of None \<Rightarrow> [] | Some fd \<Rightarrow> [fd]) else []) @
     (if \<not> ss_eof (iv_stderr_state iv) then (case iv_stderr iv of None \<Rightarrow> [] | Some fd \<Rightarrow> [fd]) else [])"

definition poll_once :: "'w guest_os \<Rightarrow> int list \<Rightarrow> nat \<Rightarrow> ('w, bool) servicing" where
  "poll_once os descriptors timeout =
     act_bind (attempt (os_poll os descriptors timeout)) (\<lambda>ready.
     case ready of
       Inl e \<Rightarrow> if oe_kind e = Interrupted then act_return False else act_fail (Io e)
     | Inr n \<Rightarrow> act_return (n > 0))"

definition drain_ready :: "'w guest_os \<Rightarrow> RuntimeLimits \<Rightarrow> nat \<Rightarrow> ('w, unit) servicing" where
  "drain_ready os limits timeout =
     act_bind act_get (\<lambda>s.
     let descriptors = poll_descriptors (se_active s) in
     if descriptors = [] then drain_batch os limits
     else act_bind (poll_once os descriptors timeout) (\<lambda>ready.
       if ready then drain_batch os limits else act_return ()))"

section \<open>Children\<close>

definition record_reaped :: "'w guest_os \<Rightarrow> int \<Rightarrow> int \<Rightarrow> Invocation \<Rightarrow> Invocation" where
  "record_reaped os pid status iv =
     (if pid \<noteq> iv_pid iv \<or> iv_exit iv \<noteq> None then iv
      else iv\<lparr>iv_exit :=
        if os_wifexited os status then Some (Exited (os_wexitstatus os status))
        else if os_wifsignaled os status then Some (Signaled (os_wtermsig os status))
        else None\<rparr>)"

definition reap_turn :: "'w guest_os \<Rightarrow> int \<Rightarrow> nat \<Rightarrow> ('w, (nat, nat) turn) servicing" where
  "reap_turn os target reaped =
     act_bind (on_guest (os_waitpid os target)) (\<lambda>(pid, status).
     if pid \<le> 0 then act_return (Done reaped)
     else act_bind (update_active (record_reaped os pid status)) (\<lambda>_. act_return (Again (reaped + 1))))"

definition reap_children :: "'w guest_os \<Rightarrow> MemberScope \<Rightarrow> ('w, nat) servicing" where
  "reap_children os scope =
     act_bind act_get (\<lambda>s.
     act_loop Hung (reap_turn os (case scope of ProcessGroup \<Rightarrow> - iv_pid (se_active s) | Guest \<Rightarrow> -1)) 0)"

text \<open>\<open>active.reaped += reap_children(active, scope)\<close>\<close>

definition count_reaped :: "'w guest_os \<Rightarrow> MemberScope \<Rightarrow> ('w, unit) servicing" where
  "count_reaped os scope =
     act_bind (reap_children os scope) (\<lambda>reaped. update_active (\<lambda>iv. iv\<lparr>iv_reaped := iv_reaped iv + reaped\<rparr>))"

section \<open>The process table of the guest\<close>

text \<open>\<open>slice::split\<close> by a predicate, \<open>str::parse\<close> of an unsigned integer and \<open>u8::is_ascii_whitespace\<close>.\<close>

fun split_where :: "('a \<Rightarrow> bool) \<Rightarrow> 'a list \<Rightarrow> 'a list list" where
  "split_where p [] = [[]]"
| "split_where p (x # xs) =
     (if p x then [] # split_where p xs
      else (case split_where p xs of q # qs \<Rightarrow> (x # q) # qs | [] \<Rightarrow> [[x]]))"

definition parse_unsigned :: "nat \<Rightarrow> string \<Rightarrow> nat option" where
  "parse_unsigned limit s =
     (let d = (case s of [] \<Rightarrow> [] | c # r \<Rightarrow> if c = CHR ''+'' then r else s);
          n = foldl (\<lambda>acc c. 10 * acc + digit_value c) 0 d
      in if d = [] \<or> \<not> list_all is_digit d \<or> n > limit then None else Some n)"

definition is_ascii_whitespace :: "u8 \<Rightarrow> bool" where
  "is_ascii_whitespace b \<longleftrightarrow> b \<in> {0x20, 0x09, 0x0a, 0x0c, 0x0d}"

text \<open>What follows the last occurrence of a byte.\<close>

definition after_last :: "u8 \<Rightarrow> bytes \<Rightarrow> bytes option" where
  "after_last c bs = (if c \<in> set bs then Some (rev (takeWhile (\<lambda>b. b \<noteq> c) (rev bs))) else None)"

definition stat_flags :: "bytes \<Rightarrow> os_error + u64" where
  "stat_flags stat =
     and_then (ok_or (invalid ''a guest process state record has no command terminator'') (after_last 0x29 stat)) (\<lambda>rest.
     let fields = filter (\<lambda>field. field \<noteq> []) (split_where is_ascii_whitespace rest) in
     and_then (if 6 < length fields then Inr (fields ! 6)
               else Inl (invalid ''a guest process state record has no flags field'')) (\<lambda>flags.
     and_then (ok_or (invalid ''a guest process state record has an invalid flags field'') (from_utf8 flags)) (\<lambda>text.
     and_then (ok_or (invalid ''a guest process state record has an invalid flags field'') (parse_unsigned u64_max text)) (\<lambda>n.
     Inr (of_nat n)))))"

definition is_kernel_thread :: "'w guest_os \<Rightarrow> nat \<Rightarrow> ('w, bool option) kernel" where
  "is_kernel_thread os pid =
     act_bind (try_call (os_proc_stat os pid)) (\<lambda>stat.
     case stat of
       Inr record \<Rightarrow>
         act_bind (act_lift (map_err Io (stat_flags record))) (\<lambda>flags.
         act_return (Some (and flags KERNEL_THREAD_FLAG \<noteq> 0)))
     | Inl e \<Rightarrow>
         if oe_kind e = NotFound \<or> oe_raw e = Some (os_esrch os) then act_return None
         else act_fail (Io (prefixed (''cannot read the state of guest pid '' @ dec pid) e)))"

text \<open>One entry of \<open>/proc\<close>: the members so far, and the process when it is one.\<close>

definition table_entry :: "'w guest_os \<Rightarrow> nat list \<Rightarrow> os_error + bytes \<Rightarrow> ('w, nat list) kernel" where
  "table_entry os members entry =
     (case entry of
        Inl e \<Rightarrow> act_fail (Io (prefixed ''cannot read a guest process entry'' e))
      | Inr name \<Rightarrow>
          (case from_utf8 name of
             None \<Rightarrow> act_return members
           | Some text \<Rightarrow>
               (case parse_unsigned u32_max text of
                  None \<Rightarrow> act_return members
                | Some pid \<Rightarrow>
                    if pid = os_pid os then act_return members
                    else act_bind (is_kernel_thread os pid) (\<lambda>kernel.
                      if kernel \<noteq> Some False then act_return members else act_return (members @ [pid])))))"

fun table_entries :: "'w guest_os \<Rightarrow> nat list \<Rightarrow> (os_error + bytes) list \<Rightarrow> ('w, nat list) kernel" where
  "table_entries os members [] = act_return members"
| "table_entries os members (entry # entries) =
     act_bind (table_entry os members entry) (\<lambda>members. table_entries os members entries)"

definition guest_process_table :: "'w guest_os \<Rightarrow> ('w, nat list) kernel" where
  "guest_process_table os =
     act_bind (try_call (os_proc os)) (\<lambda>entries.
     case entries of
       Inl e \<Rightarrow> act_fail (Io (prefixed ''cannot enumerate the guest process table'' e))
     | Inr entries \<Rightarrow>
         act_bind (table_entries os [] entries) (\<lambda>members. act_return (sort members)))"

definition signal_one :: "'w guest_os \<Rightarrow> string \<Rightarrow> int \<Rightarrow> int \<Rightarrow> ('w, unit) kernel" where
  "signal_one os subject target signal =
     act_bind (try_call (os_kill os target signal)) (\<lambda>sent.
     case sent of
       Inr _ \<Rightarrow> act_return ()
     | Inl e \<Rightarrow> if oe_raw e \<noteq> Some (os_esrch os) then act_fail (Io (prefixed (''cannot signal '' @ subject) e)) else act_return ())"

definition signal_members :: "'w guest_os \<Rightarrow> int \<Rightarrow> MemberScope \<Rightarrow> int \<Rightarrow> ('w, unit) kernel" where
  "signal_members os pid scope signal =
     (case scope of
        ProcessGroup \<Rightarrow> signal_one os ''the invocation process group'' (- pid) signal
      | Guest \<Rightarrow>
          act_bind (guest_process_table os) (\<lambda>members.
          act_each (\<lambda>member. signal_one os (''guest member '' @ dec member) (int member) signal) members))"

definition members_remain :: "'w guest_os \<Rightarrow> MemberScope \<Rightarrow> int \<Rightarrow> ('w, bool) kernel" where
  "members_remain os scope pid =
     (case scope of
        ProcessGroup \<Rightarrow> act_bind (try_call (os_kill os (- pid) 0)) (\<lambda>probe. act_return (is_ok probe))
      | Guest \<Rightarrow> act_bind (guest_process_table os) (\<lambda>members. act_return (members \<noteq> [])))"

section \<open>The cleanup barrier\<close>

definition wait_for_output :: "'w guest_os \<Rightarrow> nat \<Rightarrow> ('w, unit) servicing" where
  "wait_for_output os timeout =
     act_bind act_get (\<lambda>s.
     let descriptors = poll_descriptors (se_active s) in
     if descriptors = [] then on_guest (\<lambda>w. ((), os_sleep os timeout w))
     else act_bind (attempt (os_poll os descriptors timeout)) (\<lambda>_. act_return ()))"

definition finish_stream :: "'w guest_os \<Rightarrow> StreamState \<Rightarrow> string \<times> StreamState" where
  "finish_stream os state = (hex_text (os_sha256 os (ss_hasher state)), state\<lparr>ss_hasher := []\<rparr>)"

text \<open>One turn of the barrier: kill, reap, drain and probe; then finish, give up or wait and go on.\<close>

definition cleanup_probe :: "'w guest_os \<Rightarrow> MemberScope \<Rightarrow> RuntimeLimits \<Rightarrow> ('w, bool) servicing" where
  "cleanup_probe os scope limits =
     act_bind act_get (\<lambda>s.
     act_bind (lifted (signal_members os (iv_pid (se_active s)) scope TERMINATION_SIGNAL)) (\<lambda>_.
     act_bind (count_reaped os scope) (\<lambda>_.
     act_bind (drain_batch os limits) (\<lambda>_.
     lifted (members_remain os scope (iv_pid (se_active s)))))))"

definition cleanup_decide :: "'w guest_os \<Rightarrow> nat \<Rightarrow> bool \<Rightarrow> ('w, (unit, unit) turn) servicing" where
  "cleanup_decide os deadline members =
     act_bind act_get (\<lambda>s.
     if \<not> members \<and> ss_eof (iv_stdout_state (se_active s)) \<and> ss_eof (iv_stderr_state (se_active s)) then act_return (Done ())
     else act_bind (on_guest (os_now os)) (\<lambda>now.
       if deadline \<le> now
       then act_fail (Io (io_error_new TimedOut ''the workload cleanup barrier did not complete within its bound''))
       else act_bind (wait_for_output os 10) (\<lambda>_. act_return (Again ()))))"

definition cleanup_turn :: "'w guest_os \<Rightarrow> MemberScope \<Rightarrow> RuntimeLimits \<Rightarrow> nat \<Rightarrow> unit \<Rightarrow> ('w, (unit, unit) turn) servicing" where
  "cleanup_turn os scope limits deadline _ = act_bind (cleanup_probe os scope limits) (cleanup_decide os deadline)"

definition cleanup_report :: "'w guest_os \<Rightarrow> ProcessExit \<Rightarrow> ('w, unit) servicing" where
  "cleanup_report os exit =
     act_modify (\<lambda>s.
       let iv = se_active s;
           (stdout_sha256, stdout_state) = finish_stream os (iv_stdout_state iv);
           (stderr_sha256, stderr_state) = finish_stream os (iv_stderr_state iv)
       in s\<lparr>se_active := iv\<lparr>iv_stdout_state := stdout_state, iv_stderr_state := stderr_state,
              iv_cleanup_complete := True, iv_stdout := None, iv_stderr := None\<rparr>,
            se_events := se_events s @
              [WorkloadExited (iv_id iv) exit (ss_bytes stdout_state) stdout_sha256 (ss_bytes stderr_state) stderr_sha256
                 (iv_frames iv),
               CleanupComplete (iv_id iv) (iv_reaped iv)],
            se_world := drop_fd os (iv_stderr iv) (drop_fd os (iv_stdout iv) (se_world s))\<rparr>)"

definition cleanup :: "'w guest_os \<Rightarrow> MemberScope \<Rightarrow> RuntimeLimits \<Rightarrow> ('w, unit) servicing" where
  "cleanup os scope limits =
     act_bind act_get (\<lambda>s.
     if iv_cleanup_complete (se_active s) then act_return ()
     else
       act_bind (close_stdin os) (\<lambda>_.
       act_bind (on_guest (os_now os)) (\<lambda>start.
       act_bind (act_loop Hung (cleanup_turn os scope limits (start + CLEANUP_TIMEOUT)) ()) (\<lambda>_.
       act_bind (count_reaped os scope) (\<lambda>_.
       act_bind act_get (\<lambda>s.
       case iv_exit (se_active s) of
         None \<Rightarrow> act_fail (Io (io_error_new OtherKind ''the workload primary process was not reaped''))
       | Some exit \<Rightarrow> cleanup_report os exit))))))"

section \<open>What service does to an invocation\<close>

text \<open>
  The abstract account of a service: a list of chunks read from the two streams. Each becomes one
  output event numbered and placed after the ones before it; apart from the counters of the
  chunks, an invocation only loses queued input, records its exit and reaps more children.
\<close>

fun output_events :: "Invocation \<Rightarrow> (OutputStream \<times> bytes) list \<Rightarrow> Event list" where
  "output_events iv [] = []"
| "output_events iv ((stream, buffer) # chunks) =
     output_event stream buffer iv # output_events (absorb_output stream buffer iv) chunks"

fun absorb_all :: "(OutputStream \<times> bytes) list \<Rightarrow> Invocation \<Rightarrow> Invocation" where
  "absorb_all [] iv = iv"
| "absorb_all ((stream, buffer) # chunks) iv = absorb_all chunks (absorb_output stream buffer iv)"

definition same_stream :: "StreamState \<Rightarrow> StreamState \<Rightarrow> bool" where
  "same_stream a b \<longleftrightarrow> ss_offset b = ss_offset a \<and> ss_bytes b = ss_bytes a \<and> ss_hasher b = ss_hasher a
     \<and> (ss_eof a \<longrightarrow> ss_eof b)"

definition same_input :: "Invocation \<Rightarrow> Invocation \<Rightarrow> bool" where
  "same_input a b \<longleftrightarrow> iv_input_offset b = iv_input_offset a \<and> iv_input_bytes b = iv_input_bytes a
     \<and> iv_eof_requested b = iv_eof_requested a \<and> iv_terminating b = iv_terminating a
     \<and> suffix (iv_pending_input b) (iv_pending_input a) \<and> (iv_stdin b = iv_stdin a \<or> iv_stdin b = None)"

definition same_process :: "Invocation \<Rightarrow> Invocation \<Rightarrow> bool" where
  "same_process a b \<longleftrightarrow> iv_id b = iv_id a \<and> iv_root b = iv_root a \<and> iv_pid b = iv_pid a
     \<and> iv_sequence b = iv_sequence a \<and> iv_frames b = iv_frames a
     \<and> iv_stdout b = iv_stdout a \<and> iv_stderr b = iv_stderr a
     \<and> (iv_exit a \<noteq> None \<longrightarrow> iv_exit b = iv_exit a) \<and> iv_reaped a \<le> iv_reaped b
     \<and> iv_cleanup_complete b = iv_cleanup_complete a"

definition follows :: "Invocation \<Rightarrow> Invocation \<Rightarrow> bool" where
  "follows a b \<longleftrightarrow> same_process a b \<and> same_input a b
     \<and> same_stream (iv_stdout_state a) (iv_stdout_state b) \<and> same_stream (iv_stderr_state a) (iv_stderr_state b)"

named_theorems invocation_defs "the relations between an invocation before and after"

declare follows_def [invocation_defs] same_process_def [invocation_defs] same_input_def [invocation_defs]
  same_stream_def [invocation_defs]

lemma follows_refl: "follows iv iv"
  by (simp add: invocation_defs)

lemma same_input_trans:
  assumes "same_input a b" and "same_input b c"
  shows "same_input a c"
proof -
  have "suffix (iv_pending_input c) (iv_pending_input a)"
    using assms unfolding same_input_def by (blast intro: suffix_order.trans)
  moreover have "iv_stdin c = iv_stdin a \<or> iv_stdin c = None" using assms unfolding same_input_def by metis
  ultimately show ?thesis using assms unfolding same_input_def by simp
qed

lemma same_process_trans: "same_process a b \<Longrightarrow> same_process b c \<Longrightarrow> same_process a c"
  unfolding same_process_def by (metis order.trans)

lemma same_stream_trans: "same_stream a b \<Longrightarrow> same_stream b c \<Longrightarrow> same_stream a c"
  by (simp add: same_stream_def)

lemma follows_trans: "follows a b \<Longrightarrow> follows b c \<Longrightarrow> follows a c"
  unfolding follows_def using same_input_trans same_process_trans same_stream_trans by blast

lemma absorb_all_append: "absorb_all (cs @ ds) iv = absorb_all ds (absorb_all cs iv)"
  by (induction cs iv rule: absorb_all.induct) simp_all

lemma output_events_append:
  "output_events iv (cs @ ds) = output_events iv cs @ output_events (absorb_all cs iv) ds"
  by (induction iv cs rule: output_events.induct) simp_all

lemma absorb_output_follows: "follows a b \<Longrightarrow> follows (absorb_output stream buffer a) (absorb_output stream buffer b)"
  by (cases stream) (auto simp: invocation_defs absorb_output_def)

lemma absorb_all_follows: "follows a b \<Longrightarrow> follows (absorb_all cs a) (absorb_all cs b)"
  by (induction cs a arbitrary: b rule: absorb_all.induct) (simp_all add: absorb_output_follows)

lemma output_event_follows: "follows a b \<Longrightarrow> output_event stream buffer b = output_event stream buffer a"
  by (cases stream) (simp_all add: output_event_def invocation_defs)

lemma output_events_follows: "follows a b \<Longrightarrow> output_events b cs = output_events a cs"
  by (induction a cs arbitrary: b rule: output_events.induct)
    (simp_all add: output_event_follows absorb_output_follows)

text \<open>The bounds of the runtime: whole frames, and the bytes of each stream of an invocation.\<close>

fun chunk_ok :: "RuntimeLimits \<Rightarrow> OutputStream \<times> bytes \<Rightarrow> bool" where
  "chunk_ok limits (stream, buffer) \<longleftrightarrow> buffer \<noteq> [] \<and> length buffer \<le> rl_output_frame_bytes limits"

definition stream_sound :: "RuntimeLimits \<Rightarrow> StreamState \<Rightarrow> bool" where
  "stream_sound limits s \<longleftrightarrow> ss_offset s = ss_bytes s \<and> ss_bytes s = length (ss_hasher s)
     \<and> ss_bytes s \<le> rl_output_bytes limits"

definition output_sound :: "RuntimeLimits \<Rightarrow> Invocation \<Rightarrow> bool" where
  "output_sound limits iv \<longleftrightarrow> iv_frames iv = iv_sequence iv \<and> stream_sound limits (iv_stdout_state iv)
     \<and> stream_sound limits (iv_stderr_state iv)"

lemma output_sound_follows: "follows a b \<Longrightarrow> output_sound limits b = output_sound limits a"
  by (auto simp: invocation_defs output_sound_def stream_sound_def)

definition serves :: "RuntimeLimits \<Rightarrow> 'w service \<Rightarrow> 'w service \<Rightarrow> bool" where
  "serves limits s t \<longleftrightarrow> (\<exists>cs. list_all (chunk_ok limits) cs
     \<and> se_events t = se_events s @ output_events (se_active s) cs
     \<and> follows (absorb_all cs (se_active s)) (se_active t)
     \<and> (rl_output_bytes limits < u64_max \<and> output_sound limits (se_active s) \<longrightarrow> output_sound limits (se_active t)))"

interpretation serving: progress "serves limits"
proof
  fix s t u :: "'w service"
  show "serves limits s s"
    unfolding serves_def by (intro exI [of _ "[]"]) (simp add: follows_refl)
  assume "serves limits s t" "serves limits t u"
  then obtain cs ds where cs: "list_all (chunk_ok limits) cs" "se_events t = se_events s @ output_events (se_active s) cs"
      "follows (absorb_all cs (se_active s)) (se_active t)"
      "rl_output_bytes limits < u64_max \<and> output_sound limits (se_active s) \<longrightarrow> output_sound limits (se_active t)"
    and ds: "list_all (chunk_ok limits) ds" "se_events u = se_events t @ output_events (se_active t) ds"
      "follows (absorb_all ds (se_active t)) (se_active u)"
      "rl_output_bytes limits < u64_max \<and> output_sound limits (se_active t) \<longrightarrow> output_sound limits (se_active u)"
    unfolding serves_def by blast
  show "serves limits s u"
    unfolding serves_def
  proof (intro exI [of _ "cs @ ds"] conjI)
    show "list_all (chunk_ok limits) (cs @ ds)" using cs(1) ds(1) by simp
    show "se_events u = se_events s @ output_events (se_active s) (cs @ ds)"
      by (simp add: ds(2) cs(2) output_events_append output_events_follows [OF cs(3)])
    show "follows (absorb_all (cs @ ds) (se_active s)) (se_active u)"
      using follows_trans [OF absorb_all_follows [OF cs(3)] ds(3)] by (simp add: absorb_all_append)
    show "rl_output_bytes limits < u64_max \<and> output_sound limits (se_active s) \<longrightarrow> output_sound limits (se_active u)"
      using cs(4) ds(4) by blast
  qed
qed

lemma serves_quiet:
  "se_events t = se_events s \<Longrightarrow> follows (se_active s) (se_active t) \<Longrightarrow> serves limits s t"
  unfolding serves_def by (intro exI [of _ "[]"]) (simp add: output_sound_follows)

lemma absorb_output_sound:
  assumes "output_sound limits iv" and "ss_bytes (stream_state stream iv) + length buffer \<le> rl_output_bytes limits"
  shows "output_sound limits (absorb_output stream buffer iv)"
  using assms by (cases stream) (auto simp: output_sound_def stream_sound_def absorb_output_def)

lemma saturating_within:
  "\<not> saturating_add a b > limit \<Longrightarrow> limit < u64_max \<Longrightarrow> a + b \<le> limit"
  by (auto simp: saturating_add_def min_def split: if_splits)

lemma serves_push_chunk:
  assumes "buffer \<noteq> []" and "length buffer \<le> rl_output_frame_bytes limits"
    and "\<not> saturating_add (ss_bytes (stream_state stream (se_active s))) (length buffer) > rl_output_bytes limits"
  shows "serves limits s (s\<lparr>se_events := se_events s @ [output_event stream buffer (se_active s)],
    se_active := absorb_output stream buffer (se_active s)\<rparr>)"
  unfolding serves_def
proof (intro exI [of _ "[(stream, buffer)]"] conjI impI)
  assume "rl_output_bytes limits < u64_max \<and> output_sound limits (se_active s)"
  then have "output_sound limits (absorb_output stream buffer (se_active s))"
    using absorb_output_sound saturating_within [OF assms(3)] by blast
  then show "output_sound limits (se_active (s\<lparr>se_events := se_events s @ [output_event stream buffer (se_active s)],
    se_active := absorb_output stream buffer (se_active s)\<rparr>))" by simp
qed (use assms in \<open>simp_all add: follows_refl\<close>)

section \<open>Relations kept by every part of a service\<close>

lemma lifted_bind: "lifted (act_bind a f) = act_bind (lifted a) (\<lambda>x. lifted (f x))"
  by (rule ext) (auto simp: lifted_def act_bind_def split: prod.splits sum.splits)

lemma lifted_pure: "lifted (act_return x) = act_return x" "lifted (act_fail e) = act_fail e" "lifted (act_lift r) = act_lift r"
  by (rule ext, simp add: lifted_def)+

lemma lifted_run: "lifted a s = (r, t) \<Longrightarrow> \<exists>w. a (se_world s) = (r, w) \<and> t = s\<lparr>se_world := w\<rparr>"
  by (auto simp: lifted_def split: prod.splits)

lemma lifted_if: "lifted (if c then a else b) = (if c then lifted a else lifted b)"
  by simp

lemma lifted_try: "lifted (try_call call) = attempt call"
  by (rule ext) (auto simp: lifted_def try_call_def attempt_def split: prod.splits)

lemma lifted_each: "lifted (act_each f xs) = act_each (\<lambda>x. lifted (f x)) xs"
  by (induction xs) (simp_all only: act_each.simps lifted_bind lifted_pure)

lemma lifted_case:
  "lifted (case r of Inl e \<Rightarrow> f e | Inr x \<Rightarrow> g x) = (case r of Inl e \<Rightarrow> lifted (f e) | Inr x \<Rightarrow> lifted (g x))"
  "lifted (case m of None \<Rightarrow> a | Some y \<Rightarrow> h y) = (case m of None \<Rightarrow> lifted a | Some y \<Rightarrow> lifted (h y))"
  "lifted (case scope of Guest \<Rightarrow> a | ProcessGroup \<Rightarrow> b) = (case scope of Guest \<Rightarrow> lifted a | ProcessGroup \<Rightarrow> lifted b)"
  by (simp_all split: sum.splits option.splits MemberScope.splits)

lemmas lifted_simps = lifted_bind lifted_pure lifted_if lifted_try lifted_each lifted_case

lemma lifted_entries:
  "lifted (table_entries os members []) = act_return members"
  "lifted (table_entries os members (entry # entries)) =
     act_bind (lifted (table_entry os members entry)) (\<lambda>members. lifted (table_entries os members entries))"
  by (simp_all only: table_entries.simps lifted_simps)

text \<open>
  A relation kept by the system calls and by the changes of an invocation that \<open>follows\<close> allows is
  kept by every operation that drains no output, whatever it returns.
\<close>

locale service_calls = progress rel
  for rel :: "'w service \<Rightarrow> 'w service \<Rightarrow> bool" +
  fixes os :: "'w guest_os"
  assumes call_read: "always (attempt (os_read os fd n))"
    and call_write: "always (attempt (os_write os fd bs))"
    and call_poll: "always (attempt (os_poll os fds timeout))"
    and call_kill: "always (attempt (os_kill os target signal))"
    and call_proc: "always (attempt (os_proc os))"
    and call_proc_stat: "always (attempt (os_proc_stat os pid))"
    and call_now: "always (on_guest (os_now os))"
    and call_waitpid: "always (on_guest (os_waitpid os target))"
    and call_sleep: "always (on_guest (\<lambda>w. ((), os_sleep os timeout w)))"
    and call_close: "always (close_stdin os)"
    and quiet: "(\<And>iv. follows iv (f iv)) \<Longrightarrow> always (update_active f)"
begin

lemmas always_calls = call_read call_write call_poll call_kill call_proc call_proc_stat call_now call_waitpid call_sleep
  call_close always_pure


lemma always_flush_turn: "always (flush_turn os raw u)"
  unfolding flush_turn_def
  by (intro always_bind always_if always_calls)
    (auto split: sum.splits intro!: always_bind always_if always_calls quiet simp: invocation_defs suffix_drop)


lemma always_flush_input: "always (flush_input os)"
  unfolding flush_input_def
  by (intro always_bind always_calls)
    (auto split: option.splits intro!: always_bind always_loop always_if always_calls always_flush_turn)


lemma follows_eof: "follows iv (update_stream stream (\<lambda>s. s\<lparr>ss_eof := True\<rparr>) iv)"
  by (cases stream) (simp_all add: invocation_defs)


lemma always_reap_children: "always (reap_children os scope)"
  unfolding reap_children_def reap_turn_def
  by (auto split: prod.splits intro!: always_bind always_loop always_if always_calls quiet
      simp: record_reaped_def invocation_defs)


lemma always_count_reaped: "always (count_reaped os scope)"
  unfolding count_reaped_def
  by (intro always_bind always_reap_children quiet) (simp add: invocation_defs)


lemma always_process_table: "always (lifted (guest_process_table os))"
proof -
  have entry: "always (lifted (table_entry os members entry))" for members entry
    unfolding table_entry_def is_kernel_thread_def lifted_simps
    by (auto split: sum.splits option.splits intro!: always_bind always_if always_calls)
  have "always (lifted (table_entries os members entries))" for members entries
    by (induction entries arbitrary: members) (simp_all only: lifted_entries always_pure always_bind [OF entry])
  then show ?thesis
    unfolding guest_process_table_def lifted_simps by (auto split: sum.splits intro!: always_bind always_calls)
qed


lemma always_signal_members: "always (lifted (signal_members os pid scope signal))"
  unfolding signal_members_def signal_one_def lifted_simps
  by (auto split: sum.splits MemberScope.splits
      intro!: always_bind always_if always_calls always_process_table always_each)


lemma always_members_remain: "always (lifted (members_remain os scope pid))"
  unfolding members_remain_def lifted_simps
  by (auto split: MemberScope.splits intro!: always_bind always_calls always_process_table)


lemma always_wait_for_output: "always (wait_for_output os timeout)"
  unfolding wait_for_output_def Let_def by (intro always_bind always_if always_calls)


end

text \<open>With the push of a frame, a relation is kept by the draining of output and by the barrier.\<close>

locale service_steps = service_calls rel os
  for rel :: "'w service \<Rightarrow> 'w service \<Rightarrow> bool" and os :: "'w guest_os" +
  fixes limits :: RuntimeLimits
  assumes chunk: "buffer \<noteq> [] \<Longrightarrow> length buffer \<le> rl_output_frame_bytes limits \<Longrightarrow>
      always (push_chunk limits stream buffer drained amount)"
begin

lemma always_drain_turn: "always (drain_turn os limits stream raw max_frames max_bytes totals)"
  unfolding drain_turn_def drain_outcome_def Let_def
  by (cases totals, simp only: prod.case, intro always_bind always_if always_calls)
    (auto split: sum.splits intro!: chunk always_bind always_if always_calls quiet follows_eof)


lemma always_drain_stream: "always (drain_stream os limits stream max_frames max_bytes)"
  unfolding drain_stream_def
  by (intro always_bind always_if always_calls)
    (auto split: option.splits intro!: always_bind always_loop always_calls quiet follows_eof always_drain_turn)


lemma always_drain_share: "always (drain_share os limits stream totals)"
  unfolding drain_share_def Let_def
  by (auto split: prod.splits intro!: always_bind always_if always_calls always_drain_stream)


lemma always_drain_batch: "always (drain_batch os limits)"
  unfolding drain_batch_def batch_turn_def
  by (rule always_loop)
    (auto split: prod.splits option.splits intro!: always_bind always_if always_calls always_drain_share)


lemma always_drain_ready: "always (drain_ready os limits timeout)"
  unfolding drain_ready_def Let_def poll_once_def
  by (auto split: sum.splits intro!: always_bind always_if always_calls always_drain_batch)


lemma always_cleanup_probe: "always (cleanup_probe os scope limits)"
  unfolding cleanup_probe_def
  by (intro always_bind always_calls always_signal_members always_count_reaped always_drain_batch always_members_remain)


lemma always_cleanup_turn: "always (cleanup_turn os scope limits deadline u)"
  unfolding cleanup_turn_def cleanup_decide_def
  by (intro always_bind always_if always_calls always_cleanup_probe always_wait_for_output)


end

interpretation serving: service_steps "serves limits" os limits
proof
  fix buffer :: bytes and stream drained amount
  assume "buffer \<noteq> []" "length buffer \<le> rl_output_frame_bytes limits"
  then show "serving.always limits (push_chunk limits stream buffer drained amount)"
    unfolding push_chunk_def
    by (intro serving.always_get)
      (auto simp: act_bind_def push_event_def update_active_def serving.rel_refl intro: serves_push_chunk)
qed (auto simp: serving.always_def attempt_def on_guest_def update_active_def close_stdin_def follows_refl invocation_defs
    split: prod.splits intro!: serves_quiet)

text \<open>A service that pushes nothing.\<close>

definition quietly :: "'w service \<Rightarrow> 'w service \<Rightarrow> bool" where
  "quietly s t \<longleftrightarrow> se_events t = se_events s \<and> follows (se_active s) (se_active t)"

interpretation quietness: progress quietly
  by unfold_locales (auto simp: quietly_def intro: follows_refl follows_trans)

interpretation quietness: service_calls quietly os
  by unfold_locales
    (auto simp: quietness.always_def quietly_def attempt_def on_guest_def update_active_def close_stdin_def follows_refl
      invocation_defs split: prod.splits)

section \<open>A batch is bounded\<close>

text \<open>
  What was read between two states of the guest: the data of the reads that returned some, each with
  the descriptor it came from. A read of nothing and a failed read leave no entry.
\<close>

inductive read_log :: "'w guest_os \<Rightarrow> 'w \<Rightarrow> (int \<times> bytes) list \<Rightarrow> 'w \<Rightarrow> bool" for os where
  log_end: "read_log os w [] w"
| log_data: "os_read os fd n w = (Inr content, w') \<Longrightarrow> take n content \<noteq> [] \<Longrightarrow> read_log os w' rs w''
    \<Longrightarrow> read_log os w ((fd, take n content) # rs) w''"
| log_empty: "os_read os fd n w = (r, w') \<Longrightarrow> (\<forall>content. r = Inr content \<longrightarrow> take n content = []) \<Longrightarrow> read_log os w' rs w''
    \<Longrightarrow> read_log os w rs w''"

lemma read_log_append: "read_log os u rs v \<Longrightarrow> read_log os v rs' w \<Longrightarrow> read_log os u (rs @ rs') w"
  by (induction rule: read_log.induct) (auto intro: read_log.intros)

fun read_as :: "Invocation \<Rightarrow> OutputStream \<times> bytes \<Rightarrow> int \<times> bytes \<Rightarrow> bool" where
  "read_as iv (stream, buffer) (fd, data) \<longleftrightarrow> stream_fd stream iv = Some fd \<and> data = buffer"

lemma stream_fd_follows: "follows (absorb_all cs a) b \<Longrightarrow> stream_fd stream b = stream_fd stream a"
proof (induction cs a rule: absorb_all.induct)
  case (1 a)
  then show ?case by (cases stream) (simp_all add: invocation_defs)
next
  case (2 st buffer cs a)
  have "stream_fd stream (absorb_output st buffer a) = stream_fd stream a" by (cases stream; cases st) (simp_all add: absorb_output_def)
  with 2 show ?case by simp
qed

lemma read_as_follows: "follows (absorb_all cs a) b \<Longrightarrow> read_as b = read_as a"
  by (intro ext) (auto simp: stream_fd_follows)

text \<open>
  The chunks drawn between two states, with their number and their bytes: they are the data read, in order, but for
  a last chunk that was read and refused.
\<close>

definition drew :: "'w guest_os \<Rightarrow> RuntimeLimits \<Rightarrow> (int \<times> bytes) list \<Rightarrow> nat \<Rightarrow> nat \<Rightarrow> 'w service \<Rightarrow> 'w service \<Rightarrow> bool" where
  "drew os limits denied frames bytes s t \<longleftrightarrow> (\<exists>cs rs. list_all (chunk_ok limits) cs
     \<and> se_events t = se_events s @ output_events (se_active s) cs
     \<and> follows (absorb_all cs (se_active s)) (se_active t)
     \<and> list_all2 (read_as (se_active s)) cs rs \<and> read_log os (se_world s) (rs @ denied) (se_world t)
     \<and> length cs = frames \<and> sum_list (map (length \<circ> snd) cs) = bytes)"

lemma drew_quiet:
  "se_events t = se_events s \<Longrightarrow> follows (se_active s) (se_active t) \<Longrightarrow> read_log os (se_world s) denied (se_world t)
     \<Longrightarrow> drew os limits denied 0 0 s t"
  unfolding drew_def by (intro exI [of _ "[]"]) simp

lemma drew_refl: "drew os limits [] 0 0 s s"
  by (rule drew_quiet) (simp_all add: follows_refl read_log.intros)

lemma drew_trans:
  assumes "drew os limits [] f b s t" and "drew os limits denied f' b' t u"
  shows "drew os limits denied (f + f') (b + b') s u"
proof -
  from assms obtain cs rs ds rs' where cs: "list_all (chunk_ok limits) cs" "se_events t = se_events s @ output_events (se_active s) cs"
      "follows (absorb_all cs (se_active s)) (se_active t)" "list_all2 (read_as (se_active s)) cs rs"
      "read_log os (se_world s) rs (se_world t)" "length cs = f" "sum_list (map (length \<circ> snd) cs) = b"
    and ds: "list_all (chunk_ok limits) ds" "se_events u = se_events t @ output_events (se_active t) ds"
      "follows (absorb_all ds (se_active t)) (se_active u)" "list_all2 (read_as (se_active t)) ds rs'"
      "read_log os (se_world t) (rs' @ denied) (se_world u)" "length ds = f'" "sum_list (map (length \<circ> snd) ds) = b'"
    unfolding drew_def by auto
  have "follows (absorb_all (cs @ ds) (se_active s)) (se_active u)"
    using follows_trans [OF absorb_all_follows [OF cs(3)] ds(3)] by (simp add: absorb_all_append)
  moreover have "list_all2 (read_as (se_active s)) (cs @ ds) (rs @ rs')"
    using cs(4) ds(4) unfolding read_as_follows [OF cs(3)] by (rule list_all2_appendI)
  moreover have "read_log os (se_world s) ((rs @ rs') @ denied) (se_world u)" using read_log_append [OF cs(5) ds(5)] by simp
  ultimately show ?thesis
    unfolding drew_def using cs ds
    by (intro exI [of _ "cs @ ds"] exI [of _ "rs @ rs'"]) (simp add: output_events_append output_events_follows [OF cs(3)])
qed

lemma drew_fd: "drew os limits denied f b s t \<Longrightarrow> stream_fd stream (se_active t) = stream_fd stream (se_active s)"
  unfolding drew_def using stream_fd_follows by blast

abbreviation over_bound :: rt_error where
  "over_bound \<equiv> Io (io_error_new InvalidData ''invocation output exceeds the configured bound'')"

text \<open>A chunk is refused only with the error of the bound, and then it is the last one read.\<close>

definition refusal :: "rt_error + 'a \<Rightarrow> (int \<times> bytes) list \<Rightarrow> bool" where
  "refusal r denied \<longleftrightarrow> denied = [] \<or> length denied = 1 \<and> r = Inl over_bound"

lemma refusal_Nil [simp]: "refusal r []" and refusal_Inr [simp]: "refusal (Inr x) denied \<longleftrightarrow> denied = []"
  and refusal_Inl: "refusal (Inl e :: rt_error + 'a) denied \<Longrightarrow> refusal (Inl e :: rt_error + 'b) denied"
  by (auto simp: refusal_def)

lemma push_chunk_draws:
  assumes "push_chunk limits stream buffer d a (s\<lparr>se_world := w\<rparr>) = (r, t)" and "chunk_ok limits (stream, buffer)"
    and "stream_fd stream (se_active s) = Some raw" and "read_log os (se_world s) [(raw, buffer)] w"
  shows "r = Inl over_bound \<and> drew os limits [(raw, buffer)] 0 0 s t
    \<or> r = Inr (Again (d + 1, a + length buffer)) \<and> drew os limits [] 1 (length buffer) s t"
proof -
  have "drew os limits [] 1 (length buffer) s (s\<lparr>se_world := w, se_events := se_events s @ [output_event stream buffer (se_active s)],
      se_active := absorb_output stream buffer (se_active s)\<rparr>)"
    unfolding drew_def using assms(2-4) by (intro exI [of _ "[(stream, buffer)]"] exI [of _ "[(raw, buffer)]"]) (simp add: follows_refl)
  moreover have "drew os limits [(raw, buffer)] 0 0 s (s\<lparr>se_world := w\<rparr>)"
    by (rule drew_quiet) (simp_all add: follows_refl assms(4))
  ultimately show ?thesis
    using assms(1) by (auto simp: push_chunk_def act_bind_def push_event_def update_active_def split: if_splits)
qed

lemma drain_turn_draws:
  assumes "drain_turn os limits stream raw max_frames max_bytes (d, a) s = (r, t)" and fd: "stream_fd stream (se_active s) = Some raw"
  shows "(\<exists>denied. drew os limits denied 0 0 s t \<and> refusal r denied) \<and> ((\<exists>e. r = Inl e) \<or> r = Inr (Done (d, a)) \<or> r = Inr (Again (d, a)))
    \<or> (\<exists>n. 0 < n \<and> d < max_frames \<and> a + n \<le> max_bytes \<and> r = Inr (Again (d + 1, a + n)) \<and> drew os limits [] 1 n s t)"
proof -
  let ?chunk = "min (rl_output_frame_bytes limits) (max_bytes - a)"
  consider (idle) "r = Inr (Done (d, a))" "t = s"
    | (call) content w where "os_read os raw ?chunk (se_world s) = (content, w)" "d < max_frames" "0 < rl_output_frame_bytes limits" "a < max_bytes"
      "drain_outcome limits stream ?chunk d a content (s\<lparr>se_world := w\<rparr>) = (r, t)"
    using assms(1) unfolding drain_turn_def Let_def
    by (auto simp: act_bind_def attempt_def split: if_splits prod.splits)
  then show ?thesis
  proof cases
    case idle
    then show ?thesis using drew_refl [of os limits s] refusal_Nil by blast
  next
    case (call content w)
    show ?thesis
    proof (cases "\<exists>data. content = Inr data \<and> take ?chunk data \<noteq> []")
      case False
      then have log: "read_log os (se_world s) [] w" using call(1) by (blast intro: read_log.intros)
      have eof: "follows (se_active s) (update_stream stream (\<lambda>s. s\<lparr>ss_eof := True\<rparr>) (se_active s))"
        by (cases stream) (simp_all add: invocation_defs)
      have "drew os limits [] 0 0 s t"
        using False call(5) log eof
        by (auto simp: drain_outcome_def act_bind_def update_active_def follows_refl Let_def split: sum.splits if_splits
            intro!: drew_quiet)
      moreover have "(\<exists>e. r = Inl e) \<or> r = Inr (Done (d, a)) \<or> r = Inr (Again (d, a))"
        using False call(5) by (auto simp: drain_outcome_def act_bind_def update_active_def Let_def split: sum.splits if_splits)
      ultimately show ?thesis using refusal_Nil by blast
    next
      case True
      then obtain data where data: "content = Inr data" "take ?chunk data \<noteq> []" by blast
      let ?buffer = "take ?chunk data"
      have run: "push_chunk limits stream ?buffer d a (s\<lparr>se_world := w\<rparr>) = (r, t)"
        using call(5) data by (simp add: drain_outcome_def Let_def split: if_splits)
      have log: "read_log os (se_world s) [(raw, ?buffer)] w" using call(1) data by (auto intro: read_log.intros)
      have ok: "chunk_ok limits (stream, ?buffer)" and n: "a + length ?buffer \<le> max_bytes" "0 < length ?buffer"
        using data(2) call(3,4) by (auto simp: min_def)
      from push_chunk_draws [OF run ok fd log] show ?thesis
        using call(2) n by (auto simp: refusal_def)
    qed
  qed
qed

definition within_budget ::
    "'w guest_os \<Rightarrow> RuntimeLimits \<Rightarrow> (int \<times> bytes) list \<Rightarrow> nat \<Rightarrow> nat \<Rightarrow> 'w service \<Rightarrow> nat \<times> nat \<Rightarrow> 'w service \<Rightarrow> bool" where
  "within_budget os limits denied max_frames max_bytes s0 totals s \<longleftrightarrow>
     fst totals \<le> max_frames \<and> snd totals \<le> max_bytes \<and> drew os limits denied (fst totals) (snd totals) s0 s"

lemma drain_turn_budget:
  assumes "within_budget os limits [] max_frames max_bytes s0 totals s" and "stream_fd stream (se_active s0) = Some raw"
    and "drain_turn os limits stream raw max_frames max_bytes totals s = (r, t)"
  shows "\<exists>totals' denied. within_budget os limits denied max_frames max_bytes s0 totals' t \<and> refusal r denied
    \<and> (\<forall>x. r = Inr (Again x) \<longrightarrow> x = totals') \<and> (\<forall>x. r = Inr (Done x) \<longrightarrow> x = totals')"
proof -
  obtain d a where totals: "totals = (d, a)" by fastforce
  note budget = assms(1) [unfolded totals within_budget_def, simplified]
  have "stream_fd stream (se_active s) = Some raw" using drew_fd budget assms(2) by metis
  from drain_turn_draws [OF assms(3) [unfolded totals] this]
  consider (quiet) denied where "drew os limits denied 0 0 s t" "refusal r denied"
      "(\<exists>e. r = Inl e) \<or> r = Inr (Done (d, a)) \<or> r = Inr (Again (d, a))"
    | (frame) n where "d < max_frames" "a + n \<le> max_bytes" "r = Inr (Again (d + 1, a + n))" "drew os limits [] 1 n s t" by blast
  then show ?thesis
  proof cases
    case quiet
    have "drew os limits denied d a s0 t" using drew_trans [of os limits d a s0 s denied 0 0 t] budget quiet(1) by simp
    with quiet(2,3) show ?thesis using budget by (intro exI [of _ "(d, a)"] exI [of _ denied]) (auto simp: within_budget_def)
  next
    case frame
    have "drew os limits [] (d + 1) (a + n) s0 t" using drew_trans [of os limits d a s0 s "[]" 1 n t] budget frame(4) by simp
    with frame show ?thesis by (intro exI [of _ "(d + 1, a + n)"] exI [of _ "[]"]) (auto simp: within_budget_def)
  qed
qed

lemma within_budget_start: "within_budget os limits [] max_frames max_bytes s (0, 0) s"
  by (simp add: within_budget_def drew_refl)

lemma drain_stream_budget:
  assumes "drain_stream os limits stream max_frames max_bytes s = (r, t)"
  shows "\<exists>totals denied. within_budget os limits denied max_frames max_bytes s totals t \<and> refusal r denied \<and> (\<forall>x. r = Inr x \<longrightarrow> x = totals)"
proof -
  let ?body = "\<lambda>raw. drain_turn os limits stream raw max_frames max_bytes"
  note start = within_budget_start [of os limits max_frames max_bytes s]
  have eof: "within_budget os limits [] max_frames max_bytes s (0, 0)
      (s\<lparr>se_active := update_stream stream (\<lambda>s. s\<lparr>ss_eof := True\<rparr>) (se_active s)\<rparr>)"
  proof -
    have "follows (se_active s) (update_stream stream (\<lambda>s. s\<lparr>ss_eof := True\<rparr>) (se_active s))"
      by (cases stream) (simp_all add: invocation_defs)
    then have "drew os limits [] 0 0 s (s\<lparr>se_active := update_stream stream (\<lambda>s. s\<lparr>ss_eof := True\<rparr>) (se_active s)\<rparr>)"
      by (intro drew_quiet) (simp_all add: log_end)
    then show ?thesis by (simp add: within_budget_def)
  qed
  have loop: ?thesis if run: "act_loop Hung (?body raw) (0, 0) s = (r, t)" and fd: "stream_fd stream (se_active s) = Some raw" for raw
  proof -
    have keep: "within_budget os limits [] max_frames max_bytes s x' u'"
      if "within_budget os limits [] max_frames max_bytes s x u" "?body raw x u = (Inr (Again x'), u')" for x u x' u'
      using drain_turn_budget [OF that(1) fd that(2)] by auto
    from run start show ?thesis
    proof (rule act_loop_post [where I = "within_budget os limits [] max_frames max_bytes s"])
      fix x u assume "within_budget os limits [] max_frames max_bytes s x u" "?body raw x u = (last_turn r, t)"
      from drain_turn_budget [OF this(1) fd this(2)] show ?thesis by (cases r) (auto intro: refusal_Inl)
    next
      assume "r = Inl Hung" "t = s"
      with start show ?thesis using refusal_Nil by blast
    qed (rule keep)
  qed
  show ?thesis
  proof (cases "ss_eof (stream_state stream (se_active s))")
    case True
    with assms start show ?thesis by (auto simp: drain_stream_def)
  next
    case False
    with assms eof loop show ?thesis
      by (cases "stream_fd stream (se_active s)") (auto simp: drain_stream_def act_bind_def update_active_def)
  qed
qed

text \<open>The service budget of a batch, as its totals grow by the shares of the two streams.\<close>

abbreviation served :: "'w guest_os \<Rightarrow> RuntimeLimits \<Rightarrow> (int \<times> bytes) list \<Rightarrow> 'w service \<Rightarrow> nat \<times> nat \<Rightarrow> 'w service \<Rightarrow> bool" where
  "served os limits denied \<equiv> within_budget os limits denied MAX_SERVICE_FRAMES MAX_SERVICE_BYTES"

lemma within_budget_add:
  assumes "within_budget os limits [] F B s0 (f, b) s" and "within_budget os limits denied f' b' s (d, a) t" and "f + f' \<le> F" and "b + b' \<le> B"
  shows "within_budget os limits denied F B s0 (f + d, b + a) t"
  using assms drew_trans [of os limits f b s0 s denied d a t] by (simp add: within_budget_def)

lemma drain_share_budget:
  assumes "served os limits [] s0 (f, b) s" and "drain_share os limits stream (f, b) s = (r, t)"
  shows "\<exists>f' b' denied. served os limits denied s0 (f', b') t \<and> refusal r denied \<and> f \<le> f'
    \<and> (\<forall>x. r = Inr (Some x) \<longrightarrow> x = (f', b', f < f'))"
proof (cases "MAX_SERVICE_FRAMES - f = 0 \<or> MAX_SERVICE_BYTES - b = 0")
  case True
  with assms show ?thesis by (intro exI [of _ f] exI [of _ b] exI [of _ "[]"]) (auto simp: drain_share_def Let_def)
next
  case False
  let ?F = "(MAX_SERVICE_FRAMES - f + 1) div 2" and ?B = "(MAX_SERVICE_BYTES - b + 1) div 2"
  have room: "f + ?F \<le> MAX_SERVICE_FRAMES" "b + ?B \<le> MAX_SERVICE_BYTES" using False by linarith+
  obtain r' u where run: "drain_stream os limits stream ?F ?B s = (r', u)" by fastforce
  from drain_stream_budget [OF this] obtain d a denied where da: "within_budget os limits denied ?F ?B s (d, a) u"
    "refusal r' denied" "\<forall>x. r' = Inr x \<longrightarrow> x = (d, a)" by auto
  have "u = t" "\<forall>x. r = Inr (Some x) \<longrightarrow> x = (f + d, b + a, 0 < d)" "refusal r denied"
    using assms(2) run da(2,3) False by (auto simp: drain_share_def Let_def act_bind_def split: sum.splits intro: refusal_Inl)
  with within_budget_add [OF assms(1) da(1) room] show ?thesis
    by (intro exI [of _ "f + d"] exI [of _ "b + a"] exI [of _ denied]) auto
qed

lemma batch_turn_budget:
  assumes "served os limits [] s0 totals s" and "batch_turn os limits totals s = (r, t)"
  shows "\<exists>totals' denied. served os limits denied s0 totals' t \<and> refusal r denied
    \<and> (\<forall>x. r = Inr (Again x) \<longrightarrow> x = totals' \<and> fst totals < fst totals')"
proof -
  obtain f b where totals: "totals = (f, b)" by fastforce
  obtain out u where out: "drain_share os limits Stdout (f, b) s = (out, u)" by fastforce
  from drain_share_budget [OF assms(1) [unfolded totals] out] obtain f1 b1 denied where
    one: "served os limits denied s0 (f1, b1) u" "refusal out denied" "f \<le> f1" "\<forall>x. out = Inr (Some x) \<longrightarrow> x = (f1, b1, f < f1)" by blast
  show ?thesis
  proof (cases "\<exists>x. out = Inr (Some x)")
    case False
    with assms(2) out one(2) have "u = t" "\<forall>x. r \<noteq> Inr (Again x)" "refusal r denied"
      by (auto simp: batch_turn_def totals act_bind_def split: sum.splits option.splits intro: refusal_Inl)
    with one(1) show ?thesis by blast
  next
    case True
    then have "denied = []" using one(2) by auto
    obtain err v where err: "drain_share os limits Stderr (f1, b1) u = (err, v)" by fastforce
    from drain_share_budget [OF one(1) [unfolded \<open>denied = []\<close>] err] obtain f2 b2 denied' where
      two: "served os limits denied' s0 (f2, b2) v" "refusal err denied'" "f1 \<le> f2" "\<forall>x. err = Inr (Some x) \<longrightarrow> x = (f2, b2, f1 < f2)" by blast
    from True one(4) have out': "out = Inr (Some (f1, b1, f < f1))" by auto
    have "v = t" "\<forall>x. r = Inr (Again x) \<longrightarrow> x = (f2, b2) \<and> f < f2" "refusal r denied'"
      using out out' err two(2,4) assms(2) one(3) two(3)
      by (auto simp: batch_turn_def totals act_bind_def split: sum.splits option.splits if_splits intro: refusal_Inl)
    with two(1) totals show ?thesis by auto
  qed
qed

lemma drain_batch_budget:
  assumes "drain_batch os limits s = (r, t)"
  shows "\<exists>totals denied. served os limits denied s totals t \<and> refusal r denied"
proof -
  have keep: "served os limits [] s x' u'" if "served os limits [] s x u" "batch_turn os limits x u = (Inr (Again x'), u')" for x u x' u'
    using batch_turn_budget [OF that] by auto
  from assms [unfolded drain_batch_def] within_budget_start show ?thesis
  proof (rule act_loop_post [where I = "served os limits [] s"])
    fix x u assume "served os limits [] s x u" "batch_turn os limits x u = (last_turn r, t)"
    from batch_turn_budget [OF this] show ?thesis by (cases r) (auto intro: refusal_Inl)
  next
    assume "t = s"
    with within_budget_start show ?thesis using refusal_Nil by blast
  qed (rule keep)
qed

text \<open>
  C21. A batch of output service, whatever it returns, reads the output pipes, in some order, and pushes one output event
  for each chunk of data it read, in the order it read them and each placed after the ones before it, of at most the
  frame bound, and never more than \<open>MAX_SERVICE_FRAMES\<close> frames or \<open>MAX_SERVICE_BYTES\<close> bytes. Only a chunk that would exceed the
  output bound of the invocation is read and not pushed; then it is the last one, and the batch returns that error.
\<close>

theorem drain_batch_bounded:
  "\<exists>cs rs denied. let (r, t) = drain_batch os limits s in
     se_events t = se_events s @ output_events (se_active s) cs
     \<and> follows (absorb_all cs (se_active s)) (se_active t)
     \<and> list_all (\<lambda>(stream, buffer). buffer \<noteq> [] \<and> length buffer \<le> rl_output_frame_bytes limits) cs
     \<and> length cs \<le> MAX_SERVICE_FRAMES \<and> sum_list (map (length \<circ> snd) cs) \<le> MAX_SERVICE_BYTES
     \<and> list_all2 (read_as (se_active s)) cs rs \<and> read_log os (se_world s) (rs @ denied) (se_world t)
     \<and> (denied = [] \<or> length denied = 1
          \<and> r = Inl (Io (io_error_new InvalidData ''invocation output exceeds the configured bound'')))"
proof -
  obtain r t where run: "drain_batch os limits s = (r, t)" by fastforce
  from drain_batch_budget [OF this] obtain f b denied where "served os limits denied s (f, b) t" "refusal r denied" by auto
  moreover have "chunk_ok limits = (\<lambda>(stream, buffer). buffer \<noteq> [] \<and> length buffer \<le> rl_output_frame_bytes limits)"
    by (rule ext) auto
  ultimately show ?thesis unfolding run within_budget_def drew_def refusal_def Let_def by auto
qed

section \<open>Service returns\<close>

text \<open>
  What keeps the loops finite: a call is interrupted only finitely often, there are finitely many
  children to reap, and time passes. Nothing is assumed of what the calls return otherwise.
\<close>

locale settling_kernel =
  fixes os :: "'w guest_os" and interruptions children clock :: "'w \<Rightarrow> nat"
  assumes read_interrupted: "os_read os fd n w = (Inl e, w') \<Longrightarrow> oe_kind e = Interrupted \<Longrightarrow> interruptions w' < interruptions w"
    and write_interrupted: "os_write os fd bs w = (Inl e, w') \<Longrightarrow> oe_kind e = Interrupted \<Longrightarrow> interruptions w' < interruptions w"
    and child_reaped: "os_waitpid os target w = ((pid, status), w') \<Longrightarrow> 0 < pid \<Longrightarrow> children w' < children w"
    and now_advances: "os_now os w = (t, w') \<Longrightarrow> clock w \<le> t \<and> t < clock w'"
    and clock_read: "os_read os fd n w = (read, w') \<Longrightarrow> clock w \<le> clock w'"
    and clock_write: "os_write os fd bs w = (written, w') \<Longrightarrow> clock w \<le> clock w'"
    and clock_close: "clock w \<le> clock (os_close os fd w)"
    and clock_poll: "os_poll os fds timeout w = (ready, w') \<Longrightarrow> clock w \<le> clock w'"
    and clock_sleep: "clock w \<le> clock (os_sleep os timeout w)"
    and clock_kill: "os_kill os target signal w = (sent, w') \<Longrightarrow> clock w \<le> clock w'"
    and clock_waitpid: "os_waitpid os target w = (reaped, w') \<Longrightarrow> clock w \<le> clock w'"
    and clock_proc: "os_proc os w = (entries, w') \<Longrightarrow> clock w \<le> clock w'"
    and clock_proc_stat: "os_proc_stat os process w = (stat, w') \<Longrightarrow> clock w \<le> clock w'"
begin

definition later :: "'w service \<Rightarrow> 'w service \<Rightarrow> bool" where
  "later s t \<longleftrightarrow> clock (se_world s) \<le> clock (se_world t)"

end

sublocale settling_kernel \<subseteq> ticking: progress later
  by unfold_locales (auto simp: later_def)

sublocale settling_kernel \<subseteq> ticking: service_steps later os limits for limits
  by unfold_locales
    (auto simp: ticking.always_def later_def attempt_def on_guest_def update_active_def close_stdin_def drop_fd_def push_chunk_def
      act_bind_def push_event_def clock_close clock_sleep
      split: prod.splits option.splits sum.splits if_splits
      dest: now_advances clock_read clock_write clock_poll clock_kill clock_waitpid clock_proc clock_proc_stat)

context settling_kernel
begin

abbreviation goes_on :: "('w service, rt_error, 'a) action \<Rightarrow> bool" where
  "goes_on \<equiv> returns Hung"

lemma goes_on_calls:
  "goes_on (attempt call)" "goes_on (on_guest g)" "goes_on (update_active f)" "goes_on (push_event e)" "goes_on (close_stdin os)"
  by (auto simp: returns_def attempt_def on_guest_def update_active_def push_event_def close_stdin_def split: prod.splits)

lemmas goes_on_rules = returns_bind returns_if returns_pure goes_on_calls

lemma flush_input_returns: "goes_on (flush_input os)"
proof -
  have "goes_on (act_loop Hung (flush_turn os raw) ())" for raw
  proof (rule returns_loop)
    let ?R = "inv_image ({(m, n). m < n} <*lex*> {(m, n). m < n})
      (\<lambda>(u :: unit, s). (length (iv_pending_input (se_active s)), interruptions (se_world s)))"
    show "wf ?R" by (intro wf_inv_image wf_lex_prod wf_less)
    show "(\<lambda>_ _. True) () s" for s :: "'w service" by simp
    show "True \<and> ((x', s'), (x, s)) \<in> ?R" if "flush_turn os raw x s = (Inr (Again x'), s')" for x s x' s'
      using that by (auto simp: flush_turn_def act_bind_def attempt_def update_active_def dest: write_interrupted
          split: if_splits sum.splits prod.splits)
    show "goes_on (flush_turn os raw x)" for x
      unfolding flush_turn_def by (auto split: sum.splits intro!: goes_on_rules)
  qed
  then show ?thesis
    unfolding flush_input_def by (auto split: option.splits intro!: goes_on_rules)
qed

lemma drain_turn_again:
  assumes "drain_turn os limits stream raw max_frames max_bytes (d, a) s = (Inr (Again (d', a')), s')"
  shows "d < d' \<and> d < max_frames \<or> d' = d \<and> interruptions (se_world s') < interruptions (se_world s)"
  using assms
  by (auto simp: drain_turn_def drain_outcome_def push_chunk_def act_bind_def attempt_def update_active_def push_event_def Let_def
      dest: read_interrupted split: if_splits sum.splits prod.splits)

lemma drain_stream_returns: "goes_on (drain_stream os limits stream max_frames max_bytes)"
proof -
  have "goes_on (act_loop Hung (drain_turn os limits stream raw max_frames max_bytes) (0, 0))" for raw
  proof (rule returns_loop)
    let ?R = "inv_image ({(m, n). m < n} <*lex*> {(m, n). m < n})
      (\<lambda>(totals :: nat \<times> nat, s :: 'w service). (max_frames - fst totals, interruptions (se_world s)))"
    show "wf ?R" by (intro wf_inv_image wf_lex_prod wf_less)
    show "(\<lambda>_ _. True) (0 :: nat, 0 :: nat) s" for s :: "'w service" by simp
    show "True \<and> ((x', s'), (x, s)) \<in> ?R"
      if "drain_turn os limits stream raw max_frames max_bytes x s = (Inr (Again x'), s')" for x s x' s'
      using that drain_turn_again [of limits stream raw max_frames max_bytes "fst x" "snd x" s "fst x'" "snd x'" s'] by auto
    show "goes_on (drain_turn os limits stream raw max_frames max_bytes x)" for x
      unfolding drain_turn_def drain_outcome_def push_chunk_def Let_def
      by (cases x) (auto split: sum.splits intro!: goes_on_rules)
  qed
  then show ?thesis
    unfolding drain_stream_def by (auto split: option.splits intro!: goes_on_rules)
qed

lemma drain_share_returns: "goes_on (drain_share os limits stream totals)"
  unfolding drain_share_def Let_def
  by (auto split: prod.splits intro!: goes_on_rules drain_stream_returns)

lemma drain_batch_returns: "goes_on (drain_batch os limits)"
  unfolding drain_batch_def
proof (rule returns_loop)
  let ?R = "measure (\<lambda>(totals :: nat \<times> nat, s :: 'w service). MAX_SERVICE_FRAMES - fst totals)"
  show "wf ?R" by simp
  show "(\<lambda>totals s. \<exists>s0. served os limits [] s0 totals s) (0, 0) s" for s :: "'w service"
    using within_budget_start by blast
  show "(\<exists>s0. served os limits [] s0 x' s') \<and> ((x', s'), (x, s)) \<in> ?R"
    if "\<exists>s0. served os limits [] s0 x s" "batch_turn os limits x s = (Inr (Again x'), s')" for x s x' s'
  proof -
    from that(1) obtain s0 where "served os limits [] s0 x s" by blast
    from batch_turn_budget [OF this that(2)] have "served os limits [] s0 x' s'" "fst x < fst x'" by auto
    then show ?thesis by (auto simp: within_budget_def)
  qed
  show "goes_on (batch_turn os limits x)" for x
    unfolding batch_turn_def by (auto split: option.splits prod.splits intro!: goes_on_rules drain_share_returns)
qed

lemma drain_ready_returns: "goes_on (drain_ready os limits timeout)"
  unfolding drain_ready_def poll_once_def Let_def
  by (auto split: sum.splits intro!: goes_on_rules drain_batch_returns)

lemma reap_children_returns: "goes_on (reap_children os scope)"
proof -
  have "goes_on (act_loop Hung (reap_turn os target) 0)" for target
  proof (rule returns_loop)
    let ?R = "measure (\<lambda>(n :: nat, s :: 'w service). children (se_world s))"
    show "wf ?R" by simp
    show "(\<lambda>_ _. True) (0 :: nat) s" for s :: "'w service" by simp
    show "True \<and> ((x', s'), (x, s)) \<in> ?R" if again: "reap_turn os target x s = (Inr (Again x'), s')" for x s x' s'
    proof -
      obtain pid status w where call: "os_waitpid os target (se_world s) = ((pid, status), w)" by (metis prod.exhaust)
      with again have "0 < pid" "se_world s' = w"
        by (auto simp: reap_turn_def act_bind_def on_guest_def update_active_def split: if_splits)
      with child_reaped [OF call] show ?thesis by simp
    qed
    show "goes_on (reap_turn os target x)" for x
      unfolding reap_turn_def by (auto split: prod.splits intro!: goes_on_rules)
  qed
  then show ?thesis unfolding reap_children_def by (intro goes_on_rules)
qed

lemma count_reaped_returns: "goes_on (count_reaped os scope)"
  unfolding count_reaped_def by (intro goes_on_rules reap_children_returns)

lemma process_table_returns: "goes_on (lifted (guest_process_table os))"
proof -
  have lifted: "goes_on (act_lift (map_err Io r))" for r :: "os_error + 'x" by (cases r) (auto simp: returns_def)
  have entry: "goes_on (lifted (table_entry os members entry))" for members entry
    unfolding table_entry_def is_kernel_thread_def lifted_simps
    by (auto split: sum.splits option.splits intro!: goes_on_rules lifted)
  have "goes_on (lifted (table_entries os members entries))" for members entries
    by (induction entries arbitrary: members) (simp_all only: lifted_entries returns_pure returns_bind [OF entry])
  then show ?thesis
    unfolding guest_process_table_def lifted_simps by (auto split: sum.splits intro!: goes_on_rules)
qed

lemma signal_members_returns: "goes_on (lifted (signal_members os pid scope signal))"
  unfolding signal_members_def signal_one_def lifted_simps
  by (auto split: sum.splits MemberScope.splits intro!: goes_on_rules process_table_returns returns_each)

lemma members_remain_returns: "goes_on (lifted (members_remain os scope pid))"
  unfolding members_remain_def lifted_simps
  by (auto split: MemberScope.splits intro!: goes_on_rules process_table_returns)

lemma wait_for_output_returns: "goes_on (wait_for_output os timeout)"
  unfolding wait_for_output_def Let_def by (intro goes_on_rules)

lemma cleanup_turn_returns: "goes_on (cleanup_turn os scope limits deadline u)"
  unfolding cleanup_turn_def cleanup_probe_def cleanup_decide_def
  by (intro goes_on_rules signal_members_returns count_reaped_returns drain_batch_returns members_remain_returns
      wait_for_output_returns) simp

lemma cleanup_turn_again:
  assumes "cleanup_turn os scope limits deadline u s = (Inr (Again u'), s')"
  shows "clock (se_world s) < clock (se_world s') \<and> clock (se_world s) < deadline"
proof -
  from assms obtain members s1 where probe: "cleanup_probe os scope limits s = (Inr members, s1)"
    and decide: "cleanup_decide os deadline members s1 = (Inr (Again u'), s')"
    by (auto simp: cleanup_turn_def act_bind_Inr)
  have early: "later s s1" using ticking.always_run [OF ticking.always_cleanup_probe probe] .
  from decide obtain now w v where now: "os_now os (se_world s1) = (now, w)" "now < deadline"
    and wait: "wait_for_output os 10 (s1\<lparr>se_world := w\<rparr>) = (Inr v, s')"
    by (auto simp: cleanup_decide_def act_bind_Inr on_guest_def not_le split: if_splits prod.splits)
  have wait: "later (s1\<lparr>se_world := w\<rparr>) s'" using ticking.always_run [OF ticking.always_wait_for_output wait] .
  show ?thesis using now_advances [OF now(1)] early wait now(2) by (auto simp: later_def)
qed

lemma cleanup_returns: "goes_on (cleanup os scope limits)"
proof -
  have "goes_on (act_loop Hung (cleanup_turn os scope limits deadline) ())" for deadline
  proof (rule returns_loop)
    let ?R = "measure (\<lambda>(u :: unit, s :: 'w service). deadline - clock (se_world s))"
    show "wf ?R" by simp
    show "(\<lambda>_ _. True) () s" for s :: "'w service" by simp
    show "True \<and> ((x', s'), (x, s)) \<in> ?R" if "cleanup_turn os scope limits deadline x s = (Inr (Again x'), s')" for x s x' s'
      using cleanup_turn_again [OF that] by auto
    show "goes_on (cleanup_turn os scope limits deadline x)" for x by (rule cleanup_turn_returns)
  qed
  then show ?thesis
    unfolding cleanup_def cleanup_report_def
    by (auto split: option.splits intro!: goes_on_rules count_reaped_returns)
qed

end

section \<open>The report of the barrier\<close>

definition stream_bytes :: "OutputStream \<Rightarrow> (OutputStream \<times> bytes) list \<Rightarrow> bytes" where
  "stream_bytes stream chunks = concat (map snd (filter (\<lambda>c. fst c = stream) chunks))"

lemma absorb_output_totals [simp]:
  "ss_hasher (stream_state stream (absorb_output s b iv)) = ss_hasher (stream_state stream iv) @ (if s = stream then b else [])"
  "ss_bytes (stream_state stream (absorb_output s b iv)) = ss_bytes (stream_state stream iv) + (if s = stream then length b else 0)"
  "ss_offset (stream_state stream (absorb_output s b iv)) = ss_offset (stream_state stream iv) + (if s = stream then length b else 0)"
  "iv_frames (absorb_output s b iv) = iv_frames iv + 1" "iv_sequence (absorb_output s b iv) = iv_sequence iv + 1"
  "iv_id (absorb_output s b iv) = iv_id iv" "iv_pid (absorb_output s b iv) = iv_pid iv"
  "iv_reaped (absorb_output s b iv) = iv_reaped iv" "iv_exit (absorb_output s b iv) = iv_exit iv"
  "iv_cleanup_complete (absorb_output s b iv) = iv_cleanup_complete iv" "iv_root (absorb_output s b iv) = iv_root iv"
  "ss_eof (stream_state stream (absorb_output s b iv)) = ss_eof (stream_state stream iv)" "iv_stdin (absorb_output s b iv) = iv_stdin iv"
  by (cases s; cases stream; simp add: absorb_output_def)+

lemma absorb_all_totals [simp]:
  "ss_hasher (stream_state stream (absorb_all cs iv)) = ss_hasher (stream_state stream iv) @ stream_bytes stream cs"
  "ss_bytes (stream_state stream (absorb_all cs iv)) = ss_bytes (stream_state stream iv) + length (stream_bytes stream cs)"
  "ss_offset (stream_state stream (absorb_all cs iv)) = ss_offset (stream_state stream iv) + length (stream_bytes stream cs)"
  "iv_frames (absorb_all cs iv) = iv_frames iv + length cs" "iv_sequence (absorb_all cs iv) = iv_sequence iv + length cs"
  "iv_id (absorb_all cs iv) = iv_id iv" "iv_pid (absorb_all cs iv) = iv_pid iv"
  "iv_reaped (absorb_all cs iv) = iv_reaped iv" "iv_exit (absorb_all cs iv) = iv_exit iv"
  "iv_cleanup_complete (absorb_all cs iv) = iv_cleanup_complete iv" "iv_root (absorb_all cs iv) = iv_root iv"
  "ss_eof (stream_state stream (absorb_all cs iv)) = ss_eof (stream_state stream iv)" "iv_stdin (absorb_all cs iv) = iv_stdin iv"
  by (induction cs iv rule: absorb_all.induct, simp_all add: stream_bytes_def)

text \<open>The state in which the barrier was verified: no member answered the probe and both streams had ended.\<close>

definition quiescent :: "'w guest_os \<Rightarrow> MemberScope \<Rightarrow> Invocation \<Rightarrow> bool" where
  "quiescent os scope iv \<longleftrightarrow> ss_eof (iv_stdout_state iv) \<and> ss_eof (iv_stderr_state iv)
     \<and> (\<exists>w w'. members_remain os scope (iv_pid iv) w = (Inr False, w'))"

lemma quiescent_follows: "quiescent os scope a \<Longrightarrow> follows a b \<Longrightarrow> quiescent os scope b"
  by (auto simp: quiescent_def invocation_defs)

lemma serves_pid: "serves limits s t \<Longrightarrow> iv_pid (se_active t) = iv_pid (se_active s)"
  by (auto simp: serves_def follows_def same_process_def)

lemma absorb_all_streams [simp]:
  "ss_hasher (iv_stdout_state (absorb_all cs iv)) = ss_hasher (iv_stdout_state iv) @ stream_bytes Stdout cs"
  "ss_hasher (iv_stderr_state (absorb_all cs iv)) = ss_hasher (iv_stderr_state iv) @ stream_bytes Stderr cs"
  "ss_bytes (iv_stdout_state (absorb_all cs iv)) = ss_bytes (iv_stdout_state iv) + length (stream_bytes Stdout cs)"
  "ss_bytes (iv_stderr_state (absorb_all cs iv)) = ss_bytes (iv_stderr_state iv) + length (stream_bytes Stderr cs)"
  "ss_offset (iv_stdout_state (absorb_all cs iv)) = ss_offset (iv_stdout_state iv) + length (stream_bytes Stdout cs)"
  "ss_offset (iv_stderr_state (absorb_all cs iv)) = ss_offset (iv_stderr_state iv) + length (stream_bytes Stderr cs)"
  "ss_eof (iv_stdout_state (absorb_all cs iv)) = ss_eof (iv_stdout_state iv)"
  "ss_eof (iv_stderr_state (absorb_all cs iv)) = ss_eof (iv_stderr_state iv)"
  using absorb_all_totals(1-3,12) [where stream = Stdout] absorb_all_totals(1-3,12) [where stream = Stderr] by simp_all

lemma serves_quiescent:
  assumes "serves limits s t" and "quiescent os scope (se_active s)"
  shows "quiescent os scope (se_active t)"
proof -
  from assms(1) obtain cs where "follows (absorb_all cs (se_active s)) (se_active t)" unfolding serves_def by blast
  with assms(2) show ?thesis unfolding quiescent_def follows_def same_process_def same_stream_def by simp
qed

lemma serves_stdin:
  assumes "serves limits s t" and "iv_stdin (se_active s) = None"
  shows "iv_stdin (se_active t) = None"
proof -
  from assms(1) obtain cs where "follows (absorb_all cs (se_active s)) (se_active t)" unfolding serves_def by blast
  with assms(2) show ?thesis unfolding follows_def same_input_def by auto
qed

lemma cleanup_turn_done:
  assumes "cleanup_turn os scope limits deadline u s = (Inr (Done v), t)"
  shows "quiescent os scope (se_active t)"
proof -
  from assms obtain members where probe: "cleanup_probe os scope limits s = (Inr members, t)" "\<not> members"
    and eof: "ss_eof (iv_stdout_state (se_active t))" "ss_eof (iv_stderr_state (se_active t))"
    by (auto simp: cleanup_turn_def cleanup_decide_def act_bind_Inr split: if_splits)
  from probe obtain s3 where "lifted (members_remain os scope (iv_pid (se_active s))) s3 = (Inr False, t)"
    by (auto simp: cleanup_probe_def act_bind_Inr)
  then obtain w w' where remain: "members_remain os scope (iv_pid (se_active s)) w = (Inr False, w')"
    using lifted_run by blast
  with serves_pid [OF serving.always_run [OF serving.always_cleanup_probe probe(1)]] eof show ?thesis
    unfolding quiescent_def by auto
qed

lemma cleanup_reports:
  assumes "cleanup os scope limits s = (Inr v, t)" and "\<not> iv_cleanup_complete (se_active s)"
  obtains cs exit reaped where "list_all (chunk_ok limits) cs"
    "se_events t = se_events s @ output_events (se_active s) cs @
       [WorkloadExited (iv_id (se_active s)) exit
          (ss_bytes (iv_stdout_state (se_active s)) + length (stream_bytes Stdout cs))
          (hex_text (os_sha256 os (ss_hasher (iv_stdout_state (se_active s)) @ stream_bytes Stdout cs)))
          (ss_bytes (iv_stderr_state (se_active s)) + length (stream_bytes Stderr cs))
          (hex_text (os_sha256 os (ss_hasher (iv_stderr_state (se_active s)) @ stream_bytes Stderr cs)))
          (iv_frames (se_active s) + length cs),
        CleanupComplete (iv_id (se_active s)) reaped]"
    "quiescent os scope (se_active t)" "iv_cleanup_complete (se_active t)" "iv_exit (se_active t) = Some exit"
    "iv_exit (se_active s) \<noteq> None \<longrightarrow> iv_exit (se_active s) = Some exit" "iv_reaped (se_active s) \<le> reaped"
    "iv_root (se_active t) = iv_root (se_active s)" "iv_id (se_active t) = iv_id (se_active s)"
    "iv_pid (se_active t) = iv_pid (se_active s)" "iv_stdin (se_active t) = None"
proof -
  from assms obtain s1 start s2 s3 s4 x y where
    close: "close_stdin os s = (Inr (), s1)" and now: "on_guest (os_now os) s1 = (Inr start, s2)"
    and loop: "act_loop Hung (cleanup_turn os scope limits (start + CLEANUP_TIMEOUT)) () s2 = (Inr x, s3)"
    and reap: "count_reaped os scope s3 = (Inr y, s4)"
    and rest: "(case iv_exit (se_active s4) of
        None \<Rightarrow> act_fail (Io (io_error_new OtherKind ''the workload primary process was not reaped''))
      | Some exit \<Rightarrow> cleanup_report os exit) s4 = (Inr v, t)"
    by (auto simp: cleanup_def act_bind_Inr)
  obtain exit where exit: "iv_exit (se_active s4) = Some exit" and report: "cleanup_report os exit s4 = (Inr v, t)"
    using rest by (cases "iv_exit (se_active s4)") auto
  have stdin: "iv_stdin (se_active s1) = None" using close by (auto simp: close_stdin_def)
  have "serves limits s s1" "serves limits s1 s2" "serves limits s2 s3" "serves limits s3 s4"
    using serving.always_run [OF serving.call_close close] serving.always_run [OF serving.call_now now]
      serving.always_run [OF serving.always_loop loop] serving.always_run [OF serving.always_count_reaped reap]
      serving.always_cleanup_turn by blast+
  note path = this
  then have tail: "serves limits s1 s4" and all: "serves limits s s4" using serving.rel_trans [OF serving.rel_trans] serving.rel_trans by blast+
  have "quiescent os scope (se_active s3)"
    using loop by (rule act_loop_done [where I = "\<lambda>_ _. True"]) (auto intro: cleanup_turn_done)
  then have quiet: "quiescent os scope (se_active s4)" by (rule serves_quiescent [OF path(4)])
  from all obtain cs where cs: "list_all (chunk_ok limits) cs" "se_events s4 = se_events s @ output_events (se_active s) cs"
    "follows (absorb_all cs (se_active s)) (se_active s4)" by (auto simp: serves_def)
  let ?iv = "se_active s4"
  from cs(3) have same: "iv_id ?iv = iv_id (se_active s)" "iv_pid ?iv = iv_pid (se_active s)" "iv_root ?iv = iv_root (se_active s)"
    "iv_frames ?iv = iv_frames (se_active s) + length cs" "iv_reaped (se_active s) \<le> iv_reaped ?iv"
    "iv_exit (se_active s) \<noteq> None \<longrightarrow> iv_exit (se_active s) = iv_exit ?iv"
    "ss_hasher (iv_stdout_state ?iv) = ss_hasher (iv_stdout_state (se_active s)) @ stream_bytes Stdout cs"
    "ss_hasher (iv_stderr_state ?iv) = ss_hasher (iv_stderr_state (se_active s)) @ stream_bytes Stderr cs"
    "ss_bytes (iv_stdout_state ?iv) = ss_bytes (iv_stdout_state (se_active s)) + length (stream_bytes Stdout cs)"
    "ss_bytes (iv_stderr_state ?iv) = ss_bytes (iv_stderr_state (se_active s)) + length (stream_bytes Stderr cs)"
    unfolding follows_def same_process_def same_stream_def by simp_all
  have t: "se_active t = ?iv\<lparr>iv_stdout_state := (iv_stdout_state ?iv)\<lparr>ss_hasher := []\<rparr>,
      iv_stderr_state := (iv_stderr_state ?iv)\<lparr>ss_hasher := []\<rparr>, iv_cleanup_complete := True,
      iv_stdout := None, iv_stderr := None\<rparr>"
    and events: "se_events t = se_events s4 @
      [WorkloadExited (iv_id ?iv) exit (ss_bytes (iv_stdout_state ?iv)) (hex_text (os_sha256 os (ss_hasher (iv_stdout_state ?iv))))
         (ss_bytes (iv_stderr_state ?iv)) (hex_text (os_sha256 os (ss_hasher (iv_stderr_state ?iv)))) (iv_frames ?iv),
       CleanupComplete (iv_id ?iv) (iv_reaped ?iv)]"
    using report unfolding cleanup_report_def finish_stream_def Let_def by auto
  from quiet have "quiescent os scope (se_active t)" unfolding t quiescent_def by simp
  then show ?thesis
    using cs(1) same exit serves_stdin [OF tail stdin] by (intro that [of cs exit "iv_reaped ?iv"]) (simp_all add: t events cs(2))
qed

end
