(* ===== verification/Guest_Root.thy ===== *)
theory Guest_Root
  imports Guest_Process Static_Elf "HOL-Library.Sublist" "HOL-Library.Multiset"
begin

text \<open>
  The file system side of \<open>runtime.rs\<close>: the limits of the runtime, the walk that validates the
  immutable template, the fresh root materialized from it with its overlay, and the check of the
  launch target. The standard library's file system calls are modelled on an explicit file system:
  nodes by the components of their path, with the calls counted so that any of them can be made
  to fail, and with the time a directory shows after an entry is created in it.
\<close>

section \<open>The template and the file system\<close>

record metadata =
  md_mode :: u32
  md_uid :: u32
  md_gid :: u32
  md_mtime :: int

datatype template =
    TDir metadata "(string \<times> template) list"
  | TFile metadata bytes
  | TLink metadata string
  | TOther metadata

fun template_meta :: "template \<Rightarrow> metadata" where
  "template_meta (TDir m es) = m"
| "template_meta (TFile m bs) = m"
| "template_meta (TLink m target) = m"
| "template_meta (TOther m) = m"

datatype content = DirNode | FileNode bytes | LinkNode string | DeviceNode "nat \<times> nat"

record inode =
  in_content :: content
  in_mode :: u32
  in_uid :: u32
  in_gid :: u32
  in_mtime :: int

type_synonym path = "string list"

record file_system =
  fs_nodes :: "path \<Rightarrow> inode option"
  fs_calls :: nat
  fs_fault :: "nat \<Rightarrow> os_error option"
  fs_time :: "nat \<Rightarrow> int"
  fs_survives :: "nat \<Rightarrow> path \<Rightarrow> bool"

type_synonym 'a fs_action = "(file_system, os_error, 'a) action"

text \<open>Every call is counted; it fails when a fault is planned for it, otherwise as the call says.\<close>

definition fs_call :: "(file_system \<Rightarrow> os_error + 'a \<times> (path \<Rightarrow> inode option)) \<Rightarrow> 'a fs_action" where
  "fs_call f = (\<lambda>s. let s' = s\<lparr>fs_calls := fs_calls s + 1\<rparr> in
     case fs_fault s (fs_calls s) of
       Some e \<Rightarrow> (Inl e, s')
     | None \<Rightarrow> (case f s of Inl e \<Rightarrow> (Inl e, s') | Inr (x, nodes) \<Rightarrow> (Inr x, s'\<lparr>fs_nodes := nodes\<rparr>)))"

definition not_found :: os_error where
  "not_found = \<lparr>oe_kind = NotFound, oe_raw = Some 2, oe_text = ''No such file or directory (os error 2)''\<rparr>"

definition already_exists :: os_error where
  "already_exists = \<lparr>oe_kind = AlreadyExists, oe_raw = Some 17, oe_text = ''File exists (os error 17)''\<rparr>"

definition is_dir :: "inode \<Rightarrow> bool" where "is_dir n \<longleftrightarrow> in_content n = DirNode"
definition is_file :: "inode \<Rightarrow> bool" where "is_file n \<longleftrightarrow> (case in_content n of FileNode _ \<Rightarrow> True | _ \<Rightarrow> False)"
definition is_symlink :: "inode \<Rightarrow> bool" where "is_symlink n \<longleftrightarrow> (case in_content n of LinkNode _ \<Rightarrow> True | _ \<Rightarrow> False)"

text \<open>A call on the template that has no effect of its own.\<close>

definition fs_probe :: "unit fs_action" where
  "fs_probe = fs_call (\<lambda>s. Inr ((), fs_nodes s))"

definition symlink_metadata :: "path \<Rightarrow> inode fs_action" where
  "symlink_metadata p = fs_call (\<lambda>s. case fs_nodes s p of None \<Rightarrow> Inl not_found | Some n \<Rightarrow> Inr (n, fs_nodes s))"

definition path_exists :: "path \<Rightarrow> bool fs_action" where
  "path_exists p = (\<lambda>s. (Inr (fs_nodes s p \<noteq> None \<and> fs_fault s (fs_calls s) = None), s\<lparr>fs_calls := fs_calls s + 1\<rparr>))"

text \<open>A new entry: the name must be free, its directory must exist, and the directory shows the time.\<close>

definition add_node :: "path \<Rightarrow> content \<Rightarrow> u32 \<Rightarrow> unit fs_action" where
  "add_node p c mode = fs_call (\<lambda>s.
     if fs_nodes s p \<noteq> None then Inl already_exists
     else if p = [] then Inl already_exists
     else (case fs_nodes s (butlast p) of
       None \<Rightarrow> Inl not_found
     | Some d \<Rightarrow>
         if \<not> is_dir d then Inl not_found
         else Inr ((), (fs_nodes s)(butlast p \<mapsto> d\<lparr>in_mtime := fs_time s (fs_calls s)\<rparr>,
           p \<mapsto> \<lparr>in_content = c, in_mode = mode, in_uid = 0, in_gid = 0, in_mtime = fs_time s (fs_calls s)\<rparr>))))"

definition create_dir :: "path \<Rightarrow> unit fs_action" where
  "create_dir p = add_node p DirNode 0x1ed"

definition update_node :: "path \<Rightarrow> (inode \<Rightarrow> inode) \<Rightarrow> unit fs_action" where
  "update_node p f = fs_call (\<lambda>s. case fs_nodes s p of None \<Rightarrow> Inl not_found | Some n \<Rightarrow> Inr ((), (fs_nodes s)(p \<mapsto> f n)))"

text \<open>\<open>chown\<close> takes the set-user-ID bit, and the set-group-ID bit of a group-executable file.\<close>

definition without_set_id :: "u32 \<Rightarrow> u32" where
  "without_set_id mode =
     (let mode = and mode (not 0x800) in if and mode 0x8 \<noteq> 0 then and mode (not 0x400) else mode)"

definition chown_mode :: "inode \<Rightarrow> u32" where
  "chown_mode n = (if is_dir n then in_mode n else without_set_id (in_mode n))"

definition chmod :: "path \<Rightarrow> u32 \<Rightarrow> unit fs_action" where
  "chmod p mode = update_node p (\<lambda>n. n\<lparr>in_mode := mode\<rparr>)"

definition lchown :: "path \<Rightarrow> u32 \<Rightarrow> u32 \<Rightarrow> unit fs_action" where
  "lchown p uid gid = update_node p (\<lambda>n. n\<lparr>in_mode := chown_mode n, in_uid := uid, in_gid := gid\<rparr>)"

definition utimensat :: "path \<Rightarrow> int \<Rightarrow> unit fs_action" where
  "utimensat p seconds = update_node p (\<lambda>n. n\<lparr>in_mtime := seconds\<rparr>)"

text \<open>A removal takes everything below; a failing one may leave part of it.\<close>

definition remove_dir_all :: "path \<Rightarrow> unit fs_action" where
  "remove_dir_all p = (\<lambda>s. let s' = s\<lparr>fs_calls := fs_calls s + 1\<rparr> in
     if fs_nodes s p = None then (Inl not_found, s')
     else (case fs_fault s (fs_calls s) of
       Some e \<Rightarrow> (Inl e, s'\<lparr>fs_nodes := (\<lambda>q. if prefix p q \<and> \<not> fs_survives s (fs_calls s) q then None else fs_nodes s q)\<rparr>)
     | None \<Rightarrow> (Inr (), s'\<lparr>fs_nodes := (\<lambda>q. if prefix p q then None else fs_nodes s q)\<rparr>)))"

text \<open>An error with its context, \<open>map_err(|error| invalid(format!("<text>: {error}")))\<close>.\<close>

definition context_of :: "string \<Rightarrow> 'a fs_action \<Rightarrow> 'a fs_action" where
  "context_of message a = (\<lambda>s. let (r, t) = a s in (map_err (\<lambda>e. invalid (message @ '': '' @ oe_text e)) r, t))"

definition show_path :: "path \<Rightarrow> string" where
  "show_path p = concat (map (\<lambda>c. ''/'' @ c) p)"

section \<open>Limits\<close>

definition validate_limits :: "RuntimeLimits \<Rightarrow> os_error + unit" where
  "validate_limits limits =
     (if rl_input_frame_bytes limits = 0 \<or> rl_input_frame_bytes limits > MAX_STDIN_FRAME_BYTES
         \<or> rl_output_frame_bytes limits = 0 \<or> rl_output_frame_bytes limits > MAX_OUTPUT_FRAME_BYTES
      then Inl (invalid ''runtime frame limits must be positive and within the protocol bounds'')
      else if rl_input_bytes limits < rl_input_frame_bytes limits \<or> rl_output_bytes limits < rl_output_frame_bytes limits
      then Inl (invalid ''runtime byte limits must cover at least one whole frame'')
      else if rl_template_entries limits = 0 \<or> rl_template_entries limits > MAX_VIEW_ENTRIES
         \<or> rl_template_path_bytes limits = 0 \<or> rl_template_path_bytes limits > MAX_PATH_BYTES
         \<or> rl_file_bytes limits = 0 \<or> rl_file_bytes limits > MAX_FILE_BYTES
      then Inl (invalid ''runtime template limits must be positive and within the canonical filesystem bounds'')
      else Inr ())"

section \<open>The template\<close>

fun is_template_dir :: "template \<Rightarrow> bool" where
  "is_template_dir (TDir _ _) = True"
| "is_template_dir _ = False"

text \<open>
  One entry of a directory of the template, with the path of that directory: the entries counted
  so far, and the directories still to visit.
\<close>

definition template_entry ::
    "RuntimeLimits \<Rightarrow> string \<Rightarrow> nat \<times> (template \<times> string) list \<Rightarrow> string \<times> template \<Rightarrow> (nat \<times> (template \<times> string) list) fs_action" where
  "template_entry limits pre = (\<lambda>(entries, stack) (name, node).
     act_bind (context_of ''cannot read a template entry'' fs_probe) (\<lambda>_.
     if CHR ''/'' \<in> set name \<or> CHR 0x00 \<in> set name then act_fail (invalid ''a template entry name is not a path component'')
     else
       let path = (if pre = [] then name else pre @ CHR ''/'' # name); entries = entries + 1 in
       if entries > rl_template_entries limits
       then act_fail (invalid (''the workload template exceeds '' @ dec (rl_template_entries limits) @ '' entries''))
       else if length path > rl_template_path_bytes limits
       then act_fail (invalid (''a workload template path exceeds '' @ dec (rl_template_path_bytes limits) @ '' bytes''))
       else act_bind (context_of ''cannot inspect a template entry'' fs_probe) (\<lambda>_.
         if below_or_at (as_bytes path) \<and> \<not> is_template_dir node
         then act_fail (invalid (''overlay path '' @ path @ '' collides with the runtime overlay''))
         else (case node of
             TDir _ _ \<Rightarrow> act_return (entries, (node, path) # stack)
           | TFile _ _ \<Rightarrow> act_return (entries, stack)
           | TLink _ _ \<Rightarrow> act_return (entries, stack)
           | TOther _ \<Rightarrow> act_fail (invalid (''workload template entry '' @ path
               @ '' is not a regular file, directory, or symbolic link''))))))"

fun act_fold :: "('x \<Rightarrow> 'y \<Rightarrow> ('s, 'e, 'x) action) \<Rightarrow> 'x \<Rightarrow> 'y list \<Rightarrow> ('s, 'e, 'x) action" where
  "act_fold f x [] = act_return x"
| "act_fold f x (y # ys) = act_bind (f x y) (\<lambda>x. act_fold f x ys)"

fun template_children :: "template \<Rightarrow> (string \<times> template) list" where
  "template_children (TDir _ es) = es"
| "template_children _ = []"

text \<open>The walk: the directory on top of the stack is read and its directories are pushed.\<close>

definition walk_directory ::
    "RuntimeLimits \<Rightarrow> nat \<times> (template \<times> string) list \<Rightarrow> (nat \<times> (template \<times> string) list, unit) turn fs_action" where
  "walk_directory limits = (\<lambda>(entries, stack).
     case stack of
       [] \<Rightarrow> act_return (Done ())
     | (directory, pre) # stack \<Rightarrow>
         act_bind (context_of ''cannot read the workload template'' fs_probe) (\<lambda>_.
         act_bind (act_fold (template_entry limits pre) (entries, stack) (template_children directory)) (\<lambda>state.
         act_return (Again state))))"

definition walk_turn ::
    "RuntimeLimits \<Rightarrow> nat \<times> (template \<times> string) list
      \<Rightarrow> (file_system, rt_error, (nat \<times> (template \<times> string) list, unit) turn) action" where
  "walk_turn limits state = (\<lambda>s. let (r, t) = walk_directory limits state s in (map_err Io r, t))"

definition validate_template :: "template option \<Rightarrow> RuntimeLimits \<Rightarrow> (file_system, rt_error, unit) action" where
  "validate_template source limits =
     act_bind (\<lambda>s. let (r, t) = context_of ''cannot inspect the workload template''
         (fs_call (\<lambda>s. case source of None \<Rightarrow> Inl not_found | Some node \<Rightarrow> Inr (node, fs_nodes s))) s in (map_err Io r, t)) (\<lambda>node.
     if \<not> is_template_dir node then act_fail (Io (invalid ''the workload template root is not a directory''))
     else act_loop Hung (walk_turn limits) (1, [(node, [])]))"

section \<open>The fresh root\<close>

definition unix_mode :: "metadata \<Rightarrow> u32" where "unix_mode m = and (md_mode m) 0xfff"
definition unix_owner :: "metadata \<Rightarrow> u32 \<times> u32" where "unix_owner m = (md_uid m, md_gid m)"
definition unix_mtime :: "metadata \<Rightarrow> u32" where "unix_mtime m = of_int (max (md_mtime m) 0)"

definition OVERLAY_DIRECTORY_MODE :: u32 where "OVERLAY_DIRECTORY_MODE = 0x1ed"
definition OVERLAY_TMP_MODE :: u32 where "OVERLAY_TMP_MODE = 0x3ff"
definition OVERLAY_DEVICE_MODE :: u32 where "OVERLAY_DEVICE_MODE = 0x1b6"
definition DEV_NULL :: "nat \<times> nat" where "DEV_NULL = (1, 3)"
definition DEV_ZERO :: "nat \<times> nat" where "DEV_ZERO = (1, 5)"

definition path_cstring :: "path \<Rightarrow> unit fs_action" where
  "path_cstring p =
     act_require (CHR 0x00 \<notin> set (show_path p)) (invalid (''path '' @ show_path p @ '' contains a NUL byte''))"

definition set_metadata :: "path \<Rightarrow> u32 \<Rightarrow> u32 \<times> u32 \<Rightarrow> u32 \<Rightarrow> bool \<Rightarrow> unit fs_action" where
  "set_metadata p mode = (\<lambda>(uid, gid) mtime symlink.
     act_bind (path_cstring p) (\<lambda>_.
     act_bind (if symlink then act_return () else context_of (''cannot set workload mode on '' @ show_path p) (chmod p mode)) (\<lambda>_.
     act_bind (context_of (''cannot set workload owner on '' @ show_path p) (lchown p uid gid)) (\<lambda>_.
     context_of (''cannot set workload timestamp on '' @ show_path p) (utimensat p (uint mtime))))))"

definition mknod_device :: "path \<Rightarrow> nat \<times> nat \<Rightarrow> unit fs_action" where
  "mknod_device p device =
     act_bind (path_cstring p) (\<lambda>_.
     context_of (''cannot create overlay device '' @ show_path p) (add_node p (DeviceNode device) OVERLAY_DEVICE_MODE))"

text \<open>\<open>copy_entries\<close> and, for one entry that is not skipped, what its type asks for.\<close>

fun copy_entries :: "RuntimeLimits \<Rightarrow> bool \<Rightarrow> path \<Rightarrow> (string \<times> template) list \<Rightarrow> unit fs_action"
  and copy_node :: "RuntimeLimits \<Rightarrow> path \<Rightarrow> template \<Rightarrow> unit fs_action" where
  "copy_entries limits skip_overlay destination [] = act_return ()"
| "copy_entries limits skip_overlay destination ((name, node) # entries) =
     act_bind (context_of ''cannot read a template entry'' fs_probe) (\<lambda>_.
     act_bind (if skip_overlay \<and> (as_bytes name = OVERLAY_TMP \<or> as_bytes name = OVERLAY_DEV) then act_return ()
       else
         act_bind (context_of ''cannot inspect a template entry'' fs_probe) (\<lambda>_.
         act_bind (context_of ''cannot inspect a template entry'' fs_probe) (\<lambda>_.
         act_bind (copy_node limits (destination @ [name]) node) (\<lambda>_.
         set_metadata (destination @ [name]) (unix_mode (template_meta node)) (unix_owner (template_meta node))
           (unix_mtime (template_meta node)) (case node of TLink _ _ \<Rightarrow> True | _ \<Rightarrow> False))))) (\<lambda>_.
     copy_entries limits skip_overlay destination entries))"
| "copy_node limits target (TDir m entries) =
     act_bind (context_of ''cannot create a workload directory'' (create_dir target)) (\<lambda>_.
     act_bind (context_of ''cannot read the workload template'' fs_probe) (\<lambda>_.
     act_bind (copy_entries limits False target entries) (\<lambda>_.
     set_metadata target (unix_mode m) (unix_owner m) (unix_mtime m) False)))"
| "copy_node limits target (TLink m link) =
     act_bind (context_of ''cannot read a workload symbolic link'' fs_probe) (\<lambda>_.
     context_of ''cannot create a workload symbolic link'' (add_node target (LinkNode link) 0x1ff))"
| "copy_node limits target (TFile m bs) =
     (if length bs > rl_file_bytes limits
      then act_fail (invalid (''a workload file exceeds the '' @ dec (rl_file_bytes limits) @ '' byte canonical file bound''))
      else context_of ''cannot copy a workload file'' (add_node target (FileNode bs) (unix_mode m)))"
| "copy_node limits target (TOther m) = act_fail (invalid ''the workload template contains an unsupported file type'')"

definition ensure_directory :: "path \<Rightarrow> unit fs_action" where
  "ensure_directory p = (\<lambda>s.
     case create_dir p s of
       (Inr u, t) \<Rightarrow> (Inr (), t)
     | (Inl e, t) \<Rightarrow>
         if oe_kind e = AlreadyExists then
           act_bind (symlink_metadata p) (\<lambda>n.
             if is_dir n then act_return () else act_fail (invalid (''overlay path '' @ show_path p @ '' is not a directory''))) t
         else (Inl (invalid (''cannot create overlay path '' @ show_path p @ '': '' @ oe_text e)), t))"

definition overlay_device :: "path \<Rightarrow> string \<times> nat \<times> nat \<Rightarrow> unit fs_action" where
  "overlay_device dev = (\<lambda>(name, device).
     act_bind (mknod_device (dev @ [name]) device) (\<lambda>_.
     set_metadata (dev @ [name]) OVERLAY_DEVICE_MODE (0, 0) 0 False))"

definition apply_overlay :: "path \<Rightarrow> unit fs_action" where
  "apply_overlay root =
     act_bind (ensure_directory (root @ [''tmp''])) (\<lambda>_.
     act_bind (set_metadata (root @ [''tmp'']) OVERLAY_TMP_MODE (0, 0) 0 False) (\<lambda>_.
     act_bind (ensure_directory (root @ [''dev''])) (\<lambda>_.
     act_bind (act_each (overlay_device (root @ [''dev''])) [(''null'', DEV_NULL), (''zero'', DEV_ZERO)]) (\<lambda>_.
     set_metadata (root @ [''dev'']) OVERLAY_DIRECTORY_MODE (0, 0) 0 False))))"

definition materialize_into :: "template \<Rightarrow> path \<Rightarrow> RuntimeLimits \<Rightarrow> unit fs_action" where
  "materialize_into source destination limits =
     act_bind (context_of ''cannot inspect the workload template'' fs_probe) (\<lambda>_.
     act_bind (context_of ''cannot read the workload template'' fs_probe) (\<lambda>_.
     act_bind (copy_entries limits True destination (template_children source)) (\<lambda>_.
     act_bind (apply_overlay destination) (\<lambda>_.
     set_metadata destination (unix_mode (template_meta source)) (unix_owner (template_meta source))
       (unix_mtime (template_meta source)) False))))"

section \<open>The launch target\<close>

text \<open>The components of a path as the file system reads it: empty and \<open>.\<close> components name nothing.\<close>

definition named :: "path \<Rightarrow> path" where
  "named p = filter (\<lambda>c. c \<noteq> [] \<and> c \<noteq> ''.'') p"

fun resolve_components :: "string \<Rightarrow> path \<Rightarrow> path \<Rightarrow> path fs_action" where
  "resolve_components field current [] = act_return current"
| "resolve_components field current (component # components) =
     act_bind (context_of (''cannot access '' @ field) (symlink_metadata (named (current @ [component])))) (\<lambda>n.
     if is_symlink n then act_fail (invalid (field @ '' traverses a symbolic link''))
     else resolve_components field (current @ [component]) components)"

definition resolve_in_root :: "path \<Rightarrow> string \<Rightarrow> string \<Rightarrow> path fs_action" where
  "resolve_in_root root field value =
     (if value = [] \<or> \<not> starts_with value ''/'' \<or> CHR 0x00 \<in> set value
      then act_fail (invalid (field @ '' is not an absolute in-root path''))
      else if list_ex (\<lambda>component. component = ''..'') (split_on CHR ''/'' value)
      then act_fail (invalid (field @ '' escapes the workload root''))
      else resolve_components field root (filter (\<lambda>part. part \<noteq> []) (split_on CHR ''/'' value)))"

definition failing :: "(os_error \<Rightarrow> launch_error) \<Rightarrow> 'a fs_action \<Rightarrow> (file_system, launch_error, 'a) action" where
  "failing f a = (\<lambda>s. let (r, t) = a s in (map_err f r, t))"

definition verify_launch_target :: "path \<Rightarrow> LaunchIdentity \<Rightarrow> (file_system, launch_error, unit) action" where
  "verify_launch_target root launch =
     act_bind (failing (\<lambda>e. (Executable, oe_text e)) (resolve_in_root root ''the workload executable'' (li_executable launch)))
       (\<lambda>executable.
     act_bind (failing (\<lambda>e. (Executable, ''cannot inspect the workload executable: '' @ oe_text e))
       (symlink_metadata (named executable))) (\<lambda>n.
     if \<not> is_file n then act_fail (Executable, ''the workload executable is not a regular file'')
     else if and (in_mode n) 0x49 = 0 then act_fail (Executable, ''the workload executable has no execute permission'')
     else
       act_bind (failing (\<lambda>e. (WorkingDirectory, oe_text e))
         (resolve_in_root root ''the workload working directory'' (li_working_directory launch))) (\<lambda>working.
       act_bind (\<lambda>s. let (r, t) = symlink_metadata (named working) s in (Inr (case r of Inl _ \<Rightarrow> False | Inr n \<Rightarrow> is_dir n), t)) (\<lambda>ok.
       if \<not> ok then act_fail (WorkingDirectory, ''the workload working directory is not a directory'') else act_return ()))))"

section \<open>Successful calls\<close>

lemma fs_call_Inr:
  "fs_call f s = (Inr x, t) \<longleftrightarrow> fs_fault s (fs_calls s) = None
     \<and> (\<exists>nodes. f s = Inr (x, nodes) \<and> t = s\<lparr>fs_calls := fs_calls s + 1, fs_nodes := nodes\<rparr>)"
  by (auto simp: fs_call_def Let_def split: option.splits sum.splits)

lemma context_of_Inr [simp]: "context_of message a s = (Inr x, t) \<longleftrightarrow> a s = (Inr x, t)"
  by (cases "a s"; cases "fst (a s)") (auto simp: context_of_def map_err_def)

lemma fs_probe_nodes: "fs_probe s = (Inr x, t) \<Longrightarrow> fs_nodes t = fs_nodes s"
  by (auto simp: fs_probe_def fs_call_Inr)

definition touched :: "(path \<Rightarrow> inode option) \<Rightarrow> path \<Rightarrow> int \<Rightarrow> path \<Rightarrow> inode option" where
  "touched N p time = N(p := map_option (\<lambda>n. n\<lparr>in_mtime := time\<rparr>) (N p))"

definition fresh_node :: "content \<Rightarrow> u32 \<Rightarrow> int \<Rightarrow> inode" where
  "fresh_node c mode time = \<lparr>in_content = c, in_mode = mode, in_uid = 0, in_gid = 0, in_mtime = time\<rparr>"

lemma add_node_Inr:
  assumes "add_node p c mode s = (Inr x, t)"
  obtains time where "fs_nodes s p = None" "p \<noteq> []" "\<exists>d. fs_nodes s (butlast p) = Some d \<and> is_dir d"
    "fs_nodes t = (touched (fs_nodes s) (butlast p) time)(p \<mapsto> fresh_node c mode time)"
  using assms
  by (auto simp: add_node_def fs_call_Inr touched_def fresh_node_def split: if_splits option.splits)

lemma update_node_Inr:
  "update_node p f s = (Inr x, t) \<Longrightarrow> \<exists>n. fs_nodes s p = Some n \<and> fs_nodes t = (fs_nodes s)(p \<mapsto> f n)"
  by (auto simp: update_node_def fs_call_Inr split: option.splits)

text \<open>The node a successful \<open>set_metadata\<close> leaves.\<close>

definition with_metadata :: "u32 \<Rightarrow> u32 \<times> u32 \<Rightarrow> u32 \<Rightarrow> bool \<Rightarrow> inode \<Rightarrow> inode" where
  "with_metadata mode owner mtime symlink n =
     (let n = (if symlink then n else n\<lparr>in_mode := mode\<rparr>)
      in n\<lparr>in_mode := chown_mode n, in_uid := fst owner, in_gid := snd owner, in_mtime := uint mtime\<rparr>)"

lemma set_metadata_Inr:
  assumes "set_metadata p mode owner mtime symlink s = (Inr x, t)"
  shows "\<exists>n. fs_nodes s p = Some n \<and> fs_nodes t = (fs_nodes s)(p \<mapsto> with_metadata mode owner mtime symlink n)"
proof -
  obtain uid gid where owner: "owner = (uid, gid)" by fastforce
  from assms obtain s1 s2 u v where
    one: "(if symlink then act_return () else context_of (''cannot set workload mode on '' @ show_path p) (chmod p mode)) s = (Inr u, s1)"
    and two: "lchown p uid gid s1 = (Inr v, s2)" and three: "utimensat p (uint mtime) s2 = (Inr x, t)"
    by (auto simp: set_metadata_def owner act_bind_Inr path_cstring_def act_require_Inr)
  show ?thesis
  proof (cases symlink)
    case True
    with one two three show ?thesis
      by (auto simp: with_metadata_def owner chmod_def lchown_def utimensat_def dest!: update_node_Inr)
  next
    case False
    with one two three show ?thesis
      by (auto simp: with_metadata_def owner chmod_def lchown_def utimensat_def dest!: update_node_Inr)
  qed
qed

section \<open>The materialized root\<close>

text \<open>What a template node becomes, and the nodes of a template by their path below it.\<close>

fun placed :: "template \<Rightarrow> inode" where
  "placed (TDir m es) = \<lparr>in_content = DirNode, in_mode = unix_mode m, in_uid = md_uid m, in_gid = md_gid m,
     in_mtime = uint (unix_mtime m)\<rparr>"
| "placed (TFile m bs) = \<lparr>in_content = FileNode bs, in_mode = without_set_id (unix_mode m), in_uid = md_uid m, in_gid = md_gid m,
     in_mtime = uint (unix_mtime m)\<rparr>"
| "placed (TLink m link) = \<lparr>in_content = LinkNode link, in_mode = 0x1ff, in_uid = md_uid m, in_gid = md_gid m,
     in_mtime = uint (unix_mtime m)\<rparr>"
| "placed (TOther m) = \<lparr>in_content = DirNode, in_mode = unix_mode m, in_uid = md_uid m, in_gid = md_gid m,
     in_mtime = uint (unix_mtime m)\<rparr>"

fun node_at :: "template \<Rightarrow> path \<Rightarrow> inode option"
  and entries_at :: "(string \<times> template) list \<Rightarrow> path \<Rightarrow> inode option" where
  "node_at node [] = Some (placed node)"
| "node_at (TDir m es) (c # p) = entries_at es (c # p)"
| "node_at _ (c # p) = None"
| "entries_at es [] = None"
| "entries_at [] (c # p) = None"
| "entries_at ((name, node) # es) (c # p) = (if c = name then node_at node p else entries_at es (c # p))"

definition rooted :: "(path \<Rightarrow> inode option) \<Rightarrow> bool" where
  "rooted N \<longleftrightarrow> (\<forall>p q. N (p @ q) \<noteq> None \<longrightarrow> N p \<noteq> None)"

definition grafted :: "(path \<Rightarrow> inode option) \<Rightarrow> path \<Rightarrow> (path \<Rightarrow> inode option) \<Rightarrow> path \<Rightarrow> inode option" where
  "grafted N p view q = (if prefix p q then view (drop (length p) q) else N q)"

text \<open>The entries of a directory added to it, with the time it shows.\<close>

definition populated ::
    "(path \<Rightarrow> inode option) \<Rightarrow> path \<Rightarrow> (string \<times> template) list \<Rightarrow> int option \<Rightarrow> path \<Rightarrow> inode option" where
  "populated N d es time q =
     (if strict_prefix d q \<and> entries_at es (drop (length d) q) \<noteq> None then entries_at es (drop (length d) q)
      else if q = d then (case time of None \<Rightarrow> N d | Some x \<Rightarrow> map_option (\<lambda>n. n\<lparr>in_mtime := x\<rparr>) (N d))
      else N q)"

lemma placed_from_fresh:
  "with_metadata (unix_mode m) (unix_owner m) (unix_mtime m) False (fresh_node (FileNode bs) mode time) = placed (TFile m bs)"
  "with_metadata (unix_mode m) (unix_owner m) (unix_mtime m) True (fresh_node (LinkNode link) 0x1ff time) = placed (TLink m link)"
  "is_dir n \<Longrightarrow> with_metadata (unix_mode m) (unix_owner m) (unix_mtime m) False n = placed (TDir m es)"
  by (simp_all add: with_metadata_def fresh_node_def chown_mode_def is_dir_def unix_owner_def without_set_id_def Let_def)

lemma is_dir_placed [simp]: "is_dir (placed (TDir m es))"
  by (simp add: is_dir_def)

lemma path_cases:
  obtains (at) "q = d" | (below) c r where "q = d @ c # r" | (beside) "\<not> prefix d q"
proof (cases "prefix d q")
  case True
  then obtain r where "q = d @ r" by (auto simp: prefix_def)
  then show ?thesis by (cases r) (auto intro: at below)
qed (rule beside)

lemma populated_simps [simp]:
  "populated N d es time (d @ c # r) = (case entries_at es (c # r) of None \<Rightarrow> N (d @ c # r) | Some n \<Rightarrow> Some n)"
  "populated N d es time d = (case time of None \<Rightarrow> N d | Some x \<Rightarrow> map_option (\<lambda>n. n\<lparr>in_mtime := x\<rparr>) (N d))"
  "\<not> prefix d q \<Longrightarrow> populated N d es time q = N q"
  by (auto simp: populated_def strict_prefix_def split: option.splits)

lemma grafted_simps [simp]:
  "grafted N p view (p @ r) = view r" "grafted N p view p = view []" "\<not> prefix p q \<Longrightarrow> grafted N p view q = N q"
  by (auto simp: grafted_def)

lemma grafted_child [simp]: "grafted N (d @ [name]) view (d @ c # r) = (if c = name then view r else N (d @ c # r))"
  by (auto simp: grafted_def)

lemma grafted_above [simp]: "grafted N (d @ [name]) view d = N d"
  by (auto simp: grafted_def)

lemma touched_simps [simp]:
  "touched N d x d = map_option (\<lambda>n. n\<lparr>in_mtime := x\<rparr>) (N d)" "q \<noteq> d \<Longrightarrow> touched N d x q = N q"
  by (auto simp: touched_def)

lemma prefix_snoc_not: "\<not> prefix d q \<Longrightarrow> \<not> prefix (d @ [c]) q"
  by (auto simp: prefix_def)

lemma rootedD: "rooted N \<Longrightarrow> N p = None \<Longrightarrow> N (p @ q) = None"
  unfolding rooted_def by blast

lemma rooted_touched: "rooted N \<Longrightarrow> rooted (touched N d x)"
  by (auto simp: rooted_def touched_def)

lemma rooted_update: "rooted N \<Longrightarrow> N p \<noteq> None \<Longrightarrow> rooted (N(p \<mapsto> n))"
  by (auto simp: rooted_def)

lemma rooted_add: "rooted N \<Longrightarrow> N (butlast p) \<noteq> None \<Longrightarrow> p \<noteq> [] \<Longrightarrow> rooted (N(p \<mapsto> n))"
proof -
  assume r: "rooted N" and d: "N (butlast p) \<noteq> None" and ne: "p \<noteq> []"
  have "N a \<noteq> None" if "a @ b = p" "b \<noteq> []" for a b
  proof -
    from that ne have "butlast p = a @ butlast b" by (metis butlast_append)
    with d r show ?thesis unfolding rooted_def by metis
  qed
  with r show ?thesis unfolding rooted_def by (auto simp: fun_upd_apply) (metis option.distinct(1))
qed

lemma node_at_prefix_closed:
  "node_at node (p @ q) \<noteq> None \<Longrightarrow> node_at node p \<noteq> None"
  "entries_at es (c # p @ q) \<noteq> None \<Longrightarrow> entries_at es (c # p) \<noteq> None"
proof (induction node "p @ q" and es "c # p @ q" arbitrary: p q and c p q rule: node_at_entries_at.induct)
  case (2 m es c p)
  then show ?case by (cases p) auto
qed (auto simp: Cons_eq_append_conv)


lemma rooted_populated:
  assumes "rooted N" and "N d \<noteq> None"
  shows "rooted (populated N d es time)"
  unfolding rooted_def
proof (intro allI impI)
  fix p q assume some: "populated N d es time (p @ q) \<noteq> None"
  show "populated N d es time p \<noteq> None"
  proof (cases p d rule: path_cases)
    case at
    then show ?thesis using assms by (auto split: option.splits)
  next
    case (below c r)
    with some assms(1) node_at_prefix_closed(2) [of es c r q] show ?thesis
      by (auto simp: rooted_def split: option.splits) (metis append.assoc append_Cons option.distinct(1))
  next
    case beside
    from some have "N (p @ q) \<noteq> None \<or> prefix d (p @ q)" by (cases "prefix d (p @ q)") auto
    then have "N p \<noteq> None"
    proof
      assume "prefix d (p @ q)"
      with beside obtain e where "d = p @ e" by (metis prefix_append prefix_def prefix_order.refl prefix_same_cases)
      with assms show ?thesis unfolding rooted_def by metis
    qed (use assms(1) in \<open>auto simp: rooted_def\<close>)
    with beside show ?thesis by simp
  qed
qed

lemma rooted_grafted:
  assumes "rooted N" and "N (butlast p) \<noteq> None" and "p \<noteq> []"
  shows "rooted (grafted N p (node_at node))"
  unfolding rooted_def
proof (intro allI impI)
  fix a b assume some: "grafted N p (node_at node) (a @ b) \<noteq> None"
  show "grafted N p (node_at node) a \<noteq> None"
  proof (cases "prefix p a")
    case True
    then obtain r where "a = p @ r" by (auto simp: prefix_def)
    with some node_at_prefix_closed(1) [of node r b] show ?thesis by simp
  next
    case False
    have "N a \<noteq> None"
    proof (cases "prefix p (a @ b)")
      case True
      with False have "strict_prefix a p" by (metis prefix_append prefix_def prefix_same_cases strict_prefix_def)
      then obtain e where "p = a @ e" "e \<noteq> []" by (auto simp: strict_prefix_def prefix_def)
      then have "butlast p = a @ butlast e" by (simp add: butlast_append)
      with assms(1,2) show ?thesis unfolding rooted_def by metis
    next
      case False
      with some assms(1) show ?thesis unfolding rooted_def by (metis grafted_simps(3))
    qed
    with False show ?thesis by simp
  qed
qed

definition kept_entries :: "bool \<Rightarrow> (string \<times> template) list \<Rightarrow> (string \<times> template) list" where
  "kept_entries skip es = filter (\<lambda>(name, node). \<not> (skip \<and> (as_bytes name = OVERLAY_TMP \<or> as_bytes name = OVERLAY_DEV))) es"

lemma kept_all [simp]: "kept_entries False es = es"
  by (simp add: kept_entries_def)

lemma entries_at_absent: "c \<notin> fst ` set es \<Longrightarrow> entries_at es (c # r) = None"
  by (induction es) auto

text \<open>One entry of a directory, with the metadata set after it.\<close>

definition place :: "RuntimeLimits \<Rightarrow> path \<Rightarrow> template \<Rightarrow> unit fs_action" where
  "place limits p node =
     act_bind (copy_node limits p node) (\<lambda>_.
     set_metadata p (unix_mode (template_meta node)) (unix_owner (template_meta node)) (unix_mtime (template_meta node))
       (case node of TLink _ _ \<Rightarrow> True | _ \<Rightarrow> False))"

lemma populated_step:
  assumes "N (d @ [name]) = None" and "rooted N" and "name \<notin> fst ` set es"
  shows "\<exists>time'. populated (grafted (touched N d x) (d @ [name]) (node_at node)) d es time = populated N d ((name, node) # es) time'"
proof (intro exI ext)
  fix q
  have none: "N (d @ name # r) = None" for r using rootedD [OF assms(2,1), of r] by simp
  show "populated (grafted (touched N d x) (d @ [name]) (node_at node)) d es time q
      = populated N d ((name, node) # es) (Some (case time of None \<Rightarrow> x | Some y \<Rightarrow> y)) q"
  proof (cases q d rule: path_cases)
    case at
    then show ?thesis by (auto simp: option.map_comp comp_def split: option.splits)
  next
    case (below c r)
    then show ?thesis by (auto simp: none entries_at_absent [OF assms(3)] split: option.splits)
  next
    case beside
    then show ?thesis using prefix_snoc_not [OF beside] by (auto simp: touched_def)
  qed
qed


definition placing :: "RuntimeLimits \<Rightarrow> template \<Rightarrow> bool" where
  "placing limits node \<longleftrightarrow> (\<forall>p s x t. rooted (fs_nodes s) \<longrightarrow> place limits p node s = (Inr x, t) \<longrightarrow>
     fs_nodes s p = None \<and> p \<noteq> [] \<and> (\<exists>d. fs_nodes s (butlast p) = Some d \<and> is_dir d)
     \<and> (\<exists>time. fs_nodes t = grafted (touched (fs_nodes s) (butlast p) time) p (node_at node)) \<and> rooted (fs_nodes t))"

definition filling :: "RuntimeLimits \<Rightarrow> bool \<Rightarrow> (string \<times> template) list \<Rightarrow> bool" where
  "filling limits skip es \<longleftrightarrow> (\<forall>d s x t. rooted (fs_nodes s) \<longrightarrow> (\<exists>n. fs_nodes s d = Some n \<and> is_dir n) \<longrightarrow>
     copy_entries limits skip d es s = (Inr x, t) \<longrightarrow>
     (\<exists>time. fs_nodes t = populated (fs_nodes s) d (kept_entries skip es) time) \<and> rooted (fs_nodes t)
     \<and> (\<forall>name \<in> fst ` set (kept_entries skip es). fs_nodes s (d @ [name]) = None))"

lemma not_above: "p \<noteq> [] \<Longrightarrow> p @ r \<noteq> butlast p"
  by (cases p rule: rev_cases) simp_all

lemma placing_leaf:
  assumes "add_node p c mode s = (Inr x, s1)"
    and "set_metadata p (unix_mode m) (unix_owner m) (unix_mtime m) symlink s1 = (Inr y, t)"
    and "\<And>time. with_metadata (unix_mode m) (unix_owner m) (unix_mtime m) symlink (fresh_node c mode time) = placed node"
    and "\<And>c r. node_at node (c # r) = None" and "rooted (fs_nodes s)"
  shows "fs_nodes s p = None \<and> p \<noteq> [] \<and> (\<exists>d. fs_nodes s (butlast p) = Some d \<and> is_dir d)
     \<and> (\<exists>time. fs_nodes t = grafted (touched (fs_nodes s) (butlast p) time) p (node_at node)) \<and> rooted (fs_nodes t)"
proof -
  from assms(1) obtain time where one: "fs_nodes s p = None" "p \<noteq> []" "\<exists>d. fs_nodes s (butlast p) = Some d \<and> is_dir d"
    "fs_nodes s1 = (touched (fs_nodes s) (butlast p) time)(p \<mapsto> fresh_node c mode time)" by (rule add_node_Inr)
  from set_metadata_Inr [OF assms(2)] have two: "fs_nodes t = (touched (fs_nodes s) (butlast p) time)(p \<mapsto> placed node)"
    using one(4) assms(3) by auto
  have none: "fs_nodes s (p @ r) = None" for r using rootedD [OF assms(5) one(1)] .
  have apart: "p @ r \<noteq> butlast p" for r by (rule not_above [OF one(2)])
  have t: "fs_nodes t = grafted (touched (fs_nodes s) (butlast p) time) p (node_at node)"
  proof
    fix q show "fs_nodes t q = grafted (touched (fs_nodes s) (butlast p) time) p (node_at node) q"
      by (cases q p rule: path_cases) (use two none apart assms(4) in auto)
  qed
  have "rooted (fs_nodes t)"
    unfolding t using one(2,3) by (intro rooted_grafted rooted_touched assms(5)) (auto simp: touched_def)
  with one t show ?thesis by blast
qed


lemma placing_dir:
  assumes fill: "filling limits False es" and "place limits p (TDir m es) s = (Inr x, t)" and "rooted (fs_nodes s)"
  shows "fs_nodes s p = None \<and> p \<noteq> [] \<and> (\<exists>d. fs_nodes s (butlast p) = Some d \<and> is_dir d)
     \<and> (\<exists>time. fs_nodes t = grafted (touched (fs_nodes s) (butlast p) time) p (node_at (TDir m es))) \<and> rooted (fs_nodes t)"
proof -
  let ?set = "set_metadata p (unix_mode m) (unix_owner m) (unix_mtime m) False"
  from assms(2) obtain s1 s2 s3 s4 u v w y where create: "create_dir p s = (Inr u, s1)" and read: "fs_probe s1 = (Inr v, s2)"
    and copy: "copy_entries limits False p es s2 = (Inr w, s3)" and first: "?set s3 = (Inr y, s4)" and second: "?set s4 = (Inr x, t)"
    by (auto simp: place_def act_bind_Inr)
  from create obtain time where one: "fs_nodes s p = None" "p \<noteq> []" "\<exists>d. fs_nodes s (butlast p) = Some d \<and> is_dir d"
    "fs_nodes s1 = (touched (fs_nodes s) (butlast p) time)(p \<mapsto> fresh_node DirNode 0x1ed time)"
    unfolding create_dir_def by (rule add_node_Inr)
  let ?N = "fs_nodes s2"
  have N: "?N = (touched (fs_nodes s) (butlast p) time)(p \<mapsto> fresh_node DirNode 0x1ed time)"
    using fs_probe_nodes [OF read] one(4) by simp
  have "rooted ?N" unfolding N using one(2,3) assms(3) by (intro rooted_add rooted_touched) (auto simp: touched_def)
  moreover have dir: "?N p = Some (fresh_node DirNode 0x1ed time)" "is_dir (fresh_node DirNode 0x1ed time)"
    by (simp_all add: N fresh_node_def is_dir_def)
  ultimately obtain time' where three: "fs_nodes s3 = populated ?N p es time'" and rooted3: "rooted (fs_nodes s3)"
    using fill copy unfolding filling_def by fastforce
  obtain n where n: "fs_nodes s3 p = Some n" "is_dir n"
    using dir by (cases time') (auto simp: three fresh_node_def is_dir_def)
  have four: "fs_nodes s4 = (fs_nodes s3)(p \<mapsto> placed (TDir m es))"
    using set_metadata_Inr [OF first] n placed_from_fresh(3) [OF n(2), of m es] by auto
  have five: "fs_nodes t = (fs_nodes s3)(p \<mapsto> placed (TDir m es))"
    using set_metadata_Inr [OF second] placed_from_fresh(3) [OF is_dir_placed, of m m es es] by (auto simp: four)
  have none: "fs_nodes s (p @ r) = None" for r using rootedD [OF assms(3) one(1)] .
  have t: "fs_nodes t = grafted (touched (fs_nodes s) (butlast p) time) p (node_at (TDir m es))"
  proof
    fix q show "fs_nodes t q = grafted (touched (fs_nodes s) (butlast p) time) p (node_at (TDir m es)) q"
      by (cases q p rule: path_cases) (use none not_above [OF one(2)] in \<open>auto simp: five three N split: option.splits\<close>)
  qed
  have "rooted (fs_nodes t)" unfolding five using n(1) by (intro rooted_update rooted3) simp
  with one t show ?thesis by blast
qed

lemma filling_entries:
  assumes "\<And>name node. (name, node) \<in> set es \<Longrightarrow> placing limits node"
  shows "filling limits skip es"
  using assms
proof (induction es)
  case Nil
  have "populated N d [] None = N" for N d
  proof
    fix q show "populated N d [] None q = N q" by (cases q d rule: path_cases) simp_all
  qed
  then show ?case unfolding filling_def kept_entries_def by (auto intro!: exI [of _ None])
next
  case (Cons e es)
  obtain name node where e: "e = (name, node)" by fastforce
  have place: "placing limits node" and rest: "filling limits skip es" using Cons by (auto simp: e)
  show ?case
    unfolding filling_def
  proof (intro allI impI)
    fix d s x t
    assume r: "rooted (fs_nodes s)" and d: "\<exists>n. fs_nodes s d = Some n \<and> is_dir n"
      and run: "copy_entries limits skip d (e # es) s = (Inr x, t)"
    let ?skipped = "skip \<and> (as_bytes name = OVERLAY_TMP \<or> as_bytes name = OVERLAY_DEV)"
    show "(\<exists>time. fs_nodes t = populated (fs_nodes s) d (kept_entries skip (e # es)) time) \<and> rooted (fs_nodes t)
        \<and> (\<forall>name \<in> fst ` set (kept_entries skip (e # es)). fs_nodes s (d @ [name]) = None)"
    proof (cases ?skipped)
      case True
      with run obtain s1 u where "fs_probe s = (Inr u, s1)" and copy: "copy_entries limits skip d es s1 = (Inr x, t)"
        by (auto simp: e act_bind_Inr)
      then have same: "fs_nodes s1 = fs_nodes s" by (simp add: fs_probe_nodes)
      have kept: "kept_entries skip (e # es) = kept_entries skip es" using True by (auto simp: e kept_entries_def)
      show ?thesis
        unfolding kept same [symmetric] by (rule rest [unfolded filling_def, rule_format, OF _ _ copy]) (simp_all add: same r d)
    next
      case False
      with run obtain s1 s2 u v where "fs_nodes s1 = fs_nodes s" and one: "place limits (d @ [name]) node s1 = (Inr u, s2)"
        and copy: "copy_entries limits skip d es s2 = (Inr x, t)"
        by (auto simp: e act_bind_Inr place_def dest!: fs_probe_nodes)
      then obtain time where free: "fs_nodes s (d @ [name]) = None" and r2: "rooted (fs_nodes s2)"
        and s2: "fs_nodes s2 = grafted (touched (fs_nodes s) d time) (d @ [name]) (node_at node)"
        using place r unfolding placing_def by (metis butlast_snoc)
      have "\<exists>n. fs_nodes s2 d = Some n \<and> is_dir n" using d by (auto simp: s2 is_dir_def)
      with copy rest r2 obtain time' where t: "fs_nodes t = populated (fs_nodes s2) d (kept_entries skip es) time'"
        and rt: "rooted (fs_nodes t)" and absent: "\<forall>c \<in> fst ` set (kept_entries skip es). fs_nodes s2 (d @ [c]) = None"
        unfolding filling_def by meson
      have new: "name \<notin> fst ` set (kept_entries skip es)" using absent by (auto simp: s2)
      have "\<forall>c \<in> fst ` set (kept_entries skip es). fs_nodes s (d @ [c]) = None"
        using absent new by (auto simp: s2 touched_def split: if_splits)
      with populated_step [OF free r new, of time node time'] rt free False show ?thesis
        by (auto simp: t s2 e kept_entries_def)
    qed
  qed
qed

lemma placing_template: "placing limits node"
proof (induction node)
  case (TDir m es)
  then have "filling limits False es" by (intro filling_entries) force
  with placing_dir [of limits es] show ?case unfolding placing_def by blast
next
  case (TFile m bs)
  show ?case
    unfolding placing_def
  proof (intro allI impI)
    fix p s x t
    assume r: "rooted (fs_nodes s)" and "place limits p (TFile m bs) s = (Inr x, t)"
    then obtain s1 u where add: "add_node p (FileNode bs) (unix_mode m) s = (Inr u, s1)"
      and meta: "set_metadata p (unix_mode m) (unix_owner m) (unix_mtime m) False s1 = (Inr x, t)"
      by (auto simp: place_def act_bind_Inr split: if_splits)
    show "fs_nodes s p = None \<and> p \<noteq> [] \<and> (\<exists>d. fs_nodes s (butlast p) = Some d \<and> is_dir d)
     \<and> (\<exists>time. fs_nodes t = grafted (touched (fs_nodes s) (butlast p) time) p (node_at (TFile m bs))) \<and> rooted (fs_nodes t)"
      by (rule placing_leaf [OF add meta placed_from_fresh(1) _ r]) simp
  qed
next
  case (TLink m link)
  show ?case
    unfolding placing_def
  proof (intro allI impI)
    fix p s x t
    assume r: "rooted (fs_nodes s)" and "place limits p (TLink m link) s = (Inr x, t)"
    then obtain s0 s1 u v where probe: "fs_probe s = (Inr v, s0)" and add: "add_node p (LinkNode link) 0x1ff s0 = (Inr u, s1)"
      and meta: "set_metadata p (unix_mode m) (unix_owner m) (unix_mtime m) True s1 = (Inr x, t)"
      by (auto simp: place_def act_bind_Inr split: if_splits)
    have same: "fs_nodes s0 = fs_nodes s" by (rule fs_probe_nodes [OF probe])
    show "fs_nodes s p = None \<and> p \<noteq> [] \<and> (\<exists>d. fs_nodes s (butlast p) = Some d \<and> is_dir d)
     \<and> (\<exists>time. fs_nodes t = grafted (touched (fs_nodes s) (butlast p) time) p (node_at (TLink m link))) \<and> rooted (fs_nodes t)"
      using placing_leaf [OF add meta placed_from_fresh(2), unfolded same] r by simp
  qed
next
  case (TOther m)
  show ?case unfolding placing_def by (simp add: place_def act_bind_def)
qed

definition overlay_node :: "content \<Rightarrow> u32 \<Rightarrow> inode" where
  "overlay_node c mode = \<lparr>in_content = c, in_mode = mode, in_uid = 0, in_gid = 0, in_mtime = 0\<rparr>"

text \<open>
  The contract of a fresh root: the template below its own metadata, except that \<open>tmp\<close> is an empty
  directory and \<open>dev\<close> holds the two devices, whatever the template has there.
\<close>

fun overlaid :: "template \<Rightarrow> path \<Rightarrow> inode option" where
  "overlaid node [] = Some (placed node)"
| "overlaid node (c # r) =
     (if c = ''tmp'' then (if r = [] then Some (overlay_node DirNode OVERLAY_TMP_MODE) else None)
      else if c = ''dev'' then
        (if r = [] then Some (overlay_node DirNode OVERLAY_DIRECTORY_MODE)
         else if r = [''null''] then Some (overlay_node (DeviceNode DEV_NULL) OVERLAY_DEVICE_MODE)
         else if r = [''zero''] then Some (overlay_node (DeviceNode DEV_ZERO) OVERLAY_DEVICE_MODE)
         else None)
      else node_at node (c # r))"

lemma overlay_metadata:
  "with_metadata OVERLAY_TMP_MODE (0, 0) 0 False (fresh_node DirNode mode time) = overlay_node DirNode OVERLAY_TMP_MODE"
  "is_dir n \<Longrightarrow> with_metadata OVERLAY_DIRECTORY_MODE (0, 0) 0 False n = overlay_node DirNode OVERLAY_DIRECTORY_MODE"
  "with_metadata OVERLAY_DEVICE_MODE (0, 0) 0 False (fresh_node (DeviceNode device) mode time)
     = overlay_node (DeviceNode device) OVERLAY_DEVICE_MODE"
  by (simp_all add: with_metadata_def overlay_node_def fresh_node_def chown_mode_def is_dir_def without_set_id_def
      OVERLAY_DEVICE_MODE_def Let_def)

lemma ensure_directory_Inr:
  assumes "ensure_directory p s = (Inr x, t)" and "fs_nodes s p = None"
  shows "\<exists>time. fs_nodes t = (touched (fs_nodes s) (butlast p) time)(p \<mapsto> fresh_node DirNode 0x1ed time)"
proof -
  have "create_dir p s = (Inr (), t)"
  proof (cases "create_dir p s")
    case (Pair r s1)
    show ?thesis
    proof (cases r)
      case (Inl e)
      have "fs_nodes s1 p = None"
        using Pair Inl assms(2) by (auto simp: create_dir_def add_node_def fs_call_def Let_def split: option.splits if_splits sum.splits)
      with assms(1) Pair Inl show ?thesis
        by (auto simp: ensure_directory_def act_bind_Inr symlink_metadata_def fs_call_Inr split: if_splits option.splits)
    next
      case (Inr u)
      with Pair assms(1) show ?thesis by (auto simp: ensure_directory_def)
    qed
  qed
  then show ?thesis unfolding create_dir_def by (rule add_node_Inr) blast
qed

lemma overlay_device_Inr:
  assumes "overlay_device dev (name, device) s = (Inr x, t)"
  shows "\<exists>time. fs_nodes t = (touched (fs_nodes s) dev time)(dev @ [name] \<mapsto> overlay_node (DeviceNode device) OVERLAY_DEVICE_MODE)"
proof -
  from assms obtain s1 u where add: "add_node (dev @ [name]) (DeviceNode device) OVERLAY_DEVICE_MODE s = (Inr u, s1)"
    and meta: "set_metadata (dev @ [name]) OVERLAY_DEVICE_MODE (0, 0) 0 False s1 = (Inr x, t)"
    by (auto simp: overlay_device_def mknod_device_def act_bind_Inr path_cstring_def act_require_Inr)
  from add obtain time where
    "fs_nodes s1 = (touched (fs_nodes s) dev time)(dev @ [name] \<mapsto> fresh_node (DeviceNode device) OVERLAY_DEVICE_MODE time)"
    by (rule add_node_Inr) simp
  with set_metadata_Inr [OF meta] show ?thesis by (auto simp: overlay_metadata)
qed

lemma kept_entries_at:
  "entries_at (kept_entries True es) (c # r) = (if c = ''tmp'' \<or> c = ''dev'' then None else entries_at es (c # r))"
  by (induction es) (auto simp: kept_entries_def OVERLAY_TMP_def OVERLAY_DEV_def)

lemma apply_overlay_Inr:
  assumes "apply_overlay root s = (Inr x, t)" and "fs_nodes s (root @ [''tmp'']) = None" and "fs_nodes s (root @ [''dev'']) = None"
  shows "\<exists>time. fs_nodes t = (touched (fs_nodes s) root time)
    (root @ [''tmp''] \<mapsto> overlay_node DirNode OVERLAY_TMP_MODE,
     root @ [''dev''] \<mapsto> overlay_node DirNode OVERLAY_DIRECTORY_MODE,
     root @ [''dev'', ''null''] \<mapsto> overlay_node (DeviceNode DEV_NULL) OVERLAY_DEVICE_MODE,
     root @ [''dev'', ''zero''] \<mapsto> overlay_node (DeviceNode DEV_ZERO) OVERLAY_DEVICE_MODE)"
proof -
  let ?dev = "root @ [''dev'']"
  from assms(1) obtain s1 s2 s3 s4 s5 u v w y z where
    tmp: "ensure_directory (root @ [''tmp'']) s = (Inr u, s1)"
    and tmp_meta: "set_metadata (root @ [''tmp'']) OVERLAY_TMP_MODE (0, 0) 0 False s1 = (Inr v, s2)"
    and dev: "ensure_directory ?dev s2 = (Inr w, s3)"
    and null: "overlay_device ?dev (''null'', DEV_NULL) s3 = (Inr y, s4)"
    and zero: "overlay_device ?dev (''zero'', DEV_ZERO) s4 = (Inr z, s5)"
    and meta: "set_metadata ?dev OVERLAY_DIRECTORY_MODE (0, 0) 0 False s5 = (Inr x, t)"
    by (auto simp: apply_overlay_def act_bind_Inr)
  from ensure_directory_Inr [OF tmp assms(2)] obtain a where
    n1: "fs_nodes s1 = (touched (fs_nodes s) root a)(root @ [''tmp''] \<mapsto> fresh_node DirNode 0x1ed a)" by auto
  from set_metadata_Inr [OF tmp_meta] have
    n2: "fs_nodes s2 = (touched (fs_nodes s) root a)(root @ [''tmp''] \<mapsto> overlay_node DirNode OVERLAY_TMP_MODE)"
    by (auto simp: n1 overlay_metadata)
  have "fs_nodes s2 ?dev = None" using assms(3) by (simp add: n2)
  from ensure_directory_Inr [OF dev this] obtain b where
    n3: "fs_nodes s3 = (touched (fs_nodes s2) root b)(?dev \<mapsto> fresh_node DirNode 0x1ed b)" by auto
  from overlay_device_Inr [OF null] overlay_device_Inr [OF zero] obtain c d where
    n4: "fs_nodes s4 = (touched (fs_nodes s3) ?dev c)(?dev @ [''null''] \<mapsto> overlay_node (DeviceNode DEV_NULL) OVERLAY_DEVICE_MODE)"
    and n5: "fs_nodes s5 = (touched (fs_nodes s4) ?dev d)(?dev @ [''zero''] \<mapsto> overlay_node (DeviceNode DEV_ZERO) OVERLAY_DEVICE_MODE)"
    by blast
  have dir: "\<exists>n. fs_nodes s5 ?dev = Some n \<and> is_dir n" by (simp add: n5 n4 n3 touched_def fresh_node_def is_dir_def)
  then have n6: "fs_nodes t = (fs_nodes s5)(?dev \<mapsto> overlay_node DirNode OVERLAY_DIRECTORY_MODE)"
    using set_metadata_Inr [OF meta] by (auto simp: overlay_metadata)
  show ?thesis
    by (rule exI [of _ b], rule ext)
      (auto simp: n6 n5 n4 n3 n2 touched_def option.map_comp comp_def)
qed

text \<open>
  C17. A successful materialization into a fresh root leaves below it the canonical view of the
  template under the runtime overlay and nothing else: contents, modes, owners and the recorded
  time of every node, the root included, although every created entry changes the time its
  directory shows. Nothing outside the root changes.
\<close>

theorem materialize_exact:
  assumes "materialize_into (TDir m es) root limits s = (Inr x, t)" and "rooted (fs_nodes s)"
    and "\<exists>n. fs_nodes s root = Some n \<and> is_dir n" and "\<And>c r. fs_nodes s (root @ c # r) = None"
  shows "fs_nodes t = grafted (fs_nodes s) root (overlaid (TDir m es))"
proof -
  from assms(1) obtain s1 s2 s3 u v where same: "fs_nodes s1 = fs_nodes s"
    and copy: "copy_entries limits True root es s1 = (Inr u, s2)" and overlay: "apply_overlay root s2 = (Inr v, s3)"
    and meta: "set_metadata root (unix_mode m) (unix_owner m) (unix_mtime m) False s3 = (Inr x, t)"
    by (auto simp: materialize_into_def act_bind_Inr dest!: fs_probe_nodes)
  have "filling limits True es" by (rule filling_entries) (rule placing_template)
  with copy assms(2,3) obtain time where n2: "fs_nodes s2 = populated (fs_nodes s) root (kept_entries True es) time"
    unfolding filling_def same [symmetric] by blast
  have free: "fs_nodes s2 (root @ [''tmp'']) = None" "fs_nodes s2 (root @ [''dev'']) = None"
    by (simp_all add: n2 kept_entries_at assms(4))
  from apply_overlay_Inr [OF overlay free] obtain time' where n3: "fs_nodes s3 = (touched (fs_nodes s2) root time')
    (root @ [''tmp''] \<mapsto> overlay_node DirNode OVERLAY_TMP_MODE,
     root @ [''dev''] \<mapsto> overlay_node DirNode OVERLAY_DIRECTORY_MODE,
     root @ [''dev'', ''null''] \<mapsto> overlay_node (DeviceNode DEV_NULL) OVERLAY_DEVICE_MODE,
     root @ [''dev'', ''zero''] \<mapsto> overlay_node (DeviceNode DEV_ZERO) OVERLAY_DEVICE_MODE)" by blast
  obtain n where dir: "fs_nodes s3 root = Some n" "is_dir n"
    using assms(3) by (cases time) (auto simp: n3 n2 touched_def is_dir_def)
  have n4: "fs_nodes t = (fs_nodes s3)(root \<mapsto> placed (TDir m es))"
    using set_metadata_Inr [OF meta] dir placed_from_fresh(3) [OF dir(2), of m es] by auto
  show ?thesis
  proof
    fix q show "fs_nodes t q = grafted (fs_nodes s) root (overlaid (TDir m es)) q"
    proof (cases q root rule: path_cases)
      case at
      then show ?thesis by (simp add: n4)
    next
      case (below c r)
      then show ?thesis by (auto simp: n4 n3 n2 kept_entries_at assms(4) split: option.splits)
    next
      case beside
      then have "q \<noteq> root" "q \<noteq> root @ w" for w by auto
      with beside show ?thesis by (auto simp: n4 n3 n2)
    qed
  qed
qed

section \<open>The walk over the template\<close>

definition entry_path :: "string \<Rightarrow> string \<Rightarrow> string" where
  "entry_path pre name = (if pre = [] then name else pre @ CHR ''/'' # name)"

text \<open>Every entry of a directory, at any depth, with its name and its path.\<close>

fun all_entries :: "string \<Rightarrow> (string \<times> template) list \<Rightarrow> (string \<times> string \<times> template) list" where
  "all_entries pre [] = []"
| "all_entries pre ((name, TDir m cs) # es) =
     (name, entry_path pre name, TDir m cs) # all_entries (entry_path pre name) cs @ all_entries pre es"
| "all_entries pre ((name, node) # es) = (name, entry_path pre name, node) # all_entries pre es"

definition entry_ok :: "RuntimeLimits \<Rightarrow> string \<times> string \<times> template \<Rightarrow> bool" where
  "entry_ok limits = (\<lambda>(name, path, node).
     CHR ''/'' \<notin> set name \<and> CHR 0x00 \<notin> set name \<and> length path \<le> rl_template_path_bytes limits
     \<and> (below_or_at (as_bytes path) \<longrightarrow> is_template_dir node) \<and> (\<forall>m. node \<noteq> TOther m))"

definition dirs_of :: "string \<Rightarrow> (string \<times> template) list \<Rightarrow> (template \<times> string) list" where
  "dirs_of pre es = map (\<lambda>(name, node). (node, entry_path pre name)) (filter (\<lambda>(name, node). is_template_dir node) es)"

definition direct :: "string \<Rightarrow> (string \<times> template) list \<Rightarrow> (string \<times> string \<times> template) list" where
  "direct pre es = map (\<lambda>(name, node). (name, entry_path pre name, node)) es"

fun pending :: "(template \<times> string) list \<Rightarrow> (string \<times> string \<times> template) multiset" where
  "pending [] = {#}"
| "pending ((d, pre) # stack) = mset (all_entries pre (template_children d)) + pending stack"

lemma pending_append: "pending (xs @ ys) = pending xs + pending ys"
  by (induction xs rule: pending.induct) auto

lemma pending_rev: "pending (rev xs) = pending xs"
  by (induction xs rule: pending.induct) (simp_all add: pending_append)

lemma all_entries_split: "mset (all_entries pre es) = mset (direct pre es) + pending (dirs_of pre es)"
  by (induction pre es rule: all_entries.induct) (auto simp: direct_def dirs_of_def)

lemma template_entry_Inr:
  assumes "template_entry limits pre (n, stack) (name, node) s = (Inr state, t)"
  shows "entry_ok limits (name, entry_path pre name, node) \<and> n + 1 \<le> rl_template_entries limits
    \<and> state = (n + 1, (if is_template_dir node then [(node, entry_path pre name)] else []) @ stack)"
  using assms
  by (auto simp: template_entry_def entry_ok_def entry_path_def [symmetric] act_bind_Inr Let_def split: if_splits template.splits)

lemma template_fold_Inr:
  assumes "act_fold (template_entry limits pre) (n, stack) es s = (Inr state, t)"
  shows "list_all (entry_ok limits) (direct pre es) \<and> (es = [] \<or> n + length es \<le> rl_template_entries limits)
    \<and> state = (n + length es, rev (dirs_of pre es) @ stack)"
  using assms
proof (induction es arbitrary: n stack s)
  case (Cons e es)
  obtain name node where e: "e = (name, node)" by fastforce
  from Cons.prems obtain state' s1 where one: "template_entry limits pre (n, stack) (name, node) s = (Inr state', s1)"
    and rest: "act_fold (template_entry limits pre) state' es s1 = (Inr state, t)"
    by (auto simp: e act_bind_Inr)
  from template_entry_Inr [OF one] obtain stack' where state': "state' = (n + 1, stack')"
    and stack': "stack' = (if is_template_dir node then [(node, entry_path pre name)] else []) @ stack"
    and ok: "entry_ok limits (name, entry_path pre name, node)" "n + 1 \<le> rl_template_entries limits" by auto
  from Cons.IH [OF rest [unfolded state']] ok show ?case
    by (auto simp: e direct_def dirs_of_def stack')
qed (auto simp: direct_def dirs_of_def)

definition walked ::
    "RuntimeLimits \<Rightarrow> (string \<times> string \<times> template) multiset \<Rightarrow> nat \<times> (template \<times> string) list \<Rightarrow> file_system \<Rightarrow> bool" where
  "walked limits all = (\<lambda>(n, stack) s. \<exists>V. V + pending stack = all \<and> (\<forall>x \<in># V. entry_ok limits x)
     \<and> n = 1 + size V \<and> (V = {#} \<or> n \<le> rl_template_entries limits) \<and> list_all (\<lambda>(d, pre). is_template_dir d) stack)"

lemma walk_turn_Inr:
  assumes "walk_turn limits (n, stack) s = (Inr r, t)"
  shows "stack = [] \<and> r = Done () \<or> (\<exists>d pre stack'. stack = (d, pre) # stack'
    \<and> list_all (entry_ok limits) (direct pre (template_children d))
    \<and> (template_children d = [] \<or> n + length (template_children d) \<le> rl_template_entries limits)
    \<and> r = Again (n + length (template_children d), rev (dirs_of pre (template_children d)) @ stack'))"
proof -
  have run: "walk_directory limits (n, stack) s = (Inr r, t)"
    using assms by (auto simp: walk_turn_def map_err_def split: prod.splits sum.splits)
  show ?thesis
  proof (cases stack)
    case Nil
    with run show ?thesis by (simp add: walk_directory_def)
  next
    case (Cons x stack')
    obtain d pre where x: "x = (d, pre)" by fastforce
    from run Cons x obtain state s1 where "act_fold (template_entry limits pre) (n, stack') (template_children d) s1 = (Inr state, t)"
      and r: "r = Again state"
      by (auto simp: walk_directory_def act_bind_Inr)
    from template_fold_Inr [OF this(1)] show ?thesis by (auto simp: Cons x r)
  qed
qed

lemma walk_turn_walked:
  assumes "walked limits all state s" and "walk_turn limits state s = (Inr (Again state'), t)"
  shows "walked limits all state' t"
proof -
  obtain n stack where state: "state = (n, stack)" by fastforce
  from walk_turn_Inr [OF assms(2) [unfolded state]] obtain d pre stack' where
    stack: "stack = (d, pre) # stack'" and ok: "list_all (entry_ok limits) (direct pre (template_children d))"
    and bound: "template_children d = [] \<or> n + length (template_children d) \<le> rl_template_entries limits"
    and state': "state' = (n + length (template_children d), rev (dirs_of pre (template_children d)) @ stack')" by auto
  let ?new = "direct pre (template_children d)"
  from assms(1) obtain V where V: "V + pending stack = all" "\<forall>x \<in># V. entry_ok limits x" "n = 1 + size V"
    "V = {#} \<or> n \<le> rl_template_entries limits" "list_all (\<lambda>(d, pre). is_template_dir d) stack"
    by (auto simp: walked_def state)
  have "list_all (\<lambda>(d, pre). is_template_dir d) (dirs_of pre (template_children d))"
    by (auto simp: dirs_of_def list_all_iff)
  with V ok bound show ?thesis
    unfolding walked_def state'
    by (auto simp: stack all_entries_split pending_append pending_rev list_all_iff direct_def ac_simps
        intro!: exI [of _ "V + mset ?new"])
qed


text \<open>The directories still on the stack shrink with every turn.\<close>

lemma all_entries_length: "length (all_entries pre es) = size (mset (direct pre es)) + size (pending (dirs_of pre es))"
  using arg_cong [OF all_entries_split [of pre es], of size] by simp

definition walk_order :: "((nat \<times> (template \<times> string) list) \<times> file_system) rel" where
  "walk_order = inv_image ({(m, n). m < n} <*lex*> {(m, n). m < n})
     (\<lambda>((n, stack), s). (size (pending stack), length stack))"

lemma walk_order_wf: "wf walk_order"
  unfolding walk_order_def by (intro wf_inv_image wf_lex_prod wf_less)

lemma walk_turn_descends:
  assumes "walk_turn limits state s = (Inr (Again state'), t)"
  shows "((state', t), (state, s)) \<in> walk_order"
proof -
  obtain n stack where state: "state = (n, stack)" by fastforce
  from walk_turn_Inr [OF assms [unfolded state]] obtain d pre stack' where
    stack: "stack = (d, pre) # stack'"
    and state': "state' = (n + length (template_children d), rev (dirs_of pre (template_children d)) @ stack')" by auto
  show ?thesis
  proof (cases "template_children d")
    case Nil
    then show ?thesis by (simp add: walk_order_def state state' stack dirs_of_def)
  next
    case (Cons e es)
    then have "0 < size (mset (direct pre (template_children d)))" by (simp add: direct_def)
    then show ?thesis
      by (simp add: walk_order_def state state' stack pending_append pending_rev all_entries_length)
  qed
qed

lemma validate_template_total: "returns Hung (validate_template source limits)"
proof -
  have turn: "returns Hung (walk_turn limits state)" for state
    by (auto simp: returns_def walk_turn_def map_err_def split: prod.splits sum.splits)
  have loop: "returns Hung (act_loop Hung (walk_turn limits) state)" for state
    by (rule returns_loop [OF walk_order_wf, where I = "\<lambda>_ _. True"]) (simp_all add: walk_turn_descends turn)
  have first: "returns Hung (\<lambda>s. let (r, t) = context_of message a s in (map_err Io r, t))" for message :: string and a :: "'x fs_action"
    by (auto simp: returns_def map_err_def split: prod.splits sum.splits)
  show ?thesis
    unfolding validate_template_def by (intro returns_bind returns_if returns_pure first loop) simp
qed

text \<open>
  C31. Validating a template always returns, for every template and whatever fails: the walk cannot
  go on forever, because a directory it leaves is smaller than the ones it enters.
\<close>

theorem validate_template_returns: "fst (validate_template source limits s) \<noteq> Inl Hung"
  using validate_template_total by (simp add: returns_def)

lemma validate_template_start:
  assumes "validate_template source limits s = (r, t)" and "fs_fault s (fs_calls s) = None"
    and "source = Some (TDir m es)"
  shows "act_loop Hung (walk_turn limits) (1, [(TDir m es, [])]) (s\<lparr>fs_calls := fs_calls s + 1\<rparr>) = (r, t)"
  using assms by (auto simp: validate_template_def act_bind_def context_of_def fs_call_def Let_def)

lemma all_entries_Nil: "all_entries pre es = [] \<longleftrightarrow> es = []"
  by (cases "(pre, es)" rule: all_entries.cases) auto

lemma validate_template_sound:
  assumes "validate_template source limits s = (Inr x, t)"
  obtains m es where "source = Some (TDir m es)" "list_all (entry_ok limits) (all_entries [] es)"
    "es = [] \<or> 1 + length (all_entries [] es) \<le> rl_template_entries limits"
proof -
  from assms obtain node s1 where node: "source = Some node" "is_template_dir node"
    and run: "act_loop Hung (walk_turn limits) (1, [(node, [])]) s1 = (Inr x, t)"
    by (auto simp: validate_template_def act_bind_Inr context_of_def fs_call_def Let_def split: prod.splits sum.splits option.splits if_splits)
  then obtain m es where source: "source = Some (TDir m es)" "node = TDir m es" by (cases node) auto
  let ?all = "mset (all_entries [] es)"
  have "walked limits ?all (1, [(node, [])]) s1"
    by (auto simp: walked_def source intro!: exI [of _ "{#}"])
  with run obtain state u where "walked limits ?all state u" "walk_turn limits state u = (Inr (Done x), t)"
    by (rule act_loop_done) (rule walk_turn_walked)
  then have "list_all (entry_ok limits) (all_entries [] es)" and "all_entries [] es = [] \<or> 1 + length (all_entries [] es) \<le> rl_template_entries limits"
    using walk_turn_Inr [of limits "fst state" "snd state" u "Done x" t]
    by (auto simp: walked_def list_all_iff split: prod.splits)
  with source that all_entries_Nil show ?thesis by blast
qed


definition faultless :: "file_system \<Rightarrow> bool" where
  "faultless s \<longleftrightarrow> (\<forall>n. fs_fault s n = None)"

lemma probe_faultless:
  "faultless s \<Longrightarrow> \<exists>t. context_of message fs_probe s = (Inr (), t) \<and> faultless t"
  by (auto simp: faultless_def context_of_def fs_probe_def fs_call_def Let_def)

lemma template_entry_ok:
  assumes "faultless s" and "entry_ok limits (name, entry_path pre name, node)" and "n + 1 \<le> rl_template_entries limits"
  shows "\<exists>stack' t. template_entry limits pre (n, stack) (name, node) s = (Inr (n + 1, stack'), t) \<and> faultless t"
proof -
  obtain s1 where one: "context_of ''cannot read a template entry'' fs_probe s = (Inr (), s1)" "faultless s1"
    using probe_faultless [OF assms(1)] by blast
  obtain s2 where two: "context_of ''cannot inspect a template entry'' fs_probe s1 = (Inr (), s2)" "faultless s2"
    using probe_faultless [OF one(2)] by blast
  have names: "CHR ''/'' \<notin> set name" "CHR 0x00 \<notin> set name" "length (entry_path pre name) \<le> rl_template_path_bytes limits"
    "below_or_at (as_bytes (entry_path pre name)) \<longrightarrow> is_template_dir node" "\<forall>m. node \<noteq> TOther m"
    using assms(2) by (auto simp: entry_ok_def)
  show ?thesis
    unfolding template_entry_def Let_def entry_path_def [symmetric] prod.case
    using one two names assms(3) by (cases node) auto
qed

lemma template_fold_ok:
  assumes "faultless s" and "list_all (entry_ok limits) (direct pre es)" and "n + length es \<le> rl_template_entries limits"
  shows "\<exists>state t. act_fold (template_entry limits pre) (n, stack) es s = (Inr state, t) \<and> faultless t"
  using assms
proof (induction es arbitrary: n stack s)
  case (Cons e es)
  obtain name node where e: "e = (name, node)" by fastforce
  from Cons.prems obtain stack' s1 where one: "template_entry limits pre (n, stack) (name, node) s = (Inr (n + 1, stack'), s1)" "faultless s1"
    using template_entry_ok [of s limits name pre node n stack] by (auto simp: e direct_def)
  from Cons.IH [OF one(2), of "n + 1" stack'] Cons.prems one(1) show ?case by (auto simp: e direct_def)
qed simp

definition walkable :: "RuntimeLimits \<Rightarrow> nat \<times> (template \<times> string) list \<Rightarrow> file_system \<Rightarrow> bool" where
  "walkable limits = (\<lambda>(n, stack) s. faultless s \<and> (\<forall>x \<in># pending stack. entry_ok limits x)
     \<and> (pending stack = {#} \<or> n + size (pending stack) \<le> rl_template_entries limits))"

lemma walk_turn_ok:
  assumes "walkable limits state s"
  shows "\<exists>r t. walk_turn limits state s = (Inr r, t) \<and> (\<forall>state'. r = Again state' \<longrightarrow> walkable limits state' t)"
proof -
  obtain n stack where state: "state = (n, stack)" by fastforce
  show ?thesis
  proof (cases stack)
    case Nil
    then show ?thesis by (simp add: state walk_turn_def walk_directory_def)
  next
    case (Cons x stack')
    obtain d pre where x: "x = (d, pre)" by fastforce
    let ?es = "template_children d"
    from assms have all: "faultless s" "\<forall>x \<in> set (all_entries pre ?es). entry_ok limits x" "\<forall>x \<in># pending stack'. entry_ok limits x"
      and bound: "pending stack = {#} \<or> n + size (pending stack) \<le> rl_template_entries limits"
      by (auto simp: walkable_def state Cons x)
    obtain s1 where one: "context_of ''cannot read the workload template'' fs_probe s = (Inr (), s1)" "faultless s1"
      using probe_faultless [OF all(1)] by blast
    have direct: "list_all (entry_ok limits) (direct pre ?es)"
      using all(2) set_mset_mset [of "all_entries pre ?es"] unfolding all_entries_split by (auto simp: list_all_iff)
    have fold: "\<exists>state' t. act_fold (template_entry limits pre) (n, stack') ?es s1 = (Inr state', t) \<and> faultless t"
    proof (cases "?es = []")
      case False
      then have "n + length ?es \<le> rl_template_entries limits"
        using bound by (auto simp: Cons x all_entries_split direct_def all_entries_length)
      then show ?thesis using template_fold_ok [OF one(2) direct] by blast
    qed (simp add: one(2))
    then obtain state' t where run: "act_fold (template_entry limits pre) (n, stack') ?es s1 = (Inr state', t)" "faultless t" by blast
    from template_fold_Inr [OF run(1)] have state': "state' = (n + length ?es, rev (dirs_of pre ?es) @ stack')" by simp
    have turn: "walk_turn limits state s = (Inr (Again state'), t)"
      by (simp only: state Cons x walk_turn_def walk_directory_def prod.case list.case act_bind_def one(1) run(1) sum.case
          act_return_run Let_def map_err_simps)
    have "walkable limits state' t"
      using run(2) all bound set_mset_mset [of "all_entries pre ?es"] unfolding walkable_def state' all_entries_split
      by (auto simp: Cons x pending_append pending_rev all_entries_length direct_def)
    with turn show ?thesis by auto
  qed
qed

lemma validate_template_accepts:
  assumes "faultless s" and "list_all (entry_ok limits) (all_entries [] es)"
    and "1 + length (all_entries [] es) \<le> rl_template_entries limits"
  shows "fst (validate_template (Some (TDir m es)) limits s) = Inr ()"
proof -
  obtain r t where run: "validate_template (Some (TDir m es)) limits s = (r, t)" by fastforce
  have start: "act_loop Hung (walk_turn limits) (1, [(TDir m es, [])]) (s\<lparr>fs_calls := fs_calls s + 1\<rparr>) = (r, t)"
    using validate_template_start [OF run] assms(1) by (simp add: faultless_def)
  have first: "walkable limits (1, [(TDir m es, [])]) (s\<lparr>fs_calls := fs_calls s + 1\<rparr>)"
    using assms by (auto simp: walkable_def faultless_def list_all_iff)
  from start first show ?thesis
  proof (rule act_loop_post)
    fix state u assume "walkable limits state u" "walk_turn limits state u = (last_turn r, t)"
    with walk_turn_ok [of limits state u] show ?thesis by (cases r) (auto simp: run)
  next
    assume "r = Inl Hung"
    with validate_template_total [of "Some (TDir m es)" limits] show ?thesis by (metis returns_def fst_conv run)
  next
    fix state u state' u'
    assume "walkable limits state u" "walk_turn limits state u = (Inr (Again state'), u')"
    with walk_turn_ok [of limits state u] show "walkable limits state' u'" by (cases state') auto
  qed
qed

section \<open>The assembler's tree in the guest\<close>

fun template_kind :: "template \<Rightarrow> EntryKind option" where
  "template_kind (TDir _ _) = Some Directory"
| "template_kind (TFile _ _) = Some File"
| "template_kind (TLink _ _) = Some Symlink"
| "template_kind (TOther _) = None"

text \<open>A template carries a canonical tree when it has its paths with their kinds, the root apart.\<close>

definition carries :: "tree \<Rightarrow> (string \<times> template) list \<Rightarrow> bool" where
  "carries t es \<longleftrightarrow>
     add_mset (ROOT_PATH, Some Directory)
       (mset (map (\<lambda>(name, path, node). (as_bytes path, template_kind node)) (all_entries [] es)))
     = mset (map (\<lambda>(path, entry). (path, Some (e_kind entry))) t)"

definition component_names :: "(string \<times> template) list \<Rightarrow> bool" where
  "component_names es \<longleftrightarrow> list_all (\<lambda>(name, path, node). CHR ''/'' \<notin> set name \<and> CHR 0x00 \<notin> set name) (all_entries [] es)"

lemma for_each_check:
  "for_each (\<lambda>_ x. if bad x then Inl (f x) else Inr ()) () xs = Inr () \<longleftrightarrow> list_all (\<lambda>x. \<not> bad x) xs"
  by (induction xs) (auto simp: and_then_def)

lemma overlay_compatible_entries:
  assumes "validate_overlay_compatibility t launch = Inr ()"
  shows "list_all (\<lambda>(path, entry). below_or_at path \<longrightarrow> e_kind entry = Directory) t"
proof -
  let ?bad = "\<lambda>(path, entry). below_or_at path \<and> e_kind entry \<noteq> Directory"
  let ?error = "\<lambda>(path, entry :: Entry). OverlayCollision (if starts_with path OVERLAY_TMP then ''/tmp'' else ''/dev'')"
  have same: "(\<lambda>_ (path, entry). if below_or_at path \<and> e_kind entry \<noteq> Directory
      then Inl (OverlayCollision (if starts_with path OVERLAY_TMP then ''/tmp'' else ''/dev'')) else Inr ())
    = (\<lambda>_ x. if ?bad x then Inl (?error x) else Inr ())"
    by (intro ext) auto
  from assms have "for_each (\<lambda>_ x. if ?bad x then Inl (?error x) else Inr ()) () t = Inr ()"
    unfolding validate_overlay_compatibility_def same by (auto simp: and_then_eq_Inr)
  then have "list_all (\<lambda>x. \<not> ?bad x) t" unfolding for_each_check .
  then show ?thesis by (auto simp: list_all_iff)
qed

text \<open>
  C30. The guest never refuses what the assembler packed: when the assembler's tree passes its own
  overlay check and bounds, the template that carries it passes the runtime's validation under
  the default limits, if no call fails.
\<close>

theorem assembled_template_accepted:
  assumes "validate_overlay_compatibility t launch = Inr ()"
    and "length t \<le> MAX_VIEW_ENTRIES" and "list_all (\<lambda>(path, entry). length path \<le> MAX_PATH_BYTES) t"
    and "carries t es" and "component_names es" and "faultless s"
  shows "fst (validate_template (Some (TDir m es)) RuntimeLimits_default s) = Inr ()"
proof (rule validate_template_accepts [OF assms(6)])
  let ?view = "\<lambda>(name :: string, path, node). (as_bytes path, template_kind node)"
  have "size (mset (map (\<lambda>(path, entry). (path, Some (e_kind entry))) t)) = 1 + length (all_entries [] es)"
    using assms(4) unfolding carries_def by (metis Suc_eq_plus1_left length_map size_add_mset size_mset)
  then have "length t = 1 + length (all_entries [] es)" by simp
  then show "1 + length (all_entries [] es) \<le> rl_template_entries RuntimeLimits_default"
    using assms(2) by (simp add: RuntimeLimits_default_def)
  have packed: "\<exists>entry. (as_bytes path, entry) \<in> set t \<and> template_kind node = Some (e_kind entry)"
    if "(name, path, node) \<in> set (all_entries [] es)" for name path node
  proof -
    have "(as_bytes path, template_kind node) \<in># mset (map (\<lambda>(path, entry). (path, Some (e_kind entry))) t)"
      unfolding assms(4) [unfolded carries_def, symmetric] using that by force
    then show ?thesis by auto
  qed
  show "list_all (entry_ok RuntimeLimits_default) (all_entries [] es)"
    unfolding list_all_iff
  proof
    fix x assume x: "x \<in> set (all_entries [] es)"
    obtain name path node where x': "x = (name, path, node)" by (cases x)
    from packed [of name path node] x x' obtain entry where
      entry: "(as_bytes path, entry) \<in> set t" "template_kind node = Some (e_kind entry)" by auto
    have "length path \<le> MAX_PATH_BYTES" using assms(3) entry(1) by (auto simp: list_all_iff)
    moreover have "below_or_at (as_bytes path) \<longrightarrow> is_template_dir node"
      using overlay_compatible_entries [OF assms(1)] entry by (cases node) (auto simp: list_all_iff)
    moreover have "\<forall>m. node \<noteq> TOther m" using entry(2) by auto
    ultimately show "entry_ok RuntimeLimits_default x"
      using assms(5) x by (auto simp: x' entry_ok_def component_names_def list_all_iff RuntimeLimits_default_def)
  qed
qed

section \<open>The launch target\<close>

definition path_parts :: "string \<Rightarrow> path" where
  "path_parts value = filter (\<lambda>part. part \<noteq> []) (split_on CHR ''/'' value)"

text \<open>Every step below the root is there and is not a symbolic link.\<close>

fun unlinked :: "(path \<Rightarrow> inode option) \<Rightarrow> path \<Rightarrow> path \<Rightarrow> bool" where
  "unlinked N current [] = True"
| "unlinked N current (part # parts) =
     ((case N (named (current @ [part])) of None \<Rightarrow> False | Some n \<Rightarrow> \<not> is_symlink n) \<and> unlinked N (current @ [part]) parts)"

lemma symlink_metadata_Inr:
  "symlink_metadata p s = (Inr n, t) \<Longrightarrow> fs_nodes s p = Some n \<and> fs_nodes t = fs_nodes s"
  by (auto simp: symlink_metadata_def fs_call_Inr split: option.splits)

lemma resolve_components_Inr:
  assumes "resolve_components field current parts s = (Inr p, t)"
  shows "p = current @ parts \<and> fs_nodes t = fs_nodes s \<and> unlinked (fs_nodes s) current parts"
  using assms
proof (induction field current parts arbitrary: s rule: resolve_components.induct)
  case (2 field current component components)
  from "2.prems" obtain n s1 where n: "symlink_metadata (named (current @ [component])) s = (Inr n, s1)" "\<not> is_symlink n"
    and rest: "resolve_components field (current @ [component]) components s1 = (Inr p, t)"
    by (auto simp: act_bind_Inr split: if_splits)
  from "2.IH" [OF n(2) rest] symlink_metadata_Inr [OF n(1)] n(2) show ?case
    by simp
qed simp

lemma resolve_in_root_Inr:
  assumes "resolve_in_root root field value s = (Inr p, t)"
  shows "p = root @ path_parts value \<and> fs_nodes t = fs_nodes s \<and> unlinked (fs_nodes s) root (path_parts value)
    \<and> ''..'' \<notin> set (path_parts value)"
  using assms resolve_components_Inr [of field root "path_parts value" s p t]
  by (auto simp: resolve_in_root_def path_parts_def list_ex_iff split: if_splits)

lemma failing_Inr [simp]: "failing f a s = (Inr x, t) \<longleftrightarrow> a s = (Inr x, t)"
  by (cases "a s"; cases "fst (a s)") (auto simp: failing_def map_err_def)

text \<open>
  A launch target that is accepted names, below the fresh root and without leaving it or
  passing through any symbolic link, a regular file with an execute bit and a working directory
  that is a directory; checking it changes no node.
\<close>

theorem verify_launch_target_sound:
  assumes "verify_launch_target root launch s = (Inr x, t)"
  shows "fs_nodes t = fs_nodes s
    \<and> (\<exists>n. fs_nodes s (named (root @ path_parts (li_executable launch))) = Some n \<and> is_file n \<and> and (in_mode n) 0x49 \<noteq> 0)
    \<and> (\<exists>n. fs_nodes s (named (root @ path_parts (li_working_directory launch))) = Some n \<and> is_dir n)
    \<and> unlinked (fs_nodes s) root (path_parts (li_executable launch))
    \<and> unlinked (fs_nodes s) root (path_parts (li_working_directory launch))
    \<and> ''..'' \<notin> set (path_parts (li_executable launch)) \<and> ''..'' \<notin> set (path_parts (li_working_directory launch))"
proof -
  from assms obtain exe wd n r s1 s2 s3 where
    exe: "resolve_in_root root ''the workload executable'' (li_executable launch) s = (Inr exe, s1)"
    and meta: "symlink_metadata (named exe) s1 = (Inr n, s2)" and regular: "is_file n" "and (in_mode n) 0x49 \<noteq> 0"
    and wd: "resolve_in_root root ''the workload working directory'' (li_working_directory launch) s2 = (Inr wd, s3)"
    and dir: "symlink_metadata (named wd) s3 = (r, t)" "case r of Inl _ \<Rightarrow> False | Inr n \<Rightarrow> is_dir n"
    by (auto simp: verify_launch_target_def act_bind_Inr Let_def split: if_splits prod.splits)
  note facts = resolve_in_root_Inr [OF exe] symlink_metadata_Inr [OF meta] resolve_in_root_Inr [OF wd]
  obtain d where d: "r = Inr d" "is_dir d" using dir(2) by (cases r) auto
  note last = symlink_metadata_Inr [OF dir(1) [unfolded d(1)]]
  show ?thesis using facts regular last d(2) by auto
qed

section \<open>A small template\<close>

definition sample_metadata :: "u32 \<Rightarrow> metadata" where
  "sample_metadata mode = \<lparr>md_mode = mode, md_uid = 0, md_gid = 0, md_mtime = 7\<rparr>"

definition sample_entries :: "(string \<times> template) list" where
  "sample_entries =
     [(''bin'', TDir (sample_metadata 0x41ed) [(''app'', TFile (sample_metadata 0x81ed) [0x7f, 0x45])]),
      (''tmp'', TDir (sample_metadata 0x41ed) [(''cache'', TDir (sample_metadata 0x41ed) [])]),
      (''lib'', TLink (sample_metadata 0xa1ff) ''bin'')]"

definition sample_root :: path where "sample_root = [''run'', ''invocation-1'']"

definition sample_limits :: RuntimeLimits where
  "sample_limits = \<lparr>rl_input_bytes = 64, rl_output_bytes = 64, rl_input_frame_bytes = 8, rl_output_frame_bytes = 8,
     rl_template_entries = 16, rl_template_path_bytes = 64, rl_file_bytes = 64\<rparr>"

definition sample_fs :: file_system where
  "sample_fs = \<lparr>fs_nodes = (\<lambda>p. if p = [] \<or> p = [''run''] \<or> p = [''run'', ''invocation-1'']
       then Some \<lparr>in_content = DirNode, in_mode = 0x1c0, in_uid = 0, in_gid = 0, in_mtime = 100\<rparr> else None),
     fs_calls = 0, fs_fault = (\<lambda>_. None), fs_time = (\<lambda>n. 100 + int n), fs_survives = (\<lambda>_ _. True)\<rparr>"

lemma sample_materialized:
  "fst (materialize_into (TDir (sample_metadata 0x41ed) sample_entries) sample_root sample_limits sample_fs) = Inr ()"
  by code_simp

theorem materialize_exact_witness:
  "fs_nodes (snd (materialize_into (TDir (sample_metadata 0x41ed) sample_entries) sample_root sample_limits sample_fs))
     = grafted (fs_nodes sample_fs) sample_root (overlaid (TDir (sample_metadata 0x41ed) sample_entries))"
proof (rule materialize_exact)
  show "materialize_into (TDir (sample_metadata 0x41ed) sample_entries) sample_root sample_limits sample_fs
    = (Inr (), snd (materialize_into (TDir (sample_metadata 0x41ed) sample_entries) sample_root sample_limits sample_fs))"
    using sample_materialized by (metis prod.collapse)
  show "rooted (fs_nodes sample_fs)"
    by (auto simp: rooted_def sample_fs_def append_eq_Cons_conv Cons_eq_append_conv)
  show "\<exists>n. fs_nodes sample_fs sample_root = Some n \<and> is_dir n" by (simp add: sample_fs_def sample_root_def is_dir_def)
  show "fs_nodes sample_fs (sample_root @ c # r) = None" for c r by (simp add: sample_fs_def sample_root_def)
qed

definition sample_tree :: tree where
  "sample_tree = [(ROOT_PATH, Entry_default_directory), (as_bytes ''bin'', Entry_default_directory),
     (as_bytes ''bin/app'', Entry_file [0x7f, 0x45] 0x1ed 0 0 7), (as_bytes ''lib'', Entry_symlink (as_bytes ''bin'') 0 0 7),
     (as_bytes ''tmp'', Entry_default_directory), (as_bytes ''tmp/cache'', Entry_default_directory)]"

definition sample_target :: LaunchIdentity where
  "sample_target = \<lparr>li_executable = ''/bin/app'', li_arguments = [''/bin/app''], li_environment = [],
     li_working_directory = ''/'', li_uid = 65532, li_gid = 65532\<rparr>"

theorem assembled_template_accepted_witness:
  "validate_overlay_compatibility sample_tree sample_target = Inr ()
     \<and> fst (validate_template (Some (TDir (sample_metadata 0x41ed) sample_entries)) RuntimeLimits_default sample_fs) = Inr ()"
proof
  show host: "validate_overlay_compatibility sample_tree sample_target = Inr ()" by code_simp
  show "fst (validate_template (Some (TDir (sample_metadata 0x41ed) sample_entries)) RuntimeLimits_default sample_fs) = Inr ()"
  proof (rule assembled_template_accepted [OF host])
    show "length sample_tree \<le> MAX_VIEW_ENTRIES" by (simp add: sample_tree_def MAX_VIEW_ENTRIES_def)
    show "list_all (\<lambda>(path, entry). length path \<le> MAX_PATH_BYTES) sample_tree" by (simp add: sample_tree_def MAX_PATH_BYTES_def ROOT_PATH_def)
    show "carries sample_tree sample_entries"
      by (simp add: carries_def sample_tree_def sample_entries_def entry_path_def Entry_default_directory_def Entry_directory_def
          Entry_file_def Entry_symlink_def add_mset_commute)
    show "component_names sample_entries" by (simp add: component_names_def sample_entries_def)
    show "faultless sample_fs" by (simp add: faultless_def sample_fs_def)
  qed
qed

end
