(* ===== verification/Guest_Child.thy ===== *)
theory Guest_Child
  imports Guest_Process
begin

text \<open>
  The birth of the workload process in \<open>runtime.rs\<close>: the pipes the parent prepares, the setup the
  forked child performs before it executes the workload, the single byte by which it reports a
  failed step, and the parent's bounded wait for that report. After the fork parent and child are
  two programs: the parent works on the guest's state and the child on a process of its own, and
  only the setup pipe connects them. The lemmas: a child that executes the workload is confined to
  its root, its credentials and its three descriptors, and a parent that does not get a running
  child gives every descriptor back.
\<close>

section \<open>The result byte\<close>

definition DUP :: u8 where "DUP = 1"
definition CHROOT :: u8 where "CHROOT = 2"
definition CHDIR :: u8 where "CHDIR = 3"
definition GROUPS :: u8 where "GROUPS = 4"
definition NO_NEW_PRIVS :: u8 where "NO_NEW_PRIVS = 5"
definition CREDENTIALS :: u8 where "CREDENTIALS = 6"
definition EXEC :: u8 where "EXEC = 7"
definition GROUP :: u8 where "GROUP = 8"
definition SIGNALS :: u8 where "SIGNALS = 9"
definition DESCRIPTORS :: u8 where "DESCRIPTORS = 10"

definition child_failure :: "u8 \<Rightarrow> string \<times> string" where
  "child_failure code =
     (if code = DUP then (''pipe'', ''could not connect the workload standard pipes'')
      else if code = CHROOT then (''setup'', ''could not change the workload root'')
      else if code = CHDIR then (''working_directory'', ''could not enter the workload working directory'')
      else if code = GROUPS then (''setup'', ''could not clear supplementary groups'')
      else if code = NO_NEW_PRIVS then (''setup'', ''could not set no_new_privs'')
      else if code = CREDENTIALS then (''setup'', ''could not apply the workload credentials'')
      else if code = EXEC then (''executable'', ''could not execute the workload'')
      else if code = GROUP then (''setup'', ''could not isolate the workload process group'')
      else if code = SIGNALS then (''setup'', ''could not reset the workload signal dispositions'')
      else if code = DESCRIPTORS then (''setup'', ''could not close every inherited workload descriptor'')
      else (''setup'', ''unknown workload setup failure''))"

section \<open>The child\<close>

text \<open>The calls of the child on its own process; \<open>Inl\<close> is the failure each of them may report.\<close>

record 'c child_os =
  co_setpgid :: "('c, unit, unit) action"
  co_dup2 :: "nat \<Rightarrow> nat \<Rightarrow> ('c, unit, unit) action"
  co_clear_cloexec :: "nat \<Rightarrow> ('c, unit, unit) action"
  co_close_range :: "u32 \<Rightarrow> u32 \<Rightarrow> ('c, unit, unit) action"
  co_default_sigpipe :: "('c, unit, unit) action"
  co_chroot :: "string \<Rightarrow> ('c, unit, unit) action"
  co_chdir :: "string \<Rightarrow> ('c, unit, unit) action"
  co_setgroups_none :: "('c, unit, unit) action"
  co_no_new_privs :: "('c, unit, unit) action"
  co_setgid :: "u32 \<Rightarrow> ('c, unit, unit) action"
  co_setuid :: "u32 \<Rightarrow> ('c, unit, unit) action"
  co_execve :: "string \<Rightarrow> string list \<Rightarrow> string list \<Rightarrow> ('c, unit, unit) action"

text \<open>A step of the setup: a failure is written to the setup pipe and ends the child.\<close>

definition step :: "u8 \<Rightarrow> ('c, unit, unit) action \<Rightarrow> ('c, u8, unit) action" where
  "step code call = (\<lambda>c. let (r, c') = call c in (map_err (\<lambda>_. code) r, c'))"

definition MAX_FD :: u32 where "MAX_FD = 0xffffffff"

definition saturating_succ :: "u32 \<Rightarrow> u32" where
  "saturating_succ fd = (if fd = MAX_FD then MAX_FD else fd + 1)"

text \<open>Both ranges are always attempted; a failure of either is a failure.\<close>

definition close_inherited_descriptors :: "'c child_os \<Rightarrow> nat \<Rightarrow> 'c \<Rightarrow> bool \<times> 'c" where
  "close_inherited_descriptors os preserve c =
     (let fd = of_nat preserve :: u32;
          (below, c) = (if 3 < fd then co_close_range os 3 (fd - 1) c else (Inr (), c));
          (above, c) = co_close_range os (max (saturating_succ fd) 3) MAX_FD c
      in (is_ok below \<and> is_ok above, c))"

record child_plan =
  cp_stdin :: nat
  cp_stdout :: nat
  cp_stderr :: nat
  cp_error_write :: nat
  cp_root :: string
  cp_working :: string
  cp_executable :: string
  cp_arguments :: "string list"
  cp_environment :: "string list"
  cp_uid :: u32
  cp_gid :: u32

text \<open>The three parts of the setup: the standard descriptors, the inherited ones, the confinement.\<close>

definition connect_standard :: "'c child_os \<Rightarrow> child_plan \<Rightarrow> ('c, u8, unit) action" where
  "connect_standard os plan =
     act_bind (step DUP (co_dup2 os (cp_stdin plan) 0)) (\<lambda>_.
     act_bind (step DUP (co_dup2 os (cp_stdout plan) 1)) (\<lambda>_.
     act_bind (step DUP (co_dup2 os (cp_stderr plan) 2)) (\<lambda>_.
     act_each (\<lambda>fd. step DUP (co_clear_cloexec os fd)) [0, 1, 2])))"

definition drop_inherited :: "'c child_os \<Rightarrow> child_plan \<Rightarrow> ('c, u8, unit) action" where
  "drop_inherited os plan = (\<lambda>c. let (closed, c') = close_inherited_descriptors os (cp_error_write plan) c in
     (if closed then Inr () else Inl DESCRIPTORS, c'))"

definition enter_workload :: "'c child_os \<Rightarrow> child_plan \<Rightarrow> ('c, u8, unit) action" where
  "enter_workload os plan =
     act_bind (step SIGNALS (co_default_sigpipe os)) (\<lambda>_.
     act_bind (step CHROOT (co_chroot os (cp_root plan))) (\<lambda>_.
     act_bind (step CHDIR (co_chdir os (cp_working plan))) (\<lambda>_.
     act_bind (step GROUPS (co_setgroups_none os)) (\<lambda>_.
     act_bind (step NO_NEW_PRIVS (co_no_new_privs os)) (\<lambda>_.
     act_bind (step CREDENTIALS (co_setgid os (cp_gid plan))) (\<lambda>_.
     act_bind (step CREDENTIALS (co_setuid os (cp_uid plan))) (\<lambda>_.
     step EXEC (co_execve os (cp_executable plan) (cp_arguments plan) (cp_environment plan)))))))))"

definition child_exec :: "'c child_os \<Rightarrow> child_plan \<Rightarrow> ('c, u8, unit) action" where
  "child_exec os plan =
     act_bind (connect_standard os plan) (\<lambda>_.
     act_bind (drop_inherited os plan) (\<lambda>_.
     enter_workload os plan))"

text \<open>The branch of \<open>spawn\<close> that runs in the child.\<close>

definition child_main :: "'c child_os \<Rightarrow> MemberScope \<Rightarrow> child_plan \<Rightarrow> ('c, u8, unit) action" where
  "child_main os scope plan =
     act_bind (if scope = ProcessGroup then step GROUP (co_setpgid os) else act_return ()) (\<lambda>_. child_exec os plan)"

section \<open>The parent\<close>

definition SETUP_TIMEOUT :: nat where "SETUP_TIMEOUT = 10 * 1000"

record 'w spawn_os =
  so_pipe :: "('w, os_error, int \<times> int) action"
  so_getfl :: "int \<Rightarrow> ('w, os_error, int) action"
  so_setfl :: "int \<Rightarrow> int \<Rightarrow> ('w, os_error, unit) action"
  so_nonblock :: int
  so_fork :: "('w, os_error, int) action"
  so_waitpid :: "int \<Rightarrow> 'w \<Rightarrow> int \<times> 'w"

type_synonym ('w, 'a) launching = "('w, launch_error, 'a) action"

datatype SetupOutcome = SetupReady | SetupFailed u8 | SetupTimeout | SetupTransport os_error

record Spawned =
  sp_pid :: int
  sp_stdin :: int
  sp_stdout :: int
  sp_stderr :: int

definition set_nonblocking :: "'w spawn_os \<Rightarrow> int \<Rightarrow> ('w, os_error, unit) action" where
  "set_nonblocking so fd = act_bind (so_getfl so fd) (\<lambda>flags. so_setfl so fd (or flags (so_nonblock so)))"

text \<open>One turn of the wait for the setup pipe.\<close>

definition setup_turn :: "'w guest_os \<Rightarrow> int \<Rightarrow> unit \<Rightarrow> ('w, (unit, SetupOutcome) turn) kernel" where
  "setup_turn os fd _ =
     act_bind (try_call (os_poll os [fd] SETUP_TIMEOUT)) (\<lambda>ready.
     case ready of
       Inl e \<Rightarrow> if oe_kind e = Interrupted then act_return (Again ()) else act_return (Done (SetupTransport e))
     | Inr n \<Rightarrow>
         if n = 0 then act_return (Done SetupTimeout)
         else act_bind (try_call (os_read os fd 1)) (\<lambda>read.
           case read of
             Inl e \<Rightarrow> if oe_kind e = Interrupted then act_return (Again ()) else act_return (Done (SetupTransport e))
           | Inr [] \<Rightarrow> act_return (Done SetupReady)
           | Inr (code # _) \<Rightarrow> act_return (Done (SetupFailed code))))"

definition await_setup :: "'w guest_os \<Rightarrow> int \<Rightarrow> ('w, SetupOutcome) kernel" where
  "await_setup os fd = (\<lambda>w. let (r, w') = act_loop Hung (setup_turn os fd) () w in (r, os_close os fd w'))"

text \<open>Dropping the guard of a child that did not start: kill it and wait for it, at most five seconds.\<close>

definition reap_child_turn :: "'w guest_os \<Rightarrow> 'w spawn_os \<Rightarrow> int \<Rightarrow> nat \<Rightarrow> unit \<Rightarrow> ('w, (unit, unit) turn) kernel" where
  "reap_child_turn os so pid deadline _ = (\<lambda>w.
     let (reaped, w) = so_waitpid so pid w in
     if reaped = pid \<or> reaped < 0 then (Inr (Done ()), w)
     else let (now, w) = os_now os w in
       if deadline \<le> now then (Inr (Done ()), w) else (Inr (Again ()), os_sleep os 5 w))"

definition drop_child_guard :: "'w guest_os \<Rightarrow> 'w spawn_os \<Rightarrow> int \<Rightarrow> MemberScope \<Rightarrow> ('w, unit) kernel" where
  "drop_child_guard os so pid scope = (\<lambda>w.
     case signal_members os pid scope TERMINATION_SIGNAL w of
       (Inl Hung, w) \<Rightarrow> (Inl Hung, w)
     | (_, w) \<Rightarrow> let (now, w) = os_now os w in act_loop Hung (reap_child_turn os so pid (now + 5000)) () w)"

text \<open>Pipes in the order of their creation; a failure closes the ones before it.\<close>

definition close_all :: "'w guest_os \<Rightarrow> int list \<Rightarrow> 'w \<Rightarrow> 'w" where
  "close_all os fds w = foldl (\<lambda>w fd. os_close os fd w) w fds"

fun open_pipes :: "'w guest_os \<Rightarrow> 'w spawn_os \<Rightarrow> nat \<Rightarrow> (int \<times> int) list \<Rightarrow> ('w, (int \<times> int) list) launching" where
  "open_pipes os so 0 pipes w = (Inr pipes, w)"
| "open_pipes os so (Suc n) pipes w =
     (case so_pipe so w of
        (Inl e, w) \<Rightarrow> (Inl (Pipe, oe_text e), close_all os (concat (map (\<lambda>(r, wr). [r, wr]) (rev pipes))) w)
      | (Inr p, w) \<Rightarrow> open_pipes os so n (pipes @ [p]) w)"

text \<open>\<open>CString::new\<close>\<close>

definition cstring :: "string \<Rightarrow> string + string" where
  "cstring s = (case position_of CHR 0x00 s of
     None \<Rightarrow> Inr s
   | Some i \<Rightarrow> Inl (''nul byte found in provided data at position: '' @ dec i))"

definition child_strings :: "string \<Rightarrow> LaunchIdentity \<Rightarrow> launch_error + unit" where
  "child_strings root launch =
     and_then (map_err (\<lambda>_. (Setup, ''path '' @ root @ '' contains a NUL byte'')) (cstring root)) (\<lambda>_.
     and_then (map_err (\<lambda>e. (WorkingDirectory, e)) (cstring (li_working_directory launch))) (\<lambda>_.
     and_then (map_err (\<lambda>e. (Executable, e)) (cstring (li_executable launch))) (\<lambda>_.
     and_then (map_err (\<lambda>e. (Executable, e)) (collect cstring (li_arguments launch))) (\<lambda>_.
     and_then (map_err (\<lambda>e. (Executable, e)) (collect cstring (li_environment launch))) (\<lambda>_. Inr ())))))"

definition configure_pipe :: "'w spawn_os \<Rightarrow> string \<Rightarrow> int \<Rightarrow> ('w, unit) launching" where
  "configure_pipe so what fd = (\<lambda>w. let (r, w') = set_nonblocking so fd w in
     (map_err (\<lambda>e. (Pipe, ''cannot configure the workload '' @ what @ '' pipe: '' @ oe_text e)) r, w'))"

definition configure_pipes :: "'w spawn_os \<Rightarrow> int \<Rightarrow> int \<Rightarrow> int \<Rightarrow> ('w, unit) launching" where
  "configure_pipes so stdin stdout stderr =
     act_bind (configure_pipe so ''input'' stdin) (\<lambda>_.
     act_bind (configure_pipe so ''output'' stdout) (\<lambda>_.
     configure_pipe so ''output'' stderr))"

definition fork_child :: "'w spawn_os \<Rightarrow> ('w, int) launching" where
  "fork_child so = (\<lambda>w. let (r, w') = so_fork so w in
     (map_err (\<lambda>e. (Fork, ''cannot fork the workload child: '' @ oe_text e)) r, w'))"

definition setup_failure :: "SetupOutcome \<Rightarrow> launch_error option" where
  "setup_failure outcome =
     (case outcome of
        SetupReady \<Rightarrow> None
      | SetupFailed code \<Rightarrow>
          let (kind, detail) = child_failure code in
          Some (if kind = ''working_directory'' then WorkingDirectory
                else if kind = ''executable'' then Executable
                else if kind = ''pipe'' then Pipe
                else Setup, detail)
      | SetupTimeout \<Rightarrow> Some (Setup, ''the workload child did not complete setup within the bound'')
      | SetupTransport e \<Rightarrow> Some (Pipe, ''cannot read the workload setup result: '' @ oe_text e))"

text \<open>
  \<open>spawn\<close> in the parent. Its result is a value; the ends of the pipes that are not handed out are
  closed on every path, and a child whose setup did not succeed is killed and waited for.
\<close>

definition spawn ::
    "'w guest_os \<Rightarrow> 'w spawn_os \<Rightarrow> string \<Rightarrow> LaunchIdentity \<Rightarrow> MemberScope \<Rightarrow> ('w, launch_error + Spawned) kernel" where
  "spawn os so root launch scope = (\<lambda>w.
     case open_pipes os so 4 [] w of
       (Inl failure, w) \<Rightarrow> (Inr (Inl failure), w)
     | (Inr pipes, w) \<Rightarrow>
         let (stdin_read, stdin_write) = pipes ! 0; (stdout_read, stdout_write) = pipes ! 1;
             (stderr_read, stderr_write) = pipes ! 2; (error_read, error_write) = pipes ! 3 in
         case act_bind (act_lift (child_strings root launch)) (\<lambda>_.
              act_bind (configure_pipes so stdin_write stdout_read stderr_read) (\<lambda>_. fork_child so)) w of
           (Inl failure, w) \<Rightarrow>
             (Inr (Inl failure), close_all os [error_read, error_write, stderr_read, stderr_write, stdout_read, stdout_write,
               stdin_read, stdin_write] w)
         | (Inr pid, w) \<Rightarrow>
             (case await_setup os error_read (close_all os [stdin_read, stdout_write, stderr_write, error_write] w) of
                (Inl e, w) \<Rightarrow> (Inl e, w)
              | (Inr outcome, w) \<Rightarrow>
                  (case setup_failure outcome of
                     None \<Rightarrow> (Inr (Inr \<lparr>sp_pid = pid, sp_stdin = stdin_write, sp_stdout = stdout_read, sp_stderr = stderr_read\<rparr>), w)
                   | Some failure \<Rightarrow>
                       (case drop_child_guard os so pid scope w of
                          (Inl e, w) \<Rightarrow> (Inl e, w)
                        | (Inr _, w) \<Rightarrow> (Inr (Inl failure), close_all os [stderr_read, stdout_read, stdin_write] w)))))"

section \<open>A process and its calls\<close>

text \<open>
  The kernel's side of the child: the open descriptors with what they refer to and whether they
  close on exec, and what the calls change of a process. Any call can be made to fail.
\<close>

record process =
  pr_fds :: "nat \<Rightarrow> (nat \<times> bool) option"
  pr_root :: string
  pr_cwd :: string
  pr_groups :: "u32 list"
  pr_no_new_privs :: bool
  pr_uid :: u32
  pr_gid :: u32
  pr_own_group :: bool
  pr_sigpipe_default :: bool
  pr_image :: "(string \<times> string list \<times> string list) option"
  pr_calls :: nat
  pr_fault :: "nat \<Rightarrow> bool"

definition pr_call :: "(process \<Rightarrow> process option) \<Rightarrow> (process, unit, unit) action" where
  "pr_call f = (\<lambda>c. let c' = c\<lparr>pr_calls := pr_calls c + 1\<rparr> in
     if pr_fault c (pr_calls c) then (Inl (), c')
     else (case f c' of None \<Rightarrow> (Inl (), c') | Some d \<Rightarrow> (Inr (), d)))"

definition process_os :: "process child_os" where
  "process_os =
     \<lparr>co_setpgid = pr_call (\<lambda>c. Some (c\<lparr>pr_own_group := True\<rparr>)),
      co_dup2 = (\<lambda>a b. pr_call (\<lambda>c. case pr_fds c a of
        None \<Rightarrow> None
      | Some (file, cloexec) \<Rightarrow> Some (if a = b then c else c\<lparr>pr_fds := (pr_fds c)(b \<mapsto> (file, False))\<rparr>))),
      co_clear_cloexec = (\<lambda>fd. pr_call (\<lambda>c. case pr_fds c fd of
        None \<Rightarrow> None | Some (file, cloexec) \<Rightarrow> Some (c\<lparr>pr_fds := (pr_fds c)(fd \<mapsto> (file, False))\<rparr>))),
      co_close_range = (\<lambda>first final. pr_call (\<lambda>c.
        if final < first then None
        else Some (c\<lparr>pr_fds := (\<lambda>fd. if unat first \<le> fd \<and> fd \<le> unat final then None else pr_fds c fd)\<rparr>))),
      co_default_sigpipe = pr_call (\<lambda>c. Some (c\<lparr>pr_sigpipe_default := True\<rparr>)),
      co_chroot = (\<lambda>p. pr_call (\<lambda>c. if pr_uid c = 0 then Some (c\<lparr>pr_root := p\<rparr>) else None)),
      co_chdir = (\<lambda>p. pr_call (\<lambda>c. Some (c\<lparr>pr_cwd := p\<rparr>))),
      co_setgroups_none = pr_call (\<lambda>c. if pr_uid c = 0 then Some (c\<lparr>pr_groups := []\<rparr>) else None),
      co_no_new_privs = pr_call (\<lambda>c. Some (c\<lparr>pr_no_new_privs := True\<rparr>)),
      co_setgid = (\<lambda>g. pr_call (\<lambda>c. if pr_uid c = 0 then Some (c\<lparr>pr_gid := g\<rparr>) else None)),
      co_setuid = (\<lambda>u. pr_call (\<lambda>c. if pr_uid c = 0 then Some (c\<lparr>pr_uid := u\<rparr>) else None)),
      co_execve = (\<lambda>exe args env. pr_call (\<lambda>c. Some (c\<lparr>pr_image := Some (exe, args, env),
        pr_fds := (\<lambda>fd. case pr_fds c fd of Some (file, False) \<Rightarrow> Some (file, False) | _ \<Rightarrow> None)\<rparr>)))\<rparr>"

lemma step_Inr: "step code call c = (Inr x, d) \<longleftrightarrow> call c = (Inr x, d)"
  by (cases "call c"; cases "fst (call c)") (auto simp: step_def map_err_def)

lemma pr_call_Inr: "pr_call f c = (Inr x, d) \<longleftrightarrow> \<not> pr_fault c (pr_calls c) \<and> f (c\<lparr>pr_calls := pr_calls c + 1\<rparr>) = Some d"
  by (auto simp: pr_call_def Let_def split: option.splits)


section \<open>Confinement\<close>

lemmas process_calls = process_os_def pr_call_Inr step_Inr act_bind_Inr

lemma dup2_Inr:
  "co_dup2 process_os a b c = (Inr x, d) \<Longrightarrow> \<exists>file flag. pr_fds c a = Some (file, flag)
     \<and> d = (if a = b then c else c\<lparr>pr_fds := (pr_fds c)(b \<mapsto> (file, False))\<rparr>)\<lparr>pr_calls := pr_calls c + 1\<rparr>"
  by (auto simp: process_os_def pr_call_Inr split: option.splits prod.splits)

lemma clear_cloexec_Inr:
  "co_clear_cloexec process_os a c = (Inr x, d) \<Longrightarrow> \<exists>file flag. pr_fds c a = Some (file, flag)
     \<and> d = c\<lparr>pr_fds := (pr_fds c)(a \<mapsto> (file, False)), pr_calls := pr_calls c + 1\<rparr>"
  by (auto simp: process_os_def pr_call_Inr split: option.splits prod.splits)

lemma close_range_Inr:
  "co_close_range process_os first final c = (Inr x, d) \<Longrightarrow>
     d = c\<lparr>pr_fds := (\<lambda>fd. if unat first \<le> fd \<and> fd \<le> unat final then None else pr_fds c fd), pr_calls := pr_calls c + 1\<rparr>"
  by (auto simp: process_os_def pr_call_Inr split: if_splits cong: if_cong)

text \<open>Only the descriptors below three and the one to preserve survive.\<close>

lemma close_inherited_closes:
  assumes "close_inherited_descriptors process_os preserve c = (True, d)" and "3 \<le> preserve" and "preserve < 2 ^ 31"
    and "\<And>fd. 2 ^ 32 \<le> fd \<Longrightarrow> pr_fds c fd = None"
  shows "\<exists>n. d = c\<lparr>pr_fds := (\<lambda>fd. if fd < 3 \<or> fd = preserve then pr_fds c fd else None), pr_calls := n\<rparr>"
proof -
  let ?fd = "of_nat preserve :: u32"
  have fd: "unat ?fd = preserve" using assms(3) by (simp add: unat_of_nat)
  have lt: "3 < ?fd \<longleftrightarrow> 3 < preserve" unfolding word_less_nat_alt fd by simp
  have pred: "unat (?fd - 1) = preserve - 1" using assms(2) fd by (simp add: unat_sub word_le_nat_alt)
  have neq: "?fd \<noteq> MAX_FD"
  proof
    assume "?fd = MAX_FD"
    then have "preserve = unat MAX_FD" using fd by simp
    then show False using assms(3) by (simp add: MAX_FD_def)
  qed
  have suc: "unat (?fd + 1) = preserve + 1" using assms(3) fd by (simp add: unat_word_ariths)
  have top: "unat (max (saturating_succ ?fd) 3) = preserve + 1"
    using assms(2) suc neq by (simp add: saturating_succ_def max_def word_le_nat_alt)
  have all: "unat MAX_FD = 2 ^ 32 - 1" by (simp add: MAX_FD_def)
  obtain u c1 where below: "(if 3 < ?fd then co_close_range process_os 3 (?fd - 1) c else (Inr (), c)) = (Inr u, c1)"
    and above: "\<exists>v. co_close_range process_os (max (saturating_succ ?fd) 3) MAX_FD c1 = (Inr v, d)"
    using assms(1) unfolding close_inherited_descriptors_def Let_def
    by (auto simp: is_ok_iff split: prod.splits if_splits)
  have one: "\<exists>n. c1 = c\<lparr>pr_fds := (\<lambda>fd. if 3 \<le> fd \<and> fd < preserve then None else pr_fds c fd), pr_calls := n\<rparr>"
  proof (cases "3 < preserve")
    case True
    with below lt have "co_close_range process_os 3 (?fd - 1) c = (Inr u, c1)" by simp
    moreover have "(\<lambda>fd. if 3 \<le> fd \<and> fd \<le> preserve - 1 then None else pr_fds c fd)
        = (\<lambda>fd. if 3 \<le> fd \<and> fd < preserve then None else pr_fds c fd)"
      using True by (intro ext) auto
    ultimately show ?thesis using close_range_Inr [of 3 "?fd - 1" c u c1] unfolding pred by auto
  next
    case False
    with below lt assms(2) have "c1 = c" "preserve = 3" by auto
    moreover have "(\<lambda>fd. if 3 \<le> fd \<and> fd < 3 then None else pr_fds c fd) = pr_fds c" by (intro ext) auto
    ultimately show ?thesis by (simp add: exI [of _ "pr_calls c"])
  qed
  from above close_range_Inr have d: "d = c1\<lparr>pr_fds := (\<lambda>fd. if preserve + 1 \<le> fd \<and> fd \<le> 2 ^ 32 - 1 then None else pr_fds c1 fd),
      pr_calls := pr_calls c1 + 1\<rparr>"
    unfolding top [symmetric] all [symmetric] by blast
  from one obtain n where c1: "c1 = c\<lparr>pr_fds := (\<lambda>fd. if 3 \<le> fd \<and> fd < preserve then None else pr_fds c fd), pr_calls := n\<rparr>" by blast
  have "(\<lambda>fd. if preserve + 1 \<le> fd \<and> fd \<le> 2 ^ 32 - 1 then None else pr_fds c1 fd)
      = (\<lambda>fd. if fd < 3 \<or> fd = preserve then pr_fds c fd else None)"
  proof
    fix fd
    have "preserve < fd \<and> \<not> fd \<le> 2 ^ 32 - 1 \<Longrightarrow> pr_fds c fd = None" using assms(4) [of fd] by simp
    then show "(if preserve + 1 \<le> fd \<and> fd \<le> 2 ^ 32 - 1 then None else pr_fds c1 fd)
        = (if fd < 3 \<or> fd = preserve then pr_fds c fd else None)"
      using assms(2) by (auto simp: c1 not_less)
  qed
  with d show ?thesis by (auto simp: c1)
qed

lemma descriptors_trans:
  "\<exists>n. d = c\<lparr>pr_fds := F, pr_calls := n\<rparr> \<Longrightarrow> \<exists>n. e = d\<lparr>pr_fds := G, pr_calls := n\<rparr> \<Longrightarrow>
   \<exists>n. e = c\<lparr>pr_fds := G, pr_calls := n\<rparr>" for c d e :: process
  by auto

lemma standard_descriptors:
  assumes "connect_standard process_os plan c = (Inr x, d)"
    and "3 \<le> cp_stdout plan" and "3 \<le> cp_stderr plan"
    and "pr_fds c (cp_stdin plan) = Some (fin, a)" "pr_fds c (cp_stdout plan) = Some (fout, b)"
    "pr_fds c (cp_stderr plan) = Some (ferr, f)"
  shows "\<exists>n. d = c\<lparr>pr_fds := (pr_fds c)(0 \<mapsto> (fin, False), 1 \<mapsto> (fout, False), 2 \<mapsto> (ferr, False)), pr_calls := n\<rparr>"
proof -
  from assms(1) obtain c1 c2 c3 c4 c5 y1 y2 y3 y4 y5 where
    calls: "co_dup2 process_os (cp_stdin plan) 0 c = (Inr y1, c1)" "co_dup2 process_os (cp_stdout plan) 1 c1 = (Inr y2, c2)"
    "co_dup2 process_os (cp_stderr plan) 2 c2 = (Inr y3, c3)" "co_clear_cloexec process_os 0 c3 = (Inr y4, c4)"
    "co_clear_cloexec process_os 1 c4 = (Inr y5, c5)" "co_clear_cloexec process_os 2 c5 = (Inr x, d)"
    by (auto simp: connect_standard_def act_bind_Inr step_Inr)
  have one: "pr_fds c1 0 = Some (fin, if cp_stdin plan = 0 then a else False)" "\<And>fd. fd \<noteq> 0 \<Longrightarrow> pr_fds c1 fd = pr_fds c fd"
    "\<exists>n. c1 = c\<lparr>pr_fds := pr_fds c1, pr_calls := n\<rparr>"
    using dup2_Inr [OF calls(1)] assms(4) by (auto split: if_splits)
  have two: "pr_fds c2 = (pr_fds c1)(1 \<mapsto> (fout, False))" "\<exists>n. c2 = c1\<lparr>pr_fds := pr_fds c2, pr_calls := n\<rparr>"
    using dup2_Inr [OF calls(2)] assms(2,5) one(2) [of "cp_stdout plan"] by auto
  have three: "pr_fds c3 = (pr_fds c2)(2 \<mapsto> (ferr, False))" "\<exists>n. c3 = c2\<lparr>pr_fds := pr_fds c3, pr_calls := n\<rparr>"
    using dup2_Inr [OF calls(3)] assms(3,6) one(2) [of "cp_stderr plan"] two(1) by auto
  have four: "pr_fds c4 = (pr_fds c3)(0 \<mapsto> (fin, False))" "\<exists>n. c4 = c3\<lparr>pr_fds := pr_fds c4, pr_calls := n\<rparr>"
    using clear_cloexec_Inr [OF calls(4)] one(1) two(1) three(1) by auto
  have five: "pr_fds c5 = (pr_fds c4)(1 \<mapsto> (fout, False))" "\<exists>n. c5 = c4\<lparr>pr_fds := pr_fds c5, pr_calls := n\<rparr>"
    using clear_cloexec_Inr [OF calls(5)] two(1) three(1) four(1) by auto
  have six: "pr_fds d = (pr_fds c5)(2 \<mapsto> (ferr, False))" "\<exists>n. d = c5\<lparr>pr_fds := pr_fds d, pr_calls := n\<rparr>"
    using clear_cloexec_Inr [OF calls(6)] three(1) four(1) five(1) by auto
  have "pr_fds d = (pr_fds c)(0 \<mapsto> (fin, False), 1 \<mapsto> (fout, False), 2 \<mapsto> (ferr, False))"
    by (rule ext) (auto simp: six(1) five(1) four(1) three(1) two(1) one(2))
  moreover have "\<exists>n. d = c\<lparr>pr_fds := pr_fds d, pr_calls := n\<rparr>"
    using descriptors_trans [OF descriptors_trans [OF descriptors_trans [OF descriptors_trans [OF descriptors_trans
      [OF one(3) two(2)] three(2)] four(2)] five(2)] six(2)] .
  ultimately show ?thesis by auto
qed


definition confined :: "child_plan \<Rightarrow> process \<Rightarrow> bool" where
  "confined plan d \<longleftrightarrow> pr_root d = cp_root plan \<and> pr_cwd d = cp_working plan \<and> pr_groups d = [] \<and> pr_no_new_privs d
     \<and> pr_uid d = cp_uid plan \<and> pr_gid d = cp_gid plan \<and> pr_sigpipe_default d
     \<and> pr_image d = Some (cp_executable plan, cp_arguments plan, cp_environment plan)"

lemma drop_inherited_Inr:
  "drop_inherited os plan c = (Inr x, d) \<Longrightarrow> close_inherited_descriptors os (cp_error_write plan) c = (True, d)"
  unfolding drop_inherited_def Let_def by (cases "close_inherited_descriptors os (cp_error_write plan) c") (auto split: if_splits)

lemma credentials_applied:
  assumes "enter_workload process_os plan c = (Inr x, d)"
  shows "confined plan d \<and> pr_own_group d = pr_own_group c
    \<and> pr_fds d = (\<lambda>fd. case pr_fds c fd of Some (file, False) \<Rightarrow> Some (file, False) | _ \<Rightarrow> None)"
  using assms by (auto simp: enter_workload_def process_calls confined_def split: if_splits)

text \<open>
  C18. A child that reaches the workload's program runs it with the workload's root, working
  directory, credentials, no supplementary groups, no new privileges and the default \<open>SIGPIPE\<close>,
  and with exactly three open descriptors, the pipes as its standard input, output and error. This
  holds wherever the pipes landed, whatever else was open, and although a pipe that already is a
  standard descriptor keeps its close-on-exec flag through \<open>dup2\<close>.
\<close>

theorem child_confined:
  assumes "child_main process_os scope plan c = (Inr x, d)"
    and "pr_fds c (cp_stdin plan) = Some (fin, a)" "pr_fds c (cp_stdout plan) = Some (fout, b)"
      "pr_fds c (cp_stderr plan) = Some (ferr, f)" "pr_fds c (cp_error_write plan) = Some (fsetup, True)"
    and "3 \<le> cp_stdout plan" "3 \<le> cp_stderr plan" "3 \<le> cp_error_write plan" "cp_error_write plan < 2 ^ 31"
    and "\<And>fd. 2 ^ 32 \<le> fd \<Longrightarrow> pr_fds c fd = None"
  shows "pr_root d = cp_root plan \<and> pr_cwd d = cp_working plan \<and> pr_groups d = [] \<and> pr_no_new_privs d
    \<and> pr_uid d = cp_uid plan \<and> pr_gid d = cp_gid plan \<and> pr_sigpipe_default d
    \<and> pr_image d = Some (cp_executable plan, cp_arguments plan, cp_environment plan)
    \<and> pr_fds d = [0 \<mapsto> (fin, False), 1 \<mapsto> (fout, False), 2 \<mapsto> (ferr, False)]
    \<and> (scope = ProcessGroup \<longrightarrow> pr_own_group d)"
proof -
  from assms(1) obtain c0 y where group: "(if scope = ProcessGroup then step GROUP (co_setpgid process_os) else act_return ()) c = (Inr y, c0)"
    and run: "child_exec process_os plan c0 = (Inr x, d)"
    by (auto simp: child_main_def act_bind_Inr)
  have c0: "pr_fds c0 = pr_fds c" "scope = ProcessGroup \<longrightarrow> pr_own_group c0"
    using group by (auto simp: process_calls split: if_splits)
  from run obtain c1 c2 u where standard: "connect_standard process_os plan c0 = (Inr u, c1)"
    and closed: "close_inherited_descriptors process_os (cp_error_write plan) c1 = (True, c2)"
    and rest: "enter_workload process_os plan c2 = (Inr x, d)"
    unfolding child_exec_def act_bind_Inr by (auto dest: drop_inherited_Inr)
  from standard_descriptors [OF standard assms(6,7)] assms(2-4) obtain n where
    c1: "c1 = c0\<lparr>pr_fds := (pr_fds c)(0 \<mapsto> (fin, False), 1 \<mapsto> (fout, False), 2 \<mapsto> (ferr, False)), pr_calls := n\<rparr>"
    unfolding c0 by blast
  from close_inherited_closes [OF closed assms(8,9)] assms(10) obtain n' where
    c2: "c2 = c1\<lparr>pr_fds := (\<lambda>fd. if fd < 3 \<or> fd = cp_error_write plan then pr_fds c1 fd else None), pr_calls := n'\<rparr>"
    by (auto simp: c1)
  note applied = credentials_applied [OF rest]
  have "pr_fds d = [0 \<mapsto> (fin, False), 1 \<mapsto> (fout, False), 2 \<mapsto> (ferr, False)]"
  proof
    fix fd :: nat
    consider "fd = 0" | "fd = 1" | "fd = 2" | "3 \<le> fd" by linarith
    then show "pr_fds d fd = [0 \<mapsto> (fin, False), 1 \<mapsto> (fout, False), 2 \<mapsto> (ferr, False)] fd"
      by cases (use applied assms(5,8) in \<open>auto simp: c1 c2 split: option.splits\<close>)
  qed
  with applied c0(2) show ?thesis by (simp add: confined_def c1 c2)
qed


definition sample_plan :: child_plan where
  "sample_plan = \<lparr>cp_stdin = 0, cp_stdout = 5, cp_stderr = 7, cp_error_write = 9, cp_root = ''/run/simferret/invocation-1'',
     cp_working = ''/'', cp_executable = ''/bin/app'', cp_arguments = [''/bin/app''], cp_environment = [],
     cp_uid = 65532, cp_gid = 65532\<rparr>"

definition sample_process :: process where
  "sample_process = \<lparr>pr_fds = (\<lambda>fd. if fd \<le> 12 then Some (100 + fd, True) else None), pr_root = ''/'', pr_cwd = ''/'',
     pr_groups = [0, 1], pr_no_new_privs = False, pr_uid = 0, pr_gid = 0, pr_own_group = False, pr_sigpipe_default = False,
     pr_image = None, pr_calls = 0, pr_fault = (\<lambda>_. False)\<rparr>"

theorem child_confined_witness:
  "fst (child_main process_os Guest sample_plan sample_process) = Inr ()
     \<and> pr_fds (snd (child_main process_os Guest sample_plan sample_process))
         = [0 \<mapsto> (100, False), 1 \<mapsto> (105, False), 2 \<mapsto> (107, False)]"
proof
  show run: "fst (child_main process_os Guest sample_plan sample_process) = Inr ()" by code_simp
  let ?d = "snd (child_main process_os Guest sample_plan sample_process)"
  have "child_main process_os Guest sample_plan sample_process = (Inr (), ?d)" using run by (metis prod.collapse)
  from child_confined [OF this, of 100 True 105 True 107 True 109]
  show "pr_fds ?d = [0 \<mapsto> (100, False), 1 \<mapsto> (105, False), 2 \<mapsto> (107, False)]"
    by (simp add: sample_plan_def sample_process_def)
qed

end
