(* ===== verification/Runtime.thy ===== *)
theory Runtime
  imports Guest_Root Guest_Child
begin

text \<open>
  The guest process runtime of \<open>runtime.rs\<close>: at most one invocation, started from a fresh root,
  fed, drained, terminated and cleaned up behind the operations the agent calls. The state is the
  runtime with the guest's file system and the guest's processes; an operation that fails keeps
  the changes made before its error. The lemmas: the invariant of every operation, the barrier
  before a slot is released, and the agent's interface provided by these operations.
\<close>

section \<open>State\<close>

record RuntimeConfig =
  rc_template :: "template option"
  rc_runtime_root :: path
  rc_limits :: RuntimeLimits
  rc_scope :: MemberScope

record Runtime =
  rn_config :: RuntimeConfig
  rn_active :: "Invocation option"
  rn_last_invocation :: "nat option"
  rn_pending_removal :: "path option"

record 'w guest =
  gu_runtime :: Runtime
  gu_fs :: file_system
  gu_world :: 'w

text \<open>The environment: the processes' calls, the birth of a process, and the texts of errors of other modules.\<close>

record 'w runtime_env =
  re_os :: "'w guest_os"
  re_spawn :: "'w spawn_os"
  re_spec_text :: "spec_error \<Rightarrow> string"
  re_frame_error :: "frame_error \<Rightarrow> os_error"

type_synonym ('w, 'a) running = "('w guest, rt_error, 'a) action"

definition update_runtime :: "(Runtime \<Rightarrow> Runtime) \<Rightarrow> 'w guest \<Rightarrow> 'w guest" where
  "update_runtime f g = g\<lparr>gu_runtime := f (gu_runtime g)\<rparr>"

definition set_active :: "Invocation option \<Rightarrow> 'w guest \<Rightarrow> 'w guest" where
  "set_active active = update_runtime (\<lambda>r. r\<lparr>rn_active := active\<rparr>)"

definition limits_of :: "'w guest \<Rightarrow> RuntimeLimits" where
  "limits_of g = rc_limits (rn_config (gu_runtime g))"

definition scope_of :: "'w guest \<Rightarrow> MemberScope" where
  "scope_of g = rc_scope (rn_config (gu_runtime g))"

text \<open>A service on the active invocation: the events it pushed and the invocation it leaves.\<close>

definition serve :: "Invocation \<Rightarrow> ('w, 'a) servicing \<Rightarrow> ('w, 'a \<times> Event list) running" where
  "serve iv a = (\<lambda>g.
     let (r, s) = a \<lparr>se_active = iv, se_events = [], se_world = gu_world g\<rparr>
     in (case r of Inl e \<Rightarrow> Inl e | Inr x \<Rightarrow> Inr (x, se_events s),
         (set_active (Some (se_active s)) g)\<lparr>gu_world := se_world s\<rparr>))"

definition on_kernel :: "('w, 'a) kernel \<Rightarrow> ('w, 'a) running" where
  "on_kernel a = (\<lambda>g. let (r, w) = a (gu_world g) in (r, g\<lparr>gu_world := w\<rparr>))"

definition try_fs :: "'a fs_action \<Rightarrow> ('w guest, 'e, os_error + 'a) action" where
  "try_fs a = (\<lambda>g. let (r, f) = a (gu_fs g) in (Inr r, g\<lparr>gu_fs := f\<rparr>))"

section \<open>Construction\<close>

definition Runtime_new :: "'w runtime_env \<Rightarrow> RuntimeConfig \<Rightarrow> (file_system, rt_error, Runtime) action" where
  "Runtime_new env config =
     act_bind (act_lift (map_err Io (validate_limits (rc_limits config)))) (\<lambda>_.
     if rc_scope config = Guest \<and> os_pid (re_os env) \<noteq> 1
     then act_fail (Io (invalid ''the guest-wide cleanup scope requires the agent to be PID 1''))
     else act_bind (validate_template (rc_template config) (rc_limits config)) (\<lambda>_.
       act_return \<lparr>rn_config = config, rn_active = None, rn_last_invocation = None, rn_pending_removal = None\<rparr>))"

definition is_active :: "Runtime \<Rightarrow> bool" where
  "is_active r \<longleftrightarrow> rn_active r \<noteq> None"

definition output_fds :: "Runtime \<Rightarrow> int list" where
  "output_fds r = (case rn_active r of None \<Rightarrow> [] | Some iv \<Rightarrow> poll_descriptors iv)"

definition input_fd :: "Runtime \<Rightarrow> int option" where
  "input_fd r = (case rn_active r of None \<Rightarrow> None | Some iv \<Rightarrow> if iv_pending_input iv = [] then None else iv_stdin iv)"

section \<open>Start\<close>

text \<open>A start that is refused with a typed failure, or that never returns.\<close>

datatype start_error = Refused LaunchFailure string | StartHung

type_synonym ('w, 'a) starting = "('w guest, start_error, 'a) action"

definition refuse_with :: "(os_error \<Rightarrow> LaunchFailure \<times> string) \<Rightarrow> os_error + 'a \<Rightarrow> ('w, 'a) starting" where
  "refuse_with f r = (case r of Inl e \<Rightarrow> act_fail (case f e of (failure, detail) \<Rightarrow> Refused failure detail) | Inr x \<Rightarrow> act_return x)"

definition retry_removal :: "('w, unit) starting" where
  "retry_removal =
     act_bind act_get (\<lambda>g.
     case rn_pending_removal (gu_runtime g) of
       None \<Rightarrow> act_return ()
     | Some path \<Rightarrow>
         act_bind (try_fs (remove_dir_all path)) (\<lambda>removed.
         case removed of
           Inr _ \<Rightarrow> act_modify (update_runtime (\<lambda>r. r\<lparr>rn_pending_removal := None\<rparr>))
         | Inl e \<Rightarrow>
             if oe_kind e = NotFound then act_modify (update_runtime (\<lambda>r. r\<lparr>rn_pending_removal := None\<rparr>))
             else act_fail (Refused Materialization
               (''the previous invocation root '' @ show_path path @ '' could not be removed: '' @ oe_text e))))"

definition accept_identifier :: "nat \<Rightarrow> ('w, unit) starting" where
  "accept_identifier invocation =
     act_bind act_get (\<lambda>g.
     if rn_active (gu_runtime g) \<noteq> None then act_fail (Refused InvocationActive ''an invocation is already active'')
     else (case rn_last_invocation (gu_runtime g) of
         Some last_invocation \<Rightarrow>
           if invocation \<le> last_invocation
           then act_fail (Refused InvocationRepeated
             (''invocation '' @ dec invocation @ '' is not greater than the last accepted invocation '' @ dec last_invocation))
           else act_modify (update_runtime (\<lambda>r. r\<lparr>rn_last_invocation := Some invocation\<rparr>))
       | None \<Rightarrow> act_modify (update_runtime (\<lambda>r. r\<lparr>rn_last_invocation := Some invocation\<rparr>))))"

definition create_dir_all :: "path \<Rightarrow> unit fs_action" where
  "create_dir_all p =
     act_each (\<lambda>k s. case fs_nodes s (take k p) of
         Some n \<Rightarrow> (if is_dir n then Inr () else Inl already_exists, s)
       | None \<Rightarrow> create_dir (take k p) s) [1..<length p + 1]"

definition create_private_directory :: "path \<Rightarrow> unit fs_action" where
  "create_private_directory p =
     act_bind (create_dir_all p) (\<lambda>_.
     act_bind (symlink_metadata p) (\<lambda>_.
     chmod p 0x1c0))"

definition invocation_root :: "'w guest \<Rightarrow> nat \<Rightarrow> path" where
  "invocation_root g invocation = rc_runtime_root (rn_config (gu_runtime g)) @ [''invocation-'' @ dec invocation]"

text \<open>\<open>RootGuard::remove\<close>: a root that is already gone is removed.\<close>

definition RootGuard_remove :: "path \<Rightarrow> unit fs_action" where
  "RootGuard_remove path = (\<lambda>s.
     case remove_dir_all path s of
       (Inr _, t) \<Rightarrow> (Inr (), t)
     | (Inl e, t) \<Rightarrow>
         if oe_kind e = NotFound then (Inr (), t)
         else (Inl (invalid (''cannot remove the invocation root '' @ show_path path @ '': '' @ oe_text e)), t))"

definition discard_failed_root :: "path \<Rightarrow> LaunchFailure \<Rightarrow> string \<Rightarrow> ('w, 'a) starting" where
  "discard_failed_root path failure detail =
     act_bind (try_fs (RootGuard_remove path)) (\<lambda>removed.
     case removed of
       Inr _ \<Rightarrow> act_fail (Refused failure detail)
     | Inl e \<Rightarrow>
         act_bind (act_modify (update_runtime (\<lambda>r. r\<lparr>rn_pending_removal := Some path\<rparr>))) (\<lambda>_.
         act_fail (Refused failure (detail @ ''; '' @ oe_text e))))"

definition Invocation_new :: "nat \<Rightarrow> path \<Rightarrow> Spawned \<Rightarrow> Invocation" where
  "Invocation_new invocation path spawned =
     \<lparr>iv_id = invocation, iv_root = \<lparr>rg_path = path, rg_removed = False\<rparr>, iv_pid = sp_pid spawned,
      iv_stdin = Some (sp_stdin spawned), iv_stdout = Some (sp_stdout spawned), iv_stderr = Some (sp_stderr spawned),
      iv_stdout_state = StreamState_new, iv_stderr_state = StreamState_new, iv_input_offset = 0, iv_input_bytes = 0,
      iv_pending_input = [], iv_eof_requested = False, iv_terminating = False, iv_sequence = 0, iv_frames = 0,
      iv_exit = None, iv_reaped = 0, iv_cleanup_complete = False\<rparr>"

text \<open>The fresh root of an accepted start, and the process in it; every failure discards the root.\<close>

definition fresh_root :: "nat \<Rightarrow> ('w, path) starting" where
  "fresh_root invocation =
     act_bind act_get (\<lambda>g.
     act_bind (try_fs (create_private_directory (rc_runtime_root (rn_config (gu_runtime g))))) (\<lambda>created.
     act_bind (refuse_with (\<lambda>e. (Materialization, ''cannot create the runtime root: '' @ oe_text e)) created) (\<lambda>_.
     let path = invocation_root g invocation in
     act_bind (try_fs (path_exists path)) (\<lambda>there.
     if there = Inr True
     then act_fail (Refused InvocationRepeated (''invocation root '' @ show_path path @ '' already exists''))
     else act_bind (try_fs (create_dir path)) (\<lambda>made.
       act_bind (refuse_with (\<lambda>e. (Materialization, oe_text e)) made) (\<lambda>_. act_return path))))))"

definition populate_root :: "path \<Rightarrow> LaunchIdentity \<Rightarrow> ('w, unit) starting" where
  "populate_root path launch =
     act_bind act_get (\<lambda>g.
     case rc_template (rn_config (gu_runtime g)) of
       None \<Rightarrow> discard_failed_root path Materialization (''cannot inspect the workload template: '' @ oe_text not_found)
     | Some node \<Rightarrow>
         act_bind (try_fs (materialize_into node path (limits_of g))) (\<lambda>materialized.
         case materialized of
           Inl e \<Rightarrow> discard_failed_root path Materialization (oe_text e)
         | Inr _ \<Rightarrow>
             act_bind (\<lambda>g. let (r, f) = verify_launch_target path launch (gu_fs g) in (Inr r, g\<lparr>gu_fs := f\<rparr>)) (\<lambda>verified.
             case verified of
               Inl (failure, detail) \<Rightarrow> discard_failed_root path failure detail
             | Inr _ \<Rightarrow> act_return ())))"

definition spawn_in :: "'w runtime_env \<Rightarrow> path \<Rightarrow> LaunchIdentity \<Rightarrow> ('w, Spawned) starting" where
  "spawn_in env path launch =
     act_bind act_get (\<lambda>g.
     act_bind (\<lambda>g. case spawn (re_os env) (re_spawn env) (show_path path) launch (scope_of g) (gu_world g) of
         (Inl _, w) \<Rightarrow> (Inl StartHung, g\<lparr>gu_world := w\<rparr>)
       | (Inr r, w) \<Rightarrow> (Inr r, g\<lparr>gu_world := w\<rparr>)) (\<lambda>spawned.
     case spawned of
       Inl (failure, detail) \<Rightarrow> discard_failed_root path failure detail
     | Inr child \<Rightarrow> act_return child))"

text \<open>What follows an accepted identifier, up to the running process.\<close>

definition prepare_launch :: "'w runtime_env \<Rightarrow> nat \<Rightarrow> LaunchIdentity \<Rightarrow> ('w, path \<times> Spawned) starting" where
  "prepare_launch env invocation launch =
     act_bind (act_lift (map_err (\<lambda>e. Refused Executable (re_spec_text env e)) (validate_launch_identity launch))) (\<lambda>_.
     act_bind (fresh_root invocation) (\<lambda>path.
     act_bind (populate_root path launch) (\<lambda>_.
     act_bind (spawn_in env path launch) (\<lambda>child. act_return (path, child)))))"

definition start_inner :: "'w runtime_env \<Rightarrow> nat \<Rightarrow> LaunchIdentity \<Rightarrow> ('w, Event) starting" where
  "start_inner env invocation launch =
     act_bind retry_removal (\<lambda>_.
     act_bind (accept_identifier invocation) (\<lambda>_.
     act_bind (prepare_launch env invocation launch) (\<lambda>(path, child).
     act_bind (act_modify (set_active (Some (Invocation_new invocation path child)))) (\<lambda>_.
     act_return (WorkloadStarted invocation launch)))))"

definition start :: "'w runtime_env \<Rightarrow> nat \<Rightarrow> LaunchIdentity \<Rightarrow> ('w, Event list) running" where
  "start env invocation launch = (\<lambda>g.
     case start_inner env invocation launch g of
       (Inr e, g) \<Rightarrow> (Inr [e], g)
     | (Inl (Refused failure detail), g) \<Rightarrow> (Inr [LaunchFailed invocation failure detail], g)
     | (Inl StartHung, g) \<Rightarrow> (Inl Hung, g))"

section \<open>The running invocation\<close>

definition invocation_mut :: "nat \<Rightarrow> ('w, Invocation) running" where
  "invocation_mut invocation =
     act_bind act_get (\<lambda>g.
     case rn_active (gu_runtime g) of
       Some iv \<Rightarrow>
         if iv_id iv = invocation then act_return iv
         else act_fail (Io (io_error_new InvalidInput
           (''invocation '' @ dec invocation @ '' does not match the active invocation '' @ dec (iv_id iv))))
     | None \<Rightarrow> act_fail (Io (io_error_new InvalidInput (''invocation '' @ dec invocation @ '' is not active''))))"

text \<open>A fatal error kills the invocation it names, if that is the one running, and is the error.\<close>

definition fatal :: "'w runtime_env \<Rightarrow> nat \<Rightarrow> os_error \<Rightarrow> ('w, 'a) running" where
  "fatal env invocation e = (\<lambda>g.
     (Inl (Io e),
      case rn_active (gu_runtime g) of
        Some iv \<Rightarrow>
          if iv_id iv = invocation \<and> iv_exit iv = None
          then snd (on_kernel (signal_members (re_os env) (iv_pid iv) (scope_of g) TERMINATION_SIGNAL) g)
          else g
      | None \<Rightarrow> g))"

definition stdin_closed :: "Invocation \<Rightarrow> bool" where
  "stdin_closed iv \<longleftrightarrow> iv_terminating iv \<or> iv_eof_requested iv \<or> iv_stdin iv = None"

definition queue_input :: "bytes \<Rightarrow> Invocation \<Rightarrow> Invocation" where
  "queue_input bs iv = iv\<lparr>iv_input_offset := iv_input_offset iv + length bs, iv_input_bytes := iv_input_bytes iv + length bs,
     iv_pending_input := iv_pending_input iv @ bs\<rparr>"

text \<open>A flush whose error is fatal, with the text the operation gives it.\<close>

definition flush_or_die :: "'w runtime_env \<Rightarrow> nat \<Rightarrow> string \<Rightarrow> Invocation \<Rightarrow> ('w, unit) running" where
  "flush_or_die env invocation message iv = (\<lambda>g.
     case serve iv (flush_input (re_os env)) g of
       (Inl (Io e), g) \<Rightarrow> fatal env invocation (prefixed message e) g
     | (Inl Hung, g) \<Rightarrow> (Inl Hung, g)
     | (Inr _, g) \<Rightarrow> (Inr (), g))"

definition stdin_write :: "'w runtime_env \<Rightarrow> nat \<Rightarrow> nat \<Rightarrow> string \<Rightarrow> ('w, Event list) running" where
  "stdin_write env invocation offset bytes =
     act_bind act_get (\<lambda>g.
     case decode_bytes bytes (rl_input_frame_bytes (limits_of g)) of
       Inl e \<Rightarrow> fatal env invocation (re_frame_error env e)
     | Inr content \<Rightarrow>
         if content = [] then fatal env invocation (io_error_new InvalidData ''a stdin frame must not be empty'')
         else act_bind (invocation_mut invocation) (\<lambda>iv.
           if stdin_closed iv then fatal env invocation (io_error_new InvalidInput ''workload stdin is closed'')
           else if iv_input_offset iv \<noteq> offset
           then fatal env invocation (io_error_new InvalidData
             (''stdin offset '' @ dec offset @ '' is not contiguous with '' @ dec (iv_input_offset iv)))
           else if saturating_add (iv_input_bytes iv) (length content) > rl_input_bytes (limits_of g)
           then fatal env invocation (io_error_new InvalidData ''invocation input exceeds the configured bound'')
           else act_bind (flush_or_die env invocation ''cannot write workload input'' (queue_input content iv)) (\<lambda>_.
             act_return [InputAccepted invocation (iv_input_offset iv + length content) (length content) False])))"

definition stdin_eof :: "'w runtime_env \<Rightarrow> nat \<Rightarrow> ('w, Event list) running" where
  "stdin_eof env invocation =
     act_bind (invocation_mut invocation) (\<lambda>iv.
     if iv_terminating iv then act_fail (Io (io_error_new InvalidInput ''the invocation is being terminated''))
     else if iv_eof_requested iv then act_fail (Io (io_error_new InvalidInput ''end of input was already requested''))
     else act_bind (flush_or_die env invocation ''cannot flush workload input'' (iv\<lparr>iv_eof_requested := True\<rparr>)) (\<lambda>_.
       act_return [InputAccepted invocation (iv_input_offset iv) 0 True]))"

definition terminate :: "'w runtime_env \<Rightarrow> nat \<Rightarrow> ('w, Event list) running" where
  "terminate env invocation =
     act_bind (invocation_mut invocation) (\<lambda>iv.
     if iv_exit iv \<noteq> None then act_fail (Io (io_error_new InvalidInput ''the invocation has already exited''))
     else
       act_bind act_get (\<lambda>g.
       act_bind (act_modify (set_active (Some (iv\<lparr>iv_terminating := True\<rparr>)))) (\<lambda>_.
       act_bind (on_kernel (signal_members (re_os env) (iv_pid iv) (scope_of g) TERMINATION_SIGNAL)) (\<lambda>_.
       act_bind (act_modify (set_active (Some (iv\<lparr>iv_terminating := True, iv_pending_input := [], iv_stdin := None\<rparr>)))) (\<lambda>_.
       act_bind (act_modify (\<lambda>g. g\<lparr>gu_world := drop_fd (re_os env) (iv_stdin iv) (gu_world g)\<rparr>)) (\<lambda>_.
       act_return [TerminationRequested invocation TERMINATION_SIGNAL]))))))"

definition poll_service :: "'w runtime_env \<Rightarrow> MemberScope \<Rightarrow> RuntimeLimits \<Rightarrow> nat \<Rightarrow> ('w, unit) servicing" where
  "poll_service env scope limits timeout =
     act_bind act_get (\<lambda>s.
     act_bind (if iv_exit (se_active s) = None then count_reaped (re_os env) scope else act_return ()) (\<lambda>_.
     act_bind act_get (\<lambda>s.
     act_bind (if iv_exit (se_active s) = None
       then act_bind (flush_input (re_os env)) (\<lambda>_.
            act_bind (drain_ready (re_os env) limits timeout) (\<lambda>_. count_reaped (re_os env) scope))
       else act_return ()) (\<lambda>_.
     act_bind act_get (\<lambda>s.
     if iv_exit (se_active s) \<noteq> None \<and> \<not> iv_cleanup_complete (se_active s)
     then cleanup (re_os env) scope limits else act_return ())))))"

text \<open>\<open>release_root\<close> of the active invocation and the end of it.\<close>

definition release :: "Invocation \<Rightarrow> ('w, unit) running" where
  "release iv =
     act_bind (try_fs (RootGuard_remove (rg_path (iv_root iv)))) (\<lambda>removed.
     act_bind (act_modify (set_active (Some (iv\<lparr>iv_root := (iv_root iv)\<lparr>rg_removed := True\<rparr>\<rparr>)))) (\<lambda>_.
     act_bind (act_lift (map_err Io removed)) (\<lambda>_.
     act_modify (set_active None))))"

definition poll :: "'w runtime_env \<Rightarrow> nat \<Rightarrow> ('w, Event list) running" where
  "poll env timeout =
     act_bind act_get (\<lambda>g.
     case rn_active (gu_runtime g) of
       None \<Rightarrow> act_return []
     | Some iv \<Rightarrow>
         act_bind (serve iv (poll_service env (scope_of g) (limits_of g) timeout)) (\<lambda>(_, events).
         act_bind act_get (\<lambda>g.
         case rn_active (gu_runtime g) of
           Some iv \<Rightarrow>
             if iv_cleanup_complete iv then act_bind (release iv) (\<lambda>_. act_return events) else act_return events
         | None \<Rightarrow> act_return events)))"

definition shutdown_service :: "'w runtime_env \<Rightarrow> MemberScope \<Rightarrow> RuntimeLimits \<Rightarrow> ('w, unit) servicing" where
  "shutdown_service env scope limits =
     act_bind act_get (\<lambda>s.
     act_bind (if iv_exit (se_active s) = None
       then lifted (signal_members (re_os env) (iv_pid (se_active s)) scope TERMINATION_SIGNAL) else act_return ()) (\<lambda>_.
     cleanup (re_os env) scope limits))"

definition shutdown :: "'w runtime_env \<Rightarrow> ('w, Event list) running" where
  "shutdown env =
     act_bind act_get (\<lambda>g.
     case rn_active (gu_runtime g) of
       None \<Rightarrow> act_return []
     | Some iv \<Rightarrow>
         act_bind (serve iv (shutdown_service env (scope_of g) (limits_of g))) (\<lambda>(_, events).
         act_bind act_get (\<lambda>g.
         case rn_active (gu_runtime g) of
           Some iv \<Rightarrow> act_bind (release iv) (\<lambda>_. act_return events)
         | None \<Rightarrow> act_return events)))"

text \<open>Dropping the runtime: like a shutdown, with every error ignored and the root removed at last.\<close>

definition Runtime_drop :: "'w runtime_env \<Rightarrow> 'w guest \<Rightarrow> 'w guest" where
  "Runtime_drop env g =
     (case rn_active (gu_runtime g) of
        None \<Rightarrow> g
      | Some iv \<Rightarrow>
          let g = (if iv_exit iv = None
                   then snd (on_kernel (signal_members (re_os env) (iv_pid iv) (scope_of g) TERMINATION_SIGNAL) g) else g);
              g = snd (serve iv (cleanup (re_os env) (scope_of g) (limits_of g)) g)
          in (case rn_active (gu_runtime g) of
                None \<Rightarrow> g
              | Some iv \<Rightarrow>
                  let g = (if rg_removed (iv_root iv) then g
                           else g\<lparr>gu_fs := snd (remove_dir_all (rg_path (iv_root iv)) (gu_fs g))\<rparr>)
                  in set_active None g))"

section \<open>The contract of the runtime\<close>

text \<open>
  What the runtime promises of its events, without pipes, processes or files: one live invocation
  at a time under strictly increasing identifiers, output frames in one numbered sequence that
  continue their stream without a gap, contiguous input until its end or the termination, an exit
  record that accounts for every byte of both streams, and the end of the cleanup after it.
\<close>

record live_state =
  lv_id :: nat
  lv_out :: "OutputStream \<Rightarrow> bytes"
  lv_frames :: nat
  lv_input :: nat
  lv_eof :: bool
  lv_terminating :: bool
  lv_exited :: bool

record session =
  sn_last :: "nat option"
  sn_live :: "live_state option"

definition live_new :: "nat \<Rightarrow> live_state" where
  "live_new i = \<lparr>lv_id = i, lv_out = (\<lambda>_. []), lv_frames = 0, lv_input = 0, lv_eof = False, lv_terminating = False,
     lv_exited = False\<rparr>"

definition newer :: "nat \<Rightarrow> nat option \<Rightarrow> bool" where
  "newer i previous = (case previous of None \<Rightarrow> True | Some l \<Rightarrow> l < i)"

inductive session_step :: "(bytes \<Rightarrow> bytes) \<Rightarrow> RuntimeLimits \<Rightarrow> session \<Rightarrow> Event \<Rightarrow> session \<Rightarrow> bool"
  for sha256 :: "bytes \<Rightarrow> bytes" and limits :: RuntimeLimits where
  se_started: "sn_live s = None \<Longrightarrow> newer i (sn_last s) \<Longrightarrow>
    session_step sha256 limits s (WorkloadStarted i l) \<lparr>sn_last = Some i, sn_live = Some (live_new i)\<rparr>"
| se_refused: "session_step sha256 limits s (LaunchFailed i failure detail) s"
| se_spoiled: "sn_live s = None \<Longrightarrow> newer i (sn_last s) \<Longrightarrow>
    session_step sha256 limits s (LaunchFailed i failure detail) (s\<lparr>sn_last := Some i\<rparr>)"
| se_input: "sn_live s = Some v \<Longrightarrow> \<not> lv_eof v \<Longrightarrow> \<not> lv_terminating v \<Longrightarrow> \<not> lv_exited v \<Longrightarrow> 0 < n \<Longrightarrow>
    lv_input v + n \<le> rl_input_bytes limits \<Longrightarrow>
    session_step sha256 limits s (InputAccepted (lv_id v) (lv_input v + n) n False)
      (s\<lparr>sn_live := Some (v\<lparr>lv_input := lv_input v + n\<rparr>)\<rparr>)"
| se_input_end: "sn_live s = Some v \<Longrightarrow> \<not> lv_eof v \<Longrightarrow> \<not> lv_terminating v \<Longrightarrow> \<not> lv_exited v \<Longrightarrow>
    session_step sha256 limits s (InputAccepted (lv_id v) (lv_input v) 0 True) (s\<lparr>sn_live := Some (v\<lparr>lv_eof := True\<rparr>)\<rparr>)"
| se_terminating: "sn_live s = Some v \<Longrightarrow> \<not> lv_exited v \<Longrightarrow>
    session_step sha256 limits s (TerminationRequested (lv_id v) TERMINATION_SIGNAL)
      (s\<lparr>sn_live := Some (v\<lparr>lv_terminating := True\<rparr>)\<rparr>)"
| se_output: "sn_live s = Some v \<Longrightarrow> \<not> lv_exited v \<Longrightarrow> b \<noteq> [] \<Longrightarrow> length b \<le> rl_output_frame_bytes limits \<Longrightarrow>
    session_step sha256 limits s
      (WorkloadOutput (lv_id v) stream (length (lv_out v stream)) (lv_frames v + 1) (encode_bytes b))
      (s\<lparr>sn_live := Some (v\<lparr>lv_out := (lv_out v)(stream := lv_out v stream @ b), lv_frames := lv_frames v + 1\<rparr>)\<rparr>)"
| se_exited: "sn_live s = Some v \<Longrightarrow> \<not> lv_exited v \<Longrightarrow>
    session_step sha256 limits s
      (WorkloadExited (lv_id v) exit (length (lv_out v Stdout)) (hex_text (sha256 (lv_out v Stdout)))
         (length (lv_out v Stderr)) (hex_text (sha256 (lv_out v Stderr))) (lv_frames v))
      (s\<lparr>sn_live := Some (v\<lparr>lv_exited := True\<rparr>)\<rparr>)"
| se_cleaned: "sn_live s = Some v \<Longrightarrow> lv_exited v \<Longrightarrow>
    session_step sha256 limits s (CleanupComplete (lv_id v) reaped) (s\<lparr>sn_live := None\<rparr>)"

inductive session_path :: "(bytes \<Rightarrow> bytes) \<Rightarrow> RuntimeLimits \<Rightarrow> session \<Rightarrow> Event list \<Rightarrow> session \<Rightarrow> bool"
  for sha256 :: "bytes \<Rightarrow> bytes" and limits :: RuntimeLimits where
  path_stop: "session_path sha256 limits s [] s"
| path_go: "session_step sha256 limits s e s' \<Longrightarrow> session_path sha256 limits s' es s'' \<Longrightarrow>
    session_path sha256 limits s (e # es) s''"

inductive_simps session_path_Nil [simp]: "session_path sha256 limits s [] s'"
inductive_simps session_path_Cons: "session_path sha256 limits s (e # es) s'"

lemma session_path_append:
  "session_path sha256 limits s es s' \<Longrightarrow> session_path sha256 limits s' fs s'' \<Longrightarrow> session_path sha256 limits s (es @ fs) s''"
  by (induction rule: session_path.induct) (auto intro: path_go)

lemma session_path_one: "session_step sha256 limits s e s' \<Longrightarrow> session_path sha256 limits s [e] s'"
  by (auto intro: path_go path_stop)

section \<open>The abstraction of a runtime\<close>

definition live_of :: "Invocation \<Rightarrow> live_state" where
  "live_of iv = \<lparr>lv_id = iv_id iv, lv_out = (\<lambda>stream. ss_hasher (stream_state stream iv)), lv_frames = iv_frames iv,
     lv_input = iv_input_offset iv, lv_eof = iv_eof_requested iv, lv_terminating = iv_terminating iv, lv_exited = False\<rparr>"

definition session_of :: "Runtime \<Rightarrow> session" where
  "session_of r = \<lparr>sn_last = rn_last_invocation r, sn_live = map_option live_of (rn_active r)\<rparr>"

definition invocation_sound :: "RuntimeLimits \<Rightarrow> Invocation \<Rightarrow> bool" where
  "invocation_sound limits iv \<longleftrightarrow> output_sound limits iv \<and> iv_input_bytes iv = iv_input_offset iv
     \<and> iv_input_bytes iv \<le> rl_input_bytes limits \<and> length (iv_pending_input iv) \<le> iv_input_bytes iv
     \<and> \<not> iv_cleanup_complete iv"

definition runtime_sound :: "Runtime \<Rightarrow> bool" where
  "runtime_sound r \<longleftrightarrow> (\<forall>iv. rn_active r = Some iv \<longrightarrow>
     invocation_sound (rc_limits (rn_config r)) iv \<and> rn_last_invocation r = Some (iv_id iv))"

definition bounded_limits :: "RuntimeLimits \<Rightarrow> bool" where
  "bounded_limits limits \<longleftrightarrow> rl_input_bytes limits < u64_max \<and> rl_output_bytes limits < u64_max"

lemma live_of_follows: "follows a b \<Longrightarrow> live_of b = live_of a"
proof -
  assume "follows a b"
  moreover have "ss_hasher (stream_state stream b) = ss_hasher (stream_state stream a)" for stream
    using \<open>follows a b\<close> by (cases stream) (simp_all add: follows_def same_stream_def)
  ultimately show ?thesis by (simp add: live_of_def follows_def same_process_def same_input_def)
qed

lemma absorb_output_input [simp]:
  "iv_input_bytes (absorb_output stream b iv) = iv_input_bytes iv" "iv_input_offset (absorb_output stream b iv) = iv_input_offset iv"
  "iv_pending_input (absorb_output stream b iv) = iv_pending_input iv"
  "iv_eof_requested (absorb_output stream b iv) = iv_eof_requested iv" "iv_terminating (absorb_output stream b iv) = iv_terminating iv"
  by (cases stream; simp add: absorb_output_def)+

lemma absorb_all_input [simp]:
  "iv_input_bytes (absorb_all cs iv) = iv_input_bytes iv" "iv_input_offset (absorb_all cs iv) = iv_input_offset iv"
  "iv_pending_input (absorb_all cs iv) = iv_pending_input iv"
  "iv_eof_requested (absorb_all cs iv) = iv_eof_requested iv" "iv_terminating (absorb_all cs iv) = iv_terminating iv"
  by (induction cs iv rule: absorb_all.induct, simp_all)

lemma live_of_absorb:
  "live_of (absorb_output stream b iv) =
     (live_of iv)\<lparr>lv_out := (lv_out (live_of iv))(stream := lv_out (live_of iv) stream @ b), lv_frames := lv_frames (live_of iv) + 1\<rparr>"
  by (auto simp: live_of_def fun_eq_iff)

text \<open>The counters of an invocation agree with what its streams have emitted.\<close>

definition in_step :: "Invocation \<Rightarrow> bool" where
  "in_step iv \<longleftrightarrow> iv_frames iv = iv_sequence iv
     \<and> (\<forall>stream. ss_offset (stream_state stream iv) = length (ss_hasher (stream_state stream iv)))"

lemma in_step_absorb: "in_step iv \<Longrightarrow> in_step (absorb_output stream b iv)"
  by (simp add: in_step_def)

lemma in_step_sound: "output_sound limits iv \<Longrightarrow> in_step iv"
  unfolding in_step_def output_sound_def stream_sound_def by (metis stream_state.simps OutputStream.exhaust)

lemma outputs_path:
  assumes "list_all (chunk_ok limits) cs" and "in_step iv"
  shows "session_path sha256 limits \<lparr>sn_last = l, sn_live = Some (live_of iv)\<rparr> (output_events iv cs)
    \<lparr>sn_last = l, sn_live = Some (live_of (absorb_all cs iv))\<rparr>"
  using assms
proof (induction iv cs rule: output_events.induct)
  case (2 iv stream b cs)
  let ?s = "\<lparr>sn_last = l, sn_live = Some (live_of iv)\<rparr>"
  have event: "output_event stream b iv = WorkloadOutput (lv_id (live_of iv)) stream (length (lv_out (live_of iv) stream))
      (lv_frames (live_of iv) + 1) (encode_bytes b)"
    using "2.prems"(2) by (simp add: output_event_def live_of_def in_step_def)
  have "session_step sha256 limits ?s (output_event stream b iv)
      \<lparr>sn_last = l, sn_live = Some (live_of (absorb_output stream b iv))\<rparr>"
    unfolding event live_of_absorb
    using se_output [of ?s "live_of iv" b limits sha256 stream] "2.prems"(1) by (simp add: live_of_def)
  with "2.IH" "2.prems" show ?case by (auto intro: path_go in_step_absorb)
qed simp

text \<open>A service that serves follows the contract and keeps the invocation sound.\<close>

lemma follows_sound:
  assumes "follows (absorb_all cs iv) iv'" and "output_sound limits iv'" and "invocation_sound limits iv"
  shows "invocation_sound limits iv'"
  using assms suffix_length_le [of "iv_pending_input iv'" "iv_pending_input iv"]
  by (auto simp: invocation_sound_def follows_def same_input_def same_process_def)

lemma serves_path:
  assumes "serves limits \<lparr>se_active = iv, se_events = [], se_world = w\<rparr> s" and "invocation_sound limits iv"
    and "bounded_limits limits"
  shows "session_path sha256 limits \<lparr>sn_last = l, sn_live = Some (live_of iv)\<rparr> (se_events s)
      \<lparr>sn_last = l, sn_live = Some (live_of (se_active s))\<rparr> \<and> invocation_sound limits (se_active s) \<and> iv_id (se_active s) = iv_id iv"
proof -
  from assms obtain cs where cs: "list_all (chunk_ok limits) cs" "se_events s = output_events iv cs"
    "follows (absorb_all cs iv) (se_active s)" "output_sound limits (se_active s)"
    unfolding serves_def bounded_limits_def invocation_sound_def by auto
  have "in_step iv" using assms(2) by (auto simp: invocation_sound_def intro: in_step_sound)
  from outputs_path [OF cs(1) this] follows_sound [OF cs(3,4) assms(2)] show ?thesis
    using cs(3) by (auto simp: cs(2) live_of_follows [OF cs(3)] follows_def same_process_def)
qed

section \<open>Every operation keeps the contract\<close>

definition advances :: "(bytes \<Rightarrow> bytes) \<Rightarrow> 'w guest \<Rightarrow> Event list \<Rightarrow> 'w guest \<Rightarrow> bool" where
  "advances sha256 g events g' \<longleftrightarrow>
     session_path sha256 (limits_of g) (session_of (gu_runtime g)) events (session_of (gu_runtime g'))
     \<and> runtime_sound (gu_runtime g') \<and> rn_config (gu_runtime g') = rn_config (gu_runtime g)"

text \<open>The parts of a start that touch neither the slot nor the last identifier.\<close>

definition unmoved :: "'w guest \<Rightarrow> 'w guest \<Rightarrow> bool" where
  "unmoved g g' \<longleftrightarrow> rn_active (gu_runtime g') = rn_active (gu_runtime g)
     \<and> rn_last_invocation (gu_runtime g') = rn_last_invocation (gu_runtime g) \<and> rn_config (gu_runtime g') = rn_config (gu_runtime g)"

interpretation unmoving: progress unmoved
  by unfold_locales (auto simp: unmoved_def)

lemma unmoved_advances: "unmoved g g' \<Longrightarrow> runtime_sound (gu_runtime g) \<Longrightarrow> advances sha256 g [] g'"
  by (auto simp: unmoved_def advances_def session_of_def runtime_sound_def)

lemma unmoving_basic:
  "unmoving.always (try_fs a)" "unmoving.always (on_kernel k)" "unmoving.always (refuse_with f r)"
  "unmoving.always (act_modify (update_runtime (\<lambda>r. r\<lparr>rn_pending_removal := p\<rparr>)))"
  "unmoving.always (discard_failed_root path failure detail)"
  by (auto simp: unmoving.always_def unmoved_def try_fs_def on_kernel_def refuse_with_def update_runtime_def
      discard_failed_root_def act_bind_def split: prod.splits sum.splits)

lemmas unmoving_rules = unmoving.always_bind unmoving.always_if unmoving.always_pure unmoving_basic

lemma retry_removal_unmoved: "unmoving.always retry_removal"
  unfolding retry_removal_def by (auto split: option.splits sum.splits intro!: unmoving_rules)

lemma fresh_root_unmoved: "unmoving.always (fresh_root invocation)"
  unfolding fresh_root_def Let_def by (auto intro!: unmoving_rules)

lemma populate_root_unmoved: "unmoving.always (populate_root path launch)"
proof -
  have "unmoving.always (\<lambda>g. let (r, f) = verify_launch_target path launch (gu_fs g) in (Inr r, g\<lparr>gu_fs := f\<rparr>))"
    by (auto simp: unmoving.always_def unmoved_def split: prod.splits)
  then show ?thesis
    unfolding populate_root_def by (auto split: option.splits sum.splits intro!: unmoving_rules)
qed

lemma spawn_in_unmoved: "unmoving.always (spawn_in env path launch)"
proof -
  have "unmoving.always (\<lambda>g. case spawn (re_os env) (re_spawn env) (show_path path) launch (scope_of g) (gu_world g) of
         (Inl _, w) \<Rightarrow> (Inl StartHung, g\<lparr>gu_world := w\<rparr>)
       | (Inr r, w) \<Rightarrow> (Inr r, g\<lparr>gu_world := w\<rparr>))"
    by (auto simp: unmoving.always_def unmoved_def split: prod.splits sum.splits)
  then show ?thesis
    unfolding spawn_in_def by (auto split: sum.splits intro!: unmoving_rules)
qed

lemma Invocation_new_sound: "invocation_sound limits (Invocation_new i path child)" "live_of (Invocation_new i path child) = live_new i"
proof -
  show "invocation_sound limits (Invocation_new i path child)"
    by (simp add: invocation_sound_def Invocation_new_def output_sound_def stream_sound_def StreamState_new_def)
  have "ss_hasher (stream_state stream (Invocation_new i path child)) = []" for stream
    by (cases stream) (simp_all add: Invocation_new_def StreamState_new_def)
  then show "live_of (Invocation_new i path child) = live_new i"
    by (simp add: live_of_def live_new_def Invocation_new_def)
qed

lemma prepare_launch_unmoved: "unmoving.always (prepare_launch env invocation launch)"
  unfolding prepare_launch_def
  by (intro unmoving_rules fresh_root_unmoved populate_root_unmoved spawn_in_unmoved)

lemma accept_identifier_cases:
  assumes "accept_identifier invocation g = (r, g')"
  obtains (refused) e where "r = Inl e" "g' = g"
    | (accepted) "r = Inr ()" "rn_active (gu_runtime g) = None" "newer invocation (rn_last_invocation (gu_runtime g))"
      "g' = update_runtime (\<lambda>r. r\<lparr>rn_last_invocation := Some invocation\<rparr>) g"
  using assms by (auto simp: accept_identifier_def newer_def split: if_splits option.splits)

lemma start_inner_cases:
  assumes "start_inner env invocation launch g = (r, g')"
  obtains (refused) e where "r = Inl e" "unmoved g g'"
    | (spoiled) e where "r = Inl e" "rn_active (gu_runtime g) = None" "newer invocation (rn_last_invocation (gu_runtime g))"
      "unmoved (update_runtime (\<lambda>r. r\<lparr>rn_last_invocation := Some invocation\<rparr>) g) g'"
    | (started) g1 path child where "r = Inr (WorkloadStarted invocation launch)" "rn_active (gu_runtime g) = None"
      "newer invocation (rn_last_invocation (gu_runtime g))"
      "unmoved (update_runtime (\<lambda>r. r\<lparr>rn_last_invocation := Some invocation\<rparr>) g) g1"
      "g' = set_active (Some (Invocation_new invocation path child)) g1"
proof -
  let ?mark = "update_runtime (\<lambda>r. r\<lparr>rn_last_invocation := Some invocation\<rparr>)"
  have mark: "unmoved g g1 \<Longrightarrow> unmoved (?mark g) (?mark g1)" for g1 :: "'a guest"
    by (simp add: unmoved_def update_runtime_def)
  obtain x g1 where one: "retry_removal g = (x, g1)" by fastforce
  have u1: "unmoved g g1" by (rule unmoving.always_run [OF retry_removal_unmoved one])
  show ?thesis
  proof (cases x)
    case (Inl e)
    with assms one u1 refused show ?thesis by (auto simp: start_inner_def act_bind_def)
  next
    case (Inr u)
    obtain y g2 where two: "accept_identifier invocation g1 = (y, g2)" by fastforce
    from two show ?thesis
    proof (cases rule: accept_identifier_cases)
      case (refused e)
      with assms one Inr two u1 that(1) show ?thesis by (auto simp: start_inner_def act_bind_def)
    next
      case accepted
      obtain z g3 where three: "prepare_launch env invocation launch g2 = (z, g3)" by fastforce
      have "unmoved g2 g3" by (rule unmoving.always_run [OF prepare_launch_unmoved three])
      with mark [OF u1] accepted(4) have u3: "unmoved (?mark g) g3" using unmoving.rel_trans by blast
      have slot: "rn_active (gu_runtime g) = None" "newer invocation (rn_last_invocation (gu_runtime g))"
        using accepted u1 by (auto simp: unmoved_def)
      show ?thesis
      proof (cases z)
        case (Inl e)
        with assms one Inr two three accepted(1) slot u3 that(2) show ?thesis by (auto simp: start_inner_def act_bind_def)
      next
        case (Inr pair)
        with assms one \<open>x = Inr u\<close> two three accepted(1) slot u3 that(3) show ?thesis
          by (cases pair) (auto simp: start_inner_def act_bind_def)
      qed
    qed
  qed
qed

lemma start_advances:
  assumes "start env invocation launch g = (Inr events, g')" and "runtime_sound (gu_runtime g)"
  shows "advances sha256 g events g'"
proof -
  obtain r g1 where run: "start_inner env invocation launch g = (r, g1)" by fastforce
  have result: "g1 = g'" "r = Inl (Refused failure detail) \<Longrightarrow> events = [LaunchFailed invocation failure detail]"
    "r = Inr e \<Longrightarrow> events = [e]" "r \<noteq> Inl StartHung" for failure detail e
    using assms(1) run by (auto simp: start_def split: sum.splits start_error.splits)
  let ?s = "session_of (gu_runtime g)"
  from run show ?thesis
  proof (cases rule: start_inner_cases)
    case (refused e)
    then obtain failure detail where "events = [LaunchFailed invocation failure detail]" using result by (cases e) auto
    moreover have "session_of (gu_runtime g') = ?s" using refused(2) result(1) by (simp add: unmoved_def session_of_def)
    ultimately show ?thesis
      using refused(2) result(1) assms(2) by (auto simp: advances_def unmoved_def runtime_sound_def intro: session_path_one se_refused)
  next
    case (spoiled e)
    then obtain failure detail where "events = [LaunchFailed invocation failure detail]" using result by (cases e) auto
    moreover have "session_of (gu_runtime g') = ?s\<lparr>sn_last := Some invocation\<rparr>"
      using spoiled(2,4) result(1) by (simp add: unmoved_def session_of_def update_runtime_def)
    moreover have "session_step sha256 (limits_of g) ?s (LaunchFailed invocation failure detail) (?s\<lparr>sn_last := Some invocation\<rparr>)"
      for failure detail using spoiled(2,3) by (intro se_spoiled) (simp_all add: session_of_def)
    ultimately show ?thesis
      using spoiled result(1)
      by (auto simp: advances_def unmoved_def runtime_sound_def update_runtime_def intro: session_path_one)
  next
    case (started g2 path child)
    have "session_of (gu_runtime g') = \<lparr>sn_last = Some invocation, sn_live = Some (live_new invocation)\<rparr>"
      using started(4,5) result(1)
      by (simp add: unmoved_def session_of_def update_runtime_def set_active_def Invocation_new_sound)
    moreover have "events = [WorkloadStarted invocation launch]" using result started(1) by blast
    moreover have "session_step sha256 (limits_of g) ?s (WorkloadStarted invocation launch)
        \<lparr>sn_last = Some invocation, sn_live = Some (live_new invocation)\<rparr>"
      using started(2,3) by (intro se_started) (simp_all add: session_of_def)
    ultimately show ?thesis
      using started(4,5) result(1)
      by (auto simp: advances_def unmoved_def runtime_sound_def update_runtime_def set_active_def Invocation_new_sound(1)
          intro: session_path_one) (simp add: Invocation_new_def)
  qed
qed


text \<open>A service on the active invocation.\<close>

lemma serve_Inr:
  assumes "serve iv a g = (Inr (x, events), g')"
  obtains s where "a \<lparr>se_active = iv, se_events = [], se_world = gu_world g\<rparr> = (Inr x, s)" "events = se_events s"
    "g' = (set_active (Some (se_active s)) g)\<lparr>gu_world := se_world s\<rparr>"
  using assms by (auto simp: serve_def split: prod.splits sum.splits)

lemma active_sound:
  assumes "runtime_sound (gu_runtime g)" and "rn_active (gu_runtime g) = Some iv"
  shows "invocation_sound (limits_of g) iv" "rn_last_invocation (gu_runtime g) = Some (iv_id iv)"
    "session_of (gu_runtime g) = \<lparr>sn_last = rn_last_invocation (gu_runtime g), sn_live = Some (live_of iv)\<rparr>"
  using assms by (auto simp: runtime_sound_def limits_of_def session_of_def)

lemma advances_active:
  assumes "session_path sha256 (limits_of g) (session_of (gu_runtime g)) events
      \<lparr>sn_last = rn_last_invocation (gu_runtime g), sn_live = Some (live_of iv)\<rparr>"
    and "rn_last_invocation (gu_runtime g) = Some (iv_id iv)" and "invocation_sound (limits_of g) iv"
    and "gu_runtime g' = gu_runtime (set_active (Some iv) g)"
  shows "advances sha256 g events g'"
  using assms by (auto simp: advances_def session_of_def runtime_sound_def set_active_def update_runtime_def limits_of_def)

lemma invocation_mut_Inr:
  "invocation_mut invocation g = (Inr iv, g') \<longleftrightarrow> g' = g \<and> rn_active (gu_runtime g) = Some iv \<and> iv_id iv = invocation"
  by (auto simp: invocation_mut_def split: option.splits if_splits)

lemma fatal_Inr [simp]: "fatal env invocation e g \<noteq> (Inr x, g')"
  by (simp add: fatal_def)

lemma flush_or_die_Inr:
  assumes "flush_or_die env invocation message iv g = (Inr x, g')"
  obtains iv' where "follows iv iv'" "gu_runtime g' = gu_runtime (set_active (Some iv') g)"
proof -
  from assms obtain events g1 where run: "serve iv (flush_input (re_os env)) g = (Inr ((), events), g1)" "g1 = g'"
    by (auto simp: flush_or_die_def split: prod.splits sum.splits rt_error.splits)
  from run(1) obtain s where s: "flush_input (re_os env) \<lparr>se_active = iv, se_events = [], se_world = gu_world g\<rparr> = (Inr (), s)"
    "g1 = (set_active (Some (se_active s)) g)\<lparr>gu_world := se_world s\<rparr>" by (rule serve_Inr)
  have "follows iv (se_active s)"
    using quietness.always_run [OF quietness.always_flush_input s(1)] by (simp add: quietly_def)
  with s(2) run(2) that show ?thesis by (simp add: set_active_def update_runtime_def)
qed

lemma follows_invocation_sound: "follows a b \<Longrightarrow> invocation_sound limits a \<Longrightarrow> invocation_sound limits b"
  using follows_sound [of "[]" a b limits] output_sound_follows [of a b limits] by (auto simp: invocation_sound_def)

lemma queue_input_sound:
  assumes "invocation_sound limits iv" and "iv_input_bytes iv + length bs \<le> rl_input_bytes limits"
  shows "invocation_sound limits (queue_input bs iv)"
  using assms by (auto simp: invocation_sound_def queue_input_def output_sound_def)

lemma live_of_update:
  "live_of (queue_input bs iv) = (live_of iv)\<lparr>lv_input := lv_input (live_of iv) + length bs\<rparr>"
  "live_of (iv\<lparr>iv_eof_requested := True\<rparr>) = (live_of iv)\<lparr>lv_eof := True\<rparr>"
  "live_of (iv\<lparr>iv_terminating := True, iv_pending_input := [], iv_stdin := None\<rparr>) = (live_of iv)\<lparr>lv_terminating := True\<rparr>"
proof -
  have "stream_state stream (queue_input bs iv) = stream_state stream iv"
    "stream_state stream (iv\<lparr>iv_eof_requested := True\<rparr>) = stream_state stream iv"
    "stream_state stream (iv\<lparr>iv_terminating := True, iv_pending_input := [], iv_stdin := None\<rparr>) = stream_state stream iv" for stream
    by (cases stream; simp add: queue_input_def)+
  then show "live_of (queue_input bs iv) = (live_of iv)\<lparr>lv_input := lv_input (live_of iv) + length bs\<rparr>"
    "live_of (iv\<lparr>iv_eof_requested := True\<rparr>) = (live_of iv)\<lparr>lv_eof := True\<rparr>"
    "live_of (iv\<lparr>iv_terminating := True, iv_pending_input := [], iv_stdin := None\<rparr>) = (live_of iv)\<lparr>lv_terminating := True\<rparr>"
    by (simp_all add: live_of_def queue_input_def)
qed

text \<open>One accepted command on the active invocation, with the step it is in the contract.\<close>

lemma command_advances:
  assumes sound: "runtime_sound (gu_runtime g)" and active: "rn_active (gu_runtime g) = Some iv"
    and step: "session_step sha256 (limits_of g) (session_of (gu_runtime g)) e ((session_of (gu_runtime g))\<lparr>sn_live := Some (live_of iv1)\<rparr>)"
    and kept: "follows iv1 iv2" "invocation_sound (limits_of g) iv1" "iv_id iv1 = iv_id iv"
    and final: "gu_runtime g' = gu_runtime (set_active (Some iv2) g)"
  shows "advances sha256 g [e] g'"
proof (rule advances_active [OF _ _ _ final])
  have id: "iv_id iv2 = iv_id iv" using kept by (simp add: follows_def same_process_def)
  show "rn_last_invocation (gu_runtime g) = Some (iv_id iv2)" using active_sound(2) [OF sound active] id by simp
  show "invocation_sound (limits_of g) iv2" by (rule follows_invocation_sound [OF kept(1,2)])
  show "session_path sha256 (limits_of g) (session_of (gu_runtime g)) [e]
      \<lparr>sn_last = rn_last_invocation (gu_runtime g), sn_live = Some (live_of iv2)\<rparr>"
    using session_path_one [OF step] live_of_follows [OF kept(1)] by (simp add: session_of_def)
qed

lemma stdin_write_advances:
  assumes "stdin_write env invocation offset bytes g = (Inr events, g')" and "runtime_sound (gu_runtime g)"
    and "bounded_limits (limits_of g)"
  shows "advances sha256 g events g'"
proof -
  from assms(1) obtain content iv where decoded: "content \<noteq> []" and active: "rn_active (gu_runtime g) = Some iv" "iv_id iv = invocation"
    and ok: "\<not> stdin_closed iv" "\<not> saturating_add (iv_input_bytes iv) (length content) > rl_input_bytes (limits_of g)"
    and flush: "flush_or_die env invocation ''cannot write workload input'' (queue_input content iv) g = (Inr (), g')"
    and events: "events = [InputAccepted invocation (iv_input_offset iv + length content) (length content) False]"
    by (auto simp: stdin_write_def act_bind_Inr invocation_mut_Inr split: sum.splits if_splits)
  note sound = active_sound [OF assms(2) active(1)]
  have room: "iv_input_bytes iv + length content \<le> rl_input_bytes (limits_of g)"
    using saturating_within [OF ok(2)] assms(3) by (simp add: bounded_limits_def)
  have same: "iv_input_bytes iv = iv_input_offset iv" using sound(1) by (simp add: invocation_sound_def)
  have step: "session_step sha256 (limits_of g) (session_of (gu_runtime g))
      (InputAccepted (lv_id (live_of iv)) (lv_input (live_of iv) + length content) (length content) False)
      ((session_of (gu_runtime g))\<lparr>sn_live := Some (live_of (queue_input content iv))\<rparr>)"
    unfolding live_of_update
    by (rule se_input) (use sound(3) ok(1) room same decoded in \<open>simp_all add: live_of_def stdin_closed_def\<close>)
  from flush obtain iv' where iv': "follows (queue_input content iv) iv'" "gu_runtime g' = gu_runtime (set_active (Some iv') g)"
    by (rule flush_or_die_Inr)
  have "advances sha256 g [InputAccepted (lv_id (live_of iv)) (lv_input (live_of iv) + length content) (length content) False] g'"
    by (rule command_advances [OF assms(2) active(1) step iv'(1) queue_input_sound [OF sound(1) room] _ iv'(2)])
      (simp add: queue_input_def)
  then show ?thesis using active(2) by (simp add: events live_of_def)
qed

lemma stdin_eof_advances:
  assumes "stdin_eof env invocation g = (Inr events, g')" and "runtime_sound (gu_runtime g)"
  shows "advances sha256 g events g'"
proof -
  from assms(1) obtain iv where active: "rn_active (gu_runtime g) = Some iv" "iv_id iv = invocation"
    and ok: "\<not> iv_terminating iv" "\<not> iv_eof_requested iv"
    and flush: "flush_or_die env invocation ''cannot flush workload input'' (iv\<lparr>iv_eof_requested := True\<rparr>) g = (Inr (), g')"
    and events: "events = [InputAccepted invocation (iv_input_offset iv) 0 True]"
    by (auto simp: stdin_eof_def act_bind_Inr invocation_mut_Inr split: if_splits)
  note sound = active_sound [OF assms(2) active(1)]
  have step: "session_step sha256 (limits_of g) (session_of (gu_runtime g))
      (InputAccepted (lv_id (live_of iv)) (lv_input (live_of iv)) 0 True)
      ((session_of (gu_runtime g))\<lparr>sn_live := Some (live_of (iv\<lparr>iv_eof_requested := True\<rparr>))\<rparr>)"
    unfolding live_of_update by (rule se_input_end) (use sound(3) ok in \<open>simp_all add: live_of_def\<close>)
  from flush obtain iv' where iv': "follows (iv\<lparr>iv_eof_requested := True\<rparr>) iv'" "gu_runtime g' = gu_runtime (set_active (Some iv') g)"
    by (rule flush_or_die_Inr)
  have "invocation_sound (limits_of g) (iv\<lparr>iv_eof_requested := True\<rparr>)"
    using sound(1) by (simp add: invocation_sound_def output_sound_def)
  then have "advances sha256 g [InputAccepted (lv_id (live_of iv)) (lv_input (live_of iv)) 0 True] g'"
    by (rule command_advances [OF assms(2) active(1) step iv'(1) _ _ iv'(2)]) simp
  then show ?thesis using active(2) by (simp add: events live_of_def)
qed

lemma terminate_advances:
  assumes "terminate env invocation g = (Inr events, g')" and "runtime_sound (gu_runtime g)"
  shows "advances sha256 g events g'"
proof -
  let ?stop = "\<lambda>iv. iv\<lparr>iv_terminating := True, iv_pending_input := [], iv_stdin := None\<rparr>"
  from assms(1) obtain iv where active: "rn_active (gu_runtime g) = Some iv" "iv_id iv = invocation"
    and final: "gu_runtime g' = gu_runtime (set_active (Some (?stop iv)) g)"
    and events: "events = [TerminationRequested invocation TERMINATION_SIGNAL]"
    by (auto simp: terminate_def act_bind_Inr invocation_mut_Inr on_kernel_def set_active_def update_runtime_def Let_def
        split: if_splits prod.splits)
  note sound = active_sound [OF assms(2) active(1)]
  have step: "session_step sha256 (limits_of g) (session_of (gu_runtime g)) (TerminationRequested (lv_id (live_of iv)) TERMINATION_SIGNAL)
      ((session_of (gu_runtime g))\<lparr>sn_live := Some (live_of (?stop iv))\<rparr>)"
    unfolding live_of_update by (rule se_terminating) (use sound(3) in \<open>simp_all add: live_of_def\<close>)
  have "invocation_sound (limits_of g) (?stop iv)" using sound(1) by (simp add: invocation_sound_def output_sound_def)
  then have "advances sha256 g [TerminationRequested (lv_id (live_of iv)) TERMINATION_SIGNAL] g'"
    by (rule command_advances [OF assms(2) active(1) step follows_refl _ _ final]) simp
  then show ?thesis using active(2) by (simp add: events live_of_def)
qed

section \<open>Service and the barrier\<close>

lemma stream_bytes_live:
  "lv_out (live_of (absorb_all cs iv)) stream = ss_hasher (stream_state stream iv) @ stream_bytes stream cs"
  by (simp add: live_of_def)

text \<open>A finished barrier: the rest of the output, the exit record of all of it, the end of the cleanup.\<close>

lemma cleanup_path:
  assumes run: "cleanup os scope limits s = (Inr x, t)" and open_slot: "\<not> iv_cleanup_complete (se_active s)"
    and sound: "invocation_sound limits (se_active s)"
  shows "\<exists>events. se_events t = se_events s @ events \<and> iv_cleanup_complete (se_active t)
    \<and> iv_id (se_active t) = iv_id (se_active s)
    \<and> session_path (os_sha256 os) limits \<lparr>sn_last = l, sn_live = Some (live_of (se_active s))\<rparr> events
        \<lparr>sn_last = l, sn_live = None\<rparr>"
proof -
  let ?iv = "se_active s"
  from run open_slot obtain cs exit reaped where cs: "list_all (chunk_ok limits) cs"
    and events: "se_events t = se_events s @ output_events ?iv cs @
       [WorkloadExited (iv_id ?iv) exit
          (ss_bytes (iv_stdout_state ?iv) + length (stream_bytes Stdout cs))
          (hex_text (os_sha256 os (ss_hasher (iv_stdout_state ?iv) @ stream_bytes Stdout cs)))
          (ss_bytes (iv_stderr_state ?iv) + length (stream_bytes Stderr cs))
          (hex_text (os_sha256 os (ss_hasher (iv_stderr_state ?iv) @ stream_bytes Stderr cs)))
          (iv_frames ?iv + length cs),
        CleanupComplete (iv_id ?iv) reaped]"
    and complete: "iv_cleanup_complete (se_active t)" "iv_id (se_active t) = iv_id ?iv"
    by (rule cleanup_reports)
  let ?v = "live_of (absorb_all cs ?iv)"
  let ?mid = "\<lparr>sn_last = l, sn_live = Some ?v\<rparr>"
  have counts: "ss_bytes (iv_stdout_state ?iv) = length (ss_hasher (iv_stdout_state ?iv))"
    "ss_bytes (iv_stderr_state ?iv) = length (ss_hasher (iv_stderr_state ?iv))"
    using sound by (simp_all add: invocation_sound_def output_sound_def stream_sound_def)
  have exit_event: "WorkloadExited (iv_id ?iv) exit
          (ss_bytes (iv_stdout_state ?iv) + length (stream_bytes Stdout cs))
          (hex_text (os_sha256 os (ss_hasher (iv_stdout_state ?iv) @ stream_bytes Stdout cs)))
          (ss_bytes (iv_stderr_state ?iv) + length (stream_bytes Stderr cs))
          (hex_text (os_sha256 os (ss_hasher (iv_stderr_state ?iv) @ stream_bytes Stderr cs)))
          (iv_frames ?iv + length cs)
      = WorkloadExited (lv_id ?v) exit (length (lv_out ?v Stdout)) (hex_text (os_sha256 os (lv_out ?v Stdout)))
          (length (lv_out ?v Stderr)) (hex_text (os_sha256 os (lv_out ?v Stderr))) (lv_frames ?v)"
    by (simp add: live_of_def counts)
  have cleanup_event: "CleanupComplete (iv_id ?iv) reaped = CleanupComplete (lv_id (?v\<lparr>lv_exited := True\<rparr>)) reaped"
    by (simp add: live_of_def)
  have "in_step ?iv" using sound by (auto simp: invocation_sound_def intro: in_step_sound)
  from outputs_path [OF cs this] have outputs: "session_path (os_sha256 os) limits \<lparr>sn_last = l, sn_live = Some (live_of ?iv)\<rparr>
      (output_events ?iv cs) ?mid" .
  have finish: "session_path (os_sha256 os) limits ?mid
      [WorkloadExited (lv_id ?v) exit (length (lv_out ?v Stdout)) (hex_text (os_sha256 os (lv_out ?v Stdout)))
          (length (lv_out ?v Stderr)) (hex_text (os_sha256 os (lv_out ?v Stderr))) (lv_frames ?v),
       CleanupComplete (lv_id (?v\<lparr>lv_exited := True\<rparr>)) reaped] \<lparr>sn_last = l, sn_live = None\<rparr>"
    using se_exited [of ?mid ?v "os_sha256 os" limits exit]
      se_cleaned [of "?mid\<lparr>sn_live := Some (?v\<lparr>lv_exited := True\<rparr>)\<rparr>" "?v\<lparr>lv_exited := True\<rparr>" "os_sha256 os" limits reaped]
    by (intro path_go [OF _ session_path_one]) (simp_all add: live_of_def)
  from session_path_append [OF outputs finish] events complete show ?thesis
    unfolding exit_event cleanup_event by blast
qed

lemma release_Inr:
  assumes "release iv g = (Inr x, g')"
  shows "gu_runtime g' = gu_runtime (set_active None g)"
  using assms by (auto simp: release_def act_bind_Inr try_fs_def set_active_def update_runtime_def split: prod.splits)

text \<open>A service that leaves the invocation running, or completes its barrier.\<close>

definition settles :: "(bytes \<Rightarrow> bytes) \<Rightarrow> RuntimeLimits \<Rightarrow> Invocation \<Rightarrow> 'w service \<Rightarrow> bool" where
  "settles sha256 limits iv s \<longleftrightarrow> iv_id (se_active s) = iv_id iv \<and> (\<forall>l.
     if iv_cleanup_complete (se_active s)
     then session_path sha256 limits \<lparr>sn_last = l, sn_live = Some (live_of iv)\<rparr> (se_events s) \<lparr>sn_last = l, sn_live = None\<rparr>
     else session_path sha256 limits \<lparr>sn_last = l, sn_live = Some (live_of iv)\<rparr> (se_events s)
        \<lparr>sn_last = l, sn_live = Some (live_of (se_active s))\<rparr> \<and> invocation_sound limits (se_active s))"

lemma settles_cleanup:
  assumes before: "serves limits \<lparr>se_active = iv, se_events = [], se_world = w\<rparr> s1" and run: "cleanup os scope limits s1 = (Inr x, s)"
    and sound: "invocation_sound limits iv" "bounded_limits limits"
  shows "settles (os_sha256 os) limits iv s"
proof -
  have first: "session_path (os_sha256 os) limits \<lparr>sn_last = l, sn_live = Some (live_of iv)\<rparr> (se_events s1)
      \<lparr>sn_last = l, sn_live = Some (live_of (se_active s1))\<rparr>" for l
    using serves_path [OF before sound] by blast
  have sound1: "invocation_sound limits (se_active s1)" and id: "iv_id (se_active s1) = iv_id iv"
    using serves_path [OF before sound] by blast+
  have open_slot: "\<not> iv_cleanup_complete (se_active s1)" using sound1 by (simp add: invocation_sound_def)
  have "session_path (os_sha256 os) limits \<lparr>sn_last = l, sn_live = Some (live_of iv)\<rparr> (se_events s) \<lparr>sn_last = l, sn_live = None\<rparr>" for l
    using cleanup_path [OF run open_slot sound1, of l] session_path_append [OF first] by auto
  with cleanup_path [OF run open_slot sound1] id show ?thesis by (auto simp: settles_def)
qed

lemma settles_serves:
  assumes "serves limits \<lparr>se_active = iv, se_events = [], se_world = w\<rparr> s" and "invocation_sound limits iv" and "bounded_limits limits"
  shows "settles sha256 limits iv s"
proof -
  have path: "session_path sha256 limits \<lparr>sn_last = l, sn_live = Some (live_of iv)\<rparr> (se_events s)
      \<lparr>sn_last = l, sn_live = Some (live_of (se_active s))\<rparr>" for l
    using serves_path [OF assms] by blast
  have sound: "invocation_sound limits (se_active s)" and id: "iv_id (se_active s) = iv_id iv"
    using serves_path [OF assms] by blast+
  have "\<not> iv_cleanup_complete (se_active s)" using sound by (simp add: invocation_sound_def)
  with path sound id show ?thesis by (simp add: settles_def)
qed

lemma poll_service_settles:
  assumes run: "poll_service env scope limits timeout s0 = (Inr x, s)" and s0: "s0 = \<lparr>se_active = iv, se_events = [], se_world = w\<rparr>"
    and sound: "invocation_sound limits iv" "bounded_limits limits"
  shows "settles (os_sha256 (re_os env)) limits iv s"
proof -
  let ?reap = "if iv_exit (se_active s0) = None then count_reaped (re_os env) scope else act_return ()"
  let ?work = "\<lambda>s. if iv_exit (se_active s) = None
       then act_bind (flush_input (re_os env)) (\<lambda>_.
            act_bind (drain_ready (re_os env) limits timeout) (\<lambda>_. count_reaped (re_os env) scope))
       else act_return ()"
  from run obtain s1 s2 u v where one: "?reap s0 = (Inr u, s1)" and two: "?work s1 s1 = (Inr v, s2)"
    and last: "(if iv_exit (se_active s2) \<noteq> None \<and> \<not> iv_cleanup_complete (se_active s2)
       then cleanup (re_os env) scope limits else act_return ()) s2 = (Inr x, s)"
    unfolding poll_service_def act_bind_Inr by auto
  have reap: "serving.always limits ?reap" by (intro serving.always_if serving.always_count_reaped serving.always_pure)
  have work: "serving.always limits (?work s1)"
    by (intro serving.always_if serving.always_bind serving.always_count_reaped serving.always_pure serving.always_flush_input
        serving.always_drain_ready)
  have before: "serves limits s0 s2"
    by (rule serving.rel_trans [OF serving.always_run [OF reap one] serving.always_run [OF work two]])
  show ?thesis
  proof (cases "iv_exit (se_active s2) \<noteq> None \<and> \<not> iv_cleanup_complete (se_active s2)")
    case True
    with last show ?thesis using settles_cleanup [OF before [unfolded s0] _ sound] by simp
  next
    case False
    with last have "s = s2" by auto
    with settles_serves [OF before [unfolded s0] sound] show ?thesis by simp
  qed
qed

lemma shutdown_service_settles:
  assumes run: "shutdown_service env scope limits s0 = (Inr x, s)" and s0: "s0 = \<lparr>se_active = iv, se_events = [], se_world = w\<rparr>"
    and sound: "invocation_sound limits iv" "bounded_limits limits"
  shows "settles (os_sha256 (re_os env)) limits iv s \<and> iv_cleanup_complete (se_active s)"
proof -
  let ?kill = "if iv_exit (se_active s0) = None
       then lifted (signal_members (re_os env) (iv_pid (se_active s0)) scope TERMINATION_SIGNAL) else act_return ()"
  from run obtain s1 u where one: "?kill s0 = (Inr u, s1)" and last: "cleanup (re_os env) scope limits s1 = (Inr x, s)"
    unfolding shutdown_service_def act_bind_Inr by auto
  have kill: "serving.always limits ?kill" by (intro serving.always_if serving.always_signal_members serving.always_pure)
  have before: "serves limits \<lparr>se_active = iv, se_events = [], se_world = w\<rparr> s1"
    using serving.always_run [OF kill one] unfolding s0 .
  have sound1: "invocation_sound limits (se_active s1)" using serves_path [OF before sound] by blast
  then have "\<not> iv_cleanup_complete (se_active s1)" by (simp add: invocation_sound_def)
  with sound1 settles_cleanup [OF before last sound] cleanup_path [OF last] show ?thesis by blast
qed

lemma settled_advances:
  assumes "rn_active (gu_runtime g) = Some iv" and "runtime_sound (gu_runtime g)" and "settles sha256 (limits_of g) iv s"
    and "gu_runtime g' = gu_runtime (set_active (if iv_cleanup_complete (se_active s) then None else Some (se_active s)) g)"
  shows "advances sha256 g (se_events s) g'"
  using assms active_sound [OF assms(2,1)]
  by (auto simp: settles_def advances_def session_of_def runtime_sound_def set_active_def update_runtime_def limits_of_def split: if_splits)

lemma poll_advances:
  assumes "poll env timeout g = (Inr events, g')" and "runtime_sound (gu_runtime g)" and "bounded_limits (limits_of g)"
  shows "advances (os_sha256 (re_os env)) g events g'"
proof (cases "rn_active (gu_runtime g)")
  case None
  with assms show ?thesis by (auto simp: poll_def intro: unmoved_advances unmoving.rel_refl)
next
  case (Some iv)
  note sound = active_sound [OF assms(2) Some]
  from assms(1) Some obtain u evs g1 where run: "serve iv (poll_service env (scope_of g) (limits_of g) timeout) g = (Inr (u, evs), g1)"
    and rest: "(case rn_active (gu_runtime g1) of
           Some iv \<Rightarrow> if iv_cleanup_complete iv then act_bind (release iv) (\<lambda>_. act_return evs) else act_return evs
         | None \<Rightarrow> act_return evs) g1 = (Inr events, g')"
    by (auto simp: poll_def act_bind_Inr)
  from run obtain s where s: "poll_service env (scope_of g) (limits_of g) timeout \<lparr>se_active = iv, se_events = [], se_world = gu_world g\<rparr> = (Inr u, s)"
    "evs = se_events s" "g1 = (set_active (Some (se_active s)) g)\<lparr>gu_world := se_world s\<rparr>" by (rule serve_Inr)
  note settles = poll_service_settles [OF s(1) refl sound(1) assms(3)]
  have "events = se_events s" "gu_runtime g' = gu_runtime (set_active (if iv_cleanup_complete (se_active s) then None else Some (se_active s)) g)"
    using rest s(2,3) by (auto simp: set_active_def update_runtime_def act_bind_Inr split: if_splits dest!: release_Inr)
  with settled_advances [OF Some assms(2) settles] show ?thesis by simp
qed

lemma shutdown_advances:
  assumes "shutdown env g = (Inr events, g')" and "runtime_sound (gu_runtime g)" and "bounded_limits (limits_of g)"
  shows "advances (os_sha256 (re_os env)) g events g' \<and> rn_active (gu_runtime g') = None"
proof (cases "rn_active (gu_runtime g)")
  case None
  with assms show ?thesis by (auto simp: shutdown_def intro: unmoved_advances unmoving.rel_refl)
next
  case (Some iv)
  note sound = active_sound [OF assms(2) Some]
  from assms(1) Some obtain u evs g1 where run: "serve iv (shutdown_service env (scope_of g) (limits_of g)) g = (Inr (u, evs), g1)"
    and rest: "(case rn_active (gu_runtime g1) of
           Some iv \<Rightarrow> act_bind (release iv) (\<lambda>_. act_return evs)
         | None \<Rightarrow> act_return evs) g1 = (Inr events, g')"
    by (auto simp: shutdown_def act_bind_Inr)
  from run obtain s where s: "shutdown_service env (scope_of g) (limits_of g) \<lparr>se_active = iv, se_events = [], se_world = gu_world g\<rparr> = (Inr u, s)"
    "evs = se_events s" "g1 = (set_active (Some (se_active s)) g)\<lparr>gu_world := se_world s\<rparr>" by (rule serve_Inr)
  note settles = shutdown_service_settles [OF s(1) refl sound(1) assms(3)]
  have final: "events = se_events s" "gu_runtime g' = gu_runtime (set_active None g)"
    using rest s(2,3) by (auto simp: set_active_def update_runtime_def act_bind_Inr dest!: release_Inr)
  with settled_advances [OF Some assms(2) conjunct1 [OF settles], of g'] conjunct2 [OF settles] show ?thesis
    by (simp add: set_active_def update_runtime_def)
qed

end
