(* ===== verification/Session.thy ===== *)
theory Session
  imports Runtime "HOL-Library.Code_Target_Nat"
begin

text \<open>
  The guest runtime as a whole: any sequence of its operations refines the abstract session, the
  operations provide the agent's interface, none of them hangs on a kernel that lets time pass,
  and a run of them against a scripted kernel.
\<close>

section \<open>A sequence of operations\<close>

text \<open>The operations the agent calls on its runtime, one after the other until one fails.\<close>

datatype runtime_call =
    CallStart nat LaunchIdentity
  | CallStdinWrite nat nat string
  | CallStdinEof nat
  | CallTerminate nat
  | CallPoll nat
  | CallShutdown

fun perform :: "'w runtime_env \<Rightarrow> runtime_call \<Rightarrow> ('w, Event list) running" where
  "perform env (CallStart invocation launch) = start env invocation launch"
| "perform env (CallStdinWrite invocation offset bytes) = stdin_write env invocation offset bytes"
| "perform env (CallStdinEof invocation) = stdin_eof env invocation"
| "perform env (CallTerminate invocation) = terminate env invocation"
| "perform env (CallPoll timeout) = poll env timeout"
| "perform env CallShutdown = shutdown env"

fun perform_all :: "'w runtime_env \<Rightarrow> runtime_call list \<Rightarrow> ('w, Event list) running" where
  "perform_all env [] = act_return []"
| "perform_all env (call # calls) =
     act_bind (perform env call) (\<lambda>events.
     act_bind (perform_all env calls) (\<lambda>more. act_return (events @ more)))"

lemma perform_advances:
  assumes "perform env call g = (Inr events, g')" and "runtime_sound (gu_runtime g)" and "bounded_limits (limits_of g)"
  shows "advances (os_sha256 (re_os env)) g events g'"
  using assms
  by (cases call)
    (auto intro: start_advances stdin_write_advances stdin_eof_advances terminate_advances poll_advances
      dest: shutdown_advances)

lemma advances_trans:
  assumes "advances sha256 g es g1" and "advances sha256 g1 fs g'"
  shows "advances sha256 g (es @ fs) g'"
  using assms session_path_append by (fastforce simp: advances_def limits_of_def)

lemma perform_all_advances:
  assumes "perform_all env calls g = (Inr events, g')" and "runtime_sound (gu_runtime g)" and "bounded_limits (limits_of g)"
  shows "advances (os_sha256 (re_os env)) g events g'"
  using assms
proof (induction calls arbitrary: g events)
  case Nil
  then show ?case by (auto intro: unmoved_advances unmoving.rel_refl)
next
  case (Cons call calls)
  from Cons.prems(1) obtain es fs g1 where "perform env call g = (Inr es, g1)"
    and rest: "perform_all env calls g1 = (Inr fs, g')" and events: "events = es @ fs"
    by (auto simp: act_bind_Inr)
  from perform_advances [OF this(1) Cons.prems(2,3)] have first: "advances (os_sha256 (re_os env)) g es g1" .
  then have "runtime_sound (gu_runtime g1)" "bounded_limits (limits_of g1)"
    using Cons.prems(3) by (auto simp: advances_def limits_of_def)
  from advances_trans [OF first Cons.IH [OF rest this]] show ?case by (simp add: events)
qed

definition session_new :: session where
  "session_new = \<lparr>sn_last = None, sn_live = None\<rparr>"

definition boot :: "Runtime \<Rightarrow> file_system \<Rightarrow> 'w \<Rightarrow> 'w guest" where
  "boot r fs w = \<lparr>gu_runtime = r, gu_fs = fs, gu_world = w\<rparr>"

lemma Runtime_new_idle:
  assumes "Runtime_new env config fs = (Inr r, fs')"
  shows "r = \<lparr>rn_config = config, rn_active = None, rn_last_invocation = None, rn_pending_removal = None\<rparr>"
    and "validate_limits (rc_limits config) = Inr ()"
  using assms by (auto simp: Runtime_new_def act_bind_Inr map_err_def split: if_splits sum.splits)

text \<open>
  C3. The runtime implements its contract. Whatever sequence of starts, input, ends of input,
  terminations, polls and shutdowns succeeds on a runtime that was accepted, against any kernel,
  its events are a path of the abstract session from its empty state, and the runtime it leaves
  abstracts to the end of that path. In particular no identifier is reused, output is numbered and
  contiguous, and an exit record gives the length and the digest of exactly the emitted bytes.
\<close>
theorem runtime_refines_session:
  assumes "Runtime_new env config fs = (Inr r, fs')" and "bounded_limits (rc_limits config)"
    and "perform_all env calls (boot r fs' w) = (Inr events, g')"
  shows "session_path (os_sha256 (re_os env)) (rc_limits config) session_new events (session_of (gu_runtime g'))"
proof -
  note r = Runtime_new_idle(1) [OF assms(1)]
  have "advances (os_sha256 (re_os env)) (boot r fs' w) events g'"
    using assms(2) by (intro perform_all_advances [OF assms(3)]) (simp_all add: boot_def r runtime_sound_def limits_of_def)
  then show ?thesis by (simp add: advances_def boot_def r limits_of_def session_of_def session_new_def)
qed

section \<open>The agent's interface\<close>

definition error_text :: "rt_error \<Rightarrow> string" where
  "error_text e = (case e of Io e \<Rightarrow> oe_text e | Hung \<Rightarrow> ''the runtime does not return'')"

definition for_agent :: "('w, 'a) running \<Rightarrow> ('w guest, string, 'a) action" where
  "for_agent a = (\<lambda>g. let (r, g') = a g in (map_err error_text r, g'))"

text \<open>The operations of the runtime as the agent holds them; it polls without waiting.\<close>

definition guest_ops :: "'w runtime_env \<Rightarrow> 'w guest runtime_ops" where
  "guest_ops env =
     \<lparr>rt_start = (\<lambda>invocation launch. for_agent (start env invocation launch)),
      rt_stdin_write = (\<lambda>invocation offset bytes. for_agent (stdin_write env invocation offset bytes)),
      rt_stdin_eof = (\<lambda>invocation. for_agent (stdin_eof env invocation)),
      rt_terminate = (\<lambda>invocation. for_agent (terminate env invocation)),
      rt_poll = for_agent (poll env 0),
      rt_shutdown = for_agent (shutdown env),
      rt_is_active = (\<lambda>g. is_active (gu_runtime g))\<rparr>"

lemma for_agent_Inr: "for_agent a g = (Inr x, g') \<longleftrightarrow> a g = (Inr x, g')"
  by (auto simp: for_agent_def map_err_def split: prod.splits sum.splits)

definition reports_only :: "'w service \<Rightarrow> 'w service \<Rightarrow> bool" where
  "reports_only s t \<longleftrightarrow> (\<exists>events. se_events t = se_events s @ events \<and> list_all (\<lambda>e. \<not> is_assertion_event e) events)"

lemma reports_onlyI: "se_events t = se_events s @ events \<Longrightarrow> list_all (\<lambda>e. \<not> is_assertion_event e) events \<Longrightarrow> reports_only s t"
  by (auto simp: reports_only_def)

lemma reports_only_same: "se_events t = se_events s \<Longrightarrow> reports_only s t"
  by (rule reports_onlyI [where events = "[]"]) simp_all

interpretation reporting: progress reports_only
  by unfold_locales (auto simp: reports_only_def)

interpretation reporting: service_steps reports_only os limits
proof
  fix buffer :: bytes and stream drained amount
  show "reporting.always (push_chunk limits stream buffer drained amount)"
    unfolding push_chunk_def
    by (intro reporting.always_get)
      (auto simp: act_bind_def push_event_def update_active_def output_event_def is_assertion_event_def reporting.rel_refl
        intro!: reports_onlyI)
qed (auto simp: reporting.always_def attempt_def on_guest_def update_active_def close_stdin_def
    split: prod.splits intro!: reports_only_same)

lemma always_cleanup: "reporting.always (cleanup os scope limits)"
proof -
  have "reporting.always (cleanup_report os exit)" for exit
    by (auto simp: reporting.always_def cleanup_report_def finish_stream_def Let_def is_assertion_event_def intro!: reports_onlyI)
  then show ?thesis
    unfolding cleanup_def
    by (auto split: option.splits intro!: reporting.always_bind reporting.always_if reporting.always_pure
      reporting.call_close reporting.call_now reporting.always_loop reporting.always_cleanup_turn reporting.always_count_reaped)
qed

lemma always_poll_service: "reporting.always (poll_service env scope limits timeout)"
  unfolding poll_service_def
  by (intro reporting.always_bind reporting.always_if reporting.always_pure reporting.always_count_reaped
      reporting.always_flush_input reporting.always_drain_ready always_cleanup)

lemma always_shutdown_service: "reporting.always (shutdown_service env scope limits)"
  unfolding shutdown_service_def
  by (intro reporting.always_bind reporting.always_if reporting.always_pure reporting.always_signal_members always_cleanup)

lemma serve_reports:
  assumes "serve iv a g = (Inr (x, events), g')" and "reporting.always a"
  shows "list_all (\<lambda>e. \<not> is_assertion_event e) events"
proof -
  from assms(1) obtain s where "a \<lparr>se_active = iv, se_events = [], se_world = gu_world g\<rparr> = (Inr x, s)" "events = se_events s"
    by (rule serve_Inr)
  with reporting.always_run [OF assms(2)] show ?thesis by (fastforce simp: reports_only_def)
qed

interpretation guest_runtime: workload_runtime "guest_ops env"
proof
  fix event and g g' :: "'a guest" and events
  show "\<not> is_assertion_event event" if "rt_start (guest_ops env) invocation launch g = (Inr events, g')" "event \<in> set events"
    for invocation launch
    using that
    by (auto simp: guest_ops_def for_agent_Inr is_assertion_event_def start_def start_inner_def act_bind_Inr split: prod.splits sum.splits start_error.splits)
  show "\<not> is_assertion_event event"
    if "rt_stdin_write (guest_ops env) invocation offset bytes g = (Inr events, g')" "event \<in> set events"
    for invocation offset bytes
    using that
    by (auto simp: guest_ops_def for_agent_Inr is_assertion_event_def stdin_write_def act_bind_Inr split: sum.splits if_splits)
  show "\<not> is_assertion_event event" if "rt_stdin_eof (guest_ops env) invocation g = (Inr events, g')" "event \<in> set events"
    for invocation
    using that by (auto simp: guest_ops_def for_agent_Inr is_assertion_event_def stdin_eof_def act_bind_Inr split: if_splits)
  show "\<not> is_assertion_event event" if "rt_terminate (guest_ops env) invocation g = (Inr events, g')" "event \<in> set events"
    for invocation
    using that by (auto simp: guest_ops_def for_agent_Inr is_assertion_event_def terminate_def act_bind_Inr split: if_splits)
  show "\<not> is_assertion_event event" if "rt_poll (guest_ops env) g = (Inr events, g')" "event \<in> set events"
    using that
    by (auto simp: guest_ops_def for_agent_Inr poll_def act_bind_Inr list_all_iff split: option.splits if_splits
        dest!: serve_reports [OF _ always_poll_service])
  show "\<not> is_assertion_event event" if "rt_shutdown (guest_ops env) g = (Inr events, g')" "event \<in> set events"
    using that
    by (auto simp: guest_ops_def for_agent_Inr shutdown_def act_bind_Inr list_all_iff split: option.splits if_splits
        dest!: serve_reports [OF _ always_shutdown_service])
qed

section \<open>No operation hangs\<close>

text \<open>
  What the birth of a process needs beyond the calls of a running one: a poll is interrupted only
  finitely often, and waiting for the child does not turn the clock back.
\<close>

locale settling_spawn = settling_kernel os interruptions children clock
  for os :: "'w guest_os" and interruptions children clock :: "'w \<Rightarrow> nat" +
  fixes so :: "'w spawn_os"
  assumes poll_interrupted: "os_poll os fds timeout w = (Inl e, w') \<Longrightarrow> oe_kind e = Interrupted \<Longrightarrow> interruptions w' < interruptions w"
    and poll_answered: "os_poll os fds timeout w = (Inr n, w') \<Longrightarrow> interruptions w' \<le> interruptions w"
    and clock_child: "so_waitpid so pid w = (reaped, w') \<Longrightarrow> clock w \<le> clock w'"
begin

lemma goes_on_lifted: "goes_on (lifted a) \<Longrightarrow> returns Hung a"
proof -
  assume lifted: "goes_on (lifted a)"
  have "fst (a w) \<noteq> Inl Hung" for w
  proof -
    have "fst (lifted a \<lparr>se_active = undefined, se_events = [], se_world = w\<rparr>) \<noteq> Inl Hung" using lifted by (simp add: returns_def)
    then show ?thesis by (simp add: lifted_def split: prod.splits)
  qed
  then show ?thesis by (simp add: returns_def)
qed

lemma await_setup_returns: "returns e (await_setup os fd)"
proof -
  have "returns e (act_loop Hung (setup_turn os fd) ())"
  proof (rule returns_loop)
    let ?R = "measure (\<lambda>(u :: unit, w). interruptions w)"
    show "wf ?R" by simp
    show "(\<lambda>_ _. True) () w" for w :: 'w by simp
    show "True \<and> ((x', w'), (x, w)) \<in> ?R" if "setup_turn os fd x w = (Inr (Again x'), w')" for x w x' w'
      using that
      by (auto simp: setup_turn_def act_bind_def try_call_def split: sum.splits prod.splits if_splits list.splits
          dest: poll_interrupted poll_answered read_interrupted) (metis poll_answered read_interrupted order_less_le_trans)+
    show "returns e (setup_turn os fd x)" for x
      unfolding setup_turn_def
      by (auto simp: returns_def act_bind_def try_call_def split: sum.splits prod.splits if_splits list.splits)
  qed
  then show ?thesis unfolding await_setup_def returns_def by (auto split: prod.splits) (metis fst_conv)
qed

lemma reap_child_returns: "returns e (act_loop Hung (reap_child_turn os so pid deadline) ())"
proof (rule returns_loop)
  let ?R = "measure (\<lambda>(u :: unit, w). deadline - clock w)"
  show "wf ?R" by simp
  show "(\<lambda>_ _. True) () w" for w :: 'w by simp
  show "True \<and> ((x', w'), (x, w)) \<in> ?R" if again: "reap_child_turn os so pid deadline x w = (Inr (Again x'), w')" for x w x' w'
  proof -
    obtain reaped w1 where one: "so_waitpid so pid w = (reaped, w1)" by fastforce
    obtain now w2 where two: "os_now os w1 = (now, w2)" by fastforce
    from again one two have "now < deadline" "w' = os_sleep os 5 w2"
      by (auto simp: reap_child_turn_def split: if_splits)
    with clock_child [OF one] now_advances [OF two] clock_sleep [of w2 5] show ?thesis by auto
  qed
  show "returns e (reap_child_turn os so pid deadline x)" for x
    by (auto simp: reap_child_turn_def returns_def split: prod.splits)
qed

lemma drop_child_guard_returns: "returns e (drop_child_guard os so pid scope)"
proof -
  have "signal_members os pid scope TERMINATION_SIGNAL w \<noteq> (Inl Hung, w')" for w w'
    using goes_on_lifted [OF signal_members_returns [of pid scope TERMINATION_SIGNAL]] unfolding returns_def by (metis fst_conv)
  then show ?thesis
    using reap_child_returns [of e pid]
    by (auto simp: drop_child_guard_def returns_def split: prod.splits sum.splits rt_error.splits)
qed

lemma spawn_returns: "returns e (spawn os so root launch scope)"
proof -
  have one: "await_setup os fd w \<noteq> (Inl e', w')" "drop_child_guard os so pid scope w \<noteq> (Inl e', w')" for fd pid w w' e'
    using await_setup_returns [of e' fd] drop_child_guard_returns [of e' pid scope] unfolding returns_def by (metis fst_conv)+
  show ?thesis
    unfolding returns_def spawn_def Let_def
    by (auto simp: one split: prod.splits sum.splits option.splits)
qed

end

lemma serve_returns: "returns Hung a \<Longrightarrow> returns Hung (serve iv a)"
  unfolding returns_def serve_def by (auto split: prod.splits sum.splits) (metis fst_conv)

lemma on_kernel_returns: "returns Hung a \<Longrightarrow> returns Hung (on_kernel a)"
  unfolding returns_def on_kernel_def by (auto split: prod.splits) (metis fst_conv)

lemma running_basic:
  "returns Hung (try_fs a)" "returns Hung (invocation_mut invocation)" "returns Hung (fatal env invocation e)"
  "returns Hung (act_lift (map_err Io r))" "returns Hung (release iv)"
proof -
  show io: "returns Hung (act_lift (map_err Io r))" for r :: "os_error + 'x" by (cases r) (simp_all add: returns_def)
  show fs: "returns Hung (try_fs a)" for a :: "'y fs_action" by (simp add: returns_def try_fs_def split: prod.splits)
  show "returns Hung (invocation_mut invocation)"
    by (auto simp: returns_def invocation_mut_def split: option.splits)
  show "returns Hung (fatal env invocation e)" by (simp add: returns_def fatal_def)
  show "returns Hung (release iv)" unfolding release_def by (intro returns_bind returns_pure io fs)
qed

lemmas running_rules = returns_bind returns_if returns_pure running_basic serve_returns on_kernel_returns

text \<open>The parts of a start that make no system call on the processes.\<close>

lemma starting_files:
  "returns StartHung (refuse_with f r)" "returns StartHung (try_fs a)"
  "returns StartHung (\<lambda>g. let (r, f) = verify_launch_target path launch (gu_fs g) in (Inr r, g\<lparr>gu_fs := f\<rparr>))"
  "returns StartHung (\<lambda>g. case verify_launch_target path launch (gu_fs g) of (r, f) \<Rightarrow> (Inr r, g\<lparr>gu_fs := f\<rparr>))"
  by (auto simp: refuse_with_def try_fs_def returns_def split: sum.splits prod.splits)

lemma discard_failed_root_returns: "returns StartHung (discard_failed_root path failure detail)"
  unfolding discard_failed_root_def by (auto split: sum.splits intro!: returns_bind returns_pure starting_files)

lemmas starting_rules = returns_bind returns_if returns_pure starting_files discard_failed_root_returns

context settling_spawn
begin

lemma start_returns: "re_os env = os \<Longrightarrow> re_spawn env = so \<Longrightarrow> returns Hung (start env invocation launch)"
proof -
  assume env: "re_os env = os" "re_spawn env = so"
  have one: "returns StartHung retry_removal" unfolding retry_removal_def by (auto split: option.splits sum.splits intro!: starting_rules)
  have two: "returns StartHung (accept_identifier invocation)"
    unfolding accept_identifier_def by (auto split: option.splits intro!: starting_rules)
  have three: "returns StartHung (fresh_root invocation)" unfolding fresh_root_def Let_def by (auto intro!: starting_rules)
  have four: "returns StartHung (populate_root path launch)" for path
    unfolding populate_root_def by (auto split: option.splits sum.splits intro!: starting_rules)
  have five: "returns StartHung (spawn_in env path launch)" for path
  proof -
    have total: "spawn os so root launch scope w \<noteq> (Inl e, w')" for root scope w e w'
      using spawn_returns [of e root launch scope] unfolding returns_def by (metis fst_conv)
    have "returns StartHung (\<lambda>g. case spawn (re_os env) (re_spawn env) (show_path path) launch (scope_of g) (gu_world g) of
         (Inl _, w) \<Rightarrow> (Inl StartHung, g\<lparr>gu_world := w\<rparr>)
       | (Inr r, w) \<Rightarrow> (Inr r, g\<lparr>gu_world := w\<rparr>))"
      by (auto simp: returns_def env total split: prod.splits sum.splits)
    then show ?thesis unfolding spawn_in_def by (auto split: sum.splits intro!: starting_rules)
  qed
  have identity: "returns StartHung (act_lift (map_err (\<lambda>e. Refused Executable (re_spec_text env e)) r))" for r :: "spec_error + unit"
    by (cases r) (simp_all add: returns_def)
  have "returns StartHung (start_inner env invocation launch)"
    unfolding start_inner_def prepare_launch_def
    by (auto intro!: starting_rules one two three four five identity)
  then show ?thesis by (auto simp: start_def returns_def split: prod.splits sum.splits start_error.splits) (metis fst_conv)
qed

lemma flush_or_die_returns: "re_os env = os \<Longrightarrow> returns Hung (flush_or_die env invocation message iv)"
  using serve_returns [OF flush_input_returns, of iv]
  by (auto simp: flush_or_die_def returns_def fatal_def split: prod.splits sum.splits rt_error.splits) (metis fst_conv)

lemma poll_service_returns: "re_os env = os \<Longrightarrow> returns Hung (poll_service env scope limits timeout)"
  by (simp only: poll_service_def)
    (intro returns_if returns_bind returns_pure count_reaped_returns flush_input_returns drain_ready_returns cleanup_returns)

lemma shutdown_service_returns: "re_os env = os \<Longrightarrow> returns Hung (shutdown_service env scope limits)"
  by (simp only: shutdown_service_def)
    (intro returns_if returns_bind returns_pure signal_members_returns cleanup_returns)

lemma perform_returns: "re_os env = os \<Longrightarrow> re_spawn env = so \<Longrightarrow> returns Hung (perform env call)"
proof (cases call)
  case (CallStart invocation launch)
  assume "re_os env = os" "re_spawn env = so"
  with CallStart show ?thesis by (simp add: start_returns)
next
  case (CallStdinWrite invocation offset bytes)
  assume env: "re_os env = os"
  have "returns Hung (stdin_write env invocation offset bytes)"
    unfolding stdin_write_def by (auto split: sum.splits intro!: running_rules flush_or_die_returns env)
  with CallStdinWrite show ?thesis by simp
next
  case (CallStdinEof invocation)
  assume env: "re_os env = os"
  have "returns Hung (stdin_eof env invocation)"
    unfolding stdin_eof_def by (auto intro!: running_rules flush_or_die_returns env)
  with CallStdinEof show ?thesis by simp
next
  case (CallTerminate invocation)
  assume env: "re_os env = os"
  have "returns Hung (terminate env invocation)"
    unfolding terminate_def env by (auto intro!: running_rules goes_on_lifted signal_members_returns)
  with CallTerminate show ?thesis by simp
next
  case (CallPoll timeout)
  assume env: "re_os env = os"
  have "returns Hung (poll env timeout)"
    unfolding poll_def by (auto split: option.splits prod.splits intro!: running_rules poll_service_returns env)
  with CallPoll show ?thesis by simp
next
  case CallShutdown
  assume env: "re_os env = os"
  have "returns Hung (shutdown env)"
    unfolding shutdown_def by (auto split: option.splits prod.splits intro!: running_rules shutdown_service_returns env)
  with CallShutdown show ?thesis by simp
qed

end

text \<open>
  C20. Every operation returns. On a kernel that interrupts calls and hands out children finitely
  often and whose clock advances, no start, write, end of input, termination, poll or shutdown
  loops forever, whatever the workload writes and however long it ignores its signals: the
  barrier gives up at its deadline.
\<close>
theorem operations_return:
  assumes "settling_spawn (re_os env) interruptions children clock (re_spawn env)"
  shows "fst (perform env call g) \<noteq> Inl Hung"
  using settling_spawn.perform_returns [OF assms refl refl, of call] by (simp add: returns_def)

section \<open>A scripted kernel\<close>

text \<open>
  A kernel that plays a script: what each read of a descriptor meets, the live and the dead
  processes with their statuses, a clock and the next free descriptor. A read takes the first
  entry of its descriptor, a signal moves every live process to the dead, a wait takes one.
\<close>

record script =
  sc_reads :: "(int \<times> (os_error + bytes)) list"
  sc_written :: bytes
  sc_alive :: "(int \<times> int) list"
  sc_dead :: "(int \<times> int) list"
  sc_clock :: nat
  sc_next :: int

definition script_read :: "int \<Rightarrow> nat \<Rightarrow> (script, os_error, bytes) action" where
  "script_read fd n w =
     (case List.find (\<lambda>(f, _). f = fd) (sc_reads w) of
        None \<Rightarrow> (Inr [], w)
      | Some (f, Inl e) \<Rightarrow> (Inl e, w\<lparr>sc_reads := remove1 (f, Inl e) (sc_reads w)\<rparr>)
      | Some (f, Inr bs) \<Rightarrow>
          (Inr (take n bs), w\<lparr>sc_reads := (if n < length bs then [(f, Inr (drop n bs))] else []) @ remove1 (f, Inr bs) (sc_reads w)\<rparr>))"

definition no_process :: os_error where
  "no_process = \<lparr>oe_kind = OtherKind, oe_raw = Some 3, oe_text = ''No such process''\<rparr>"

definition script_os :: "script guest_os" where
  "script_os =
     \<lparr>os_write = (\<lambda>fd bs w. (Inr (length bs), w\<lparr>sc_written := sc_written w @ bs\<rparr>)),
      os_read = script_read,
      os_close = (\<lambda>fd w. w),
      os_poll = (\<lambda>fds timeout w. (Inr (length fds), w)),
      os_sleep = (\<lambda>timeout w. w\<lparr>sc_clock := sc_clock w + timeout\<rparr>),
      os_now = (\<lambda>w. (sc_clock w, w\<lparr>sc_clock := sc_clock w + 1\<rparr>)),
      os_kill = (\<lambda>target signal w.
        if sc_alive w = [] then (Inl no_process, w)
        else (Inr (), if signal = 0 then w else w\<lparr>sc_alive := [], sc_dead := sc_dead w @ sc_alive w\<rparr>)),
      os_waitpid = (\<lambda>target w. case sc_dead w of [] \<Rightarrow> ((0, 0), w) | d # ds \<Rightarrow> (d, w\<lparr>sc_dead := ds\<rparr>)),
      os_wifexited = (\<lambda>status. status < 256),
      os_wexitstatus = (\<lambda>status. status),
      os_wifsignaled = (\<lambda>status. 256 \<le> status),
      os_wtermsig = (\<lambda>status. status - 256),
      os_proc = (\<lambda>w. (Inr (map (\<lambda>(pid, _). Inr (as_bytes (dec (nat pid)))) (sc_alive w)), w)),
      os_proc_stat = (\<lambda>pid w. (Inr (as_bytes (dec pid @ '' (app) S 1 1 1 0 -1 0 0'')), w)),
      os_pid = 1, os_esrch = 3, os_sha256 = (\<lambda>bs. take 32 (bs @ replicate 32 0))\<rparr>"

definition script_spawn :: "script spawn_os" where
  "script_spawn =
     \<lparr>so_pipe = (\<lambda>w. (Inr (sc_next w, sc_next w + 1), w\<lparr>sc_next := sc_next w + 2\<rparr>)),
      so_getfl = (\<lambda>fd w. (Inr 0, w)), so_setfl = (\<lambda>fd flags w. (Inr (), w)), so_nonblock = 2048,
      so_fork = (\<lambda>w. (Inr 42, w\<lparr>sc_alive := (42, 265) # sc_alive w\<rparr>)),
      so_waitpid = (\<lambda>pid w. (pid, w))\<rparr>"

lemma script_read_interrupted: "script_read fd n w = (Inl e, w') \<Longrightarrow> length (sc_reads w') < length (sc_reads w)"
proof -
  assume "script_read fd n w = (Inl e, w')"
  then obtain f where found: "List.find (\<lambda>(f, _). f = fd) (sc_reads w) = Some (f, Inl e)"
    and w': "w' = w\<lparr>sc_reads := remove1 (f, Inl e) (sc_reads w)\<rparr>"
    by (auto simp: script_read_def split: option.splits prod.splits sum.splits)
  from found have "(f, Inl e) \<in> set (sc_reads w)" by (auto simp: find_Some_iff in_set_conv_nth)
  then show ?thesis using length_pos_if_in_set by (fastforce simp: w' length_remove1)
qed

lemma script_read_clock: "script_read fd n w = (r, w') \<Longrightarrow> sc_clock w' = sc_clock w"
  by (auto simp: script_read_def split: option.splits prod.splits sum.splits)

interpretation scripted: settling_spawn script_os "\<lambda>w. length (sc_reads w)" "\<lambda>w. length (sc_dead w)" sc_clock script_spawn
  by unfold_locales
    (auto simp: script_os_def script_spawn_def dest: script_read_interrupted script_read_clock split: list.splits if_splits)

definition sample_config :: RuntimeConfig where
  "sample_config = \<lparr>rc_template = Some (TDir (sample_metadata 0x41ed) sample_entries), rc_runtime_root = [''run''],
     rc_limits = sample_limits, rc_scope = ProcessGroup\<rparr>"

definition sample_runtime_env :: "script runtime_env" where
  "sample_runtime_env = \<lparr>re_os = script_os, re_spawn = script_spawn, re_spec_text = (\<lambda>_. ''invalid launch''),
     re_frame_error = (\<lambda>_. invalid ''invalid frame'')\<rparr>"

definition sample_disk :: file_system where
  "sample_disk = sample_fs\<lparr>fs_nodes := (fs_nodes sample_fs)([''run'', ''invocation-1''] := None)\<rparr>"

definition sample_script :: script where
  "sample_script = \<lparr>sc_reads = [(12, Inr [0x68, 0x69]), (14, Inl (io_error_new Interrupted ''interrupted'')), (14, Inr [0x21])],
     sc_written = [], sc_alive = [], sc_dead = [], sc_clock = 0, sc_next = 10\<rparr>"

definition sample_calls :: "runtime_call list" where
  "sample_calls = [CallStart 1 sample_target, CallStdinWrite 1 0 (encode_bytes [1, 2, 3]), CallPoll 0, CallStdinEof 1,
     CallTerminate 1, CallPoll 0, CallStart 2 sample_target]"

definition sample_events :: "Event list" where
  "sample_events =
     [WorkloadStarted 1 sample_target, InputAccepted 1 3 3 False, WorkloadOutput 1 Stdout 0 1 ''6869'',
      WorkloadOutput 1 Stderr 0 2 ''21'', InputAccepted 1 3 0 True, TerminationRequested 1 9,
      WorkloadExited 1 (Signaled 9) 2 (''6869'' @ replicate 60 CHR ''0'') 1 (''21'' @ replicate 62 CHR ''0'') 2,
      CleanupComplete 1 1, WorkloadStarted 2 sample_target]"

definition sample_idle :: Runtime where
  "sample_idle = \<lparr>rn_config = sample_config, rn_active = None, rn_last_invocation = None, rn_pending_removal = None\<rparr>"

lemma sample_new: "fst (Runtime_new sample_runtime_env sample_config sample_disk) = Inr sample_idle"
  by code_simp

lemma sample_performed:
  "(case perform_all sample_runtime_env sample_calls
      (boot sample_idle (snd (Runtime_new sample_runtime_env sample_config sample_disk)) sample_script) of
      (r, g) \<Rightarrow> (r, rn_last_invocation (gu_runtime g))) = (Inr sample_events, Some 2)"
  by code_simp

theorem runtime_refines_session_witness:
  "\<exists>s. session_path (os_sha256 script_os) sample_limits session_new sample_events s \<and> sn_last s = Some 2"
proof -
  let ?disk = "snd (Runtime_new sample_runtime_env sample_config sample_disk)"
  let ?g = "snd (perform_all sample_runtime_env sample_calls (boot sample_idle ?disk sample_script))"
  have new: "Runtime_new sample_runtime_env sample_config sample_disk = (Inr sample_idle, ?disk)"
    using sample_new by (metis prod.collapse)
  have run: "perform_all sample_runtime_env sample_calls (boot sample_idle ?disk sample_script) = (Inr sample_events, ?g)"
    and last_invocation: "rn_last_invocation (gu_runtime ?g) = Some 2"
    using sample_performed by (auto split: prod.splits)
  have bounded: "bounded_limits (rc_limits sample_config)"
    by (simp add: bounded_limits_def sample_config_def sample_limits_def u64_max_eq)
  have "re_os sample_runtime_env = script_os" "rc_limits sample_config = sample_limits"
    by (simp_all add: sample_runtime_env_def sample_config_def)
  with runtime_refines_session [OF new bounded run] last_invocation show ?thesis
    by (intro exI [of _ "session_of (gu_runtime ?g)"]) (simp add: session_of_def)
qed

theorem operations_return_witness:
  "fst (perform sample_runtime_env (CallPoll 10)
     (snd (perform sample_runtime_env (CallStart 1 sample_target) (boot sample_idle sample_disk sample_script)))) \<noteq> Inl Hung"
proof (rule operations_return)
  show "settling_spawn (re_os sample_runtime_env) (\<lambda>w. length (sc_reads w)) (\<lambda>w. length (sc_dead w)) sc_clock
      (re_spawn sample_runtime_env)"
    using scripted.settling_spawn_axioms by (simp add: sample_runtime_env_def)
qed

end
