(* ===== verification/Evidence.thy ===== *)
theory Evidence
  imports Session Checker
begin

text \<open>
  The guest runtime and the checker together: a simulation between the abstract session, which the
  runtime refines, and the trace that the checker builds from the recorded events, and the
  agreement of the two on the evidence of every exit.
\<close>

section \<open>The events of the runtime in a recording\<close>

fun is_runtime_event :: "Event \<Rightarrow> bool" where
  "is_runtime_event (WorkloadStarted i launch) = True"
| "is_runtime_event (LaunchFailed i failure detail) = True"
| "is_runtime_event (InputAccepted i offset n eof) = True"
| "is_runtime_event (WorkloadOutput i stream offset seq text) = True"
| "is_runtime_event (TerminationRequested i signal) = True"
| "is_runtime_event (WorkloadExited i exit n1 d1 n2 d2 k) = True"
| "is_runtime_event (CleanupComplete i n) = True"
| "is_runtime_event _ = False"

definition runtime_history :: "EventFrame list \<Rightarrow> Event list" where
  "runtime_history hs = filter is_runtime_event (map ef_event hs)"

text \<open>What the checker has collected of an invocation that the session describes.\<close>

definition collected :: "WorkloadTrace \<Rightarrow> live_state \<Rightarrow> bool" where
  "collected t v \<longleftrightarrow> started t (lv_id v) \<and> (exited t (lv_id v) \<longleftrightarrow> lv_exited v)
     \<and> (\<forall>stream. \<exists>tagged. stream_ok stream (streams_at t (lv_id v)) tagged \<and> map snd tagged = lv_out v stream)
     \<and> is_frames (streams_at t (lv_id v)) = lv_frames v"

definition untouched :: "WorkloadTrace \<Rightarrow> nat \<Rightarrow> bool" where
  "untouched t i \<longleftrightarrow> \<not> started t i \<and> \<not> exited t i
     \<and> (\<forall>stream. stream_ok stream (streams_at t i) []) \<and> is_frames (streams_at t i) = 0"

definition accounted :: "(bytes \<Rightarrow> bytes) \<Rightarrow> WorkloadTrace \<Rightarrow> ExitRecord \<Rightarrow> bool" where
  "accounted sha t r \<longleftrightarrow> (let s = streams_at t (er_invocation r) in
     er_stdout_bytes r = length (is_stdout s) \<and> er_stdout_sha256 r = sha256_bytes sha (is_stdout s)
   \<and> er_stderr_bytes r = length (is_stderr s) \<and> er_stderr_sha256 r = sha256_bytes sha (is_stderr s)
   \<and> er_frames r = is_frames s)"

text \<open>The simulation between the session of the guest and the trace of the checker.\<close>

definition witnessed :: "(bytes \<Rightarrow> bytes) \<Rightarrow> session \<Rightarrow> WorkloadTrace \<Rightarrow> bool" where
  "witnessed sha s t \<longleftrightarrow> keyed t
     \<and> (case sn_live s of None \<Rightarrow> True | Some v \<Rightarrow> collected t v \<and> sn_last s = Some (lv_id v))
     \<and> (\<forall>i. newer i (sn_last s) \<longrightarrow> untouched t i)
     \<and> list_all (accounted sha t) (wt_exits t)"

lemma stream_bytes_view: "is_stdout s = sv_bytes (get_view Stdout s)" "is_stderr s = sv_bytes (get_view Stderr s)"
  by simp_all

lemma streams_at_violation [simp]: "streams_at (with_violation t m) i = streams_at t i"
  by (simp add: with_violation_def streams_at_def streams_of_def)

lemma records_violation [simp]:
  "started (with_violation t m) i = started t i" "exited (with_violation t m) i = exited t i"
  "wt_exits (with_violation t m) = wt_exits t" "wt_starts (with_violation t m) = wt_starts t"
  by (simp_all add: with_violation_def started_def exited_def)

lemma records_update [simp]:
  "started (update_streams t j f) i = started t i" "exited (update_streams t j f) i = exited t i"
  "wt_exits (update_streams t j f) = wt_exits t" "wt_starts (update_streams t j f) = wt_starts t"
  by (simp_all add: update_streams_def started_def exited_def)

text \<open>A step of the trace that leaves starts, exits and collected output alone.\<close>

definition unaffected :: "WorkloadTrace \<Rightarrow> WorkloadTrace \<Rightarrow> bool" where
  "unaffected t t' \<longleftrightarrow> wt_starts t' = wt_starts t \<and> wt_exits t' = wt_exits t
     \<and> (\<forall>i. (\<forall>stream. get_view stream (streams_at t' i) = get_view stream (streams_at t i))
          \<and> is_frames (streams_at t' i) = is_frames (streams_at t i))"

lemma unaffected_accounted:
  assumes "unaffected t t'" shows "accounted sha t' = accounted sha t"
  using assms by (simp add: accounted_def unaffected_def fun_eq_iff stream_bytes_view Let_def del: get_view.simps)

lemma unaffected_records:
  assumes "unaffected t t'"
  shows "started t' = started t" "exited t' = exited t" "collected t' = collected t" "untouched t' = untouched t"
proof -
  from assms have views: "get_view stream (streams_at t' i) = get_view stream (streams_at t i)"
    and frames: "is_frames (streams_at t' i) = is_frames (streams_at t i)" for stream i
    unfolding unaffected_def by blast+
  show flags: "started t' = started t" "exited t' = exited t"
    using assms by (simp_all add: unaffected_def started_def exited_def fun_eq_iff)
  have ok: "stream_ok stream (streams_at t' i) tagged = stream_ok stream (streams_at t i) tagged" for stream i tagged
    by (rule stream_ok_cong [OF views])
  show "collected t' = collected t" "untouched t' = untouched t"
    by (simp_all add: fun_eq_iff collected_def untouched_def flags ok frames)
qed

lemma witnessed_unaffected:
  assumes "witnessed sha s t" and "unaffected t t'" and "keyed t'"
  shows "witnessed sha s t'"
proof -
  have "wt_exits t' = wt_exits t" using assms(2) by (simp add: unaffected_def)
  with assms(1,3) show ?thesis
    by (simp add: witnessed_def unaffected_records [OF assms(2)] unaffected_accounted [OF assms(2)] split: option.splits)
qed

lemma unaffected_refl: "unaffected t t"
  by (simp add: unaffected_def)

lemma unaffected_violation: "unaffected t (with_violation t m)"
  by (simp add: unaffected_def)

lemma unaffected_silent: "\<not> is_runtime_event ev \<Longrightarrow> unaffected t (trace_event t e c ev)"
  by (cases ev) (simp_all add: unaffected_refl unaffected_violation unaffected_def [of t "t\<lparr>wt_configured := _\<rparr>"]
      unaffected_def [of t "t\<lparr>wt_activations := _\<rparr>"] unaffected_def [of t "t\<lparr>wt_restorations := _\<rparr>"] split: option.split list.split)

lemma unaffected_termination: "unaffected t (trace_event t e c (TerminationRequested i signal))"
  by (simp add: unaffected_refl unaffected_violation unaffected_def [of t "t\<lparr>wt_terminations := _\<rparr>"])

lemma unaffected_launch_failure: "unaffected t (trace_event t e c (LaunchFailed i failure detail))"
  by (simp add: unaffected_refl unaffected_violation unaffected_def [of t "t\<lparr>wt_launch_failures := _\<rparr>"])

lemma unaffected_cleanup: "unaffected t (trace_event t e c (CleanupComplete i n))"
  by (simp add: unaffected_refl unaffected_violation unaffected_def [of t "t\<lparr>wt_cleanups := _\<rparr>"] split: option.split)

lemma unaffected_input: "keyed t \<Longrightarrow> unaffected t (trace_event t e c (InputAccepted i offset n eof))"
proof -
  assume keyed: "keyed t"
  have "unaffected t (update_streams t i (push_input i e c offset n eof))"
    using push_input_effect [OF refl, of i e c offset n eof "streams_at t i"]
    by (simp add: unaffected_def streams_at_update [OF keyed] del: get_view.simps)
  then show ?thesis by (simp add: unaffected_violation)
qed

text \<open>An output frame of the live invocation.\<close>

lemma witnessed_output:
  assumes "witnessed sha s t" and live: "sn_live s = Some v" "\<not> lv_exited v"
    and b: "length b \<le> limit" "limit \<le> MAX_OUTPUT_FRAME_BYTES"
  shows "witnessed sha (s\<lparr>sn_live := Some (v\<lparr>lv_out := (lv_out v)(stream := lv_out v stream @ b), lv_frames := lv_frames v + 1\<rparr>)\<rparr>)
    (trace_event t e c (WorkloadOutput (lv_id v) stream offset seq (encode_bytes b)))"
proof -
  let ?i = "lv_id v" and ?s = "streams_at t (lv_id v)"
  let ?s' = "InvocationStreams_push e ?i stream offset seq b ?s"
  have keyed: "keyed t" and coll: "collected t v" and last_id: "sn_last s = Some ?i"
    and rest: "\<forall>i. newer i (sn_last s) \<longrightarrow> untouched t i" and exits: "list_all (accounted sha t) (wt_exits t)"
    using assms(1) live(1) by (auto simp: witnessed_def)
  have decode: "decode_bytes (encode_bytes b) MAX_OUTPUT_FRAME_BYTES = Inr b"
    using b by (subst decode_bytes_iff) (simp_all add: MAX_OUTPUT_FRAME_BYTES_def u64_max_eq)
  have flags: "started t ?i" "\<not> exited t ?i" using coll live(2) by (auto simp: collected_def)
  let ?t' = "update_streams t ?i (InvocationStreams_push e ?i stream offset seq b)"
  have step: "trace_event t e c (WorkloadOutput ?i stream offset seq (encode_bytes b)) = ?t'"
    using flags by (simp add: decode)
  have at: "streams_at ?t' j = (if j = ?i then ?s' else streams_at t j)" for j
    by (rule streams_at_update [OF keyed])
  have views: "\<exists>tagged. stream_ok st ?s' tagged \<and> map snd tagged = ((lv_out v)(stream := lv_out v stream @ b)) st" for st
  proof -
    from coll obtain tagged where tagged: "stream_ok stream ?s tagged" "map snd tagged = lv_out v stream"
      by (auto simp: collected_def)
    note push = push_effect [OF tagged(1) refl, of e ?i offset seq b]
    show ?thesis
    proof (cases "st = stream")
      case True
      with push tagged(2) show ?thesis by (intro exI [of _ "tagged @ map (Pair e) b"]) (simp add: comp_def)
    next
      case False
      from coll obtain other where "stream_ok st ?s other" "map snd other = lv_out v st" by (auto simp: collected_def)
      moreover from push False have view: "get_view st ?s' = get_view st ?s" by blast
      ultimately show ?thesis using False by (intro exI [of _ other]) (simp add: stream_ok_cong [OF view])
    qed
  qed
  have frames: "is_frames ?s' = lv_frames v + 1"
  proof -
    from coll obtain tagged where "stream_ok stream ?s tagged" by (auto simp: collected_def)
    from push_effect [OF this refl, of e ?i offset seq b] coll show ?thesis by (simp add: collected_def)
  qed
  have "accounted sha ?t' r" if "r \<in> set (wt_exits t)" for r
  proof -
    have "er_invocation r \<noteq> ?i" using that flags(2) by (auto simp: exited_def list_ex_iff)
    with exits that show ?thesis by (auto simp: accounted_def at list_all_iff)
  qed
  moreover have "untouched ?t' i" if "newer i (sn_last s)" for i
    using rest that last_id by (simp add: untouched_def at newer_def)
  moreover have "keyed ?t'" using trace_event_keyed [OF keyed, of e c "WorkloadOutput ?i stream offset seq (encode_bytes b)"] by (simp only: step)
  ultimately show ?thesis
    unfolding step using coll last_id views frames
    by (auto simp: witnessed_def collected_def at list_all_iff)
qed

lemma witnessed_started:
  assumes "witnessed sha s t" and "sn_live s = None" and new: "newer i (sn_last s)"
  shows "witnessed sha \<lparr>sn_last = Some i, sn_live = Some (live_new i)\<rparr> (trace_event t e c (WorkloadStarted i launch))"
proof -
  have keyed: "keyed t" and rest: "\<forall>i. newer i (sn_last s) \<longrightarrow> untouched t i" and exits: "list_all (accounted sha t) (wt_exits t)"
    using assms(1) by (simp_all add: witnessed_def)
  let ?t' = "t\<lparr>wt_starts := wt_starts t @ [\<lparr>sr_invocation = i, sr_launch = launch, sr_event_id = e\<rparr>]\<rparr>"
  have fresh: "untouched t i" using rest new by blast
  then have step: "trace_event t e c (WorkloadStarted i launch) = ?t'" by (simp add: untouched_def)
  have "collected ?t' (live_new i)"
    using fresh by (fastforce simp: collected_def untouched_def live_new_def started_def exited_def)
  moreover have "untouched ?t' j" if "newer j (Some i)" for j
  proof -
    have "newer j (sn_last s)" using that new by (auto simp: newer_def split: option.splits)
    with rest that show ?thesis by (auto simp: untouched_def newer_def started_def exited_def)
  qed
  moreover have "accounted sha ?t' = accounted sha t" by (simp add: fun_eq_iff accounted_def)
  moreover have "keyed ?t'" using keyed by (simp add: keyed_def)
  ultimately show ?thesis unfolding step using exits by (simp add: witnessed_def live_new_def)
qed

lemma witnessed_exited:
  assumes "witnessed sha s t" and live: "sn_live s = Some v" "\<not> lv_exited v"
  shows "witnessed sha (s\<lparr>sn_live := Some (v\<lparr>lv_exited := True\<rparr>)\<rparr>)
    (trace_event t e c (WorkloadExited (lv_id v) exit (length (lv_out v Stdout)) (hex_text (sha (lv_out v Stdout)))
       (length (lv_out v Stderr)) (hex_text (sha (lv_out v Stderr))) (lv_frames v)))"
proof -
  have keyed: "keyed t" and coll: "collected t v" and last_id: "sn_last s = Some (lv_id v)"
    and rest: "\<forall>i. newer i (sn_last s) \<longrightarrow> untouched t i" and exits: "list_all (accounted sha t) (wt_exits t)"
    using assms(1) live(1) by (auto simp: witnessed_def)
  let ?r = "\<lparr>er_invocation = lv_id v, er_exit = exit, er_stdout_bytes = length (lv_out v Stdout),
     er_stdout_sha256 = hex_text (sha (lv_out v Stdout)), er_stderr_bytes = length (lv_out v Stderr),
     er_stderr_sha256 = hex_text (sha (lv_out v Stderr)), er_frames = lv_frames v, er_event_id = e\<rparr>"
  let ?t' = "t\<lparr>wt_exits := wt_exits t @ [?r]\<rparr>"
  have flags: "started t (lv_id v)" "\<not> exited t (lv_id v)" using coll live(2) by (auto simp: collected_def)
  have bytes: "sv_bytes (get_view stream (streams_at t (lv_id v))) = lv_out v stream" for stream
  proof -
    from coll obtain tagged where "stream_ok stream (streams_at t (lv_id v)) tagged" "map snd tagged = lv_out v stream"
      by (auto simp: collected_def)
    then show ?thesis by (simp add: stream_ok_def)
  qed
  have "accounted sha t ?r"
    using coll by (simp add: accounted_def sha256_bytes_def stream_bytes_view bytes collected_def del: get_view.simps)
  moreover have "accounted sha ?t' = accounted sha t" by (simp add: fun_eq_iff accounted_def)
  moreover have "collected ?t' (v\<lparr>lv_exited := True\<rparr>)"
    using coll by (simp add: collected_def started_def exited_def)
  moreover have "untouched ?t' i" if "newer i (sn_last s)" for i
    using rest that last_id by (auto simp: untouched_def newer_def started_def exited_def)
  moreover have "keyed ?t'" using keyed by (simp add: keyed_def)
  ultimately show ?thesis using flags exits last_id by (simp add: witnessed_def)
qed

lemma live_input [simp]: "collected t (v\<lparr>lv_input := n\<rparr>) = collected t v" "collected t (v\<lparr>lv_eof := b\<rparr>) = collected t v"
  "collected t (v\<lparr>lv_terminating := b\<rparr>) = collected t v"
  by (simp_all add: collected_def)

lemma witnessed_step:
  assumes "session_step sha limits s ev s'" and "witnessed sha s t" and "rl_output_frame_bytes limits \<le> MAX_OUTPUT_FRAME_BYTES"
  shows "witnessed sha s' (trace_event t e c ev)"
proof -
  have keyed: "keyed (trace_event t e c ev)" using assms(2) by (simp add: witnessed_def trace_event_keyed)
  note same = witnessed_unaffected [OF assms(2) _ keyed]
  have input: "ev = InputAccepted i offset n eof \<Longrightarrow> witnessed sha s (trace_event t e c ev)" for i offset n eof
    using assms(2) by (intro same) (simp add: unaffected_input witnessed_def del: trace_event.simps)
  show ?thesis
    using assms(1)
  proof cases
    case (se_started i l)
    with witnessed_started [OF assms(2)] show ?thesis by (simp del: trace_event.simps)
  next
    case (se_refused i failure detail)
    with same unaffected_launch_failure show ?thesis by (simp del: trace_event.simps)
  next
    case (se_spoiled i failure detail)
    with same unaffected_launch_failure have "witnessed sha s (trace_event t e c ev)" by (simp del: trace_event.simps)
    with se_spoiled show ?thesis
      by (auto simp: witnessed_def newer_def split: option.splits simp del: trace_event.simps)
  next
    case (se_input v n)
    with input show ?thesis by (auto simp: witnessed_def simp del: trace_event.simps)
  next
    case (se_input_end v)
    with input show ?thesis by (auto simp: witnessed_def simp del: trace_event.simps)
  next
    case (se_terminating v)
    with same unaffected_termination have "witnessed sha s (trace_event t e c ev)" by (simp del: trace_event.simps)
    with se_terminating show ?thesis by (auto simp: witnessed_def simp del: trace_event.simps)
  next
    case (se_output v b stream)
    with witnessed_output [OF assms(2), of v b "rl_output_frame_bytes limits"] assms(3) show ?thesis
      by (simp del: trace_event.simps)
  next
    case (se_exited v exit)
    with witnessed_exited [OF assms(2)] show ?thesis by (simp del: trace_event.simps)
  next
    case (se_cleaned v reaped)
    with same unaffected_cleanup have "witnessed sha s (trace_event t e c ev)" by (simp del: trace_event.simps)
    with se_cleaned show ?thesis by (auto simp: witnessed_def simp del: trace_event.simps)
  qed
qed

lemma witnessed_new: "witnessed sha session_new WorkloadTrace_default"
proof -
  have "streams_at WorkloadTrace_default i = InvocationStreams_default" for i
    by (simp add: streams_at_def streams_of_def WorkloadTrace_default_def)
  moreover have "stream_ok stream InvocationStreams_default []" for stream
    by (cases stream) (simp_all add: stream_ok_def assembled_def InvocationStreams_default_def head_event_def)
  ultimately show ?thesis
    by (simp add: witnessed_def session_new_def keyed_def untouched_def started_def exited_def)
      (simp add: WorkloadTrace_default_def InvocationStreams_default_def)
qed

lemma witnessed_path:
  assumes "session_path sha limits s (runtime_history hs) s'" and "witnessed sha s t"
    and "rl_output_frame_bytes limits \<le> MAX_OUTPUT_FRAME_BYTES"
  shows "witnessed sha s' (foldl WorkloadTrace_push t hs)"
  using assms
proof (induction hs arbitrary: s t)
  case Nil
  then show ?case by (simp add: runtime_history_def)
next
  case (Cons f hs)
  let ?t = "WorkloadTrace_push t f"
  show ?case
  proof (cases "is_runtime_event (ef_event f)")
    case True
    with Cons.prems(1) obtain s1 where "session_step sha limits s (ef_event f) s1" "session_path sha limits s1 (runtime_history hs) s'"
      by (auto simp: runtime_history_def session_path_Cons)
    with Cons.IH [of s1 ?t] witnessed_step [OF _ Cons.prems(2,3)] Cons.prems(3) show ?thesis
      by (simp add: WorkloadTrace_push_def)
  next
    case False
    have "keyed ?t" using Cons.prems(2) by (simp add: WorkloadTrace_push_def witnessed_def trace_event_keyed)
    with witnessed_unaffected [OF Cons.prems(2)] unaffected_silent [OF False] have "witnessed sha s ?t"
      by (simp add: WorkloadTrace_push_def)
    with Cons False show ?thesis by (simp add: runtime_history_def)
  qed
qed

section \<open>Agreement\<close>

text \<open>
  C4. The guest and the checker agree on the evidence of an exit. Let an accepted runtime perform
  any operations against any kernel, and let its events reach the controller in order among any
  other events. Then every exit record the checker keeps gives exactly the number of frames, the
  number of bytes and the digest of each stream that the checker itself collected from the frames
  of that invocation.
\<close>
theorem exit_evidence_agrees:
  assumes "Runtime_new env config fs = (Inr r, fs')" and "bounded_limits (rc_limits config)"
    and "perform_all env calls (boot r fs' w) = (Inr (runtime_history hs), g')"
    and "exit \<in> set (wt_exits (trace_of hs))"
  shows "let s = streams_at (trace_of hs) (er_invocation exit); sha = os_sha256 (re_os env) in
     er_stdout_bytes exit = length (is_stdout s) \<and> er_stdout_sha256 exit = sha256_bytes sha (is_stdout s)
   \<and> er_stderr_bytes exit = length (is_stderr s) \<and> er_stderr_sha256 exit = sha256_bytes sha (is_stderr s)
   \<and> er_frames exit = is_frames s"
proof -
  note new = Runtime_new_idle [OF assms(1)]
  have "advances (os_sha256 (re_os env)) (boot r fs' w) (runtime_history hs) g'"
    using assms(2) by (intro perform_all_advances [OF assms(3)]) (simp_all add: boot_def new(1) runtime_sound_def limits_of_def)
  then have path: "session_path (os_sha256 (re_os env)) (rc_limits config) session_new (runtime_history hs) (session_of (gu_runtime g'))"
    by (simp add: advances_def boot_def new(1) limits_of_def session_of_def session_new_def)
  have "rl_output_frame_bytes (rc_limits config) \<le> MAX_OUTPUT_FRAME_BYTES"
    using new(2) by (simp add: validate_limits_def split: if_splits)
  from witnessed_path [OF path witnessed_new this] assms(4) show ?thesis
    by (simp add: witnessed_def trace_of_def list_all_iff accounted_def Let_def)
qed

text \<open>The run against the scripted kernel as a recording, with a network event in between.\<close>

definition sample_recording :: "EventFrame list" where
  "sample_recording =
     map (\<lambda>(n, e). event_frame (n + 1) 1 e) (enumerate 0 (take 4 sample_events @ [NetworkRestored ''10.0.2.2/32''] @ drop 4 sample_events))"

theorem exit_evidence_agrees_witness:
  "\<exists>r. wt_exits (trace_of sample_recording) = [r] \<and> er_stdout_bytes r = 2
     \<and> er_stdout_bytes r = length (is_stdout (streams_at (trace_of sample_recording) 1))
     \<and> er_stdout_sha256 r = sha256_bytes (os_sha256 script_os) (is_stdout (streams_at (trace_of sample_recording) 1))"
proof -
  let ?disk = "snd (Runtime_new sample_runtime_env sample_config sample_disk)"
  let ?g = "snd (perform_all sample_runtime_env sample_calls (boot sample_idle ?disk sample_script))"
  let ?r = "\<lparr>er_invocation = 1, er_exit = Signaled 9, er_stdout_bytes = 2, er_stdout_sha256 = ''6869'' @ replicate 60 CHR ''0'',
     er_stderr_bytes = 1, er_stderr_sha256 = ''21'' @ replicate 62 CHR ''0'', er_frames = 2, er_event_id = 8\<rparr>"
  have new: "Runtime_new sample_runtime_env sample_config sample_disk = (Inr sample_idle, ?disk)"
    using sample_new by (metis prod.collapse)
  have events: "runtime_history sample_recording = sample_events"
    by (simp add: runtime_history_def sample_recording_def sample_events_def event_frame_def)
  have run: "perform_all sample_runtime_env sample_calls (boot sample_idle ?disk sample_script) = (Inr (runtime_history sample_recording), ?g)"
    using sample_performed unfolding events by (auto split: prod.splits)
  have bounded: "bounded_limits (rc_limits sample_config)"
    by (simp add: bounded_limits_def sample_config_def sample_limits_def u64_max_eq)
  have exits: "wt_exits (trace_of sample_recording) = [?r]" by code_simp
  have "re_os sample_runtime_env = script_os" by (simp add: sample_runtime_env_def)
  with exit_evidence_agrees [OF new bounded run, of ?r] exits show ?thesis by (simp add: Let_def)
qed

end
