(* ===== verification/Spec2Isabelle.thy ===== *)
theory Spec2Isabelle
  imports Publication Workload_Controller Evidence
begin

text \<open>
  A verification library for SimFerret, the deterministic workload simulator under
  \<open>src/crates/simferret/src\<close>.

  The program assembles a workload (a static binary or an OCI image) into a canonical file system,
  boots it in a virtual machine under the control of a guest agent, drives it through a scenario
  with a network fault and a process fault, records every event, checks the recording against
  assertions and replays it. The parts and the theories that model them:

  \<^item> \<open>Base\<close>, \<open>Action\<close>, \<open>Loop\<close>: the prelude. Machine integers and texts of the sources, results as
    sums, loops over lists, stateful code that may fail as actions on an explicit state, and loops
    that retry until a call settles, with the value \<open>hung\<close> for a loop that never does. The locales
    \<open>progress\<close> (a relation between the states before and after), \<open>fallible_step\<close>, \<open>prefix_code\<close> and
    \<open>monitor\<close> carry relations, invariants and round trips through sequences, so that a component only shows them for its primitive calls.
  \<^item> \<open>Canonical_Tree\<close> (\<open>workload/tree.rs\<close>): entries, the ordered map of paths, path normal forms,
    symbolic links, the canonical serialization and its digest, the guest template. The digest
    identifies the tree, link validation is equivalent to walking the link, and the template reads
    back as the tree.
  \<^item> \<open>Launch\<close> (\<open>workload/spec.rs\<close>), \<open>Static_Elf\<close> (\<open>workload/mod.rs\<close>): the workload specification,
    the launch identity and its declarative contract, overlay compatibility and the ELF checks.
  \<^item> \<open>Oci_Layer\<close>, \<open>Oci_Image\<close> (\<open>workload/oci.rs\<close>), \<open>Json\<close>: layers, their application as the
    overlay of the image specification, the image graph. The manifest digest determines what is
    derived from an image, and what is derived is well formed.
  \<^item> \<open>Host_Root\<close> (\<open>workload/root.rs\<close>), \<open>Store\<close>, \<open>Publication\<close> (\<open>workload/store.rs\<close>): the opened directory
    over an explicit host file system in which every call is counted and can fail, assembly of both
    sources, publication and load. The locale \<open>host_steps\<close> carries what no call may touch through
    every operation: a failed publication commits nothing, what was assembled loads whatever faults
    came before, loads are content addressed, and a new store takes every accepted workload. Loading
    an image relies on a manifest digest in lower case, and without it can fail.
  \<^item> \<open>Protocol\<close> (\<open>protocol.rs\<close>): commands, events, framing and exact bytes; framing and
    hexadecimal encoding are inverted by their readers.
  \<^item> \<open>Assertions\<close> (\<open>assertions.rs\<close>), \<open>Scenario_Plan\<close> (\<open>scenario.rs\<close>), \<open>Fixture\<close> (\<open>fixture.rs\<close>
    and the served files of \<open>run.rs\<close>): the evaluation of a network run, scenarios with their
    seeded choices, and the TFTP client against the planned files.
  \<^item> \<open>Agent\<close> (\<open>agent.rs\<close>, \<open>runtime_stub.rs\<close>): the guest agent, its dispatch, both control loops
    and the serial buffer. Its history is a run of the network state machine, whatever runtime it
    holds that keeps the locale \<open>workload_runtime\<close>.
  \<^item> \<open>Guest_Process\<close>, \<open>Guest_Root\<close>, \<open>Guest_Child\<close>, \<open>Runtime\<close>, \<open>Session\<close> (\<open>runtime.rs\<close>): the
    process runtime of the guest. Input queue, bounded and fair output batches, reaping and the
    cleanup barrier; template validation and the materialized root over an explicit file system;
    the descriptors and credentials of the child before \<open>execve\<close>; the operations the agent calls.
    Any sequence of operations refines the abstract \<open>session\<close>, every operation returns on a kernel
    that lets time pass, and the operations provide \<open>workload_runtime\<close>.
  \<^item> \<open>Checker_Trace\<close>, \<open>Checker\<close> (\<open>checker.rs\<close>): the facts of a workload run reconstructed from its
    events, and the report over them. Line cutting equals cutting the whole stream, also in a
    history with violations; a passing
    report means the process, integrity and fault contracts hold of the recorded events.
  \<^item> \<open>Evidence\<close>: runtime and checker composed. What the guest reports of an exit is what the checker
    collected, for every run of the runtime.
  \<^item> \<open>Vm\<close> (\<open>vm.rs\<close>), \<open>Controller\<close>, \<open>Workload_Controller\<close> (\<open>run.rs\<close>): machine identities and the
    serial channel, the network controller and the workload controller. Recordings are faithful,
    every completed recording replays, and a completed run evaluates the events it kept.

  The host file system of \<open>Host_Root\<close> maps paths to directories, files and links, and follows what POSIX
  documents of the calls used; nothing else writes to the store while an operation runs, and an
  interrupted write leaves a prefix of its bytes. Reading a specification is split from its
  assembly: \<open>assemble\<close> starts from a parsed specification and the directory it lies in.

  State is a record per component, and an operation is a function to a result and the state it
  leaves; an error keeps the changes made before it. Operating system calls, SHA-256, the JSON and
  TOML readers, gzip and tar are parameters of the definitions that use them, with what is relied
  on as hypotheses. Numbers that the sources bound are natural numbers with the saturating and
  checked operations written out; the ELF reader, the choice generator, modes and owners are words.

  Loops run on the data of the code (lists, remaining bytes, remaining entries) or, where the code
  loops until a system call settles, as \<open>Loop\<close> actions whose return is proved for kernels with
  finitely many interruptions; there is no fuel in the definitions of the sources.

  Simplified: writes of the agent to its control channel succeed (those of the host to the machine may
  fail at every call); an OCI layout is read as one view; the texts of an image configuration that
  \<open>normalize_launch\<close> converts are valid UTF-8.

  Not modelled: starting QEMU and its monitor protocol, manifests, failure bundles and the build of
  images in \<open>run.rs\<close> and \<open>vm.rs\<close>, which are file and process I/O around the modelled controllers;
  \<open>main.rs\<close>, \<open>guest.rs\<close> and \<open>diagnostics.rs\<close>, which parse arguments, mount file systems and
  format errors.
\<close>

end
